(* ===== verification/Prelude.thy ===== *)
theory Prelude
  imports Main
begin

section \<open>Prelude: names, collections and generic lemmas\<close>

text \<open>
  What the component theories share: the types that stand for Go's built-in ones, the
  string functions of the standard library the sources call, the file system the durable
  components write to, and generic lemmas on lists, options and maps.

  Go's \<open>int\<close>, \<open>int32\<close> counters and \<open>time.Duration\<close> are \<open>int\<close>; where the width or a
  saturation matters it is written out in the component. A Go \<open>string\<close> is a list of bytes
  (\<open>string\<close>), and the functions of package \<open>strings\<close> below are their restriction to ASCII
  text. An instant (\<open>time.Time\<close>) is the number of nanoseconds since the Unix epoch, with the
  zero value of the type as the constant \<open>zero_time\<close>; \<open>time_sub\<close> is \<open>Time.Sub\<close>, which saturates
  at the bounds of the 64-bit duration.
\<close>

named_theorems frame_simps \<open>fields an operation leaves alone\<close>
named_theorems step_simps \<open>unfolding of operations for evaluation\<close>

type_synonym instant = int
type_synonym duration = int

definition zero_time :: instant where
  "zero_time = - 62135596800000000000"

definition second :: duration where
  "second = 1000000000"

definition minute :: duration where
  "minute = 60 * second"

definition hour :: duration where
  "hour = 60 * minute"

lemmas duration_defs = second_def minute_def hour_def

definition max_duration :: duration where
  "max_duration = 9223372036854775807"

definition min_duration :: duration where
  "min_duration = - 9223372036854775808"

definition time_sub :: "instant \<Rightarrow> instant \<Rightarrow> duration" where
  "time_sub t u = max min_duration (min max_duration (t - u))"

lemma time_sub_ge: "d \<le> max_duration \<Longrightarrow> u + d \<le> t \<Longrightarrow> d \<le> time_sub t u"
  by (simp add: time_sub_def)

subsection \<open>Strings\<close>

definition is_space :: "char \<Rightarrow> bool" where
  "is_space c \<longleftrightarrow> c \<in> {CHR '' '', CHR 0x09, CHR 0x0A, CHR 0x0B, CHR 0x0C, CHR 0x0D}"

definition trim_space :: "string \<Rightarrow> string" where
  "trim_space s = rev (dropWhile is_space (rev (dropWhile is_space s)))"

definition trim_char :: "char \<Rightarrow> string \<Rightarrow> string" where
  "trim_char c s = rev (dropWhile ((=) c) (rev (dropWhile ((=) c) s)))"

definition lower_char :: "char \<Rightarrow> char" where
  "lower_char c = (let n = of_char c :: nat in if 65 \<le> n \<and> n \<le> 90 then char_of (n + 32) else c)"

definition to_lower :: "string \<Rightarrow> string" where
  "to_lower s = map lower_char s"

fun split_char :: "char \<Rightarrow> string \<Rightarrow> string list" where
  "split_char c [] = [[]]"
| "split_char c (x # s) =
     (if x = c then [] # split_char c s
      else case split_char c s of [] \<Rightarrow> [[x]] | w # ws \<Rightarrow> (x # w) # ws)"

fun has_prefix :: "'a list \<Rightarrow> 'a list \<Rightarrow> bool" where
  "has_prefix s [] = True"
| "has_prefix [] (p # ps) = False"
| "has_prefix (c # s) (p # ps) = (c = p \<and> has_prefix s ps)"

fun contains_sub :: "'a list \<Rightarrow> 'a list \<Rightarrow> bool" where
  "contains_sub [] p = (p = [])"
| "contains_sub (c # s) p = (has_prefix (c # s) p \<or> contains_sub s p)"

text \<open>The decimal numeral \<open>%d\<close> prints, and the number a numeral stands for.\<close>

fun decimal :: "nat \<Rightarrow> string" where
  "decimal n = (if n < 10 then [char_of (48 + n)] else decimal (n div 10) @ [char_of (48 + n mod 10)])"

declare decimal.simps [simp del]

definition show_int :: "int \<Rightarrow> string" where
  "show_int k = (if k < 0 then CHR ''-'' # decimal (nat (- k)) else decimal (nat k))"

definition numeral_value :: "string \<Rightarrow> nat" where
  "numeral_value s = foldl (\<lambda>n c. 10 * n + (of_char c - 48)) 0 s"

lemma of_char_digit: "n < 10 \<Longrightarrow> (of_char (char_of (48 + n) :: char) :: nat) = 48 + n" for n :: nat
  by simp

lemma numeral_value_decimal [simp]: "numeral_value (decimal n) = n"
proof (induction n rule: decimal.induct)
  case (1 n)
  show ?case
  proof (cases "n < 10")
    case True
    then show ?thesis by (simp add: decimal.simps [of n] numeral_value_def of_char_digit)
  next
    case False
    with 1 have "numeral_value (decimal (n div 10)) = n div 10" by simp
    with False show ?thesis by (subst decimal.simps) (simp add: numeral_value_def of_char_digit)
  qed
qed

lemma decimal_inj: "decimal m = decimal n \<Longrightarrow> m = n"
  by (metis numeral_value_decimal)

lemma set_decimal: "c \<in> set (decimal n) \<Longrightarrow> 48 \<le> (of_char c :: nat) \<and> (of_char c :: nat) \<le> 57"
proof (induction n rule: decimal.induct)
  case (1 n)
  show ?case
  proof (cases "n < 10")
    case True
    with 1(2) show ?thesis by (simp add: decimal.simps [of n] of_char_digit)
  next
    case False
    from 1(2) have "c \<in> set (decimal (n div 10)) \<or> c = char_of (48 + n mod 10)"
      by (subst (asm) decimal.simps) (use False in auto)
    then show ?thesis
    proof
      assume "c = char_of (48 + n mod 10)"
      then show ?thesis by (simp only: of_char_digit) simp
    qed (rule 1(1) [OF False])
  qed
qed

lemma decimal_not_Nil [simp]: "decimal n \<noteq> []"
  by (subst decimal.simps) simp

fun join_strings :: "string \<Rightarrow> string list \<Rightarrow> string" where
  "join_strings sep [] = []"
| "join_strings sep [s] = s"
| "join_strings sep (s # t # ss) = s @ sep @ join_strings sep (t # ss)"

lemma dropWhile_idem_hd: "dropWhile P xs = y # ys \<Longrightarrow> \<not> P y"
  by (metis hd_dropWhile list.discI list.sel(1))

lemma set_trim_space: "set (trim_space s) \<subseteq> set s"
  unfolding trim_space_def by (metis set_dropWhileD set_rev subsetI)

lemma set_trim_char: "set (trim_char c s) \<subseteq> set s"
  unfolding trim_char_def by (metis set_dropWhileD set_rev subsetI)

lemma length_trim_char: "length (trim_char c s) \<le> length s"
  by (metis length_dropWhile_le length_rev order_trans trim_char_def)

lemma hd_trim_char: "trim_char c s \<noteq> [] \<Longrightarrow> hd (trim_char c s) \<noteq> c"
proof -
  assume ne: "trim_char c s \<noteq> []"
  define d where "d = dropWhile ((=) c) s"
  have t: "trim_char c s = rev (dropWhile ((=) c) (rev d))"
    by (simp add: trim_char_def d_def)
  then obtain zs where zs: "d = trim_char c s @ zs"
    by (metis rev_append rev_rev_ident takeWhile_dropWhile_id)
  with ne have "hd (trim_char c s) = hd d" and "d \<noteq> []" by auto
  then show ?thesis using hd_dropWhile [of "(=) c" s] by (auto simp: d_def)
qed

lemma last_trim_char: "trim_char c s \<noteq> [] \<Longrightarrow> last (trim_char c s) \<noteq> c"
  by (metis hd_dropWhile last_rev rev_is_Nil_conv trim_char_def)

subsection \<open>Lists and options\<close>

lemma find_Some_in: "find P xs = Some x \<Longrightarrow> x \<in> set xs \<and> P x"
  by (induction xs) (auto split: if_splits)

lemma find_None_notin: "find P xs = None \<longleftrightarrow> (\<forall>x \<in> set xs. \<not> P x)"
  by (induction xs) auto

lemma filter_length_map_eq:
  "(\<And>x. x \<in> set xs \<Longrightarrow> P (f x) = P x) \<Longrightarrow> length (filter P (map f xs)) = length (filter P xs)"
  by (induction xs) auto

lemma distinct_filter_map:
  "distinct (map f xs) \<Longrightarrow> distinct (map f (filter P xs))"
  by (induction xs) auto

definition remove_nth :: "nat \<Rightarrow> 'a list \<Rightarrow> 'a list" where
  "remove_nth i xs = take i xs @ drop (Suc i) xs"
text \<open>Replacing or removing the entry at an index.\<close>

lemma count_filter_update:
  "i < length xs \<Longrightarrow>
   count_list (map f (filter P (xs[i := x]))) y + (if P (xs ! i) \<and> f (xs ! i) = y then 1 else 0) =
    count_list (map f (filter P xs)) y + (if P x \<and> f x = y then 1 else 0)"
proof (induction xs arbitrary: i)
  case (Cons z xs)
  show ?case
  proof (cases i)
    case 0 with Cons.prems show ?thesis by auto
  next
    case (Suc k)
    with Cons.prems have "k < length xs" by simp
    from Cons.IH [OF this] Suc show ?thesis by auto
  qed
qed simp

lemma remove_nth_Cons [simp]: "remove_nth 0 (x # xs) = xs" "remove_nth (Suc i) (x # xs) = x # remove_nth i xs"
  by (simp_all add: remove_nth_def)

lemma count_filter_remove:
  "i < length xs \<Longrightarrow>
   count_list (map f (filter P (remove_nth i xs))) y + (if P (xs ! i) \<and> f (xs ! i) = y then 1 else 0) =
    count_list (map f (filter P xs)) y"
proof (induction xs arbitrary: i)
  case (Cons z xs)
  show ?case
  proof (cases i)
    case 0 with Cons.prems show ?thesis by auto
  next
    case (Suc k)
    with Cons.prems have "k < length xs" by simp
    from Cons.IH [OF this] Suc show ?thesis by auto
  qed
qed simp

lemma length_filter_remove:
  "i < length xs \<Longrightarrow> length (filter P (remove_nth i xs)) + (if P (xs ! i) then 1 else 0) = length (filter P xs)"
proof (induction xs arbitrary: i)
  case (Cons z xs)
  show ?case
  proof (cases i)
    case 0 with Cons.prems show ?thesis by auto
  next
    case (Suc k)
    with Cons.prems have "k < length xs" by simp
    from Cons.IH [OF this] Suc show ?thesis by auto
  qed
qed simp

lemma count_map_filter_remove:
  "i < length xs \<Longrightarrow>
   count_list (List.map_filter f (remove_nth i xs)) y + (if f (xs ! i) = Some y then 1 else 0) =
    count_list (List.map_filter f xs) y"
proof (induction xs arbitrary: i)
  case (Cons z xs)
  show ?case
  proof (cases i)
    case 0 with Cons.prems show ?thesis by (auto simp: map_filter_simps split: option.splits)
  next
    case (Suc k)
    with Cons.prems have "k < length xs" by simp
    from Cons.IH [OF this] Suc show ?thesis by (auto simp: map_filter_simps split: option.splits)
  qed
qed simp

lemma length_map_filter_remove:
  "i < length xs \<Longrightarrow>
   length (List.map_filter f (remove_nth i xs)) + (if f (xs ! i) = None then 0 else 1) = length (List.map_filter f xs)"
proof (induction xs arbitrary: i)
  case (Cons z xs)
  show ?case
  proof (cases i)
    case 0 with Cons.prems show ?thesis by (auto simp: map_filter_simps split: option.splits)
  next
    case (Suc k)
    with Cons.prems have "k < length xs" by simp
    from Cons.IH [OF this] Suc show ?thesis by (auto simp: map_filter_simps split: option.splits)
  qed
qed simp

lemma length_filter_update:
  "i < length ks \<Longrightarrow>
   length (filter P (ks[i := k])) + (if P (ks ! i) then 1 else 0) = length (filter P ks) + (if P k then 1 else 0)"
proof (induction ks arbitrary: i)
  case (Cons x ks) then show ?case by (cases i) auto
qed simp

end
