(* ===== verification/DurableFile.thy ===== *)
theory DurableFile
  imports Prelude
begin

section \<open>Durable state files\<close>

text \<open>
  The updater's components keep their state in small JSON files, replaced as a whole
  (\<open>atomicWriteState\<close> and \<open>replaceStateFile\<close> of \<open>internal/update/drain.go\<close>). The file
  system is a map from paths to contents together with a fault script: each system call
  consumes one entry, and \<open>True\<close> makes that call fail. An exhausted script means that every
  further call succeeds. A failed rename or remove leaves the directory as it was; a failed
  write leaves no content at its path. The theorems quantify over all scripts, so they hold
  for every pattern of failing calls.

  The interface the durable components rely on is the locale \<open>durable_slot\<close>: a write that
  reports success can be read back, a write that reports an error left the slot alone. It is
  interpreted on the POSIX branch of the code; \<open>replace_windows_can_lose\<close> shows why the
  fallback for other systems does not satisfy it.
\<close>

datatype fs_error = FsFault | FsNotExist

record 'c fs =
  fs_files :: "string \<rightharpoonup> 'c"
  fs_faults :: "bool list"

definition fs_fault :: "'c fs \<Rightarrow> bool" where
  "fs_fault s = (case fs_faults s of [] \<Rightarrow> False | b # _ \<Rightarrow> b)"

definition fs_tick :: "'c fs \<Rightarrow> 'c fs" where
  "fs_tick s = s\<lparr>fs_faults := tl (fs_faults s)\<rparr>"

lemma fs_tick_files [simp]: "fs_files (fs_tick s) = fs_files s"
  by (simp add: fs_tick_def)

subsection \<open>System calls of package os\<close>

definition os_mkdir_all :: "'c fs \<Rightarrow> fs_error option \<times> 'c fs" where
  "os_mkdir_all s = (if fs_fault s then (Some FsFault, fs_tick s) else (None, fs_tick s))"

definition os_read_file :: "string \<Rightarrow> 'c fs \<Rightarrow> (fs_error + 'c) \<times> 'c fs" where
  "os_read_file p s =
     (if fs_fault s then (Inl FsFault, fs_tick s)
      else case fs_files s p of
             None \<Rightarrow> (Inl FsNotExist, fs_tick s)
           | Some c \<Rightarrow> (Inr c, fs_tick s))"

definition os_write_file :: "string \<Rightarrow> 'c \<Rightarrow> 'c fs \<Rightarrow> fs_error option \<times> 'c fs" where
  "os_write_file p c s =
     (if fs_fault s then (Some FsFault, (fs_tick s)\<lparr>fs_files := (fs_files s)(p := None)\<rparr>)
      else (None, (fs_tick s)\<lparr>fs_files := (fs_files s)(p \<mapsto> c)\<rparr>))"

definition os_rename :: "string \<Rightarrow> string \<Rightarrow> 'c fs \<Rightarrow> fs_error option \<times> 'c fs" where
  "os_rename src dst s =
     (if fs_fault s then (Some FsFault, fs_tick s)
      else case fs_files s src of
             None \<Rightarrow> (Some FsNotExist, fs_tick s)
           | Some c \<Rightarrow> (None, (fs_tick s)\<lparr>fs_files := (fs_files s)(src := None, dst \<mapsto> c)\<rparr>))"

definition os_remove :: "string \<Rightarrow> 'c fs \<Rightarrow> fs_error option \<times> 'c fs" where
  "os_remove p s =
     (if fs_fault s then (Some FsFault, fs_tick s)
      else case fs_files s p of
             None \<Rightarrow> (Some FsNotExist, fs_tick s)
           | Some _ \<Rightarrow> (None, (fs_tick s)\<lparr>fs_files := (fs_files s)(p := None)\<rparr>))"

subsection \<open>replaceStateFile and atomicWriteState\<close>

definition replace_state_file :: "bool \<Rightarrow> string \<Rightarrow> string \<Rightarrow> 'c fs \<Rightarrow> fs_error option \<times> 'c fs" where
  "replace_state_file windows tmp path s =
     (case os_rename tmp path s of
        (None, s1) \<Rightarrow> (None, s1)
      | (Some e, s1) \<Rightarrow>
          if \<not> windows then (Some e, s1)
          else (case os_remove path s1 of
                  (Some FsFault, s2) \<Rightarrow> (Some FsFault, s2)
                | (_, s2) \<Rightarrow> os_rename tmp path s2))"

definition tmp_path :: "string \<Rightarrow> string" where
  "tmp_path path = path @ ''.tmp''"

definition atomic_write_state :: "bool \<Rightarrow> string \<Rightarrow> 'c \<Rightarrow> 'c fs \<Rightarrow> fs_error option \<times> 'c fs" where
  "atomic_write_state windows path c s =
     (case os_mkdir_all s of
        (Some e, s1) \<Rightarrow> (Some e, s1)
      | (None, s1) \<Rightarrow>
          (case os_write_file (tmp_path path) c s1 of
             (Some e, s2) \<Rightarrow> (Some e, s2)
           | (None, s2) \<Rightarrow>
               (case replace_state_file windows (tmp_path path) path s2 of
                  (Some e, s3) \<Rightarrow> (Some e, snd (os_remove (tmp_path path) s3))
                | (None, s3) \<Rightarrow> (None, s3))))"

lemma tmp_path_neq [simp]: "tmp_path p \<noteq> p" "p \<noteq> tmp_path p"
  by (simp_all add: tmp_path_def)

lemma tmp_path_inj [simp]: "tmp_path p = tmp_path q \<longleftrightarrow> p = q"
  by (simp add: tmp_path_def)

lemmas fs_call_defs = os_mkdir_all_def os_write_file_def os_rename_def os_remove_def
  os_read_file_def

lemma atomic_write_state_ok:
  "atomic_write_state w p c s = (None, s') \<Longrightarrow> fs_files s' p = Some c"
  by (auto simp: atomic_write_state_def replace_state_file_def fs_call_defs
      split: if_splits option.splits prod.splits fs_error.splits)

lemma atomic_write_state_posix_error:
  "atomic_write_state False p c s = (Some e, s') \<Longrightarrow> fs_files s' p = fs_files s p"
  by (auto simp: atomic_write_state_def replace_state_file_def fs_call_defs
      split: if_splits option.splits prod.splits)

lemma atomic_write_state_no_faults:
  "fs_faults s = [] \<Longrightarrow> \<exists>s'. atomic_write_state w p c s = (None, s') \<and> fs_faults s' = []"
  by (simp add: atomic_write_state_def replace_state_file_def fs_call_defs fs_fault_def fs_tick_def)

text \<open>Only the file and its temporary sibling are touched.\<close>

lemma atomic_write_state_frame:
  "q \<noteq> p \<Longrightarrow> q \<noteq> tmp_path p \<Longrightarrow> fs_files (snd (atomic_write_state w p c s)) q = fs_files s q"
  by (auto simp: atomic_write_state_def replace_state_file_def fs_call_defs
      split: option.splits prod.splits fs_error.splits)

text \<open>
  On Windows the fallback removes the old file before it renames the new one: when the
  second rename fails as well, the write reports an error and the old state is gone.
\<close>

lemma replace_windows_can_lose:
  "\<exists>s e s'. fs_files s ''u'' = Some (0::nat) \<and>
     atomic_write_state True ''u'' 1 s = (Some e, s') \<and> fs_files s' ''u'' = None"
proof -
  let ?s = "\<lparr>fs_files = [''u'' \<mapsto> 0], fs_faults = [False, False, True, False, True]\<rparr> :: nat fs"
  have "fst (atomic_write_state True ''u'' 1 ?s) = Some FsFault"
    and "fs_files (snd (atomic_write_state True ''u'' 1 ?s)) ''u'' = None"
    by (simp_all add: atomic_write_state_def replace_state_file_def fs_call_defs fs_fault_def
        fs_tick_def tmp_path_def)
  then show ?thesis
    by (intro exI [of _ ?s] exI [of _ "FsFault"]
        exI [of _ "snd (atomic_write_state True ''u'' 1 ?s)"]) (simp add: prod_eq_iff)
qed

subsection \<open>The interface\<close>

locale durable_slot =
  fixes put :: "'c \<Rightarrow> 's \<Rightarrow> 'e option \<times> 's"
    and stored :: "'s \<Rightarrow> 'c option"
  assumes write_ok: "put c s = (None, s') \<Longrightarrow> stored s' = Some c"
    and write_error: "put c s = (Some e, s') \<Longrightarrow> stored s' = stored s"
begin

text \<open>
  What a client that writes before it commits relies on: after a guarded update (the new
  value on success, the old one on error) the slot holds the client's value again.
\<close>

lemma write_through:
  assumes "stored s = Some old"
  shows "stored (snd (put new s)) = Some (if fst (put new s) = None then new else old)"
  using assms by (cases "put new s"; cases "fst (put new s)") (auto dest: write_ok write_error)

lemma stored_write_cases:
  "stored (snd (put c s)) = Some c \<or> (fst (put c s) \<noteq> None \<and> stored (snd (put c s)) = stored s)"
  by (cases "put c s"; cases "fst (put c s)") (auto dest: write_ok write_error)

end

interpretation posix: durable_slot "atomic_write_state False p" "\<lambda>s. fs_files s p"
  by unfold_locales (auto dest: atomic_write_state_ok atomic_write_state_posix_error)

end
