(* ===== verification/Drain.thy ===== *)
theory Drain
  imports DurableFile
begin

section \<open>Work tracking and update drains\<close>

text \<open>
  \<open>WorkTracker\<close> and \<open>DrainManager\<close> of \<open>internal/update/drain.go\<close>. The tracker counts the
  executions in flight and can refuse new ones; the manager closes it before an update,
  waits until nothing has been active for the quiet interval, and keeps its own state in a
  file so that a restart resumes the drain.

  Each operation runs under the manager's mutex, so it is one function on the state. What
  it samples is an argument: the readings of the clock in the order the code takes them, the
  value of \<open>active()\<close>, the value of \<open>queued()\<close> and the random generation. The draining
  channel is its identity and whether it is closed; the reopened channel, of capacity one, is
  whether it holds a signal. The test hook \<open>stateWriter\<close> is nil in the program, so that the
  writer is \<open>atomicWriteState\<close>; a decoded file stands for its JSON text. The last part wires
  manager and tracker as \<open>internal/server/server.go\<close> does and follows them through a step relation.
\<close>

subsection \<open>The work tracker\<close>

datatype work_class = WorkTask | WorkChat | WorkAutomation | WorkUnknown string

record active_work =
  task_executions :: int
  chat_executions :: int
  automation_activities :: int

definition total :: "active_work \<Rightarrow> int" where
  "total a = task_executions a + chat_executions a + automation_activities a"

definition no_work :: active_work where
  "no_work = \<lparr>task_executions = 0, chat_executions = 0, automation_activities = 0\<rparr>"

fun bump :: "int \<Rightarrow> work_class \<Rightarrow> active_work \<Rightarrow> active_work option" where
  "bump d WorkTask a = Some (a\<lparr>task_executions := task_executions a + d\<rparr>)"
| "bump d WorkChat a = Some (a\<lparr>chat_executions := chat_executions a + d\<rparr>)"
| "bump d WorkAutomation a = Some (a\<lparr>automation_activities := automation_activities a + d\<rparr>)"
| "bump d (WorkUnknown c) a = None"

record work_tracker =
  wt_open :: bool
  wt_active :: active_work

definition new_work_tracker :: work_tracker where
  "new_work_tracker = \<lparr>wt_open = True, wt_active = no_work\<rparr>"

datatype start_error = ErrDraining | ErrUnknownWorkClass

text \<open>The function \<open>Start\<close> returns is a ticket: its class, and whether its \<open>Once\<close> has run.\<close>

record ticket =
  tk_class :: work_class
  tk_done :: bool

definition tracker_start :: "work_class \<Rightarrow> work_tracker \<Rightarrow> start_error + (ticket \<times> work_tracker)" where
  "tracker_start c t =
     (if \<not> wt_open t then Inl ErrDraining
      else case bump 1 c (wt_active t) of
             None \<Rightarrow> Inl ErrUnknownWorkClass
           | Some a \<Rightarrow> Inr (\<lparr>tk_class = c, tk_done = False\<rparr>, t\<lparr>wt_active := a\<rparr>))"

definition ticket_finish :: "ticket \<Rightarrow> work_tracker \<Rightarrow> ticket \<times> work_tracker" where
  "ticket_finish k t =
     (if tk_done k then (k, t)
      else (k\<lparr>tk_done := True\<rparr>,
            case bump (- 1) (tk_class k) (wt_active t) of
              None \<Rightarrow> t
            | Some a \<Rightarrow> t\<lparr>wt_active := a\<rparr>))"

definition tracker_open :: "work_tracker \<Rightarrow> work_tracker" where
  "tracker_open t = t\<lparr>wt_open := True\<rparr>"

definition tracker_close :: "work_tracker \<Rightarrow> work_tracker" where
  "tracker_close t = t\<lparr>wt_open := False\<rparr>"

definition tracker_admit :: "work_tracker \<Rightarrow> bool" where
  "tracker_admit t = wt_open t"

lemmas tracker_defs = tracker_start_def ticket_finish_def tracker_open_def tracker_close_def
  tracker_admit_def

lemma bump_total: "bump d c a = Some b \<Longrightarrow> total b = total a + d"
  by (cases c) (auto simp: total_def)

subsection \<open>The manager's state\<close>

datatype drain_state = Idle | Draining | Ready

definition drain_state_name :: "drain_state \<Rightarrow> string" where
  "drain_state_name s = (case s of Idle \<Rightarrow> ''idle'' | Draining \<Rightarrow> ''draining'' | Ready \<Rightarrow> ''ready'')"

record drain_doc =
  dd_state :: string
  dd_generation :: string
  dd_expires_at :: instant
  dd_zero_since :: instant
  dd_owned :: bool

datatype drain_file = DrainJson drain_doc | NotJson

record drain_mgr =
  dm_quiet :: duration
  dm_state :: drain_state
  dm_generation :: string
  dm_expires_at :: instant
  dm_zero_since :: instant
  dm_owned :: bool
  dm_persistence :: string
  dm_tracker :: "work_tracker option"
  dm_reopened :: bool
  dm_draining :: nat
  dm_draining_closed :: bool
  dm_windows :: bool
  dm_fs :: "drain_file fs"

definition new_drain_manager :: "duration \<Rightarrow> bool \<Rightarrow> drain_file fs \<Rightarrow> drain_mgr" where
  "new_drain_manager quiet windows f =
     \<lparr>dm_quiet = quiet, dm_state = Idle, dm_generation = '''', dm_expires_at = zero_time,
      dm_zero_since = zero_time, dm_owned = False, dm_persistence = '''', dm_tracker = None,
      dm_reopened = False, dm_draining = 0, dm_draining_closed = False,
      dm_windows = windows, dm_fs = f\<rparr>"

definition drain_doc_of :: "drain_mgr \<Rightarrow> drain_doc" where
  "drain_doc_of m =
     \<lparr>dd_state = drain_state_name (dm_state m), dd_generation = dm_generation m,
      dd_expires_at = dm_expires_at m, dd_zero_since = dm_zero_since m, dd_owned = dm_owned m\<rparr>"

definition map_tracker :: "(work_tracker \<Rightarrow> work_tracker) \<Rightarrow> drain_mgr \<Rightarrow> drain_mgr" where
  "map_tracker f m = m\<lparr>dm_tracker := map_option f (dm_tracker m)\<rparr>"

definition signal_draining_locked :: "drain_mgr \<Rightarrow> drain_mgr" where
  "signal_draining_locked m = m\<lparr>dm_draining_closed := True\<rparr>"

definition persist_locked :: "drain_mgr \<Rightarrow> fs_error option \<times> drain_mgr" where
  "persist_locked m =
     (if dm_persistence m = '''' then (None, m)
      else case atomic_write_state (dm_windows m) (dm_persistence m) (DrainJson (drain_doc_of m)) (dm_fs m) of
             (e, f) \<Rightarrow> (e, m\<lparr>dm_fs := f\<rparr>))"

definition reset_locked :: "drain_mgr \<Rightarrow> bool \<times> drain_mgr" where
  "reset_locked m =
     (case persist_locked (m\<lparr>dm_state := Idle, dm_generation := '''', dm_expires_at := zero_time,
                             dm_zero_since := zero_time, dm_owned := False\<rparr>) of
        (Some e, m1) \<Rightarrow>
          (False, m1\<lparr>dm_state := dm_state m, dm_generation := dm_generation m,
                     dm_expires_at := dm_expires_at m, dm_zero_since := dm_zero_since m,
                     dm_owned := dm_owned m\<rparr>)
      | (None, m1) \<Rightarrow>
          (let m2 = (if dm_state m \<noteq> Idle
                     then m1\<lparr>dm_draining := Suc (dm_draining m1), dm_draining_closed := False\<rparr> else m1);
               m3 = map_tracker tracker_open m2
           in (True, m3\<lparr>dm_reopened := True\<rparr>)))"

definition expire_locked :: "instant \<Rightarrow> drain_mgr \<Rightarrow> drain_mgr" where
  "expire_locked now m =
     (if dm_state m \<noteq> Idle \<and> \<not> dm_owned m \<and> dm_expires_at m \<noteq> zero_time \<and> \<not> now < dm_expires_at m
      then snd (reset_locked m) else m)"

record drain_status =
  st_state :: drain_state
  st_generation :: string
  st_expires_at :: instant
  st_active :: active_work
  st_queued :: int

definition poll_state :: "instant \<Rightarrow> active_work \<Rightarrow> drain_mgr \<Rightarrow> drain_mgr" where
  "poll_state now a m =
     (if dm_state m = Idle then m
      else if total a \<noteq> 0 then m\<lparr>dm_state := Draining, dm_zero_since := zero_time\<rparr>
      else if dm_zero_since m = zero_time then m\<lparr>dm_zero_since := now\<rparr>
      else if dm_quiet m \<le> time_sub now (dm_zero_since m) then m\<lparr>dm_state := Ready\<rparr>
      else m)"

definition status_locked :: "instant \<Rightarrow> active_work \<Rightarrow> int \<Rightarrow> drain_mgr \<Rightarrow> drain_status \<times> drain_mgr" where
  "status_locked now a queued m =
     (let m1 = poll_state now a m;
          m2 = (if dm_state m1 \<noteq> dm_state m \<or> dm_zero_since m1 \<noteq> dm_zero_since m
                then case persist_locked m1 of
                       (None, p) \<Rightarrow> p
                     | (Some e, p) \<Rightarrow> p\<lparr>dm_state := dm_state m, dm_zero_since := dm_zero_since m\<rparr>
                else m1)
      in (\<lparr>st_state = dm_state m2, st_generation = dm_generation m2, st_expires_at = dm_expires_at m2,
           st_active = a, st_queued = queued\<rparr>, m2))"

subsection \<open>The manager's operations\<close>

datatype drain_error = ErrLease | ErrAlreadyActive | ErrUpdateRetryable fs_error
  | ErrReadState fs_error | ErrDecodeState

definition begin_drain ::
  "duration \<Rightarrow> string \<Rightarrow> instant \<Rightarrow> instant \<Rightarrow> active_work \<Rightarrow> int \<Rightarrow> drain_mgr \<Rightarrow>
   (drain_error + drain_status) \<times> drain_mgr" where
  "begin_drain lease gen now1 now2 a queued m =
     (if lease \<le> 0 then (Inl ErrLease, m)
      else if dm_state m \<noteq> Idle then (Inl ErrAlreadyActive, m)
      else let m1 = map_tracker tracker_close (m\<lparr>dm_state := Draining\<rparr>);
               m2 = m1\<lparr>dm_generation := gen, dm_expires_at := now1 + lease,
                       dm_zero_since := zero_time, dm_owned := False\<rparr>
           in case persist_locked m2 of
                (Some e, m3) \<Rightarrow>
                  (Inl (ErrUpdateRetryable e),
                   map_tracker tracker_open
                     (m3\<lparr>dm_state := Idle, dm_generation := '''', dm_expires_at := zero_time,
                         dm_zero_since := zero_time, dm_owned := False\<rparr>))
              | (None, m3) \<Rightarrow>
                  (case status_locked now2 a queued (signal_draining_locked m3) of
                     (st, m4) \<Rightarrow> (Inr st, m4)))"

definition admit :: "instant \<Rightarrow> drain_mgr \<Rightarrow> bool \<times> drain_mgr" where
  "admit now m = (let m1 = expire_locked now m in (dm_state m1 = Idle, m1))"

definition status :: "instant \<Rightarrow> instant \<Rightarrow> active_work \<Rightarrow> int \<Rightarrow> drain_mgr \<Rightarrow> drain_status \<times> drain_mgr" where
  "status now1 now2 a queued m = status_locked now2 a queued (expire_locked now1 m)"

definition draining :: "instant \<Rightarrow> drain_mgr \<Rightarrow> (nat \<times> bool) \<times> drain_mgr" where
  "draining now m =
     (let m1 = expire_locked now m in ((dm_draining m1, dm_draining_closed m1), m1))"

definition take_ownership :: "string \<Rightarrow> drain_mgr \<Rightarrow> bool \<times> drain_mgr" where
  "take_ownership gen m =
     (if gen = '''' \<or> gen \<noteq> dm_generation m \<or> dm_state m = Idle \<or> dm_owned m then (False, m)
      else case persist_locked (m\<lparr>dm_owned := True\<rparr>) of
             (Some e, m1) \<Rightarrow> (False, m1\<lparr>dm_owned := False\<rparr>)
           | (None, m1) \<Rightarrow> (True, m1))"

definition owns :: "string \<Rightarrow> drain_mgr \<Rightarrow> bool" where
  "owns gen m \<longleftrightarrow> gen \<noteq> '''' \<and> gen = dm_generation m \<and> dm_state m \<noteq> Idle \<and> dm_owned m"

definition renew :: "string \<Rightarrow> duration \<Rightarrow> instant \<Rightarrow> drain_mgr \<Rightarrow> bool \<times> drain_mgr" where
  "renew gen lease now m =
     (if gen = '''' \<or> gen \<noteq> dm_generation m \<or> lease \<le> 0 \<or> dm_state m = Idle then (False, m)
      else case persist_locked (m\<lparr>dm_expires_at := now + lease\<rparr>) of
             (Some e, m1) \<Rightarrow> (False, m1\<lparr>dm_expires_at := dm_expires_at m\<rparr>)
           | (None, m1) \<Rightarrow> (True, m1))"

definition release :: "string \<Rightarrow> drain_mgr \<Rightarrow> bool \<times> drain_mgr" where
  "release gen m =
     (if gen = '''' \<or> gen \<noteq> dm_generation m \<or> dm_state m = Idle then (False, m) else reset_locked m)"

definition cancel_drain :: "drain_mgr \<Rightarrow> bool \<times> drain_mgr" where
  "cancel_drain m = reset_locked m"

definition set_work_tracker :: "work_tracker option \<Rightarrow> drain_mgr \<Rightarrow> drain_mgr" where
  "set_work_tracker t m =
     (let m1 = m\<lparr>dm_tracker := t\<rparr>
      in if t \<noteq> None \<and> dm_state m1 \<noteq> Idle then map_tracker tracker_close m1 else m1)"

definition resume_state :: "string \<Rightarrow> drain_state option" where
  "resume_state s =
     (if s = drain_state_name Draining then Some Draining
      else if s = drain_state_name Ready then Some Ready else None)"

definition set_persistence :: "string \<Rightarrow> instant \<Rightarrow> drain_mgr \<Rightarrow> drain_error option \<times> drain_mgr" where
  "set_persistence path now m =
     (let m1 = m\<lparr>dm_persistence := path\<rparr>
      in case os_read_file path (dm_fs m1) of
           (Inl FsNotExist, f) \<Rightarrow> (None, m1\<lparr>dm_fs := f\<rparr>)
         | (Inl FsFault, f) \<Rightarrow> (Some (ErrReadState FsFault), m1\<lparr>dm_fs := f\<rparr>)
         | (Inr NotJson, f) \<Rightarrow> (Some ErrDecodeState, m1\<lparr>dm_fs := f\<rparr>)
         | (Inr (DrainJson d), f) \<Rightarrow>
             (case resume_state (dd_state d) of
                None \<Rightarrow> (None, m1\<lparr>dm_fs := f\<rparr>)
              | Some s \<Rightarrow>
                  (let m2 = expire_locked now
                             (m1\<lparr>dm_fs := f, dm_state := s, dm_generation := dd_generation d,
                                 dm_expires_at := dd_expires_at d, dm_zero_since := dd_zero_since d,
                                 dm_owned := dd_owned d\<rparr>)
                   in (None,
                       if dm_state m2 \<noteq> Idle
                       then map_tracker tracker_close (signal_draining_locked m2) else m2))))"

subsection \<open>What every operation leaves alone\<close>

text \<open>
  Writing the file changes nothing but the file system, so an operation is known once its
  result is known on both outcomes of the write.
\<close>

lemma persist_lockedE:
  obtains e f where "persist_locked m = (e, m\<lparr>dm_fs := f\<rparr>)"
proof (cases "dm_persistence m = []")
  case True
  then show ?thesis by (intro that [of None "dm_fs m"]) (simp add: persist_locked_def)
next
  case False
  obtain e f where "atomic_write_state (dm_windows m) (dm_persistence m) (DrainJson (drain_doc_of m)) (dm_fs m) = (e, f)"
    by (rule prod.exhaust)
  with False show ?thesis by (intro that [of e f]) (simp add: persist_locked_def)
qed

lemma map_tracker_simps [simp]:
  "dm_state (map_tracker f m) = dm_state m"
  "dm_generation (map_tracker f m) = dm_generation m"
  "dm_expires_at (map_tracker f m) = dm_expires_at m"
  "dm_zero_since (map_tracker f m) = dm_zero_since m"
  "dm_owned (map_tracker f m) = dm_owned m"
  "dm_persistence (map_tracker f m) = dm_persistence m"
  "dm_quiet (map_tracker f m) = dm_quiet m"
  "dm_windows (map_tracker f m) = dm_windows m"
  "dm_fs (map_tracker f m) = dm_fs m"
  "dm_draining_closed (map_tracker f m) = dm_draining_closed m"
  "dm_draining (map_tracker f m) = dm_draining m"
  "dm_reopened (map_tracker f m) = dm_reopened m"
  "dm_tracker (map_tracker f m) = map_option f (dm_tracker m)"
  by (simp_all add: map_tracker_def)

lemma drain_doc_of_fs [simp]: "drain_doc_of (m\<lparr>dm_fs := f\<rparr>) = drain_doc_of m"
  by (simp add: drain_doc_of_def)

lemma drain_doc_of_tracker [simp]: "drain_doc_of (map_tracker g m) = drain_doc_of m"
  by (simp add: drain_doc_of_def)

definition posix_file :: "drain_mgr \<Rightarrow> bool" where
  "posix_file m \<longleftrightarrow> \<not> dm_windows m \<and> dm_persistence m \<noteq> ''''"

definition state_file :: "drain_mgr \<Rightarrow> drain_file option" where
  "state_file m = fs_files (dm_fs m) (dm_persistence m)"

text \<open>
  The write as the manager sees it: the slot is the state file, and its laws are those of
  the interface \<open>durable_slot\<close>.
\<close>

lemma persist_locked_fs:
  assumes "persist_locked m = (e, m1)"
  shows "m1 = m\<lparr>dm_fs := dm_fs m1\<rparr>"
  using assms by - (rule persist_lockedE [of m], auto)

lemma persist_locked_stored:
  assumes "persist_locked m = (None, m1)" "posix_file m"
  shows "fs_files (dm_fs m1) (dm_persistence m) = Some (DrainJson (drain_doc_of m))"
  using assms posix.write_ok [of "dm_persistence m" "DrainJson (drain_doc_of m)" "dm_fs m"]
  by (auto simp: persist_locked_def posix_file_def split: prod.splits)

lemma persist_locked_kept:
  assumes "persist_locked m = (Some e, m1)" "posix_file m"
  shows "fs_files (dm_fs m1) (dm_persistence m) = fs_files (dm_fs m) (dm_persistence m)"
  using assms posix.write_error [of "dm_persistence m" "DrainJson (drain_doc_of m)" "dm_fs m" e]
  by (auto simp: persist_locked_def posix_file_def split: prod.splits)

subsection \<open>The invariant of the manager\<close>

definition idle_doc :: drain_doc where
  "idle_doc = \<lparr>dd_state = ''idle'', dd_generation = '''', dd_expires_at = zero_time,
     dd_zero_since = zero_time, dd_owned = False\<rparr>"

definition drain_inv :: "drain_mgr \<Rightarrow> bool" where
  "drain_inv m \<longleftrightarrow>
     (\<forall>t. dm_tracker m = Some t \<longrightarrow> wt_open t = (dm_state m = Idle)) \<and>
     (dm_draining_closed m = (dm_state m \<noteq> Idle)) \<and>
     (dm_state m = Idle \<longrightarrow> drain_doc_of m = idle_doc)"

definition saved_doc :: "drain_file option \<Rightarrow> drain_doc option" where
  "saved_doc f =
     (case f of
        None \<Rightarrow> Some idle_doc
      | Some NotJson \<Rightarrow> None
      | Some (DrainJson d) \<Rightarrow> Some (if resume_state (dd_state d) = None then idle_doc else d))"

definition durable :: "drain_mgr \<Rightarrow> bool" where
  "durable m \<longleftrightarrow> (posix_file m \<longrightarrow> saved_doc (state_file m) = Some (drain_doc_of m))"

definition active_total :: "drain_mgr \<Rightarrow> int" where
  "active_total m = (case dm_tracker m of None \<Rightarrow> 0 | Some t \<Rightarrow> total (wt_active t))"

definition quiesced :: "drain_mgr \<Rightarrow> bool" where
  "quiesced m \<longleftrightarrow> (dm_state m = Ready \<longrightarrow> active_total m = 0)"

lemma resume_state_name [simp]:
  "resume_state (drain_state_name s) = (if s = Idle then None else Some s)"
  "resume_state ''idle'' = None"
  by (cases s; simp add: resume_state_def drain_state_name_def)
    (simp add: resume_state_def drain_state_name_def)

lemmas drain_inv_defs = drain_inv_def durable_def quiesced_def posix_file_def state_file_def
  drain_doc_of_def idle_doc_def saved_doc_def active_total_def

lemma drain_state_name_idle [simp]:
  "drain_state_name Idle = ''idle''" "(drain_state_name s = ''idle'') = (s = Idle)"
  by (cases s; simp add: drain_state_name_def)+

text \<open>
  One rule per outcome of a guarded write: the new values with the file that stores them, or
  the old values with the file they were in.
\<close>

lemma durable_stored:
  assumes "persist_locked m = (None, m1)" "dm_state m = Idle \<Longrightarrow> drain_doc_of m = idle_doc"
    "dm_fs n = dm_fs m1" "dm_persistence n = dm_persistence m" "dm_windows n = dm_windows m"
    "drain_doc_of n = drain_doc_of m"
  shows "durable n"
  using assms persist_locked_stored [OF assms(1)]
  by (auto simp: durable_def posix_file_def state_file_def saved_doc_def drain_doc_of_def)

lemma durable_kept:
  assumes "persist_locked m' = (Some e, m1)" "durable m" "dm_fs m' = dm_fs m"
    "dm_persistence m' = dm_persistence m" "dm_windows m' = dm_windows m"
    "dm_fs n = dm_fs m1" "dm_persistence n = dm_persistence m" "dm_windows n = dm_windows m"
    "drain_doc_of n = drain_doc_of m"
  shows "durable n"
  using assms persist_locked_kept [OF assms(1)]
  by (auto simp: durable_def posix_file_def state_file_def)

lemma durable_same:
  assumes "durable m" "dm_fs n = dm_fs m" "dm_persistence n = dm_persistence m"
    "dm_windows n = dm_windows m" "drain_doc_of n = drain_doc_of m"
  shows "durable n"
  using assms by (simp add: durable_def posix_file_def state_file_def)

definition idled :: "drain_mgr \<Rightarrow> drain_mgr" where
  "idled m = m\<lparr>dm_state := Idle, dm_generation := '''', dm_expires_at := zero_time,
               dm_zero_since := zero_time, dm_owned := False\<rparr>"

lemma drain_doc_of_idled [simp]: "drain_doc_of (idled m) = idle_doc"
  by (simp add: idled_def drain_doc_of_def idle_doc_def)

lemma reset_lockedE:
  assumes "reset_locked m = (ok, m1)"
  obtains (failed) e f where "\<not> ok" "persist_locked (idled m) = (Some e, (idled m)\<lparr>dm_fs := f\<rparr>)"
      "m1 = m\<lparr>dm_fs := f\<rparr>"
    | (reopened) f where "ok" "persist_locked (idled m) = (None, (idled m)\<lparr>dm_fs := f\<rparr>)"
      "m1 = (idled m)\<lparr>dm_fs := f, dm_draining := (if dm_state m \<noteq> Idle then Suc (dm_draining m) else dm_draining m),
               dm_draining_closed := (dm_draining_closed m \<and> dm_state m = Idle),
               dm_tracker := map_option tracker_open (dm_tracker m), dm_reopened := True\<rparr>"
proof -
  obtain e f where p: "persist_locked (idled m) = (e, (idled m)\<lparr>dm_fs := f\<rparr>)"
    by (rule persist_lockedE)
  show thesis
  proof (cases e)
    case None
    show ?thesis
      by (rule reopened) (use assms p None in \<open>auto simp: reset_locked_def idled_def Let_def map_tracker_def\<close>)
  next
    case (Some x)
    show ?thesis
      by (rule failed) (use assms p Some in \<open>auto simp: reset_locked_def idled_def\<close>)
  qed
qed

lemma reset_locked_durable:
  assumes "reset_locked m = (ok, m1)" "durable m"
  shows "durable m1"
  using assms(1)
proof (cases rule: reset_lockedE)
  case (failed e f)
  from failed(2) assms(2) show ?thesis
    by (rule durable_kept) (simp_all add: failed(3) idled_def)
next
  case (reopened f)
  from reopened(2) show ?thesis
    by (rule durable_stored) (simp_all add: reopened(3) idled_def drain_doc_of_def idle_doc_def)
qed

lemma reset_locked_inv:
  assumes "reset_locked m = (ok, m1)" "drain_inv m"
  shows "drain_inv m1"
  using assms(1)
proof (cases rule: reset_lockedE)
  case (failed e f)
  with assms(2) show ?thesis by (simp add: drain_inv_def)
next
  case (reopened f)
  with assms(2) show ?thesis
    by (auto simp: drain_inv_def idled_def tracker_open_def drain_doc_of_def idle_doc_def)
qed

lemma expire_locked_cases:
  obtains "expire_locked now m = m"
    | ok where "reset_locked m = (ok, expire_locked now m)" "dm_state m \<noteq> Idle" "\<not> dm_owned m"
        "dm_expires_at m \<le> now"
proof (cases "dm_state m \<noteq> Idle \<and> \<not> dm_owned m \<and> dm_expires_at m \<noteq> zero_time \<and> \<not> now < dm_expires_at m")
  case True
  then have "expire_locked now m = snd (reset_locked m)" unfolding expire_locked_def by (rule if_P)
  with True show ?thesis by (intro that(2) [of "fst (reset_locked m)"]) simp_all
next
  case False
  then have "expire_locked now m = m" unfolding expire_locked_def by (rule if_not_P)
  then show ?thesis by (rule that(1))
qed

lemma expire_locked_inv: "drain_inv m \<Longrightarrow> drain_inv (expire_locked now m)"
  by (rule expire_locked_cases [of now m]) (auto intro: reset_locked_inv)

lemma expire_locked_durable: "durable m \<Longrightarrow> durable (expire_locked now m)"
  by (rule expire_locked_cases [of now m]) (auto intro: reset_locked_durable)

lemma poll_state_same:
  "dm_state (poll_state now a m) = dm_state m \<Longrightarrow> dm_zero_since (poll_state now a m) = dm_zero_since m \<Longrightarrow>
   poll_state now a m = m"
  by (auto simp: poll_state_def split: if_splits)

lemma poll_state_frame [simp]:
  "dm_fs (poll_state now a m) = dm_fs m"
  "dm_persistence (poll_state now a m) = dm_persistence m"
  "dm_windows (poll_state now a m) = dm_windows m"
  "dm_tracker (poll_state now a m) = dm_tracker m"
  "dm_draining_closed (poll_state now a m) = dm_draining_closed m"
  "dm_generation (poll_state now a m) = dm_generation m"
  "dm_expires_at (poll_state now a m) = dm_expires_at m"
  "dm_owned (poll_state now a m) = dm_owned m"
  "dm_quiet (poll_state now a m) = dm_quiet m"
  "(dm_state (poll_state now a m) = Idle) = (dm_state m = Idle)"
  by (simp_all add: poll_state_def)

lemma poll_state_Idle: "dm_state m = Idle \<Longrightarrow> poll_state now a m = m"
  by (simp add: poll_state_def)

lemma poll_state_Ready: "dm_state (poll_state now a m) = Ready \<Longrightarrow> total a = 0 \<and> dm_state m \<noteq> Idle"
  by (auto simp: poll_state_def split: if_splits)

lemma status_lockedE:
  assumes "status_locked now a q m = (st, m2)"
  obtains (same) "m2 = m" "poll_state now a m = m"
    | (kept) e f where "m2 = m\<lparr>dm_fs := f\<rparr>"
        "persist_locked (poll_state now a m) = (Some e, (poll_state now a m)\<lparr>dm_fs := f\<rparr>)"
    | (stored) f where "m2 = (poll_state now a m)\<lparr>dm_fs := f\<rparr>"
        "persist_locked (poll_state now a m) = (None, (poll_state now a m)\<lparr>dm_fs := f\<rparr>)"
proof -
  obtain e f where p: "persist_locked (poll_state now a m) = (e, (poll_state now a m)\<lparr>dm_fs := f\<rparr>)"
    by (rule persist_lockedE)
  show thesis
  proof (cases "dm_state (poll_state now a m) \<noteq> dm_state m \<or> dm_zero_since (poll_state now a m) \<noteq> dm_zero_since m")
    case False
    with assms poll_state_same [of now a m] show ?thesis
      by (intro same) (simp_all add: status_locked_def Let_def)
  next
    case changed: True
    show ?thesis
    proof (cases e)
      case None
      from assms changed p None show ?thesis
        by (intro stored [of f]) (simp_all add: status_locked_def Let_def)
    next
      case (Some x)
      have "(poll_state now a m)\<lparr>dm_fs := f, dm_state := dm_state m, dm_zero_since := dm_zero_since m\<rparr> = m\<lparr>dm_fs := f\<rparr>"
        by (simp add: poll_state_def)
      with assms changed p Some show ?thesis
        by (intro kept [of f x]) (simp_all add: status_locked_def Let_def)
    qed
  qed
qed

lemma status_locked_report:
  "status_locked now a q m = (st, m2) \<Longrightarrow>
   st = \<lparr>st_state = dm_state m2, st_generation = dm_generation m2, st_expires_at = dm_expires_at m2,
         st_active = a, st_queued = q\<rparr>"
  by (auto simp: status_locked_def Let_def)

lemma status_locked_durable:
  assumes "status_locked now a q m = (st, m2)" "drain_inv m" "durable m"
  shows "durable m2"
  using assms(1)
proof (cases rule: status_lockedE)
  case same with assms(3) show ?thesis by simp
next
  case (kept e f)
  from kept(2) assms(3) show ?thesis
    by (rule durable_kept) (simp_all add: kept(1))
next
  case (stored f)
  from stored(2) show ?thesis
  proof (rule durable_stored)
    assume "dm_state (poll_state now a m) = Idle"
    then show "drain_doc_of (poll_state now a m) = idle_doc"
      using assms(2) by (simp add: drain_inv_def poll_state_Idle)
  qed (simp_all add: stored(1))
qed

lemma status_locked_inv:
  assumes "status_locked now a q m = (st, m2)" "drain_inv m"
  shows "drain_inv m2"
  using assms(1)
proof (cases rule: status_lockedE)
  case same with assms(2) show ?thesis by simp
next
  case (kept e f)
  with assms(2) show ?thesis by (simp add: drain_inv_def)
next
  case (stored f)
  with assms(2) poll_state_Idle [of m now a] show ?thesis
    by (auto simp: drain_inv_def)
qed

lemma status_locked_Ready:
  assumes "status_locked now a q m = (st, m2)" "dm_state m2 = Ready"
  shows "dm_tracker m2 = dm_tracker m" "dm_state m \<noteq> Idle" "dm_state m = Ready \<or> total a = 0"
proof -
  show "dm_tracker m2 = dm_tracker m"
    using assms(1) by (cases rule: status_lockedE) auto
  show "dm_state m \<noteq> Idle" "dm_state m = Ready \<or> total a = 0"
    using assms by (cases rule: status_lockedE; auto dest: poll_state_Ready)+
qed

lemma begin_drainE:
  assumes "begin_drain lease gen now1 now2 a q m = (r, m')"
  obtains (refused) x where "r = Inl x" "m' = m" "lease \<le> 0 \<or> dm_state m \<noteq> Idle"
    | (failed) e f m2 where "r = Inl (ErrUpdateRetryable e)" "dm_state m = Idle" "0 < lease"
        "persist_locked m2 = (Some e, m2\<lparr>dm_fs := f\<rparr>)"
        "dm_fs m2 = dm_fs m" "dm_persistence m2 = dm_persistence m" "dm_windows m2 = dm_windows m"
        "m' = (idled m)\<lparr>dm_fs := f, dm_tracker := map_option (tracker_open \<circ> tracker_close) (dm_tracker m)\<rparr>"
    | (begun) st m2 f where "r = Inr st" "dm_state m = Idle" "0 < lease"
        "m2 = m\<lparr>dm_state := Draining, dm_tracker := map_option tracker_close (dm_tracker m),
               dm_generation := gen, dm_expires_at := now1 + lease, dm_zero_since := zero_time, dm_owned := False\<rparr>"
        "persist_locked m2 = (None, m2\<lparr>dm_fs := f\<rparr>)"
        "status_locked now2 a q (m2\<lparr>dm_fs := f, dm_draining_closed := True\<rparr>) = (st, m')"
proof -
  define m2 where "m2 = m\<lparr>dm_state := Draining, dm_tracker := map_option tracker_close (dm_tracker m),
               dm_generation := gen, dm_expires_at := now1 + lease, dm_zero_since := zero_time, dm_owned := False\<rparr>"
  have m2': "map_tracker tracker_close (m\<lparr>dm_state := Draining\<rparr>)\<lparr>dm_generation := gen, dm_expires_at := now1 + lease,
               dm_zero_since := zero_time, dm_owned := False\<rparr> = m2"
    by (simp add: m2_def map_tracker_def)
  obtain e f where p: "persist_locked m2 = (e, m2\<lparr>dm_fs := f\<rparr>)"
    by (rule persist_lockedE)
  show thesis
  proof (cases "lease \<le> 0 \<or> dm_state m \<noteq> Idle")
    case True
    with assms show ?thesis
      by (intro refused [of "if lease \<le> 0 then ErrLease else ErrAlreadyActive"])
        (auto simp: begin_drain_def split: if_splits)
  next
    case False
    show ?thesis
    proof (cases e)
      case None
      show ?thesis
      proof (rule begun [OF _ _ _ m2_def p [unfolded None]])
        show "r = Inr (projr r)" "dm_state m = Idle" "0 < lease"
          "status_locked now2 a q (m2\<lparr>dm_fs := f, dm_draining_closed := True\<rparr>) = (projr r, m')"
          using assms False p None
          by (auto simp: begin_drain_def m2' Let_def signal_draining_locked_def split: prod.splits)
      qed
    next
      case (Some x)
      have "map_tracker tracker_open (m2\<lparr>dm_fs := f, dm_state := Idle, dm_generation := [],
              dm_expires_at := zero_time, dm_zero_since := zero_time, dm_owned := False\<rparr>) =
            (idled m)\<lparr>dm_fs := f, dm_tracker := map_option (tracker_open \<circ> tracker_close) (dm_tracker m)\<rparr>"
        by (simp add: m2_def idled_def map_tracker_def option.map_comp)
      with assms False p Some show ?thesis
        by (intro failed [of x m2 f]) (auto simp: begin_drain_def m2' Let_def, auto simp: m2_def)
    qed
  qed
qed

lemma begin_drain_inv:
  assumes "begin_drain lease gen now1 now2 a q m = (r, m')" "drain_inv m"
  shows "drain_inv m'"
  using assms(1)
proof (cases rule: begin_drainE)
  case refused with assms(2) show ?thesis by simp
next
  case (failed e f m2)
  with assms(2) show ?thesis
    by (auto simp: drain_inv_def tracker_open_def idled_def drain_doc_of_def idle_doc_def)
next
  case (begun st m2 f)
  from begun(6) show ?thesis
  proof (rule status_locked_inv)
    show "drain_inv (m2\<lparr>dm_fs := f, dm_draining_closed := True\<rparr>)"
      by (auto simp: drain_inv_def begun(4) tracker_close_def)
  qed
qed

lemma begin_drain_durable:
  assumes "begin_drain lease gen now1 now2 a q m = (r, m')" "drain_inv m" "durable m"
  shows "durable m'"
  using assms(1)
proof (cases rule: begin_drainE)
  case refused with assms(3) show ?thesis by simp
next
  case (failed e f m2)
  from failed(4) assms(3) failed(5-7) show ?thesis
    by (rule durable_kept)
      (use failed(2) assms(2) in \<open>simp_all add: failed(8), simp_all add: idled_def drain_doc_of_def drain_inv_def idle_doc_def\<close>)
next
  case (begun st m2 f)
  let ?m3 = "m2\<lparr>dm_fs := f, dm_draining_closed := True\<rparr>"
  have "drain_inv ?m3" by (auto simp: drain_inv_def begun(4) tracker_close_def)
  moreover have "durable ?m3"
    using begun(5) by (rule durable_stored) (simp_all add: begun(4) drain_doc_of_def)
  ultimately show ?thesis using status_locked_durable [OF begun(6)] by blast
qed

lemma take_ownershipE:
  assumes "take_ownership gen m = (ok, m')"
  obtains (refused) "\<not> ok" "m' = m"
    | (failed) e f where "\<not> ok" "\<not> dm_owned m" "persist_locked (m\<lparr>dm_owned := True\<rparr>) = (Some e, m\<lparr>dm_owned := True, dm_fs := f\<rparr>)"
        "m' = m\<lparr>dm_fs := f\<rparr>"
    | (taken) f where "ok" "gen = dm_generation m" "dm_state m \<noteq> Idle"
        "persist_locked (m\<lparr>dm_owned := True\<rparr>) = (None, m\<lparr>dm_owned := True, dm_fs := f\<rparr>)"
        "m' = m\<lparr>dm_owned := True, dm_fs := f\<rparr>"
proof -
  obtain e f where p: "persist_locked (m\<lparr>dm_owned := True\<rparr>) = (e, m\<lparr>dm_owned := True, dm_fs := f\<rparr>)"
    by (rule persist_lockedE)
  show thesis
  proof (cases "gen = [] \<or> gen \<noteq> dm_generation m \<or> dm_state m = Idle \<or> dm_owned m")
    case True
    with assms show ?thesis by (intro refused) (auto simp: take_ownership_def)
  next
    case g: False
    show ?thesis
    proof (cases e)
      case None with g assms p show ?thesis by (intro taken [of f]) (auto simp: take_ownership_def)
    next
      case (Some x)
      have "m\<lparr>dm_owned := False\<rparr> = m" using g by simp
      with Some g assms p show ?thesis
        by (intro failed [of x f]) (auto simp: take_ownership_def)
    qed
  qed
qed

lemma renewE:
  assumes "renew gen lease now m = (ok, m')"
  obtains (refused) "\<not> ok" "m' = m"
    | (failed) e f where "\<not> ok" "persist_locked (m\<lparr>dm_expires_at := now + lease\<rparr>) = (Some e, m\<lparr>dm_expires_at := now + lease, dm_fs := f\<rparr>)"
        "m' = m\<lparr>dm_fs := f\<rparr>"
    | (renewed) f where "ok" "gen = dm_generation m" "dm_state m \<noteq> Idle"
        "persist_locked (m\<lparr>dm_expires_at := now + lease\<rparr>) = (None, m\<lparr>dm_expires_at := now + lease, dm_fs := f\<rparr>)"
        "m' = m\<lparr>dm_expires_at := now + lease, dm_fs := f\<rparr>"
proof -
  obtain e f where p: "persist_locked (m\<lparr>dm_expires_at := now + lease\<rparr>) = (e, m\<lparr>dm_expires_at := now + lease, dm_fs := f\<rparr>)"
    by (rule persist_lockedE)
  show thesis
  proof (cases "gen = [] \<or> gen \<noteq> dm_generation m \<or> lease \<le> 0 \<or> dm_state m = Idle")
    case True
    with assms show ?thesis by (intro refused) (auto simp: renew_def)
  next
    case g: False
    show ?thesis
    proof (cases e)
      case None with g assms p show ?thesis by (intro renewed [of f]) (auto simp: renew_def)
    next
      case (Some x) with g assms p show ?thesis by (intro failed [of x f]) (auto simp: renew_def)
    qed
  qed
qed

lemma take_ownership_keeps:
  assumes "take_ownership gen m = (ok, m')" "drain_inv m" "durable m"
  shows "drain_inv m' \<and> durable m'"
  using assms(1)
proof (cases rule: take_ownershipE)
  case refused with assms(2,3) show ?thesis by simp
next
  case (failed e f)
  have "durable m'"
    using failed(3) assms(3) by (rule durable_kept) (simp_all add: failed(4))
  moreover have "drain_inv m'" using assms(2) by (simp add: failed(4) drain_inv_def)
  ultimately show ?thesis by simp
next
  case (taken f)
  have "durable m'"
    using taken(4) by (rule durable_stored) (simp_all add: taken(5) taken(3) drain_doc_of_def)
  moreover have "drain_inv m'" using assms(2) taken(3) by (simp add: taken(5) drain_inv_def)
  ultimately show ?thesis by simp
qed

lemma renew_keeps:
  assumes "renew gen lease now m = (ok, m')" "drain_inv m" "durable m"
  shows "drain_inv m' \<and> durable m'"
  using assms(1)
proof (cases rule: renewE)
  case refused with assms(2,3) show ?thesis by simp
next
  case (failed e f)
  have "durable m'"
    using failed(2) assms(3) by (rule durable_kept) (simp_all add: failed(3))
  moreover have "drain_inv m'" using assms(2) by (simp add: failed(3) drain_inv_def)
  ultimately show ?thesis by simp
next
  case (renewed f)
  have "durable m'"
    using renewed(4) by (rule durable_stored) (simp_all add: renewed(3,5) drain_doc_of_def)
  moreover have "drain_inv m'" using assms(2) renewed(3) by (simp add: renewed(5) drain_inv_def)
  ultimately show ?thesis by simp
qed

lemma release_keeps:
  assumes "release gen m = (ok, m')" "drain_inv m" "durable m"
  shows "drain_inv m' \<and> durable m'"
  using assms by (auto simp: release_def intro: reset_locked_inv reset_locked_durable split: if_splits)

lemma status_keeps:
  assumes "status now1 now2 a q m = (st, m')" "drain_inv m" "durable m"
  shows "drain_inv m' \<and> durable m'"
  using assms expire_locked_inv expire_locked_durable status_locked_inv status_locked_durable
  by (metis status_def)

subsection \<open>The interface of a work gate\<close>

text \<open>
  What the manager needs of the gate it closes: a closed gate starts nothing, and the load
  counts the tickets that are still pending, each of them once. Its client runs starts and
  finishes in any order (\<open>gate_run\<close>) on the tickets handed out so far.
\<close>

datatype 'c gate_op = GateStart 'c | GateFinish nat

fun gate_step ::
  "('c \<Rightarrow> 's \<Rightarrow> 'e + ('t \<times> 's)) \<Rightarrow> ('t \<Rightarrow> 's \<Rightarrow> 't \<times> 's) \<Rightarrow> 'c gate_op \<Rightarrow> 't list \<times> 's \<Rightarrow> 't list \<times> 's" where
  "gate_step start finish (GateStart c) (ks, s) =
     (case start c s of Inl e \<Rightarrow> (ks, s) | Inr (k, s') \<Rightarrow> (ks @ [k], s'))"
| "gate_step start finish (GateFinish i) (ks, s) =
     (if i < length ks then (case finish (ks ! i) s of (k, s') \<Rightarrow> (ks[i := k], s')) else (ks, s))"

definition gate_run ::
  "('c \<Rightarrow> 's \<Rightarrow> 'e + ('t \<times> 's)) \<Rightarrow> ('t \<Rightarrow> 's \<Rightarrow> 't \<times> 's) \<Rightarrow> 'c gate_op list \<Rightarrow> 't list \<times> 's \<Rightarrow> 't list \<times> 's" where
  "gate_run start finish ops x = fold (gate_step start finish) ops x"

locale work_gate =
  fixes start :: "'c \<Rightarrow> 's \<Rightarrow> 'e + ('t \<times> 's)"
    and finish :: "'t \<Rightarrow> 's \<Rightarrow> 't \<times> 's"
    and is_open :: "'s \<Rightarrow> bool"
    and load :: "'s \<Rightarrow> int"
    and pending :: "'t \<Rightarrow> bool"
  assumes start_closed: "\<not> is_open s \<Longrightarrow> start c s = Inr (k, s') \<Longrightarrow> False"
    and start_ok: "start c s = Inr (k, s') \<Longrightarrow> pending k \<and> load s' = load s + 1 \<and> is_open s' = is_open s"
    and finish_ok: "finish k s = (k', s') \<Longrightarrow>
      \<not> pending k' \<and> load s' = load s - (if pending k then 1 else 0) \<and> is_open s' = is_open s"
begin

lemma step_balance:
  "load s = int (length (filter pending ks)) \<Longrightarrow> gate_step start finish op (ks, s) = (ks', s') \<Longrightarrow>
   load s' = int (length (filter pending ks')) \<and> is_open s' = is_open s"
proof (cases op)
  case (GateStart c)
  then show "load s = int (length (filter pending ks)) \<Longrightarrow> gate_step start finish op (ks, s) = (ks', s') \<Longrightarrow>
   load s' = int (length (filter pending ks')) \<and> is_open s' = is_open s"
    by (auto split: sum.splits dest: start_ok)
next
  case (GateFinish i)
  then show "load s = int (length (filter pending ks)) \<Longrightarrow> gate_step start finish op (ks, s) = (ks', s') \<Longrightarrow>
   load s' = int (length (filter pending ks')) \<and> is_open s' = is_open s"
    using length_filter_update [of i ks pending "fst (finish (ks ! i) s)"]
    by (cases "finish (ks ! i) s") (auto dest: finish_ok split: if_splits)
qed

lemma step_closed:
  "\<not> is_open s \<Longrightarrow> gate_step start finish op (ks, s) = (ks', s') \<Longrightarrow>
   \<not> is_open s' \<and> length ks' = length ks \<and> load s' \<le> load s"
  by (cases op) (auto split: sum.splits prod.splits if_splits dest: start_closed finish_ok)

lemma run_balance:
  "load s = int (length (filter pending ks)) \<Longrightarrow> gate_run start finish ops (ks, s) = (ks', s') \<Longrightarrow>
   load s' = int (length (filter pending ks')) \<and> is_open s' = is_open s"
proof (induction ops arbitrary: ks s)
  case (Cons op ops)
  obtain k1 s1 where st: "gate_step start finish op (ks, s) = (k1, s1)" by (rule prod.exhaust)
  from step_balance [OF Cons.prems(1) this] Cons.IH [of s1 k1] Cons.prems(2) st show ?case
    by (simp add: gate_run_def)
qed (simp add: gate_run_def)

lemma run_closed:
  "\<not> is_open s \<Longrightarrow> gate_run start finish ops (ks, s) = (ks', s') \<Longrightarrow>
   \<not> is_open s' \<and> length ks' = length ks \<and> load s' \<le> load s"
proof (induction ops arbitrary: ks s)
  case (Cons op ops)
  obtain k1 s1 where st: "gate_step start finish op (ks, s) = (k1, s1)" by (rule prod.exhaust)
  from step_closed [OF Cons.prems(1) this] Cons.IH [of s1 k1] Cons.prems(2) st show ?case
    by (fastforce simp: gate_run_def)
qed (simp add: gate_run_def)

text \<open>A gate that is closed and empty stays empty, whatever is started or finished.\<close>

lemma closed_empty_stays:
  assumes "\<not> is_open s" "load s = 0" "load s = int (length (filter pending ks))"
    "gate_run start finish ops (ks, s) = (ks', s')"
  shows "load s' = 0"
  using run_closed [OF assms(1,4)] run_balance [OF assms(3,4)] assms(2) by simp

end

definition ticket_pending :: "ticket \<Rightarrow> bool" where
  "ticket_pending k \<longleftrightarrow> \<not> tk_done k \<and> (\<forall>c. tk_class k \<noteq> WorkUnknown c)"

lemma bump_None: "bump d c a = None \<longleftrightarrow> (\<exists>x. c = WorkUnknown x)"
  by (cases c) auto

interpretation wt: work_gate tracker_start ticket_finish wt_open "\<lambda>t. total (wt_active t)" ticket_pending
proof (unfold_locales, goal_cases)
  case (1 s c k s') then show ?case by (simp add: tracker_start_def)
next
  case (2 c s k s') then show ?case
    by (cases c) (auto simp: tracker_start_def ticket_pending_def total_def split: if_splits)
next
  case (3 k s k' s')
  then show ?case
    by (cases "bump (- 1) (tk_class k) (wt_active s)")
      (auto simp: ticket_finish_def ticket_pending_def bump_None dest: bump_total split: if_splits)
qed

subsection \<open>The wired system\<close>

text \<open>
  \<open>cmd/server\<close> gives the manager its tracker before its file, and \<open>Active\<close> of the tracker
  as the sample. A state of the system is the manager with the tickets handed out so far; a
  step is one operation of the tracker or of the manager, each atomic under its mutex.
\<close>

record drain_sys =
  ds_mgr :: drain_mgr
  ds_tickets :: "ticket list"

definition sampled :: "drain_mgr \<Rightarrow> active_work" where
  "sampled m = (case dm_tracker m of None \<Rightarrow> no_work | Some t \<Rightarrow> wt_active t)"

definition drain_startup ::
  "duration \<Rightarrow> bool \<Rightarrow> string \<Rightarrow> instant \<Rightarrow> drain_file fs \<Rightarrow> drain_error option \<times> drain_mgr" where
  "drain_startup quiet windows path now f =
     set_persistence path now (set_work_tracker (Some new_work_tracker) (new_drain_manager quiet windows f))"

datatype drain_event = EvGate "work_class gate_op" | EvBegin | EvStatus | EvExpire
  | EvOwn string | EvRenew string | EvRelease string | EvCancel

inductive drain_step :: "drain_event \<Rightarrow> drain_sys \<Rightarrow> drain_sys \<Rightarrow> bool" where
  gate: "dm_tracker (ds_mgr s) = Some t \<Longrightarrow>
    gate_step tracker_start ticket_finish op (ds_tickets s, t) = (ks, t') \<Longrightarrow>
    drain_step (EvGate op) s (s\<lparr>ds_mgr := (ds_mgr s)\<lparr>dm_tracker := Some t'\<rparr>, ds_tickets := ks\<rparr>)"
| begin_drain: "begin_drain lease gen now1 now2 (sampled (ds_mgr s)) q (ds_mgr s) = (r, m) \<Longrightarrow>
    drain_step EvBegin s (s\<lparr>ds_mgr := m\<rparr>)"
| status: "status now1 now2 (sampled (ds_mgr s)) q (ds_mgr s) = (st, m) \<Longrightarrow>
    drain_step EvStatus s (s\<lparr>ds_mgr := m\<rparr>)"
| admit: "admit now (ds_mgr s) = (ok, m) \<Longrightarrow> drain_step EvExpire s (s\<lparr>ds_mgr := m\<rparr>)"
| draining: "draining now (ds_mgr s) = (ch, m) \<Longrightarrow> drain_step EvExpire s (s\<lparr>ds_mgr := m\<rparr>)"
| supervisor: "drain_step EvExpire s (s\<lparr>ds_mgr := expire_locked now (ds_mgr s)\<rparr>)"
| take_ownership: "take_ownership gen (ds_mgr s) = (ok, m) \<Longrightarrow> drain_step (EvOwn gen) s (s\<lparr>ds_mgr := m\<rparr>)"
| renew: "renew gen lease now (ds_mgr s) = (ok, m) \<Longrightarrow> drain_step (EvRenew gen) s (s\<lparr>ds_mgr := m\<rparr>)"
| release: "release gen (ds_mgr s) = (ok, m) \<Longrightarrow> drain_step (EvRelease gen) s (s\<lparr>ds_mgr := m\<rparr>)"
| cancel: "cancel_drain (ds_mgr s) = (ok, m) \<Longrightarrow> drain_step EvCancel s (s\<lparr>ds_mgr := m\<rparr>)"

inductive_cases drain_stepE: "drain_step ev s s'"

inductive drain_reachable :: "drain_sys \<Rightarrow> bool" where
  startup: "path \<noteq> '''' \<Longrightarrow> drain_startup quiet windows path now f = (None, m) \<Longrightarrow>
    drain_reachable \<lparr>ds_mgr = m, ds_tickets = []\<rparr>"
| step: "drain_reachable s \<Longrightarrow> drain_step ev s s' \<Longrightarrow> drain_reachable s'"

text \<open>
  \<open>calm\<close> is what every operation of the manager does to the work: the counts stay, and
  Ready is reached only from Ready or when the sample was zero.
\<close>

definition calm :: "drain_mgr \<Rightarrow> drain_mgr \<Rightarrow> bool" where
  "calm m m' \<longleftrightarrow> map_option wt_active (dm_tracker m') = map_option wt_active (dm_tracker m) \<and>
     (dm_state m' = Ready \<longrightarrow> dm_state m = Ready \<or> total (sampled m) = 0)"

lemma sampled_cong: "map_option wt_active (dm_tracker m') = map_option wt_active (dm_tracker m) \<Longrightarrow> sampled m' = sampled m"
  by (auto simp: sampled_def split: option.splits)

lemma calm_refl [simp]: "calm m m" by (simp add: calm_def)

lemma calm_trans:
  assumes "calm a b" "calm b c"
  shows "calm a c"
proof -
  have "sampled b = sampled a" by (rule sampled_cong) (use assms(1) in \<open>simp add: calm_def\<close>)
  with assms show ?thesis unfolding calm_def by auto
qed

lemma map_option_active [simp]:
  "map_option (wt_active \<circ> tracker_open) x = map_option wt_active x"
  "map_option (wt_active \<circ> tracker_close) x = map_option wt_active x"
  "map_option (wt_active \<circ> (tracker_open \<circ> tracker_close)) x = map_option wt_active x"
  by (cases x; simp add: tracker_open_def tracker_close_def)+

lemma reset_locked_calm:
  assumes "reset_locked m = (ok, m1)"
  shows "calm m m1"
  using assms
proof (cases rule: reset_lockedE)
  case (failed e f) show ?thesis by (simp add: failed(3) calm_def)
next
  case (reopened f) show ?thesis by (simp add: reopened(3) calm_def idled_def option.map_comp)
qed

lemma expire_locked_calm: "calm m (expire_locked now m)"
proof (rule expire_locked_cases [of now m])
  assume "expire_locked now m = m" then show ?thesis by simp
next
  fix ok assume "reset_locked m = (ok, expire_locked now m)"
  then show ?thesis by (rule reset_locked_calm)
qed

lemma status_locked_calm:
  assumes "status_locked now a q m = (st, m')" "a = sampled m"
  shows "calm m m'"
  using assms(1)
proof (cases rule: status_lockedE)
  case same then show ?thesis by simp
next
  case (kept e f) show ?thesis by (simp add: kept(1) calm_def)
next
  case (stored f) then show ?thesis
    using assms(2) poll_state_Ready [of now a m] by (simp add: calm_def)
qed

lemma calm_sampled: "calm m m' \<Longrightarrow> sampled m' = sampled m"
  unfolding calm_def by (rule sampled_cong) simp

lemma status_calm:
  assumes "status now1 now2 (sampled m) q m = (st, m')"
  shows "calm m m'"
proof -
  have e: "calm m (expire_locked now1 m)" by (rule expire_locked_calm)
  from assms have "status_locked now2 (sampled m) q (expire_locked now1 m) = (st, m')"
    by (simp add: status_def)
  from calm_trans [OF e status_locked_calm [OF this]] calm_sampled [OF e] show ?thesis by simp
qed

lemma begin_drain_calm:
  assumes "begin_drain lease gen now1 now2 (sampled m) q m = (r, m')"
  shows "calm m m'"
  using assms
proof (cases rule: begin_drainE)
  case refused then show ?thesis by simp
next
  case (failed e f m2) show ?thesis by (simp add: failed(8) calm_def idled_def option.map_comp)
next
  case (begun st m2 f)
  have c: "calm m (m2\<lparr>dm_fs := f, dm_draining_closed := True\<rparr>)"
    by (simp add: begun(4) calm_def option.map_comp)
  from calm_trans [OF c status_locked_calm [OF begun(6)]] calm_sampled [OF c] show ?thesis by simp
qed

lemma take_ownership_calm:
  assumes "take_ownership gen m = (ok, m')"
  shows "calm m m'"
  using assms by (cases rule: take_ownershipE) (simp_all only: calm_def, simp_all)

lemma renew_calm:
  assumes "renew gen lease now m = (ok, m')"
  shows "calm m m'"
  using assms by (cases rule: renewE) (simp_all only: calm_def, simp_all)

lemma release_calm: "release gen m = (ok, m') \<Longrightarrow> calm m m'"
  by (auto simp: release_def intro: reset_locked_calm split: if_splits)

lemmas drain_calm = reset_locked_calm expire_locked_calm status_calm begin_drain_calm
  take_ownership_calm renew_calm release_calm

definition drain_sys_inv :: "drain_sys \<Rightarrow> bool" where
  "drain_sys_inv s \<longleftrightarrow>
     drain_inv (ds_mgr s) \<and> durable (ds_mgr s) \<and>
     (\<exists>t. dm_tracker (ds_mgr s) = Some t \<and>
          total (wt_active t) = int (length (filter ticket_pending (ds_tickets s)))) \<and>
     (dm_state (ds_mgr s) = Ready \<longrightarrow> total (sampled (ds_mgr s)) = 0)"

lemma drain_sys_inv_calm:
  assumes "drain_sys_inv s" "calm (ds_mgr s) m" "drain_inv m" "durable m"
  shows "drain_sys_inv (s\<lparr>ds_mgr := m\<rparr>)"
  using assms calm_sampled [OF assms(2)]
  by (auto simp: drain_sys_inv_def calm_def)

lemma drain_sys_inv_gate:
  assumes "drain_sys_inv s" "dm_tracker (ds_mgr s) = Some t"
    "gate_step tracker_start ticket_finish op (ds_tickets s, t) = (ks, t')"
  shows "drain_sys_inv (s\<lparr>ds_mgr := (ds_mgr s)\<lparr>dm_tracker := Some t'\<rparr>, ds_tickets := ks\<rparr>)"
proof -
  from assms have bal: "total (wt_active t) = int (length (filter ticket_pending (ds_tickets s)))"
    by (auto simp: drain_sys_inv_def)
  from wt.step_balance [OF bal assms(3)]
  have b: "total (wt_active t') = int (length (filter ticket_pending ks))" "wt_open t' = wt_open t" by auto
  have z: "total (wt_active t') = 0" if "dm_state (ds_mgr s) = Ready"
  proof -
    from that assms have "\<not> wt_open t" "total (wt_active t) = 0"
      by (auto simp: drain_sys_inv_def drain_inv_def sampled_def)
    with wt.step_closed [OF _ assms(3)] b(1) show ?thesis by auto
  qed
  have "durable ((ds_mgr s)\<lparr>dm_tracker := Some t'\<rparr>)"
    by (rule durable_same [of "ds_mgr s"]) (use assms(1) in \<open>auto simp: drain_sys_inv_def drain_doc_of_def\<close>)
  with assms b z show ?thesis
    by (auto simp: drain_sys_inv_def drain_inv_def sampled_def drain_doc_of_def)
qed

lemma drain_step_inv:
  assumes "drain_sys_inv s" "drain_step ev s s'"
  shows "drain_sys_inv s'"
proof -
  from assms(1) have i: "drain_inv (ds_mgr s)" and d: "durable (ds_mgr s)"
    by (auto simp: drain_sys_inv_def)
  note keep = drain_sys_inv_calm [OF assms(1)]
  note expire = keep [OF expire_locked_calm expire_locked_inv [OF i] expire_locked_durable [OF d]]
  from assms(2) show ?thesis
  proof (cases rule: drain_step.cases)
    case (gate t op ks t')
    show ?thesis unfolding gate(2) by (rule drain_sys_inv_gate [OF assms(1) gate(3,4)])
  next
    case (begin_drain lease gen now1 now2 q r m)
    show ?thesis unfolding begin_drain(2)
      by (rule keep [OF begin_drain_calm [OF begin_drain(3)] begin_drain_inv [OF begin_drain(3) i]
            begin_drain_durable [OF begin_drain(3) i d]])
  next
    case (status now1 now2 q st m)
    show ?thesis unfolding status(2)
      using keep [OF status_calm [OF status(3)]] status_keeps [OF status(3) i d] by blast
  next
    case (admit now ok m)
    then have "m = expire_locked now (ds_mgr s)" by (simp add: admit_def Let_def)
    then show ?thesis unfolding admit(2) by (simp only: expire)
  next
    case (draining now ch m)
    then have "m = expire_locked now (ds_mgr s)" by (simp add: draining_def Let_def)
    then show ?thesis unfolding draining(2) by (simp only: expire)
  next
    case (supervisor now)
    show ?thesis unfolding supervisor(2) by (rule expire)
  next
    case (take_ownership gen ok m)
    show ?thesis unfolding take_ownership(2)
      using keep [OF take_ownership_calm [OF take_ownership(3)]] take_ownership_keeps [OF take_ownership(3) i d] by blast
  next
    case (renew gen lease now ok m)
    show ?thesis unfolding renew(2)
      using keep [OF renew_calm [OF renew(3)]] renew_keeps [OF renew(3) i d] by blast
  next
    case (release gen ok m)
    show ?thesis unfolding release(2)
      using keep [OF release_calm [OF release(3)]] release_keeps [OF release(3) i d] by blast
  next
    case (cancel ok m)
    then have "reset_locked (ds_mgr s) = (ok, m)" by (simp add: cancel_drain_def)
    then show ?thesis unfolding cancel(2)
      by (intro keep reset_locked_calm reset_locked_inv [OF _ i] reset_locked_durable [OF _ d])
  qed
qed

definition started :: "duration \<Rightarrow> bool \<Rightarrow> string \<Rightarrow> drain_file fs \<Rightarrow> drain_mgr" where
  "started quiet windows path f =
     (new_drain_manager quiet windows f)\<lparr>dm_tracker := Some new_work_tracker, dm_persistence := path\<rparr>"

definition load_doc :: "drain_state \<Rightarrow> drain_doc \<Rightarrow> drain_mgr \<Rightarrow> drain_mgr" where
  "load_doc st d m =
     m\<lparr>dm_state := st, dm_generation := dd_generation d, dm_expires_at := dd_expires_at d,
       dm_zero_since := dd_zero_since d, dm_owned := dd_owned d\<rparr>"

definition close_if_draining :: "drain_mgr \<Rightarrow> drain_mgr" where
  "close_if_draining m =
     (if dm_state m \<noteq> Idle then map_tracker tracker_close (signal_draining_locked m) else m)"

lemma resume_state_Some: "resume_state s = Some st \<Longrightarrow> st \<noteq> Idle \<and> drain_state_name st = s"
  by (auto simp: resume_state_def split: if_splits)

lemma drain_startupE:
  assumes "drain_startup quiet windows path now f = (None, m)"
  obtains (fresh) f' where "fs_files f' = fs_files f" "saved_doc (fs_files f path) = Some idle_doc"
      "m = started quiet windows path f'"
    | (resumed) f' st d where "fs_files f' = fs_files f" "fs_faults f' = tl (fs_faults f)"
      "fs_files f path = Some (DrainJson d)" "resume_state (dd_state d) = Some st"
      "m = close_if_draining (expire_locked now (load_doc st d (started quiet windows path f')))"
proof -
  obtain r f' where rd: "os_read_file path f = (r, f')" by (rule prod.exhaust)
  then have files: "fs_files f' = fs_files f" "fs_faults f' = tl (fs_faults f)"
    and r: "\<And>c. r = Inr c \<Longrightarrow> fs_files f path = Some c" "r = Inl FsNotExist \<Longrightarrow> fs_files f path = None"
    by (auto simp: os_read_file_def fs_tick_def split: if_splits option.splits)
  note u = assms rd drain_startup_def set_work_tracker_def set_persistence_def started_def new_drain_manager_def
  show thesis
  proof (cases r)
    case (Inl e)
    with u have "m = started quiet windows path f'" "r = Inl FsNotExist"
      by (auto simp: Let_def split: fs_error.splits)
    with files r show ?thesis by (intro fresh) (auto simp: saved_doc_def)
  next
    case (Inr c)
    with u obtain d where c: "c = DrainJson d"
      by (cases c) (auto simp: Let_def)
    show ?thesis
    proof (cases "resume_state (dd_state d)")
      case None
      with u Inr c have "m = started quiet windows path f'" by (auto simp: Let_def)
      with files r Inr c None show ?thesis by (intro fresh) (auto simp: saved_doc_def)
    next
      case (Some st)
      with u Inr c have "m = close_if_draining (expire_locked now (load_doc st d (started quiet windows path f')))"
        by (auto simp: Let_def close_if_draining_def load_doc_def)
      with files r Inr c Some show ?thesis by (intro resumed) auto
    qed
  qed
qed

lemma started_inv:
  "saved_doc (fs_files f path) = Some idle_doc \<Longrightarrow>
   drain_sys_inv \<lparr>ds_mgr = started quiet windows path f, ds_tickets = []\<rparr>"
  by (simp add: drain_sys_inv_def drain_inv_def durable_def posix_file_def state_file_def sampled_def
      started_def new_drain_manager_def new_work_tracker_def no_work_def total_def drain_doc_of_def
      idle_doc_def drain_state_name_def)

lemma close_if_draining_inv:
  assumes "durable m" "dm_tracker m = Some t" "wt_active t = no_work"
    "dm_state m = Idle \<Longrightarrow> drain_inv m"
  shows "drain_sys_inv \<lparr>ds_mgr = close_if_draining m, ds_tickets = []\<rparr>"
proof (cases "dm_state m = Idle")
  case True
  with assms show ?thesis
    by (simp add: close_if_draining_def drain_sys_inv_def no_work_def total_def)
next
  case False
  have "durable (close_if_draining m)"
    by (rule durable_same [OF assms(1)])
      (simp_all add: close_if_draining_def False signal_draining_locked_def map_tracker_def drain_doc_of_def)
  with False assms show ?thesis
    by (simp add: close_if_draining_def drain_sys_inv_def drain_inv_def signal_draining_locked_def
        tracker_close_def no_work_def total_def sampled_def)
qed

lemma resumed_inv:
  assumes "fs_files f path = Some (DrainJson d)" "resume_state (dd_state d) = Some st"
    "m1 = load_doc st d (started quiet windows path f)"
  shows "drain_sys_inv \<lparr>ds_mgr = close_if_draining (expire_locked now m1), ds_tickets = []\<rparr>"
proof -
  note st = resume_state_Some [OF assms(2)]
  note u = assms(3) load_doc_def started_def new_drain_manager_def
  have "durable m1"
    using st assms(1,2) by (simp add: durable_def state_file_def saved_doc_def drain_doc_of_def u)
  then have dur: "durable (expire_locked now m1)" by (rule expire_locked_durable)
  have "calm m1 (expire_locked now m1)" by (rule expire_locked_calm)
  then obtain t where t: "dm_tracker (expire_locked now m1) = Some t" "wt_active t = no_work"
    by (auto simp: calm_def u new_work_tracker_def)
  have idle: "drain_inv (expire_locked now m1)" if i: "dm_state (expire_locked now m1) = Idle"
  proof (rule expire_locked_cases [of now m1])
    assume "expire_locked now m1 = m1" with i st show ?thesis by (simp add: u)
  next
    fix ok assume "reset_locked m1 = (ok, expire_locked now m1)"
    then show ?thesis
    proof (cases rule: reset_lockedE)
      case (failed e f') with i st show ?thesis by (simp add: u)
    next
      case (reopened f')
      show ?thesis unfolding reopened(3)
        by (simp add: drain_inv_def u idled_def tracker_open_def new_work_tracker_def drain_doc_of_def idle_doc_def)
    qed
  qed
  from close_if_draining_inv [OF dur t idle] show ?thesis .
qed

lemma drain_startup_inv:
  assumes "drain_startup quiet windows path now f = (None, m)"
  shows "drain_sys_inv \<lparr>ds_mgr = m, ds_tickets = []\<rparr>"
  using assms
proof (cases rule: drain_startupE)
  case (fresh f') then show ?thesis using started_inv [of f' path quiet windows] by simp
next
  case (resumed f' st d) then show ?thesis using resumed_inv [of f' path d st _ quiet windows now] by simp
qed

lemma drain_reachable_inv: "drain_reachable s \<Longrightarrow> drain_sys_inv s"
proof (induction rule: drain_reachable.induct)
  case (startup path quiet windows now f m)
  from drain_startup_inv [OF this(2)] show ?case .
next
  case (step s ev s')
  from drain_step_inv [OF step.IH step.hyps(2)] show ?case .
qed

subsection \<open>Properties\<close>

lemma expire_locked_doc:
  assumes "fs_faults (dm_fs m) = []"
  shows "drain_doc_of (expire_locked now m) =
    (if dm_state m \<noteq> Idle \<and> \<not> dm_owned m \<and> dm_expires_at m \<noteq> zero_time \<and> \<not> now < dm_expires_at m
     then idle_doc else drain_doc_of m)"
proof -
  have p: "\<exists>f. persist_locked (idled m) = (None, (idled m)\<lparr>dm_fs := f\<rparr>)"
  proof (cases "dm_persistence m = []")
    case True then show ?thesis by (intro exI [of _ "dm_fs m"]) (simp add: persist_locked_def idled_def)
  next
    case False
    with assms atomic_write_state_no_faults [of "dm_fs m" "dm_windows m" "dm_persistence m" "DrainJson idle_doc"]
    show ?thesis unfolding persist_locked_def drain_doc_of_idled by (auto simp: idled_def)
  qed
  obtain ok m1 where r: "reset_locked m = (ok, m1)" by (rule prod.exhaust)
  then have "drain_doc_of m1 = idle_doc"
  proof (cases rule: reset_lockedE)
    case (failed e f) with p show ?thesis by auto
  next
    case (reopened f)
    then show ?thesis by (simp add: idled_def drain_doc_of_def idle_doc_def)
  qed
  with r show ?thesis by (simp add: expire_locked_def)
qed

lemma close_if_draining_doc [simp]: "drain_doc_of (close_if_draining m) = drain_doc_of m"
  by (simp add: close_if_draining_def signal_draining_locked_def map_tracker_def drain_doc_of_def)

text \<open>
  In every reachable state of the server the gate and the drain agree: the tracker
  accepts new executions exactly when the manager is idle, the draining channel is closed
  exactly when it is not, and the tracker's counts add up to the tickets still pending.
\<close>

theorem drain_gate_agrees:
  "drain_reachable s \<Longrightarrow>
   \<exists>t. dm_tracker (ds_mgr s) = Some t \<and>
     (wt_open t \<longleftrightarrow> dm_state (ds_mgr s) = Idle) \<and>
     (dm_draining_closed (ds_mgr s) \<longleftrightarrow> dm_state (ds_mgr s) \<noteq> Idle) \<and>
     total (wt_active t) = int (length (filter ticket_pending (ds_tickets s)))"
  by (drule drain_reachable_inv) (auto simp: drain_sys_inv_def drain_inv_def)

text \<open>
  C1: A drain that reports Ready has no execution in flight: every ticket handed out has
  been finished, and none can be started until the drain ends.
\<close>

theorem drain_ready_quiesced:
  assumes "drain_reachable s" "dm_state (ds_mgr s) = Ready"
  shows "filter ticket_pending (ds_tickets s) = [] \<and>
    (\<forall>t c k t'. dm_tracker (ds_mgr s) = Some t \<longrightarrow> tracker_start c t \<noteq> Inr (k, t'))"
proof -
  from drain_reachable_inv [OF assms(1)] assms(2) show ?thesis
    by (auto simp: drain_sys_inv_def drain_inv_def sampled_def dest: wt.start_closed)
qed

text \<open>
  C27: A restart resumes the drain. With its state file on a POSIX file system, whatever
  calls failed before, the process that starts on the files left behind and whose own calls succeed has the state,
  generation, lease, quiet timer and ownership the old one had, up to an expiry that fell due.
\<close>

theorem drain_restart_resumes:
  assumes "drain_reachable s" "posix_file (ds_mgr s)"
    "drain_startup quiet windows (dm_persistence (ds_mgr s)) now
       \<lparr>fs_files = fs_files (dm_fs (ds_mgr s)), fs_faults = []\<rparr> = (None, m)"
  shows "drain_doc_of m =
    drain_doc_of (expire_locked now ((ds_mgr s)\<lparr>dm_fs := \<lparr>fs_files = fs_files (dm_fs (ds_mgr s)), fs_faults = []\<rparr>\<rparr>))"
proof -
  from drain_reachable_inv [OF assms(1)] assms(2)
  have sv: "saved_doc (fs_files (dm_fs (ds_mgr s)) (dm_persistence (ds_mgr s))) = Some (drain_doc_of (ds_mgr s))"
    by (simp add: drain_sys_inv_def durable_def state_file_def)
  from assms(3) show ?thesis
  proof (cases rule: drain_startupE)
    case (fresh f')
    with sv have i: "drain_doc_of (ds_mgr s) = idle_doc" by simp
    then have "dm_state (ds_mgr s) = Idle" by (simp add: drain_doc_of_def idle_doc_def)
    with fresh i show ?thesis
      by (simp add: expire_locked_def started_def new_drain_manager_def drain_doc_of_def idle_doc_def)
  next
    case (resumed f' st d)
    note st = resume_state_Some [OF resumed(4)]
    from sv resumed have d: "d = drain_doc_of (ds_mgr s)" by (simp add: saved_doc_def)
    with st have state: "dm_state (ds_mgr s) = st"
      by (cases st; cases "dm_state (ds_mgr s)") (simp_all add: drain_doc_of_def drain_state_name_def)
    let ?l = "load_doc st d (started quiet windows (dm_persistence (ds_mgr s)) f')"
    have doc: "drain_doc_of ?l = drain_doc_of (ds_mgr s)"
      using st by (simp add: d state drain_doc_of_def load_doc_def)
    have cond: "dm_state ?l = dm_state (ds_mgr s)" "dm_owned ?l = dm_owned (ds_mgr s)"
      "dm_expires_at ?l = dm_expires_at (ds_mgr s)" "fs_faults (dm_fs ?l) = []"
      using resumed(2) by (simp_all add: state d load_doc_def drain_doc_of_def started_def new_drain_manager_def)
    show ?thesis
      unfolding resumed(5) close_if_draining_doc expire_locked_doc [OF cond(4)] cond doc
      by (simp add: expire_locked_doc)
  qed
qed

text \<open>
  C32: An owned drain ends only on purpose. Polls, expiry checks of any clock reading, other
  generations' requests, new drains and finishing work all keep the ownership; only the
  owner's release or an explicit cancel can end it.
\<close>

lemma owns_frame:
  "dm_generation m' = dm_generation m \<Longrightarrow> dm_state m' \<noteq> Idle \<Longrightarrow> dm_owned m' \<Longrightarrow> owns gen m \<Longrightarrow> owns gen m'"
  by (auto simp: owns_def)

lemma expire_locked_owned: "dm_owned m \<Longrightarrow> expire_locked now m = m"
  by (simp add: expire_locked_def)

theorem drain_owned_kept:
  assumes "drain_step ev s s'" "owns gen (ds_mgr s)" "ev \<noteq> EvCancel" "ev \<noteq> EvRelease gen"
  shows "owns gen (ds_mgr s')"
proof -
  from assms(2) have o: "dm_owned (ds_mgr s)" "dm_state (ds_mgr s) \<noteq> Idle" "gen = dm_generation (ds_mgr s)" "gen \<noteq> []"
    by (auto simp: owns_def)
  note e = expire_locked_owned [OF o(1)]
  from assms(1) show ?thesis
  proof (cases rule: drain_step.cases)
    case (gate t op ks t') with assms(2) show ?thesis by (auto simp: owns_def)
  next
    case (begin_drain lease gen' now1 now2 q r m)
    with o(2) assms(2) show ?thesis by (auto simp: begin_drain_def split: if_splits)
  next
    case (status now1 now2 q st m)
    from status(3) have "status_locked now2 (sampled (ds_mgr s)) q (ds_mgr s) = (st, m)"
      by (simp add: status_def e)
    then show ?thesis using o status(2) by (cases rule: status_lockedE) (simp_all add: owns_def)
  next
    case (admit now ok m) with assms(2) e show ?thesis by (simp add: admit_def Let_def)
  next
    case (draining now ch m) with assms(2) e show ?thesis by (simp add: draining_def Let_def)
  next
    case (supervisor now) with assms(2) e show ?thesis by simp
  next
    case (take_ownership gen' ok m)
    with o assms(2) show ?thesis by (auto simp: take_ownership_def)
  next
    case (renew gen' lease now ok m)
    from renew(3) o show ?thesis unfolding renew(2) by (cases rule: renewE) (simp_all add: owns_def)
  next
    case (release gen' ok m)
    with o assms(2,4) show ?thesis by (auto simp: release_def split: if_splits)
  next
    case cancel with assms(3) show ?thesis by simp
  qed
qed

lemma persist_locked_no_faults:
  assumes "fs_faults (dm_fs m) = []"
  obtains f where "persist_locked m = (None, m\<lparr>dm_fs := f\<rparr>)" "fs_faults f = []"
proof (cases "dm_persistence m = []")
  case True
  with assms show ?thesis by (intro that [of "dm_fs m"]) (simp_all add: persist_locked_def)
next
  case False
  with assms atomic_write_state_no_faults [of "dm_fs m" "dm_windows m" "dm_persistence m" "DrainJson (drain_doc_of m)"]
  show ?thesis by (auto simp: persist_locked_def intro: that)
qed

lemma status_no_faults:
  assumes "fs_faults (dm_fs m) = []" "dm_owned m \<or> now1 < dm_expires_at m"
  obtains f st where "status now1 now2 a q m = (st, (poll_state now2 a m)\<lparr>dm_fs := f\<rparr>)" "fs_faults f = []"
proof -
  obtain st m2 where s: "status_locked now2 a q m = (st, m2)" by (rule prod.exhaust)
  from assms(2) have e: "expire_locked now1 m = m" by (auto simp: expire_locked_def)
  from assms(1) have "fs_faults (dm_fs (poll_state now2 a m)) = []" by simp
  from persist_locked_no_faults [OF this]
  obtain g where g: "persist_locked (poll_state now2 a m) = (None, (poll_state now2 a m)\<lparr>dm_fs := g\<rparr>)" "fs_faults g = []" .
  from s show ?thesis
  proof (cases rule: status_lockedE)
    case same with s e assms(1) show ?thesis by (intro that [of st "dm_fs m"]) (simp_all add: status_def)
  next
    case (kept x f) with g show ?thesis by simp
  next
    case (stored f)
    with g(1) have "(poll_state now2 a m)\<lparr>dm_fs := g\<rparr> = (poll_state now2 a m)\<lparr>dm_fs := f\<rparr>" by simp
    then have "f = g" by (metis drain_mgr.select_convs(13) drain_mgr.surjective drain_mgr.update_convs(13))
    with stored s e g(2) show ?thesis by (intro that [of st f]) (simp_all add: status_def)
  qed
qed

text \<open>
  C36: A drain gets there. Once nothing is active, the file can be written and the lease has
  not run out, two polls that lie at least the quiet interval apart report Ready.
\<close>

theorem drain_becomes_ready:
  assumes "fs_faults (dm_fs m) = []" "dm_state m = Draining" "dm_zero_since m = zero_time" "total a = 0"
    "dm_owned m \<or> (e1 < dm_expires_at m \<and> e2 < dm_expires_at m)" "t1 \<noteq> zero_time"
    "t1 + dm_quiet m \<le> t2" "dm_quiet m \<le> max_duration"
  shows "st_state (fst (status e2 t2 a q2 (snd (status e1 t1 a q1 m)))) = Ready"
proof -
  obtain f1 st1 where s1: "status e1 t1 a q1 m = (st1, (poll_state t1 a m)\<lparr>dm_fs := f1\<rparr>)" "fs_faults f1 = []"
    using status_no_faults [of m e1 t1 a q1] assms(1,5) by blast
  let ?m1 = "(poll_state t1 a m)\<lparr>dm_fs := f1\<rparr>"
  have p1: "dm_state ?m1 = Draining" "dm_zero_since ?m1 = t1" "dm_quiet ?m1 = dm_quiet m"
    "dm_owned ?m1 = dm_owned m" "dm_expires_at ?m1 = dm_expires_at m" "fs_faults (dm_fs ?m1) = []"
    using assms s1 by (simp_all add: poll_state_def)
  obtain f2 st2 where s2: "status e2 t2 a q2 ?m1 = (st2, (poll_state t2 a ?m1)\<lparr>dm_fs := f2\<rparr>)"
    using p1(4-6) assms(5) by (auto intro: status_no_faults [of ?m1 e2 t2 a q2, OF p1(6)])
  have r: "dm_state (poll_state t2 a ?m1) = Ready"
    unfolding poll_state_def [of t2 a ?m1] p1(1-3)
    using assms(4,6,8) time_sub_ge [OF assms(8,7)] by simp
  have "st_state st2 = dm_state (poll_state t2 a ?m1)"
    using status_locked_report [of t2 a q2 "expire_locked e2 ?m1"] s2
    by (auto simp: status_def simp del: drain_state.distinct)
  with s1 s2 r show ?thesis by simp
qed

subsection \<open>A run\<close>

text \<open>
  One execution is started, a drain begins, the execution finishes, the first poll
  cannot write the file, and two polls a quiet interval apart make the drain ready. The witnesses of the properties are on this run.
\<close>

definition demo_fs :: "drain_file fs" where
  "demo_fs = \<lparr>fs_files = Map.empty, fs_faults = [False, False, False, False, True]\<rparr>"

definition demo_start :: drain_mgr where
  "demo_start = snd (drain_startup 5 False ''d'' 0 demo_fs)"

definition demo_gate :: "work_class gate_op \<Rightarrow> drain_sys \<Rightarrow> drain_sys" where
  "demo_gate op s =
     (case gate_step tracker_start ticket_finish op (ds_tickets s, the (dm_tracker (ds_mgr s))) of
        (ks, t) \<Rightarrow> s\<lparr>ds_mgr := (ds_mgr s)\<lparr>dm_tracker := Some t\<rparr>, ds_tickets := ks\<rparr>)"

definition demo_poll :: "instant \<Rightarrow> drain_sys \<Rightarrow> drain_sys" where
  "demo_poll t s = s\<lparr>ds_mgr := snd (status t t (sampled (ds_mgr s)) 0 (ds_mgr s))\<rparr>"

definition demo_busy :: drain_sys where
  "demo_busy = demo_gate (GateStart WorkTask) \<lparr>ds_mgr = demo_start, ds_tickets = []\<rparr>"

definition demo_drain :: drain_sys where
  "demo_drain = demo_busy\<lparr>ds_mgr := snd (begin_drain 100 ''g'' 1 1 (sampled (ds_mgr demo_busy)) 0 (ds_mgr demo_busy))\<rparr>"

definition demo_ready :: drain_sys where
  "demo_ready = demo_poll 30 (demo_poll 20 (demo_poll 10 (demo_gate (GateFinish 0) demo_drain)))"

definition demo_owned :: drain_sys where
  "demo_owned = demo_ready\<lparr>ds_mgr := snd (take_ownership ''g'' (ds_mgr demo_ready))\<rparr>"

lemma demo_gate_reachable:
  "drain_reachable s \<Longrightarrow> drain_reachable (demo_gate op s)"
proof -
  assume r: "drain_reachable s"
  then obtain t where t: "dm_tracker (ds_mgr s) = Some t"
    using drain_reachable_inv drain_sys_inv_def by blast
  obtain ks t' where g: "gate_step tracker_start ticket_finish op (ds_tickets s, t) = (ks, t')"
    by (rule prod.exhaust)
  from drain_reachable.step [OF r drain_step.gate [OF t g]] t g show ?thesis
    by (simp add: demo_gate_def)
qed

lemma demo_poll_reachable:
  assumes "drain_reachable s"
  shows "drain_reachable (demo_poll t s)"
  unfolding demo_poll_def
  by (rule drain_reachable.step [OF assms drain_step.status]) (rule prod.collapse [symmetric])

lemma demo_start_reachable: "drain_reachable \<lparr>ds_mgr = demo_start, ds_tickets = []\<rparr>"
proof (rule drain_reachable.startup)
  have "fst (drain_startup 5 False ''d'' 0 demo_fs) = None" by code_simp
  then show "drain_startup 5 False ''d'' 0 demo_fs = (None, demo_start)"
    unfolding demo_start_def by (metis prod.collapse)
qed simp

lemma demo_drain_reachable: "drain_reachable demo_drain"
  unfolding demo_drain_def
proof (rule drain_reachable.step [OF _ drain_step.begin_drain])
  show "drain_reachable demo_busy"
    unfolding demo_busy_def by (rule demo_gate_reachable [OF demo_start_reachable])
qed (rule prod.collapse [symmetric])

lemma demo_ready_reachable: "drain_reachable demo_ready"
  unfolding demo_ready_def
  by (intro demo_poll_reachable demo_gate_reachable demo_drain_reachable)

theorem drain_gate_agrees_witness:
  "\<exists>t. dm_tracker (ds_mgr demo_drain) = Some t \<and>
     (wt_open t \<longleftrightarrow> dm_state (ds_mgr demo_drain) = Idle) \<and>
     (dm_draining_closed (ds_mgr demo_drain) \<longleftrightarrow> dm_state (ds_mgr demo_drain) \<noteq> Idle) \<and>
     total (wt_active t) = int (length (filter ticket_pending (ds_tickets demo_drain)))"
  by (rule drain_gate_agrees [OF demo_drain_reachable])

theorem drain_ready_quiesced_witness: "filter ticket_pending (ds_tickets demo_ready) = []"
proof -
  have "dm_state (ds_mgr demo_ready) = Ready" by code_simp
  from drain_ready_quiesced [OF demo_ready_reachable this] show ?thesis by simp
qed

theorem drain_restart_resumes_witness:
  "dd_generation (drain_doc_of (snd (drain_startup 5 False ''d'' 50
     \<lparr>fs_files = fs_files (dm_fs (ds_mgr demo_ready)), fs_faults = []\<rparr>))) = ''g''"
proof -
  let ?f = "\<lparr>fs_files = fs_files (dm_fs (ds_mgr demo_ready)), fs_faults = []\<rparr>"
  have p: "posix_file (ds_mgr demo_ready)" "dm_persistence (ds_mgr demo_ready) = ''d''" by code_simp+
  have "fst (drain_startup 5 False ''d'' 50 ?f) = None" by code_simp
  then have s: "drain_startup 5 False (dm_persistence (ds_mgr demo_ready)) 50 ?f = (None, snd (drain_startup 5 False ''d'' 50 ?f))"
    unfolding p(2) by (metis prod.collapse)
  have "dd_generation (drain_doc_of (expire_locked 50 ((ds_mgr demo_ready)\<lparr>dm_fs := ?f\<rparr>))) = ''g''"
    by code_simp
  then show ?thesis unfolding drain_restart_resumes [OF demo_ready_reachable p(1) s] .
qed

theorem drain_owned_kept_witness:
  "owns ''g'' (expire_locked 1000 (ds_mgr demo_owned))"
proof -
  have o: "owns ''g'' (ds_mgr demo_owned)" by code_simp
  from drain_owned_kept [OF drain_step.supervisor [of demo_owned 1000] o] show ?thesis by simp
qed

theorem drain_becomes_ready_witness:
  "st_state (fst (status 20 20 no_work 0 (snd (status 10 10 no_work 0
     ((ds_mgr (demo_gate (GateFinish 0) demo_drain))\<lparr>dm_fs := \<lparr>fs_files = Map.empty, fs_faults = []\<rparr>\<rparr>))))) = Ready"
  by (rule drain_becomes_ready) code_simp+

end
