(* ===== verification/UpdateClient.thy ===== *)
theory UpdateClient
  imports DurableFile
begin

section \<open>Releases and the update client\<close>

text \<open>
  \<open>internal/update/client.go\<close>: the release a service offers, its verification and its validation
  for the running build, and the check that asks the service at most once a day and remembers the
  highest version it has accepted. What the code takes from outside the repository is the record
  \<open>ext\<close>: package \<open>semver\<close>, the canonical form of JSON, Ed25519, and the decoders of base64, of the
  signed metadata and of URLs. The answer of the service to a request is an argument, and so are the
  readings of the clock and of the random source. The state file goes through the calls of
  \<open>DurableFile\<close>. Downloads are left out.
\<close>

subsection \<open>Data\<close>

record target =
  tg_id :: string
  tg_purpose :: string
  tg_variant :: string
  tg_kind :: string
  tg_os :: string
  tg_arch :: string
  tg_url :: string
  tg_filename :: string
  tg_filetype :: string
  tg_install_layout :: string
  tg_size :: int
  tg_sha256 :: string
  tg_image_ref :: string

record release_metadata =
  rm_schema :: int
  rm_version :: string
  rm_commit :: string
  rm_channel :: string
  rm_published_at :: instant
  rm_expires_at :: instant
  rm_notes_url :: string
  rm_minimum_updater :: string
  rm_minimum_hosted :: string
  rm_database :: string
  rm_targets :: "target list"

record verified_release =
  vr_metadata :: release_metadata
  vr_target :: target
  vr_apply_supported :: bool
  vr_action :: string

record current_build =
  cb_version :: string
  cb_commit :: string
  cb_os :: string
  cb_arch :: string
  cb_distribution :: string

record signature =
  sg_key_id :: string
  sg_algorithm :: string
  sg_value :: string

record check_response =
  cr_schema :: int
  cr_latest_version :: string
  cr_channel :: string
  cr_apply_supported :: bool
  cr_action :: string
  cr_notes_url :: string
  cr_selected_target :: string
  cr_release :: "(string \<times> signature list) option"

record artifact_url =
  au_absolute :: bool
  au_user :: bool
  au_fragment :: string
  au_scheme :: string
  au_hostname :: string
  au_loopback_ip :: bool

record ext =
  ex_semver_valid :: "string \<Rightarrow> bool"
  ex_semver_compare :: "string \<Rightarrow> string \<Rightarrow> int"
  ex_canonical :: "string \<Rightarrow> string option"
  ex_base64 :: "string \<Rightarrow> string option"
  ex_verify :: "string \<Rightarrow> string \<Rightarrow> string \<Rightarrow> bool"
  ex_metadata :: "string \<Rightarrow> release_metadata option"
  ex_url :: "string \<Rightarrow> artifact_url option"

record client_config =
  cc_channel :: string
  cc_keys :: "string \<rightharpoonup> string"
  cc_path :: string

definition blank_target :: target where
  "blank_target = \<lparr>tg_id = '''', tg_purpose = '''', tg_variant = '''', tg_kind = '''', tg_os = '''', tg_arch = '''',
     tg_url = '''', tg_filename = '''', tg_filetype = '''', tg_install_layout = '''', tg_size = 0, tg_sha256 = '''',
     tg_image_ref = ''''\<rparr>"

subsection \<open>Versions\<close>

definition with_v :: "string \<Rightarrow> string" where
  "with_v v = (if has_prefix v ''v'' then v else ''v'' @ v)"

definition valid_version :: "ext \<Rightarrow> string \<Rightarrow> bool" where
  "valid_version x v = ex_semver_valid x (with_v (trim_space v))"

definition compare_versions :: "ext \<Rightarrow> string \<Rightarrow> string \<Rightarrow> int" where
  "compare_versions x a b =
     (let a' = with_v (trim_space a); b' = with_v (trim_space b)
      in if \<not> ex_semver_valid x a' \<or> \<not> ex_semver_valid x b' then 0 else ex_semver_compare x a' b')"

subsection \<open>Targets\<close>

definition release_target_matches_metadata :: "verified_release \<Rightarrow> bool" where
  "release_target_matches_metadata r \<longleftrightarrow>
     tg_id (vr_target r) \<noteq> '''' \<and>
     (\<exists>t \<in> set (rm_targets (vr_metadata r)). tg_id t = tg_id (vr_target r) \<and> t = vr_target r)"

definition expected_update_action :: "string \<Rightarrow> string" where
  "expected_update_action d = (if d = ''docker'' \<or> d = ''hosted'' then ''container'' else ''download'')"

definition kind_error :: "current_build \<Rightarrow> string \<Rightarrow> string option" where
  "kind_error b k =
     (if cb_distribution b = ''desktop''
      then if cb_os b = ''darwin''
           then if k = ''app_bundle'' then None else Some ''macOS desktop release target must be an app bundle''
           else if k = ''executable'' then None else Some ''desktop release target must be an executable''
      else if cb_distribution b = ''binary''
      then if k = ''binary'' \<or> k = ''executable'' then None else Some ''binary release target must be an executable''
      else if cb_distribution b = ''docker'' \<or> cb_distribution b = ''hosted''
      then if k = ''oci'' then None else Some ''container release target must be OCI''
      else None)"

definition validate_release_target_for_current :: "verified_release \<Rightarrow> current_build \<Rightarrow> bool \<Rightarrow> string option" where
  "validate_release_target_for_current r b complete =
     (let t = vr_target r
      in if complete \<and> \<not> vr_apply_supported r then Some ''automatic update response must set apply_supported''
         else if cb_distribution b \<noteq> '''' \<and> (complete \<or> vr_action r \<noteq> '''') \<and> vr_action r \<noteq> expected_update_action (cb_distribution b)
         then Some ''automatic update action does not match the verified distribution''
         else if ((complete \<or> tg_os t \<noteq> '''') \<and> tg_os t \<noteq> cb_os b) \<or>
                 ((complete \<or> tg_arch t \<noteq> '''') \<and> tg_arch t \<noteq> cb_arch b \<and> tg_arch t \<noteq> ''multi'')
         then Some ''selected release target platform mismatch''
         else if tg_purpose t \<noteq> '''' \<or> tg_variant t \<noteq> '''' \<or> tg_install_layout t \<noteq> ''''
         then Some ''selected release target is not an updater download target''
         else if complete \<or> tg_kind t \<noteq> '''' then kind_error b (tg_kind t)
         else None)"

text \<open>
  The pattern of an image reference, as the language of a regular expression: \<open>RxAt p\<close> is one
  character that satisfies \<open>p\<close>; a text matches when the derivatives by its characters end in an
  expression that accepts the empty text.
\<close>

datatype rx = RxNone | RxEmpty | RxAt "char \<Rightarrow> bool" | RxSeq rx rx | RxAlt rx rx | RxStar rx

fun rx_nullable :: "rx \<Rightarrow> bool" where
  "rx_nullable RxNone = False"
| "rx_nullable RxEmpty = True"
| "rx_nullable (RxAt p) = False"
| "rx_nullable (RxSeq r s) = (rx_nullable r \<and> rx_nullable s)"
| "rx_nullable (RxAlt r s) = (rx_nullable r \<or> rx_nullable s)"
| "rx_nullable (RxStar r) = True"

fun rx_deriv :: "char \<Rightarrow> rx \<Rightarrow> rx" where
  "rx_deriv c RxNone = RxNone"
| "rx_deriv c RxEmpty = RxNone"
| "rx_deriv c (RxAt p) = (if p c then RxEmpty else RxNone)"
| "rx_deriv c (RxSeq r s) = (if rx_nullable r then RxAlt (RxSeq (rx_deriv c r) s) (rx_deriv c s) else RxSeq (rx_deriv c r) s)"
| "rx_deriv c (RxAlt r s) = RxAlt (rx_deriv c r) (rx_deriv c s)"
| "rx_deriv c (RxStar r) = RxSeq (rx_deriv c r) (RxStar r)"

definition rx_matches :: "rx \<Rightarrow> string \<Rightarrow> bool" where
  "rx_matches r s = rx_nullable (fold rx_deriv s r)"

definition rx_text :: "string \<Rightarrow> rx" where
  "rx_text s = foldr (\<lambda>c. RxSeq (RxAt (\<lambda>d. d = c))) s RxEmpty"

definition rx_opt :: "rx \<Rightarrow> rx" where
  "rx_opt r = RxAlt RxEmpty r"

definition rx_plus :: "rx \<Rightarrow> rx" where
  "rx_plus r = RxSeq r (RxStar r)"

fun rx_times :: "nat \<Rightarrow> rx \<Rightarrow> rx" where
  "rx_times 0 r = RxEmpty"
| "rx_times (Suc n) r = RxSeq r (rx_times n r)"

fun rx_seq :: "rx list \<Rightarrow> rx" where
  "rx_seq [] = RxEmpty"
| "rx_seq (r # rs) = RxSeq r (rx_seq rs)"

definition one_of :: "string \<Rightarrow> char \<Rightarrow> bool" where
  "one_of s c = (c \<in> set s)"

definition lower_digits :: string where
  "lower_digits = ''abcdefghijklmnopqrstuvwxyz0123456789''"

definition word_chars :: string where
  "word_chars = ''ABCDEFGHIJKLMNOPQRSTUVWXYZ_'' @ lower_digits"

definition image_path :: rx where
  "image_path =
     (let word = rx_plus (RxAt (one_of lower_digits));
          separator = RxAlt (RxAt (one_of ''._'')) (RxAlt (rx_text ''__'') (rx_plus (rx_text ''-'')))
      in RxSeq word (RxStar (RxSeq separator word)))"

definition image_ref_pattern :: rx where
  "image_ref_pattern =
     (let word = rx_plus (RxAt (one_of lower_digits));
          host = RxAlt (rx_text ''localhost'') (RxSeq word (RxStar (RxSeq (RxAt (one_of ''.-'')) word)))
      in rx_seq
           [rx_opt (rx_seq [host, rx_opt (RxSeq (rx_text '':'') (rx_plus (RxAt (one_of ''0123456789'')))), rx_text ''/'']),
            image_path, RxStar (RxSeq (rx_text ''/'') image_path),
            rx_opt (rx_seq [rx_text '':'', RxAt (one_of word_chars), rx_times 127 (rx_opt (RxAt (one_of (word_chars @ ''.-''))))]),
            rx_text ''@sha256:'', rx_times 64 (RxAt (one_of ''abcdef0123456789''))])"

definition name_end :: "string \<Rightarrow> nat option" where
  "name_end s = (case filter (\<lambda>i. s ! i = CHR ''@'') [0..<length s] of [] \<Rightarrow> None | is \<Rightarrow> Some (last is))"

definition valid_oci_image_ref :: "string \<Rightarrow> bool" where
  "valid_oci_image_ref s \<longleftrightarrow> rx_matches image_ref_pattern s \<and>
     (case name_end s of None \<Rightarrow> False | Some n \<Rightarrow> 0 < n \<and> n \<le> 255)"

subsection \<open>Verification of an answer\<close>

definition is_loopback_host :: "artifact_url \<Rightarrow> bool" where
  "is_loopback_host u \<longleftrightarrow> to_lower (au_hostname u) = ''localhost'' \<or> au_loopback_ip u"

definition download_url_ok :: "ext \<Rightarrow> string \<Rightarrow> bool" where
  "download_url_ok x s =
     (case ex_url x s of
        None \<Rightarrow> False
      | Some u \<Rightarrow> au_absolute u \<and> \<not> au_user u \<and> au_fragment u = '''' \<and>
          (au_scheme u = ''https'' \<or> au_scheme u = ''http'' \<and> is_loopback_host u))"

definition signed_by :: "ext \<Rightarrow> client_config \<Rightarrow> string \<Rightarrow> signature \<Rightarrow> bool" where
  "signed_by x cfg canonical s =
     (case (cc_keys cfg (sg_key_id s), ex_base64 x (sg_value s)) of
        (Some key, Some raw) \<Rightarrow> sg_algorithm s = ''ed25519'' \<and> length key = 32 \<and> ex_verify x key canonical raw
      | _ \<Rightarrow> False)"

text \<open>An updater of version 0.1.0 applies only what asks for no newer one.\<close>

definition needs_newer_updater :: "ext \<Rightarrow> release_metadata \<Rightarrow> bool" where
  "needs_newer_updater x m \<longleftrightarrow> rm_minimum_updater m \<noteq> '''' \<and> compare_versions x (rm_minimum_updater m) ''0.1.0'' > 0"

definition select_target :: "ext \<Rightarrow> check_response \<Rightarrow> current_build \<Rightarrow> release_metadata \<Rightarrow> string + verified_release" where
  "select_target x rsp b m =
     (case find (\<lambda>t. tg_id t = cr_selected_target rsp) (rm_targets m) of
        None \<Rightarrow> Inl ''selected release target mismatch''
      | Some t \<Rightarrow>
          if cr_selected_target rsp = '''' then Inl ''selected release target mismatch''
          else let v = \<lparr>vr_metadata = m, vr_target = t, vr_apply_supported = True, vr_action = expected_update_action (cb_distribution b)\<rparr>
               in case validate_release_target_for_current v b True of
                    Some e \<Rightarrow> Inl e
                  | None \<Rightarrow>
                      if tg_kind t = ''oci''
                      then if valid_oci_image_ref (tg_image_ref t) then Inr v
                           else Inl ''OCI target must use an exact SHA-256 digest reference''
                      else if tg_size t \<le> 0 \<or> length (tg_sha256 t) \<noteq> 64 \<or> tg_url t = ''''
                      then Inl ''download target has invalid size, digest, or URL''
                      else if \<not> download_url_ok x (tg_url t) then Inl ''download target URL must use HTTPS or loopback HTTP''
                      else Inr v)"

definition verify_metadata ::
  "ext \<Rightarrow> client_config \<Rightarrow> check_response \<Rightarrow> current_build \<Rightarrow> string \<Rightarrow> instant \<Rightarrow> release_metadata \<Rightarrow> string + verified_release" where
  "verify_metadata x cfg rsp b highest now m =
     (if rm_schema m \<noteq> 1 then Inl (''unsupported release schema_version '' @ show_int (rm_schema m))
      else if \<not> valid_version x (rm_version m) \<or> (rm_minimum_updater m \<noteq> '''' \<and> \<not> valid_version x (rm_minimum_updater m))
      then Inl ''release contains an invalid semantic version''
      else if \<not> now < rm_expires_at m then Inl ''release metadata expired''
      else if rm_channel m \<noteq> cc_channel cfg \<or> (cr_channel rsp \<noteq> '''' \<and> cr_channel rsp \<noteq> rm_channel m)
      then Inl ''release channel mismatch''
      else if cr_latest_version rsp \<noteq> '''' \<and> cr_latest_version rsp \<noteq> rm_version m
      then Inl ''release version hint does not match signed metadata''
      else if cr_notes_url rsp \<noteq> '''' \<and> cr_notes_url rsp \<noteq> rm_notes_url m
      then Inl ''release notes hint does not match signed metadata''
      else if compare_versions x (rm_version m) (cb_version b) \<le> 0 \<or> (highest \<noteq> '''' \<and> compare_versions x (rm_version m) highest < 0)
      then Inl ''release version is not an authorized upgrade''
      else if needs_newer_updater x m \<or> \<not> cr_apply_supported rsp \<or> cr_action rsp = ''manual''
      then if cr_apply_supported rsp \<or> cr_action rsp \<noteq> ''manual'' \<or> cr_selected_target rsp \<noteq> ''''
           then Inl ''manual update response has inconsistent routing hints''
           else Inr \<lparr>vr_metadata = m, vr_target = blank_target, vr_apply_supported = False, vr_action = ''manual''\<rparr>
      else if cr_action rsp \<noteq> expected_update_action (cb_distribution b)
      then Inl ''automatic update action does not match the verified distribution''
      else select_target x rsp b m)"

definition verify_release ::
  "ext \<Rightarrow> client_config \<Rightarrow> check_response \<Rightarrow> current_build \<Rightarrow> string \<Rightarrow> instant \<Rightarrow> string + verified_release" where
  "verify_release x cfg rsp b highest now =
     (case cr_release rsp of
        None \<Rightarrow> Inl ''signed release required''
      | Some (signed, sigs) \<Rightarrow>
          if sigs = [] then Inl ''signed release required''
          else case ex_canonical x signed of
                 None \<Rightarrow> Inl ''canonicalizing signed release''
               | Some canonical \<Rightarrow>
                   if \<not> (\<exists>s \<in> set sigs. signed_by x cfg canonical s) then Inl ''release signature verification failed''
                   else case ex_metadata x signed of
                          None \<Rightarrow> Inl ''decoding release metadata''
                        | Some m \<Rightarrow> verify_metadata x cfg rsp b highest now m)"

subsection \<open>What the client remembers\<close>

record client_state =
  ct_last_check :: instant
  ct_highest :: string
  ct_expires_at :: instant
  ct_cached :: "verified_release option"
  ct_failures :: int
  ct_next_attempt :: instant
  ct_install_id :: string
  ct_install_id_at :: instant

datatype client_file = ClientJson client_state | ClientGarbage

definition no_client_state :: client_state where
  "no_client_state = \<lparr>ct_last_check = zero_time, ct_highest = '''', ct_expires_at = zero_time, ct_cached = None,
     ct_failures = 0, ct_next_attempt = zero_time, ct_install_id = '''', ct_install_id_at = zero_time\<rparr>"

definition load_client_state :: "client_config \<Rightarrow> client_file fs \<Rightarrow> (string + client_state) \<times> client_file fs" where
  "load_client_state cfg f =
     (case os_read_file (cc_path cfg) f of
        (Inl FsNotExist, f1) \<Rightarrow> (Inr no_client_state, f1)
      | (Inl FsFault, f1) \<Rightarrow> (Inl ''read'', f1)
      | (Inr ClientGarbage, f1) \<Rightarrow> (Inl ''decode'', f1)
      | (Inr (ClientJson s), f1) \<Rightarrow> (Inr s, f1))"

text \<open>The write ends with the rename, whatever the system; a failed one leaves its temporary file.\<close>

definition save_client_state :: "client_config \<Rightarrow> client_state \<Rightarrow> client_file fs \<Rightarrow> bool \<times> client_file fs" where
  "save_client_state cfg s f =
     (case os_mkdir_all f of
        (Some e, f1) \<Rightarrow> (False, f1)
      | (None, f1) \<Rightarrow>
          (case os_write_file (tmp_path (cc_path cfg)) (ClientJson s) f1 of
             (Some e, f2) \<Rightarrow> (False, f2)
           | (None, f2) \<Rightarrow>
               (case os_rename (tmp_path (cc_path cfg)) (cc_path cfg) f2 of
                  (Some e, f3) \<Rightarrow> (False, f3)
                | (None, f3) \<Rightarrow> (True, f3))))"

definition cached_release_for_current ::
  "ext \<Rightarrow> client_config \<Rightarrow> client_state \<Rightarrow> current_build \<Rightarrow> instant \<Rightarrow> verified_release option" where
  "cached_release_for_current x cfg s b now =
     (case ct_cached s of
        None \<Rightarrow> None
      | Some r \<Rightarrow>
          (let m = vr_metadata r
           in if rm_channel m = cc_channel cfg \<and> now < rm_expires_at m \<and>
                 compare_versions x (rm_version m) (cb_version b) > 0 \<and>
                 \<not> (ct_highest s \<noteq> '''' \<and> compare_versions x (rm_version m) (ct_highest s) < 0) \<and>
                 vr_apply_supported r \<and> release_target_matches_metadata r \<and>
                 validate_release_target_for_current r b True = None
              then Some r else None))"

definition validate_for_install ::
  "ext \<Rightarrow> client_config \<Rightarrow> verified_release \<Rightarrow> current_build \<Rightarrow> instant \<Rightarrow> string + client_state \<Rightarrow> string option" where
  "validate_for_install x cfg r b now loaded =
     (let m = vr_metadata r;
          complete = (vr_apply_supported r \<or> vr_action r = ''download'' \<or> vr_action r = ''container'');
          binding = (complete \<or> vr_target r \<noteq> blank_target \<or> rm_targets m \<noteq> [])
      in if \<not> now < rm_expires_at m then Some ''release metadata expired''
         else if rm_channel m \<noteq> cc_channel cfg then Some ''release channel mismatch''
         else if needs_newer_updater x m then Some ''release requires a newer updater and is manual-only''
         else if vr_action r = ''manual'' then Some ''release is manual-only''
         else if compare_versions x (rm_version m) (cb_version b) \<le> 0
         then Some ''release version is not an authorized upgrade''
         else if binding \<and> \<not> release_target_matches_metadata r
         then Some ''release target does not match signed metadata''
         else case validate_release_target_for_current r b complete of
                Some e \<Rightarrow> Some e
              | None \<Rightarrow>
                  (case loaded of
                     Inl e \<Rightarrow> Some e
                   | Inr s \<Rightarrow>
                       if ct_highest s \<noteq> '''' \<and> compare_versions x (rm_version m) (ct_highest s) < 0
                       then Some ''release version is below the highest accepted version''
                       else if ct_expires_at s \<noteq> zero_time \<and> \<not> now < ct_expires_at s
                       then Some ''cached release metadata expired''
                       else None))"

subsection \<open>Checks\<close>

text \<open>What a request comes to: no response, a status, and what the body is.\<close>

datatype answer_body = Unreadable | TooLarge | NoJsonBody | TrailingJson | Body check_response

datatype answer = NoAnswer | Answer int answer_body

definition day :: duration where
  "day = 24 * hour"

definition install_id_rotation :: duration where
  "install_id_rotation = 90 * day"

definition body_of :: "answer \<Rightarrow> string + check_response" where
  "body_of a =
     (case a of
        NoAnswer \<Rightarrow> Inl ''request''
      | Answer n b \<Rightarrow>
          if n < 200 \<or> 300 \<le> n then Inl (''update check returned HTTP '' @ show_int n)
          else case b of
                 Unreadable \<Rightarrow> Inl ''read''
               | TooLarge \<Rightarrow> Inl ''update response exceeds size limit''
               | NoJsonBody \<Rightarrow> Inl ''decode''
               | TrailingJson \<Rightarrow> Inl ''update response contains trailing JSON''
               | Body r \<Rightarrow>
                   if cr_schema r \<noteq> 1 then Inl (''unsupported update schema_version '' @ show_int (cr_schema r)) else Inr r)"

text \<open>\<open>random d\<close> is a reading of the random source for the limit \<open>d\<close>.\<close>

definition record_failure ::
  "client_config \<Rightarrow> (duration \<Rightarrow> duration) \<Rightarrow> instant \<Rightarrow> client_state \<Rightarrow> client_file fs \<Rightarrow> client_state \<times> client_file fs" where
  "record_failure cfg random now s f =
     (let n = ct_failures s + 1;
          delay = n * minute;
          s1 = s\<lparr>ct_failures := n, ct_next_attempt := (if 3 \<le> n then now + day else now + (delay + random (delay div 4)))\<rparr>
      in (s1, snd (save_client_state cfg s1 f)))"

definition install_id_due :: "instant \<Rightarrow> client_state \<Rightarrow> bool" where
  "install_id_due now s \<longleftrightarrow> ct_install_id s = '''' \<or> ct_install_id_at s < now - install_id_rotation"

record check_result =
  ck_release :: "verified_release option"
  ck_checked :: bool
  ck_error :: "string option"

text \<open>
  The identity of the installation, new every ninety days unless the user has opted out; it answers
  whether keeping the new one failed, which later failures to save are put down to.
\<close>

definition refresh_install_id ::
  "client_config \<Rightarrow> bool \<Rightarrow> string option \<Rightarrow> instant \<Rightarrow> client_state \<Rightarrow> client_file fs \<Rightarrow>
   (client_state \<times> bool) option \<times> client_file fs" where
  "refresh_install_id cfg opted_out generated now s f =
     (if opted_out then (Some (s\<lparr>ct_install_id := '''', ct_install_id_at := zero_time\<rparr>, False), f)
      else if \<not> install_id_due now s then (Some (s, False), f)
      else case generated of
             None \<Rightarrow> (None, f)
           | Some i \<Rightarrow>
               (let s1 = s\<lparr>ct_install_id := i, ct_install_id_at := now\<rparr>
                in case save_client_state cfg s1 f of (saved, f1) \<Rightarrow> (Some (s1, \<not> saved), f1)))"

definition check_done :: "(duration \<Rightarrow> duration) \<Rightarrow> instant \<Rightarrow> client_state \<Rightarrow> client_state" where
  "check_done random now s =
     s\<lparr>ct_last_check := now, ct_failures := 0, ct_next_attempt := now + (day + random hour)\<rparr>"

definition finish_check ::
  "client_config \<Rightarrow> bool \<Rightarrow> verified_release option \<Rightarrow> client_state \<Rightarrow> client_file fs \<Rightarrow> check_result \<times> client_file fs" where
  "finish_check cfg unsaved_id r s f =
     (case save_client_state cfg s f of
        (saved, f1) \<Rightarrow> (\<lparr>ck_release = r, ck_checked = True, ck_error = (if saved \<or> unsaved_id then None else Some ''save'')\<rparr>, f1))"

definition accept_answer ::
  "ext \<Rightarrow> client_config \<Rightarrow> current_build \<Rightarrow> (duration \<Rightarrow> duration) \<Rightarrow> instant \<Rightarrow> bool \<Rightarrow> client_state \<Rightarrow>
   string + check_response \<Rightarrow> client_file fs \<Rightarrow> check_result \<times> client_file fs" where
  "accept_answer x cfg b random now unsaved_id s answer f =
     (let failed = (\<lambda>e. case record_failure cfg random now s f of
                       (s1, f1) \<Rightarrow> (\<lparr>ck_release = cached_release_for_current x cfg s1 b now, ck_checked = True, ck_error = Some e\<rparr>, f1))
      in case answer of
           Inl e \<Rightarrow> failed e
         | Inr rsp \<Rightarrow>
             if cb_distribution b = ''source''
             then finish_check cfg unsaved_id None ((check_done random now s)\<lparr>ct_cached := None\<rparr>) f
             else if cr_release rsp = None
             then finish_check cfg unsaved_id None (check_done random now (s\<lparr>ct_cached := None\<rparr>)) f
             else case verify_release x cfg rsp b (ct_highest s) now of
                    Inl e \<Rightarrow> failed e
                  | Inr v \<Rightarrow>
                      finish_check cfg unsaved_id (Some v)
                        (check_done random now (s\<lparr>ct_highest := rm_version (vr_metadata v),
                           ct_expires_at := rm_expires_at (vr_metadata v), ct_cached := Some v\<rparr>)) f)"

definition check_due :: "instant \<Rightarrow> client_state \<Rightarrow> bool" where
  "check_due now s \<longleftrightarrow> \<not> (ct_last_check s \<noteq> zero_time \<and> time_sub now (ct_last_check s) < day) \<and> \<not> now < ct_next_attempt s"

definition check_if_due ::
  "ext \<Rightarrow> client_config \<Rightarrow> current_build \<Rightarrow> (duration \<Rightarrow> duration) \<Rightarrow> instant \<Rightarrow> bool \<Rightarrow> string option \<Rightarrow> answer \<Rightarrow>
   client_file fs \<Rightarrow> check_result \<times> client_file fs" where
  "check_if_due x cfg b random now opted_out generated a f =
     (case load_client_state cfg f of
        (Inl e, f1) \<Rightarrow> (\<lparr>ck_release = None, ck_checked = False, ck_error = Some e\<rparr>, f1)
      | (Inr s, f1) \<Rightarrow>
          if \<not> check_due now s
          then (\<lparr>ck_release = cached_release_for_current x cfg s b now, ck_checked = False, ck_error = None\<rparr>, f1)
          else let s1 = (if 3 \<le> ct_failures s then s\<lparr>ct_failures := 0\<rparr> else s)
               in case refresh_install_id cfg opted_out generated now s1 f1 of
                    (None, f2) \<Rightarrow>
                      (\<lparr>ck_release = cached_release_for_current x cfg s1 b now, ck_checked = True, ck_error = Some ''random''\<rparr>, f2)
                  | (Some (s2, unsaved_id), f2) \<Rightarrow> accept_answer x cfg b random now unsaved_id s2 (body_of a) f2)"

end
