(* ===== verification/Coordinator.thy ===== *)
theory Coordinator
  imports Drain UpdateClient
begin

section \<open>The update coordinator\<close>

text \<open>
  \<open>internal/update/coordinator.go\<close>. The coordinator takes a release from its check to its
  installation: staged, accepted by a user, drained for, handed to the installer, and settled as
  succeeded, failed, cancelled or rolled back. Its fields are guarded by a mutex and kept in a file;
  a goroutine per operation goes from one locked section to the next.

  Here a section is a function on \<open>upd\<close>, the drain of \<open>Drain\<close> with the coordinator, and a goroutine a
  \<open>job\<close>, the section it is to run next with what it has in its variables; \<open>job_run\<close> runs it and
  answers the jobs that come of it. What a section reads from outside is in \<open>inputs\<close>: the clock, a
  new generation, the result of the call of an installer, and what the rest of the program does to
  the drain between two calls of it in one section (\<open>in_others\<close>). The installers drive other
  programs; an installer is what the coordinator asks of its type. Hosted updates, which use the
  drain without the coordinator, and the test hooks are left out.
\<close>

subsection \<open>Errors and states\<close>

datatype sentinel = ErrRetryable | ErrRecoveryPending | ErrCancelled | ErrRolledBack
  | ErrDeadlineExceeded | ErrContextCanceled | ErrNetTemporary

record upd_error =
  ue_text :: string
  ue_is :: "sentinel list"

definition plain_error :: "string \<Rightarrow> upd_error" where
  "plain_error s = \<lparr>ue_text = s, ue_is = []\<rparr>"

definition errors_is :: "upd_error \<Rightarrow> sentinel \<Rightarrow> bool" where
  "errors_is e k = (k \<in> set (ue_is e))"

definition errors_join :: "upd_error \<Rightarrow> upd_error \<Rightarrow> upd_error" where
  "errors_join a b = \<lparr>ue_text = ue_text a @ [CHR 0x0A] @ ue_text b, ue_is = ue_is a @ ue_is b\<rparr>"

definition err_update_retryable :: upd_error where
  "err_update_retryable = \<lparr>ue_text = ''update operation can be retried'', ue_is = [ErrRetryable]\<rparr>"

definition is_retryable_accepted_update_error :: "upd_error \<Rightarrow> bool" where
  "is_retryable_accepted_update_error e \<longleftrightarrow> errors_is e ErrRetryable \<or> errors_is e ErrRecoveryPending \<or>
     errors_is e ErrDeadlineExceeded \<or> errors_is e ErrNetTemporary"

datatype update_state = StateIdle | StateChecking | StateAvailable | StateStaging | StateWaitingForIdle
  | StateReady | StateApplying | StateRestarting | StateValidating | StateSucceeded | StateFailed
  | StateRollingBack | StateRolledBack | StateUnknown string

fun update_state_name :: "update_state \<Rightarrow> string" where
  "update_state_name StateIdle = ''idle''"
| "update_state_name StateChecking = ''checking''"
| "update_state_name StateAvailable = ''available''"
| "update_state_name StateStaging = ''staging''"
| "update_state_name StateWaitingForIdle = ''waiting_for_idle''"
| "update_state_name StateReady = ''ready''"
| "update_state_name StateApplying = ''applying''"
| "update_state_name StateRestarting = ''restarting''"
| "update_state_name StateValidating = ''validating''"
| "update_state_name StateSucceeded = ''succeeded''"
| "update_state_name StateFailed = ''failed''"
| "update_state_name StateRollingBack = ''rolling_back''"
| "update_state_name StateRolledBack = ''rolled_back''"
| "update_state_name (StateUnknown s) = s"

definition is_transition_state :: "update_state \<Rightarrow> bool" where
  "is_transition_state s \<longleftrightarrow> s \<in> {StateStaging, StateWaitingForIdle, StateReady, StateApplying, StateRestarting,
     StateValidating, StateRollingBack}"

subsection \<open>Data\<close>

record local_staged_update =
  ls_artifact_path :: string
  ls_install_path :: string
  ls_backup_path :: string
  ls_version :: string
  ls_previous_version :: string
  ls_outcome_id :: string

datatype staged = StagedLocal local_staged_update | StagedRelease verified_release

text \<open>
  What the coordinator asks of its installer's type: whether an update is validated after a restart,
  and which of the optional interfaces it has; \<open>in_ready\<close> is the answer of \<open>RecoveryReady\<close>.
\<close>

record installer =
  in_restart :: bool
  in_shutdown :: bool
  in_resumable :: bool
  in_cancels :: bool
  in_recovers :: bool
  in_docker_agent :: bool
  in_ready :: "bool option"

record update_config =
  uc_ext :: ext
  uc_client :: client_config
  uc_current :: current_build
  uc_channel :: string
  uc_installer :: "installer option"
  uc_manual :: bool
  uc_config_error :: string
  uc_notifications :: bool
  uc_path :: string
  uc_windows :: bool

record coordinator_doc =
  cd_state :: update_state
  cd_release :: "verified_release option"
  cd_staged_local :: "local_staged_update option"
  cd_staged_release :: "verified_release option"
  cd_error :: string
  cd_operation :: string
  cd_accepted :: bool
  cd_lease :: duration

datatype coordinator_file = CoordinatorJson coordinator_doc | CoordinatorGarbage

record coordinator =
  co_state :: update_state
  co_release :: "verified_release option"
  co_staged :: "staged option"
  co_error :: string
  co_operation :: string
  co_cleanup :: string
  co_accepted :: bool
  co_lease :: duration
  co_supervisor :: bool
  co_fs :: "coordinator_file fs"

record upd =
  up_drain :: drain_sys
  up_co :: coordinator

text \<open>
  What the helper of a packaged update has left: its outcome, read again where the code reads it
  again, the preparation of its hand-over, whether its lease could be taken (\<open>None\<close> stands for an
  error), and how the calls on the files of the installation end.
\<close>

datatype helper_state = HelperPrepared | HelperPending | HelperAuthorized | HelperParentExited
  | HelperBackupPublished | HelperTargetPublished | HelperValidating | HelperRollingBack | HelperRecovering
  | HelperCancelled | HelperSucceeded | HelperRolledBack

record evidence =
  ev_outcome :: "fs_error + helper_state"
  ev_outcome_again :: "fs_error + helper_state"
  ev_prepared :: "fs_error + helper_state"
  ev_handoff_removed :: "bool option"
  ev_lease :: "bool option"
  ev_backup_missing :: bool
  ev_backup_error :: "string option"
  ev_artifact_there :: "bool option"
  ev_bootable :: bool
  ev_outcome_written :: bool
  ev_recovery_started :: bool

text \<open>What a section reads. The two readings of the clock are those of one call of \<open>Status\<close>.\<close>

record inputs =
  in_now1 :: instant
  in_now2 :: instant
  in_queued :: int
  in_others :: "drain_sys \<Rightarrow> drain_sys"
  in_generation :: string
  in_result :: "upd_error option"
  in_client :: "string + client_state"
  in_evidence :: evidence
  in_check :: check_result
  in_staged :: "upd_error + staged"
  in_done :: bool

definition new_coordinator :: "coordinator_file fs \<Rightarrow> coordinator" where
  "new_coordinator f = \<lparr>co_state = StateIdle, co_release = None, co_staged = None, co_error = '''', co_operation = '''',
     co_cleanup = '''', co_accepted = False, co_lease = 0, co_supervisor = False, co_fs = f\<rparr>"

definition coordinator_doc_of :: "coordinator \<Rightarrow> coordinator_doc" where
  "coordinator_doc_of c =
     \<lparr>cd_state = co_state c, cd_release = co_release c,
      cd_staged_local = (case co_staged c of Some (StagedLocal l) \<Rightarrow> Some l | _ \<Rightarrow> None),
      cd_staged_release = (case co_staged c of Some (StagedRelease r) \<Rightarrow> Some r | _ \<Rightarrow> None),
      cd_error = co_error c, cd_operation = co_operation c, cd_accepted = co_accepted c, cd_lease = co_lease c\<rparr>"

definition save_coordinator :: "update_config \<Rightarrow> coordinator \<Rightarrow> upd_error option \<times> coordinator" where
  "save_coordinator cfg c =
     (if uc_path cfg = '''' then (None, c)
      else case atomic_write_state (uc_windows cfg) (uc_path cfg) (CoordinatorJson (coordinator_doc_of c)) (co_fs c) of
             (e, f) \<Rightarrow> (map_option (\<lambda>_. plain_error ''write state file'') e, c\<lparr>co_fs := f\<rparr>))"

definition clear_acceptance :: "coordinator \<Rightarrow> coordinator" where
  "clear_acceptance c = c\<lparr>co_accepted := False, co_lease := 0\<rparr>"

subsection \<open>Calls of the drain\<close>

definition on_mgr :: "(drain_mgr \<Rightarrow> 'a \<times> drain_mgr) \<Rightarrow> upd \<Rightarrow> 'a \<times> upd" where
  "on_mgr f u = (case f (ds_mgr (up_drain u)) of (r, m) \<Rightarrow> (r, u\<lparr>up_drain := (up_drain u)\<lparr>ds_mgr := m\<rparr>\<rparr>))"

definition mgr :: "upd \<Rightarrow> drain_mgr" where
  "mgr u = ds_mgr (up_drain u)"

definition drain_status_call :: "inputs \<Rightarrow> upd \<Rightarrow> drain_status \<times> upd" where
  "drain_status_call i u = on_mgr (status (in_now1 i) (in_now2 i) (sampled (mgr u)) (in_queued i)) u"

definition others :: "inputs \<Rightarrow> upd \<Rightarrow> upd" where
  "others i u = u\<lparr>up_drain := in_others i (up_drain u)\<rparr>"

definition drain_release_call :: "inputs \<Rightarrow> string \<Rightarrow> upd \<Rightarrow> bool \<times> upd" where
  "drain_release_call i gen u = on_mgr (release gen) (others i u)"

definition set_co :: "(coordinator \<Rightarrow> coordinator) \<Rightarrow> upd \<Rightarrow> upd" where
  "set_co f u = u\<lparr>up_co := f (up_co u)\<rparr>"

definition save :: "update_config \<Rightarrow> upd \<Rightarrow> upd_error option \<times> upd" where
  "save cfg u = (case save_coordinator cfg (up_co u) of (e, c) \<Rightarrow> (e, u\<lparr>up_co := c\<rparr>))"

subsection \<open>Which releases count\<close>

definition release_is_unexpired :: "instant \<Rightarrow> verified_release \<Rightarrow> bool" where
  "release_is_unexpired now r \<longleftrightarrow> rm_expires_at (vr_metadata r) = zero_time \<or> now < rm_expires_at (vr_metadata r)"

definition release_is_newer_than_current :: "update_config \<Rightarrow> verified_release \<Rightarrow> bool" where
  "release_is_newer_than_current cfg r \<longleftrightarrow>
     (let m = vr_metadata r
      in if rm_channel m \<noteq> '''' \<and> rm_channel m \<noteq> uc_channel cfg then False
         else if compare_versions (uc_ext cfg) (rm_version m) (cb_version (uc_current cfg)) \<le> 0 then False
         else if vr_action r = ''manual'' then \<not> vr_apply_supported r \<and> vr_target r = blank_target
         else if \<not> vr_apply_supported r
         then vr_action r = '''' \<and> vr_target r = blank_target \<and> rm_targets m = []
         else release_target_matches_metadata r \<and> validate_release_target_for_current r (uc_current cfg) True = None)"

definition invalid_release :: "update_config \<Rightarrow> inputs \<Rightarrow> verified_release \<Rightarrow> upd_error option" where
  "invalid_release cfg i r =
     map_option plain_error (validate_for_install (uc_ext cfg) (uc_client cfg) r (uc_current cfg) (in_now1 i) (in_client i))"

definition distribution :: "update_config \<Rightarrow> string" where
  "distribution cfg = cb_distribution (uc_current cfg)"

definition restart_distribution :: "update_config \<Rightarrow> bool" where
  "restart_distribution cfg \<longleftrightarrow> distribution cfg = ''binary'' \<or> distribution cfg = ''desktop''"

subsection \<open>Settling an operation\<close>

definition is_operation :: "string \<Rightarrow> upd \<Rightarrow> bool" where
  "is_operation gen u \<longleftrightarrow> gen \<noteq> '''' \<and> co_operation (up_co u) = gen"

text \<open>The drain is given up unless it is idle; the answer says whether it is.\<close>

definition give_up_drain :: "inputs \<Rightarrow> string \<Rightarrow> upd \<Rightarrow> bool \<times> upd" where
  "give_up_drain i gen u =
     (case drain_status_call i u of
        (st, u1) \<Rightarrow> if st_state st = Idle then (True, u1) else drain_release_call i gen u1)"

definition complete_generation ::
  "update_config \<Rightarrow> inputs \<Rightarrow> string \<Rightarrow> update_state \<Rightarrow> string \<Rightarrow> upd \<Rightarrow> upd_error option \<times> upd" where
  "complete_generation cfg i gen st msg u =
     (if \<not> is_operation gen u then (None, u)
      else case give_up_drain i gen u of
             (False, u1) \<Rightarrow>
               (let e = plain_error ''failed to durably release update drain''
                in (Some e, set_co (\<lambda>c. c\<lparr>co_error := ue_text e\<rparr>) u1))
           | (True, u1) \<Rightarrow>
               (case save cfg (set_co (\<lambda>c. clear_acceptance (c\<lparr>co_operation := '''', co_state := st, co_error := msg\<rparr>)) u1) of
                  (None, u2) \<Rightarrow> (None, u2)
                | (Some e, u2) \<Rightarrow>
                    (Some e, set_co (\<lambda>c. c\<lparr>co_operation := gen, co_state := StateWaitingForIdle,
                                           co_error := ''persist terminal update state: '' @ ue_text e\<rparr>) u2)))"

definition persist_operation_state ::
  "update_config \<Rightarrow> string \<Rightarrow> update_state \<Rightarrow> string \<Rightarrow> upd \<Rightarrow> upd_error option \<times> upd" where
  "persist_operation_state cfg gen st msg u =
     (if \<not> is_operation gen u then (Some (plain_error ''update operation generation changed''), u)
      else case save cfg (set_co (\<lambda>c. c\<lparr>co_state := st, co_error := msg\<rparr>) u) of
             (None, u1) \<Rightarrow> (None, u1)
           | (Some e, u1) \<Rightarrow>
               (Some e, set_co (\<lambda>c. c\<lparr>co_state := StateFailed, co_error := ''persist update transition: '' @ ue_text e\<rparr>) u1))"

definition set_state :: "update_config \<Rightarrow> update_state \<Rightarrow> string \<Rightarrow> upd \<Rightarrow> upd" where
  "set_state cfg st msg u =
     (case save cfg (set_co (\<lambda>c. c\<lparr>co_state := st, co_error := msg\<rparr>) u) of
        (None, u1) \<Rightarrow> u1
      | (Some e, u1) \<Rightarrow> set_co (\<lambda>c. c\<lparr>co_state := StateFailed, co_error := ''persist update state: '' @ ue_text e\<rparr>) u1)"

text \<open>
  One turn of the loop that settles an operation whose transition could not be recorded: the drain is
  given up and the failure recorded, or another turn is due.
\<close>

definition supervise_turn :: "update_config \<Rightarrow> inputs \<Rightarrow> string \<Rightarrow> string \<Rightarrow> upd \<Rightarrow> bool \<times> upd" where
  "supervise_turn cfg i gen msg u =
     (if \<not> is_operation gen u then (True, u)
      else case drain_status_call i u of
             (st, u1) \<Rightarrow>
               (case (if st_state st = Idle then (True, u1)
                      else if st_generation st \<noteq> gen then (False, u1) else drain_release_call i gen u1) of
                  (False, u2) \<Rightarrow> (False, set_co (\<lambda>c. c\<lparr>co_state := StateWaitingForIdle, co_error := msg\<rparr>) u2)
                | (True, u2) \<Rightarrow>
                    (case save cfg (set_co (\<lambda>c. clear_acceptance (c\<lparr>co_operation := '''', co_state := StateFailed, co_error := msg\<rparr>)) u2) of
                       (None, u3) \<Rightarrow> (True, u3)
                     | (Some e, u3) \<Rightarrow>
                         (False, set_co (\<lambda>c. c\<lparr>co_operation := gen, co_state := StateWaitingForIdle,
                                               co_error := msg @ ''; persist cleanup: '' @ ue_text e\<rparr>) u3))))"

definition begin_cleanup :: "string \<Rightarrow> upd \<Rightarrow> bool \<times> upd" where
  "begin_cleanup gen u = (if is_operation gen u then (True, set_co (\<lambda>c. c\<lparr>co_cleanup := gen\<rparr>) u) else (False, u))"

definition end_cleanup :: "string \<Rightarrow> upd \<Rightarrow> upd" where
  "end_cleanup gen u = set_co (\<lambda>c. if co_cleanup c = gen then c\<lparr>co_cleanup := ''''\<rparr> else c) u"

text \<open>
  One turn of the loop that takes an accepted update back to before its drain; \<open>None\<close> asks for
  another turn.
\<close>

definition reset_turn :: "update_config \<Rightarrow> inputs \<Rightarrow> string \<Rightarrow> string \<Rightarrow> upd \<Rightarrow> bool \<times> upd" where
  "reset_turn cfg i gen cause u =
     (let c = up_co u
      in if \<not> co_accepted c \<or> (co_operation c \<noteq> '''' \<and> co_operation c \<noteq> gen) then (True, u)
         else case drain_status_call i u of
                (st, u1) \<Rightarrow>
                  (case (if st_state st = Idle then (True, u1)
                         else if st_generation st \<noteq> gen then (False, u1) else drain_release_call i gen u1) of
                     (False, u2) \<Rightarrow>
                       (False, set_co (\<lambda>c. c\<lparr>co_error := ''release accepted update drain after handoff persistence failure''\<rparr>) u2)
                   | (True, u2) \<Rightarrow>
                       (case save cfg (set_co (\<lambda>c. c\<lparr>co_state := StateAvailable, co_error := cause, co_operation := ''''\<rparr>) u2) of
                          (None, u3) \<Rightarrow> (True, u3)
                        | (Some e, u3) \<Rightarrow> (False, u3))))"

subsection \<open>Accepting an update\<close>

definition accept_update :: "update_config \<Rightarrow> inputs \<Rightarrow> duration \<Rightarrow> upd \<Rightarrow> upd_error option \<times> upd" where
  "accept_update cfg i lease u =
     (let c = up_co u
      in if co_accepted c then (None, u)
         else if lease \<le> 0 then (Some (plain_error ''update acceptance lease must be positive''), u)
         else case drain_status_call i u of
                (st, u1) \<Rightarrow>
                  if st_state st \<noteq> Idle then (Some (plain_error ''cannot accept update while another drain is active''), u1)
                  else if co_state c \<noteq> StateAvailable \<and> co_state c \<noteq> StateFailed
                  then (Some (plain_error (''cannot accept update while coordinator is '' @ update_state_name (co_state c))), u1)
                  else case co_release c of
                         None \<Rightarrow> (Some (plain_error ''no verified release available''), u1)
                       | Some r \<Rightarrow>
                           if uc_installer cfg = None \<and> \<not> uc_manual cfg then (Some (plain_error ''installer unavailable''), u1)
                           else if \<not> uc_manual cfg \<and> distribution cfg \<noteq> ''docker'' \<and> co_staged c = None
                           then (Some (plain_error ''update replacement is not staged''), u1)
                           else if uc_config_error cfg \<noteq> '''' then (Some (plain_error (uc_config_error cfg)), u1)
                           else case invalid_release cfg i r of
                                  Some e \<Rightarrow> (Some e, u1)
                                | None \<Rightarrow>
                                    (case save cfg (set_co (\<lambda>c. c\<lparr>co_accepted := True, co_lease := lease\<rparr>) u1) of
                                       (Some e, u2) \<Rightarrow> (Some e, set_co clear_acceptance u2)
                                     | (None, u2) \<Rightarrow> (None, u2)))"

text \<open>One turn of the loop that records that an accepted update has failed.\<close>

definition settle_turn :: "update_config \<Rightarrow> string \<Rightarrow> upd \<Rightarrow> bool \<times> upd" where
  "settle_turn cfg cause u =
     (let c = up_co u
      in if \<not> co_accepted c \<or> co_operation c \<noteq> '''' then (True, u)
         else case save cfg (set_co (\<lambda>c. clear_acceptance (c\<lparr>co_state := StateFailed, co_error := cause\<rparr>)) u) of
                (None, u1) \<Rightarrow> (True, u1)
              | (Some e, u1) \<Rightarrow>
                  (False, set_co (\<lambda>c1. c1\<lparr>co_accepted := True, co_lease := co_lease c,
                                          co_error := cause @ ''; settle accepted update: '' @ ue_text e\<rparr>) u1))"

definition drain_refusal :: "drain_error \<Rightarrow> upd_error" where
  "drain_refusal e =
     (case e of
        ErrLease \<Rightarrow> plain_error ''positive drain lease required''
      | ErrAlreadyActive \<Rightarrow> plain_error ''update drain is already active''
      | ErrUpdateRetryable _ \<Rightarrow> errors_join err_update_retryable (plain_error ''write state file'')
      | ErrReadState _ \<Rightarrow> plain_error ''read''
      | ErrDecodeState \<Rightarrow> plain_error ''decode persisted drain state'')"

datatype apply_result = ApplyRefused upd_error | ApplyBegun string verified_release "staged option" bool
  | ApplyUnsaved string upd_error

text \<open>The locked section of \<open>Apply\<close>: the drain begins and is recorded, and a goroutine is to wait for it.\<close>

definition begin_apply :: "update_config \<Rightarrow> inputs \<Rightarrow> duration \<Rightarrow> upd \<Rightarrow> apply_result \<times> upd" where
  "begin_apply cfg i lease u =
     (let c = up_co u
      in if co_state c \<noteq> StateAvailable
         then (ApplyRefused (plain_error (''cannot apply update while coordinator is '' @ update_state_name (co_state c))), u)
         else case co_release c of
                None \<Rightarrow> (ApplyRefused (plain_error ''no verified release available''), u)
              | Some r \<Rightarrow>
                  if uc_config_error cfg \<noteq> '''' then (ApplyRefused (plain_error (uc_config_error cfg)), u)
                  else if \<not> uc_manual cfg \<and> co_staged c = None
                  then (ApplyRefused (plain_error ''update must be staged before apply''), u)
                  else case invalid_release cfg i r of
                         Some e \<Rightarrow> (ApplyRefused e, set_co (\<lambda>c. c\<lparr>co_state := StateFailed, co_error := ue_text e\<rparr>) u)
                       | None \<Rightarrow>
                           (case on_mgr (begin_drain lease (in_generation i) (in_now1 i) (in_now2 i) (sampled (mgr u)) (in_queued i)) u of
                              (Inl e, u1) \<Rightarrow> (ApplyRefused (drain_refusal e), u1)
                            | (Inr st, u1) \<Rightarrow>
                                (case save cfg (set_co (\<lambda>c. c\<lparr>co_state := StateWaitingForIdle, co_error := '''',
                                                              co_operation := st_generation st\<rparr>) u1) of
                                   (Some e, u2) \<Rightarrow> (ApplyUnsaved (st_generation st) e, u2)
                                 | (None, u2) \<Rightarrow>
                                     (ApplyBegun (st_generation st) r (co_staged c) (co_accepted c), u2))))"

subsection \<open>Goroutines\<close>

datatype afterwards = ToValidate | ToRollback string

text \<open>
  \<open>Waiting\<close> to \<open>RollingBack\<close> are \<open>waitAndApply\<close> from the top of its loop on, \<open>Resuming\<close> and \<open>Resumed\<close>
  the recovery of an installer that resumes, \<open>Reconciling\<close> that of one whose helper replaces the
  program after a shutdown; \<open>Completing\<close>, \<open>Cleaning\<close>, \<open>Supervising\<close>, \<open>Resetting\<close> are loops that
  settle an operation (the flag of \<open>Completing\<close> says whether for a cancellation); the jobs from
  \<open>StartSuper\<close> to \<open>SuperEnd\<close> are the supervisor of an accepted update, those from \<open>Cancelling\<close> on a
  cancellation, and \<open>Checks\<close>, \<open>CheckAsking\<close> and \<open>CheckStaging\<close> the goroutine of the checks, which
  stages what it finds before it goes on.
\<close>

datatype job =
    Waiting string verified_release "staged option" bool
  | Ticked string verified_release "staged option" bool drain_status
  | Owning string verified_release "staged option" bool
  | Recording string verified_release "staged option"
  | Applying string verified_release "staged option"
  | Noting string update_state string afterwards verified_release "staged option"
  | Validating string verified_release "staged option"
  | RollingBack string verified_release "staged option" string
  | Resuming string verified_release "staged option"
  | Resumed string verified_release "staged option"
  | Reconciling string local_staged_update
  | Completing bool string update_state string
  | Cleaning string string
  | Supervising string string
  | Resetting string string
  | StartSuper
  | Super
  | SuperContinue duration
  | SuperApply duration
  | SuperResetting string upd_error
  | SuperRetry
  | Settling string
  | SuperEnd
  | Cancelling
  | CancelSeen update_state string
  | CancelAsked string
  | CancelOwns string
  | CancelClosing string update_state string
  | Checks
  | CheckAsking
  | CheckStaging verified_release

definition restarts :: "update_config \<Rightarrow> bool" where
  "restarts cfg \<longleftrightarrow> (case uc_installer cfg of None \<Rightarrow> False | Some k \<Rightarrow> in_restart k)"

definition installer_has :: "(installer \<Rightarrow> bool) \<Rightarrow> update_config \<Rightarrow> bool" where
  "installer_has f cfg \<longleftrightarrow> (case uc_installer cfg of None \<Rightarrow> False | Some k \<Rightarrow> f k)"

text \<open>
  The locked part of a tick of \<open>waitAndApply\<close> on the status it has read: a lease is renewed when half of
  it is gone, and the tick then goes by the status. \<open>None\<close> ends the tick early.
\<close>

definition renewal_due :: "update_config \<Rightarrow> inputs \<Rightarrow> string \<Rightarrow> drain_status \<Rightarrow> upd \<Rightarrow> bool" where
  "renewal_due cfg i gen st u \<longleftrightarrow>
     co_accepted (up_co u) \<and> co_operation (up_co u) = gen \<and> \<not> uc_manual cfg \<and> st_generation st = gen \<and>
     \<not> owns gen (mgr u) \<and> time_sub (st_expires_at st) (in_now1 i) \<le> co_lease (up_co u) div 2"

definition tick_decision ::
  "update_config \<Rightarrow> inputs \<Rightarrow> string \<Rightarrow> verified_release \<Rightarrow> staged option \<Rightarrow> bool \<Rightarrow> drain_status \<Rightarrow> bool \<Rightarrow> upd \<Rightarrow> job list \<times> upd" where
  "tick_decision cfg i gen r s keep st accepted u =
     (if st_state st = Idle
      then (if accepted then [Resetting gen ''update drain lease expired; retrying accepted update'']
            else [Completing False gen StateIdle ''''], u)
      else if st_generation st \<noteq> gen then ([], u)
      else if st_state st \<noteq> Ready then ([Waiting gen r s keep], u)
      else if uc_manual cfg
      then ([Waiting gen r s keep],
            if co_operation (up_co u) = gen \<and> co_state (up_co u) = StateReady then u
            else snd (persist_operation_state cfg gen StateReady '''' u))
      else if uc_installer cfg = None then ([Completing False gen StateFailed ''installer unavailable''], u)
      else case invalid_release cfg i r of
             Some e \<Rightarrow> ([Completing False gen StateFailed (ue_text e)], u)
           | None \<Rightarrow> ([Owning gen r s keep], u))"

definition tick :: "update_config \<Rightarrow> inputs \<Rightarrow> string \<Rightarrow> verified_release \<Rightarrow> staged option \<Rightarrow> bool \<Rightarrow> drain_status \<Rightarrow> upd \<Rightarrow> job list \<times> upd" where
  "tick cfg i gen r s keep st u =
     (let accepted = (co_accepted (up_co u) \<and> co_operation (up_co u) = gen \<and> \<not> uc_manual cfg)
      in if renewal_due cfg i gen st u
         then case on_mgr (renew gen (co_lease (up_co u)) (in_now2 i)) (others i u) of
                (False, u1) \<Rightarrow> ([Waiting gen r s keep], u1)
              | (True, u1) \<Rightarrow> tick_decision cfg i gen r s keep st accepted u1
         else tick_decision cfg i gen r s keep st accepted u)"

definition own_drain :: "update_config \<Rightarrow> inputs \<Rightarrow> string \<Rightarrow> verified_release \<Rightarrow> staged option \<Rightarrow> bool \<Rightarrow> upd \<Rightarrow> job list \<times> upd" where
  "own_drain cfg i gen r s keep u =
     (case on_mgr (take_ownership gen) u of
        (taken, u1) \<Rightarrow>
          (let u2 = (if taken then u1 else others i u1)
           in if \<not> taken \<and> \<not> (keep \<and> owns gen (mgr u2)) then ([Waiting gen r s keep], u2)
              else if restarts cfg \<and> \<not> installer_has in_shutdown cfg
              then ([Completing False gen StateFailed ''restart-validating installer cannot request shutdown''], u2)
              else ([Recording gen r s], u2)))"

definition record_transition :: "update_config \<Rightarrow> string \<Rightarrow> verified_release \<Rightarrow> staged option \<Rightarrow> upd \<Rightarrow> job list \<times> upd" where
  "record_transition cfg gen r s u =
     (case persist_operation_state cfg gen (if restarts cfg then StateRestarting else StateApplying) '''' u of
        (Some e, u1) \<Rightarrow> ([Cleaning gen (ue_text e)], u1)
      | (None, u1) \<Rightarrow> ([Applying gen r s], u1))"

definition roll_back :: "string \<Rightarrow> verified_release \<Rightarrow> staged option \<Rightarrow> upd_error \<Rightarrow> job list" where
  "roll_back gen r s e = [Noting gen StateRollingBack (ue_text e) (ToRollback (ue_text e)) r s]"

definition applied :: "update_config \<Rightarrow> string \<Rightarrow> verified_release \<Rightarrow> staged option \<Rightarrow> upd_error option \<Rightarrow> job list" where
  "applied cfg gen r s result =
     (case result of
        None \<Rightarrow> if restarts cfg then [] else [Noting gen StateValidating '''' ToValidate r s]
      | Some e \<Rightarrow>
          if errors_is e ErrRecoveryPending
          then if installer_has in_resumable cfg then [Resuming gen r s] else []
          else if errors_is e ErrCancelled then [Completing False gen StateIdle '''']
          else if errors_is e ErrRolledBack then [Completing False gen StateRolledBack (ue_text e)]
          else if restarts cfg then [Completing False gen StateFailed (ue_text e)]
          else roll_back gen r s e)"

definition operation_is_active :: "string \<Rightarrow> upd \<Rightarrow> bool" where
  "operation_is_active gen u \<longleftrightarrow> co_operation (up_co u) = gen \<and>
     (co_state (up_co u) = StateApplying \<or> co_state (up_co u) = StateValidating)"

definition resumed :: "inputs \<Rightarrow> string \<Rightarrow> verified_release \<Rightarrow> staged option \<Rightarrow> upd \<Rightarrow> job list" where
  "resumed i gen r s u =
     (if \<not> operation_is_active gen u then []
      else case in_result i of
             None \<Rightarrow> [Validating gen r s]
           | Some e \<Rightarrow>
               if errors_is e ErrRecoveryPending then if in_done i then [] else [Resuming gen r s]
               else if errors_is e ErrContextCanceled \<or> errors_is e ErrDeadlineExceeded then []
               else if errors_is e ErrCancelled then [Completing False gen StateIdle '''']
               else if errors_is e ErrRolledBack then [Completing False gen StateRolledBack (ue_text e)]
               else roll_back gen r s e)"

definition note_state ::
  "update_config \<Rightarrow> inputs \<Rightarrow> string \<Rightarrow> update_state \<Rightarrow> string \<Rightarrow> afterwards \<Rightarrow> verified_release \<Rightarrow> staged option \<Rightarrow> upd \<Rightarrow> job list \<times> upd" where
  "note_state cfg i gen st msg after r s u =
     (case persist_operation_state cfg gen st msg u of
        (None, u1) \<Rightarrow> ([case after of ToValidate \<Rightarrow> Validating gen r s | ToRollback cause \<Rightarrow> RollingBack gen r s cause], u1)
      | (Some e, u1) \<Rightarrow> (if \<not> is_operation gen u1 \<or> in_done i then [] else [Noting gen st msg after r s], u1))"

definition complete_turn :: "update_config \<Rightarrow> inputs \<Rightarrow> bool \<Rightarrow> string \<Rightarrow> update_state \<Rightarrow> string \<Rightarrow> upd \<Rightarrow> job list \<times> upd" where
  "complete_turn cfg i cancel gen st msg u =
     (case complete_generation cfg i gen st msg u of
        (None, u1) \<Rightarrow> ([], u1)
      | (Some e, u1) \<Rightarrow> (if \<not> is_operation gen u1 \<or> in_done i then [] else [Completing cancel gen st msg], u1))"

subsection \<open>The supervisor of an accepted update\<close>

definition start_accepted_update_supervisor :: "upd \<Rightarrow> job list \<times> upd" where
  "start_accepted_update_supervisor u =
     (if \<not> co_accepted (up_co u) \<or> co_supervisor (up_co u) then ([], u)
      else ([Super], set_co (\<lambda>c. c\<lparr>co_supervisor := True\<rparr>) u))"

definition still_accepted :: "upd \<Rightarrow> bool" where
  "still_accepted u \<longleftrightarrow> co_accepted (up_co u) \<and> co_operation (up_co u) = ''''"

definition ready_to_apply :: "update_config \<Rightarrow> upd \<Rightarrow> bool" where
  "ready_to_apply cfg u \<longleftrightarrow> co_state (up_co u) = StateAvailable \<and> (uc_manual cfg \<or> co_staged (up_co u) \<noteq> None)"

definition supervised_error :: "inputs \<Rightarrow> upd_error \<Rightarrow> job list" where
  "supervised_error i e =
     (if in_done i then [SuperEnd]
      else if is_retryable_accepted_update_error e then [SuperRetry] else [Settling (ue_text e)])"

definition supervised_apply :: "update_config \<Rightarrow> inputs \<Rightarrow> duration \<Rightarrow> upd \<Rightarrow> job list \<times> upd" where
  "supervised_apply cfg i lease u =
     (case begin_apply cfg i lease u of
        (ApplyRefused e, u1) \<Rightarrow> (supervised_error i e, u1)
      | (ApplyBegun gen r s keep, u1) \<Rightarrow> ([SuperEnd, Waiting gen r s keep], u1)
      | (ApplyUnsaved gen e, u1) \<Rightarrow>
          if co_accepted (up_co u) then ([SuperResetting gen e], u1)
          else case complete_generation cfg i gen StateAvailable '''' u1 of
                 (None, u2) \<Rightarrow> (supervised_error i e, u2)
               | (Some e2, u2) \<Rightarrow> (Completing False gen StateAvailable '''' # supervised_error i (errors_join e e2), u2))"

definition supervised_reset :: "update_config \<Rightarrow> inputs \<Rightarrow> string \<Rightarrow> upd_error \<Rightarrow> upd \<Rightarrow> job list \<times> upd" where
  "supervised_reset cfg i gen e u =
     (case reset_turn cfg i gen (ue_text e) u of
        (True, u1) \<Rightarrow> (supervised_error i (errors_join err_update_retryable e), u1)
      | (False, u1) \<Rightarrow> (if in_done i then [SuperEnd] else [SuperResetting gen e], u1))"

definition end_supervisor :: "inputs \<Rightarrow> upd \<Rightarrow> job list \<times> upd" where
  "end_supervisor i u =
     (if still_accepted u \<and> \<not> in_done i then [StartSuper] else [], set_co (\<lambda>c. c\<lparr>co_supervisor := False\<rparr>) u)"

subsection \<open>Cancellation\<close>

text \<open>
  \<open>Cancel\<close> reads state and operation under the lock, decides on them, and settles under the lock
  again. An accepted update that has not begun is taken back at once.
\<close>

definition withdraw_acceptance :: "update_config \<Rightarrow> update_state \<Rightarrow> upd \<Rightarrow> upd_error option \<times> upd" where
  "withdraw_acceptance cfg seen u =
     (let c = up_co u
      in if co_accepted c \<and> co_operation c = '''' \<and> (co_state c = StateAvailable \<or> co_state c = StateFailed)
         then case save cfg (set_co (\<lambda>c. clear_acceptance (c\<lparr>co_state := StateIdle, co_error := ''''\<rparr>)) u) of
                (None, u1) \<Rightarrow> (None, u1)
              | (Some e, u1) \<Rightarrow>
                  (Some e, set_co (\<lambda>c1. c1\<lparr>co_state := co_state c, co_error := co_error c, co_accepted := True,
                                          co_lease := co_lease c\<rparr>) u1)
         else (if seen = StateIdle then None else Some (plain_error ''no update drain is active''), u))"

definition cancel_decision :: "update_config \<Rightarrow> update_state \<Rightarrow> string \<Rightarrow> job list" where
  "cancel_decision cfg seen gen =
     (if seen = StateRestarting \<or> seen = StateValidating \<or> seen = StateRollingBack \<or> seen = StateFailed then []
      else if seen = StateApplying then if installer_has in_cancels cfg then [CancelAsked gen] else []
      else [CancelOwns gen])"

definition close_cancelled :: "update_config \<Rightarrow> inputs \<Rightarrow> string \<Rightarrow> update_state \<Rightarrow> string \<Rightarrow> upd \<Rightarrow> job list \<times> upd" where
  "close_cancelled cfg i gen st msg u =
     (case complete_generation cfg i gen st msg u of
        (None, u1) \<Rightarrow> ([], u1)
      | (Some e, u1) \<Rightarrow> (if co_cleanup (up_co u1) = gen then [] else [Completing True gen st msg], u1))"

subsection \<open>Packaged updates after a restart\<close>

datatype reconciliation = ReconcileSettled update_state string | ReconcileShutdown | ReconcileAgain

definition start_recovery_helper :: "update_config \<Rightarrow> evidence \<Rightarrow> reconciliation" where
  "start_recovery_helper cfg ev =
     (if installer_has in_recovers cfg \<and> installer_has in_shutdown cfg \<and> ev_recovery_started ev
      then ReconcileShutdown else ReconcileAgain)"

definition settle_outcome :: "evidence \<Rightarrow> update_state \<Rightarrow> string \<Rightarrow> reconciliation" where
  "settle_outcome ev st msg = (if ev_outcome_written ev then ReconcileSettled st msg else ReconcileAgain)"

definition helper_may_be_dead :: "helper_state \<Rightarrow> bool" where
  "helper_may_be_dead h \<longleftrightarrow> h \<in> {HelperPrepared, HelperPending, HelperAuthorized, HelperParentExited,
     HelperBackupPublished, HelperTargetPublished, HelperValidating, HelperRollingBack}"

definition recover_dead_packaged_update_helper ::
  "update_config \<Rightarrow> evidence \<Rightarrow> local_staged_update \<Rightarrow> helper_state \<Rightarrow> reconciliation" where
  "recover_dead_packaged_update_helper cfg ev s h =
     (let version = cb_version (uc_current cfg); desktop = (distribution cfg = ''desktop'')
      in if \<not> helper_may_be_dead h \<or> ev_lease ev \<noteq> Some True then ReconcileAgain
         else if h = HelperRollingBack
         then if \<not> desktop \<and> version = ls_previous_version s \<and> ev_backup_missing ev
              then if ev_bootable ev
                   then settle_outcome ev StateRolledBack ''packaged update helper died after restoring the predecessor''
                   else ReconcileAgain
              else start_recovery_helper cfg ev
         else if version = ls_version s
         then if desktop then start_recovery_helper cfg ev else settle_outcome ev StateSucceeded ''''
         else if version \<noteq> ls_previous_version s
         then if h = HelperTargetPublished \<or> h = HelperValidating
              then case ev_backup_error ev of
                     Some e \<Rightarrow> ReconcileSettled StateFailed (''packaged update recovery cannot roll back: '' @ e)
                   | None \<Rightarrow> start_recovery_helper cfg ev
              else ReconcileAgain
         else case ev_artifact_there ev of
                Some True \<Rightarrow>
                  if desktop \<or> ev_bootable ev
                  then settle_outcome ev StateRolledBack ''packaged update helper died before target publication''
                  else ReconcileAgain
              | Some False \<Rightarrow> start_recovery_helper cfg ev
              | None \<Rightarrow> ReconcileAgain)"

text \<open>Without an outcome the preparation of the hand-over tells whether it ever began.\<close>

definition reconcile_missing :: "evidence \<Rightarrow> reconciliation" where
  "reconcile_missing ev =
     (case ev_prepared ev of
        Inr h \<Rightarrow>
          if (h = HelperPrepared \<or> h = HelperPending) \<and> ev_handoff_removed ev = Some True
          then ReconcileSettled StateRolledBack ''packaged update helper handoff was not confirmed'' else ReconcileAgain
      | Inl FsNotExist \<Rightarrow>
          if ev_outcome_again ev = Inl FsNotExist
          then ReconcileSettled StateRolledBack ''packaged update helper handoff did not start'' else ReconcileAgain
      | Inl FsFault \<Rightarrow> ReconcileAgain)"

definition reconcile_outcome :: "update_config \<Rightarrow> evidence \<Rightarrow> local_staged_update \<Rightarrow> reconciliation" where
  "reconcile_outcome cfg ev s =
     (let version = cb_version (uc_current cfg)
      in case ev_outcome ev of
           Inr h \<Rightarrow>
             if h = HelperSucceeded \<and> version = ls_version s then ReconcileSettled StateSucceeded ''''
             else if h = HelperRolledBack \<and> version = ls_previous_version s
             then ReconcileSettled StateRolledBack ''binary update rolled back to the prior version''
             else if h = HelperCancelled \<and> version = ls_previous_version s
             then ReconcileSettled StateRolledBack ''packaged update helper exited before authorization''
             else recover_dead_packaged_update_helper cfg ev s h
         | Inl FsNotExist \<Rightarrow>
             if ls_outcome_id s \<noteq> '''' \<and> ls_previous_version s \<noteq> '''' \<and> version = ls_previous_version s
             then reconcile_missing ev else ReconcileAgain
         | Inl FsFault \<Rightarrow> ReconcileAgain)"

definition reconcile_turn :: "update_config \<Rightarrow> inputs \<Rightarrow> string \<Rightarrow> local_staged_update \<Rightarrow> upd \<Rightarrow> job list" where
  "reconcile_turn cfg i gen s u =
     (if \<not> is_operation gen u \<or> co_state (up_co u) \<noteq> StateRestarting then []
      else case reconcile_outcome cfg (in_evidence i) s of
             ReconcileSettled st msg \<Rightarrow> [Completing False gen st msg]
           | ReconcileShutdown \<Rightarrow> []
           | ReconcileAgain \<Rightarrow> if in_done i then [] else [Reconciling gen s])"

subsection \<open>Checks and staging\<close>

definition visible :: "update_config \<Rightarrow> upd \<Rightarrow> bool" where
  "visible cfg u \<longleftrightarrow> distribution cfg \<noteq> ''source'' \<and>
     (uc_notifications cfg \<or> co_accepted (up_co u) \<or> co_operation (up_co u) \<noteq> '''' \<or> is_transition_state (co_state (up_co u)))"

text \<open>\<open>None\<close> when nothing is to be asked, or the error of the write.\<close>

definition begin_check :: "update_config \<Rightarrow> upd \<Rightarrow> bool \<times> upd" where
  "begin_check cfg u =
     (let c = up_co u
      in if \<not> visible cfg u \<or> is_transition_state (co_state c) \<or> co_accepted c then (False, u)
         else case save cfg (set_co (\<lambda>c. c\<lparr>co_state := StateChecking, co_error := ''''\<rparr>) u) of
                (None, u1) \<Rightarrow> (True, u1)
              | (Some e, u1) \<Rightarrow> (False, set_co (\<lambda>c1. c1\<lparr>co_state := co_state c, co_error := co_error c\<rparr>) u1))"

definition begin_stage :: "update_config \<Rightarrow> inputs \<Rightarrow> upd \<Rightarrow> (upd_error + verified_release) \<times> upd" where
  "begin_stage cfg i u =
     (let c = up_co u
      in if co_state c \<noteq> StateAvailable \<and> co_state c \<noteq> StateFailed
         then (Inl (plain_error (''cannot stage update while coordinator is '' @ update_state_name (co_state c))), u)
         else case co_release c of
                None \<Rightarrow> (Inl (plain_error ''no verified release available''), u)
              | Some r \<Rightarrow>
                  if uc_installer cfg = None \<and> \<not> uc_manual cfg then (Inl (plain_error ''installer unavailable''), u)
                  else case invalid_release cfg i r of
                         Some e \<Rightarrow> (Inl e, set_co (\<lambda>c. c\<lparr>co_state := StateFailed, co_error := ue_text e\<rparr>) u)
                       | None \<Rightarrow>
                           if uc_config_error cfg \<noteq> '''' then (Inl (plain_error (uc_config_error cfg)), u)
                           else case save cfg (set_co (\<lambda>c. c\<lparr>co_state := StateStaging\<rparr>) u) of
                                  (Some e, u1) \<Rightarrow>
                                    (Inl (errors_join err_update_retryable e), set_co (\<lambda>c1. c1\<lparr>co_state := co_state c\<rparr>) u1)
                                | (None, u1) \<Rightarrow> (Inr r, u1))"

text \<open>The second section of a stage: with an installer, what it has staged is kept; without, nothing is.\<close>

definition end_stage :: "update_config \<Rightarrow> (upd_error + staged) option \<Rightarrow> upd \<Rightarrow> upd" where
  "end_stage cfg result u =
     (case result of
        None \<Rightarrow> set_state cfg StateAvailable '''' u
      | Some (Inl e) \<Rightarrow> set_state cfg StateFailed (ue_text e) u
      | Some (Inr s) \<Rightarrow>
          (case save cfg (set_co (\<lambda>c. c\<lparr>co_staged := Some s, co_state := StateAvailable, co_error := ''''\<rparr>) u) of
             (None, u1) \<Rightarrow> u1
           | (Some e, u1) \<Rightarrow> set_co (\<lambda>c. c\<lparr>co_state := StateFailed, co_error := ''persist staged update: '' @ ue_text e\<rparr>) u1))"

definition found_release :: "update_config \<Rightarrow> inputs \<Rightarrow> check_result \<Rightarrow> coordinator \<Rightarrow> coordinator" where
  "found_release cfg i k c =
     (if ck_checked k then c\<lparr>co_release := ck_release k, co_staged := None\<rparr>
      else if ck_release k \<noteq> None \<and> co_release c = None then c\<lparr>co_release := ck_release k\<rparr>
      else case co_release c of
             None \<Rightarrow> c
           | Some r \<Rightarrow>
               if \<not> release_is_newer_than_current cfg r \<or> \<not> release_is_unexpired (in_now1 i) r
               then c\<lparr>co_release := None, co_staged := None, co_error := ''''\<rparr> else c)"

definition should_stage :: "update_config \<Rightarrow> upd \<Rightarrow> bool" where
  "should_stage cfg u \<longleftrightarrow> co_release (up_co u) \<noteq> None \<and> uc_installer cfg \<noteq> None \<and> \<not> uc_manual cfg \<and> restart_distribution cfg"

text \<open>
  The section of a check after the service has answered; the answer is whether to stage now. The
  stage that follows begins on the state the check has left.
\<close>

definition end_check :: "update_config \<Rightarrow> inputs \<Rightarrow> check_result \<Rightarrow> upd \<Rightarrow> bool \<times> upd" where
  "end_check cfg i k u =
     (if co_state (up_co u) \<noteq> StateChecking then (False, u)
      else case ck_error k of
             Some e \<Rightarrow> (False, snd (save cfg (set_co (\<lambda>c. c\<lparr>co_state := StateFailed, co_error := e\<rparr>) u)))
           | None \<Rightarrow>
               (case save cfg (set_co (\<lambda>c. let c1 = found_release cfg i k c
                                           in c1\<lparr>co_state := (if co_release c1 = None then StateIdle else StateAvailable)\<rparr>) u) of
                  (Some e, u1) \<Rightarrow> (False, u1)
                | (None, u1) \<Rightarrow> (should_stage cfg u1, u1)))"

definition check_answered :: "update_config \<Rightarrow> inputs \<Rightarrow> check_result \<Rightarrow> upd \<Rightarrow> job list \<times> upd" where
  "check_answered cfg i k u =
     (case end_check cfg i k u of
        (False, u1) \<Rightarrow> ([Checks], u1)
      | (True, u1) \<Rightarrow>
          (case begin_stage cfg i u1 of
             (Inl e, u2) \<Rightarrow> ([Checks], u2)
           | (Inr r, u2) \<Rightarrow> ([CheckStaging r], u2)))"

record snapshot =
  sn_state :: update_state
  sn_release :: "verified_release option"
  sn_drain :: drain_status
  sn_error :: string
  sn_staged :: bool

definition snapshot_of :: "update_config \<Rightarrow> inputs \<Rightarrow> upd \<Rightarrow> snapshot \<times> upd" where
  "snapshot_of cfg i u =
     (let c = up_co u;
          stale = (\<exists>r. co_release c = Some r \<and> \<not> release_is_newer_than_current cfg r);
          expired = (\<exists>r. co_release c = Some r \<and> \<not> release_is_unexpired (in_now1 i) r);
          hidden = (stale \<or> expired);
          idle = (co_state c = StateAvailable \<and> hidden \<or> co_state c = StateFailed \<and> stale)
      in case drain_status_call i u of
           (st, u1) \<Rightarrow>
             (\<lparr>sn_state = (if idle then StateIdle else co_state c), sn_release = (if hidden then None else co_release c), sn_drain = st,
               sn_error = (if idle then '''' else co_error c), sn_staged = (co_staged c \<noteq> None \<and> \<not> hidden)\<rparr>, u1))"

subsection \<open>One section of a goroutine\<close>

fun job_run :: "update_config \<Rightarrow> inputs \<Rightarrow> job \<Rightarrow> upd \<Rightarrow> job list \<times> upd" where
  "job_run cfg i (Waiting gen r s keep) u =
     (if in_done i then (if keep then [] else [Completing False gen StateFailed ''context canceled''], u)
      else case drain_status_call i u of (st, u1) \<Rightarrow> ([Ticked gen r s keep st], u1))"
| "job_run cfg i (Ticked gen r s keep st) u = tick cfg i gen r s keep st u"
| "job_run cfg i (Owning gen r s keep) u = own_drain cfg i gen r s keep u"
| "job_run cfg i (Recording gen r s) u = record_transition cfg gen r s u"
| "job_run cfg i (Applying gen r s) u = (applied cfg gen r s (in_result i), u)"
| "job_run cfg i (Noting gen st msg after r s) u = note_state cfg i gen st msg after r s u"
| "job_run cfg i (Validating gen r s) u =
     (case in_result i of None \<Rightarrow> [Completing False gen StateSucceeded ''''] | Some e \<Rightarrow> roll_back gen r s e, u)"
| "job_run cfg i (RollingBack gen r s cause) u =
     ([case in_result i of
         None \<Rightarrow> Completing False gen StateRolledBack cause
       | Some e \<Rightarrow> Completing False gen StateFailed (cause @ ''; rollback: '' @ ue_text e)], u)"
| "job_run cfg i (Resuming gen r s) u = (if operation_is_active gen u then [Resumed gen r s] else [], u)"
| "job_run cfg i (Resumed gen r s) u = (resumed i gen r s u, u)"
| "job_run cfg i (Reconciling gen s) u = (reconcile_turn cfg i gen s u, u)"
| "job_run cfg i (Completing cancel gen st msg) u = complete_turn cfg i cancel gen st msg u"
| "job_run cfg i (Cleaning gen cause) u =
     (case begin_cleanup gen u of (b, u1) \<Rightarrow> (if b then [Supervising gen (''persist update transition: '' @ cause)] else [], u1))"
| "job_run cfg i (Supervising gen msg) u =
     (case supervise_turn cfg i gen msg u of (True, u1) \<Rightarrow> ([], end_cleanup gen u1) | (False, u1) \<Rightarrow> ([Supervising gen msg], u1))"
| "job_run cfg i (Resetting gen cause) u =
     (case reset_turn cfg i gen cause u of
        (b, u1) \<Rightarrow> (if in_done i then [] else if b then [StartSuper] else [Resetting gen cause], u1))"
| "job_run cfg i StartSuper u = start_accepted_update_supervisor u"
| "job_run cfg i Super u = ([if still_accepted u then SuperContinue (co_lease (up_co u)) else SuperEnd], u)"
| "job_run cfg i (SuperContinue lease) u =
     (if ready_to_apply cfg u then [SuperApply lease]
      else supervised_error i (plain_error ''accepted update replacement is not staged''), u)"
| "job_run cfg i (SuperApply lease) u = supervised_apply cfg i lease u"
| "job_run cfg i (SuperResetting gen e) u = supervised_reset cfg i gen e u"
| "job_run cfg i SuperRetry u = ([if still_accepted u \<and> \<not> in_done i then Super else SuperEnd], u)"
| "job_run cfg i (Settling cause) u =
     (case settle_turn cfg cause u of (b, u1) \<Rightarrow> ([if b \<or> in_done i then SuperEnd else Settling cause], u1))"
| "job_run cfg i SuperEnd u = end_supervisor i u"
| "job_run cfg i Cancelling u = ([CancelSeen (co_state (up_co u)) (co_operation (up_co u))], u)"
| "job_run cfg i (CancelSeen seen gen) u =
     (if gen = '''' then ([], snd (withdraw_acceptance cfg seen u)) else (cancel_decision cfg seen gen, u))"
| "job_run cfg i (CancelAsked gen) u =
     (case in_result i of None \<Rightarrow> [CancelClosing gen StateIdle ''''] | Some _ \<Rightarrow> [], u)"
| "job_run cfg i (CancelOwns gen) u =
     ([if owns gen (mgr u) then CancelClosing gen StateFailed ''update replacement can no longer be cancelled''
       else CancelClosing gen StateIdle ''''], u)"
| "job_run cfg i (CancelClosing gen st msg) u = close_cancelled cfg i gen st msg u"
| "job_run cfg i Checks u = (case begin_check cfg u of (b, u1) \<Rightarrow> ([if b then CheckAsking else Checks], u1))"
| "job_run cfg i CheckAsking u = check_answered cfg i (in_check i) u"
| "job_run cfg i (CheckStaging r) u =
     ([Checks], end_stage cfg (if uc_installer cfg = None then None else Some (in_staged i)) u)"

subsection \<open>Starting up\<close>

text \<open>
  \<open>SetPersistence\<close>, by its parts. An error ends it; so does a reinstallation by hand, which has made
  the update void. \<open>bi_inputs n\<close> is what the n-th call of the drain reads.
\<close>

record boot_inputs =
  bi_inputs :: "nat \<Rightarrow> inputs"
  bi_reinstalled :: "upd_error + bool"
  bi_helper_running :: "upd_error + bool"
  bi_removed :: "upd_error option"

datatype boot_result = BootOn | BootDone | BootError upd_error

definition boot_then :: "boot_result \<times> upd \<Rightarrow> (upd \<Rightarrow> boot_result \<times> upd) \<Rightarrow> boot_result \<times> upd" where
  "boot_then r f = (case r of (BootOn, u) \<Rightarrow> f u | (x, u) \<Rightarrow> (x, u))"

definition saved :: "upd_error option \<times> upd \<Rightarrow> boot_result \<times> upd" where
  "saved r = (case r of (None, u) \<Rightarrow> (BootOn, u) | (Some e, u) \<Rightarrow> (BootError e, u))"

definition doc_staged :: "coordinator_doc \<Rightarrow> staged option" where
  "doc_staged d =
     (case cd_staged_release d of
        Some r \<Rightarrow> Some (StagedRelease r)
      | None \<Rightarrow> map_option StagedLocal (cd_staged_local d))"

definition idle_coordinator_doc :: coordinator_doc where
  "idle_coordinator_doc = \<lparr>cd_state = StateIdle, cd_release = None, cd_staged_local = None, cd_staged_release = None,
     cd_error = '''', cd_operation = '''', cd_accepted = False, cd_lease = 0\<rparr>"

definition load_coordinator_doc :: "coordinator_doc \<Rightarrow> coordinator \<Rightarrow> coordinator" where
  "load_coordinator_doc d c = c\<lparr>co_state := cd_state d, co_release := cd_release d, co_staged := doc_staged d,
     co_error := cd_error d, co_operation := cd_operation d, co_accepted := cd_accepted d, co_lease := cd_lease d\<rparr>"

definition boot_load :: "update_config \<Rightarrow> upd \<Rightarrow> boot_result \<times> upd" where
  "boot_load cfg u =
     (case os_read_file (uc_path cfg) (co_fs (up_co u)) of
        (Inl FsNotExist, f) \<Rightarrow> (BootOn, set_co (\<lambda>c. load_coordinator_doc idle_coordinator_doc (c\<lparr>co_fs := f\<rparr>)) u)
      | (Inl FsFault, f) \<Rightarrow> (BootError (plain_error ''read''), set_co (\<lambda>c. c\<lparr>co_fs := f\<rparr>) u)
      | (Inr CoordinatorGarbage, f) \<Rightarrow> (BootError (plain_error ''decode''), set_co (\<lambda>c. c\<lparr>co_fs := f\<rparr>) u)
      | (Inr (CoordinatorJson d), f) \<Rightarrow> (BootOn, set_co (\<lambda>c. load_coordinator_doc d (c\<lparr>co_fs := f\<rparr>)) u))"

definition local_staged :: "upd \<Rightarrow> local_staged_update option" where
  "local_staged u = (case co_staged (up_co u) of Some (StagedLocal l) \<Rightarrow> Some l | _ \<Rightarrow> None)"

definition identified :: "local_staged_update \<Rightarrow> bool" where
  "identified l \<longleftrightarrow> ls_outcome_id l \<noteq> '''' \<and> ls_install_path l \<noteq> ''''"

definition packaged_update_reinstall_requested :: "boot_inputs \<Rightarrow> local_staged_update \<Rightarrow> upd_error + bool" where
  "packaged_update_reinstall_requested b l = (if identified l then bi_reinstalled b else Inr False)"

definition packaged_update_helper_running :: "boot_inputs \<Rightarrow> local_staged_update \<Rightarrow> upd_error + bool" where
  "packaged_update_helper_running b l = (if identified l then bi_helper_running b else Inr False)"

definition boot_cancel_drain :: "upd \<Rightarrow> bool \<times> upd" where
  "boot_cancel_drain u = on_mgr cancel_drain u"

definition void_update :: "update_config \<Rightarrow> boot_inputs \<Rightarrow> upd \<Rightarrow> boot_result \<times> upd" where
  "void_update cfg b u =
     boot_then (saved (save cfg (set_co (\<lambda>c. clear_acceptance (c\<lparr>co_state := StateIdle, co_release := None, co_staged := None,
                  co_error := '''', co_operation := ''''\<rparr>)) u)))
       (\<lambda>u1. (case bi_removed b of None \<Rightarrow> BootDone | Some e \<Rightarrow> BootError e, u1))"

definition boot_reinstalled :: "update_config \<Rightarrow> boot_inputs \<Rightarrow> upd \<Rightarrow> boot_result \<times> upd" where
  "boot_reinstalled cfg b u =
     (case local_staged u of
        None \<Rightarrow> (BootOn, u)
      | Some l \<Rightarrow>
          (case packaged_update_reinstall_requested b l of
             Inl e \<Rightarrow> (BootError e, u)
           | Inr False \<Rightarrow> (BootOn, u)
           | Inr True \<Rightarrow>
               (case packaged_update_helper_running b l of
                  Inl e \<Rightarrow> (BootError e, u)
                | Inr True \<Rightarrow> (BootError (plain_error ''manual reinstall cancellation is waiting for the update helper to stop''), u)
                | Inr False \<Rightarrow>
                    (case drain_status_call (bi_inputs b 0) u of
                       (st, u1) \<Rightarrow>
                         if st_state st = Idle then void_update cfg b u1
                         else case boot_cancel_drain u1 of
                                (False, u2) \<Rightarrow> (BootError (plain_error ''clear update drain after manual reinstall''), u2)
                              | (True, u2) \<Rightarrow> void_update cfg b u2))))"

definition boot_outdated :: "update_config \<Rightarrow> boot_inputs \<Rightarrow> upd \<Rightarrow> boot_result \<times> upd" where
  "boot_outdated cfg b u =
     (case co_release (up_co u) of
        None \<Rightarrow> (BootOn, u)
      | Some r \<Rightarrow>
          if is_transition_state (co_state (up_co u)) \<or>
             (release_is_newer_than_current cfg r \<and> release_is_unexpired (in_now1 (bi_inputs b 1)) r)
          then (BootOn, u)
          else saved (save cfg (set_co (\<lambda>c.
                 let c1 = clear_acceptance (c\<lparr>co_release := None, co_staged := None\<rparr>)
                 in if co_state c = StateAvailable \<or> co_state c = StateFailed \<or> co_state c = StateChecking
                    then c1\<lparr>co_state := StateIdle, co_error := ''''\<rparr> else c1) u)))"

definition boot_accepted :: "update_config \<Rightarrow> boot_inputs \<Rightarrow> upd \<Rightarrow> boot_result \<times> upd" where
  "boot_accepted cfg b u =
     (if \<not> co_accepted (up_co u) then (BootOn, u)
      else if co_release (up_co u) = None \<or> co_lease (up_co u) \<le> 0
      then (BootError (plain_error ''persisted update acceptance is incomplete''), u)
      else case drain_status_call (bi_inputs b 2) u of
             (st, u1) \<Rightarrow>
               if st_state st \<noteq> Idle \<and> co_operation (up_co u) = ''''
               then if co_staged (up_co u) = None \<and> \<not> uc_manual cfg
                    then (BootError (plain_error ''persisted accepted update drain has no staged artifact''), u1)
                    else saved (save cfg (set_co (\<lambda>c. c\<lparr>co_state := StateWaitingForIdle, co_operation := st_generation st\<rparr>) u1))
               else if st_state st = Idle \<and> co_state (up_co u) = StateStaging
               then saved (save cfg (set_co (\<lambda>c. c\<lparr>co_state := StateAvailable, co_error := ''''\<rparr>) u1))
               else (BootOn, u1))"

definition installed :: "update_config \<Rightarrow> coordinator \<Rightarrow> bool" where
  "installed cfg c \<longleftrightarrow>
     (case co_release c of None \<Rightarrow> False | Some r \<Rightarrow> cb_version (uc_current cfg) = rm_version (vr_metadata r)) \<and>
     is_transition_state (co_state c) \<and> \<not> (co_state c = StateRestarting \<and> restart_distribution cfg)"

definition boot_succeeded :: "update_config \<Rightarrow> boot_inputs \<Rightarrow> upd \<Rightarrow> boot_result \<times> upd" where
  "boot_succeeded cfg b u =
     (case drain_status_call (bi_inputs b 3) u of
        (st, u1) \<Rightarrow>
          (let gen = (if co_operation (up_co u) = '''' then st_generation st else co_operation (up_co u));
               finish = (\<lambda>v. saved (save cfg (set_co (\<lambda>c. clear_acceptance (c\<lparr>co_state := StateSucceeded, co_error := '''',
                                                     co_operation := ''''\<rparr>)) v)));
               stuck = BootError (plain_error ''persisted successful update does not own the active drain generation'')
           in if st_state st = Idle then finish u1
              else if gen \<noteq> st_generation st then (stuck, u1)
              else case on_mgr (release gen) u1 of (False, u2) \<Rightarrow> (stuck, u2) | (True, u2) \<Rightarrow> finish u2))"

definition boot_transition :: "update_config \<Rightarrow> boot_inputs \<Rightarrow> upd \<Rightarrow> boot_result \<times> upd" where
  "boot_transition cfg b u =
     (if installed cfg (up_co u) then boot_succeeded cfg b u
      else if \<not> is_transition_state (co_state (up_co u)) then (BootOn, u)
      else case drain_status_call (bi_inputs b 3) u of
             (st, u1) \<Rightarrow>
               if st_state st = Idle
               then saved (save cfg (set_co (\<lambda>c. if co_accepted c
                      then c\<lparr>co_state := StateAvailable, co_error := '''', co_operation := ''''\<rparr>
                      else clear_acceptance (c\<lparr>co_state := StateIdle, co_error := '''', co_operation := ''''\<rparr>)) u1))
               else if co_operation (up_co u) = ''''
               then saved (save cfg (set_co (\<lambda>c. c\<lparr>co_operation := st_generation st\<rparr>) u1))
               else if co_operation (up_co u) \<noteq> st_generation st
               then (BootError (plain_error ''persisted update operation does not own the active drain generation''), u1)
               else saved (save cfg u1))"

definition boot_orphan :: "update_config \<Rightarrow> boot_inputs \<Rightarrow> upd \<Rightarrow> boot_result \<times> upd" where
  "boot_orphan cfg b u =
     (if is_transition_state (co_state (up_co u)) \<or> co_accepted (up_co u) then (BootOn, u)
      else case drain_status_call (bi_inputs b 4) u of
             (st, u1) \<Rightarrow>
               if st_state st = Idle then (BootOn, u1)
               else case (case local_staged u1 of None \<Rightarrow> Inr False | Some l \<Rightarrow> packaged_update_helper_running b l) of
                      Inl e \<Rightarrow> (BootError e, u1)
                    | Inr True \<Rightarrow> (BootOn, u1)
                    | Inr False \<Rightarrow>
                        (case boot_cancel_drain u1 of
                           (False, u2) \<Rightarrow> (BootError (plain_error ''clear orphaned update drain''), u2)
                         | (True, u2) \<Rightarrow> saved (save cfg (set_co (\<lambda>c. c\<lparr>co_operation := ''''\<rparr>) u2))))"

definition restore_coordinator :: "update_config \<Rightarrow> boot_inputs \<Rightarrow> upd \<Rightarrow> boot_result \<times> upd" where
  "restore_coordinator cfg b u =
     boot_then (boot_then (boot_then (boot_then (boot_then (boot_load cfg u)
       (boot_reinstalled cfg b)) (boot_outdated cfg b)) (boot_accepted cfg b)) (boot_transition cfg b)) (boot_orphan cfg b)"

text \<open>
  What \<open>StartRecovery\<close> launches once the installer is ready; a call before that does nothing.
\<close>

definition needs_installer :: "update_config \<Rightarrow> coordinator \<Rightarrow> bool" where
  "needs_installer cfg c \<longleftrightarrow> co_state c = StateApplying \<or> co_state c = StateValidating \<or>
     (co_state c = StateWaitingForIdle \<and> \<not> uc_manual cfg) \<or>
     (co_accepted c \<and> co_operation c = '''' \<and> co_state c \<in> {StateAvailable, StateFailed, StateStaging} \<and> \<not> uc_manual cfg)"

definition packaged_restart :: "update_config \<Rightarrow> upd \<Rightarrow> bool" where
  "packaged_restart cfg u \<longleftrightarrow> local_staged u \<noteq> None \<and> restart_distribution cfg \<and> co_state (up_co u) = StateRestarting"

definition not_ready :: "update_config \<Rightarrow> upd \<Rightarrow> bool" where
  "not_ready cfg u \<longleftrightarrow>
     (needs_installer cfg (up_co u) \<and> uc_installer cfg = None) \<or>
     (packaged_restart cfg u \<and> distribution cfg = ''desktop'' \<and> \<not> installer_has (\<lambda>k. in_ready k = Some True) cfg) \<or>
     ((needs_installer cfg (up_co u) \<or> packaged_restart cfg u) \<and> installer_has (\<lambda>k. in_ready k = Some False) cfg)"

definition start_recovery :: "update_config \<Rightarrow> upd \<Rightarrow> job list" where
  "start_recovery cfg u =
     (let c = up_co u; gen = co_operation c
      in if not_ready cfg u then []
         else if co_accepted c \<and> gen = '''' \<and> co_state c \<in> {StateAvailable, StateFailed, StateStaging} then [StartSuper]
         else if packaged_restart cfg u \<and> gen \<noteq> ''''
         then (case local_staged u of Some l \<Rightarrow> [Reconciling gen l] | None \<Rightarrow> [])
         else if co_state c = StateRollingBack \<and> installer_has in_docker_agent cfg \<and> gen \<noteq> ''''
         then [Completing False gen StateFailed (co_error c)]
         else case co_release c of
                None \<Rightarrow> []
              | Some r \<Rightarrow>
                  if (co_state c = StateWaitingForIdle \<or> uc_manual cfg \<and> co_state c = StateReady) \<and> gen \<noteq> ''''
                  then [Waiting gen r (co_staged c) True]
                  else if installer_has in_resumable cfg \<and> (co_state c = StateApplying \<or> co_state c = StateValidating) \<and> gen \<noteq> ''''
                  then [Resuming gen r (co_staged c)] else [])"

definition initial_check :: "upd \<Rightarrow> bool" where
  "initial_check u \<longleftrightarrow> \<not> is_transition_state (co_state (up_co u)) \<and> \<not> co_accepted (up_co u) \<and>
     co_state (up_co u) \<noteq> StateSucceeded \<and> co_state (up_co u) \<noteq> StateRolledBack"

end
