(* ===== verification/UpdateRuns.thy ===== *)
theory UpdateRuns
  imports Coordinator
begin

section \<open>Lives of an update\<close>

text \<open>
  The server with its drain and its coordinator over any number of processes: a process starts from
  the two files, runs goroutines, users, checks and everything else that uses the drain in any order,
  and ends at any moment between two sections with what is in the files.

  A user accepts and cancels; a goroutine goes on by \<open>job_run\<close>; the rest of the program starts and
  ends work, asks for admission and reads the status. A generation drawn for a new drain differs from
  all before it: it is 128 random bits. Left out is a process that ends while it starts up.
\<close>

datatype process_files = ProcessFiles (pf_drain: "drain_file fs") (pf_coordinator: "coordinator_file fs")

record update_sys =
  us_config :: update_config
  us_upd :: upd
  us_jobs :: "job list"
  us_used :: "string list"
  us_crossed :: bool

subsection \<open>The rest of the program\<close>

fun bystander :: "drain_event \<Rightarrow> bool" where
  "bystander (EvGate op) = True"
| "bystander EvStatus = True"
| "bystander EvExpire = True"
| "bystander ev = False"

definition bystander_step :: "drain_sys \<Rightarrow> drain_sys \<Rightarrow> bool" where
  "bystander_step d d' \<longleftrightarrow> (\<exists>ev. bystander ev \<and> drain_step ev d d')"

definition bystanders :: "(drain_sys \<Rightarrow> drain_sys) \<Rightarrow> bool" where
  "bystanders f \<longleftrightarrow> (\<forall>d. bystander_step\<^sup>*\<^sup>* d (f d))"

subsection \<open>Whose generation a job works on\<close>

text \<open>
  \<open>minds\<close> is the generation a goroutine of an operation is responsible for; \<open>installing\<close> that of a
  replacement that runs or may run; \<open>closes\<close> that of a cancellation which settles the operation
  itself.
\<close>

fun minds :: "job \<Rightarrow> string list" where
  "minds (Waiting g r s k) = [g]"
| "minds (Ticked g r s k st) = [g]"
| "minds (Owning g r s k) = [g]"
| "minds (Recording g r s) = [g]"
| "minds (Applying g r s) = [g]"
| "minds (Noting g st m a r s) = [g]"
| "minds (Validating g r s) = [g]"
| "minds (RollingBack g r s c) = [g]"
| "minds (Resuming g r s) = [g]"
| "minds (Resumed g r s) = [g]"
| "minds (Reconciling g l) = [g]"
| "minds (Completing c g st m) = (if c then [] else [g])"
| "minds (Cleaning g m) = [g]"
| "minds (Supervising g m) = [g]"
| "minds (Resetting g m) = [g]"
| "minds (SuperResetting g e) = [g]"
| "minds j = []"

fun installing :: "job \<Rightarrow> string list" where
  "installing (Applying g r s) = [g]"
| "installing (Noting g st m a r s) = [g]"
| "installing (Validating g r s) = [g]"
| "installing (RollingBack g r s c) = [g]"
| "installing (Resuming g r s) = [g]"
| "installing (Resumed g r s) = [g]"
| "installing (Reconciling g l) = [g]"
| "installing j = []"

fun closes :: "job \<Rightarrow> string list" where
  "closes (CancelClosing g st m) = [g]"
| "closes (Completing c g st m) = (if c then [g] else [])"
| "closes j = []"

text \<open>A goroutine that has taken the drain of its operation: a replacement runs, or is recorded next.\<close>

fun holding :: "job \<Rightarrow> string list" where
  "holding (Recording g r s) = [g]"
| "holding j = installing j"

text \<open>A cancellation crosses an operation when it settles it while a goroutine holds its drain.\<close>

definition crosses :: "job \<Rightarrow> job list \<Rightarrow> upd \<Rightarrow> bool" where
  "crosses j js u \<longleftrightarrow> (\<exists>g \<in> set (closes j). is_operation g u \<and> (\<exists>k \<in> set js. g \<in> set (holding k)))"

definition inputs_ok :: "inputs \<Rightarrow> update_sys \<Rightarrow> bool" where
  "inputs_ok i s \<longleftrightarrow> bystanders (in_others i) \<and> in_generation i \<noteq> '''' \<and> in_generation i \<notin> set (us_used s)"

subsection \<open>Steps\<close>

inductive update_step :: "update_sys \<Rightarrow> update_sys \<Rightarrow> bool" where
  run: "us_jobs s = xs @ j # ys \<Longrightarrow> inputs_ok i s \<Longrightarrow>
    job_run (us_config s) i j (us_upd s) = (js, u) \<Longrightarrow>
    update_step s (s\<lparr>us_upd := u, us_jobs := xs @ js @ ys, us_used := in_generation i # us_used s,
                     us_crossed := (us_crossed s \<or> crosses j (xs @ ys) (us_upd s))\<rparr>)"
| accept: "inputs_ok i s \<Longrightarrow> accept_update (us_config s) i lease (us_upd s) = (r, u) \<Longrightarrow>
    update_step s (s\<lparr>us_upd := u, us_jobs := us_jobs s @ (if r = None then [StartSuper] else [])\<rparr>)"
| cancel: "update_step s (s\<lparr>us_jobs := us_jobs s @ [Cancelling]\<rparr>)"
| look: "inputs_ok i s \<Longrightarrow> snapshot_of (us_config s) i (us_upd s) = (r, u) \<Longrightarrow> update_step s (s\<lparr>us_upd := u\<rparr>)"
| bystander: "bystander_step (up_drain (us_upd s)) d \<Longrightarrow>
    update_step s (s\<lparr>us_upd := (us_upd s)\<lparr>up_drain := d\<rparr>\<rparr>)"

inductive_cases update_stepE: "update_step s s'"

datatype process = Up update_sys | Down process_files "string list" bool

definition files_of :: "upd \<Rightarrow> process_files" where
  "files_of u = ProcessFiles (dm_fs (mgr u)) (co_fs (up_co u))"

definition boot_inputs_ok :: "boot_inputs \<Rightarrow> bool" where
  "boot_inputs_ok b \<longleftrightarrow> (\<forall>n. bystanders (in_others (bi_inputs b n)))"

definition start_process ::
  "update_config \<Rightarrow> string \<Rightarrow> duration \<Rightarrow> instant \<Rightarrow> boot_inputs \<Rightarrow> process_files \<Rightarrow> string list \<Rightarrow> bool \<Rightarrow> process" where
  "start_process cfg path quiet now b f used crossed =
     (case drain_startup quiet (uc_windows cfg) path now (pf_drain f) of
        (Some e, m) \<Rightarrow> Down (ProcessFiles (dm_fs m) (pf_coordinator f)) used crossed
      | (None, m) \<Rightarrow>
          (case restore_coordinator cfg b \<lparr>up_drain = \<lparr>ds_mgr = m, ds_tickets = []\<rparr>, up_co = new_coordinator (pf_coordinator f)\<rparr> of
             (BootError e, u) \<Rightarrow> Down (files_of u) used crossed
           | (_, u) \<Rightarrow> Up \<lparr>us_config = cfg, us_upd = u, us_jobs = start_recovery cfg u @ [Checks], us_used = used,
                            us_crossed = crossed\<rparr>))"

text \<open>
  Every process has the same two paths, on a system with an atomic rename; its build, its installer
  and its settings may differ (\<open>ok\<close>), as they do after an update.
\<close>

inductive life :: "(update_config \<Rightarrow> bool) \<Rightarrow> string \<Rightarrow> string \<Rightarrow> process \<Rightarrow> bool" for ok dpath cpath where
  install: "dpath \<noteq> '''' \<Longrightarrow> fs_files fd dpath = None \<Longrightarrow> fs_files fc cpath = None \<Longrightarrow>
    life ok dpath cpath (Down (ProcessFiles fd fc) [] False)"
| start: "life ok dpath cpath (Down f used crossed) \<Longrightarrow> ok cfg \<Longrightarrow> uc_path cfg = cpath \<Longrightarrow> \<not> uc_windows cfg \<Longrightarrow>
    boot_inputs_ok b \<Longrightarrow> life ok dpath cpath (start_process cfg dpath quiet now b f used crossed)"
| step: "life ok dpath cpath (Up s) \<Longrightarrow> update_step s s' \<Longrightarrow> life ok dpath cpath (Up s')"
| stop: "life ok dpath cpath (Up s) \<Longrightarrow> life ok dpath cpath (Down (files_of (us_upd s)) (us_used s) (us_crossed s))"

end
