(* ===== verification/UpdateLaws.thy ===== *)
theory UpdateLaws
  imports UpdateRuns
begin

section \<open>What the sections of the coordinator do to the drain\<close>

text \<open>
  Every section of a goroutine changes the drain in one of few ways. \<open>shifts gs new m m'\<close> says which:
  the drain is the one it was, no less ready and no less owned, unless it has the generation
  \<open>new\<close>; and an owned drain goes on unless its generation is in \<open>gs\<close>. The relation composes, so that
  a section is as good as its calls; each call of the manager is shown to be one.
\<close>

subsection \<open>Shifts of the drain\<close>

definition working_on :: "string \<Rightarrow> drain_mgr \<Rightarrow> bool" where
  "working_on g m \<longleftrightarrow> dm_state m \<noteq> Idle \<and> dm_generation m = g"

definition shifts :: "string set \<Rightarrow> string set \<Rightarrow> drain_mgr \<Rightarrow> drain_mgr \<Rightarrow> bool" where
  "shifts gs new m m' \<longleftrightarrow>
     dm_persistence m' = dm_persistence m \<and> dm_windows m' = dm_windows m \<and>
     (\<forall>g. working_on g m' \<longrightarrow> g \<in> new \<or> (working_on g m \<and> (dm_owned m \<longrightarrow> dm_owned m') \<and>
        (dm_state m = Ready \<longrightarrow> dm_state m' = Ready))) \<and>
     (\<forall>g. working_on g m' \<and> dm_owned m' \<longrightarrow> dm_state m' = Ready \<or>
        (working_on g m \<and> dm_owned m \<and> (dm_state m = Ready \<longrightarrow> dm_state m' = Ready))) \<and>
     (\<forall>g. working_on g m \<and> dm_owned m \<and> g \<notin> gs \<longrightarrow> working_on g m' \<and> dm_owned m')"

lemma shifts_refl [simp]: "shifts gs new m m"
  by (simp add: shifts_def)

lemma shifts_mono: "shifts gs new m m' \<Longrightarrow> gs \<subseteq> gs' \<Longrightarrow> new \<subseteq> new' \<Longrightarrow> shifts gs' new' m m'"
  unfolding shifts_def by blast

lemma shifts_from: "shifts gs new m m' \<Longrightarrow> working_on g m' \<Longrightarrow> g \<notin> new \<Longrightarrow>
  working_on g m \<and> (dm_owned m \<longrightarrow> dm_owned m') \<and> (dm_state m = Ready \<longrightarrow> dm_state m' = Ready)"
  unfolding shifts_def by blast

lemma shifts_owned: "shifts gs new m m' \<Longrightarrow> working_on g m' \<Longrightarrow> dm_owned m' \<Longrightarrow>
  dm_state m' = Ready \<or> (working_on g m \<and> dm_owned m \<and> (dm_state m = Ready \<longrightarrow> dm_state m' = Ready))"
  unfolding shifts_def by blast

lemma shifts_kept: "shifts gs new m m' \<Longrightarrow> working_on g m \<Longrightarrow> dm_owned m \<Longrightarrow> g \<notin> gs \<Longrightarrow>
  working_on g m' \<and> dm_owned m'"
  unfolding shifts_def by blast

text \<open>Two shifts make one, when no generation of the first's is new in the second.\<close>

lemma shifts_trans:
  assumes a: "shifts gs new m1 m2" and b: "shifts gs' new' m2 m3"
  shows "shifts (gs \<union> gs') (new \<union> new') m1 m3"
  unfolding shifts_def
proof (intro conjI allI impI)
  show "dm_persistence m3 = dm_persistence m1" "dm_windows m3 = dm_windows m1"
    using a b by (simp_all add: shifts_def)
next
  fix g assume "working_on g m3"
  then show "g \<in> new \<union> new' \<or> (working_on g m1 \<and> (dm_owned m1 \<longrightarrow> dm_owned m3) \<and>
      (dm_state m1 = Ready \<longrightarrow> dm_state m3 = Ready))"
    using shifts_from [OF a, of g] shifts_from [OF b, of g] by blast
next
  fix g assume "working_on g m3 \<and> dm_owned m3"
  then show "dm_state m3 = Ready \<or> (working_on g m1 \<and> dm_owned m1 \<and> (dm_state m1 = Ready \<longrightarrow> dm_state m3 = Ready))"
    using shifts_owned [OF a, of g] shifts_owned [OF b, of g] by blast
next
  fix g assume "working_on g m1 \<and> dm_owned m1 \<and> g \<notin> gs \<union> gs'"
  then show "working_on g m3" "dm_owned m3"
    using shifts_kept [OF a, of g] shifts_kept [OF b, of g] by blast+
qed

definition settled :: "drain_sys \<Rightarrow> bool" where
  "settled d \<longleftrightarrow> drain_sys_inv d \<and> (dm_owned (ds_mgr d) \<longrightarrow> dm_state (ds_mgr d) = Ready)"

text \<open>
  The calls of the manager on a settled drain. Idle drains are not owned, and a drain that is Ready
  stays so, since nothing is active.
\<close>

lemma settled_idle: "settled d \<Longrightarrow> dm_state (ds_mgr d) = Idle \<Longrightarrow> \<not> dm_owned (ds_mgr d)"
  by (auto simp: settled_def)

lemma reset_locked_shifts:
  assumes "reset_locked m = (ok, m')" "dm_owned m \<and> dm_state m \<noteq> Idle \<longrightarrow> dm_generation m \<in> gs"
  shows "shifts gs {} m m'"
  using assms(1)
proof (cases rule: reset_lockedE)
  case (failed e f) then show ?thesis by (simp add: shifts_def working_on_def)
next
  case (reopened f) with assms(2) show ?thesis by (simp add: shifts_def working_on_def idled_def) blast
qed

lemma expire_locked_shifts: "shifts {} {} m (expire_locked now m)"
proof (rule expire_locked_cases [of now m])
  assume "expire_locked now m = m" then show ?thesis by simp
next
  fix ok assume "reset_locked m = (ok, expire_locked now m)" "\<not> dm_owned m"
  then show ?thesis by (auto intro: reset_locked_shifts)
qed

lemma status_locked_shifts:
  assumes "status_locked now a q m = (st, m')" "dm_state m = Ready \<longrightarrow> total a = 0"
  shows "shifts {} {} m m'"
  using assms(1)
proof (cases rule: status_lockedE)
  case same then show ?thesis by simp
next
  case (kept e f) then show ?thesis by (simp add: shifts_def working_on_def)
next
  case (stored f)
  have "dm_state (poll_state now a m) = Ready" if "dm_state m = Ready"
    using that assms(2) by (simp add: poll_state_def)
  with stored show ?thesis by (simp add: shifts_def working_on_def)
qed

lemma take_ownership_shifts:
  assumes "take_ownership gen m = (ok, m')" "working_on gen m \<longrightarrow> dm_state m = Ready"
  shows "shifts {} {} m m'"
  using assms(1)
proof (cases rule: take_ownershipE)
  case refused then show ?thesis by simp
next
  case (failed e f) then show ?thesis by (simp add: shifts_def working_on_def)
next
  case (taken f) with assms(2) show ?thesis by (simp add: shifts_def working_on_def)
qed

lemma renew_shifts:
  assumes "renew gen lease now m = (ok, m')"
  shows "shifts {} {} m m'"
  using assms by (cases rule: renewE) (simp_all add: shifts_def working_on_def)

lemma release_shifts:
  assumes "release gen m = (ok, m')"
  shows "shifts {gen} {} m m'"
proof (cases "gen = [] \<or> gen \<noteq> dm_generation m \<or> dm_state m = Idle")
  case True with assms show ?thesis by (simp add: release_def)
next
  case False
  with assms have "reset_locked m = (ok, m')" by (simp add: release_def)
  then show ?thesis by (rule reset_locked_shifts) (use False in simp)
qed

lemma begin_drain_shifts:
  assumes "begin_drain lease gen now1 now2 (sampled m) q m = (r, m')"
  shows "shifts {} {gen} m m'"
  using assms
proof (cases rule: begin_drainE)
  case refused then show ?thesis by simp
next
  case (failed e f m2) then show ?thesis by (simp add: shifts_def working_on_def idled_def)
next
  case (begun st m2 f)
  let ?m3 = "m2\<lparr>dm_fs := f, dm_draining_closed := True\<rparr>"
  have a: "shifts {} {gen} m ?m3" using begun by (simp add: shifts_def working_on_def)
  have "shifts {} {} ?m3 m'" by (rule status_locked_shifts [OF begun(6)]) (simp add: begun(4))
  from shifts_trans [OF a this] show ?thesis by simp
qed

lemma settled_next:
  assumes "settled d" "drain_sys_inv d'" "shifts gs new (ds_mgr d) (ds_mgr d')"
  shows "settled d'"
proof -
  have "dm_state (ds_mgr d') = Ready" if o: "dm_owned (ds_mgr d')"
  proof -
    from o assms(2) have "dm_state (ds_mgr d') \<noteq> Idle"
      by (auto simp: drain_sys_inv_def drain_inv_def drain_doc_of_def idle_doc_def)
    then have "working_on (dm_generation (ds_mgr d')) (ds_mgr d')" by (simp add: working_on_def)
    from shifts_owned [OF assms(3) this o] assms(1) show ?thesis by (auto simp: settled_def)
  qed
  with assms(2) show ?thesis by (simp add: settled_def)
qed

lemma settled_Ready: "settled d \<Longrightarrow> dm_state (ds_mgr d) = Ready \<longrightarrow> total (sampled (ds_mgr d)) = 0"
  by (simp add: settled_def drain_sys_inv_def)

lemma status_shifts:
  assumes "settled d" "status now1 now2 (sampled (ds_mgr d)) q (ds_mgr d) = (st, m)"
  shows "shifts {} {} (ds_mgr d) m"
proof -
  let ?e = "expire_locked now1 (ds_mgr d)"
  have r: "dm_state ?e = Ready \<longrightarrow> total (sampled (ds_mgr d)) = 0"
    using shifts_from [OF expire_locked_shifts [of "ds_mgr d" now1]] expire_locked_calm [of "ds_mgr d" now1]
      settled_Ready [OF assms(1)]
    by (auto simp: calm_def)
  from assms(2) have "status_locked now2 (sampled (ds_mgr d)) q ?e = (st, m)" by (simp add: status_def)
  from shifts_trans [OF expire_locked_shifts status_locked_shifts [OF this r]] show ?thesis by simp
qed

lemma bystander_shifts:
  assumes "settled d" "bystander_step d d'"
  shows "settled d' \<and> shifts {} {} (ds_mgr d) (ds_mgr d')"
proof -
  from assms(2) obtain ev where ev: "bystander ev" "drain_step ev d d'" by (auto simp: bystander_step_def)
  from assms(1) have "drain_sys_inv d" by (simp add: settled_def)
  from drain_step_inv [OF this ev(2)] have inv': "drain_sys_inv d'" .
  have "shifts {} {} (ds_mgr d) (ds_mgr d')"
    using ev(2)
  proof (cases rule: drain_step.cases)
    case (gate t op ks t') then show ?thesis by (simp add: shifts_def working_on_def)
  next
    case (status now1 now2 q st m) with status_shifts [OF assms(1)] show ?thesis by simp
  next
    case (admit now ok m) then show ?thesis using expire_locked_shifts by (auto simp: admit_def Let_def)
  next
    case (draining now ch m) then show ?thesis using expire_locked_shifts by (auto simp: draining_def Let_def)
  next
    case (supervisor now) then show ?thesis using expire_locked_shifts by simp
  qed (use ev(1) in simp_all)
  with settled_next [OF assms(1) inv' this] show ?thesis by simp
qed

lemma bystanders_shifts:
  assumes "bystanders f" "settled d"
  shows "settled (f d) \<and> shifts {} {} (ds_mgr d) (ds_mgr (f d))"
proof -
  from assms(1) have "bystander_step\<^sup>*\<^sup>* d (f d)" by (simp add: bystanders_def)
  then show ?thesis
  proof (induction rule: rtranclp_induct)
    case base with assms(2) show ?case by simp
  next
    case (step x y)
    with bystander_shifts [of x y] shifts_trans [of "{}" "{}" "ds_mgr d" "ds_mgr x" "{}" "{}" "ds_mgr y"]
    show ?case by simp
  qed
qed

subsection \<open>The coordinator and its file\<close>

text \<open>
  A coordinator whose state says that a replacement is under way works for an operation, and where the
  drain is still that operation's it is owned. This holds of the fields and of the document on file
  (\<open>sound\<close>); the generations are among those drawn so far (\<open>U\<close>, with the empty one). \<open>moves\<close> is
  what a section does: a shift of the drain that keeps all this.
\<close>

definition busy :: "update_state \<Rightarrow> bool" where
  "busy st \<longleftrightarrow> st \<in> {StateApplying, StateRestarting, StateValidating, StateRollingBack}"

definition sound :: "drain_mgr \<Rightarrow> update_state \<Rightarrow> string \<Rightarrow> bool" where
  "sound m st op \<longleftrightarrow> (busy st \<longrightarrow> op \<noteq> '''' \<and> (working_on op m \<longrightarrow> dm_owned m))"

definition file_sound :: "string set \<Rightarrow> drain_mgr \<Rightarrow> coordinator_file option \<Rightarrow> bool" where
  "file_sound U m x \<longleftrightarrow>
     (\<forall>d. x = Some (CoordinatorJson d) \<longrightarrow> sound m (cd_state d) (cd_operation d) \<and> cd_operation d \<in> U)"

definition upd_ok :: "update_config \<Rightarrow> string set \<Rightarrow> upd \<Rightarrow> bool" where
  "upd_ok cfg U u \<longleftrightarrow> settled (up_drain u) \<and> dm_generation (mgr u) \<in> U \<and> '''' \<in> U \<and> \<not> uc_windows cfg \<and>
     sound (mgr u) (co_state (up_co u)) (co_operation (up_co u)) \<and> co_operation (up_co u) \<in> U \<and>
     file_sound U (mgr u) (fs_files (co_fs (up_co u)) (uc_path cfg))"

definition moves :: "update_config \<Rightarrow> string set \<Rightarrow> string set \<Rightarrow> string set \<Rightarrow> upd \<Rightarrow> upd \<Rightarrow> bool" where
  "moves cfg U gs new u u' \<longleftrightarrow> upd_ok cfg (new \<union> U) u' \<and> shifts gs new (mgr u) (mgr u')"

lemma sound_shifts: "sound m st op \<Longrightarrow> shifts gs new m m' \<Longrightarrow> op \<notin> new \<Longrightarrow> sound m' st op"
  using shifts_from by (auto simp: sound_def)

lemma sound_idle [simp]: "\<not> busy st \<Longrightarrow> sound m st op"
  by (simp add: sound_def)

lemma busy_simps [simp]:
  "\<not> busy StateIdle" "\<not> busy StateChecking" "\<not> busy StateAvailable" "\<not> busy StateStaging" "\<not> busy StateWaitingForIdle"
  "\<not> busy StateReady" "\<not> busy StateSucceeded" "\<not> busy StateFailed" "\<not> busy StateRolledBack"
  by (simp_all add: busy_def)

lemma file_sound_shifts:
  "file_sound U m x \<Longrightarrow> shifts gs new m m' \<Longrightarrow> U \<inter> new = {} \<Longrightarrow> file_sound (new \<union> U) m' x"
  using sound_shifts unfolding file_sound_def by blast

lemma settled_generation:
  assumes "settled d" "dm_generation m \<in> U" "'''' \<in> U" "shifts gs new m (ds_mgr d)"
  shows "dm_generation (ds_mgr d) \<in> new \<union> U"
proof (cases "dm_state (ds_mgr d) = Idle")
  case True
  with assms(1,3) show ?thesis
    by (auto simp: settled_def drain_sys_inv_def drain_inv_def drain_doc_of_def idle_doc_def)
next
  case False
  then have "working_on (dm_generation (ds_mgr d)) (ds_mgr d)" by (simp add: working_on_def)
  with shifts_from [OF assms(4) this] assms(2) show ?thesis by (metis UnI1 UnI2 working_on_def)
qed

lemma moves_refl [simp]: "upd_ok cfg U u \<Longrightarrow> moves cfg U gs {} u u"
  by (simp add: moves_def)

lemma moves_ok: "moves cfg U gs new u u' \<Longrightarrow> upd_ok cfg (new \<union> U) u'"
  by (simp add: moves_def)

lemma moves_ok0: "moves cfg U gs {} u u' \<Longrightarrow> upd_ok cfg U u'"
  by (simp add: moves_def)

lemma moves_shifts: "moves cfg U gs new u u' \<Longrightarrow> shifts gs new (mgr u) (mgr u')"
  by (simp add: moves_def)

lemma moves_trans:
  assumes "moves cfg U gs new u v" "moves cfg (new \<union> U) gs' new' v w"
  shows "moves cfg U (gs \<union> gs') (new \<union> new') u w"
  using assms shifts_trans [of gs new "mgr u" "mgr v" gs' new' "mgr w"]
  by (simp add: moves_def ac_simps)

lemma moves_trans0: "moves cfg U gs {} u v \<Longrightarrow> moves cfg U gs {} v w \<Longrightarrow> moves cfg U gs {} u w"
  using moves_trans [of cfg U gs "{}" u v gs "{}" w] by simp

lemma moves_wider: "moves cfg U gs {} u v \<Longrightarrow> gs \<subseteq> gs' \<Longrightarrow> moves cfg U gs' {} u v"
  using shifts_mono [of gs "{}" "mgr u" "mgr v" gs' "{}"] by (simp add: moves_def)

lemma upd_ok_mono: "upd_ok cfg U u \<Longrightarrow> U \<subseteq> V \<Longrightarrow> upd_ok cfg V u"
  by (auto simp: upd_ok_def file_sound_def)

lemma moves_newer: "moves cfg U gs new u v \<Longrightarrow> gs \<subseteq> gs' \<Longrightarrow> new \<subseteq> new' \<Longrightarrow> moves cfg U gs' new' u v"
  using shifts_mono [of gs new "mgr u" "mgr v" gs' new'] upd_ok_mono [of cfg "new \<union> U" v "new' \<union> U"]
  by (auto simp: moves_def)

text \<open>What a change of the drain, of the fields and of the file comes to.\<close>

lemma mgr_simps [simp]:
  "mgr (u\<lparr>up_drain := d\<rparr>) = ds_mgr d" "mgr (u\<lparr>up_co := c\<rparr>) = mgr u" "mgr (set_co f u) = mgr u"
  "up_drain (set_co f u) = up_drain u" "up_co (set_co f u) = f (up_co u)"
  by (simp_all add: mgr_def set_co_def)

lemma drain_moves:
  assumes "upd_ok cfg U u" "settled d" "shifts gs new (mgr u) (ds_mgr d)" "U \<inter> new = {}"
  shows "moves cfg U gs new u (u\<lparr>up_drain := d\<rparr>)"
  using assms sound_shifts [of "mgr u" "co_state (up_co u)" "co_operation (up_co u)"] file_sound_shifts
    settled_generation [OF assms(2) _ _ assms(3), of U]
  by (auto simp: moves_def upd_ok_def)

lemma set_co_moves:
  assumes "upd_ok cfg U u" "co_fs (f (up_co u)) = co_fs (up_co u)"
    "sound (mgr u) (co_state (f (up_co u))) (co_operation (f (up_co u)))" "co_operation (f (up_co u)) \<in> U"
  shows "moves cfg U gs {} u (set_co f u)"
  using assms by (simp add: moves_def upd_ok_def)

lemma save_moves:
  assumes "upd_ok cfg U u" "save cfg u = (e, v)"
  shows "moves cfg U gs {} u v \<and> (\<exists>f. v = set_co (\<lambda>c. c\<lparr>co_fs := f\<rparr>) u)"
proof (cases "uc_path cfg = ''''")
  case True
  then have "v = set_co (\<lambda>c. c\<lparr>co_fs := co_fs (up_co u)\<rparr>) u"
    using assms(2) by (simp add: save_def save_coordinator_def set_co_def)
  moreover have "v = u" using assms(2) True by (simp add: save_def save_coordinator_def)
  ultimately show ?thesis using assms(1) moves_refl by metis
next
  case False
  let ?d = "CoordinatorJson (coordinator_doc_of (up_co u))"
  obtain x f where w: "atomic_write_state False (uc_path cfg) ?d (co_fs (up_co u)) = (x, f)" by (rule prod.exhaust)
  have v: "v = set_co (\<lambda>c. c\<lparr>co_fs := f\<rparr>) u"
    using assms False w by (simp add: save_def save_coordinator_def set_co_def upd_ok_def)
  have "fs_files f (uc_path cfg) = Some ?d \<or> fs_files f (uc_path cfg) = fs_files (co_fs (up_co u)) (uc_path cfg)"
    using posix.stored_write_cases [of "uc_path cfg" ?d "co_fs (up_co u)"] w by auto
  then have "file_sound U (mgr u) (fs_files f (uc_path cfg))"
    using assms(1) by (auto simp: upd_ok_def file_sound_def coordinator_doc_of_def)
  then have "upd_ok cfg U v" using assms(1) by (simp add: upd_ok_def v)
  then show ?thesis by (auto simp: moves_def v)
qed

subsection \<open>Calls of the drain\<close>

lemma on_mgr_moves:
  assumes "upd_ok cfg U u" "on_mgr f u = (r, v)" "f (mgr u) = (r, m)" "shifts gs new (mgr u) m"
    "drain_step ev (up_drain u) ((up_drain u)\<lparr>ds_mgr := m\<rparr>)" "U \<inter> new = {}"
  shows "moves cfg U gs new u v \<and> up_co v = up_co u \<and> mgr v = m"
proof -
  from assms(2,3) have v: "v = u\<lparr>up_drain := (up_drain u)\<lparr>ds_mgr := m\<rparr>\<rparr>" by (simp add: on_mgr_def mgr_def)
  have s: "settled (up_drain u)" using assms(1) by (simp add: upd_ok_def)
  with drain_step_inv [OF _ assms(5)] have "settled ((up_drain u)\<lparr>ds_mgr := m\<rparr>)"
    by (intro settled_next [OF s, where gs = gs and new = new])
      (use assms(4) in \<open>auto simp: settled_def mgr_def\<close>)
  from drain_moves [OF assms(1) this, of gs new] assms(4,6) show ?thesis by (simp add: v)
qed

lemma on_mgrE:
  assumes "on_mgr f u = (r, v)"
  obtains m where "f (mgr u) = (r, m)" "v = u\<lparr>up_drain := (up_drain u)\<lparr>ds_mgr := m\<rparr>\<rparr>"
  using assms by (auto simp: on_mgr_def mgr_def split: prod.splits)

lemma upd_settled: "upd_ok cfg U u \<Longrightarrow> settled (up_drain u)"
  by (simp add: upd_ok_def)

lemma drain_status_moves:
  assumes "upd_ok cfg U u" "drain_status_call i u = (st, v)"
  shows "moves cfg U gs {} u v \<and> up_co v = up_co u \<and> st_state st = dm_state (mgr v) \<and> st_generation st = dm_generation (mgr v)"
proof -
  from assms(2) have "on_mgr (status (in_now1 i) (in_now2 i) (sampled (mgr u)) (in_queued i)) u = (st, v)"
    by (simp add: drain_status_call_def)
  then obtain m where m: "status (in_now1 i) (in_now2 i) (sampled (mgr u)) (in_queued i) (mgr u) = (st, m)"
    by (rule on_mgrE)
  note s = m [unfolded mgr_def]
  have "shifts {} {} (mgr u) m" using status_shifts [OF upd_settled [OF assms(1)] s] by (simp add: mgr_def)
  then have "shifts gs {} (mgr u) m" by (rule shifts_mono) auto
  from on_mgr_moves [OF assms(1) assms(2) [unfolded drain_status_call_def] m this drain_step.status [OF s]]
    status_locked_report [OF m [unfolded status_def]]
  show ?thesis by simp
qed

lemma others_moves:
  assumes "upd_ok cfg U u" "bystanders (in_others i)"
  shows "moves cfg U gs {} u (others i u) \<and> up_co (others i u) = up_co u"
proof -
  note b = bystanders_shifts [OF assms(2) upd_settled [OF assms(1)]]
  then have "shifts gs {} (mgr u) (ds_mgr (in_others i (up_drain u)))"
    using shifts_mono [of "{}" "{}" _ _ gs "{}"] by (simp add: mgr_def)
  with drain_moves [OF assms(1), of "in_others i (up_drain u)" gs "{}"] b show ?thesis
    by (simp add: others_def)
qed

lemma release_moves:
  assumes "upd_ok cfg U u" "on_mgr (release gen) u = (ok, v)" "gen \<in> gs"
  shows "moves cfg U gs {} u v \<and> up_co v = up_co u"
proof -
  obtain m where m: "release gen (mgr u) = (ok, m)" using assms(2) by (rule on_mgrE)
  have "shifts gs {} (mgr u) m"
    using release_shifts [OF m] assms(3) shifts_mono [of "{gen}" "{}" _ _ gs "{}"] by simp
  from on_mgr_moves [OF assms(1,2) m this drain_step.release [OF m [unfolded mgr_def]]] show ?thesis by simp
qed

lemma drain_release_moves:
  assumes "upd_ok cfg U u" "bystanders (in_others i)" "drain_release_call i gen u = (ok, v)" "gen \<in> gs"
  shows "moves cfg U gs {} u v \<and> up_co v = up_co u"
proof -
  note o = others_moves [OF assms(1,2), of gs]
  from release_moves [OF moves_ok0 [OF o [THEN conjunct1]] assms(3) [unfolded drain_release_call_def] assms(4)] o
  show ?thesis using moves_trans0 by auto
qed

lemma renew_moves:
  assumes "upd_ok cfg U u" "on_mgr (renew gen lease now) u = (ok, v)"
  shows "moves cfg U gs {} u v \<and> up_co v = up_co u"
proof -
  obtain m where m: "renew gen lease now (mgr u) = (ok, m)" using assms(2) by (rule on_mgrE)
  have "shifts gs {} (mgr u) m" using renew_shifts [OF m] by (rule shifts_mono) auto
  from on_mgr_moves [OF assms m this drain_step.renew [OF m [unfolded mgr_def]]] show ?thesis by simp
qed

lemma take_ownership_moves:
  assumes "upd_ok cfg U u" "on_mgr (take_ownership gen) u = (ok, v)" "working_on gen (mgr u) \<longrightarrow> dm_state (mgr u) = Ready"
  shows "moves cfg U gs {} u v \<and> up_co v = up_co u \<and> (ok \<longrightarrow> owns gen (mgr v))"
proof -
  obtain m where m: "take_ownership gen (mgr u) = (ok, m)" using assms(2) by (rule on_mgrE)
  have "shifts gs {} (mgr u) m" using take_ownership_shifts [OF m assms(3)] by (rule shifts_mono) auto
  moreover have "owns gen m" if ok
  proof -
    from m that have "gen \<noteq> ''''" by (auto simp: take_ownership_def split: if_splits)
    with m that show ?thesis by (cases rule: take_ownershipE) (simp_all add: owns_def)
  qed
  ultimately show ?thesis
    using on_mgr_moves [OF assms(1,2) m _ drain_step.take_ownership [OF m [unfolded mgr_def]], of gs "{}"] by simp
qed

lemma give_up_drain_moves:
  assumes "upd_ok cfg U u" "bystanders (in_others i)" "give_up_drain i gen u = (ok, v)" "gen \<in> gs"
  shows "moves cfg U gs {} u v \<and> up_co v = up_co u"
proof -
  obtain st u1 where st: "drain_status_call i u = (st, u1)" by (rule prod.exhaust)
  note s = drain_status_moves [OF assms(1) st, of gs]
  show ?thesis
  proof (cases "st_state st = Idle")
    case True with s st assms(3) show ?thesis by (simp add: give_up_drain_def)
  next
    case False
    with st assms(3) have "drain_release_call i gen u1 = (ok, v)" by (simp add: give_up_drain_def)
    with s drain_release_moves [OF moves_ok0 assms(2), of cfg U gs u u1 gen ok v gs] assms(4) moves_trans0
    show ?thesis by auto
  qed
qed

subsection \<open>Sections that settle an operation\<close>

lemma store_moves:
  assumes "upd_ok cfg U u" "save cfg (set_co f u) = (e, v)" "co_fs (f (up_co u)) = co_fs (up_co u)"
    "sound (mgr u) (co_state (f (up_co u))) (co_operation (f (up_co u)))" "co_operation (f (up_co u)) \<in> U"
  shows "moves cfg U gs {} u v \<and> mgr v = mgr u \<and> (\<exists>x. up_co v = (f (up_co u))\<lparr>co_fs := x\<rparr>)"
proof -
  have a: "moves cfg U gs {} u (set_co f u)" by (rule set_co_moves [where f = f, OF assms(1,3,4,5)])
  from save_moves [OF moves_ok0 [OF a] assms(2), of gs] obtain x where
    b: "moves cfg U gs {} (set_co f u) v" "v = set_co (\<lambda>c. c\<lparr>co_fs := x\<rparr>) (set_co f u)" by blast
  from moves_trans0 [OF a b(1)] b(2) show ?thesis by auto
qed

lemma then_set_co:
  assumes "moves cfg U gs {} u v" "co_fs (f (up_co v)) = co_fs (up_co v)"
    "sound (mgr v) (co_state (f (up_co v))) (co_operation (f (up_co v)))" "co_operation (f (up_co v)) \<in> U"
  shows "moves cfg U gs {} u (set_co f v)"
  using moves_trans0 [OF assms(1) set_co_moves [where f = f, OF moves_ok0 [OF assms(1)] assms(2-4)]] .

lemma is_operation_in: "is_operation gen u \<Longrightarrow> upd_ok cfg U u \<Longrightarrow> gen \<in> U"
  by (auto simp: is_operation_def upd_ok_def)

lemma clear_acceptance_simps [simp]:
  "co_fs (clear_acceptance c) = co_fs c" "co_state (clear_acceptance c) = co_state c"
  "co_operation (clear_acceptance c) = co_operation c"
  by (simp_all add: clear_acceptance_def)

lemma upd_empty: "upd_ok cfg U u \<Longrightarrow> '''' \<in> U"
  by (simp add: upd_ok_def)

lemma upd_operation: "upd_ok cfg U u \<Longrightarrow> co_operation (up_co u) \<in> U"
  by (simp add: upd_ok_def)

lemma upd_sound: "upd_ok cfg U u \<Longrightarrow> sound (mgr u) (co_state (up_co u)) (co_operation (up_co u))"
  by (simp add: upd_ok_def)

definition settles :: "string \<Rightarrow> upd \<Rightarrow> string set" where
  "settles gen u = (if is_operation gen u then {gen} else {})"

lemma complete_generation_moves:
  assumes "upd_ok cfg U u" "bystanders (in_others i)" "\<not> busy st" "complete_generation cfg i gen st msg u = (e, v)"
  shows "moves cfg U (settles gen u) {} u v"
proof (cases "is_operation gen u")
  case False with assms show ?thesis by (simp add: complete_generation_def)
next
  case op: True
  then have gs: "settles gen u = {gen}" "gen \<in> settles gen u" by (simp_all add: settles_def)
  obtain ok u1 where g: "give_up_drain i gen u = (ok, u1)" by (rule prod.exhaust)
  have m1: "moves cfg U (settles gen u) {} u u1" "up_co u1 = up_co u"
    using give_up_drain_moves [OF assms(1,2) g gs(2)] by blast+
  note k = moves_ok0 [OF m1(1)]
  show ?thesis
  proof (cases ok)
    case False
    with op g assms(4) have "v = set_co (\<lambda>c. c\<lparr>co_error := ''failed to durably release update drain''\<rparr>) u1"
      by (simp add: complete_generation_def plain_error_def)
    then show ?thesis using m1 upd_sound [OF k] upd_operation [OF k] by (auto intro!: then_set_co)
  next
    case True
    obtain x u2 where s: "save cfg (set_co (\<lambda>c. clear_acceptance (c\<lparr>co_operation := '''', co_state := st, co_error := msg\<rparr>)) u1) = (x, u2)"
      by (rule prod.exhaust)
    note m2 = store_moves [OF k s, of "settles gen u"]
    with assms(3) upd_empty [OF k] have m: "moves cfg U (settles gen u) {} u u2"
      by (auto intro: moves_trans0 [OF m1(1)])
    show ?thesis
    proof (cases x)
      case None with op g True s m assms(4) show ?thesis by (simp add: complete_generation_def)
    next
      case (Some y)
      with op g True s assms(4) have "v = set_co (\<lambda>c. c\<lparr>co_operation := gen, co_state := StateWaitingForIdle,
          co_error := ''persist terminal update state: '' @ ue_text y\<rparr>) u2"
        by (simp add: complete_generation_def)
      then show ?thesis using m is_operation_in [OF op assms(1)] by (auto intro!: then_set_co)
    qed
  qed
qed

lemma persist_operation_moves:
  assumes "upd_ok cfg U u" "sound (mgr u) st gen" "persist_operation_state cfg gen st msg u = (e, v)"
  shows "moves cfg U gs {} u v \<and> mgr v = mgr u"
proof (cases "is_operation gen u")
  case False with assms show ?thesis by (simp add: persist_operation_state_def)
next
  case op: True
  let ?f = "\<lambda>c. c\<lparr>co_state := st, co_error := msg\<rparr>"
  obtain x u1 where s: "save cfg (set_co ?f u) = (x, u1)" by (rule prod.exhaust)
  have m: "moves cfg U gs {} u u1" "mgr u1 = mgr u" "co_operation (up_co u1) = gen"
    using store_moves [OF assms(1) s, of gs] op assms(2) is_operation_in [OF op assms(1)]
    by (auto simp: is_operation_def)
  show ?thesis
  proof (cases x)
    case None with op s m assms(3) show ?thesis by (simp add: persist_operation_state_def)
  next
    case (Some y)
    with op s assms(3) have "v = set_co (\<lambda>c. c\<lparr>co_state := StateFailed, co_error := ''persist update transition: '' @ ue_text y\<rparr>) u1"
      by (simp add: persist_operation_state_def)
    then show ?thesis using m is_operation_in [OF op assms(1)] by (auto intro!: then_set_co)
  qed
qed

lemma set_state_moves:
  assumes "upd_ok cfg U u" "\<not> busy st"
  shows "moves cfg U gs {} u (set_state cfg st msg u)"
proof -
  obtain x u1 where s: "save cfg (set_co (\<lambda>c. c\<lparr>co_state := st, co_error := msg\<rparr>) u) = (x, u1)" by (rule prod.exhaust)
  have m: "moves cfg U gs {} u u1" "co_operation (up_co u1) = co_operation (up_co u)"
    using store_moves [OF assms(1) s, of gs] assms(2) upd_operation [OF assms(1)] by auto
  with s upd_operation [OF assms(1)] show ?thesis
    by (auto simp: set_state_def intro!: then_set_co split: option.split)
qed

text \<open>The part the loops share: the drain is let go of unless it is idle or another operation's.\<close>

lemma let_go_moves:
  assumes "upd_ok cfg U u" "bystanders (in_others i)" "gen \<in> gs"
    "(if st_state st = Idle then (True, u) else if st_generation st \<noteq> gen then (False, u) else drain_release_call i gen u) = (ok, v)"
  shows "moves cfg U gs {} u v \<and> up_co v = up_co u"
  using assms drain_release_moves [OF assms(1,2), of gen ok v gs] by (auto split: if_splits)

lemma supervise_turn_moves:
  assumes "upd_ok cfg U u" "bystanders (in_others i)" "supervise_turn cfg i gen msg u = (b, v)" "gen \<in> gs"
  shows "moves cfg U gs {} u v"
proof (cases "is_operation gen u")
  case False with assms show ?thesis by (simp add: supervise_turn_def)
next
  case op: True
  note U = is_operation_in [OF op assms(1)]
  obtain st u1 where g: "drain_status_call i u = (st, u1)" by (rule prod.exhaust)
  note m1 = drain_status_moves [OF assms(1) g, of gs]
  let ?l = "if st_state st = Idle then (True, u1) else if st_generation st \<noteq> gen then (False, u1) else drain_release_call i gen u1"
  obtain ok u2 where l: "?l = (ok, u2)" by (rule prod.exhaust)
  from let_go_moves [OF moves_ok0 [OF m1 [THEN conjunct1]] assms(2,4) l] m1
  have m2: "moves cfg U gs {} u u2" "co_operation (up_co u2) = gen"
    using op by (auto intro: moves_trans0 simp: is_operation_def)
  show ?thesis
  proof (cases ok)
    case False
    with op g l assms(3) have "v = set_co (\<lambda>c. c\<lparr>co_state := StateWaitingForIdle, co_error := msg\<rparr>) u2"
      by (simp add: supervise_turn_def del: if_split)
    with m2 U show ?thesis by (auto intro!: then_set_co)
  next
    case True
    obtain x u3 where s: "save cfg (set_co (\<lambda>c. clear_acceptance (c\<lparr>co_operation := '''', co_state := StateFailed, co_error := msg\<rparr>)) u2) = (x, u3)"
      by (rule prod.exhaust)
    note k = moves_ok0 [OF m2(1)]
    have m3: "moves cfg U gs {} u u3"
      using store_moves [OF k s, of gs] upd_empty [OF k] by (auto intro: moves_trans0 [OF m2(1)])
    show ?thesis
    proof (cases x)
      case None with op g l True s m3 assms(3) show ?thesis by (simp add: supervise_turn_def del: if_split)
    next
      case (Some y)
      with op g l True s assms(3) have "v = set_co (\<lambda>c. c\<lparr>co_operation := gen, co_state := StateWaitingForIdle,
          co_error := msg @ ''; persist cleanup: '' @ ue_text y\<rparr>) u3"
        by (simp add: supervise_turn_def del: if_split)
      with m3 U show ?thesis by (auto intro!: then_set_co)
    qed
  qed
qed

lemma reset_turn_moves:
  assumes "upd_ok cfg U u" "bystanders (in_others i)" "reset_turn cfg i gen cause u = (b, v)" "gen \<in> gs"
  shows "moves cfg U gs {} u v"
proof (cases "\<not> co_accepted (up_co u) \<or> (co_operation (up_co u) \<noteq> '''' \<and> co_operation (up_co u) \<noteq> gen)")
  case True with assms show ?thesis by (simp add: reset_turn_def Let_def)
next
  case c: False
  obtain st u1 where g: "drain_status_call i u = (st, u1)" by (rule prod.exhaust)
  note m1 = drain_status_moves [OF assms(1) g, of gs]
  let ?l = "if st_state st = Idle then (True, u1) else if st_generation st \<noteq> gen then (False, u1) else drain_release_call i gen u1"
  obtain ok u2 where l: "?l = (ok, u2)" by (rule prod.exhaust)
  from let_go_moves [OF moves_ok0 [OF m1 [THEN conjunct1]] assms(2,4) l] m1
  have m2: "moves cfg U gs {} u u2" by (auto intro: moves_trans0)
  note k = moves_ok0 [OF m2]
  show ?thesis
  proof (cases ok)
    case False
    with g l assms(3) [unfolded reset_turn_def Let_def if_not_P [OF c]] have "v = set_co (\<lambda>c. c\<lparr>co_error := ''release accepted update drain after handoff persistence failure''\<rparr>) u2"
      by (simp del: if_split)
    with m2 upd_sound [OF k] upd_operation [OF k] show ?thesis by (auto intro!: then_set_co)
  next
    case True
    obtain x u3 where s: "save cfg (set_co (\<lambda>c. c\<lparr>co_state := StateAvailable, co_error := cause, co_operation := ''''\<rparr>) u2) = (x, u3)"
      by (rule prod.exhaust)
    have "moves cfg U gs {} u u3"
      using store_moves [OF k s, of gs] upd_empty [OF k] by (auto intro: moves_trans0 [OF m2])
    moreover have "v = u3"
      using g l True s assms(3) [unfolded reset_turn_def Let_def if_not_P [OF c]] by (cases x) (simp_all del: if_split)
    ultimately show ?thesis by simp
  qed
qed

subsection \<open>Sections that accept, check and withdraw\<close>

text \<open>A section that stores a change of the other fields, and takes it out of the memory again if that fails.\<close>

lemma store_same:
  assumes "upd_ok cfg U u" "save cfg (set_co f u) = (e, v)" "\<And>c. co_fs (f c) = co_fs c"
    "\<And>c. co_state (f c) = co_state c \<or> \<not> busy (co_state (f c))" "\<And>c. co_operation (f c) = co_operation c"
  shows "moves cfg U gs {} u v \<and> mgr v = mgr u \<and> co_operation (up_co v) = co_operation (up_co u) \<and>
    co_state (up_co v) = co_state (f (up_co u))"
proof -
  have "sound (mgr u) (co_state (f (up_co u))) (co_operation (f (up_co u)))"
    using upd_sound [OF assms(1)] assms(4) [of "up_co u"] assms(5) by auto
  from store_moves [OF assms(1,2,3) this, of gs] assms(5) upd_operation [OF assms(1)] show ?thesis by auto
qed

lemma set_co_same:
  assumes "moves cfg U gs {} u v" "\<And>c. co_fs (f c) = co_fs c" "\<And>c. co_operation (f c) = co_operation c"
    "co_state (f (up_co v)) = co_state (up_co v) \<or> \<not> busy (co_state (f (up_co v)))"
  shows "moves cfg U gs {} u (set_co f v)"
proof (rule then_set_co [where f = f, OF assms(1) assms(2)])
  note k = moves_ok0 [OF assms(1)]
  show "sound (mgr v) (co_state (f (up_co v))) (co_operation (f (up_co v)))"
    using upd_sound [OF k] assms(4) assms(3) by auto
  show "co_operation (f (up_co v)) \<in> U" using upd_operation [OF k] assms(3) by simp
qed

lemma accept_update_moves:
  assumes "upd_ok cfg U u" "accept_update cfg i lease u = (r, v)"
  shows "moves cfg U gs {} u v"
proof (cases "co_accepted (up_co u) \<or> lease \<le> 0")
  case True with assms show ?thesis by (cases "co_accepted (up_co u)") (simp_all add: accept_update_def Let_def)
next
  case False
  obtain st u1 where g: "drain_status_call i u = (st, u1)" by (rule prod.exhaust)
  have m1: "moves cfg U gs {} u u1" using drain_status_moves [OF assms(1) g] by blast
  obtain x u2 where s: "save cfg (set_co (\<lambda>c. c\<lparr>co_accepted := True, co_lease := lease\<rparr>) u1) = (x, u2)" by (rule prod.exhaust)
  have m2: "moves cfg U gs {} u1 u2" using store_same [OF moves_ok0 [OF m1] s] by simp
  have m3: "moves cfg U gs {} u u2" "moves cfg U gs {} u (set_co clear_acceptance u2)"
    using moves_trans0 [OF m1 m2] by (auto intro: set_co_same)
  from False assms(2) have "v = u1 \<or> v = u2 \<or> v = set_co clear_acceptance u2"
    unfolding accept_update_def Let_def g prod.case s by (auto split: if_splits option.splits)
  with m1 m3 show ?thesis by auto
qed

lemma settle_turn_moves:
  assumes "upd_ok cfg U u" "settle_turn cfg cause u = (b, v)"
  shows "moves cfg U gs {} u v"
proof -
  obtain x u1 where s: "save cfg (set_co (\<lambda>c. clear_acceptance (c\<lparr>co_state := StateFailed, co_error := cause\<rparr>)) u) = (x, u1)"
    by (rule prod.exhaust)
  have m: "moves cfg U gs {} u u1" using store_same [OF assms(1) s] by simp
  have "moves cfg U gs {} u (set_co (\<lambda>c. c\<lparr>co_accepted := True, co_lease := l, co_error := t\<rparr>) u1)" for l t
    by (rule set_co_same [OF m]) simp_all
  with m assms show ?thesis by (auto simp: settle_turn_def Let_def s split: if_splits option.splits)
qed

lemma withdraw_moves:
  assumes "upd_ok cfg U u" "withdraw_acceptance cfg seen u = (e, v)"
  shows "moves cfg U gs {} u v"
proof (cases "co_accepted (up_co u) \<and> co_operation (up_co u) = '''' \<and> (co_state (up_co u) = StateAvailable \<or> co_state (up_co u) = StateFailed)")
  case False with assms show ?thesis by (simp add: withdraw_acceptance_def Let_def split: if_splits)
next
  case c: True
  obtain x u1 where s: "save cfg (set_co (\<lambda>c. clear_acceptance (c\<lparr>co_state := StateIdle, co_error := ''''\<rparr>)) u) = (x, u1)"
    by (rule prod.exhaust)
  have m: "moves cfg U gs {} u u1" using store_same [OF assms(1) s] by simp
  have "moves cfg U gs {} u (set_co (\<lambda>c. c\<lparr>co_state := co_state (up_co u), co_error := t, co_accepted := True, co_lease := l\<rparr>) u1)" for l t
    by (rule set_co_same [OF m]) (use c in auto)
  with m assms(2) [unfolded withdraw_acceptance_def Let_def if_P [OF c] s prod.case] show ?thesis by (auto split: option.splits)
qed

lemma cleanup_moves:
  assumes "upd_ok cfg U u"
  shows "moves cfg U gs {} u (snd (begin_cleanup gen u))" "moves cfg U gs {} u (end_cleanup gen u)"
    "mgr (end_cleanup gen u) = mgr u"
  using assms by (auto simp: begin_cleanup_def end_cleanup_def intro!: set_co_same split: if_splits)

lemma begin_check_moves:
  assumes "upd_ok cfg U u" "begin_check cfg u = (b, v)"
  shows "moves cfg U gs {} u v"
proof (cases "\<not> visible cfg u \<or> is_transition_state (co_state (up_co u)) \<or> co_accepted (up_co u)")
  case True with assms show ?thesis by (simp add: begin_check_def Let_def)
next
  case False
  then have nb: "\<not> busy (co_state (up_co u))" by (auto simp: is_transition_state_def busy_def)
  obtain x u1 where s: "save cfg (set_co (\<lambda>c. c\<lparr>co_state := StateChecking, co_error := ''''\<rparr>) u) = (x, u1)"
    by (rule prod.exhaust)
  have m: "moves cfg U gs {} u u1" using store_same [OF assms(1) s] by simp
  have "moves cfg U gs {} u (set_co (\<lambda>c. c\<lparr>co_state := co_state (up_co u), co_error := t\<rparr>) u1)" for t
    by (rule set_co_same [OF m]) (use nb in simp_all)
  with m assms(2) [unfolded begin_check_def Let_def if_not_P [OF False] s prod.case] show ?thesis by (auto split: option.splits)
qed

lemma begin_stage_moves:
  assumes "upd_ok cfg U u" "begin_stage cfg i u = (r, v)"
  shows "moves cfg U gs {} u v"
proof (cases "co_state (up_co u) \<noteq> StateAvailable \<and> co_state (up_co u) \<noteq> StateFailed")
  case True with assms show ?thesis by (simp add: begin_stage_def Let_def)
next
  case False
  then have nb: "\<not> busy (co_state (up_co u))" by auto
  obtain x u1 where s: "save cfg (set_co (\<lambda>c. c\<lparr>co_state := StateStaging\<rparr>) u) = (x, u1)" by (rule prod.exhaust)
  have m: "moves cfg U gs {} u u1" using store_same [OF assms(1) s] by simp
  have "moves cfg U gs {} u (set_co (\<lambda>c. c\<lparr>co_state := co_state (up_co u)\<rparr>) u1)"
    by (rule set_co_same [OF m]) (use nb in simp_all)
  moreover have "moves cfg U gs {} u (set_co (\<lambda>c. c\<lparr>co_state := StateFailed, co_error := t\<rparr>) u)" for t
    by (rule set_co_same [OF moves_refl [OF assms(1)]]) simp_all
  ultimately show ?thesis
    using m assms unfolding begin_stage_def Let_def s prod.case by (auto split: option.splits if_splits)
qed

lemma end_stage_moves:
  assumes "upd_ok cfg U u"
  shows "moves cfg U gs {} u (end_stage cfg x u)"
proof (cases x)
  case None with set_state_moves [OF assms] show ?thesis by (simp add: end_stage_def)
next
  case (Some r)
  show ?thesis
  proof (cases r)
    case (Inl e) with Some set_state_moves [OF assms] show ?thesis by (simp add: end_stage_def)
  next
    case (Inr s)
    obtain e u1 where w: "save cfg (set_co (\<lambda>c. c\<lparr>co_staged := Some s, co_state := StateAvailable, co_error := ''''\<rparr>) u) = (e, u1)"
      by (rule prod.exhaust)
    have m: "moves cfg U gs {} u u1" using store_same [OF assms w] by simp
    have "moves cfg U gs {} u (set_co (\<lambda>c. c\<lparr>co_state := StateFailed, co_error := t\<rparr>) u1)" for t
      by (rule set_co_same [OF m]) simp_all
    with m show ?thesis by (simp add: end_stage_def Some Inr w split: option.split)
  qed
qed

lemma found_release_simps [simp]:
  "co_fs (found_release cfg i k c) = co_fs c" "co_operation (found_release cfg i k c) = co_operation c"
  by (simp_all add: found_release_def split: option.split)

lemma end_check_moves:
  assumes "upd_ok cfg U u" "end_check cfg i k u = (b, v)"
  shows "moves cfg U gs {} u v"
proof (cases "co_state (up_co u) \<noteq> StateChecking")
  case True with assms show ?thesis by (simp add: end_check_def)
next
  case False
  let ?f = "\<lambda>c. let c1 = found_release cfg i k c in c1\<lparr>co_state := (if co_release c1 = None then StateIdle else StateAvailable)\<rparr>"
  have "moves cfg U gs {} u (snd (save cfg (set_co (\<lambda>c. c\<lparr>co_state := StateFailed, co_error := t\<rparr>) u)))" for t
  proof -
    obtain y w where w: "save cfg (set_co (\<lambda>c. c\<lparr>co_state := StateFailed, co_error := t\<rparr>) u) = (y, w)" by (rule prod.exhaust)
    from store_same [OF assms(1) this] w show ?thesis by simp
  qed
  moreover obtain x u1 where s: "save cfg (set_co ?f u) = (x, u1)" by (rule prod.exhaust)
  moreover have "moves cfg U gs {} u u1" using store_same [OF assms(1) s] by (simp add: Let_def)
  ultimately show ?thesis
    using assms(2) False by (auto simp: end_check_def Let_def split: option.splits)
qed

lemma check_answered_moves:
  assumes "upd_ok cfg U u" "check_answered cfg i k u = (js, v)"
  shows "moves cfg U gs {} u v"
proof -
  obtain b u1 where e: "end_check cfg i k u = (b, u1)" by (rule prod.exhaust)
  obtain r u2 where s: "begin_stage cfg i u1 = (r, u2)" by (rule prod.exhaust)
  note m1 = end_check_moves [OF assms(1) e, of gs]
  from moves_trans0 [OF m1 begin_stage_moves [OF moves_ok0 [OF m1] s]] m1 assms(2) e s show ?thesis
    by (auto simp: check_answered_def split: bool.splits sum.splits)
qed

subsection \<open>Sections that begin and end a replacement\<close>

lemma begin_drain_generation:
  assumes "begin_drain lease gen now1 now2 a q m = (Inr st, m')"
  shows "st_generation st = gen"
  using assms
proof (cases rule: begin_drainE)
  case (begun st' m2 f)
  have "dm_generation m' = dm_generation m2"
    using begun(6) by (cases rule: status_lockedE) simp_all
  with status_locked_report [OF begun(6)] begun show ?thesis by simp
qed simp_all

lemma begin_apply_moves:
  assumes "upd_ok cfg U u" "in_generation i \<notin> U" "begin_apply cfg i lease u = (r, v)"
  shows "moves cfg U gs {in_generation i} u v \<and>
    (\<forall>g x s k. r = ApplyBegun g x s k \<longrightarrow> g = in_generation i) \<and> (\<forall>g e. r = ApplyUnsaved g e \<longrightarrow> g = in_generation i)"
proof (cases "co_state (up_co u) \<noteq> StateAvailable")
  case True
  then show ?thesis using assms moves_newer [OF moves_refl [OF assms(1)]] by (auto simp: begin_apply_def Let_def)
next
  case av: False
  let ?b = "on_mgr (begin_drain lease (in_generation i) (in_now1 i) (in_now2 i) (sampled (mgr u)) (in_queued i)) u"
  obtain y u1 where b: "?b = (y, u1)" by (rule prod.exhaust)
  then obtain m where m: "begin_drain lease (in_generation i) (in_now1 i) (in_now2 i) (sampled (mgr u)) (in_queued i) (mgr u) = (y, m)"
    by (rule on_mgrE)
  have "shifts gs {in_generation i} (mgr u) m"
    using begin_drain_shifts [OF m] by (rule shifts_mono) auto
  from on_mgr_moves [OF assms(1) b m this drain_step.begin_drain [OF m [unfolded mgr_def]]] assms(2)
  have m1: "moves cfg U gs {in_generation i} u u1" "up_co u1 = up_co u" by auto
  have failed: "moves cfg U gs {in_generation i} u (set_co (\<lambda>c. c\<lparr>co_state := StateFailed, co_error := t\<rparr>) u)" for t
    by (rule moves_newer [of _ _ gs "{}"]) (auto intro: set_co_same [OF moves_refl [OF assms(1)]])
  have same: "moves cfg U gs {in_generation i} u u"
    by (rule moves_newer [of _ _ gs "{}"]) (simp_all add: assms(1))
  show ?thesis
  proof (cases y)
    case (Inl e)
    with b m1 failed same assms(3) av show ?thesis
      by (auto simp: begin_apply_def Let_def split: option.splits if_splits)
  next
    case (Inr st)
    have g: "st_generation st = in_generation i" using begin_drain_generation m Inr by blast
    obtain x u2 where s: "save cfg (set_co (\<lambda>c. c\<lparr>co_state := StateWaitingForIdle, co_error := '''', co_operation := st_generation st\<rparr>) u1) = (x, u2)"
      by (rule prod.exhaust)
    have "moves cfg ({in_generation i} \<union> U) gs {} u1 u2"
      using store_moves [OF moves_ok [OF m1(1)] s, of gs] g by simp
    from moves_trans [OF m1(1) this] have "moves cfg U gs {in_generation i} u u2" by simp
    with b s g m1 failed same assms(3) av Inr show ?thesis
      by (auto simp: begin_apply_def Let_def split: option.splits if_splits)
  qed
qed

text \<open>
  What the job to come relies on, of the drain: that a status read as Ready still stands, and that a
  goroutine which holds its drain owns it. A job that settles an operation never leaves it busy.
\<close>

fun job_ok :: "drain_mgr \<Rightarrow> job \<Rightarrow> bool" where
  "job_ok m (Ticked g r s k st) = (st_state st = Ready \<and> st_generation st = g \<and> working_on g m \<longrightarrow> dm_state m = Ready)"
| "job_ok m (Owning g r s k) = (working_on g m \<longrightarrow> dm_state m = Ready)"
| "job_ok m (Completing c g st msg) = (\<not> busy st)"
| "job_ok m (CancelClosing g st msg) = (\<not> busy st)"
| "job_ok m j = (\<forall>g \<in> set (holding j). owns g m)"

lemma owns_working: "owns g m \<longleftrightarrow> g \<noteq> '''' \<and> working_on g m \<and> dm_owned m"
  by (auto simp: owns_def working_on_def)

lemma holding_minds: "set (holding j) \<subseteq> set (minds j)"
  by (cases j) auto

lemma job_ok_shifts:
  assumes "job_ok m j" "shifts gs new m m'" "set (minds j) \<inter> new = {}" "set (holding j) \<inter> gs = {}"
  shows "job_ok m' j"
proof -
  have kept: "owns g m'" if "owns g m" "g \<in> set (holding j)" for g
    using that shifts_kept [OF assms(2)] assms(4) by (auto simp: owns_working)
  have ready: "working_on g m \<and> (dm_state m = Ready \<longrightarrow> dm_state m' = Ready)"
    if "working_on g m'" "g \<in> set (minds j)" for g
    using that shifts_from [OF assms(2), of g] assms(3) by auto
  show ?thesis
    using assms(1) kept ready by (cases j) auto
qed

subsection \<open>Jobs\<close>

text \<open>
  What a section of a job does: it touches the drain of the operations it minds or settles only, and the
  jobs that come of it rely on what holds; at most one of them minds an operation, the same or a new one.
\<close>

definition touches :: "job \<Rightarrow> upd \<Rightarrow> string set" where
  "touches j u = set (minds j) \<union> (\<Union>g \<in> set (closes j). settles g u)"

definition job_does :: "update_config \<Rightarrow> string set \<Rightarrow> inputs \<Rightarrow> job \<Rightarrow> upd \<Rightarrow> job list \<times> upd \<Rightarrow> bool" where
  "job_does cfg U i j u r \<longleftrightarrow>
     moves cfg U (touches j u) {in_generation i} u (snd r) \<and> (\<forall>k \<in> set (fst r). job_ok (mgr (snd r)) k) \<and>
     concat (map minds (fst r)) \<in> {[], minds j, [in_generation i]}"

lemma job_doesI:
  assumes "moves cfg U gs {} u v" "gs \<subseteq> touches j u" "\<forall>k \<in> set js. job_ok (mgr v) k"
    "concat (map minds js) \<in> {[], minds j}"
  shows "job_does cfg U i j u (js, v)"
  using assms moves_newer [OF assms(1,2), of "{in_generation i}"] by (auto simp: job_does_def)

lemma job_stays:
  assumes "upd_ok cfg U u" "\<forall>k \<in> set js. job_ok (mgr u) k" "concat (map minds js) \<in> {[], minds j}"
  shows "job_does cfg U i j u (js, u)"
  by (rule job_doesI [of _ _ "{}"]) (use assms in simp_all)

lemma tick_decision_does:
  assumes "upd_ok cfg U u" "job_ok (mgr u) (Ticked gen r s keep st)"
    "tick_decision cfg i gen r s keep st accepted u = (js, v)"
  shows "moves cfg U gs {} u v \<and> (\<forall>k \<in> set js. job_ok (mgr v) k) \<and> concat (map minds js) \<in> {[], [gen]}"
proof -
  have p: "moves cfg U gs {} u (snd (persist_operation_state cfg gen StateReady '''' u))"
    using persist_operation_moves [OF assms(1), of StateReady gen "''''"] by (metis busy_simps(6) prod.collapse sound_idle)
  show ?thesis
    using assms p by (auto simp: tick_decision_def split: if_splits option.splits)
qed

lemma tick_does:
  assumes "upd_ok cfg U u" "bystanders (in_others i)" "job_ok (mgr u) (Ticked gen r s keep st)"
    "tick cfg i gen r s keep st u = (js, v)"
  shows "job_does cfg U i (Ticked gen r s keep st) u (js, v)"
proof (cases "renewal_due cfg i gen st u")
  case False
  with assms(4) have "tick_decision cfg i gen r s keep st (co_accepted (up_co u) \<and> co_operation (up_co u) = gen \<and> \<not> uc_manual cfg) u = (js, v)"
    by (simp add: tick_def Let_def)
  from tick_decision_does [OF assms(1,3) this, of "{}"] show ?thesis by (intro job_doesI [of _ _ "{}"]) simp_all
next
  case True
  obtain ok u1 where n: "on_mgr (renew gen (co_lease (up_co u)) (in_now2 i)) (others i u) = (ok, u1)" by (rule prod.exhaust)
  have o: "moves cfg U {} {} u (others i u)" using others_moves [OF assms(1,2)] by blast
  have m: "moves cfg U {} {} u u1" using moves_trans0 [OF o] renew_moves [OF moves_ok0 [OF o] n] by blast
  show ?thesis
  proof (cases ok)
    case False
    with n True assms(4) m show ?thesis by (intro job_doesI [of _ _ "{}"]) (auto simp: tick_def Let_def)
  next
    case ok: True
    have j: "job_ok (mgr u1) (Ticked gen r s keep st)"
      by (rule job_ok_shifts [OF assms(3) moves_shifts [OF m]]) simp_all
    from True n ok assms(4)
    have "tick_decision cfg i gen r s keep st (co_accepted (up_co u) \<and> co_operation (up_co u) = gen \<and> \<not> uc_manual cfg) u1 = (js, v)"
      by (simp add: tick_def Let_def)
    from tick_decision_does [OF moves_ok0 [OF m] j this, of "{}"] moves_trans0 [OF m, of v]
    show ?thesis by (intro job_doesI [of _ _ "{}"]) simp_all
  qed
qed

lemma own_drain_does:
  assumes "upd_ok cfg U u" "bystanders (in_others i)" "job_ok (mgr u) (Owning gen r s keep)"
    "own_drain cfg i gen r s keep u = (js, v)"
  shows "job_does cfg U i (Owning gen r s keep) u (js, v)"
proof -
  obtain taken u1 where t: "on_mgr (take_ownership gen) u = (taken, u1)" by (rule prod.exhaust)
  from take_ownership_moves [OF assms(1) t] assms(3)
  have m1: "moves cfg U {} {} u u1" "taken \<longrightarrow> owns gen (mgr u1)" by auto
  define u2 where "u2 = (if taken then u1 else others i u1)"
  have m2: "moves cfg U {} {} u u2"
    using m1(1) moves_trans0 [OF m1(1)] others_moves [OF moves_ok0 [OF m1(1)] assms(2)] by (simp add: u2_def)
  have o: "taken \<longrightarrow> owns gen (mgr u2)" using m1(2) by (simp add: u2_def)
  from assms(4) have "v = u2 \<and> (js = [Waiting gen r s keep] \<or> js = [Completing False gen StateFailed ''restart-validating installer cannot request shutdown''] \<or>
      (js = [Recording gen r s] \<and> owns gen (mgr u2)))"
    using o by (auto simp: own_drain_def t Let_def u2_def split: if_splits)
  with m2 show ?thesis by (intro job_doesI [of _ _ "{}"]) auto
qed

lemma record_does:
  assumes "upd_ok cfg U u" "owns gen (mgr u)" "record_transition cfg gen r s u = (js, v)"
  shows "job_does cfg U i (Recording gen r s) u (js, v)"
proof -
  let ?st = "if restarts cfg then StateRestarting else StateApplying"
  obtain e u1 where p: "persist_operation_state cfg gen ?st '''' u = (e, u1)" by (rule prod.exhaust)
  have "sound (mgr u) ?st gen" using assms(2) by (auto simp: sound_def owns_def)
  note m = persist_operation_moves [OF assms(1) this p, of "{}"]
  with assms(2,3) p show ?thesis
    by (intro job_doesI [of _ _ "{}"]) (auto simp: record_transition_def split: option.splits)
qed

lemma note_does:
  assumes "upd_ok cfg U u" "owns gen (mgr u)" "note_state cfg i gen st msg after r s u = (js, v)"
  shows "job_does cfg U i (Noting gen st msg after r s) u (js, v)"
proof -
  obtain e u1 where p: "persist_operation_state cfg gen st msg u = (e, u1)" by (rule prod.exhaust)
  have "sound (mgr u) st gen" using assms(2) by (auto simp: sound_def owns_def)
  note m = persist_operation_moves [OF assms(1) this p, of "{}"]
  with assms(2,3) p show ?thesis
    by (intro job_doesI [of _ _ "{}"]) (auto simp: note_state_def split: option.splits afterwards.splits if_splits)
qed

lemma complete_does:
  assumes "upd_ok cfg U u" "bystanders (in_others i)" "\<not> busy st" "complete_turn cfg i c gen st msg u = (js, v)"
  shows "job_does cfg U i (Completing c gen st msg) u (js, v)"
proof -
  obtain e u1 where p: "complete_generation cfg i gen st msg u = (e, u1)" by (rule prod.exhaust)
  note m = complete_generation_moves [OF assms(1-3) p]
  have "settles gen u \<subseteq> touches (Completing c gen st msg) u"
    by (auto simp: touches_def settles_def)
  with m assms(3,4) p show ?thesis
    by (intro job_doesI [of _ _ "settles gen u"]) (auto simp: complete_turn_def split: option.splits if_splits)
qed

lemma close_does:
  assumes "upd_ok cfg U u" "bystanders (in_others i)" "\<not> busy st" "close_cancelled cfg i gen st msg u = (js, v)"
  shows "job_does cfg U i (CancelClosing gen st msg) u (js, v)"
proof -
  obtain e u1 where p: "complete_generation cfg i gen st msg u = (e, u1)" by (rule prod.exhaust)
  note m = complete_generation_moves [OF assms(1-3) p]
  with assms(3,4) p show ?thesis
    by (intro job_doesI [of _ _ "settles gen u"]) (auto simp: touches_def close_cancelled_def split: option.splits if_splits)
qed

lemma supervised_error_jobs: "k \<in> set (supervised_error i e) \<Longrightarrow> job_ok m k \<and> minds k = []"
  by (auto simp: supervised_error_def split: if_splits)

lemma supervised_error_minds: "concat (map minds (supervised_error i e)) = []"
  by (simp add: supervised_error_def)

lemma supervised_apply_does:
  assumes "upd_ok cfg U u" "bystanders (in_others i)" "in_generation i \<notin> U" "supervised_apply cfg i lease u = (js, v)"
  shows "job_does cfg U i (SuperApply lease) u (js, v)"
proof -
  obtain r u1 where b: "begin_apply cfg i lease u = (r, u1)" by (rule prod.exhaust)
  note m1 = begin_apply_moves [OF assms(1,3) b, of "{}"]
  show ?thesis
  proof (cases r)
    case (ApplyRefused e)
    with assms(4) b m1 supervised_error_jobs [of _ i e] supervised_error_minds [of i e] show ?thesis
      by (auto simp: supervised_apply_def job_does_def touches_def)
  next
    case (ApplyBegun g x s k)
    with assms(4) b m1 show ?thesis by (auto simp: supervised_apply_def job_does_def touches_def)
  next
    case (ApplyUnsaved g e)
    with m1 have g: "g = in_generation i" by simp
    show ?thesis
    proof (cases "co_accepted (up_co u)")
      case True
      with assms(4) b m1 ApplyUnsaved show ?thesis by (auto simp: supervised_apply_def job_does_def touches_def)
    next
      case False
      obtain y u2 where c: "complete_generation cfg i g StateAvailable '''' u1 = (y, u2)" by (rule prod.exhaust)
      have ok: "upd_ok cfg ({in_generation i} \<union> U) u1" using m1 moves_ok by blast
      have "moves cfg ({in_generation i} \<union> U) {in_generation i} {} u1 u2"
        by (rule moves_wider [OF complete_generation_moves [OF ok assms(2) _ c]]) (auto simp: settles_def g)
      from moves_trans [OF m1 [THEN conjunct1] this] have t: "moves cfg U {in_generation i} {in_generation i} u u2" by simp
      have "moves cfg U {} {in_generation i} u u2"
        using t assms(1,3) by (auto simp: moves_def shifts_def upd_ok_def working_on_def)
      with assms(4) b c ApplyUnsaved False g supervised_error_jobs supervised_error_minds show ?thesis
        by (auto simp: supervised_apply_def job_does_def touches_def split: option.splits)
    qed
  qed
qed

lemma supervised_reset_does:
  assumes "upd_ok cfg U u" "bystanders (in_others i)" "supervised_reset cfg i gen e u = (js, v)"
  shows "job_does cfg U i (SuperResetting gen e) u (js, v)"
proof -
  obtain b u1 where r: "reset_turn cfg i gen (ue_text e) u = (b, u1)" by (rule prod.exhaust)
  note m = reset_turn_moves [OF assms(1,2) r, of "{gen}"]
  with assms(3) r supervised_error_jobs supervised_error_minds show ?thesis
    by (intro job_doesI [of _ _ "{gen}"]) (auto simp: supervised_reset_def touches_def split: bool.splits if_splits)
qed

lemma recover_dead_settled: "recover_dead_packaged_update_helper cfg ev l h = ReconcileSettled st msg \<Longrightarrow> \<not> busy st"
  by (auto simp: recover_dead_packaged_update_helper_def settle_outcome_def start_recovery_helper_def Let_def
      split: if_splits option.splits bool.splits)

lemma reconcile_settled: "reconcile_outcome cfg ev l = ReconcileSettled st msg \<Longrightarrow> \<not> busy st"
  using recover_dead_settled [of cfg ev l]
  by (auto simp: reconcile_outcome_def reconcile_missing_def Let_def split: sum.splits fs_error.splits if_splits)

lemma job_run_does:
  assumes "upd_ok cfg U u" "bystanders (in_others i)" "in_generation i \<notin> U" "job_ok (mgr u) j"
  shows "job_does cfg U i j u (job_run cfg i j u)"
proof (cases j)
  case (Waiting gen r s keep)
  obtain st v where g: "drain_status_call i u = (st, v)" by (rule prod.exhaust)
  from drain_status_moves [OF assms(1) g, of "{}"] show ?thesis
    unfolding Waiting by (cases "in_done i") (auto intro!: job_stays job_doesI [of _ _ "{}"] simp: assms(1) g)
next
  case (Ticked gen r s keep st)
  then show ?thesis using tick_does [OF assms(1,2)] assms(4) by (metis job_run.simps(2) prod.collapse)
next
  case (Owning gen r s keep)
  then show ?thesis using own_drain_does [OF assms(1,2)] assms(4) by (metis job_run.simps(3) prod.collapse)
next
  case (Recording gen r s)
  then show ?thesis using record_does [OF assms(1)] assms(4) by (cases "record_transition cfg gen r s u") simp
next
  case (Applying gen r s)
  then show ?thesis using assms(1,4)
    by (auto simp: applied_def roll_back_def intro!: job_stays split: option.split)
next
  case (Noting gen st msg after r s)
  then show ?thesis using note_does [OF assms(1)] assms(4) by (cases "note_state cfg i gen st msg after r s u") simp
next
  case (Validating gen r s)
  then show ?thesis using assms(1,4) by (auto simp: roll_back_def intro!: job_stays split: option.split)
next
  case (RollingBack gen r s cause)
  then show ?thesis using assms(1,4) by (auto intro!: job_stays split: option.split)
next
  case (Resuming gen r s)
  then show ?thesis using assms(1,4) by (auto intro!: job_stays)
next
  case (Resumed gen r s)
  then show ?thesis using assms(1,4) by (auto simp: resumed_def roll_back_def intro!: job_stays split: option.split)
next
  case (Reconciling gen l)
  then show ?thesis using assms(1,4) reconcile_settled
    by (auto simp: reconcile_turn_def intro!: job_stays split: reconciliation.split)
next
  case (Completing c gen st msg)
  then show ?thesis using complete_does [OF assms(1,2)] assms(4) by (cases "complete_turn cfg i c gen st msg u") simp
next
  case (Cleaning gen m)
  then show ?thesis using cleanup_moves(1) [OF assms(1), of "{}" gen]
    by (cases "begin_cleanup gen u") (auto intro!: job_doesI [of _ _ "{}"])
next
  case (Supervising gen m)
  obtain b v where s: "supervise_turn cfg i gen m u = (b, v)" by (rule prod.exhaust)
  have mv: "moves cfg U {gen} {} u v" by (rule supervise_turn_moves [OF assms(1,2) s]) simp
  with cleanup_moves(2) [OF moves_ok0 [OF mv], of "{gen}" gen] moves_trans0 [OF mv] s Supervising show ?thesis
    by (cases b) (auto intro!: job_doesI [of _ _ "{gen}"] simp: touches_def)
next
  case (Resetting gen c)
  obtain b v where s: "reset_turn cfg i gen c u = (b, v)" by (rule prod.exhaust)
  have "moves cfg U {gen} {} u v" by (rule reset_turn_moves [OF assms(1,2) s]) simp
  with s Resetting show ?thesis by (auto intro!: job_doesI [of _ _ "{gen}"] simp: touches_def)
next
  case StartSuper
  then show ?thesis using assms(1)
    by (auto simp: start_accepted_update_supervisor_def intro!: job_stays job_doesI [of _ _ "{}"] set_co_same)
next
  case (SuperContinue lease)
  then show ?thesis using assms(1) supervised_error_jobs supervised_error_minds by (auto intro!: job_stays)
next
  case (SuperApply lease)
  then show ?thesis using supervised_apply_does [OF assms(1-3)] by (cases "supervised_apply cfg i lease u") simp
next
  case (SuperResetting gen e)
  then show ?thesis using supervised_reset_does [OF assms(1,2)] by (cases "supervised_reset cfg i gen e u") simp
next
  case (Settling c)
  obtain b v where s: "settle_turn cfg c u = (b, v)" by (rule prod.exhaust)
  with settle_turn_moves [OF assms(1) s, of "{}"] Settling show ?thesis by (auto intro!: job_doesI [of _ _ "{}"])
next
  case SuperEnd
  then show ?thesis using assms(1) by (auto simp: end_supervisor_def intro!: job_doesI [of _ _ "{}"] set_co_same)
next
  case (CancelSeen seen gen)
  obtain e v where w: "withdraw_acceptance cfg seen u = (e, v)" by (rule prod.exhaust)
  with withdraw_moves [OF assms(1) w, of "{}"] CancelSeen assms(1) show ?thesis
    by (auto simp: cancel_decision_def intro!: job_stays job_doesI [of _ _ "{}"])
next
  case (CancelClosing gen st m)
  then show ?thesis using close_does [OF assms(1,2)] assms(4) by (cases "close_cancelled cfg i gen st m u") simp
next
  case Checks
  obtain b v where w: "begin_check cfg u = (b, v)" by (rule prod.exhaust)
  with begin_check_moves [OF assms(1) w, of "{}"] Checks show ?thesis by (auto intro!: job_doesI [of _ _ "{}"])
next
  case CheckAsking
  obtain js v where w: "check_answered cfg i (in_check i) u = (js, v)" by (rule prod.exhaust)
  have "js = [Checks] \<or> (\<exists>r. js = [CheckStaging r])"
    using w by (auto simp: check_answered_def split: prod.splits bool.splits sum.splits)
  with check_answered_moves [OF assms(1) w, of "{}"] w CheckAsking show ?thesis by (auto intro!: job_doesI [of _ _ "{}"])
next
  case (CheckStaging r)
  then show ?thesis using end_stage_moves [OF assms(1)] by (auto intro!: job_doesI [of _ _ "{}"])
qed (use assms(1) in \<open>auto intro!: job_stays split: option.split\<close>)

end
