(* ===== verification/UpdateSafety.thy ===== *)
theory UpdateSafety
  imports UpdateLaws
begin

section \<open>A replacement runs under its drain\<close>

text \<open>
  The invariant of the updater, over goroutines in any order and any number of processes, as long as no
  cancellation crosses an operation: \<open>sys_ok\<close> of a running process, \<open>files_ok\<close> of the files of one that
  has ended.
\<close>

subsection \<open>A running process\<close>

definition gens :: "update_sys \<Rightarrow> string set" where
  "gens s = insert '''' (set (us_used s))"

definition sys_ok :: "string \<Rightarrow> string \<Rightarrow> update_sys \<Rightarrow> bool" where
  "sys_ok dpath cpath s \<longleftrightarrow>
     upd_ok (us_config s) (gens s) (us_upd s) \<and> uc_path (us_config s) = cpath \<and>
     dm_persistence (mgr (us_upd s)) = dpath \<and> \<not> dm_windows (mgr (us_upd s)) \<and>
     distinct (concat (map minds (us_jobs s))) \<and> set (concat (map minds (us_jobs s))) \<subseteq> set (us_used s) \<and>
     (\<forall>j \<in> set (us_jobs s). job_ok (mgr (us_upd s)) j)"

lemma shifts_frame: "shifts gs new m m' \<Longrightarrow> dm_persistence m' = dm_persistence m \<and> dm_windows m' = dm_windows m"
  by (simp add: shifts_def)

lemma distinct_replaced:
  assumes "distinct (as @ b @ cs)" "set (as @ b @ cs) \<subseteq> A" "b' \<in> {[], b, [g]}" "g \<notin> A"
  shows "distinct (as @ b' @ cs) \<and> set (as @ b' @ cs) \<subseteq> insert g A"
  using assms by auto

lemma minds_replaced:
  assumes "distinct (concat (map minds (xs @ j # ys)))" "set (concat (map minds (xs @ j # ys))) \<subseteq> A"
    "concat (map minds js) \<in> {[], minds j, [g]}" "g \<notin> A"
  shows "distinct (concat (map minds (xs @ js @ ys))) \<and> set (concat (map minds (xs @ js @ ys))) \<subseteq> insert g A"
  using distinct_replaced [of "concat (map minds xs)" "minds j" "concat (map minds ys)" A "concat (map minds js)" g] assms
  by (simp only: map_append concat_append list.map concat.simps simp_thms)

lemma minds_apart:
  "distinct (concat (map minds (xs @ j # ys))) \<Longrightarrow> k \<in> set (xs @ ys) \<Longrightarrow> set (minds k) \<inter> set (minds j) = {}"
  by auto

lemma run_ok:
  assumes ok: "sys_ok dpath cpath s" and jobs: "us_jobs s = xs @ j # ys" and inputs: "inputs_ok i s"
    and run: "job_run (us_config s) i j (us_upd s) = (js, u)" and calm: "\<not> crosses j (xs @ ys) (us_upd s)"
  shows "sys_ok dpath cpath (s\<lparr>us_upd := u, us_jobs := xs @ js @ ys, us_used := in_generation i # us_used s,
           us_crossed := c\<rparr>)"
proof -
  let ?m = "mgr (us_upd s)"
  have fresh: "in_generation i \<notin> gens s" using inputs by (simp add: inputs_ok_def gens_def)
  have "job_does (us_config s) (gens s) i j (us_upd s) (js, u)"
    using job_run_does [of "us_config s" "gens s" "us_upd s" i j] ok inputs fresh jobs run
    by (auto simp: sys_ok_def inputs_ok_def)
  then have m: "moves (us_config s) (gens s) (touches j (us_upd s)) {in_generation i} (us_upd s) u"
    and js: "\<forall>k \<in> set js. job_ok (mgr u) k" and one: "concat (map minds js) \<in> {[], minds j, [in_generation i]}"
    by (simp_all add: job_does_def)
  have others: "job_ok (mgr u) k" if k: "k \<in> set (xs @ ys)" for k
  proof (rule job_ok_shifts [OF _ moves_shifts [OF m]])
    show "job_ok ?m k" using ok k jobs by (auto simp: sys_ok_def)
    have "set (minds k) \<subseteq> set (us_used s)" using ok k jobs by (auto simp: sys_ok_def)
    then show "set (minds k) \<inter> {in_generation i} = {}" using fresh by (auto simp: gens_def)
    have "set (minds k) \<inter> set (minds j) = {}" using minds_apart ok k jobs unfolding sys_ok_def by metis
    then show "set (holding k) \<inter> touches j (us_upd s) = {}"
      using holding_minds [of k] calm k by (auto simp: touches_def settles_def crosses_def)
  qed
  have "upd_ok (us_config s) (insert '''' (set (in_generation i # us_used s))) u"
    using moves_ok [OF m] by (simp add: gens_def insert_commute)
  moreover have "distinct (concat (map minds (xs @ js @ ys))) \<and> set (concat (map minds (xs @ js @ ys))) \<subseteq> insert (in_generation i) (set (us_used s))"
    using ok fresh one unfolding jobs sys_ok_def by (intro minds_replaced) (auto simp: gens_def jobs)
  moreover have "dm_persistence (mgr u) = dpath" "\<not> dm_windows (mgr u)"
    using shifts_frame [OF moves_shifts [OF m]] ok by (simp_all add: sys_ok_def)
  ultimately show ?thesis using others js ok by (auto simp: sys_ok_def gens_def)
qed

lemma calm_ok:
  assumes "sys_ok dpath cpath s" "moves (us_config s) (gens s) {} {} (us_upd s) u"
    "concat (map minds js) = []" "\<forall>j \<in> set js. holding j = [] \<and> (\<forall>m. job_ok m j)"
  shows "sys_ok dpath cpath (s\<lparr>us_upd := u, us_jobs := us_jobs s @ js\<rparr>)"
proof -
  have "job_ok (mgr u) k" if "k \<in> set (us_jobs s)" for k
    using that assms(1) by (intro job_ok_shifts [OF _ moves_shifts [OF assms(2)]]) (auto simp: sys_ok_def)
  moreover have "concat (map minds (us_jobs s @ js)) = concat (map minds (us_jobs s))"
    unfolding map_append concat_append assms(3) by simp
  ultimately show ?thesis
    using assms(1,4) moves_ok0 [OF assms(2)] shifts_frame [OF moves_shifts [OF assms(2)]]
    by (auto simp: sys_ok_def gens_def simp del: map_append concat_append set_concat)
qed

lemma update_step_ok:
  assumes "sys_ok dpath cpath s" "update_step s s'" "\<not> us_crossed s'"
  shows "sys_ok dpath cpath s'"
  using assms(2)
proof (cases rule: update_step.cases)
  case (run xs j ys i js u)
  show ?thesis unfolding run(1)
    by (rule run_ok [OF assms(1) run(2,3,4)]) (use assms(3) run(1) in simp)
next
  case (accept i lease r u)
  have "moves (us_config s) (gens s) {} {} (us_upd s) u"
    using accept_update_moves [OF _ accept(3)] assms(1) by (auto simp: sys_ok_def)
  then show ?thesis unfolding accept(1) by (rule calm_ok [OF assms(1)]) auto
next
  case cancel
  have "moves (us_config s) (gens s) {} {} (us_upd s) (us_upd s)" using assms(1) by (simp add: sys_ok_def)
  from calm_ok [OF assms(1) this, of "[Cancelling]"] show ?thesis by (simp add: cancel)
next
  case (look i r u)
  have "drain_status_call i (us_upd s) = (fst (drain_status_call i (us_upd s)), u)"
    using look(3) by (auto simp: snapshot_of_def Let_def split: prod.splits)
  then have "moves (us_config s) (gens s) {} {} (us_upd s) u"
    using drain_status_moves assms(1) unfolding sys_ok_def by blast
  from calm_ok [OF assms(1) this, of "[]"] show ?thesis by (simp add: look(1))
next
  case (bystander d)
  have ok: "upd_ok (us_config s) (gens s) (us_upd s)" using assms(1) by (simp add: sys_ok_def)
  from bystander_shifts [OF upd_settled [OF ok] bystander(2)]
  have "moves (us_config s) (gens s) {} {} (us_upd s) ((us_upd s)\<lparr>up_drain := d\<rparr>)"
    by (intro drain_moves [OF ok]) (simp_all add: mgr_def)
  from calm_ok [OF assms(1) this, of "[]"] show ?thesis by (simp add: bystander(1))
qed

subsection \<open>A process that starts\<close>

text \<open>
  Each part of \<open>SetPersistence\<close> keeps the invariant, as it writes and as it fails; and when it has come
  through, a coordinator in transition works for the operation of the drain.
\<close>

lemma saved_moves:
  assumes "upd_ok cfg U u" "saved (save cfg (set_co f u)) = (r, v)" "co_fs (f (up_co u)) = co_fs (up_co u)"
    "sound (mgr u) (co_state (f (up_co u))) (co_operation (f (up_co u)))" "co_operation (f (up_co u)) \<in> U"
  shows "moves cfg U UNIV {} u v \<and> mgr v = mgr u \<and> co_state (up_co v) = co_state (f (up_co u)) \<and>
    co_operation (up_co v) = co_operation (f (up_co u))"
proof -
  obtain e w where s: "save cfg (set_co f u) = (e, w)" by (rule prod.exhaust)
  with assms(2) have "v = w" by (auto simp: saved_def split: option.splits)
  with store_moves [OF assms(1) s assms(3-5), of UNIV] show ?thesis by auto
qed

lemma boot_cancel_moves:
  assumes "upd_ok cfg U u" "boot_cancel_drain u = (ok, v)"
  shows "moves cfg U UNIV {} u v \<and> up_co v = up_co u"
proof -
  from assms(2) have c: "on_mgr cancel_drain u = (ok, v)" by (simp add: boot_cancel_drain_def)
  then obtain m where m: "cancel_drain (mgr u) = (ok, m)" by (rule on_mgrE)
  then have "shifts UNIV {} (mgr u) m" by (intro reset_locked_shifts) (simp_all add: cancel_drain_def)
  from on_mgr_moves [OF assms(1) c m this drain_step.cancel [OF m [unfolded mgr_def]]] show ?thesis by simp
qed

lemma boot_load_ok:
  assumes "upd_ok cfg U u" "boot_load cfg u = (r, v)" "\<not> busy (co_state (up_co u))"
  shows "upd_ok cfg U v \<and> mgr v = mgr u"
proof -
  obtain x f where rd: "os_read_file (uc_path cfg) (co_fs (up_co u)) = (x, f)" by (rule prod.exhaust)
  then have f: "fs_files f = fs_files (co_fs (up_co u))"
    by (auto simp: os_read_file_def split: if_splits option.splits)
  have d: "sound (mgr u) (cd_state d) (cd_operation d) \<and> cd_operation d \<in> U" if "x = Inr (CoordinatorJson d)" for d
  proof -
    from that rd have "fs_files (co_fs (up_co u)) (uc_path cfg) = Some (CoordinatorJson d)"
      by (auto simp: os_read_file_def split: if_splits option.splits)
    with assms(1) show ?thesis by (auto simp: upd_ok_def file_sound_def)
  qed
  have keep: "upd_ok cfg U (set_co (\<lambda>c. c\<lparr>co_fs := f\<rparr>) u)" using assms(1) f by (simp add: upd_ok_def)
  have load: "upd_ok cfg U (set_co (\<lambda>c. load_coordinator_doc e (c\<lparr>co_fs := f\<rparr>)) u)"
    if "sound (mgr u) (cd_state e) (cd_operation e)" "cd_operation e \<in> U" for e
    using assms(1) f that by (simp add: upd_ok_def load_coordinator_doc_def)
  have idle: "upd_ok cfg U (set_co (\<lambda>c. load_coordinator_doc idle_coordinator_doc (c\<lparr>co_fs := f\<rparr>)) u)"
    by (rule load) (simp_all add: idle_coordinator_doc_def upd_empty [OF assms(1)])
  show ?thesis
    using assms(2) keep load d idle
    by (auto simp: boot_load_def rd split: sum.splits fs_error.splits coordinator_file.splits)
qed

lemma void_update_moves:
  assumes "upd_ok cfg U u" "void_update cfg b u = (r, v)"
  shows "moves cfg U UNIV {} u v \<and> (r = BootDone \<longrightarrow> co_state (up_co v) = StateIdle) \<and> r \<noteq> BootOn"
proof -
  let ?f = "\<lambda>c. clear_acceptance (c\<lparr>co_state := StateIdle, co_release := None, co_staged := None, co_error := '''', co_operation := ''''\<rparr>)"
  obtain x w where s: "saved (save cfg (set_co ?f u)) = (x, w)" by (rule prod.exhaust)
  from saved_moves [OF assms(1) s] upd_empty [OF assms(1)] assms(2) s show ?thesis
    by (auto simp: void_update_def boot_then_def saved_def split: prod.splits option.splits boot_result.splits)
qed

lemma boot_reinstalled_moves:
  assumes "upd_ok cfg U u" "boot_reinstalled cfg b u = (r, v)"
  shows "moves cfg U UNIV {} u v \<and> (r = BootDone \<longrightarrow> co_state (up_co v) = StateIdle)"
proof -
  obtain st u1 where g: "drain_status_call (bi_inputs b 0) u = (st, u1)" by (rule prod.exhaust)
  obtain ok u2 where c: "boot_cancel_drain u1 = (ok, u2)" by (rule prod.exhaust)
  have m1: "moves cfg U UNIV {} u u1" using drain_status_moves [OF assms(1) g] by blast
  have m2: "moves cfg U UNIV {} u u2" using boot_cancel_moves [OF moves_ok0 [OF m1] c] moves_trans0 [OF m1] by blast
  have v1: "moves cfg U UNIV {} u v \<and> (r = BootDone \<longrightarrow> co_state (up_co v) = StateIdle)" if "void_update cfg b u1 = (r, v)"
    using void_update_moves [OF moves_ok0 [OF m1] that] moves_trans0 [OF m1] by blast
  have v2: "moves cfg U UNIV {} u v \<and> (r = BootDone \<longrightarrow> co_state (up_co v) = StateIdle)" if "void_update cfg b u2 = (r, v)"
    using void_update_moves [OF moves_ok0 [OF m2] that] moves_trans0 [OF m2] by blast
  show ?thesis
    using assms m1 m2 v1 v2
    by (auto simp: boot_reinstalled_def g c split: option.splits sum.splits bool.splits if_splits)
qed

lemma boot_outdated_moves:
  assumes "upd_ok cfg U u" "boot_outdated cfg b u = (r, v)"
  shows "moves cfg U UNIV {} u v"
proof -
  let ?f = "\<lambda>c. let c1 = clear_acceptance (c\<lparr>co_release := None, co_staged := None\<rparr>)
                 in if co_state c = StateAvailable \<or> co_state c = StateFailed \<or> co_state c = StateChecking
                    then c1\<lparr>co_state := StateIdle, co_error := ''''\<rparr> else c1"
  have "sound (mgr u) (co_state (?f (up_co u))) (co_operation (?f (up_co u)))"
    using upd_sound [OF assms(1)] by (simp add: Let_def)
  with saved_moves [OF assms(1), of ?f r v] assms upd_operation [OF assms(1)] show ?thesis
    by (simp add: boot_outdated_def Let_def split: option.splits if_splits)
qed

lemma boot_accepted_moves:
  assumes "upd_ok cfg U u" "boot_accepted cfg b u = (r, v)"
  shows "moves cfg U UNIV {} u v"
proof -
  obtain st u1 where g: "drain_status_call (bi_inputs b 2) u = (st, u1)" by (rule prod.exhaust)
  note s = drain_status_moves [OF assms(1) g, of UNIV]
  note k = moves_ok0 [OF s [THEN conjunct1]]
  have gen: "st_generation st \<in> U" using s k by (simp add: upd_ok_def)
  have a: "moves cfg U UNIV {} u v" if "saved (save cfg (set_co (\<lambda>c. c\<lparr>co_state := StateWaitingForIdle, co_operation := st_generation st\<rparr>) u1)) = (r, v)"
    using saved_moves [OF k that] s gen by (auto intro: moves_trans0)
  have b: "moves cfg U UNIV {} u v" if "saved (save cfg (set_co (\<lambda>c. c\<lparr>co_state := StateAvailable, co_error := ''''\<rparr>) u1)) = (r, v)"
    using saved_moves [OF k that] s upd_operation [OF k] by (auto intro: moves_trans0)
  show ?thesis
    using assms a b s by (auto simp: boot_accepted_def g split: if_splits)
qed

definition in_step :: "upd \<Rightarrow> bool" where
  "in_step u \<longleftrightarrow> (is_transition_state (co_state (up_co u)) \<longrightarrow> working_on (co_operation (up_co u)) (mgr u))"

lemma not_transition [simp]:
  "\<not> is_transition_state StateIdle" "\<not> is_transition_state StateAvailable" "\<not> is_transition_state StateSucceeded"
  "\<not> is_transition_state StateFailed" "\<not> is_transition_state StateChecking" "\<not> is_transition_state StateRolledBack"
  by (simp_all add: is_transition_state_def)

lemma boot_succeeded_moves:
  assumes "upd_ok cfg U u" "boot_succeeded cfg b u = (r, v)"
  shows "moves cfg U UNIV {} u v \<and> (r = BootOn \<longrightarrow> in_step v)"
proof -
  obtain st u1 where g: "drain_status_call (bi_inputs b 3) u = (st, u1)" by (rule prod.exhaust)
  have m1: "moves cfg U UNIV {} u u1" using drain_status_moves [OF assms(1) g] by blast
  define gen where "gen = (if co_operation (up_co u) = '''' then st_generation st else co_operation (up_co u))"
  obtain ok u2 where l: "on_mgr (release gen) u1 = (ok, u2)" by (rule prod.exhaust)
  have m2: "moves cfg U UNIV {} u u2" using release_moves [OF moves_ok0 [OF m1] l, of UNIV] moves_trans0 [OF m1] by simp
  let ?f = "\<lambda>c. clear_acceptance (c\<lparr>co_state := StateSucceeded, co_error := '''', co_operation := ''''\<rparr>)"
  have finish: "moves cfg U UNIV {} u v \<and> in_step v" if "moves cfg U UNIV {} u w" "saved (save cfg (set_co ?f w)) = (r, v)" for w
    using saved_moves [OF moves_ok0 [OF that(1)] that(2)] upd_empty [OF assms(1)] moves_trans0 [OF that(1)]
    by (auto simp: in_step_def)
  show ?thesis
    using assms(2) m1 m2 finish [OF m1] finish [OF m2] unfolding boot_succeeded_def g prod.case Let_def gen_def [symmetric] l
    by (auto split: if_splits bool.splits)
qed

lemma boot_transition_moves:
  assumes "upd_ok cfg U u" "boot_transition cfg b u = (r, v)"
  shows "moves cfg U UNIV {} u v \<and> (r = BootOn \<longrightarrow> in_step v)"
proof (cases "installed cfg (up_co u) \<or> \<not> is_transition_state (co_state (up_co u))")
  case True
  with boot_succeeded_moves [OF assms(1)] assms show ?thesis
    by (auto simp: boot_transition_def in_step_def split: if_splits)
next
  case False
  obtain st u1 where g: "drain_status_call (bi_inputs b 3) u = (st, u1)" by (rule prod.exhaust)
  note s = drain_status_moves [OF assms(1) g, of UNIV]
  note k = moves_ok0 [OF s [THEN conjunct1]]
  let ?f = "\<lambda>c. if co_accepted c then c\<lparr>co_state := StateAvailable, co_error := '''', co_operation := ''''\<rparr>
                 else clear_acceptance (c\<lparr>co_state := StateIdle, co_error := '''', co_operation := ''''\<rparr>)"
  let ?g = "\<lambda>c. c\<lparr>co_operation := st_generation st\<rparr>"
  have gen: "st_generation st \<in> U" using s k by (simp add: upd_ok_def)
  have idle: "moves cfg U UNIV {} u v \<and> in_step v" if "saved (save cfg (set_co ?f u1)) = (r, v)"
    using saved_moves [OF k that] upd_empty [OF k] moves_trans0 s by (auto simp: in_step_def)
  have new: "moves cfg U UNIV {} u v \<and> in_step v"
    if "saved (save cfg (set_co ?g u1)) = (r, v)" "co_operation (up_co u) = ''''" "st_state st \<noteq> Idle"
  proof -
    have "sound (mgr u1) (co_state (?g (up_co u1))) (co_operation (?g (up_co u1)))"
      using upd_sound [OF k] that(2) s by (auto simp: sound_def)
    from saved_moves [OF k that(1) _ this] gen s that(3) show ?thesis
      by (auto simp: in_step_def working_on_def intro: moves_trans0)
  qed
  have same: "moves cfg U UNIV {} u v \<and> in_step v"
    if "saved (save cfg u1) = (r, v)" "co_operation (up_co u) = st_generation st" "st_state st \<noteq> Idle"
  proof -
    from that(1) have "saved (save cfg (set_co (\<lambda>c. c) u1)) = (r, v)" by (simp add: set_co_def)
    from saved_moves [OF k this] upd_sound [OF k] upd_operation [OF k] s that(2,3) show ?thesis
      by (auto simp: in_step_def working_on_def intro: moves_trans0)
  qed
  show ?thesis
    using assms(2) False s idle new same unfolding boot_transition_def g prod.case
    by (auto split: if_splits)
qed

lemma boot_orphan_moves:
  assumes "upd_ok cfg U u" "boot_orphan cfg b u = (r, v)" "in_step u"
  shows "moves cfg U UNIV {} u v \<and> in_step v"
proof (cases "is_transition_state (co_state (up_co u)) \<or> co_accepted (up_co u)")
  case True with assms show ?thesis by (simp add: boot_orphan_def)
next
  case False
  then have nb: "\<not> busy (co_state (up_co u))" by (auto simp: is_transition_state_def busy_def)
  obtain st u1 where g: "drain_status_call (bi_inputs b 4) u = (st, u1)" by (rule prod.exhaust)
  note s = drain_status_moves [OF assms(1) g, of UNIV]
  obtain ok u2 where c: "boot_cancel_drain u1 = (ok, u2)" by (rule prod.exhaust)
  note t = boot_cancel_moves [OF moves_ok0 [OF s [THEN conjunct1]] c]
  have m2: "moves cfg U UNIV {} u u2" "up_co u2 = up_co u" using t s by (auto intro: moves_trans0)
  note k = moves_ok0 [OF m2(1)]
  have w: "moves cfg U UNIV {} u v \<and> in_step v" if "saved (save cfg (set_co (\<lambda>c. c\<lparr>co_operation := ''''\<rparr>) u2)) = (r, v)"
    using saved_moves [OF k that] upd_empty [OF k] m2 nb False by (auto simp: in_step_def intro: moves_trans0)
  show ?thesis
    using assms(2) False s m2 w unfolding boot_orphan_def if_not_P [OF False] g prod.case c
    by (auto simp: in_step_def split: if_splits bool.splits sum.splits option.splits)
qed

lemma saved_on: "saved r = (x, w) \<Longrightarrow> x \<noteq> BootDone"
  by (auto simp: saved_def split: prod.splits option.splits)

lemma boot_not_done:
  "fst (boot_outdated cfg b u) \<noteq> BootDone" "fst (boot_accepted cfg b u) \<noteq> BootDone"
  "fst (boot_transition cfg b u) \<noteq> BootDone" "fst (boot_orphan cfg b u) \<noteq> BootDone"
  "fst (boot_load cfg u) \<noteq> BootDone"
proof -
  have s: "fst (saved x) \<noteq> BootDone" for x using saved_on by (metis prod.collapse)
  show "fst (boot_outdated cfg b u) \<noteq> BootDone" using s by (auto simp: boot_outdated_def split: option.split)
  show "fst (boot_accepted cfg b u) \<noteq> BootDone" using s by (auto simp: boot_accepted_def split: prod.split)
  show "fst (boot_transition cfg b u) \<noteq> BootDone" using s
    by (auto simp: boot_transition_def boot_succeeded_def Let_def split: prod.split bool.split)
  show "fst (boot_orphan cfg b u) \<noteq> BootDone" using s
    by (auto simp: boot_orphan_def split: prod.split bool.split sum.split option.split)
  show "fst (boot_load cfg u) \<noteq> BootDone"
    by (auto simp: boot_load_def split: prod.split sum.split fs_error.split coordinator_file.split)
qed

definition booted :: "update_config \<Rightarrow> string set \<Rightarrow> drain_mgr \<Rightarrow> (upd \<Rightarrow> bool) \<Rightarrow> boot_result \<times> upd \<Rightarrow> bool" where
  "booted cfg U m Q r \<longleftrightarrow>
     upd_ok cfg U (snd r) \<and> dm_persistence (mgr (snd r)) = dm_persistence m \<and> dm_windows (mgr (snd r)) = dm_windows m \<and>
     (fst r = BootDone \<longrightarrow> in_step (snd r)) \<and> (fst r = BootOn \<longrightarrow> Q (snd r))"

lemma booted_then:
  assumes "booted cfg U m Q r"
    "\<And>w x v. upd_ok cfg U w \<Longrightarrow> Q w \<Longrightarrow> f w = (x, v) \<Longrightarrow>
       moves cfg U UNIV {} w v \<and> (x = BootDone \<longrightarrow> in_step v) \<and> (x = BootOn \<longrightarrow> R v)"
  shows "booted cfg U m R (boot_then r f)"
proof (cases r)
  case (Pair x w)
  obtain y v where f: "f w = (y, v)" by (rule prod.exhaust)
  show ?thesis
  proof (cases x)
    case BootOn
    with assms(1) Pair have "upd_ok cfg U w" "Q w" by (simp_all add: booted_def)
    from assms(2) [OF this f] assms(1) Pair BootOn f show ?thesis
      using moves_ok0 [of cfg U UNIV w v] shifts_frame [of UNIV "{}" "mgr w" "mgr v"] moves_shifts [of cfg U UNIV "{}" w v]
      by (simp add: booted_def boot_then_def)
  qed (use assms(1) Pair in \<open>auto simp: booted_def boot_then_def\<close>)
qed

lemma restore_ok:
  assumes "upd_ok cfg U u" "\<not> busy (co_state (up_co u))"
  shows "booted cfg U (mgr u) in_step (restore_coordinator cfg b u)"
  unfolding restore_coordinator_def
proof (rule booted_then)
  show "booted cfg U (mgr u) in_step (boot_then (boot_then (boot_then (boot_then (boot_load cfg u)
       (boot_reinstalled cfg b)) (boot_outdated cfg b)) (boot_accepted cfg b)) (boot_transition cfg b))"
  proof (rule booted_then)
    show "booted cfg U (mgr u) (\<lambda>_. True) (boot_then (boot_then (boot_then (boot_load cfg u)
       (boot_reinstalled cfg b)) (boot_outdated cfg b)) (boot_accepted cfg b))"
    proof (intro booted_then [where Q = "\<lambda>_. True"])
      have "fst (boot_load cfg u) \<noteq> BootDone" by (rule boot_not_done)
      then show "booted cfg U (mgr u) (\<lambda>_. True) (boot_load cfg u)"
        using boot_load_ok [OF assms(1) _ assms(2)] by (cases "boot_load cfg u") (auto simp: booted_def)
    next
      fix w x v assume "upd_ok cfg U w" "boot_reinstalled cfg b w = (x, v)"
      then show "moves cfg U UNIV {} w v \<and> (x = BootDone \<longrightarrow> in_step v) \<and> (x = BootOn \<longrightarrow> True)"
        using boot_reinstalled_moves by (auto simp: in_step_def)
    next
      fix w x v assume "upd_ok cfg U w" "boot_outdated cfg b w = (x, v)"
      then show "moves cfg U UNIV {} w v \<and> (x = BootDone \<longrightarrow> in_step v) \<and> (x = BootOn \<longrightarrow> True)"
        using boot_outdated_moves boot_not_done(1) [of cfg b w] by auto
    next
      fix w x v assume "upd_ok cfg U w" "boot_accepted cfg b w = (x, v)"
      then show "moves cfg U UNIV {} w v \<and> (x = BootDone \<longrightarrow> in_step v) \<and> (x = BootOn \<longrightarrow> True)"
        using boot_accepted_moves boot_not_done(2) [of cfg b w] by auto
    qed
  next
    fix w x v assume "upd_ok cfg U w" "boot_transition cfg b w = (x, v)"
    then show "moves cfg U UNIV {} w v \<and> (x = BootDone \<longrightarrow> in_step v) \<and> (x = BootOn \<longrightarrow> in_step v)"
      using boot_transition_moves boot_not_done(3) [of cfg b w] by auto
  qed
next
  fix w x v assume "upd_ok cfg U w" "in_step w" "boot_orphan cfg b w = (x, v)"
  then show "moves cfg U UNIV {} w v \<and> (x = BootDone \<longrightarrow> in_step v) \<and> (x = BootOn \<longrightarrow> in_step v)"
    using boot_orphan_moves by auto
qed

text \<open>What recovery launches is safe to run: one goroutine at most, and a replacement only under an owned drain.\<close>

lemma start_recovery_jobs:
  assumes "upd_ok cfg U u" "in_step u"
  shows "(\<forall>j \<in> set (start_recovery cfg u). job_ok (mgr u) j) \<and>
    (concat (map minds (start_recovery cfg u)) = [] \<or>
     (concat (map minds (start_recovery cfg u)) = [co_operation (up_co u)] \<and> co_operation (up_co u) \<noteq> ''''))"
proof -
  have "owns (co_operation (up_co u)) (mgr u)" if "busy (co_state (up_co u))"
    using that upd_sound [OF assms(1)] assms(2)
    by (auto simp: sound_def in_step_def owns_working is_transition_state_def busy_def)
  then show ?thesis
    by (auto simp: start_recovery_def packaged_restart_def busy_def Let_def split: option.split)
qed

text \<open>The files a process leaves agree with the drain it had.\<close>

definition files_ok :: "string \<Rightarrow> string \<Rightarrow> process_files \<Rightarrow> string set \<Rightarrow> bool" where
  "files_ok dpath cpath f U \<longleftrightarrow> '''' \<in> U \<and>
     (\<exists>m. saved_doc (fs_files (pf_drain f) dpath) = Some (drain_doc_of m) \<and> dm_generation m \<in> U \<and>
          (dm_owned m \<longrightarrow> dm_state m = Ready) \<and> (dm_state m = Idle \<longrightarrow> drain_doc_of m = idle_doc) \<and>
          file_sound U m (fs_files (pf_coordinator f) cpath))"

lemma files_of_ok:
  assumes "upd_ok cfg U u" "uc_path cfg = cpath" "dm_persistence (mgr u) = dpath" "\<not> dm_windows (mgr u)" "dpath \<noteq> ''''"
  shows "files_ok dpath cpath (files_of u) U"
proof -
  have "drain_sys_inv (up_drain u)" using assms(1) by (simp add: upd_ok_def settled_def)
  then have "saved_doc (fs_files (dm_fs (mgr u)) dpath) = Some (drain_doc_of (mgr u)) \<and>
      (dm_state (mgr u) = Idle \<longrightarrow> drain_doc_of (mgr u) = idle_doc)"
    using assms(3-5) by (auto simp: drain_sys_inv_def drain_inv_def durable_def posix_file_def state_file_def mgr_def)
  with assms(1,2) show ?thesis
    by (auto simp: files_ok_def files_of_def upd_ok_def settled_def mgr_def intro!: exI [of _ "mgr u"])
qed

lemma same_doc:
  assumes "drain_doc_of m' = drain_doc_of m"
  shows "dm_state m' = dm_state m" "dm_generation m' = dm_generation m" "dm_owned m' = dm_owned m"
  using assms by (cases "dm_state m"; cases "dm_state m'"; simp add: drain_doc_of_def drain_state_name_def)+

lemma idle_same_doc:
  assumes "drain_doc_of m = idle_doc"
  shows "dm_state m = Idle" "dm_generation m = ''''" "\<not> dm_owned m"
  using assms by (simp_all add: drain_doc_of_def idle_doc_def)

lemma expire_locked_doc_cases:
  "drain_doc_of (expire_locked now m) = drain_doc_of m \<or> drain_doc_of (expire_locked now m) = idle_doc"
proof (rule expire_locked_cases [of now m])
  fix ok assume "reset_locked m = (ok, expire_locked now m)"
  then show ?thesis
  proof (cases rule: reset_lockedE)
    case (reopened f) then show ?thesis by (simp add: idled_def drain_doc_of_def idle_doc_def)
  qed simp
qed simp

lemma drain_startup_frame:
  assumes "drain_startup quiet w path now f = (None, m)"
  shows "dm_persistence m = path" "dm_windows m = w"
  using assms
  by (cases rule: drain_startupE;
      simp add: started_def new_drain_manager_def close_if_draining_def signal_draining_locked_def;
      use shifts_frame [OF expire_locked_shifts] in \<open>simp add: load_doc_def\<close>)+

lemma drain_startup_doc:
  assumes "drain_startup quiet w path now f = (None, m)" "saved_doc (fs_files f path) = Some d"
  shows "drain_doc_of m = d \<or> drain_doc_of m = idle_doc"
  using assms(1)
proof (cases rule: drain_startupE)
  case (fresh f')
  then show ?thesis by (simp add: started_def new_drain_manager_def drain_doc_of_def idle_doc_def)
next
  case (resumed f' st d')
  let ?l = "load_doc st d' (started quiet w path f')"
  from assms(2) resumed(3,4) have "d = d'" by (simp add: saved_doc_def)
  moreover have "drain_doc_of ?l = d'"
    using resume_state_Some [OF resumed(4)] by (simp add: load_doc_def drain_doc_of_def)
  moreover have "drain_doc_of m = drain_doc_of (expire_locked now ?l)" using resumed(5) by simp
  ultimately show ?thesis using expire_locked_doc_cases [of now ?l] by simp
qed

lemma started_ok:
  assumes "files_ok dpath cpath f U" "drain_startup quiet w dpath now (pf_drain f) = (None, m)"
    "uc_path cfg = cpath" "\<not> uc_windows cfg"
  shows "upd_ok cfg U \<lparr>up_drain = \<lparr>ds_mgr = m, ds_tickets = []\<rparr>, up_co = new_coordinator (pf_coordinator f)\<rparr>"
proof -
  from assms(1) obtain n where n: "saved_doc (fs_files (pf_drain f) dpath) = Some (drain_doc_of n)" "dm_generation n \<in> U"
    "dm_owned n \<longrightarrow> dm_state n = Ready" "file_sound U n (fs_files (pf_coordinator f) cpath)" "'''' \<in> U"
    by (auto simp: files_ok_def)
  from drain_startup_doc [OF assms(2) n(1)]
  have m: "(dm_owned m \<longrightarrow> dm_state m = Ready) \<and> dm_generation m \<in> U \<and> (\<forall>st op. sound n st op \<longrightarrow> sound m st op)"
  proof
    assume "drain_doc_of m = drain_doc_of n"
    from same_doc [OF this] n show ?thesis by (simp add: sound_def working_on_def)
  next
    assume "drain_doc_of m = idle_doc"
    from idle_same_doc [OF this] n show ?thesis by (simp add: sound_def working_on_def)
  qed
  moreover have "file_sound U m (fs_files (pf_coordinator f) cpath)"
    using n(4) m by (auto simp: file_sound_def)
  ultimately show ?thesis
    using drain_startup_inv [OF assms(2)] assms(3,4) n(5) by (simp add: upd_ok_def settled_def new_coordinator_def mgr_def)
qed

fun process_ok :: "string \<Rightarrow> string \<Rightarrow> process \<Rightarrow> bool" where
  "process_ok dpath cpath (Up s) = (us_crossed s \<or> sys_ok dpath cpath s)"
| "process_ok dpath cpath (Down f used crossed) = (crossed \<or> files_ok dpath cpath f (insert '''' (set used)))"

lemma start_process_ok:
  assumes "process_ok dpath cpath (Down f used crossed)" "uc_path cfg = cpath" "\<not> uc_windows cfg" "dpath \<noteq> ''''"
  shows "process_ok dpath cpath (start_process cfg dpath quiet now b f used crossed)"
proof (cases crossed)
  case True then show ?thesis by (auto simp: start_process_def split: prod.split option.split boot_result.split)
next
  case False
  let ?U = "insert '''' (set used)"
  from False assms(1) have f: "files_ok dpath cpath f ?U" by simp
  obtain e m where d: "drain_startup quiet (uc_windows cfg) dpath now (pf_drain f) = (e, m)" by (rule prod.exhaust)
  show ?thesis
  proof (cases e)
    case (Some x)
    have "fs_files (dm_fs m) = fs_files (pf_drain f)"
      using d Some by (auto simp: drain_startup_def set_work_tracker_def set_persistence_def new_drain_manager_def Let_def
          os_read_file_def split: if_splits option.splits drain_file.splits fs_error.splits)
    with f d Some False show ?thesis by (simp add: start_process_def files_ok_def)
  next
    case None
    note d = d [unfolded None]
    let ?u = "\<lparr>up_drain = \<lparr>ds_mgr = m, ds_tickets = []\<rparr>, up_co = new_coordinator (pf_coordinator f)\<rparr>"
    have ok: "upd_ok cfg ?U ?u" using started_ok [OF f d assms(2,3)] .
    obtain r u where r: "restore_coordinator cfg b ?u = (r, u)" by (rule prod.exhaust)
    have "\<not> busy (co_state (up_co ?u))" by (simp add: new_coordinator_def)
    from restore_ok [OF ok this, of b] r drain_startup_frame [OF d] assms(3)
    have u: "upd_ok cfg ?U u" "dm_persistence (mgr u) = dpath" "\<not> dm_windows (mgr u)"
      "(\<forall>e. r \<noteq> BootError e) \<longrightarrow> in_step u"
      by (cases r; simp add: booted_def mgr_def)+
    show ?thesis
    proof (cases "\<exists>e. r = BootError e")
      case True
      with d r files_of_ok [OF u(1) assms(2) u(2,3) assms(4)] show ?thesis by (auto simp: start_process_def)
    next
      case False
      with u(4) have "in_step u" by simp
      from start_recovery_jobs [OF u(1) this] upd_operation [OF u(1)] u assms(2)
      have "sys_ok dpath cpath \<lparr>us_config = cfg, us_upd = u, us_jobs = start_recovery cfg u @ [Checks], us_used = used,
                            us_crossed = crossed\<rparr>"
        by (auto simp: sys_ok_def gens_def simp del: set_concat concat_eq_Nil_conv)
      with False d r show ?thesis by (cases r) (auto simp: start_process_def)
    qed
  qed
qed

lemma life_ok: "life ok dpath cpath p \<Longrightarrow> process_ok dpath cpath p \<and> dpath \<noteq> ''''"
proof (induction rule: life.induct)
  case (install fd fc)
  have "files_ok dpath cpath (ProcessFiles fd fc) {''''}"
    using install by (auto simp: files_ok_def file_sound_def saved_doc_def
        intro!: exI [of _ "started 0 False dpath fd"])
      (simp_all add: started_def new_drain_manager_def drain_doc_of_def idle_doc_def)
  with install show ?case by simp
next
  case (start f used crossed cfg b quiet now)
  then show ?case using start_process_ok by blast
next
  case (step s s')
  have "us_crossed s'" if "us_crossed s" using step.hyps(2) that by (cases rule: update_step.cases) simp_all
  with step update_step_ok show ?case by auto
next
  case (stop s)
  then show ?case using files_of_ok by (auto simp: sys_ok_def gens_def)
qed

subsection \<open>No drain is left behind\<close>

text \<open>
  A drain that is active when a process has started has someone to end it: the operation in
  transition, an approval, or a helper of the update that still runs.
\<close>

definition looked_after :: "boot_inputs \<Rightarrow> upd \<Rightarrow> bool" where
  "looked_after b u \<longleftrightarrow> dm_state (mgr u) = Idle \<or> is_transition_state (co_state (up_co u)) \<or> co_accepted (up_co u) \<or>
     (\<exists>l. local_staged u = Some l \<and> packaged_update_helper_running b l = Inr True)"

lemma save_frame: "save cfg u = (e, v) \<Longrightarrow> mgr v = mgr u \<and> (\<exists>x. up_co v = (up_co u)\<lparr>co_fs := x\<rparr>)"
  by (auto simp: save_def save_coordinator_def split: if_splits prod.splits)
    (metis coordinator.surjective coordinator.update_convs(10))

lemma cancel_ok_idle: "boot_cancel_drain u = (True, v) \<Longrightarrow> dm_state (mgr v) = Idle"
proof -
  assume "boot_cancel_drain u = (True, v)"
  then have "on_mgr cancel_drain u = (True, v)" by (simp add: boot_cancel_drain_def)
  then obtain m where m: "cancel_drain (mgr u) = (True, m)" "v = u\<lparr>up_drain := (up_drain u)\<lparr>ds_mgr := m\<rparr>\<rparr>"
    by (rule on_mgrE)
  from m(1) have "reset_locked (mgr u) = (True, m)" by (simp add: cancel_drain_def)
  then show ?thesis by (cases rule: reset_lockedE) (simp_all add: m(2) idled_def)
qed

lemma status_idle: "drain_status_call i u = (st, v) \<Longrightarrow> st_state st = dm_state (mgr v) \<and> up_co v = up_co u"
  by (auto simp: drain_status_call_def on_mgr_def status_def status_locked_def Let_def split: prod.splits)

lemma void_update_done:
  assumes "void_update cfg b u = (r, v)" "dm_state (mgr u) = Idle"
  shows "dm_state (mgr v) = Idle"
proof -
  let ?f = "\<lambda>c. clear_acceptance (c\<lparr>co_state := StateIdle, co_release := None, co_staged := None, co_error := '''', co_operation := ''''\<rparr>)"
  obtain e w where s: "save cfg (set_co ?f u) = (e, w)" by (rule prod.exhaust)
  from save_frame [OF s] assms s show ?thesis
    by (auto simp: void_update_def boot_then_def saved_def split: option.splits)
qed

lemma boot_reinstalled_done: "boot_reinstalled cfg b u = (BootDone, v) \<Longrightarrow> dm_state (mgr v) = Idle"
proof -
  assume r: "boot_reinstalled cfg b u = (BootDone, v)"
  obtain st u1 where g: "drain_status_call (bi_inputs b 0) u = (st, u1)" by (rule prod.exhaust)
  obtain ok u2 where c: "boot_cancel_drain u1 = (ok, u2)" by (rule prod.exhaust)
  from r status_idle [OF g] cancel_ok_idle [of u1 u2] c void_update_done [of cfg b u1 BootDone v] void_update_done [of cfg b u2 BootDone v]
  show ?thesis by (auto simp: boot_reinstalled_def g split: option.splits sum.splits bool.splits if_splits)
qed

lemma boot_orphan_looked_after:
  assumes "boot_orphan cfg b u = (BootOn, v)"
  shows "looked_after b v"
proof (cases "is_transition_state (co_state (up_co u)) \<or> co_accepted (up_co u)")
  case True with assms show ?thesis by (auto simp: boot_orphan_def looked_after_def)
next
  case False
  obtain st u1 where g: "drain_status_call (bi_inputs b 4) u = (st, u1)" by (rule prod.exhaust)
  obtain ok u2 where c: "boot_cancel_drain u1 = (ok, u2)" by (rule prod.exhaust)
  obtain e w where s: "save cfg (set_co (\<lambda>c. c\<lparr>co_operation := ''''\<rparr>) u2) = (e, w)" by (rule prod.exhaust)
  show ?thesis
    using assms status_idle [OF g] cancel_ok_idle [of u1 u2] c save_frame [OF s] s
    unfolding boot_orphan_def if_not_P [OF False] g prod.case looked_after_def saved_def
    by (auto split: if_splits bool.splits sum.splits option.splits)
qed

lemma boot_then_cases:
  assumes "boot_then r f = (x, v)" "\<forall>e. x \<noteq> BootError e"
  obtains (skipped) "r = (BootDone, v)" "x = BootDone" | (on) u where "r = (BootOn, u)" "f u = (x, v)"
  using assms by (cases r) (auto simp: boot_then_def split: boot_result.splits)

lemma restore_looked_after:
  assumes "restore_coordinator cfg b u = (r, v)" "\<forall>e. r \<noteq> BootError e"
  shows "looked_after b v"
proof -
  let ?a = "boot_then (boot_load cfg u) (boot_reinstalled cfg b)"
  let ?c = "boot_then (boot_then ?a (boot_outdated cfg b)) (boot_accepted cfg b)"
  have done_a: "looked_after b w" if "?a = (BootDone, w)" for w
    using that
  proof (rule boot_then_cases)
    assume "boot_load cfg u = (BootDone, w)" then show ?thesis using boot_not_done(5) [of cfg u] by simp
  next
    fix z assume "boot_reinstalled cfg b z = (BootDone, w)"
    then show ?thesis using boot_reinstalled_done by (simp add: looked_after_def)
  qed simp
  have skip: "g z = (BootDone, w) \<Longrightarrow> False" if "\<And>z. fst (g z) \<noteq> BootDone" for g :: "upd \<Rightarrow> boot_result \<times> upd" and z w
    using that [of z] by simp
  have down: "s = (BootDone, w)" if "boot_then s g = (BootDone, w)" "\<And>z. fst (g z) \<noteq> BootDone" for s g w
    using that(1) by (rule boot_then_cases) (use skip [OF that(2)] in auto)
  show ?thesis
    using assms(1) [unfolded restore_coordinator_def] assms(2)
  proof (rule boot_then_cases)
    assume "boot_then ?c (boot_transition cfg b) = (BootDone, v)"
    from down [OF down [OF down [OF this boot_not_done(3)] boot_not_done(2)] boot_not_done(1)] done_a
    show ?thesis by blast
  next
    fix z assume z: "boot_orphan cfg b z = (r, v)"
    then have "r = BootOn" using boot_not_done(4) [of cfg b z] assms(2) by (cases r) auto
    with z boot_orphan_looked_after show ?thesis by blast
  qed
qed

end
