(* ===== verification/UpdateClaims.thy ===== *)
theory UpdateClaims
  imports UpdateSafety
begin

section \<open>What the updater promises\<close>

text \<open>
  The properties of the drain and the coordinator together, and the runs that witness them.
\<close>

subsection \<open>Properties\<close>

text \<open>
  C2: A replacement runs under its drain. In every process of every history in which no cancellation
  crosses an operation, while a goroutine has taken the drain of its operation, and so as long as an
  installer replaces the program, the drain is that operation's, owned and Ready, no execution is in
  flight and none can be started, and no other goroutine has a drain.
\<close>

theorem replacement_under_drain:
  assumes "life ok dpath cpath (Up s)" "\<not> us_crossed s" "us_jobs s = xs @ j # ys" "g \<in> set (holding j)"
  shows "owns g (mgr (us_upd s)) \<and> dm_state (mgr (us_upd s)) = Ready \<and>
    filter ticket_pending (ds_tickets (up_drain (us_upd s))) = [] \<and>
    (\<forall>t c k t'. dm_tracker (mgr (us_upd s)) = Some t \<longrightarrow> tracker_start c t \<noteq> Inr (k, t')) \<and>
    (\<forall>k \<in> set (xs @ ys). holding k = [])"
proof -
  from life_ok [OF assms(1)] assms(2) have ok: "sys_ok dpath cpath s" by simp
  let ?m = "mgr (us_upd s)"
  from ok assms(3) have jobs: "\<forall>k \<in> set (xs @ j # ys). job_ok ?m k" by (simp add: sys_ok_def)
  have owned: "owns h ?m" if "k \<in> set (xs @ j # ys)" "h \<in> set (holding k)" for h k
  proof -
    have "job_ok ?m k" using jobs that(1) by blast
    with that(2) show ?thesis by (cases k) auto
  qed
  have o: "owns g ?m" using owned [of j] assms(4) by simp
  have "holding k = []" if "k \<in> set (xs @ ys)" for k
  proof (rule ccontr)
    assume "holding k \<noteq> []"
    then obtain h where h: "h \<in> set (holding k)" by (cases "holding k") auto
    from owned [OF _ h] that o have "h = g" by (auto simp: owns_def)
    moreover have "set (minds k) \<inter> set (minds j) = {}" using minds_apart ok that assms(3) unfolding sys_ok_def by metis
    ultimately show False using h assms(4) holding_minds [of k] holding_minds [of j] by blast
  qed
  moreover have "\<forall>t c k t'. dm_tracker ?m = Some t \<longrightarrow> tracker_start c t \<noteq> Inr (k, t')"
    using ok o by (auto simp: sys_ok_def upd_ok_def settled_def drain_sys_inv_def drain_inv_def owns_def mgr_def dest: wt.start_closed)
  moreover have "dm_state ?m = Ready" "filter ticket_pending (ds_tickets (up_drain (us_upd s))) = []"
    using ok o by (auto simp: sys_ok_def upd_ok_def settled_def drain_sys_inv_def owns_def mgr_def sampled_def)
  ultimately show ?thesis using o by blast
qed



subsection \<open>A run\<close>

text \<open>
  A binary finds a release, stages it, and its user accepts; the drain becomes ready, its goroutine takes
  it, records the transition and calls the installer. A script runs the jobs by their position.
\<close>

datatype act = ActRun nat inputs | ActAccept inputs duration | ActCancel

fun perform :: "act \<Rightarrow> update_sys \<Rightarrow> update_sys" where
  "perform (ActRun n i) s =
     (let i' = i\<lparr>in_others := \<lambda>d. d\<rparr>; js = us_jobs s
      in if n < length js \<and> in_generation i \<noteq> '''' \<and> in_generation i \<notin> set (us_used s)
         then (case job_run (us_config s) i' (js ! n) (us_upd s) of
                 (ks, u) \<Rightarrow> s\<lparr>us_upd := u, us_jobs := take n js @ ks @ drop (Suc n) js, us_used := in_generation i # us_used s,
                              us_crossed := (us_crossed s \<or> crosses (js ! n) (take n js @ drop (Suc n) js) (us_upd s))\<rparr>)
         else s)"
| "perform (ActAccept i lease) s =
     (let i' = i\<lparr>in_others := \<lambda>d. d\<rparr>
      in if in_generation i \<noteq> '''' \<and> in_generation i \<notin> set (us_used s)
         then (case accept_update (us_config s) i' lease (us_upd s) of
                 (r, u) \<Rightarrow> s\<lparr>us_upd := u, us_jobs := us_jobs s @ (if r = None then [StartSuper] else [])\<rparr>)
         else s)"
| "perform ActCancel s = s\<lparr>us_jobs := us_jobs s @ [Cancelling]\<rparr>"

lemma perform_life:
  assumes "life ok dpath cpath (Up s)"
  shows "life ok dpath cpath (Up (perform a s))"
proof (cases a)
  case (ActRun n i)
  let ?i = "i\<lparr>in_others := \<lambda>d. d\<rparr>"
  show ?thesis
  proof (cases "n < length (us_jobs s) \<and> in_generation i \<noteq> '''' \<and> in_generation i \<notin> set (us_used s)")
    case True
    then have i: "inputs_ok ?i s" by (simp add: inputs_ok_def bystanders_def)
    have js: "us_jobs s = take n (us_jobs s) @ (us_jobs s ! n) # drop (Suc n) (us_jobs s)"
      using True by (simp add: id_take_nth_drop)
    obtain ks u where r: "job_run (us_config s) ?i (us_jobs s ! n) (us_upd s) = (ks, u)" by (rule prod.exhaust)
    from life.step [OF assms update_step.run [OF js i r]] True r ActRun show ?thesis by (simp add: Let_def)
  qed (use assms ActRun in \<open>auto simp: Let_def\<close>)
next
  case (ActAccept i lease)
  let ?i = "i\<lparr>in_others := \<lambda>d. d\<rparr>"
  show ?thesis
  proof (cases "in_generation i \<noteq> '''' \<and> in_generation i \<notin> set (us_used s)")
    case True
    then have i: "inputs_ok ?i s" by (simp add: inputs_ok_def bystanders_def)
    obtain r u where r: "accept_update (us_config s) ?i lease (us_upd s) = (r, u)" by (rule prod.exhaust)
    from life.step [OF assms update_step.accept [OF i r]] True r ActAccept show ?thesis by (simp add: Let_def)
  qed (use assms ActAccept in auto)
next
  case ActCancel
  from life.step [OF assms update_step.cancel] ActCancel show ?thesis by simp
qed

lemma script_life: "life ok dpath cpath (Up s) \<Longrightarrow> life ok dpath cpath (Up (fold perform script s))"
  by (induction script arbitrary: s) (simp_all add: perform_life)

definition demo_ext :: ext where
  "demo_ext = \<lparr>ex_semver_valid = \<lambda>_. True, ex_semver_compare = \<lambda>a b. if a = b then 0 else 1, ex_canonical = Some,
     ex_base64 = Some, ex_verify = \<lambda>_ _ _. True, ex_metadata = \<lambda>_. None, ex_url = \<lambda>_. None\<rparr>"

definition demo_target :: target where
  "demo_target = blank_target\<lparr>tg_id := ''t'', tg_kind := ''binary'', tg_os := ''linux'', tg_arch := ''amd64''\<rparr>"

definition demo_release :: verified_release where
  "demo_release = \<lparr>vr_metadata = \<lparr>rm_schema = 1, rm_version = ''2.0.0'', rm_commit = '''', rm_channel = ''stable'',
       rm_published_at = 0, rm_expires_at = 1000, rm_notes_url = '''', rm_minimum_updater = '''', rm_minimum_hosted = '''',
       rm_database = '''', rm_targets = [demo_target]\<rparr>,
     vr_target = demo_target, vr_apply_supported = True, vr_action = ''download''\<rparr>"

definition demo_config :: update_config where
  "demo_config = \<lparr>uc_ext = demo_ext, uc_client = \<lparr>cc_channel = ''stable'', cc_keys = Map.empty, cc_path = ''k''\<rparr>,
     uc_current = \<lparr>cb_version = ''1.0.0'', cb_commit = '''', cb_os = ''linux'', cb_arch = ''amd64'', cb_distribution = ''binary''\<rparr>,
     uc_channel = ''stable'',
     uc_installer = Some \<lparr>in_restart = False, in_shutdown = False, in_resumable = False, in_cancels = False, in_recovers = False,
       in_docker_agent = False, in_ready = None\<rparr>,
     uc_manual = False, uc_config_error = '''', uc_notifications = True, uc_path = ''c'', uc_windows = False\<rparr>"

definition demo_evidence :: evidence where
  "demo_evidence = \<lparr>ev_outcome = Inl FsNotExist, ev_outcome_again = Inl FsNotExist, ev_prepared = Inl FsNotExist,
     ev_handoff_removed = None, ev_lease = None, ev_backup_missing = False, ev_backup_error = None, ev_artifact_there = None,
     ev_bootable = False, ev_outcome_written = False, ev_recovery_started = False\<rparr>"

definition demo_inputs :: "instant \<Rightarrow> string \<Rightarrow> inputs" where
  "demo_inputs now gen = \<lparr>in_now1 = now, in_now2 = now, in_queued = 0, in_others = \<lambda>d. d, in_generation = gen,
     in_result = None, in_client = Inr no_client_state, in_evidence = demo_evidence,
     in_check = \<lparr>ck_release = Some demo_release, ck_checked = True, ck_error = None\<rparr>,
     in_staged = Inr (StagedRelease demo_release), in_done = False\<rparr>"

definition demo_boot :: boot_inputs where
  "demo_boot = \<lparr>bi_inputs = \<lambda>_. demo_inputs 1 ''x'', bi_reinstalled = Inr False, bi_helper_running = Inr False, bi_removed = None\<rparr>"

definition demo_files :: process_files where
  "demo_files = ProcessFiles \<lparr>fs_files = Map.empty, fs_faults = []\<rparr> \<lparr>fs_files = Map.empty, fs_faults = []\<rparr>"

definition demo_up :: update_sys where
  "demo_up = (case start_process demo_config ''d'' 5 1 demo_boot demo_files [] False of Up s \<Rightarrow> s)"

definition demo_accepted :: "act list" where
  "demo_accepted = [ActRun 0 (demo_inputs 2 ''x1''), ActRun 0 (demo_inputs 3 ''x2''), ActRun 0 (demo_inputs 4 ''x3''),
     ActAccept (demo_inputs 5 ''x4'') 100, ActRun 1 (demo_inputs 6 ''x5''), ActRun 1 (demo_inputs 7 ''x6''),
     ActRun 1 (demo_inputs 8 ''x7''), ActRun 1 (demo_inputs 10 ''g''), ActRun 2 (demo_inputs 20 ''x8'')]"

definition demo_taken :: "act list" where
  "demo_taken = [ActRun 2 (demo_inputs 21 ''y1''), ActRun 2 (demo_inputs 22 ''y2''), ActRun 2 (demo_inputs 23 ''y3'')]"

definition demo_applying :: update_sys where
  "demo_applying = fold perform (demo_accepted @ demo_taken) demo_up"

lemma demo_up_life: "life (\<lambda>_. True) ''d'' ''c'' (Up demo_up)"
proof -
  have d: "life (\<lambda>_. True) ''d'' ''c'' (Down demo_files [] False)"
    unfolding demo_files_def by (rule life.install) simp_all
  have b: "boot_inputs_ok demo_boot"
    by (simp add: boot_inputs_ok_def demo_boot_def demo_inputs_def bystanders_def)
  have "(case start_process demo_config ''d'' 5 1 demo_boot demo_files [] False of Up s \<Rightarrow> True | Down f u c \<Rightarrow> False)"
    by code_simp
  then have "start_process demo_config ''d'' 5 1 demo_boot demo_files [] False = Up demo_up"
    unfolding demo_up_def by (simp split: process.splits)
  with life.start [OF d, of demo_config demo_boot 5 1] b show ?thesis
    by (simp add: demo_config_def)
qed

lemma demo_applying_job: "us_jobs demo_applying = [Checks, SuperEnd, Applying ''g'' demo_release (Some (StagedRelease demo_release))]"
  by code_simp

lemma demo_applying_calm: "\<not> us_crossed demo_applying"
  by code_simp

text \<open>The same, with a cancellation that has looked at the operation before its goroutine takes the drain.\<close>

definition demo_crossed :: update_sys where
  "demo_crossed = fold perform
     (demo_accepted @ [ActCancel, ActRun 3 (demo_inputs 21 ''c1''), ActRun 3 (demo_inputs 21 ''c2''), ActRun 3 (demo_inputs 21 ''c3'')] @
      demo_taken @ [ActRun 3 (demo_inputs 24 ''c4'')]) demo_up"

theorem replacement_under_drain_witness:
  "owns ''g'' (mgr (us_upd demo_applying)) \<and> dm_state (mgr (us_upd demo_applying)) = Ready"
proof -
  have "life (\<lambda>_. True) ''d'' ''c'' (Up demo_applying)"
    unfolding demo_applying_def by (rule script_life [OF demo_up_life])
  from replacement_under_drain [OF this demo_applying_calm, of "[Checks, SuperEnd]"] demo_applying_job show ?thesis by simp
qed

text \<open>
  \<open>Cancel\<close> reads the state and the owner of the drain, and settles the operation in another section. A goroutine
  that takes the drain in between loses it while it installs: the installer runs, the drain is idle and
  new work starts.
\<close>

theorem cancel_crosses_replacement:
  "\<exists>s r st t. life (\<lambda>_. True) ''d'' ''c'' (Up s) \<and> Applying ''g'' r st \<in> set (us_jobs s) \<and>
     dm_state (mgr (us_upd s)) = Idle \<and> dm_tracker (mgr (us_upd s)) = Some t \<and> wt_open t"
proof -
  have l: "life (\<lambda>_. True) ''d'' ''c'' (Up demo_crossed)"
    unfolding demo_crossed_def by (rule script_life [OF demo_up_life])
  have "us_jobs demo_crossed = [Checks, SuperEnd, Applying ''g'' demo_release (Some (StagedRelease demo_release))]" by code_simp
  moreover have "dm_state (mgr (us_upd demo_crossed)) = Idle" by code_simp
  moreover have "map_option wt_open (dm_tracker (mgr (us_upd demo_crossed))) = Some True" by code_simp
  then obtain t where "dm_tracker (mgr (us_upd demo_crossed)) = Some t" "wt_open t" by auto
  ultimately show ?thesis using l by (intro exI [of _ demo_crossed]) auto
qed


end
