(* ===== verification/ClientLaws.thy ===== *)
theory ClientLaws
  imports UpdateClient
begin

section \<open>What the update client accepts\<close>

text \<open>
  The state file over any sequence of checks, of whatever builds, clocks, answers and failing calls: a
  release in it was verified (\<open>vouched\<close>), and the highest version it has recorded never goes down.
\<close>

subsection \<open>Histories\<close>

inductive client_step :: "ext \<Rightarrow> client_config \<Rightarrow> client_file fs \<Rightarrow> client_file fs \<Rightarrow> bool" for x cfg where
  check: "check_if_due x cfg b random now opted_out generated a f = (k, f') \<Longrightarrow> client_step x cfg f f'"

inductive client_life :: "ext \<Rightarrow> client_config \<Rightarrow> client_file fs \<Rightarrow> bool" for x cfg where
  install: "fs_files f (cc_path cfg) = None \<Longrightarrow> client_life x cfg f"
| step: "client_life x cfg f \<Longrightarrow> client_step x cfg f f' \<Longrightarrow> client_life x cfg f'"

definition client_state_of :: "client_config \<Rightarrow> client_file fs \<Rightarrow> client_state" where
  "client_state_of cfg f = (case fs_files f (cc_path cfg) of Some (ClientJson s) \<Rightarrow> s | _ \<Rightarrow> no_client_state)"

text \<open>
  A release that came with an answer signed by a key of the client. \<open>semver_laws\<close> is what package
  \<open>semver\<close> documents of the versions it accepts: comparison is a preorder, and \<open>v\<close> alone is none.
\<close>

definition vouched :: "ext \<Rightarrow> client_config \<Rightarrow> verified_release \<Rightarrow> bool" where
  "vouched x cfg r \<longleftrightarrow>
     (\<exists>signed canonical id key sig raw. ex_canonical x signed = Some canonical \<and> cc_keys cfg id = Some key \<and>
        ex_base64 x sig = Some raw \<and> ex_verify x key canonical raw \<and> ex_metadata x signed = Some (vr_metadata r)) \<and>
     valid_version x (rm_version (vr_metadata r)) \<and> rm_channel (vr_metadata r) = cc_channel cfg"

definition semver_laws :: "ext \<Rightarrow> bool" where
  "semver_laws x \<longleftrightarrow> \<not> ex_semver_valid x ''v'' \<and>
     (\<forall>a. ex_semver_valid x a \<longrightarrow> ex_semver_compare x a a = 0) \<and>
     (\<forall>a b c. ex_semver_valid x a \<and> ex_semver_valid x b \<and> ex_semver_valid x c \<and>
        0 \<le> ex_semver_compare x a b \<and> 0 \<le> ex_semver_compare x b c \<longrightarrow> 0 \<le> ex_semver_compare x a c)"

lemma compare_valid:
  "valid_version x a \<Longrightarrow> valid_version x b \<Longrightarrow>
   compare_versions x a b = ex_semver_compare x (with_v (trim_space a)) (with_v (trim_space b))"
  by (simp add: compare_versions_def valid_version_def Let_def)

lemma compare_versions_trans:
  assumes "semver_laws x" "valid_version x a" "valid_version x b" "valid_version x c"
    "0 \<le> compare_versions x a b" "0 \<le> compare_versions x b c"
  shows "0 \<le> compare_versions x a c"
  using assms(1,5,6) unfolding compare_valid [OF assms(2,3)] compare_valid [OF assms(3,4)] compare_valid [OF assms(2,4)]
  by (metis (no_types) assms(2-4) semver_laws_def valid_version_def)

lemma compare_versions_refl: "semver_laws x \<Longrightarrow> compare_versions x a a = 0"
  by (simp add: semver_laws_def compare_versions_def Let_def)

lemma compare_versions_pos: "0 < compare_versions x a b \<Longrightarrow> valid_version x a"
  by (auto simp: compare_versions_def valid_version_def Let_def split: if_splits)

lemma valid_version_text: "semver_laws x \<Longrightarrow> valid_version x v \<Longrightarrow> v \<noteq> ''''"
  by (auto simp: semver_laws_def valid_version_def with_v_def trim_space_def)

subsection \<open>A check keeps the record\<close>

text \<open>What a state may become: its highest version stays or rises, its release stays, goes or is vouched for.\<close>

definition grows :: "ext \<Rightarrow> client_config \<Rightarrow> client_state \<Rightarrow> client_state \<Rightarrow> bool" where
  "grows x cfg s s' \<longleftrightarrow>
     (ct_highest s' = ct_highest s \<or>
      (valid_version x (ct_highest s') \<and> (ct_highest s \<noteq> '''' \<longrightarrow> 0 \<le> compare_versions x (ct_highest s') (ct_highest s)))) \<and>
     (\<forall>r. ct_cached s' = Some r \<longrightarrow> ct_cached s = Some r \<or> vouched x cfg r)"

lemma grows_refl [simp]: "grows x cfg s s"
  by (simp add: grows_def)

lemma grows_same: "ct_highest s' = ct_highest s \<Longrightarrow> ct_cached s' = ct_cached s \<or> ct_cached s' = None \<Longrightarrow> grows x cfg s s'"
  by (auto simp: grows_def)

lemma save_client_cases:
  assumes "save_client_state cfg s f = (ok, f')"
  shows "client_state_of cfg f' = s \<or> client_state_of cfg f' = client_state_of cfg f"
  using assms
  by (auto simp: save_client_state_def client_state_of_def fs_call_defs split: if_splits option.splits prod.splits)

lemma save_grows:
  assumes "save_client_state cfg s' f = (ok, f')" "grows x cfg s s'" "grows x cfg s (client_state_of cfg f)"
  shows "grows x cfg s (client_state_of cfg f')"
  using save_client_cases [OF assms(1)] assms(2,3) by auto

lemma load_client_cases:
  assumes "load_client_state cfg f = (r, f')"
  shows "client_state_of cfg f' = client_state_of cfg f \<and> (\<forall>s. r = Inr s \<longrightarrow> s = client_state_of cfg f)"
  using assms
  by (auto simp: load_client_state_def client_state_of_def os_read_file_def split: if_splits option.splits client_file.splits)

lemma refresh_grows:
  assumes "refresh_install_id cfg opted_out generated now s f = (r, f')" "grows x cfg s (client_state_of cfg f)"
  shows "grows x cfg s (client_state_of cfg f') \<and> (\<forall>s' b. r = Some (s', b) \<longrightarrow> ct_highest s' = ct_highest s \<and> ct_cached s' = ct_cached s)"
proof -
  have "grows x cfg s (s\<lparr>ct_install_id := i, ct_install_id_at := now\<rparr>)" for i
    by (rule grows_same) simp_all
  with assms show ?thesis
    by (auto simp: refresh_install_id_def Let_def split: if_splits option.splits prod.splits elim: save_grows)
qed

lemma verify_metadata_ok:
  assumes "verify_metadata x cfg rsp b highest now m = Inr v"
  shows "vr_metadata v = m \<and> valid_version x (rm_version m) \<and> rm_channel m = cc_channel cfg \<and> now < rm_expires_at m \<and>
    0 < compare_versions x (rm_version m) (cb_version b) \<and> (highest \<noteq> '''' \<longrightarrow> 0 \<le> compare_versions x (rm_version m) highest)"
proof -
  have "vr_metadata v = m" if "select_target x rsp b m = Inr v"
    using that by (auto simp: select_target_def Let_def split: option.splits if_splits)
  with assms show ?thesis
    by (auto simp: verify_metadata_def split: if_splits)
qed

lemma signed_by_key:
  "signed_by x cfg canonical s \<Longrightarrow>
   \<exists>id key sig raw. cc_keys cfg id = Some key \<and> ex_base64 x sig = Some raw \<and> ex_verify x key canonical raw"
  by (fastforce simp: signed_by_def split: option.splits)

lemma verify_release_ok:
  assumes "verify_release x cfg rsp b highest now = Inr v"
  shows "vouched x cfg v \<and> now < rm_expires_at (vr_metadata v) \<and> 0 < compare_versions x (rm_version (vr_metadata v)) (cb_version b) \<and>
    (highest \<noteq> '''' \<longrightarrow> 0 \<le> compare_versions x (rm_version (vr_metadata v)) highest)"
proof -
  from assms obtain signed sigs canonical m where
    s: "cr_release rsp = Some (signed, sigs)" "ex_canonical x signed = Some canonical"
      "\<exists>s \<in> set sigs. signed_by x cfg canonical s" "ex_metadata x signed = Some m"
      "verify_metadata x cfg rsp b highest now m = Inr v"
    by (auto simp: verify_release_def split: option.splits prod.splits if_splits)
  from s(3) signed_by_key have "\<exists>id key sig raw. cc_keys cfg id = Some key \<and> ex_base64 x sig = Some raw \<and> ex_verify x key canonical raw"
    by blast
  with verify_metadata_ok [OF s(5)] s(2,4) show ?thesis unfolding vouched_def by blast
qed

lemma finish_grows:
  assumes "finish_check cfg unsaved_id r s' f = (k, f')" "grows x cfg s s'" "grows x cfg s (client_state_of cfg f)"
  shows "grows x cfg s (client_state_of cfg f') \<and> ck_release k = r"
  using assms by (auto simp: finish_check_def split: prod.splits elim: save_grows)

definition answers :: "ext \<Rightarrow> client_config \<Rightarrow> current_build \<Rightarrow> instant \<Rightarrow> client_state \<Rightarrow> check_result \<Rightarrow> bool" where
  "answers x cfg b now s k \<longleftrightarrow>
     (\<forall>r. ck_release k = Some r \<longrightarrow> (ct_cached s = Some r \<or> vouched x cfg r) \<and> rm_channel (vr_metadata r) = cc_channel cfg \<and>
        now < rm_expires_at (vr_metadata r) \<and> 0 < compare_versions x (rm_version (vr_metadata r)) (cb_version b))"

lemma cached_answers:
  "ct_cached s' = ct_cached s \<Longrightarrow> ck_release k = cached_release_for_current x cfg s' b now \<Longrightarrow> answers x cfg b now s k"
  by (auto simp: answers_def cached_release_for_current_def Let_def split: option.splits if_splits)

lemma accept_answer_grows:
  assumes "accept_answer x cfg b random now unsaved_id s' answer f = (k, f')" "ct_highest s' = ct_highest s" "ct_cached s' = ct_cached s"
    "grows x cfg s (client_state_of cfg f)"
  shows "grows x cfg s (client_state_of cfg f') \<and> answers x cfg b now s k"
proof -
  obtain s1 f1 where rf: "record_failure cfg random now s' f = (s1, f1)" by (rule prod.exhaust)
  then have s1: "ct_highest s1 = ct_highest s" "ct_cached s1 = ct_cached s"
    using assms(2,3) by (auto simp: record_failure_def Let_def)
  then have "grows x cfg s s1" by (auto intro: grows_same)
  then have f1: "grows x cfg s (client_state_of cfg f1)"
    using rf save_grows [OF _ _ assms(4), of s1] by (cases "save_client_state cfg s1 f") (auto simp: record_failure_def Let_def)
  have failed: "answers x cfg b now s \<lparr>ck_release = cached_release_for_current x cfg s1 b now, ck_checked = True, ck_error = e\<rparr>" for e
    by (rule cached_answers [OF s1(2)]) simp
  have empty: "grows x cfg s (client_state_of cfg f') \<and> answers x cfg b now s k"
    if "finish_check cfg unsaved_id None t f = (k, f')" "ct_highest t = ct_highest s" "ct_cached t = None" for t
    using finish_grows [OF that(1) grows_same assms(4)] that(2,3) by (auto simp: answers_def)
  have found: "grows x cfg s (client_state_of cfg f') \<and> answers x cfg b now s k"
    if v: "verify_release x cfg rsp b (ct_highest s') now = Inr v"
      and k: "finish_check cfg unsaved_id (Some v) (check_done random now (s'\<lparr>ct_highest := rm_version (vr_metadata v),
                           ct_expires_at := rm_expires_at (vr_metadata v), ct_cached := Some v\<rparr>)) f = (k, f')" for rsp v
  proof -
    note o = verify_release_ok [OF v]
    then have "grows x cfg s (check_done random now (s'\<lparr>ct_highest := rm_version (vr_metadata v),
                           ct_expires_at := rm_expires_at (vr_metadata v), ct_cached := Some v\<rparr>))"
      using assms(2) by (auto simp: grows_def check_done_def vouched_def)
    from finish_grows [OF k this assms(4)] o show ?thesis by (auto simp: answers_def vouched_def)
  qed
  show ?thesis
  proof (cases answer)
    case (Inl e) with assms(1) rf f1 failed show ?thesis by (auto simp: accept_answer_def)
  next
    case (Inr rsp)
    show ?thesis
      using assms(1) rf f1 failed empty found assms(2) Inr
      by (auto simp: accept_answer_def Let_def check_done_def split: if_splits sum.splits)
  qed
qed

lemma check_grows:
  assumes "check_if_due x cfg b random now opted_out generated a f = (k, f')"
  shows "grows x cfg (client_state_of cfg f) (client_state_of cfg f') \<and> answers x cfg b now (client_state_of cfg f) k"
proof -
  obtain r f1 where l: "load_client_state cfg f = (r, f1)" by (rule prod.exhaust)
  note lc = load_client_cases [OF l]
  show ?thesis
  proof (cases r)
    case (Inl e) with assms l lc show ?thesis by (auto simp: check_if_due_def answers_def)
  next
    case (Inr s)
    with lc have s: "s = client_state_of cfg f" "client_state_of cfg f1 = s" by auto
    show ?thesis
    proof (cases "check_due now s")
      case False
      with assms l Inr s show ?thesis by (auto simp: check_if_due_def intro: cached_answers)
    next
      case True
      define s1 where "s1 = (if 3 \<le> ct_failures s then s\<lparr>ct_failures := 0\<rparr> else s)"
      have e1: "ct_highest s1 = ct_highest s" "ct_cached s1 = ct_cached s" by (simp_all add: s1_def)
      obtain q f2 where q: "refresh_install_id cfg opted_out generated now s1 f1 = (q, f2)" by (rule prod.exhaust)
      have g: "grows x cfg s1 (client_state_of cfg f1)" unfolding s(2) by (rule grows_same) (simp_all add: e1)
      have shift: "grows x cfg s1 t \<Longrightarrow> grows x cfg s t" for t using e1 by (simp add: grows_def)
      note rg = refresh_grows [OF q g]
      show ?thesis
      proof (cases q)
        case None
        with assms l Inr True q
        have "k = \<lparr>ck_release = cached_release_for_current x cfg s1 b now, ck_checked = True, ck_error = Some ''random''\<rparr>" "f' = f2"
          by (simp_all add: check_if_due_def s1_def [symmetric] Let_def)
        with rg shift s(1) cached_answers [OF e1(2), of k x cfg b now] show ?thesis by simp
      next
        case (Some p)
        obtain s2 un where p: "p = (s2, un)" by (rule prod.exhaust)
        with Some rg have e2: "ct_highest s2 = ct_highest s" "ct_cached s2 = ct_cached s" using e1 by auto
        from assms l Inr True q Some p have "accept_answer x cfg b random now un s2 (body_of a) f2 = (k, f')"
          by (simp add: check_if_due_def s1_def [symmetric] Let_def)
        from accept_answer_grows [OF this e2] rg shift s(1) show ?thesis by auto
      qed
    qed
  qed
qed

subsection \<open>Properties\<close>

lemma client_life_ok:
  "client_life x cfg f \<Longrightarrow>
   (ct_highest (client_state_of cfg f) \<noteq> '''' \<longrightarrow> valid_version x (ct_highest (client_state_of cfg f))) \<and>
   (\<forall>r. ct_cached (client_state_of cfg f) = Some r \<longrightarrow> vouched x cfg r)"
proof (induction rule: client_life.induct)
  case (install f)
  then show ?case by (simp add: client_state_of_def no_client_state_def)
next
  case (step f f')
  from step.hyps(2) obtain b random now opted_out generated a k where
    "check_if_due x cfg b random now opted_out generated a f = (k, f')" by (cases rule: client_step.cases)
  from check_grows [OF this] step.IH show ?case unfolding grows_def by metis
qed

lemma highest_rises:
  assumes "semver_laws x" "(client_step x cfg)\<^sup>*\<^sup>* f f'" "client_life x cfg f" "ct_highest (client_state_of cfg f) \<noteq> ''''"
  shows "client_life x cfg f' \<and> ct_highest (client_state_of cfg f') \<noteq> '''' \<and>
    0 \<le> compare_versions x (ct_highest (client_state_of cfg f')) (ct_highest (client_state_of cfg f))"
  using assms(2)
proof (induction rule: rtranclp_induct)
  case base with assms show ?case by (simp add: compare_versions_refl)
next
  case (step y z)
  let ?h = "\<lambda>f. ct_highest (client_state_of cfg f)"
  from step.hyps(2) obtain b random now opted_out generated a k where
    "check_if_due x cfg b random now opted_out generated a y = (k, z)" by (cases rule: client_step.cases)
  from check_grows [OF this] step.IH have g: "?h z = ?h y \<or> valid_version x (?h z) \<and> 0 \<le> compare_versions x (?h z) (?h y)"
    by (simp add: grows_def)
  have v: "valid_version x (?h y)" "valid_version x (?h f)"
    using client_life_ok [of x cfg y] client_life_ok [OF assms(3)] step.IH assms(4) by auto
  have "?h z \<noteq> ''''" "0 \<le> compare_versions x (?h z) (?h f)"
    using g step.IH valid_version_text [OF assms(1)] compare_versions_trans [OF assms(1) _ v] by auto
  with client_life.step [OF _ step.hyps(2)] step.IH show ?case by simp
qed

text \<open>
  C15: No release is installed that is older than one the client has accepted. Once a check has
  recorded a highest version, then after any further checks, whatever they were answered and whichever
  writes failed, a release that passes the validation before an installation is not below it, and above
  the running build.
\<close>

theorem no_rollback:
  assumes "semver_laws x" "client_life x cfg f" "ct_highest (client_state_of cfg f) \<noteq> ''''"
    "(client_step x cfg)\<^sup>*\<^sup>* f f'"
    "validate_for_install x cfg r b now (fst (load_client_state cfg f')) = None"
  shows "0 \<le> compare_versions x (rm_version (vr_metadata r)) (ct_highest (client_state_of cfg f)) \<and>
    0 < compare_versions x (rm_version (vr_metadata r)) (cb_version b)"
proof -
  let ?v = "rm_version (vr_metadata r)"
  note h = highest_rises [OF assms(1,4,2,3)]
  obtain l g where l: "load_client_state cfg f' = (l, g)" by (rule prod.exhaust)
  from assms(5) l load_client_cases [OF l] h
  have c: "0 < compare_versions x ?v (cb_version b)" "0 \<le> compare_versions x ?v (ct_highest (client_state_of cfg f'))"
    by (auto simp: validate_for_install_def Let_def split: if_splits option.splits sum.splits)
  have "valid_version x (ct_highest (client_state_of cfg f'))" "valid_version x (ct_highest (client_state_of cfg f))"
    using client_life_ok h assms(2,3) by blast+
  from compare_versions_trans [OF assms(1) compare_versions_pos [OF c(1)] this c(2)] h c(1) show ?thesis by simp
qed

text \<open>
  C22: A check answers only with a release that came in an answer signed by one of the client's keys,
  now or when it was kept: over any history of checks it is of the client's channel, unexpired and newer
  than the running build.
\<close>

theorem checked_release_vouched:
  assumes "client_life x cfg f" "check_if_due x cfg b random now opted_out generated a f = (k, f')" "ck_release k = Some r"
  shows "vouched x cfg r \<and> now < rm_expires_at (vr_metadata r) \<and> 0 < compare_versions x (rm_version (vr_metadata r)) (cb_version b)"
  using check_grows [OF assms(2)] client_life_ok [OF assms(1)] assms(3) unfolding answers_def by blast

text \<open>The witnesses: versions are compared by their length, and one key signs everything.\<close>

definition demo_metadata :: release_metadata where
  "demo_metadata = \<lparr>rm_schema = 1, rm_version = ''2.0.0'', rm_commit = '''', rm_channel = ''stable'', rm_published_at = 0,
     rm_expires_at = 1000, rm_notes_url = '''', rm_minimum_updater = '''', rm_minimum_hosted = '''', rm_database = '''',
     rm_targets = []\<rparr>"

definition demo_semver :: ext where
  "demo_semver = \<lparr>ex_semver_valid = \<lambda>a. a \<noteq> ''v'', ex_semver_compare = \<lambda>a b. int (length a) - int (length b),
     ex_canonical = Some, ex_base64 = Some, ex_verify = \<lambda>_ _ _. True, ex_metadata = \<lambda>_. Some demo_metadata, ex_url = \<lambda>_. None\<rparr>"

definition demo_client :: client_config where
  "demo_client = \<lparr>cc_channel = ''stable'', cc_keys = [''k'' \<mapsto> replicate 32 CHR ''s''], cc_path = ''u''\<rparr>"

definition demo_build :: current_build where
  "demo_build = \<lparr>cb_version = ''1.0'', cb_commit = '''', cb_os = ''linux'', cb_arch = ''amd64'', cb_distribution = ''binary''\<rparr>"

definition demo_answer :: answer where
  "demo_answer = Answer 200 (Body \<lparr>cr_schema = 1, cr_latest_version = '''', cr_channel = '''', cr_apply_supported = False,
     cr_action = ''manual'', cr_notes_url = '''', cr_selected_target = '''',
     cr_release = Some (''m'', [\<lparr>sg_key_id = ''k'', sg_algorithm = ''ed25519'', sg_value = ''x''\<rparr>])\<rparr>)"

definition demo_check :: "check_result \<times> client_file fs" where
  "demo_check = check_if_due demo_semver demo_client demo_build (\<lambda>_. 0) 10 True None demo_answer \<lparr>fs_files = Map.empty, fs_faults = []\<rparr>"

lemma demo_check_life: "client_life demo_semver demo_client (snd demo_check)"
proof (rule client_life.step [OF client_life.install client_step.check])
  show "check_if_due demo_semver demo_client demo_build (\<lambda>_. 0) 10 True None demo_answer \<lparr>fs_files = Map.empty, fs_faults = []\<rparr> =
    (fst demo_check, snd demo_check)" by (simp add: demo_check_def)
qed simp

lemma demo_semver_laws: "semver_laws demo_semver"
  by (simp add: semver_laws_def demo_semver_def)

theorem no_rollback_witness:
  "0 \<le> compare_versions demo_semver ''3.0.0'' (ct_highest (client_state_of demo_client (snd demo_check)))"
proof -
  let ?r = "\<lparr>vr_metadata = demo_metadata\<lparr>rm_version := ''3.0.0''\<rparr>, vr_target = blank_target, vr_apply_supported = False, vr_action = ''''\<rparr>"
  have "ct_highest (client_state_of demo_client (snd demo_check)) \<noteq> ''''" by code_simp
  moreover have "validate_for_install demo_semver demo_client ?r demo_build 20
      (fst (load_client_state demo_client (snd demo_check))) = None" by code_simp
  ultimately show ?thesis
    using no_rollback [OF demo_semver_laws demo_check_life _ rtranclp.rtrancl_refl, of ?r demo_build 20] by simp
qed

theorem checked_release_vouched_witness:
  "\<exists>r. ck_release (fst demo_check) = Some r \<and> vouched demo_semver demo_client r"
proof -
  have "(case ck_release (fst demo_check) of None \<Rightarrow> False | Some r \<Rightarrow> True)" by code_simp
  then obtain r where r: "ck_release (fst demo_check) = Some r" by (auto split: option.splits)
  have l: "client_life demo_semver demo_client \<lparr>fs_files = Map.empty, fs_faults = []\<rparr>" by (rule client_life.install) simp
  from checked_release_vouched [OF l _ r, of demo_build "\<lambda>_. 0" 10 True None demo_answer "snd demo_check"] r show ?thesis
    by (simp add: demo_check_def)
qed

end
