(* ===== verification/Schedule.thy ===== *)
theory Schedule
  imports Prelude "HOL-Library.Signed_Division"
begin

section \<open>Schedules\<close>

text \<open>
  \<open>internal/models/schedule.go\<close>: the next run of a repeating task. An instant is its
  nanoseconds since the epoch, a wall-clock reading the nanoseconds a clock that shows it in
  UTC would have. The calendar of package \<open>time\<close> is written out (Gregorian, normalising months
  and days as \<open>time.Date\<close> does); the location database is a parameter, the type \<open>zone\<close> of the
  functions from instants to offsets that stay below a day, which every IANA zone does.

  The loops of \<open>ComputeNextRun\<close> are \<open>advance\<close>, a partial function, so that not returning is
  the value \<open>None\<close>; the locale \<open>recurrence\<close> proves that it returns the first occurrence after
  the given instant for every sequence of occurrences that grows, and is interpreted on the
  fixed, daily and monthly sequences of the code.
\<close>

subsection \<open>The calendar\<close>

definition day_ns :: int where
  "day_ns = 24 * hour"

definition leap_year :: "int \<Rightarrow> bool" where
  "leap_year y \<longleftrightarrow> y mod 4 = 0 \<and> (y mod 100 \<noteq> 0 \<or> y mod 400 = 0)"

definition year_start :: "int \<Rightarrow> int" where
  "year_start y = 365 * (y - 1970) + ((y - 1) div 4 - 492) - ((y - 1) div 100 - 19) + ((y - 1) div 400 - 4)"

definition month_lengths :: "int \<Rightarrow> int list" where
  "month_lengths y = [31, if leap_year y then 29 else 28, 31, 30, 31, 30, 31, 31, 30, 31, 30, 31]"

definition day_number :: "int \<Rightarrow> int \<Rightarrow> int \<Rightarrow> int" where
  "day_number y m d =
     (let y' = y + (m - 1) div 12
      in year_start y' + sum_list (take (nat ((m - 1) mod 12)) (month_lengths y')) + d - 1)"

fun split_month :: "int list \<Rightarrow> int \<Rightarrow> int \<Rightarrow> int \<times> int" where
  "split_month [] m r = (m, r + 1)"
| "split_month (l # ls) m r = (if r < l then (m, r + 1) else split_month ls (m + 1) (r - l))"

definition year_of :: "int \<Rightarrow> int" where
  "year_of n =
     (let y = 1970 + (400 * n) div 146097
      in if n < year_start y then y - 1 else if year_start (y + 1) \<le> n then y + 1 else y)"

definition civil_of_day :: "int \<Rightarrow> int \<times> int \<times> int" where
  "civil_of_day n = (let y = year_of n in (y, split_month (month_lengths y) 1 (n - year_start y)))"

text \<open>\<open>time.Date\<close> of a date and the nanoseconds of its clock, and the date of a reading.\<close>

definition make_wall :: "int \<Rightarrow> int \<Rightarrow> int \<Rightarrow> int \<Rightarrow> int" where
  "make_wall y m d tod = day_number y m d * day_ns + tod"

definition wall_date :: "int \<Rightarrow> int \<times> int \<times> int" where
  "wall_date w = civil_of_day (w div day_ns)"

definition wall_clock :: "int \<Rightarrow> int" where
  "wall_clock w = w mod day_ns"

lemma day_ns_pos [simp]: "0 < day_ns"
  by (simp add: day_ns_def duration_defs)

lemma int_div_bounds:
  assumes "0 < (k::int)"
  shows "k * (x div k) \<le> x" "x < k * (x div k) + k"
proof -
  have "k * (x div k) + x mod k = x" by simp
  with pos_mod_sign [OF assms, of x] pos_mod_bound [OF assms, of x]
  show "k * (x div k) \<le> x" "x < k * (x div k) + k" by linarith+
qed

lemma div_step:
  assumes "0 < (k::int)"
  shows "y div k = (y - 1) div k + (if y mod k = 0 then 1 else 0)"
proof -
  have y: "k * (y div k) + y mod k = y" by simp
  show ?thesis
  proof (cases "y mod k = 0")
    case True
    with y have "y - 1 = k * (y div k - 1) + (k - 1)" by (simp only: right_diff_distrib)
    from int_div_pos_eq [OF this] assms have "(y - 1) div k = y div k - 1" by simp
    with True show ?thesis by simp
  next
    case False
    from y have "y - 1 = k * (y div k) + (y mod k - 1)" by linarith
    moreover have "0 \<le> y mod k - 1" "y mod k - 1 < k"
      using False pos_mod_sign [OF assms, of y] pos_mod_bound [OF assms, of y] by linarith+
    ultimately have "(y - 1) div k = y div k" by (rule int_div_pos_eq)
    with False show ?thesis by simp
  qed
qed

lemma year_start_step:
  "year_start (y + 1) = year_start y + 365 + (if y mod 4 = 0 then 1 else 0)
      - (if y mod 100 = 0 then 1 else 0) + (if y mod 400 = 0 then 1 else 0)"
proof -
  have "y div 4 = (y - 1) div 4 + (if y mod 4 = 0 then 1 else 0)"
    "y div 100 = (y - 1) div 100 + (if y mod 100 = 0 then 1 else 0)"
    "y div 400 = (y - 1) div 400 + (if y mod 400 = 0 then 1 else 0)"
    by (rule div_step, simp)+
  then show ?thesis unfolding year_start_def add_diff_cancel_right' by (simp only: algebra_simps)
qed

lemma year_start_Suc: "year_start (y + 1) = year_start y + (if leap_year y then 366 else 365)"
proof -
  have "y mod 100 = 0 \<Longrightarrow> y mod 4 = 0" "y mod 400 = 0 \<Longrightarrow> y mod 100 = 0"
    using dvd_trans [of 4 100 y] dvd_trans [of 100 400 y] by (simp_all add: dvd_eq_mod_eq_0)
  then show ?thesis unfolding year_start_step leap_year_def
    by (cases "y mod 4 = 0"; cases "y mod 100 = 0"; cases "y mod 400 = 0") simp_all
qed

lemma sum_month_lengths: "sum_list (month_lengths y) = (if leap_year y then 366 else 365)"
  by (simp add: month_lengths_def)

lemma year_start_mono: "y \<le> z \<Longrightarrow> year_start y \<le> year_start z"
proof (induction z rule: int_ge_induct)
  case (step i) then show ?case using year_start_Suc [of i] by (simp split: if_splits)
qed simp

lemma year_start_bounds:
  "146097 * (y - 1970) - 600 \<le> 400 * year_start y" "400 * year_start y \<le> 146097 * (y - 1970) + 800"
proof -
  have "4 * ((y - 1) div 4) \<le> y - 1" "y - 1 < 4 * ((y - 1) div 4) + 4"
    "100 * ((y - 1) div 100) \<le> y - 1" "y - 1 < 100 * ((y - 1) div 100) + 100"
    "400 * ((y - 1) div 400) \<le> y - 1" "y - 1 < 400 * ((y - 1) div 400) + 400"
    by (rule int_div_bounds, simp)+
  then show "146097 * (y - 1970) - 600 \<le> 400 * year_start y" "400 * year_start y \<le> 146097 * (y - 1970) + 800"
    unfolding year_start_def by (simp_all add: algebra_simps)
qed

lemma year_of_bounds: "year_start (year_of n) \<le> n \<and> n < year_start (year_of n + 1)"
proof -
  define y where "y = 1970 + (400 * n) div 146097"
  have n: "146097 * (y - 1970) \<le> 400 * n" "400 * n < 146097 * (y - 1970) + 146097"
    using int_div_bounds [of 146097 "400 * n"] unfolding y_def by simp_all
  have b: "400 * year_start (y - 1) \<le> 146097 * (y - 1970) - 146097 + 800"
    "146097 * (y - 1970) + 2 * 146097 - 600 \<le> 400 * year_start (y + 2)"
    using year_start_bounds(2) [of "y - 1"] year_start_bounds(1) [of "y + 2"]
    by (simp_all add: algebra_simps)
  have d: "year_of n = (if n < year_start y then y - 1 else if year_start (y + 1) \<le> n then y + 1 else y)"
    by (simp add: year_of_def Let_def y_def)
  consider "n < year_start y" | "\<not> n < year_start y" "year_start (y + 1) \<le> n"
    | "\<not> n < year_start y" "\<not> year_start (y + 1) \<le> n" by blast
  then show ?thesis
  proof cases
    case 1
    then have "year_of n = y - 1" using d by simp
    with 1 n b show ?thesis by simp
  next
    case 2
    then have e: "year_of n = y + 1" "y + 1 + 1 = y + 2" using d by simp_all
    from 2 n b show ?thesis unfolding e by simp
  next
    case 3 then show ?thesis using d by simp
  qed
qed

lemma year_of_unique:
  assumes "year_start y \<le> n" "n < year_start (y + 1)"
  shows "year_of n = y"
proof -
  have "\<not> year_of n < y" using year_start_mono [of "year_of n + 1" y] year_of_bounds [of n] assms by auto
  moreover have "\<not> y < year_of n" using year_start_mono [of "y + 1" "year_of n"] year_of_bounds [of n] assms by auto
  ultimately show ?thesis by simp
qed

lemma split_month_sound:
  assumes "0 \<le> r" "r < sum_list ls"
  shows "\<exists>j < length ls. split_month ls m r = (m + int j, r - sum_list (take j ls) + 1) \<and>
           0 \<le> r - sum_list (take j ls) \<and> r - sum_list (take j ls) < ls ! j"
  using assms
proof (induction ls arbitrary: m r)
  case (Cons l ls)
  show ?case
  proof (cases "r < l")
    case True with Cons.prems show ?thesis by (intro exI [of _ 0]) simp
  next
    case False
    with Cons.prems have "0 \<le> r - l" "r - l < sum_list ls" by auto
    from Cons.IH [OF this, of "m + 1"] obtain j where "j < length ls"
      "split_month ls (m + 1) (r - l) = (m + 1 + int j, r - l - sum_list (take j ls) + 1)"
      "0 \<le> r - l - sum_list (take j ls)" "r - l - sum_list (take j ls) < ls ! j" by auto
    with False show ?thesis by (intro exI [of _ "Suc j"]) (simp add: algebra_simps)
  qed
qed simp

lemma split_month_complete:
  assumes "j < length ls" "0 \<le> d" "d < ls ! j" "\<forall>l \<in> set ls. 0 \<le> l"
  shows "split_month ls m (sum_list (take j ls) + d) = (m + int j, d + 1)"
  using assms
proof (induction ls arbitrary: m j)
  case (Cons l ls)
  show ?case
  proof (cases j)
    case 0 with Cons.prems show ?thesis by simp
  next
    case (Suc i)
    have "0 \<le> sum_list (take i ls)" using Cons.prems(4) by (auto intro!: sum_list_nonneg dest: in_set_takeD)
    with Suc Cons.prems Cons.IH [of i "m + 1"] show ?thesis by simp
  qed
qed simp

text \<open>A day number and its date determine each other.\<close>

lemma civil_of_dayE:
  obtains y m d where "civil_of_day n = (y, m, d)" "1 \<le> m" "m \<le> 12" "1 \<le> d"
    "d \<le> month_lengths y ! nat (m - 1)" "day_number y m d = n"
proof -
  let ?y = "year_of n" and ?r = "n - year_start (year_of n)"
  have "0 \<le> ?r" "?r < sum_list (month_lengths ?y)"
    using year_of_bounds [of n] year_start_Suc [of ?y] by (auto simp: sum_month_lengths)
  from split_month_sound [OF this, of 1] obtain j where j: "j < 12"
    "split_month (month_lengths ?y) 1 ?r = (1 + int j, ?r - sum_list (take j (month_lengths ?y)) + 1)"
    "0 \<le> ?r - sum_list (take j (month_lengths ?y))" "?r - sum_list (take j (month_lengths ?y)) < month_lengths ?y ! j"
    by (auto simp: month_lengths_def)
  then show thesis
    by (intro that [of ?y "1 + int j" "?r - sum_list (take j (month_lengths ?y)) + 1"])
      (simp_all add: civil_of_day_def Let_def day_number_def)
qed

lemma civil_of_day_number:
  assumes "1 \<le> m" "m \<le> 12" "1 \<le> d" "d \<le> month_lengths y ! nat (m - 1)"
  shows "civil_of_day (day_number y m d) = (y, m, d)"
proof -
  let ?ls = "month_lengths y" and ?j = "nat (m - 1)"
  have len: "?j < length ?ls" using assms by (simp add: month_lengths_def)
  have pos: "\<forall>l \<in> set ?ls. 0 \<le> l" by (simp add: month_lengths_def)
  have n: "day_number y m d = year_start y + sum_list (take ?j ?ls) + (d - 1)"
    using assms by (simp add: day_number_def Let_def)
  have "0 \<le> sum_list (take ?j ?ls)" using pos by (auto intro!: sum_list_nonneg dest: in_set_takeD)
  moreover have "sum_list (take ?j ?ls) + (d - 1) < sum_list ?ls"
  proof -
    have "sum_list ?ls = sum_list (take ?j ?ls) + (?ls ! ?j + sum_list (drop (Suc ?j) ?ls))"
      by (metis Cons_nth_drop_Suc append_take_drop_id len sum_list.Cons sum_list_append)
    moreover have "0 \<le> sum_list (drop (Suc ?j) ?ls)" using pos by (auto intro!: sum_list_nonneg dest: in_set_dropD)
    ultimately show ?thesis using assms(4) by simp
  qed
  ultimately have "year_of (day_number y m d) = y"
    using assms(3) by (intro year_of_unique) (auto simp: n year_start_Suc sum_month_lengths)
  then show ?thesis
    using split_month_complete [OF len _ _ pos, of "d - 1" 1] assms
    by (simp add: civil_of_day_def Let_def n)
qed

lemma make_wall_of_wall:
  "(case wall_date w of (y, m, d) \<Rightarrow> make_wall y m d (wall_clock w)) = w"
  by (rule civil_of_dayE [of "w div day_ns"]) (simp add: wall_date_def make_wall_def wall_clock_def)

lemma wall_date_eqI:
  "wall_date w = wall_date v \<Longrightarrow> wall_clock w = wall_clock v \<Longrightarrow> w = v"
  by (metis make_wall_of_wall)

lemma wall_date_make_wall:
  assumes "1 \<le> m" "m \<le> 12" "1 \<le> d" "d \<le> month_lengths y ! nat (m - 1)" "0 \<le> tod" "tod < day_ns"
  shows "wall_date (make_wall y m d tod) = (y, m, d)" "wall_clock (make_wall y m d tod) = tod"
  using assms civil_of_day_number [OF assms(1-4)]
  by (simp_all add: wall_date_def wall_clock_def make_wall_def)

subsection \<open>Locations\<close>

typedef zone = "{off :: instant \<Rightarrow> duration. \<forall>t. \<bar>off t\<bar> \<le> day_ns}"
  by (rule exI [of _ "\<lambda>_. 0"]) (simp add: less_imp_le)

setup_lifting type_definition_zone

lift_definition zone_off :: "zone \<Rightarrow> instant \<Rightarrow> duration" is "\<lambda>off. off" .

lift_definition fixed_zone :: "duration \<Rightarrow> zone" is "\<lambda>c t. if \<bar>c\<bar> \<le> day_ns then c else 0"
  by (simp add: less_imp_le)

text \<open>A location with one forward transition at an instant, from one offset to a larger one.\<close>

lift_definition gap_zone :: "instant \<Rightarrow> duration \<Rightarrow> duration \<Rightarrow> zone" is
  "\<lambda>T o1 o2 t. if \<bar>o1\<bar> \<le> day_ns \<and> \<bar>o2\<bar> \<le> day_ns then if t < T then o1 else o2 else 0"
  by (simp add: less_imp_le)

lemma zone_off_bound: "\<bar>zone_off z t\<bar> \<le> day_ns"
  by transfer simp

definition local_wall :: "zone \<Rightarrow> instant \<Rightarrow> int" where
  "local_wall z t = t + zone_off z t"

text \<open>
  How \<open>time.Date\<close> finds the instant of a reading: the offset at the reading taken as UTC,
  corrected once by the offset at the instant it leads to.
\<close>

definition date_in :: "zone \<Rightarrow> int \<Rightarrow> instant" where
  "date_in z w =
     (let off = zone_off z w
      in if off = 0 then w else w - zone_off z (w - off))"

lemma date_in_bound: "w - day_ns \<le> date_in z w"
  using zone_off_bound [of z w] zone_off_bound [of z "w - zone_off z w"]
  by (simp add: date_in_def Let_def abs_le_iff less_imp_le)

subsection \<open>The occurrences of a schedule\<close>

datatype repeat_type = RepeatOnce | RepeatSeconds | RepeatMinutes | RepeatHours
  | RepeatDaily | RepeatWeekly | RepeatMonthly | RepeatUnknown string

record schedule =
  sc_id :: string
  sc_task_id :: string
  sc_run_at :: instant
  sc_repeat_type :: repeat_type
  sc_repeat_interval :: int
  sc_enabled :: bool
  sc_clear_context_on_start :: bool
  sc_next_run :: "instant option"
  sc_last_run :: "instant option"

definition max_schedule_repeat_interval :: int where
  "max_schedule_repeat_interval = 365"

definition validate_schedule_repeat_interval :: "int \<Rightarrow> bool" where
  "validate_schedule_repeat_interval n \<longleftrightarrow> \<not> (n < 1 \<or> n > max_schedule_repeat_interval)"

definition is_sub_daily :: "repeat_type \<Rightarrow> bool" where
  "is_sub_daily rt \<longleftrightarrow> rt = RepeatSeconds \<or> rt = RepeatMinutes \<or> rt = RepeatHours"

definition local_calendar_occurrence :: "zone \<Rightarrow> instant \<Rightarrow> int \<Rightarrow> instant" where
  "local_calendar_occurrence z anchor days =
     (case wall_date (local_wall z anchor) of (ay, am, ad) \<Rightarrow>
      let clock = wall_clock (local_wall z anchor)
      in case wall_date (make_wall ay am (ad + days) (12 * hour)) of (year, month, day) \<Rightarrow>
         let occurrence = date_in z (make_wall year month day clock)
         in if wall_date (local_wall z occurrence) = (year, month, day) \<and>
               wall_clock (local_wall z occurrence) = clock
            then occurrence
            else let requested = make_wall year month day clock;
                     actual = (case wall_date (local_wall z occurrence) of (oy, om, od) \<Rightarrow>
                                 make_wall oy om od (wall_clock (local_wall z occurrence)))
                 in if actual < requested then occurrence + time_sub requested actual else occurrence)"

definition last_day_of_month :: "zone \<Rightarrow> int \<Rightarrow> int \<Rightarrow> int" where
  "last_day_of_month z year month =
     snd (snd (wall_date (local_wall z (date_in z (make_wall year (month + 1) 0 0)))))"

definition month_index :: "int \<Rightarrow> int \<Rightarrow> int \<times> int" where
  "month_index year idx =
     (let y = year + idx sdiv 12; i = idx smod 12
      in if i < 0 then (y - 1, i + 12) else (y, i))"

definition add_months_clamped :: "zone \<Rightarrow> instant \<Rightarrow> int \<Rightarrow> instant" where
  "add_months_clamped z anchor months =
     (case wall_date (local_wall z anchor) of (ay, am, ad) \<Rightarrow>
      case month_index ay (am - 1 + months) of (year, i) \<Rightarrow>
      let target_month = i + 1;
          last = last_day_of_month z year target_month;
          day = (if ad > last then last else ad)
      in date_in z (make_wall year target_month day (wall_clock (local_wall z anchor))))"

partial_function (option) advance ::
  "(int \<Rightarrow> instant) \<Rightarrow> int \<Rightarrow> instant \<Rightarrow> int \<Rightarrow> instant \<Rightarrow> instant option" where
  "advance occ step from k next =
     (if next > from then Some next else advance occ step from (k + step) (occ (k + step)))"

definition jump :: "instant \<Rightarrow> duration \<Rightarrow> instant \<Rightarrow> instant" where
  "jump run_at interval from =
     (let elapsed = time_sub from run_at
      in if elapsed > 0 then run_at + (elapsed sdiv interval) * interval else run_at)"

definition next_fixed :: "instant \<Rightarrow> duration \<Rightarrow> instant \<Rightarrow> instant option" where
  "next_fixed run_at interval from =
     (let start = jump run_at interval from
      in advance (\<lambda>k. start + k * interval) 1 from 0 start)"

definition repeat_unit :: "repeat_type \<Rightarrow> duration" where
  "repeat_unit rt = (case rt of RepeatSeconds \<Rightarrow> second | RepeatMinutes \<Rightarrow> minute | _ \<Rightarrow> hour)"

text \<open>The outer option is whether the loops return, the inner one the pointer of the code.\<close>

definition compute_next_run :: "zone \<Rightarrow> schedule \<Rightarrow> instant \<Rightarrow> instant option option" where
  "compute_next_run z s from =
     (if \<not> validate_schedule_repeat_interval (sc_repeat_interval s) then Some None
      else case sc_repeat_type s of
             RepeatOnce \<Rightarrow> Some None
           | RepeatSeconds \<Rightarrow> map_option Some (next_fixed (sc_run_at s) (sc_repeat_interval s * second) from)
           | RepeatMinutes \<Rightarrow> map_option Some (next_fixed (sc_run_at s) (sc_repeat_interval s * minute) from)
           | RepeatHours \<Rightarrow> map_option Some (next_fixed (sc_run_at s) (sc_repeat_interval s * hour) from)
           | RepeatDaily \<Rightarrow>
               map_option Some (advance (local_calendar_occurrence z (sc_run_at s))
                                  (sc_repeat_interval s) from 0 (sc_run_at s))
           | RepeatWeekly \<Rightarrow>
               map_option Some (advance (local_calendar_occurrence z (sc_run_at s))
                                  (7 * sc_repeat_interval s) from 0 (sc_run_at s))
           | RepeatMonthly \<Rightarrow>
               map_option Some (advance (add_months_clamped z (sc_run_at s))
                                  (sc_repeat_interval s) from 0 (sc_run_at s))
           | RepeatUnknown _ \<Rightarrow> Some None)"

subsection \<open>The first occurrence after an instant\<close>

definition nth_occurrence :: "instant \<Rightarrow> (int \<Rightarrow> instant) \<Rightarrow> int \<Rightarrow> nat \<Rightarrow> instant" where
  "nth_occurrence start occ step n = (if n = 0 then start else occ (int n * step))"

text \<open>
  A recurrence passes every instant. Then the loop returns, with the first occurrence after
  \<open>from\<close>.
\<close>

locale recurrence =
  fixes start :: instant and occ :: "int \<Rightarrow> instant" and step :: int
  assumes passes: "\<exists>n::nat. from < occ (int (Suc n) * step)"
begin

lemma passes_nth: "\<exists>n. from < nth_occurrence start occ step n"
proof -
  from passes [of "from"] obtain n where "from < occ (int (Suc n) * step)" by blast
  then show ?thesis by (intro exI [of _ "Suc n"]) (simp add: nth_occurrence_def)
qed

lemma advance_reaches:
  assumes "i \<le> n" "from < nth_occurrence start occ step n"
    "\<And>j. j < n \<Longrightarrow> nth_occurrence start occ step j \<le> from"
  shows "advance occ step from (int i * step) (nth_occurrence start occ step i) =
    Some (nth_occurrence start occ step n)"
  using assms(1)
proof (induction rule: inc_induct)
  case base
  with assms(2) show ?case by (subst advance.simps) simp
next
  case (step i)
  have "nth_occurrence start occ step (Suc i) = occ (int i * step + step)"
    by (simp add: nth_occurrence_def algebra_simps)
  moreover have "int (Suc i) * step = int i * step + step" by (simp add: algebra_simps)
  ultimately show ?case using step assms(3) [of i]
    by (subst advance.simps) simp
qed

lemma advance_first:
  "\<exists>n. advance occ step from 0 start = Some (nth_occurrence start occ step n) \<and>
       from < nth_occurrence start occ step n \<and> (\<forall>j<n. nth_occurrence start occ step j \<le> from)"
proof -
  define n where "n = (LEAST n. from < nth_occurrence start occ step n)"
  have n: "from < nth_occurrence start occ step n"
    unfolding n_def using passes_nth by (rule LeastI_ex)
  have least: "\<And>j. j < n \<Longrightarrow> nth_occurrence start occ step j \<le> from"
    unfolding n_def by (auto dest: not_less_Least)
  from advance_reaches [of 0 n "from", OF _ n least] n least show ?thesis
    by (intro exI [of _ n]) (auto simp: nth_occurrence_def)
qed

end

text \<open>The requested reading is the anchor's, moved by whole days.\<close>

lemma day_number_add: "day_number y m (d + k) = day_number y m d + k"
  by (simp add: day_number_def Let_def)

lemma noon: "0 \<le> 12 * hour" "12 * hour < day_ns"
  by (simp_all add: day_ns_def duration_defs)

lemma noon_div: "(n * day_ns + 12 * hour) div day_ns = n"
  by (simp add: day_ns_def duration_defs)

lemma wall_day_add: "(w + n * day_ns) div day_ns = w div day_ns + n"
  using div_mult_self1 [of day_ns w n] day_ns_pos by (simp del: day_ns_pos)

lemma requested_wall:
  assumes "wall_date w = (ay, am, ad)" "wall_date (make_wall ay am (ad + days) (12 * hour)) = (y, m, d)"
  shows "make_wall y m d (wall_clock w) = w + days * day_ns"
proof -
  have w: "day_number ay am ad = w div day_ns"
    by (rule civil_of_dayE [of "w div day_ns"]) (use assms(1) in \<open>auto simp: wall_date_def\<close>)
  have "make_wall ay am (ad + days) (12 * hour) div day_ns = w div day_ns + days"
    unfolding make_wall_def day_number_add w by (rule noon_div)
  then have "civil_of_day (w div day_ns + days) = (y, m, d)"
    using assms(2) by (simp add: wall_date_def)
  then have "day_number y m d = w div day_ns + days"
    by - (rule civil_of_dayE [of "w div day_ns + days"], auto)
  then show ?thesis
    by (simp add: make_wall_def wall_clock_def algebra_simps)
qed

lemma local_calendar_occurrence_eq:
  defines "w \<equiv> \<lambda>z anchor days. local_wall z anchor + days * day_ns"
  shows "local_calendar_occurrence z anchor days =
    (let t = date_in z (w z anchor days); v = local_wall z t
     in if v = w z anchor days then t
        else if v < w z anchor days then t + time_sub (w z anchor days) v else t)"
proof -
  let ?a = "local_wall z anchor"
  obtain ay am ad where a: "wall_date ?a = (ay, am, ad)" by (metis prod_cases3)
  obtain y m d where d: "wall_date (make_wall ay am (ad + days) (12 * hour)) = (y, m, d)" by (metis prod_cases3)
  have r: "make_wall y m d (wall_clock ?a) = ?a + days * day_ns"
    by (rule requested_wall [OF a d])
  have dd: "wall_date (?a + days * day_ns) = (y, m, d)" "wall_clock (?a + days * day_ns) = wall_clock ?a"
  proof -
    have "civil_of_day (make_wall ay am (ad + days) (12 * hour) div day_ns) = (y, m, d)"
      using d by (simp add: wall_date_def)
    moreover have "make_wall ay am (ad + days) (12 * hour) div day_ns = ?a div day_ns + days"
    proof -
      have "day_number ay am ad = ?a div day_ns"
        by (rule civil_of_dayE [of "?a div day_ns"]) (use a in \<open>auto simp: wall_date_def\<close>)
      then show ?thesis unfolding make_wall_def day_number_add by (simp only: noon_div)
    qed
    ultimately show "wall_date (?a + days * day_ns) = (y, m, d)" by (simp add: wall_date_def wall_day_add)
  qed (simp add: wall_clock_def)
  have act: "(case wall_date v of (oy, om, od) \<Rightarrow> make_wall oy om od (wall_clock v)) = v" for v
    by (rule make_wall_of_wall)
  have eq: "(wall_date v = (y, m, d) \<and> wall_clock v = wall_clock ?a) \<longleftrightarrow> v = ?a + days * day_ns" for v
    using dd wall_date_eqI [of v "?a + days * day_ns"] by auto
  show ?thesis
    unfolding local_calendar_occurrence_def a prod.case Let_def d r w_def act eq by simp
qed

lemma time_sub_nonneg: "u \<le> t \<Longrightarrow> 0 \<le> time_sub t u"
  by (simp add: time_sub_def min_duration_def max_duration_def)

lemma local_calendar_occurrence_ge:
  "anchor + (days - 2) * day_ns \<le> local_calendar_occurrence z anchor days"
proof -
  let ?w = "local_wall z anchor + days * day_ns"
  have "anchor + (days - 2) * day_ns \<le> date_in z ?w"
    using date_in_bound [of ?w z] zone_off_bound [of z anchor]
    by (simp add: local_wall_def algebra_simps abs_le_iff)
  moreover have "date_in z ?w \<le> local_calendar_occurrence z anchor days"
    using time_sub_nonneg [of "local_wall z (date_in z ?w)" ?w]
    by (simp add: local_calendar_occurrence_eq Let_def)
  ultimately show ?thesis by linarith
qed

lemma unbounded_step:
  "0 < (c::int) \<Longrightarrow> \<exists>n::nat. b < a + int (Suc n) * c"
proof -
  assume c: "0 < c"
  have "b - a \<le> \<bar>b - a\<bar> * c" using c mult_left_mono [of 1 c "\<bar>b - a\<bar>"] by simp
  then show ?thesis using c by (intro exI [of _ "nat \<bar>b - a\<bar>"]) (simp add: algebra_simps)
qed

interpretation fixed: recurrence start "\<lambda>k. start + k * int (Suc i)" 1 for start i
proof (unfold_locales, goal_cases)
  case (1 b)
  show ?case using unbounded_step [of "int (Suc i)" b start] by simp
qed

interpretation daily: recurrence start "local_calendar_occurrence z anchor" "int (Suc i)" for start z anchor i
proof (unfold_locales, goal_cases)
  case (1 b)
  obtain n :: nat where "b < anchor - 2 * day_ns + int (Suc n) * (int (Suc i) * day_ns)"
    using unbounded_step [of "int (Suc i) * day_ns"] by (metis day_ns_pos of_nat_0_less_iff zero_less_Suc mult_pos_pos)
  with local_calendar_occurrence_ge [of anchor "int (Suc n) * int (Suc i)" z] show ?case
    by (intro exI [of _ n]) (simp add: algebra_simps)
qed

lemma month_index_spec:
  assumes "month_index year idx = (y, i)"
  shows "0 \<le> i" "i < 12" "12 * y + i = 12 * year + idx"
proof -
  define q r where "q = idx sdiv 12" and "r = idx smod 12"
  have "idx = 12 * q + r \<and> - 12 < r \<and> r < 12"
  proof (cases "0 \<le> idx")
    case True
    then have "q = idx div 12" "r = idx mod 12"
      by (simp_all add: q_def r_def signed_modulo_int_def signed_divide_int_def sgn_if)
    then show ?thesis using pos_mod_bound [of 12 idx] pos_mod_sign [of 12 idx] by simp
  next
    case False
    then have "q = - ((- idx) div 12)" "r = - ((- idx) mod 12)"
      by (simp_all add: q_def r_def signed_modulo_int_def signed_divide_int_def sgn_if)
    moreover have "12 * ((- idx) div 12) + (- idx) mod 12 = - idx" by (rule mult_div_mod_eq)
    ultimately show ?thesis using pos_mod_bound [of 12 "- idx"] pos_mod_sign [of 12 "- idx"] by linarith
  qed
  then show "0 \<le> i" "i < 12" "12 * y + i = 12 * year + idx"
    using assms unfolding month_index_def q_def [symmetric] r_def [symmetric] Let_def
    by (auto split: if_splits)
qed

lemma wall_date_bounds:
  "wall_date w = (y, m, d) \<Longrightarrow> 1 \<le> m \<and> m \<le> 12 \<and> 1 \<le> d \<and> d \<le> month_lengths y ! nat (m - 1)"
  by (rule civil_of_dayE [of "w div day_ns"]) (auto simp: wall_date_def)

lemma wall_clock_bounds: "0 \<le> wall_clock w" "wall_clock w < day_ns"
  by (simp_all add: wall_clock_def)

lemma last_day_of_month_pos: "1 \<le> last_day_of_month z y m"
  unfolding last_day_of_month_def by (rule civil_of_dayE [of "local_wall z (date_in z (make_wall y (m + 1) 0 0)) div day_ns"])
    (simp add: wall_date_def)

lemma day_number_ge:
  assumes "1 \<le> m" "m \<le> 12" "1 \<le> d"
  shows "year_start y \<le> day_number y m d"
proof -
  have "\<forall>l \<in> set (month_lengths y). 0 \<le> l" by (simp add: month_lengths_def)
  then have "0 \<le> sum_list (take (nat (m - 1)) (month_lengths y))"
    by (auto intro!: sum_list_nonneg dest: in_set_takeD)
  with assms show ?thesis by (simp add: day_number_def Let_def)
qed

lemma add_months_clamped_ge:
  assumes "1970 + 2 + D \<le> y" "0 \<le> D" "wall_date (local_wall z anchor) = (ay, am, ad)"
    "12 * y \<le> 12 * ay + (am - 1 + months)"
  shows "D * day_ns - day_ns \<le> add_months_clamped z anchor months"
proof -
  obtain y' i where yi: "month_index ay (am - 1 + months) = (y', i)" by (rule prod.exhaust)
  note mi = month_index_spec [OF yi]
  have "y \<le> y'" using mi assms(4) by linarith
  then have ys: "year_start y \<le> year_start y'" by (rule year_start_mono)
  have D: "D \<le> year_start y" using year_start_bounds(1) [of y] assms(1,2) by (simp add: algebra_simps)
  define day where "day = (if ad > last_day_of_month z y' (i + 1) then last_day_of_month z y' (i + 1) else ad)"
  have "1 \<le> day" using wall_date_bounds [OF assms(3)] last_day_of_month_pos [of z y' "i + 1"] by (simp add: day_def)
  then have "year_start y' \<le> day_number y' (i + 1) day"
    using mi by (intro day_number_ge) auto
  with D ys have "D \<le> day_number y' (i + 1) day" by linarith
  then have "D * day_ns \<le> day_number y' (i + 1) day * day_ns" by (rule mult_right_mono) (simp add: less_imp_le)
  then have "D * day_ns \<le> make_wall y' (i + 1) day (wall_clock (local_wall z anchor))"
    using wall_clock_bounds(1) [of "local_wall z anchor"] unfolding make_wall_def by linarith
  with date_in_bound [of "make_wall y' (i + 1) day (wall_clock (local_wall z anchor))" z]
  show ?thesis by (simp add: add_months_clamped_def assms(3) yi Let_def day_def)
qed

interpretation monthly: recurrence start "add_months_clamped z anchor" "int (Suc i)" for start z anchor i
proof (unfold_locales, goal_cases)
  case (1 b)
  obtain ay am ad where a: "wall_date (local_wall z anchor) = (ay, am, ad)" by (metis prod_cases3)
  define D where "D = \<bar>b div day_ns\<bar> + 2"
  have "b < (b div day_ns + 1) * day_ns"
    using int_div_bounds(2) [of day_ns b] by (simp add: algebra_simps)
  also have "\<dots> \<le> (D - 1) * day_ns" by (rule mult_right_mono) (simp_all add: D_def less_imp_le)
  finally have b: "b < D * day_ns - day_ns" by (simp add: algebra_simps)
  obtain n :: nat where "12 * (1972 + D) < 12 * ay + (am - 1) + int (Suc n) * int (Suc i)"
    using unbounded_step [of "int (Suc i)"] by (metis of_nat_0_less_iff zero_less_Suc)
  then have "D * day_ns - day_ns \<le> add_months_clamped z anchor (int (Suc n) * int (Suc i))"
    by (intro add_months_clamped_ge [OF _ _ a, of D "1972 + D"]) (simp_all add: D_def)
  with b show ?case by (intro exI [of _ n]) simp
qed

subsection \<open>Properties\<close>

text \<open>The specification: the occurrences of a schedule, from its first run on.\<close>

definition schedule_occurrence :: "zone \<Rightarrow> schedule \<Rightarrow> nat \<Rightarrow> instant" where
  "schedule_occurrence z s n =
     (let k = sc_repeat_interval s; t = sc_run_at s
      in case sc_repeat_type s of
           RepeatDaily \<Rightarrow> nth_occurrence t (local_calendar_occurrence z t) k n
         | RepeatWeekly \<Rightarrow> nth_occurrence t (local_calendar_occurrence z t) (7 * k) n
         | RepeatMonthly \<Rightarrow> nth_occurrence t (add_months_clamped z t) k n
         | rt \<Rightarrow> t + int n * (k * repeat_unit rt))"

definition repeats :: "schedule \<Rightarrow> bool" where
  "repeats s \<longleftrightarrow> validate_schedule_repeat_interval (sc_repeat_interval s) \<and>
     sc_repeat_type s \<noteq> RepeatOnce \<and> (\<forall>x. sc_repeat_type s \<noteq> RepeatUnknown x)"

lemma next_fixed_first:
  assumes "0 < c"
  shows "\<exists>n. next_fixed t c b = Some (t + int n * c) \<and> b < t + int n * c \<and> (\<forall>j<n. t + int j * c \<le> b)"
proof -
  define q where "q = (if time_sub b t > 0 then nat (time_sub b t div c) else 0)"
  have j: "jump t c b = t + int q * c"
    using assms pos_imp_zdiv_nonneg_iff [of c "time_sub b t"]
    by (simp add: jump_def Let_def q_def signed_divide_int_def sgn_if)
  have early: "t + int k * c \<le> b" if "k < q" for k
  proof -
    have p: "0 < time_sub b t" using that by (simp add: q_def split: if_splits)
    then have "time_sub b t \<le> b - t" by (auto simp: time_sub_def min_duration_def split: if_splits)
    moreover have "int q * c \<le> time_sub b t"
      using p assms int_div_bounds(1) [OF assms, of "time_sub b t"] pos_imp_zdiv_nonneg_iff [of c "time_sub b t"]
      by (simp add: q_def mult.commute)
    moreover have "int k * c \<le> int q * c" using that assms by (intro mult_right_mono) auto
    ultimately show ?thesis by linarith
  qed
  have c: "c = int (Suc (nat (c - 1)))" using assms by simp
  have nth: "nth_occurrence u (\<lambda>k. u + k * c) 1 k = u + int k * c" for u k
    by (simp add: nth_occurrence_def)
  obtain n where n: "advance (\<lambda>k. jump t c b + k * c) 1 b 0 (jump t c b) = Some (jump t c b + int n * c)"
    "b < jump t c b + int n * c" "\<And>k. k < n \<Longrightarrow> jump t c b + int k * c \<le> b"
    using fixed.advance_first [of "jump t c b" "nat (c - 1)" b, folded c] unfolding nth by blast
  have "t + int k * c \<le> b" if "k < q + n" for k
  proof (cases "k < q")
    case False
    with that n(3) [of "k - q"] j show ?thesis by (simp add: of_nat_diff algebra_simps)
  qed (rule early)
  with n j show ?thesis
    by (intro exI [of _ "q + n"]) (simp add: next_fixed_def Let_def algebra_simps)
qed

lemma fixed_first:
  assumes "compute_next_run z s b = map_option Some (next_fixed (sc_run_at s) c b)"
    "schedule_occurrence z s = (\<lambda>n. sc_run_at s + int n * c)" "0 < c"
  shows "\<exists>n. compute_next_run z s b = Some (Some (schedule_occurrence z s n)) \<and> b < schedule_occurrence z s n \<and>
    (\<forall>j<n. schedule_occurrence z s j \<le> b)"
  using next_fixed_first [of c "sc_run_at s" b] assms by auto

lemma looped_first:
  assumes "compute_next_run z s b = map_option Some (advance occ c b 0 (sc_run_at s))"
    "schedule_occurrence z s = nth_occurrence (sc_run_at s) occ c"
    "\<exists>n. advance occ c b 0 (sc_run_at s) = Some (nth_occurrence (sc_run_at s) occ c n) \<and>
       b < nth_occurrence (sc_run_at s) occ c n \<and> (\<forall>j<n. nth_occurrence (sc_run_at s) occ c j \<le> b)"
  shows "\<exists>n. compute_next_run z s b = Some (Some (schedule_occurrence z s n)) \<and> b < schedule_occurrence z s n \<and>
    (\<forall>j<n. schedule_occurrence z s j \<le> b)"
  using assms by auto

lemma repeating_first:
  assumes "repeats s"
  shows "\<exists>n. compute_next_run z s b = Some (Some (schedule_occurrence z s n)) \<and> b < schedule_occurrence z s n \<and>
    (\<forall>j<n. schedule_occurrence z s j \<le> b)"
proof -
  define k where "k = sc_repeat_interval s"
  from assms have k: "0 < k" and v: "validate_schedule_repeat_interval k"
    by (auto simp: repeats_def validate_schedule_repeat_interval_def k_def)
  have ki: "k = int (Suc (nat (k - 1)))" "7 * k = int (Suc (nat (7 * k - 1)))" using k by simp_all
  note unf = compute_next_run_def schedule_occurrence_def [abs_def] Let_def repeat_unit_def k_def v [unfolded k_def]
  note first = daily.advance_first [where start = "sc_run_at s" and z = z and anchor = "sc_run_at s"]
    monthly.advance_first [where start = "sc_run_at s" and z = z and anchor = "sc_run_at s"]
  have unit: "0 < k * second" "0 < k * minute" "0 < k * hour" using k by (simp_all add: duration_defs)
  show ?thesis
  proof (cases "sc_repeat_type s")
    case RepeatSeconds show ?thesis by (rule fixed_first [OF _ _ unit(1)]) (simp_all add: unf RepeatSeconds)
  next
    case RepeatMinutes show ?thesis by (rule fixed_first [OF _ _ unit(2)]) (simp_all add: unf RepeatMinutes)
  next
    case RepeatHours show ?thesis by (rule fixed_first [OF _ _ unit(3)]) (simp_all add: unf RepeatHours)
  next
    case RepeatDaily
    show ?thesis by (rule looped_first [OF _ _ first(1) [where i = "nat (k - 1)", folded ki]]) (simp_all add: unf RepeatDaily)
  next
    case RepeatWeekly
    show ?thesis by (rule looped_first [OF _ _ first(1) [where i = "nat (7 * k - 1)", folded ki]]) (simp_all add: unf RepeatWeekly)
  next
    case RepeatMonthly
    show ?thesis by (rule looped_first [OF _ _ first(2) [where i = "nat (k - 1)", folded ki]]) (simp_all add: unf RepeatMonthly)
  qed (use assms in \<open>auto simp: repeats_def\<close>)
qed

lemma not_repeating: "\<not> repeats s \<Longrightarrow> compute_next_run z s b = Some None"
  by (cases "sc_repeat_type s") (auto simp: compute_next_run_def repeats_def)

text \<open>
  C26: \<open>ComputeNextRun\<close> always returns, in every location and for every schedule and instant.
  It gives no next run exactly when the schedule does not repeat, and otherwise the first
  occurrence after \<open>from\<close>: the jump of the sub-daily repeats skips none of them.
\<close>

theorem compute_next_run_first:
  "\<exists>r. compute_next_run z s b = Some r \<and> (r = None \<longleftrightarrow> \<not> repeats s) \<and>
     (\<forall>t. r = Some t \<longrightarrow>
        (\<exists>n. t = schedule_occurrence z s n \<and> b < t \<and> (\<forall>j<n. schedule_occurrence z s j \<le> b)))"
proof (cases "repeats s")
  case False with not_repeating show ?thesis by simp
next
  case True with repeating_first [OF True, of z b] show ?thesis by auto
qed

text \<open>
  At a daylight-saving gap the daily and weekly occurrences keep the wall time, except
  that a wall time the gap skips is moved forward by exactly the gap.
\<close>

theorem occurrence_over_gap:
  assumes "\<bar>o1\<bar> \<le> day_ns" "\<bar>o2\<bar> \<le> day_ns" "o1 < o2"
    "w = local_wall (gap_zone T o1 o2) anchor + days * day_ns"
  shows "local_wall (gap_zone T o1 o2) (local_calendar_occurrence (gap_zone T o1 o2) anchor days) =
    (if T + o1 \<le> w \<and> w < T + o2 then w + (o2 - o1) else w)"
proof -
  let ?z = "gap_zone T o1 o2"
  have off: "zone_off ?z t = (if t < T then o1 else o2)" for t
    using assms(1,2) by transfer simp
  have sub: "time_sub w (w - o2 + o1) = o2 - o1"
    using assms(1-3) by (simp add: time_sub_def min_duration_def max_duration_def day_ns_def duration_defs)
  note eq = local_calendar_occurrence_eq [of ?z anchor days, folded assms(4), unfolded Let_def]
  consider (before) "w < T + o1" | (early) "T + o1 \<le> w" "w < T + o2" "w < T"
    | (late) "T + o1 \<le> w" "w < T + o2" "T \<le> w" | (after) "T + o2 \<le> w"
    using assms(3) by linarith
  then show ?thesis
  proof cases
    case before
    then have d: "date_in ?z w = w - o1" using assms(3) by (auto simp: date_in_def Let_def off)
    with before show ?thesis by (simp add: eq d local_wall_def off)
  next
    case early
    then have d: "date_in ?z w = w - o2" by (auto simp: date_in_def Let_def off)
    from early have l: "local_wall ?z (w - o2) = w - o2 + o1" by (simp add: local_wall_def off)
    from early assms(3) show ?thesis by (simp add: eq d l sub) (simp add: local_wall_def off)
  next
    case late
    then have d: "date_in ?z w = w - o1" by (auto simp: date_in_def Let_def off)
    from late assms(3) show ?thesis by (simp add: eq d local_wall_def off)
  next
    case after
    then have d: "date_in ?z w = w - o2" using assms(3) by (auto simp: date_in_def Let_def off)
    from after assms(3) show ?thesis by (simp add: eq d local_wall_def off)
  qed
qed

lemma month_lengths_bounds: "0 \<le> i \<Longrightarrow> i < 12 \<Longrightarrow> 28 \<le> month_lengths y ! nat i \<and> month_lengths y ! nat i \<le> 31"
proof -
  assume "0 \<le> i" "i < 12"
  then have "i = 0 \<or> i = 1 \<or> i = 2 \<or> i = 3 \<or> i = 4 \<or> i = 5 \<or> i = 6 \<or> i = 7 \<or> i = 8 \<or> i = 9 \<or> i = 10 \<or> i = 11"
    by presburger
  then show ?thesis by (elim disjE) (simp_all add: month_lengths_def)
qed

lemma day_number_last:
  assumes "0 \<le> i" "i < 12"
  shows "day_number y (i + 1 + 1) 0 = day_number y (i + 1) (month_lengths y ! nat i)"
proof (cases "i = 11")
  case True
  then show ?thesis
    using year_start_Suc [of y] by (simp add: day_number_def Let_def month_lengths_def)
next
  case False
  have "take (nat (i + 1)) (month_lengths y) = take (nat i) (month_lengths y) @ [month_lengths y ! nat i]"
    using assms False take_Suc_conv_app_nth [of "nat i" "month_lengths y"]
    by (simp add: nat_add_distrib month_lengths_def)
  then have "sum_list (take (nat (i + 1)) (month_lengths y)) =
      sum_list (take (nat i) (month_lengths y)) + month_lengths y ! nat i" by simp
  with assms False show ?thesis unfolding day_number_def Let_def by (simp add: add.commute)
qed

lemma fixed_zone_off: "\<exists>c. zone_off (fixed_zone d) = (\<lambda>_. c)"
  by transfer auto

lemma local_wall_date_in_fixed: "local_wall (fixed_zone d) (date_in (fixed_zone d) w) = w"
  using fixed_zone_off [of d] by (auto simp: local_wall_def date_in_def Let_def)

lemma last_day_of_month_fixed:
  assumes "0 \<le> i" "i < 12"
  shows "last_day_of_month (fixed_zone c) y (i + 1) = month_lengths y ! nat i"
proof -
  have "wall_date (make_wall y (i + 1) (month_lengths y ! nat i) 0) = (y, i + 1, month_lengths y ! nat i)"
    using assms month_lengths_bounds [OF assms, of y] by (intro wall_date_make_wall) auto
  moreover have "make_wall y (i + 1 + 1) 0 0 = make_wall y (i + 1) (month_lengths y ! nat i) 0"
    unfolding make_wall_def day_number_last [OF assms] by simp
  ultimately show ?thesis
    by (simp add: last_day_of_month_def local_wall_date_in_fixed)
qed

text \<open>
  Monthly occurrences fall in the month they should. In a location of one offset, adding
  months gives the date in the month that many later, on the anchor's day or on the last day
  of a month that has no such day, at the anchor's time of day.
\<close>

theorem add_months_clamped_date:
  assumes "wall_date (local_wall (fixed_zone c) anchor) = (y, m, d)"
  shows "\<exists>y' i. 12 * y' + i = 12 * y + (m - 1) + months \<and> 0 \<le> i \<and> i < 12 \<and>
    wall_date (local_wall (fixed_zone c) (add_months_clamped (fixed_zone c) anchor months)) =
      (y', i + 1, min d (month_lengths y' ! nat i)) \<and>
    wall_clock (local_wall (fixed_zone c) (add_months_clamped (fixed_zone c) anchor months)) =
      wall_clock (local_wall (fixed_zone c) anchor)"
proof -
  obtain y' i where yi: "month_index y (m - 1 + months) = (y', i)" by (rule prod.exhaust)
  note mi = month_index_spec [OF yi]
  let ?day = "min d (month_lengths y' ! nat i)" and ?t = "wall_clock (local_wall (fixed_zone c) anchor)"
  have d: "1 \<le> d" using wall_date_bounds [OF assms] by simp
  have a: "add_months_clamped (fixed_zone c) anchor months = date_in (fixed_zone c) (make_wall y' (i + 1) ?day ?t)"
    by (simp add: add_months_clamped_def assms yi Let_def last_day_of_month_fixed [OF mi(1,2)] min_def)
  have "wall_date (make_wall y' (i + 1) ?day ?t) = (y', i + 1, ?day)" "wall_clock (make_wall y' (i + 1) ?day ?t) = ?t"
    using mi d month_lengths_bounds [OF mi(1,2), of y'] wall_clock_bounds
    by (intro wall_date_make_wall; simp)+
  with mi show ?thesis
    by (intro exI [of _ y'] exI [of _ i]) (simp add: a local_wall_date_in_fixed)
qed

text \<open>The last of January plus one month, and the repeating schedule across it.\<close>

theorem add_months_clamped_date_witness:
  "wall_date (local_wall (fixed_zone 0) (add_months_clamped (fixed_zone 0) (30 * day_ns) 1)) = (1970, 2, 28)"
proof -
  have z: "local_wall (fixed_zone 0) t = t" for t
    by (simp add: local_wall_def fixed_zone.rep_eq zone_off.rep_eq)
  have "wall_date (30 * day_ns) = (1970, 1, 31)" by code_simp
  then have "wall_date (local_wall (fixed_zone 0) (30 * day_ns)) = (1970, 1, 31)" by (simp add: z)
  from add_months_clamped_date [OF this, of 1] obtain y i where "12 * y + i = 12 * 1970 + (1 - 1) + 1" "0 \<le> i" "i < 12"
    "wall_date (local_wall (fixed_zone 0) (add_months_clamped (fixed_zone 0) (30 * day_ns) 1)) =
      (y, i + 1, min 31 (month_lengths y ! nat i))" by auto
  moreover from this have "y = 1970" "i = 1" by presburger+
  ultimately show ?thesis by (simp add: month_lengths_def leap_year_def)
qed

theorem occurrence_over_gap_witness:
  "local_wall (gap_zone (10 * day_ns + 2 * hour) 0 hour)
     (local_calendar_occurrence (gap_zone (10 * day_ns + 2 * hour) 0 hour) (9 * day_ns + 2 * hour + minute) 1) =
   10 * day_ns + 3 * hour + minute"
proof -
  have off: "zone_off (gap_zone (10 * day_ns + 2 * hour) 0 hour) t = (if t < 10 * day_ns + 2 * hour then 0 else hour)" for t
    by (simp add: gap_zone.rep_eq zone_off.rep_eq day_ns_def duration_defs)
  have "\<bar>0\<bar> \<le> day_ns" "\<bar>hour\<bar> \<le> day_ns" "0 < hour" by (simp_all add: day_ns_def duration_defs)
  from occurrence_over_gap [OF this refl, of "10 * day_ns + 2 * hour" "9 * day_ns + 2 * hour + minute" 1]
  show ?thesis by (simp add: local_wall_def [of _ "9 * day_ns + 2 * hour + minute"] off) (simp add: day_ns_def duration_defs)
qed


theorem compute_next_run_first_witness:
  "compute_next_run (fixed_zone 0)
     \<lparr>sc_id = ''s'', sc_task_id = ''t'', sc_run_at = 100 * second, sc_repeat_type = RepeatMinutes,
      sc_repeat_interval = 2, sc_enabled = True, sc_clear_context_on_start = False,
      sc_next_run = None, sc_last_run = None\<rparr> (500 * second) = Some (Some (580 * second))"
proof -
  let ?s = "\<lparr>sc_id = ''s'', sc_task_id = ''t'', sc_run_at = 100 * second, sc_repeat_type = RepeatMinutes,
      sc_repeat_interval = 2, sc_enabled = True, sc_clear_context_on_start = False,
      sc_next_run = None, sc_last_run = None\<rparr>"
  have o: "schedule_occurrence (fixed_zone 0) ?s n = 100 * second + int n * (120 * second)" for n
    by (simp add: schedule_occurrence_def repeat_unit_def minute_def)
  have "repeats ?s" by (simp add: repeats_def validate_schedule_repeat_interval_def max_schedule_repeat_interval_def)
  with compute_next_run_first [of "fixed_zone 0" ?s "500 * second"] obtain n where
    n: "compute_next_run (fixed_zone 0) ?s (500 * second) = Some (Some (100 * second + int n * (120 * second)))"
    "500 * second < 100 * second + int n * (120 * second)" "\<forall>j<n. 100 * second + int j * (120 * second) \<le> 500 * second"
    unfolding o by (metis not_None_eq)
  have "3 < n" using n(2) by (simp add: second_def)
  moreover have "\<not> 4 < n" using n(3) by (auto simp: second_def)
  ultimately have "n = 4" by linarith
  with n(1) show ?thesis by simp
qed

end
