(* ===== verification/Retry.thy ===== *)
theory Retry
  imports Prelude
begin

section \<open>HTTP retries\<close>

text \<open>
  \<open>internal/httpretry/http.go\<close> and \<open>request.go\<close>: which failures are transient, how long to
  wait, and the three retry loops \<open>Do\<close>, \<open>DoStream\<close> and \<open>DoStreamTurn\<close>.

  A Go error is its chain of wrappers. What a loop meets outside is one observation per
  attempt: the context's error at each of the code's checks, the request built, the outcome
  of the transport or of the streamed operation, the clock and the jitter factor's effect.
  Theorems quantify over all sequences of observations. The jitter \<open>local * (0.9 + r * 0.2)\<close>,
  a float computation on a random draw, and \<open>http.ParseTime\<close> are arguments. Each loop
  returns its result with the log of the retries it made, in order.
\<close>

subsection \<open>Errors\<close>

datatype go_error =
    ErrText string
  | ErrCanceled
  | ErrDeadlineExceeded
  | ErrEOF
  | ErrUnexpectedEOF
  | ErrNet string
  | UrlError string go_error
  | WrapError string go_error
  | StreamError go_error
  | ResponseError int string go_error

text \<open>\<open>Error()\<close>: the text of an error; \<open>ResponseError\<close> shows only its cause.\<close>

fun err_text :: "go_error \<Rightarrow> string" where
  "err_text (ErrText s) = s"
| "err_text ErrCanceled = ''context canceled''"
| "err_text ErrDeadlineExceeded = ''context deadline exceeded''"
| "err_text ErrEOF = ''EOF''"
| "err_text ErrUnexpectedEOF = ''unexpected EOF''"
| "err_text (ErrNet s) = s"
| "err_text (UrlError op e) = op @ '': '' @ err_text e"
| "err_text (WrapError p e) = p @ '': '' @ err_text e"
| "err_text (StreamError e) = ''stream read: '' @ err_text e"
| "err_text (ResponseError st h e) = err_text e"

text \<open>\<open>errors.Is\<close> and \<open>errors.As\<close> walk the chain from the outside in.\<close>

fun err_chain :: "go_error \<Rightarrow> go_error list" where
  "err_chain (UrlError op e) = UrlError op e # err_chain e"
| "err_chain (WrapError p e) = WrapError p e # err_chain e"
| "err_chain (StreamError e) = StreamError e # err_chain e"
| "err_chain (ResponseError st h e) = ResponseError st h e # err_chain e"
| "err_chain e = [e]"

definition errors_is :: "go_error \<Rightarrow> go_error \<Rightarrow> bool" where
  "errors_is e target \<longleftrightarrow> target \<in> set (err_chain e)"

fun as_url :: "go_error \<Rightarrow> go_error option" where
  "as_url (UrlError op e) = Some e"
| "as_url (WrapError p e) = as_url e"
| "as_url (StreamError e) = as_url e"
| "as_url (ResponseError st h e) = as_url e"
| "as_url e = None"

fun as_response :: "go_error \<Rightarrow> (int \<times> string) option" where
  "as_response (ResponseError st h e) = Some (st, h)"
| "as_response (UrlError op e) = as_response e"
| "as_response (WrapError p e) = as_response e"
| "as_response (StreamError e) = as_response e"
| "as_response e = None"

fun as_stream :: "go_error \<Rightarrow> bool" where
  "as_stream (StreamError e) = True"
| "as_stream (UrlError op e) = as_stream e"
| "as_stream (WrapError p e) = as_stream e"
| "as_stream (ResponseError st h e) = as_stream e"
| "as_stream e = False"

text \<open>
  The errors with the methods of \<open>net.Error\<close>: the transport's, \<open>*url.Error\<close>, and
  \<open>context.DeadlineExceeded\<close>.
\<close>

fun is_net_error :: "go_error \<Rightarrow> bool" where
  "is_net_error (ErrNet s) = True"
| "is_net_error (UrlError op e) = True"
| "is_net_error ErrDeadlineExceeded = True"
| "is_net_error e = False"

definition as_net_error :: "go_error \<Rightarrow> bool" where
  "as_net_error e \<longleftrightarrow> (\<exists>x \<in> set (err_chain e). is_net_error x)"

definition new_stream_error :: "go_error option \<Rightarrow> go_error option" where
  "new_stream_error e = map_option StreamError e"

definition new_response_error :: "(int \<times> string) option \<Rightarrow> go_error option \<Rightarrow> go_error option" where
  "new_response_error resp e =
     (case e of None \<Rightarrow> None
      | Some x \<Rightarrow> (case resp of None \<Rightarrow> Some x | Some (st, h) \<Rightarrow> Some (ResponseError st h x)))"

subsection \<open>Classification\<close>

definition is_retryable_status :: "int \<Rightarrow> bool" where
  "is_retryable_status st \<longleftrightarrow> st \<in> {408, 500, 502, 503, 504, 529}"

definition network_hints :: "string list" where
  "network_hints = [''timeout'', ''timed out'', ''connection refused'', ''connection reset'',
     ''network is unreachable'', ''no such host'', ''broken pipe'', ''unexpected eof'', ''tls handshake'']"

lemma as_url_size: "as_url e = Some x \<Longrightarrow> size x < size e"
  by (induction e rule: as_url.induct) auto

function is_retryable_network_error :: "go_error option \<Rightarrow> bool" where
  "is_retryable_network_error None = False"
| "is_retryable_network_error (Some e) =
     (if errors_is e ErrCanceled then False
      else case as_url e of
             Some x \<Rightarrow> is_retryable_network_error (Some x)
           | None \<Rightarrow>
               errors_is e ErrEOF \<or> errors_is e ErrUnexpectedEOF \<or> as_net_error e \<or>
               (\<exists>h \<in> set network_hints. contains_sub (to_lower (err_text e)) h))"
  by pat_completeness auto
termination
  by (relation "measure (\<lambda>e. case e of None \<Rightarrow> 0 | Some x \<Rightarrow> size x)") (auto dest: as_url_size)

definition rate_limit_hints :: "string list" where
  "rate_limit_hints = [''rate_limit'', ''rate limit'', ''too many requests'', ''usage limit'',
     ''exceeded your account'', ''insufficient_quota'', ''quota exceeded'']"

definition is_non_retryable_rate_limit_message :: "string \<Rightarrow> bool" where
  "is_non_retryable_rate_limit_message msg \<longleftrightarrow> (\<exists>h \<in> set rate_limit_hints. contains_sub msg h)"

text \<open>\<open>strings.Fields\<close>, \<open>strings.Trim\<close> with a cutset, and the integer parsers of \<open>strconv\<close>.\<close>

fun fields_acc :: "string \<Rightarrow> string \<Rightarrow> string list" where
  "fields_acc [] acc = (if acc = [] then [] else [rev acc])"
| "fields_acc (c # s) acc =
     (if is_space c then (if acc = [] then fields_acc s [] else rev acc # fields_acc s [])
      else fields_acc s (c # acc))"

definition fields :: "string \<Rightarrow> string list" where
  "fields s = fields_acc s []"

definition trim_set :: "string \<Rightarrow> string \<Rightarrow> string" where
  "trim_set chars s = rev (dropWhile (\<lambda>c. c \<in> set chars) (rev (dropWhile (\<lambda>c. c \<in> set chars) s)))"

definition is_digit :: "char \<Rightarrow> bool" where
  "is_digit c \<longleftrightarrow> 48 \<le> (of_char c :: nat) \<and> (of_char c :: nat) \<le> 57"

definition digits_value :: "string \<Rightarrow> int" where
  "digits_value s = foldl (\<lambda>n c. n * 10 + (of_char c - 48)) 0 s"

datatype int_parse = ParsedInt int | RangeError | SyntaxError

definition parse_int :: "string \<Rightarrow> int_parse" where
  "parse_int s =
     (let neg = (s \<noteq> [] \<and> hd s = CHR ''-'');
          ds = (if s \<noteq> [] \<and> (hd s = CHR ''-'' \<or> hd s = CHR ''+'') then tl s else s);
          n = (if neg then - digits_value ds else digits_value ds)
      in if ds = [] \<or> \<not> list_all is_digit ds then SyntaxError
         else if n < - 9223372036854775808 \<or> n > 9223372036854775807 then RangeError
         else ParsedInt n)"

definition status_cutset :: string where
  "status_cutset = ''()[]{}:;,.'' @ [CHR 0x22]"

definition message_has_status_code :: "string \<Rightarrow> string \<Rightarrow> bool" where
  "message_has_status_code msg want \<longleftrightarrow>
     (\<exists>f \<in> set (fields msg). trim_set (status_cutset @ [CHR 0x27]) f = want)"

definition transient_hints :: "string list" where
  "transient_hints = [''overloaded'', ''temporar'', ''unavailable'', ''server error'', ''internal_error'',
     ''received from peer'', ''retry your request'', ''try again'']"

definition is_retryable_error :: "go_error option \<Rightarrow> bool" where
  "is_retryable_error err =
     (case (case err of None \<Rightarrow> None | Some e \<Rightarrow> as_response e) of
        Some (st, h) \<Rightarrow> is_retryable_status st
      | None \<Rightarrow>
          if is_retryable_network_error err then True
          else case err of
                 None \<Rightarrow> False
               | Some e \<Rightarrow>
                   if errors_is e ErrCanceled \<or> errors_is e ErrDeadlineExceeded then False
                   else let msg = to_lower (err_text e)
                        in if is_non_retryable_rate_limit_message msg then False
                           else if message_has_status_code msg ''429'' then False
                           else (\<exists>h \<in> set transient_hints. contains_sub msg h) \<or>
                                (\<exists>f \<in> set (fields msg).
                                   case parse_int (trim_set status_cutset f) of
                                     ParsedInt code \<Rightarrow> is_retryable_status code
                                   | _ \<Rightarrow> False))"

definition setup_hints :: "string list" where
  "setup_hints = [''send request'', ''connection refused'', ''network is unreachable'', ''no such host'', ''tls handshake'']"

definition is_connection_setup_failure :: "go_error option \<Rightarrow> bool" where
  "is_connection_setup_failure err =
     (case err of
        None \<Rightarrow> False
      | Some e \<Rightarrow>
          if errors_is e ErrCanceled \<or> errors_is e ErrDeadlineExceeded then False
          else if as_stream e then False
          else if as_response e \<noteq> None then False
          else if \<not> is_retryable_network_error err then False
          else (\<exists>h \<in> set setup_hints. contains_sub (to_lower (err_text e)) h))"

subsection \<open>Delays\<close>

definition default_max_retries :: int where "default_max_retries = 6"
definition default_base_delay :: duration where "default_base_delay = second"
definition default_max_backoff :: duration where "default_max_backoff = 2 * minute"
definition local_backoff_cap :: duration where "local_backoff_cap = 30 * second"
definition stream_turn_max_retries :: int where "stream_turn_max_retries = default_max_retries"

text \<open>The doubling loop stops at the retry's number or at the cap, whichever is first.\<close>

function double_until :: "int \<Rightarrow> int \<Rightarrow> duration \<Rightarrow> duration" where
  "double_until i retry d =
     (if i < retry \<and> d < local_backoff_cap
      then double_until (i + 1) retry (min (d * 2) local_backoff_cap) else d)"
  by pat_completeness auto
termination by (relation "measure (\<lambda>(i, retry, d). nat (retry - i))") auto

declare double_until.simps [simp del]

definition retry_after_delay :: "(string \<Rightarrow> instant option) \<Rightarrow> instant \<Rightarrow> string \<Rightarrow> duration \<Rightarrow> duration" where
  "retry_after_delay parse_time now header loc =
     (let retry_after = trim_space header;
          at_time = (case parse_time retry_after of
                       Some t \<Rightarrow> if time_sub t now > 0 then max loc (time_sub t now) else loc
                     | None \<Rightarrow> loc)
      in case parse_int retry_after of
           ParsedInt n \<Rightarrow>
             if n > 0
             then if n > max_duration div second then max_duration else max loc (n * second)
             else at_time
         | RangeError \<Rightarrow> if \<not> has_prefix retry_after ''-'' then max_duration else at_time
         | SyntaxError \<Rightarrow> at_time)"

definition backoff ::
  "(duration \<Rightarrow> duration) \<Rightarrow> (string \<Rightarrow> instant option) \<Rightarrow> int \<Rightarrow> string option \<Rightarrow> duration \<Rightarrow> instant \<Rightarrow> duration" where
  "backoff jitter parse_time retry header base now =
     (let base = (if base \<le> 0 then default_base_delay else base);
          loc = jitter (double_until 0 retry (min base local_backoff_cap))
      in case header of
           None \<Rightarrow> loc
         | Some h \<Rightarrow> retry_after_delay parse_time now h loc)"

definition stream_turn_backoff ::
  "(duration \<Rightarrow> duration) \<Rightarrow> (string \<Rightarrow> instant option) \<Rightarrow> int \<Rightarrow> instant \<Rightarrow> duration" where
  "stream_turn_backoff jitter parse_time retry now = backoff jitter parse_time (retry - 1) None default_base_delay now"

definition stream_turn_retry_delay ::
  "(duration \<Rightarrow> duration) \<Rightarrow> (string \<Rightarrow> instant option) \<Rightarrow> int \<Rightarrow> go_error \<Rightarrow> instant \<Rightarrow> duration" where
  "stream_turn_retry_delay jitter parse_time retry e now =
     (case as_response e of
        Some (st, h) \<Rightarrow> backoff jitter parse_time (retry - 1) (Some h) default_base_delay now
      | None \<Rightarrow> stream_turn_backoff jitter parse_time retry now)"

subsection \<open>Policies, requests and observations\<close>

record http_request =
  rq_method :: string
  rq_idempotency_key :: string
  rq_has_body :: bool
  rq_get_body :: bool

record http_response =
  rs_status :: int
  rs_retry_after :: string

record policy =
  po_max_retries :: int
  po_base_delay :: duration
  po_max_backoff :: duration
  po_wrap_network_error :: "(go_error \<Rightarrow> go_error) option"
  po_allow_replay :: bool
  po_retryable_error :: "(go_error \<Rightarrow> bool) option"
  po_retryable_response :: "(http_response \<Rightarrow> bool) option"

definition default_policy :: policy where
  "default_policy = \<lparr>po_max_retries = default_max_retries, po_base_delay = default_base_delay,
     po_max_backoff = default_max_backoff, po_wrap_network_error = None, po_allow_replay = False,
     po_retryable_error = None, po_retryable_response = None\<rparr>"

definition normalize :: "policy \<Rightarrow> policy" where
  "normalize p =
     (let p1 = (if po_max_retries p < 0 then p\<lparr>po_max_retries := 0\<rparr> else p);
          p2 = (if po_base_delay p1 \<le> 0 then p1\<lparr>po_base_delay := default_base_delay\<rparr> else p1)
      in if po_max_backoff p2 \<le> 0 then p2\<lparr>po_max_backoff := default_max_backoff\<rparr> else p2)"

definition retryable_error :: "policy \<Rightarrow> go_error \<Rightarrow> bool" where
  "retryable_error p e \<longleftrightarrow>
     is_retryable_error (Some e) \<or> (case po_retryable_error p of None \<Rightarrow> False | Some f \<Rightarrow> f e)"

definition retryable_response :: "policy \<Rightarrow> http_response \<Rightarrow> bool" where
  "retryable_response p r \<longleftrightarrow>
     is_retryable_status (rs_status r) \<or> (case po_retryable_response p of None \<Rightarrow> False | Some f \<Rightarrow> f r)"

definition request_replayable :: "http_request \<Rightarrow> policy \<Rightarrow> bool" where
  "request_replayable r p \<longleftrightarrow>
     po_allow_replay p \<or> trim_space (rq_idempotency_key r) \<noteq> '''' \<or>
     rq_method r \<in> {''GET'', ''HEAD'', ''PUT'', ''DELETE'', ''OPTIONS'', ''TRACE''}"

definition wrapped :: "policy \<Rightarrow> go_error \<Rightarrow> go_error" where
  "wrapped p e = (case po_wrap_network_error p of None \<Rightarrow> e | Some f \<Rightarrow> f e)"

text \<open>What one attempt meets, and one entry of the log.\<close>

record attempt_obs =
  ob_ctx_before :: "go_error option"
  ob_ctx_after :: "go_error option"
  ob_ctx_wait :: "go_error option"
  ob_select :: "go_error option"
  ob_now :: instant
  ob_jitter :: "duration \<Rightarrow> duration"

record retry_event =
  re_attempt :: int
  re_max_retries :: int
  re_delay :: duration
  re_status :: int
  re_err :: "go_error option"

datatype retry_log = Notified retry_event | Recovered

definition wait_ctx :: "attempt_obs \<Rightarrow> go_error option" where
  "wait_ctx ob = (case ob_ctx_wait ob of Some e \<Rightarrow> Some e | None \<Rightarrow> ob_select ob)"

definition notify :: "int \<Rightarrow> int \<Rightarrow> duration \<Rightarrow> int \<Rightarrow> go_error option \<Rightarrow> retry_log" where
  "notify max_retries attempt delay st e =
     Notified \<lparr>re_attempt = attempt, re_max_retries = max_retries, re_delay = delay, re_status = st, re_err = e\<rparr>"

definition backoff_for_error ::
  "(string \<Rightarrow> instant option) \<Rightarrow> attempt_obs \<Rightarrow> int \<Rightarrow> go_error \<Rightarrow> policy \<Rightarrow> duration" where
  "backoff_for_error parse_time ob attempt e p =
     backoff (ob_jitter ob) parse_time attempt (map_option snd (as_response e)) (po_base_delay p) (ob_now ob)"

subsection \<open>The loops\<close>

record http_obs = attempt_obs +
  ob_build :: "go_error + http_request"
  ob_reply :: "go_error + http_response"

definition loop_exit :: go_error where
  "loop_exit = ErrText ''retry loop exited unexpectedly''"

function do_loop ::
  "(string \<Rightarrow> instant option) \<Rightarrow> policy \<Rightarrow> (int \<Rightarrow> http_obs) \<Rightarrow> int \<Rightarrow> (go_error + http_response) \<times> retry_log list" where
  "do_loop parse_time p env attempt =
     (if \<not> attempt \<le> po_max_retries p then (Inl loop_exit, [])
      else let ob = env attempt
      in case ob_ctx_before ob of
           Some e \<Rightarrow> (Inl e, [])
         | None \<Rightarrow>
      (case ob_build ob of
         Inl e \<Rightarrow> (Inl (WrapError ''create request'' e), [])
       | Inr req \<Rightarrow>
      (case ob_reply ob of
         Inl e \<Rightarrow>
           (case ob_ctx_after ob of
              Some c \<Rightarrow> (Inl c, [])
            | None \<Rightarrow>
              if attempt = po_max_retries p \<or> \<not> request_replayable req p \<or> \<not> retryable_error p e
              then (Inl (WrapError ''send request'' (wrapped p e)), [])
              else let delay = backoff (ob_jitter ob) parse_time attempt None (po_base_delay p) (ob_now ob)
                   in if delay > po_max_backoff p then (Inl (WrapError ''send request'' (wrapped p e)), [])
                      else let ev = notify (po_max_retries p) (attempt + 1) delay 0 (Some e)
                           in case wait_ctx (attempt_obs.truncate ob) of
                                Some w \<Rightarrow> (Inl w, [ev])
                              | None \<Rightarrow> (case do_loop parse_time p env (attempt + 1) of (r, evs) \<Rightarrow> (r, ev # evs)))
       | Inr resp \<Rightarrow>
           if \<not> retryable_response p resp \<or> attempt = po_max_retries p \<or> \<not> request_replayable req p
           then (Inr resp, [])
           else let delay = backoff (ob_jitter ob) parse_time attempt (Some (rs_retry_after resp)) (po_base_delay p) (ob_now ob)
                in if delay > po_max_backoff p \<or> delay < 0 then (Inr resp, [])
                   else let ev = notify (po_max_retries p) (attempt + 1) delay (rs_status resp) None
                        in case wait_ctx (attempt_obs.truncate ob) of
                             Some w \<Rightarrow> (Inl w, [ev])
                           | None \<Rightarrow> (case do_loop parse_time p env (attempt + 1) of (r, evs) \<Rightarrow> (r, ev # evs)))))"
  by pat_completeness auto
termination by (relation "measure (\<lambda>(pt, p, env, attempt). nat (po_max_retries p + 1 - attempt))") auto

declare do_loop.simps [simp del]

definition budget :: "bool \<Rightarrow> policy \<Rightarrow> policy" where
  "budget nested p = (if nested then p\<lparr>po_max_retries := 0\<rparr> else p)"

definition http_do ::
  "(string \<Rightarrow> instant option) \<Rightarrow> bool \<Rightarrow> policy \<Rightarrow> (int \<Rightarrow> http_obs) \<Rightarrow> (go_error + http_response) \<times> retry_log list" where
  "http_do parse_time nested p env = do_loop parse_time (budget nested (normalize p)) env 0"

definition do_request ::
  "(string \<Rightarrow> instant option) \<Rightarrow> bool \<Rightarrow> http_request \<Rightarrow> (int \<Rightarrow> http_obs) \<Rightarrow> (go_error + http_response) \<times> retry_log list" where
  "do_request parse_time nested req env =
     (let p = default_policy\<lparr>po_allow_replay := True\<rparr>;
          p' = (if rq_has_body req \<and> \<not> rq_get_body req then p\<lparr>po_max_retries := 0\<rparr> else p)
      in http_do parse_time nested p' env)"

text \<open>A streamed operation: its result, whether it emitted output, and its error.\<close>

record 'a stream_obs = attempt_obs +
  ob_result :: 'a
  ob_observed :: bool
  ob_error :: "go_error option"
  ob_recover :: "bool \<times> go_error option"

function stream_loop ::
  "(string \<Rightarrow> instant option) \<Rightarrow> policy \<Rightarrow> (int \<Rightarrow> 'a stream_obs) \<Rightarrow> int \<Rightarrow> ('a option \<times> go_error option) \<times> retry_log list" where
  "stream_loop parse_time p env attempt =
     (if \<not> attempt \<le> po_max_retries p then ((None, Some (ErrText ''stream retry loop exited unexpectedly'')), [])
      else let ob = env attempt
      in case ob_ctx_before ob of
           Some e \<Rightarrow> ((None, Some e), [])
         | None \<Rightarrow>
      (case ob_error ob of
         None \<Rightarrow> ((Some (ob_result ob), None), [])
       | Some e \<Rightarrow>
      (case ob_ctx_after ob of
         Some c \<Rightarrow> ((Some (ob_result ob), Some c), [])
       | None \<Rightarrow>
         if ob_observed ob \<or> attempt = po_max_retries p \<or> \<not> po_allow_replay p \<or> \<not> retryable_error p e
         then ((Some (ob_result ob), Some e), [])
         else let delay = backoff_for_error parse_time (attempt_obs.truncate ob) attempt e p
              in if delay > po_max_backoff p then ((Some (ob_result ob), Some e), [])
                 else let ev = notify (po_max_retries p) (attempt + 1) delay 0 (Some e)
                      in case wait_ctx (attempt_obs.truncate ob) of
                           Some w \<Rightarrow> ((None, Some w), [ev])
                         | None \<Rightarrow> (case stream_loop parse_time p env (attempt + 1) of (r, evs) \<Rightarrow> (r, ev # evs)))))"
  by pat_completeness auto
termination by (relation "measure (\<lambda>(pt, p, env, attempt). nat (po_max_retries p + 1 - attempt))") auto

declare stream_loop.simps [simp del]

definition do_stream ::
  "(string \<Rightarrow> instant option) \<Rightarrow> bool \<Rightarrow> policy \<Rightarrow> (int \<Rightarrow> 'a stream_obs) \<Rightarrow> ('a option \<times> go_error option) \<times> retry_log list" where
  "do_stream parse_time nested p env = stream_loop parse_time (budget nested (normalize p)) env 0"

record turn_policy =
  tp_max_retries :: int
  tp_retryable_error :: "(go_error \<Rightarrow> bool) option"
  tp_recovers :: bool

definition turn_max_retries :: "turn_policy \<Rightarrow> int" where
  "turn_max_retries p = (if tp_max_retries p \<le> 0 then stream_turn_max_retries else tp_max_retries p)"

function turn_loop ::
  "(string \<Rightarrow> instant option) \<Rightarrow> turn_policy \<Rightarrow> int \<Rightarrow> (int \<Rightarrow> 'a stream_obs) \<Rightarrow> int \<Rightarrow>
   ('a option \<times> go_error option) \<times> retry_log list" where
  "turn_loop parse_time p max_retries env retries =
     (let ob = env retries
      in case ob_ctx_before ob of
           Some e \<Rightarrow> ((None, Some e), [])
         | None \<Rightarrow>
      (case ob_error ob of
         None \<Rightarrow> ((Some (ob_result ob), None), [])
       | Some e \<Rightarrow>
      (case ob_ctx_after ob of
         Some c \<Rightarrow> ((None, Some c), [])
       | None \<Rightarrow>
         if tp_recovers p \<and> retries < max_retries \<and> snd (ob_recover ob) \<noteq> None
         then ((Some (ob_result ob), snd (ob_recover ob)), [])
         else if tp_recovers p \<and> retries < max_retries \<and> fst (ob_recover ob)
         then (case turn_loop parse_time p max_retries env (retries + 1) of (r, evs) \<Rightarrow> (r, Recovered # evs))
         else if \<not> (is_retryable_error (Some e) \<or> (case tp_retryable_error p of None \<Rightarrow> False | Some f \<Rightarrow> f e))
         then ((Some (ob_result ob), Some e), [])
         else if retries \<ge> max_retries then ((Some (ob_result ob), Some e), [])
         else let delay = stream_turn_retry_delay (ob_jitter ob) parse_time (retries + 1) e (ob_now ob)
              in if delay > default_max_backoff then ((Some (ob_result ob), Some e), [])
                 else let ev = notify (turn_max_retries p) (retries + 1) delay 0 (Some e)
                      in case wait_ctx (attempt_obs.truncate ob) of
                           Some w \<Rightarrow> ((None, Some w), [ev])
                         | None \<Rightarrow> (case turn_loop parse_time p max_retries env (retries + 1) of (r, evs) \<Rightarrow> (r, ev # evs)))))"
  by pat_completeness auto
termination by (relation "measure (\<lambda>(pt, p, m, env, retries). nat (m - retries))") auto

declare turn_loop.simps [simp del]

definition do_stream_turn ::
  "(string \<Rightarrow> instant option) \<Rightarrow> bool \<Rightarrow> turn_policy \<Rightarrow> (int \<Rightarrow> 'a stream_obs) \<Rightarrow>
   ('a option \<times> go_error option) \<times> retry_log list" where
  "do_stream_turn parse_time nested p env =
     turn_loop parse_time p (if nested then 0 else turn_max_retries p) env 0"

subsection \<open>The contract of the loops\<close>

definition entry_ok :: "duration \<Rightarrow> int \<Rightarrow> retry_log \<Rightarrow> bool" where
  "entry_ok cap n l = (case l of Recovered \<Rightarrow> True | Notified e \<Rightarrow> re_attempt e = n \<and> re_delay e \<le> cap)"

definition log_ok :: "duration \<Rightarrow> int \<Rightarrow> int \<Rightarrow> retry_log list \<Rightarrow> bool" where
  "log_ok cap limit i log \<longleftrightarrow> int (length log) \<le> limit - i \<and>
     (\<forall>k<length log. entry_ok cap (i + int k + 1) (log ! k))"

text \<open>
  An attempt either ends the loop, or logs one entry with its number and then ends it while
  waiting or goes on to the next attempt, and it may log only below the limit.
\<close>

locale retry_loop =
  fixes loop :: "int \<Rightarrow> 'r \<times> retry_log list" and limit :: int and cap :: duration
  assumes attempt: "loop i = (r, log) \<Longrightarrow>
    log = [] \<or>
    (i < limit \<and> (\<exists>l log'. log = l # log' \<and> entry_ok cap (i + 1) l \<and> (log' = [] \<or> (\<exists>r'. loop (i + 1) = (r', log')))))"
begin

lemma loop_log_ok:
  assumes "loop i = (r, log)" "i \<le> limit"
  shows "log_ok cap limit i log"
  using assms
proof (induction log arbitrary: i r)
  case Nil then show ?case by (simp add: log_ok_def)
next
  case (Cons l log)
  from attempt [OF Cons.prems(1)] have i: "i < limit" "entry_ok cap (i + 1) l"
    and next_attempt: "log = [] \<or> (\<exists>r'. loop (i + 1) = (r', log))" by auto
  have "log_ok cap limit (i + 1) log"
    using next_attempt Cons.IH [of "i + 1"] i(1) by (auto simp: log_ok_def)
  with i show ?case
    by (auto simp: log_ok_def nth_Cons ac_simps split: nat.splits)
qed

end

lemma entry_ok_notify [simp]: "entry_ok cap n (notify m k d st e) \<longleftrightarrow> k = n \<and> d \<le> cap"
  by (auto simp: entry_ok_def notify_def)

interpretation http: retry_loop "do_loop parse_time p env" "po_max_retries p" "po_max_backoff p"
  for parse_time p env
proof (unfold_locales, goal_cases)
  case (1 i r log)
  then show ?case
    by (subst (asm) do_loop.simps) (auto simp: Let_def split: if_splits option.splits sum.splits prod.splits)
qed

interpretation stream: retry_loop "stream_loop parse_time p env" "po_max_retries p" "po_max_backoff p"
  for parse_time p env
proof (unfold_locales, goal_cases)
  case (1 i r log)
  then show ?case
    by (subst (asm) stream_loop.simps) (auto simp: Let_def split: if_splits option.splits prod.splits)
qed

interpretation turn: retry_loop "turn_loop parse_time p limit env" limit default_max_backoff
  for parse_time p limit env
proof (unfold_locales, goal_cases)
  case (1 i r log)
  then show ?case
    by (subst (asm) turn_loop.simps)
      (auto simp: Let_def entry_ok_def [of _ _ Recovered] split: if_splits option.splits prod.splits)
qed

subsection \<open>Properties\<close>

lemma normalize_simps [simp]:
  "po_max_retries (normalize p) = max 0 (po_max_retries p)"
  "po_allow_replay (normalize p) = po_allow_replay p"
  by (simp_all add: normalize_def Let_def)

lemma budget_simps [simp]:
  "po_max_retries (budget nested p) = (if nested then 0 else po_max_retries p)"
  "po_max_backoff (budget nested p) = po_max_backoff p"
  "po_allow_replay (budget nested p) = po_allow_replay p"
  by (simp_all add: budget_def)

text \<open>
  C37: The budget is kept, whatever the attempts meet: each loop retries at most as often as
  its policy says, numbers the retries from one, never waits longer than its limit, and does
  not retry at all inside an operation that already retries.
\<close>

theorem retry_budget_kept:
  "log_ok (po_max_backoff (normalize p)) (if nested then 0 else max 0 (po_max_retries p)) 0
     (snd (http_do pt nested p env)) \<and>
   log_ok (po_max_backoff (normalize p)) (if nested then 0 else max 0 (po_max_retries p)) 0
     (snd (do_stream pt nested p senv)) \<and>
   log_ok default_max_backoff (if nested then 0 else turn_max_retries tp) 0
     (snd (do_stream_turn pt nested tp tenv))"
proof (intro conjI)
  show "log_ok (po_max_backoff (normalize p)) (if nested then 0 else max 0 (po_max_retries p)) 0
     (snd (http_do pt nested p env))"
    using http.loop_log_ok [of pt "budget nested (normalize p)" env 0]
    by (cases "http_do pt nested p env") (auto simp: http_do_def split: if_splits)
  show "log_ok (po_max_backoff (normalize p)) (if nested then 0 else max 0 (po_max_retries p)) 0
     (snd (do_stream pt nested p senv))"
    using stream.loop_log_ok [of pt "budget nested (normalize p)" senv 0]
    by (cases "do_stream pt nested p senv") (auto simp: do_stream_def split: if_splits)
  have "0 \<le> turn_max_retries tp"
    by (simp add: turn_max_retries_def stream_turn_max_retries_def default_max_retries_def)
  then show "log_ok default_max_backoff (if nested then 0 else turn_max_retries tp) 0
     (snd (do_stream_turn pt nested tp tenv))"
    using turn.loop_log_ok [of pt tp "if nested then 0 else turn_max_retries tp" tenv 0]
    by (cases "do_stream_turn pt nested tp tenv") (auto simp: do_stream_turn_def split: if_splits)
qed

lemma do_loop_replay:
  "do_loop pt p env i = (r, log) \<Longrightarrow> k < length log \<Longrightarrow>
   \<exists>req. ob_build (env (i + int k)) = Inr req \<and> request_replayable req p"
proof (induction log arbitrary: i r k)
  case (Cons l log)
  from Cons.prems(1) obtain req where req: "ob_build (env i) = Inr req" "request_replayable req p"
    by (subst (asm) do_loop.simps) (auto simp: Let_def split: if_splits option.splits sum.splits prod.splits)
  from http.attempt [OF Cons.prems(1)] have "log = [] \<or> (\<exists>r'. do_loop pt p env (i + 1) = (r', log))" by auto
  with req Cons.IH [of "i + 1"] Cons.prems(2) show ?case
    by (cases k) (auto simp: ac_simps)
qed simp

lemma stream_loop_replay:
  "stream_loop pt p env i = (r, log) \<Longrightarrow> k < length log \<Longrightarrow>
   \<not> ob_observed (env (i + int k)) \<and> po_allow_replay p"
proof (induction log arbitrary: i r k)
  case (Cons l log)
  from Cons.prems(1) have "\<not> ob_observed (env i) \<and> po_allow_replay p"
    by (subst (asm) stream_loop.simps) (auto simp: Let_def split: if_splits option.splits prod.splits)
  moreover from stream.attempt [OF Cons.prems(1)]
  have "log = [] \<or> (\<exists>r'. stream_loop pt p env (i + 1) = (r', log))" by auto
  ultimately show ?case using Cons.IH [of "i + 1"] Cons.prems(2)
    by (cases k) (auto simp: ac_simps)
qed simp

lemma request_replayable_cong: "po_allow_replay p = po_allow_replay q \<Longrightarrow> request_replayable r p = request_replayable r q"
  by (simp add: request_replayable_def)

text \<open>
  C31: No request is repeated that may not be. Every attempt \<open>Do\<close> follows with another one
  was a request of an idempotent method, with an idempotency key, or one whose caller allowed
  the replay; and \<open>DoStream\<close> only repeats operations that emitted nothing and whose policy
  allows it.
\<close>

theorem no_unsafe_replay:
  "(\<forall>k < length (snd (http_do pt nested p env)).
      \<exists>req. ob_build (env (int k)) = Inr req \<and> request_replayable req p) \<and>
   (\<forall>k < length (snd (do_stream pt nested p senv)).
      \<not> ob_observed (senv (int k)) \<and> po_allow_replay p)"
  using do_loop_replay [of pt "budget nested (normalize p)" env 0]
    stream_loop_replay [of pt "budget nested (normalize p)" senv 0]
    request_replayable_cong [of "budget nested (normalize p)" p]
  by (cases "http_do pt nested p env"; cases "do_stream pt nested p senv")
    (auto simp: http_do_def do_stream_def)

lemma double_until_eq:
  "0 < d \<Longrightarrow> d \<le> local_backoff_cap \<Longrightarrow>
   double_until i retry d = min local_backoff_cap (d * 2 ^ nat (retry - i))"
proof (induction i retry d rule: double_until.induct)
  case (1 i retry d)
  show ?case
  proof (cases "i < retry \<and> d < local_backoff_cap")
    case True
    then have n: "nat (retry - i) = Suc (nat (retry - (i + 1)))" by (simp add: Suc_nat_eq_nat_zadd1)
    have "double_until i retry d = double_until (i + 1) retry (min (d * 2) local_backoff_cap)"
      using True by (subst double_until.simps) simp
    also have "\<dots> = min local_backoff_cap (min (d * 2) local_backoff_cap * 2 ^ nat (retry - (i + 1)))"
      using True 1 by (intro 1(1)) (auto simp: local_backoff_cap_def second_def)
    also have "\<dots> = min local_backoff_cap (d * 2 ^ nat (retry - i))"
    proof (cases "d * 2 \<le> local_backoff_cap")
      case False
      have "local_backoff_cap * 1 \<le> local_backoff_cap * 2 ^ nat (retry - (i + 1))"
        by (intro mult_left_mono) (simp_all add: local_backoff_cap_def second_def)
      moreover have "local_backoff_cap * 1 \<le> (d * 2) * 2 ^ nat (retry - (i + 1))"
        using False by (intro mult_mono) (simp_all add: local_backoff_cap_def second_def)
      ultimately show ?thesis using False by (simp add: n min_def)
    qed (simp add: n)
    finally show ?thesis .
  next
    case False
    have "d * 1 \<le> d * 2 ^ nat (retry - i)" using "1.prems" by (intro mult_left_mono) auto
    with False 1 show ?thesis by (subst double_until.simps) (auto simp: min_def)
  qed
qed

text \<open>
  The wait doubles from the base delay up to the local cap, give or take a tenth, and a
  server's Retry-After is a minimum that is never cut short: the wait is at least that many
  seconds, or the largest duration when they do not fit.
\<close>

theorem backoff_bounds:
  assumes "\<And>d. 0 \<le> d \<Longrightarrow> d \<le> local_backoff_cap \<Longrightarrow> 9 * d div 10 \<le> jitter d \<and> jitter d \<le> 11 * d div 10"
    and "0 < base" "parse_int (trim_space h) = ParsedInt n" "0 < n"
  shows "9 * min local_backoff_cap (base * 2 ^ nat retry) div 10 \<le> backoff jitter pt retry None base now \<and>
    backoff jitter pt retry None base now \<le> 11 * min local_backoff_cap (base * 2 ^ nat retry) div 10 \<and>
    min max_duration (n * second) \<le> backoff jitter pt retry (Some h) base now"
proof -
  have cap: "0 < local_backoff_cap" by (simp add: local_backoff_cap_def second_def)
  have e: "double_until 0 retry (min base local_backoff_cap) = min local_backoff_cap (base * 2 ^ nat retry)"
  proof (cases "base \<le> local_backoff_cap")
    case True with assms(2) show ?thesis by (simp add: double_until_eq)
  next
    case False
    then have "local_backoff_cap * 1 \<le> base * 2 ^ nat retry" by (intro mult_mono) (use cap in auto)
    with False cap show ?thesis by (subst double_until.simps) simp
  qed
  have "0 \<le> min local_backoff_cap (base * 2 ^ nat retry)" using cap assms(2) by simp
  from assms(1) [OF this] have j: "9 * min local_backoff_cap (base * 2 ^ nat retry) div 10 \<le> backoff jitter pt retry None base now"
    "backoff jitter pt retry None base now \<le> 11 * min local_backoff_cap (base * 2 ^ nat retry) div 10"
    using assms(2) by (auto simp: backoff_def Let_def e)
  have "min max_duration (n * second) \<le> backoff jitter pt retry (Some h) base now"
    using assms(2-4) by (auto simp: backoff_def Let_def retry_after_delay_def)
  with j show ?thesis by blast
qed

text \<open>
  The error of an expired context has the methods of a network error, so the check that
  would refuse it comes too late: it is classified as transient.
\<close>

lemma deadline_exceeded_is_retryable: "is_retryable_error (Some ErrDeadlineExceeded)"
  by (simp add: is_retryable_error_def errors_is_def as_net_error_def)

text \<open>
  A provider's explicit status decides: whatever the words of its message, a response
  error is transient exactly for the six statuses of the policy, so that a rate limit (429)
  is never repeated for mentioning a timeout.
\<close>

theorem status_decides:
  "is_retryable_error (Some (WrapError p (ResponseError st h e))) \<longleftrightarrow> st \<in> {408, 500, 502, 503, 504, 529}"
  by (simp add: is_retryable_error_def is_retryable_status_def)

subsection \<open>Witnesses\<close>

definition demo_obs :: http_obs where
  "demo_obs = \<lparr>ob_ctx_before = None, ob_ctx_after = None, ob_ctx_wait = None, ob_select = None, ob_now = 0,
     ob_jitter = (\<lambda>d. d), ob_build = Inr \<lparr>rq_method = ''GET'', rq_idempotency_key = '''', rq_has_body = False,
     rq_get_body = False\<rparr>, ob_reply = Inr \<lparr>rs_status = 503, rs_retry_after = ''''\<rparr>\<rparr>"

lemma demo_obs_retries: "length (snd (http_do (\<lambda>_. None) False default_policy (\<lambda>_. demo_obs))) = 6"
  by code_simp

definition demo_stream :: "unit stream_obs" where
  "demo_stream = \<lparr>ob_ctx_before = None, ob_ctx_after = None, ob_ctx_wait = None, ob_select = None, ob_now = 0,
     ob_jitter = (\<lambda>d. d), ob_result = (), ob_observed = True, ob_error = Some ErrEOF, ob_recover = (False, None)\<rparr>"

theorem no_unsafe_replay_witness:
  "\<exists>req. ob_build demo_obs = Inr req \<and> request_replayable req default_policy"
proof -
  have "5 < length (snd (http_do (\<lambda>_. None) False default_policy (\<lambda>_. demo_obs)))"
    by (simp add: demo_obs_retries)
  then show ?thesis
    using no_unsafe_replay [of "\<lambda>_. None" False default_policy "\<lambda>_. demo_obs" "\<lambda>_. demo_stream"] by blast
qed

theorem backoff_bounds_witness:
  "min max_duration (120 * second) \<le> backoff (\<lambda>d. d) (\<lambda>_. None) 3 (Some '' 120'') second 0"
proof -
  have "parse_int (trim_space '' 120'') = ParsedInt 120" by code_simp
  moreover have "9 * d div 10 \<le> d \<and> d \<le> 11 * d div 10" if "0 \<le> d" for d :: int
    using that zdiv_mono1 [of "9 * d" "10 * d" 10] zdiv_mono1 [of "10 * d" "11 * d" 10] by simp
  ultimately show ?thesis
    using backoff_bounds [of "\<lambda>d. d" second "'' 120''" 120 3 "\<lambda>_. None" 0] by (auto simp: second_def)
qed

end
