(* ===== verification/Models.thy ===== *)
theory Models
  imports Prelude
begin

section \<open>The data model\<close>

text \<open>
  The records and enumerations of \<open>internal/models\<close> that the services share: tasks, swarm and
  chain configurations, worker limits and task goals. Optional strings of the code (\<open>*string\<close>)
  are options; a JSON column is the document it decodes to, with the two texts the code treats
  as absent and the texts that do not decode kept apart (\<open>json_text\<close>). A Go slice that may be
  nil is a list, as the encoding leaves both out.
\<close>

datatype task_category = CategoryActive | CategoryCompleted | CategoryBacklog | CategoryScheduled
  | CategoryChat | CategoryOther string

datatype task_status = StatusPending | StatusQueued | StatusRunning | StatusCompleted | StatusFailed
  | StatusCancelled | StatusBlocked

datatype swarm_role = SwarmRoleNone | SwarmRoleParent | SwarmRolePlanner | SwarmRoleWorker
  | SwarmRoleReviewer | SwarmRoleMerger | SwarmRoleLegacyIntegrator

datatype merge_status = MergeStatusNone | MergeStatusPending | MergeStatusMerged | MergeStatusFailed
  | MergeStatusConflict

datatype exec_status = ExecQueued | ExecRunning | ExecCompleted | ExecFailed | ExecCancelled

definition is_swarm_child_role :: "swarm_role \<Rightarrow> bool" where
  "is_swarm_child_role r \<longleftrightarrow>
     r \<in> {SwarmRolePlanner, SwarmRoleWorker, SwarmRoleReviewer, SwarmRoleMerger, SwarmRoleLegacyIntegrator}"

datatype 'a json_text = EmptyText | BracesText | JsonDoc 'a | Malformed

record swarm_config =
  sw_mode :: string
  sw_default_worker_isolation :: string
  sw_max_workers :: int
  sw_reviewer_enabled :: bool
  sw_merger_enabled :: bool
  sw_integrator_enabled :: bool
  sw_rerun_reviewer_after_worker_followup :: bool
  sw_rerun_merger_after_reviewer :: bool
  sw_rerun_integrator_after_reviewer :: bool
  sw_generation :: int
  sw_stop_revision :: int
  sw_reviewed_generation :: int
  sw_merged_generation :: int
  sw_integrated_generation :: int
  sw_merge_strategy :: string
  sw_worker_kind :: string
  sw_ownership :: "string list"
  sw_isolation :: string
  sw_depends_on_roles :: "string list"
  sw_rerun_generation :: int
  sw_followup_effort_model_id :: string
  sw_followup_effort_generation :: int
  sw_followup_service_tier :: "string option"
  sw_followup_reasoning_effort :: "string option"
  sw_completed_generation :: int
  sw_required :: bool
  sw_write_scope :: "string list"
  sw_read_scope :: "string list"
  sw_reviewer_prompt :: string
  sw_merger_prompt :: string
  sw_integrator_prompt :: string
  sw_planner_notes :: string
  sw_last_error :: string

definition empty_swarm_config :: swarm_config where
  "empty_swarm_config =
     \<lparr>sw_mode = '''', sw_default_worker_isolation = '''', sw_max_workers = 0, sw_reviewer_enabled = False,
      sw_merger_enabled = False, sw_integrator_enabled = False,
      sw_rerun_reviewer_after_worker_followup = False, sw_rerun_merger_after_reviewer = False,
      sw_rerun_integrator_after_reviewer = False, sw_generation = 0, sw_stop_revision = 0,
      sw_reviewed_generation = 0, sw_merged_generation = 0, sw_integrated_generation = 0,
      sw_merge_strategy = '''', sw_worker_kind = '''', sw_ownership = [], sw_isolation = '''',
      sw_depends_on_roles = [], sw_rerun_generation = 0, sw_followup_effort_model_id = '''',
      sw_followup_effort_generation = 0, sw_followup_service_tier = None,
      sw_followup_reasoning_effort = None, sw_completed_generation = 0, sw_required = False,
      sw_write_scope = [], sw_read_scope = [], sw_reviewer_prompt = '''', sw_merger_prompt = '''',
      sw_integrator_prompt = '''', sw_planner_notes = '''', sw_last_error = ''''\<rparr>"

definition normalize_merger_fields :: "swarm_config \<Rightarrow> swarm_config" where
  "normalize_merger_fields c =
     (let c1 = (if sw_integrator_enabled c then c\<lparr>sw_merger_enabled := True\<rparr> else c);
          c2 = (if sw_rerun_integrator_after_reviewer c1 then c1\<lparr>sw_rerun_merger_after_reviewer := True\<rparr> else c1);
          c3 = (if sw_integrated_generation c2 > sw_merged_generation c2
                then c2\<lparr>sw_merged_generation := sw_integrated_generation c2\<rparr> else c2);
          c4 = (if sw_merger_prompt c3 = '''' then c3\<lparr>sw_merger_prompt := sw_integrator_prompt c3\<rparr> else c3)
      in c4\<lparr>sw_integrator_enabled := False, sw_rerun_integrator_after_reviewer := False,
            sw_integrated_generation := 0, sw_integrator_prompt := ''''\<rparr>)"

type_synonym swarm_text = "swarm_config json_text"

definition parse_swarm_config :: "swarm_text \<Rightarrow> swarm_config option" where
  "parse_swarm_config raw =
     (case raw of
        EmptyText \<Rightarrow> Some empty_swarm_config
      | BracesText \<Rightarrow> Some empty_swarm_config
      | JsonDoc c \<Rightarrow> Some (normalize_merger_fields c)
      | Malformed \<Rightarrow> None)"

definition swarm_config_json :: "swarm_config \<Rightarrow> swarm_text" where
  "swarm_config_json c = JsonDoc (normalize_merger_fields c)"

lemma normalize_merger_fields_simps [simp]:
  "sw_integrator_enabled (normalize_merger_fields c) = False"
  "sw_rerun_integrator_after_reviewer (normalize_merger_fields c) = False"
  "sw_integrated_generation (normalize_merger_fields c) = 0"
  "sw_integrator_prompt (normalize_merger_fields c) = ''''"
  "sw_generation (normalize_merger_fields c) = sw_generation c"
  "sw_max_workers (normalize_merger_fields c) = sw_max_workers c"
  "sw_stop_revision (normalize_merger_fields c) = sw_stop_revision c"
  "sw_reviewed_generation (normalize_merger_fields c) = sw_reviewed_generation c"
  "sw_merged_generation (normalize_merger_fields c) = max (sw_merged_generation c) (sw_integrated_generation c)"
  by (simp_all add: normalize_merger_fields_def Let_def)

lemma normalize_merger_fields_fixed:
  assumes "\<not> sw_integrator_enabled c" "\<not> sw_rerun_integrator_after_reviewer c"
    "sw_integrated_generation c = 0" "sw_integrator_prompt c = ''''" "0 \<le> sw_merged_generation c"
  shows "normalize_merger_fields c = c"
proof -
  have "sw_merger_prompt c = '''' \<Longrightarrow> c\<lparr>sw_merger_prompt := ''''\<rparr> = c" by simp
  with assms show ?thesis by (simp add: normalize_merger_fields_def Let_def)
qed

lemma normalize_merger_fields_idem [simp]:
  "0 \<le> max (sw_merged_generation c) (sw_integrated_generation c) \<Longrightarrow>
   normalize_merger_fields (normalize_merger_fields c) = normalize_merger_fields c"
  by (rule normalize_merger_fields_fixed) simp_all

datatype chain_trigger = OnCompletion | OnPlanningComplete | TriggerOther string

datatype chain_config = ChainConfig
  (cc_enabled: bool) (cc_trigger: chain_trigger) (cc_child_agent_id: string) (cc_child_model: string)
  (cc_child_category: string) (cc_child_title: string) (cc_child_prompt_prefix: string)
  (cc_child_task_id: string) (cc_child_automation_node_key: string)
  (cc_child_chain_config: "chain_config option")

type_synonym chain_text = "chain_config json_text"

definition disabled_chain :: chain_config where
  "disabled_chain = ChainConfig False (TriggerOther '''') '''' '''' '''' '''' '''' '''' '''' None"

record task =
  tk_id :: string
  tk_project_id :: string
  tk_title :: string
  tk_category :: task_category
  tk_priority :: int
  tk_status :: task_status
  tk_prompt :: string
  tk_agent_id :: "string option"
  tk_agent_definition_id :: "string option"
  tk_tag :: string
  tk_display_order :: int
  tk_parent_task_id :: "string option"
  tk_chain_config :: chain_text
  tk_swarm_role :: swarm_role
  tk_swarm_status :: string
  tk_swarm_config :: swarm_text
  tk_swarm_sequence :: int
  tk_worktree_path :: string
  tk_worktree_branch :: string
  tk_auto_merge :: bool
  tk_auto_merge_on_goal :: bool
  tk_merge_target_branch :: string
  tk_merge_status :: merge_status
  tk_base_branch :: string
  tk_base_commit_sha :: string
  tk_lineage_depth :: int
  tk_created_via :: string
  tk_starts_new_context :: bool
  tk_created_at :: instant
  tk_updated_at :: instant
  tk_completed_at :: "instant option"

definition is_terminal_status :: "task_status \<Rightarrow> bool" where
  "is_terminal_status s \<longleftrightarrow> s = StatusCompleted \<or> s = StatusFailed \<or> s = StatusCancelled"

definition task_is_user_cancellable :: "task option \<Rightarrow> bool" where
  "task_is_user_cancellable t =
     (case t of None \<Rightarrow> False
      | Some t \<Rightarrow>
          tk_status t = StatusRunning \<or> tk_status t = StatusQueued \<or>
          (tk_status t = StatusPending \<and> tk_category t = CategoryActive) \<or>
          (tk_swarm_role t = SwarmRoleParent \<and> tk_status t = StatusBlocked \<and> tk_category t = CategoryActive))"

definition parse_chain_config :: "task \<Rightarrow> chain_config option" where
  "parse_chain_config t =
     (case tk_chain_config t of
        EmptyText \<Rightarrow> Some disabled_chain
      | BracesText \<Rightarrow> Some disabled_chain
      | JsonDoc c \<Rightarrow> Some c
      | Malformed \<Rightarrow> None)"

definition set_chain_config :: "chain_config option \<Rightarrow> task \<Rightarrow> task" where
  "set_chain_config c t =
     (case c of
        None \<Rightarrow> t\<lparr>tk_chain_config := BracesText\<rparr>
      | Some cfg \<Rightarrow> if \<not> cc_enabled cfg then t\<lparr>tk_chain_config := BracesText\<rparr>
                     else t\<lparr>tk_chain_config := JsonDoc cfg\<rparr>)"

lemma parse_set_chain_config:
  "parse_chain_config (set_chain_config c t) =
     Some (case c of Some cfg \<Rightarrow> if cc_enabled cfg then cfg else disabled_chain | None \<Rightarrow> disabled_chain)"
  by (auto simp: parse_chain_config_def set_chain_config_def split: option.splits)

subsection \<open>Worker limits\<close>

definition validate_global_worker_limit :: "int \<Rightarrow> bool" where
  "validate_global_worker_limit n \<longleftrightarrow> \<not> n < 0"

definition normalize_project_worker_limit :: "int option \<Rightarrow> int" where
  "normalize_project_worker_limit n = (case n of None \<Rightarrow> 0 | Some k \<Rightarrow> if k \<le> 0 then 0 else k)"

definition project_worker_limits_equal :: "int option \<Rightarrow> int option \<Rightarrow> bool" where
  "project_worker_limits_equal a b \<longleftrightarrow> normalize_project_worker_limit a = normalize_project_worker_limit b"

definition project_worker_limit_increase :: "int option \<Rightarrow> int option \<Rightarrow> bool" where
  "project_worker_limit_increase old new =
     (let o' = normalize_project_worker_limit old; n = normalize_project_worker_limit new
      in if o' = 0 then False else n = 0 \<or> n > o')"

definition validate_project_worker_limit :: "int option \<Rightarrow> int \<Rightarrow> bool" where
  "validate_project_worker_limit n g =
     (if \<not> validate_global_worker_limit g then False
      else case n of
             None \<Rightarrow> True
           | Some k \<Rightarrow> if k = 0 then True else if k < 0 then False else \<not> (g > 0 \<and> k > g))"

text \<open>What a limit admits: none at all, or fewer than its value.\<close>

definition limit_admits :: "int \<Rightarrow> int \<Rightarrow> bool" where
  "limit_admits limit running \<longleftrightarrow> limit \<le> 0 \<or> running < limit"

lemma project_worker_limit_increase_admits:
  "project_worker_limit_increase old new \<longleftrightarrow>
     (\<forall>r. limit_admits (normalize_project_worker_limit old) r \<longrightarrow> limit_admits (normalize_project_worker_limit new) r) \<and>
     (\<exists>r. \<not> limit_admits (normalize_project_worker_limit old) r \<and> limit_admits (normalize_project_worker_limit new) r)"
  (is "?inc \<longleftrightarrow> ?all \<and> ?some")
proof -
  define a b where "a = normalize_project_worker_limit old" and "b = normalize_project_worker_limit new"
  have nn: "0 \<le> a" "0 \<le> b" by (auto simp: a_def b_def normalize_project_worker_limit_def split: option.splits)
  have "a \<noteq> 0 \<Longrightarrow> b = 0 \<or> b > a \<Longrightarrow> \<not> limit_admits a a \<and> limit_admits b a"
    using nn by (auto simp: limit_admits_def)
  with nn show ?thesis
    unfolding project_worker_limit_increase_def Let_def a_def [symmetric] b_def [symmetric]
    by (auto simp: limit_admits_def)
qed

subsection \<open>Task goals\<close>

datatype goal_status = GoalActive | GoalPaused | GoalAchieved | GoalBlocked | GoalCleared | GoalFailed

record task_goal =
  tg_task_id :: string
  tg_goal_id :: string
  tg_objective :: string
  tg_status :: goal_status
  tg_reason :: string
  tg_blocker_key :: string
  tg_blocker_count :: int
  tg_blocker_reason :: string
  tg_blocker_last_seen_at :: "instant option"
  tg_last_checked_at :: "instant option"
  tg_achieved_at :: "instant option"
  tg_created_at :: instant
  tg_updated_at :: instant

definition is_evaluable :: "task_goal option \<Rightarrow> bool" where
  "is_evaluable g = (case g of None \<Rightarrow> False | Some g \<Rightarrow> tg_status g = GoalActive)"

definition max_task_goal_length :: nat where
  "max_task_goal_length = 2000"

text \<open>A task with the given id and project, pending in the active category, for the examples.\<close>

definition sample_task :: "string \<Rightarrow> string \<Rightarrow> task" where
  "sample_task i p =
     \<lparr>tk_id = i, tk_project_id = p, tk_title = [], tk_category = CategoryActive, tk_priority = 2,
      tk_status = StatusPending, tk_prompt = [], tk_agent_id = None, tk_agent_definition_id = None, tk_tag = [],
      tk_display_order = 0, tk_parent_task_id = None, tk_chain_config = EmptyText, tk_swarm_role = SwarmRoleNone,
      tk_swarm_status = [], tk_swarm_config = EmptyText, tk_swarm_sequence = 0, tk_worktree_path = [],
      tk_worktree_branch = [], tk_auto_merge = False, tk_auto_merge_on_goal = False, tk_merge_target_branch = [], tk_merge_status = MergeStatusNone,
      tk_base_branch = [], tk_base_commit_sha = [], tk_lineage_depth = 0, tk_created_via = [],
      tk_starts_new_context = False, tk_created_at = zero_time, tk_updated_at = zero_time, tk_completed_at = None\<rparr>"

lemma sample_task_simps [simp]:
  "tk_id (sample_task i p) = i" "tk_project_id (sample_task i p) = p" "tk_category (sample_task i p) = CategoryActive"
  "tk_status (sample_task i p) = StatusPending" "tk_parent_task_id (sample_task i p) = None"
  "tk_agent_id (sample_task i p) = None" "tk_swarm_role (sample_task i p) = SwarmRoleNone"
  by (simp_all add: sample_task_def)

end
