(* ===== verification/WorkerPool.thy ===== *)
theory WorkerPool
  imports Models "HOL-Library.Word" "HOL-Library.Sublist" "HOL-Library.Multiset"
begin

section \<open>The worker pool\<close>

text \<open>
  The queue, the capacity pools and the cancellation registry of \<open>WorkerService\<close>
  (\<open>internal/service/worker_service.go\<close>). A map of the code is a map, the atomic counters are
  integers (the code's are 32 bits wide, far above any number of workers), and the registration
  ids are 64-bit words. What an operation reads outside is a record \<open>worker_env\<close>: the durable
  task behind an id, the limits of projects and models, the model a task resolves to, the
  admission gate and the update tracker, each as a function of the entry it is asked about. The
  effects on other stores, which cancel queued executions and dispatches, are a log.

  A running goroutine of \<open>executeTask\<close> is a job, in \<open>WorkerExec\<close>. The pools' contract is the
  locale \<open>slot_pool\<close>, interpreted on the project and on the model counters.
\<close>

record prepared_dispatch =
  pd_dispatch_id :: string
  pd_task :: task
  pd_execution_id :: string

datatype worker_effect = CancelQueuedOrdinary string | CancelDispatches string
  | FailRunningExecutions string | FailIfRunning string | FailTask string
  | CompleteDispatch string string exec_status string | TaskComplete string "string option"
  | RetryReserved string string

datatype job_phase = Launched | Registered | Transferring string bool | Admitted | Finishing
  | Deregistered | Unmarked | Released

record job =
  jb_task :: task
  jb_agent :: string
  jb_prepared :: "prepared_dispatch option"
  jb_reserved :: string
  jb_capacity :: bool
  jb_registration :: "64 word"
  jb_phase :: job_phase
  jb_claimed :: bool
  jb_completion :: bool
  jb_retry :: bool
  jb_error :: "string option"
  jb_terminal :: "(exec_status \<times> string) option"

record worker_pool =
  wp_num_workers :: int
  wp_started :: bool
  wp_queue :: "task list"
  wp_pending :: "string set"
  wp_reserved :: "string \<rightharpoonup> string"
  wp_prepared :: "string \<rightharpoonup> prepared_dispatch"
  wp_project_running :: "string \<rightharpoonup> int"
  wp_model_running :: "string \<rightharpoonup> int"
  wp_total_running :: int
  wp_submitted :: "task list"
  wp_cancel_ids :: "string \<rightharpoonup> 64 word"
  wp_next_registration :: "64 word"
  wp_cancellation_requested :: "string set"
  wp_jobs :: "job list"
  wp_holders :: "(string option \<times> string option) list"
  wp_effects :: "worker_effect list"

record worker_env =
  we_task :: "string \<Rightarrow> unit + task option"
  we_project_max :: "string \<Rightarrow> int"
  we_model_max :: "string \<Rightarrow> int"
  we_resolve :: "task \<Rightarrow> string"
  we_open :: "string \<Rightarrow> bool"
  we_tracker :: "string \<Rightarrow> bool"
  we_exec_repo :: bool
  we_automation_repo :: bool

definition new_worker_service :: "int \<Rightarrow> worker_pool" where
  "new_worker_service n =
     \<lparr>wp_num_workers = n, wp_started = False, wp_queue = [], wp_pending = {}, wp_reserved = Map.empty,
      wp_prepared = Map.empty, wp_project_running = Map.empty, wp_model_running = Map.empty,
      wp_total_running = 0, wp_submitted = [], wp_cancel_ids = Map.empty, wp_next_registration = 0,
      wp_cancellation_requested = {}, wp_jobs = [], wp_holders = [], wp_effects = []\<rparr>"

subsection \<open>Capacity\<close>

definition has_global_worker_capacity :: "int \<Rightarrow> int \<Rightarrow> bool" where
  "has_global_worker_capacity max_workers running \<longleftrightarrow> max_workers \<le> 0 \<or> running < max_workers"

definition counter :: "(string \<rightharpoonup> int) \<Rightarrow> string \<Rightarrow> int" where
  "counter m k = (case m k of None \<Rightarrow> 0 | Some n \<Rightarrow> n)"

definition try_acquire_project_slot :: "worker_env \<Rightarrow> string \<Rightarrow> worker_pool \<Rightarrow> worker_pool option" where
  "try_acquire_project_slot env p s =
     (let c = counter (wp_project_running s) p
      in if we_project_max env p > 0 \<and> c \<ge> we_project_max env p then None
         else Some (s\<lparr>wp_project_running := (wp_project_running s)(p \<mapsto> c + 1),
                      wp_total_running := wp_total_running s + 1\<rparr>))"

definition release_project_slot :: "string \<Rightarrow> worker_pool \<Rightarrow> worker_pool" where
  "release_project_slot p s =
     s\<lparr>wp_project_running := (case wp_project_running s p of
                                None \<Rightarrow> wp_project_running s
                              | Some n \<Rightarrow> (wp_project_running s)(p \<mapsto> n - 1)),
       wp_total_running := wp_total_running s - 1\<rparr>"

definition try_acquire_model_slot :: "worker_env \<Rightarrow> string \<Rightarrow> worker_pool \<Rightarrow> worker_pool option" where
  "try_acquire_model_slot env a s =
     (if a = '''' then Some s
      else let c = counter (wp_model_running s) a
           in if we_model_max env a > 0 \<and> c \<ge> we_model_max env a then None
              else Some (s\<lparr>wp_model_running := (wp_model_running s)(a \<mapsto> c + 1)\<rparr>))"

definition release_model_slot :: "string \<Rightarrow> worker_pool \<Rightarrow> worker_pool" where
  "release_model_slot a s =
     (if a = '''' then s
      else case wp_model_running s a of
             None \<Rightarrow> s
           | Some n \<Rightarrow> s\<lparr>wp_model_running := (wp_model_running s)(a \<mapsto> n - 1)\<rparr>)"

text \<open>
  All pools together, without keeping the project's slot when the model's is missing.
\<close>

definition try_acquire_worker_slots_locked ::
  "worker_env \<Rightarrow> string \<Rightarrow> string \<Rightarrow> worker_pool \<Rightarrow> bool \<times> worker_pool" where
  "try_acquire_worker_slots_locked env p a s =
     (if \<not> has_global_worker_capacity (wp_num_workers s) (wp_total_running s) then (False, s)
      else case try_acquire_project_slot env p s of
             None \<Rightarrow> (False, s)
           | Some s1 \<Rightarrow>
               (case try_acquire_model_slot env a s1 of
                  None \<Rightarrow> (False, release_project_slot p s1)
                | Some s2 \<Rightarrow> (True, s2)))"

definition try_acquire_worker_slots ::
  "worker_env \<Rightarrow> string \<Rightarrow> string \<Rightarrow> bool \<Rightarrow> worker_pool \<Rightarrow> bool \<times> worker_pool" where
  "try_acquire_worker_slots env p a respect_gate s =
     (if respect_gate \<and> \<not> we_open env p then (False, s) else try_acquire_worker_slots_locked env p a s)"

definition try_acquire_global_project_slot :: "worker_env \<Rightarrow> string \<Rightarrow> worker_pool \<Rightarrow> bool \<times> worker_pool" where
  "try_acquire_global_project_slot env p s =
     (if \<not> we_open env p then (False, s)
      else if \<not> has_global_worker_capacity (wp_num_workers s) (wp_total_running s) then (False, s)
      else case try_acquire_project_slot env p s of
             None \<Rightarrow> (False, s)
           | Some s1 \<Rightarrow> (True, s1))"

definition release_worker_slots :: "string \<Rightarrow> string \<Rightarrow> worker_pool \<Rightarrow> worker_pool" where
  "release_worker_slots p a s = release_model_slot a (release_project_slot p s)"

definition has_project_capacity :: "worker_env \<Rightarrow> string \<Rightarrow> worker_pool \<Rightarrow> bool" where
  "has_project_capacity env p s \<longleftrightarrow>
     we_project_max env p \<le> 0 \<or> counter (wp_project_running s) p < we_project_max env p"

definition has_model_capacity :: "worker_env \<Rightarrow> string \<Rightarrow> worker_pool \<Rightarrow> bool" where
  "has_model_capacity env a s \<longleftrightarrow>
     a = '''' \<or> we_model_max env a \<le> 0 \<or> counter (wp_model_running s) a < we_model_max env a"

text \<open>The model of a task: its own, its project's default, or the global default.\<close>

record resolve_env =
  rv_agent :: "string \<Rightarrow> string option"
  rv_project_default :: "string \<Rightarrow> string option"
  rv_default :: "string option"

definition resolve_agent_config_id :: "resolve_env \<Rightarrow> task \<Rightarrow> string" where
  "resolve_agent_config_id env t =
     (case (case tk_agent_id t of
              Some a \<Rightarrow> if a \<noteq> '''' then rv_agent env a else None
            | None \<Rightarrow> None) of
        Some a \<Rightarrow> a
      | None \<Rightarrow>
          (case (if tk_project_id t \<noteq> '''' then rv_project_default env (tk_project_id t) else None) of
             Some a \<Rightarrow> if a \<noteq> '''' then a
                        else (case rv_default env of Some d \<Rightarrow> d | None \<Rightarrow> '''')
           | None \<Rightarrow> (case rv_default env of Some d \<Rightarrow> d | None \<Rightarrow> '''')))"

subsection \<open>Dispatch\<close>

definition valid_status :: "task option \<Rightarrow> bool \<Rightarrow> prepared_dispatch option \<Rightarrow> bool" where
  "valid_status db ordinary_reserved prepared =
     (case db of
        None \<Rightarrow> False
      | Some t \<Rightarrow>
          if ordinary_reserved then tk_status t = StatusPending \<or> tk_status t = StatusRunning
          else case prepared of
                 Some pd \<Rightarrow> if pd_execution_id pd \<noteq> '''' then tk_status t = StatusRunning
                             else tk_status t = StatusPending
               | None \<Rightarrow> tk_status t = StatusPending)"

definition reserved_id :: "worker_pool \<Rightarrow> string \<Rightarrow> string" where
  "reserved_id s i = (case wp_reserved s i of None \<Rightarrow> '''' | Some e \<Rightarrow> e)"

definition runnable :: "worker_env \<Rightarrow> worker_pool \<Rightarrow> task \<Rightarrow> task option" where
  "runnable env s t =
     (case we_task env (tk_id t) of
        Inl _ \<Rightarrow> None
      | Inr db \<Rightarrow>
          (case db of
             None \<Rightarrow> None
           | Some d \<Rightarrow>
               if valid_status db (reserved_id s (tk_id t) \<noteq> '''') (wp_prepared s (tk_id t)) \<and>
                  (tk_category d = CategoryActive \<or> tk_category d = CategoryScheduled)
               then Some d else None))"

definition waits_on_parent :: "worker_env \<Rightarrow> task \<Rightarrow> bool" where
  "waits_on_parent env d =
     (case tk_parent_task_id d of
        None \<Rightarrow> False
      | Some p \<Rightarrow>
          p \<noteq> '''' \<and> \<not> is_swarm_child_role (tk_swarm_role d) \<and>
          (case we_task env p of
             Inr (Some parent) \<Rightarrow> \<not> is_terminal_status (tk_status parent)
           | _ \<Rightarrow> False))"

definition refreshed :: "prepared_dispatch option \<Rightarrow> task \<Rightarrow> task \<Rightarrow> task" where
  "refreshed prepared t d =
     (case prepared of
        Some pd \<Rightarrow> if pd_execution_id pd = '''' then d else t
      | None \<Rightarrow> d\<lparr>tk_starts_new_context := tk_starts_new_context t\<rparr>)"

definition forget :: "string \<Rightarrow> worker_pool \<Rightarrow> worker_pool" where
  "forget i s = s\<lparr>wp_pending := wp_pending s - {i}, wp_reserved := (wp_reserved s)(i := None),
                  wp_prepared := (wp_prepared s)(i := None)\<rparr>"

definition prune :: "worker_env \<Rightarrow> task \<Rightarrow> worker_pool \<Rightarrow> worker_pool" where
  "prune env t s =
     (let i = tk_id t;
          e1 = (if reserved_id s i \<noteq> '''' \<and> we_exec_repo env then [CancelQueuedOrdinary i] else []);
          e2 = (if wp_prepared s i \<noteq> None \<and> we_automation_repo env then [CancelDispatches i] else [])
      in forget i (s\<lparr>wp_effects := wp_effects s @ e1 @ e2\<rparr>))"

text \<open>
  The goroutine \<open>executeTask\<close> starts with: an execution that was claimed durably before the
  dispatch counts as claimed.
\<close>

definition new_job :: "task \<Rightarrow> string \<Rightarrow> prepared_dispatch option \<Rightarrow> string \<Rightarrow> job" where
  "new_job t a pd reserved =
     (let pre = (reserved \<noteq> [] \<or> (case pd of Some p \<Rightarrow> pd_execution_id p \<noteq> [] | None \<Rightarrow> False))
      in \<lparr>jb_task = t, jb_agent = a, jb_prepared = pd, jb_reserved = reserved, jb_capacity = True,
          jb_registration = 0, jb_phase = Launched, jb_claimed = pre, jb_completion = pre, jb_retry = False,
          jb_error = None, jb_terminal = None\<rparr>)"

lemma new_job_simps [simp]:
  "jb_task (new_job t a pd r) = t" "jb_agent (new_job t a pd r) = a" "jb_capacity (new_job t a pd r)"
  "jb_prepared (new_job t a pd r) = pd" "jb_reserved (new_job t a pd r) = r"
  "jb_phase (new_job t a pd r) = Launched"
  by (simp_all add: new_job_def Let_def)

definition launch :: "task \<Rightarrow> string \<Rightarrow> worker_pool \<Rightarrow> worker_pool" where
  "launch t a s =
     (let i = tk_id t
      in s\<lparr>wp_reserved := (wp_reserved s)(i := None), wp_prepared := (wp_prepared s)(i := None),
           wp_jobs := wp_jobs s @ [new_job t a (wp_prepared s i) (reserved_id s i)]\<rparr>)"

text \<open>
  The scan of \<open>dispatchNext\<close>: \<open>kept\<close> are the entries before the index, the list argument the
  entries from it on; leaving the scan puts the queue together again.
\<close>

fun dispatch_scan :: "worker_env \<Rightarrow> task list \<Rightarrow> task list \<Rightarrow> worker_pool \<Rightarrow> worker_pool" where
  "dispatch_scan env kept [] s = s\<lparr>wp_queue := kept\<rparr>"
| "dispatch_scan env kept (t # rest) s =
     (case runnable env s t of
        None \<Rightarrow> dispatch_scan env kept rest (prune env t s)
      | Some d \<Rightarrow>
          if waits_on_parent env d then dispatch_scan env (kept @ [t]) rest s
          else if \<not> wp_started s \<or> \<not> we_open env (tk_id t) then s\<lparr>wp_queue := kept @ t # rest\<rparr>
          else let t' = refreshed (wp_prepared s (tk_id t)) t d;
                   a = we_resolve env t'
               in case try_acquire_worker_slots_locked env (tk_project_id t') a s of
                    (False, s1) \<Rightarrow> dispatch_scan env (kept @ [t]) rest s1
                  | (True, s1) \<Rightarrow>
                      if \<not> we_tracker env (tk_id t)
                      then (release_worker_slots (tk_project_id t') a s1)\<lparr>wp_queue := kept @ t # rest\<rparr>
                      else dispatch_scan env kept rest (launch t' a s1))"

definition dispatch_next :: "worker_env \<Rightarrow> worker_pool \<Rightarrow> worker_pool" where
  "dispatch_next env s = dispatch_scan env [] (wp_queue s) s"

subsection \<open>Submission\<close>

definition observe :: "task \<Rightarrow> worker_pool \<Rightarrow> worker_pool" where
  "observe t s = (if length (wp_submitted s) < 100 then s\<lparr>wp_submitted := wp_submitted s @ [t]\<rparr> else s)"

definition enqueue :: "task \<Rightarrow> worker_pool \<Rightarrow> worker_pool" where
  "enqueue t s = s\<lparr>wp_pending := insert (tk_id t) (wp_pending s), wp_queue := wp_queue s @ [t]\<rparr>"

definition submit :: "worker_env \<Rightarrow> task \<Rightarrow> worker_pool \<Rightarrow> worker_pool" where
  "submit env t s =
     (if tk_category t = CategoryChat then s
      else if tk_id t \<in> wp_pending s then s
      else dispatch_next env (observe t (enqueue t s)))"

fun replace_first :: "task \<Rightarrow> task list \<Rightarrow> task list" where
  "replace_first t [] = []"
| "replace_first t (x # xs) = (if tk_id x = tk_id t then t # xs else x # replace_first t xs)"

definition submit_reserved :: "worker_env \<Rightarrow> task \<Rightarrow> string \<Rightarrow> worker_pool \<Rightarrow> worker_pool" where
  "submit_reserved env t execution_id s =
     (if tk_category t = CategoryChat \<or> execution_id = '''' then s
      else if tk_id t \<in> wp_pending s
      then if tk_id t \<in> tk_id ` set (wp_queue s)
           then dispatch_next env (s\<lparr>wp_queue := replace_first t (wp_queue s),
                                     wp_reserved := (wp_reserved s)(tk_id t \<mapsto> execution_id)\<rparr>)
           else dispatch_next env (s\<lparr>wp_reserved := (wp_reserved s)(tk_id t \<mapsto> execution_id),
                                     wp_queue := wp_queue s @ [t]\<rparr>)
      else dispatch_next env (observe t ((enqueue t s)\<lparr>wp_reserved := (wp_reserved s)(tk_id t \<mapsto> execution_id)\<rparr>)))"

datatype submit_error = ErrIncompleteDispatch | ErrChatDispatch | ErrAlreadyQueuedOrRunning

definition submit_prepared :: "worker_env \<Rightarrow> prepared_dispatch \<Rightarrow> worker_pool \<Rightarrow> submit_error option \<times> worker_pool" where
  "submit_prepared env pd s =
     (let t = pd_task pd
      in if pd_dispatch_id pd = '''' \<or> tk_id t = '''' then (Some ErrIncompleteDispatch, s)
         else if tk_category t = CategoryChat then (Some ErrChatDispatch, s)
         else if tk_id t \<in> wp_pending s then (Some ErrAlreadyQueuedOrRunning, s)
         else (None, dispatch_next env (observe t ((enqueue t s)\<lparr>wp_prepared := (wp_prepared s)(tk_id t \<mapsto> pd)\<rparr>))))"

definition resize :: "worker_env \<Rightarrow> int \<Rightarrow> worker_pool \<Rightarrow> worker_pool" where
  "resize env n s =
     (let old = wp_num_workers s; s1 = s\<lparr>wp_num_workers := n\<rparr>
      in if (n \<le> 0 \<and> old > 0) \<or> n > old then dispatch_next env s1 else s1)"

definition reconcile_pending :: "worker_env \<Rightarrow> unit + task list \<Rightarrow> worker_pool \<Rightarrow> worker_pool" where
  "reconcile_pending env admissions s =
     (case admissions of
        Inl _ \<Rightarrow> s
      | Inr ts \<Rightarrow> fold (\<lambda>t s. if tk_swarm_role t = SwarmRoleParent then s else submit env t s) ts s)"

definition resume_dispatch :: "worker_env \<Rightarrow> unit + task list \<Rightarrow> worker_pool \<Rightarrow> worker_pool" where
  "resume_dispatch env admissions s = dispatch_next env (reconcile_pending env admissions s)"

definition reconcile_reserved :: "worker_env \<Rightarrow> unit + (task \<times> string) list \<Rightarrow> worker_pool \<Rightarrow> worker_pool" where
  "reconcile_reserved env admissions s =
     (case admissions of
        Inl _ \<Rightarrow> s
      | Inr ts \<Rightarrow> fold (\<lambda>(t, e) s. submit_reserved env t e s) ts s)"

definition start_workers :: "worker_env \<Rightarrow> unit + (task \<times> string) list \<Rightarrow> worker_pool \<Rightarrow> worker_pool" where
  "start_workers env admissions s = reconcile_reserved env admissions (s\<lparr>wp_started := True\<rparr>)"

subsection \<open>Cancellation\<close>

definition mark_cancellation_requested :: "string \<Rightarrow> worker_pool \<Rightarrow> worker_pool" where
  "mark_cancellation_requested i s =
     (if i = '''' then s else s\<lparr>wp_cancellation_requested := insert i (wp_cancellation_requested s)\<rparr>)"

definition clear_cancellation_requested :: "string \<Rightarrow> worker_pool \<Rightarrow> worker_pool" where
  "clear_cancellation_requested i s =
     (if i = '''' then s else s\<lparr>wp_cancellation_requested := wp_cancellation_requested s - {i}\<rparr>)"

definition is_cancellation_requested :: "string \<Rightarrow> worker_pool \<Rightarrow> bool" where
  "is_cancellation_requested i s \<longleftrightarrow> i \<noteq> '''' \<and> i \<in> wp_cancellation_requested s"

definition register_cancel_owned :: "string \<Rightarrow> worker_pool \<Rightarrow> 64 word \<times> worker_pool" where
  "register_cancel_owned i s =
     (let r = wp_next_registration s + 1
      in (r, s\<lparr>wp_next_registration := r, wp_cancel_ids := (wp_cancel_ids s)(i \<mapsto> r)\<rparr>))"

definition deregister_cancel_owned :: "string \<Rightarrow> 64 word \<Rightarrow> worker_pool \<Rightarrow> worker_pool" where
  "deregister_cancel_owned i r s =
     (if wp_cancel_ids s i = Some r then s\<lparr>wp_cancel_ids := (wp_cancel_ids s)(i := None)\<rparr> else s)"

definition cancel_running_task :: "string \<Rightarrow> worker_pool \<Rightarrow> 64 word option \<times> worker_pool" where
  "cancel_running_task i s =
     (wp_cancel_ids s i, s\<lparr>wp_cancel_ids := (wp_cancel_ids s)(i := None)\<rparr>)"

text \<open>The two stores may refuse: \<open>ord_ok\<close> and \<open>auto_ok\<close> are whether their calls succeed.\<close>

definition cancel_queued_task :: "worker_env \<Rightarrow> bool \<Rightarrow> bool \<Rightarrow> string \<Rightarrow> worker_pool \<Rightarrow> bool \<times> worker_pool" where
  "cancel_queued_task env ord_ok auto_ok i s =
     (if i = '''' then (True, s)
      else let removed = i \<in> tk_id ` set (wp_queue s);
               reserved = reserved_id s i;
               s1 = s\<lparr>wp_queue := filter (\<lambda>t. tk_id t \<noteq> i) (wp_queue s)\<rparr>;
               s2 = (if removed then forget i s1 else s1);
               log = (\<lambda>e s. s\<lparr>wp_effects := wp_effects s @ [e]\<rparr>)
           in if reserved \<noteq> '''' \<and> we_exec_repo env \<and> \<not> ord_ok then (False, s2)
              else let s3 = (if reserved \<noteq> '''' \<and> we_exec_repo env then log (CancelQueuedOrdinary i) s2 else s2)
                   in if we_automation_repo env \<and> \<not> auto_ok then (False, s3)
                      else let s4 = (if we_automation_repo env then log (CancelDispatches i) s3 else s3)
                           in (True, if removed then dispatch_next env s4 else s4))"

subsection \<open>The contract of a pool\<close>

text \<open>
  What the dispatcher relies on: a slot is granted only below the limit and counted once, a
  refusal means the limit is reached, and a release gives the slot back. Keys that are not
  pooled (the empty model) are always granted and never counted.
\<close>

lemma count_list_remove1:
  "k \<in> set ks \<Longrightarrow> count_list (remove1 k ks) j = count_list ks j - (if j = k then 1 else 0)"
proof (induction ks)
  case (Cons x ks) then show ?case by (cases "x = k") (auto simp: count_list_0_iff)
qed simp

locale slot_pool =
  fixes acquire :: "'k \<Rightarrow> 's \<Rightarrow> 's option"
    and release :: "'k \<Rightarrow> 's \<Rightarrow> 's"
    and used :: "'s \<Rightarrow> 'k \<Rightarrow> int"
    and limit :: "'k \<Rightarrow> int"
    and pooled :: "'k \<Rightarrow> bool"
  assumes acquired: "acquire k s = Some s' \<Longrightarrow>
      used s' j = used s j + (if j = k \<and> pooled k then 1 else 0) \<and>
      (pooled k \<and> limit k > 0 \<longrightarrow> used s k < limit k)"
    and refused: "acquire k s = None \<Longrightarrow> limit k > 0 \<and> limit k \<le> used s k"
    and released: "used s k > 0 \<or> \<not> pooled k \<Longrightarrow> used (release k s) j = used s j - (if j = k \<and> pooled k then 1 else 0)"
begin

definition holds :: "'k list \<Rightarrow> 's \<Rightarrow> bool" where
  "holds ks s \<longleftrightarrow> (\<forall>k. pooled k \<longrightarrow> used s k = int (count_list ks k))"

lemma acquire_holds:
  "holds ks s \<Longrightarrow> acquire k s = Some s' \<Longrightarrow> holds (ks @ [k]) s'"
  by (auto simp: holds_def acquired)

lemma acquire_limit:
  "acquire k s = Some s' \<Longrightarrow> pooled k \<Longrightarrow> limit k > 0 \<Longrightarrow> used s' k \<le> limit k"
  using acquired [of k s s' k] by auto

lemma release_holds:
  assumes "holds ks s" "k \<in> set ks"
  shows "holds (remove1 k ks) (release k s)"
proof -
  from assms(2) have pos: "0 < count_list ks k"
    using count_list_0_iff [of ks k] by (metis gr0I)
  have c: "int (count_list (remove1 k ks) j) = int (count_list ks j) - (if j = k then 1 else 0)" for j
    using count_list_remove1 [OF assms(2), of j] pos by auto
  have "pooled k \<Longrightarrow> used s k > 0" using assms(1) pos by (simp add: holds_def)
  then have "used s k > 0 \<or> \<not> pooled k" by blast
  from released [OF this] assms(1) pos show ?thesis
    unfolding holds_def by (auto simp: c of_nat_diff Suc_leI)
qed

lemma acquire_release:
  "acquire k s = Some s' \<Longrightarrow> used s k \<ge> 0 \<Longrightarrow> used (release k s') j = used s j"
  using acquired [of k s s' k] acquired [of k s s' j] released [of s' k j] by (cases "pooled k") auto

end

lemma counter_simps [simp]:
  "counter (m(k \<mapsto> n)) j = (if j = k then n else counter m j)"
  "counter Map.empty j = 0"
  by (simp_all add: counter_def)

interpretation project: slot_pool "try_acquire_project_slot env" release_project_slot
  "\<lambda>s. counter (wp_project_running s)" "we_project_max env" "\<lambda>p. True"
  for env
proof (unfold_locales, goal_cases)
  case (1 k s s' j) then show ?case by (auto simp: try_acquire_project_slot_def Let_def split: if_splits)
next
  case (2 k s) then show ?case by (auto simp: try_acquire_project_slot_def Let_def split: if_splits)
next
  case (3 s k j) then show ?case
    by (auto simp: release_project_slot_def counter_def split: option.splits)
qed

interpretation model: slot_pool "try_acquire_model_slot env" release_model_slot
  "\<lambda>s. counter (wp_model_running s)" "we_model_max env" "\<lambda>a. a \<noteq> ''''"
  for env
proof (unfold_locales, goal_cases)
  case (1 k s s' j) then show ?case by (auto simp: try_acquire_model_slot_def Let_def split: if_splits)
next
  case (2 k s) then show ?case by (auto simp: try_acquire_model_slot_def Let_def split: if_splits)
next
  case (3 s k j) then show ?case
    by (auto simp: release_model_slot_def counter_def split: option.splits)
qed

subsection \<open>The accounts\<close>

definition project_holders :: "worker_pool \<Rightarrow> string list" where
  "project_holders s = List.map_filter fst (wp_holders s) @ map (\<lambda>j. tk_project_id (jb_task j)) (filter jb_capacity (wp_jobs s))"

definition model_holders :: "worker_pool \<Rightarrow> string list" where
  "model_holders s = List.map_filter snd (wp_holders s) @ map jb_agent (filter jb_capacity (wp_jobs s))"

definition accounted :: "worker_pool \<Rightarrow> bool" where
  "accounted s \<longleftrightarrow>
     (\<forall>p. counter (wp_project_running s) p = int (count_list (project_holders s) p)) \<and>
     (\<forall>a. a \<noteq> '''' \<longrightarrow> counter (wp_model_running s) a = int (count_list (model_holders s) a)) \<and>
     wp_total_running s = int (length (project_holders s))"

definition same_accounts :: "worker_pool \<Rightarrow> worker_pool \<Rightarrow> bool" where
  "same_accounts s s' \<longleftrightarrow>
     (\<forall>p. counter (wp_project_running s') p = counter (wp_project_running s) p) \<and>
     (\<forall>a. counter (wp_model_running s') a = counter (wp_model_running s) a) \<and>
     wp_total_running s' = wp_total_running s \<and> wp_jobs s' = wp_jobs s \<and> wp_holders s' = wp_holders s"

lemma same_accounts_accounted: "same_accounts s s' \<Longrightarrow> accounted s \<Longrightarrow> accounted s'"
  by (simp add: same_accounts_def accounted_def project_holders_def model_holders_def)

lemma same_accounts_refl [simp]: "same_accounts s s" by (simp add: same_accounts_def)

text \<open>What a grant of all pools does, and that a refusal changes no account.\<close>

lemma acquire_locked_granted:
  assumes "try_acquire_worker_slots_locked env p a s = (True, s1)"
  shows "s1 = s\<lparr>wp_project_running := wp_project_running s1, wp_model_running := wp_model_running s1,
              wp_total_running := wp_total_running s + 1\<rparr>"
    "\<And>q. counter (wp_project_running s1) q = counter (wp_project_running s) q + (if q = p then 1 else 0)"
    "\<And>b. counter (wp_model_running s1) b = counter (wp_model_running s) b + (if b = a \<and> a \<noteq> '''' then 1 else 0)"
    "wp_num_workers s > 0 \<Longrightarrow> wp_total_running s < wp_num_workers s"
    "we_project_max env p > 0 \<Longrightarrow> counter (wp_project_running s) p < we_project_max env p"
    "a \<noteq> '''' \<Longrightarrow> we_model_max env a > 0 \<Longrightarrow> counter (wp_model_running s) a < we_model_max env a"
  using assms
  by (auto simp: try_acquire_worker_slots_locked_def try_acquire_project_slot_def try_acquire_model_slot_def
      has_global_worker_capacity_def Let_def split: if_splits option.splits)

lemma acquire_locked_refused:
  assumes "try_acquire_worker_slots_locked env p a s = (False, s1)"
  shows "same_accounts s s1"
    "s1 = s\<lparr>wp_project_running := wp_project_running s1\<rparr>"
  using assms
  by (auto simp: try_acquire_worker_slots_locked_def try_acquire_project_slot_def try_acquire_model_slot_def
      release_project_slot_def same_accounts_def Let_def split: if_splits option.splits)

lemma release_worker_slots_frame [simp]:
  "wp_queue (release_worker_slots p a s) = wp_queue s"
  "wp_jobs (release_worker_slots p a s) = wp_jobs s"
  "wp_holders (release_worker_slots p a s) = wp_holders s"
  "wp_pending (release_worker_slots p a s) = wp_pending s"
  "wp_started (release_worker_slots p a s) = wp_started s"
  "wp_num_workers (release_worker_slots p a s) = wp_num_workers s"
  "wp_reserved (release_worker_slots p a s) = wp_reserved s"
  "wp_prepared (release_worker_slots p a s) = wp_prepared s"
  "wp_effects (release_worker_slots p a s) = wp_effects s"
  "wp_total_running (release_worker_slots p a s) = wp_total_running s - 1"
  by (simp_all add: release_worker_slots_def release_model_slot_def release_project_slot_def split: option.splits)

subsection \<open>Dispatch keeps the accounts and the limits\<close>

lemma prune_accounts: "same_accounts s (prune env t s)"
  by (simp add: same_accounts_def prune_def forget_def Let_def)

lemma count_list_snoc: "count_list (xs @ [x]) y = count_list xs y + (if x = y then 1 else 0)"
  by simp

lemma launch_holders:
  "project_holders (launch t a s) = project_holders s @ [tk_project_id t]"
  "model_holders (launch t a s) = model_holders s @ [a]"
  by (simp_all add: project_holders_def model_holders_def launch_def Let_def)

lemma launch_counters [simp]:
  "wp_project_running (launch t a s) = wp_project_running s"
  "wp_model_running (launch t a s) = wp_model_running s"
  "wp_total_running (launch t a s) = wp_total_running s"
  "wp_started (launch t a s) = wp_started s"
  "wp_num_workers (launch t a s) = wp_num_workers s"
  by (simp_all add: launch_def Let_def)

lemma launch_accounted:
  assumes "try_acquire_worker_slots_locked env (tk_project_id t) a s = (True, s1)" "accounted s"
  shows "accounted (launch t a s1)"
proof -
  note g = acquire_locked_granted [OF assms(1)]
  have h: "project_holders s1 = project_holders s" "model_holders s1 = model_holders s"
    by (subst g(1), simp add: project_holders_def model_holders_def)+
  have t: "wp_total_running s1 = wp_total_running s + 1" by (subst g(1)) simp
  show ?thesis
    using assms(2) by (auto simp: accounted_def launch_holders h g(2,3) t)
qed

lemma release_undoes:
  assumes "try_acquire_worker_slots_locked env p a s = (True, s1)" "accounted s"
  shows "same_accounts s (release_worker_slots p a s1)"
proof -
  note g = acquire_locked_granted [OF assms(1)]
  have nn: "0 \<le> counter (wp_project_running s) p" "a \<noteq> '''' \<Longrightarrow> 0 \<le> counter (wp_model_running s) a"
    using assms(2) by (simp_all add: accounted_def)
  have pj: "counter (wp_project_running (release_worker_slots p a s1)) q = counter (wp_project_running s) q" for q
    using project.released [of s1 p q] g(2) nn(1)
    by (simp add: release_worker_slots_def release_model_slot_def split: option.splits)
  have md: "counter (wp_model_running (release_worker_slots p a s1)) b = counter (wp_model_running s) b" for b
    using model.released [of "release_project_slot p s1" a b] g(3) nn(2)
    by (cases "a = ''''") (auto simp: release_worker_slots_def release_project_slot_def)
  have fr: "wp_jobs s1 = wp_jobs s" "wp_holders s1 = wp_holders s" "wp_total_running s1 = wp_total_running s + 1"
    by (subst g(1), simp)+
  show ?thesis by (simp add: same_accounts_def pj md fr)
qed

lemma release_undoes_acquire:
  "try_acquire_worker_slots_locked env p a s = (True, s1) \<Longrightarrow> accounted s \<Longrightarrow> accounted (release_worker_slots p a s1)"
  using release_undoes same_accounts_accounted by blast

lemma accounted_queue [simp]: "accounted (s\<lparr>wp_queue := q\<rparr>) = accounted s"
  by (simp add: accounted_def project_holders_def model_holders_def)

text \<open>What the scan does with an entry: one of six outcomes.\<close>

lemma scan_cases:
  obtains (pruned) "runnable env s t = None"
      "dispatch_scan env kept (t # rest) s = dispatch_scan env kept rest (prune env t s)"
    | (waiting) d where "runnable env s t = Some d" "waits_on_parent env d"
      "dispatch_scan env kept (t # rest) s = dispatch_scan env (kept @ [t]) rest s"
    | (stopped) "\<not> wp_started s \<or> \<not> we_open env (tk_id t)"
      "dispatch_scan env kept (t # rest) s = s\<lparr>wp_queue := kept @ t # rest\<rparr>"
    | (full) p a s1 where "try_acquire_worker_slots_locked env p a s = (False, s1)"
      "dispatch_scan env kept (t # rest) s = dispatch_scan env (kept @ [t]) rest s1"
    | (drained) p a s1 where "try_acquire_worker_slots_locked env p a s = (True, s1)" "\<not> we_tracker env (tk_id t)"
      "dispatch_scan env kept (t # rest) s = (release_worker_slots p a s1)\<lparr>wp_queue := kept @ t # rest\<rparr>"
    | (launched) d t' a s1 where "runnable env s t = Some d" "\<not> waits_on_parent env d" "wp_started s"
      "we_open env (tk_id t)" "we_tracker env (tk_id t)" "t' = refreshed (wp_prepared s (tk_id t)) t d"
      "try_acquire_worker_slots_locked env (tk_project_id t') a s = (True, s1)" "a = we_resolve env t'"
      "dispatch_scan env kept (t # rest) s = dispatch_scan env kept rest (launch t' a s1)"
proof (cases "runnable env s t")
  case None then show ?thesis by (intro pruned) simp_all
next
  case d: (Some d)
  let ?t = "refreshed (wp_prepared s (tk_id t)) t d"
  obtain ok s1 where a: "try_acquire_worker_slots_locked env (tk_project_id ?t) (we_resolve env ?t) s = (ok, s1)"
    by (rule prod.exhaust)
  consider "waits_on_parent env d" | "\<not> waits_on_parent env d" "\<not> wp_started s \<or> \<not> we_open env (tk_id t)"
    | "\<not> waits_on_parent env d" "wp_started s" "we_open env (tk_id t)" by blast
  then show ?thesis
  proof cases
    case 1 with d show ?thesis by (intro waiting) simp_all
  next
    case 2 with d show ?thesis by (intro stopped) simp_all
  next
    case 3
    show ?thesis
    proof (cases ok)
      case False
      with 3 d a show ?thesis by (intro full [of "tk_project_id ?t" "we_resolve env ?t" s1]) (simp_all add: Let_def)
    next
      case True
      show ?thesis
      proof (cases "we_tracker env (tk_id t)")
        case False
        with 3 d a True show ?thesis
          by (intro drained [of "tk_project_id ?t" "we_resolve env ?t" s1]) (simp_all add: Let_def)
      next
        case tr: True
        from 3 d a True tr show ?thesis
          by (intro launched [of d ?t "we_resolve env ?t" s1]) (simp_all add: Let_def)
      qed
    qed
  qed
qed

declare dispatch_scan.simps(2) [simp del]

lemma scan_preserves:
  assumes "P s"
    and queue: "\<And>s q. P s \<Longrightarrow> P (s\<lparr>wp_queue := q\<rparr>)"
    and prune: "\<And>s t. P s \<Longrightarrow> P (prune env t s)"
    and full: "\<And>s p a s1. P s \<Longrightarrow> try_acquire_worker_slots_locked env p a s = (False, s1) \<Longrightarrow> P s1"
    and drained: "\<And>s p a s1. P s \<Longrightarrow> try_acquire_worker_slots_locked env p a s = (True, s1) \<Longrightarrow>
      P (release_worker_slots p a s1)"
    and launched: "\<And>s t a s1. P s \<Longrightarrow> try_acquire_worker_slots_locked env (tk_project_id t) a s = (True, s1) \<Longrightarrow>
      P (launch t a s1)"
  shows "P (dispatch_scan env kept rest s)"
  using assms(1)
proof (induction rest arbitrary: kept s)
  case Nil then show ?case by (simp add: queue)
next
  case (Cons t rest)
  show ?case
  proof (rule scan_cases [of env s t kept rest], goal_cases)
    case 1 then show ?thesis using Cons.IH [OF prune [OF Cons.prems]] by simp
  next
    case 2 then show ?thesis using Cons.IH [OF Cons.prems] by simp
  next
    case 3 then show ?thesis using queue [OF Cons.prems] by simp
  next
    case (4 p a s1) then show ?thesis using Cons.IH [OF full [OF Cons.prems]] by simp
  next
    case (5 p a s1) then show ?thesis using queue [OF drained [OF Cons.prems]] by simp
  next
    case (6 d t' a s1) then show ?thesis using Cons.IH [OF launched [OF Cons.prems]] by simp
  qed
qed

lemma dispatch_next_preserves:
  assumes "P s"
    and "\<And>s q. P s \<Longrightarrow> P (s\<lparr>wp_queue := q\<rparr>)"
    and "\<And>s t. P s \<Longrightarrow> P (prune env t s)"
    and "\<And>s p a s1. P s \<Longrightarrow> try_acquire_worker_slots_locked env p a s = (False, s1) \<Longrightarrow> P s1"
    and "\<And>s p a s1. P s \<Longrightarrow> try_acquire_worker_slots_locked env p a s = (True, s1) \<Longrightarrow>
      P (release_worker_slots p a s1)"
    and "\<And>s t a s1. P s \<Longrightarrow> try_acquire_worker_slots_locked env (tk_project_id t) a s = (True, s1) \<Longrightarrow>
      P (launch t a s1)"
  shows "P (dispatch_next env s)"
  unfolding dispatch_next_def using assms by (rule scan_preserves)

lemma dispatch_next_accounted: "accounted s \<Longrightarrow> accounted (dispatch_next env s)"
proof (rule dispatch_next_preserves [of accounted])
  fix s t assume "accounted s" then show "accounted (prune env t s)"
    using prune_accounts same_accounts_accounted by blast
next
  fix s p a s1
  assume "accounted s" "try_acquire_worker_slots_locked env p a s = (False, s1)"
  then show "accounted s1" using acquire_locked_refused(1) same_accounts_accounted by blast
qed (auto intro: release_undoes_acquire launch_accounted)

text \<open>
  What is within a bound, with the limits of an environment: the project, model and global
  counters of a state that keeps its accounts.
\<close>

definition within :: "worker_env \<Rightarrow> (string \<Rightarrow> int) \<Rightarrow> (string \<Rightarrow> int) \<Rightarrow> int \<Rightarrow> int \<Rightarrow> worker_pool \<Rightarrow> bool" where
  "within env bp bm bt n s \<longleftrightarrow> accounted s \<and> wp_num_workers s = n \<and>
     (\<forall>p. we_project_max env p > 0 \<longrightarrow> counter (wp_project_running s) p \<le> max (bp p) (we_project_max env p)) \<and>
     (\<forall>a. a \<noteq> '''' \<and> we_model_max env a > 0 \<longrightarrow> counter (wp_model_running s) a \<le> max (bm a) (we_model_max env a)) \<and>
     (n > 0 \<longrightarrow> wp_total_running s \<le> max bt n)"

lemma within_same:
  "within env bp bm bt n s \<Longrightarrow> same_accounts s s' \<Longrightarrow> wp_num_workers s' = wp_num_workers s \<Longrightarrow> within env bp bm bt n s'"
  using same_accounts_accounted [of s s'] by (auto simp: within_def same_accounts_def)

lemma dispatch_next_within:
  assumes "within env bp bm bt n s"
  shows "within env bp bm bt n (dispatch_next env s)"
  using assms
proof (rule dispatch_next_preserves)
  fix s q assume "within env bp bm bt n s" then show "within env bp bm bt n (s\<lparr>wp_queue := q\<rparr>)"
    by (simp add: within_def)
next
  fix s t assume "within env bp bm bt n s" then show "within env bp bm bt n (prune env t s)"
    by (rule within_same [OF _ prune_accounts]) (simp add: prune_def forget_def Let_def)
next
  fix s p a s1
  assume w: "within env bp bm bt n s" and r: "try_acquire_worker_slots_locked env p a s = (False, s1)"
  have "wp_num_workers s1 = wp_num_workers s" by (subst acquire_locked_refused(2) [OF r]) simp
  with w acquire_locked_refused(1) [OF r] show "within env bp bm bt n s1" by (rule within_same)
next
  fix s p a s1
  assume w: "within env bp bm bt n s" and g: "try_acquire_worker_slots_locked env p a s = (True, s1)"
  have "wp_num_workers s1 = wp_num_workers s" by (subst acquire_locked_granted(1) [OF g]) simp
  moreover have "accounted s" using w by (simp add: within_def)
  ultimately show "within env bp bm bt n (release_worker_slots p a s1)"
    by (intro within_same [OF w release_undoes [OF g]]) simp_all
next
  fix s s1 and t :: task and a
  assume w: "within env bp bm bt n s" and r: "try_acquire_worker_slots_locked env (tk_project_id t) a s = (True, s1)"
  note g = acquire_locked_granted [OF r]
  have f: "wp_num_workers s1 = wp_num_workers s" "wp_total_running s1 = wp_total_running s + 1"
    by (subst g(1), simp)+
  have "accounted (launch t a s1)" using launch_accounted [OF r] w by (simp add: within_def)
  with w g(4-6) show "within env bp bm bt n (launch t a s1)"
    by (auto simp: within_def f g(2,3) max_def split: if_splits)
qed

subsection \<open>Dispatch loses nothing and launches only what may run\<close>

text \<open>The durable store answers a question about an id with the task of that id.\<close>

definition env_ids :: "worker_env \<Rightarrow> bool" where
  "env_ids env \<longleftrightarrow> (\<forall>i d. we_task env i = Inr (Some d) \<longrightarrow> tk_id d = i)"

definition launchable :: "worker_env \<Rightarrow> worker_pool \<Rightarrow> job \<Rightarrow> bool" where
  "launchable env s j \<longleftrightarrow>
     (\<exists>t d. tk_id t = tk_id (jb_task j) \<and> runnable env s t = Some d \<and> \<not> waits_on_parent env d \<and>
        wp_started s \<and> we_open env (tk_id t) \<and> we_tracker env (tk_id t) \<and>
        jb_reserved j = reserved_id s (tk_id t) \<and> jb_prepared j = wp_prepared s (tk_id t) \<and> jb_capacity j)"

text \<open>
  The state as far as the entries still to be scanned can tell. The entry of an id that is queued
  twice may come after an earlier one that took what was recorded for the id.
\<close>

definition seen :: "worker_pool \<Rightarrow> string multiset \<Rightarrow> string \<Rightarrow> worker_pool set" where
  "seen s q i = {s} \<union> (if 2 \<le> count q i then {forget i s} else {})"

definition same_view :: "string multiset \<Rightarrow> string set \<Rightarrow> worker_pool \<Rightarrow> worker_pool \<Rightarrow> bool" where
  "same_view q ids s s' \<longleftrightarrow> wp_started s' = wp_started s \<and>
     (\<forall>i \<in> ids. \<exists>v \<in> seen s q i. wp_reserved s' i = wp_reserved v i \<and> wp_prepared s' i = wp_prepared v i)"

lemma seen_started: "v \<in> seen s q i \<Longrightarrow> wp_started v = wp_started s"
  by (auto simp: seen_def forget_def split: if_splits)

lemma viewed:
  assumes "same_view q ids s s'" "tk_id t \<in> ids"
  obtains v where "v \<in> seen s q (tk_id t)" "runnable env s' t = runnable env v t" "wp_started s' = wp_started v"
    "wp_prepared s' (tk_id t) = wp_prepared v (tk_id t)" "reserved_id s' (tk_id t) = reserved_id v (tk_id t)"
proof -
  from assms obtain v where v: "v \<in> seen s q (tk_id t)" "wp_reserved s' (tk_id t) = wp_reserved v (tk_id t)"
    "wp_prepared s' (tk_id t) = wp_prepared v (tk_id t)" by (auto simp: same_view_def)
  moreover have "runnable env s' t = runnable env v t" unfolding runnable_def reserved_id_def v ..
  ultimately show ?thesis using assms(1) seen_started [OF v(1)] by (intro that [of v]) (simp_all add: same_view_def reserved_id_def)
qed

lemma runnable_id: "env_ids env \<Longrightarrow> runnable env s t = Some d \<Longrightarrow> tk_id d = tk_id t"
  by (auto simp: runnable_def env_ids_def split: sum.splits option.splits if_splits)

lemma refreshed_id: "tk_id d = tk_id t \<Longrightarrow> tk_id (refreshed pd t d) = tk_id t"
  by (simp add: refreshed_def split: option.splits)

lemma same_view_forget:
  assumes "same_view q ids s0 s" "i \<in> ids' \<Longrightarrow> 2 \<le> count q i" "ids' \<subseteq> ids"
    and s': "wp_started s' = wp_started s" "wp_reserved s' = (wp_reserved s)(i := None)" "wp_prepared s' = (wp_prepared s)(i := None)"
  shows "same_view q ids' s0 s'"
  unfolding same_view_def
proof (intro conjI ballI)
  show "wp_started s' = wp_started s0" using assms(1) s'(1) by (simp add: same_view_def)
next
  fix j assume j: "j \<in> ids'"
  show "\<exists>v \<in> seen s0 q j. wp_reserved s' j = wp_reserved v j \<and> wp_prepared s' j = wp_prepared v j"
  proof (cases "j = i")
    case True
    with assms(2) j have "forget i s0 \<in> seen s0 q j" by (simp add: seen_def)
    with True s' show ?thesis by (intro bexI [of _ "forget i s0"]) (simp_all add: forget_def)
  next
    case False
    with assms(1,3) j s' show ?thesis by (auto simp: same_view_def)
  qed
qed

lemma same_view_prune:
  assumes "same_view q ids s0 s" "tk_id t \<in> ids' \<Longrightarrow> 2 \<le> count q (tk_id t)" "ids' \<subseteq> ids"
  shows "same_view q ids' s0 (prune env t s)"
  by (rule same_view_forget [OF assms]) (simp_all add: prune_def forget_def Let_def)

lemma same_view_launch:
  assumes "same_view q ids s0 s" "tk_id t \<in> ids' \<Longrightarrow> 2 \<le> count q (tk_id t)" "ids' \<subseteq> ids"
  shows "same_view q ids' s0 (launch t a s)"
  by (rule same_view_forget [OF assms]) (simp_all add: launch_def Let_def)

lemma granted_frame:
  assumes "try_acquire_worker_slots_locked env p a s = (ok, s1)"
  shows "wp_jobs s1 = wp_jobs s" "wp_started s1 = wp_started s" "wp_reserved s1 = wp_reserved s"
    "wp_prepared s1 = wp_prepared s" "wp_pending s1 = wp_pending s" "wp_holders s1 = wp_holders s"
proof -
  have "\<exists>pr mr n. s1 = s\<lparr>wp_project_running := pr, wp_model_running := mr, wp_total_running := n\<rparr>"
  proof (cases ok)
    case True
    with assms have "try_acquire_worker_slots_locked env p a s = (True, s1)" by simp
    from acquire_locked_granted(1) [OF this] show ?thesis by (intro exI)
  next
    case False
    have eq: "s\<lparr>wp_project_running := x, wp_model_running := wp_model_running s,
        wp_total_running := wp_total_running s\<rparr> = s\<lparr>wp_project_running := x\<rparr>" for x by simp
    from False assms have "try_acquire_worker_slots_locked env p a s = (False, s1)" by simp
    from acquire_locked_refused(2) [OF this]
    have "s1 = s\<lparr>wp_project_running := wp_project_running s1, wp_model_running := wp_model_running s,
        wp_total_running := wp_total_running s\<rparr>" unfolding eq .
    then show ?thesis by (intro exI)
  qed
  then show "wp_jobs s1 = wp_jobs s" "wp_started s1 = wp_started s" "wp_reserved s1 = wp_reserved s"
    "wp_prepared s1 = wp_prepared s" "wp_pending s1 = wp_pending s" "wp_holders s1 = wp_holders s"
    by auto
qed

lemma prune_frame [simp]: "wp_jobs (prune env t s) = wp_jobs s"
  by (simp add: prune_def forget_def Let_def)

text \<open>
  The entries of a scan are kept, launched or pruned: kept ones stay in order, launched ones
  become jobs in order, and only stale ones are pruned.
\<close>

definition scanned :: "worker_env \<Rightarrow> string multiset \<Rightarrow> worker_pool \<Rightarrow> task list \<Rightarrow> task list \<Rightarrow> job list \<Rightarrow> task list \<Rightarrow> bool" where
  "scanned env q s rest ks js ps \<longleftrightarrow>
     mset (map tk_id rest) = mset (map tk_id ks) + mset (map (tk_id \<circ> jb_task) js) + mset (map tk_id ps) \<and>
     subseq ks rest \<and> subseq (map (tk_id \<circ> jb_task) js) (map tk_id rest) \<and>
     (\<forall>j \<in> set js. \<exists>v \<in> seen s q (tk_id (jb_task j)). launchable env v j) \<and>
     (\<forall>t \<in> set ps. \<exists>v \<in> seen s q (tk_id t). runnable env v t = None)"

lemma scanned_all_kept: "scanned env q s rest rest [] []"
  by (simp add: scanned_def)

lemma scanned_keep: "scanned env q s rest ks js ps \<Longrightarrow> scanned env q s (t # rest) (t # ks) js ps"
  by (auto simp: scanned_def)

lemma scanned_prune: "scanned env q s rest ks js ps \<Longrightarrow> v \<in> seen s q (tk_id t) \<Longrightarrow> runnable env v t = None \<Longrightarrow> scanned env q s (t # rest) ks js (t # ps)"
  by (auto simp: scanned_def)

lemma scanned_launch:
  "scanned env q s rest ks js ps \<Longrightarrow> v \<in> seen s q (tk_id t) \<Longrightarrow> launchable env v j \<Longrightarrow> tk_id (jb_task j) = tk_id t \<Longrightarrow>
   scanned env q s (t # rest) ks (j # js) ps"
  by (auto simp: scanned_def)

lemma dispatch_scan_spec:
  assumes "env_ids env" "mset (map tk_id rest) \<subseteq># q" "same_view q (tk_id ` set rest) s0 s"
  shows "\<exists>ks js ps. wp_queue (dispatch_scan env kept rest s) = kept @ ks \<and>
    wp_jobs (dispatch_scan env kept rest s) = wp_jobs s @ js \<and> scanned env q s0 rest ks js ps"
  using assms(2,3)
proof (induction rest arbitrary: kept s)
  case Nil then show ?case using scanned_all_kept [of env q s0 "[]"] by auto
next
  case (Cons t rest)
  have v: "same_view q (tk_id ` set rest) s0 s" "mset (map tk_id rest) \<subseteq># q"
    using Cons.prems(2) subset_mset.order_trans [OF _ Cons.prems(1), of "mset (map tk_id rest)"] by (auto simp: same_view_def)
  have twice: "2 \<le> count q (tk_id t)" if "tk_id t \<in> tk_id ` set rest"
  proof -
    from that have "tk_id t \<in># mset (map tk_id rest)" by (simp add: image_iff)
    then have "Suc 0 \<le> count (mset (map tk_id rest)) (tk_id t)"
      by (simp only: count_greater_zero_iff [symmetric] Suc_le_eq)
    moreover have "count (mset (map tk_id (t # rest))) (tk_id t) = Suc (count (mset (map tk_id rest)) (tk_id t))" by simp
    ultimately show ?thesis using mset_subset_eq_count [OF Cons.prems(1), of "tk_id t"] by linarith
  qed
  from Cons.prems(2) have here: "same_view q (tk_id ` set (t # rest)) s0 s" "tk_id t \<in> tk_id ` set (t # rest)" by simp_all
  obtain w where w: "w \<in> seen s0 q (tk_id t)" "runnable env s t = runnable env w t" "wp_started s = wp_started w"
    "wp_prepared s (tk_id t) = wp_prepared w (tk_id t)" "reserved_id s (tk_id t) = reserved_id w (tk_id t)"
    by (rule viewed [OF here])
  show ?case
  proof (rule scan_cases [of env s t kept rest], goal_cases)
    case 1
    have "same_view q (tk_id ` set rest) s0 (prune env t s)"
      by (rule same_view_prune [OF v(1) twice]) simp_all
    from Cons.IH [OF v(2) this, of kept] obtain ks js ps where
      "wp_queue (dispatch_scan env kept rest (prune env t s)) = kept @ ks"
      "wp_jobs (dispatch_scan env kept rest (prune env t s)) = wp_jobs s @ js" "scanned env q s0 rest ks js ps" by auto
    with 1 w scanned_prune [of env q s0 rest ks js ps w t] show ?thesis by auto
  next
    case (2 d)
    from Cons.IH [OF v(2,1), of "kept @ [t]"] obtain ks js ps where
      "wp_queue (dispatch_scan env (kept @ [t]) rest s) = kept @ t # ks"
      "wp_jobs (dispatch_scan env (kept @ [t]) rest s) = wp_jobs s @ js" "scanned env q s0 rest ks js ps" by auto
    with 2 scanned_keep [of env q s0 rest ks js ps t] show ?thesis by auto
  next
    case 3 then show ?thesis using scanned_all_kept [of env q s0 "t # rest"] by auto
  next
    case (4 p a s1)
    note f = granted_frame [OF 4(1)]
    from v(1) have "same_view q (tk_id ` set rest) s0 s1" by (simp add: same_view_def f)
    from Cons.IH [OF v(2) this, of "kept @ [t]"] obtain ks js ps where
      "wp_queue (dispatch_scan env (kept @ [t]) rest s1) = kept @ t # ks"
      "wp_jobs (dispatch_scan env (kept @ [t]) rest s1) = wp_jobs s1 @ js" "scanned env q s0 rest ks js ps" by auto
    with 4 f scanned_keep [of env q s0 rest ks js ps t] show ?thesis by auto
  next
    case (5 p a s1)
    with granted_frame [OF 5(1)] show ?thesis using scanned_all_kept [of env q s0 "t # rest"] by auto
  next
    case (6 d t' a s1)
    note f = granted_frame [OF 6(7)]
    have id: "tk_id t' = tk_id t"
      unfolding 6(6) by (rule refreshed_id) (rule runnable_id [OF assms(1) 6(1)])
    have "same_view q (tk_id ` set rest) s0 s1" using v(1) by (simp add: same_view_def f)
    then have "same_view q (tk_id ` set rest) s0 (launch t' a s1)"
      by (rule same_view_launch) (use twice id in auto)
    from Cons.IH [OF v(2) this, of kept] obtain ks js ps where
      ih: "wp_queue (dispatch_scan env kept rest (launch t' a s1)) = kept @ ks"
      "wp_jobs (dispatch_scan env kept rest (launch t' a s1)) = wp_jobs (launch t' a s1) @ js"
      "scanned env q s0 rest ks js ps" by blast
    define j where "j = new_job t' a (wp_prepared s1 (tk_id t')) (reserved_id s1 (tk_id t'))"
    have jobs: "wp_jobs (launch t' a s1) = wp_jobs s @ [j]"
      by (simp add: launch_def Let_def j_def f)
    have "launchable env w j"
      unfolding launchable_def
      by (rule exI [of _ t], rule exI [of _ d])
        (use 6(1-5) w in \<open>simp add: j_def id f reserved_id_def\<close>)
    from scanned_launch [OF ih(3) w(1) this] ih 6(9) jobs show ?thesis
      by (auto simp: j_def id)
  qed
qed

subsection \<open>Properties of the dispatcher\<close>

text \<open>Examples: one project, two workers, a limit of one task for the model \<open>m\<close>.\<close>

definition sample_env :: worker_env where
  "sample_env =
     \<lparr>we_task = (\<lambda>i. Inr (Some (sample_task i ''p''))), we_project_max = (\<lambda>p. 0), we_model_max = (\<lambda>a. 1),
      we_resolve = (\<lambda>t. ''m''), we_open = (\<lambda>i. True), we_tracker = (\<lambda>i. True),
      we_exec_repo = True, we_automation_repo = True\<rparr>"

lemma sample_env_simps [simp]:
  "we_task sample_env i = Inr (Some (sample_task i ''p''))" "we_project_max sample_env p = 0"
  "we_model_max sample_env a = 1" "we_resolve sample_env t = ''m''" "we_open sample_env i" "we_tracker sample_env i"
  "we_exec_repo sample_env" "we_automation_repo sample_env"
  by (simp_all add: sample_env_def)

definition sample_pool :: worker_pool where
  "sample_pool = (new_worker_service 2)\<lparr>wp_started := True, wp_queue := [sample_task ''a'' ''p'', sample_task ''b'' ''p''],
     wp_pending := {''a'', ''b''}\<rparr>"

lemma sample_pool_simps [simp]:
  "wp_queue sample_pool = [sample_task ''a'' ''p'', sample_task ''b'' ''p'']" "wp_jobs sample_pool = []"
  "wp_project_running sample_pool = Map.empty" "wp_model_running sample_pool = Map.empty"
  "wp_total_running sample_pool = 0" "wp_num_workers sample_pool = 2" "wp_holders sample_pool = []"
  by (simp_all add: sample_pool_def new_worker_service_def)

lemma sample_pool_accounted: "accounted sample_pool"
  by (simp add: accounted_def project_holders_def model_holders_def map_filter_simps)

lemma sample_env_ids: "env_ids sample_env" by (simp add: env_ids_def)

text \<open>
  C30: A scan of the queue respects every limit. Whatever the queue holds, \<open>dispatchNext\<close> leaves the
  running count of a limited project, of a limited model, and of the whole pool at no more than
  the larger of its limit and what was running before; limits that were lowered below what runs
  already are not made worse.
\<close>

theorem dispatch_respects_limits:
  assumes "accounted s"
  shows "(we_project_max env p > 0 \<longrightarrow>
       counter (wp_project_running (dispatch_next env s)) p \<le> max (counter (wp_project_running s) p) (we_project_max env p)) \<and>
     (a \<noteq> '''' \<and> we_model_max env a > 0 \<longrightarrow>
       counter (wp_model_running (dispatch_next env s)) a \<le> max (counter (wp_model_running s) a) (we_model_max env a)) \<and>
     (wp_num_workers s > 0 \<longrightarrow>
       wp_total_running (dispatch_next env s) \<le> max (wp_total_running s) (wp_num_workers s))"
proof -
  have "within env (counter (wp_project_running s)) (counter (wp_model_running s)) (wp_total_running s)
      (wp_num_workers s) s"
    using assms by (simp add: within_def)
  from dispatch_next_within [OF this] show ?thesis by (simp add: within_def)
qed

lemma dispatch_respects_limits_witness:
  "accounted sample_pool \<and> counter (wp_model_running (dispatch_next sample_env sample_pool)) ''m'' \<le> 1 \<and>
   wp_total_running (dispatch_next sample_env sample_pool) \<le> 2"
  using dispatch_respects_limits [OF sample_pool_accounted, of sample_env "[]" "''m''"] sample_pool_accounted
  by simp

text \<open>
  C5: A scan loses no task and starts only what may start. Every entry of the queue is kept,
  launched or pruned, exactly once; the kept entries and the new jobs keep the queue's order; an
  entry is pruned only when the durable store no longer has a runnable task behind it; and a job is
  started only for a task that is still runnable, does not wait for its parent, is admitted by its
  project's gate and by the update tracker, and it takes over exactly the reservation and the
  prepared dispatch recorded for its id. For the entries of an id that is queued more than once
  what is recorded is either that or, after an entry of the id was launched or pruned, nothing.
  The task repository answers a lookup with the task that was asked for.
\<close>

theorem dispatch_loses_nothing:
  assumes "env_ids env"
  shows "\<exists>js ps. wp_jobs (dispatch_next env s) = wp_jobs s @ js \<and>
    mset (map tk_id (wp_queue s)) = mset (map tk_id (wp_queue (dispatch_next env s)))
      + mset (map (tk_id \<circ> jb_task) js) + mset (map tk_id ps) \<and>
    subseq (wp_queue (dispatch_next env s)) (wp_queue s) \<and>
    subseq (map (tk_id \<circ> jb_task) js) (map tk_id (wp_queue s)) \<and>
    (\<forall>j \<in> set js. \<exists>v \<in> seen s (mset (map tk_id (wp_queue s))) (tk_id (jb_task j)). launchable env v j) \<and>
    (\<forall>t \<in> set ps. \<exists>v \<in> seen s (mset (map tk_id (wp_queue s))) (tk_id t). runnable env v t = None)"
proof -
  have "same_view (mset (map tk_id (wp_queue s))) (tk_id ` set (wp_queue s)) s s" by (auto simp: same_view_def seen_def)
  from dispatch_scan_spec [OF assms subset_mset.order_refl this, of "[]"] show ?thesis
    unfolding dispatch_next_def scanned_def by auto
qed

lemma dispatch_loses_nothing_witness:
  "\<exists>js. \<exists>ps :: task list. wp_jobs (dispatch_next sample_env sample_pool) = js \<and>
     mset [''a'', ''b''] = mset (map tk_id (wp_queue (dispatch_next sample_env sample_pool)))
       + mset (map (tk_id \<circ> jb_task) js) + mset (map tk_id ps) \<and> subseq (map (tk_id \<circ> jb_task) js) [''a'', ''b'']"
proof -
  from dispatch_loses_nothing [OF sample_env_ids, of sample_pool] obtain js and ps :: "task list" where
    "wp_jobs (dispatch_next sample_env sample_pool) = wp_jobs sample_pool @ js"
    "mset (map tk_id (wp_queue sample_pool)) = mset (map tk_id (wp_queue (dispatch_next sample_env sample_pool)))
       + mset (map (tk_id \<circ> jb_task) js) + mset (map tk_id ps)"
    "subseq (map (tk_id \<circ> jb_task) js) (map tk_id (wp_queue sample_pool))" by blast
  then show ?thesis by (intro exI [of _ js] exI [of _ ps]) simp
qed

text \<open>The sample, scanned: the model's limit lets one of the two tasks run.\<close>

lemma sample_dispatch:
  "map tk_id (wp_queue (dispatch_next sample_env sample_pool)) = [''b''] \<and>
   map (tk_id \<circ> jb_task) (wp_jobs (dispatch_next sample_env sample_pool)) = [''a'']"
  by (simp add: dispatch_next_def dispatch_scan.simps(2) runnable_def valid_status_def reserved_id_def waits_on_parent_def
      refreshed_def Let_def try_acquire_worker_slots_locked_def has_global_worker_capacity_def
      try_acquire_project_slot_def try_acquire_model_slot_def release_project_slot_def launch_def counter_def
      sample_pool_def new_worker_service_def)

subsection \<open>Cancel registrations\<close>

definition register_all :: "string list \<Rightarrow> worker_pool \<Rightarrow> worker_pool" where
  "register_all is s = fold (\<lambda>i s. snd (register_cancel_owned i s)) is s"

lemma register_all_ids:
  "wp_next_registration (register_all is s) = wp_next_registration s + of_nat (length is) \<and>
   (i \<in> set is \<longrightarrow> (\<exists>k. 0 < k \<and> k \<le> length is \<and>
     wp_cancel_ids (register_all is s) i = Some (wp_next_registration s + of_nat k)))"
proof (induction "is" rule: rev_induct)
  case (snoc x xs)
  have eq: "register_all (xs @ [x]) s = snd (register_cancel_owned x (register_all xs s))"
    by (simp add: register_all_def)
  show ?case
  proof (cases "x = i")
    case True
    with snoc show ?thesis unfolding eq
      by (auto simp: register_cancel_owned_def Let_def algebra_simps intro!: exI [of _ "Suc (length xs)"])
  next
    case False
    with snoc show ?thesis unfolding eq
      by (auto simp: register_cancel_owned_def Let_def algebra_simps)
  qed
qed (simp add: register_all_def)

text \<open>
  An execution that ends cannot take away the cancel function of a newer execution of the same
  task. After it registered, let any tasks register, its own again among them, fewer than
  $2^{64}$ times: deregistering with the old registration changes nothing.
\<close>

theorem stale_deregister_harmless:
  assumes "register_cancel_owned i s = (r, s1)" "i \<in> set is" "length is < 2 ^ 64"
  shows "deregister_cancel_owned i r (register_all is s1) = register_all is s1"
proof -
  have next_r: "wp_next_registration s1 = r" using assms(1) by (auto simp: register_cancel_owned_def Let_def)
  obtain k where k: "0 < k" "k \<le> length is" "wp_cancel_ids (register_all is s1) i = Some (r + of_nat k)"
    using register_all_ids [of "is" s1 i] assms(2) next_r by auto
  have "(of_nat k :: 64 word) \<noteq> 0"
    using k(1,2) assms(3) by (auto simp: word_of_nat_eq_0_iff dest: dvd_imp_le)
  then have "r + of_nat k \<noteq> r" by simp
  with k(3) show ?thesis by (simp add: deregister_cancel_owned_def)
qed

lemma stale_deregister_harmless_witness:
  "deregister_cancel_owned ''a'' 1 (register_all [''b'', ''a''] (snd (register_cancel_owned ''a'' (new_worker_service 2)))) =
   register_all [''b'', ''a''] (snd (register_cancel_owned ''a'' (new_worker_service 2)))"
  by (rule stale_deregister_harmless [of _ "new_worker_service 2"])
    (simp_all add: register_cancel_owned_def new_worker_service_def Let_def)

end
