(* ===== verification/WorkerExec.thy ===== *)
theory WorkerExec
  imports WorkerPool
begin

section \<open>Executing a dispatched task\<close>

text \<open>
  The goroutine of \<open>executeTask\<close> (\<open>internal/service/worker_service.go\<close>) as a job that moves
  through its phases: it registers its cancel function, claims the task durably, moves its
  capacity to another model when the claimed task asks for one, runs, and gives everything back
  in its deferred function. The operations on one job are functions of the pool and the job's
  index; what the store or the model answers is an argument. The step relation interleaves the
  jobs with submissions, cancellations, resizes and the slots other execution paths take.

  Claims keep the project of the task, as no statement of the store changes the project of a
  stored task; that is a guard of the step, and a definition of the claim would allow more.
\<close>

datatype claim_outcome = ClaimFailed | ClaimBusy | NotAdmitted | Claimed task string

definition set_job :: "nat \<Rightarrow> job \<Rightarrow> worker_pool \<Rightarrow> worker_pool" where
  "set_job i j s = s\<lparr>wp_jobs := (wp_jobs s)[i := j]\<rparr>"

definition log_effects :: "worker_effect list \<Rightarrow> worker_pool \<Rightarrow> worker_pool" where
  "log_effects es s = s\<lparr>wp_effects := wp_effects s @ es\<rparr>"

definition exec_begin :: "nat \<Rightarrow> worker_pool \<Rightarrow> worker_pool" where
  "exec_begin i s =
     (let j = wp_jobs s ! i
      in case register_cancel_owned (tk_id (jb_task j)) s of
           (r, s1) \<Rightarrow> set_job i (j\<lparr>jb_registration := r, jb_phase := Registered\<rparr>) s1)"

text \<open>
  The claim. A prepared dispatch without an execution, a reserved execution and an ordinary
  task each have their own; one that already has its execution only becomes running.
\<close>

definition needs_prepared_claim :: "job \<Rightarrow> bool" where
  "needs_prepared_claim j = (case jb_prepared j of Some pd \<Rightarrow> pd_execution_id pd = '''' | None \<Rightarrow> False)"

definition claim_refused :: "bool \<Rightarrow> bool \<Rightarrow> claim_outcome \<Rightarrow> job \<Rightarrow> worker_effect list \<times> job" where
  "claim_refused ctx_done automation out j =
     (if needs_prepared_claim j
      then (if out = ClaimBusy \<and> automation then [CancelDispatches (tk_id (jb_task j))] else [],
            j\<lparr>jb_phase := Finishing\<rparr>)
      else if jb_reserved j \<noteq> ''''
      then ([], j\<lparr>jb_retry := (out \<noteq> NotAdmitted \<and> \<not> ctx_done), jb_claimed := False, jb_completion := False,
                  jb_phase := Finishing\<rparr>)
      else ([], j\<lparr>jb_phase := Finishing\<rparr>))"

definition claim_granted :: "task \<Rightarrow> string \<Rightarrow> job \<Rightarrow> job" where
  "claim_granted t e j =
     (if needs_prepared_claim j
      then j\<lparr>jb_task := (if jb_reserved j = [] then t\<lparr>tk_status := StatusRunning\<rparr> else t),
             jb_prepared := map_option (\<lambda>pd. pd\<lparr>pd_execution_id := e\<rparr>) (jb_prepared j),
             jb_claimed := True, jb_completion := True\<rparr>
      else if jb_reserved j \<noteq> '''' then j\<lparr>jb_task := t, jb_claimed := True, jb_completion := True\<rparr>
      else j\<lparr>jb_task := t\<lparr>tk_starts_new_context := tk_starts_new_context (jb_task j)\<rparr>,
             jb_claimed := True, jb_completion := True\<rparr>)"

definition pre_claimed :: "job \<Rightarrow> bool" where
  "pre_claimed j \<longleftrightarrow> jb_reserved j = '''' \<and>
     (case jb_prepared j of Some pd \<Rightarrow> pd_execution_id pd \<noteq> '''' | None \<Rightarrow> False)"

text \<open>
  A dispatch that is both prepared and reserved is claimed as prepared first and as reserved
  after that. A transfer remembers which claim it belongs to.
\<close>

definition phase_after_claim :: "bool \<Rightarrow> job \<Rightarrow> job_phase" where
  "phase_after_claim from_prepared j = (if from_prepared \<and> jb_reserved j \<noteq> [] then Registered else Admitted)"

definition exec_claim :: "worker_env \<Rightarrow> bool \<Rightarrow> claim_outcome \<Rightarrow> nat \<Rightarrow> worker_pool \<Rightarrow> worker_pool" where
  "exec_claim env ctx_done out i s =
     (let j = wp_jobs s ! i
      in if pre_claimed j
         then set_job i (j\<lparr>jb_task := (jb_task j)\<lparr>tk_status := StatusRunning\<rparr>, jb_phase := Admitted\<rparr>) s
         else case out of
                Claimed t e \<Rightarrow>
                  (let pc = needs_prepared_claim j;
                       j1 = claim_granted t e j;
                       a = we_resolve env (jb_task j1)
                   in if a \<noteq> jb_agent j1
                      then dispatch_next env
                             (release_worker_slots (tk_project_id (jb_task j1)) (jb_agent j1)
                               (set_job i (j1\<lparr>jb_capacity := False, jb_agent := [], jb_phase := Transferring a pc\<rparr>) s))
                      else set_job i (j1\<lparr>jb_phase := phase_after_claim pc j1\<rparr>) s)
              | _ \<Rightarrow> (case claim_refused ctx_done (we_automation_repo env) out j of
                        (es, j1) \<Rightarrow> log_effects es (set_job i j1 s)))"

text \<open>Waiting for the revised model's slots, without the admission gate.\<close>

definition exec_acquire :: "worker_env \<Rightarrow> string \<Rightarrow> bool \<Rightarrow> nat \<Rightarrow> worker_pool \<Rightarrow> worker_pool" where
  "exec_acquire env a pc i s =
     (let j = wp_jobs s ! i
      in case try_acquire_worker_slots env (tk_project_id (jb_task j)) a False s of
           (False, s1) \<Rightarrow> s1
         | (True, s1) \<Rightarrow> set_job i (j\<lparr>jb_agent := a, jb_capacity := True, jb_phase := phase_after_claim pc j\<rparr>) s1)"

definition exec_acquire_failed :: "bool \<Rightarrow> bool \<Rightarrow> string \<Rightarrow> nat \<Rightarrow> worker_pool \<Rightarrow> worker_pool" where
  "exec_acquire_failed pc canceled msg i s =
     (let j = wp_jobs s ! i;
          j1 = j\<lparr>jb_error := Some msg, jb_phase := Finishing\<rparr>
      in if pc
         then set_job i (j1\<lparr>jb_terminal := Some (if canceled
                             then (ExecCancelled, ''automation task cancelled during capacity transfer'')
                             else (ExecFailed, msg))\<rparr>) s
         else log_effects [FailTask (tk_id (jb_task j))] (set_job i j1 s))"

definition exec_run :: "string option \<Rightarrow> nat \<Rightarrow> worker_pool \<Rightarrow> worker_pool" where
  "exec_run err i s = set_job i ((wp_jobs s ! i)\<lparr>jb_error := err, jb_phase := Finishing\<rparr>) s"

definition exec_panic :: "string \<Rightarrow> nat \<Rightarrow> worker_pool \<Rightarrow> worker_pool" where
  "exec_panic msg i s =
     (let j = wp_jobs s ! i
      in log_effects (if jb_claimed j then [FailRunningExecutions (tk_id (jb_task j)), FailIfRunning (tk_id (jb_task j))] else [])
           (set_job i (j\<lparr>jb_error := Some (''panic: '' @ msg), jb_completion := True, jb_phase := Finishing\<rparr>) s))"

definition is_terminal_exec :: "exec_status \<Rightarrow> bool" where
  "is_terminal_exec e \<longleftrightarrow> e = ExecCompleted \<or> e = ExecFailed \<or> e = ExecCancelled"

text \<open>How a prepared dispatch ended: as the job recorded it, or as its execution reads now.\<close>

definition dispatch_outcome :: "bool \<Rightarrow> (exec_status \<times> string) option \<Rightarrow> job \<Rightarrow> exec_status \<times> string" where
  "dispatch_outcome was_cancelled current j =
     (case jb_terminal j of
        Some r \<Rightarrow> r
      | None \<Rightarrow>
          (let failed = (ExecFailed, case jb_error j of Some e \<Rightarrow> e
                           | None \<Rightarrow> ''automation execution did not reach a terminal state'');
               r = (if was_cancelled then (ExecCancelled, ''automation task cancelled during execution setup'') else failed)
           in case current of
                Some (st, msg) \<Rightarrow> if is_terminal_exec st then (st, msg) else r
              | None \<Rightarrow> r))"

definition finish_effects :: "worker_env \<Rightarrow> bool \<Rightarrow> (exec_status \<times> string) option \<Rightarrow> job \<Rightarrow> worker_effect list" where
  "finish_effects env was_cancelled current j =
     (if jb_retry j then [RetryReserved (tk_id (jb_task j)) (jb_reserved j)] else []) @
     (case jb_prepared j of
        Some pd \<Rightarrow>
          if pd_execution_id pd \<noteq> '''' \<and> we_automation_repo env
          then (case dispatch_outcome was_cancelled current j of
                  (st, msg) \<Rightarrow> [CompleteDispatch (pd_dispatch_id pd) (pd_execution_id pd) st msg])
          else []
      | None \<Rightarrow> []) @
     (if jb_completion j then [TaskComplete (tk_id (jb_task j)) (jb_error j)] else [])"

text \<open>
  The deferred function by its locked sections: it deregisters, takes the task off the pending ones,
  gives back the slots it holds (the two releases, of the project's slot and of the model's, are one
  step here) and, when all that is told, scans the queue. The goroutine is over then.
\<close>

definition exec_deregister :: "nat \<Rightarrow> worker_pool \<Rightarrow> worker_pool" where
  "exec_deregister i s =
     (let j = wp_jobs s ! i
      in set_job i (j\<lparr>jb_phase := Deregistered\<rparr>) (deregister_cancel_owned (tk_id (jb_task j)) (jb_registration j) s))"

definition exec_unmark :: "nat \<Rightarrow> worker_pool \<Rightarrow> worker_pool" where
  "exec_unmark i s =
     (let j = wp_jobs s ! i
      in set_job i (j\<lparr>jb_phase := Unmarked\<rparr>) (s\<lparr>wp_pending := wp_pending s - {tk_id (jb_task j)}\<rparr>))"

definition exec_release :: "nat \<Rightarrow> worker_pool \<Rightarrow> worker_pool" where
  "exec_release i s =
     (let j = wp_jobs s ! i;
          s1 = set_job i (j\<lparr>jb_capacity := False, jb_phase := Released\<rparr>) s
      in if jb_capacity j then release_worker_slots (tk_project_id (jb_task j)) (jb_agent j) s1 else s1)"

definition exec_finish :: "worker_env \<Rightarrow> bool \<Rightarrow> (exec_status \<times> string) option \<Rightarrow> nat \<Rightarrow> worker_pool \<Rightarrow> worker_pool" where
  "exec_finish env was_cancelled current i s =
     (let j = wp_jobs s ! i
      in dispatch_next env (log_effects (finish_effects env was_cancelled current j)
           (s\<lparr>wp_jobs := remove_nth i (wp_jobs s)\<rparr>)))"

subsection \<open>Slots of other execution paths\<close>

definition hold_worker_slots :: "worker_env \<Rightarrow> string \<Rightarrow> string \<Rightarrow> worker_pool \<Rightarrow> bool \<times> worker_pool" where
  "hold_worker_slots env p a s =
     (case try_acquire_worker_slots env p a True s of
        (False, s1) \<Rightarrow> (False, s1)
      | (True, s1) \<Rightarrow> (True, s1\<lparr>wp_holders := wp_holders s1 @ [(Some p, Some a)]\<rparr>))"

definition hold_project_slot :: "worker_env \<Rightarrow> string \<Rightarrow> worker_pool \<Rightarrow> bool \<times> worker_pool" where
  "hold_project_slot env p s =
     (case try_acquire_global_project_slot env p s of
        (False, s1) \<Rightarrow> (False, s1)
      | (True, s1) \<Rightarrow> (True, s1\<lparr>wp_holders := wp_holders s1 @ [(Some p, None)]\<rparr>))"

definition hold_model_slot :: "worker_env \<Rightarrow> string \<Rightarrow> worker_pool \<Rightarrow> bool \<times> worker_pool" where
  "hold_model_slot env a s =
     (case try_acquire_model_slot env a s of
        None \<Rightarrow> (False, s)
      | Some s1 \<Rightarrow> (True, s1\<lparr>wp_holders := wp_holders s1 @ [(None, Some a)]\<rparr>))"

definition release_holder :: "nat \<Rightarrow> worker_pool \<Rightarrow> worker_pool" where
  "release_holder i s =
     (case wp_holders s ! i of
        (p, a) \<Rightarrow>
          (let s1 = s\<lparr>wp_holders := remove_nth i (wp_holders s)\<rparr>;
               s2 = (case p of Some q \<Rightarrow> release_project_slot q s1 | None \<Rightarrow> s1)
           in case a of Some b \<Rightarrow> release_model_slot b s2 | None \<Rightarrow> s2))"

inductive pool_step :: "worker_pool \<Rightarrow> worker_pool \<Rightarrow> bool" where
  submit: "pool_step s (submit env t s)"
| submit_reserved: "pool_step s (submit_reserved env t e s)"
| submit_prepared: "pool_step s (snd (submit_prepared env pd s))"
| resize: "pool_step s (resize env n s)"
| resume: "pool_step s (resume_dispatch env ts s)"
| start: "pool_step s (start_workers env rs s)"
| dispatch: "pool_step s (dispatch_next env s)"
| cancel_queued: "pool_step s (snd (cancel_queued_task env a b i s))"
| cancel_running: "pool_step s (snd (cancel_running_task i s))"
| register: "pool_step s (snd (register_cancel_owned i s))"
| deregister: "pool_step s (deregister_cancel_owned i r s)"
| mark: "pool_step s (mark_cancellation_requested i s)"
| clear: "pool_step s (clear_cancellation_requested i s)"
| hold: "pool_step s (snd (hold_worker_slots env p a s))"
| hold_project: "pool_step s (snd (hold_project_slot env p s))"
| hold_model: "pool_step s (snd (hold_model_slot env a s))"
| release: "i < length (wp_holders s) \<Longrightarrow> pool_step s (release_holder i s)"
| begin_job: "i < length (wp_jobs s) \<Longrightarrow> jb_phase (wp_jobs s ! i) = Launched \<Longrightarrow> pool_step s (exec_begin i s)"
| claim: "i < length (wp_jobs s) \<Longrightarrow> jb_phase (wp_jobs s ! i) = Registered \<Longrightarrow>
    (\<And>t e. out = Claimed t e \<Longrightarrow> tk_project_id t = tk_project_id (jb_task (wp_jobs s ! i))) \<Longrightarrow>
    pool_step s (exec_claim env ctx_done out i s)"
| acquire: "i < length (wp_jobs s) \<Longrightarrow> jb_phase (wp_jobs s ! i) = Transferring a pc \<Longrightarrow> pool_step s (exec_acquire env a pc i s)"
| acquire_failed: "i < length (wp_jobs s) \<Longrightarrow> jb_phase (wp_jobs s ! i) = Transferring a pc \<Longrightarrow>
    pool_step s (exec_acquire_failed pc canceled msg i s)"
| run: "i < length (wp_jobs s) \<Longrightarrow> jb_phase (wp_jobs s ! i) = Admitted \<Longrightarrow> pool_step s (exec_run err i s)"
| panic: "i < length (wp_jobs s) \<Longrightarrow> jb_phase (wp_jobs s ! i) \<notin> {Launched, Finishing, Deregistered, Unmarked, Released} \<Longrightarrow> pool_step s (exec_panic msg i s)"
| deregister_job: "i < length (wp_jobs s) \<Longrightarrow> jb_phase (wp_jobs s ! i) = Finishing \<Longrightarrow> pool_step s (exec_deregister i s)"
| unmark_job: "i < length (wp_jobs s) \<Longrightarrow> jb_phase (wp_jobs s ! i) = Deregistered \<Longrightarrow> pool_step s (exec_unmark i s)"
| release_job: "i < length (wp_jobs s) \<Longrightarrow> jb_phase (wp_jobs s ! i) = Unmarked \<Longrightarrow> pool_step s (exec_release i s)"
| finish: "i < length (wp_jobs s) \<Longrightarrow> jb_phase (wp_jobs s ! i) = Released \<Longrightarrow>
    pool_step s (exec_finish env was_cancelled current i s)"

inductive pool_reachable :: "worker_pool \<Rightarrow> bool" where
  init: "pool_reachable (new_worker_service n)"
| step: "pool_reachable s \<Longrightarrow> pool_step s s' \<Longrightarrow> pool_reachable s'"

inductive_cases pool_stepE [elim]: "pool_step s s'"

subsection \<open>The accounts under every operation\<close>

lemma wp_jobs_set_job [simp]: "wp_jobs (set_job i j s) = (wp_jobs s)[i := j]"
  by (simp add: set_job_def)

lemma set_job_frame [simp]:
  "wp_holders (set_job i j s) = wp_holders s"
  "wp_project_running (set_job i j s) = wp_project_running s"
  "wp_model_running (set_job i j s) = wp_model_running s"
  "wp_total_running (set_job i j s) = wp_total_running s"
  by (simp_all add: set_job_def)

definition slot_project :: "job \<Rightarrow> string" where "slot_project j = tk_project_id (jb_task j)"

lemma project_holders_eq:
  "project_holders s = List.map_filter fst (wp_holders s) @ map slot_project (filter jb_capacity (wp_jobs s))"
  by (simp add: project_holders_def slot_project_def)

text \<open>The accounts of a project, of a model and of the whole when one job changes.\<close>

lemma accounts_set_job:
  assumes "i < length (wp_jobs s)" "accounted s" "wp_jobs s ! i = j0"
  shows "int (count_list (project_holders (set_job i j s)) p) = counter (wp_project_running s) p
      - (if jb_capacity j0 \<and> slot_project j0 = p then 1 else 0) + (if jb_capacity j \<and> slot_project j = p then 1 else 0)"
    "a \<noteq> '''' \<Longrightarrow> int (count_list (model_holders (set_job i j s)) a) = counter (wp_model_running s) a
      - (if jb_capacity j0 \<and> jb_agent j0 = a then 1 else 0) + (if jb_capacity j \<and> jb_agent j = a then 1 else 0)"
    "int (length (project_holders (set_job i j s))) = wp_total_running s
      - (if jb_capacity j0 then 1 else 0) + (if jb_capacity j then 1 else 0)"
proof -
  note u = assms(2) [unfolded accounted_def project_holders_eq model_holders_def]
  have c: "count_list (map f (filter jb_capacity ((wp_jobs s)[i := j]))) y + (if jb_capacity j0 \<and> f j0 = y then 1 else 0) =
      count_list (map f (filter jb_capacity (wp_jobs s))) y + (if jb_capacity j \<and> f j = y then 1 else 0)" for f y
    using count_filter_update [OF assms(1), of f jb_capacity j y] unfolding assms(3) .
  show "int (count_list (project_holders (set_job i j s)) p) = counter (wp_project_running s) p
      - (if jb_capacity j0 \<and> slot_project j0 = p then 1 else 0) + (if jb_capacity j \<and> slot_project j = p then 1 else 0)"
    using u c [of slot_project p] by (auto simp: project_holders_eq split: if_splits)
  show "int (count_list (model_holders (set_job i j s)) a) = counter (wp_model_running s) a
      - (if jb_capacity j0 \<and> jb_agent j0 = a then 1 else 0) + (if jb_capacity j \<and> jb_agent j = a then 1 else 0)"
    if "a \<noteq> ''''"
    using u that c [of jb_agent a] by (auto simp: model_holders_def split: if_splits)
  have "length (filter jb_capacity ((wp_jobs s)[i := j])) + (if jb_capacity j0 then 1 else 0) =
      length (filter jb_capacity (wp_jobs s)) + (if jb_capacity j then 1 else 0)"
    using length_filter_update [OF assms(1), of jb_capacity j] by (simp add: assms(3))
  then show "int (length (project_holders (set_job i j s))) = wp_total_running s
      - (if jb_capacity j0 then 1 else 0) + (if jb_capacity j then 1 else 0)"
    using u by (simp add: project_holders_eq split: if_splits)
qed

lemma accounted_set_job:
  assumes "i < length (wp_jobs s)" "accounted s" "jb_capacity j = jb_capacity (wp_jobs s ! i)"
    "slot_project j = slot_project (wp_jobs s ! i)" "jb_agent j = jb_agent (wp_jobs s ! i)"
  shows "accounted (set_job i j s)"
  using accounts_set_job [OF assms(1,2) refl, where j = j] assms(3-5) by (simp add: accounted_def)

text \<open>Counters after a release, for a key that is counted.\<close>

lemma release_counters:
  assumes "0 < counter (wp_project_running s) p" "a \<noteq> '''' \<Longrightarrow> 0 < counter (wp_model_running s) a"
  shows "counter (wp_project_running (release_worker_slots p a s)) q = counter (wp_project_running s) q - (if q = p then 1 else 0)"
    "b \<noteq> '''' \<Longrightarrow> counter (wp_model_running (release_worker_slots p a s)) b = counter (wp_model_running s) b - (if b = a then 1 else 0)"
proof -
  show "counter (wp_project_running (release_worker_slots p a s)) q = counter (wp_project_running s) q - (if q = p then 1 else 0)"
    using project.released [of s p q] assms(1)
    by (auto simp: release_worker_slots_def release_model_slot_def split: option.splits)
  show "counter (wp_model_running (release_worker_slots p a s)) b = counter (wp_model_running s) b - (if b = a then 1 else 0)"
    if "b \<noteq> ''''"
    using model.released [of "release_project_slot p s" a b] assms(2) that
    by (cases "a = ''''") (auto simp: release_worker_slots_def release_project_slot_def)
qed

text \<open>The slots a job with capacity holds are counted.\<close>

lemma held_counted:
  assumes "accounted s" "i < length (wp_jobs s)" "jb_capacity (wp_jobs s ! i)"
  shows "0 < counter (wp_project_running s) (slot_project (wp_jobs s ! i))"
    "jb_agent (wp_jobs s ! i) \<noteq> '''' \<Longrightarrow> 0 < counter (wp_model_running s) (jb_agent (wp_jobs s ! i))"
proof -
  let ?j = "wp_jobs s ! i"
  have mem: "f ?j \<in> set (map f (filter jb_capacity (wp_jobs s)))" for f
    using assms(2,3) by (auto intro: nth_mem)
  have "slot_project ?j \<in> set (project_holders s)" "jb_agent ?j \<in> set (model_holders s)"
    using mem [of slot_project] mem [of jb_agent] by (auto simp: project_holders_eq model_holders_def)
  then show "0 < counter (wp_project_running s) (slot_project ?j)"
    "jb_agent ?j \<noteq> '''' \<Longrightarrow> 0 < counter (wp_model_running s) (jb_agent ?j)"
    using assms(1) by (auto simp: accounted_def) (metis count_list_0_iff gr0I)+
qed

lemma accounted_release_job:
  assumes "i < length (wp_jobs s)" "accounted s" "jb_capacity (wp_jobs s ! i)" "\<not> jb_capacity j"
  shows "accounted (release_worker_slots (slot_project (wp_jobs s ! i)) (jb_agent (wp_jobs s ! i)) (set_job i j s))"
proof -
  let ?j = "wp_jobs s ! i" and ?s = "set_job i j s"
  note held = held_counted [OF assms(2,1,3)]
  have r: "counter (wp_project_running (release_worker_slots (slot_project ?j) (jb_agent ?j) ?s)) q =
      counter (wp_project_running s) q - (if q = slot_project ?j then 1 else 0)"
    "b \<noteq> '''' \<Longrightarrow> counter (wp_model_running (release_worker_slots (slot_project ?j) (jb_agent ?j) ?s)) b =
      counter (wp_model_running s) b - (if b = jb_agent ?j then 1 else 0)" for q b
    using release_counters [of ?s "slot_project ?j" "jb_agent ?j"] held by simp_all
  have h: "project_holders (release_worker_slots p a ?s) = project_holders ?s"
    "model_holders (release_worker_slots p a ?s) = model_holders ?s" for p a
    by (simp_all add: project_holders_def model_holders_def)
  show ?thesis
    using accounts_set_job [OF assms(1,2) refl, where j = j] assms(3,4) r
    by (simp add: accounted_def h)
qed

lemma accounted_acquire_job:
  assumes "i < length (wp_jobs s)" "accounted s" "\<not> jb_capacity (wp_jobs s ! i)"
    "try_acquire_worker_slots_locked env p a s = (True, s1)" "jb_capacity j" "slot_project j = p" "jb_agent j = a"
  shows "accounted (set_job i j s1)"
proof -
  note g = acquire_locked_granted [OF assms(4)]
  note f = granted_frame [OF assms(4)]
  have h: "project_holders (set_job i j s1) = project_holders (set_job i j s)"
    "model_holders (set_job i j s1) = model_holders (set_job i j s)"
    by (simp_all add: project_holders_def model_holders_def f)
  have t: "wp_total_running s1 = wp_total_running s + 1" by (subst g(1)) simp
  show ?thesis
    using accounts_set_job [OF assms(1,2) refl, where j = j] assms(3,5-7)
    by (simp add: accounted_def h g(2,3) t)
qed

lemma same_accountsI:
  assumes "wp_project_running s' = wp_project_running s" "wp_model_running s' = wp_model_running s"
    "wp_total_running s' = wp_total_running s" "wp_jobs s' = wp_jobs s" "wp_holders s' = wp_holders s"
  shows "same_accounts s s'"
  using assms by (simp add: same_accounts_def)

lemma accounted_cong:
  assumes "accounted s" "wp_project_running s' = wp_project_running s" "wp_model_running s' = wp_model_running s"
    "wp_total_running s' = wp_total_running s" "wp_jobs s' = wp_jobs s" "wp_holders s' = wp_holders s"
  shows "accounted s'"
  by (rule same_accounts_accounted [OF same_accountsI assms(1)]) (fact assms)+

lemma accounted_observe [simp]: "accounted (observe t s) = accounted s"
  by (simp add: observe_def accounted_def project_holders_def model_holders_def)

lemma accounted_update [simp]:
  "accounted (s\<lparr>wp_pending := x\<rparr>) = accounted s"
  "accounted (s\<lparr>wp_reserved := y\<rparr>) = accounted s"
  "accounted (s\<lparr>wp_prepared := z\<rparr>) = accounted s"
  "accounted (s\<lparr>wp_effects := w\<rparr>) = accounted s"
  "accounted (s\<lparr>wp_num_workers := n\<rparr>) = accounted s"
  "accounted (s\<lparr>wp_started := b\<rparr>) = accounted s"
  "accounted (s\<lparr>wp_cancel_ids := c\<rparr>) = accounted s"
  "accounted (s\<lparr>wp_next_registration := r\<rparr>) = accounted s"
  "accounted (s\<lparr>wp_cancellation_requested := q\<rparr>) = accounted s"
  "accounted (s\<lparr>wp_submitted := u\<rparr>) = accounted s"
  by (simp_all add: accounted_def project_holders_def model_holders_def)

text \<open>
  Until its claim is done a job holds the slots it was launched with, and while it waits for
  another model it holds none.
\<close>

definition job_holds :: "job \<Rightarrow> bool" where
  "job_holds j \<longleftrightarrow> (jb_phase j = Launched \<or> jb_phase j = Registered \<longrightarrow> jb_capacity j) \<and>
     ((\<exists>a pc. jb_phase j = Transferring a pc) \<or> jb_phase j = Released \<longrightarrow> \<not> jb_capacity j)"

definition pool_inv :: "worker_pool \<Rightarrow> bool" where
  "pool_inv s \<longleftrightarrow> accounted s \<and> (\<forall>j \<in> set (wp_jobs s). job_holds j)"

lemma pool_inv_cong: "pool_inv s \<Longrightarrow> accounted s' \<Longrightarrow> wp_jobs s' = wp_jobs s \<Longrightarrow> pool_inv s'"
  by (simp add: pool_inv_def)

lemma dispatch_next_jobs:
  "\<forall>j \<in> set (wp_jobs s). job_holds j \<Longrightarrow> \<forall>j \<in> set (wp_jobs (dispatch_next env s)). job_holds j"
proof (rule dispatch_next_preserves [of "\<lambda>s. \<forall>j \<in> set (wp_jobs s). job_holds j"], goal_cases)
  case (4 s p a s1) then show ?case by (simp add: granted_frame(1) [OF 4(3)])
next
  case (5 s p a s1) then show ?case by (simp add: granted_frame(1) [OF 5(3)])
next
  case (6 s t a s1)
  have "job_holds (new_job t a pd r)" for pd r by (simp add: job_holds_def)
  with 6 show ?case by (simp add: launch_def Let_def granted_frame(1) [OF 6(3)])
qed auto

lemma dispatch_next_inv: "pool_inv s \<Longrightarrow> pool_inv (dispatch_next env s)"
  unfolding pool_inv_def using dispatch_next_accounted dispatch_next_jobs by blast

lemma jobs_update_hold:
  "\<forall>j \<in> set js. job_holds j \<Longrightarrow> job_holds n \<Longrightarrow> \<forall>j \<in> set (js[i := n]). job_holds j"
  by (auto dest: set_update_subset_insert [THEN subsetD])

lemma set_job_inv:
  assumes "pool_inv s" "accounted (set_job i j s)" "job_holds j"
  shows "pool_inv (set_job i j s)"
  using assms jobs_update_hold [of "wp_jobs s" j i] by (simp add: pool_inv_def)

lemma pool_inv_update [simp]:
  "pool_inv (s\<lparr>wp_queue := q0\<rparr>) = pool_inv s"
  "pool_inv (s\<lparr>wp_pending := x\<rparr>) = pool_inv s"
  "pool_inv (s\<lparr>wp_reserved := y\<rparr>) = pool_inv s"
  "pool_inv (s\<lparr>wp_prepared := z\<rparr>) = pool_inv s"
  "pool_inv (s\<lparr>wp_effects := w\<rparr>) = pool_inv s"
  "pool_inv (s\<lparr>wp_num_workers := n\<rparr>) = pool_inv s"
  "pool_inv (s\<lparr>wp_started := b\<rparr>) = pool_inv s"
  "pool_inv (s\<lparr>wp_cancel_ids := c\<rparr>) = pool_inv s"
  "pool_inv (s\<lparr>wp_next_registration := r\<rparr>) = pool_inv s"
  "pool_inv (s\<lparr>wp_cancellation_requested := q\<rparr>) = pool_inv s"
  "pool_inv (observe t s) = pool_inv s"
  "pool_inv (log_effects es s) = pool_inv s"
  "pool_inv (deregister_cancel_owned k rid s) = pool_inv s"
  by (simp_all add: pool_inv_def observe_def log_effects_def deregister_cancel_owned_def)

lemma submit_inv: "pool_inv s \<Longrightarrow> pool_inv (submit env t s)"
  by (simp add: submit_def enqueue_def dispatch_next_inv)

lemma submit_reserved_inv: "pool_inv s \<Longrightarrow> pool_inv (submit_reserved env t e s)"
  by (simp add: submit_reserved_def enqueue_def dispatch_next_inv)

lemma submit_prepared_inv: "pool_inv s \<Longrightarrow> pool_inv (snd (submit_prepared env pd s))"
  by (simp add: submit_prepared_def enqueue_def dispatch_next_inv Let_def)

lemma reconcile_inv:
  "pool_inv s \<Longrightarrow> pool_inv (resume_dispatch env ts s)"
  "pool_inv s \<Longrightarrow> pool_inv (start_workers env rs s)"
proof -
  have "pool_inv s \<Longrightarrow> pool_inv (fold (\<lambda>t s. if tk_swarm_role t = SwarmRoleParent then s else submit env t s) xs s)" for xs s
    by (induction xs arbitrary: s) (auto intro: submit_inv)
  then show "pool_inv s \<Longrightarrow> pool_inv (resume_dispatch env ts s)"
    by (auto simp: resume_dispatch_def reconcile_pending_def dispatch_next_inv split: sum.splits)
  have "pool_inv s \<Longrightarrow> pool_inv (fold (\<lambda>(t, e) s. submit_reserved env t e s) xs s)" for xs s
    by (induction xs arbitrary: s) (auto intro: submit_reserved_inv)
  then show "pool_inv s \<Longrightarrow> pool_inv (start_workers env rs s)"
    by (auto simp: start_workers_def reconcile_reserved_def split: sum.splits)
qed

lemma cancel_queued_task_inv: "pool_inv s \<Longrightarrow> pool_inv (snd (cancel_queued_task env a b i s))"
  by (auto simp: cancel_queued_task_def forget_def Let_def intro!: dispatch_next_inv)

lemma claim_granted_same [simp]:
  "jb_agent (claim_granted t e j) = jb_agent j" "jb_capacity (claim_granted t e j) = jb_capacity j"
  "slot_project (claim_granted t e j) = tk_project_id t"
  by (simp_all add: claim_granted_def slot_project_def)

lemma claim_refused_same:
  "claim_refused c a out j = (es, j1) \<Longrightarrow>
   jb_agent j1 = jb_agent j \<and> jb_capacity j1 = jb_capacity j \<and> slot_project j1 = slot_project j \<and> jb_phase j1 = Finishing"
  by (auto simp: claim_refused_def slot_project_def split: if_splits)

lemma inv_nth: "pool_inv s \<Longrightarrow> i < length (wp_jobs s) \<Longrightarrow> job_holds (wp_jobs s ! i)"
  by (simp add: pool_inv_def)

text \<open>Changing a job without touching its slots.\<close>

lemma set_job_same_inv:
  assumes "pool_inv s" "i < length (wp_jobs s)" "jb_capacity j = jb_capacity (wp_jobs s ! i)"
    "slot_project j = slot_project (wp_jobs s ! i)" "jb_agent j = jb_agent (wp_jobs s ! i)" "job_holds j"
  shows "pool_inv (set_job i j s)"
  using assms by (intro set_job_inv accounted_set_job) (auto simp: pool_inv_def)

lemma exec_begin_inv:
  assumes "pool_inv s" "i < length (wp_jobs s)" "jb_phase (wp_jobs s ! i) = Launched"
  shows "pool_inv (exec_begin i s)"
proof -
  obtain r s1 where r: "register_cancel_owned (tk_id (jb_task (wp_jobs s ! i))) s = (r, s1)" by (rule prod.exhaust)
  then have s1: "pool_inv s1" "wp_jobs s1 = wp_jobs s" using assms(1) by (auto simp: register_cancel_owned_def Let_def)
  have "pool_inv (set_job i ((wp_jobs s ! i)\<lparr>jb_registration := r, jb_phase := Registered\<rparr>) s1)"
    using inv_nth [OF assms(1,2)] assms(2,3) s1
    by (intro set_job_same_inv) (simp_all add: slot_project_def job_holds_def)
  with r show ?thesis by (simp add: exec_begin_def Let_def)
qed

lemma exec_claim_inv:
  assumes "pool_inv s" "i < length (wp_jobs s)" "jb_phase (wp_jobs s ! i) = Registered"
    "\<And>t e. out = Claimed t e \<Longrightarrow> tk_project_id t = tk_project_id (jb_task (wp_jobs s ! i))"
  shows "pool_inv (exec_claim env ctx_done out i s)"
proof -
  let ?j = "wp_jobs s ! i"
  have cap: "jb_capacity ?j" using inv_nth [OF assms(1,2)] assms(3) by (simp add: job_holds_def)
  have refuse: "pool_inv (case claim_refused ctx_done (we_automation_repo env) out ?j of (es, j1) \<Rightarrow> log_effects es (set_job i j1 s))"
  proof (cases "claim_refused ctx_done (we_automation_repo env) out ?j")
    case (Pair es j1)
    with claim_refused_same [OF Pair] assms(1,2) show ?thesis
      by (simp add: set_job_same_inv job_holds_def)
  qed
  show ?thesis
  proof (cases "pre_claimed ?j")
    case True
    have "pool_inv (set_job i (?j\<lparr>jb_task := (jb_task ?j)\<lparr>tk_status := StatusRunning\<rparr>, jb_phase := Admitted\<rparr>) s)"
      using assms(1,2) by (intro set_job_same_inv) (simp_all add: slot_project_def job_holds_def)
    with True show ?thesis by (simp add: exec_claim_def Let_def)
  next
    case nc: False
    show ?thesis
    proof (cases out)
      case (Claimed t e)
      let ?c = "claim_granted t e ?j" and ?pc = "needs_prepared_claim ?j"
      have p: "tk_project_id t = slot_project ?j" using assms(4) [OF Claimed] by (simp add: slot_project_def)
      have pt: "tk_project_id (jb_task ?c) = slot_project ?j"
        using p claim_granted_same(3) [of t e ?j] by (simp add: slot_project_def)
      show ?thesis
      proof (cases "we_resolve env (jb_task ?c) = jb_agent ?c")
        case True
        have "pool_inv (set_job i (?c\<lparr>jb_phase := phase_after_claim ?pc ?c\<rparr>) s)"
          using assms(1,2) cap p claim_granted_same(3) [of t e ?j]
          by (intro set_job_same_inv) (simp_all add: job_holds_def phase_after_claim_def slot_project_def)
        with nc Claimed True show ?thesis by (simp add: exec_claim_def Let_def)
      next
        case False
        let ?t = "?c\<lparr>jb_capacity := False, jb_agent := [], jb_phase := Transferring (we_resolve env (jb_task ?c)) ?pc\<rparr>"
        have "accounted (release_worker_slots (slot_project ?j) (jb_agent ?j) (set_job i ?t s))"
          using assms(1,2) cap by (intro accounted_release_job) (simp_all add: pool_inv_def)
        moreover have "\<forall>j \<in> set ((wp_jobs s)[i := ?t]). job_holds j"
          using assms(1) by (intro jobs_update_hold) (simp_all add: pool_inv_def job_holds_def)
        ultimately have "pool_inv (release_worker_slots (slot_project ?j) (jb_agent ?j) (set_job i ?t s))"
          by (simp add: pool_inv_def)
        from dispatch_next_inv [OF this] nc Claimed False pt show ?thesis
          by (simp add: exec_claim_def Let_def)
      qed
    qed (use nc refuse in \<open>simp_all add: exec_claim_def Let_def\<close>)
  qed
qed

lemma exec_acquire_inv:
  assumes "pool_inv s" "i < length (wp_jobs s)" "jb_phase (wp_jobs s ! i) = Transferring a pc"
  shows "pool_inv (exec_acquire env a pc i s)"
proof -
  let ?j = "wp_jobs s ! i"
  have nc: "\<not> jb_capacity ?j" using inv_nth [OF assms(1,2)] assms(3) by (simp add: job_holds_def)
  obtain ok s1 where acq: "try_acquire_worker_slots_locked env (slot_project ?j) a s = (ok, s1)" by (rule prod.exhaust)
  have jobs: "wp_jobs s1 = wp_jobs s" using granted_frame(1) [OF acq] .
  show ?thesis
  proof (cases ok)
    case False
    with acq have "try_acquire_worker_slots_locked env (slot_project ?j) a s = (False, s1)" by simp
    from same_accounts_accounted [OF acquire_locked_refused(1) [OF this]] assms(1) have "accounted s1"
      by (simp add: pool_inv_def)
    with False acq assms(1) jobs show ?thesis
      by (simp add: exec_acquire_def try_acquire_worker_slots_def slot_project_def Let_def pool_inv_def)
  next
    case True
    let ?n = "?j\<lparr>jb_agent := a, jb_capacity := True, jb_phase := phase_after_claim pc ?j\<rparr>"
    from True acq have "accounted (set_job i ?n s1)"
      by (intro accounted_acquire_job [OF assms(2) _ nc])
        (use assms(1) in \<open>simp_all add: pool_inv_def slot_project_def\<close>)
    moreover have "\<forall>j \<in> set ((wp_jobs s)[i := ?n]). job_holds j"
      using assms(1) by (intro jobs_update_hold) (simp_all add: pool_inv_def job_holds_def phase_after_claim_def)
    ultimately show ?thesis
      using True acq jobs
      by (simp add: exec_acquire_def try_acquire_worker_slots_def slot_project_def Let_def pool_inv_def)
  qed
qed

lemma exec_end_inv:
  assumes "pool_inv s" "i < length (wp_jobs s)"
  shows "pool_inv (exec_acquire_failed pc canceled msg i s)" "pool_inv (exec_run err i s)"
    "pool_inv (exec_panic msg i s)"
  using assms
  by (auto simp: exec_acquire_failed_def exec_run_def exec_panic_def Let_def slot_project_def job_holds_def
      intro!: set_job_same_inv)

lemma filter_remove_nth: "i < length xs \<Longrightarrow> \<not> P x \<Longrightarrow> filter P (remove_nth i xs) = filter P (xs[i := x])"
proof (induction xs arbitrary: i)
  case (Cons z xs) then show ?case by (cases i) auto
qed simp

lemma set_remove_nth: "set (remove_nth i xs) \<subseteq> set xs"
  by (auto simp: remove_nth_def dest: in_set_takeD in_set_dropD)

lemma release_worker_slots_cong:
  assumes "wp_project_running s' = wp_project_running s" "wp_model_running s' = wp_model_running s"
  shows "wp_project_running (release_worker_slots p a s') = wp_project_running (release_worker_slots p a s)"
    "wp_model_running (release_worker_slots p a s') = wp_model_running (release_worker_slots p a s)"
  using assms by (simp_all add: release_worker_slots_def release_model_slot_def release_project_slot_def split: option.splits)

lemma accounted_holders:
  assumes "accounted s" "project_holders s' = project_holders s" "model_holders s' = model_holders s"
    "wp_project_running s' = wp_project_running s" "wp_model_running s' = wp_model_running s"
    "wp_total_running s' = wp_total_running s"
  shows "accounted s'"
  using assms by (simp add: accounted_def)

lemma exec_deregister_inv:
  assumes "pool_inv s" "i < length (wp_jobs s)" "jb_phase (wp_jobs s ! i) = Finishing"
  shows "pool_inv (exec_deregister i s)"
proof -
  let ?j = "wp_jobs s ! i"
  define s1 where "s1 = deregister_cancel_owned (tk_id (jb_task ?j)) (jb_registration ?j) s"
  have s1: "pool_inv s1" "wp_jobs s1 = wp_jobs s" using assms(1) by (simp_all add: s1_def deregister_cancel_owned_def)
  have "pool_inv (set_job i (?j\<lparr>jb_phase := Deregistered\<rparr>) s1)"
    using s1 assms(2) by (intro set_job_same_inv) (simp_all add: slot_project_def job_holds_def)
  then show ?thesis by (simp add: exec_deregister_def Let_def s1_def)
qed

lemma exec_unmark_inv:
  assumes "pool_inv s" "i < length (wp_jobs s)"
  shows "pool_inv (exec_unmark i s)"
  unfolding exec_unmark_def Let_def
  using assms by (intro set_job_same_inv) (simp_all add: slot_project_def job_holds_def)

lemma exec_release_inv:
  assumes "pool_inv s" "i < length (wp_jobs s)"
  shows "pool_inv (exec_release i s)"
proof -
  let ?j = "wp_jobs s ! i" and ?n = "(wp_jobs s ! i)\<lparr>jb_capacity := False, jb_phase := Released\<rparr>"
  have jobs: "\<forall>j \<in> set ((wp_jobs s)[i := ?n]). job_holds j"
    using assms(1) by (intro jobs_update_hold) (simp_all add: pool_inv_def job_holds_def)
  show ?thesis
  proof (cases "jb_capacity ?j")
    case True
    have "accounted (release_worker_slots (slot_project ?j) (jb_agent ?j) (set_job i ?n s))"
      using assms True by (intro accounted_release_job) (simp_all add: pool_inv_def)
    with True jobs show ?thesis by (simp add: exec_release_def Let_def pool_inv_def slot_project_def)
  next
    case False
    have "accounted (set_job i ?n s)"
      using assms False by (intro accounted_set_job) (simp_all add: pool_inv_def slot_project_def)
    with False jobs show ?thesis by (simp add: exec_release_def Let_def pool_inv_def)
  qed
qed

lemma exec_finish_inv:
  assumes "pool_inv s" "i < length (wp_jobs s)" "jb_phase (wp_jobs s ! i) = Released"
  shows "pool_inv (exec_finish env was_cancelled current i s)"
proof -
  have "\<not> jb_capacity (wp_jobs s ! i)" using inv_nth [OF assms(1,2)] assms(3) by (simp add: job_holds_def)
  then have f: "filter jb_capacity (remove_nth i (wp_jobs s)) = filter jb_capacity (wp_jobs s)"
    using filter_remove_nth [OF assms(2), of jb_capacity "wp_jobs s ! i"] by simp
  have "accounted (s\<lparr>wp_jobs := remove_nth i (wp_jobs s)\<rparr>)"
    by (rule accounted_holders [of s]) (use assms(1) in \<open>simp_all add: pool_inv_def project_holders_def model_holders_def f\<close>)
  then have "pool_inv (s\<lparr>wp_jobs := remove_nth i (wp_jobs s)\<rparr>)"
    using assms(1) set_remove_nth [of i "wp_jobs s"] by (auto simp: pool_inv_def)
  then show ?thesis unfolding exec_finish_def Let_def by (intro dispatch_next_inv) simp
qed

text \<open>The slots other paths hold are accounted the same way.\<close>

lemma accounted_add_holder:
  assumes "accounted s" "wp_jobs s1 = wp_jobs s" "wp_holders s1 = wp_holders s @ [(p, a)]"
    "\<And>q. counter (wp_project_running s1) q = counter (wp_project_running s) q + (if p = Some q then 1 else 0)"
    "\<And>b. b \<noteq> [] \<Longrightarrow> counter (wp_model_running s1) b = counter (wp_model_running s) b + (if a = Some b then 1 else 0)"
    "wp_total_running s1 = wp_total_running s + (if p = None then 0 else 1)"
  shows "accounted s1"
  unfolding accounted_def project_holders_def model_holders_def assms(2,3)
proof (intro conjI allI impI)
  note u = assms(1) [unfolded accounted_def project_holders_def model_holders_def]
  fix q show "counter (wp_project_running s1) q = int (count_list (List.map_filter fst (wp_holders s @ [(p, a)]) @
      map (\<lambda>j. tk_project_id (jb_task j)) (filter jb_capacity (wp_jobs s))) q)"
    using u assms(4) [of q] by (cases p) (simp_all add: map_filter_def)
next
  note u = assms(1) [unfolded accounted_def project_holders_def model_holders_def]
  fix b :: string assume "b \<noteq> []"
  then show "counter (wp_model_running s1) b = int (count_list (List.map_filter snd (wp_holders s @ [(p, a)]) @
      map jb_agent (filter jb_capacity (wp_jobs s))) b)"
    using u assms(5) [of b] by (cases a) (simp_all add: map_filter_def)
next
  note u = assms(1) [unfolded accounted_def project_holders_def model_holders_def]
  show "wp_total_running s1 = int (length (List.map_filter fst (wp_holders s @ [(p, a)]) @
      map (\<lambda>j. tk_project_id (jb_task j)) (filter jb_capacity (wp_jobs s))))"
    using u assms(6) by (cases p) (simp_all add: map_filter_def)
qed

lemma hold_inv:
  assumes "pool_inv s"
  shows "pool_inv (snd (hold_worker_slots env p a s))" "pool_inv (snd (hold_project_slot env p s))"
    "pool_inv (snd (hold_model_slot env a s))"
proof -
  have acc: "accounted s" and jh: "\<forall>j \<in> set (wp_jobs s). job_holds j" using assms by (simp_all add: pool_inv_def)
  obtain ok s1 where acq: "try_acquire_worker_slots_locked env p a s = (ok, s1)" by (rule prod.exhaust)
  have jobs: "wp_jobs s1 = wp_jobs s" and hs: "wp_holders s1 = wp_holders s"
    using granted_frame(1,6) [OF acq] by simp_all
  have "pool_inv (if ok then s1\<lparr>wp_holders := wp_holders s1 @ [(Some p, Some a)]\<rparr> else s1)"
  proof (cases ok)
    case True
    with acq have g: "try_acquire_worker_slots_locked env p a s = (True, s1)" by simp
    have t: "wp_total_running s1 = wp_total_running s + 1" by (subst acquire_locked_granted(1) [OF g]) simp
    have "accounted (s1\<lparr>wp_holders := wp_holders s1 @ [(Some p, Some a)]\<rparr>)"
      by (rule accounted_add_holder [OF acc])
        (auto simp: jobs hs t acquire_locked_granted(2,3) [OF g])
    with True jobs jh show ?thesis by (simp add: pool_inv_def)
  next
    case False
    with acq have r: "try_acquire_worker_slots_locked env p a s = (False, s1)" by simp
    from same_accounts_accounted [OF acquire_locked_refused(1) [OF r]] acc jobs jh False show ?thesis
      by (simp add: pool_inv_def)
  qed
  then show "pool_inv (snd (hold_worker_slots env p a s))"
    using acq assms by (cases ok) (auto simp: hold_worker_slots_def try_acquire_worker_slots_def)
  have "accounted (snd (hold_project_slot env p s))"
  proof (cases "fst (hold_project_slot env p s)")
    case True
    then show ?thesis
      by (intro accounted_add_holder [OF acc, of _ "Some p" None])
        (auto simp: hold_project_slot_def try_acquire_global_project_slot_def try_acquire_project_slot_def Let_def
          counter_def split: option.splits if_splits)
  next
    case False
    then show ?thesis
      using acc by (auto simp: hold_project_slot_def try_acquire_global_project_slot_def split: option.splits if_splits)
  qed
  moreover have "wp_jobs (snd (hold_project_slot env p s)) = wp_jobs s"
    by (auto simp: hold_project_slot_def try_acquire_global_project_slot_def try_acquire_project_slot_def Let_def
        split: option.splits)
  ultimately show "pool_inv (snd (hold_project_slot env p s))" using jh by (simp add: pool_inv_def)
  have "accounted (snd (hold_model_slot env a s))"
  proof (cases "try_acquire_model_slot env a s")
    case None then show ?thesis using acc by (simp add: hold_model_slot_def)
  next
    case (Some s2)
    then show ?thesis
      by (intro accounted_add_holder [OF acc, of _ None "Some a"])
        (auto simp: hold_model_slot_def try_acquire_model_slot_def Let_def counter_def split: option.splits if_splits)
  qed
  moreover have "wp_jobs (snd (hold_model_slot env a s)) = wp_jobs s"
    by (auto simp: hold_model_slot_def try_acquire_model_slot_def Let_def split: option.splits)
  ultimately show "pool_inv (snd (hold_model_slot env a s))" using jh by (simp add: pool_inv_def)
qed

lemma release_holder_inv:
  assumes "pool_inv s" "i < length (wp_holders s)"
  shows "pool_inv (release_holder i s)"
proof -
  obtain p a where h: "wp_holders s ! i = (p, a)" by (rule prod.exhaust)
  note c = count_map_filter_remove [OF assms(2), of fst] count_map_filter_remove [OF assms(2), of snd]
  note l = length_map_filter_remove [OF assms(2), of fst]
  have acc: "accounted s" using assms(1) by (simp add: pool_inv_def)
  have pp: "p = Some q \<Longrightarrow> 0 < counter (wp_project_running s) q" for q
    using acc c(1) [of q] h by (auto simp: accounted_def project_holders_def split: if_splits)
  have pa: "a = Some b \<Longrightarrow> b \<noteq> [] \<Longrightarrow> 0 < counter (wp_model_running s) b" for b
    using acc c(2) [of b] h by (auto simp: accounted_def model_holders_def split: if_splits)
  define s1 where "s1 = s\<lparr>wp_holders := remove_nth i (wp_holders s)\<rparr>"
  define s2 where "s2 = (case p of Some q \<Rightarrow> release_project_slot q s1 | None \<Rightarrow> s1)"
  have P: "counter (wp_project_running s2) q = counter (wp_project_running s) q - (if p = Some q then 1 else 0)" for q
    using project.released [of s1 _ q] pp by (cases p) (auto simp: s2_def s1_def)
  have r2: "wp_model_running s2 = wp_model_running s" "wp_jobs s2 = wp_jobs s"
    "wp_total_running s2 = wp_total_running s - (if p = None then 0 else 1)" "wp_holders s2 = remove_nth i (wp_holders s)"
    by (cases p; simp add: s2_def s1_def release_project_slot_def)+
  define s3 where "s3 = (case a of Some b \<Rightarrow> release_model_slot b s2 | None \<Rightarrow> s2)"
  have M: "counter (wp_model_running s3) b = counter (wp_model_running s) b - (if a = Some b then 1 else 0)" if "b \<noteq> []" for b
    using model.released [of s2 "the a" b] pa that r2(1) by (cases a; cases "a = Some []") (auto simp: s3_def release_model_slot_def)
  have r3: "wp_project_running s3 = wp_project_running s2" "wp_jobs s3 = wp_jobs s"
    "wp_total_running s3 = wp_total_running s2" "wp_holders s3 = remove_nth i (wp_holders s)"
    using r2 by (cases a; simp add: s3_def release_model_slot_def split: option.splits)+
  have "accounted s3"
    unfolding accounted_def project_holders_def model_holders_def r3(2,4)
  proof (intro conjI allI impI)
    fix q show "counter (wp_project_running s3) q = int (count_list (List.map_filter fst (remove_nth i (wp_holders s)) @
        map (\<lambda>j. tk_project_id (jb_task j)) (filter jb_capacity (wp_jobs s))) q)"
      using acc c(1) [of q] P [of q] h r3(1) by (simp add: accounted_def project_holders_def split: if_splits)
  next
    fix b :: string assume "b \<noteq> []"
    then show "counter (wp_model_running s3) b = int (count_list (List.map_filter snd (remove_nth i (wp_holders s)) @
        map jb_agent (filter jb_capacity (wp_jobs s))) b)"
      using acc c(2) [of b] M [of b] h by (simp add: accounted_def model_holders_def split: if_splits)
  next
    show "wp_total_running s3 = int (length (List.map_filter fst (remove_nth i (wp_holders s)) @
        map (\<lambda>j. tk_project_id (jb_task j)) (filter jb_capacity (wp_jobs s))))"
      using acc l h r3(3) r2(3) by (simp add: accounted_def project_holders_def split: if_splits)
  qed
  moreover have "release_holder i s = s3" unfolding s3_def s2_def s1_def by (simp add: release_holder_def h Let_def)
  ultimately show ?thesis using assms(1) r3(2) by (simp add: pool_inv_def)
qed

lemma pool_step_inv:
  assumes "pool_step s s'" "pool_inv s"
  shows "pool_inv s'"
  using assms
proof (cases rule: pool_step.cases)
  case (resize env n) then show ?thesis using assms(2) by (auto simp: resize_def Let_def intro: dispatch_next_inv)
next
  case (cancel_running i) then show ?thesis using assms(2) by (simp add: cancel_running_task_def)
next
  case (register i) then show ?thesis using assms(2) by (simp add: register_cancel_owned_def Let_def)
next
  case (mark i) then show ?thesis using assms(2) by (simp add: mark_cancellation_requested_def)
next
  case (clear i) then show ?thesis using assms(2) by (simp add: clear_cancellation_requested_def)
qed (use assms(2) in \<open>auto intro: submit_inv submit_reserved_inv submit_prepared_inv reconcile_inv dispatch_next_inv
      cancel_queued_task_inv hold_inv release_holder_inv exec_begin_inv exec_claim_inv exec_acquire_inv exec_end_inv
      exec_deregister_inv exec_unmark_inv exec_release_inv exec_finish_inv\<close>)

lemma pool_reachable_inv: "pool_reachable s \<Longrightarrow> pool_inv s"
proof (induction rule: pool_reachable.induct)
  case (init n)
  show ?case
    by (simp add: pool_inv_def accounted_def project_holders_def model_holders_def new_worker_service_def map_filter_simps)
next
  case (step s s') then show ?case using pool_step_inv by blast
qed

subsection \<open>Properties of the pool\<close>

text \<open>
  C20: No slot leaks and none is given back twice. In every reachable state, under any interleaving of
  submissions, scans, cancellations, resizes, goroutines at any phase, panics and slots taken by
  other paths, the running count of a project, of a model and of the whole pool equals the number
  of jobs and other holders that hold a slot of it; with no holder left, all counts are zero.
\<close>

theorem pool_slots_accounted:
  assumes "pool_reachable s"
  shows "counter (wp_project_running s) p = int (count_list (project_holders s) p) \<and>
    (a \<noteq> '''' \<longrightarrow> counter (wp_model_running s) a = int (count_list (model_holders s) a)) \<and>
    wp_total_running s = int (length (project_holders s)) \<and>
    (wp_holders s = [] \<and> (\<forall>j \<in> set (wp_jobs s). \<not> jb_capacity j) \<longrightarrow>
       counter (wp_project_running s) p = 0 \<and> (a \<noteq> '''' \<longrightarrow> counter (wp_model_running s) a = 0) \<and> wp_total_running s = 0)"
proof -
  have "accounted s" using pool_reachable_inv [OF assms] by (simp add: pool_inv_def)
  then show ?thesis
    by (auto simp: accounted_def project_holders_def model_holders_def map_filter_simps filter_empty_conv)
qed

text \<open>A pool that was started, got two tasks and ran the first to its end.\<close>

definition sample_run :: worker_pool where
  "sample_run =
     (let s1 = start_workers sample_env (Inr []) (new_worker_service 2);
          s2 = submit sample_env (sample_task ''a'' ''p'') s1;
          s3 = submit sample_env (sample_task ''b'' ''p'') s2
      in exec_run None 0 (exec_claim sample_env False (Claimed (sample_task ''a'' ''p'') ''x'') 0 (exec_begin 0 s3)))"

lemma sample_run_reachable: "pool_reachable sample_run"
proof -
  define s1 where "s1 = start_workers sample_env (Inr []) (new_worker_service 2)"
  define s2 where "s2 = submit sample_env (sample_task ''a'' ''p'') s1"
  define s3 where "s3 = submit sample_env (sample_task ''b'' ''p'') s2"
  define s4 where "s4 = exec_begin 0 s3"
  define s5 where "s5 = exec_claim sample_env False (Claimed (sample_task ''a'' ''p'') ''x'') 0 s4"
  have "pool_reachable s3"
    unfolding s3_def s2_def s1_def
    by (rule pool_reachable.step [OF pool_reachable.step [OF pool_reachable.step [OF pool_reachable.init pool_step.start]
          pool_step.submit] pool_step.submit])
  moreover have "pool_step s3 s4" unfolding s4_def
    by (rule pool_step.begin_job; unfold s3_def s2_def s1_def; code_simp)
  moreover have "pool_step s4 s5"
  proof -
    have "0 < length (wp_jobs s4)" unfolding s4_def s3_def s2_def s1_def by code_simp
    moreover have "jb_phase (wp_jobs s4 ! 0) = Registered" unfolding s4_def s3_def s2_def s1_def by code_simp
    moreover have "tk_project_id (jb_task (wp_jobs s4 ! 0)) = ''p''" unfolding s4_def s3_def s2_def s1_def by code_simp
    ultimately show ?thesis unfolding s5_def by (intro pool_step.claim) auto
  qed
  moreover have "pool_step s5 (exec_run None 0 s5)"
    by (rule pool_step.run; unfold s5_def s4_def s3_def s2_def s1_def; code_simp)
  ultimately have "pool_reachable (exec_run None 0 s5)" by (blast intro: pool_reachable.step)
  then show ?thesis by (simp add: sample_run_def Let_def s5_def s4_def s3_def s2_def s1_def)
qed

lemma pool_slots_accounted_witness:
  "counter (wp_project_running sample_run) ''p'' = int (count_list (project_holders sample_run) ''p'') \<and>
   wp_total_running sample_run = 1"
proof -
  have "counter (wp_project_running sample_run) ''p'' = int (count_list (project_holders sample_run) ''p'') \<and>
      wp_total_running sample_run = int (length (project_holders sample_run))"
    using pool_slots_accounted [OF sample_run_reachable, of "''p''" "''m''"] by blast
  moreover have "length (project_holders sample_run) = 1" by code_simp
  ultimately show ?thesis by simp
qed

subsection \<open>A task can be queued twice\<close>

text \<open>
  \<open>SubmitReserved\<close> for a pending task that is not in the queue appends it, "the sole runnable
  queue entry". The task may be running, though: its job clears the pending mark when it ends, so
  while the admission gate is closed an ordinary submission adds a second entry for the same id.
\<close>

definition closed_env :: worker_env where
  "closed_env = sample_env\<lparr>we_open := (\<lambda>i. False)\<rparr>"

definition exec_finished :: "worker_env \<Rightarrow> nat \<Rightarrow> worker_pool \<Rightarrow> worker_pool" where
  "exec_finished env i s = exec_finish env False None i (exec_release i (exec_unmark i (exec_deregister i s)))"

lemma reserved_then_queued_twice:
  "map tk_id (wp_queue (submit closed_env (sample_task ''b'' ''p'') (submit closed_env (sample_task ''a'' ''p'')
     (exec_finished closed_env 0 (submit_reserved closed_env (sample_task ''a'' ''p'') ''e'' sample_run))))) =
   [''b'', ''a'', ''a'']"
  by code_simp

end
