(* ===== verification/TaskDb.thy ===== *)
theory TaskDb
  imports Models
begin

section \<open>The task tables\<close>

text \<open>
  The tables \<open>internal/persistence/sqlite/task_repo.go\<close> works on, with the constraints and the
  triggers of their migrations (\<open>068_baseline.sql\<close>, \<open>210_schedule_skips_and_project_pauses.sql\<close>,
  \<open>221_all_projects_chat.sql\<close>): tasks, executions, the admissions of calendar schedules, the
  reservations of automations, the pending inputs of task threads. A table is a list of rows in
  the order of their row ids; the columns no statement of the file reads are left out.

  A write runs in an immediate transaction or as a single statement (\<open>sqlite_write.go\<close>). Which
  of them the database refuses is a script, \<open>db_faults\<close>, with one entry for each transaction in
  their order: a refused transaction, and one whose body reports an error, leaves the tables as
  they were. Random ids are the entries of \<open>db_ids\<close>, and a primary key that exists is an error.
\<close>

record exec_row =
  ex_id :: string
  ex_task :: string
  ex_status :: exec_status
  ex_followup :: bool
  ex_dispatch :: "string option"
  ex_prompt :: string
  ex_agent :: "string option"
  ex_new_context :: bool
  ex_error :: string
  ex_history_order :: int
  ex_started_at :: instant
  ex_completed_at :: "instant option"

record admission =
  ad_task :: string
  ad_schedule :: string
  ad_exec :: "string option"
  ad_clear :: bool

record schedule_row =
  sr_id :: string
  sr_task :: string
  sr_enabled :: bool
  sr_repeats :: bool
  sr_has_next_run :: bool

datatype automation_state = AutomationActive | AutomationPaused | AutomationArchived | AutomationOther string

datatype event_kind = TaskCategoryChanged | TaskStatusChanged | TaskBoardUpdated

record task_event =
  ev_kind :: event_kind
  ev_task :: string
  ev_project :: string
  ev_category :: "task_category option"
  ev_old_category :: "task_category option"
  ev_status :: "task_status option"
  ev_old_status :: "task_status option"

record task_db =
  db_tasks :: "task list"
  db_execs :: "exec_row list"
  db_admissions :: "admission list"
  db_schedules :: "schedule_row list"
  db_reservations :: "string \<rightharpoonup> string"
  db_live_dispatches :: "string set"
  db_thread_inputs :: "string set"
  db_bindings :: "string \<Rightarrow> (string \<times> string) list"
  db_automations :: "string \<Rightarrow> string \<times> string \<Rightarrow> automation_state option"
  db_created_by :: "string \<Rightarrow> (string \<times> string) set"
  db_paused_admissions :: "string \<rightharpoonup> string \<times> string"
  db_conflict_owners :: "string \<rightharpoonup> string"
  db_authors :: "string \<rightharpoonup> string \<times> string"
  db_principal :: "(string \<times> string) option"
  db_now :: instant
  db_ids :: "string list"
  db_faults :: "bool list"
  db_events :: "task_event list"

datatype store_error = DbFailure | ConstraintFailure | TaskNotFound string | ExecutionNotFound string
  | InvalidLaneStatus task_status | DuplicateMove string | TaskNotInProject string | ErrTaskChanged string
  | ErrLifecycleOwned string | ErrDuplicateTask | ProjectRequired

subsection \<open>Transactions\<close>

definition next_fault :: "task_db \<Rightarrow> bool \<times> task_db" where
  "next_fault d = (case db_faults d of [] \<Rightarrow> (False, d) | f # fs \<Rightarrow> (f, d\<lparr>db_faults := fs\<rparr>))"

definition txn :: "(task_db \<Rightarrow> (store_error + 'a) \<times> task_db) \<Rightarrow> task_db \<Rightarrow> (store_error + 'a) \<times> task_db" where
  "txn body d =
     (case next_fault d of
        (True, d1) \<Rightarrow> (Inl DbFailure, d1)
      | (False, d1) \<Rightarrow> (case body d1 of (Inl e, _) \<Rightarrow> (Inl e, d1) | (Inr x, d2) \<Rightarrow> (Inr x, d2)))"

text \<open>A read that fails or answers, and the sequel of a call that may fail.\<close>

definition query :: "(task_db \<Rightarrow> 'a) \<Rightarrow> task_db \<Rightarrow> (store_error + 'a) \<times> task_db" where
  "query f = txn (\<lambda>d. (Inr (f d), d))"

definition and_then ::
  "('e + 'a) \<times> 's \<Rightarrow> ('a \<Rightarrow> 's \<Rightarrow> ('e + 'b) \<times> 's) \<Rightarrow> ('e + 'b) \<times> 's" where
  "and_then r k = (case r of (Inl e, s) \<Rightarrow> (Inl e, s) | (Inr x, s) \<Rightarrow> k x s)"

lemma and_then_simps [simp]:
  "and_then (Inl e, s) k = (Inl e, s)" "and_then (Inr x, s) k = k x s"
  by (simp_all add: and_then_def)

text \<open>Publishing follows the commit; an event is appended to the log of the broadcaster.\<close>

definition publish :: "task_event list \<Rightarrow> task_db \<Rightarrow> task_db" where
  "publish es d = d\<lparr>db_events := db_events d @ es\<rparr>"

definition status_event :: "task \<Rightarrow> task_status \<Rightarrow> task_status \<Rightarrow> task_category \<Rightarrow> task_event" where
  "status_event t old new c = \<lparr>ev_kind = TaskStatusChanged, ev_task = tk_id t, ev_project = tk_project_id t,
     ev_category = Some c, ev_old_category = None, ev_status = Some new, ev_old_status = Some old\<rparr>"

definition category_event :: "task \<Rightarrow> task_category \<Rightarrow> task_event" where
  "category_event t c = \<lparr>ev_kind = TaskCategoryChanged, ev_task = tk_id t, ev_project = tk_project_id t,
     ev_category = Some c, ev_old_category = Some (tk_category t), ev_status = None, ev_old_status = None\<rparr>"

definition board_event :: "task \<Rightarrow> task_event" where
  "board_event t = \<lparr>ev_kind = TaskBoardUpdated, ev_task = tk_id t, ev_project = tk_project_id t,
     ev_category = Some (tk_category t), ev_old_category = None, ev_status = Some (tk_status t), ev_old_status = None\<rparr>"

subsection \<open>Triggers\<close>

text \<open>
  \<open>schedule_admission_execution_started\<close> and \<open>schedule_admission_deleted\<close>: an execution that is
  no longer queued loses its admission, and a deleted admission cancels its queued execution. No
  trigger fires itself, as recursive triggers are off.
\<close>

definition cancel_exec :: "instant \<Rightarrow> string \<Rightarrow> exec_row \<Rightarrow> exec_row" where
  "cancel_exec now msg e = e\<lparr>ex_status := ExecCancelled, ex_error := msg, ex_completed_at := Some now\<rparr>"

definition set_execs :: "(exec_row \<Rightarrow> bool) \<Rightarrow> (exec_row \<Rightarrow> exec_row) \<Rightarrow> task_db \<Rightarrow> task_db" where
  "set_execs P f d =
     d\<lparr>db_execs := map (\<lambda>e. if P e then f e else e) (db_execs d),
       db_admissions := filter (\<lambda>a. \<not> (\<exists>e \<in> set (db_execs d). P e \<and> ex_status (f e) \<noteq> ExecQueued \<and> ad_exec a = Some (ex_id e)))
                          (db_admissions d)\<rparr>"

definition withdraw_admissions :: "(admission \<Rightarrow> bool) \<Rightarrow> task_db \<Rightarrow> task_db" where
  "withdraw_admissions P d =
     (let gone = filter P (db_admissions d)
      in set_execs (\<lambda>e. ex_status e = ExecQueued \<and> Some (ex_id e) \<in> ad_exec ` set gone)
           (cancel_exec (db_now d) ''Scheduled admission withdrawn'')
           (d\<lparr>db_admissions := filter (\<lambda>a. \<not> P a) (db_admissions d)\<rparr>))"

text \<open>
  \<open>schedule_admission_task_withdrawn\<close>, after an update that names the status or the category
  of a task: a task that ended, or left the lanes, withdraws what its schedules admitted.
\<close>

definition schedules_of :: "string \<Rightarrow> task_db \<Rightarrow> string set" where
  "schedules_of i d = sr_id ` set (filter (\<lambda>r. sr_task r = i) (db_schedules d))"

definition withdraws :: "task \<Rightarrow> bool" where
  "withdraws t \<longleftrightarrow> is_terminal_status (tk_status t) \<or> (tk_category t \<noteq> CategoryActive \<and> tk_category t \<noteq> CategoryScheduled)"

definition task_withdrawn :: "task \<Rightarrow> task_db \<Rightarrow> task_db" where
  "task_withdrawn new d =
     (if \<not> withdraws new then d
      else let i = tk_id new;
               ss = schedules_of i d;
               admitted = ad_task ` set (filter (\<lambda>a. ad_schedule a \<in> ss) (db_admissions d))
           in withdraw_admissions (\<lambda>a. ad_task a = i \<or> ad_schedule a \<in> ss)
                (d\<lparr>db_tasks := map (\<lambda>t. if tk_status t = StatusPending \<and> tk_id t \<noteq> i \<and> tk_id t \<in> admitted
                     then t\<lparr>tk_status := StatusCancelled, tk_updated_at := db_now d\<rparr> else t) (db_tasks d)\<rparr>))"

text \<open>
  An \<open>UPDATE tasks\<close> of one id that names the status or the category. The category of a task of
  the project that stands for all of them can only be the chat's.
\<close>

definition all_projects_id :: string where
  "all_projects_id = ''__all_projects__''"

definition map_task :: "string \<Rightarrow> (task \<Rightarrow> task) \<Rightarrow> task_db \<Rightarrow> task_db" where
  "map_task i f d = d\<lparr>db_tasks := map (\<lambda>t. if tk_id t = i then (f t)\<lparr>tk_updated_at := db_now d\<rparr> else t) (db_tasks d)\<rparr>"

definition get_task :: "string \<Rightarrow> task_db \<Rightarrow> task option" where
  "get_task i d = find (\<lambda>t. tk_id t = i) (db_tasks d)"

definition update_task_row :: "string \<Rightarrow> (task \<Rightarrow> task) \<Rightarrow> task_db \<Rightarrow> task_db" where
  "update_task_row i f d =
     (let d1 = map_task i f d
      in case get_task i d1 of None \<Rightarrow> d1 | Some new \<Rightarrow> task_withdrawn new d1)"

definition chat_only :: "string \<Rightarrow> task_category \<Rightarrow> bool" where
  "chat_only p c \<longleftrightarrow> p = all_projects_id \<and> c \<noteq> CategoryChat"

subsection \<open>Display orders\<close>

definition next_order :: "(task \<Rightarrow> bool) \<Rightarrow> task_db \<Rightarrow> int" where
  "next_order P d =
     (case map tk_display_order (filter P (db_tasks d)) of [] \<Rightarrow> - 1 | n # ns \<Rightarrow> fold max ns n) + 1"

definition on_active_board :: "string \<Rightarrow> task \<Rightarrow> bool" where
  "on_active_board p t \<longleftrightarrow> tk_project_id t = p \<and>
     (tk_category t = CategoryActive \<or> (tk_category t = CategoryScheduled \<and> tk_status t = StatusRunning))"

definition active_tail :: "string \<Rightarrow> task_db \<Rightarrow> int" where
  "active_tail p d = next_order (on_active_board p) d"

definition category_tail :: "string \<Rightarrow> task_category \<Rightarrow> task_db \<Rightarrow> int" where
  "category_tail p c d = next_order (\<lambda>t. tk_project_id t = p \<and> tk_category t = c) d"

lemma fold_max_ge: "m \<le> fold max ns m \<and> (\<forall>n \<in> set ns. n \<le> fold max ns m)" for m :: int
proof (induction ns arbitrary: m)
  case (Cons n ns)
  from Cons.IH [of "max n m"] show ?case by auto
qed simp

lemma next_order_above: "t \<in> set (db_tasks d) \<Longrightarrow> P t \<Longrightarrow> tk_display_order t < next_order P d"
proof -
  assume "t \<in> set (db_tasks d)" "P t"
  then have mem: "tk_display_order t \<in> set (map tk_display_order (filter P (db_tasks d)))" by auto
  then obtain n ns where ns: "map tk_display_order (filter P (db_tasks d)) = n # ns"
    by (cases "map tk_display_order (filter P (db_tasks d))") auto
  with mem fold_max_ge [of n ns] have "tk_display_order t \<le> fold max ns n" by (metis set_ConsD)
  then show ?thesis by (simp only: next_order_def ns list.case)
qed

end
