(* ===== verification/TaskStore.thy ===== *)
theory TaskStore
  imports TaskDb "HOL-Library.Product_Lexorder"
begin

section \<open>The task repository\<close>

text \<open>
  The operations of \<open>TaskRepo\<close> (\<open>internal/persistence/sqlite/task_repo.go\<close>) the schedulers, the
  worker pool and the swarm rest on: status and category changes, the claims of a dispatch, the
  moves to the active lane, the swarm's fields, recovery at startup. Each is a function of the
  tables of \<open>TaskDb\<close> that returns its result or error and the tables after it; the order of the
  statements, the guards in their \<open>WHERE\<close> clauses and the point the events are published at are
  those of the code.
\<close>

definition get_by_id :: "string \<Rightarrow> task_db \<Rightarrow> (store_error + task option) \<times> task_db" where
  "get_by_id i = query (get_task i)"

text \<open>The queued execution of an ordinary admission is cancelled when its task leaves the lane.\<close>

definition queued_ordinary :: "string \<Rightarrow> exec_row \<Rightarrow> bool" where
  "queued_ordinary i e \<longleftrightarrow> ex_task e = i \<and> ex_status e = ExecQueued \<and> \<not> ex_followup e \<and> ex_dispatch e = None"

definition cancel_reserved :: "string \<Rightarrow> task_db \<Rightarrow> task_db" where
  "cancel_reserved i d = set_execs (queued_ordinary i) (cancel_exec (db_now d) ''Task left the reserved running lane'') d"

definition is_active_board_status :: "task_status \<Rightarrow> bool" where
  "is_active_board_status s \<longleftrightarrow> s = StatusPending \<or> s = StatusQueued \<or> s = StatusRunning \<or> s = StatusBlocked"

definition update_status_body :: "string \<Rightarrow> task_status \<Rightarrow> task_db \<Rightarrow> (store_error + task) \<times> task_db" where
  "update_status_body i st d =
     (case get_task i d of
        None \<Rightarrow> (Inl (TaskNotFound i), d)
      | Some t \<Rightarrow>
          if tk_status t = st then (Inr t, d)
          else let tail = (tk_category t = CategoryActive \<and> is_active_board_status st) \<or>
                          (tk_category t = CategoryScheduled \<and> st = StatusRunning);
                   n = (if tail then active_tail (tk_project_id t) d else tk_display_order t);
                   d1 = update_task_row i (\<lambda>t. t\<lparr>tk_status := st, tk_display_order := n\<rparr>) d
               in (Inr t, if st \<noteq> StatusRunning then cancel_reserved i d1 else d1))"

definition update_status :: "string \<Rightarrow> task_status \<Rightarrow> task_db \<Rightarrow> (store_error + unit) \<times> task_db" where
  "update_status i st d =
     and_then (txn (update_status_body i st) d)
       (\<lambda>t d1. (Inr (), if tk_status t \<noteq> st then publish [status_event t (tk_status t) st (tk_category t)] d1 else d1))"

definition update_category_body :: "string \<Rightarrow> task_category \<Rightarrow> task_db \<Rightarrow> (store_error + task) \<times> task_db" where
  "update_category_body i c d =
     (case get_task i d of
        None \<Rightarrow> (Inl (TaskNotFound i), d)
      | Some t \<Rightarrow>
          if tk_category t = c then (Inr t, d)
          else if chat_only (tk_project_id t) c then (Inl ConstraintFailure, d)
          else let n = (if c = CategoryActive then active_tail (tk_project_id t) d
                        else category_tail (tk_project_id t) c d);
                   d1 = update_task_row i (\<lambda>t. t\<lparr>tk_category := c, tk_display_order := n,
                          tk_completed_at := (if c = CategoryCompleted then Some (db_now d) else None)\<rparr>) d
               in (Inr t, if c \<noteq> CategoryActive then cancel_reserved i d1 else d1))"

definition update_category :: "string \<Rightarrow> task_category \<Rightarrow> task_db \<Rightarrow> (store_error + unit) \<times> task_db" where
  "update_category i c d =
     and_then (txn (update_category_body i c) d)
       (\<lambda>t d1. (Inr (), if tk_category t \<noteq> c then publish [category_event t c] d1 else d1))"

definition move_cancelled_to_backlog :: "string \<Rightarrow> task_db \<Rightarrow> (store_error + bool) \<times> task_db" where
  "move_cancelled_to_backlog i d =
     and_then (txn (\<lambda>d.
        case get_task i d of
          None \<Rightarrow> (Inl (TaskNotFound i), d)
        | Some t \<Rightarrow>
            if tk_status t \<noteq> StatusCancelled then (Inr (t, False), d)
            else if tk_category t = CategoryBacklog then (Inr (t, True), d)
            else if chat_only (tk_project_id t) CategoryBacklog then (Inl ConstraintFailure, d)
            else let n = category_tail (tk_project_id t) CategoryBacklog d
                 in (Inr (t, True), update_task_row i (\<lambda>t. t\<lparr>tk_category := CategoryBacklog, tk_display_order := n,
                                      tk_completed_at := None\<rparr>) d)) d)
       (\<lambda>(t, moved) d1. (Inr moved, if moved \<and> tk_category t \<noteq> CategoryBacklog
                                     then publish [category_event t CategoryBacklog] d1 else d1))"

definition restore_board_state :: "task \<Rightarrow> task_db \<Rightarrow> (store_error + unit) \<times> task_db" where
  "restore_board_state t d =
     and_then (txn (\<lambda>d. if get_task (tk_id t) d \<noteq> None \<and>
                           chat_only (tk_project_id (the (get_task (tk_id t) d))) (tk_category t)
                        then (Inl ConstraintFailure, d)
                        else (Inr (), update_task_row (tk_id t) (\<lambda>u. u\<lparr>tk_category := tk_category t, tk_status := tk_status t,
                                        tk_display_order := tk_display_order t, tk_completed_at := tk_completed_at t\<rparr>) d)) d)
       (\<lambda>_ d1. (Inr (), publish [board_event t] d1))"

definition get_exec :: "string \<Rightarrow> task_db \<Rightarrow> exec_row option" where
  "get_exec e d = find (\<lambda>x. ex_id x = e) (db_execs d)"

definition finalize_execution_cancellation :: "string \<Rightarrow> string \<Rightarrow> task_db \<Rightarrow> (store_error + bool) \<times> task_db" where
  "finalize_execution_cancellation i e d =
     and_then (txn (\<lambda>d.
        case get_task i d of
          None \<Rightarrow> (Inl (TaskNotFound i), d)
        | Some t \<Rightarrow>
            (case find (\<lambda>x. ex_id x = e \<and> ex_task x = i) (db_execs d) of
               None \<Rightarrow> (Inl (ExecutionNotFound e), d)
             | Some x \<Rightarrow>
                 if (\<exists>y \<in> set (db_execs d). ex_task y = i \<and> ex_history_order y > ex_history_order x)
                 then (Inr (t, False), d)
                 else let moved = tk_category t = CategoryActive;
                          n = (if moved then category_tail (tk_project_id t) CategoryBacklog d else tk_display_order t)
                      in if moved \<and> chat_only (tk_project_id t) CategoryBacklog then (Inl ConstraintFailure, d)
                         else (Inr (t, True), update_task_row i (\<lambda>t. t\<lparr>tk_status := StatusCancelled,
                                 tk_category := (if moved then CategoryBacklog else tk_category t), tk_display_order := n,
                                 tk_completed_at := (if moved then None else tk_completed_at t)\<rparr>) d))) d)
       (\<lambda>(t, fin) d1. (Inr fin,
          if \<not> fin then d1
          else publish ((if tk_status t \<noteq> StatusCancelled
                         then [status_event t (tk_status t) StatusCancelled (tk_category t)] else []) @
                        (if tk_category t = CategoryActive then [category_event t CategoryBacklog] else [])) d1))"

subsection \<open>Becoming pending\<close>

text \<open>Two database calls: the task is read for the event, the guard is in the update.\<close>

definition set_pending :: "(task \<Rightarrow> task_db \<Rightarrow> bool) \<Rightarrow> string \<Rightarrow> task_db \<Rightarrow> (store_error + bool) \<times> task_db" where
  "set_pending guard i d =
     and_then (get_by_id i d) (\<lambda>r d1.
       case r of
         None \<Rightarrow> (Inl (TaskNotFound i), d1)
       | Some t \<Rightarrow>
           and_then (txn (\<lambda>d.
              case get_task i d of
                None \<Rightarrow> (Inr False, d)
              | Some u \<Rightarrow>
                  if tk_status u \<noteq> StatusRunning \<and> tk_status u \<noteq> StatusQueued \<and> guard u d
                  then (Inr True, update_task_row i (\<lambda>u. u\<lparr>tk_status := StatusPending,
                          tk_display_order := (if tk_category u = CategoryActive \<and> tk_status u \<noteq> StatusPending
                                               then active_tail (tk_project_id u) d else tk_display_order u)\<rparr>) d)
                  else (Inr False, d)) d1)
             (\<lambda>updated d2. (Inr updated,
                if updated \<and> tk_status t \<noteq> StatusPending
                then publish [status_event t (tk_status t) StatusPending (tk_category t)] d2 else d2)))"

definition set_pending_if_not_running_or_queued :: "string \<Rightarrow> task_db \<Rightarrow> (store_error + bool) \<times> task_db" where
  "set_pending_if_not_running_or_queued = set_pending (\<lambda>u d. True)"

definition set_pending_for_enabled_schedule :: "string \<Rightarrow> string \<Rightarrow> task_db \<Rightarrow> (store_error + bool) \<times> task_db" where
  "set_pending_for_enabled_schedule i sid =
     set_pending (\<lambda>u d. \<exists>r \<in> set (db_schedules d). sr_id r = sid \<and> sr_task r = tk_id u \<and> sr_enabled r \<and>
                          (sr_repeats r \<or> sr_has_next_run r)) i"

subsection \<open>Claims\<close>

definition has_running_exec :: "string \<Rightarrow> task_db \<Rightarrow> bool" where
  "has_running_exec i d \<longleftrightarrow> (\<exists>e \<in> set (db_execs d). ex_task e = i \<and> ex_status e = ExecRunning)"

definition thread_input_owns_admission :: "string \<Rightarrow> task_db \<Rightarrow> bool" where
  "thread_input_owns_admission i d \<longleftrightarrow> i \<in> db_thread_inputs d \<and> (\<exists>e \<in> set (db_execs d). ex_task e = i)"

definition unowned :: "string \<Rightarrow> task_db \<Rightarrow> bool" where
  "unowned i d \<longleftrightarrow> db_reservations d i = None \<and> i \<notin> ad_task ` set (db_admissions d) \<and>
     \<not> has_running_exec i d \<and> \<not> thread_input_owns_admission i d"

definition run_row :: "task_db \<Rightarrow> task \<Rightarrow> task" where
  "run_row d t = t\<lparr>tk_status := StatusRunning,
     tk_display_order := (if tk_category t = CategoryActive \<or> tk_category t = CategoryScheduled
                          then active_tail (tk_project_id t) d else tk_display_order t)\<rparr>"

definition claim_task_body :: "string \<Rightarrow> task_db \<Rightarrow> (store_error + task \<times> bool) \<times> task_db" where
  "claim_task_body i d =
     (case get_task i d of
        None \<Rightarrow> (Inl (TaskNotFound i), d)
      | Some t \<Rightarrow>
          if tk_status t = StatusPending \<and> unowned i d
          then (Inr (t, True), update_task_row i (run_row d) d)
          else (Inr (t, False), d))"

definition claim_task :: "string \<Rightarrow> task_db \<Rightarrow> (store_error + bool) \<times> task_db" where
  "claim_task i d =
     and_then (txn (claim_task_body i) d)
       (\<lambda>(t, claimed) d1. (Inr claimed,
          if claimed then publish [status_event t StatusPending StatusRunning (tk_category t)] d1 else d1))"

definition is_automation_task_created_via :: "string \<Rightarrow> bool" where
  "is_automation_task_created_via s =
     (let parts = split_char (CHR '':'') (trim_space s)
      in length parts \<ge> 3 \<and> parts ! 0 = ''automation'' \<and> trim_space (parts ! 1) \<noteq> '''' \<and> trim_space (parts ! 2) \<noteq> '''')"

record automation_context =
  ac_bindings :: "(string \<times> string) list"
  ac_origin :: bool

definition automation_context_of :: "task \<Rightarrow> task_db \<Rightarrow> automation_context" where
  "automation_context_of t d =
     \<lparr>ac_bindings = db_bindings d (tk_id t), ac_origin = is_automation_task_created_via (tk_created_via t)\<rparr>"

text \<open>The first binding, each checked once, whose published automation is not active.\<close>

fun inactive_binding ::
  "(string \<times> string \<Rightarrow> automation_state option) \<Rightarrow> (string \<times> string) set \<Rightarrow> (string \<times> string) list \<Rightarrow>
   ((string \<times> string) \<times> automation_state) option" where
  "inactive_binding L seen [] = None"
| "inactive_binding L seen (b # bs) =
     (if b \<in> seen then inactive_binding L seen bs
      else case L b of
             None \<Rightarrow> inactive_binding L (insert b seen) bs
           | Some l \<Rightarrow> if l = AutomationActive then inactive_binding L (insert b seen) bs else Some (b, l))"

definition keep_paused_admission :: "string \<Rightarrow> string \<times> string \<Rightarrow> task_db \<Rightarrow> task_db" where
  "keep_paused_admission i b d =
     (if b \<in> db_created_by d i \<and> db_paused_admissions d i = None
      then d\<lparr>db_paused_admissions := (db_paused_admissions d)(i \<mapsto> b)\<rparr> else d)"

definition drop_paused_admission :: "string \<Rightarrow> task_db \<Rightarrow> task_db" where
  "drop_paused_admission i d = d\<lparr>db_paused_admissions := (db_paused_admissions d)(i := None)\<rparr>"

record dispatch_claim =
  dc_task :: task
  dc_context :: automation_context

definition no_context :: automation_context where
  "no_context = \<lparr>ac_bindings = [], ac_origin = False\<rparr>"

definition claim_dispatch_body :: "string \<Rightarrow> task_db \<Rightarrow> (store_error + dispatch_claim \<times> bool) \<times> task_db" where
  "claim_dispatch_body i d =
     (case get_task i d of
       None \<Rightarrow> (Inl (TaskNotFound i), d)
     | Some t \<Rightarrow>
         if tk_status t \<noteq> StatusPending \<or> (tk_category t \<noteq> CategoryActive \<and> tk_category t \<noteq> CategoryScheduled)
         then (Inr (\<lparr>dc_task = t, dc_context = no_context\<rparr>, False), d)
         else let ctx = automation_context_of t d
              in case inactive_binding (db_automations d (tk_project_id t)) {} (ac_bindings ctx) of
                   Some (b, l) \<Rightarrow>
                     let d1 = (if l = AutomationPaused \<and> tk_category t = CategoryActive then keep_paused_admission i b d
                               else if l = AutomationArchived then drop_paused_admission i d else d);
                         d2 = update_task_row i (\<lambda>t. t\<lparr>tk_category := CategoryBacklog\<rparr>) d1
                     in if chat_only (tk_project_id t) CategoryBacklog then (Inl ConstraintFailure, d)
                        else (Inr (\<lparr>dc_task = t\<lparr>tk_category := CategoryBacklog\<rparr>, dc_context = ctx\<rparr>, False), d2)
                 | None \<Rightarrow>
                     if unowned i d
                     then let d1 = update_task_row i (run_row d) d
                          in (Inr (\<lparr>dc_task = run_row d t, dc_context = ctx\<rparr>, True), d1)
                     else (Inr (\<lparr>dc_task = t, dc_context = no_context\<rparr>, False), d))"

definition claim_task_for_dispatch :: "string \<Rightarrow> task_db \<Rightarrow> (store_error + dispatch_claim \<times> bool) \<times> task_db" where
  "claim_task_for_dispatch i d =
     and_then (txn (claim_dispatch_body i) d)
       (\<lambda>(c, claimed) d1. (Inr (c, claimed),
          if claimed then publish [status_event (dc_task c) StatusPending StatusRunning (tk_category (dc_task c))] d1 else d1))"

text \<open>The claim of an execution that a board move or a calendar schedule reserved.\<close>

definition is_calendar :: "string \<Rightarrow> string \<Rightarrow> task_db \<Rightarrow> bool" where
  "is_calendar i e d \<longleftrightarrow> (\<exists>a \<in> set (db_admissions d). ad_task a = i \<and> ad_exec a = Some e)"

definition reserved_valid :: "string \<Rightarrow> string \<Rightarrow> task \<Rightarrow> task_db \<Rightarrow> bool" where
  "reserved_valid i e t d \<longleftrightarrow>
     (if is_calendar i e d then tk_status t = StatusPending \<and> (tk_category t = CategoryActive \<or> tk_category t = CategoryScheduled)
      else tk_status t = StatusRunning \<and> tk_category t = CategoryActive)"

definition reserved_exec :: "string \<Rightarrow> string \<Rightarrow> task_db \<Rightarrow> bool" where
  "reserved_exec i e d \<longleftrightarrow> (\<exists>x \<in> set (db_execs d). ex_id x = e \<and> queued_ordinary i x)"

definition other_exec_active :: "string \<Rightarrow> string \<Rightarrow> task_db \<Rightarrow> bool" where
  "other_exec_active i e d \<longleftrightarrow> db_reservations d i \<noteq> None \<or>
     (\<exists>x \<in> set (db_execs d). ex_task x = i \<and> ex_id x \<noteq> e \<and> (ex_status x = ExecQueued \<or> ex_status x = ExecRunning))"

definition cancel_queued_exec :: "string \<Rightarrow> string \<Rightarrow> task_db \<Rightarrow> task_db" where
  "cancel_queued_exec e msg d = set_execs (\<lambda>x. ex_id x = e \<and> ex_status x = ExecQueued) (cancel_exec (db_now d) msg) d"

definition start_exec :: "task \<Rightarrow> instant \<Rightarrow> exec_row \<Rightarrow> exec_row" where
  "start_exec t now x = x\<lparr>ex_status := ExecRunning, ex_started_at := now, ex_prompt := tk_prompt t, ex_agent := tk_agent_id t,
     ex_new_context := tk_starts_new_context t\<rparr>"

definition claim_reserved_body :: "string \<Rightarrow> string \<Rightarrow> task_db \<Rightarrow> (store_error + dispatch_claim \<times> bool) \<times> task_db" where
  "claim_reserved_body i e d =
     (case get_task i d of
        None \<Rightarrow> (Inl (TaskNotFound i), d)
      | Some t \<Rightarrow>
          if \<not> reserved_valid i e t d \<or> \<not> reserved_exec i e d \<or> other_exec_active i e d
          then (Inr (\<lparr>dc_task = t, dc_context = no_context\<rparr>, False),
                if reserved_exec i e d then cancel_queued_exec e ''Reserved task admission was superseded'' d else d)
          else let ctx = automation_context_of t d
               in case inactive_binding (db_automations d (tk_project_id t)) {} (ac_bindings ctx) of
                    Some (b, l) \<Rightarrow>
                      let d1 = (if l = AutomationPaused then keep_paused_admission i b d
                                else if l = AutomationArchived then drop_paused_admission i d else d);
                          d2 = cancel_queued_exec e ''Automation is not active'' d1;
                          d3 = (if tk_status t = StatusRunning
                                then update_task_row i (\<lambda>t. t\<lparr>tk_status := StatusPending, tk_category := CategoryBacklog\<rparr>) d2
                                else d2)
                      in if tk_status t = StatusRunning \<and> chat_only (tk_project_id t) CategoryBacklog
                         then (Inl ConstraintFailure, d)
                         else (Inr (\<lparr>dc_task = t\<lparr>tk_status := StatusPending, tk_category := CategoryBacklog\<rparr>, dc_context = ctx\<rparr>, False), d3)
                  | None \<Rightarrow>
                      let t1 = t\<lparr>tk_starts_new_context := (\<exists>x \<in> set (db_execs d). ex_id x = e \<and> ex_new_context x)\<rparr>;
                          t2 = (if is_calendar i e d then t1\<lparr>tk_status := StatusRunning\<rparr> else t1);
                          d1 = (if is_calendar i e d
                                then update_task_row i (\<lambda>t. t\<lparr>tk_status := StatusRunning,
                                       tk_display_order := active_tail (tk_project_id t) d\<rparr>) d
                                else d)
                      in (Inr (\<lparr>dc_task = t2, dc_context = ctx\<rparr>, True),
                          set_execs (\<lambda>x. ex_id x = e \<and> ex_task x = i \<and> ex_status x = ExecQueued) (start_exec t2 (db_now d)) d1))"

definition claim_reserved_task_for_dispatch ::
  "string \<Rightarrow> string \<Rightarrow> task_db \<Rightarrow> (store_error + dispatch_claim \<times> bool) \<times> task_db" where
  "claim_reserved_task_for_dispatch i e d =
     and_then (txn (claim_reserved_body i e) d)
       (\<lambda>(c, admitted) d1. (Inr (c, admitted), if admitted then publish [board_event (dc_task c)] d1 else d1))"

text \<open>The tasks the scheduler offers to the pool: active, pending, and owned by nobody.\<close>

definition has_open_exec :: "string \<Rightarrow> task_db \<Rightarrow> bool" where
  "has_open_exec i d \<longleftrightarrow> (\<exists>e \<in> set (db_execs d). ex_task e = i \<and> (ex_status e = ExecQueued \<or> ex_status e = ExecRunning))"

definition admissible :: "task_db \<Rightarrow> task \<Rightarrow> bool" where
  "admissible d t \<longleftrightarrow> tk_category t = CategoryActive \<and> tk_status t = StatusPending \<and>
     tk_id t \<notin> ad_task ` set (db_admissions d) \<and> db_reservations d (tk_id t) = None \<and>
     \<not> has_open_exec (tk_id t) d \<and> \<not> thread_input_owns_admission (tk_id t) d"

definition list_active_pending_admissions :: "task_db \<Rightarrow> (store_error + task list) \<times> task_db" where
  "list_active_pending_admissions = query (\<lambda>d.
     sort_key (\<lambda>t. (- tk_priority t, tk_display_order t, tk_created_at t)) (filter (admissible d) (db_tasks d)))"

subsection \<open>The active lane\<close>

record lane_move =
  lm_id :: string
  lm_category :: task_category
  lm_status :: task_status

definition in_scope :: "string \<Rightarrow> task \<Rightarrow> bool" where
  "in_scope p t \<longleftrightarrow> p = all_projects_id \<or> tk_project_id t = p"

definition latest_exec :: "string \<Rightarrow> task_db \<Rightarrow> exec_row option" where
  "latest_exec i d =
     (case sort_key (\<lambda>e. (- ex_started_at e, - ex_history_order e)) (filter (\<lambda>e. ex_task e = i) (db_execs d)) of
        [] \<Rightarrow> None | e # es \<Rightarrow> Some e)"

definition lifecycle_owned :: "string \<Rightarrow> task_db \<Rightarrow> bool" where
  "lifecycle_owned i d \<longleftrightarrow> i \<in> db_thread_inputs d \<or>
     (case latest_exec i d of
        Some e \<Rightarrow> ex_followup e \<and> ex_status e = ExecFailed \<and> trim_space (ex_prompt e) \<noteq> ''''
      | None \<Rightarrow> False) \<or>
     has_open_exec i d \<or> db_reservations d i \<noteq> None"

text \<open>The moves are checked in order; the tasks that are not in place already are the candidates.\<close>

fun lane_candidates ::
  "string \<Rightarrow> task_status \<Rightarrow> string set \<Rightarrow> lane_move list \<Rightarrow> task_db \<Rightarrow> store_error + task list" where
  "lane_candidates p st seen [] d = Inr []"
| "lane_candidates p st seen (m # ms) d =
     (if lm_id m \<in> seen then Inl (DuplicateMove (lm_id m))
      else case find (\<lambda>t. tk_id t = lm_id m \<and> in_scope p t) (db_tasks d) of
             None \<Rightarrow> Inl (TaskNotInProject (lm_id m))
           | Some t \<Rightarrow>
               if tk_category t \<noteq> lm_category m \<or> tk_status t \<noteq> lm_status m then Inl (ErrTaskChanged (lm_id m))
               else if tk_category t = CategoryActive \<and> tk_status t = st
               then lane_candidates p st (insert (lm_id m) seen) ms d
               else if tk_swarm_role t = SwarmRoleParent \<or> lifecycle_owned (tk_id t) d \<or>
                       tk_status t = StatusQueued \<or> tk_status t = StatusRunning
               then Inl (ErrLifecycleOwned (tk_id t))
               else (case lane_candidates p st (insert (lm_id m) seen) ms d of
                       Inl e \<Rightarrow> Inl e | Inr ts \<Rightarrow> Inr (t # ts)))"

definition create_execution :: "exec_row \<Rightarrow> task_db \<Rightarrow> (store_error + exec_row) \<times> task_db" where
  "create_execution e d =
     (case db_ids d of
        [] \<Rightarrow> (Inl DbFailure, d)
      | i # is \<Rightarrow>
          if i \<in> ex_id ` set (db_execs d) then (Inl ConstraintFailure, d)
          else let n = (case map ex_history_order (db_execs d) of [] \<Rightarrow> 0 | k # ks \<Rightarrow> fold max ks k) + 1;
                   e1 = e\<lparr>ex_id := i, ex_history_order := n, ex_started_at := db_now d\<rparr>
               in (Inr e1, d\<lparr>db_execs := db_execs d @ [e1], db_ids := is\<rparr>))"

definition lane_execution :: "task \<Rightarrow> exec_row" where
  "lane_execution t =
     \<lparr>ex_id = [], ex_task = tk_id t, ex_status = ExecQueued, ex_followup = False, ex_dispatch = None,
      ex_prompt = tk_prompt t, ex_agent = (case tk_agent_id t of Some a \<Rightarrow> if a = '''' then None else Some a | None \<Rightarrow> None),
      ex_new_context = tk_starts_new_context t, ex_error = [], ex_history_order = 0, ex_started_at = zero_time,
      ex_completed_at = None\<rparr>"

definition lane_row :: "task_status \<Rightarrow> int \<Rightarrow> task \<Rightarrow> task" where
  "lane_row st n t = t\<lparr>tk_category := CategoryActive, tk_status := st, tk_display_order := n, tk_completed_at := None\<rparr>"

fun place_in_lane ::
  "string \<Rightarrow> task_status \<Rightarrow> int \<Rightarrow> nat \<Rightarrow> task list \<Rightarrow> task_db \<Rightarrow> (store_error + (task \<times> string) list) \<times> task_db" where
  "place_in_lane p st tail k [] d = (Inr [], d)"
| "place_in_lane p st tail k (t # ts) d =
     (let n = (if p = all_projects_id then active_tail (tk_project_id t) d else tail) + int k
      in if chat_only (tk_project_id t) CategoryActive then (Inl ConstraintFailure, d)
         else let d1 = update_task_row (tk_id t) (lane_row st n) d
              in and_then (if st = StatusRunning
                           then and_then (create_execution (lane_execution t) d1) (\<lambda>e d2. (Inr (ex_id e), d2))
                           else (Inr '''', d1))
                   (\<lambda>e d2. and_then (place_in_lane p st tail (Suc k) ts d2)
                     (\<lambda>as d3. (Inr ((lane_row st n t, e) # as), d3))))"

definition move_tasks_to_active_lane ::
  "string \<Rightarrow> lane_move list \<Rightarrow> task_status \<Rightarrow> task_db \<Rightarrow> (store_error + (task \<times> string) list) \<times> task_db" where
  "move_tasks_to_active_lane p ms st d =
     (if st \<noteq> StatusPending \<and> st \<noteq> StatusRunning then (Inl (InvalidLaneStatus st), d)
      else and_then (txn (\<lambda>d.
             case lane_candidates p st {} ms d of
               Inl e \<Rightarrow> (Inl e, d)
             | Inr ts \<Rightarrow> place_in_lane p st (active_tail p d) 0 ts d) d)
           (\<lambda>as d1. (Inr as, publish (map (board_event \<circ> fst) as) d1)))"

subsection \<open>Swarms\<close>

definition is_child_row :: "string \<Rightarrow> task \<Rightarrow> bool" where
  "is_child_row p t \<longleftrightarrow> tk_parent_task_id t = Some p \<and> is_swarm_child_role (tk_swarm_role t)"

definition role_rank :: "swarm_role \<Rightarrow> int" where
  "role_rank r = (case r of SwarmRolePlanner \<Rightarrow> 0 | SwarmRoleWorker \<Rightarrow> 1 | SwarmRoleReviewer \<Rightarrow> 2
     | SwarmRoleMerger \<Rightarrow> 3 | SwarmRoleLegacyIntegrator \<Rightarrow> 3 | _ \<Rightarrow> 9)"

text \<open>The rows without the columns the statement leaves out.\<close>

definition compact_row :: "task \<Rightarrow> task" where
  "compact_row t = t\<lparr>tk_prompt := '''', tk_chain_config := EmptyText, tk_starts_new_context := False\<rparr>"

definition swarm_children :: "string \<Rightarrow> task_db \<Rightarrow> task list" where
  "swarm_children p d =
     map compact_row (sort_key (\<lambda>t. (tk_swarm_sequence t, role_rank (tk_swarm_role t), tk_created_at t))
       (filter (is_child_row p) (db_tasks d)))"

definition list_swarm_children :: "string \<Rightarrow> task_db \<Rightarrow> (store_error + task list) \<times> task_db" where
  "list_swarm_children p = query (swarm_children p)"

text \<open>
  A write of a parent's configuration keeps the larger of the two stop revisions
  (\<open>swarm_stop_revision.go\<close>); an empty configuration is stored as the empty document.
\<close>

definition default_json :: "swarm_text \<Rightarrow> swarm_text" where
  "default_json c = (case c of EmptyText \<Rightarrow> BracesText | _ \<Rightarrow> c)"

definition stop_revision :: "swarm_text \<Rightarrow> int" where
  "stop_revision c = (case c of JsonDoc cfg \<Rightarrow> sw_stop_revision cfg | _ \<Rightarrow> 0)"

definition monotonic_parent_stop_revision :: "swarm_role \<Rightarrow> swarm_text \<Rightarrow> swarm_text \<Rightarrow> swarm_text" where
  "monotonic_parent_stop_revision role old new =
     (if role = SwarmRoleParent
      then JsonDoc ((case new of JsonDoc cfg \<Rightarrow> cfg | _ \<Rightarrow> empty_swarm_config)
                     \<lparr>sw_stop_revision := max (stop_revision old) (stop_revision new)\<rparr>)
      else new)"

definition update_swarm_fields ::
  "string \<Rightarrow> swarm_role \<Rightarrow> string \<Rightarrow> swarm_text \<Rightarrow> int \<Rightarrow> task_db \<Rightarrow> (store_error + unit) \<times> task_db" where
  "update_swarm_fields i role st c n =
     txn (\<lambda>d. case get_task i d of
        None \<Rightarrow> (Inr (), d)
      | Some t \<Rightarrow>
          if role = SwarmRoleParent \<and> (c = Malformed \<or> tk_swarm_config t = Malformed) then (Inl DbFailure, d)
          else (Inr (), map_task i (\<lambda>t. t\<lparr>tk_swarm_role := role, tk_swarm_status := st,
                  tk_swarm_config := monotonic_parent_stop_revision role (tk_swarm_config t) (default_json c),
                  tk_swarm_sequence := n\<rparr>) d))"

definition bump_swarm_parent_stop_revision :: "string \<Rightarrow> task_db \<Rightarrow> (store_error + unit) \<times> task_db" where
  "bump_swarm_parent_stop_revision i d =
     (case get_task i d of
        None \<Rightarrow> (Inr (), d)
      | Some c \<Rightarrow>
          (case tk_parent_task_id c of
             None \<Rightarrow> (Inr (), d)
           | Some p \<Rightarrow>
               if is_swarm_child_role (tk_swarm_role c) \<and>
                  (case get_task p d of Some u \<Rightarrow> tk_swarm_role u = SwarmRoleParent | None \<Rightarrow> False)
               then if tk_swarm_config (the (get_task p d)) = Malformed then (Inl DbFailure, d)
                    else (Inr (), map_task p (\<lambda>u. u\<lparr>tk_swarm_config :=
                           JsonDoc ((case tk_swarm_config u of JsonDoc cfg \<Rightarrow> cfg | _ \<Rightarrow> empty_swarm_config)
                             \<lparr>sw_stop_revision := stop_revision (tk_swarm_config u) + 1\<rparr>)\<rparr>) d)
               else (Inr (), d)))"

definition prepare_swarm_parent_for_active_lane :: "lane_move option \<Rightarrow> string \<Rightarrow> task_db \<Rightarrow> (store_error + unit) \<times> task_db" where
  "prepare_swarm_parent_for_active_lane expected i d =
     (case expected of
        None \<Rightarrow> (Inl (ErrTaskChanged i), d)
      | Some m \<Rightarrow>
          and_then (txn (\<lambda>d.
             case get_task i d of
               None \<Rightarrow> (Inl (ErrTaskChanged i), d)
             | Some t \<Rightarrow>
                 if tk_category t \<noteq> lm_category m \<or> tk_status t \<noteq> lm_status m \<or> tk_swarm_role t \<noteq> SwarmRoleParent
                 then (Inl (ErrTaskChanged i), d)
                 else if chat_only (tk_project_id t) CategoryActive then (Inl ConstraintFailure, d)
                 else let n = active_tail (tk_project_id t) d
                      in (Inr (lane_row StatusBlocked n t), update_task_row i (lane_row StatusBlocked n) d)) d)
            (\<lambda>t d1. (Inr (), publish [board_event t] d1)))"

definition update_worktree_info :: "string \<Rightarrow> string \<Rightarrow> string \<Rightarrow> task_db \<Rightarrow> (store_error + unit) \<times> task_db" where
  "update_worktree_info i path branch =
     txn (\<lambda>d. (Inr (), map_task i (\<lambda>t. t\<lparr>tk_worktree_path := path, tk_worktree_branch := branch\<rparr>) d))"

definition update_merge_status :: "string \<Rightarrow> merge_status \<Rightarrow> task_db \<Rightarrow> (store_error + unit) \<times> task_db" where
  "update_merge_status i st = txn (\<lambda>d. (Inr (), map_task i (\<lambda>t. t\<lparr>tk_merge_status := st\<rparr>) d))"

text \<open>One task of a project may recover a merge conflict; clearing needs to be its owner.\<close>

definition set_conflict_owner :: "string \<Rightarrow> string \<Rightarrow> task_db \<Rightarrow> (store_error + unit) \<times> task_db" where
  "set_conflict_owner p i = txn (\<lambda>d. (Inr (), d\<lparr>db_conflict_owners := (db_conflict_owners d)(p \<mapsto> i)\<rparr>))"

definition conflict_owner :: "string \<Rightarrow> task_db \<Rightarrow> (store_error + string) \<times> task_db" where
  "conflict_owner p = query (\<lambda>d. case db_conflict_owners d p of None \<Rightarrow> '''' | Some i \<Rightarrow> i)"

definition clear_conflict_owner :: "string \<Rightarrow> task_db \<Rightarrow> (store_error + unit) \<times> task_db" where
  "clear_conflict_owner i = txn (\<lambda>d. (Inr (), d\<lparr>db_conflict_owners :=
     (\<lambda>p. if db_conflict_owners d p = Some i then None else db_conflict_owners d p)\<rparr>))"

subsection \<open>Creating and saving a task\<close>

definition create_task_body :: "task \<Rightarrow> task_db \<Rightarrow> (store_error + task) \<times> task_db" where
  "create_task_body t d =
     (case db_ids d of
        [] \<Rightarrow> (Inl DbFailure, d)
      | i # is \<Rightarrow>
          if \<exists>u \<in> set (db_tasks d). tk_project_id u = tk_project_id t \<and> tk_title u = tk_title t then (Inl ErrDuplicateTask, d)
          else if i \<in> tk_id ` set (db_tasks d) \<or> chat_only (tk_project_id t) (tk_category t) then (Inl ConstraintFailure, d)
          else let n = category_tail (tk_project_id t) (tk_category t) d;
                   t1 = t\<lparr>tk_id := i, tk_display_order := n, tk_swarm_config := default_json (tk_swarm_config t),
                          tk_created_at := db_now d, tk_updated_at := db_now d, tk_completed_at := None\<rparr>
               in (Inr (t1\<lparr>tk_swarm_config := tk_swarm_config t\<rparr>),
                   d\<lparr>db_tasks := db_tasks d @ [t1], db_ids := is,
                      db_authors := (case db_principal d of None \<Rightarrow> db_authors d | Some p \<Rightarrow> (db_authors d)(i \<mapsto> p))\<rparr>))"

definition create_task :: "task \<Rightarrow> task_db \<Rightarrow> (store_error + task) \<times> task_db" where
  "create_task t = txn (create_task_body t)"

definition saved_row :: "bool \<Rightarrow> task \<Rightarrow> task \<Rightarrow> task" where
  "saved_row title t u =
     u\<lparr>tk_title := (if title then tk_title t else tk_title u), tk_category := tk_category t, tk_priority := tk_priority t,
       tk_status := tk_status t, tk_prompt := tk_prompt t, tk_agent_id := tk_agent_id t,
       tk_agent_definition_id := tk_agent_definition_id t, tk_tag := tk_tag t, tk_display_order := tk_display_order t,
       tk_parent_task_id := tk_parent_task_id t, tk_chain_config := tk_chain_config t, tk_swarm_role := tk_swarm_role t,
       tk_swarm_status := tk_swarm_status t,
       tk_swarm_config := monotonic_parent_stop_revision (tk_swarm_role t) (tk_swarm_config u) (default_json (tk_swarm_config t)),
       tk_swarm_sequence := tk_swarm_sequence t, tk_auto_merge := tk_auto_merge t,
       tk_auto_merge_on_goal := tk_auto_merge_on_goal t, tk_merge_target_branch := tk_merge_target_branch t,
       tk_base_branch := tk_base_branch t, tk_base_commit_sha := tk_base_commit_sha t,
       tk_lineage_depth := tk_lineage_depth t\<rparr>"

definition update_task :: "bool \<Rightarrow> task \<Rightarrow> task_db \<Rightarrow> (store_error + unit) \<times> task_db" where
  "update_task title t =
     txn (\<lambda>d. case get_task (tk_id t) d of
        None \<Rightarrow> (Inr (), d)
      | Some u \<Rightarrow>
          if title \<and> (\<exists>v \<in> set (db_tasks d). tk_id v \<noteq> tk_id t \<and> tk_project_id v = tk_project_id u \<and> tk_title v = tk_title t)
          then (Inl ErrDuplicateTask, d)
          else if chat_only (tk_project_id u) (tk_category t) then (Inl ConstraintFailure, d)
          else if tk_swarm_role t = SwarmRoleParent \<and> (tk_swarm_config t = Malformed \<or> tk_swarm_config u = Malformed)
          then (Inl DbFailure, d)
          else (Inr (), update_task_row (tk_id t) (saved_row title t) d))"

subsection \<open>Recovery\<close>

definition update_rows :: "(task \<Rightarrow> bool) \<Rightarrow> (task \<Rightarrow> task) \<Rightarrow> task_db \<Rightarrow> task_db" where
  "update_rows P f d = fold (\<lambda>t. update_task_row (tk_id t) f) (filter P (db_tasks d)) d"

definition reset_orphaned_running :: "task_db \<Rightarrow> (store_error + nat) \<times> task_db" where
  "reset_orphaned_running =
     txn (\<lambda>d. let input = (\<lambda>t. tk_id t \<in> db_thread_inputs d);
                  orphan = (\<lambda>t. tk_status t = StatusRunning \<and>
                     \<not> (\<exists>e \<in> set (db_execs d). queued_ordinary (tk_id t) e) \<and>
                     \<not> (case db_reservations d (tk_id t) of None \<Rightarrow> False
                          | Some k \<Rightarrow> k \<in> db_live_dispatches d \<and>
                              (\<exists>e \<in> set (db_execs d). ex_task e = tk_id t \<and> ex_dispatch e = Some k \<and> ex_status e = ExecRunning)))
              in (Inr (length (filter orphan (db_tasks d))),
                  update_rows orphan (\<lambda>t. t\<lparr>tk_status := (if input t then StatusFailed else StatusPending),
                    tk_category := (if tk_category t \<noteq> CategoryChat \<and> input t then CategoryBacklog else tk_category t)\<rparr>) d))"

definition reclaim_stale_queued_task :: "string \<Rightarrow> instant \<Rightarrow> task_db \<Rightarrow> (store_error + bool) \<times> task_db" where
  "reclaim_stale_queued_task i cutoff =
     txn (\<lambda>d. case get_task i d of
        None \<Rightarrow> (Inr False, d)
      | Some t \<Rightarrow>
          if tk_category t = CategoryActive \<and> tk_status t = StatusQueued \<and> tk_updated_at t < cutoff \<and>
             db_reservations d i = None \<and> \<not> has_open_exec i d \<and> i \<notin> db_thread_inputs d
          then (Inr True, update_task_row i (\<lambda>t. t\<lparr>tk_status := StatusPending\<rparr>) d)
          else (Inr False, d))"

definition move_completed_active :: "string \<Rightarrow> task_db \<Rightarrow> (store_error + nat) \<times> task_db" where
  "move_completed_active project d =
     (let p = trim_space project;
          finished = (\<lambda>t. in_scope p t \<and> tk_category t = CategoryActive \<and> tk_status t = StatusCompleted)
      in if p = '''' then (Inl ProjectRequired, d)
         else txn (\<lambda>d. (Inr (length (filter finished (db_tasks d))),
                        update_rows finished (\<lambda>t. t\<lparr>tk_category := CategoryCompleted, tk_completed_at := Some (db_now d)\<rparr>) d)) d)"

end
