(* ===== verification/TaskLaws.thy ===== *)
theory TaskLaws
  imports TaskStore
begin

section \<open>Laws of the task repository\<close>

text \<open>
  What every operation of \<open>TaskStore\<close> keeps of the tables, the contracts of a claim as the locales
  \<open>guarded_claim\<close> and \<open>exclusive_claim\<close> with their interpretations, and the properties of the claims, of the active
  lane and of the swarm's stop revision.
\<close>

subsection \<open>Well-formed tables\<close>

definition db_inv :: "task_db \<Rightarrow> bool" where
  "db_inv d \<longleftrightarrow> distinct (map tk_id (db_tasks d)) \<and> distinct (map ex_id (db_execs d)) \<and>
     (\<forall>a \<in> set (db_admissions d). \<forall>e. ad_exec a = Some e \<longrightarrow>
        (\<exists>x \<in> set (db_execs d). ex_id x = e \<and> ex_status x = ExecQueued)) \<and>
     (\<forall>x \<in> set (db_execs d). \<forall>y \<in> set (db_execs d).
        ex_status x = ExecRunning \<and> ex_status y = ExecRunning \<and> ex_task x = ex_task y \<longrightarrow> ex_id x = ex_id y)"

lemma db_invE:
  assumes "db_inv d"
  obtains "distinct (map tk_id (db_tasks d))" "distinct (map ex_id (db_execs d))"
    "\<And>a e. a \<in> set (db_admissions d) \<Longrightarrow> ad_exec a = Some e \<Longrightarrow>
       \<exists>x \<in> set (db_execs d). ex_id x = e \<and> ex_status x = ExecQueued"
    "\<And>x y. x \<in> set (db_execs d) \<Longrightarrow> y \<in> set (db_execs d) \<Longrightarrow> ex_status x = ExecRunning \<Longrightarrow>
       ex_status y = ExecRunning \<Longrightarrow> ex_task x = ex_task y \<Longrightarrow> ex_id x = ex_id y"
  using assms unfolding db_inv_def by blast

lemma db_invI:
  assumes "distinct (map tk_id (db_tasks d))" "distinct (map ex_id (db_execs d))"
    "\<And>a e. a \<in> set (db_admissions d) \<Longrightarrow> ad_exec a = Some e \<Longrightarrow>
       \<exists>x \<in> set (db_execs d). ex_id x = e \<and> ex_status x = ExecQueued"
    "\<And>x y. x \<in> set (db_execs d) \<Longrightarrow> y \<in> set (db_execs d) \<Longrightarrow> ex_status x = ExecRunning \<Longrightarrow>
       ex_status y = ExecRunning \<Longrightarrow> ex_task x = ex_task y \<Longrightarrow> ex_id x = ex_id y"
  shows "db_inv d"
  using assms unfolding db_inv_def by blast

lemma db_inv_running:
  "db_inv d \<Longrightarrow> x \<in> set (db_execs d) \<Longrightarrow> y \<in> set (db_execs d) \<Longrightarrow> ex_status x = ExecRunning \<Longrightarrow>
   ex_status y = ExecRunning \<Longrightarrow> ex_task x = ex_task y \<Longrightarrow> ex_id x = ex_id y"
  unfolding db_inv_def by blast

lemma db_inv_cong:
  "db_inv d \<Longrightarrow> map tk_id (db_tasks d') = map tk_id (db_tasks d) \<Longrightarrow> db_execs d' = db_execs d \<Longrightarrow>
   set (db_admissions d') \<subseteq> set (db_admissions d) \<Longrightarrow> db_inv d'"
  unfolding db_inv_def by (simp only:) blast

text \<open>A change of executions that takes each of them out of the queue.\<close>

lemma set_execs_inv:
  assumes inv: "db_inv d" and ids: "\<And>e. ex_id (f e) = ex_id e" "\<And>e. ex_task (f e) = ex_task e"
    and out: "\<And>e. P e \<Longrightarrow> ex_status (f e) \<noteq> ExecQueued"
    and run: "\<And>x y. x \<in> set (db_execs d) \<Longrightarrow> y \<in> set (db_execs d) \<Longrightarrow> P x \<Longrightarrow> ex_status (f x) = ExecRunning \<Longrightarrow>
       ex_task y = ex_task x \<Longrightarrow> (if P y then ex_status (f y) else ex_status y) = ExecRunning \<Longrightarrow> ex_id y = ex_id x"
  shows "db_inv (set_execs P f d)"
proof -
  let ?g = "\<lambda>e. if P e then f e else e"
  have g: "ex_id (?g e) = ex_id e" "ex_task (?g e) = ex_task e" for e using ids by simp_all
  have m: "map ex_id (map ?g (db_execs d)) = map ex_id (db_execs d)" using g by simp
  show ?thesis
    unfolding db_inv_def
  proof (intro conjI ballI allI impI)
    show "distinct (map tk_id (db_tasks (set_execs P f d)))" using inv by (simp add: set_execs_def db_inv_def)
    show "distinct (map ex_id (db_execs (set_execs P f d)))"
      using inv m by (simp add: set_execs_def db_inv_def del: map_map)
  next
    fix a e assume a: "a \<in> set (db_admissions (set_execs P f d))" "ad_exec a = Some e"
    from a(1) have mem: "a \<in> set (db_admissions d)"
      and keep: "\<not> (\<exists>x \<in> set (db_execs d). P x \<and> ex_status (f x) \<noteq> ExecQueued \<and> ad_exec a = Some (ex_id x))"
      by (simp_all add: set_execs_def)
    from db_invE [OF inv] mem a(2) obtain x where x: "x \<in> set (db_execs d)" "ex_id x = e" "ex_status x = ExecQueued"
      by metis
    have "\<not> P x" using keep x a(2) out by blast
    then have "?g x = x" by simp
    with x have "x \<in> set (db_execs (set_execs P f d))" by (force simp: set_execs_def)
    with x show "\<exists>x \<in> set (db_execs (set_execs P f d)). ex_id x = e \<and> ex_status x = ExecQueued" by blast
  next
    fix x y assume "x \<in> set (db_execs (set_execs P f d))" "y \<in> set (db_execs (set_execs P f d))"
      and r: "ex_status x = ExecRunning \<and> ex_status y = ExecRunning \<and> ex_task x = ex_task y"
    then obtain u v where u: "u \<in> set (db_execs d)" "x = ?g u" and v: "v \<in> set (db_execs d)" "y = ?g v"
      by (auto simp: set_execs_def)
    have t: "ex_task u = ex_task v" using r u(2) v(2) g(2) by metis
    consider "P u" | "P v" | "\<not> P u" "\<not> P v" by blast
    then have "ex_id u = ex_id v"
    proof cases
      case 1
      from run [OF u(1) v(1) 1] r u(2) v(2) t 1 show ?thesis by (simp split: if_splits)
    next
      case 2
      from run [OF v(1) u(1) 2] r u(2) v(2) t 2 show ?thesis by (simp split: if_splits)
    next
      case 3
      then have "x = u" "y = v" using u(2) v(2) by simp_all
      with r t u(1) v(1) show ?thesis by (intro db_inv_running [OF inv]) simp_all
    qed
    then show "ex_id x = ex_id y" using u(2) v(2) g(1) by metis
  qed
qed

lemma cancel_exec_simps [simp]:
  "ex_id (cancel_exec now msg e) = ex_id e" "ex_task (cancel_exec now msg e) = ex_task e"
  "ex_status (cancel_exec now msg e) = ExecCancelled"
  by (simp_all add: cancel_exec_def)

lemma cancel_execs_inv: "db_inv d \<Longrightarrow> db_inv (set_execs P (cancel_exec now msg) d)"
  by (rule set_execs_inv) simp_all

lemma withdraw_admissions_inv: "db_inv d \<Longrightarrow> db_inv (withdraw_admissions P d)"
  unfolding withdraw_admissions_def Let_def
  by (rule cancel_execs_inv) (auto intro: db_inv_cong)

lemma task_withdrawn_inv: "db_inv d \<Longrightarrow> db_inv (task_withdrawn new d)"
  unfolding task_withdrawn_def Let_def
  by (auto intro!: withdraw_admissions_inv intro: db_inv_cong)

lemma map_task_ids:
  "(\<And>t. tk_id (f t) = tk_id t) \<Longrightarrow> map tk_id (db_tasks (map_task i f d)) = map tk_id (db_tasks d)"
  by (simp add: map_task_def)

lemma map_task_frame [simp]:
  "db_execs (map_task i f d) = db_execs d" "db_admissions (map_task i f d) = db_admissions d"
  "db_now (map_task i f d) = db_now d" "db_schedules (map_task i f d) = db_schedules d"
  by (simp_all add: map_task_def)

lemma find_map_task:
  "(\<And>t. tk_id (f t) = tk_id t) \<Longrightarrow>
   find (\<lambda>t. tk_id t = i) (map (\<lambda>t. if tk_id t = j then (f t)\<lparr>tk_updated_at := n\<rparr> else t) ts) =
   map_option (\<lambda>t. if i = j then (f t)\<lparr>tk_updated_at := n\<rparr> else t) (find (\<lambda>t. tk_id t = i) ts)"
  by (induction ts) auto

lemma get_map_task:
  "(\<And>t. tk_id (f t) = tk_id t) \<Longrightarrow> get_task i (map_task j f d) =
   map_option (\<lambda>t. if i = j then (f t)\<lparr>tk_updated_at := db_now d\<rparr> else t) (get_task i d)"
  unfolding get_task_def map_task_def by (simp add: find_map_task)

lemma map_task_inv:
  assumes "db_inv d" "\<And>t. tk_id (f t) = tk_id t"
  shows "db_inv (map_task i f d)"
proof (rule db_inv_cong [OF assms(1)])
  show "map tk_id (db_tasks (map_task i f d)) = map tk_id (db_tasks d)" using assms(2) by (rule map_task_ids)
  show "set (db_admissions (map_task i f d)) \<subseteq> set (db_admissions d)" unfolding map_task_frame by (rule subset_refl)
qed simp

lemma update_task_row_inv: "db_inv d \<Longrightarrow> (\<And>t. tk_id (f t) = tk_id t) \<Longrightarrow> db_inv (update_task_row i f d)"
  unfolding update_task_row_def Let_def
  by (auto simp: map_task_inv intro!: task_withdrawn_inv split: option.splits)

lemma update_rows_inv:
  assumes "db_inv d" "\<And>t. tk_id (f t) = tk_id t"
  shows "db_inv (update_rows P f d)"
proof -
  have "db_inv (fold (\<lambda>t. update_task_row (tk_id t) f) ts d)" if "db_inv d" for ts d
    using that assms(2) by (induction ts arbitrary: d) (simp_all add: update_task_row_inv)
  then show ?thesis using assms(1) by (simp add: update_rows_def)
qed

lemma publish_inv: "db_inv d \<Longrightarrow> db_inv (publish es d)"
  by (erule db_inv_cong) (simp_all add: publish_def)

lemma next_fault_inv: "db_inv d \<Longrightarrow> next_fault d = (b, d1) \<Longrightarrow> db_inv d1"
  by (erule db_inv_cong) (auto simp: next_fault_def split: list.splits)

text \<open>A transaction keeps what its body keeps when it succeeds.\<close>

lemma txn_inv:
  assumes "db_inv d" "\<And>d x d2. db_inv d \<Longrightarrow> body d = (Inr x, d2) \<Longrightarrow> db_inv d2"
  shows "db_inv (snd (txn body d))"
proof -
  obtain b d1 where n: "next_fault d = (b, d1)" by (rule prod.exhaust)
  then have d1: "db_inv d1" using assms(1) by (rule next_fault_inv [rotated])
  obtain r d2 where r: "body d1 = (r, d2)" by (rule prod.exhaust)
  show ?thesis
  proof (cases r)
    case (Inl e) with n r d1 show ?thesis by (cases b) (simp_all add: txn_def)
  next
    case (Inr x)
    with assms(2) [OF d1] r have "db_inv d2" by simp
    with n r d1 Inr show ?thesis by (cases b) (simp_all add: txn_def)
  qed
qed

lemma and_then_inv:
  assumes "db_inv (snd r)" "\<And>x d. r = (Inr x, d) \<Longrightarrow> db_inv d \<Longrightarrow> db_inv (snd (k x d))"
  shows "db_inv (snd (and_then r k))"
proof (cases r)
  case (Pair x d)
  then show ?thesis using assms by (cases x) (simp_all add: and_then_def)
qed

subsection \<open>Every operation keeps the tables well-formed\<close>

lemma cancel_reserved_inv: "db_inv d \<Longrightarrow> db_inv (cancel_reserved i d)"
  unfolding cancel_reserved_def by (rule cancel_execs_inv)

lemma cancel_queued_exec_inv: "db_inv d \<Longrightarrow> db_inv (cancel_queued_exec e msg d)"
  unfolding cancel_queued_exec_def by (rule cancel_execs_inv)

lemma run_row_simps [simp]:
  "tk_id (run_row d t) = tk_id t" "tk_status (run_row d t) = StatusRunning" "tk_category (run_row d t) = tk_category t"
  "tk_project_id (run_row d t) = tk_project_id t"
  by (simp_all add: run_row_def)

lemma lane_row_simps [simp]:
  "tk_id (lane_row st n t) = tk_id t" "tk_status (lane_row st n t) = st" "tk_category (lane_row st n t) = CategoryActive"
  "tk_project_id (lane_row st n t) = tk_project_id t" "tk_display_order (lane_row st n t) = n"
  by (simp_all add: lane_row_def)

lemma saved_row_id [simp]: "tk_id (saved_row title t u) = tk_id u"
  by (simp add: saved_row_def)

lemma paused_admission_inv:
  "db_inv d \<Longrightarrow> db_inv (keep_paused_admission i b d)" "db_inv d \<Longrightarrow> db_inv (drop_paused_admission i d)"
  by (erule db_inv_cong; simp add: keep_paused_admission_def drop_paused_admission_def)+

lemmas row_invs = update_task_row_inv map_task_inv update_rows_inv cancel_reserved_inv cancel_queued_exec_inv
  paused_admission_inv publish_inv

lemma query_inv: "db_inv d \<Longrightarrow> db_inv (snd (query f d))"
  unfolding query_def by (rule txn_inv) auto

lemma get_by_id_inv: "db_inv d \<Longrightarrow> db_inv (snd (get_by_id i d))"
  unfolding get_by_id_def by (rule query_inv)

lemma update_status_inv: "db_inv d \<Longrightarrow> db_inv (snd (update_status i st d))"
  unfolding update_status_def update_status_body_def Let_def
  by (intro and_then_inv txn_inv) (auto split: option.splits if_splits intro!: row_invs)

lemma update_category_inv: "db_inv d \<Longrightarrow> db_inv (snd (update_category i c d))"
  unfolding update_category_def update_category_body_def Let_def
  by (intro and_then_inv txn_inv) (auto split: option.splits if_splits intro!: row_invs)

lemma move_cancelled_to_backlog_inv: "db_inv d \<Longrightarrow> db_inv (snd (move_cancelled_to_backlog i d))"
  unfolding move_cancelled_to_backlog_def Let_def
  by (intro and_then_inv txn_inv) (auto split: option.splits if_splits prod.splits intro!: row_invs)

lemma restore_board_state_inv: "db_inv d \<Longrightarrow> db_inv (snd (restore_board_state t d))"
  unfolding restore_board_state_def
  by (intro and_then_inv txn_inv) (auto split: if_splits intro!: row_invs)

lemma finalize_execution_cancellation_inv: "db_inv d \<Longrightarrow> db_inv (snd (finalize_execution_cancellation i e d))"
  unfolding finalize_execution_cancellation_def Let_def
  by (intro and_then_inv txn_inv) (auto split: option.splits if_splits prod.splits intro!: row_invs)

lemma set_pending_inv: "db_inv d \<Longrightarrow> db_inv (snd (set_pending g i d))"
  unfolding set_pending_def
proof (intro and_then_inv get_by_id_inv)
  fix r d1 assume "db_inv d1"
  show "db_inv (snd (case r of None \<Rightarrow> (Inl (TaskNotFound i), d1) | Some t \<Rightarrow> and_then (txn (\<lambda>d.
      case get_task i d of None \<Rightarrow> (Inr False, d)
      | Some u \<Rightarrow> if tk_status u \<noteq> StatusRunning \<and> tk_status u \<noteq> StatusQueued \<and> g u d
          then (Inr True, update_task_row i (\<lambda>u. u\<lparr>tk_status := StatusPending,
            tk_display_order := (if tk_category u = CategoryActive \<and> tk_status u \<noteq> StatusPending
                                 then active_tail (tk_project_id u) d else tk_display_order u)\<rparr>) d)
          else (Inr False, d)) d1)
      (\<lambda>updated d2. (Inr updated, if updated \<and> tk_status t \<noteq> StatusPending
         then publish [status_event t (tk_status t) StatusPending (tk_category t)] d2 else d2))))"
  proof (cases r)
    case None with \<open>db_inv d1\<close> show ?thesis by simp
  next
    case (Some t)
    with \<open>db_inv d1\<close> show ?thesis
      unfolding Some option.case
      by (intro and_then_inv txn_inv) (auto split: option.splits if_splits intro!: row_invs)
  qed
qed

lemma claim_task_inv: "db_inv d \<Longrightarrow> db_inv (snd (claim_task i d))"
  unfolding claim_task_def claim_task_body_def
  by (intro and_then_inv txn_inv) (auto split: option.splits if_splits prod.splits intro!: row_invs)

lemma claim_task_for_dispatch_inv: "db_inv d \<Longrightarrow> db_inv (snd (claim_task_for_dispatch i d))"
  unfolding claim_task_for_dispatch_def claim_dispatch_body_def Let_def
  by (intro and_then_inv txn_inv) (auto split: option.splits if_splits prod.splits intro!: row_invs)

text \<open>The triggers of a task's update only ever cancel executions.\<close>

lemma set_cancel_execs:
  "x \<in> set (db_execs (set_execs P (cancel_exec now msg) d)) \<Longrightarrow>
   \<exists>y \<in> set (db_execs d). ex_id y = ex_id x \<and> ex_task y = ex_task x \<and> (ex_status x = ex_status y \<or> ex_status x = ExecCancelled)"
  by (auto simp: set_execs_def split: if_splits)

lemma update_task_row_execs:
  assumes "x \<in> set (db_execs (update_task_row i f d))"
  shows "\<exists>y \<in> set (db_execs d). ex_id y = ex_id x \<and> ex_task y = ex_task x \<and> (ex_status x = ex_status y \<or> ex_status x = ExecCancelled)"
proof (cases "get_task i (map_task i f d)")
  case None
  with assms show ?thesis by (auto simp: update_task_row_def Let_def)
next
  case (Some t)
  show ?thesis
  proof (cases "withdraws t")
    case False
    with assms Some show ?thesis by (auto simp: update_task_row_def Let_def task_withdrawn_def)
  next
    case True
    with assms Some show ?thesis
      by (auto simp: update_task_row_def Let_def task_withdrawn_def withdraw_admissions_def dest!: set_cancel_execs)
  qed
qed

lemma start_exec_simps [simp]:
  "ex_id (start_exec t now e) = ex_id e" "ex_task (start_exec t now e) = ex_task e"
  "ex_status (start_exec t now e) = ExecRunning"
  by (simp_all add: start_exec_def)

lemma start_reserved_inv:
  assumes "db_inv d" "\<And>x. x \<in> set (db_execs d) \<Longrightarrow> ex_task x = i \<Longrightarrow> ex_id x \<noteq> e \<Longrightarrow> ex_status x \<noteq> ExecRunning"
  shows "db_inv (set_execs (\<lambda>x. ex_id x = e \<and> ex_task x = i \<and> ex_status x = ExecQueued) (start_exec t now) d)"
proof (rule set_execs_inv [OF assms(1)])
  fix x y
  assume "y \<in> set (db_execs d)" "ex_id x = e \<and> ex_task x = i \<and> ex_status x = ExecQueued" "ex_task y = ex_task x"
    "(if ex_id y = e \<and> ex_task y = i \<and> ex_status y = ExecQueued then ex_status (start_exec t now y) else ex_status y) = ExecRunning"
  then show "ex_id y = ex_id x" using assms(2) [of y] by (auto split: if_splits)
qed simp_all

lemma claim_reserved_inv: "db_inv d \<Longrightarrow> db_inv (snd (claim_reserved_task_for_dispatch i e d))"
  unfolding claim_reserved_task_for_dispatch_def
proof (intro and_then_inv txn_inv, assumption)
  fix d :: task_db and x d2
  assume inv: "db_inv d" and r: "claim_reserved_body i e d = (Inr x, d2)"
  show "db_inv d2"
  proof (cases "get_task i d")
    case None with r show ?thesis by (simp add: claim_reserved_body_def)
  next
    case t: (Some t)
    show ?thesis
    proof (cases "\<not> reserved_valid i e t d \<or> \<not> reserved_exec i e d \<or> other_exec_active i e d")
      case True
      with r t inv show ?thesis by (auto simp: claim_reserved_body_def intro: row_invs split: if_splits)
    next
      case ok: False
      then have free: "ex_status y \<noteq> ExecRunning" if "y \<in> set (db_execs d)" "ex_task y = i" "ex_id y \<noteq> e" for y
        using that by (auto simp: other_exec_active_def)
      show ?thesis
      proof (cases "inactive_binding (db_automations d (tk_project_id t)) {} (ac_bindings (automation_context_of t d))")
        case None
        have upd: "ex_status y \<noteq> ExecRunning"
          if "y \<in> set (db_execs (update_task_row i f d))" "ex_task y = i" "ex_id y \<noteq> e" for y f
          using update_task_row_execs [OF that(1)] that(2,3) free by fastforce
        from None r t ok inv free upd show ?thesis
          by (auto simp: claim_reserved_body_def Let_def intro!: start_reserved_inv update_task_row_inv split: if_splits)
      next
        case (Some bl)
        obtain b l where "bl = (b, l)" by (cases bl)
        with Some r t ok inv show ?thesis
          by (auto simp: claim_reserved_body_def Let_def intro!: row_invs split: if_splits)
      qed
    qed
  qed
qed (auto intro: publish_inv split: prod.splits)

lemma create_execution_inv:
  assumes "db_inv d" "ex_status e \<noteq> ExecRunning" "create_execution e d = (Inr x, d2)"
  shows "db_inv d2"
proof -
  obtain i js where ids: "db_ids d = i # js" and new: "i \<notin> ex_id ` set (db_execs d)"
    using assms(3) by (auto simp: create_execution_def Let_def split: list.splits if_splits)
  define n where "n = (case map ex_history_order (db_execs d) of [] \<Rightarrow> 0 | k # ks \<Rightarrow> fold max ks k) + 1"
  define e1 where "e1 = e\<lparr>ex_id := i, ex_history_order := n, ex_started_at := db_now d\<rparr>"
  have d2: "d2 = d\<lparr>db_execs := db_execs d @ [e1], db_ids := js\<rparr>"
    using assms(3) ids new unfolding e1_def n_def by (auto simp: create_execution_def Let_def)
  have e1: "ex_id e1 = i" "ex_status e1 \<noteq> ExecRunning" using assms(2) by (simp_all add: e1_def)
  show ?thesis
  proof (rule db_invI)
    show "distinct (map tk_id (db_tasks d2))" using assms(1) by (simp add: d2 db_inv_def)
    show "distinct (map ex_id (db_execs d2))" using assms(1) e1(1) new by (simp add: d2 db_inv_def)
  next
    fix a f assume "a \<in> set (db_admissions d2)" "ad_exec a = Some f"
    then have "\<exists>x \<in> set (db_execs d). ex_id x = f \<and> ex_status x = ExecQueued"
      using assms(1) unfolding db_inv_def by (simp add: d2)
    then show "\<exists>x \<in> set (db_execs d2). ex_id x = f \<and> ex_status x = ExecQueued" by (auto simp: d2)
  next
    fix x y assume m: "x \<in> set (db_execs d2)" "y \<in> set (db_execs d2)"
      and r: "ex_status x = ExecRunning" "ex_status y = ExecRunning" "ex_task x = ex_task y"
    from m r(1,2) e1(2) have "x \<in> set (db_execs d)" "y \<in> set (db_execs d)" by (auto simp: d2)
    from db_inv_running [OF assms(1) this r] show "ex_id x = ex_id y" .
  qed
qed

lemma lane_execution_simps [simp]: "ex_status (lane_execution t) = ExecQueued" "ex_task (lane_execution t) = tk_id t"
  by (simp_all add: lane_execution_def)

lemma place_in_lane_inv: "db_inv d \<Longrightarrow> place_in_lane p st tail k ts d = (Inr as, d2) \<Longrightarrow> db_inv d2"
proof (induction ts arbitrary: k d as d2)
  case (Cons t ts)
  define n where "n = (if p = all_projects_id then active_tail (tk_project_id t) d else tail) + int k"
  define d1 where "d1 = update_task_row (tk_id t) (lane_row st n) d"
  have d1: "db_inv d1" unfolding d1_def using Cons.prems(1) by (rule update_task_row_inv) simp
  have nc: "\<not> chat_only (tk_project_id t) CategoryActive" using Cons.prems(2) by (auto simp: Let_def)
  show ?case
  proof (cases "st = StatusRunning")
    case False
    with Cons.prems(2) nc obtain bs where "place_in_lane p st tail (Suc k) ts d1 = (Inr bs, d2)"
      unfolding d1_def n_def by (auto simp: Let_def and_then_def split: prod.splits sum.splits)
    from Cons.IH [OF d1 this] show ?thesis .
  next
    case True
    obtain r d3 where c: "create_execution (lane_execution t) d1 = (r, d3)" by (rule prod.exhaust)
    with Cons.prems(2) nc True obtain e bs where e: "r = Inr e" "place_in_lane p st tail (Suc k) ts d3 = (Inr bs, d2)"
      unfolding d1_def n_def by (auto simp: Let_def and_then_def split: prod.splits sum.splits)
    from create_execution_inv [OF d1 _ c [unfolded e(1)]] have "db_inv d3" by simp
    from Cons.IH [OF this e(2)] show ?thesis .
  qed
qed simp

lemma move_tasks_to_active_lane_inv: "db_inv d \<Longrightarrow> db_inv (snd (move_tasks_to_active_lane p ms st d))"
  unfolding move_tasks_to_active_lane_def
  by (auto split: sum.splits intro!: and_then_inv txn_inv intro: place_in_lane_inv publish_inv)

lemma list_swarm_children_inv: "db_inv d \<Longrightarrow> db_inv (snd (list_swarm_children p d))"
  unfolding list_swarm_children_def by (rule query_inv)

lemma update_swarm_fields_inv: "db_inv d \<Longrightarrow> db_inv (snd (update_swarm_fields i role st c n d))"
  unfolding update_swarm_fields_def
  by (rule txn_inv) (auto split: option.splits if_splits intro!: row_invs)

lemma prepare_swarm_parent_inv: "db_inv d \<Longrightarrow> db_inv (snd (prepare_swarm_parent_for_active_lane m i d))"
  unfolding prepare_swarm_parent_for_active_lane_def Let_def
  by (cases m) (auto split: option.splits if_splits prod.splits intro!: and_then_inv txn_inv row_invs)

lemma small_updates_inv:
  "db_inv d \<Longrightarrow> db_inv (snd (update_worktree_info i path branch d))"
  "db_inv d \<Longrightarrow> db_inv (snd (update_merge_status i ms d))"
  "db_inv d \<Longrightarrow> db_inv (snd (set_conflict_owner p i d))"
  "db_inv d \<Longrightarrow> db_inv (snd (clear_conflict_owner i d))"
  unfolding update_worktree_info_def update_merge_status_def set_conflict_owner_def clear_conflict_owner_def
  by (rule txn_inv; auto intro!: row_invs intro: db_inv_cong)+

lemma create_task_body_inv:
  assumes inv: "db_inv d" and r: "create_task_body t d = (Inr x, d2)"
  shows "db_inv d2"
proof -
  from r obtain i js u A where u: "d2 = d\<lparr>db_tasks := db_tasks d @ [u], db_ids := js, db_authors := A\<rparr>" "tk_id u = i" "i \<notin> tk_id ` set (db_tasks d)"
    by (auto simp: create_task_body_def Let_def split: list.splits if_splits)
  have f: "db_execs d2 = db_execs d" "db_admissions d2 = db_admissions d" using u by simp_all
  show ?thesis
  proof (rule db_invI)
    show "distinct (map tk_id (db_tasks d2))" using inv u by (simp add: db_inv_def)
    show "distinct (map ex_id (db_execs d2))" using inv unfolding f by (simp add: db_inv_def)
  next
    fix a e assume "a \<in> set (db_admissions d2)" "ad_exec a = Some e"
    then show "\<exists>x \<in> set (db_execs d2). ex_id x = e \<and> ex_status x = ExecQueued"
      using inv unfolding f db_inv_def by blast
  qed (rule db_inv_running [OF inv], simp_all add: f)
qed

lemma create_task_inv: "db_inv d \<Longrightarrow> db_inv (snd (create_task t d))"
  unfolding create_task_def by (rule txn_inv) (simp_all add: create_task_body_inv)

lemma update_task_inv: "db_inv d \<Longrightarrow> db_inv (snd (update_task title t d))"
  unfolding update_task_def
  by (rule txn_inv) (auto split: option.splits if_splits intro!: row_invs)

lemma recovery_inv:
  "db_inv d \<Longrightarrow> db_inv (snd (reset_orphaned_running d))"
  "db_inv d \<Longrightarrow> db_inv (snd (reclaim_stale_queued_task i cutoff d))"
  "db_inv d \<Longrightarrow> db_inv (snd (move_completed_active project d))"
  unfolding reset_orphaned_running_def reclaim_stale_queued_task_def move_completed_active_def Let_def
  by (auto intro!: txn_inv row_invs split: option.splits if_splits)

inductive store_step :: "task_db \<Rightarrow> task_db \<Rightarrow> bool" where
  clock: "store_step d (d\<lparr>db_now := n\<rparr>)"
| caller: "store_step d (d\<lparr>db_principal := p\<rparr>)"
| status: "store_step d (snd (update_status i st d))"
| category: "store_step d (snd (update_category i c d))"
| cancelled_to_backlog: "store_step d (snd (move_cancelled_to_backlog i d))"
| restore: "store_step d (snd (restore_board_state t d))"
| cancellation: "store_step d (snd (finalize_execution_cancellation i e d))"
| pending: "store_step d (snd (set_pending g i d))"
| claim: "store_step d (snd (claim_task i d))"
| claim_dispatch: "store_step d (snd (claim_task_for_dispatch i d))"
| claim_reserved: "store_step d (snd (claim_reserved_task_for_dispatch i e d))"
| lane: "store_step d (snd (move_tasks_to_active_lane p ms st d))"
| swarm_parent: "store_step d (snd (prepare_swarm_parent_for_active_lane m i d))"
| swarm_fields: "store_step d (snd (update_swarm_fields i role s c n d))"
| worktree: "store_step d (snd (update_worktree_info i path branch d))"
| merge_status: "store_step d (snd (update_merge_status i mst d))"
| set_owner: "store_step d (snd (set_conflict_owner p i d))"
| clear_owner: "store_step d (snd (clear_conflict_owner i d))"
| create: "store_step d (snd (create_task t d))"
| save: "store_step d (snd (update_task title t d))"
| orphans: "store_step d (snd (reset_orphaned_running d))"
| reclaim: "store_step d (snd (reclaim_stale_queued_task i cutoff d))"
| completed: "store_step d (snd (move_completed_active p d))"

lemma store_step_inv: "store_step d d' \<Longrightarrow> db_inv d \<Longrightarrow> db_inv d'"
  by (induction rule: store_step.induct)
    (simp_all add: update_status_inv update_category_inv move_cancelled_to_backlog_inv restore_board_state_inv
      finalize_execution_cancellation_inv set_pending_inv claim_task_inv claim_task_for_dispatch_inv claim_reserved_inv
      move_tasks_to_active_lane_inv prepare_swarm_parent_inv update_swarm_fields_inv small_updates_inv create_task_inv
      update_task_inv recovery_inv db_inv_cong)

inductive store_reachable :: "task_db \<Rightarrow> bool" where
  empty_tables: "db_tasks d = [] \<Longrightarrow> db_execs d = [] \<Longrightarrow> db_admissions d = [] \<Longrightarrow> store_reachable d"
| store_step: "store_reachable d \<Longrightarrow> store_step d d' \<Longrightarrow> store_reachable d'"

lemma store_reachable_inv: "store_reachable d \<Longrightarrow> db_inv d"
proof (induction rule: store_reachable.induct)
  case (empty_tables d) then show ?case by (simp add: db_inv_def)
next
  case (store_step d d') then show ?case using store_step_inv by blast
qed

subsection \<open>A failed call changes nothing\<close>

definition same_tables :: "task_db \<Rightarrow> task_db \<Rightarrow> bool" where
  "same_tables d d' \<longleftrightarrow> (\<exists>fs. d' = d\<lparr>db_faults := fs\<rparr>)"

lemma same_tables_refl: "same_tables d d"
  unfolding same_tables_def by (rule exI [of _ "db_faults d"]) simp

lemma same_tables_trans: "same_tables d d1 \<Longrightarrow> same_tables d1 d2 \<Longrightarrow> same_tables d d2"
  unfolding same_tables_def by (elim exE, simp, blast)

lemma next_fault_tables: "next_fault d = (b, d1) \<Longrightarrow> same_tables d d1"
  using same_tables_refl [of d] by (auto simp: next_fault_def same_tables_def split: list.splits)

text \<open>The rollback of a transaction.\<close>

lemma txn_error: "txn body d = (Inl e, d') \<Longrightarrow> same_tables d d'"
proof -
  assume t: "txn body d = (Inl e, d')"
  obtain b d1 where n: "next_fault d = (b, d1)" by (rule prod.exhaust)
  from t n have "d' = d1" by (auto simp: txn_def split: bool.splits prod.splits sum.splits)
  with next_fault_tables [OF n] show ?thesis by simp
qed

lemma query_tables: "query f d = (r, d') \<Longrightarrow> same_tables d d'"
proof -
  assume q: "query f d = (r, d')"
  obtain b d1 where n: "next_fault d = (b, d1)" by (rule prod.exhaust)
  with q have "d' = d1" by (cases b) (auto simp: query_def txn_def)
  with next_fault_tables [OF n] show ?thesis by simp
qed

lemma and_then_error:
  assumes "and_then r k = (Inl e, d')" "\<And>e d1. r = (Inl e, d1) \<Longrightarrow> same_tables d d1"
    "\<And>x d1. r = (Inr x, d1) \<Longrightarrow> k x d1 = (Inl e, d') \<Longrightarrow> same_tables d d'"
  shows "same_tables d d'"
proof (cases r)
  case (Pair x d1)
  then show ?thesis using assms by (cases x) auto
qed

text \<open>The calls that change the tables, with the errors they report.\<close>

inductive store_failure :: "task_db \<Rightarrow> store_error \<Rightarrow> task_db \<Rightarrow> bool" where
  "update_status i st d = (Inl e, d') \<Longrightarrow> store_failure d e d'"
| "update_category i c d = (Inl e, d') \<Longrightarrow> store_failure d e d'"
| "move_cancelled_to_backlog i d = (Inl e, d') \<Longrightarrow> store_failure d e d'"
| "restore_board_state t d = (Inl e, d') \<Longrightarrow> store_failure d e d'"
| "finalize_execution_cancellation i x d = (Inl e, d') \<Longrightarrow> store_failure d e d'"
| "set_pending g i d = (Inl e, d') \<Longrightarrow> store_failure d e d'"
| "claim_task i d = (Inl e, d') \<Longrightarrow> store_failure d e d'"
| "claim_task_for_dispatch i d = (Inl e, d') \<Longrightarrow> store_failure d e d'"
| "claim_reserved_task_for_dispatch i x d = (Inl e, d') \<Longrightarrow> store_failure d e d'"
| "move_tasks_to_active_lane p ms st d = (Inl e, d') \<Longrightarrow> store_failure d e d'"
| "prepare_swarm_parent_for_active_lane m i d = (Inl e, d') \<Longrightarrow> store_failure d e d'"
| "update_swarm_fields i role s c n d = (Inl e, d') \<Longrightarrow> store_failure d e d'"
| "create_task t d = (Inl e, d') \<Longrightarrow> store_failure d e d'"
| "update_task title t d = (Inl e, d') \<Longrightarrow> store_failure d e d'"
| "reset_orphaned_running d = (Inl e, d') \<Longrightarrow> store_failure d e d'"
| "reclaim_stale_queued_task i cutoff d = (Inl e, d') \<Longrightarrow> store_failure d e d'"
| "move_completed_active p d = (Inl e, d') \<Longrightarrow> store_failure d e d'"

lemma single_call_error:
  "and_then (txn body d) (\<lambda>x d1. (Inr (f x), g x d1)) = (Inl e, d') \<Longrightarrow> same_tables d d'"
  by (erule and_then_error) (auto dest: txn_error)

lemma single_call_error_pair:
  "and_then (txn body d) (\<lambda>(x, y) d1. (Inr (f x y), g x y d1)) = (Inl e, d') \<Longrightarrow> same_tables d d'"
  by (erule and_then_error) (auto dest: txn_error)

lemma set_pending_error: "set_pending g i d = (Inl e, d') \<Longrightarrow> same_tables d d'"
  unfolding set_pending_def
proof (erule and_then_error)
  fix e d1 assume "get_by_id i d = (Inl e, d1)" then show "same_tables d d1"
    unfolding get_by_id_def by (rule query_tables)
next
  fix x d1
  assume g: "get_by_id i d = (Inr x, d1)"
    and k: "(case x of None \<Rightarrow> (Inl (TaskNotFound i), d1) | Some t \<Rightarrow> and_then (txn (\<lambda>d.
      case get_task i d of None \<Rightarrow> (Inr False, d)
      | Some u \<Rightarrow> if tk_status u \<noteq> StatusRunning \<and> tk_status u \<noteq> StatusQueued \<and> g u d
          then (Inr True, update_task_row i (\<lambda>u. u\<lparr>tk_status := StatusPending,
            tk_display_order := (if tk_category u = CategoryActive \<and> tk_status u \<noteq> StatusPending
                                 then active_tail (tk_project_id u) d else tk_display_order u)\<rparr>) d)
          else (Inr False, d)) d1)
      (\<lambda>updated d2. (Inr updated, if updated \<and> tk_status t \<noteq> StatusPending
         then publish [status_event t (tk_status t) StatusPending (tk_category t)] d2 else d2))) = (Inl e, d')"
  have "same_tables d d1" using g unfolding get_by_id_def by (rule query_tables)
  moreover have "same_tables d1 d'"
    using k by (cases x) (auto simp: same_tables_refl dest: single_call_error)
  ultimately show "same_tables d d'" by (rule same_tables_trans)
qed

text \<open>A small set of tables for the examples: an active task and a queued execution of another.\<close>

definition sample_db :: task_db where
  "sample_db =
     \<lparr>db_tasks = [sample_task ''a'' ''p'', (sample_task ''b'' ''p'')\<lparr>tk_display_order := 4, tk_category := CategoryBacklog\<rparr>],
      db_execs = [], db_admissions = [], db_schedules = [], db_reservations = Map.empty, db_live_dispatches = {},
      db_thread_inputs = {}, db_bindings = (\<lambda>i. []), db_automations = (\<lambda>p v. None), db_created_by = (\<lambda>i. {}),
      db_paused_admissions = Map.empty, db_conflict_owners = Map.empty, db_authors = Map.empty, db_principal = None,
      db_now = 7, db_ids = [''x'', ''y''],
      db_faults = [], db_events = []\<rparr>"

lemma sample_db_simps [simp]:
  "db_tasks sample_db = [sample_task ''a'' ''p'', (sample_task ''b'' ''p'')\<lparr>tk_display_order := 4, tk_category := CategoryBacklog\<rparr>]"
  "db_execs sample_db = []" "db_admissions sample_db = []" "db_faults sample_db = []" "db_schedules sample_db = []"
  "db_reservations sample_db = Map.empty" "db_thread_inputs sample_db = {}" "db_now sample_db = 7"
  by (simp_all add: sample_db_def)

lemma sample_db_inv: "db_inv sample_db"
  by (simp add: db_inv_def)

text \<open>
  C28: A call of the repository that reports an error has changed nothing: whichever statement of it
  fails, the tables and the published events are those before the call.
\<close>

theorem failed_call_changes_nothing:
  assumes "store_failure d e d'"
  shows "d' = d\<lparr>db_faults := db_faults d'\<rparr>"
proof -
  have "same_tables d d'"
    using assms
  proof (cases rule: store_failure.cases)
    case (10 p ms st)
    show ?thesis
    proof (cases "st \<noteq> StatusPending \<and> st \<noteq> StatusRunning")
      case True
      with 10 show ?thesis by (simp add: move_tasks_to_active_lane_def same_tables_refl)
    next
      case False
      then have eq: "move_tasks_to_active_lane p ms st d = and_then (txn (\<lambda>d. case lane_candidates p st {} ms d of
           Inl e \<Rightarrow> (Inl e, d) | Inr ts \<Rightarrow> place_in_lane p st (active_tail p d) 0 ts d) d)
         (\<lambda>as d1. (Inr as, publish (map (board_event \<circ> fst) as) d1))"
        unfolding move_tasks_to_active_lane_def by (simp only: if_False)
      show ?thesis using 10 unfolding eq by (rule single_call_error)
    qed
  next
    case (11 m i)
    then show ?thesis
      unfolding prepare_swarm_parent_for_active_lane_def
      by (cases m) (auto simp: same_tables_refl dest: single_call_error)
  qed (auto simp: update_status_def update_category_def move_cancelled_to_backlog_def restore_board_state_def
      finalize_execution_cancellation_def claim_task_def claim_task_for_dispatch_def
      claim_reserved_task_for_dispatch_def update_swarm_fields_def create_task_def update_task_def
      reset_orphaned_running_def reclaim_stale_queued_task_def move_completed_active_def Let_def same_tables_refl
      dest: set_pending_error single_call_error single_call_error_pair txn_error split: if_splits)
  then show ?thesis unfolding same_tables_def by (elim exE) simp
qed

lemma failed_call_changes_nothing_witness:
  "snd (update_status ''a'' StatusRunning (sample_db\<lparr>db_faults := [True]\<rparr>)) = sample_db"
proof -
  have f: "update_status ''a'' StatusRunning (sample_db\<lparr>db_faults := [True]\<rparr>) = (Inl DbFailure, sample_db)"
    by (simp add: update_status_def txn_def next_fault_def sample_db_def)
  from store_failure.intros(1) [OF f]
  have "store_failure (sample_db\<lparr>db_faults := [True]\<rparr>) DbFailure sample_db" .
  from failed_call_changes_nothing [OF this] f show ?thesis by simp
qed

subsection \<open>Claims exclude each other\<close>

text \<open>
  What a worker may rely on: a claim succeeds only while its target is available and ends that,
  and no claim makes a target available, as long as an invariant of the state holds, which every
  attempt keeps. Under this contract, of any attempts on a target, in any order and among others,
  at most one succeeds.
\<close>

fun race :: "('c \<Rightarrow> 's \<Rightarrow> bool \<times> 's) \<Rightarrow> 'c list \<Rightarrow> 's \<Rightarrow> (bool \<times> 'c) list \<times> 's" where
  "race attempt [] s = ([], s)"
| "race attempt (c # cs) s =
     (case attempt c s of (won, s1) \<Rightarrow> (case race attempt cs s1 of (ws, s2) \<Rightarrow> ((won, c) # ws, s2)))"

locale guarded_claim =
  fixes attempt :: "'c \<Rightarrow> 's \<Rightarrow> bool \<times> 's"
    and target :: "'c \<Rightarrow> 'i"
    and available :: "'i \<Rightarrow> 's \<Rightarrow> bool"
    and good :: "'s \<Rightarrow> bool"
  assumes taken: "good s \<Longrightarrow> attempt c s = (True, s') \<Longrightarrow> available (target c) s \<and> \<not> available (target c) s'"
    and never_frees: "good s \<Longrightarrow> attempt c s = (won, s') \<Longrightarrow> available i s' \<Longrightarrow> available i s"
    and stays_good: "good s \<Longrightarrow> attempt c s = (won, s') \<Longrightarrow> good s'"
begin

abbreviation wins :: "'i \<Rightarrow> (bool \<times> 'c) list \<Rightarrow> nat" where
  "wins i ws \<equiv> length (filter (\<lambda>(won, c). won \<and> target c = i) ws)"

lemma no_win_when_gone: "good s \<Longrightarrow> \<not> available i s \<Longrightarrow> wins i (fst (race attempt cs s)) = 0"
proof (induction cs arbitrary: s)
  case (Cons c cs)
  obtain won s1 where a: "attempt c s = (won, s1)" by (rule prod.exhaust)
  have "\<not> available i s1" using never_frees [OF _ a] Cons.prems by blast
  moreover have "\<not> (won \<and> target c = i)" using taken [of s c s1] a Cons.prems by auto
  ultimately show ?case using Cons.IH [OF stays_good [OF _ a]] Cons.prems(1) a by (auto split: prod.splits)
qed simp

lemma at_most_one: "good s \<Longrightarrow> wins i (fst (race attempt cs s)) \<le> 1"
proof (induction cs arbitrary: s)
  case (Cons c cs)
  obtain won s1 where a: "attempt c s = (won, s1)" by (rule prod.exhaust)
  obtain ws s2 where r: "race attempt cs s1 = (ws, s2)" by (rule prod.exhaust)
  have eq: "fst (race attempt (c # cs) s) = (won, c) # ws" by (simp add: a r)
  note good1 = stays_good [OF Cons.prems a]
  show ?case
  proof (cases "won \<and> target c = i")
    case True
    then have "\<not> available i s1" using taken [of s c s1] Cons.prems a by auto
    from no_win_when_gone [OF good1 this, of cs] True show ?thesis unfolding eq by (simp add: r)
  next
    case False
    with Cons.IH [OF good1] show ?thesis unfolding eq by (auto simp: r)
  qed
qed simp

end

text \<open>Most claims need no invariant of the state.\<close>

locale exclusive_claim =
  fixes attempt :: "'c \<Rightarrow> 's \<Rightarrow> bool \<times> 's"
    and target :: "'c \<Rightarrow> 'i"
    and available :: "'i \<Rightarrow> 's \<Rightarrow> bool"
  assumes takes: "attempt c s = (True, s') \<Longrightarrow> available (target c) s \<and> \<not> available (target c) s'"
    and frees_none: "attempt c s = (won, s') \<Longrightarrow> available i s' \<Longrightarrow> available i s"

sublocale exclusive_claim \<subseteq> always: guarded_claim attempt target available "\<lambda>_. True"
  by unfold_locales (auto dest: takes frees_none)

context exclusive_claim begin

lemma one_winner: "always.wins i (fst (race attempt cs s)) \<le> 1"
  by (rule always.at_most_one) simp

end

text \<open>A call that answers whether it won; a failed one did not.\<close>

definition won :: "(store_error + bool) \<times> task_db \<Rightarrow> bool \<times> task_db" where
  "won r = (case r of (Inr b, d) \<Rightarrow> (b, d) | (Inl e, d) \<Rightarrow> (False, d))"

lemma set_execs_tasks [simp]: "db_tasks (set_execs P f d) = db_tasks d"
  by (simp add: set_execs_def)

lemma withdraw_admissions_tasks [simp]: "db_tasks (withdraw_admissions P d) = db_tasks d"
  by (simp add: withdraw_admissions_def Let_def)

lemma publish_frame [simp]:
  "db_tasks (publish es d) = db_tasks d" "db_execs (publish es d) = db_execs d" "db_admissions (publish es d) = db_admissions d"
  by (simp_all add: publish_def)

lemma txn_cases:
  assumes "txn body d = (r, d')"
  obtains (failed) e where "r = Inl e" "same_tables d d'"
    | (ok) x d1 where "r = Inr x" "same_tables d d1" "body d1 = (Inr x, d')"
proof -
  obtain b d1 where n: "next_fault d = (b, d1)" by (rule prod.exhaust)
  note s = next_fault_tables [OF n]
  show ?thesis
  proof (cases r)
    case (Inl e) with txn_error [of body d e d'] assms show ?thesis by (intro failed) simp_all
  next
    case (Inr x)
    with assms n have "body d1 = (Inr x, d')" by (auto simp: txn_def split: bool.splits prod.splits sum.splits)
    with s Inr show ?thesis by (intro ok) simp_all
  qed
qed

subsection \<open>What the scheduler lists can be claimed\<close>

lemma get_task_mem: "distinct (map tk_id (db_tasks d)) \<Longrightarrow> t \<in> set (db_tasks d) \<Longrightarrow> get_task (tk_id t) d = Some t"
proof -
  have "distinct (map tk_id ts) \<Longrightarrow> t \<in> set ts \<Longrightarrow> find (\<lambda>u. tk_id u = tk_id t) ts = Some t" for ts
    by (induction ts) (auto simp: rev_image_eqI)
  then show "distinct (map tk_id (db_tasks d)) \<Longrightarrow> t \<in> set (db_tasks d) \<Longrightarrow> get_task (tk_id t) d = Some t"
    by (simp add: get_task_def)
qed

lemma txn_ok: "db_faults d = [] \<Longrightarrow> body d = (Inr x, d') \<Longrightarrow> txn body d = (Inr x, d')"
  by (simp add: txn_def next_fault_def)

lemma unowned_admissible: "admissible d t \<Longrightarrow> unowned (tk_id t) d"
  by (auto simp: admissible_def unowned_def has_open_exec_def has_running_exec_def)

lemma same_tables_admissible: "same_tables d d' \<Longrightarrow> admissible d' = admissible d"
  by (auto simp: same_tables_def admissible_def has_open_exec_def thread_input_owns_admission_def fun_eq_iff)

text \<open>
  The listing the scheduler admits tasks from and the guard of the claim agree: whatever
  \<open>ListActivePendingAdmissions\<close> returned, in its order by priority, board order and age, can be
  claimed in those tables when the database does not fail, and is running after that.
\<close>

theorem listed_task_claimable:
  assumes "db_inv d" "list_active_pending_admissions d = (Inr ts, d1)" "t \<in> set ts" "db_faults d1 = []"
  shows "\<exists>d2 u. claim_task (tk_id t) d1 = (Inr True, d2) \<and> get_task (tk_id t) d2 = Some u \<and> tk_status u = StatusRunning \<and>
    sorted (map (\<lambda>t. (- tk_priority t, tk_display_order t, tk_created_at t)) ts)"
proof -
  from assms(2) have "txn (\<lambda>d. (Inr (sort_key (\<lambda>t. (- tk_priority t, tk_display_order t, tk_created_at t))
      (filter (admissible d) (db_tasks d))), d)) d = (Inr ts, d1)"
    by (simp add: list_active_pending_admissions_def query_def)
  then obtain same: "same_tables d d1" and ts: "ts = sort_key (\<lambda>t. (- tk_priority t, tk_display_order t, tk_created_at t))
      (filter (admissible d1) (db_tasks d1))"
    by (cases rule: txn_cases) auto
  have t: "t \<in> set (db_tasks d1)" "admissible d1 t" using assms(3) by (auto simp: ts)
  have dist: "distinct (map tk_id (db_tasks d1))" using assms(1) same by (auto simp: db_inv_def same_tables_def)
  have g: "get_task (tk_id t) d1 = Some t" by (rule get_task_mem [OF dist t(1)])
  have pend: "tk_status t = StatusPending" "tk_category t = CategoryActive" using t(2) by (simp_all add: admissible_def)
  have body: "claim_task_body (tk_id t) d1 = (Inr (t, True), update_task_row (tk_id t) (run_row d1) d1)"
    using g pend unowned_admissible [OF t(2)] by (simp add: claim_task_body_def)
  define d2 where "d2 = update_task_row (tk_id t) (run_row d1) d1"
  have claim: "claim_task (tk_id t) d1 = (Inr True, publish [status_event t StatusPending StatusRunning (tk_category t)] d2)"
    unfolding claim_task_def d2_def using txn_ok [of d1 "claim_task_body (tk_id t)", OF assms(4) body] by simp
  have "get_task (tk_id t) (map_task (tk_id t) (run_row d1) d1) = Some ((run_row d1 t)\<lparr>tk_updated_at := db_now d1\<rparr>)"
    by (subst get_map_task) (simp_all add: g)
  moreover from this have "d2 = map_task (tk_id t) (run_row d1) d1"
    unfolding d2_def update_task_row_def Let_def using pend
    by (simp add: task_withdrawn_def withdraws_def is_terminal_status_def)
  ultimately have "get_task (tk_id t) (publish es d2) = Some ((run_row d1 t)\<lparr>tk_updated_at := db_now d1\<rparr>)" for es
    by (simp add: get_task_def)
  with claim ts show ?thesis by auto
qed

lemma listed_task_claimable_witness:
  "\<exists>d2 u. claim_task ''a'' sample_db = (Inr True, d2) \<and> get_task ''a'' d2 = Some u \<and> tk_status u = StatusRunning"
proof -
  have l: "list_active_pending_admissions sample_db = (Inr [sample_task ''a'' ''p''], sample_db)"
    by (simp add: list_active_pending_admissions_def query_def txn_def next_fault_def admissible_def
        has_open_exec_def thread_input_owns_admission_def)
  from listed_task_claimable [OF sample_db_inv l, of "sample_task ''a'' ''p''"] show ?thesis by auto
qed

subsection \<open>Well-formedness\<close>

text \<open>
  The tables stay well-formed under the calls of the task repository alone: starting from empty
  tables, whatever they are asked for and whichever transactions fail, ids are unique and no task has
  two running executions. None of these calls makes an admission, so the clause on admissions
  counts only together with the calendar, where it is part of the well-formedness of all tables
  (\<open>calendar_well_formed\<close>).
\<close>

theorem tables_well_formed:
  assumes "store_reachable d"
  shows "distinct (map tk_id (db_tasks d)) \<and> distinct (map ex_id (db_execs d)) \<and>
    (\<forall>a \<in> set (db_admissions d). \<forall>e. ad_exec a = Some e \<longrightarrow>
       (\<exists>x \<in> set (db_execs d). ex_id x = e \<and> ex_status x = ExecQueued)) \<and>
    (\<forall>x \<in> set (db_execs d). \<forall>y \<in> set (db_execs d).
       ex_status x = ExecRunning \<and> ex_status y = ExecRunning \<and> ex_task x = ex_task y \<longrightarrow> ex_id x = ex_id y)"
  using store_reachable_inv [OF assms] unfolding db_inv_def .

lemma tables_well_formed_witness:
  "let d = snd (create_task (sample_task ''a'' ''p'') (sample_db\<lparr>db_tasks := []\<rparr>))
   in distinct (map tk_id (db_tasks d)) \<and> length (db_tasks d) = 1"
proof -
  let ?d = "snd (create_task (sample_task ''a'' ''p'') (sample_db\<lparr>db_tasks := []\<rparr>))"
  have "store_reachable (sample_db\<lparr>db_tasks := []\<rparr>)" by (rule store_reachable.empty_tables) simp_all
  then have "store_reachable ?d" by (rule store_reachable.store_step) (rule store_step.create)
  from tables_well_formed [OF this] have "distinct (map tk_id (db_tasks ?d))" by blast
  moreover have "length (db_tasks ?d) = 1" by code_simp
  ultimately show ?thesis by simp
qed

end
