(* ===== verification/ActiveLane.thy ===== *)
theory ActiveLane
  imports TaskLaws "HOL-Library.Sublist"
begin

section \<open>The active lane and the stop revision\<close>

text \<open>
  What a board move of several tasks does, row by row (\<open>MoveTasksToActiveLane\<close>), and that no write
  of the repository takes back a stop revision of a swarm's parent (\<open>swarm_stop_revision.go\<close>).
\<close>

subsection \<open>Moves to the active lane\<close>

lemma update_lane_row:
  assumes "st = StatusPending \<or> st = StatusRunning"
  shows "update_task_row i (lane_row st n) d = map_task i (lane_row st n) d"
proof (cases "get_task i (map_task i (lane_row st n) d)")
  case None then show ?thesis by (simp add: update_task_row_def Let_def)
next
  case (Some t)
  then have "\<not> withdraws t"
    using assms by (auto simp: get_map_task withdraws_def is_terminal_status_def)
  with Some show ?thesis by (simp add: update_task_row_def Let_def task_withdrawn_def)
qed

lemma create_execution_tables:
  assumes "create_execution e d = (Inr x, d')"
  shows "db_tasks d' = db_tasks d" "db_execs d' = db_execs d @ [x]" "ex_task x = ex_task e" "ex_status x = ex_status e"
    "db_now d' = db_now d"
  using assms by (auto simp: create_execution_def Let_def split: list.splits if_splits)

text \<open>The row of a moved task, and what placing the candidates does.\<close>

definition placed :: "task_status \<Rightarrow> int \<Rightarrow> instant \<Rightarrow> task \<Rightarrow> task" where
  "placed st n now t = (lane_row st n t)\<lparr>tk_updated_at := now\<rparr>"

lemma placed_simps [simp]:
  "tk_id (placed st n now t) = tk_id t" "tk_status (placed st n now t) = st"
  "tk_category (placed st n now t) = CategoryActive" "tk_display_order (placed st n now t) = n"
  by (simp_all add: placed_def)

lemma place_in_lane_spec:
  assumes "place_in_lane p st tail k ts d = (Inr as, d')" "p \<noteq> all_projects_id"
    "st = StatusPending \<or> st = StatusRunning" "distinct (map tk_id ts)"
  shows "length as = length ts \<and> db_now d' = db_now d \<and>
    (\<forall>j < length ts. fst (as ! j) = lane_row st (tail + int (k + j)) (ts ! j)) \<and>
    (\<forall>j < length ts. get_task (tk_id (ts ! j)) d' =
       map_option (placed st (tail + int (k + j)) (db_now d)) (get_task (tk_id (ts ! j)) d)) \<and>
    (\<forall>i. i \<notin> tk_id ` set ts \<longrightarrow> get_task i d' = get_task i d) \<and>
    (\<exists>es. db_execs d' = db_execs d @ es \<and>
       (if st = StatusRunning
        then map ex_task es = map tk_id ts \<and> map ex_id es = map snd as \<and> (\<forall>e \<in> set es. ex_status e = ExecQueued)
        else es = []))"
  using assms(1,4)
proof (induction ts arbitrary: k d as)
  case Nil then show ?case by auto
next
  case (Cons t ts)
  define n where "n = tail + int k"
  define d1 where "d1 = map_task (tk_id t) (lane_row st n) d"
  have upd: "update_task_row (tk_id t) (lane_row st n) d = d1"
    unfolding d1_def using assms(3) by (rule update_lane_row)
  have nc: "\<not> chat_only (tk_project_id t) CategoryActive" using Cons.prems(1) by (auto simp: Let_def)
  have g1: "get_task i d1 = map_option (\<lambda>u. if i = tk_id t then placed st n (db_now d) u else u) (get_task i d)" for i
    unfolding d1_def placed_def by (rule get_map_task) simp
  obtain e d2 bs where e: "place_in_lane p st tail (Suc k) ts d2 = (Inr bs, d')" "as = (lane_row st n t, e) # bs"
    "db_tasks d2 = db_tasks d1" "db_now d2 = db_now d"
    "\<exists>es. db_execs d2 = db_execs d @ es \<and> (if st = StatusRunning then map ex_task es = [tk_id t] \<and> map ex_id es = [e] \<and>
       (\<forall>x \<in> set es. ex_status x = ExecQueued) else es = [])"
  proof (cases "st = StatusRunning")
    case False
    with Cons.prems(1) nc assms(2) upd obtain bs where
      "place_in_lane p st tail (Suc k) ts d1 = (Inr bs, d')" "as = (lane_row st n t, '''') # bs"
      unfolding n_def by (auto simp: Let_def and_then_def split: prod.splits sum.splits)
    with False that [of d1 bs "''''"] show ?thesis by (simp add: d1_def)
  next
    case True
    obtain r d2 where c: "create_execution (lane_execution t) d1 = (r, d2)" by (rule prod.exhaust)
    with Cons.prems(1) nc assms(2) True upd obtain x bs where x: "r = Inr x"
      "place_in_lane p st tail (Suc k) ts d2 = (Inr bs, d')" "as = (lane_row st n t, ex_id x) # bs"
      unfolding n_def by (auto simp: Let_def and_then_def split: prod.splits sum.splits)
    note ct = create_execution_tables [OF c [unfolded x(1)]]
    show ?thesis
      by (rule that [OF x(2,3)]) (use ct True in \<open>simp_all add: d1_def\<close>)
  qed
  have dist: "distinct (map tk_id ts)" "tk_id t \<notin> tk_id ` set ts" using Cons.prems(2) by auto
  note ih = Cons.IH [OF e(1) dist(1)]
  have g2: "get_task i d2 = get_task i d1" for i using e(3) by (simp add: get_task_def)
  show ?case
  proof (intro conjI allI impI)
    show "length as = length (t # ts)" using ih e(2) by simp
    show "db_now d' = db_now d" using ih e(4) by simp
  next
    fix j assume j: "j < length (t # ts)"
    show "fst (as ! j) = lane_row st (tail + int (k + j)) ((t # ts) ! j)"
      using ih j e(2) by (cases j) (simp_all add: n_def)
    show "get_task (tk_id ((t # ts) ! j)) d' =
        map_option (placed st (tail + int (k + j)) (db_now d)) (get_task (tk_id ((t # ts) ! j)) d)"
    proof (cases j)
      case 0
      with ih dist(2) g1 g2 show ?thesis by (simp add: n_def)
    next
      case (Suc m)
      with j have m: "m < length ts" by simp
      then have "tk_id (ts ! m) \<noteq> tk_id t" using dist(2) by (metis imageI nth_mem)
      with ih m Suc g1 g2 e(4) show ?thesis by (simp add: option.map_ident)
    qed
  next
    fix i assume "i \<notin> tk_id ` set (t # ts)"
    with ih g1 g2 show "get_task i d' = get_task i d" by (simp add: option.map_ident)
  next
    from e(5) obtain es1 where es1: "db_execs d2 = db_execs d @ es1" "if st = StatusRunning then map ex_task es1 = [tk_id t] \<and>
       map ex_id es1 = [e] \<and> (\<forall>x \<in> set es1. ex_status x = ExecQueued) else es1 = []" by blast
    from ih obtain es2 where es2: "db_execs d' = db_execs d2 @ es2" "if st = StatusRunning then map ex_task es2 = map tk_id ts \<and>
       map ex_id es2 = map snd bs \<and> (\<forall>e \<in> set es2. ex_status e = ExecQueued) else es2 = []" by blast
    show "\<exists>es. db_execs d' = db_execs d @ es \<and>
       (if st = StatusRunning then map ex_task es = map tk_id (t # ts) \<and> map ex_id es = map snd as \<and>
          (\<forall>e \<in> set es. ex_status e = ExecQueued) else es = [])"
      by (rule exI [of _ "es1 @ es2"]) (use es1 es2 e(2) in \<open>auto split: if_splits\<close>)
  qed
qed

text \<open>The candidates are the tasks of the moves that are not in place already, in their order.\<close>

lemma lane_candidates_ok:
  assumes "lane_candidates p st seen ms d = Inr ts"
  shows "distinct (map lm_id ms) \<and> seen \<inter> lm_id ` set ms = {} \<and> subseq (map tk_id ts) (map lm_id ms) \<and>
    (\<forall>t \<in> set ts. t \<in> set (db_tasks d) \<and> in_scope p t \<and> tk_swarm_role t \<noteq> SwarmRoleParent \<and>
       \<not> lifecycle_owned (tk_id t) d \<and> tk_status t \<noteq> StatusQueued \<and> tk_status t \<noteq> StatusRunning)"
  using assms
proof (induction ms arbitrary: seen ts)
  case (Cons m ms)
  from Cons.prems obtain t where t: "lm_id m \<notin> seen" "find (\<lambda>t. tk_id t = lm_id m \<and> in_scope p t) (db_tasks d) = Some t"
    by (auto split: if_splits option.splits)
  note f = find_Some_in [OF t(2)]
  obtain us where us: "lane_candidates p st (insert (lm_id m) seen) ms d = Inr us"
    using Cons.prems t by (auto split: if_splits sum.splits)
  note ih = Cons.IH [OF us]
  from Cons.prems t us have "ts = us \<or> (ts = t # us \<and> tk_swarm_role t \<noteq> SwarmRoleParent \<and> \<not> lifecycle_owned (tk_id t) d \<and>
      tk_status t \<noteq> StatusQueued \<and> tk_status t \<noteq> StatusRunning)"
    by (auto split: if_splits)
  with ih f t(1) show ?case by auto
qed simp

text \<open>
  C29: A board move is all or nothing and keeps the board's order. When \<open>MoveTasksToActiveLane\<close> moves
  tasks of one project, the moved ones are a subsequence of those asked for, without repetition;
  the $j$-th is active, in the wanted status, $j$ places behind everything that was on the active
  board before, and no other task's row changed; a move to running has made exactly one queued
  execution for each of them, the one it returned, and a move to pending none.
\<close>

theorem lane_move_in_order:
  assumes "move_tasks_to_active_lane p ms st d = (Inr as, d')" "p \<noteq> all_projects_id" "db_inv d"
  shows "subseq (map (tk_id \<circ> fst) as) (map lm_id ms) \<and> distinct (map (tk_id \<circ> fst) as) \<and>
    (\<exists>tail. (\<forall>u \<in> set (db_tasks d). on_active_board p u \<longrightarrow> tk_display_order u < tail) \<and>
       (\<forall>j < length as. \<exists>u. get_task (tk_id (fst (as ! j))) d' = Some u \<and> tk_category u = CategoryActive \<and>
          tk_status u = st \<and> tk_display_order u = tail + int j)) \<and>
    (\<forall>i. i \<notin> (tk_id \<circ> fst) ` set as \<longrightarrow> get_task i d' = get_task i d) \<and>
    (\<exists>es. db_execs d' = db_execs d @ es \<and> (\<forall>e \<in> set es. ex_status e = ExecQueued) \<and>
       (if st = StatusRunning then map (\<lambda>e. (ex_task e, ex_id e)) es = map (\<lambda>(t, e). (tk_id t, e)) as else es = []))"
proof -
  have st: "st = StatusPending \<or> st = StatusRunning"
    using assms(1) by (auto simp: move_tasks_to_active_lane_def split: if_splits)
  define body where "body = (\<lambda>d. case lane_candidates p st {} ms d of
      Inl e \<Rightarrow> (Inl e, d) | Inr ts \<Rightarrow> place_in_lane p st (active_tail p d) 0 ts d)"
  obtain r d3 where t: "txn body d = (r, d3)" by (rule prod.exhaust)
  have m: "and_then (r, d3) (\<lambda>as d1. (Inr as, publish (map (board_event \<circ> fst) as) d1)) = (Inr as, d')"
    using assms(1) st t unfolding move_tasks_to_active_lane_def body_def by (auto split: if_splits)
  from t obtain d1 where r: "r = Inr as" "same_tables d d1" "body d1 = (Inr as, d3)"
    using m by (cases rule: txn_cases) auto
  have d': "d' = publish (map (board_event \<circ> fst) as) d3" using m r(1) by simp
  obtain ts where c: "lane_candidates p st {} ms d1 = Inr ts" "place_in_lane p st (active_tail p d1) 0 ts d1 = (Inr as, d3)"
    using r(3) by (auto simp: body_def split: sum.splits)
  note ok = lane_candidates_ok [OF c(1)]
  from ok have dist: "distinct (map tk_id ts)" by (auto simp: subseq_conv_nths distinct_nthsI)
  note spec = place_in_lane_spec [OF c(2) assms(2) st dist]
  from spec have len: "length as = length ts"
    and fst_as: "\<And>j. j < length ts \<Longrightarrow> fst (as ! j) = lane_row st (active_tail p d1 + int j) (ts ! j)"
    and row: "\<And>j. j < length ts \<Longrightarrow> get_task (tk_id (ts ! j)) d3 =
      map_option (placed st (active_tail p d1 + int j) (db_now d1)) (get_task (tk_id (ts ! j)) d1)"
    and oth: "\<And>i. i \<notin> tk_id ` set ts \<Longrightarrow> get_task i d3 = get_task i d1" by simp_all
  have ids: "map (tk_id \<circ> fst) as = map tk_id ts"
    by (rule nth_equalityI) (simp_all add: len fst_as)
  have same: "db_tasks d1 = db_tasks d" "db_execs d1 = db_execs d" using r(2) by (auto simp: same_tables_def)
  have tasks_d: "distinct (map tk_id (db_tasks d1))" using assms(3) same by (simp add: db_inv_def)
  have g: "get_task i d' = get_task i d3" "get_task i d1 = get_task i d" for i by (simp_all add: get_task_def d' same)
  have rows: "\<exists>u. get_task (tk_id (fst (as ! j))) d' = Some u \<and> tk_category u = CategoryActive \<and>
      tk_status u = st \<and> tk_display_order u = active_tail p d1 + int j" if "j < length as" for j
  proof -
    from that have j: "j < length ts" using len by simp
    have "ts ! j \<in> set (db_tasks d1)" using ok j by (meson nth_mem)
    from row [OF j] get_task_mem [OF tasks_d this] show ?thesis by (simp add: g(1) fst_as [OF j])
  qed
  have above: "\<forall>u \<in> set (db_tasks d). on_active_board p u \<longrightarrow> tk_display_order u < active_tail p d1"
    using next_order_above [of _ d1] by (simp add: active_tail_def same(1))
  obtain es where es: "db_execs d3 = db_execs d1 @ es" "if st = StatusRunning then map ex_task es = map tk_id ts \<and>
      map ex_id es = map snd as \<and> (\<forall>e \<in> set es. ex_status e = ExecQueued) else es = []"
    using spec by blast
  have pairs: "map (\<lambda>e. (ex_task e, ex_id e)) es = map (\<lambda>(t, e). (tk_id t, e)) as" if "st = StatusRunning"
  proof (rule nth_equalityI)
    have l: "length es = length as" using es(2) that len by (metis length_map)
    then show "length (map (\<lambda>e. (ex_task e, ex_id e)) es) = length (map (\<lambda>(t, e). (tk_id t, e)) as)" by simp
    fix j assume "j < length (map (\<lambda>e. (ex_task e, ex_id e)) es)"
    then have j: "j < length es" "j < length as" "j < length ts" using l len by simp_all
    from es(2) that have "map ex_task es = map tk_id ts" "map ex_id es = map snd as" by simp_all
    then have "ex_task (es ! j) = tk_id (ts ! j)" "ex_id (es ! j) = snd (as ! j)"
      using j by (metis nth_map)+
    then show "map (\<lambda>e. (ex_task e, ex_id e)) es ! j = map (\<lambda>(t, e). (tk_id t, e)) as ! j"
      using j fst_as [OF j(3)] by (simp add: case_prod_beta)
  qed
  have others: "\<forall>i. i \<notin> (tk_id \<circ> fst) ` set as \<longrightarrow> get_task i d' = get_task i d"
    using oth g arg_cong [OF ids, of set] by simp
  have execs: "\<exists>es. db_execs d' = db_execs d @ es \<and> (\<forall>e \<in> set es. ex_status e = ExecQueued) \<and>
     (if st = StatusRunning then map (\<lambda>e. (ex_task e, ex_id e)) es = map (\<lambda>(t, e). (tk_id t, e)) as else es = [])"
    by (rule exI [of _ es]) (use es pairs same in \<open>auto simp: d' split: if_splits\<close>)
  from rows above others execs ok dist show ?thesis unfolding ids by blast
qed

lemma lane_move_in_order_witness:
  "\<exists>as d'. move_tasks_to_active_lane ''p'' [\<lparr>lm_id = ''b'', lm_category = CategoryBacklog, lm_status = StatusPending\<rparr>]
     StatusRunning sample_db = (Inr as, d') \<and>
   (\<forall>i. i \<notin> (tk_id \<circ> fst) ` set as \<longrightarrow> get_task i d' = get_task i sample_db)"
proof -
  let ?ms = "[\<lparr>lm_id = ''b'', lm_category = CategoryBacklog, lm_status = StatusPending\<rparr>]"
  obtain r d' where m: "move_tasks_to_active_lane ''p'' ?ms StatusRunning sample_db = (r, d')" by (rule prod.exhaust)
  have "\<not> isl (fst (move_tasks_to_active_lane ''p'' ?ms StatusRunning sample_db))" by code_simp
  then obtain as where "r = Inr as" using m by (cases r) auto
  with m have m2: "move_tasks_to_active_lane ''p'' ?ms StatusRunning sample_db = (Inr as, d')" by simp
  have "''p'' \<noteq> all_projects_id" by (simp add: all_projects_id_def)
  from lane_move_in_order [OF m2 this sample_db_inv] m2 show ?thesis by blast
qed

subsection \<open>The stop revision\<close>

text \<open>Most statements leave the roles and the configurations of swarms alone.\<close>

definition swarm_rows :: "task_db \<Rightarrow> (string \<times> swarm_role \<times> swarm_text) list" where
  "swarm_rows d = map (\<lambda>t. (tk_id t, tk_swarm_role t, tk_swarm_config t)) (db_tasks d)"

lemma swarm_rows_map_task [simp]:
  assumes "\<And>t. tk_id (f t) = tk_id t" "\<And>t. tk_swarm_role (f t) = tk_swarm_role t" "\<And>t. tk_swarm_config (f t) = tk_swarm_config t"
  shows "swarm_rows (map_task i f d) = swarm_rows d"
  using assms by (auto simp: swarm_rows_def map_task_def)

lemma swarm_rows_withdrawn [simp]: "swarm_rows (task_withdrawn new d) = swarm_rows d"
  by (auto simp: task_withdrawn_def swarm_rows_def Let_def)

lemma swarm_rows_update [simp]:
  "swarm_rows (update_task_row i f d) = swarm_rows (map_task i f d)"
  by (simp add: update_task_row_def Let_def split: option.split)

lemma swarm_rows_frame [simp]:
  "swarm_rows (set_execs P g d) = swarm_rows d" "swarm_rows (cancel_reserved i d) = swarm_rows d"
  "swarm_rows (cancel_queued_exec e msg d) = swarm_rows d" "swarm_rows (keep_paused_admission i b d) = swarm_rows d"
  "swarm_rows (drop_paused_admission i d) = swarm_rows d" "swarm_rows (publish es d) = swarm_rows d"
  by (simp_all add: swarm_rows_def cancel_reserved_def cancel_queued_exec_def keep_paused_admission_def drop_paused_admission_def)

lemma swarm_rows_update_rows [simp]:
  assumes "\<And>t. tk_id (f t) = tk_id t" "\<And>t. tk_swarm_role (f t) = tk_swarm_role t" "\<And>t. tk_swarm_config (f t) = tk_swarm_config t"
  shows "swarm_rows (update_rows P f d) = swarm_rows d"
proof -
  have "swarm_rows (fold (\<lambda>t. update_task_row (tk_id t) f) ts x) = swarm_rows x" for ts x
    by (induction ts arbitrary: x) (simp_all add: assms)
  then show ?thesis by (simp add: update_rows_def)
qed

lemma swarm_rows_txn:
  assumes "\<And>d x d2. body d = (Inr x, d2) \<Longrightarrow> swarm_rows d2 = swarm_rows d" shows "swarm_rows (snd (txn body d)) = swarm_rows d"
proof -
  obtain r d' where t: "txn body d = (r, d')" by (rule prod.exhaust)
  have same: "swarm_rows d1 = swarm_rows d" if "same_tables d d1" for d1
    using that by (auto simp: same_tables_def swarm_rows_def)
  from t show ?thesis by (cases rule: txn_cases) (use assms same t in auto)
qed

lemma swarm_rows_and_then:
  assumes "swarm_rows (snd m) = swarm_rows d" "\<And>x d1. m = (Inr x, d1) \<Longrightarrow> swarm_rows (snd (k x d1)) = swarm_rows d1"
  shows "swarm_rows (snd (and_then m k)) = swarm_rows d"
proof (cases m)
  case (Pair x d1)
  with assms show ?thesis by (cases x) (auto simp: and_then_def)
qed

lemma swarm_rows_query: "swarm_rows (snd (query f d)) = swarm_rows d"
  unfolding query_def by (rule swarm_rows_txn) simp

lemma swarm_rows_task_calls:
  "swarm_rows (snd (update_status i st d)) = swarm_rows d" "swarm_rows (snd (update_category i c d)) = swarm_rows d"
  "swarm_rows (snd (move_cancelled_to_backlog i d)) = swarm_rows d" "swarm_rows (snd (restore_board_state t d)) = swarm_rows d"
  "swarm_rows (snd (finalize_execution_cancellation i e d)) = swarm_rows d"
  "swarm_rows (snd (claim_task i d)) = swarm_rows d" "swarm_rows (snd (claim_task_for_dispatch i d)) = swarm_rows d"
  "swarm_rows (snd (claim_reserved_task_for_dispatch i e d)) = swarm_rows d"
  unfolding update_status_def update_status_body_def update_category_def update_category_body_def move_cancelled_to_backlog_def
    restore_board_state_def finalize_execution_cancellation_def claim_task_def claim_task_body_def claim_task_for_dispatch_def
    claim_dispatch_body_def claim_reserved_task_for_dispatch_def claim_reserved_body_def Let_def
  by (intro swarm_rows_and_then swarm_rows_txn; auto simp: run_row_def split: option.splits if_splits prod.splits)+

lemma swarm_rows_set_pending: "swarm_rows (snd (set_pending g i d)) = swarm_rows d"
  unfolding set_pending_def get_by_id_def
  by (intro swarm_rows_and_then swarm_rows_query)
    (auto split: option.split intro!: swarm_rows_and_then swarm_rows_txn split: if_splits option.splits)

lemma swarm_rows_place: "place_in_lane p st tail k ts d = (Inr as, d2) \<Longrightarrow> swarm_rows d2 = swarm_rows d"
proof (induction ts arbitrary: k d as d2)
  case (Cons t ts)
  define n where "n = (if p = all_projects_id then active_tail (tk_project_id t) d else tail) + int k"
  define d1 where "d1 = update_task_row (tk_id t) (lane_row st n) d"
  have d1: "swarm_rows d1 = swarm_rows d" by (simp add: d1_def lane_row_def)
  have nc: "\<not> chat_only (tk_project_id t) CategoryActive" using Cons.prems by (auto simp: Let_def)
  show ?case
  proof (cases "st = StatusRunning")
    case False
    with Cons.prems nc obtain bs where "place_in_lane p st tail (Suc k) ts d1 = (Inr bs, d2)"
      unfolding d1_def n_def by (auto simp: Let_def and_then_def split: prod.splits sum.splits)
    from Cons.IH [OF this] d1 show ?thesis by simp
  next
    case True
    obtain r d3 where c: "create_execution (lane_execution t) d1 = (r, d3)" by (rule prod.exhaust)
    with Cons.prems nc True obtain bs e where e: "place_in_lane p st tail (Suc k) ts d3 = (Inr bs, d2)" "r = Inr e"
      unfolding d1_def n_def by (auto simp: Let_def and_then_def split: prod.splits sum.splits)
    from create_execution_tables(1) [of _ d1 e d3] c e(2) have "swarm_rows d3 = swarm_rows d1" by (simp add: swarm_rows_def)
    with Cons.IH [OF e(1)] d1 show ?thesis by simp
  qed
qed simp

lemma swarm_rows_small_updates:
  "swarm_rows (snd (update_worktree_info i path branch d)) = swarm_rows d"
  "swarm_rows (snd (update_merge_status i mst d)) = swarm_rows d"
  "swarm_rows (snd (set_conflict_owner p i d)) = swarm_rows d" "swarm_rows (snd (clear_conflict_owner i d)) = swarm_rows d"
  unfolding update_worktree_info_def update_merge_status_def set_conflict_owner_def clear_conflict_owner_def
  by (rule swarm_rows_txn; auto simp: swarm_rows_def map_task_def)+

lemma swarm_rows_others:
  "swarm_rows (snd (move_tasks_to_active_lane p ms st d)) = swarm_rows d"
  "swarm_rows (snd (prepare_swarm_parent_for_active_lane m i d)) = swarm_rows d"
  "swarm_rows (snd (reset_orphaned_running d)) = swarm_rows d" "swarm_rows (snd (reclaim_stale_queued_task i cutoff d)) = swarm_rows d"
  "swarm_rows (snd (move_completed_active p d)) = swarm_rows d"
proof -
  show "swarm_rows (snd (move_tasks_to_active_lane p ms st d)) = swarm_rows d" unfolding move_tasks_to_active_lane_def
    by (auto split: sum.splits intro!: swarm_rows_and_then swarm_rows_txn dest: swarm_rows_place)
  show "swarm_rows (snd (prepare_swarm_parent_for_active_lane m i d)) = swarm_rows d"
    unfolding prepare_swarm_parent_for_active_lane_def Let_def
    by (cases m) (auto simp: lane_row_def split: option.splits if_splits prod.splits intro!: swarm_rows_and_then swarm_rows_txn)
  show "swarm_rows (snd (reset_orphaned_running d)) = swarm_rows d" "swarm_rows (snd (reclaim_stale_queued_task i cutoff d)) = swarm_rows d"
    "swarm_rows (snd (move_completed_active p d)) = swarm_rows d"
    unfolding reset_orphaned_running_def reclaim_stale_queued_task_def move_completed_active_def Let_def
    by (auto intro!: swarm_rows_txn split: option.splits if_splits)
qed

text \<open>The writes of configurations: the parent's row keeps the larger of the two stop revisions.\<close>

definition revisions_kept :: "task_db \<Rightarrow> task_db \<Rightarrow> bool" where
  "revisions_kept d d' \<longleftrightarrow> (\<forall>p t u. get_task p d = Some t \<and> get_task p d' = Some u \<and> tk_swarm_role u = SwarmRoleParent \<longrightarrow>
     stop_revision (tk_swarm_config t) \<le> stop_revision (tk_swarm_config u))"

lemma same_swarm_row:
  assumes "swarm_rows d' = swarm_rows d" "get_task p d' = Some u"
  obtains t where "get_task p d = Some t" "tk_swarm_role t = tk_swarm_role u" "tk_swarm_config t = tk_swarm_config u"
proof -
  have "find (\<lambda>t. tk_id t = p) us = Some u \<Longrightarrow>
      map (\<lambda>t. (tk_id t, tk_swarm_role t, tk_swarm_config t)) us = map (\<lambda>t. (tk_id t, tk_swarm_role t, tk_swarm_config t)) ts \<Longrightarrow>
      \<exists>t. find (\<lambda>t. tk_id t = p) ts = Some t \<and> tk_swarm_role t = tk_swarm_role u \<and> tk_swarm_config t = tk_swarm_config u"
    for us ts :: "task list"
    by (induction us arbitrary: ts) (auto split: if_splits)
  from this [of "db_tasks d'" "db_tasks d"] assms that show ?thesis by (auto simp: swarm_rows_def get_task_def)
qed

lemma revisions_kept_rows: "swarm_rows d' = swarm_rows d \<Longrightarrow> revisions_kept d d'"
  unfolding revisions_kept_def by (auto elim: same_swarm_row)

lemma revisions_kept_same: "same_tables d d1 \<Longrightarrow> revisions_kept d1 d' = revisions_kept d d'"
  by (auto simp: same_tables_def revisions_kept_def get_task_def)

lemma revisions_kept_map_task:
  assumes "\<And>t. tk_id (f t) = tk_id t"
    and "\<And>t. get_task i d = Some t \<Longrightarrow> tk_swarm_role (f t) = SwarmRoleParent \<Longrightarrow> stop_revision (tk_swarm_config t) \<le> stop_revision (tk_swarm_config (f t))"
  shows "revisions_kept d (map_task i f d)"
  unfolding revisions_kept_def
proof (intro allI impI)
  fix p t u assume a: "get_task p d = Some t \<and> get_task p (map_task i f d) = Some u \<and> tk_swarm_role u = SwarmRoleParent"
  then have "u = (if p = i then (f t)\<lparr>tk_updated_at := db_now d\<rparr> else t)" using assms(1) by (subst (asm) get_map_task) auto
  with a assms(2) show "stop_revision (tk_swarm_config t) \<le> stop_revision (tk_swarm_config u)" by (auto split: if_splits)
qed

lemma stop_revision_default [simp]: "stop_revision (default_json c) = stop_revision c"
  by (cases c) (simp_all add: default_json_def stop_revision_def)

lemma stop_revision_monotonic:
  "stop_revision (monotonic_parent_stop_revision SwarmRoleParent old new) = max (stop_revision old) (stop_revision new)"
  by (simp add: monotonic_parent_stop_revision_def stop_revision_def)

lemma revisions_kept_txn:
  assumes "\<And>d x d2. body d = (Inr x, d2) \<Longrightarrow> revisions_kept d d2" shows "revisions_kept d (snd (txn body d))"
proof -
  obtain r d' where t: "txn body d = (r, d')" by (rule prod.exhaust)
  from t show ?thesis
  proof (cases rule: txn_cases)
    case (failed e)
    then have "swarm_rows d' = swarm_rows d" by (auto simp: same_tables_def swarm_rows_def)
    with t revisions_kept_rows show ?thesis by simp
  next
    case (ok x d1) with t assms revisions_kept_same show ?thesis by (metis snd_conv)
  qed
qed

lemma revisions_kept_refl: "revisions_kept d d"
  by (rule revisions_kept_rows) simp

lemma revisions_kept_swarm_fields: "revisions_kept d (snd (update_swarm_fields i role st c n d))"
  unfolding update_swarm_fields_def
  by (rule revisions_kept_txn)
    (auto simp: revisions_kept_refl stop_revision_monotonic split: option.splits if_splits intro!: revisions_kept_map_task)

lemma revisions_kept_update_row:
  assumes "revisions_kept d (map_task i f d)" shows "revisions_kept d (update_task_row i f d)"
  unfolding revisions_kept_def
proof (intro allI impI)
  fix p t u assume a: "get_task p d = Some t \<and> get_task p (update_task_row i f d) = Some u \<and> tk_swarm_role u = SwarmRoleParent"
  then obtain v where "get_task p (map_task i f d) = Some v" "tk_swarm_role v = tk_swarm_role u" "tk_swarm_config v = tk_swarm_config u"
    using same_swarm_row [OF swarm_rows_update] by metis
  with a assms show "stop_revision (tk_swarm_config t) \<le> stop_revision (tk_swarm_config u)" unfolding revisions_kept_def by metis
qed

lemma revisions_kept_update_task: "revisions_kept d (snd (update_task title t d))"
  unfolding update_task_def
  by (rule revisions_kept_txn)
    (auto simp: revisions_kept_refl saved_row_def stop_revision_monotonic split: option.splits if_splits
      intro!: revisions_kept_update_row revisions_kept_map_task)

lemma revisions_kept_create: "revisions_kept d (snd (create_task t d))"
  unfolding create_task_def
proof (rule revisions_kept_txn)
  fix d :: task_db and x d2 assume "create_task_body t d = (Inr x, d2)"
  then obtain n where "db_tasks d2 = db_tasks d @ [n]"
    by (auto simp: create_task_body_def Let_def split: list.splits if_splits)
  moreover have "find P (us @ vs) = (case find P us of None \<Rightarrow> find P vs | r \<Rightarrow> r)" for P :: "task \<Rightarrow> bool" and us vs
    by (induction us) auto
  ultimately show "revisions_kept d d2" by (auto simp: revisions_kept_def get_task_def)
qed

lemma revisions_kept_bump: "revisions_kept d (snd (bump_swarm_parent_stop_revision i d))"
  unfolding bump_swarm_parent_stop_revision_def
  by (auto simp: revisions_kept_refl stop_revision_def split: option.splits json_text.splits intro!: revisions_kept_map_task)

lemma store_step_revisions: "store_step d d' \<Longrightarrow> revisions_kept d d'"
proof (induction rule: store_step.induct)
  case (clock d n)
  show ?case by (rule revisions_kept_rows) (simp add: swarm_rows_def)
next
  case (caller d p)
  show ?case by (rule revisions_kept_rows) (simp add: swarm_rows_def)
qed (simp_all add: revisions_kept_rows swarm_rows_task_calls swarm_rows_set_pending swarm_rows_small_updates swarm_rows_others
  revisions_kept_swarm_fields revisions_kept_update_task revisions_kept_create)

lemma update_swarm_fields_revision:
  assumes "update_swarm_fields i SwarmRoleParent st c n d = (Inr (), d')" "get_task i d = Some t" "c \<noteq> Malformed"
  shows "\<exists>u. get_task i d' = Some u \<and>
    stop_revision (tk_swarm_config u) = max (stop_revision (tk_swarm_config t)) (stop_revision c)"
proof -
  let ?f = "\<lambda>t. t\<lparr>tk_swarm_role := SwarmRoleParent, tk_swarm_status := st,
    tk_swarm_config := monotonic_parent_stop_revision SwarmRoleParent (tk_swarm_config t) (default_json c), tk_swarm_sequence := n\<rparr>"
  have g: "get_task i d1 = Some t" if "same_tables d d1" for d1
    using that assms(2) by (auto simp: same_tables_def get_task_def)
  from assms(1) obtain d1 where same: "same_tables d d1" and d': "d' = map_task i ?f d1"
    unfolding update_swarm_fields_def
    by (cases rule: txn_cases) (auto simp: g assms(2,3) split: option.splits if_splits)
  have "get_task i d' = map_option (\<lambda>t. (?f t)\<lparr>tk_updated_at := db_now d1\<rparr>) (get_task i d1)"
    unfolding d' by (subst get_map_task) simp_all
  then show ?thesis using g [OF same] by (simp add: stop_revision_monotonic)
qed

text \<open>
  C34: No call of the task repository takes back the stop revision of a swarm's parent: whatever any of
  them writes - a save or \<open>UpdateSwarmFields\<close> from an older snapshot of the configuration, or the
  increment of \<open>bumpSwarmParentStopRevision\<close> - and whether it fails or not, a task that is a parent's
  row afterwards has at least the stop revision it had before. So a follow-up that raised it between
  the read and the write of a slower orchestration step stays visible to the next Stop.
\<close>

theorem stop_revision_not_lost:
  assumes "store_step d d' \<or> d' = snd (bump_swarm_parent_stop_revision i d)"
    and "get_task p d = Some t" "get_task p d' = Some u" "tk_swarm_role u = SwarmRoleParent"
  shows "stop_revision (tk_swarm_config t) \<le> stop_revision (tk_swarm_config u)"
  using assms store_step_revisions revisions_kept_bump unfolding revisions_kept_def by metis

text \<open>A stored revision of three, and a write from a snapshot that had one.\<close>

definition stopped_db :: task_db where
  "stopped_db = sample_db\<lparr>db_tasks := [(sample_task ''a'' ''p'')\<lparr>tk_swarm_role := SwarmRoleParent,
     tk_swarm_config := JsonDoc (empty_swarm_config\<lparr>sw_stop_revision := 3\<rparr>)\<rparr>]\<rparr>"

lemma stop_revision_not_lost_witness:
  "\<exists>u. get_task ''a'' (snd (update_swarm_fields ''a'' SwarmRoleParent ''current''
       (JsonDoc (empty_swarm_config\<lparr>sw_stop_revision := 1\<rparr>)) 0 stopped_db)) = Some u \<and>
     3 \<le> stop_revision (tk_swarm_config u)"
proof -
  let ?d = "snd (update_swarm_fields ''a'' SwarmRoleParent ''current''
       (JsonDoc (empty_swarm_config\<lparr>sw_stop_revision := 1\<rparr>)) 0 stopped_db)"
  obtain u where u: "get_task ''a'' ?d = Some u" "tk_swarm_role u = SwarmRoleParent"
    by (simp add: update_swarm_fields_def txn_def next_fault_def get_task_def map_task_def stopped_db_def sample_task_def sample_db_def)
  obtain t where t: "get_task ''a'' stopped_db = Some t" "stop_revision (tk_swarm_config t) = 3"
    by (simp add: get_task_def stopped_db_def sample_task_def stop_revision_def)
  from stop_revision_not_lost [OF disjI1 [OF store_step.swarm_fields] t(1) u] t(2) u(1) show ?thesis by simp
qed

end
