(* ===== verification/BoardOrder.thy ===== *)
theory BoardOrder
  imports Models "HOL-Library.Multiset" "HOL-Library.Product_Lexorder" "HOL-Library.List_Lexorder" "HOL-Library.Char_ord"
begin

section \<open>The order of the board\<close>

text \<open>
  The sorts of \<open>listByProjectWithCategorySorts\<close> (\<open>internal/persistence/sqlite/task_repo.go\<close>): the
  comparison \<open>taskSortLess\<close> by the name of a criterion, the stable sort it is handed to
  (\<open>sort.SliceStable\<close>), and the sort of one category's tasks within a list of several. The
  reference is the library's \<open>sort_key\<close> on a key whose components point up or down.
\<close>

subsection \<open>The comparison\<close>

definition completed_sort_time :: "task \<Rightarrow> instant" where
  "completed_sort_time t = (case tk_completed_at t of Some c \<Rightarrow> c | None \<Rightarrow> tk_updated_at t)"

definition task_display_order_asc :: "task \<Rightarrow> task \<Rightarrow> bool" where
  "task_display_order_asc a b =
     (if tk_display_order a \<noteq> tk_display_order b then tk_display_order a < tk_display_order b
      else tk_created_at a < tk_created_at b)"

definition task_display_order_desc :: "task \<Rightarrow> task \<Rightarrow> bool" where
  "task_display_order_desc a b =
     (if tk_display_order a \<noteq> tk_display_order b then tk_display_order a > tk_display_order b
      else tk_created_at a > tk_created_at b)"

definition task_sort_less :: "string \<Rightarrow> task \<Rightarrow> task \<Rightarrow> bool" where
  "task_sort_less sort_by a b =
     (if sort_by = ''title_asc'' then
        (let x = to_lower (tk_title a); y = to_lower (tk_title b)
         in if x \<noteq> y then x < y else task_display_order_asc a b)
      else if sort_by = ''title_desc'' then
        (let x = to_lower (tk_title a); y = to_lower (tk_title b)
         in if x \<noteq> y then x > y else task_display_order_asc a b)
      else if sort_by = ''created_asc'' then
        (if tk_created_at a \<noteq> tk_created_at b then tk_created_at a < tk_created_at b else task_display_order_asc a b)
      else if sort_by = ''created_desc'' then
        (if tk_created_at a \<noteq> tk_created_at b then tk_created_at a > tk_created_at b else task_display_order_desc a b)
      else if sort_by = ''completed_asc'' then
        (if completed_sort_time a \<noteq> completed_sort_time b then completed_sort_time a < completed_sort_time b
         else task_display_order_asc a b)
      else if sort_by = ''completed_desc'' then
        (if completed_sort_time a \<noteq> completed_sort_time b then completed_sort_time a > completed_sort_time b
         else task_display_order_desc a b)
      else if sort_by = ''priority_asc'' then
        (if tk_priority a \<noteq> tk_priority b then tk_priority a < tk_priority b
         else if tk_created_at a \<noteq> tk_created_at b then tk_created_at a < tk_created_at b
         else task_display_order_asc a b)
      else if sort_by = ''priority_desc'' then
        (if tk_priority a \<noteq> tk_priority b then tk_priority a > tk_priority b
         else if tk_created_at a \<noteq> tk_created_at b then tk_created_at a > tk_created_at b
         else task_display_order_desc a b)
      else task_display_order_asc a b)"

text \<open>\<open>sort.SliceStable\<close>: the stable sort by a comparison, inserting from the back.\<close>

fun insert_before :: "('a \<Rightarrow> 'a \<Rightarrow> bool) \<Rightarrow> 'a \<Rightarrow> 'a list \<Rightarrow> 'a list" where
  "insert_before lt x [] = [x]"
| "insert_before lt x (y # ys) = (if lt y x then y # insert_before lt x ys else x # y # ys)"

definition slice_stable :: "('a \<Rightarrow> 'a \<Rightarrow> bool) \<Rightarrow> 'a list \<Rightarrow> 'a list" where
  "slice_stable lt xs = foldr (insert_before lt) xs []"

definition sort_tasks :: "string \<Rightarrow> task list \<Rightarrow> task list" where
  "sort_tasks sort_by ts = (if length ts < 2 \<or> sort_by = '''' then ts else slice_stable (task_sort_less sort_by) ts)"

definition sort_category_tasks :: "task_category \<Rightarrow> string \<Rightarrow> task list \<Rightarrow> task list" where
  "sort_category_tasks c sort_by ts =
     (if length ts < 2 \<or> sort_by = '''' then ts
      else let idx = filter (\<lambda>i. tk_category (ts ! i) = c) [0..<length ts];
               cs = map (\<lambda>i. ts ! i) idx
           in if length cs < 2 then ts
              else fold (\<lambda>(i, t) ts. ts[i := t]) (zip idx (sort_tasks sort_by cs)) ts)"

text \<open>The sorts of the listing: one category, or the two sorted ones in place within all.\<close>

definition listing_sorts :: "string \<Rightarrow> string \<Rightarrow> string \<Rightarrow> task list \<Rightarrow> task list" where
  "listing_sorts category backlog_sort completed_sort ts =
     (if category = ''backlog'' then sort_tasks backlog_sort ts
      else if category = ''completed'' then sort_tasks completed_sort ts
      else sort_category_tasks CategoryCompleted completed_sort (sort_category_tasks CategoryBacklog backlog_sort ts))"

subsection \<open>The reference\<close>

text \<open>A component of a key that points up or down.\<close>

datatype 'a dir = Up 'a | Down 'a

instantiation dir :: (linorder) linorder
begin

definition less_eq_dir :: "'a dir \<Rightarrow> 'a dir \<Rightarrow> bool" where
  "less_eq_dir x y = (case (x, y) of (Up a, Up b) \<Rightarrow> a \<le> b | (Down a, Down b) \<Rightarrow> b \<le> a | (Up a, Down b) \<Rightarrow> True
     | (Down a, Up b) \<Rightarrow> False)"

definition less_dir :: "'a dir \<Rightarrow> 'a dir \<Rightarrow> bool" where
  "less_dir x y = (case (x, y) of (Up a, Up b) \<Rightarrow> a < b | (Down a, Down b) \<Rightarrow> b < a | (Up a, Down b) \<Rightarrow> True
     | (Down a, Up b) \<Rightarrow> False)"

instance
  by standard (auto simp: less_eq_dir_def less_dir_def split: dir.splits)

end

lemma dir_less_simps [simp]:
  "Up a < Up b \<longleftrightarrow> a < b" "Down a < Down b \<longleftrightarrow> b < a" "Up a \<le> Up b \<longleftrightarrow> a \<le> b" "Down a \<le> Down b \<longleftrightarrow> b \<le> a"
  by (simp_all add: less_dir_def less_eq_dir_def)


definition board_key :: "string \<Rightarrow> task \<Rightarrow> string dir \<times> int dir \<times> int dir \<times> int dir \<times> int dir" where
  "board_key sort_by t =
     (let n = tk_display_order t; c = tk_created_at t; p = tk_priority t; e = completed_sort_time t;
          w = to_lower (tk_title t)
      in if sort_by = ''title_asc'' then (Up w, Up 0, Up 0, Up n, Up c)
         else if sort_by = ''title_desc'' then (Down w, Up 0, Up 0, Up n, Up c)
         else if sort_by = ''created_asc'' then (Up '''', Up c, Up 0, Up n, Up c)
         else if sort_by = ''created_desc'' then (Up '''', Down c, Up 0, Down n, Down c)
         else if sort_by = ''completed_asc'' then (Up '''', Up e, Up 0, Up n, Up c)
         else if sort_by = ''completed_desc'' then (Up '''', Down e, Up 0, Down n, Down c)
         else if sort_by = ''priority_asc'' then (Up '''', Up p, Up c, Up n, Up c)
         else if sort_by = ''priority_desc'' then (Up '''', Down p, Down c, Down n, Down c)
         else (Up '''', Up 0, Up 0, Up n, Up c))"

lemma less_pair: "(x, k) < (y, l) \<longleftrightarrow> (if x \<noteq> y then x < y else k < l)" for x y :: "'a::linorder" and k l :: "'b::linorder"
  by (auto simp: less_prod_simp)

lemma task_sort_less_key: "task_sort_less sort_by a b \<longleftrightarrow> board_key sort_by a < board_key sort_by b"
proof -
  note defs = task_sort_less_def board_key_def Let_def task_display_order_asc_def task_display_order_desc_def less_pair
  let ?named = "[''title_asc'', ''title_desc'', ''created_asc'', ''created_desc'', ''completed_asc'', ''completed_desc'',
    ''priority_asc'', ''priority_desc'']"
  show ?thesis
  proof (cases "sort_by \<in> set ?named")
    case True
    then show ?thesis
      unfolding list.set insert_iff empty_iff by (elim disjE FalseE) (simp_all add: defs del: less_prod_simp)
  next
    case False
    then have "sort_by \<noteq> x" if "x \<in> set ?named" for x using that by blast
    then show ?thesis by (simp add: defs del: less_prod_simp)
  qed
qed

lemma insert_before_key: "insert_before (\<lambda>a b. k a < k b) = insort_key k" for k :: "'a \<Rightarrow> 'b::linorder"
proof (intro ext)
  fix x xs show "insert_before (\<lambda>a b. k a < k b) x xs = insort_key k x xs"
    by (induction xs) auto
qed

lemma slice_stable_key: "slice_stable (\<lambda>a b. k a < k b) xs = sort_key k xs" for k :: "'a \<Rightarrow> 'b::linorder"
  by (simp add: slice_stable_def insert_before_key sort_key_def)

lemma sort_tasks_key: "sort_tasks sort_by ts = (if sort_by = '''' then ts else sort_key (board_key sort_by) ts)"
proof (cases "length ts < 2")
  case True
  then have "ts = [] \<or> (\<exists>t. ts = [t])" by (cases ts; cases "tl ts") auto
  then show ?thesis by (auto simp: sort_tasks_def)
next
  case False
  have "task_sort_less sort_by = (\<lambda>a b. board_key sort_by a < board_key sort_by b)"
    by (intro ext) (rule task_sort_less_key)
  with False show ?thesis by (simp add: sort_tasks_def slice_stable_key)
qed

subsection \<open>A category sorted in place\<close>

definition overwrite :: "(nat \<times> 'a) list \<Rightarrow> 'a list \<Rightarrow> 'a list" where
  "overwrite ps ts = fold (\<lambda>(i, t) ts. ts[i := t]) ps ts"

lemma overwrite_simps [simp]: "overwrite [] ts = ts" "overwrite ((i, t) # ps) ts = overwrite ps (ts[i := t])"
  by (simp_all add: overwrite_def)

lemma length_overwrite [simp]: "length (overwrite ps ts) = length ts"
proof (induction ps arbitrary: ts)
  case (Cons p ps)
  then show ?case by (cases p) simp
qed simp

lemma overwrite_other: "i \<notin> fst ` set ps \<Longrightarrow> overwrite ps ts ! i = ts ! i"
proof (induction ps arbitrary: ts)
  case (Cons p ps)
  then show ?case by (cases p) simp
qed simp

lemma overwrite_at:
  assumes "distinct ks" "length ks = length vs" "\<forall>i\<in>set ks. i < length ts"
  shows "map (\<lambda>i. overwrite (zip ks vs) ts ! i) ks = vs"
  using assms
proof (induction ks vs arbitrary: ts rule: list_induct2')
  case (4 i js v vs)
  then have o: "overwrite (zip js vs) (ts[i := v]) ! i = v"
    by (subst overwrite_other) (auto dest: set_zip_leftD)
  from 4 have "map (\<lambda>j. overwrite (zip js vs) (ts[i := v]) ! j) js = vs" by simp
  with o show ?case by simp
qed auto

definition places :: "('a \<Rightarrow> bool) \<Rightarrow> 'a list \<Rightarrow> nat list" where
  "places P ts = filter (\<lambda>i. P (ts ! i)) [0..<length ts]"

lemma map_places: "map (\<lambda>i. ts ! i) (places P ts) = filter P ts"
proof -
  have "filter P (map (\<lambda>i. ts ! i) [0..<length ts]) = map (\<lambda>i. ts ! i) (places P ts)"
    unfolding places_def filter_map by (simp add: o_def)
  then show ?thesis by (simp add: map_nth)
qed

lemma places_cong: "length us = length ts \<Longrightarrow> (\<And>i. i < length ts \<Longrightarrow> P (us ! i) = P (ts ! i)) \<Longrightarrow> places P us = places P ts"
  unfolding places_def by (auto intro: filter_cong)

lemma sort_category_tasks_places:
  "sort_category_tasks c s ts =
     (if s = '''' then ts else overwrite (zip (places (\<lambda>t. tk_category t = c) ts) (sort_tasks s (filter (\<lambda>t. tk_category t = c) ts))) ts)"
proof -
  let ?P = "\<lambda>t. tk_category t = c"
  have id: "overwrite (zip (places ?P ts) (sort_tasks s (filter ?P ts))) ts = ts" if short: "length (filter ?P ts) < 2"
  proof -
    have "sort_tasks s (filter ?P ts) = map (\<lambda>i. ts ! i) (places ?P ts)" using short by (simp add: sort_tasks_def map_places)
    moreover have "overwrite (zip js (map (\<lambda>i. us ! i) js)) us = us" for js and us :: "task list"
      by (induction js) auto
    ultimately show ?thesis by simp
  qed
  have short: "length (filter ?P ts) < 2" if "length ts < 2"
    using that le_less_trans [OF length_filter_le [of ?P ts]] by blast
  have cs: "map (\<lambda>i. ts ! i) (filter (\<lambda>i. ?P (ts ! i)) [0..<length ts]) = filter ?P ts"
    using map_places [of ts ?P] by (simp only: places_def)
  show ?thesis
    unfolding sort_category_tasks_def Let_def cs
    using id short by (auto simp: overwrite_def places_def simp del: length_0_conv)
qed

text \<open>
  C33: The sort of the board is the reference. The comparison of every criterion is the strict order
  of its key, so the stable sort of the listing is the library's sort by that key: sorted, a
  permutation, and stable on equal keys.
\<close>
theorem sort_tasks_reference:
  "s \<noteq> '''' \<Longrightarrow> sort_tasks s ts = sort_key (board_key s) ts \<and> sorted (map (board_key s) (sort_tasks s ts))
     \<and> mset (sort_tasks s ts) = mset ts
     \<and> filter (\<lambda>t. board_key s t = k) (sort_tasks s ts) = filter (\<lambda>t. board_key s t = k) ts"
  by (simp add: sort_tasks_key sort_key_stable)

theorem sort_tasks_reference_witness:
  "let a = (sample_task ''1'' ''p'')\<lparr>tk_title := ''b''\<rparr>; b = (sample_task ''2'' ''p'')\<lparr>tk_title := ''a''\<rparr>
   in sort_tasks ''title_asc'' [a, b] = sort_key (board_key ''title_asc'') [a, b]"
  using sort_tasks_reference [of "''title_asc''" "[(sample_task ''1'' ''p'')\<lparr>tk_title := ''b''\<rparr>, (sample_task ''2'' ''p'')\<lparr>tk_title := ''a''\<rparr>]"]
  unfolding Let_def by blast

text \<open>
  Sorting one category inside the listing of all leaves every other task at its place, keeps
  the places the category has, and puts there that category's tasks, stably sorted by the
  criterion.
\<close>
theorem sort_category_in_place:
  "s \<noteq> '''' \<Longrightarrow>
     length (sort_category_tasks c s ts) = length ts
     \<and> (\<forall>i < length ts. tk_category (ts ! i) \<noteq> c \<longrightarrow> sort_category_tasks c s ts ! i = ts ! i)
     \<and> (\<forall>i < length ts. tk_category (sort_category_tasks c s ts ! i) = c \<longleftrightarrow> tk_category (ts ! i) = c)
     \<and> filter (\<lambda>t. tk_category t = c) (sort_category_tasks c s ts) = sort_key (board_key s) (filter (\<lambda>t. tk_category t = c) ts)"
proof -
  assume s: "s \<noteq> ''''"
  let ?P = "\<lambda>t. tk_category t = c" and ?us = "sort_category_tasks c s ts"
  let ?is = "places ?P ts" and ?vs = "sort_key (board_key s) (filter ?P ts)"
  have us: "?us = overwrite (zip ?is ?vs) ts" by (simp add: sort_category_tasks_places sort_tasks_key s)
  have len: "length ?is = length ?vs" using map_places [of ts ?P] by (metis length_map length_sort)
  have at: "map (\<lambda>i. ?us ! i) ?is = ?vs"
    unfolding us by (rule overwrite_at) (auto simp: len, auto simp: places_def)
  have other: "?us ! i = ts ! i" if "i < length ts" "\<not> ?P (ts ! i)" for i
    unfolding us by (rule overwrite_other) (use that in \<open>auto simp: places_def dest: set_zip_leftD\<close>)
  have P: "?P (?us ! i) = ?P (ts ! i)" if i: "i < length ts" for i
  proof (cases "?P (ts ! i)")
    case True
    with i have "i \<in> set ?is" by (simp add: places_def)
    then have "?us ! i \<in> set ?vs" unfolding at [symmetric] by simp
    then show ?thesis using True by simp
  qed (simp add: other i)
  have pl: "places ?P ?us = ?is" by (rule places_cong) (simp_all add: us P [unfolded us])
  have "filter ?P ?us = ?vs" using at map_places [of ?us ?P] by (simp add: pl)
  then show ?thesis using other P by (simp add: us)
qed

theorem sort_category_in_place_witness:
  "length (sort_category_tasks CategoryBacklog ''title_desc'' [sample_task ''1'' ''p'', sample_task ''2'' ''p'']) = 2"
  using sort_category_in_place [of "''title_desc''" CategoryBacklog "[sample_task ''1'' ''p'', sample_task ''2'' ''p'']"] by simp

end
