(* ===== verification/SwarmPlan.thy ===== *)
theory SwarmPlan
  imports Models "HOL-Library.Product_Lexorder" "HOL-Library.List_Lexorder" "HOL-Library.Char_ord" "HOL-Library.Sublist"
begin

section \<open>The plan of a swarm\<close>

text \<open>
  The parts of \<open>internal/service/swarm_service.go\<close> that read no state: the output of a planner, its
  extraction from the text the model answered, its validation, and the names of branches. The
  decoder of \<open>encoding/json\<close> is an argument of the functions that call it, from a text to the
  output it decodes to.
\<close>

record planner_worker =
  pw_task_id :: string
  pw_title :: string
  pw_prompt :: string
  pw_worker_kind :: string
  pw_ownership :: "string list"
  pw_isolation :: string
  pw_write_scope :: "string list"
  pw_read_scope :: "string list"
  pw_required :: bool
  pw_read_only :: bool
  pw_allow_overlap :: bool

record planner_output =
  pl_workers :: "planner_worker list"
  pl_reviewer_prompt :: string
  pl_merger_prompt :: string
  pl_legacy_integrator_prompt :: string
  pl_notes :: string

definition normalize_planner_output :: "planner_output \<Rightarrow> planner_output" where
  "normalize_planner_output o1 =
     (let o2 = (if trim_space (pl_merger_prompt o1) = ''''
                then o1\<lparr>pl_merger_prompt := pl_legacy_integrator_prompt o1\<rparr> else o1)
      in o2\<lparr>pl_legacy_integrator_prompt := ''''\<rparr>)"

subsection \<open>Finding the JSON object in an answer\<close>

text \<open>
  The scan for balanced objects. The code ranges over the runes of the text; every character it
  compares with is ASCII, so that the bytes of other runes pass through, as they do here. The
  argument \<open>start\<close> is \<open>None\<close> for the code's \<open>-1\<close>.
\<close>

fun balanced_scan :: "string \<Rightarrow> nat \<Rightarrow> bool \<Rightarrow> bool \<Rightarrow> nat \<Rightarrow> nat option \<Rightarrow> string \<Rightarrow> string list" where
  "balanced_scan raw i in_string escaped depth start [] = []"
| "balanced_scan raw i in_string escaped depth start (r # rs) =
     (if in_string
      then if escaped then balanced_scan raw (Suc i) True False depth start rs
           else if r = CHR 0x5C then balanced_scan raw (Suc i) True True depth start rs
           else balanced_scan raw (Suc i) (r \<noteq> CHR 0x22) False depth start rs
      else if r = CHR 0x22 then balanced_scan raw (Suc i) (depth > 0) escaped depth start rs
      else if r = CHR ''{'' then balanced_scan raw (Suc i) False escaped (Suc depth) (if depth = 0 then Some i else start) rs
      else if r = CHR ''}''
      then if depth = 0 then balanced_scan raw (Suc i) False escaped depth start rs
           else (case start of
                   Some s \<Rightarrow>
                     if depth = 1 then drop s (take (Suc i) raw) # balanced_scan raw (Suc i) False escaped 0 None rs
                     else balanced_scan raw (Suc i) False escaped (depth - 1) start rs
                 | None \<Rightarrow> balanced_scan raw (Suc i) False escaped (depth - 1) start rs)
      else balanced_scan raw (Suc i) False escaped depth start rs)"

definition balanced_planner_json_objects :: "string \<Rightarrow> string list" where
  "balanced_planner_json_objects raw = balanced_scan raw 0 False False 0 None raw"

definition add_candidate :: "string \<Rightarrow> string list \<Rightarrow> string list" where
  "add_candidate candidate cs =
     (let c = trim_space candidate in if c = '''' \<or> c \<in> set cs then cs else cs @ [c])"

definition planner_output_json_candidates :: "string \<Rightarrow> string list" where
  "planner_output_json_candidates raw = fold add_candidate (balanced_planner_json_objects raw) []"

text \<open>The last candidate that decodes to an output with workers.\<close>

definition valid_candidate :: "(string \<Rightarrow> planner_output option) \<Rightarrow> string \<Rightarrow> planner_output option" where
  "valid_candidate decode c =
     (case decode c of
        Some o1 \<Rightarrow> if pl_workers o1 = [] then None else Some (normalize_planner_output o1)
      | None \<Rightarrow> None)"

definition parse_planner_output_json :: "(string \<Rightarrow> planner_output option) \<Rightarrow> string \<Rightarrow> planner_output option" where
  "parse_planner_output_json decode raw =
     (let trimmed = trim_space raw
      in case decode trimmed of
           Some o1 \<Rightarrow> Some (normalize_planner_output o1)
         | None \<Rightarrow>
             fold (\<lambda>c found. case valid_candidate decode c of Some o1 \<Rightarrow> Some o1 | None \<Rightarrow> found)
               (planner_output_json_candidates trimmed) None)"

subsection \<open>Validation\<close>

datatype plan_error = NoWorkers | TooManyWorkers int int | ReviewerPromptRequired | MergerPromptRequired
  | IncompleteWorker int | InvalidIsolation string string | SharedNotAllowed string | MustUseWorktree string
  | UnknownWorker string | WouldCreate int int

definition worker_isolation :: "planner_worker \<Rightarrow> swarm_config \<Rightarrow> string" where
  "worker_isolation w cfg =
     (if pw_isolation w \<noteq> '''' then pw_isolation w
      else if sw_default_worker_isolation cfg \<noteq> '''' then sw_default_worker_isolation cfg
      else ''worktree'')"

definition check_worker :: "swarm_config \<Rightarrow> int \<Rightarrow> planner_worker \<Rightarrow> plan_error option" where
  "check_worker cfg i w =
     (let iso = worker_isolation w cfg
      in if trim_space (pw_title w) = '''' \<or> trim_space (pw_prompt w) = '''' \<or> trim_space (pw_worker_kind w) = '''' \<or>
            length (pw_ownership w) = 0
         then Some (IncompleteWorker (i + 1))
         else if iso \<noteq> ''read_only'' \<and> iso \<noteq> ''worktree'' \<and> iso \<noteq> ''shared''
         then Some (InvalidIsolation (pw_title w) iso)
         else if iso = ''shared'' \<and> sw_default_worker_isolation cfg \<noteq> ''shared'' then Some (SharedNotAllowed (pw_title w))
         else if iso \<noteq> ''read_only'' \<and> iso \<noteq> ''worktree'' then Some (MustUseWorktree (pw_title w))
         else None)"

fun check_workers :: "swarm_config \<Rightarrow> int \<Rightarrow> planner_worker list \<Rightarrow> plan_error option" where
  "check_workers cfg i [] = None"
| "check_workers cfg i (w # ws) =
     (case check_worker cfg i w of Some e \<Rightarrow> Some e | None \<Rightarrow> check_workers cfg (i + 1) ws)"

definition validate_planner_output :: "planner_output \<Rightarrow> swarm_config \<Rightarrow> plan_error option" where
  "validate_planner_output o1 cfg =
     (let n = int (length (pl_workers o1))
      in if n = 0 then Some NoWorkers
         else if sw_max_workers cfg > 0 \<and> n > sw_max_workers cfg then Some (TooManyWorkers n (sw_max_workers cfg))
         else if sw_reviewer_enabled cfg \<and> trim_space (pl_reviewer_prompt o1) = '''' then Some ReviewerPromptRequired
         else if sw_merger_enabled cfg \<and> trim_space (pl_merger_prompt o1) = '''' then Some MergerPromptRequired
         else check_workers cfg 0 (pl_workers o1))"

text \<open>A configuration that does not decode counts as the empty one where the error is dropped.\<close>

definition cfg_of :: "swarm_text \<Rightarrow> swarm_config" where
  "cfg_of raw = (case parse_swarm_config raw of Some c \<Rightarrow> c | None \<Rightarrow> empty_swarm_config)"

definition followup_created_workers :: "planner_output \<Rightarrow> task list \<Rightarrow> int \<Rightarrow> task list" where
  "followup_created_workers o1 existing generation =
     (let referenced = {i. i \<noteq> '''' \<and> i \<in> (\<lambda>w. trim_space (pw_task_id w)) ` set (pl_workers o1)}
      in sort_key (\<lambda>t. (tk_swarm_sequence t, tk_id t))
           (filter (\<lambda>t. tk_swarm_role t = SwarmRoleWorker \<and> tk_id t \<notin> referenced \<and>
                        sw_rerun_generation (cfg_of (tk_swarm_config t)) = generation) existing))"

definition is_new_worker :: "planner_worker \<Rightarrow> bool" where
  "is_new_worker w \<longleftrightarrow> trim_space (pw_task_id w) = ''''"

definition validate_followup_planner_output :: "planner_output \<Rightarrow> task list \<Rightarrow> swarm_config \<Rightarrow> plan_error option" where
  "validate_followup_planner_output o1 existing cfg =
     (let workers = filter (\<lambda>t. tk_swarm_role t = SwarmRoleWorker) existing;
          unknown = find (\<lambda>w. \<not> is_new_worker w \<and> pw_task_id w \<notin> tk_id ` set workers) (pl_workers o1);
          new = int (length (filter is_new_worker (pl_workers o1)));
          missing = max 0 (new - int (length (followup_created_workers o1 existing (sw_generation cfg))));
          n = int (length workers) + missing
      in case unknown of
           Some w \<Rightarrow> Some (UnknownWorker (pw_task_id w))
         | None \<Rightarrow> if sw_max_workers cfg > 0 \<and> n > sw_max_workers cfg then Some (WouldCreate n (sw_max_workers cfg)) else None)"

subsection \<open>Branch names\<close>

text \<open>
  Each maximal run of characters with the property becomes the one replacement; the flag says
  that the character before was part of a run.
\<close>

fun replace_runs :: "('a \<Rightarrow> bool) \<Rightarrow> 'a \<Rightarrow> bool \<Rightarrow> 'a list \<Rightarrow> 'a list" where
  "replace_runs P c in_run [] = []"
| "replace_runs P c in_run (x # xs) =
     (if P x then (if in_run then replace_runs P c True xs else c # replace_runs P c True xs)
      else x # replace_runs P c False xs)"

definition is_slug_char :: "char \<Rightarrow> bool" where
  "is_slug_char c \<longleftrightarrow> (let n = of_char c :: nat in (97 \<le> n \<and> n \<le> 122) \<or> (48 \<le> n \<and> n \<le> 57))"

definition slug :: "string \<Rightarrow> string" where
  "slug raw =
     (let s1 = to_lower (trim_space raw);
          s2 = replace_runs (\<lambda>c. \<not> is_slug_char c) CHR ''-'' False s1;
          s3 = trim_char CHR ''-'' s2;
          s4 = (if length s3 > 24 then trim_char CHR ''-'' (take 24 s3) else s3)
      in if s4 = '''' then ''task'' else s4)"

definition short_id :: "string \<Rightarrow> string" where
  "short_id raw =
     (let i = trim_space raw
      in if length i > 8 then take 8 i else if i = '''' \<or> i = ''pending'' then ''pending'' else i)"

definition swarm_branch :: "string \<Rightarrow> string \<Rightarrow> string \<Rightarrow> string" where
  "swarm_branch title kind i = ''swarm-'' @ slug title @ ''-'' @ slug kind @ ''-'' @ short_id i"

lemma set_replace_runs: "set (replace_runs P c r xs) \<subseteq> insert c {x \<in> set xs. \<not> P x}"
  by (induction xs arbitrary: r) auto

text \<open>No two replacements stand side by side.\<close>

fun no_pair :: "'a \<Rightarrow> 'a list \<Rightarrow> bool" where
  "no_pair c (x # y # xs) = (\<not> (x = c \<and> y = c) \<and> no_pair c (y # xs))"
| "no_pair c xs = True"

lemma no_pair_tl: "no_pair c (x # xs) \<Longrightarrow> no_pair c xs"
  by (cases xs) auto

lemma no_pair_append1: "no_pair c (xs @ ys) \<Longrightarrow> no_pair c xs"
proof (induction c xs rule: no_pair.induct)
  case (1 c x y xs) then show ?case by simp
qed (auto intro: no_pair.simps)

lemma no_pair_append2: "no_pair c (xs @ ys) \<Longrightarrow> no_pair c ys"
  by (induction xs) (auto dest: no_pair_tl)

lemma no_pair_take: "no_pair c xs \<Longrightarrow> no_pair c (take n xs)"
  using no_pair_append1 [of c "take n xs" "drop n xs"] by simp

lemma trim_char_parts: "\<exists>us vs. s = us @ trim_char c s @ vs"
proof -
  define d where "d = dropWhile ((=) c) s"
  have "s = takeWhile ((=) c) s @ d" by (simp add: d_def)
  moreover have "d = trim_char c s @ rev (takeWhile ((=) c) (rev d))"
    by (metis d_def rev_append rev_rev_ident takeWhile_dropWhile_id trim_char_def)
  ultimately show ?thesis by metis
qed

lemma no_pair_trim: "no_pair c s \<Longrightarrow> no_pair c (trim_char c s)"
  using trim_char_parts [of s c] by (metis no_pair_append1 no_pair_append2)

lemma no_pair_replace_runs:
  "P c \<Longrightarrow> no_pair c (replace_runs P c r xs) \<and> (r \<longrightarrow> replace_runs P c r xs = [] \<or> hd (replace_runs P c r xs) \<noteq> c)"
proof (induction xs arbitrary: r)
  case (Cons x xs)
  have cons: "no_pair c (z # zs)" if "no_pair c zs" "zs = [] \<or> z \<noteq> c \<or> hd zs \<noteq> c" for z zs
    using that by (cases zs) auto
  have "\<not> P x \<Longrightarrow> x \<noteq> c" using Cons.prems by auto
  with Cons.IH [of True, OF Cons.prems] Cons.IH [of False, OF Cons.prems] cons Cons.prems show ?case by auto
qed simp

lemma replace_runs_id:
  assumes "P c"
  shows "(\<forall>x \<in> set xs. P x \<longrightarrow> x = c) \<Longrightarrow> no_pair c xs \<Longrightarrow> r \<longrightarrow> xs = [] \<or> hd xs \<noteq> c \<Longrightarrow> replace_runs P c r xs = xs"
proof (induction xs arbitrary: r)
  case (Cons x xs)
  have hd: "P x \<longrightarrow> xs = [] \<or> hd xs \<noteq> c" using Cons.prems(1,2) by (cases xs) auto
  have all: "\<forall>y \<in> set xs. P y \<longrightarrow> y = c" using Cons.prems(1) by simp
  have tl: "replace_runs P c (P x) xs = xs" by (rule Cons.IH [OF all no_pair_tl [OF Cons.prems(2)] hd])
  show ?case
  proof (cases "P x")
    case True
    with Cons.prems(1) have "x = c" by simp
    moreover from this Cons.prems(3) have "\<not> r" by simp
    ultimately show ?thesis using tl True by simp
  next
    case False with tl show ?thesis by simp
  qed
qed simp

lemma trim_char_id: "s = [] \<or> hd s \<noteq> c \<and> last s \<noteq> c \<Longrightarrow> trim_char c s = s"
proof (cases "s = []")
  case False
  assume "s = [] \<or> hd s \<noteq> c \<and> last s \<noteq> c"
  with False have "dropWhile ((=) c) s = s" "dropWhile ((=) c) (rev s) = rev s"
    by (auto simp: dropWhile_eq_self_iff hd_rev)
  then show ?thesis by (simp add: trim_char_def)
qed (simp add: trim_char_def)

lemma trim_space_id: "\<forall>c \<in> set s. \<not> is_space c \<Longrightarrow> trim_space s = s"
proof -
  assume ns: "\<forall>c \<in> set s. \<not> is_space c"
  then have "dropWhile is_space s = s" "dropWhile is_space (rev s) = rev s"
    by (auto simp: dropWhile_eq_self_iff hd_rev)
  then show ?thesis by (simp add: trim_space_def)
qed

definition slug_form :: "string \<Rightarrow> bool" where
  "slug_form s \<longleftrightarrow> s \<noteq> '''' \<and> length s \<le> 24 \<and> set s \<subseteq> insert CHR ''-'' {c. is_slug_char c} \<and>
     no_pair CHR ''-'' s \<and> hd s \<noteq> CHR ''-'' \<and> last s \<noteq> CHR ''-''"

lemma slug_char_facts:
  assumes "c = CHR ''-'' \<or> is_slug_char c"
  shows "\<not> is_space c" "lower_char c = c"
proof -
  have n: "of_char c = (45::nat) \<or> (97 \<le> (of_char c :: nat) \<and> (of_char c :: nat) \<le> 122) \<or> (48 \<le> (of_char c :: nat) \<and> (of_char c :: nat) \<le> 57)"
    using assms by (auto simp: is_slug_char_def Let_def)
  then show "lower_char c = c" by (auto simp: lower_char_def Let_def)
  show "\<not> is_space c"
  proof
    assume "is_space c"
    then have "(of_char c :: nat) \<le> 32" by (auto simp: is_space_def)
    with n show False by auto
  qed
qed

lemma slug_of_form: "slug_form s \<Longrightarrow> slug s = s"
proof -
  assume f: "slug_form s"
  then have cs: "c = CHR ''-'' \<or> is_slug_char c" if "c \<in> set s" for c using that by (auto simp: slug_form_def)
  have "trim_space s = s" by (rule trim_space_id) (use cs slug_char_facts in blast)
  moreover have "to_lower s = s" unfolding to_lower_def by (rule map_idI) (use cs slug_char_facts in blast)
  moreover have "replace_runs (\<lambda>c. \<not> is_slug_char c) CHR ''-'' False s = s"
    by (rule replace_runs_id) (use cs f in \<open>auto simp: slug_form_def is_slug_char_def\<close>)
  moreover have "trim_char CHR ''-'' s = s" by (rule trim_char_id) (use f in \<open>simp add: slug_form_def\<close>)
  ultimately show ?thesis using f by (simp add: slug_def slug_form_def Let_def)
qed

lemma slug_has_form: "slug_form (slug s)"
proof -
  let ?D = "CHR ''-''"
  define s2 where "s2 = replace_runs (\<lambda>c. \<not> is_slug_char c) ?D False (to_lower (trim_space s))"
  define s3 where "s3 = trim_char ?D s2"
  define s4 where "s4 = (if length s3 > 24 then trim_char ?D (take 24 s3) else s3)"
  have np: "\<not> is_slug_char ?D" by (simp add: is_slug_char_def)
  have "set s2 \<subseteq> insert ?D {c. is_slug_char c}"
    using set_replace_runs [of "\<lambda>c. \<not> is_slug_char c" ?D False "to_lower (trim_space s)"] by (auto simp: s2_def)
  then have "set s3 \<subseteq> insert ?D {c. is_slug_char c}" using set_trim_char [of ?D s2] by (auto simp: s3_def)
  then have chars: "set s4 \<subseteq> insert ?D {c. is_slug_char c}"
    using set_trim_char [of ?D "take 24 s3"] set_take_subset [of 24 s3] by (auto simp: s4_def)
  have "no_pair ?D s3" using no_pair_trim no_pair_replace_runs [of "\<lambda>c. \<not> is_slug_char c"] np by (simp add: s3_def s2_def)
  then have pair: "no_pair ?D s4" by (simp add: s4_def no_pair_trim no_pair_take)
  have len: "length s4 \<le> 24" using length_trim_char [of ?D "take 24 s3"] by (auto simp: s4_def)
  have ends: "s4 = [] \<or> hd s4 \<noteq> ?D \<and> last s4 \<noteq> ?D"
    using hd_trim_char [of ?D] last_trim_char [of ?D] by (auto simp: s4_def s3_def split: if_splits)
  have eq: "slug s = (if s4 = [] then ''task'' else s4)"
    by (simp only: slug_def Let_def s2_def s3_def s4_def)
  show ?thesis
  proof (cases "s4 = []")
    case True then show ?thesis by (simp add: eq slug_form_def is_slug_char_def)
  next
    case False with chars pair len ends show ?thesis by (simp add: eq slug_form_def)
  qed
qed

text \<open>
  The name of a branch is safe wherever a title comes from. A slug is never empty, has at most 24
  characters, all of them lower-case letters, digits and single hyphens that do not stand at its
  ends; slugging it again changes nothing. So a swarm's branch starts with its prefix, and what
  follows up to the id holds no space, dot, slash, or option-like run of hyphens.
\<close>
theorem slug_well_formed:
  "slug s \<noteq> '''' \<and> length (slug s) \<le> 24 \<and> set (slug s) \<subseteq> insert CHR ''-'' {c. is_slug_char c} \<and>
   no_pair CHR ''-'' (slug s) \<and> hd (slug s) \<noteq> CHR ''-'' \<and> last (slug s) \<noteq> CHR ''-'' \<and> slug (slug s) = slug s \<and>
   length (swarm_branch title kind i) \<le> 64"
proof -
  have len: "length (slug x) \<le> 24" for x using slug_has_form [of x] by (simp add: slug_form_def)
  have "length (short_id i) \<le> 8" by (simp add: short_id_def Let_def)
  with len [of title] len [of kind] have "length (swarm_branch title kind i) \<le> 64" by (simp add: swarm_branch_def)
  with slug_has_form [of s] slug_of_form [OF slug_has_form [of s]] show ?thesis by (simp add: slug_form_def)
qed

subsection \<open>What the scan finds\<close>

text \<open>
  The reference: a string literal, and a text whose braces outside literals match. An object is
  such a text between braces.
\<close>

inductive literal_rest :: "string \<Rightarrow> bool" where
  close: "literal_rest [CHR 0x22]"
| plain: "c \<noteq> CHR 0x22 \<Longrightarrow> c \<noteq> CHR 0x5C \<Longrightarrow> literal_rest s \<Longrightarrow> literal_rest (c # s)"
| escape: "literal_rest s \<Longrightarrow> literal_rest (CHR 0x5C # c # s)"

inductive balanced :: "string \<Rightarrow> bool" where
  empty: "balanced []"
| other: "c \<notin> {CHR 0x22, CHR ''{'', CHR ''}''} \<Longrightarrow> balanced s \<Longrightarrow> balanced (c # s)"
| literal: "literal_rest l \<Longrightarrow> balanced s \<Longrightarrow> balanced (CHR 0x22 # l @ s)"
| object: "balanced b \<Longrightarrow> balanced s \<Longrightarrow> balanced (CHR ''{'' # b @ CHR ''}'' # s)"

definition object_text :: "string \<Rightarrow> bool" where
  "object_text s \<longleftrightarrow> (\<exists>b. balanced b \<and> s = CHR ''{'' # b @ [CHR ''}''])"

lemma balanced_append: "balanced s \<Longrightarrow> balanced t \<Longrightarrow> balanced (s @ t)"
proof (induction rule: balanced.induct)
  case (literal l s)
  then show ?case using balanced.literal [of l "s @ t"] by simp
next
  case (object b s)
  then show ?case using balanced.object [of b "s @ t"] by simp
qed (auto intro: balanced.other)

text \<open>The scan with the text since the start in the place of the two indices.\<close>

fun objects :: "bool \<Rightarrow> bool \<Rightarrow> nat \<Rightarrow> string \<Rightarrow> string \<Rightarrow> string list" where
  "objects in_string escaped d cur [] = []"
| "objects in_string escaped d cur (r # rs) =
     (let cur' = cur @ [r]
      in if in_string
         then if escaped then objects True False d cur' rs
              else if r = CHR 0x5C then objects True True d cur' rs
              else objects (r \<noteq> CHR 0x22) False d cur' rs
         else if r = CHR 0x22 then objects (d > 0) escaped d (if d = 0 then [] else cur') rs
         else if r = CHR ''{'' then objects False escaped (Suc d) cur' rs
         else if r = CHR ''}''
         then if d = 0 then objects False escaped d [] rs
              else if d = 1 then cur' # objects False escaped 0 [] rs
              else objects False escaped (d - 1) cur' rs
         else objects False escaped d (if d = 0 then [] else cur') rs)"

definition since :: "nat option \<Rightarrow> string \<Rightarrow> string" where
  "since st pre = (case st of Some s \<Rightarrow> drop s pre | None \<Rightarrow> [])"

definition scan_inv :: "string \<Rightarrow> bool \<Rightarrow> nat \<Rightarrow> nat option \<Rightarrow> bool" where
  "scan_inv pre in_string d st \<longleftrightarrow>
     (case st of None \<Rightarrow> d = 0 \<and> \<not> in_string | Some s \<Rightarrow> d > 0 \<and> s \<le> length pre)"

lemma scan_objects:
  "scan_inv pre ins d st \<Longrightarrow>
   balanced_scan (pre @ rest) (length pre) ins esc d st rest = objects ins esc d (since st pre) rest"
proof (induction rest arbitrary: pre ins esc d st)
  case (Cons r rs)
  have IH: "balanced_scan (pre @ r # rs) (Suc (length pre)) ins' esc' d' st' rs = objects ins' esc' d' (since st' (pre @ [r])) rs"
    if "scan_inv (pre @ [r]) ins' d' st'" for ins' esc' d' st'
    using Cons.IH [OF that, of esc'] by simp
  show ?case
  proof (cases st)
    case None
    with Cons.prems have d: "d = 0" "\<not> ins" by (simp_all add: scan_inv_def)
    have n: "scan_inv (pre @ [r]) False 0 None" and s: "scan_inv (pre @ [r]) False (Suc 0) (Some (length pre))"
      by (simp_all add: scan_inv_def)
    show ?thesis using IH [OF n] IH [OF s] by (auto simp: None d since_def Let_def)
  next
    case (Some s)
    with Cons.prems have d: "d > 0" "s \<le> length pre" by (simp_all add: scan_inv_def)
    have n: "scan_inv (pre @ [r]) False 0 None" and k: "scan_inv (pre @ [r]) b (Suc k) (Some s)" for b k
      using d by (simp_all add: scan_inv_def)
    obtain k where k2: "d = Suc k" using d gr0_conv_Suc by auto
    define raw c1 where "raw = pre @ r # rs" and "c1 = since (Some s) pre @ [r]"
    have cur: "since (Some s) (pre @ [r]) = c1" "since None (pre @ [r]) = []" "drop s (take (Suc (length pre)) raw) = c1"
      using d by (simp_all add: since_def c1_def raw_def)
    have step: "balanced_scan raw (Suc (length pre)) False e 0 None rs = objects False e 0 [] rs"
      "balanced_scan raw (Suc (length pre)) b e (Suc m) (Some s) rs = objects b e (Suc m) c1 rs" for b e m
      using IH [OF n, of e] IH [OF k, of b e m] by (simp_all add: cur raw_def)
    have "balanced_scan raw (length pre) ins esc (Suc k) (Some s) (r # rs) =
        objects ins esc (Suc k) (since (Some s) pre) (r # rs)"
      by (cases k) (simp_all only: balanced_scan.simps objects.simps Let_def c1_def [symmetric] cur step option.case
          nat.distinct simp_thms zero_less_Suc if_True if_False nat.inject diff_Suc_Suc diff_zero One_nat_def)
    then show ?thesis by (simp only: Some k2 raw_def)
  qed
qed simp

lemma balanced_objects: "balanced_planner_json_objects raw = objects False False 0 [] raw"
  using scan_objects [of "[]" False 0 None raw False] by (simp add: balanced_planner_json_objects_def scan_inv_def since_def)

lemma objects_literal:
  "literal_rest l \<Longrightarrow> objects True False (Suc d) cur (l @ rest) = objects False False (Suc d) (cur @ l) rest"
  by (induction arbitrary: cur rule: literal_rest.induct) (simp_all add: Let_def)

lemma objects_balanced:
  "balanced b \<Longrightarrow> objects False False (Suc d) cur (b @ rest) = objects False False (Suc d) (cur @ b) rest"
proof (induction arbitrary: d cur rest rule: balanced.induct)
  case (literal l s)
  have "objects False False (Suc d) cur ((CHR 0x22 # l @ s) @ rest) = objects True False (Suc d) (cur @ [CHR 0x22]) (l @ s @ rest)"
    by (simp add: Let_def)
  then show ?case by (simp add: objects_literal [OF literal.hyps(1)] literal.IH)
next
  case (object b s)
  have "objects False False (Suc d) cur ((CHR ''{'' # b @ CHR ''}'' # s) @ rest) =
    objects False False (Suc (Suc d)) (cur @ CHR ''{'' # b) (CHR ''}'' # s @ rest)"
    using object.IH(1) [of "Suc d" "cur @ [CHR ''{'']" "CHR ''}'' # s @ rest"] by (simp add: Let_def)
  then show ?case by (simp add: Let_def object.IH(2))
qed (simp_all add: Let_def)

lemma objects_skip: "CHR ''{'' \<notin> set pre \<Longrightarrow> objects False False 0 [] (pre @ rest) = objects False False 0 [] rest"
  by (induction pre) (auto simp: Let_def)

lemma objects_object:
  assumes "CHR ''{'' \<notin> set pre" "object_text c"
  shows "objects False False 0 [] (pre @ c @ post) = c # objects False False 0 [] post"
proof -
  from assms(2) obtain b where b: "balanced b" and c: "c = CHR ''{'' # b @ [CHR ''}'']" by (auto simp: object_text_def)
  have "objects False False 0 [] (c @ post) = objects False False (Suc 0) [CHR ''{''] (b @ CHR ''}'' # post)"
    by (simp add: c Let_def)
  then show ?thesis by (simp add: objects_skip [OF assms(1)] objects_balanced [OF b] Let_def c)
qed

text \<open>What stands before the cursor inside an object: as many open braces as the depth.\<close>

inductive opened :: "nat \<Rightarrow> string \<Rightarrow> bool" where
  first: "balanced b \<Longrightarrow> opened (Suc 0) (CHR ''{'' # b)"
| deeper: "opened (Suc d) u \<Longrightarrow> balanced b \<Longrightarrow> opened (Suc (Suc d)) (u @ CHR ''{'' # b)"

inductive_cases opened_zero: "opened 0 u"
inductive_cases opened_one: "opened (Suc 0) u"
inductive_cases opened_more: "opened (Suc (Suc d)) u"

lemma opened_extend: "opened d u \<Longrightarrow> balanced s \<Longrightarrow> opened d (u @ s)"
proof (induction rule: opened.cases)
  case (first b)
  then show ?case using opened.first [OF balanced_append [of b s]] by simp
next
  case (deeper d u b)
  then show ?case using opened.deeper [OF _ balanced_append [of b s]] by simp
qed

lemma opened_close: "opened (Suc (Suc d)) u \<Longrightarrow> opened (Suc d) (u @ [CHR ''}''])"
proof (erule opened_more)
  fix v b assume u: "u = v @ CHR ''{'' # b" and v: "opened (Suc d) v" and b: "balanced b"
  have "balanced (CHR ''{'' # b @ CHR ''}'' # [])" by (rule balanced.object [OF b balanced.empty])
  from opened_extend [OF v this] show ?thesis by (simp add: u)
qed

lemma opened_object: "opened (Suc 0) u \<Longrightarrow> object_text (u @ [CHR ''}''])"
  by (erule opened_one) (auto simp: object_text_def)

text \<open>Inside a literal, the part read so far waits for its rest.\<close>

definition in_literal :: "nat \<Rightarrow> bool \<Rightarrow> string \<Rightarrow> bool" where
  "in_literal d escaped cur \<longleftrightarrow>
     (\<exists>u q. opened d u \<and> cur = u @ CHR 0x22 # q \<and>
        (\<forall>l. (if escaped then \<exists>c m. l = c # m \<and> literal_rest m else literal_rest l) \<longrightarrow> literal_rest (q @ l)))"

definition cursor_inv :: "bool \<Rightarrow> bool \<Rightarrow> nat \<Rightarrow> string \<Rightarrow> bool" where
  "cursor_inv in_string escaped d cur \<longleftrightarrow>
     (if in_string then in_literal d escaped cur
      else \<not> escaped \<and> (if d = 0 then cur = [] else opened d cur))"

lemma in_literal_start: "opened d u \<Longrightarrow> in_literal d False (u @ [CHR 0x22])"
  unfolding in_literal_def by (rule exI [of _ u], rule exI [of _ "[]"]) simp

lemma in_literal_plain: "in_literal d False cur \<Longrightarrow> c \<noteq> CHR 0x22 \<Longrightarrow> c \<noteq> CHR 0x5C \<Longrightarrow> in_literal d False (cur @ [c])"
  unfolding in_literal_def
proof (elim exE conjE)
  fix u q assume a: "opened d u" "cur = u @ CHR 0x22 # q" "\<forall>l. (if False then \<exists>c m. l = c # m \<and> literal_rest m else literal_rest l) \<longrightarrow> literal_rest (q @ l)"
    and c: "c \<noteq> CHR 0x22" "c \<noteq> CHR 0x5C"
  from a c show "\<exists>u q. opened d u \<and> cur @ [c] = u @ CHR 0x22 # q \<and>
      (\<forall>l. (if False then \<exists>c m. l = c # m \<and> literal_rest m else literal_rest l) \<longrightarrow> literal_rest (q @ l))"
    by (intro exI [of _ u] exI [of _ "q @ [c]"]) (simp add: literal_rest.plain)
qed

lemma in_literal_escape: "in_literal d False cur \<Longrightarrow> in_literal d True (cur @ [CHR 0x5C])"
  unfolding in_literal_def
proof (elim exE conjE)
  fix u q assume a: "opened d u" "cur = u @ CHR 0x22 # q" "\<forall>l. (if False then \<exists>c m. l = c # m \<and> literal_rest m else literal_rest l) \<longrightarrow> literal_rest (q @ l)"
  from a show "\<exists>u q. opened d u \<and> cur @ [CHR 0x5C] = u @ CHR 0x22 # q \<and>
      (\<forall>l. (if True then \<exists>c m. l = c # m \<and> literal_rest m else literal_rest l) \<longrightarrow> literal_rest (q @ l))"
    by (intro exI [of _ u] exI [of _ "q @ [CHR 0x5C]"]) (auto intro: literal_rest.escape)
qed

lemma in_literal_escaped: "in_literal d True cur \<Longrightarrow> in_literal d False (cur @ [c])"
  unfolding in_literal_def
proof (elim exE conjE)
  fix u q assume a: "opened d u" "cur = u @ CHR 0x22 # q" "\<forall>l. (if True then \<exists>c m. l = c # m \<and> literal_rest m else literal_rest l) \<longrightarrow> literal_rest (q @ l)"
  from a show "\<exists>u q. opened d u \<and> cur @ [c] = u @ CHR 0x22 # q \<and>
      (\<forall>l. (if False then \<exists>c m. l = c # m \<and> literal_rest m else literal_rest l) \<longrightarrow> literal_rest (q @ l))"
    by (intro exI [of _ u] exI [of _ "q @ [c]"]) auto
qed

lemma in_literal_close: "in_literal d False cur \<Longrightarrow> opened d (cur @ [CHR 0x22])"
  unfolding in_literal_def
proof (elim exE conjE)
  fix u q assume u: "opened d u" and cur: "cur = u @ CHR 0x22 # q"
    and q: "\<forall>l. (if False then \<exists>c m. l = c # m \<and> literal_rest m else literal_rest l) \<longrightarrow> literal_rest (q @ l)"
  from q have "literal_rest (q @ [CHR 0x22])" by (simp add: literal_rest.close)
  from balanced.literal [OF this balanced.empty] have "balanced (CHR 0x22 # q @ [CHR 0x22])" by simp
  from opened_extend [OF u this] show "opened d (cur @ [CHR 0x22])" by (simp add: cur)
qed

lemma opened_pos: "opened d u \<Longrightarrow> d > 0"
  by (auto elim: opened.cases)

lemma in_literal_pos: "in_literal d e u \<Longrightarrow> d > 0"
  by (auto simp: in_literal_def opened_pos)

lemma sublist_tail: "sublist c rs \<Longrightarrow> sublist c (us @ rs)"
  unfolding sublist_def by (metis append.assoc)

lemma objects_found:
  "cursor_inv ins esc d cur \<Longrightarrow> c \<in> set (objects ins esc d cur rest) \<Longrightarrow> object_text c \<and> sublist c (cur @ rest)"
proof (induction rest arbitrary: ins esc d cur)
  case (Cons r rs)
  have found: "object_text c \<and> sublist c (cur @ r # rs)"
    if "cursor_inv ins' esc' d' zs" "c \<in> set (objects ins' esc' d' zs rs)" "zs = [] \<or> zs = cur @ [r]" for ins' esc' d' zs
  proof -
    from Cons.IH [OF that(1,2)] have "object_text c" "sublist c (zs @ rs)" by blast+
    with that(3) sublist_tail [of c rs "cur @ [r]"] show ?thesis by auto
  qed
  show ?case
  proof (cases ins)
    case True
    with Cons.prems(1) have lit: "in_literal d esc cur" by (simp add: cursor_inv_def)
    consider (e) "esc" | (b) "\<not> esc" "r = CHR 0x5C" | (q) "\<not> esc" "r = CHR 0x22" | (p) "\<not> esc" "r \<noteq> CHR 0x5C" "r \<noteq> CHR 0x22"
      by blast
    then show ?thesis
    proof cases
      case e
      with lit have i: "cursor_inv True False d (cur @ [r])" by (simp add: cursor_inv_def in_literal_escaped)
      from found [OF i] Cons.prems(2) True e show ?thesis by (simp add: Let_def)
    next
      case b
      with lit have i: "cursor_inv True True d (cur @ [r])" by (simp add: cursor_inv_def in_literal_escape)
      from found [OF i] Cons.prems(2) True b show ?thesis by (simp add: Let_def)
    next
      case q
      with lit have i: "cursor_inv False False d (cur @ [r])"
        using in_literal_pos [OF lit] by (simp add: cursor_inv_def in_literal_close)
      from found [OF i] Cons.prems(2) True q show ?thesis by (simp add: Let_def)
    next
      case p
      with lit have i: "cursor_inv True False d (cur @ [r])" by (simp add: cursor_inv_def in_literal_plain)
      from found [OF i] Cons.prems(2) True p show ?thesis by (simp add: Let_def)
    qed
  next
    case out: False
    with Cons.prems(1) have esc: "\<not> esc" and cur: "if d = 0 then cur = [] else opened d cur" by (simp_all add: cursor_inv_def)
    have zero: "cursor_inv False False 0 []" by (simp add: cursor_inv_def)
    show ?thesis
    proof (cases d)
      case 0
      have one: "cursor_inv False False (Suc 0) [CHR ''{'']"
        using opened.first [OF balanced.empty] by (simp add: cursor_inv_def)
      from cur 0 have nil: "cur = []" by simp
      from Cons.prems(2) out esc nil 0
      have "c \<in> set (objects False False (Suc 0) [CHR ''{''] rs) \<and> r = CHR ''{'' \<or> c \<in> set (objects False False 0 [] rs)"
        by (simp add: Let_def split: if_split_asm)
      then show ?thesis using found [OF zero] found [OF one] nil by blast
    next
      case (Suc k)
      with cur have o: "opened (Suc k) cur" by simp
      consider (q) "r = CHR 0x22" | (l) "r = CHR ''{''" | (r) "r = CHR ''}''" | (p) "r \<notin> {CHR 0x22, CHR ''{'', CHR ''}''}" by blast
      then show ?thesis
      proof cases
        case q
        from in_literal_start [OF o] have i: "cursor_inv True False d (cur @ [r])" by (simp add: cursor_inv_def q Suc)
        from found [OF i] Cons.prems(2) out esc q Suc show ?thesis by (simp add: Let_def)
      next
        case l
        from opened.deeper [OF o balanced.empty] have i: "cursor_inv False False (Suc d) (cur @ [r])" by (simp add: cursor_inv_def l Suc)
        from found [OF i] Cons.prems(2) out esc l Suc show ?thesis by (simp add: Let_def)
      next
        case r
        show ?thesis
        proof (cases k)
          case 0
          have "sublist (cur @ [r]) (cur @ r # rs)" using sublist_appendI [of "cur @ [r]" "[]" rs] by simp
          with opened_object o 0 r have here: "object_text (cur @ [r]) \<and> sublist (cur @ [r]) (cur @ r # rs)" by simp
          from found [OF zero] here Cons.prems(2) out esc r Suc 0 show ?thesis by (auto simp: Let_def)
        next
          case (Suc m)
          from opened_close o Suc r have i: "cursor_inv False False (Suc m) (cur @ [r])" by (simp add: cursor_inv_def)
          from found [OF i] Cons.prems(2) out esc r Suc \<open>d = Suc k\<close> show ?thesis by (simp add: Let_def)
        qed
      next
        case p
        from balanced.other [OF p balanced.empty] opened_extend [OF o] have i: "cursor_inv False False d (cur @ [r])"
          by (simp add: cursor_inv_def Suc)
        from found [OF i] Cons.prems(2) out esc p Suc show ?thesis by (simp add: Let_def)
      qed
    qed
  qed
qed simp

text \<open>
  C35: The extraction of a plan is right. Every candidate is an object of the text, with its braces
  matched outside of string literals; and an object after any text without an opening brace,
  quotes and closing braces allowed, is the next candidate, whatever follows it. A model that
  wraps its answer in prose or fences still gets its plan read.
\<close>
theorem planner_objects_found:
  "(c \<in> set (balanced_planner_json_objects raw) \<longrightarrow> object_text c \<and> sublist c raw) \<and>
   (object_text c \<and> CHR ''{'' \<notin> set pre \<longrightarrow>
      balanced_planner_json_objects (pre @ c @ post) = c # balanced_planner_json_objects post)"
proof -
  have "cursor_inv False False 0 []" by (simp add: cursor_inv_def)
  from objects_found [OF this, of c raw] objects_object [of pre c post] show ?thesis by (auto simp: balanced_objects)
qed

theorem planner_objects_found_witness:
  "balanced_planner_json_objects ''Plan: {x} done'' = [''{x}'']"
proof -
  have b: "balanced ''x''" by (rule balanced.other [OF _ balanced.empty]) simp
  have o: "object_text ''{x}''" unfolding object_text_def by (rule exI [of _ "''x''"]) (simp add: b)
  have "balanced_planner_json_objects ''Plan: {x} done'' = ''{x}'' # balanced_planner_json_objects '' done''"
    using planner_objects_found [of "''{x}''" "[]" "''Plan: ''" "'' done''"] o by simp
  moreover have "balanced_planner_json_objects '' done'' = []" by code_simp
  ultimately show ?thesis by simp
qed

end
