(* ===== verification/SwarmPrompts.thy ===== *)
theory SwarmPrompts
  imports SwarmPlan
begin

section \<open>The prompts of a swarm\<close>

text \<open>
  The prompts of \<open>internal/service/swarm_service.go\<close>, line by line as the code has them. They are
  kept apart because they only matter as texts that are never empty; a newline joins their lines.
\<close>

definition text_lines :: "string list \<Rightarrow> string" where
  "text_lines ls = join_strings [CHR 0x0A] ls"

lemma text_lines_Cons_not_Nil: "l \<noteq> [] \<Longrightarrow> text_lines (l # ls) \<noteq> []"
  by (cases ls) (simp_all add: text_lines_def)

definition planner_prompt :: "string \<Rightarrow> int \<Rightarrow> string" where
  "planner_prompt parent max_n = text_lines
     [''You are the planner for a swarm task.'',
      [],
      ''Your only job is to decompose the goal into worker tasks and handoff instructions. You are not a '' @
      ''worker, reviewer, or merger.'',
      [],
      ''Goal:'',
      parent,
      [],
      ''Role boundaries:'',
      ''- Do not implement the requested feature or bug fix yourself.'',
      ''- Do not modify, create, delete, format, or regenerate files.'',
      ''- Do not run build, test, formatter, generator, git, or shell commands.'',
      ''- Do not investigate the repository beyond what is necessary to name high-level ownership and '' @
      ''read/write scopes.'',
      ''- Delegate all implementation, verification, review, and merge work to workers, reviewer, and '' @
      ''merger through the JSON fields.'',
      [],
      ''Worker scheduling constraint:'',
      ''- Every entry in workers runs immediately and in parallel with every other worker. There is no '' @
      ''dependency scheduling between workers: you cannot make one worker wait for another worker to '' @
      ''finish, and natural-language phrasing like '' @ [CHR 0x22] @ ''after the other workers complete'' @
      [CHR 0x22] @ '' or '' @ [CHR 0x22] @ ''once implementation is done'' @ [CHR 0x22] @
      '' inside a worker'' @ [CHR 0x27] @ ''s title/prompt will NOT be enforced.'',
      ''- Never create a worker whose job is to validate, test, or review the output of other workers in '' @
      ''this same plan. That work belongs in reviewer_prompt (runs only after all required workers '' @
      ''complete) and merger_prompt (runs only after the reviewer). Only put independent, '' @
      ''immediately-runnable implementation objectives in workers.'',
      [],
      ''Output contract:'',
      ''- Return exactly one raw JSON object and nothing else.'',
      ''- Do not wrap the JSON in Markdown fences.'',
      ''- Do not include progress notes, tool transcripts, analysis, or prose outside the JSON object.'',
      ''- The JSON object must contain workers and may contain reviewer_prompt, merger_prompt, and notes.'',
      [],
      ''Create up to '' @ (show_int max_n) @
      '' workers. Each worker must have a bounded objective, clear ownership, and an isolation mode that '' @
      ''can start immediately without waiting on any other worker. Prefer non-overlapping write scopes.'',
      [],
      ''JSON schema:'',
      [CHR 0x09] @ ''{'' @ [CHR 0x22] @ ''workers'' @ [CHR 0x22] @ '':[{'' @ [CHR 0x22] @ ''title'' @
      [CHR 0x22] @ '':'' @ [CHR 0x22] @ ''Backend worker'' @ [CHR 0x22] @ '','' @ [CHR 0x22] @ ''prompt'' @
      [CHR 0x22] @ '':'' @ [CHR 0x22] @ ''Implement API/service changes...'' @ [CHR 0x22] @ '','' @
      [CHR 0x22] @ ''worker_kind'' @ [CHR 0x22] @ '':'' @ [CHR 0x22] @ ''backend'' @ [CHR 0x22] @ '','' @
      [CHR 0x22] @ ''ownership'' @ [CHR 0x22] @ '':['' @ [CHR 0x22] @ ''internal/service'' @ [CHR 0x22] @
      ''],'' @ [CHR 0x22] @ ''isolation'' @ [CHR 0x22] @ '':'' @ [CHR 0x22] @ ''worktree'' @ [CHR 0x22] @
      '','' @ [CHR 0x22] @ ''write_scope'' @ [CHR 0x22] @ '':['' @ [CHR 0x22] @ ''internal/service'' @
      [CHR 0x22] @ ''],'' @ [CHR 0x22] @ ''read_scope'' @ [CHR 0x22] @ '':['' @ [CHR 0x22] @ ''.'' @
      [CHR 0x22] @ ''],'' @ [CHR 0x22] @ ''required'' @ [CHR 0x22] @ '':true}],'' @ [CHR 0x22] @
      ''reviewer_prompt'' @ [CHR 0x22] @ '':'' @ [CHR 0x22] @ ''Review worker diffs...'' @ [CHR 0x22] @ '','' @
      [CHR 0x22] @ ''merger_prompt'' @ [CHR 0x22] @ '':'' @ [CHR 0x22] @ ''Merge accepted worker outputs...'' @
      [CHR 0x22] @ '','' @ [CHR 0x22] @ ''notes'' @ [CHR 0x22] @ '':'' @ [CHR 0x22] @
      ''Optional short plan summary.'' @ [CHR 0x22] @ ''}'']"

lemma planner_prompt_not_Nil [simp]: "planner_prompt parent max_n \<noteq> []"
  unfolding planner_prompt_def by (rule text_lines_Cons_not_Nil) simp

definition coordinator_followup_prompt :: "string \<Rightarrow> string \<Rightarrow> int \<Rightarrow> string" where
  "coordinator_followup_prompt parent followup generation = text_lines
     [''You are coordinating a follow-up for an existing swarm task.'',
      [],
      ''Your only job is to decide which workers need new delegated work. You are not a worker, reviewer, '' @
      ''or merger.'',
      [],
      ''Parent goal:'',
      parent,
      [],
      ''Follow-up request:'',
      followup,
      [],
      ''Role boundaries:'',
      ''- Do not implement the follow-up yourself.'',
      ''- Do not modify, create, delete, format, or regenerate files.'',
      ''- Do not run build, test, formatter, generator, git, or shell commands.'',
      ''- Do not investigate the repository beyond what is necessary to name affected workers and '' @
      ''high-level scopes.'',
      ''- Delegate all implementation, verification, review, and merge work to workers, reviewer, and '' @
      ''merger through the JSON fields.'',
      [],
      ''Worker scheduling constraint:'',
      ''- Every entry in workers runs immediately and in parallel with every other worker, including '' @
      ''carried-forward existing workers. There is no dependency scheduling between workers: '' @
      ''natural-language phrasing like '' @ [CHR 0x22] @ ''after the other workers complete'' @ [CHR 0x22] @
      '' inside a worker'' @ [CHR 0x27] @ ''s title/prompt will NOT be enforced.'',
      ''- Never create or update a worker whose job is to validate, test, or review the output of other '' @
      ''workers in this plan. That work belongs in reviewer_prompt (runs only after all required workers '' @
      ''complete) and merger_prompt (runs only after the reviewer).'',
      [],
      ''Output contract:'',
      ''- Return exactly one raw JSON object and nothing else.'',
      ''- Do not wrap the JSON in Markdown fences.'',
      ''- Do not include progress notes, tool transcripts, analysis, or prose outside the JSON object.'',
      ''- The JSON object must contain workers and may contain reviewer_prompt, merger_prompt, and notes.'',
      [],
      ''For existing affected workers, include their existing task_id. Omit unaffected workers. For new '' @
      ''workers, omit task_id.'',
      [],
      ''This is swarm generation '' @ (show_int generation) @ ''. JSON schema:'',
      [CHR 0x09] @ ''{'' @ [CHR 0x22] @ ''workers'' @ [CHR 0x22] @ '':[{'' @ [CHR 0x22] @ ''task_id'' @
      [CHR 0x22] @ '':'' @ [CHR 0x22] @ ''existing-worker-task-id-if-applicable'' @ [CHR 0x22] @ '','' @
      [CHR 0x22] @ ''title'' @ [CHR 0x22] @ '':'' @ [CHR 0x22] @ ''Backend worker'' @ [CHR 0x22] @ '','' @
      [CHR 0x22] @ ''prompt'' @ [CHR 0x22] @ '':'' @ [CHR 0x22] @ ''Specific follow-up for this worker...'' @
      [CHR 0x22] @ '','' @ [CHR 0x22] @ ''worker_kind'' @ [CHR 0x22] @ '':'' @ [CHR 0x22] @ ''backend'' @
      [CHR 0x22] @ '','' @ [CHR 0x22] @ ''ownership'' @ [CHR 0x22] @ '':['' @ [CHR 0x22] @
      ''internal/service'' @ [CHR 0x22] @ ''],'' @ [CHR 0x22] @ ''isolation'' @ [CHR 0x22] @ '':'' @
      [CHR 0x22] @ ''worktree'' @ [CHR 0x22] @ '','' @ [CHR 0x22] @ ''write_scope'' @ [CHR 0x22] @ '':['' @
      [CHR 0x22] @ ''internal/service'' @ [CHR 0x22] @ ''],'' @ [CHR 0x22] @ ''read_scope'' @ [CHR 0x22] @
      '':['' @ [CHR 0x22] @ ''.'' @ [CHR 0x22] @ ''],'' @ [CHR 0x22] @ ''required'' @ [CHR 0x22] @
      '':true}],'' @ [CHR 0x22] @ ''reviewer_prompt'' @ [CHR 0x22] @ '':'' @ [CHR 0x22] @
      ''Review only the changed/new worker outputs plus carried-forward completed workers...'' @ [CHR 0x22] @
      '','' @ [CHR 0x22] @ ''merger_prompt'' @ [CHR 0x22] @ '':'' @ [CHR 0x22] @
      ''Merge the updated accepted outputs into the parent final result...'' @ [CHR 0x22] @ '','' @
      [CHR 0x22] @ ''notes'' @ [CHR 0x22] @ '':'' @ [CHR 0x22] @ ''Optional coordination summary.'' @
      [CHR 0x22] @ ''}'']"

lemma coordinator_followup_prompt_not_Nil [simp]: "coordinator_followup_prompt parent followup generation \<noteq> []"
  unfolding coordinator_followup_prompt_def by (rule text_lines_Cons_not_Nil) simp

definition worker_prompt :: "string \<Rightarrow> planner_worker \<Rightarrow> string \<Rightarrow> string" where
  "worker_prompt parent w worktree = text_lines
     [''You are a worker in an OpenVibely swarm task.'',
      [],
      ''Parent goal:'',
      parent,
      [],
      ''Your objective:'',
      (pw_prompt w),
      [],
      ''Ownership:'',
      (join_strings '', '' (pw_ownership w)),
      [],
      ''Worktree:'',
      worktree,
      [],
      ''Stay inside your ownership unless the task is impossible without crossing it. If you cross '' @
      ''ownership, say exactly what changed and why. Produce a concise summary, tests run, changed files, '' @
      ''and any handoff notes for reviewer/merger.'']"

lemma worker_prompt_not_Nil [simp]: "worker_prompt parent w worktree \<noteq> []"
  unfolding worker_prompt_def by (rule text_lines_Cons_not_Nil) simp

definition reviewer_prompt :: "string \<Rightarrow> string \<Rightarrow> string" where
  "reviewer_prompt parent prompt = text_lines
     [''You are the reviewer for an OpenVibely swarm task.'',
      [],
      ''Parent goal:'',
      parent,
      [],
      ''Review instruction:'',
      prompt,
      [],
      ''Review the worker changes before merging. Check correctness, tests, conflicts, missing '' @
      ''requirements, ownership violations, and cross-worker incompatibilities. Do not edit source files.'',
      [],
      ''Return a structured report with accepted worker task ids, rejected or blocked worker task ids, '' @
      ''required fixes, merge risks, and tests that should be run by the merger.'']"

lemma reviewer_prompt_not_Nil [simp]: "reviewer_prompt parent prompt \<noteq> []"
  unfolding reviewer_prompt_def by (rule text_lines_Cons_not_Nil) simp

definition merger_prompt :: "string \<Rightarrow> string \<Rightarrow> string \<Rightarrow> string" where
  "merger_prompt parent prompt worktree = text_lines
     [''You are the merger for an OpenVibely swarm task.'',
      [],
      ''Parent goal:'',
      parent,
      [],
      ''Merge worktree:'',
      worktree,
      [],
      ''Merge instruction:'',
      prompt,
      [],
      ''Apply accepted worker changes into the parent merge worktree. Do not use a worker worktree as the '' @
      ''final destination. If conflicts occur, stop and report the conflict. When merging succeeds, produce '' @
      ''the final parent-facing summary, tests run, changed files, and final diff status.'']"

lemma merger_prompt_not_Nil [simp]: "merger_prompt parent prompt worktree \<noteq> []"
  unfolding merger_prompt_def by (rule text_lines_Cons_not_Nil) simp

end
