(* ===== verification/SwarmState.thy ===== *)
theory SwarmState
  imports SwarmPrompts TaskStore WorkerPool
begin

section \<open>The state of the swarm service\<close>

text \<open>
  What \<open>SwarmService\<close> (\<open>internal/service/swarm_service.go\<close>) acts on: the task tables, the worker
  pool, the goals of tasks, the latest completed execution of each task and the results it stored
  for swarm parents. Its methods call the task service (\<open>task_service.go\<close>), which is here too as
  far as they use it. The service is the wired one: its stores and its pool are there.

  A method is a function of the state to an error or a result and the state after it; \<open>bind_run\<close>
  stops at the first error, \<open>attempt\<close> drops an error as the code's assignment to the blank name
  does. The orchestration mutex and the lifecycle lock make each method one step.
\<close>

record exec_result =
  xr_id :: string
  xr_output :: string
  xr_diff :: string
  xr_duration :: int

record swarm_state =
  ss_db :: task_db
  ss_pool :: worker_pool
  ss_goals :: "string \<rightharpoonup> task_goal"
  ss_completed :: "string \<Rightarrow> exec_result option"
  ss_results :: "string \<times> string \<rightharpoonup> string \<times> string \<times> int"

datatype swarm_error = StoreError store_error | PlanError plan_error | SwarmMessage string
  | SwarmRoleActive | CancellationSuperseded | TaskTitleRequired | TaskPromptRequired | InvalidTaskPriority
  | TaskGoalTooLong | ContextDone | AttemptsExhausted | MalformedConfig | InvalidPlannerJSON
  | StopErrors "swarm_error list"

text \<open>
  What is asked outside: the limits and gates of the pool, the text of an error, the JSON decoder,
  whether the context of a call is cancelled at an attempt, whether the stores behind a
  cancellation accept it, and the model selection's stores.
\<close>

record swarm_env =
  sv_pool :: worker_env
  sv_text :: "swarm_error \<Rightarrow> string"
  sv_decode :: "string \<Rightarrow> planner_output option"
  sv_ctx_done :: "nat \<Rightarrow> bool"
  sv_cancels :: "string \<Rightarrow> bool \<times> bool"
  sv_model_stores :: bool
  sv_project_model :: "string \<Rightarrow> unit + string option"
  sv_model_exists :: "string \<Rightarrow> unit + bool"
  sv_default_model :: "unit + string option"

type_synonym 'a run = "swarm_state \<Rightarrow> (swarm_error + 'a) \<times> swarm_state"

definition ret :: "'a \<Rightarrow> 'a run" where
  "ret x s = (Inr x, s)"

definition fail :: "swarm_error \<Rightarrow> 'a run" where
  "fail e s = (Inl e, s)"

definition bind_run :: "'a run \<Rightarrow> ('a \<Rightarrow> 'b run) \<Rightarrow> 'b run" where
  "bind_run m k s = and_then (m s) k"

definition then_run :: "'a run \<Rightarrow> 'b run \<Rightarrow> 'b run" where
  "then_run m n = bind_run m (\<lambda>_. n)"

definition attempt :: "'a run \<Rightarrow> unit run" where
  "attempt m s = (Inr (), snd (m s))"

definition or_else :: "'a run \<Rightarrow> 'a \<Rightarrow> 'a run" where
  "or_else m x s = (case m s of (Inl _, s1) \<Rightarrow> (Inr x, s1) | (Inr y, s1) \<Rightarrow> (Inr y, s1))"

definition stored :: "(task_db \<Rightarrow> (store_error + 'a) \<times> task_db) \<Rightarrow> 'a run" where
  "stored f s =
     (case f (ss_db s) of
        (Inl e, d) \<Rightarrow> (Inl (StoreError e), s\<lparr>ss_db := d\<rparr>)
      | (Inr x, d) \<Rightarrow> (Inr x, s\<lparr>ss_db := d\<rparr>))"

text \<open>The pool looks a task up in the tables; the rest of its environment is given.\<close>

definition pool_env :: "swarm_env \<Rightarrow> task_db \<Rightarrow> worker_env" where
  "pool_env env d = (sv_pool env)\<lparr>we_task := (\<lambda>i. case we_task (sv_pool env) i of Inl u \<Rightarrow> Inl u | Inr _ \<Rightarrow> Inr (get_task i d))\<rparr>"

definition pooled :: "swarm_env \<Rightarrow> (worker_env \<Rightarrow> worker_pool \<Rightarrow> worker_pool) \<Rightarrow> unit run" where
  "pooled env f s = (Inr (), s\<lparr>ss_pool := f (pool_env env (ss_db s)) (ss_pool s)\<rparr>)"

definition submit_task :: "swarm_env \<Rightarrow> task \<Rightarrow> unit run" where
  "submit_task env t = pooled env (\<lambda>e. submit e t)"

definition clear_cancellation :: "string \<Rightarrow> unit run" where
  "clear_cancellation i s = (Inr (), s\<lparr>ss_pool := clear_cancellation_requested i (ss_pool s)\<rparr>)"

fun each :: "('x \<Rightarrow> unit run) \<Rightarrow> 'x list \<Rightarrow> unit run" where
  "each f [] = ret ()"
| "each f (x # xs) = then_run (f x) (each f xs)"

lemma run_simps [simp]:
  "ret x s = (Inr x, s)" "fail e s = (Inl e, s)" "attempt m s = (Inr (), snd (m s))"
  by (simp_all add: ret_def fail_def attempt_def)

lemma bind_run_Inr: "bind_run m k s = (Inr y, s2) \<longleftrightarrow> (\<exists>x s1. m s = (Inr x, s1) \<and> k x s1 = (Inr y, s2))"
  by (cases "m s"; cases "fst (m s)") (auto simp: bind_run_def and_then_def)

lemma bind_run_simps [simp]:
  "m s = (Inl e, s1) \<Longrightarrow> bind_run m k s = (Inl e, s1)" "m s = (Inr x, s1) \<Longrightarrow> bind_run m k s = k x s1"
  by (simp_all add: bind_run_def)

subsection \<open>The task service\<close>

definition normalize_title_and_prompt :: "task \<Rightarrow> swarm_error + task" where
  "normalize_title_and_prompt t =
     (let t1 = t\<lparr>tk_title := trim_space (tk_title t), tk_prompt := trim_space (tk_prompt t)\<rparr>
      in if tk_title t1 = '''' then Inl TaskTitleRequired
         else if tk_prompt t1 = '''' then Inl TaskPromptRequired else Inr t1)"

definition validate_task_priority :: "int \<Rightarrow> bool" where
  "validate_task_priority p \<longleftrightarrow> \<not> (p < 1 \<or> p > 4)"

definition normalize_create_priority :: "task \<Rightarrow> task" where
  "normalize_create_priority t = (if validate_task_priority (tk_priority t) then t else t\<lparr>tk_priority := 2\<rparr>)"

definition new_goal :: "string \<Rightarrow> string \<Rightarrow> string \<Rightarrow> instant \<Rightarrow> task_goal" where
  "new_goal i g objective now =
     \<lparr>tg_task_id = i, tg_goal_id = g, tg_objective = objective, tg_status = GoalActive,
      tg_reason = ''set at task creation'', tg_blocker_key = [], tg_blocker_count = 0, tg_blocker_reason = [],
      tg_blocker_last_seen_at = None, tg_last_checked_at = None, tg_achieved_at = None,
      tg_created_at = now, tg_updated_at = now\<rparr>"

text \<open>The id of the goal is drawn before the transaction that stores the task with it.\<close>

definition new_id :: "string run" where
  "new_id s =
     (case db_ids (ss_db s) of
        [] \<Rightarrow> (Inl (StoreError DbFailure), s)
      | g # gs \<Rightarrow> (Inr g, s\<lparr>ss_db := (ss_db s)\<lparr>db_ids := gs\<rparr>\<rparr>))"

definition store_with_goal :: "string \<Rightarrow> task \<Rightarrow> task run" where
  "store_with_goal objective t =
     (if objective = '''' then stored (create_task t)
      else bind_run new_id (\<lambda>g. bind_run (stored (create_task t)) (\<lambda>t1 s.
             (Inr t1, s\<lparr>ss_goals := (ss_goals s)(tk_id t1 \<mapsto> new_goal (tk_id t1) g objective (db_now (ss_db s)))\<rparr>))))"

definition create_with_goal :: "swarm_env \<Rightarrow> task \<Rightarrow> string \<Rightarrow> task run" where
  "create_with_goal env t goal =
     (case normalize_title_and_prompt t of
        Inl e \<Rightarrow> fail e
      | Inr t1 \<Rightarrow>
          let objective = trim_space goal
          in if objective \<noteq> '''' \<and> length objective > max_task_goal_length then fail TaskGoalTooLong
             else bind_run (store_with_goal objective (normalize_create_priority t1)) (\<lambda>t2.
                    if tk_category t2 = CategoryActive \<and> tk_status t2 \<noteq> StatusBlocked
                    then then_run (submit_task env t2) (ret t2) else ret t2))"

definition task_service_create :: "swarm_env \<Rightarrow> task \<Rightarrow> task run" where
  "task_service_create env t = create_with_goal env t ''''"

definition task_service_update :: "bool \<Rightarrow> task \<Rightarrow> task run" where
  "task_service_update title t =
     (case normalize_title_and_prompt t of
        Inl e \<Rightarrow> fail e
      | Inr t1 \<Rightarrow>
          if \<not> validate_task_priority (tk_priority t1) then fail InvalidTaskPriority
          else then_run (stored (update_task title t1)) (ret t1))"

subsection \<open>Children\<close>

definition dot :: string where
  "dot = [CHR '' '', CHR 0xC2, CHR 0xB7, CHR '' '']"

definition swarm_child_title :: "string \<Rightarrow> string \<Rightarrow> int \<Rightarrow> nat \<Rightarrow> string" where
  "swarm_child_title base parent sequence attempt_no =
     (let p = take 8 parent
      in if attempt_no = 0 then base
         else if attempt_no = 1 then base @ dot @ p @ ''-'' @ show_int sequence
         else base @ dot @ p @ ''-'' @ show_int sequence @ ''-'' @ decimal attempt_no)"

text \<open>
  The loop over attempts ends with a title that is free; the fuel is the number of tasks and two,
  which \<open>child_loop_ends\<close> shows to be enough.
\<close>

fun child_loop :: "swarm_env \<Rightarrow> (task \<Rightarrow> task run) \<Rightarrow> string \<Rightarrow> task \<Rightarrow> nat \<Rightarrow> nat \<Rightarrow> task run" where
  "child_loop env save parent child attempt_no 0 s = (Inl AttemptsExhausted, s)"
| "child_loop env save parent child attempt_no (Suc fuel) s =
     (case save (child\<lparr>tk_title := swarm_child_title (tk_title child) parent (tk_swarm_sequence child) attempt_no\<rparr>) s of
        (Inr t, s1) \<Rightarrow> (Inr t, s1)
      | (Inl e, s1) \<Rightarrow>
          if e \<noteq> StoreError ErrDuplicateTask then (Inl e, s1)
          else if sv_ctx_done env attempt_no then (Inl ContextDone, s1)
          else child_loop env save parent child (Suc attempt_no) fuel s1)"

definition child_fuel :: "swarm_state \<Rightarrow> nat" where
  "child_fuel s = length (db_tasks (ss_db s)) + 2"

definition create_swarm_child :: "swarm_env \<Rightarrow> task \<Rightarrow> task \<Rightarrow> task run" where
  "create_swarm_child env parent child s =
     child_loop env (task_service_create env) (tk_id parent) child 0 (child_fuel s) s"

definition update_swarm_child :: "swarm_env \<Rightarrow> task \<Rightarrow> task \<Rightarrow> task run" where
  "update_swarm_child env parent child s =
     child_loop env (task_service_update True) (tk_id parent) child 0 (child_fuel s) s"

end
