(* ===== verification/SwarmService.thy ===== *)
theory SwarmService
  imports SwarmState
begin

section \<open>The orchestration of a swarm\<close>

text \<open>
  The methods of \<open>SwarmService\<close> (\<open>internal/service/swarm_service.go\<close>) on the state of \<open>SwarmState\<close>:
  the planner's start and its plan, the stages of workers, reviewer and merger, follow-ups,
  reruns, the parent's status, and the stop. A local variable the code assigns to is rebound.
\<close>

subsection \<open>Questions about the children\<close>

definition find_child :: "task list \<Rightarrow> swarm_role \<Rightarrow> task option" where
  "find_child cs role = find (\<lambda>c. tk_swarm_role c = role) cs"

definition is_merger_role :: "swarm_role \<Rightarrow> bool" where
  "is_merger_role r \<longleftrightarrow> r = SwarmRoleMerger \<or> r = SwarmRoleLegacyIntegrator"

definition find_merger_child :: "task list \<Rightarrow> task option" where
  "find_merger_child cs =
     (case find_child cs SwarmRoleMerger of Some c \<Rightarrow> Some c | None \<Rightarrow> find_child cs SwarmRoleLegacyIntegrator)"

definition find_worker_by_sequence :: "task list \<Rightarrow> int \<Rightarrow> task option" where
  "find_worker_by_sequence cs n = find (\<lambda>c. tk_swarm_role c = SwarmRoleWorker \<and> tk_swarm_sequence c = n) cs"

definition has_execution_children :: "task list \<Rightarrow> bool" where
  "has_execution_children cs \<longleftrightarrow>
     (\<exists>c \<in> set cs. tk_swarm_role c = SwarmRoleWorker \<or> tk_swarm_role c = SwarmRoleReviewer \<or> is_merger_role (tk_swarm_role c))"

definition max_workers :: "task \<Rightarrow> int" where
  "max_workers parent = (let n = sw_max_workers (cfg_of (tk_swarm_config parent)) in if n \<le> 0 then 3 else n)"

definition all_required_workers_completed :: "task list \<Rightarrow> int \<Rightarrow> bool" where
  "all_required_workers_completed cs generation \<longleftrightarrow>
     (let ws = filter (\<lambda>c. tk_swarm_role c = SwarmRoleWorker) cs
      in ws \<noteq> [] \<and>
         (\<forall>c \<in> set ws. let cfg = cfg_of (tk_swarm_config c)
            in sw_required cfg \<longrightarrow> tk_status c = StatusCompleted \<and> \<not> sw_completed_generation cfg < generation))"

definition has_active_work_before_integration :: "task list \<Rightarrow> bool" where
  "has_active_work_before_integration cs \<longleftrightarrow>
     (\<exists>c \<in> set cs. \<not> is_merger_role (tk_swarm_role c) \<and> tk_status c \<in> {StatusPending, StatusQueued, StatusRunning})"

definition swarm_complete_without_merger :: "task list \<Rightarrow> swarm_config \<Rightarrow> bool" where
  "swarm_complete_without_merger cs cfg \<longleftrightarrow>
     (if sw_generation cfg \<le> 0 \<or> sw_merger_enabled cfg \<or> \<not> all_required_workers_completed cs (sw_generation cfg) then False
      else if \<not> sw_reviewer_enabled cfg then True
      else case find_child cs SwarmRoleReviewer of
             None \<Rightarrow> False
           | Some r \<Rightarrow> if tk_status r \<noteq> StatusCompleted then False
                       else sw_reviewed_generation (cfg_of (tk_swarm_config r)) \<ge> sw_generation cfg)"

definition is_followup_planner_application :: "task \<Rightarrow> task \<Rightarrow> bool" where
  "is_followup_planner_application planner parent \<longleftrightarrow>
     (let pc = cfg_of (tk_swarm_config planner); qc = cfg_of (tk_swarm_config parent)
      in if sw_rerun_generation pc \<le> 1 \<or> sw_rerun_generation pc \<noteq> sw_generation qc then False
         else tk_swarm_status planner = ''coordinating'' \<or> tk_swarm_status planner = ''plan_apply_failed'')"

text \<open>\<open>FindSwarmChildByRole\<close> of the task repository; a merger may be one of the old integrators.\<close>

definition find_swarm_child_by_role :: "string \<Rightarrow> swarm_role \<Rightarrow> task_db \<Rightarrow> (store_error + task option) \<times> task_db" where
  "find_swarm_child_by_role p role =
     query (\<lambda>d. case sort_key (\<lambda>t. (tk_swarm_sequence t,
                     (if role = SwarmRoleMerger \<and> tk_swarm_role t = SwarmRoleLegacyIntegrator then 1 else 0 :: int), tk_created_at t))
                   (filter (\<lambda>t. tk_parent_task_id t = Some p \<and>
                        (if role = SwarmRoleMerger then is_merger_role (tk_swarm_role t) else tk_swarm_role t = role)) (db_tasks d)) of
                [] \<Rightarrow> None | t # _ \<Rightarrow> Some (compact_row t))"

subsection \<open>Writing fields\<close>

definition set_fields :: "task \<Rightarrow> string \<Rightarrow> swarm_text \<Rightarrow> unit run" where
  "set_fields t status cfg = stored (update_swarm_fields (tk_id t) (tk_swarm_role t) status cfg (tk_swarm_sequence t))"

definition set_status :: "string \<Rightarrow> task_status \<Rightarrow> unit run" where
  "set_status i st = stored (update_status i st)"

definition set_category :: "string \<Rightarrow> task_category \<Rightarrow> unit run" where
  "set_category i c = stored (update_category i c)"

definition load :: "string \<Rightarrow> task option run" where
  "load i = stored (get_by_id i)"

definition children_of :: "string \<Rightarrow> task list run" where
  "children_of p = stored (list_swarm_children p)"

definition submit_if_runnable :: "swarm_env \<Rightarrow> task \<Rightarrow> unit run" where
  "submit_if_runnable env t =
     (if tk_status t = StatusBlocked \<or> tk_status t = StatusRunning \<or> tk_status t = StatusQueued then ret ()
      else bind_run
        (if tk_category t \<noteq> CategoryActive \<and> tk_category t \<noteq> CategoryScheduled
         then then_run (set_category (tk_id t) CategoryActive) (ret (t\<lparr>tk_category := CategoryActive\<rparr>)) else ret t)
        (\<lambda>t1. bind_run
          (if tk_status t1 \<noteq> StatusPending
           then then_run (set_status (tk_id t1) StatusPending) (ret (t1\<lparr>tk_status := StatusPending\<rparr>)) else ret t1)
          (\<lambda>t2. then_run (clear_cancellation (tk_id t2)) (submit_task env t2))))"

subsection \<open>The parent's status\<close>

definition any_status :: "task_status set \<Rightarrow> task list \<Rightarrow> bool" where
  "any_status sts cs \<longleftrightarrow> (\<exists>c \<in> set cs. tk_status c \<in> sts)"

abbreviation runnable_statuses :: "task_status set" where
  "runnable_statuses \<equiv> {StatusRunning, StatusPending, StatusQueued}"

text \<open>The switch over the children; the second component is its branch that has no merger.\<close>

definition parent_verdict :: "swarm_config \<Rightarrow> task list \<Rightarrow> task_status \<times> bool" where
  "parent_verdict cfg cs =
     (if any_status runnable_statuses cs then (StatusRunning, False)
      else if any_status {StatusFailed} cs then (StatusFailed, False)
      else if any_status {StatusBlocked} cs then (StatusBlocked, False)
      else if sw_generation cfg > 0 \<and> sw_merger_enabled cfg \<and> sw_merged_generation cfg \<ge> sw_generation cfg
      then (case find_merger_child cs of
              Some m \<Rightarrow> (if tk_status m = StatusCompleted then StatusCompleted else StatusBlocked, False)
            | None \<Rightarrow> (StatusBlocked, False))
      else if swarm_complete_without_merger cs cfg then (StatusCompleted, True)
      else (StatusBlocked, False))"

definition recompute_parent_status_locked :: "string \<Rightarrow> unit run" where
  "recompute_parent_status_locked p =
     bind_run (load p) (\<lambda>found. case found of None \<Rightarrow> ret () | Some parent \<Rightarrow>
       if tk_swarm_role parent \<noteq> SwarmRoleParent \<or> tk_status parent = StatusCancelled then ret ()
       else bind_run (children_of (tk_id parent)) (\<lambda>cs.
         if cs = [] then ret ()
         else let cfg = cfg_of (tk_swarm_config parent);
                  (st, unmerged) = parent_verdict cfg cs
              in then_run
                   (if unmerged \<and> sw_merged_generation cfg < sw_generation cfg
                    then set_fields parent ''current'' (swarm_config_json (cfg\<lparr>sw_merged_generation := sw_generation cfg\<rparr>))
                    else ret ())
                   (then_run (if tk_status parent \<noteq> st then set_status (tk_id parent) st else ret ())
                     (if st = StatusCompleted \<and> tk_category parent \<noteq> CategoryCompleted
                      then set_category (tk_id parent) CategoryCompleted
                      else if st = StatusBlocked \<and> \<not> any_status runnable_statuses cs \<and> tk_category parent = CategoryActive
                      then set_category (tk_id parent) CategoryBacklog
                      else ret ()))))"

subsection \<open>A child that ended\<close>

text \<open>The texts of \<open>fmt.Sprintf\<close> the parent keeps as its last error.\<close>

definition handle_child_cancelled :: "task \<Rightarrow> task \<Rightarrow> swarm_config \<Rightarrow> unit run" where
  "handle_child_cancelled parent child cfg =
     (let note = (case tk_swarm_role child of
            SwarmRoleWorker \<Rightarrow> Some (''needs_coordination'', cfg\<lparr>sw_last_error :=
              ''worker '' @ tk_id child @ '' was cancelled; coordinator must decide whether it is still required''\<rparr>)
          | SwarmRoleReviewer \<Rightarrow> Some (''needs_review'', cfg\<lparr>sw_reviewed_generation := 0,
              sw_last_error := ''reviewer '' @ tk_id child @ '' was cancelled; review must be rerun''\<rparr>)
          | _ \<Rightarrow> if \<not> is_merger_role (tk_swarm_role child) then None
                 else Some (''needs_integration'', cfg\<lparr>sw_merged_generation := 0,
                   sw_last_error := ''merger '' @ tk_id child @ '' was cancelled; merge must be rerun''\<rparr>))
      in case note of
           None \<Rightarrow> recompute_parent_status_locked (tk_id parent)
         | Some (status, cfg1) \<Rightarrow>
             then_run (set_fields parent status (swarm_config_json cfg1))
               (then_run (set_status (tk_id parent) StatusBlocked)
                 (if tk_category parent = CategoryCompleted then set_category (tk_id parent) CategoryActive else ret ())))"

definition child_failed :: "task \<Rightarrow> task \<Rightarrow> unit run" where
  "child_failed parent child =
     (let failed_status = (if tk_swarm_status child = ''followup_pending'' \<or> tk_swarm_status child = ''followup_failed''
                           then ''followup_failed'' else ''failed'')
      in then_run (if tk_swarm_status child \<noteq> failed_status then set_fields child failed_status (tk_swarm_config child) else ret ())
           (recompute_parent_status_locked (tk_id parent)))"

text \<open>
  The stages of a child that completed. A stage that returns \<open>None\<close> leaves the method through the
  recomputation of the parent; the others hand on the child and the children they read.
\<close>

definition worker_stage :: "task \<Rightarrow> swarm_config \<Rightarrow> task \<Rightarrow> task list \<Rightarrow> (task \<times> task list) option run" where
  "worker_stage parent cfg child children =
     (if tk_swarm_role child = SwarmRoleWorker \<and> tk_status child = StatusCompleted
      then let c = cfg_of (tk_swarm_config child);
               target = (if sw_rerun_generation c \<le> 0 then sw_completed_generation c else sw_rerun_generation c)
           in if target \<noteq> sw_generation cfg then ret None
              else bind_run
                (if sw_completed_generation c < target \<or> tk_swarm_status child \<noteq> ''completed''
                 then let text = swarm_config_json (c\<lparr>sw_completed_generation := target\<rparr>)
                      in then_run (set_fields child ''completed'' text)
                           (ret (child\<lparr>tk_swarm_config := text, tk_swarm_status := ''completed''\<rparr>))
                 else ret child)
                (\<lambda>child1. bind_run (or_else (children_of (tk_id parent)) children) (\<lambda>cs. ret (Some (child1, cs))))
      else ret (Some (child, children)))"

definition start_review :: "swarm_env \<Rightarrow> swarm_config \<Rightarrow> task \<Rightarrow> task list \<Rightarrow> unit run" where
  "start_review env cfg child children =
     (if tk_swarm_role child = SwarmRoleWorker \<and> tk_status child = StatusCompleted \<and>
         all_required_workers_completed children (sw_generation cfg) \<and> sw_reviewer_enabled cfg
      then (case find_child children SwarmRoleReviewer of
              None \<Rightarrow> ret ()
            | Some r \<Rightarrow>
                let rc = cfg_of (tk_swarm_config r)
                in if sw_reviewed_generation rc < sw_generation cfg \<and> tk_status r \<noteq> StatusRunning \<and> tk_status r \<noteq> StatusPending \<and>
                      (tk_status r \<noteq> StatusCompleted \<or> sw_rerun_generation rc < sw_generation cfg) \<and> tk_status child \<noteq> StatusFailed
                   then let text = swarm_config_json (rc\<lparr>sw_rerun_generation := sw_generation cfg\<rparr>)
                        in then_run (attempt (set_fields r ''ready'' text))
                            (then_run (attempt (set_category (tk_id r) CategoryActive))
                              (then_run (attempt (set_status (tk_id r) StatusPending))
                                (submit_task env (r\<lparr>tk_swarm_config := text, tk_category := CategoryActive, tk_status := StatusPending\<rparr>))))
                   else ret ())
      else ret ())"

definition review_stage :: "swarm_config \<Rightarrow> task \<Rightarrow> task list \<Rightarrow> task option run" where
  "review_stage cfg child children =
     (if tk_swarm_role child = SwarmRoleReviewer \<and> tk_status child = StatusCompleted
      then let c = cfg_of (tk_swarm_config child);
               target = (if sw_rerun_generation c \<le> 0 then sw_reviewed_generation c else sw_rerun_generation c)
           in if target \<noteq> sw_generation cfg \<or> \<not> all_required_workers_completed children target then ret None
              else if sw_reviewed_generation c < target \<or> tk_swarm_status child \<noteq> ''reviewed''
              then let text = swarm_config_json (c\<lparr>sw_reviewed_generation := target\<rparr>)
                   in then_run (set_fields child ''reviewed'' text)
                        (ret (Some (child\<lparr>tk_swarm_config := text, tk_swarm_status := ''reviewed''\<rparr>)))
              else ret (Some child)
      else ret (Some child))"

definition integration_target :: "swarm_config \<Rightarrow> task list \<Rightarrow> int" where
  "integration_target cfg children =
     (if sw_reviewer_enabled cfg
      then (case find_child children SwarmRoleReviewer of
              Some r \<Rightarrow> sw_reviewed_generation (cfg_of (tk_swarm_config r)) | None \<Rightarrow> 0)
      else if all_required_workers_completed children (sw_generation cfg) then sw_generation cfg else 0)"

definition start_merge :: "swarm_env \<Rightarrow> swarm_config \<Rightarrow> task \<Rightarrow> task list \<Rightarrow> unit run" where
  "start_merge env cfg child children =
     (let target = integration_target cfg children
      in if sw_merger_enabled cfg \<and> target > sw_merged_generation cfg \<and>
            \<not> (is_merger_role (tk_swarm_role child) \<and> tk_status child = StatusCompleted)
         then (case find_merger_child children of
                 None \<Rightarrow> ret ()
               | Some m \<Rightarrow>
                   let mc = cfg_of (tk_swarm_config m)
                   in if tk_status m \<noteq> StatusRunning \<and> tk_status m \<noteq> StatusPending \<and>
                         (tk_status m \<noteq> StatusCompleted \<or> sw_rerun_generation mc < target \<or> sw_merged_generation mc \<ge> target)
                      then let text = swarm_config_json (mc\<lparr>sw_rerun_generation := target\<rparr>)
                           in then_run (attempt (set_fields m ''ready'' text))
                               (then_run (attempt (set_category (tk_id m) CategoryActive))
                                 (then_run (attempt (set_status (tk_id m) StatusPending))
                                   (submit_task env (m\<lparr>tk_swarm_config := text, tk_category := CategoryActive, tk_status := StatusPending\<rparr>))))
                      else ret ())
         else ret ())"

definition latest_completed :: "string \<Rightarrow> exec_result option run" where
  "latest_completed i = bind_run (stored (query (\<lambda>_. ()))) (\<lambda>_ s. (Inr (ss_completed s i), s))"

definition upsert_parent_result :: "string \<Rightarrow> exec_result \<Rightarrow> unit run" where
  "upsert_parent_result p x =
     bind_run (stored (query (\<lambda>_. ()))) (\<lambda>_ s.
       (Inr (), s\<lparr>ss_results := (ss_results s)((p, xr_id x) \<mapsto> (xr_output x, xr_diff x, xr_duration x))\<rparr>))"

definition persist_merger_result :: "string \<Rightarrow> string \<Rightarrow> unit run" where
  "persist_merger_result p m =
     bind_run (latest_completed m) (\<lambda>found. case found of
       None \<Rightarrow> fail (SwarmMessage ''swarm merger completed without a final execution'')
     | Some x \<Rightarrow> then_run (upsert_parent_result p x)
         (if trim_space (xr_diff x) \<noteq> '''' then stored (update_merge_status p MergeStatusPending) else ret ()))"

text \<open>Whether the merge of a completed merger counts: it is current, reviewed, and nothing else is at work.\<close>

definition merge_target :: "swarm_config \<Rightarrow> int" where
  "merge_target c = (if sw_rerun_generation c \<le> 0 then sw_merged_generation c else sw_rerun_generation c)"

definition reviewed_current :: "swarm_config \<Rightarrow> task list \<Rightarrow> int \<Rightarrow> bool" where
  "reviewed_current cfg children target =
     (case find_child children SwarmRoleReviewer of
        Some r \<Rightarrow> if sw_reviewer_enabled cfg
                 then sw_reviewed_generation (cfg_of (tk_swarm_config r)) \<ge> target \<and> tk_status r = StatusCompleted
                 else \<not> sw_reviewer_enabled cfg
      | None \<Rightarrow> \<not> sw_reviewer_enabled cfg)"

definition merge_accepted :: "swarm_config \<Rightarrow> task list \<Rightarrow> int \<Rightarrow> bool" where
  "merge_accepted cfg children target \<longleftrightarrow>
     \<not> (target \<le> sw_merged_generation cfg \<or> target \<noteq> sw_generation cfg \<or> \<not> reviewed_current cfg children target \<or>
        has_active_work_before_integration children)"

text \<open>The result says whether the recomputation follows.\<close>

definition merge_stage :: "task \<Rightarrow> swarm_config \<Rightarrow> task \<Rightarrow> task list \<Rightarrow> bool run" where
  "merge_stage parent cfg child children =
     (if is_merger_role (tk_swarm_role child) \<and> tk_status child = StatusCompleted
      then bind_run (or_else (children_of (tk_id parent)) children) (\<lambda>cs.
        bind_run (or_else (load (tk_id child)) None) (\<lambda>found. case found of
          None \<Rightarrow> ret False
        | Some child1 \<Rightarrow>
            let c = cfg_of (tk_swarm_config child1); target = merge_target c
            in if \<not> merge_accepted cfg cs target then ret True
               else let text = swarm_config_json (c\<lparr>sw_merged_generation := target\<rparr>);
                        parent_text = swarm_config_json (cfg\<lparr>sw_merged_generation := target\<rparr>)
                    in then_run (set_fields child1 ''integrated'' text)
                        (then_run (persist_merger_result (tk_id parent) (tk_id child1))
                          (then_run (attempt (set_fields parent ''current'' parent_text))
                            (then_run (attempt (set_status (tk_id parent) StatusCompleted))
                              (then_run (attempt (set_category (tk_id parent) CategoryCompleted)) (ret True)))))))
      else ret True)"

definition child_progress :: "swarm_env \<Rightarrow> task \<Rightarrow> swarm_config \<Rightarrow> task \<Rightarrow> task list \<Rightarrow> unit run" where
  "child_progress env parent cfg child children =
     (let p = tk_id parent
      in bind_run (worker_stage parent cfg child children) (\<lambda>w. case w of
           None \<Rightarrow> recompute_parent_status_locked p
         | Some (child1, cs1) \<Rightarrow>
             then_run (start_review env cfg child1 cs1)
              (bind_run (review_stage cfg child1 cs1) (\<lambda>r. case r of
                 None \<Rightarrow> recompute_parent_status_locked p
               | Some child2 \<Rightarrow>
                   bind_run (or_else (children_of p) []) (\<lambda>cs2.
                     then_run (start_merge env cfg child2 cs2)
                       (bind_run (merge_stage parent cfg child2 cs2) (\<lambda>go_on.
                         if go_on then recompute_parent_status_locked p else ret ())))))))"

definition on_child_completed_locked :: "swarm_env \<Rightarrow> string \<Rightarrow> unit run" where
  "on_child_completed_locked env i =
     bind_run (load i) (\<lambda>found. case found of None \<Rightarrow> ret () | Some child \<Rightarrow>
       (case tk_parent_task_id child of None \<Rightarrow> ret () | Some p \<Rightarrow>
          bind_run (load p) (\<lambda>found. case found of None \<Rightarrow> ret () | Some parent \<Rightarrow>
            if tk_status parent = StatusCancelled then ret ()
            else bind_run (children_of (tk_id parent)) (\<lambda>children.
              let cfg = cfg_of (tk_swarm_config parent)
              in if tk_status child = StatusFailed then child_failed parent child
                 else if tk_status child = StatusCancelled then handle_child_cancelled parent child cfg
                 else child_progress env parent cfg child children))))"

definition recompute_parent_status :: "swarm_env \<Rightarrow> string \<Rightarrow> unit run" where
  "recompute_parent_status env p =
     bind_run (children_of p) (\<lambda>children.
       then_run
         (each (\<lambda>role. each (\<lambda>c. if tk_swarm_role c = role \<and> tk_status c \<in> {StatusCompleted, StatusFailed, StatusCancelled}
                              then on_child_completed_locked env (tk_id c) else ret ()) children)
            [SwarmRoleWorker, SwarmRoleReviewer, SwarmRoleMerger, SwarmRoleLegacyIntegrator])
         (recompute_parent_status_locked p))"

subsection \<open>Stopping a swarm\<close>

definition cancellable_child :: "task \<Rightarrow> bool" where
  "cancellable_child c \<longleftrightarrow> tk_status c \<in> {StatusPending, StatusQueued, StatusRunning, StatusBlocked}"

text \<open>Each step is tried; the errors are collected.\<close>

fun collect :: "('x \<Rightarrow> unit run) \<Rightarrow> 'x list \<Rightarrow> swarm_error list run" where
  "collect f [] s = (Inr [], s)"
| "collect f (x # xs) s =
     (case f x s of
        (Inl e, s1) \<Rightarrow> bind_run (collect f xs) (\<lambda>es. ret (e # es)) s1
      | (Inr _, s1) \<Rightarrow> collect f xs s1)"

definition mark_cancelled :: "string \<Rightarrow> unit run" where
  "mark_cancelled i s = (Inr (), s\<lparr>ss_pool := mark_cancellation_requested i (ss_pool s)\<rparr>)"

definition purge_child :: "swarm_env \<Rightarrow> string \<Rightarrow> unit run" where
  "purge_child env i s =
     (let s1 = s\<lparr>ss_pool := snd (cancel_running_task i (ss_pool s))\<rparr>;
          (ord_ok, auto_ok) = sv_cancels env i
      in case cancel_queued_task (pool_env env (ss_db s1)) ord_ok auto_ok i (ss_pool s1) of
           (ok, pool) \<Rightarrow> (if ok then Inr () else Inl (SwarmMessage ''cancelling queued work''), s1\<lparr>ss_pool := pool\<rparr>))"

definition cancel_swarm_locked :: "swarm_env \<Rightarrow> string \<Rightarrow> unit run" where
  "cancel_swarm_locked env p =
     bind_run (children_of p) (\<lambda>children.
       let active = filter cancellable_child children
       in then_run (mark_cancelled p)
           (then_run (set_status p StatusCancelled)
             (bind_run (collect (\<lambda>c. then_run (mark_cancelled (tk_id c)) (set_status (tk_id c) StatusCancelled)) active) (\<lambda>es.
                bind_run (collect (\<lambda>c. purge_child env (tk_id c)) active) (\<lambda>fs.
                  if es @ fs = [] then ret () else fail (StopErrors (es @ fs)))))))"

definition cancel_swarm_observed :: "swarm_env \<Rightarrow> task option \<Rightarrow> unit run \<Rightarrow> unit run" where
  "cancel_swarm_observed env observed cancel_pending =
     (case observed of
        None \<Rightarrow> fail (SwarmMessage ''swarm parent not found'')
      | Some o1 \<Rightarrow>
          bind_run (load (tk_id o1)) (\<lambda>found. case found of
            None \<Rightarrow> fail (SwarmMessage ''swarm parent not found'')
          | Some current \<Rightarrow>
              (case (parse_swarm_config (tk_swarm_config o1), parse_swarm_config (tk_swarm_config current)) of
                 (Some oc, Some cc) \<Rightarrow>
                   if tk_status current \<noteq> tk_status o1 \<or> tk_category current \<noteq> tk_category o1 \<or>
                      sw_generation cc \<noteq> sw_generation oc \<or> sw_stop_revision cc \<noteq> sw_stop_revision oc
                   then fail CancellationSuperseded
                   else then_run (attempt cancel_pending) (cancel_swarm_locked env (tk_id o1))
               | _ \<Rightarrow> fail MalformedConfig)))"

end
