(* ===== verification/SwarmPlanner.thy ===== *)
theory SwarmPlanner
  imports SwarmService
begin

section \<open>Plans and follow-ups of a swarm\<close>

text \<open>
  The methods of \<open>SwarmService\<close> (\<open>internal/service/swarm_service.go\<close>) that create and change
  children: creation of the parent, the planner's start, the application of its plan and of the
  plan of a follow-up, follow-ups to a parent or a child, and reruns.
\<close>

definition blank_task :: task where
  "blank_task = (sample_task '''' '''')\<lparr>tk_priority := 0\<rparr>"

definition worktree_dir :: "string \<Rightarrow> string" where
  "worktree_dir branch = ''.worktrees/'' @ branch"

text \<open>The fields every child takes from its parent.\<close>

definition swarm_child :: "task \<Rightarrow> swarm_role \<Rightarrow> string \<Rightarrow> string \<Rightarrow> task_status \<Rightarrow> string \<Rightarrow> swarm_config \<Rightarrow> int \<Rightarrow> task" where
  "swarm_child parent role title prompt status swarm_status cfg sequence =
     blank_task\<lparr>tk_project_id := tk_project_id parent, tk_title := title, tk_prompt := prompt,
       tk_category := CategoryActive, tk_priority := tk_priority parent, tk_status := status,
       tk_agent_id := tk_agent_id parent, tk_agent_definition_id := tk_agent_definition_id parent,
       tk_parent_task_id := Some (tk_id parent), tk_swarm_role := role, tk_swarm_status := swarm_status,
       tk_swarm_config := swarm_config_json cfg, tk_swarm_sequence := sequence\<rparr>"

subsection \<open>The parent\<close>

record create_swarm_request =
  cr_project_id :: string
  cr_title :: string
  cr_prompt :: string
  cr_goal :: string
  cr_category :: task_category
  cr_priority :: int
  cr_agent_id :: "string option"
  cr_agent_definition_id :: "string option"
  cr_tag :: string
  cr_max_workers :: int
  cr_worker_isolation :: string
  cr_reviewer_enabled :: bool
  cr_merger_enabled :: bool
  cr_auto_merge :: bool
  cr_auto_merge_on_goal :: bool
  cr_merge_target_branch :: string

definition resolve_assigned_agent_id :: "swarm_env \<Rightarrow> string \<Rightarrow> string option \<Rightarrow> string option" where
  "resolve_assigned_agent_id env project requested =
     (let own = (case requested of None \<Rightarrow> None
            | Some r \<Rightarrow> let t = trim_space r in if t \<noteq> '''' \<and> t \<noteq> ''auto'' \<and> t \<noteq> ''default'' then Some t else None);
          from_project = (if trim_space project = '''' then None
            else case sv_project_model env project of
                   Inr (Some r) \<Rightarrow>
                     (let t = trim_space r in if t \<noteq> '''' \<and> sv_model_exists env t = Inr True then Some t else None)
                 | _ \<Rightarrow> None);
          from_default = (case sv_default_model env of
              Inr (Some r) \<Rightarrow> (let t = trim_space r in if t \<noteq> '''' then Some t else None)
            | _ \<Rightarrow> None)
      in case own of Some t \<Rightarrow> Some t
         | None \<Rightarrow> if \<not> sv_model_stores env then requested
                   else case from_project of Some t \<Rightarrow> Some t
                        | None \<Rightarrow> case from_default of Some t \<Rightarrow> Some t | None \<Rightarrow> requested)"

definition request_max_workers :: "int \<Rightarrow> int" where
  "request_max_workers n = (let m = (if n \<le> 0 then 3 else n) in if m > 8 then 8 else m)"

definition swarm_parent :: "swarm_env \<Rightarrow> create_swarm_request \<Rightarrow> task" where
  "swarm_parent env r =
     (let cfg = empty_swarm_config\<lparr>sw_mode := ''autonomous'',
            sw_default_worker_isolation := (if cr_worker_isolation r = '''' then ''worktree'' else cr_worker_isolation r),
            sw_max_workers := request_max_workers (cr_max_workers r), sw_reviewer_enabled := cr_reviewer_enabled r,
            sw_merger_enabled := cr_merger_enabled r, sw_rerun_reviewer_after_worker_followup := True,
            sw_rerun_merger_after_reviewer := True, sw_generation := 1, sw_merge_strategy := ''patch_apply''\<rparr>
      in blank_task\<lparr>tk_project_id := cr_project_id r, tk_title := cr_title r, tk_prompt := cr_prompt r,
           tk_category := (if cr_category r = CategoryOther '''' then CategoryActive else cr_category r),
           tk_priority := (if cr_priority r = 0 then 2 else cr_priority r), tk_status := StatusBlocked,
           tk_agent_id := resolve_assigned_agent_id env (cr_project_id r) (cr_agent_id r),
           tk_agent_definition_id := cr_agent_definition_id r, tk_tag := cr_tag r, tk_auto_merge := cr_auto_merge r,
           tk_auto_merge_on_goal := cr_auto_merge_on_goal r, tk_merge_target_branch := cr_merge_target_branch r,
           tk_swarm_role := SwarmRoleParent, tk_swarm_status := ''planning'', tk_swarm_config := swarm_config_json cfg\<rparr>)"

definition ensure_integration_worktree :: "task \<Rightarrow> task run" where
  "ensure_integration_worktree parent =
     (if tk_worktree_path parent \<noteq> '''' \<and> tk_worktree_branch parent \<noteq> '''' then ret parent
      else let branch = swarm_branch (tk_title parent) ''integration'' (tk_id parent); path = worktree_dir branch
           in then_run (stored (update_worktree_info (tk_id parent) path branch))
                (ret (parent\<lparr>tk_worktree_path := path, tk_worktree_branch := branch\<rparr>)))"

subsection \<open>The planner\<close>

record followup_selection =
  fs_model :: string
  fs_effort :: "string option"
  fs_tier :: "string option"

definition set_planner_followup_effort :: "followup_selection option \<Rightarrow> swarm_config \<Rightarrow> swarm_config" where
  "set_planner_followup_effort selection cfg =
     (let c0 = cfg\<lparr>sw_followup_effort_model_id := '''', sw_followup_effort_generation := 0,
                  sw_followup_reasoning_effort := None, sw_followup_service_tier := None\<rparr>
      in case selection of
           None \<Rightarrow> c0
         | Some f \<Rightarrow>
             let c1 = (if fs_model f \<noteq> '''' \<and> fs_tier f \<noteq> None
                       then c0\<lparr>sw_followup_effort_model_id := fs_model f,
                              sw_followup_effort_generation := sw_rerun_generation c0, sw_followup_service_tier := fs_tier f\<rparr> else c0)
             in if fs_model f \<noteq> '''' \<and> fs_effort f \<noteq> None
                then c1\<lparr>sw_followup_effort_model_id := fs_model f,
                       sw_followup_effort_generation := sw_rerun_generation c1, sw_followup_reasoning_effort := fs_effort f\<rparr>
                else c1)"

definition selected_model :: "followup_selection option \<Rightarrow> string option \<Rightarrow> string option" where
  "selected_model selection own =
     (case selection of Some f \<Rightarrow> if fs_model f \<noteq> '''' then Some (fs_model f) else own | None \<Rightarrow> own)"

definition planner_task :: "task \<Rightarrow> bool \<Rightarrow> string \<Rightarrow> followup_selection option \<Rightarrow> task" where
  "planner_task parent fresh followup selection =
     (let goal = (if followup \<noteq> [] then tk_prompt parent @ [CHR 0x0A, CHR 0x0A] @ ''Follow-up request:'' @ [CHR 0x0A] @ followup
                  else tk_prompt parent);
          cfg = set_planner_followup_effort selection
            (empty_swarm_config\<lparr>sw_isolation := ''read_only'',
               sw_rerun_generation := max 1 (sw_generation (cfg_of (tk_swarm_config parent))), sw_required := True\<rparr>)
      in (swarm_child parent SwarmRolePlanner (tk_title parent @ dot @ ''Planner'')
            (planner_prompt goal (max_workers parent)) StatusPending ''planning'' cfg 0)\<lparr>tk_starts_new_context := fresh\<rparr>)"

definition move_parent :: "task \<Rightarrow> task run" where
  "move_parent parent =
     bind_run (if tk_category parent \<noteq> CategoryActive
               then then_run (set_category (tk_id parent) CategoryActive) (ret (parent\<lparr>tk_category := CategoryActive\<rparr>))
               else ret parent)
       (\<lambda>q. if tk_status q \<noteq> StatusBlocked
             then then_run (set_status (tk_id q) StatusBlocked) (ret (q\<lparr>tk_status := StatusBlocked\<rparr>)) else ret q)"

definition load_or :: "string \<Rightarrow> string \<Rightarrow> task run" where
  "load_or msg i = bind_run (load i) (\<lambda>found. case found of None \<Rightarrow> fail (SwarmMessage msg) | Some t \<Rightarrow> ret t)"

definition start_planner_with_followup ::
  "swarm_env \<Rightarrow> lane_move option \<Rightarrow> string \<Rightarrow> bool \<Rightarrow> string \<Rightarrow> followup_selection option \<Rightarrow> unit run" where
  "start_planner_with_followup env guard p fresh followup selection =
     bind_run (load_or ''loading swarm parent'' p) (\<lambda>parent0.
       bind_run (if guard = None then ret parent0
                 else then_run (stored (prepare_swarm_parent_for_active_lane guard p)) (load_or ''reloading guarded swarm parent'' p))
         (\<lambda>parent1. let parent2 = parent1\<lparr>tk_agent_id := selected_model selection (tk_agent_id parent1)\<rparr>
           in then_run (clear_cancellation (tk_id parent2))
                (bind_run (move_parent parent2) (\<lambda>parent.
                  bind_run (stored (find_swarm_child_by_role (tk_id parent) SwarmRolePlanner)) (\<lambda>found. case found of
                    Some existing \<Rightarrow> submit_if_runnable env (existing\<lparr>tk_starts_new_context := fresh\<rparr>)
                  | None \<Rightarrow> then_run (create_swarm_child env parent (planner_task parent fresh followup selection)) (ret ()))))))"

definition start_planner :: "swarm_env \<Rightarrow> lane_move option \<Rightarrow> string \<Rightarrow> unit run" where
  "start_planner env guard p = start_planner_with_followup env guard p False '''' None"

definition create_swarm_task :: "swarm_env \<Rightarrow> create_swarm_request \<Rightarrow> task run" where
  "create_swarm_task env r =
     (if trim_space (cr_project_id r) = '''' \<or> trim_space (cr_title r) = '''' \<or> trim_space (cr_prompt r) = ''''
      then fail (SwarmMessage ''project_id, title, and prompt are required'')
      else bind_run (create_with_goal env (swarm_parent env r) (cr_goal r)) (\<lambda>parent0.
             bind_run (ensure_integration_worktree parent0) (\<lambda>parent.
               then_run (if tk_category parent = CategoryActive then start_planner env None (tk_id parent) else ret ())
                 (ret parent))))"

subsection \<open>Applying a plan\<close>

definition worker_required :: "planner_worker \<Rightarrow> bool" where
  "worker_required w \<longleftrightarrow> pw_required w \<or> \<not> pw_read_only w"

definition create_worker_from_plan :: "swarm_env \<Rightarrow> task \<Rightarrow> planner_worker \<Rightarrow> swarm_config \<Rightarrow> int \<Rightarrow> task run" where
  "create_worker_from_plan env parent w parent_cfg sequence =
     (let cfg = empty_swarm_config\<lparr>sw_worker_kind := pw_worker_kind w, sw_ownership := pw_ownership w,
            sw_isolation := worker_isolation w parent_cfg, sw_depends_on_roles := [''planner''],
            sw_rerun_generation := sw_generation parent_cfg, sw_required := worker_required w,
            sw_write_scope := pw_write_scope w, sw_read_scope := pw_read_scope w\<rparr>;
          child0 = swarm_child parent SwarmRoleWorker (pw_title w) (worker_prompt (tk_prompt parent) w '''') StatusPending
            ''running'' cfg sequence;
          isolated = (sw_isolation cfg = ''worktree'');
          pending = swarm_branch (tk_title parent) (pw_worker_kind w) ''pending'';
          child = (if isolated then child0\<lparr>tk_worktree_branch := pending, tk_worktree_path := worktree_dir pending\<rparr> else child0)
      in bind_run (create_swarm_child env parent child) (\<lambda>created.
           if isolated
           then let branch = swarm_branch (tk_title parent) (pw_worker_kind w) (tk_id created); path = worktree_dir branch
                in then_run (attempt (stored (update_worktree_info (tk_id created) path branch)))
                     (ret (created\<lparr>tk_worktree_branch := branch, tk_worktree_path := path\<rparr>))
           else ret created))"

fun create_workers :: "swarm_env \<Rightarrow> task \<Rightarrow> swarm_config \<Rightarrow> int \<Rightarrow> planner_worker list \<Rightarrow> task list \<Rightarrow> task list run" where
  "create_workers env parent cfg i [] existing = ret existing"
| "create_workers env parent cfg i (w # ws) existing =
     (if find_worker_by_sequence existing (10 + i) \<noteq> None then create_workers env parent cfg (i + 1) ws existing
      else bind_run (create_worker_from_plan env parent w cfg (10 + i)) (\<lambda>c.
             create_workers env parent cfg (i + 1) ws (existing @ [c])))"

definition reviewer_task :: "task \<Rightarrow> planner_output \<Rightarrow> swarm_config \<Rightarrow> task" where
  "reviewer_task parent o1 cfg =
     swarm_child parent SwarmRoleReviewer (tk_title parent @ dot @ ''Reviewer'')
       (reviewer_prompt (tk_prompt parent) (pl_reviewer_prompt o1)) StatusBlocked ''pending''
       (empty_swarm_config\<lparr>sw_isolation := ''read_only'', sw_depends_on_roles := [''worker''],
          sw_rerun_generation := sw_generation cfg, sw_required := True\<rparr>) 900"

definition merger_task :: "task \<Rightarrow> planner_output \<Rightarrow> swarm_config \<Rightarrow> task" where
  "merger_task parent o1 cfg =
     (swarm_child parent SwarmRoleMerger (tk_title parent @ dot @ ''Merger'')
       (merger_prompt (tk_prompt parent) (pl_merger_prompt o1) (tk_worktree_path parent)) StatusBlocked ''pending''
       (empty_swarm_config\<lparr>sw_isolation := ''worktree'', sw_depends_on_roles := [''reviewer''],
          sw_rerun_generation := sw_generation cfg, sw_required := True\<rparr>) 1000)
       \<lparr>tk_worktree_path := tk_worktree_path parent, tk_worktree_branch := tk_worktree_branch parent\<rparr>"

definition start_ready_workers :: "swarm_env \<Rightarrow> string \<Rightarrow> unit run" where
  "start_ready_workers env p =
     bind_run (children_of p) (each (\<lambda>c.
       if tk_swarm_role c = SwarmRoleWorker \<and> tk_status c = StatusPending then submit_task env c else ret ()))"

definition finish_plan :: "swarm_env \<Rightarrow> task \<Rightarrow> string \<Rightarrow> unit run" where
  "finish_plan env planner p =
     (let cfg = (cfg_of (tk_swarm_config planner))\<lparr>sw_last_error := ''''\<rparr>
      in then_run (set_fields planner ''planned'' (swarm_config_json cfg))
           (then_run (set_status (tk_id planner) StatusCompleted) (start_ready_workers env p)))"

definition refuse_plan :: "swarm_env \<Rightarrow> task \<Rightarrow> task \<Rightarrow> swarm_config \<Rightarrow> plan_error \<Rightarrow> unit run" where
  "refuse_plan env planner parent parent_cfg e =
     (let text = sv_text env (PlanError e);
          pc = (cfg_of (tk_swarm_config planner))\<lparr>sw_last_error := text\<rparr>
      in then_run (attempt (set_fields planner ''invalid_plan'' (swarm_config_json pc)))
          (then_run (attempt (set_status (tk_id planner) StatusFailed))
            (then_run (attempt (set_fields parent ''blocked'' (swarm_config_json (parent_cfg\<lparr>sw_last_error := text\<rparr>))))
              (then_run (attempt (set_status (tk_id parent) StatusBlocked)) (fail (PlanError e))))))"

subsection \<open>The plan of a follow-up\<close>

definition replanned_worker :: "task \<Rightarrow> swarm_config \<Rightarrow> planner_worker \<Rightarrow> task \<Rightarrow> task" where
  "replanned_worker parent parent_cfg w child =
     child\<lparr>tk_title := pw_title w, tk_prompt := worker_prompt (tk_prompt parent) w (tk_worktree_path child),
       tk_status := StatusPending, tk_category := CategoryActive, tk_swarm_status := ''rerun_pending'',
       tk_swarm_config := swarm_config_json ((cfg_of (tk_swarm_config child))\<lparr>sw_worker_kind := pw_worker_kind w,
         sw_ownership := pw_ownership w, sw_isolation := worker_isolation w parent_cfg,
         sw_rerun_generation := sw_generation parent_cfg, sw_required := worker_required w,
         sw_write_scope := pw_write_scope w, sw_read_scope := pw_read_scope w\<rparr>)\<rparr>"

text \<open>
  The loop over the plan's workers: \<open>created\<close> are the workers an earlier attempt created and this
  one takes over, \<open>next\<close> the largest sequence; the result is the set of ids it affected.
\<close>

fun followup_workers ::
  "swarm_env \<Rightarrow> task \<Rightarrow> swarm_config \<Rightarrow> string set \<Rightarrow> task list \<Rightarrow> int \<Rightarrow> planner_worker list \<Rightarrow> string set \<Rightarrow> string set run" where
  "followup_workers env parent cfg workers created next [] affected = ret affected"
| "followup_workers env parent cfg workers created next (w # ws) affected =
     (if is_new_worker w
      then case created of
             c # cs \<Rightarrow> followup_workers env parent cfg workers cs next ws (insert (tk_id c) affected)
           | [] \<Rightarrow> bind_run (create_worker_from_plan env parent w cfg (next + 1)) (\<lambda>c.
                     followup_workers env parent cfg workers [] (next + 1) ws (insert (tk_id c) affected))
      else if pw_task_id w \<notin> workers then fail (PlanError (UnknownWorker (pw_task_id w)))
      else bind_run (load_or ''loading worker task: task not found'' (pw_task_id w)) (\<lambda>child.
             bind_run (update_swarm_child env parent (replanned_worker parent cfg w child)) (\<lambda>child1.
               then_run (submit_task env child1)
                 (followup_workers env parent cfg workers created next ws (insert (tk_id child1) affected)))))"

definition carry_forward :: "swarm_config \<Rightarrow> string set \<Rightarrow> task \<Rightarrow> unit run" where
  "carry_forward parent_cfg affected child =
     (if tk_swarm_role child \<noteq> SwarmRoleWorker \<or> tk_id child \<in> affected \<or> tk_status child \<noteq> StatusCompleted then ret ()
      else let cfg = cfg_of (tk_swarm_config child)
           in if sw_completed_generation cfg < sw_generation parent_cfg
              then set_fields child (tk_swarm_status child)
                     (swarm_config_json (cfg\<lparr>sw_completed_generation := sw_generation parent_cfg\<rparr>))
              else ret ())"

definition reset_role :: "swarm_config \<Rightarrow> task \<Rightarrow> unit run" where
  "reset_role parent_cfg child =
     (if tk_swarm_role child = SwarmRoleReviewer \<or> is_merger_role (tk_swarm_role child)
      then let cfg = (cfg_of (tk_swarm_config child))\<lparr>sw_rerun_generation := sw_generation parent_cfg\<rparr>
           in then_run (set_fields child ''pending'' (swarm_config_json cfg)) (set_status (tk_id child) StatusBlocked)
      else ret ())"

definition last_worker_sequence :: "task list \<Rightarrow> int" where
  "last_worker_sequence cs = fold max (map tk_swarm_sequence (filter (\<lambda>c. tk_swarm_role c = SwarmRoleWorker) cs)) 9"

definition apply_followup_planner_output ::
  "swarm_env \<Rightarrow> task \<Rightarrow> task \<Rightarrow> planner_output \<Rightarrow> task list \<Rightarrow> swarm_config \<Rightarrow> unit run" where
  "apply_followup_planner_output env parent planner o1 existing parent_cfg =
     (case validate_followup_planner_output o1 existing parent_cfg of
        Some e \<Rightarrow> fail (PlanError e)
      | None \<Rightarrow>
          let cfg = parent_cfg\<lparr>sw_reviewer_prompt := pl_reviewer_prompt o1, sw_merger_prompt := pl_merger_prompt o1,
                sw_planner_notes := pl_notes o1, sw_last_error := '''', sw_reviewed_generation := 0, sw_merged_generation := 0\<rparr>;
              workers = tk_id ` set (filter (\<lambda>c. tk_swarm_role c = SwarmRoleWorker) existing)
          in then_run (set_fields parent ''workers_running'' (swarm_config_json cfg))
              (bind_run (followup_workers env parent cfg workers
                  (followup_created_workers o1 existing (sw_generation cfg)) (last_worker_sequence existing) (pl_workers o1) {})
                (\<lambda>affected.
                  then_run (each (carry_forward cfg affected) existing)
                    (then_run (each (reset_role cfg) existing) (finish_plan env planner (tk_id parent))))))"

definition apply_first_plan :: "swarm_env \<Rightarrow> task \<Rightarrow> task \<Rightarrow> planner_output \<Rightarrow> task list \<Rightarrow> swarm_config \<Rightarrow> unit run" where
  "apply_first_plan env parent planner o1 existing0 parent_cfg =
     (let cfg = parent_cfg\<lparr>sw_reviewer_prompt := pl_reviewer_prompt o1, sw_merger_prompt := pl_merger_prompt o1,
            sw_planner_notes := pl_notes o1, sw_last_error := ''''\<rparr>
      in then_run (set_fields parent ''workers_running'' (swarm_config_json cfg))
          (bind_run (create_workers env parent cfg 0 (pl_workers o1) existing0) (\<lambda>existing1.
            bind_run (if sw_reviewer_enabled cfg \<and> find_child existing1 SwarmRoleReviewer = None
                      then bind_run (create_swarm_child env parent (reviewer_task parent o1 cfg)) (\<lambda>c. ret (existing1 @ [c]))
                      else ret existing1) (\<lambda>existing2.
            then_run (if sw_merger_enabled cfg \<and> find_merger_child existing2 = None
                      then then_run (create_swarm_child env parent (merger_task parent o1 cfg)) (ret ())
                      else ret ())
              (finish_plan env planner (tk_id parent))))))"

definition apply_planner_output :: "swarm_env \<Rightarrow> string \<Rightarrow> planner_output \<Rightarrow> unit run" where
  "apply_planner_output env i output0 =
     (let o1 = normalize_planner_output output0
      in bind_run (load_or ''loading planner task'' i) (\<lambda>planner.
        (case tk_parent_task_id planner of
           None \<Rightarrow> fail (SwarmMessage ''planner has no swarm parent'')
         | Some p \<Rightarrow>
             bind_run (load_or ''loading swarm parent'' p) (\<lambda>parent.
               if tk_status parent = StatusCancelled then ret ()
               else let parent_cfg = cfg_of (tk_swarm_config parent)
                    in case validate_planner_output o1 parent_cfg of
                         Some e \<Rightarrow> refuse_plan env planner parent parent_cfg e
                       | None \<Rightarrow> bind_run (children_of (tk_id parent)) (\<lambda>existing.
                           if is_followup_planner_application planner parent
                           then apply_followup_planner_output env parent planner o1 existing parent_cfg
                           else if tk_swarm_status planner = ''planned'' then recompute_parent_status_locked (tk_id parent)
                           else apply_first_plan env parent planner o1 existing parent_cfg)))))"

subsection \<open>The end of the planner\<close>

text \<open>
  The planner's answer is unusable: its own record, in the code the caller's, becomes
  \<open>invalid_plan\<close>, which is the flag of the result.
\<close>

definition mark_planner_output_invalid :: "task \<Rightarrow> string \<Rightarrow> swarm_error \<Rightarrow> swarm_state \<Rightarrow> bool \<times> (swarm_error + unit) \<times> swarm_state" where
  "mark_planner_output_invalid planner message err s =
     (case tk_parent_task_id planner of
        None \<Rightarrow> (False, Inl err, s)
      | Some p \<Rightarrow>
          (case load p s of
             (Inl _, s1) \<Rightarrow> (False, Inl err, s1)
           | (Inr None, s1) \<Rightarrow> (False, Inl err, s1)
           | (Inr (Some parent), s1) \<Rightarrow>
               if tk_status parent = StatusCancelled then (False, Inr (), s1)
               else let pc = (cfg_of (tk_swarm_config planner))\<lparr>sw_last_error := message\<rparr>;
                        qc = (cfg_of (tk_swarm_config parent))\<lparr>sw_last_error := message\<rparr>
                    in (True, then_run (attempt (set_fields planner ''invalid_plan'' (swarm_config_json pc)))
                          (then_run (attempt (set_status (tk_id planner) StatusFailed))
                            (then_run (attempt (set_fields parent ''blocked'' (swarm_config_json qc)))
                              (then_run (attempt (set_status (tk_id parent) StatusBlocked)) (fail err)))) s1)))"

definition record_planner_application_error :: "swarm_env \<Rightarrow> task \<Rightarrow> swarm_error \<Rightarrow> unit run" where
  "record_planner_application_error env planner cause =
     (if tk_parent_task_id planner = None then ret ()
      else bind_run (or_else (load (tk_id planner)) None) (\<lambda>found. case found of None \<Rightarrow> ret () | Some sp \<Rightarrow>
        if tk_swarm_status sp = ''invalid_plan'' \<or> tk_swarm_status sp = ''planned'' then ret ()
        else (case tk_parent_task_id sp of None \<Rightarrow> ret () | Some p \<Rightarrow>
          bind_run (or_else (load p) None) (\<lambda>found. case found of None \<Rightarrow> ret () | Some parent \<Rightarrow>
            if tk_status parent = StatusCancelled then ret ()
            else let message = ''applying planner output: '' @ sv_text env cause;
                     followup = is_followup_planner_application sp parent;
                     pc = (cfg_of (tk_swarm_config sp))\<lparr>sw_last_error := message\<rparr>;
                     qc = (cfg_of (tk_swarm_config parent))\<lparr>sw_last_error := message\<rparr>
                 in then_run (attempt (set_fields sp (if followup then ''coordinating'' else ''plan_apply_failed'') (swarm_config_json pc)))
                     (then_run (attempt (set_fields parent (if followup then ''needs_coordination'' else ''blocked'') (swarm_config_json qc)))
                       (attempt (set_status (tk_id parent) StatusBlocked)))))))"

text \<open>The body of the method, with the flag of \<open>mark_planner_output_invalid\<close>, then its deferred function.\<close>

definition planner_execution_body :: "swarm_env \<Rightarrow> task \<Rightarrow> string \<Rightarrow> swarm_state \<Rightarrow> bool \<times> (swarm_error + unit) \<times> swarm_state" where
  "planner_execution_body env planner p s =
     (let found = bind_run (load p) (\<lambda>found. case found of None \<Rightarrow> ret None | Some parent \<Rightarrow>
            if tk_status parent = StatusCancelled then ret None
            else bind_run (children_of p) (\<lambda>cs.
              if has_execution_children cs \<and> tk_swarm_status planner = ''planned''
              then then_run (recompute_parent_status env p) (ret None)
              else if has_execution_children cs
              then bind_run (load p) (\<lambda>again. case again of None \<Rightarrow> ret None | Some q \<Rightarrow>
                     if \<not> is_followup_planner_application planner q \<and> tk_swarm_status planner = ''coordinating''
                     then then_run (recompute_parent_status env p) (ret None)
                     else bind_run (latest_completed (tk_id planner)) (\<lambda>x. ret (Some x)))
              else bind_run (latest_completed (tk_id planner)) (\<lambda>x. ret (Some x))))
      in case found s of
           (Inl e, s1) \<Rightarrow> (False, Inl e, s1)
         | (Inr None, s1) \<Rightarrow> (False, Inr (), s1)
         | (Inr (Some x), s1) \<Rightarrow>
             (case x of
                None \<Rightarrow> mark_planner_output_invalid planner ''planner completed without JSON output''
                          (SwarmMessage ''planner completed without JSON output'') s1
              | Some r \<Rightarrow>
                  if trim_space (xr_output r) = ''''
                  then mark_planner_output_invalid planner ''planner completed without JSON output''
                         (SwarmMessage ''planner completed without JSON output'') s1
                  else case parse_planner_output_json (sv_decode env) (xr_output r) of
                         None \<Rightarrow> mark_planner_output_invalid planner
                                   (''invalid planner JSON: '' @ sv_text env InvalidPlannerJSON) InvalidPlannerJSON s1
                       | Some o1 \<Rightarrow> (False, apply_planner_output env (tk_id planner) o1 s1)))"

definition apply_completed_planner_execution :: "swarm_env \<Rightarrow> task \<Rightarrow> string \<Rightarrow> unit run" where
  "apply_completed_planner_execution env planner p s =
     (case planner_execution_body env planner p s of
        (marked, Inr u, s1) \<Rightarrow> (Inr (), s1)
      | (marked, Inl e, s1) \<Rightarrow>
          if \<not> marked \<and> tk_swarm_status planner \<noteq> ''planned'' \<and> tk_swarm_status planner \<noteq> ''invalid_plan''
          then (Inl e, snd (record_planner_application_error env planner e s1)) else (Inl e, s1))"

definition on_child_completed :: "swarm_env \<Rightarrow> string \<Rightarrow> unit run" where
  "on_child_completed env i =
     bind_run (load i) (\<lambda>found. case found of None \<Rightarrow> ret () | Some child \<Rightarrow>
       (case tk_parent_task_id child of None \<Rightarrow> ret () | Some p \<Rightarrow>
          if \<not> is_swarm_child_role (tk_swarm_role child) then ret ()
          else if tk_swarm_role child = SwarmRolePlanner \<and> tk_status child = StatusCompleted
          then apply_completed_planner_execution env child p
          else on_child_completed_locked env i))"

subsection \<open>Follow-ups and reruns\<close>

definition handle_parent_followup :: "swarm_env \<Rightarrow> string \<Rightarrow> string \<Rightarrow> followup_selection option \<Rightarrow> unit run" where
  "handle_parent_followup env p message selection =
     bind_run (load p) (\<lambda>found. case found of None \<Rightarrow> ret () | Some parent0 \<Rightarrow>
       let c = cfg_of (tk_swarm_config parent0);
           g = sw_generation c + 1;
           cfg = c\<lparr>sw_generation := (if g = 0 then 1 else g), sw_stop_revision := sw_stop_revision c + 1, sw_merged_generation := 0\<rparr>;
           parent = parent0\<lparr>tk_swarm_config := swarm_config_json cfg\<rparr>
       in then_run (set_fields parent ''needs_coordination'' (swarm_config_json cfg))
           (then_run (set_status (tk_id parent) StatusRunning)
             (then_run (set_category (tk_id parent) CategoryActive)
               (bind_run (stored (find_swarm_child_by_role (tk_id parent) SwarmRolePlanner)) (\<lambda>found. case found of
                  None \<Rightarrow> start_planner_with_followup env None (tk_id parent) False message selection
                | Some compact \<Rightarrow>
                    bind_run (load_or ''loading planner task for parent: task not found'' (tk_id compact)) (\<lambda>planner.
                      let pc = set_planner_followup_effort selection ((cfg_of (tk_swarm_config planner))\<lparr>sw_rerun_generation := sw_generation cfg\<rparr>);
                          planner1 = planner\<lparr>tk_agent_id := selected_model selection (tk_agent_id parent),
                            tk_prompt := coordinator_followup_prompt (tk_prompt parent) message (sw_generation cfg),
                            tk_status := StatusPending, tk_category := CategoryActive, tk_swarm_status := ''coordinating'',
                            tk_swarm_config := swarm_config_json pc\<rparr>
                      in bind_run (task_service_update False planner1) (\<lambda>planner2.
                           then_run (clear_cancellation (tk_id parent))
                             (then_run (clear_cancellation (tk_id planner2)) (submit_task env planner2)))))))))"

text \<open>
  The generations after a follow-up to one child: a new generation of work for a worker, unless it
  repairs a failure, and what must be reviewed or merged again.
\<close>

definition clamp_parent :: "swarm_config \<Rightarrow> swarm_config" where
  "clamp_parent c = c\<lparr>sw_reviewed_generation := max 0 (sw_reviewed_generation c), sw_merged_generation := max 0 (sw_merged_generation c)\<rparr>"

definition clamp_child :: "swarm_config \<Rightarrow> swarm_config" where
  "clamp_child c = c\<lparr>sw_completed_generation := max 0 (sw_completed_generation c),
     sw_reviewed_generation := max 0 (sw_reviewed_generation c), sw_merged_generation := max 0 (sw_merged_generation c)\<rparr>"

definition at_least_one :: "int \<Rightarrow> int" where
  "at_least_one g = (if g \<le> 0 then 1 else g)"

definition followup_generations ::
  "swarm_role \<Rightarrow> bool \<Rightarrow> swarm_config \<Rightarrow> swarm_config \<Rightarrow> (swarm_config \<times> swarm_config \<times> string) option" where
  "followup_generations role repairing pc0 cc =
     (case role of
        SwarmRoleWorker \<Rightarrow>
          let g = (if repairing then at_least_one (sw_generation pc0)
                   else if sw_generation pc0 + 1 = 0 then 1 else sw_generation pc0 + 1)
          in Some (clamp_parent (pc0\<lparr>sw_generation := g, sw_reviewed_generation := min (sw_reviewed_generation pc0) (g - 1),
                     sw_merged_generation := min (sw_merged_generation pc0) (g - 1)\<rparr>),
                   clamp_child (cc\<lparr>sw_rerun_generation := g, sw_completed_generation := min (sw_completed_generation cc) (g - 1)\<rparr>),
                   ''needs_review'')
      | SwarmRoleReviewer \<Rightarrow>
          let g = at_least_one (sw_generation pc0)
          in Some (clamp_parent (pc0\<lparr>sw_generation := g, sw_merged_generation := min (sw_merged_generation pc0) (g - 1)\<rparr>),
                   clamp_child (cc\<lparr>sw_rerun_generation := max (sw_rerun_generation cc) g,
                     sw_reviewed_generation := min (sw_reviewed_generation cc) (g - 1)\<rparr>),
                   ''needs_review'')
      | _ \<Rightarrow>
          if \<not> is_merger_role role then None
          else let g = at_least_one (sw_generation pc0)
               in Some (clamp_parent (pc0\<lparr>sw_generation := g, sw_merged_generation := min (sw_merged_generation pc0) (g - 1)\<rparr>),
                        clamp_child (cc\<lparr>sw_rerun_generation := max (sw_rerun_generation cc) (max (sw_reviewed_generation pc0) g),
                          sw_merged_generation := min (sw_merged_generation cc) (g - 1)\<rparr>),
                        ''needs_integration''))"

text \<open>The task and its parent, read under the locks; \<open>None\<close> is the method's early return.\<close>

definition load_pair :: "string \<Rightarrow> (task \<Rightarrow> bool) \<Rightarrow> (task \<times> task) option run" where
  "load_pair i P =
     bind_run (load i) (\<lambda>first. case first of None \<Rightarrow> ret None | Some t0 \<Rightarrow>
       if tk_parent_task_id t0 = None then ret None
       else bind_run (load i) (\<lambda>found. case found of None \<Rightarrow> ret None | Some child \<Rightarrow>
         (case tk_parent_task_id child of None \<Rightarrow> ret None | Some p \<Rightarrow>
            if \<not> is_swarm_child_role (tk_swarm_role child) \<or> \<not> P child then ret None
            else bind_run (load p) (\<lambda>found. case found of None \<Rightarrow> ret None | Some parent \<Rightarrow> ret (Some (child, parent))))))"

definition wake_parent :: "task \<Rightarrow> string \<Rightarrow> swarm_text \<Rightarrow> unit run" where
  "wake_parent parent status text =
     then_run (set_fields parent status text)
       (then_run (set_status (tk_id parent) StatusRunning) (set_category (tk_id parent) CategoryActive))"

definition handle_child_followup :: "string \<Rightarrow> unit run" where
  "handle_child_followup i =
     bind_run (load_pair i (\<lambda>_. True)) (\<lambda>found. case found of None \<Rightarrow> ret () | Some (child, parent) \<Rightarrow>
       let c = cfg_of (tk_swarm_config parent);
           pc = c\<lparr>sw_stop_revision := sw_stop_revision c + 1\<rparr>;
           repairing = (tk_status child = StatusFailed \<or> tk_swarm_status child = ''failed'' \<or> tk_swarm_status child = ''followup_failed'')
       in case followup_generations (tk_swarm_role child) repairing pc (cfg_of (tk_swarm_config child)) of
            None \<Rightarrow> ret ()
          | Some (pc1, cc1, status) \<Rightarrow>
              then_run (wake_parent parent status (swarm_config_json pc1))
               (then_run (clear_cancellation (tk_id parent))
                 (then_run (clear_cancellation (tk_id child)) (set_fields child ''followup_pending'' (swarm_config_json cc1)))))"

definition reactivate_parent_for_retry :: "string \<Rightarrow> unit run" where
  "reactivate_parent_for_retry i =
     bind_run (load_pair i (\<lambda>c. tk_swarm_status c = ''followup_pending'' \<or> tk_swarm_status c = ''followup_failed''))
       (\<lambda>found. case found of None \<Rightarrow> ret () | Some (child, parent) \<Rightarrow>
         (case parse_swarm_config (tk_swarm_config parent) of
            None \<Rightarrow> fail MalformedConfig
          | Some c \<Rightarrow>
              then_run (wake_parent parent (tk_swarm_status parent) (swarm_config_json (c\<lparr>sw_stop_revision := sw_stop_revision c + 1\<rparr>)))
               (then_run (clear_cancellation (tk_id parent))
                 (then_run (clear_cancellation (tk_id child))
                   (if tk_swarm_status child = ''followup_failed''
                    then set_fields child ''followup_pending'' (tk_swarm_config child) else ret ())))))"

text \<open>
  \<open>HasActiveTaskExecution\<close> (\<open>internal/persistence/sqlite/execution_repo.go\<close>) first ends the running
  executions whose task is over or inactive. The steering inputs it also requeues are not in the
  tables.
\<close>

definition stale_running :: "task_db \<Rightarrow> exec_row \<Rightarrow> bool" where
  "stale_running d e \<longleftrightarrow> ex_status e = ExecRunning \<and> ex_dispatch e = None \<and>
     (case get_task (ex_task e) d of None \<Rightarrow> False
      | Some t \<Rightarrow> tk_category t \<noteq> CategoryChat \<and>
          (tk_status t \<notin> {StatusQueued, StatusRunning} \<or> tk_category t \<notin> {CategoryActive, CategoryScheduled}))"

definition recover_stale_executions :: "task_db \<Rightarrow> (store_error + nat) \<times> task_db" where
  "recover_stale_executions =
     txn (\<lambda>d. (Inr (length (filter (stale_running d) (db_execs d))),
       set_execs (stale_running d) (\<lambda>e. e\<lparr>
         ex_status := (case get_task (ex_task e) d of Some t \<Rightarrow> if tk_status t = StatusCancelled then ExecCancelled else ExecFailed
                       | None \<Rightarrow> ExecFailed),
         ex_error := (if ex_error e = '''' then ''Recovered stale running execution: owning task is terminal or inactive'' else ex_error e),
         ex_completed_at := Some (db_now d)\<rparr>) d))"

definition has_active_task_execution :: "string \<Rightarrow> bool run" where
  "has_active_task_execution i =
     then_run (stored (query (\<lambda>_. ())))
      (bind_run (stored recover_stale_executions) (\<lambda>_. stored (query (\<lambda>d.
        \<exists>e \<in> set (db_execs d). ex_task e = i \<and> ex_id e \<noteq> '''' \<and> ex_status e = ExecRunning \<and>
          (case get_task i d of None \<Rightarrow> False
           | Some t \<Rightarrow> tk_category t = CategoryActive \<and> tk_status t \<in> {StatusQueued, StatusRunning})))))"

definition rerun_configs :: "swarm_role \<Rightarrow> swarm_config \<Rightarrow> swarm_config \<Rightarrow> swarm_config \<times> swarm_config" where
  "rerun_configs role pc0 cc0 =
     (let pc = pc0\<lparr>sw_stop_revision := sw_stop_revision pc0 + 1\<rparr>;
          cc = cc0\<lparr>sw_rerun_generation := max (sw_rerun_generation cc0) (sw_generation pc)\<rparr>
      in if role = SwarmRoleReviewer
         then (if sw_merged_generation pc \<ge> sw_generation pc
               then pc\<lparr>sw_merged_generation := max 0 (sw_generation pc - 1)\<rparr> else pc, cc)
         else let cc1 = (if sw_reviewed_generation pc > 0 \<and> sw_rerun_generation cc < sw_reviewed_generation pc
                         then cc\<lparr>sw_rerun_generation := sw_reviewed_generation pc\<rparr> else cc)
              in (if sw_merged_generation pc \<ge> sw_rerun_generation cc1
                  then pc\<lparr>sw_merged_generation := max 0 (sw_rerun_generation cc1 - 1)\<rparr> else pc, cc1))"

definition rerun_role :: "swarm_env \<Rightarrow> string \<Rightarrow> swarm_role \<Rightarrow> task option run" where
  "rerun_role env p role0 =
     (if role0 \<noteq> SwarmRoleReviewer \<and> \<not> is_merger_role role0 then fail (SwarmMessage ''unsupported swarm rerun role'')
      else let merger = is_merger_role role0; role = (if merger then SwarmRoleMerger else role0)
           in bind_run (load p) (\<lambda>found. case found of None \<Rightarrow> ret None | Some parent \<Rightarrow>
             bind_run (stored (find_swarm_child_by_role p role)) (\<lambda>first.
              bind_run (if first = None \<and> merger then stored (find_swarm_child_by_role p SwarmRoleLegacyIntegrator) else ret first)
               (\<lambda>found. case found of None \<Rightarrow> ret None | Some child \<Rightarrow>
                 if tk_status child \<in> {StatusRunning, StatusQueued, StatusPending} then fail SwarmRoleActive
                 else bind_run (has_active_task_execution (tk_id child)) (\<lambda>active.
                   if active then fail SwarmRoleActive
                   else let (pc, cc) = rerun_configs role (cfg_of (tk_swarm_config parent)) (cfg_of (tk_swarm_config child));
                            (parent_status, child_status) = (if role = SwarmRoleReviewer then (''needs_review'', ''rerun_review'')
                              else (''needs_integration'', ''rerun_integration''));
                            child1 = child\<lparr>tk_swarm_status := child_status, tk_swarm_config := swarm_config_json cc,
                              tk_category := CategoryActive, tk_status := StatusPending\<rparr>
                        in then_run (wake_parent parent parent_status (swarm_config_json pc))
                            (then_run (set_fields child child_status (swarm_config_json cc))
                              (then_run (set_category (tk_id child) CategoryActive)
                                (then_run (set_status (tk_id child) StatusPending)
                                  (then_run (clear_cancellation (tk_id parent))
                                    (then_run (clear_cancellation (tk_id child))
                                      (then_run (submit_task env child1) (ret (Some child1)))))))))))))"

subsection \<open>The board\<close>

text \<open>The children of a parent that came with the row are kept when the list holds none of them.\<close>

definition is_attached_child :: "task \<Rightarrow> bool" where
  "is_attached_child t \<longleftrightarrow> is_swarm_child_role (tk_swarm_role t) \<and> tk_parent_task_id t \<noteq> None"

definition attach_swarm_children :: "(task \<times> task list) list \<Rightarrow> (task \<times> task list) list" where
  "attach_swarm_children ts =
     map (\<lambda>(t, own). if tk_swarm_role t = SwarmRoleParent
            then let cs = filter (\<lambda>c. is_attached_child c \<and> tk_parent_task_id c = Some (tk_id t)) (map fst ts)
                 in (t, sort_key (\<lambda>c. (tk_swarm_sequence c, tk_created_at c)) (if cs = [] then own else cs))
            else (t, own))
       (filter (\<lambda>(t, _). \<not> is_attached_child t) ts)"

end
