(* ===== verification/SwarmChildren.thy ===== *)
theory SwarmChildren
  imports SwarmPlanner TaskLaws
begin

section \<open>Creating the children of a swarm\<close>

text \<open>
  The loop that looks for a free title ends: the titles it tries are different, and a title is only
  refused because a stored task has it. The contract of the save the loop calls is a locale,
  interpreted on the task service's create and update.
\<close>

subsection \<open>The titles are different\<close>

lemma digit_not_space: "48 \<le> (of_char c :: nat) \<Longrightarrow> \<not> is_space c"
  by (auto simp: is_space_def)

lemma last_decimal: "\<not> is_space (last (decimal n))"
proof -
  have "last (decimal n) \<in> set (decimal n)" by (rule last_in_set) simp
  then have "48 \<le> (of_char (last (decimal n)) :: nat)" using set_decimal by blast
  then show ?thesis by (rule digit_not_space)
qed

lemma last_show_int: "show_int k \<noteq> [] \<and> \<not> is_space (last (show_int k))"
  by (simp add: show_int_def last_decimal)

definition title_suffix :: "nat \<Rightarrow> string" where
  "title_suffix k = (if k = 1 then [] else ''-'' @ decimal k)"

definition title_tail :: "string \<Rightarrow> int \<Rightarrow> nat \<Rightarrow> string" where
  "title_tail p n k = tl dot @ take 8 p @ ''-'' @ show_int n @ title_suffix k"

lemma title_tail_inj: "title_tail p n j = title_tail p n k \<Longrightarrow> j = k"
  by (auto simp: title_tail_def title_suffix_def split: if_splits dest: decimal_inj)

lemma child_title_tail: "k \<noteq> 0 \<Longrightarrow> swarm_child_title base p n k = base @ CHR '' '' # title_tail p n k"
  by (simp add: swarm_child_title_def title_tail_def title_suffix_def dot_def Let_def)

lemma title_tail_ends: "title_tail p n k \<noteq> []" "\<not> is_space (hd (title_tail p n k))" "\<not> is_space (last (title_tail p n k))"
proof -
  show "title_tail p n k \<noteq> []" "\<not> is_space (hd (title_tail p n k))" by (simp_all add: title_tail_def dot_def is_space_def)
  have "last (title_tail p n k) = (if k = 1 then last (show_int n) else last (decimal k))"
    using last_show_int [of n] by (simp add: title_tail_def title_suffix_def)
  then show "\<not> is_space (last (title_tail p n k))" using last_show_int [of n] last_decimal [of k] by simp
qed

lemma trim_space_append:
  assumes "t \<noteq> []" "\<not> is_space (hd t)" "\<not> is_space (last t)"
  shows "trim_space (s @ t) = dropWhile is_space s @ t"
proof -
  have "dropWhile is_space (s @ t) = dropWhile is_space s @ t"
    using assms(1,2) by (induction s) (auto simp: neq_Nil_conv)
  moreover have "dropWhile is_space (rev (dropWhile is_space s @ t)) = rev (dropWhile is_space s @ t)"
    using assms(1,3) by (simp add: dropWhile_eq_self_iff hd_rev hd_append)
  ultimately show ?thesis by (simp add: trim_space_def)
qed

lemma trimmed_child_titles: "j \<noteq> 0 \<Longrightarrow> k \<noteq> 0 \<Longrightarrow> trim_space (swarm_child_title base p n j) = trim_space (swarm_child_title base p n k) \<Longrightarrow> j = k"
proof -
  assume jk: "j \<noteq> 0" "k \<noteq> 0"
    and eq: "trim_space (swarm_child_title base p n j) = trim_space (swarm_child_title base p n k)"
  have "trim_space (swarm_child_title base p n m) = dropWhile is_space (base @ '' '') @ title_tail p n m" if "m \<noteq> 0" for m
    using trim_space_append [OF title_tail_ends, of "base @ '' ''" p n m] child_title_tail [OF that, of base p n] by simp
  with jk eq show "j = k" using title_tail_inj by fastforce
qed

subsection \<open>The contract of a save\<close>

text \<open>A save that reports a duplicate found the trimmed title in the tables, and changed no task.\<close>

locale titled_save =
  fixes save :: "task \<Rightarrow> task run"
  assumes duplicate: "save t s = (Inl (StoreError ErrDuplicateTask), s1) \<Longrightarrow>
      trim_space (tk_title t) \<in> tk_title ` set (db_tasks (ss_db s)) \<and> db_tasks (ss_db s1) = db_tasks (ss_db s)"
    and not_exhausted: "fst (save t s) \<noteq> Inl AttemptsExhausted"
begin

lemma loop_exhausted:
  "child_loop env save p c k fuel s = (Inl AttemptsExhausted, s') \<Longrightarrow> j < fuel \<Longrightarrow>
   trim_space (swarm_child_title (tk_title c) p (tk_swarm_sequence c) (k + j)) \<in> tk_title ` set (db_tasks (ss_db s))"
proof (induction fuel arbitrary: k s j)
  case (Suc fuel)
  let ?t = "c\<lparr>tk_title := swarm_child_title (tk_title c) p (tk_swarm_sequence c) k\<rparr>"
  obtain r s1 where save: "save ?t s = (r, s1)" by (rule prod.exhaust)
  from Suc.prems(1) not_exhausted [of ?t s] save
  have dup: "r = Inl (StoreError ErrDuplicateTask)" "child_loop env save p c (Suc k) fuel s1 = (Inl AttemptsExhausted, s')"
    by (auto split: sum.splits if_splits)
  from duplicate [OF save [unfolded dup(1)]] have here: "trim_space (tk_title ?t) \<in> tk_title ` set (db_tasks (ss_db s))"
    and same: "db_tasks (ss_db s1) = db_tasks (ss_db s)" by blast+
  show ?case
  proof (cases j)
    case 0 with here show ?thesis by simp
  next
    case (Suc i)
    with Suc.prems(2) have "i < fuel" by simp
    from Suc.IH [OF dup(2) this] Suc same show ?thesis by simp
  qed
qed simp

lemma loop_ends: "fst (child_loop env save p c 0 (child_fuel s) s) \<noteq> Inl AttemptsExhausted"
proof
  assume "fst (child_loop env save p c 0 (child_fuel s) s) = Inl AttemptsExhausted"
  then obtain s' where ex: "child_loop env save p c 0 (child_fuel s) s = (Inl AttemptsExhausted, s')"
    by (metis prod.collapse)
  define n where "n = length (db_tasks (ss_db s))"
  define f where "f = (\<lambda>j. trim_space (swarm_child_title (tk_title c) p (tk_swarm_sequence c) j))"
  let ?T = "tk_title ` set (db_tasks (ss_db s))"
  have "f j \<in> ?T" if "j \<in> {1..Suc n}" for j
    using loop_exhausted [OF ex, of j] that by (simp add: child_fuel_def n_def f_def)
  moreover have "inj_on f {1..Suc n}" by (rule inj_onI) (use trimmed_child_titles in \<open>force simp: f_def\<close>)
  ultimately have "card {1..Suc n} \<le> card ?T" by (intro card_inj_on_le [of f]) auto
  also have "\<dots> \<le> n" using card_image_le [of "set (db_tasks (ss_db s))" tk_title] card_length [of "db_tasks (ss_db s)"]
    by (simp add: n_def)
  finally show False by simp
qed

end

lemma same_tables_tasks: "same_tables d d1 \<Longrightarrow> db_tasks d1 = db_tasks d"
  by (auto simp: same_tables_def)

lemma txn_failure:
  "txn body d = (Inl e, d') \<Longrightarrow> e = DbFailure \<or> (\<exists>d1 d2. same_tables d d1 \<and> body d1 = (Inl e, d2))"
  by (cases "next_fault d")
    (auto simp: txn_def dest: next_fault_tables split: bool.splits prod.splits sum.splits)

lemma create_duplicate:
  "create_task t d = (Inl ErrDuplicateTask, d') \<Longrightarrow> tk_title t \<in> tk_title ` set (db_tasks d) \<and> db_tasks d' = db_tasks d"
proof -
  assume c: "create_task t d = (Inl ErrDuplicateTask, d')"
  then have "db_tasks d' = db_tasks d" unfolding create_task_def by (rule same_tables_tasks [OF txn_error])
  moreover from txn_failure [OF c [unfolded create_task_def]] obtain d1 d2 where
    "same_tables d d1" "create_task_body t d1 = (Inl ErrDuplicateTask, d2)" by auto
  then have "\<exists>u \<in> set (db_tasks d). tk_title u = tk_title t"
    by (auto simp: create_task_body_def Let_def dest!: same_tables_tasks split: list.splits if_splits)
  ultimately show ?thesis by (metis image_eqI)
qed

lemma update_duplicate:
  "update_task True t d = (Inl ErrDuplicateTask, d') \<Longrightarrow> tk_title t \<in> tk_title ` set (db_tasks d) \<and> db_tasks d' = db_tasks d"
proof -
  assume c: "update_task True t d = (Inl ErrDuplicateTask, d')"
  then have "db_tasks d' = db_tasks d" unfolding update_task_def by (rule same_tables_tasks [OF txn_error])
  moreover from txn_failure [OF c [unfolded update_task_def]] obtain d1 where same: "same_tables d d1"
    and dup: "\<exists>v \<in> set (db_tasks d1). tk_title v = tk_title t"
    by (auto split: option.splits if_splits)
  ultimately show ?thesis using same_tables_tasks [OF same] by (metis image_eqI)
qed

lemma stored_failure: "stored f s = (Inl e, s1) \<Longrightarrow> \<exists>e0 d. f (ss_db s) = (Inl e0, d) \<and> e = StoreError e0 \<and> s1 = s\<lparr>ss_db := d\<rparr>"
  by (auto simp: stored_def split: prod.splits sum.splits)

lemma normalized: "normalize_title_and_prompt t = Inr t1 \<Longrightarrow> tk_title t1 = trim_space (tk_title t) \<and> tk_id t1 = tk_id t"
  by (auto simp: normalize_title_and_prompt_def Let_def split: if_splits)

lemma normalize_fails: "normalize_title_and_prompt t = Inl e \<Longrightarrow> e = TaskTitleRequired \<or> e = TaskPromptRequired"
  by (auto simp: normalize_title_and_prompt_def Let_def split: if_splits)

lemma priority_title [simp]: "tk_title (normalize_create_priority t) = tk_title t"
  by (simp add: normalize_create_priority_def)

text \<open>A create without a goal fails only where its parts do.\<close>

lemma task_service_create_fails:
  assumes "task_service_create env t s = (Inl e, s1)"
  shows "e = TaskTitleRequired \<or> e = TaskPromptRequired \<or>
    (\<exists>t2. tk_title t2 = trim_space (tk_title t) \<and> stored (create_task t2) s = (Inl e, s1))"
proof (cases "normalize_title_and_prompt t")
  case (Inl e0)
  with assms normalize_fails [OF Inl] show ?thesis by (auto simp: task_service_create_def create_with_goal_def)
next
  case (Inr t1)
  let ?t2 = "normalize_create_priority t1"
  have t2: "tk_title ?t2 = trim_space (tk_title t)" using normalized [OF Inr] by simp
  obtain r s2 where st: "stored (create_task ?t2) s = (r, s2)" by (rule prod.exhaust)
  have trim: "trim_space [] = []" by (simp add: trim_space_def)
  show ?thesis
  proof (cases r)
    case (Inl e0)
    with assms Inr st have "e0 = e" "s2 = s1"
      by (simp_all add: task_service_create_def create_with_goal_def trim store_with_goal_def)
    with st Inl t2 show ?thesis by blast
  next
    case (Inr u)
    with assms \<open>normalize_title_and_prompt t = Inr t1\<close> st have False
      by (simp add: task_service_create_def create_with_goal_def trim store_with_goal_def then_run_def submit_task_def
          pooled_def bind_run_def split: if_splits)
    then show ?thesis ..
  qed
qed

interpretation created: titled_save "task_service_create env" for env
proof
  fix t s s1 assume "task_service_create env t s = (Inl (StoreError ErrDuplicateTask), s1)"
  from task_service_create_fails [OF this] obtain t2 where t2: "tk_title t2 = trim_space (tk_title t)"
    and st: "stored (create_task t2) s = (Inl (StoreError ErrDuplicateTask), s1)" by auto
  from stored_failure [OF st] obtain d where c: "create_task t2 (ss_db s) = (Inl ErrDuplicateTask, d)" and s1: "s1 = s\<lparr>ss_db := d\<rparr>" by auto
  from create_duplicate [OF c] t2 s1 show "trim_space (tk_title t) \<in> tk_title ` set (db_tasks (ss_db s)) \<and> db_tasks (ss_db s1) = db_tasks (ss_db s)"
    by simp
next
  fix t s show "fst (task_service_create env t s) \<noteq> Inl AttemptsExhausted"
  proof
    assume "fst (task_service_create env t s) = Inl AttemptsExhausted"
    then obtain s1 where "task_service_create env t s = (Inl AttemptsExhausted, s1)" by (metis prod.collapse)
    from task_service_create_fails [OF this] show False by (auto dest: stored_failure)
  qed
qed

lemma task_service_update_fails:
  assumes "task_service_update title t s = (Inl e, s1)"
  shows "e = TaskTitleRequired \<or> e = TaskPromptRequired \<or> e = InvalidTaskPriority \<or>
    (\<exists>t2. tk_title t2 = trim_space (tk_title t) \<and> stored (update_task title t2) s = (Inl e, s1))"
proof (cases "normalize_title_and_prompt t")
  case (Inl e0)
  with assms normalize_fails [OF Inl] show ?thesis by (auto simp: task_service_update_def)
next
  case (Inr t1)
  have t1: "tk_title t1 = trim_space (tk_title t)" using normalized [OF Inr] by simp
  obtain r s2 where st: "stored (update_task title t1) s = (r, s2)" by (rule prod.exhaust)
  with assms Inr t1 show ?thesis
    by (cases r) (auto simp: task_service_update_def then_run_def bind_run_def split: if_splits)
qed

interpretation updated: titled_save "task_service_update True"
proof
  fix t s s1 assume "task_service_update True t s = (Inl (StoreError ErrDuplicateTask), s1)"
  from task_service_update_fails [OF this] obtain t2 where t2: "tk_title t2 = trim_space (tk_title t)"
    and st: "stored (update_task True t2) s = (Inl (StoreError ErrDuplicateTask), s1)" by auto
  from stored_failure [OF st] obtain d where c: "update_task True t2 (ss_db s) = (Inl ErrDuplicateTask, d)" and s1: "s1 = s\<lparr>ss_db := d\<rparr>" by auto
  from update_duplicate [OF c] t2 s1 show "trim_space (tk_title t) \<in> tk_title ` set (db_tasks (ss_db s)) \<and> db_tasks (ss_db s1) = db_tasks (ss_db s)"
    by simp
next
  fix t s show "fst (task_service_update True t s) \<noteq> Inl AttemptsExhausted"
  proof
    assume "fst (task_service_update True t s) = Inl AttemptsExhausted"
    then obtain s1 where "task_service_update True t s = (Inl AttemptsExhausted, s1)" by (metis prod.collapse)
    from task_service_update_fails [OF this] show False by (auto dest: stored_failure)
  qed
qed

text \<open>
  Looking for a free title ends. Whatever the tables hold and whatever the store refuses, the
  loops of \<open>createSwarmChild\<close> and \<open>updateSwarmChild\<close> return before they have tried more titles than
  there are tasks and one: the titles they try are different after trimming, and a failed attempt
  leaves the tables as they are.
\<close>
theorem child_titles_end:
  "fst (create_swarm_child env parent child s) \<noteq> Inl AttemptsExhausted \<and>
   fst (update_swarm_child env parent child s) \<noteq> Inl AttemptsExhausted"
  unfolding create_swarm_child_def update_swarm_child_def using created.loop_ends updated.loop_ends by blast

end
