(* ===== verification/SwarmLaws.thy ===== *)
theory SwarmLaws
  imports SwarmChildren
begin

section \<open>What a swarm promises\<close>

text \<open>
  The effect of the store's calls on single rows, and with it: the stop reaches every child, a
  stopped swarm is left alone, and a parent is completed exactly when its work is.
\<close>

subsection \<open>Rows after a write\<close>

text \<open>A row another task's update left alone, up to a pending task it withdrew.\<close>

definition kept :: "task \<Rightarrow> task \<Rightarrow> bool" where
  "kept t u \<longleftrightarrow> u = t\<lparr>tk_status := tk_status u, tk_updated_at := tk_updated_at u\<rparr> \<and>
     (tk_status u = tk_status t \<or> (tk_status t = StatusPending \<and> tk_status u = StatusCancelled))"

lemma kept_refl [simp]: "kept t t"
  by (simp add: kept_def)

lemma find_map_keep:
  "(\<And>t. tk_id (f t) = tk_id t) \<Longrightarrow> find (\<lambda>t. tk_id t = i) (map f ts) = map_option f (find (\<lambda>t. tk_id t = i) ts)"
  by (induction ts) auto

lemma get_task_withdrawn:
  "get_task j (task_withdrawn new d) = map_option
     (\<lambda>t. if withdraws new \<and> tk_status t = StatusPending \<and> tk_id t \<noteq> tk_id new \<and>
             tk_id t \<in> ad_task ` set (filter (\<lambda>a. ad_schedule a \<in> schedules_of (tk_id new) d) (db_admissions d))
          then t\<lparr>tk_status := StatusCancelled, tk_updated_at := db_now d\<rparr> else t) (get_task j d)"
proof (cases "withdraws new")
  case True
  then show ?thesis
    unfolding task_withdrawn_def Let_def get_task_def by (simp add: find_map_keep)
next
  case False then show ?thesis by (simp add: task_withdrawn_def option.map_ident)
qed

lemma get_task_id: "get_task i d = Some t \<Longrightarrow> tk_id t = i"
  unfolding get_task_def by (auto dest: find_Some_in)

lemma get_update_task_row:
  assumes "\<And>t. tk_id (f t) = tk_id t" "get_task i d = Some t"
  shows "get_task i (update_task_row i f d) = Some ((f t)\<lparr>tk_updated_at := db_now d\<rparr>)"
    "get_task j d = Some u \<Longrightarrow> j \<noteq> i \<Longrightarrow> \<exists>v. get_task j (update_task_row i f d) = Some v \<and> kept u v"
proof -
  let ?new = "(f t)\<lparr>tk_updated_at := db_now d\<rparr>" and ?d = "map_task i f d"
  have g: "get_task i ?d = Some ?new" using assms by (simp add: get_map_task)
  have new: "tk_id ?new = i" using assms get_task_id by simp
  have row: "update_task_row i f d = task_withdrawn ?new ?d" by (simp add: update_task_row_def Let_def g)
  show "get_task i (update_task_row i f d) = Some ?new" unfolding row by (simp add: get_task_withdrawn g new)
  assume u: "get_task j d = Some u" and j: "j \<noteq> i"
  then have "get_task j ?d = Some u" using assms(1) by (simp add: get_map_task)
  then show "\<exists>v. get_task j (update_task_row i f d) = Some v \<and> kept u v"
    unfolding row by (auto simp: get_task_withdrawn kept_def)
qed

lemma same_get: "same_tables d d1 \<Longrightarrow> get_task i d1 = get_task i d"
  by (auto simp: same_tables_def get_task_def)

lemma get_cancel_reserved [simp]: "get_task i (cancel_reserved j d) = get_task i d"
  by (simp add: get_task_def cancel_reserved_def)

lemma get_publish [simp]: "get_task i (publish es d) = get_task i d"
  by (simp add: get_task_def)

lemma txn_result: "txn body d = (Inr x, d') \<Longrightarrow> \<exists>d1. same_tables d d1 \<and> body d1 = (Inr x, d')"
  by (cases "next_fault d") (auto simp: txn_def dest: next_fault_tables split: bool.splits prod.splits sum.splits)

lemma and_then_ok: "and_then r k = (Inr y, s2) \<Longrightarrow> \<exists>x s1. r = (Inr x, s1) \<and> k x s1 = (Inr y, s2)"
  by (auto simp: and_then_def split: prod.splits sum.splits)

text \<open>The task an update of a status or a category names, and every other.\<close>

definition wrote :: "string \<Rightarrow> (task \<Rightarrow> task \<Rightarrow> bool) \<Rightarrow> task_db \<Rightarrow> task_db \<Rightarrow> bool" where
  "wrote i R d d' \<longleftrightarrow>
     (\<exists>t u. get_task i d = Some t \<and> get_task i d' = Some u \<and> R t u) \<and>
     (\<forall>j t. j \<noteq> i \<longrightarrow> get_task j d = Some t \<longrightarrow> (\<exists>u. get_task j d' = Some u \<and> kept t u))"

lemma wrote_row:
  assumes "same_tables d0 d" "get_task i d = Some t" "\<And>t. tk_id (f t) = tk_id t"
    "\<And>j. get_task j d' = get_task j (update_task_row i f d)" "R t ((f t)\<lparr>tk_updated_at := db_now d\<rparr>)"
  shows "wrote i R d0 d'"
  using get_update_task_row [of f i d, OF assms(3,2)] assms(2,4,5) same_get [OF assms(1)]
  unfolding wrote_def by metis

lemma wrote_nothing:
  assumes "same_tables d0 d" "get_task i d = Some t" "\<And>j. get_task j d' = get_task j d" "R t t"
  shows "wrote i R d0 d'"
  using assms(2-4) same_get [OF assms(1)] kept_refl unfolding wrote_def by metis

lemma update_status_wrote:
  assumes "update_status i st d = (Inr (), d')"
  shows "wrote i (\<lambda>t u. tk_status u = st \<and> tk_swarm_config u = tk_swarm_config t \<and> tk_category u = tk_category t) d d'"
proof -
  let ?R = "\<lambda>t u. tk_status u = st \<and> tk_swarm_config u = tk_swarm_config t \<and> tk_category u = tk_category t"
  from assms obtain t d1 where t: "txn (update_status_body i st) d = (Inr t, d1)"
    and d': "\<And>j. get_task j d' = get_task j d1"
    unfolding update_status_def by (auto dest!: and_then_ok)
  from txn_result [OF t] obtain d0 where same: "same_tables d d0" and body: "update_status_body i st d0 = (Inr t, d1)" by blast
  from body obtain g: "get_task i d0 = Some t" by (auto simp: update_status_body_def Let_def split: option.splits if_splits)
  show ?thesis
  proof (cases "tk_status t = st")
    case True
    with body g have "d1 = d0" by (simp add: update_status_body_def)
    with True d' show ?thesis by (intro wrote_nothing [OF same g]) simp_all
  next
    case False
    define n where "n = (if (tk_category t = CategoryActive \<and> is_active_board_status st) \<or> (tk_category t = CategoryScheduled \<and> st = StatusRunning)
      then active_tail (tk_project_id t) d0 else tk_display_order t)"
    let ?f = "\<lambda>t. t\<lparr>tk_status := st, tk_display_order := n\<rparr>"
    from body g False have "d1 = (if st \<noteq> StatusRunning then cancel_reserved i (update_task_row i ?f d0) else update_task_row i ?f d0)"
      unfolding update_status_body_def n_def by (simp only: g option.case False if_False Let_def prod.inject)
    with d' show ?thesis by (intro wrote_row [OF same g, of ?f]) simp_all
  qed
qed

lemma update_category_wrote:
  assumes "update_category i c d = (Inr (), d')"
  shows "wrote i (\<lambda>t u. tk_category u = c \<and> tk_swarm_config u = tk_swarm_config t \<and> tk_status u = tk_status t) d d'"
proof -
  from assms obtain t d1 where t: "txn (update_category_body i c) d = (Inr t, d1)"
    and d': "\<And>j. get_task j d' = get_task j d1"
    unfolding update_category_def by (auto dest!: and_then_ok)
  from txn_result [OF t] obtain d0 where same: "same_tables d d0" and body: "update_category_body i c d0 = (Inr t, d1)" by blast
  from body obtain g: "get_task i d0 = Some t" by (auto simp: update_category_body_def Let_def split: option.splits if_splits)
  show ?thesis
  proof (cases "tk_category t = c")
    case True
    with body g have "d1 = d0" by (simp add: update_category_body_def)
    with True d' show ?thesis by (intro wrote_nothing [OF same g]) simp_all
  next
    case False
    define n where "n = (if c = CategoryActive then active_tail (tk_project_id t) d0 else category_tail (tk_project_id t) c d0)"
    let ?f = "\<lambda>t. t\<lparr>tk_category := c, tk_display_order := n, tk_completed_at := (if c = CategoryCompleted then Some (db_now d0) else None)\<rparr>"
    from body g False have "d1 = (if c \<noteq> CategoryActive then cancel_reserved i (update_task_row i ?f d0) else update_task_row i ?f d0)"
      unfolding update_category_body_def n_def by (simp only: g option.case False if_False Let_def prod.inject split: if_split_asm) simp_all
    with d' show ?thesis by (intro wrote_row [OF same g, of ?f]) simp_all
  qed
qed

lemma update_swarm_fields_others:
  assumes "update_swarm_fields i role st c n d = (Inr (), d')"
  shows "get_task j d' = map_option (\<lambda>t. if i = j then t\<lparr>tk_swarm_role := role, tk_swarm_status := st,
      tk_swarm_config := monotonic_parent_stop_revision role (tk_swarm_config t) (default_json c),
      tk_swarm_sequence := n, tk_updated_at := db_now d\<rparr> else t) (get_task j d)"
proof -
  let ?f = "\<lambda>t. t\<lparr>tk_swarm_role := role, tk_swarm_status := st,
      tk_swarm_config := monotonic_parent_stop_revision role (tk_swarm_config t) (default_json c), tk_swarm_sequence := n\<rparr>"
  from txn_result [OF assms [unfolded update_swarm_fields_def]] obtain d0 where same: "same_tables d d0"
    and b: "(case get_task i d0 of None \<Rightarrow> (Inr (), d0) | Some t \<Rightarrow>
      if role = SwarmRoleParent \<and> (c = Malformed \<or> tk_swarm_config t = Malformed) then (Inl DbFailure, d0)
      else (Inr (), map_task i ?f d0)) = (Inr (), d')" by blast
  have body: "d' = d0 \<and> get_task i d0 = None \<or> d' = map_task i ?f d0"
    using b by (cases "get_task i d0") (simp_all split: if_split_asm)
  have now: "db_now d0 = db_now d" using same by (auto simp: same_tables_def)
  from body show ?thesis
  proof
    assume "d' = d0 \<and> get_task i d0 = None"
    then show ?thesis using same_get [OF same] by (cases "get_task j d") auto
  next
    assume "d' = map_task i ?f d0"
    then show ?thesis using get_map_task [of ?f j i d0] same_get [OF same, of j] now by (cases "get_task j d") auto
  qed
qed

subsection \<open>Steps of the service\<close>

text \<open>A step that only reads: nothing but the fault script moves.\<close>

definition only_read :: "swarm_state \<Rightarrow> swarm_state \<Rightarrow> bool" where
  "only_read s s' \<longleftrightarrow> same_tables (ss_db s) (ss_db s') \<and> s' = s\<lparr>ss_db := ss_db s'\<rparr>"

lemma only_read_refl [simp]: "only_read s s"
  by (simp add: only_read_def same_tables_refl)

lemma only_read_trans: "only_read s s1 \<Longrightarrow> only_read s1 s2 \<Longrightarrow> only_read s s2"
proof -
  assume a: "only_read s s1" "only_read s1 s2"
  then have "s2 = s1\<lparr>ss_db := ss_db s2\<rparr>" "s1 = s\<lparr>ss_db := ss_db s1\<rparr>" by (simp_all add: only_read_def)
  then have "s2 = s\<lparr>ss_db := ss_db s2\<rparr>" by (metis swarm_state.select_convs(1) swarm_state.surjective swarm_state.update_convs(1))
  with a same_tables_trans show ?thesis unfolding only_read_def by blast
qed

lemma only_read_same: "only_read s s1 \<Longrightarrow> get_task i (ss_db s1) = get_task i (ss_db s)"
  "only_read s s1 \<Longrightarrow> swarm_children p (ss_db s1) = swarm_children p (ss_db s)"
  by (auto simp: only_read_def same_tables_def get_task_def swarm_children_def)

lemma stored_query:
  assumes "stored (query f) s = (r, s1)"
  shows "only_read s s1" "r = Inr x \<Longrightarrow> \<exists>d. same_tables (ss_db s) d \<and> x = f d"
proof -
  obtain q d where q: "query f (ss_db s) = (q, d)" by (rule prod.exhaust)
  have same: "same_tables (ss_db s) d" using query_tables [OF q] .
  with q assms show "only_read s s1" by (auto simp: stored_def only_read_def split: sum.splits)
  assume "r = Inr x"
  with q assms have "query f (ss_db s) = (Inr x, d)" by (auto simp: stored_def split: sum.splits)
  from txn_result [OF this [unfolded query_def]] show "\<exists>d. same_tables (ss_db s) d \<and> x = f d" by auto
qed

lemma load_reads: "load i s = (r, s1) \<Longrightarrow> only_read s s1 \<and> (\<forall>x. r = Inr x \<longrightarrow> x = get_task i (ss_db s))"
  unfolding load_def get_by_id_def using stored_query same_get by metis

lemma children_reads: "children_of p s = (r, s1) \<Longrightarrow> only_read s s1 \<and> (\<forall>x. r = Inr x \<longrightarrow> x = swarm_children p (ss_db s))"
  unfolding children_of_def list_swarm_children_def
  using stored_query [of "swarm_children p" s r s1] by (auto simp: same_tables_def swarm_children_def)

lemma stored_ok: "stored f s = (Inr x, s1) \<Longrightarrow> \<exists>d. f (ss_db s) = (Inr x, d) \<and> s1 = s\<lparr>ss_db := d\<rparr>"
  by (auto simp: stored_def split: prod.splits sum.splits)

lemma then_run_ok: "then_run m n s = (Inr y, s2) \<Longrightarrow> \<exists>x s1. m s = (Inr x, s1) \<and> n s1 = (Inr y, s2)"
  unfolding then_run_def by (simp add: bind_run_Inr)

lemma set_status_wrote:
  "set_status i st s = (Inr (), s1) \<Longrightarrow> ss_pool s1 = ss_pool s \<and>
   wrote i (\<lambda>t u. tk_status u = st \<and> tk_swarm_config u = tk_swarm_config t \<and> tk_category u = tk_category t) (ss_db s) (ss_db s1)"
  unfolding set_status_def using update_status_wrote by (auto dest!: stored_ok)

lemma set_category_wrote:
  "set_category i c s = (Inr (), s1) \<Longrightarrow> ss_pool s1 = ss_pool s \<and>
   wrote i (\<lambda>t u. tk_category u = c \<and> tk_swarm_config u = tk_swarm_config t \<and> tk_status u = tk_status t) (ss_db s) (ss_db s1)"
  unfolding set_category_def using update_category_wrote by (auto dest!: stored_ok)

definition has_status :: "task_status \<Rightarrow> string \<Rightarrow> swarm_state \<Rightarrow> bool" where
  "has_status st i s \<longleftrightarrow> (\<exists>t. get_task i (ss_db s) = Some t \<and> tk_status t = st)"

lemma cancelled_stays:
  assumes "has_status StatusCancelled j s" "set_status i StatusCancelled s = (Inr (), s1)"
  shows "has_status StatusCancelled j s1"
  using assms(1) set_status_wrote [OF assms(2)]
  by (cases "j = i") (fastforce simp: has_status_def wrote_def kept_def)+

lemma set_status_failure: "set_status i st s = (Inl e, s1) \<Longrightarrow> only_read s s1"
proof -
  assume "set_status i st s = (Inl e, s1)"
  from stored_failure [OF this [unfolded set_status_def]] obtain e0 d where
    u: "update_status i st (ss_db s) = (Inl e0, d)" and s1: "s1 = s\<lparr>ss_db := d\<rparr>" by blast
  from single_call_error [OF u [unfolded update_status_def]] s1 show "only_read s s1" by (simp add: only_read_def)
qed

subsection \<open>The stop\<close>

lemma collect_Cons_ok:
  "collect f (x # xs) s = (Inr [], s2) \<Longrightarrow> \<exists>y s1. f x s = (Inr y, s1) \<and> collect f xs s1 = (Inr [], s2)"
proof -
  assume c: "collect f (x # xs) s = (Inr [], s2)"
  obtain r s1 where f: "f x s = (r, s1)" by (rule prod.exhaust)
  obtain q s3 where q: "collect f xs s1 = (q, s3)" by (rule prod.exhaust)
  show ?thesis
  proof (cases r)
    case (Inl e)
    with c f q show ?thesis by (cases q) (simp_all add: bind_run_def)
  next
    case (Inr y)
    with c f show ?thesis by simp
  qed
qed

lemma collect_never_fails: "\<exists>es s'. collect f xs s = (Inr es, s')"
proof (induction xs arbitrary: s)
  case (Cons x xs)
  obtain r s1 where f: "f x s = (r, s1)" by (rule prod.exhaust)
  from Cons.IH [of s1] f show ?case by (cases r) (auto simp: bind_run_def)
qed simp

text \<open>An invariant of every step holds after all of them, with what each established for its own.\<close>

lemma collect_inv:
  assumes "collect f xs s = (Inr [], s')" "I s"
    and step: "\<And>x y s s1. x \<in> set xs \<Longrightarrow> I s \<Longrightarrow> f x s = (Inr y, s1) \<Longrightarrow> I s1 \<and> Q x s1 \<and> (\<forall>z. Q z s \<longrightarrow> Q z s1)"
  shows "I s' \<and> (\<forall>x \<in> set xs. Q x s') \<and> (\<forall>z. Q z s \<longrightarrow> Q z s')"
  using assms
proof (induction xs arbitrary: s)
  case (Cons x xs)
  from collect_Cons_ok [OF Cons.prems(1)] obtain y s1 where f: "f x s = (Inr y, s1)" and c: "collect f xs s1 = (Inr [], s')" by blast
  from Cons.prems(3) [of x s y s1] Cons.prems(2) f have one: "I s1" "Q x s1" "\<forall>z. Q z s \<longrightarrow> Q z s1" by auto
  from Cons.IH [OF c one(1)] Cons.prems(3) have "I s' \<and> (\<forall>x \<in> set xs. Q x s') \<and> (\<forall>z. Q z s1 \<longrightarrow> Q z s')" by auto
  with one show ?case by auto
qed simp

text \<open>The dispatcher only takes entries out of the queue and leaves the requests to cancel.\<close>

lemma pool_step_frames [simp]:
  "wp_cancellation_requested (forget i s) = wp_cancellation_requested s"
  "wp_cancellation_requested (launch t a s) = wp_cancellation_requested s"
  "wp_cancellation_requested (release_worker_slots p a s) = wp_cancellation_requested s"
  by (simp_all add: forget_def launch_def Let_def release_worker_slots_def release_project_slot_def release_model_slot_def
      split: option.splits)

lemma prune_requests [simp]: "wp_cancellation_requested (prune env t s) = wp_cancellation_requested s"
  by (simp add: prune_def Let_def split: option.splits)

lemma acquire_requests: "try_acquire_worker_slots_locked env p a s = (b, s1) \<Longrightarrow> wp_cancellation_requested s1 = wp_cancellation_requested s"
  by (auto simp: try_acquire_worker_slots_locked_def try_acquire_project_slot_def try_acquire_model_slot_def
      release_project_slot_def Let_def split: option.splits if_splits)

lemma dispatch_next_requests [simp]: "wp_cancellation_requested (dispatch_next env s) = wp_cancellation_requested s"
  by (rule dispatch_next_preserves [of "\<lambda>u. wp_cancellation_requested u = wp_cancellation_requested s"])
    (auto dest: acquire_requests)

lemma dispatch_scan_queue: "set (wp_queue (dispatch_scan env kp ts s)) \<subseteq> set kp \<union> set ts"
proof (induction ts arbitrary: kp s)
  case (Cons t ts)
  show ?case
    by (rule scan_cases [of env s t kp ts]) (use Cons.IH in \<open>fastforce+\<close>)
qed simp

lemma dispatch_next_queue: "set (wp_queue (dispatch_next env s)) \<subseteq> set (wp_queue s)"
  using dispatch_scan_queue [of env "[]" "wp_queue s" s] by (simp add: dispatch_next_def)

lemma cancel_queued_task_frame:
  assumes c: "cancel_queued_task env a b i s = (True, s1)"
  shows "wp_cancellation_requested s1 = wp_cancellation_requested s"
    "set (wp_queue s1) \<subseteq> set (wp_queue s)" "i \<noteq> '''' \<Longrightarrow> i \<notin> tk_id ` set (wp_queue s1)"
proof -
  define s2 where "s2 = (let s0 = s\<lparr>wp_queue := filter (\<lambda>t. tk_id t \<noteq> i) (wp_queue s)\<rparr>
    in if i \<in> tk_id ` set (wp_queue s) then forget i s0 else s0)"
  have s2: "wp_queue s2 = filter (\<lambda>t. tk_id t \<noteq> i) (wp_queue s)" "wp_cancellation_requested s2 = wp_cancellation_requested s"
    by (simp_all add: s2_def Let_def forget_def)
  define log where "log = (\<lambda>e (s::worker_pool). s\<lparr>wp_effects := wp_effects s @ [e]\<rparr>)"
  define s3 where "s3 = (if reserved_id s i \<noteq> '''' \<and> we_exec_repo env then log (CancelQueuedOrdinary i) s2 else s2)"
  define s4 where "s4 = (if we_automation_repo env then log (CancelDispatches i) s3 else s3)"
  have s4: "wp_queue s4 = wp_queue s2" "wp_cancellation_requested s4 = wp_cancellation_requested s2"
    by (simp_all add: s4_def s3_def log_def)
  have "i \<noteq> '''' \<Longrightarrow> s1 = (if i \<in> tk_id ` set (wp_queue s) then dispatch_next env s4 else s4)"
    using c unfolding cancel_queued_task_def Let_def log_def [symmetric] s2_def [unfolded Let_def, symmetric]
      s3_def [symmetric] s4_def [symmetric] by (simp split: if_split_asm)
  then have cases: "i \<noteq> '''' \<Longrightarrow> wp_cancellation_requested s1 = wp_cancellation_requested s \<and> set (wp_queue s1) \<subseteq> set (wp_queue s2)"
    using s2(2) s4 dispatch_next_queue [of env s4] by (simp del: s2(1))
  have same: "i = '''' \<Longrightarrow> s1 = s" using c by (simp add: cancel_queued_task_def)
  from cases same s2 show "wp_cancellation_requested s1 = wp_cancellation_requested s" "set (wp_queue s1) \<subseteq> set (wp_queue s)"
    "i \<noteq> '''' \<Longrightarrow> i \<notin> tk_id ` set (wp_queue s1)" by (cases "i = ''''"; auto)+
qed

lemma mark_cancelled_ok [simp]: "mark_cancelled i s = (Inr (), s\<lparr>ss_pool := mark_cancellation_requested i (ss_pool s)\<rparr>)"
  by (simp add: mark_cancelled_def)

definition stop_marked :: "string \<Rightarrow> swarm_state \<Rightarrow> bool" where
  "stop_marked i s \<longleftrightarrow> has_status StatusCancelled i s \<and> (i \<noteq> '''' \<longrightarrow> is_cancellation_requested i (ss_pool s))"

lemma mark_child_step:
  assumes "then_run (mark_cancelled i) (set_status i StatusCancelled) s = (Inr y, s2)"
  shows "stop_marked i s2 \<and> (\<forall>j. stop_marked j s \<longrightarrow> stop_marked j s2)"
proof -
  let ?s1 = "s\<lparr>ss_pool := mark_cancellation_requested i (ss_pool s)\<rparr>"
  from then_run_ok [OF assms] have st: "set_status i StatusCancelled ?s1 = (Inr (), s2)" by auto
  from set_status_wrote [OF st] have own: "has_status StatusCancelled i s2" and pool: "ss_pool s2 = mark_cancellation_requested i (ss_pool s)"
    by (auto simp: wrote_def has_status_def)
  have "has_status StatusCancelled j s2" if "has_status StatusCancelled j s" for j
    using cancelled_stays [OF _ st, of j] that by (simp add: has_status_def)
  with own pool show ?thesis
    by (auto simp: stop_marked_def is_cancellation_requested_def mark_cancellation_requested_def split: if_splits)
qed

lemma purge_step:
  assumes "purge_child env i s = (Inr y, s2)"
  shows "ss_db s2 = ss_db s \<and> wp_cancellation_requested (ss_pool s2) = wp_cancellation_requested (ss_pool s) \<and>
    (i \<noteq> '''' \<longrightarrow> i \<notin> tk_id ` set (wp_queue (ss_pool s2))) \<and> set (wp_queue (ss_pool s2)) \<subseteq> set (wp_queue (ss_pool s))"
proof -
  obtain a b where cs: "sv_cancels env i = (a, b)" by (rule prod.exhaust)
  let ?s1 = "s\<lparr>ss_pool := snd (cancel_running_task i (ss_pool s))\<rparr>"
  obtain ok pool where c: "cancel_queued_task (pool_env env (ss_db ?s1)) a b i (ss_pool ?s1) = (ok, pool)" by (rule prod.exhaust)
  with assms cs have ok: ok and s2: "s2 = ?s1\<lparr>ss_pool := pool\<rparr>" by (auto simp: purge_child_def Let_def split: if_splits)
  from cancel_queued_task_frame [of _ a b i "ss_pool ?s1" pool] c ok
  show ?thesis by (simp add: s2 cancel_running_task_def)
qed

text \<open>
  C21: A stop that reports success reached every child. The parent is cancelled; each child that was
  pending, queued, running or blocked is cancelled in the tables and marked in the pool, and none of
  them waits in the queue, although purging one may dispatch other work.
\<close>
theorem stop_reaches_every_child:
  assumes "cancel_swarm_locked env p s = (Inr (), s')"
  shows "has_status StatusCancelled p s' \<and>
    (\<forall>c \<in> set (swarm_children p (ss_db s)). cancellable_child c \<longrightarrow>
       has_status StatusCancelled (tk_id c) s' \<and>
       (tk_id c \<noteq> '''' \<longrightarrow> is_cancellation_requested (tk_id c) (ss_pool s') \<and> tk_id c \<notin> tk_id ` set (wp_queue (ss_pool s'))))"
proof -
  let ?cs = "filter cancellable_child (swarm_children p (ss_db s))"
  let ?mark = "\<lambda>c. then_run (mark_cancelled (tk_id c)) (set_status (tk_id c) StatusCancelled)" and ?purge = "\<lambda>c. purge_child env (tk_id c)"
  from assms obtain cs s1 where cs: "children_of p s = (Inr cs, s1)" and
    rest: "then_run (mark_cancelled p) (then_run (set_status p StatusCancelled)
       (bind_run (collect ?mark (filter cancellable_child cs)) (\<lambda>es. bind_run (collect ?purge (filter cancellable_child cs))
          (\<lambda>fs. if es @ fs = [] then ret () else fail (StopErrors (es @ fs)))))) s1 = (Inr (), s')"
    unfolding cancel_swarm_locked_def Let_def bind_run_Inr by blast
  from children_reads [OF cs] have cs_eq: "cs = swarm_children p (ss_db s)" by simp
  from then_run_ok [OF rest] obtain s2 where r2: "then_run (set_status p StatusCancelled)
       (bind_run (collect ?mark ?cs) (\<lambda>es. bind_run (collect ?purge ?cs)
          (\<lambda>fs. if es @ fs = [] then ret () else fail (StopErrors (es @ fs))))) s2 = (Inr (), s')"
    unfolding cs_eq by auto
  from then_run_ok [OF r2] obtain s3 where st: "set_status p StatusCancelled s2 = (Inr (), s3)"
    and r3: "bind_run (collect ?mark ?cs) (\<lambda>es. bind_run (collect ?purge ?cs)
          (\<lambda>fs. if es @ fs = [] then ret () else fail (StopErrors (es @ fs)))) s3 = (Inr (), s')"
    by auto
  from r3 obtain s4 where m: "collect ?mark ?cs s3 = (Inr [], s4)" and u: "collect ?purge ?cs s4 = (Inr [], s')"
    unfolding bind_run_Inr by (auto split: if_splits)
  have p3: "has_status StatusCancelled p s3" using set_status_wrote [OF st] by (auto simp: wrote_def has_status_def)
  have marked: "has_status StatusCancelled p s4 \<and> (\<forall>c \<in> set ?cs. stop_marked (tk_id c) s4)"
  proof -
    have "has_status StatusCancelled p t1" if "has_status StatusCancelled p t" "?mark x t = (Inr y, t1)" for x t y t1
    proof -
      from then_run_ok [OF that(2)] have "set_status (tk_id x) StatusCancelled (t\<lparr>ss_pool := mark_cancellation_requested (tk_id x) (ss_pool t)\<rparr>) = (Inr (), t1)"
        by auto
      from cancelled_stays [OF _ this, of p] that(1) show ?thesis by (simp add: has_status_def)
    qed
    with collect_inv [OF m, of "has_status StatusCancelled p" "\<lambda>c. stop_marked (tk_id c)"] p3 mark_child_step show ?thesis by blast
  qed
  let ?I = "\<lambda>t::swarm_state. ss_db t = ss_db s4 \<and> wp_cancellation_requested (ss_pool t) = wp_cancellation_requested (ss_pool s4)"
  let ?Q = "\<lambda>(c::task) (t::swarm_state). tk_id c \<noteq> '''' \<longrightarrow> tk_id c \<notin> tk_id ` set (wp_queue (ss_pool t))"
  have purged: "?I s' \<and> (\<forall>c \<in> set ?cs. ?Q c s') \<and> (\<forall>z. ?Q z s4 \<longrightarrow> ?Q z s')"
  proof (rule collect_inv [OF u, where I = ?I and Q = ?Q])
    fix x :: task and y t t1 assume I: "?I t" and "?purge x t = (Inr y, t1)"
    note step = purge_step [OF this(2)]
    then have "tk_id ` set (wp_queue (ss_pool t1)) \<subseteq> tk_id ` set (wp_queue (ss_pool t))" by (intro image_mono) blast
    then have "\<forall>z. ?Q z t \<longrightarrow> ?Q z t1" by blast
    with step I show "?I t1 \<and> ?Q x t1 \<and> (\<forall>z. ?Q z t \<longrightarrow> ?Q z t1)" by simp
  qed simp
  have final: "has_status StatusCancelled i s' = has_status StatusCancelled i s4"
    "is_cancellation_requested i (ss_pool s') = is_cancellation_requested i (ss_pool s4)" for i
    using purged by (simp_all add: has_status_def is_cancellation_requested_def)
  show ?thesis
  proof (intro conjI ballI impI)
    show "has_status StatusCancelled p s'" using marked final by simp
    fix c assume "c \<in> set (swarm_children p (ss_db s))" "cancellable_child c"
    then have c: "c \<in> set ?cs" by simp
    with marked final show "has_status StatusCancelled (tk_id c) s'" by (simp add: stop_marked_def)
    assume ne: "tk_id c \<noteq> ''''"
    with c marked final show "is_cancellation_requested (tk_id c) (ss_pool s')" by (simp add: stop_marked_def)
    from c ne purged show "tk_id c \<notin> tk_id ` set (wp_queue (ss_pool s'))" by blast
  qed
qed

subsection \<open>An example\<close>

definition sample_swarm_config :: swarm_config where
  "sample_swarm_config = empty_swarm_config\<lparr>sw_generation := 1, sw_max_workers := 2\<rparr>"

definition sample_parent :: task where
  "sample_parent = (sample_task ''p1'' ''p'')\<lparr>tk_status := StatusRunning, tk_swarm_role := SwarmRoleParent,
     tk_swarm_config := JsonDoc sample_swarm_config\<rparr>"

definition sample_worker :: "task_status \<Rightarrow> task" where
  "sample_worker st = (sample_task ''w1'' ''p'')\<lparr>tk_title := ''w'', tk_status := st, tk_swarm_role := SwarmRoleWorker,
     tk_parent_task_id := Some ''p1'', tk_swarm_sequence := 10,
     tk_swarm_config := JsonDoc (empty_swarm_config\<lparr>sw_required := True, sw_rerun_generation := 1\<rparr>)\<rparr>"

definition sample_swarm :: "task list \<Rightarrow> swarm_state" where
  "sample_swarm ts =
     \<lparr>ss_db = sample_db\<lparr>db_tasks := ts\<rparr>, ss_pool = (new_worker_service 1)\<lparr>wp_queue := filter (\<lambda>t. tk_status t = StatusPending) ts\<rparr>,
      ss_goals = Map.empty, ss_completed = (\<lambda>_. None), ss_results = Map.empty\<rparr>"

definition sample_swarm_env :: swarm_env where
  "sample_swarm_env =
     \<lparr>sv_pool = sample_env, sv_text = (\<lambda>_. ''error''), sv_decode = (\<lambda>_. None), sv_ctx_done = (\<lambda>_. False),
      sv_cancels = (\<lambda>_. (True, True)), sv_model_stores = False, sv_project_model = (\<lambda>_. Inr None),
      sv_model_exists = (\<lambda>_. Inr True), sv_default_model = Inr None\<rparr>"

theorem stop_reaches_every_child_witness:
  "has_status StatusCancelled ''w1'' (snd (cancel_swarm_locked sample_swarm_env ''p1'' (sample_swarm [sample_parent, sample_worker StatusPending])))"
proof -
  let ?s = "sample_swarm [sample_parent, sample_worker StatusPending]"
  obtain r s' where c: "cancel_swarm_locked sample_swarm_env ''p1'' ?s = (r, s')" by (rule prod.exhaust)
  have "\<not> isl (fst (cancel_swarm_locked sample_swarm_env ''p1'' ?s))" by code_simp
  with c have ok: "cancel_swarm_locked sample_swarm_env ''p1'' ?s = (Inr (), s')" by (cases r) simp_all
  have "list_ex (\<lambda>c. tk_id c = ''w1'' \<and> cancellable_child c) (swarm_children ''p1'' (ss_db ?s))" by code_simp
  then obtain c where "c \<in> set (swarm_children ''p1'' (ss_db ?s))" "tk_id c = ''w1''" "cancellable_child c"
    by (auto simp: list_ex_iff)
  with stop_reaches_every_child [OF ok] ok show ?thesis by auto
qed

subsection \<open>A stopped swarm\<close>

lemma load_cases:
  obtains (failed) e s1 where "load i s = (Inl e, s1)" "only_read s s1"
    | (found) s1 where "load i s = (Inr (get_task i (ss_db s)), s1)" "only_read s s1"
proof -
  obtain r s1 where l: "load i s = (r, s1)" by (rule prod.exhaust)
  with load_reads [OF l] failed found show ?thesis by (cases r) auto
qed

lemma or_else_load:
  "\<exists>x s1. or_else (load i) None s = (Inr x, s1) \<and> only_read s s1 \<and> (x = None \<or> x = get_task i (ss_db s))"
  by (rule load_cases [of i s]) (auto simp: or_else_def)

text \<open>The parent of a child is found cancelled, or not found at all.\<close>

definition parent_cancelled :: "string \<Rightarrow> swarm_state \<Rightarrow> bool" where
  "parent_cancelled p s \<longleftrightarrow> (\<exists>t. get_task p (ss_db s) = Some t \<and> tk_status t = StatusCancelled)"

lemma parent_cancelled_read: "only_read s s1 \<Longrightarrow> parent_cancelled p s1 = parent_cancelled p s"
  by (simp add: parent_cancelled_def only_read_same)

lemma locked_cancelled:
  assumes "get_task i (ss_db s) = Some c" "tk_parent_task_id c = Some p" "parent_cancelled p s"
  shows "only_read s (snd (on_child_completed_locked env i s))"
proof (rule load_cases [of i s])
  fix s1 assume l: "load i s = (Inr (get_task i (ss_db s)), s1)" and o: "only_read s s1"
  from assms(3) o obtain t where t: "get_task p (ss_db s1) = Some t" "tk_status t = StatusCancelled"
    by (auto simp: parent_cancelled_def only_read_same)
  show ?thesis
    by (rule load_cases [of p s1])
      (use l o t assms(1,2) in \<open>auto simp: on_child_completed_locked_def intro: only_read_trans\<close>)
qed (simp add: on_child_completed_locked_def)

lemma record_cancelled:
  assumes "get_task (tk_id planner) (ss_db s) = Some c" "tk_parent_task_id c = Some p" "parent_cancelled p s"
  shows "only_read s (snd (record_planner_application_error env planner e s))"
proof -
  from or_else_load [of "tk_id planner" s] obtain x s1 where
    l: "or_else (load (tk_id planner)) None s = (Inr x, s1)" "only_read s s1" and x: "x = None \<or> x = Some c" using assms(1) by auto
  from or_else_load [of p s1] obtain y s2 where
    m: "or_else (load p) None s1 = (Inr y, s2)" "only_read s1 s2" and "y = None \<or> y = get_task p (ss_db s1)" by auto
  with assms(3) parent_cancelled_read [OF l(2), of p] have "y = None \<or> (\<exists>t. y = Some t \<and> tk_status t = StatusCancelled)"
    by (auto simp: parent_cancelled_def)
  with l m x assms(2) show ?thesis
    by (auto simp: record_planner_application_error_def intro: only_read_trans)
qed

lemma planner_cancelled:
  assumes "get_task (tk_id planner) (ss_db s) = Some c" "tk_parent_task_id c = Some p" "parent_cancelled p s"
  shows "only_read s (snd (apply_completed_planner_execution env planner p s))"
proof (rule load_cases [of p s])
  fix e s1 assume l: "load p s = (Inl e, s1)" and o: "only_read s s1"
  then have b: "planner_execution_body env planner p s = (False, Inl e, s1)" by (simp add: planner_execution_body_def Let_def)
  have "only_read s1 (snd (record_planner_application_error env planner e s1))"
    by (rule record_cancelled [of planner s1 c p]) (use assms o in \<open>simp_all add: only_read_same parent_cancelled_read\<close>)
  with o show ?thesis by (auto simp: apply_completed_planner_execution_def b intro: only_read_trans)
next
  fix s1 assume l: "load p s = (Inr (get_task p (ss_db s)), s1)" and o: "only_read s s1"
  with assms(3) have "planner_execution_body env planner p s = (False, Inr (), s1)"
    by (auto simp: planner_execution_body_def Let_def parent_cancelled_def)
  with o show ?thesis by (simp add: apply_completed_planner_execution_def)
qed

text \<open>
  C25: A stopped swarm is left alone. Once its parent is cancelled, no end of a child, of the planner
  with a plan to apply or of any other, changes a table or the pool, whatever the store refuses
  meanwhile: late executions cannot start further stages or revive the parent.
\<close>
theorem stopped_swarm_left_alone:
  assumes "get_task i (ss_db s) = Some c" "tk_parent_task_id c = Some p" "parent_cancelled p s"
  shows "only_read s (snd (on_child_completed env i s))"
proof (rule load_cases [of i s])
  fix s1 assume l: "load i s = (Inr (get_task i (ss_db s)), s1)" and o: "only_read s s1"
  have c: "tk_id c = i" using get_task_id assms(1) by blast
  have g: "get_task i (ss_db s1) = Some c" "parent_cancelled p s1" using assms o by (simp_all add: only_read_same parent_cancelled_read)
  show ?thesis
    using l o assms(1,2) locked_cancelled [OF g(1) assms(2) g(2), of env] planner_cancelled [of c s1 c p env] c g assms(2)
    by (auto simp: on_child_completed_def intro: only_read_trans)
qed (simp add: on_child_completed_def)

theorem stopped_swarm_left_alone_witness:
  "ss_pool (snd (on_child_completed sample_swarm_env ''w1''
     (sample_swarm [sample_parent\<lparr>tk_status := StatusCancelled\<rparr>, sample_worker StatusCompleted]))) =
   ss_pool (sample_swarm [sample_parent\<lparr>tk_status := StatusCancelled\<rparr>, sample_worker StatusCompleted])"
proof -
  let ?s = "sample_swarm [sample_parent\<lparr>tk_status := StatusCancelled\<rparr>, sample_worker StatusCompleted]"
  have g: "get_task ''w1'' (ss_db ?s) = Some (sample_worker StatusCompleted)"
    by (simp add: sample_swarm_def get_task_def sample_parent_def sample_worker_def)
  have p: "parent_cancelled ''p1'' ?s"
    by (simp add: parent_cancelled_def sample_swarm_def get_task_def sample_parent_def sample_worker_def)
  have "tk_parent_task_id (sample_worker StatusCompleted) = Some ''p1''" by (simp add: sample_worker_def)
  from stopped_swarm_left_alone [OF g this p, of sample_swarm_env] have "only_read ?s (snd (on_child_completed sample_swarm_env ''w1'' ?s))" .
  then have "snd (on_child_completed sample_swarm_env ''w1'' ?s) = ?s\<lparr>ss_db := ss_db (snd (on_child_completed sample_swarm_env ''w1'' ?s))\<rparr>"
    by (simp add: only_read_def)
  then show ?thesis by (metis swarm_state.ext_inject swarm_state.surjective swarm_state.update_convs(1))
qed

subsection \<open>The parent's status\<close>

lemma set_fields_status:
  assumes "set_fields t st c s = (Inr (), s1)"
  shows "get_task j (ss_db s) = Some u \<Longrightarrow> \<exists>v. get_task j (ss_db s1) = Some v \<and> tk_status v = tk_status u \<and> tk_category v = tk_category u"
proof -
  assume g: "get_task j (ss_db s) = Some u"
  from stored_ok [OF assms [unfolded set_fields_def]] obtain d where
    w: "update_swarm_fields (tk_id t) (tk_swarm_role t) st c (tk_swarm_sequence t) (ss_db s) = (Inr (), d)" and s1: "s1 = s\<lparr>ss_db := d\<rparr>" by blast
  from update_swarm_fields_others [OF w, of j] g s1 show ?thesis by auto
qed

text \<open>What the parent's record says after a recomputation that reports success.\<close>

lemma recompute_result:
  assumes run: "recompute_parent_status_locked p s = (Inr (), s')"
    and g: "get_task p (ss_db s) = Some t" "tk_swarm_role t = SwarmRoleParent" "tk_status t \<noteq> StatusCancelled"
    and cs: "swarm_children p (ss_db s) \<noteq> []"
  shows "\<exists>u. get_task p (ss_db s') = Some u \<and>
    tk_status u = fst (parent_verdict (cfg_of (tk_swarm_config t)) (swarm_children p (ss_db s))) \<and>
    (tk_status u = StatusCompleted \<longrightarrow> tk_category u = CategoryCompleted) \<and>
    (tk_status u = StatusBlocked \<longrightarrow> tk_category u \<noteq> CategoryActive)"
proof -
  let ?cfg = "cfg_of (tk_swarm_config t)" and ?cs = "swarm_children p (ss_db s)"
  obtain st unmerged where v: "parent_verdict ?cfg ?cs = (st, unmerged)" by (rule prod.exhaust)
  have id: "tk_id t = p" using g(1) by (rule get_task_id)
  let ?fields = "if unmerged \<and> sw_merged_generation ?cfg < sw_generation ?cfg
     then set_fields t ''current'' (swarm_config_json (?cfg\<lparr>sw_merged_generation := sw_generation ?cfg\<rparr>)) else ret ()"
  let ?status = "if tk_status t \<noteq> st then set_status (tk_id t) st else ret ()"
  let ?category = "if st = StatusCompleted \<and> tk_category t \<noteq> CategoryCompleted then set_category (tk_id t) CategoryCompleted
     else if st = StatusBlocked \<and> \<not> any_status runnable_statuses ?cs \<and> tk_category t = CategoryActive
     then set_category (tk_id t) CategoryBacklog else ret ()"
  from run obtain s1 where l: "load p s = (Inr (Some t), s1)"
    by (rule_tac load_cases [of p s]) (auto simp: recompute_parent_status_locked_def g(1))
  from load_reads [OF l] have o1: "only_read s s1" by simp
  obtain r s2 where c: "children_of p s1 = (r, s2)" by (rule prod.exhaust)
  from run l g id c obtain cs2 where r: "r = Inr cs2" by (cases r) (auto simp: recompute_parent_status_locked_def)
  from children_reads [OF c] r o1 have cs2: "cs2 = ?cs" and o2: "only_read s s2" by (auto simp: only_read_same intro: only_read_trans)
  have rest: "then_run ?fields (then_run ?status ?category) s2 = (Inr (), s')"
    using run l g id c cs by (simp add: recompute_parent_status_locked_def r cs2 v Let_def split del: if_split)
  from then_run_ok [OF rest] obtain s3 where f: "?fields s2 = (Inr (), s3)" and rest2: "then_run ?status ?category s3 = (Inr (), s')" by auto
  from then_run_ok [OF rest2] obtain s4 where w: "?status s3 = (Inr (), s4)" and k: "?category s4 = (Inr (), s')" by auto
  have g2: "get_task p (ss_db s2) = Some t" using only_read_same(1) [OF o2] g(1) by simp
  obtain t3 where t3: "get_task p (ss_db s3) = Some t3" "tk_status t3 = tk_status t" "tk_category t3 = tk_category t"
    using f g2 set_fields_status [of t _ _ s2 s3 p t] by (auto split: if_split_asm)
  obtain t4 where t4: "get_task p (ss_db s4) = Some t4" "tk_status t4 = st" "tk_category t4 = tk_category t"
    using w t3 id set_status_wrote [of p st s3 s4] by (cases "tk_status t = st") (auto simp: wrote_def)
  have blocked: "st = StatusBlocked \<Longrightarrow> \<not> any_status runnable_statuses ?cs" using v by (auto simp: parent_verdict_def split: if_splits)
  have "\<exists>u. get_task p (ss_db s') = Some u \<and> tk_status u = st \<and> (st = StatusCompleted \<longrightarrow> tk_category u = CategoryCompleted) \<and>
     (st = StatusBlocked \<longrightarrow> tk_category u \<noteq> CategoryActive)"
  proof (cases "(st = StatusCompleted \<and> tk_category t \<noteq> CategoryCompleted) \<or> (st = StatusBlocked \<and> tk_category t = CategoryActive)")
    case True
    define c' where "c' = (if st = StatusCompleted then CategoryCompleted else CategoryBacklog)"
    from True k id blocked have "set_category p c' s4 = (Inr (), s')" by (auto simp: c'_def split: if_split_asm)
    from set_category_wrote [OF this] t4 show ?thesis by (auto simp: wrote_def c'_def)
  next
    case False
    with k blocked have "s' = s4" by (auto split: if_split_asm)
    with t4 False show ?thesis by auto
  qed
  then show ?thesis by (auto simp: v)
qed

definition swarm_done :: "swarm_config \<Rightarrow> task list \<Rightarrow> bool" where
  "swarm_done cfg cs \<longleftrightarrow>
     (\<forall>c \<in> set cs. tk_status c = StatusCompleted \<or> tk_status c = StatusCancelled) \<and> sw_generation cfg > 0 \<and>
     (if sw_merger_enabled cfg
      then sw_merged_generation cfg \<ge> sw_generation cfg \<and> (\<exists>m. find_merger_child cs = Some m \<and> tk_status m = StatusCompleted)
      else all_required_workers_completed cs (sw_generation cfg) \<and>
           (sw_reviewer_enabled cfg \<longrightarrow> (\<exists>r. find_child cs SwarmRoleReviewer = Some r \<and> tk_status r = StatusCompleted \<and>
              sw_reviewed_generation (cfg_of (tk_swarm_config r)) \<ge> sw_generation cfg)))"

lemma verdict_completed: "fst (parent_verdict cfg cs) = StatusCompleted \<longleftrightarrow> swarm_done cfg cs"
proof (cases "any_status runnable_statuses cs \<or> any_status {StatusFailed} cs \<or> any_status {StatusBlocked} cs")
  case True
  then obtain c where c: "c \<in> set cs" "tk_status c \<in> runnable_statuses \<union> {StatusFailed, StatusBlocked}"
    unfolding any_status_def by blast
  from c(2) have "tk_status c \<noteq> StatusCompleted \<and> tk_status c \<noteq> StatusCancelled" by auto
  with c(1) have "\<not> (\<forall>c \<in> set cs. tk_status c = StatusCompleted \<or> tk_status c = StatusCancelled)" by blast
  then have "\<not> swarm_done cfg cs" by (simp only: swarm_done_def simp_thms)
  moreover from True have "fst (parent_verdict cfg cs) \<noteq> StatusCompleted" by (auto simp: parent_verdict_def)
  ultimately show ?thesis by simp
next
  case False
  have "tk_status c = StatusCompleted \<or> tk_status c = StatusCancelled" if "c \<in> set cs" for c
    using False that by (cases "tk_status c") (auto simp: any_status_def)
  with False show ?thesis
    by (auto simp: parent_verdict_def swarm_done_def swarm_complete_without_merger_def split: option.splits if_splits)
qed

text \<open>
  C6: A swarm is complete exactly when its work is. After a recomputation that reports success of a
  parent that has children and is not cancelled, the
  parent's status is the switch's; it is completed, and in the completed category, if and only if no
  child is at work, failed or blocked and the current generation is merged by a merger that
  completed, or, without a merger, done by every required worker and reviewed where a review is
  asked for. A blocked parent has left the active lane.
\<close>
theorem swarm_completes_when_done:
  assumes "recompute_parent_status_locked p s = (Inr (), s')"
    and "get_task p (ss_db s) = Some t" "tk_swarm_role t = SwarmRoleParent" "tk_status t \<noteq> StatusCancelled"
    and "swarm_children p (ss_db s) \<noteq> []"
  shows "\<exists>u. get_task p (ss_db s') = Some u \<and>
    (tk_status u = StatusCompleted \<longleftrightarrow> swarm_done (cfg_of (tk_swarm_config t)) (swarm_children p (ss_db s))) \<and>
    (tk_status u = StatusCompleted \<longrightarrow> tk_category u = CategoryCompleted) \<and>
    (tk_status u = StatusBlocked \<longrightarrow> tk_category u \<noteq> CategoryActive) \<and>
    (tk_status u = StatusRunning \<longleftrightarrow> any_status runnable_statuses (swarm_children p (ss_db s)))"
proof -
  have run: "fst (parent_verdict cfg cs) = StatusRunning \<longleftrightarrow> any_status runnable_statuses cs" for cfg cs
    by (auto simp: parent_verdict_def split: option.splits)
  from recompute_result [OF assms] obtain u where "get_task p (ss_db s') = Some u"
    "tk_status u = fst (parent_verdict (cfg_of (tk_swarm_config t)) (swarm_children p (ss_db s)))"
    "tk_status u = StatusCompleted \<longrightarrow> tk_category u = CategoryCompleted"
    "tk_status u = StatusBlocked \<longrightarrow> tk_category u \<noteq> CategoryActive" by blast
  then show ?thesis by (intro exI [of _ u]) (simp add: verdict_completed run)
qed

theorem swarm_completes_when_done_witness:
  "\<exists>u. get_task ''p1'' (ss_db (snd (recompute_parent_status_locked ''p1''
     (sample_swarm [sample_parent, sample_worker StatusPending])))) = Some u \<and> tk_status u = StatusRunning"
proof -
  let ?s = "sample_swarm [sample_parent, sample_worker StatusPending]"
  obtain r s' where c: "recompute_parent_status_locked ''p1'' ?s = (r, s')" by (rule prod.exhaust)
  have "\<not> isl (fst (recompute_parent_status_locked ''p1'' ?s))" by code_simp
  with c have ok: "recompute_parent_status_locked ''p1'' ?s = (Inr (), s')" by (cases r) simp_all
  have g: "get_task ''p1'' (ss_db ?s) = Some sample_parent" by (simp add: sample_swarm_def get_task_def sample_parent_def)
  have p: "tk_swarm_role sample_parent = SwarmRoleParent" "tk_status sample_parent \<noteq> StatusCancelled" by (simp_all add: sample_parent_def)
  have a: "list_ex (\<lambda>c. tk_status c = StatusPending) (swarm_children ''p1'' (ss_db ?s))" by code_simp
  then have ne: "swarm_children ''p1'' (ss_db ?s) \<noteq> []" and any: "any_status runnable_statuses (swarm_children ''p1'' (ss_db ?s))"
    by (auto simp: any_status_def list_ex_iff)
  from swarm_completes_when_done [OF ok g p ne] any ok show ?thesis by auto
qed

end
