(* ===== verification/Runs.thy ===== *)
theory Runs
  imports Main
begin

section \<open>Runs and simulations\<close>

text \<open>
  A component that several parties use at once is run by a list of what is asked of it; each answer
  is what can be seen from outside. A specification says which answers it admits, and a simulation
  carries every run of the component over to it.
\<close>

fun run_acts :: "('a \<Rightarrow> 's \<Rightarrow> 'o \<times> 's) \<Rightarrow> 'a list \<Rightarrow> 's \<Rightarrow> 'o list \<times> 's" where
  "run_acts step [] s = ([], s)"
| "run_acts step (a # as) s =
     (case step a s of (ob, s1) \<Rightarrow> case run_acts step as s1 of (obs, s2) \<Rightarrow> (ob # obs, s2))"

fun admits :: "('o \<Rightarrow> 't \<Rightarrow> 't \<Rightarrow> bool) \<Rightarrow> 'o list \<Rightarrow> 't \<Rightarrow> 't \<Rightarrow> bool" where
  "admits spec [] t t' \<longleftrightarrow> t' = t"
| "admits spec (ob # obs) t t' \<longleftrightarrow> (\<exists>u. spec ob t u \<and> admits spec obs u t')"

lemma run_acts_induct:
  assumes "run_acts step as s = (obs, s')" "Q s"
    and "\<And>a s ob s'. Q s \<Longrightarrow> step a s = (ob, s') \<Longrightarrow> Q s'"
  shows "Q s'"
  using assms(1,2) by (induction "as" arbitrary: s obs) (auto split: prod.splits dest: assms(3))

lemma admits_append: "admits spec (obs @ obs') t t' \<longleftrightarrow> (\<exists>u. admits spec obs t u \<and> admits spec obs' u t')"
  by (induction obs arbitrary: t) auto

lemma admits_induct [consumes 1, case_names init step]:
  assumes "admits spec obs t t'" "P [] t"
    and "\<And>obs ob u u'. admits spec obs t u \<Longrightarrow> P obs u \<Longrightarrow> spec ob u u' \<Longrightarrow> P (obs @ [ob]) u'"
  shows "P obs t'"
  using assms(1)
proof (induction obs arbitrary: t' rule: rev_induct)
  case (snoc ob obs)
  then show ?case by (auto simp: admits_append intro: assms(3))
qed (simp add: assms(2))

locale simulation =
  fixes step :: "'a \<Rightarrow> 's \<Rightarrow> 'o \<times> 's" and spec :: "'o \<Rightarrow> 't \<Rightarrow> 't \<Rightarrow> bool" and match :: "'s \<Rightarrow> 't \<Rightarrow> bool"
  assumes simulates: "match s t \<Longrightarrow> step a s = (ob, s') \<Longrightarrow> \<exists>t'. spec ob t t' \<and> match s' t'"
begin

lemma run_admitted: "match s t \<Longrightarrow> run_acts step as s = (obs, s') \<Longrightarrow> \<exists>t'. admits spec obs t t' \<and> match s' t'"
proof (induction "as" arbitrary: s t obs)
  case (Cons a as)
  from Cons.prems obtain ob s1 os where a: "step a s = (ob, s1)" "run_acts step as s1 = (os, s')" "obs = ob # os"
    by (auto split: prod.splits)
  from simulates [OF Cons.prems(1) a(1)] obtain t1 where "spec ob t t1" "match s1 t1" by blast
  moreover from Cons.IH [OF \<open>match s1 t1\<close> a(2)] obtain t' where "admits spec os t1 t'" "match s' t'" by blast
  ultimately show ?case unfolding a(3) by auto
qed simp

end

end
