(* ===== verification/StreamHub.thy ===== *)
theory StreamHub
  imports Models Runs "HOL-Library.Multiset"
begin

section \<open>The execution stream hub\<close>

text \<open>
  \<open>internal/events/execution_stream_hub.go\<close>: the hub fans the live output of an execution out to
  the windows that watch it. Its operations are not atomic: \<open>Publish\<close> reads its snapshot of the
  subscribers under a lock, may take the lock again to rebuild it, and then offers the event to one
  subscriber after the other, each under that subscriber's guard; \<open>Unsubscribe\<close> and \<open>Close\<close> close
  channels after they have let go of the lock. A section under one lock is one step here, the calls
  between their sections are in flight, and any of them may go on next.

  A subscriber is a handle: its channel with what it buffers, and its guard. A send on a closed
  channel or a second close of one would be a panic, which the state records.
\<close>

datatype stream_event_type = StreamDelta | StreamPersisted | StreamDone | StreamError

record stream_event =
  se_exec :: string
  se_type :: stream_event_type
  se_delta :: string
  se_offset :: int
  se_status :: string
  se_error :: string

record stream_subscriber =
  sb_queue :: "stream_event list"
  sb_guard :: bool
  sb_shut :: bool

record stream_group =
  sg_members :: "nat list"
  sg_snapshot :: "nat list"
  sg_dirty :: bool

record stream_hub =
  sh_groups :: "string \<rightharpoonup> stream_group"
  sh_count :: int
  sh_max :: int
  sh_subs :: "nat \<rightharpoonup> stream_subscriber"
  sh_next :: nat
  sh_panic :: bool

definition default_execution_subscriptions :: int where
  "default_execution_subscriptions = 25000"

definition new_stream_hub :: "int \<Rightarrow> stream_hub" where
  "new_stream_hub limit =
     \<lparr>sh_groups = Map.empty, sh_count = 0,
      sh_max = (if limit \<le> 0 then default_execution_subscriptions else limit),
      sh_subs = Map.empty, sh_next = 0, sh_panic = False\<rparr>"

definition new_subscriber :: stream_subscriber where
  "new_subscriber = \<lparr>sb_queue = [], sb_guard = False, sb_shut = False\<rparr>"

definition sub_buffer :: nat where
  "sub_buffer = 128"

subsection \<open>Channels\<close>

definition update_sub :: "nat \<Rightarrow> (stream_subscriber \<Rightarrow> stream_subscriber) \<Rightarrow> stream_hub \<Rightarrow> stream_hub" where
  "update_sub k f h = h\<lparr>sh_subs := (sh_subs h)(k := map_option f (sh_subs h k))\<rparr>"

definition chan_close :: "nat \<Rightarrow> stream_hub \<Rightarrow> stream_hub" where
  "chan_close k h =
     (case sh_subs h k of
        Some b \<Rightarrow> if sb_shut b then h\<lparr>sh_panic := True\<rparr> else update_sub k (sb_shut_update (\<lambda>_. True)) h
      | None \<Rightarrow> h\<lparr>sh_panic := True\<rparr>)"

definition chan_offer :: "stream_event \<Rightarrow> nat \<Rightarrow> stream_hub \<Rightarrow> bool \<times> stream_hub" where
  "chan_offer e k h =
     (case sh_subs h k of
        Some b \<Rightarrow>
          if sb_shut b then (False, h\<lparr>sh_panic := True\<rparr>)
          else if length (sb_queue b) < sub_buffer then (True, update_sub k (sb_queue_update (\<lambda>q. q @ [e])) h)
          else (False, h)
      | None \<Rightarrow> (False, h))"

definition guarded :: "nat \<Rightarrow> (stream_hub \<Rightarrow> stream_hub) \<Rightarrow> stream_hub \<Rightarrow> stream_hub" where
  "guarded k f h = (case sh_subs h k of Some b \<Rightarrow> if sb_guard b then h else f h | None \<Rightarrow> h)"

definition shut_sub :: "nat \<Rightarrow> stream_hub \<Rightarrow> stream_hub" where
  "shut_sub k h = chan_close k (update_sub k (sb_guard_update (\<lambda>_. True)) h)"

subsection \<open>The sections of the operations\<close>

text \<open>Go visits a map in any order: a snapshot lists the members as some \<open>order\<close> has it.\<close>

definition arrange :: "nat list \<Rightarrow> nat list \<Rightarrow> nat list" where
  "arrange order ms = (if mset order = mset ms then order else ms)"

definition rebuild_snapshot :: "nat list \<Rightarrow> stream_group \<Rightarrow> stream_group" where
  "rebuild_snapshot order g = g\<lparr>sg_dirty := False, sg_snapshot := arrange order (sg_members g)\<rparr>"

definition empty_group :: stream_group where
  "empty_group = \<lparr>sg_members = [], sg_snapshot = [], sg_dirty = False\<rparr>"

definition subscribe :: "string \<Rightarrow> stream_hub \<Rightarrow> nat option \<times> stream_hub" where
  "subscribe x h =
     (if sh_count h \<ge> sh_max h then (None, h)
      else let k = sh_next h; g = (case sh_groups h x of Some g \<Rightarrow> g | None \<Rightarrow> empty_group)
           in (Some k, h\<lparr>sh_subs := (sh_subs h)(k \<mapsto> new_subscriber), sh_next := k + 1,
                sh_groups := (sh_groups h)(x \<mapsto> g\<lparr>sg_members := sg_members g @ [k], sg_dirty := True\<rparr>),
                sh_count := sh_count h + 1\<rparr>))"

definition unsubscribe_remove :: "string \<Rightarrow> nat \<Rightarrow> stream_hub \<Rightarrow> bool \<times> stream_hub" where
  "unsubscribe_remove x k h =
     (case sh_groups h x of
        None \<Rightarrow> (False, h)
      | Some g \<Rightarrow>
          if k \<notin> set (sg_members g) then (False, h)
          else let ms = remove1 k (sg_members g)
               in (True, h\<lparr>sh_count := sh_count h - 1,
                    sh_groups := (sh_groups h)(x := if ms = [] then None else Some (g\<lparr>sg_members := ms, sg_dirty := True\<rparr>))\<rparr>))"

definition unsubscribe_shut :: "nat \<Rightarrow> stream_hub \<Rightarrow> stream_hub" where
  "unsubscribe_shut k = guarded k (shut_sub k)"

definition publish_read :: "string \<Rightarrow> stream_hub \<Rightarrow> bool \<times> nat list" where
  "publish_read x h =
     (case sh_groups h x of None \<Rightarrow> (False, []) | Some g \<Rightarrow> (True, if sg_dirty g then [] else sg_snapshot g))"

definition publish_rebuild :: "nat list \<Rightarrow> string \<Rightarrow> stream_hub \<Rightarrow> nat list \<times> stream_hub" where
  "publish_rebuild order x h =
     (case sh_groups h x of
        None \<Rightarrow> ([], h)
      | Some g \<Rightarrow>
          let g' = (if sg_dirty g then rebuild_snapshot order g else g)
          in (sg_snapshot g', h\<lparr>sh_groups := (sh_groups h)(x \<mapsto> g')\<rparr>))"

definition publish_offer :: "stream_event \<Rightarrow> nat \<Rightarrow> stream_hub \<Rightarrow> stream_hub" where
  "publish_offer e k = guarded k (\<lambda>h. case chan_offer e k h of (sent, h1) \<Rightarrow> if sent then h1 else shut_sub k h1)"

definition close_begin :: "string \<Rightarrow> stream_hub \<Rightarrow> nat list option \<times> stream_hub" where
  "close_begin x h =
     (let ms = map_option sg_members (sh_groups h x)
      in (ms, h\<lparr>sh_groups := (sh_groups h)(x := None),
                sh_count := max 0 (sh_count h - int (length (case ms of Some l \<Rightarrow> l | None \<Rightarrow> [])))\<rparr>))"

definition close_offer :: "stream_event \<Rightarrow> nat \<Rightarrow> stream_hub \<Rightarrow> stream_hub" where
  "close_offer e k = guarded k (\<lambda>h. shut_sub k (snd (chan_offer e k h)))"

text \<open>\<open>CloseTerminal\<close>: the event that ends the stream of a finished execution, if it has one.\<close>

definition terminal_event :: "string \<Rightarrow> exec_status \<Rightarrow> string \<Rightarrow> stream_event option" where
  "terminal_event x st msg =
     (let e = \<lparr>se_exec = x, se_type = StreamDone, se_delta = [], se_offset = 0, se_status = [], se_error = []\<rparr>
      in case st of
           ExecCompleted \<Rightarrow> Some (e\<lparr>se_status := ''completed''\<rparr>)
         | ExecCancelled \<Rightarrow> Some (e\<lparr>se_status := ''cancelled''\<rparr>)
         | ExecFailed \<Rightarrow> Some (e\<lparr>se_type := StreamError, se_error := msg\<rparr>)
         | _ \<Rightarrow> None)"

subsection \<open>Calls in flight\<close>

datatype hub_call = Removing nat | Rebuilding stream_event | Publishing stream_event "nat list"
  | Closing stream_event "nat list"

record hub_sys =
  hs_hub :: stream_hub
  hs_calls :: "nat \<rightharpoonup> hub_call"
  hs_next_call :: nat

definition new_hub_sys :: "int \<Rightarrow> hub_sys" where
  "new_hub_sys limit = \<lparr>hs_hub = new_stream_hub limit, hs_calls = Map.empty, hs_next_call = 0\<rparr>"

text \<open>What is asked of the hub, and what can be seen from outside of each step of it.\<close>

datatype hub_act = DoSubscribe string | DoUnsubscribe string nat | DoPublish stream_event
  | DoClose string stream_event "nat list" | Go nat "nat list" | DoReceive nat

datatype hub_obs = Quiet | Refused string | Joined string nat | Published nat stream_event
  | Terminated nat string stream_event | Returned nat | Got nat stream_event | Ended nat

definition begin_call :: "hub_call \<Rightarrow> hub_sys \<Rightarrow> hub_sys" where
  "begin_call c s = s\<lparr>hs_calls := (hs_calls s)(hs_next_call s \<mapsto> c), hs_next_call := hs_next_call s + 1\<rparr>"

definition call_at :: "nat \<Rightarrow> hub_call option \<Rightarrow> stream_hub \<Rightarrow> hub_sys \<Rightarrow> hub_sys" where
  "call_at n c h s = s\<lparr>hs_hub := h, hs_calls := (hs_calls s)(n := c)\<rparr>"

text \<open>The next section of a call: its publication counts from the moment its snapshot is taken.\<close>

definition hub_go :: "nat \<Rightarrow> nat list \<Rightarrow> hub_sys \<Rightarrow> hub_obs \<times> hub_sys" where
  "hub_go n order s =
     (let h = hs_hub s
      in case hs_calls s n of
           None \<Rightarrow> (Quiet, s)
         | Some (Removing k) \<Rightarrow> (Quiet, call_at n None (unsubscribe_shut k h) s)
         | Some (Rebuilding e) \<Rightarrow>
             (case publish_rebuild order (se_exec e) h of (ks, h1) \<Rightarrow> (Published n e, call_at n (Some (Publishing e ks)) h1 s))
         | Some (Publishing e ks) \<Rightarrow>
             (case ks of [] \<Rightarrow> (Returned n, call_at n None h s)
              | k # ks' \<Rightarrow> (Quiet, call_at n (Some (Publishing e ks')) (publish_offer e k h) s))
         | Some (Closing e ks) \<Rightarrow>
             (case ks of [] \<Rightarrow> (Returned n, call_at n None h s)
              | k # ks' \<Rightarrow> (Quiet, call_at n (Some (Closing e ks')) (close_offer e k h) s)))"

definition hub_receive :: "nat \<Rightarrow> stream_hub \<Rightarrow> hub_obs \<times> stream_hub" where
  "hub_receive k h =
     (case sh_subs h k of
        None \<Rightarrow> (Quiet, h)
      | Some b \<Rightarrow> (case sb_queue b of
                    e # q \<Rightarrow> (Got k e, update_sub k (sb_queue_update (\<lambda>_. q)) h)
                  | [] \<Rightarrow> (if sb_shut b then Ended k else Quiet, h)))"

fun hub_do :: "hub_act \<Rightarrow> hub_sys \<Rightarrow> hub_obs \<times> hub_sys" where
  "hub_do (DoSubscribe x) s =
     (case subscribe x (hs_hub s) of
        (None, h) \<Rightarrow> (Refused x, s\<lparr>hs_hub := h\<rparr>) | (Some k, h) \<Rightarrow> (Joined x k, s\<lparr>hs_hub := h\<rparr>))"
| "hub_do (DoUnsubscribe x k) s =
     (case unsubscribe_remove x k (hs_hub s) of
        (found, h) \<Rightarrow> (Quiet, if found then begin_call (Removing k) (s\<lparr>hs_hub := h\<rparr>) else s\<lparr>hs_hub := h\<rparr>))"
| "hub_do (DoPublish e) s =
     (if se_exec e = '''' then (Quiet, s)
      else case publish_read (se_exec e) (hs_hub s) of
             (found, ks) \<Rightarrow>
               if found \<and> ks = [] then (Quiet, begin_call (Rebuilding e) s)
               else (Published (hs_next_call s) e, begin_call (Publishing e ks) s))"
| "hub_do (DoClose x e order) s =
     (if x = '''' then (Quiet, s)
      else let e1 = (if se_exec e = '''' then e\<lparr>se_exec := x\<rparr> else e)
           in case close_begin x (hs_hub s) of
                (None, h) \<Rightarrow> (Quiet, s\<lparr>hs_hub := h\<rparr>)
              | (Some ms, h) \<Rightarrow>
                  (Terminated (hs_next_call s) x e1, begin_call (Closing e1 (arrange order ms)) (s\<lparr>hs_hub := h\<rparr>)))"
| "hub_do (Go n order) s = hub_go n order s"
| "hub_do (DoReceive k) s = (case hub_receive k (hs_hub s) of (ob, h) \<Rightarrow> (ob, s\<lparr>hs_hub := h\<rparr>))"

abbreviation hub_run :: "hub_act list \<Rightarrow> hub_sys \<Rightarrow> hub_obs list \<times> hub_sys" where
  "hub_run \<equiv> run_acts hub_do"

subsection \<open>What the hub promises\<close>

text \<open>
  The specification knows what was published for each execution, and of each subscriber how much
  of that it has accepted, in which order, and how much of it was read. While it has joined and is
  not ended, no publication returns that it has not accepted.
\<close>

record view =
  vw_exec :: string
  vw_from :: nat
  vw_accepted :: "nat list"
  vw_read :: nat
  vw_joined :: bool
  vw_ended :: bool

record stream_spec =
  sp_log :: "string \<Rightarrow> stream_event list"
  sp_views :: "nat \<rightharpoonup> view"
  sp_open :: "nat \<rightharpoonup> string \<times> nat"

definition spec_init :: stream_spec where
  "spec_init = \<lparr>sp_log = \<lambda>_. [], sp_views = Map.empty, sp_open = Map.empty\<rparr>"

definition spec_begin :: "nat \<Rightarrow> string \<Rightarrow> stream_event \<Rightarrow> stream_spec \<Rightarrow> stream_spec" where
  "spec_begin n x e t =
     t\<lparr>sp_log := (sp_log t)(x := sp_log t x @ [e]), sp_open := (sp_open t)(n \<mapsto> (x, length (sp_log t x)))\<rparr>"

definition spec_leave_all :: "string \<Rightarrow> stream_spec \<Rightarrow> stream_spec" where
  "spec_leave_all x t =
     t\<lparr>sp_views := (\<lambda>k. map_option (\<lambda>v. if vw_exec v = x then v\<lparr>vw_joined := False\<rparr> else v) (sp_views t k))\<rparr>"

definition spec_view :: "nat \<Rightarrow> view \<Rightarrow> stream_spec \<Rightarrow> stream_spec" where
  "spec_view k v t = t\<lparr>sp_views := (sp_views t)(k \<mapsto> v)\<rparr>"

definition owed :: "nat \<Rightarrow> view \<Rightarrow> bool" where
  "owed i v \<longleftrightarrow> vw_from v \<le> i \<and> vw_joined v \<and> \<not> vw_ended v \<and> i \<notin> set (vw_accepted v)"

inductive spec_step :: "hub_obs \<Rightarrow> stream_spec \<Rightarrow> stream_spec \<Rightarrow> bool" where
  refuse: "spec_step (Refused x) t t"
| join: "sp_views t k = None \<Longrightarrow>
    spec_step (Joined x k) t (spec_view k \<lparr>vw_exec = x, vw_from = length (sp_log t x), vw_accepted = [], vw_read = 0,
      vw_joined = True, vw_ended = False\<rparr> t)"
| publish: "sp_open t n = None \<Longrightarrow> spec_step (Published n e) t (spec_begin n (se_exec e) e t)"
| terminate: "sp_open t n = None \<Longrightarrow> spec_step (Terminated n x e) t (spec_leave_all x (spec_begin n x e t))"
| returns: "sp_open t n = Some (x, i) \<Longrightarrow> (\<And>k v. sp_views t k = Some v \<Longrightarrow> vw_exec v = x \<Longrightarrow> \<not> owed i v) \<Longrightarrow>
    spec_step (Returned n) t (t\<lparr>sp_open := (sp_open t)(n := None)\<rparr>)"
| got: "sp_views t k = Some v \<Longrightarrow> vw_read v < length (vw_accepted v) \<Longrightarrow>
    spec_step (Got k (sp_log t (vw_exec v) ! (vw_accepted v ! vw_read v))) t (spec_view k (v\<lparr>vw_read := vw_read v + 1\<rparr>) t)"
| ended: "sp_views t k = Some v \<Longrightarrow> vw_ended v \<Longrightarrow> vw_read v = length (vw_accepted v) \<Longrightarrow> spec_step (Ended k) t t"

inductive spec_quiet :: "stream_spec \<Rightarrow> stream_spec \<Rightarrow> bool" where
  accept: "sp_open t n = Some (x, i) \<Longrightarrow> sp_views t k = Some v \<Longrightarrow> vw_exec v = x \<Longrightarrow> vw_from v \<le> i \<Longrightarrow>
    i \<notin> set (vw_accepted v) \<Longrightarrow> \<not> vw_ended v \<Longrightarrow> spec_quiet t (spec_view k (v\<lparr>vw_accepted := vw_accepted v @ [i]\<rparr>) t)"
| leave: "sp_views t k = Some v \<Longrightarrow> spec_quiet t (spec_view k (v\<lparr>vw_joined := False\<rparr>) t)"
| stop: "sp_views t k = Some v \<Longrightarrow> spec_quiet t (spec_view k (v\<lparr>vw_ended := True\<rparr>) t)"

text \<open>A step without an observation may be any number of quiet ones.\<close>

definition spec_do :: "hub_obs \<Rightarrow> stream_spec \<Rightarrow> stream_spec \<Rightarrow> bool" where
  "spec_do ob t t' \<longleftrightarrow> (if ob = Quiet then spec_quiet\<^sup>*\<^sup>* t t' else spec_step ob t t')"

end
