(* ===== verification/StreamLaws.thy ===== *)
theory StreamLaws
  imports StreamHub
begin

section \<open>The hub keeps its promises\<close>

text \<open>
  The simulation that ties the hub to its specification, and what follows from it: no panic, no
  event lost without the subscriber seeing the end of its channel, and a count of subscribers that
  is right.
\<close>

subsection \<open>The relation\<close>

definition sub_matches :: "stream_hub \<Rightarrow> stream_spec \<Rightarrow> nat \<Rightarrow> stream_subscriber \<Rightarrow> view \<Rightarrow> bool" where
  "sub_matches h t k b v \<longleftrightarrow>
     sb_guard b = vw_ended v \<and> sb_shut b = vw_ended v \<and>
     sb_queue b = map ((!) (sp_log t (vw_exec v))) (drop (vw_read v) (vw_accepted v)) \<and>
     vw_joined v = (\<exists>g. sh_groups h (vw_exec v) = Some g \<and> k \<in> set (sg_members g)) \<and>
     distinct (vw_accepted v) \<and> vw_read v \<le> length (vw_accepted v) \<and> vw_from v \<le> length (sp_log t (vw_exec v)) \<and>
     set (vw_accepted v) \<subseteq> {vw_from v..<length (sp_log t (vw_exec v))}"

definition subs_match :: "stream_hub \<Rightarrow> stream_spec \<Rightarrow> bool" where
  "subs_match h t \<longleftrightarrow> (\<forall>k. rel_option (sub_matches h t k) (sh_subs h k) (sp_views t k)) \<and>
     (\<forall>k \<ge> sh_next h. sh_subs h k = None)"

definition group_ok :: "stream_spec \<Rightarrow> string \<Rightarrow> stream_group \<Rightarrow> bool" where
  "group_ok t x g \<longleftrightarrow> distinct (sg_members g) \<and>
     (\<forall>k \<in> set (sg_members g). \<exists>v. sp_views t k = Some v \<and> vw_exec v = x) \<and>
     (\<not> sg_dirty g \<longrightarrow> mset (sg_snapshot g) = mset (sg_members g))"

definition delivering :: "stream_spec \<Rightarrow> string \<times> nat \<Rightarrow> stream_event \<Rightarrow> nat list \<Rightarrow> bool" where
  "delivering t = (\<lambda>(x, i) e ks. i < length (sp_log t x) \<and> sp_log t x ! i = e \<and> distinct ks \<and>
     (\<forall>k \<in> set ks. \<exists>v. sp_views t k = Some v \<and> vw_exec v = x \<and> vw_from v \<le> i \<and> i \<notin> set (vw_accepted v)) \<and>
     (\<forall>k v. sp_views t k = Some v \<and> vw_exec v = x \<and> owed i v \<longrightarrow> k \<in> set ks))"

definition call_matches :: "stream_spec \<Rightarrow> hub_call option \<Rightarrow> (string \<times> nat) option \<Rightarrow> bool" where
  "call_matches t c p \<longleftrightarrow>
     (case c of
        None \<Rightarrow> p = None
      | Some (Removing k) \<Rightarrow> p = None \<and> sp_views t k \<noteq> None
      | Some (Rebuilding e) \<Rightarrow> p = None
      | Some (Publishing e ks) \<Rightarrow> (\<exists>q. p = Some q \<and> delivering t q e ks)
      | Some (Closing e ks) \<Rightarrow> (\<exists>q. p = Some q \<and> delivering t q e ks))"

definition hub_matches :: "hub_sys \<Rightarrow> stream_spec \<Rightarrow> bool" where
  "hub_matches s t \<longleftrightarrow> \<not> sh_panic (hs_hub s) \<and> subs_match (hs_hub s) t \<and>
     (\<forall>x g. sh_groups (hs_hub s) x = Some g \<longrightarrow> group_ok t x g) \<and>
     (\<forall>n. call_matches t (hs_calls s n) (sp_open t n)) \<and> (\<forall>n \<ge> hs_next_call s. hs_calls s n = None) \<and>
     inj_on (sp_open t) (dom (sp_open t))"

subsection \<open>What the sections do\<close>

lemmas channel_defs = guarded_def shut_sub_def chan_close_def chan_offer_def update_sub_def

lemma unsubscribe_shut_eq:
  assumes "sh_subs h k = Some b" "sb_shut b = sb_guard b"
  shows "unsubscribe_shut k h = (if sb_guard b then h
    else h\<lparr>sh_subs := (sh_subs h)(k \<mapsto> b\<lparr>sb_guard := True, sb_shut := True\<rparr>)\<rparr>)"
  using assms by (simp add: unsubscribe_shut_def channel_defs)

lemma publish_offer_eq:
  assumes "sh_subs h k = Some b" "sb_shut b = sb_guard b"
  shows "publish_offer e k h = (if sb_guard b then h
    else h\<lparr>sh_subs := (sh_subs h)(k \<mapsto> (if length (sb_queue b) < sub_buffer then b\<lparr>sb_queue := sb_queue b @ [e]\<rparr>
      else b\<lparr>sb_guard := True, sb_shut := True\<rparr>))\<rparr>)"
  using assms by (cases b) (simp add: publish_offer_def channel_defs)

lemma close_offer_eq:
  assumes "sh_subs h k = Some b" "sb_shut b = sb_guard b"
  shows "close_offer e k h = (if sb_guard b then h
    else h\<lparr>sh_subs := (sh_subs h)(k \<mapsto> b\<lparr>sb_queue := (if length (sb_queue b) < sub_buffer then sb_queue b @ [e] else sb_queue b),
      sb_guard := True, sb_shut := True\<rparr>)\<rparr>)"
  using assms by (cases b) (simp add: close_offer_def channel_defs)

lemma mset_arrange [simp]: "mset (arrange order ms) = mset ms"
  by (simp add: arrange_def)

lemma arrange_same [simp]: "set (arrange order ms) = set ms" "distinct (arrange order ms) = distinct ms"
  by (metis mset_arrange set_mset_mset, metis mset_arrange mset_eq_imp_distinct_iff)

subsection \<open>One subscriber changes\<close>

lemma sub_matches_cong:
  "sh_groups h' = sh_groups h \<Longrightarrow> sp_log t' = sp_log t \<Longrightarrow> sub_matches h' t' k b v = sub_matches h t k b v"
  by (simp add: sub_matches_def)

lemma subs_match_view:
  assumes "subs_match h t" "sh_subs h k = Some b" "sub_matches h t k b' v'"
    "sh_subs h' = (sh_subs h)(k \<mapsto> b')" "sh_groups h' = sh_groups h" "sh_next h' = sh_next h"
  shows "subs_match h' (spec_view k v' t)"
proof -
  have "sub_matches h' (spec_view k v' t) = sub_matches h t"
    using assms(5) by (intro ext sub_matches_cong) (simp_all add: spec_view_def)
  with assms show ?thesis by (auto simp: subs_match_def spec_view_def)
qed

lemma view_of:
  assumes "subs_match h t" "sp_views t k = Some v"
  obtains b where "sh_subs h k = Some b" "sub_matches h t k b v"
proof -
  from assms(1) have "rel_option (sub_matches h t k) (sh_subs h k) (sp_views t k)" by (simp add: subs_match_def)
  with assms(2) that show thesis by (cases "sh_subs h k") auto
qed

lemma sub_of:
  assumes "subs_match h t" "sh_subs h k = Some b"
  obtains v where "sp_views t k = Some v" "sub_matches h t k b v"
proof -
  from assms(1) have "rel_option (sub_matches h t k) (sh_subs h k) (sp_views t k)" by (simp add: subs_match_def)
  with assms(2) that show thesis by (cases "sp_views t k") auto
qed

lemma group_ok_view:
  "sp_views t k = Some v \<Longrightarrow> vw_exec v' = vw_exec v \<Longrightarrow> group_ok t x g \<Longrightarrow> group_ok (spec_view k v' t) x g"
  by (auto simp: group_ok_def spec_view_def)

lemma delivering_view:
  assumes "delivering t (x, i) e ks" "sp_views t k = Some v" "vw_exec v' = vw_exec v" "vw_from v' = vw_from v"
    "owed i v' \<Longrightarrow> owed i v" "vw_exec v = x \<Longrightarrow> i \<in> set (vw_accepted v') \<Longrightarrow> i \<in> set (vw_accepted v)"
  shows "delivering (spec_view k v' t) (x, i) e ks"
  using assms by (auto simp: delivering_def spec_view_def split: if_splits)

lemma delivering_Cons:
  assumes "delivering t (x, i) e (k # ks)"
  obtains v where "sp_views t k = Some v" "vw_exec v = x" "vw_from v \<le> i" "i \<notin> set (vw_accepted v)"
    "i < length (sp_log t x)" "sp_log t x ! i = e"
    "\<forall>v'. vw_exec v' = x \<longrightarrow> \<not> owed i v' \<longrightarrow> delivering (spec_view k v' t) (x, i) e ks"
    "\<not> owed i v \<longrightarrow> delivering t (x, i) e ks"
proof -
  from assms obtain v where "sp_views t k = Some v" "vw_exec v = x" "vw_from v \<le> i" "i \<notin> set (vw_accepted v)"
    "i < length (sp_log t x)" "sp_log t x ! i = e" by (auto simp: delivering_def)
  moreover have "\<forall>v'. vw_exec v' = x \<longrightarrow> \<not> owed i v' \<longrightarrow> delivering (spec_view k v' t) (x, i) e ks"
    using assms by (auto simp: delivering_def spec_view_def)
  moreover have "\<not> owed i v \<longrightarrow> delivering t (x, i) e ks"
    using assms calculation(1) by (auto simp: delivering_def)
  ultimately show thesis using that by blast
qed

lemma spec_view_simps [simp]:
  "sp_log (spec_view k v t) = sp_log t" "sp_open (spec_view k v t) = sp_open t"
  "sp_views (spec_view k v t) = (sp_views t)(k \<mapsto> v)"
  by (simp_all add: spec_view_def)

lemma call_at_simps [simp]:
  "hs_hub (call_at n c h s) = h" "hs_calls (call_at n c h s) = (hs_calls s)(n := c)" "hs_next_call (call_at n c h s) = hs_next_call s"
  by (simp_all add: call_at_def)

lemma hub_matchesE:
  assumes "hub_matches s t"
  shows "\<not> sh_panic (hs_hub s)" "subs_match (hs_hub s) t" "\<And>x g. sh_groups (hs_hub s) x = Some g \<Longrightarrow> group_ok t x g"
    "\<And>n. call_matches t (hs_calls s n) (sp_open t n)" "\<And>n. hs_next_call s \<le> n \<Longrightarrow> hs_calls s n = None"
    "inj_on (sp_open t) (dom (sp_open t))" "\<And>m n p. sp_open t m = Some p \<Longrightarrow> sp_open t n = Some p \<Longrightarrow> m = n"
proof -
  show "m = n" if "sp_open t m = Some p" "sp_open t n = Some p" for m n p
    using assms that unfolding hub_matches_def inj_on_def by (metis domI)
qed (use assms in \<open>auto simp: hub_matches_def\<close>)

lemma call_matches_view:
  assumes "call_matches t c p" "sp_views t k = Some v" "vw_exec v' = vw_exec v" "vw_from v' = vw_from v" "\<And>i. owed i v' \<Longrightarrow> owed i v"
    "\<And>i. p = Some (vw_exec v, i) \<Longrightarrow> i \<in> set (vw_accepted v') \<Longrightarrow> i \<in> set (vw_accepted v)"
  shows "call_matches (spec_view k v' t) c p"
  using assms by (auto simp: call_matches_def split: option.splits hub_call.splits intro!: delivering_view)

text \<open>A section that changes one subscriber and its own call.\<close>

lemma hub_matches_sub:
  assumes m: "hub_matches s t" and v: "sp_views t k = Some v" "vw_exec v' = vw_exec v" "vw_from v' = vw_from v"
    and b: "sh_subs (hs_hub s) k = Some b" "sub_matches (hs_hub s) t k b' v'"
    and owed: "\<And>i. owed i v' \<Longrightarrow> owed i v"
    and others: "\<And>m i. m \<noteq> n \<Longrightarrow> sp_open t m = Some (vw_exec v, i) \<Longrightarrow> i \<in> set (vw_accepted v') \<Longrightarrow> i \<in> set (vw_accepted v)"
    and call: "call_matches (spec_view k v' t) c (sp_open t n)" and n: "hs_next_call s \<le> n \<Longrightarrow> c = None"
    and h: "sh_subs h = (sh_subs (hs_hub s))(k \<mapsto> b')" "sh_groups h = sh_groups (hs_hub s)" "sh_next h = sh_next (hs_hub s)"
      "sh_panic h = sh_panic (hs_hub s)"
  shows "hub_matches (call_at n c h s) (spec_view k v' t)"
proof -
  note m' = hub_matchesE [OF m]
  have "subs_match h (spec_view k v' t)" by (rule subs_match_view [OF m'(2) b h(1-3)])
  moreover have "call_matches (spec_view k v' t) (hs_calls s i) (sp_open t i)" if "i \<noteq> n" for i
    by (rule call_matches_view [OF m'(4) v owed others [OF that]])
  ultimately show ?thesis
    using m' call n h unfolding hub_matches_def by (auto intro: group_ok_view [OF v(1,2)])
qed

lemma hub_matches_call:
  assumes m: "hub_matches s t" and call: "call_matches t c (sp_open t n)" and n: "hs_next_call s \<le> n \<Longrightarrow> c = None"
  shows "hub_matches (call_at n c (hs_hub s) s) t"
  using hub_matchesE [OF m] call n unfolding hub_matches_def by auto

lemma sub_matches_simps:
  "sub_matches h t k b v \<Longrightarrow> sb_shut b = sb_guard b" "sub_matches h t k b v \<Longrightarrow> sb_guard b = vw_ended v"
  by (simp_all add: sub_matches_def)

lemma accepted_matches:
  assumes "sub_matches h t k b v" "i < length (sp_log t (vw_exec v))" "vw_from v \<le> i" "i \<notin> set (vw_accepted v)"
  shows "sub_matches h t k (b\<lparr>sb_queue := sb_queue b @ [sp_log t (vw_exec v) ! i]\<rparr>) (v\<lparr>vw_accepted := vw_accepted v @ [i]\<rparr>)"
  using assms by (auto simp: sub_matches_def)

lemma ended_matches:
  "sub_matches h t k b v \<Longrightarrow> sub_matches h t k (b\<lparr>sb_guard := True, sb_shut := True\<rparr>) (v\<lparr>vw_ended := True\<rparr>)"
  by (simp add: sub_matches_def)

lemma owed_simps [simp]:
  "owed i (v\<lparr>vw_ended := True\<rparr>) = False" "owed i (v\<lparr>vw_joined := False\<rparr>) = False"
  "owed i (v\<lparr>vw_accepted := vw_accepted v @ [i]\<rparr>) = False" "owed j (v\<lparr>vw_read := r\<rparr>) = owed j v"
  by (auto simp: owed_def)

lemma owed_accepted: "owed j (v\<lparr>vw_accepted := vw_accepted v @ [i]\<rparr>) \<Longrightarrow> owed j v"
  by (auto simp: owed_def)

text \<open>One offer of a call in flight, whatever becomes of the subscriber.\<close>

lemma offer_matches:
  assumes m: "hub_matches s t" and d: "sp_open t n = Some (x, i)" "delivering t (x, i) e (k # ks)" and n: "n < hs_next_call s"
    and c: "\<And>t'. call_matches t' (Some c) (Some (x, i)) = delivering t' (x, i) e ks"
  obtains v b where "sp_views t k = Some v" "sh_subs (hs_hub s) k = Some b" "sub_matches (hs_hub s) t k b v"
    "sub_matches (hs_hub s) t k (b\<lparr>sb_queue := sb_queue b @ [e]\<rparr>) (v\<lparr>vw_accepted := vw_accepted v @ [i]\<rparr>)"
    "\<not> vw_ended v \<longrightarrow> spec_quiet t (spec_view k (v\<lparr>vw_accepted := vw_accepted v @ [i]\<rparr>) t)"
    "vw_ended v \<longrightarrow> hub_matches (call_at n (Some c) (hs_hub s) s) t"
    "\<forall>b' v'. sub_matches (hs_hub s) t k b' v' \<longrightarrow>
       v' \<in> {v\<lparr>vw_ended := True\<rparr>, v\<lparr>vw_accepted := vw_accepted v @ [i]\<rparr>, v\<lparr>vw_accepted := vw_accepted v @ [i], vw_ended := True\<rparr>} \<longrightarrow>
       hub_matches (call_at n (Some c) (hs_hub s\<lparr>sh_subs := (sh_subs (hs_hub s))(k \<mapsto> b')\<rparr>) s) (spec_view k v' t)"
proof -
  note m' = hub_matchesE [OF m]
  obtain v where v: "sp_views t k = Some v" "vw_exec v = x" "vw_from v \<le> i" "i \<notin> set (vw_accepted v)"
    "i < length (sp_log t x)" "sp_log t x ! i = e"
    and next_: "\<forall>v'. vw_exec v' = x \<longrightarrow> \<not> owed i v' \<longrightarrow> delivering (spec_view k v' t) (x, i) e ks"
      "\<not> owed i v \<longrightarrow> delivering t (x, i) e ks" by (rule delivering_Cons [OF d(2)])
  obtain b where b: "sh_subs (hs_hub s) k = Some b" "sub_matches (hs_hub s) t k b v" by (rule view_of [OF m'(2) v(1)])
  have "hub_matches (call_at n (Some c) (hs_hub s) s) t" if "vw_ended v"
    using that next_(2) d(1) n c by (intro hub_matches_call [OF m]) (auto simp: owed_def)
  moreover have "spec_quiet t (spec_view k (v\<lparr>vw_accepted := vw_accepted v @ [i]\<rparr>) t)" if "\<not> vw_ended v"
    using d(1) v(1-4) that by (rule spec_quiet.accept)
  moreover have "hub_matches (call_at n (Some c) (hs_hub s\<lparr>sh_subs := (sh_subs (hs_hub s))(k \<mapsto> b')\<rparr>) s) (spec_view k v' t)"
    if "sub_matches (hs_hub s) t k b' v'"
      and v': "v' \<in> {v\<lparr>vw_ended := True\<rparr>, v\<lparr>vw_accepted := vw_accepted v @ [i]\<rparr>, v\<lparr>vw_accepted := vw_accepted v @ [i], vw_ended := True\<rparr>}"
    for b' v'
  proof (rule hub_matches_sub [OF m v(1) _ _ b(1) that(1)])
    show "owed j v" if "owed j v'" for j using that v' by (auto simp: owed_def)
    show "call_matches (spec_view k v' t) (Some c) (sp_open t n)" using next_(1) v' v(2) d(1) c by (auto simp: owed_def)
    show "j \<in> set (vw_accepted v)" if "p \<noteq> n" "sp_open t p = Some (vw_exec v, j)" "j \<in> set (vw_accepted v')" for p j
      using that v' v(2) d(1) m'(7) by auto
  qed (use v' v n in auto)
  ultimately show thesis using that v(1) b accepted_matches [OF b(2), of i] v by blast
qed

lemma publish_step:
  assumes m: "hub_matches s t" and d: "sp_open t n = Some (x, i)" "delivering t (x, i) e (k # ks)" and n: "n < hs_next_call s"
  shows "\<exists>t'. spec_quiet\<^sup>*\<^sup>* t t' \<and> hub_matches (call_at n (Some (Publishing e ks)) (publish_offer e k (hs_hub s)) s) t'"
proof (rule offer_matches [OF m d n, of "Publishing e ks"])
  fix v b assume v: "sp_views t k = Some v" and b: "sh_subs (hs_hub s) k = Some b" "sub_matches (hs_hub s) t k b v"
    and a: "sub_matches (hs_hub s) t k (b\<lparr>sb_queue := sb_queue b @ [e]\<rparr>) (v\<lparr>vw_accepted := vw_accepted v @ [i]\<rparr>)"
    and q: "\<not> vw_ended v \<longrightarrow> spec_quiet t (spec_view k (v\<lparr>vw_accepted := vw_accepted v @ [i]\<rparr>) t)"
    and e: "vw_ended v \<longrightarrow> hub_matches (call_at n (Some (Publishing e ks)) (hs_hub s) s) t"
    and h: "\<forall>b' v'. sub_matches (hs_hub s) t k b' v' \<longrightarrow>
       v' \<in> {v\<lparr>vw_ended := True\<rparr>, v\<lparr>vw_accepted := vw_accepted v @ [i]\<rparr>, v\<lparr>vw_accepted := vw_accepted v @ [i], vw_ended := True\<rparr>} \<longrightarrow>
       hub_matches (call_at n (Some (Publishing e ks)) (hs_hub s\<lparr>sh_subs := (sh_subs (hs_hub s))(k \<mapsto> b')\<rparr>) s) (spec_view k v' t)"
  note eq = publish_offer_eq [OF b(1) sub_matches_simps(1) [OF b(2)], of e] and g = sub_matches_simps(2) [OF b(2)]
  consider "vw_ended v" | "\<not> vw_ended v" "length (sb_queue b) < sub_buffer" | "\<not> vw_ended v" "\<not> length (sb_queue b) < sub_buffer" by blast
  then show ?thesis
  proof cases
    case 1 with e eq g show ?thesis by auto
  next
    case 2 with a h q eq g show ?thesis by (auto intro!: r_into_rtranclp exI conjI)
  next
    case 3
    with ended_matches [OF b(2)] h eq g spec_quiet.stop [OF v] show ?thesis by (auto intro!: r_into_rtranclp exI conjI)
  qed
qed (simp add: call_matches_def)

lemma close_step:
  assumes m: "hub_matches s t" and d: "sp_open t n = Some (x, i)" "delivering t (x, i) e (k # ks)" and n: "n < hs_next_call s"
  shows "\<exists>t'. spec_quiet\<^sup>*\<^sup>* t t' \<and> hub_matches (call_at n (Some (Closing e ks)) (close_offer e k (hs_hub s)) s) t'"
proof (rule offer_matches [OF m d n, of "Closing e ks"])
  fix v :: view and b :: stream_subscriber
  let ?w = "v\<lparr>vw_accepted := vw_accepted v @ [i]\<rparr>" and ?b = "b\<lparr>sb_queue := sb_queue b @ [e]\<rparr>"
  assume v: "sp_views t k = Some v" and b: "sh_subs (hs_hub s) k = Some b" "sub_matches (hs_hub s) t k b v"
    and a: "sub_matches (hs_hub s) t k ?b ?w"
    and q: "\<not> vw_ended v \<longrightarrow> spec_quiet t (spec_view k ?w t)"
    and e: "vw_ended v \<longrightarrow> hub_matches (call_at n (Some (Closing e ks)) (hs_hub s) s) t"
    and h: "\<forall>b' v'. sub_matches (hs_hub s) t k b' v' \<longrightarrow>
       v' \<in> {v\<lparr>vw_ended := True\<rparr>, ?w, ?w\<lparr>vw_ended := True\<rparr>} \<longrightarrow>
       hub_matches (call_at n (Some (Closing e ks)) (hs_hub s\<lparr>sh_subs := (sh_subs (hs_hub s))(k \<mapsto> b')\<rparr>) s) (spec_view k v' t)"
  note eq = close_offer_eq [OF b(1) sub_matches_simps(1) [OF b(2)], of e] and g = sub_matches_simps(2) [OF b(2)]
  consider "vw_ended v" | "\<not> vw_ended v" "length (sb_queue b) < sub_buffer" | "\<not> vw_ended v" "\<not> length (sb_queue b) < sub_buffer" by blast
  then show ?thesis
  proof cases
    case 1 with e eq g show ?thesis by auto
  next
    case 2
    have "spec_quiet (spec_view k ?w t) (spec_view k (?w\<lparr>vw_ended := True\<rparr>) (spec_view k ?w t))" by (rule spec_quiet.stop) simp
    then have "spec_quiet\<^sup>*\<^sup>* t (spec_view k (?w\<lparr>vw_ended := True\<rparr>) t)" using q 2(1)
      by (simp add: spec_view_def)
    with 2 ended_matches [OF a] h eq g show ?thesis by (auto intro!: exI conjI)
  next
    case 3
    with ended_matches [OF b(2)] h eq g spec_quiet.stop [OF v] show ?thesis by (auto intro!: r_into_rtranclp exI conjI)
  qed
qed (simp add: call_matches_def)

lemma shut_step:
  assumes m: "hub_matches s t" and n: "hs_calls s n = Some (Removing k)"
  shows "\<exists>t'. spec_quiet\<^sup>*\<^sup>* t t' \<and> hub_matches (call_at n None (unsubscribe_shut k (hs_hub s)) s) t'"
proof -
  note m' = hub_matchesE [OF m]
  from m'(4) [of n] n obtain v where v: "sp_views t k = Some v" and o: "sp_open t n = None" by (auto simp: call_matches_def)
  obtain b where b: "sh_subs (hs_hub s) k = Some b" "sub_matches (hs_hub s) t k b v" by (rule view_of [OF m'(2) v])
  note eq = unsubscribe_shut_eq [OF b(1) sub_matches_simps(1) [OF b(2)]] and g = sub_matches_simps(2) [OF b(2)]
  show ?thesis
  proof (cases "vw_ended v")
    case True
    with hub_matches_call [OF m, of None n] o eq g show ?thesis by (auto simp: call_matches_def)
  next
    case False
    have "hub_matches (call_at n None (unsubscribe_shut k (hs_hub s)) s) (spec_view k (v\<lparr>vw_ended := True\<rparr>) t)"
      using ended_matches [OF b(2)] o eq g False
      by (intro hub_matches_sub [where b' = "b\<lparr>sb_guard := True, sb_shut := True\<rparr>", OF m v _ _ b(1)]) (auto simp: call_matches_def)
    with spec_quiet.stop [OF v] show ?thesis by blast
  qed
qed

lemma receive_step:
  assumes m: "hub_matches s t" and r: "hub_receive k (hs_hub s) = (ob, h)"
  shows "\<exists>t'. spec_do ob t t' \<and> hub_matches (s\<lparr>hs_hub := h\<rparr>) t'"
proof (cases "sh_subs (hs_hub s) k")
  case None
  with r m show ?thesis by (auto simp: hub_receive_def spec_do_def)
next
  case (Some b)
  note m' = hub_matchesE [OF m]
  obtain v where v: "sp_views t k = Some v" and b: "sub_matches (hs_hub s) t k b v" by (rule sub_of [OF m'(2) Some])
  show ?thesis
  proof (cases "sb_queue b")
    case Nil
    with b have "vw_read v = length (vw_accepted v)" "sb_shut b = vw_ended v" by (auto simp: sub_matches_def)
    with r Nil Some m v show ?thesis by (auto simp: hub_receive_def spec_do_def intro: spec_step.ended split: if_splits)
  next
    case (Cons e q)
    let ?v = "v\<lparr>vw_read := vw_read v + 1\<rparr>" and ?b = "b\<lparr>sb_queue := q\<rparr>"
    from b Cons have "drop (vw_read v) (vw_accepted v) \<noteq> []" by (auto simp: sub_matches_def)
    then have l: "vw_read v < length (vw_accepted v)" by simp
    from b Cons l have e: "e = sp_log t (vw_exec v) ! (vw_accepted v ! vw_read v)"
      and q: "q = map ((!) (sp_log t (vw_exec v))) (drop (Suc (vw_read v)) (vw_accepted v))"
      by (simp_all add: sub_matches_def flip: Cons_nth_drop_Suc)
    have "hub_matches (call_at 0 (hs_calls s 0) (update_sub k (sb_queue_update (\<lambda>_. q)) (hs_hub s)) s) (spec_view k ?v t)"
    proof (rule hub_matches_sub [where b' = ?b, OF m v _ _ Some])
      show "sub_matches (hs_hub s) t k ?b ?v" using b q l by (simp add: sub_matches_def)
      show "call_matches (spec_view k ?v t) (hs_calls s 0) (sp_open t 0)"
        by (rule call_matches_view [OF m'(4) v]) (simp_all add: owed_def)
    qed (use Some m'(5) in \<open>auto simp: update_sub_def\<close>)
    moreover have "spec_step (Got k e) t (spec_view k ?v t)" unfolding e by (rule spec_step.got [OF v l])
    ultimately show ?thesis using r Some Cons by (auto simp: hub_receive_def spec_do_def call_at_def intro!: exI conjI)
  qed
qed

subsection \<open>Groups and publications\<close>

lemma call_at_hub: "call_at n c h (s\<lparr>hs_hub := h'\<rparr>) = call_at n c h s"
  by (simp add: call_at_def)

lemma begin_call_at: "begin_call c s = call_at (hs_next_call s) (Some c) (hs_hub s) (s\<lparr>hs_next_call := hs_next_call s + 1\<rparr>)"
  by (simp add: begin_call_def call_at_def)

lemma hub_matches_bump: "hub_matches s t \<Longrightarrow> hub_matches (s\<lparr>hs_next_call := hs_next_call s + 1\<rparr>) t"
  by (auto simp: hub_matches_def)

lemma fresh_call: "hub_matches s t \<Longrightarrow> sp_open t (hs_next_call s) = None"
  using hub_matchesE(4,5) [of s t "hs_next_call s"] by (auto simp: call_matches_def)

lemma open_delivers:
  assumes "hub_matches s t" "sp_open t n = Some (x, i)"
  shows "i < length (sp_log t x)"
  using hub_matchesE(4) [OF assms(1), of n] assms(2)
  by (auto simp: call_matches_def delivering_def split: option.splits hub_call.splits)

definition visits :: "stream_hub \<Rightarrow> string \<Rightarrow> nat list \<Rightarrow> bool" where
  "visits h x ks \<longleftrightarrow> mset ks = mset (case sh_groups h x of None \<Rightarrow> [] | Some g \<Rightarrow> sg_members g)"

lemma spec_begin_simps [simp]:
  "sp_views (spec_begin n x e t) = sp_views t" "sp_log (spec_begin n x e t) = (sp_log t)(x := sp_log t x @ [e])"
  "sp_open (spec_begin n x e t) = (sp_open t)(n \<mapsto> (x, length (sp_log t x)))"
  by (simp_all add: spec_begin_def)

lemma delivering_begin:
  "delivering t q e ks \<Longrightarrow> delivering (spec_begin n x e' t) q e ks"
  by (cases q) (auto simp: delivering_def nth_append)

lemma call_matches_begin: "call_matches t c p \<Longrightarrow> call_matches (spec_begin n x e t) c p"
  by (auto simp: call_matches_def split: option.splits hub_call.splits intro: delivering_begin)

lemma sub_matches_begin:
  assumes "sub_matches h t k b v"
  shows "sub_matches h (spec_begin n x e t) k b v"
proof -
  have "map ((!) (sp_log t (vw_exec v))) (drop (vw_read v) (vw_accepted v)) =
      map ((!) (sp_log (spec_begin n x e t) (vw_exec v))) (drop (vw_read v) (vw_accepted v))"
    using assms by (auto simp: sub_matches_def nth_append dest!: in_set_dropD)
  with assms show ?thesis by (auto simp: sub_matches_def)
qed

lemma subs_match_mono:
  assumes "subs_match h t" "\<And>k b v. sp_views t k = Some v \<Longrightarrow> sub_matches h t k b v \<Longrightarrow> sub_matches h' t' k b v"
    "sh_subs h' = sh_subs h" "sh_next h' = sh_next h" "sp_views t' = sp_views t"
  shows "subs_match h' t'"
proof -
  have "rel_option (sub_matches h' t' k) (sh_subs h k) (sp_views t k)" for k
  proof -
    from assms(1) have "rel_option (sub_matches h t k) (sh_subs h k) (sp_views t k)" by (simp add: subs_match_def)
    then show ?thesis using assms(2) [of k] by (cases "sh_subs h k"; cases "sp_views t k") auto
  qed
  with assms show ?thesis by (simp add: subs_match_def)
qed

lemma publish_matches:
  assumes m: "hub_matches s t" and n: "sp_open t n = None" "n < hs_next_call s" and k: "visits (hs_hub s) x ks"
    and c: "\<And>t' i. call_matches t' (Some c) (Some (x, i)) = delivering t' (x, i) e ks"
  shows "hub_matches (call_at n (Some c) (hs_hub s) s) (spec_begin n x e t)"
proof -
  note m' = hub_matchesE [OF m]
  let ?i = "length (sp_log t x)" and ?ms = "case sh_groups (hs_hub s) x of None \<Rightarrow> [] | Some g \<Rightarrow> sg_members g"
  have ks: "set ks = set ?ms" "distinct ks \<longleftrightarrow> distinct ?ms"
    using k by (metis visits_def set_mset_mset, metis visits_def mset_eq_imp_distinct_iff)
  have "distinct ks" unfolding ks(2) using m'(3) by (auto simp: group_ok_def split: option.splits)
  moreover have "\<exists>v. sp_views t k = Some v \<and> vw_exec v = x \<and> vw_from v \<le> ?i \<and> ?i \<notin> set (vw_accepted v)" if "k \<in> set ks" for k
  proof -
    from that ks(1) obtain g where "sh_groups (hs_hub s) x = Some g" "k \<in> set (sg_members g)" by (cases "sh_groups (hs_hub s) x") auto
    with m'(3) [of x g] obtain v where v: "sp_views t k = Some v" "vw_exec v = x" unfolding group_ok_def by blast
    from view_of [OF m'(2) v(1)] obtain b where "sub_matches (hs_hub s) t k b v" by blast
    with v show ?thesis by (auto simp: sub_matches_def)
  qed
  moreover have "k \<in> set ks" if "sp_views t k = Some v" "vw_exec v = x" "owed ?i v" for k v
  proof -
    from view_of [OF m'(2) that(1)] obtain b where "sub_matches (hs_hub s) t k b v" by blast
    with that show ?thesis unfolding ks(1) by (auto simp: sub_matches_def owed_def)
  qed
  ultimately have "delivering (spec_begin n x e t) (x, ?i) e ks" by (auto simp: delivering_def)
  moreover have "subs_match (hs_hub s) (spec_begin n x e t)"
    by (rule subs_match_mono [OF m'(2) sub_matches_begin]) simp_all
  moreover have "inj_on ((sp_open t)(n \<mapsto> (x, ?i))) (insert n (dom (sp_open t)))"
  proof -
    have "sp_open t y \<noteq> Some (x, ?i)" for y using open_delivers [OF m, of y x ?i] by blast
    with m'(7) show ?thesis by (auto simp: inj_on_def)
  qed
  moreover have "group_ok (spec_begin n x e t) y g" if "sh_groups (hs_hub s) y = Some g" for y g
    using m'(3) [OF that] by (simp add: group_ok_def)
  ultimately show ?thesis using m' n c unfolding hub_matches_def by (auto intro!: call_matches_begin)
qed

text \<open>A section that lists the members of a group anew, or lets the group as it is.\<close>

lemma rebuild_matches:
  assumes m: "hub_matches s t" and r: "publish_rebuild order x (hs_hub s) = (ks, h)"
  shows "hub_matches (s\<lparr>hs_hub := h\<rparr>) t \<and> visits h x ks"
proof (cases "sh_groups (hs_hub s) x")
  case None
  with m r show ?thesis by (auto simp: publish_rebuild_def visits_def)
next
  case (Some g)
  note m' = hub_matchesE [OF m]
  define g' where "g' = (if sg_dirty g then rebuild_snapshot order g else g)"
  from r Some have h: "h = hs_hub s\<lparr>sh_groups := (sh_groups (hs_hub s))(x \<mapsto> g')\<rparr>" and ks: "ks = sg_snapshot g'"
    by (auto simp: publish_rebuild_def Let_def g'_def)
  have g': "sg_members g' = sg_members g" "mset (sg_snapshot g') = mset (sg_members g)" "group_ok t x g'"
    using m'(3) [OF Some] by (auto simp: g'_def rebuild_snapshot_def group_ok_def)
  have "subs_match h t"
    by (rule subs_match_mono [OF m'(2)]) (use g'(1) Some in \<open>auto simp: h sub_matches_def\<close>)
  with m' g' show ?thesis unfolding hub_matches_def visits_def by (auto simp: h ks)
qed

lemma read_visits:
  assumes "hub_matches s t" "publish_read x (hs_hub s) = (found, ks)" "\<not> (found \<and> ks = [])"
  shows "visits (hs_hub s) x ks"
proof (cases "sh_groups (hs_hub s) x")
  case (Some g)
  with assms hub_matchesE(3) [OF assms(1) Some] show ?thesis
    by (auto simp: publish_read_def visits_def group_ok_def split: if_splits)
qed (use assms in \<open>auto simp: publish_read_def visits_def\<close>)

lemma joined_simps:
  "hub_matches s t \<Longrightarrow> sh_groups (hs_hub s) x = Some g \<Longrightarrow> k \<in> set (sg_members g) \<Longrightarrow> \<exists>v. sp_views t k = Some v \<and> vw_exec v = x"
  using hub_matchesE(3) [of s t x g] by (auto simp: group_ok_def)

lemma subscribe_matches:
  assumes m: "hub_matches s t" and r: "subscribe x (hs_hub s) = (Some k, h)"
  shows "sp_views t k = None \<and> hub_matches (s\<lparr>hs_hub := h\<rparr>) (spec_view k \<lparr>vw_exec = x, vw_from = length (sp_log t x),
    vw_accepted = [], vw_read = 0, vw_joined = True, vw_ended = False\<rparr> t)"
proof -
  note m' = hub_matchesE [OF m]
  let ?v = "\<lparr>vw_exec = x, vw_from = length (sp_log t x), vw_accepted = [], vw_read = 0, vw_joined = True, vw_ended = False\<rparr>"
  define g where "g = (case sh_groups (hs_hub s) x of Some g \<Rightarrow> g | None \<Rightarrow> empty_group)"
  define g' where "g' = g\<lparr>sg_members := sg_members g @ [k], sg_dirty := True\<rparr>"
  from r have k: "k = sh_next (hs_hub s)" and h: "h = hs_hub s\<lparr>sh_subs := (sh_subs (hs_hub s))(k \<mapsto> new_subscriber), sh_next := k + 1,
      sh_groups := (sh_groups (hs_hub s))(x \<mapsto> g'), sh_count := sh_count (hs_hub s) + 1\<rparr>"
    by (auto simp: subscribe_def Let_def g_def g'_def split: if_splits)
  from m'(2) k have none: "sh_subs (hs_hub s) k = None" and fresh: "\<And>j. k \<le> j \<Longrightarrow> sh_subs (hs_hub s) j = None"
    by (auto simp: subs_match_def)
  have v: "sp_views t k = None" using none view_of [OF m'(2), of k] by (metis not_None_eq)
  have g: "group_ok t x g" "\<And>j. (j \<in> set (sg_members g)) = (\<exists>g. sh_groups (hs_hub s) x = Some g \<and> j \<in> set (sg_members g))"
    using m'(3) [of x] by (auto simp: g_def empty_group_def group_ok_def split: option.splits)
  have knew: "k \<notin> set (sg_members g)" using g(1) v by (auto simp: group_ok_def)
  have groups: "group_ok (spec_view k ?v t) y g0" if "sh_groups h y = Some g0" for y g0
    using that m'(3) g(1) v knew by (fastforce simp: h g'_def group_ok_def split: if_splits)
  have "rel_option (sub_matches h (spec_view k ?v t) j) (sh_subs h j) (sp_views (spec_view k ?v t) j)" for j
  proof (cases "j = k")
    case True
    then show ?thesis by (simp add: h sub_matches_def new_subscriber_def g'_def)
  next
    case False
    have "sub_matches h (spec_view k ?v t) j = sub_matches (hs_hub s) t j"
      using False g(2) [of j] by (intro ext) (auto simp: sub_matches_def h g'_def)
    moreover have "sh_subs h j = sh_subs (hs_hub s) j" using False by (simp add: h)
    moreover have "rel_option (sub_matches (hs_hub s) t j) (sh_subs (hs_hub s) j) (sp_views t j)"
      using m'(2) by (simp add: subs_match_def)
    ultimately show ?thesis using False by simp
  qed
  then have "subs_match h (spec_view k ?v t)" using fresh by (auto simp: subs_match_def h)
  moreover have "delivering (spec_view k ?v t) q e ks" if "delivering t q e ks" for q e ks
    using that v by (cases q) (fastforce simp: delivering_def owed_def)
  then have "call_matches (spec_view k ?v t) c p" if "call_matches t c p" for c p
    using that by (auto simp: call_matches_def split: option.splits hub_call.splits)
  ultimately show ?thesis using m' v groups unfolding hub_matches_def by (auto simp: h)
qed

lemma call_matches_leave:
  assumes "call_matches t c p" "sp_log t' = sp_log t"
    "\<And>k v. sp_views t k = Some v \<Longrightarrow> \<exists>v'. sp_views t' k = Some v' \<and> v' \<in> {v, v\<lparr>vw_joined := False\<rparr>}"
    "\<And>k. sp_views t k = None \<Longrightarrow> sp_views t' k = None"
  shows "call_matches t' c p"
proof -
  have was: "\<exists>v. sp_views t k = Some v \<and> v' \<in> {v, v\<lparr>vw_joined := False\<rparr>}" if v': "sp_views t' k = Some v'" for k v'
  proof (cases "sp_views t k")
    case (Some v)
    with assms(3) [OF Some] v' show ?thesis by auto
  qed (use assms(4) v' in simp)
  have d: "delivering t' (x, i) e ks" if d: "delivering t (x, i) e ks" for x i e ks
  proof -
    have "\<exists>v. sp_views t' k = Some v \<and> vw_exec v = x \<and> vw_from v \<le> i \<and> i \<notin> set (vw_accepted v)" if "k \<in> set ks" for k
    proof -
      from d that obtain v where "sp_views t k = Some v" "vw_exec v = x" "vw_from v \<le> i" "i \<notin> set (vw_accepted v)"
        by (auto simp: delivering_def)
      with assms(3) [of k v] show ?thesis by auto
    qed
    moreover have "k \<in> set ks" if "sp_views t' k = Some v'" "vw_exec v' = x" "owed i v'" for k v'
      using was [OF that(1)] that d by (auto simp: delivering_def)
    ultimately show ?thesis using d assms(2) by (auto simp: delivering_def)
  qed
  have "sp_views t k \<noteq> None \<Longrightarrow> sp_views t' k \<noteq> None" for k using assms(3) by fastforce
  with d assms(1) show ?thesis by (auto simp: call_matches_def split: option.splits hub_call.splits)
qed

lemma remove_matches:
  assumes m: "hub_matches s t" and r: "unsubscribe_remove x k (hs_hub s) = (True, h)"
  shows "\<exists>v. sp_views t k = Some v \<and> hub_matches (s\<lparr>hs_hub := h\<rparr>) (spec_view k (v\<lparr>vw_joined := False\<rparr>) t)"
proof -
  note m' = hub_matchesE [OF m]
  from r obtain g where g: "sh_groups (hs_hub s) x = Some g" "k \<in> set (sg_members g)"
    and h: "h = hs_hub s\<lparr>sh_count := sh_count (hs_hub s) - 1, sh_groups := (sh_groups (hs_hub s))(x :=
       if remove1 k (sg_members g) = [] then None else Some (g\<lparr>sg_members := remove1 k (sg_members g), sg_dirty := True\<rparr>))\<rparr>"
    by (auto simp: unsubscribe_remove_def Let_def split: option.splits if_splits)
  obtain v where v: "sp_views t k = Some v" "vw_exec v = x" using joined_simps [OF m g] by blast
  let ?t = "spec_view k (v\<lparr>vw_joined := False\<rparr>) t"
  have gm: "distinct (sg_members g)" "\<And>j. j \<in> set (sg_members g) \<Longrightarrow> \<exists>v. sp_views t j = Some v \<and> vw_exec v = x"
    using m'(3) [OF g(1)] by (auto simp: group_ok_def)
  have members: "(\<exists>g. sh_groups h y = Some g \<and> j \<in> set (sg_members g)) \<longleftrightarrow>
      (\<exists>g. sh_groups (hs_hub s) y = Some g \<and> j \<in> set (sg_members g)) \<and> (y = x \<longrightarrow> j \<noteq> k)" for y j
  proof -
    have "set (remove1 k (sg_members g)) = set (sg_members g) - {k}" using gm(1) by (rule set_remove1_eq)
    with g show ?thesis by (cases "y = x"; cases "remove1 k (sg_members g) = []") (auto simp: h)
  qed
  have "rel_option (sub_matches h ?t j) (sh_subs h j) (sp_views ?t j)" for j
  proof -
    have r: "rel_option (sub_matches (hs_hub s) t j) (sh_subs (hs_hub s) j) (sp_views t j)" using m'(2) by (simp add: subs_match_def)
    show ?thesis
    proof (cases "j = k")
      case True
      from r v True obtain b where "sh_subs (hs_hub s) k = Some b" "sub_matches (hs_hub s) t k b v" by (cases "sh_subs (hs_hub s) k") auto
      moreover have "sub_matches (hs_hub s) t k b v \<Longrightarrow> sub_matches h ?t k b (v\<lparr>vw_joined := False\<rparr>)" for b
        unfolding sub_matches_def using members [of "vw_exec v" k] v(2) by auto
      ultimately show ?thesis using True by (simp add: h)
    next
      case False
      have "sub_matches h ?t j = sub_matches (hs_hub s) t j"
        using False members by (intro ext) (simp add: sub_matches_def)
      with False r show ?thesis by (simp add: h)
    qed
  qed
  then have "subs_match h ?t" using m'(2) by (auto simp: subs_match_def h)
  moreover have "group_ok ?t y g0" if "sh_groups h y = Some g0" for y g0
    using that m'(3) [of y g0] g gm v by (auto simp: h group_ok_def dest: notin_set_remove1 split: if_splits)
  moreover have "call_matches ?t (hs_calls s n) (sp_open ?t n)" for n
    unfolding spec_view_simps by (rule call_matches_leave [OF m'(4)]) (use v in auto)
  ultimately show ?thesis using m' v unfolding hub_matches_def by (auto simp: h)
qed

lemma leave_all_matches:
  assumes m: "hub_matches s t" and r: "close_begin x (hs_hub s) = (ms, h)"
  shows "hub_matches (s\<lparr>hs_hub := h\<rparr>) (spec_leave_all x t)"
proof -
  note m' = hub_matchesE [OF m]
  let ?t = "spec_leave_all x t" and ?f = "\<lambda>v. if vw_exec v = x then v\<lparr>vw_joined := False\<rparr> else v"
  from r obtain c where h: "h = hs_hub s\<lparr>sh_groups := (sh_groups (hs_hub s))(x := None), sh_count := c\<rparr>" by (auto simp: close_begin_def Let_def)
  have t: "sp_views ?t k = map_option ?f (sp_views t k)" "sp_log ?t = sp_log t" "sp_open ?t = sp_open t" for k
    by (simp_all add: spec_leave_all_def)
  have "sub_matches h ?t k b (?f v)" if "sub_matches (hs_hub s) t k b v" for k b v
    using that by (auto simp: sub_matches_def h t)
  then have "rel_option (sub_matches h ?t k) (sh_subs h k) (sp_views ?t k)" for k
  proof -
    assume step: "\<And>k b v. sub_matches (hs_hub s) t k b v \<Longrightarrow> sub_matches h ?t k b (?f v)"
    from m'(2) have "rel_option (sub_matches (hs_hub s) t k) (sh_subs (hs_hub s) k) (sp_views t k)" by (simp add: subs_match_def)
    with step [of k] show ?thesis by (cases "sh_subs (hs_hub s) k"; cases "sp_views t k") (auto simp: t h)
  qed
  then have "subs_match h ?t" using m'(2) by (auto simp: subs_match_def h)
  moreover have "group_ok ?t y g0" if "sh_groups h y = Some g0" for y g0
  proof -
    from that have "group_ok t y g0" using m'(3) [of y g0] by (auto simp: h split: if_splits)
    then show ?thesis unfolding group_ok_def t by fastforce
  qed
  moreover have "call_matches ?t (hs_calls s n) (sp_open ?t n)" for n
    by (rule call_matches_leave [OF m'(4) [of n, folded t(3)]]) (auto simp: t)
  ultimately show ?thesis using m' unfolding hub_matches_def by (auto simp: h t)
qed

subsection \<open>The simulation\<close>

lemma init_matches: "hub_matches (new_hub_sys limit) spec_init"
  by (simp add: hub_matches_def new_hub_sys_def new_stream_hub_def spec_init_def subs_match_def call_matches_def)

lemma go_matches:
  assumes m: "hub_matches s t" and r: "hub_go n order s = (ob, s')"
  shows "\<exists>t'. spec_do ob t t' \<and> hub_matches s' t'"
proof -
  note m' = hub_matchesE [OF m]
  have n: "n < hs_next_call s" if "hs_calls s n = Some c" for c using that m'(5) [of n] by (cases "hs_next_call s \<le> n") auto
  have done_: "\<exists>t'. spec_do (Returned n) t t' \<and> hub_matches (call_at n None (hs_hub s) s) t'"
    if "sp_open t n = Some (x, i)" "delivering t (x, i) e []" for x i e
  proof -
    let ?t = "t\<lparr>sp_open := (sp_open t)(n := None)\<rparr>"
    have "delivering ?t q e ks = delivering t q e ks" for q e ks by (cases q) (simp add: delivering_def)
    then have c: "call_matches ?t c p = call_matches t c p" for c p by (auto simp: call_matches_def split: option.splits hub_call.splits)
    have "subs_match (hs_hub s) ?t" by (rule subs_match_mono [OF m'(2)]) (simp_all add: sub_matches_def)
    moreover have "inj_on ((sp_open t)(n := None)) (dom (sp_open t) - {n})" using m'(7) by (auto simp: inj_on_def)
    ultimately have "hub_matches (call_at n None (hs_hub s) s) ?t"
      using m' call_matches_def [of t None None] unfolding hub_matches_def by (auto simp: c group_ok_def)
    moreover have "spec_step (Returned n) t ?t"
      using that by (intro spec_step.returns) (auto simp: delivering_def)
    ultimately show ?thesis by (auto simp: spec_do_def)
  qed
  show ?thesis
  proof (cases "hs_calls s n")
    case None
    with r m show ?thesis by (auto simp: hub_go_def spec_do_def)
  next
    case (Some c)
    note call = m'(4) [of n, unfolded Some]
    show ?thesis
    proof (cases c)
      case (Removing k)
      with shut_step [OF m, of n k] r Some show ?thesis by (auto simp: hub_go_def spec_do_def Let_def)
    next
      case (Rebuilding e)
      obtain ks h where b: "publish_rebuild order (se_exec e) (hs_hub s) = (ks, h)" by (rule prod.exhaust)
      from rebuild_matches [OF m b] have mh: "hub_matches (s\<lparr>hs_hub := h\<rparr>) t" and v: "visits h (se_exec e) ks" by auto
      have o: "sp_open t n = None" using call Rebuilding by (simp add: call_matches_def)
      have "hub_matches (call_at n (Some (Publishing e ks)) h s) (spec_begin n (se_exec e) e t)"
        using publish_matches [OF mh o, where c = "Publishing e ks"] n [OF Some] v by (simp add: call_at_hub call_matches_def)
      with r Some Rebuilding b o show ?thesis by (auto simp: hub_go_def spec_do_def intro: spec_step.publish)
    next
      case (Publishing e ks)
      from call Publishing obtain x i where d: "sp_open t n = Some (x, i)" "delivering t (x, i) e ks" by (auto simp: call_matches_def)
      show ?thesis
      proof (cases ks)
        case Nil with done_ d r Some Publishing show ?thesis by (auto simp: hub_go_def)
      next
        case (Cons k ks')
        with publish_step [OF m d(1), of e k ks'] d(2) n [OF Some] r Some Publishing
        show ?thesis by (auto simp: hub_go_def spec_do_def Let_def)
      qed
    next
      case (Closing e ks)
      from call Closing obtain x i where d: "sp_open t n = Some (x, i)" "delivering t (x, i) e ks" by (auto simp: call_matches_def)
      show ?thesis
      proof (cases ks)
        case Nil with done_ d r Some Closing show ?thesis by (auto simp: hub_go_def)
      next
        case (Cons k ks')
        with close_step [OF m d(1), of e k ks'] d(2) n [OF Some] r Some Closing
        show ?thesis by (auto simp: hub_go_def spec_do_def Let_def)
      qed
    qed
  qed
qed

lemma begin_matches:
  assumes "hub_matches s t" "\<And>p. call_matches t (Some c) (sp_open t (hs_next_call s))"
  shows "hub_matches (begin_call c s) t"
  unfolding begin_call_at using hub_matches_call [OF hub_matches_bump [OF assms(1)], of "Some c" "hs_next_call s"] assms(2) by simp

lemma publish_begins:
  assumes m: "hub_matches s t" and k: "visits (hs_hub s) x ks"
    and c: "\<And>t' i. call_matches t' (Some c) (Some (x, i)) = delivering t' (x, i) e ks"
  shows "hub_matches (begin_call c s) (spec_begin (hs_next_call s) x e t)"
  unfolding begin_call_at using publish_matches [OF hub_matches_bump [OF m], of "hs_next_call s" x ks c e] fresh_call [OF m] k c by simp

lemma close_matches:
  assumes m: "hub_matches s t" and r: "close_begin x (hs_hub s) = (Some ms, h)"
  shows "hub_matches (begin_call (Closing e (arrange order ms)) (s\<lparr>hs_hub := h\<rparr>)) (spec_leave_all x (spec_begin (hs_next_call s) x e t))"
proof -
  let ?c = "Closing e (arrange order ms)"
  have v: "visits (hs_hub s) x (arrange order ms)" using r by (auto simp: visits_def close_begin_def Let_def split: option.splits)
  have "hub_matches (begin_call ?c s) (spec_begin (hs_next_call s) x e t)"
    by (rule publish_begins [OF m v]) (simp add: call_matches_def)
  from leave_all_matches [OF this, of x "Some ms" h] r show ?thesis by (cases s) (simp add: begin_call_def)
qed

lemma hub_simulates:
  assumes m: "hub_matches s t" and r: "hub_do a s = (ob, s')"
  shows "\<exists>t'. spec_do ob t t' \<and> hub_matches s' t'"
proof (cases a)
  case (DoSubscribe x)
  show ?thesis
  proof (cases "subscribe x (hs_hub s)")
    case (Pair k h)
    show ?thesis
    proof (cases k)
      case None
      with Pair have "h = hs_hub s" by (auto simp: subscribe_def Let_def split: if_splits)
      with r m DoSubscribe Pair None show ?thesis by (auto simp: spec_do_def intro: spec_step.refuse)
    next
      case (Some j)
      with subscribe_matches [OF m, of x j h] r DoSubscribe Pair show ?thesis by (auto simp: spec_do_def intro: spec_step.join)
    qed
  qed
next
  case (DoUnsubscribe x k)
  obtain found h where u: "unsubscribe_remove x k (hs_hub s) = (found, h)" by (rule prod.exhaust)
  show ?thesis
  proof (cases found)
    case True
    with remove_matches [OF m, of x k h] u obtain v where v: "sp_views t k = Some v"
      "hub_matches (s\<lparr>hs_hub := h\<rparr>) (spec_view k (v\<lparr>vw_joined := False\<rparr>) t)" by auto
    from begin_matches [OF v(2), of "Removing k"] fresh_call [OF m]
    have "hub_matches (begin_call (Removing k) (s\<lparr>hs_hub := h\<rparr>)) (spec_view k (v\<lparr>vw_joined := False\<rparr>) t)" by (simp add: call_matches_def)
    with spec_quiet.leave [OF v(1)] r DoUnsubscribe u True show ?thesis by (auto simp: spec_do_def)
  next
    case False
    with u have "h = hs_hub s" by (auto simp: unsubscribe_remove_def Let_def split: option.splits if_splits)
    with r m DoUnsubscribe u False show ?thesis by (auto simp: spec_do_def)
  qed
next
  case (DoPublish e)
  obtain found ks where p: "publish_read (se_exec e) (hs_hub s) = (found, ks)" by (rule prod.exhaust)
  consider "se_exec e = ''''" | "se_exec e \<noteq> ''''" "found \<and> ks = []" | "se_exec e \<noteq> ''''" "\<not> (found \<and> ks = [])" by blast
  then show ?thesis
  proof cases
    case 1 with r m DoPublish show ?thesis by (auto simp: spec_do_def)
  next
    case 2
    with begin_matches [OF m, of "Rebuilding e"] fresh_call [OF m] r DoPublish p show ?thesis
      by (auto simp: spec_do_def call_matches_def)
  next
    case 3
    have "hub_matches (begin_call (Publishing e ks) s) (spec_begin (hs_next_call s) (se_exec e) e t)"
      by (rule publish_begins [OF m read_visits [OF m p 3(2)]]) (simp add: call_matches_def)
    with spec_step.publish [OF fresh_call [OF m], of e] r DoPublish p 3 show ?thesis by (auto simp: spec_do_def split: if_splits)
  qed
next
  case (DoClose x e order)
  obtain ms h where c: "close_begin x (hs_hub s) = (ms, h)" by (rule prod.exhaust)
  consider "x = ''''" | "x \<noteq> ''''" "ms = None" | l where "x \<noteq> ''''" "ms = Some l" by (cases ms) auto
  then show ?thesis
  proof cases
    case 1 with r m DoClose show ?thesis by (auto simp: spec_do_def)
  next
    case 2
    from 2 c have h: "sh_groups h = sh_groups (hs_hub s)" "sh_subs h = sh_subs (hs_hub s)" "sh_next h = sh_next (hs_hub s)"
      "sh_panic h = sh_panic (hs_hub s)" by (auto simp: close_begin_def Let_def)
    have "subs_match h t" by (rule subs_match_mono [OF hub_matchesE(2) [OF m]]) (use h in \<open>simp_all add: sub_matches_def\<close>)
    with h hub_matchesE [OF m] have "hub_matches (s\<lparr>hs_hub := h\<rparr>) t" unfolding hub_matches_def by simp
    with 2 r DoClose c show ?thesis by (auto simp: spec_do_def Let_def)
  next
    case 3
    let ?e = "if se_exec e = '''' then e\<lparr>se_exec := x\<rparr> else e"
    have "hub_matches (begin_call (Closing ?e (arrange order l)) (s\<lparr>hs_hub := h\<rparr>)) (spec_leave_all x (spec_begin (hs_next_call s) x ?e t))"
      using c 3 by (intro close_matches [OF m]) simp
    with spec_step.terminate [OF fresh_call [OF m], of x ?e] 3 r DoClose c show ?thesis by (auto simp: spec_do_def Let_def)
  qed
next
  case (Go n order)
  with go_matches [OF m] r show ?thesis by simp
next
  case (DoReceive k)
  obtain ob' h where c: "hub_receive k (hs_hub s) = (ob', h)" by (rule prod.exhaust)
  with receive_step [OF m c] r DoReceive show ?thesis by auto
qed

interpretation hub: simulation hub_do spec_do hub_matches
  by unfold_locales (rule hub_simulates)

text \<open>
  C17: The hub refines its specification. Whatever is asked of it and however its calls interleave,
  what can be seen of a run is what the specification admits: a subscriber reads, each at most
  once, events published for its execution after it joined; no publication returns while a joined
  subscriber that was not ended has not accepted it; and the end of a channel is only seen after
  everything in it was read.
\<close>
theorem hub_refines:
  "\<exists>t. admits spec_do (fst (run_acts hub_do acts (new_hub_sys limit))) spec_init t"
  using hub.run_admitted [OF init_matches, of acts limit] by (metis prod.collapse)

subsection \<open>Nothing is lost\<close>

text \<open>What a run shows of an execution and of a subscriber.\<close>

definition published_in :: "string \<Rightarrow> hub_obs \<Rightarrow> stream_event list" where
  "published_in x ob =
     (case ob of Published n e \<Rightarrow> if se_exec e = x then [e] else [] | Terminated n y e \<Rightarrow> if y = x then [e] else [] | _ \<Rightarrow> [])"

definition published :: "string \<Rightarrow> hub_obs list \<Rightarrow> stream_event list" where
  "published x tr = concat (map (published_in x) tr)"

definition since :: "string \<Rightarrow> nat \<Rightarrow> hub_obs list \<Rightarrow> stream_event list" where
  "since x k tr = published x (tl (dropWhile (\<lambda>ob. ob \<noteq> Joined x k) tr))"

definition received :: "nat \<Rightarrow> hub_obs list \<Rightarrow> stream_event list" where
  "received k tr = concat (map (\<lambda>ob. case ob of Got j e \<Rightarrow> if j = k then [e] else [] | _ \<Rightarrow> []) tr)"

text \<open>The publications for an execution do not overlap.\<close>

definition serial_step :: "string \<Rightarrow> hub_obs \<Rightarrow> bool \<times> nat option \<Rightarrow> bool \<times> nat option" where
  "serial_step x ob = (\<lambda>(ok, cur). case ob of
     Published n e \<Rightarrow> if se_exec e = x then (ok \<and> cur = None, Some n) else (ok, cur)
   | Terminated n y e \<Rightarrow> if y = x then (ok \<and> cur = None, Some n) else (ok, cur)
   | Returned n \<Rightarrow> (ok, if cur = Some n then None else cur)
   | _ \<Rightarrow> (ok, cur))"

definition serial_state :: "string \<Rightarrow> hub_obs list \<Rightarrow> bool \<times> nat option" where
  "serial_state x tr = fold (serial_step x) tr (True, None)"

definition serial :: "string \<Rightarrow> hub_obs list \<Rightarrow> bool" where
  "serial x tr = fst (serial_state x tr)"

lemma trace_snoc [simp]:
  "published x (tr @ [ob]) = published x tr @ published_in x ob"
  "received k (tr @ [ob]) = received k tr @ (case ob of Got j e \<Rightarrow> if j = k then [e] else [] | _ \<Rightarrow> [])"
  "serial_state x (tr @ [ob]) = serial_step x ob (serial_state x tr)"
  by (simp_all add: published_def received_def serial_state_def)

lemma trace_Nil [simp]: "published x [] = []" "received k [] = []" "since x k [] = []" "serial_state x [] = (True, None)"
  by (simp_all add: published_def received_def since_def serial_state_def)

lemma since_snoc:
  "Joined x k \<in> set tr \<Longrightarrow> since x k (tr @ [ob]) = since x k tr @ published_in x ob"
  "Joined x k \<notin> set tr \<Longrightarrow> since x k (tr @ [Joined x k]) = []"
proof -
  assume j: "Joined x k \<in> set tr"
  then have "dropWhile (\<lambda>ob. ob \<noteq> Joined x k) tr \<noteq> []" by (auto simp: dropWhile_eq_Nil_conv)
  with j show "since x k (tr @ [ob]) = since x k tr @ published_in x ob" by (simp add: since_def)
next
  assume "Joined x k \<notin> set tr"
  then have "dropWhile (\<lambda>ob. ob \<noteq> Joined x k) (tr @ [Joined x k]) = [Joined x k]" by (subst dropWhile_append2) auto
  then show "since x k (tr @ [Joined x k]) = []" by (simp add: since_def)
qed

definition view_traced :: "hub_obs list \<Rightarrow> stream_spec \<Rightarrow> nat \<Rightarrow> view \<Rightarrow> bool" where
  "view_traced tr t k v \<longleftrightarrow>
     Joined (vw_exec v) k \<in> set tr \<and> since (vw_exec v) k tr = drop (vw_from v) (sp_log t (vw_exec v)) \<and>
     received k tr = map ((!) (sp_log t (vw_exec v))) (take (vw_read v) (vw_accepted v)) \<and>
     distinct (vw_accepted v) \<and> vw_read v \<le> length (vw_accepted v) \<and> vw_from v \<le> length (sp_log t (vw_exec v)) \<and>
     set (vw_accepted v) \<subseteq> {vw_from v..<length (sp_log t (vw_exec v))} \<and>
     (\<forall>i < length (sp_log t (vw_exec v)). owed i v \<longrightarrow> (\<exists>n. sp_open t n = Some (vw_exec v, i))) \<and>
     (serial (vw_exec v) tr \<longrightarrow> vw_joined v \<longrightarrow> \<not> vw_ended v \<longrightarrow> (\<exists>m. vw_accepted v = [vw_from v..<m]))"

definition traced :: "hub_obs list \<Rightarrow> stream_spec \<Rightarrow> bool" where
  "traced tr t \<longleftrightarrow> (\<forall>x. sp_log t x = published x tr) \<and>
     (\<forall>k v. sp_views t k = Some v \<longrightarrow> view_traced tr t k v) \<and>
     (\<forall>k x. sp_views t k = None \<longrightarrow> Joined x k \<notin> set tr \<and> received k tr = []) \<and>
     (\<forall>n x i. sp_open t n = Some (x, i) \<longrightarrow> i < length (sp_log t x)) \<and>
     (\<forall>x. serial x tr \<longrightarrow> (\<forall>n. snd (serial_state x tr) = Some n \<longleftrightarrow> sp_open t n = Some (x, length (sp_log t x) - 1) \<and> sp_log t x \<noteq> []) \<and>
        (\<forall>n i. sp_open t n = Some (x, i) \<longrightarrow> Suc i = length (sp_log t x)))"

lemma tracedE:
  assumes "traced tr t"
  shows "\<And>x. sp_log t x = published x tr" "\<And>k v. sp_views t k = Some v \<Longrightarrow> view_traced tr t k v"
    "\<And>k x. sp_views t k = None \<Longrightarrow> Joined x k \<notin> set tr" "\<And>k. sp_views t k = None \<Longrightarrow> received k tr = []"
    "\<And>n x i. sp_open t n = Some (x, i) \<Longrightarrow> i < length (sp_log t x)"
    "\<And>x n. serial x tr \<Longrightarrow> snd (serial_state x tr) = Some n \<longleftrightarrow> sp_open t n = Some (x, length (sp_log t x) - 1) \<and> sp_log t x \<noteq> []"
    "\<And>x n i. serial x tr \<Longrightarrow> sp_open t n = Some (x, i) \<Longrightarrow> Suc i = length (sp_log t x)"
  using assms unfolding traced_def by blast+

lemma traced_view:
  assumes m: "traced tr t" and v: "sp_views t k = Some v" "view_traced tr t k v'"
  shows "traced tr (spec_view k v' t)"
proof -
  have "view_traced tr (spec_view k v' t) = view_traced tr t" by (intro ext) (simp add: view_traced_def)
  with m v show ?thesis unfolding traced_def by auto
qed

lemma traced_quiet:
  assumes m: "traced tr t" and q: "spec_quiet t u"
  shows "traced tr u"
  using q
proof cases
  case (accept n x i k v)
  note m' = tracedE [OF m]
  note w = m'(2) [OF accept(3)]
  let ?v = "v\<lparr>vw_accepted := vw_accepted v @ [i]\<rparr>"
  have i: "i < length (sp_log t (vw_exec v))" using m'(5) [OF accept(2)] accept(4) by simp
  have "\<exists>m. vw_accepted ?v = [vw_from v..<m]" if s: "serial (vw_exec v) tr" and "vw_joined v" "\<not> vw_ended v"
  proof -
    from w that obtain m where a: "vw_accepted v = [vw_from v..<m]" by (auto simp: view_traced_def)
    have last: "Suc i = length (sp_log t (vw_exec v))" using m'(7) [OF s] accept(2,4) by simp
    have all: "j \<in> set (vw_accepted v)" if j: "vw_from v \<le> j" "j < i" for j
    proof (rule ccontr)
      assume "j \<notin> set (vw_accepted v)"
      with j \<open>vw_joined v\<close> \<open>\<not> vw_ended v\<close> have "owed j v" by (simp add: owed_def)
      with w i j obtain n' where "sp_open t n' = Some (vw_exec v, j)" unfolding view_traced_def by (meson less_trans)
      from m'(7) [OF s this] last j show False by simp
    qed
    have "vw_from v = i \<and> m \<le> i \<or> m = i"
    proof (cases "vw_from v = i")
      case False
      with all [of "i - 1"] accept(5,6) a have "i - 1 < m" "\<not> i < m" "0 < i" by auto
      then show ?thesis by linarith
    qed (use accept(6) a in auto)
    then have "vw_accepted ?v = [vw_from v..<Suc i]" using a accept(5) by auto
    then show ?thesis by blast
  qed
  with w i accept have "view_traced tr t k ?v" by (auto simp: view_traced_def dest: owed_accepted)
  from traced_view [OF m accept(3) this] accept show ?thesis by simp
next
  case (leave k v)
  from tracedE(2) [OF m leave(2)] have "view_traced tr t k (v\<lparr>vw_joined := False\<rparr>)" by (simp add: view_traced_def)
  from traced_view [OF m leave(2) this] leave show ?thesis by simp
next
  case (stop k v)
  from tracedE(2) [OF m stop(2)] have "view_traced tr t k (v\<lparr>vw_ended := True\<rparr>)" by (simp add: view_traced_def)
  from traced_view [OF m stop(2) this] stop show ?thesis by simp
qed

lemma traced_silent:
  assumes m: "traced tr t" and ob: "\<And>x. published_in x ob = []" "\<And>x s. serial_step x ob s = s" "\<And>x k. ob \<noteq> Joined x k" "\<And>k e. ob \<noteq> Got k e"
  shows "traced (tr @ [ob]) t"
proof -
  note m' = tracedE [OF m]
  have got: "(case ob of Got j e \<Rightarrow> if j = k then [e] else [] | _ \<Rightarrow> []) = []" for k using ob(4) by (cases ob) auto
  have s: "serial x (tr @ [ob]) = serial x tr" for x by (simp add: serial_def ob(2))
  have "view_traced (tr @ [ob]) t k v" if "view_traced tr t k v" for k v
    using that ob(1) unfolding view_traced_def s by (simp add: got since_snoc)
  with m' ob(1,2) ob(3) [symmetric] show ?thesis unfolding traced_def by (auto simp: got s)
qed

lemma observed_simps [simp]:
  "published_in x (Joined y k) = []" "published_in x (Got k e) = []" "published_in x (Returned n) = []"
  "serial_step x (Joined y k) s = s" "serial_step x (Got k e) s = s"
  "serial x (tr @ [Joined y k]) = serial x tr" "serial x (tr @ [Got k e]) = serial x tr"
  by (simp_all add: published_in_def serial_step_def serial_def split: prod.splits)

lemma traced_join:
  assumes m: "traced tr t" and k: "sp_views t k = None"
  shows "traced (tr @ [Joined x k]) (spec_view k \<lparr>vw_exec = x, vw_from = length (sp_log t x), vw_accepted = [], vw_read = 0,
    vw_joined = True, vw_ended = False\<rparr> t)"
proof -
  note m' = tracedE [OF m]
  let ?v = "\<lparr>vw_exec = x, vw_from = length (sp_log t x), vw_accepted = [], vw_read = 0, vw_joined = True, vw_ended = False\<rparr>"
  let ?t = "spec_view k ?v t" and ?tr = "tr @ [Joined x k]"
  have "\<exists>m. [] = [length (sp_log t x)..<m]" by (rule exI [of _ 0]) simp
  then have "view_traced ?tr ?t k ?v" using m'(4) [OF k] m'(3) [OF k] by (simp add: view_traced_def since_snoc(2) owed_def)
  moreover have "view_traced ?tr ?t j v" if "sp_views t j = Some v" for j v
    using m'(2) [OF that] by (simp add: view_traced_def since_snoc(1))
  ultimately show ?thesis using m' k unfolding traced_def by auto
qed

lemma traced_got:
  assumes m: "traced tr t" and v: "sp_views t k = Some v" "vw_read v < length (vw_accepted v)"
  shows "traced (tr @ [Got k (sp_log t (vw_exec v) ! (vw_accepted v ! vw_read v))]) (spec_view k (v\<lparr>vw_read := vw_read v + 1\<rparr>) t)"
proof -
  note m' = tracedE [OF m]
  let ?ob = "Got k (sp_log t (vw_exec v) ! (vw_accepted v ! vw_read v))" let ?tr = "tr @ [?ob]" and ?v = "v\<lparr>vw_read := vw_read v + 1\<rparr>"
  have "view_traced ?tr (spec_view k ?v t) k ?v" using m'(2) [OF v(1)] v(2)
    by (simp add: view_traced_def since_snoc(1) take_Suc_conv_app_nth)
  moreover have "view_traced ?tr (spec_view k ?v t) j u" if "sp_views t j = Some u" "j \<noteq> k" for j u
    using m'(2) [OF that(1)] that(2) by (simp add: view_traced_def since_snoc(1))
  ultimately show ?thesis using m' v unfolding traced_def by auto
qed

lemma view_traced_begin:
  assumes w: "view_traced tr t k v" and p: "\<And>y. published_in y ob = (if y = x then [e] else [])"
    and ob: "\<And>k e. ob \<noteq> Got k e" and s: "serial (vw_exec v) (tr @ [ob]) \<Longrightarrow> serial (vw_exec v) tr"
    and n: "\<And>i. sp_open t n \<noteq> Some (vw_exec v, i)"
  shows "view_traced (tr @ [ob]) (spec_begin n x e t) k v"
proof -
  have got: "(case ob of Got j e \<Rightarrow> if j = k then [e] else [] | _ \<Rightarrow> []) = []" using ob by (cases ob) auto
  have "map ((!) (sp_log t (vw_exec v))) (take (vw_read v) (vw_accepted v)) =
      map ((!) (sp_log (spec_begin n x e t) (vw_exec v))) (take (vw_read v) (vw_accepted v))"
    using w by (auto simp: view_traced_def nth_append dest!: in_set_takeD)
  moreover have "\<exists>m. sp_open (spec_begin n x e t) m = Some (vw_exec v, i)"
    if "i < length (sp_log (spec_begin n x e t) (vw_exec v))" "owed i v" for i
  proof (cases "i < length (sp_log t (vw_exec v))")
    case True
    with w that obtain m where "sp_open t m = Some (vw_exec v, i)" by (auto simp: view_traced_def)
    moreover from this n have "m \<noteq> n" by blast
    ultimately show ?thesis by auto
  next
    case False
    with that(1) have "vw_exec v = x" "i = length (sp_log t x)" by (auto split: if_splits)
    then show ?thesis by auto
  qed
  ultimately show ?thesis using w s got unfolding view_traced_def by (auto simp: since_snoc(1) p)
qed

lemma traced_begin:
  assumes m: "traced tr t" and n: "sp_open t n = None"
    and ob: "ob = Published n e \<and> se_exec e = x \<or> ob = Terminated n x e"
  shows "traced (tr @ [ob]) (spec_begin n x e t)"
proof -
  note m' = tracedE [OF m]
  let ?t = "spec_begin n x e t" and ?tr = "tr @ [ob]"
  have p: "published_in y ob = (if y = x then [e] else [])" for y using ob by (auto simp: published_in_def)
  have got: "(case ob of Got j e \<Rightarrow> if j = k then [e] else [] | _ \<Rightarrow> []) = []" for k using ob by auto
  have st: "serial_step y ob (serial_state y tr) = (if y = x then (fst (serial_state x tr) \<and> snd (serial_state x tr) = None, Some n) else serial_state y tr)" for y
    using ob by (auto simp: serial_step_def split: prod.splits)
  have sr: "serial y ?tr \<longleftrightarrow> serial y tr \<and> (y = x \<longrightarrow> snd (serial_state x tr) = None)" for y unfolding serial_def trace_snoc st by auto
  have views: "view_traced ?tr ?t k v" if "sp_views t k = Some v" for k v
    by (rule view_traced_begin [OF m'(2) [OF that] p]) (use ob n sr in auto)
  have idle: "sp_open t j \<noteq> Some (x, i)" if "serial x ?tr" for j i
  proof
    assume o: "sp_open t j = Some (x, i)"
    from that sr have s: "serial x tr" "snd (serial_state x tr) = None" by auto
    from m'(7) [OF s(1) o] have "i = length (sp_log t x) - 1" "sp_log t x \<noteq> []" by auto
    with m'(6) [OF s(1), of j] o s(2) show False by simp
  qed
  have "snd (serial_state y ?tr) = Some j \<longleftrightarrow> sp_open ?t j = Some (y, length (sp_log ?t y) - 1) \<and> sp_log ?t y \<noteq> []"
    if "serial y ?tr" for y j
    using that idle m'(6) [of y j] sr n by (cases "y = x") (auto simp: st)
  moreover have "Suc i = length (sp_log ?t y)" if "serial y ?tr" "sp_open ?t j = Some (y, i)" for y j i
    using that idle m'(7) [of y j i] sr by (auto split: if_splits)
  moreover have "i < length (sp_log ?t y)" if "sp_open ?t j = Some (y, i)" for j y i
    using that m'(5) [of j y i] by (auto split: if_splits)
  moreover have "sp_log ?t y = published y ?tr" for y using m'(1) by (simp add: p)
  ultimately show ?thesis unfolding traced_def using views m'(3,4) ob by (auto simp: got)
qed

lemma traced_leave_all:
  assumes m: "traced tr t"
  shows "traced tr (spec_leave_all x t)"
proof -
  note m' = tracedE [OF m]
  have same: "view_traced tr (spec_leave_all x t) = view_traced tr t" by (intro ext) (simp add: view_traced_def spec_leave_all_def)
  have "view_traced tr t k (v\<lparr>vw_joined := False\<rparr>)" if "sp_views t k = Some v" for k v
    using m'(2) [OF that] by (simp add: view_traced_def)
  then have "view_traced tr (spec_leave_all x t) k v" if "sp_views (spec_leave_all x t) k = Some v" for k v
    using that m'(2) unfolding same by (auto simp: spec_leave_all_def)
  with m' show ?thesis unfolding traced_def by (auto simp: spec_leave_all_def)
qed

lemma traced_return:
  assumes m: "traced tr t" and o: "sp_open t n = Some (x, i)"
    and all: "\<And>k v. sp_views t k = Some v \<Longrightarrow> vw_exec v = x \<Longrightarrow> \<not> owed i v"
  shows "traced (tr @ [Returned n]) (t\<lparr>sp_open := (sp_open t)(n := None)\<rparr>)"
proof -
  note m' = tracedE [OF m]
  let ?t = "t\<lparr>sp_open := (sp_open t)(n := None)\<rparr>" and ?tr = "tr @ [Returned n]"
  have st: "serial_step y (Returned n) (serial_state y tr) =
      (fst (serial_state y tr), if snd (serial_state y tr) = Some n then None else snd (serial_state y tr))" for y
    by (simp add: serial_step_def split: prod.splits)
  have sr: "serial y ?tr = serial y tr" for y unfolding serial_def trace_snoc st by simp
  have "view_traced ?tr ?t k v" if "sp_views t k = Some v" for k v
  proof -
    have "\<exists>p. sp_open ?t p = Some (vw_exec v, j)" if "j < length (sp_log t (vw_exec v))" "owed j v" for j
    proof -
      from m'(2) [OF \<open>sp_views t k = Some v\<close>] that obtain p where p: "sp_open t p = Some (vw_exec v, j)" unfolding view_traced_def by blast
      moreover have "p \<noteq> n"
      proof
        assume "p = n"
        with p o have "vw_exec v = x" "j = i" by auto
        with all \<open>sp_views t k = Some v\<close> that show False by blast
      qed
      ultimately show ?thesis by (intro exI [of _ p]) simp
    qed
    with m'(2) [OF that] show ?thesis unfolding view_traced_def sr by (simp add: since_snoc(1))
  qed
  moreover have "snd (serial_state y ?tr) = Some j \<longleftrightarrow> sp_open ?t j = Some (y, length (sp_log ?t y) - 1) \<and> sp_log ?t y \<noteq> []"
    if "serial y tr" for y j
    using m'(6) [OF that, of j] by (auto simp: st)
  moreover have "i < length (sp_log ?t y)" "serial y tr \<Longrightarrow> Suc i = length (sp_log ?t y)" if "sp_open ?t j = Some (y, i)" for j y i
    using that m'(5) [of j y i] m'(7) [of y j i] by (auto split: if_splits)
  moreover have "sp_log ?t y = published y ?tr" for y using m'(1) by simp
  ultimately show ?thesis unfolding traced_def sr using m'(3,4) by auto
qed

lemma traced_do:
  assumes m: "traced tr t" and d: "spec_do ob t u"
  shows "traced (tr @ [ob]) u"
proof (cases "ob = Quiet")
  case True
  with d have "spec_quiet\<^sup>*\<^sup>* t u" by (simp add: spec_do_def)
  then have "traced tr u" using m by induction (auto intro: traced_quiet)
  with True show ?thesis by (auto intro!: traced_silent simp: published_in_def serial_step_def)
next
  case False
  with d have "spec_step ob t u" by (simp add: spec_do_def)
  then show ?thesis
  proof cases
    case (refuse x)
    with m show ?thesis by (auto intro!: traced_silent simp: published_in_def serial_step_def)
  next
    case (join k x)
    with traced_join [OF m] show ?thesis by simp
  next
    case (publish n e)
    with traced_begin [OF m, of n ob e "se_exec e"] show ?thesis by simp
  next
    case (terminate n x e)
    with traced_leave_all [OF traced_begin [OF m, of n ob e x]] show ?thesis by simp
  next
    case (returns n x i)
    with traced_return [OF m] show ?thesis by blast
  next
    case (got k v)
    with traced_got [OF m] show ?thesis by simp
  next
    case (ended k v)
    with m show ?thesis by (auto intro!: traced_silent simp: published_in_def serial_step_def)
  qed
qed

lemma drop_nth: "map ((!) xs) [m..<length xs] = drop m xs"
  by (rule nth_equalityI) simp_all

lemma traced_init: "traced [] spec_init"
  by (simp add: traced_def spec_init_def)

lemma admitted_traced:
  assumes "admits spec_do tr spec_init t"
  shows "traced tr t"
  using assms by (induction rule: admits_induct) (auto intro: traced_init traced_do)

text \<open>
  C16: No event is lost silently. A subscriber that still belongs to its execution and whose channel
  the hub has not closed has, when no call is in flight, every event published since it
  subscribed, each once, read or waiting in its channel; and in the order of publication when the
  publications of the execution did not overlap.
\<close>
theorem no_event_lost:
  assumes "run_acts hub_do acts (new_hub_sys limit) = (tr, s)" "\<forall>n. hs_calls s n = None"
    and "sh_groups (hs_hub s) x = Some g" "k \<in> set (sg_members g)" "sh_subs (hs_hub s) k = Some b" "\<not> sb_guard b"
  shows "mset (received k tr @ sb_queue b) = mset (since x k tr) \<and> (serial x tr \<longrightarrow> received k tr @ sb_queue b = since x k tr)"
proof -
  from hub.run_admitted [OF init_matches assms(1)] obtain t where t: "admits spec_do tr spec_init t" "hub_matches s t" by blast
  note m = hub_matchesE [OF t(2)] and r = tracedE(2) [OF admitted_traced [OF t(1)]]
  from sub_of [OF m(2) assms(5)] obtain v where v: "sp_views t k = Some v" "sub_matches (hs_hub s) t k b v" .
  from joined_simps [OF t(2) assms(3,4)] v(1) have x: "vw_exec v = x" by auto
  have joined: "vw_joined v" "\<not> vw_ended v" using v(2) assms(3,4,6) x by (auto simp: sub_matches_def)
  have idle: "sp_open t n = None" for n using m(4) [of n] assms(2) by (simp add: call_matches_def)
  let ?n = "length (sp_log t x)"
  have "i \<in> set (vw_accepted v)" if "vw_from v \<le> i" "i < ?n" for i
    using r [OF v(1)] joined idle that x by (auto simp: view_traced_def owed_def)
  then have set: "set (vw_accepted v) = {vw_from v..<?n}" using v(2) x by (auto simp: sub_matches_def)
  have all: "received k tr @ sb_queue b = map ((!) (sp_log t x)) (vw_accepted v)" and d: "distinct (vw_accepted v)"
    and since: "since x k tr = map ((!) (sp_log t x)) [vw_from v..<?n]"
    using r [OF v(1)] v(2) x by (simp_all add: view_traced_def sub_matches_def drop_nth flip: map_append)
  have "mset (vw_accepted v) = mset [vw_from v..<?n]" using set_eq_iff_mset_eq_distinct [OF d distinct_upt, of "vw_from v" ?n] set by (simp del: mset_upt)
  then have "mset (received k tr @ sb_queue b) = mset (since x k tr)" unfolding all since by (metis mset_map)
  moreover have "vw_accepted v = [vw_from v..<?n]" if "serial x tr"
  proof -
    from r [OF v(1)] that joined x obtain m where "vw_accepted v = [vw_from v..<m]" by (auto simp: view_traced_def)
    with set show ?thesis by (metis d distinct_upt sorted_distinct_set_unique sorted_upt set_upt atLeastLessThan_upt)
  qed
  ultimately show ?thesis unfolding all since by auto
qed

definition sample_event :: stream_event where
  "sample_event = \<lparr>se_exec = ''x'', se_type = StreamDelta, se_delta = ''hi'', se_offset = 2, se_status = [], se_error = []\<rparr>"

definition sample_acts :: "hub_act list" where
  "sample_acts = [DoSubscribe ''x'', DoPublish sample_event, Go 0 [0], Go 0 [], Go 0 []]"

lemmas hub_defs = new_hub_sys_def new_stream_hub_def subscribe_def publish_read_def publish_rebuild_def rebuild_snapshot_def
  arrange_def begin_call_def call_at_def hub_go_def publish_offer_def channel_defs new_subscriber_def empty_group_def sub_buffer_def

theorem no_event_lost_witness:
  "received 0 (fst (run_acts hub_do sample_acts (new_hub_sys 1))) @ [sample_event] =
   since ''x'' 0 (fst (run_acts hub_do sample_acts (new_hub_sys 1)))"
proof -
  obtain tr s where r: "run_acts hub_do sample_acts (new_hub_sys 1) = (tr, s)" by (rule prod.exhaust)
  then have tr: "tr = [Joined ''x'' 0, Quiet, Published 0 sample_event, Quiet, Returned 0]"
    and s: "\<forall>n. hs_calls s n = None" "sh_groups (hs_hub s) ''x'' = Some \<lparr>sg_members = [0], sg_snapshot = [0], sg_dirty = False\<rparr>"
      "sh_subs (hs_hub s) 0 = Some \<lparr>sb_queue = [sample_event], sb_guard = False, sb_shut = False\<rparr>"
    by (auto simp: sample_acts_def sample_event_def hub_defs Let_def)
  have "serial ''x'' tr" by (simp add: tr serial_def serial_state_def serial_step_def sample_event_def)
  with no_event_lost [OF r s(1,2) _ s(3)] r show ?thesis by simp
qed

subsection \<open>The budget\<close>

definition members_total :: "(string \<rightharpoonup> stream_group) \<Rightarrow> nat" where
  "members_total gs = (\<Sum>x \<in> dom gs. length (sg_members (the (gs x))))"

definition group_size :: "stream_group option \<Rightarrow> nat" where
  "group_size g = (case g of None \<Rightarrow> 0 | Some g \<Rightarrow> length (sg_members g))"

lemma members_total_update:
  assumes "finite (dom gs)"
  shows "int (members_total (gs(x := g))) = int (members_total gs) - int (group_size (gs x)) + int (group_size g)"
proof -
  let ?r = "\<Sum>y \<in> dom gs - {x}. length (sg_members (the (gs y)))"
  have split_: "members_total f = group_size (f x) + (\<Sum>y \<in> dom f - {x}. length (sg_members (the (f y))))" if "finite (dom f)" for f
    using that by (cases "f x") (auto simp: members_total_def group_size_def domIff sum.remove [of _ x] intro!: sum.cong)
  have "dom (gs(x := g)) - {x} = dom gs - {x}" by auto
  moreover have "(\<Sum>y \<in> dom gs - {x}. length (sg_members (the ((gs(x := g)) y)))) = ?r" by (rule sum.cong) auto
  ultimately have "members_total (gs(x := g)) = group_size g + ?r" using split_ [of "gs(x := g)"] assms by (cases g) auto
  with split_ [OF assms] show ?thesis by simp
qed

definition counted :: "int \<Rightarrow> stream_hub \<Rightarrow> bool" where
  "counted m h \<longleftrightarrow> finite (dom (sh_groups h)) \<and> sh_count h = int (members_total (sh_groups h)) \<and> sh_count h \<le> m \<and> sh_max h = m"

lemma channel_frame [simp]:
  "sh_groups (update_sub k f h) = sh_groups h" "sh_count (update_sub k f h) = sh_count h" "sh_max (update_sub k f h) = sh_max h"
  "sh_groups (chan_close k h) = sh_groups h" "sh_count (chan_close k h) = sh_count h" "sh_max (chan_close k h) = sh_max h"
  "sh_groups (shut_sub k h) = sh_groups h" "sh_count (shut_sub k h) = sh_count h" "sh_max (shut_sub k h) = sh_max h"
  "sh_groups (snd (chan_offer e k h)) = sh_groups h" "sh_count (snd (chan_offer e k h)) = sh_count h"
  "sh_max (snd (chan_offer e k h)) = sh_max h"
  by (simp_all add: channel_defs split: option.splits)

lemma offers_counted [simp]:
  "counted m (publish_offer e k h) = counted m h" "counted m (close_offer e k h) = counted m h" "counted m (unsubscribe_shut k h) = counted m h"
  by (auto simp: publish_offer_def close_offer_def unsubscribe_shut_def guarded_def split_beta counted_def split: option.splits)

lemma length_remove1_int: "k \<in> set xs \<Longrightarrow> int (length (remove1 k xs)) = int (length xs) - 1"
  by (induction xs) auto

lemma groups_counted:
  assumes c: "counted m h"
  shows "subscribe x h = (r, h1) \<Longrightarrow> counted m h1" "unsubscribe_remove x k h = (f, h2) \<Longrightarrow> counted m h2"
    "publish_rebuild order x h = (ks, h3) \<Longrightarrow> counted m h3" "close_begin x h = (ms, h4) \<Longrightarrow> counted m h4"
    "hub_receive k h = (ob, h5) \<Longrightarrow> counted m h5"
proof -
  have f: "finite (dom (sh_groups h))" "sh_count h = int (members_total (sh_groups h))" "sh_count h \<le> m" "sh_max h = m" using c by (simp_all add: counted_def)
  note upd = members_total_update [OF f(1)]
  show "counted m h1" if "subscribe x h = (r, h1)"
    using that f upd by (auto simp: subscribe_def counted_def Let_def group_size_def empty_group_def split: if_splits option.splits)
  show "counted m h2" if "unsubscribe_remove x k h = (f, h2)" for f
  proof (cases "sh_groups h x")
    case None
    with that c show ?thesis by (simp add: unsubscribe_remove_def)
  next
    case (Some g)
    show ?thesis
    proof (cases "k \<in> set (sg_members g)")
      case True
      let ?ms = "remove1 k (sg_members g)"
      let ?g = "if ?ms = [] then None else Some (g\<lparr>sg_members := ?ms, sg_dirty := True\<rparr>)"
      have "int (group_size ?g) = int (group_size (sh_groups h x)) - 1"
        using length_remove1_int [OF True] Some by (auto simp: group_size_def)
      with upd [of x ?g] f that True Some show ?thesis by (auto simp: unsubscribe_remove_def counted_def Let_def)
    next
      case False
      with that c Some show ?thesis by (simp add: unsubscribe_remove_def)
    qed
  qed
  show "counted m h3" if "publish_rebuild order x h = (ks, h3)"
    using that f upd by (auto simp: publish_rebuild_def counted_def Let_def group_size_def rebuild_snapshot_def split: option.splits)
  have "int (group_size (sh_groups h x)) \<le> sh_count h" using upd [of x None] f(2) by (simp add: group_size_def)
  then show "counted m h4" if "close_begin x h = (ms, h4)"
    using that f upd [of x None] by (auto simp: close_begin_def counted_def Let_def group_size_def split: option.splits)
  show "counted m h5" if "hub_receive k h = (ob, h5)"
    using that c by (auto simp: hub_receive_def counted_def split: option.splits list.splits)
qed

lemma hub_do_counted:
  assumes c: "counted m (hs_hub s)" and r: "hub_do a s = (ob, s')"
  shows "counted m (hs_hub s')"
proof -
  note g = groups_counted [OF c]
  have go: "counted m (hs_hub s1)" if "hub_go n order s = (ob, s1)" for n order s1
    using that c by (auto simp: hub_go_def Let_def dest: g(3) split: option.splits hub_call.splits list.splits prod.splits)
  show ?thesis
    using r c by (cases a) (auto simp: begin_call_def Let_def dest: g go split: prod.splits option.splits if_splits)
qed

text \<open>
  C38: The hub never panics and never exceeds its budget. In every state a run can reach, no channel
  was closed twice or sent to after its end, the count of subscribers is the number of members of
  the groups, and it is at most the limit.
\<close>
theorem hub_safe:
  "let h = hs_hub (snd (run_acts hub_do acts (new_hub_sys limit)))
   in \<not> sh_panic h \<and> sh_count h = int (\<Sum>x \<in> dom (sh_groups h). length (sg_members (the (sh_groups h x)))) \<and>
      sh_count h \<le> (if limit \<le> 0 then default_execution_subscriptions else limit)"
proof -
  obtain tr s where r: "run_acts hub_do acts (new_hub_sys limit) = (tr, s)" by (rule prod.exhaust)
  from hub.run_admitted [OF init_matches r] have "\<not> sh_panic (hs_hub s)" by (auto simp: hub_matches_def)
  moreover have "counted (if limit \<le> 0 then default_execution_subscriptions else limit) (hs_hub (new_hub_sys limit))"
    by (simp add: counted_def new_hub_sys_def new_stream_hub_def members_total_def default_execution_subscriptions_def)
  from run_acts_induct [where Q = "\<lambda>s. counted _ (hs_hub s)", OF r this hub_do_counted]
  have "counted (if limit \<le> 0 then default_execution_subscriptions else limit) (hs_hub s)" .
  ultimately show ?thesis by (simp add: r counted_def members_total_def)
qed

end
