(* ===== verification/Transcript.thy ===== *)
theory Transcript
  imports Prelude "HOL-Library.Monad_Syntax"
begin

section \<open>Transcript: Markdown code ranges and the canonical form of marker text\<close>

text \<open>
  Model of \<open>internal/llm/transcript/markers.go\<close>. A transcript is a list of bytes and every
  position is a byte offset, as in the source. A regular expression of the file is a matcher: a
  function that, given the text from some position on, tells the rest after a match that starts
  there. Each of the expressions has at most one way to match at a position, except the lazy
  \<open>(.*?)\<close>, which takes the first place where what follows it fits.
\<close>

definition lf :: char where "lf = CHR 0x0A"

definition cr :: char where "cr = CHR 0x0D"

definition backtick :: char where "backtick = CHR 0x60"

definition quote :: string where "quote = [CHR 0x22]"

text \<open>\<open>slice s a b\<close> is Go's \<open>s[a:b]\<close>, and \<open>run_end\<close> where the run of a byte that starts at an
  index ends.\<close>

definition slice :: "string \<Rightarrow> nat \<Rightarrow> nat \<Rightarrow> string" where
  "slice s a b = take (b - a) (drop a s)"

definition run_end :: "char \<Rightarrow> string \<Rightarrow> nat \<Rightarrow> nat" where
  "run_end c s i = i + length (takeWhile ((=) c) (drop i s))"

text \<open>\<open>strings.Trim(s, " \t") == ""\<close>.\<close>

definition is_blank :: "char \<Rightarrow> bool" where
  "is_blank c \<longleftrightarrow> c = CHR 0x20 \<or> c = CHR 0x09"

definition blanks :: "string \<Rightarrow> bool" where
  "blanks s = list_all is_blank s"

text \<open>\<open>strings.TrimSpace\<close> on UTF-8 text: the ASCII white space and the encodings of the other
  characters \<open>unicode.IsSpace\<close> accepts, from U+0085 to U+3000.\<close>

definition space_runes :: "string list" where
  "space_runes = [[CHR 0xC2, CHR 0x85], [CHR 0xC2, CHR 0xA0], [CHR 0xE1, CHR 0x9A, CHR 0x80],
     [CHR 0xE2, CHR 0x80, CHR 0x80], [CHR 0xE2, CHR 0x80, CHR 0x81], [CHR 0xE2, CHR 0x80, CHR 0x82],
     [CHR 0xE2, CHR 0x80, CHR 0x83], [CHR 0xE2, CHR 0x80, CHR 0x84], [CHR 0xE2, CHR 0x80, CHR 0x85],
     [CHR 0xE2, CHR 0x80, CHR 0x86], [CHR 0xE2, CHR 0x80, CHR 0x87], [CHR 0xE2, CHR 0x80, CHR 0x88],
     [CHR 0xE2, CHR 0x80, CHR 0x89], [CHR 0xE2, CHR 0x80, CHR 0x8A], [CHR 0xE2, CHR 0x80, CHR 0xA8],
     [CHR 0xE2, CHR 0x80, CHR 0xA9], [CHR 0xE2, CHR 0x80, CHR 0xAF], [CHR 0xE2, CHR 0x81, CHR 0x9F],
     [CHR 0xE3, CHR 0x80, CHR 0x80]]"

fun trim_left :: "nat \<Rightarrow> string list \<Rightarrow> string \<Rightarrow> string" where
  "trim_left (Suc n) rs (c # s) =
     (if is_space c then trim_left n rs s
      else case find (has_prefix (c # s)) rs of
        None \<Rightarrow> c # s
      | Some r \<Rightarrow> trim_left n rs (drop (length r) (c # s)))"
| "trim_left _ rs s = s"

definition trim_text :: "string \<Rightarrow> string" where
  "trim_text s =
     (let t = trim_left (length s) space_runes s
      in rev (trim_left (length t) (map rev space_runes) (rev t)))"

subsection \<open>Lines\<close>

record markdown_line_range =
  ml_start :: nat
  ml_end :: nat
  ml_next :: nat

function markdown_line_end :: "string \<Rightarrow> nat \<Rightarrow> nat \<times> nat" where
  "markdown_line_end s i =
     (if i < length s then
        if s ! i = lf then (i, i + 1)
        else if s ! i = cr then
          if i + 1 < length s \<and> s ! (i + 1) = lf then (i, i + 2) else (i, i + 1)
        else markdown_line_end s (i + 1)
      else (length s, length s + 1))"
  by pat_completeness auto
termination by (relation "measure (\<lambda>(s, i). length s - i)") auto

declare markdown_line_end.simps [simp del]

lemma markdown_line_end_bounds:
  "markdown_line_end s i = (e, n) \<Longrightarrow> e \<le> length s \<and> e < n \<and> n \<le> length s + 1 \<and> (i \<le> length s \<longrightarrow> i \<le> e)"
proof (induction s i rule: markdown_line_end.induct)
  case (1 s i)
  show ?case
  proof (cases "i < length s \<and> s ! i \<noteq> lf \<and> s ! i \<noteq> cr")
    case True
    with 1(2) have "markdown_line_end s (i + 1) = (e, n)" by (simp add: markdown_line_end.simps [of s i])
    from 1(1) [OF _ _ _ this] True show ?thesis by auto
  next
    case False
    with 1(2) show ?thesis by (subst (asm) markdown_line_end.simps) (auto split: if_splits)
  qed
qed

lemma markdown_line_end_next:
  "markdown_line_end s i = (e, n) \<Longrightarrow> e \<noteq> length s \<Longrightarrow> i < n \<and> n \<le> length s"
proof (induction s i rule: markdown_line_end.induct)
  case (1 s i)
  show ?case
  proof (cases "i < length s \<and> s ! i \<noteq> lf \<and> s ! i \<noteq> cr")
    case True
    with 1(2) have "markdown_line_end s (i + 1) = (e, n)" by (simp add: markdown_line_end.simps [of s i])
    from 1(1) [OF _ _ _ this 1(3)] True show ?thesis by auto
  next
    case False
    with 1(2,3) show ?thesis by (subst (asm) markdown_line_end.simps) (auto split: if_splits)
  qed
qed

function line_ranges_from :: "string \<Rightarrow> nat \<Rightarrow> markdown_line_range list" where
  "line_ranges_from s start =
     (case markdown_line_end s start of (e, n) \<Rightarrow>
        \<lparr>ml_start = start, ml_end = e, ml_next = n\<rparr> # (if e = length s then [] else line_ranges_from s n))"
  by pat_completeness auto
termination
  by (relation "measure (\<lambda>(s, i). Suc (length s) - i)") (auto dest: markdown_line_end_next [OF sym])

declare line_ranges_from.simps [simp del]

definition markdown_line_ranges :: "string \<Rightarrow> markdown_line_range list" where
  "markdown_line_ranges s = line_ranges_from s 0"

subsection \<open>Fences\<close>

text \<open>\<open>openingCodeFence\<close> and \<open>isClosingCodeFence\<close>: the indent is at most three spaces.\<close>

definition fence_indent :: "string \<Rightarrow> nat" where
  "fence_indent line = length (takeWhile ((=) (CHR 0x20)) (take 3 line))"

definition opening_code_fence :: "string \<Rightarrow> (char \<times> nat) option" where
  "opening_code_fence line =
     (let i = fence_indent line
      in if length line \<le> i \<or> (line ! i \<noteq> backtick \<and> line ! i \<noteq> CHR ''~'') then None
         else let c = line ! i; e = run_end c line i
              in if e - i < 3 \<or> (c = backtick \<and> backtick \<in> set (drop e line)) then None
                 else Some (c, e - i))"

definition is_closing_code_fence :: "string \<Rightarrow> char \<Rightarrow> nat \<Rightarrow> bool" where
  "is_closing_code_fence line c minimum_len =
     (let i = fence_indent line; e = run_end c line i
      in if e - i < minimum_len then False else blanks (drop e line))"

text \<open>\<open>UnclosedMarkdownFence\<close>; \<open>char\<close> and \<open>length\<close> of the loop are the pair.\<close>

definition unclosed_step :: "string \<Rightarrow> char \<times> nat \<Rightarrow> markdown_line_range \<Rightarrow> char \<times> nat" where
  "unclosed_step s st r =
     (let line = slice s (ml_start r) (ml_end r)
      in if 0 < snd st then (if is_closing_code_fence line (fst st) (snd st) then (fst st, 0) else st)
         else case opening_code_fence line of Some (c, n) \<Rightarrow> (c, n) | None \<Rightarrow> st)"

definition unclosed_markdown_fence :: "string \<Rightarrow> string" where
  "unclosed_markdown_fence s =
     (let st = foldl (unclosed_step s) (CHR 0x00, 0) (markdown_line_ranges s) in replicate (snd st) (fst st))"

subsection \<open>Inline code spans\<close>

record backtick_run =
  br_start :: nat
  br_end :: nat
  br_opener_start :: nat
  br_opener_len :: nat
  br_closer :: "nat option"

text \<open>The backslashes right before an index. An odd number of them escapes the first backtick.\<close>

definition backslashes_before :: "string \<Rightarrow> nat \<Rightarrow> nat" where
  "backslashes_before s i = length (takeWhile ((=) (CHR 0x5C)) (rev (take i s)))"

definition backtick_run_at :: "string \<Rightarrow> nat \<Rightarrow> backtick_run" where
  "backtick_run_at s i =
     (let e = run_end backtick s i; escaped = odd (backslashes_before s i)
      in \<lparr>br_start = i, br_end = e,
          br_opener_start = (if escaped then i + 1 else i),
          br_opener_len = (if escaped then e - i - 1 else e - i),
          br_closer = None\<rparr>)"

lemma run_end_more: "i < length s \<Longrightarrow> s ! i = c \<Longrightarrow> i < run_end c s i"
  by (simp add: run_end_def Cons_nth_drop_Suc [symmetric])

lemma run_end_le: "i \<le> length s \<Longrightarrow> run_end c s i \<le> length s"
  using length_takeWhile_le [of "(=) c" "drop i s"] by (simp add: run_end_def)

function backtick_runs :: "string \<Rightarrow> nat \<Rightarrow> backtick_run list" where
  "backtick_runs s i =
     (if i < length s then
        if s ! i \<noteq> backtick then backtick_runs s (i + 1)
        else backtick_run_at s i # backtick_runs s (br_end (backtick_run_at s i))
      else [])"
  by pat_completeness auto
termination
  by (relation "measure (\<lambda>(s, i). length s - i)") (auto simp: backtick_run_at_def Let_def intro!: diff_less_mono2 run_end_more)

declare backtick_runs.simps [simp del]

text \<open>
  The pass from the last run to the first. The map tells, for a length, the nearest later run of
  exactly that many backticks (\<open>lastRawRunByLength\<close>); \<open>i\<close> is the index of the first run given.
\<close>

fun link_runs :: "nat \<Rightarrow> backtick_run list \<Rightarrow> backtick_run list \<times> (nat \<rightharpoonup> nat)" where
  "link_runs i [] = ([], Map.empty)"
| "link_runs i (r # rs) =
     (case link_runs (i + 1) rs of (linked, last_raw) \<Rightarrow>
        (r\<lparr>br_closer := (if 0 < br_opener_len r then last_raw (br_opener_len r) else None)\<rparr> # linked,
         last_raw(br_end r - br_start r \<mapsto> i)))"

record markdown_code_range =
  mc_start :: nat
  mc_end :: nat

text \<open>The last loop: the list is what is left of the runs, the first of them having index \<open>i\<close>.\<close>

function matched_spans :: "nat \<Rightarrow> nat \<Rightarrow> backtick_run list \<Rightarrow> markdown_code_range list" where
  "matched_spans offset i [] = []"
| "matched_spans offset i (r # rs) =
     (case br_closer r of
        None \<Rightarrow> matched_spans offset (i + 1) rs
      | Some k \<Rightarrow>
          \<lparr>mc_start = offset + br_opener_start r, mc_end = offset + br_end ((r # rs) ! (k - i))\<rparr> #
          matched_spans offset (k + 1) (drop (k - i) rs))"
  by pat_completeness auto
termination by (relation "measure (\<lambda>(offset, i, rs). length rs)") auto

definition inline_code_ranges :: "string \<Rightarrow> nat \<Rightarrow> markdown_code_range list" where
  "inline_code_ranges s offset = matched_spans offset 0 (fst (link_runs 0 (backtick_runs s 0)))"

subsection \<open>All the code of a message\<close>

text \<open>\<open>MarkdownCodeRanges\<close>. The open fence, if any, is its start, its byte and its length.\<close>

function code_ranges_from :: "string \<Rightarrow> nat \<Rightarrow> nat \<Rightarrow> (nat \<times> char \<times> nat) option \<Rightarrow> markdown_code_range list" where
  "code_ranges_from s line_start plain_start fence =
     (case markdown_line_end s line_start of (line_end, next_line) \<Rightarrow>
        let line = slice s line_start line_end;
            (ranges, plain_start', fence') =
              (case fence of
                 Some (fence_start, c, n) \<Rightarrow>
                   if is_closing_code_fence line c n then
                     let e = (if line_end < length s then next_line else line_end)
                     in ([\<lparr>mc_start = fence_start, mc_end = e\<rparr>], e, None)
                   else ([], plain_start, fence)
               | None \<Rightarrow>
                   (case opening_code_fence line of
                      Some (c, n) \<Rightarrow>
                        (inline_code_ranges (slice s plain_start line_start) plain_start,
                         plain_start, Some (line_start, c, n))
                    | None \<Rightarrow> ([], plain_start, None)))
        in ranges @
           (if line_end = length s then
              (case fence' of
                 Some (fence_start, c, n) \<Rightarrow> [\<lparr>mc_start = fence_start, mc_end = length s\<rparr>]
               | None \<Rightarrow> inline_code_ranges (drop plain_start' s) plain_start')
            else code_ranges_from s next_line plain_start' fence'))"
  by pat_completeness auto
termination
  by (relation "measure (\<lambda>(s, i, p, f). Suc (length s) - i)") (auto dest: markdown_line_end_next [OF sym])

declare code_ranges_from.simps [simp del]

definition markdown_code_ranges :: "string \<Rightarrow> markdown_code_range list" where
  "markdown_code_ranges s = code_ranges_from s 0 0 None"

definition position_in_markdown_code :: "markdown_code_range list \<Rightarrow> nat \<Rightarrow> bool" where
  "position_in_markdown_code ranges p = (\<exists>r \<in> set ranges. mc_start r \<le> p \<and> p < mc_end r)"

subsection \<open>Marker variants\<close>

text \<open>Pieces of the regular expressions: literal text, text regardless of case (the letter k also
  stands for the Kelvin sign), \<open>\s*\<close>, and a search for the leftmost match.\<close>

definition eat :: "string \<Rightarrow> string \<Rightarrow> string option" where
  "eat p s = (if has_prefix s p then Some (drop (length p) s) else None)"

definition kelvin_sign :: string where
  "kelvin_sign = [CHR 0xE2, CHR 0x84, CHR 0xAA]"

fun eat_fold :: "string \<Rightarrow> string \<Rightarrow> string option" where
  "eat_fold [] s = Some s"
| "eat_fold (p # ps) [] = None"
| "eat_fold (p # ps) (c # s) =
     (if lower_char c = p then eat_fold ps s
      else if p = CHR ''k'' \<and> has_prefix (c # s) kelvin_sign then eat_fold ps (drop 3 (c # s))
      else None)"

definition re_space :: "char \<Rightarrow> bool" where
  "re_space c \<longleftrightarrow> c \<in> {CHR 0x09, CHR 0x0A, CHR 0x0C, CHR 0x0D, CHR 0x20}"

definition skip_spaces :: "string \<Rightarrow> string" where
  "skip_spaces s = dropWhile re_space s"

text \<open>\<open>reLegacyThinkingOpenTag\<close>, \<open>reLegacyThinkingCloseTag\<close>.\<close>

definition thinking_tag :: "string \<Rightarrow> string \<Rightarrow> string option" where
  "thinking_tag opening s =
     do { r \<leftarrow> eat opening s; r \<leftarrow> eat_fold ''thinking'' (skip_spaces r); eat ''>'' (skip_spaces r) }"

text \<open>\<open>reMalformedToolInvoke\<close> with its two groups, the name and the command.\<close>

definition name_char :: "char \<Rightarrow> bool" where
  "name_char c \<longleftrightarrow>
     (let n = of_char c :: nat
      in (65 \<le> n \<and> n \<le> 90) \<or> (97 \<le> n \<and> n \<le> 122) \<or> (48 \<le> n \<and> n \<le> 57) \<or> n = 95 \<or> n = 46 \<or> n = 45)"

definition invoke_end :: "string \<Rightarrow> string option" where
  "invoke_end s =
     do { r \<leftarrow> eat ''</parameter>'' s; r \<leftarrow> eat ''</invoke>'' (skip_spaces r); Some (skip_spaces r) }"

fun until :: "(string \<Rightarrow> string option) \<Rightarrow> string \<Rightarrow> (string \<times> string) option" where
  "until m s =
     (case m s of
        Some r \<Rightarrow> Some ([], r)
      | None \<Rightarrow> (case s of [] \<Rightarrow> None | c # cs \<Rightarrow> map_option (\<lambda>(t, r). (c # t, r)) (until m cs)))"

declare until.simps [simp del]

definition tool_invoke :: "string \<Rightarrow> (string \<times> string \<times> string) option" where
  "tool_invoke s =
     do { r \<leftarrow> eat ''[Using tool:'' s;
          let r = skip_spaces r;
          let name = takeWhile name_char r;
          r \<leftarrow> (if name = [] then None else eat quote (dropWhile name_char r));
          r \<leftarrow> (case eat '']'' r of Some r \<Rightarrow> Some r | None \<Rightarrow> eat ''>'' r);
          r \<leftarrow> eat ''<parameter'' (skip_spaces r);
          r \<leftarrow> (if r \<noteq> [] \<and> re_space (hd r) then Some (skip_spaces r) else None);
          r \<leftarrow> eat (''name='' @ quote @ ''command'' @ quote @ ''>'') r;
          (command, r) \<leftarrow> until invoke_end r;
          Some (name, command, r) }"

text \<open>The length of a match at the start of a text, and the leftmost match of a text as the index it
  starts at and its length (\<open>FindStringIndex\<close>).\<close>

definition match_len :: "(string \<Rightarrow> string option) \<Rightarrow> string \<Rightarrow> nat option" where
  "match_len m s = map_option (\<lambda>r. length s - length r) (m s)"

fun find_match :: "(string \<Rightarrow> nat option) \<Rightarrow> string \<Rightarrow> (nat \<times> nat) option" where
  "find_match m s =
     (case m s of
        Some n \<Rightarrow> Some (0, n)
      | None \<Rightarrow> (case s of [] \<Rightarrow> None | c # cs \<Rightarrow> map_option (\<lambda>(i, n). (i + 1, n)) (find_match m cs)))"

declare find_match.simps [simp del]

text \<open>\<open>replaceOutsideMarkdownCode\<close>.\<close>

function replace_from ::
  "(string \<Rightarrow> nat option) \<Rightarrow> (string \<Rightarrow> string) \<Rightarrow> string \<Rightarrow> markdown_code_range list \<Rightarrow> nat \<Rightarrow> nat \<Rightarrow> string" where
  "replace_from m repl s ranges previous search_at =
     (if search_at \<le> length s then
        (case find_match m (drop search_at s) of
           None \<Rightarrow> drop previous s
         | Some (i, n) \<Rightarrow>
             let start = search_at + i; e = search_at + i + n
             in if position_in_markdown_code ranges start
                then replace_from m repl s ranges previous (start + 1)
                else slice s previous start @ repl (slice s start e) @
                     replace_from m repl s ranges e (if e = start then e + 1 else e))
      else drop previous s)"
  by pat_completeness auto
termination
  by (relation "measure (\<lambda>(m, repl, s, ranges, previous, search_at). Suc (length s) - search_at)") auto

declare replace_from.simps [simp del]

definition replace_outside_markdown_code ::
  "string \<Rightarrow> (string \<Rightarrow> nat option) \<Rightarrow> (string \<Rightarrow> string) \<Rightarrow> string" where
  "replace_outside_markdown_code s m repl =
     (if find_match m s = None then s else replace_from m repl s (markdown_code_ranges s) 0 0)"

definition sanitize_marker_part :: "string \<Rightarrow> string" where
  "sanitize_marker_part v =
     (if v = [] then []
      else trim_text (map (\<lambda>c. if c = CHR '']'' then CHR '')'' else if c = cr \<or> c = lf then CHR '' '' else c) v))"

definition canonical_invoke :: "string \<Rightarrow> string" where
  "canonical_invoke match =
     (case tool_invoke match of
        None \<Rightarrow> match
      | Some (name, command, _) \<Rightarrow>
          let tool = sanitize_marker_part name; cmd = sanitize_marker_part command
          in if tool = [] then []
             else if cmd = [] then [lf] @ ''[Using tool: '' @ tool @ '']'' @ [lf]
             else [lf] @ ''[Using tool: '' @ tool @ '' | '' @ cmd @ '']'' @ [lf])"

definition normalize_markers :: "string \<Rightarrow> string" where
  "normalize_markers s =
     (if s = [] then s
      else
        let s = replace_outside_markdown_code s
              (match_len (\<lambda>t. map_option (\<lambda>(n, c, r). r) (tool_invoke t))) canonical_invoke;
            s = replace_outside_markdown_code s (match_len (thinking_tag ''<''))
              (\<lambda>_. [lf] @ ''[Thinking]'' @ [lf])
        in replace_outside_markdown_code s (match_len (thinking_tag ''</''))
              (\<lambda>_. [lf] @ ''[/Thinking]'' @ [lf]))"

end
