(* ===== verification/Utf8.thy ===== *)
theory Utf8
  imports Prelude
begin

section \<open>UTF-8\<close>

text \<open>
  What package \<open>unicode/utf8\<close> says of a string of bytes: where a rune may start, how long the rune
  at the start of a string is (its table of leading bytes, with the range of the second byte), and
  which strings are valid. \<open>to_valid\<close> is \<open>strings.ToValidUTF8\<close> with the replacement character, which
  writes one for each run of invalid bytes, and \<open>repair_runes\<close> is \<open>string([]rune(s))\<close>, which writes
  one for each invalid byte.
\<close>

definition byte_of :: "char \<Rightarrow> nat" where
  "byte_of c = of_char c"

definition continuation :: "char \<Rightarrow> bool" where
  "continuation c \<longleftrightarrow> 0x80 \<le> byte_of c \<and> byte_of c \<le> 0xBF"

definition rune_start :: "char \<Rightarrow> bool" where
  "rune_start c \<longleftrightarrow> \<not> continuation c"

definition second_byte :: "nat \<Rightarrow> nat \<times> nat" where
  "second_byte b0 =
     (if b0 = 0xE0 then (0xA0, 0xBF) else if b0 = 0xED then (0x80, 0x9F)
      else if b0 = 0xF0 then (0x90, 0xBF) else if b0 = 0xF4 then (0x80, 0x8F) else (0x80, 0xBF))"

definition leading_len :: "nat \<Rightarrow> nat option" where
  "leading_len b0 =
     (if b0 < 0x80 then Some 1
      else if 0xC2 \<le> b0 \<and> b0 \<le> 0xDF then Some 2
      else if 0xE0 \<le> b0 \<and> b0 \<le> 0xEF then Some 3
      else if 0xF0 \<le> b0 \<and> b0 \<le> 0xF4 then Some 4
      else None)"

definition rune_len :: "string \<Rightarrow> nat option" where
  "rune_len s =
     (case s of
        [] \<Rightarrow> None
      | c # r \<Rightarrow>
          (case leading_len (byte_of c) of
             None \<Rightarrow> None
           | Some n \<Rightarrow>
               if n = 1 then Some 1
               else if n - 1 \<le> length r \<and>
                 (case second_byte (byte_of c) of (lo, hi) \<Rightarrow> lo \<le> byte_of (r ! 0) \<and> byte_of (r ! 0) \<le> hi) \<and>
                 list_all continuation (take (n - 1) r)
               then Some n else None))"

lemma rune_len_bounds: "rune_len s = Some n \<Longrightarrow> 1 \<le> n \<and> n \<le> 4 \<and> n \<le> length s"
  by (auto simp: rune_len_def leading_len_def split: list.splits option.splits if_splits)

lemma rune_len_start: "rune_len (c # s) = Some n \<Longrightarrow> rune_start c"
  by (auto simp: rune_len_def leading_len_def rune_start_def continuation_def split: option.splits if_splits)

function valid_utf8 :: "string \<Rightarrow> bool" where
  "valid_utf8 s = (if s = [] then True else case rune_len s of None \<Rightarrow> False | Some n \<Rightarrow> valid_utf8 (drop n s))"
  by pat_completeness auto
termination by (relation "measure length") (auto dest: rune_len_bounds)

declare valid_utf8.simps [simp del]

lemma valid_utf8_Nil [simp]: "valid_utf8 []"
  by (simp add: valid_utf8.simps)

definition replacement :: string where
  "replacement = [CHR 0xEF, CHR 0xBF, CHR 0xBD]"

function to_valid_from :: "bool \<Rightarrow> string \<Rightarrow> string" where
  "to_valid_from bad s =
     (if s = [] then []
      else case rune_len s of
        Some n \<Rightarrow> take n s @ to_valid_from False (drop n s)
      | None \<Rightarrow> (if bad then [] else replacement) @ to_valid_from True (tl s))"
  by pat_completeness auto
termination by (relation "measure (\<lambda>(bad, s). length s)") (auto dest: rune_len_bounds)

declare to_valid_from.simps [simp del]

definition to_valid :: "string \<Rightarrow> string" where
  "to_valid s = to_valid_from False s"

function repair_runes :: "string \<Rightarrow> string" where
  "repair_runes s =
     (if s = [] then []
      else case rune_len s of
        Some n \<Rightarrow> take n s @ repair_runes (drop n s)
      | None \<Rightarrow> replacement @ repair_runes (tl s))"
  by pat_completeness auto
termination by (relation "measure length") (auto dest: rune_len_bounds)

declare repair_runes.simps [simp del]

subsection \<open>Valid text\<close>

text \<open>A rune is decided by its own bytes.\<close>

lemma leading_len_pos: "leading_len b = Some n \<Longrightarrow> 1 \<le> n"
  by (auto simp: leading_len_def split: if_splits)

lemma rune_len_append: "rune_len s = Some n \<Longrightarrow> rune_len (s @ t) = Some n"
  by (cases s) (auto simp: rune_len_def nth_append split: option.splits if_splits prod.splits dest: leading_len_pos)

lemma rune_len_take: "rune_len s = Some n \<Longrightarrow> rune_len (take n s) = Some n"
proof (cases s)
  case (Cons c r)
  assume n: "rune_len s = Some n"
  then obtain k where "n = Suc k" using rune_len_bounds by (cases n) fastforce+
  with n Cons show ?thesis
    by (cases k) (auto simp: rune_len_def min_def split: option.splits if_splits prod.splits)
qed (simp add: rune_len_def)

lemma valid_rune: "rune_len s = Some n \<Longrightarrow> valid_utf8 (drop n s) \<Longrightarrow> valid_utf8 s"
  by (subst valid_utf8.simps) auto

lemma valid_utf8_append: "valid_utf8 s \<Longrightarrow> valid_utf8 t \<Longrightarrow> valid_utf8 (s @ t)"
proof (induction s rule: valid_utf8.induct)
  case (1 s)
  show ?case
  proof (cases "s = []")
    case False
    with 1(2) obtain n where n: "rune_len s = Some n" and v: "valid_utf8 (drop n s)"
      by (subst (asm) valid_utf8.simps) (auto split: option.splits)
    have "drop n (s @ t) = drop n s @ t" using rune_len_bounds [OF n] by simp
    with 1(1) [OF False n v 1(3)] show ?thesis
      by (intro valid_rune [OF rune_len_append [OF n]]) simp
  qed (use 1 in simp)
qed

lemma valid_replacement: "valid_utf8 replacement"
proof -
  have "rune_len replacement = Some 3" by code_simp
  then show ?thesis by (rule valid_rune) (simp add: replacement_def)
qed

lemma to_valid_from_valid: "valid_utf8 (to_valid_from bad s)"
proof (induction bad s rule: to_valid_from.induct)
  case (1 bad s)
  show ?case
  proof (cases "s = []")
    case False
    show ?thesis
    proof (cases "rune_len s")
      case None
      have "valid_utf8 (if bad then [] else replacement)" by (simp add: valid_replacement)
      from valid_utf8_append [OF this 1(1) [OF False None]] False None
      show ?thesis by (subst to_valid_from.simps) simp
    next
      case (Some n)
      have "valid_utf8 (take n s)"
        by (rule valid_rune [OF rune_len_take [OF Some]]) simp
      from valid_utf8_append [OF this 1(2) [OF False Some]] False Some
      show ?thesis by (subst to_valid_from.simps) simp
    qed
  qed (simp add: to_valid_from.simps)
qed

lemma to_valid_is_valid: "valid_utf8 (to_valid s)"
  by (simp add: to_valid_def to_valid_from_valid)

lemma valid_hd: "valid_utf8 (c # s) \<Longrightarrow> rune_start c"
  by (subst (asm) valid_utf8.simps) (auto split: option.splits dest: rune_len_start)

text \<open>In valid text a rune starts among any four bytes in a row.\<close>

definition rune_spaced :: "string \<Rightarrow> bool" where
  "rune_spaced s \<longleftrightarrow> (\<forall>i. i + 4 \<le> length s \<longrightarrow> (\<exists>j. i \<le> j \<and> j < i + 4 \<and> rune_start (s ! j)))"

lemma valid_utf8_spaced: "valid_utf8 s \<Longrightarrow> rune_spaced s"
proof (induction s rule: valid_utf8.induct)
  case (1 s)
  show ?case
  proof (cases "s = []")
    case False
    with 1(2) obtain n where n: "rune_len s = Some n" and v: "valid_utf8 (drop n s)"
      by (subst (asm) valid_utf8.simps) (auto split: option.splits)
    note b = rune_len_bounds [OF n]
    have ih: "rune_spaced (drop n s)" by (rule 1(1) [OF False n v])
    have first: "rune_start (s ! 0)" using n False rune_len_start by (cases s) auto
    show ?thesis
      unfolding rune_spaced_def
    proof (intro allI impI)
      fix i assume i: "i + 4 \<le> length s"
      consider "i = 0" | "0 < i" "i < n" | "n \<le> i" by linarith
      then show "\<exists>j. i \<le> j \<and> j < i + 4 \<and> rune_start (s ! j)"
      proof cases
        case 1 with first show ?thesis by (intro exI [of _ 0]) simp
      next
        case 2
        then have "n < length s" using i b by linarith
        then have "rune_start (s ! n)"
          using v valid_hd [of "s ! n" "drop (Suc n) s"] by (simp add: Cons_nth_drop_Suc)
        then show ?thesis using 2 b by (intro exI [of _ n]) auto
      next
        case 3
        then have "(i - n) + 4 \<le> length (drop n s)" using i by simp
        with ih obtain j where "i - n \<le> j" "j < i - n + 4" "rune_start (drop n s ! j)"
          unfolding rune_spaced_def by blast
        with 3 b show ?thesis by (intro exI [of _ "n + j"]) auto
      qed
    qed
  qed (simp add: rune_spaced_def)
qed

lemma rune_spaced_take: "rune_spaced s \<Longrightarrow> rune_spaced (take n s)"
  unfolding rune_spaced_def
proof (intro allI impI)
  fix i
  assume s: "\<forall>i. i + 4 \<le> length s \<longrightarrow> (\<exists>j. i \<le> j \<and> j < i + 4 \<and> rune_start (s ! j))" and i: "i + 4 \<le> length (take n s)"
  then obtain j where "i \<le> j" "j < i + 4" "rune_start (s ! j)" by (metis length_take min.boundedE)
  with i show "\<exists>j. i \<le> j \<and> j < i + 4 \<and> rune_start (take n s ! j)" by (intro exI [of _ j]) auto
qed

lemma rune_spaced_drop: "rune_spaced s \<Longrightarrow> rune_spaced (drop n s)"
  unfolding rune_spaced_def
proof (intro allI impI)
  fix i
  assume s: "\<forall>i. i + 4 \<le> length s \<longrightarrow> (\<exists>j. i \<le> j \<and> j < i + 4 \<and> rune_start (s ! j))" and i: "i + 4 \<le> length (drop n s)"
  then have "(n + i) + 4 \<le> length s" by simp
  with s obtain j where "n + i \<le> j" "j < n + i + 4" "rune_start (s ! j)" by blast
  with i show "\<exists>j. i \<le> j \<and> j < i + 4 \<and> rune_start (drop n s ! j)" by (intro exI [of _ "j - n"]) auto
qed

subsection \<open>Cutting valid text\<close>

text \<open>Valid text can be cut where a rune starts, and a valid beginning leaves a valid rest.\<close>

lemma valid_rune_cases:
  assumes "valid_utf8 s" "s \<noteq> []"
  obtains n where "rune_len s = Some n" "valid_utf8 (drop n s)" "valid_utf8 (take n s)" "1 \<le> n" "n \<le> length s"
proof -
  from assms obtain n where n: "rune_len s = Some n" "valid_utf8 (drop n s)"
    by (subst (asm) valid_utf8.simps) (auto split: option.splits)
  have "valid_utf8 (take n s)" by (rule valid_rune [OF rune_len_take [OF n(1)]]) simp
  with n rune_len_bounds [OF n(1)] that show ?thesis by blast
qed

lemma rune_inside:
  assumes "rune_len s = Some n" "0 < k" "k < n" shows "\<not> rune_start (s ! k)"
proof (cases s)
  case (Cons c r)
  with assms have "list_all continuation (take (n - 1) r)" by (auto simp: rune_len_def split: option.splits if_splits)
  moreover have "k - 1 < length (take (n - 1) r)" using assms Cons rune_len_bounds [OF assms(1)] by auto
  ultimately have "continuation (take (n - 1) r ! (k - 1))" by (simp add: list_all_length)
  with assms Cons show ?thesis by (auto simp: rune_start_def nth_Cons')
qed (use assms in \<open>simp add: rune_len_def\<close>)

lemma valid_cut:
  "valid_utf8 (p @ r) \<Longrightarrow> r = [] \<or> rune_start (hd r) \<Longrightarrow> valid_utf8 p \<and> valid_utf8 r"
proof (induction "length p" arbitrary: p rule: less_induct)
  case less
  show ?case
  proof (cases "p = [] \<or> r = []")
    case False
    then have ne: "p @ r \<noteq> []" "p \<noteq> []" "r \<noteq> []" by auto
    from valid_rune_cases [OF less.prems(1) ne(1)] obtain n where
      n: "rune_len (p @ r) = Some n" "valid_utf8 (drop n (p @ r))" "valid_utf8 (take n (p @ r))" "1 \<le> n" by metis
    have "n \<le> length p"
    proof (rule ccontr)
      assume "\<not> n \<le> length p"
      then have "\<not> rune_start ((p @ r) ! length p)" using rune_inside [OF n(1)] ne(2) by simp
      with less.prems(2) ne(3) show False by (simp add: nth_append hd_conv_nth)
    qed
    then have v: "valid_utf8 (drop n p @ r)" "valid_utf8 (take n p)" using n(2,3) by simp_all
    have "length (drop n p) < length p" using n(4) ne(2) by simp
    from less.hyps [OF this v(1) less.prems(2)] v(2) valid_utf8_append [of "take n p" "drop n p"] show ?thesis by simp
  qed (use less.prems in auto)
qed

lemma valid_rest: "valid_utf8 (p @ r) \<Longrightarrow> valid_utf8 p \<Longrightarrow> valid_utf8 r"
proof (induction "length p" arbitrary: p rule: less_induct)
  case less
  show ?case
  proof (cases "p = []")
    case False
    from valid_rune_cases [OF less.prems(2) False] obtain n where
      n: "rune_len p = Some n" "valid_utf8 (drop n p)" "1 \<le> n" "n \<le> length p" by metis
    from less.prems(1) rune_len_append [OF n(1), of r] have "valid_utf8 (drop n p @ r)"
      using n(4) by (subst (asm) valid_utf8.simps) (use False in simp)
    from less.hyps [OF _ this n(2)] n(3) False show ?thesis by simp
  qed (use less.prems in simp)
qed

lemma valid_cut_at: "valid_utf8 (p @ r) \<Longrightarrow> valid_utf8 r \<Longrightarrow> valid_utf8 p"
  using valid_cut [of p r] valid_hd [of "hd r" "tl r"] by (cases r) auto

text \<open>ASCII.\<close>

definition ascii :: "char \<Rightarrow> bool" where
  "ascii c \<longleftrightarrow> byte_of c < 0x80"

lemma ascii_start: "ascii c \<Longrightarrow> rune_start c"
  by (simp add: ascii_def rune_start_def continuation_def)

lemma ascii_rune: "ascii c \<Longrightarrow> rune_len (c # s) = Some 1"
  by (simp add: ascii_def rune_len_def leading_len_def)

lemma valid_ascii_Cons [simp]: "ascii c \<Longrightarrow> valid_utf8 (c # s) = valid_utf8 s"
  by (subst valid_utf8.simps) (simp add: ascii_rune)

lemma valid_ascii: "list_all ascii p \<Longrightarrow> valid_utf8 p"
  by (induction p) auto

lemma valid_ascii_append: "list_all ascii p \<Longrightarrow> valid_utf8 (p @ r) = valid_utf8 r"
  by (induction p) auto

lemma valid_map_ascii:
  assumes "valid_utf8 s" and f: "\<And>c. ascii c \<Longrightarrow> ascii (f c)" "\<And>c. \<not> ascii c \<Longrightarrow> f c = c"
  shows "valid_utf8 (map f s)"
  using assms(1)
proof (induction "length s" arbitrary: s rule: less_induct)
  case less
  show ?case
  proof (cases s)
    case (Cons c r)
    show ?thesis
    proof (cases "ascii c")
      case True
      with less Cons f(1) show ?thesis by simp
    next
      case False
      have "s \<noteq> []" using Cons by simp
      from valid_rune_cases [OF less.prems this] obtain n where
        n: "rune_len s = Some n" "valid_utf8 (drop n s)" "valid_utf8 (take n s)" "1 \<le> n" "n \<le> length s" by metis
      have "\<not> ascii x" if "x \<in> set (take n s)" for x
      proof -
        from that obtain k where k: "k < n" "x = s ! k" using n(5) by (auto simp: in_set_conv_nth)
        show ?thesis
        proof (cases k)
          case 0 with k False Cons show ?thesis by simp
        next
          case (Suc m) with k rune_inside [OF n(1), of k] ascii_start show ?thesis by auto
        qed
      qed
      then have "map f (take n s) = take n s" by (intro map_idI) (simp add: f(2))
      moreover have "valid_utf8 (map f (drop n s))" using less.hyps [OF _ n(2)] n(4) Cons by simp
      ultimately have "valid_utf8 (map f (take n s) @ map f (drop n s))" using n(3) valid_utf8_append by simp
      then show ?thesis by (metis append_take_drop_id map_append)
    qed
  qed simp
qed

lemma repair_runes_valid: "valid_utf8 (repair_runes s)"
proof (induction s rule: repair_runes.induct)
  case (1 s)
  show ?case
  proof (cases "s = []")
    case False
    show ?thesis
    proof (cases "rune_len s")
      case None
      with False valid_utf8_append [OF valid_replacement 1(1)] show ?thesis by (subst repair_runes.simps) simp
    next
      case (Some n)
      have "valid_utf8 (take n s)" by (rule valid_rune [OF rune_len_take [OF Some]]) simp
      with False Some valid_utf8_append 1(2) show ?thesis by (subst repair_runes.simps) simp
    qed
  qed (simp add: repair_runes.simps)
qed

end
