(* ===== verification/LiveOutput.thy ===== *)
theory LiveOutput
  imports Display Utf8 StreamHub
begin

section \<open>Live output: the writer, the stored text and a window that follows it\<close>

text \<open>
  The way of an agent's output to a window. \<open>internal/llm/stream/writer.go\<close> keeps the text in a
  buffer, tells the stream hub of each piece and appends what is new to the database from time to
  time; \<open>internal/persistence/sqlite/display_items.go\<close>, \<open>display_finalize.go\<close> and
  \<open>execution_replay.go\<close> store the text and read it from a byte offset on; \<open>streamExecution\<close> of
  \<open>internal/handler/live_websocket.go\<close> turns both into frames. Offsets are byte offsets and \<open>int\<close>,
  as in the source.
\<close>

subsection \<open>The stored text\<close>

text \<open>
  The rows of one execution: its display items, which \<open>replaceFinalizedDisplay\<close> writes as one put
  revision each in the order of their positions, and the raw chunks behind them with the offset
  each ends at. \<open>lx_digest\<close> stands for the SHA-256 digest of a text by the text itself.
\<close>

record live_exec =
  lx_status :: exec_status
  lx_error :: string
  lx_items :: "display_item list"
  lx_chunks :: "(nat \<times> string) list"
  lx_digest :: "string option"

text \<open>\<open>displayItemTextSQL\<close>, and the column \<open>display_bytes\<close> as \<open>replaceFinalizedDisplay\<close> computes it.\<close>

definition sql_item_text :: "display_item \<Rightarrow> string" where
  "sql_item_text it =
     di_prefix it @
     (if di_type it = ''tool_result'' \<and> \<not> di_encoded it then encode (di_text it) else di_text it) @
     di_suffix it"

definition display_bytes :: "display_item \<Rightarrow> nat" where
  "display_bytes it = length (di_prefix it @ di_text it @ di_suffix it)"

text \<open>\<open>displayOutputSQL\<close>, the whole text.\<close>

definition finalized_output :: "live_exec \<Rightarrow> string" where
  "finalized_output x = concat (map sql_item_text (lx_items x))"

definition stream_output :: "live_exec \<Rightarrow> string" where
  "stream_output x = concat (map snd (lx_chunks x))"

definition display_output :: "live_exec \<Rightarrow> string" where
  "display_output x = finalized_output x @ stream_output x"

definition finalized_bytes :: "live_exec \<Rightarrow> nat" where
  "finalized_bytes x = sum_list (map display_bytes (lx_items x))"

definition pending_bytes :: "live_exec \<Rightarrow> nat" where
  "pending_bytes x = (if lx_chunks x = [] then 0 else fst (last (lx_chunks x)))"

subsection \<open>Writing it\<close>

definition append_output :: "string \<Rightarrow> live_exec \<Rightarrow> live_exec" where
  "append_output s x =
     (let s = (if valid_utf8 s then s else repair_runes s)
      in if s = [] \<or> lx_status x \<noteq> ExecRunning then x
         else x\<lparr>lx_chunks := lx_chunks x @ [(pending_bytes x + length s, s)]\<rparr>)"

definition replace_display_output :: "string \<Rightarrow> live_exec \<Rightarrow> live_exec" where
  "replace_display_output s x =
     (if lx_digest x = Some s \<and> lx_chunks x = [] then x
      else x\<lparr>lx_items := parse_display s, lx_chunks := [], lx_digest := Some s\<rparr>)"

definition finalize_output :: "string \<Rightarrow> live_exec \<Rightarrow> live_exec" where
  "finalize_output s x = (if lx_status x \<noteq> ExecRunning then x else replace_display_output s x)"

definition finalize_display_output :: "string \<Rightarrow> live_exec \<Rightarrow> live_exec" where
  "finalize_display_output s x =
     (if s \<noteq> [] then replace_display_output s x
      else if lx_chunks x = [] then x
      else replace_display_output (display_output x) x)"

text \<open>What \<open>Complete\<close> does to these rows.\<close>

definition complete_exec :: "exec_status \<Rightarrow> string \<Rightarrow> string \<Rightarrow> live_exec \<Rightarrow> live_exec" where
  "complete_exec st s err x =
     finalize_display_output (normalize_markers s) (x\<lparr>lx_status := st, lx_error := err\<rparr>)"

subsection \<open>Reading it from an offset\<close>

record exec_replay =
  er_output :: string
  er_start :: int
  er_total :: int
  er_status :: exec_status
  er_error :: string

text \<open>\<open>displayHeadsCTE\<close>: each item with the offset it starts at.\<close>

fun display_heads :: "nat \<Rightarrow> display_item list \<Rightarrow> (nat \<times> display_item) list" where
  "display_heads start [] = []"
| "display_heads start (it # its) = (start, it) # display_heads (start + display_bytes it) its"

definition read_stream_bytes_from :: "live_exec \<Rightarrow> nat \<Rightarrow> string" where
  "read_stream_bytes_from x local_pos =
     concat (map (\<lambda>(e, t). drop (local_pos - (e - length t)) t) (filter (\<lambda>(e, t). local_pos < e) (lx_chunks x)))"

definition read_display_bytes_from :: "live_exec \<Rightarrow> nat \<Rightarrow> nat \<Rightarrow> string" where
  "read_display_bytes_from x read_start finalized =
     (if finalized \<le> read_start then read_stream_bytes_from x (read_start - finalized)
      else
        let heads = display_heads 0 (lx_items x)
        in (case find (\<lambda>(start, it). start < read_start \<and> read_start < start + display_bytes it) heads of
              None \<Rightarrow> []
            | Some (start, it) \<Rightarrow> drop (read_start - start) (sql_item_text it)) @
           concat (map (\<lambda>(start, it). sql_item_text it)
             (filter (\<lambda>(start, it). read_start \<le> start \<and> 0 < display_bytes it) heads)) @
           read_stream_bytes_from x 0)"

fun back_to_rune :: "string \<Rightarrow> nat \<Rightarrow> nat" where
  "back_to_rune data 0 = 0"
| "back_to_rune data (Suc n) =
     (if Suc n < length data \<and> \<not> rune_start (data ! Suc n) then back_to_rune data n else Suc n)"

definition read_output_after :: "live_exec \<Rightarrow> int \<Rightarrow> exec_replay" where
  "read_output_after x offset =
     (let finalized = finalized_bytes x;
          total = finalized + pending_bytes x;
          result = \<lparr>er_output = [], er_start = 0, er_total = int total,
                    er_status = lx_status x, er_error = lx_error x\<rparr>;
          offset = nat offset
      in if total < offset \<and> lx_status x = ExecRunning then result\<lparr>er_start := int offset\<rparr>
         else
           let offset = (if total < offset then 0 else offset)
           in if offset = total then result\<lparr>er_start := int offset\<rparr>
              else
                let read_start = offset - 3;
                    data = read_display_bytes_from x read_start finalized;
                    start = back_to_rune data (offset - read_start)
                in result\<lparr>er_start := int (read_start + start), er_output := drop start data\<rparr>)"

subsection \<open>The writer\<close>

text \<open>
  A writer with a store, an execution and a publisher. A flush holds \<open>flushMu\<close> from its snapshot to
  its end, so there is one at a time; between its calls the buffer may grow. \<open>wr_offset\<close> is the
  writer's \<open>persistedOffset\<close>. There is one execution here, so its id is left out of the events.
\<close>

record writer =
  wr_buf :: string
  wr_text :: string
  wr_offset :: nat
  wr_is_error :: bool
  wr_session :: string

text \<open>
  The answer of \<open>GetByID\<close> seeds the buffer with the output the execution has already; when the call
  fails (\<open>Inl ()\<close>) or finds nothing, or the output is empty, the writer starts empty.
\<close>

definition new_writer :: "unit + live_exec option \<Rightarrow> writer" where
  "new_writer loaded =
     (let sw = \<lparr>wr_buf = [], wr_text = [], wr_offset = 0, wr_is_error = False, wr_session = []\<rparr>
      in case loaded of
           Inl err \<Rightarrow> sw
         | Inr None \<Rightarrow> sw
         | Inr (Some x) \<Rightarrow>
             if display_output x \<noteq> [] then sw\<lparr>wr_buf := display_output x, wr_offset := length (display_output x)\<rparr>
             else sw)"

text \<open>The text without thinking and tools, and the marks of the provider's events.\<close>

definition write_text_string :: "string \<Rightarrow> writer \<Rightarrow> writer" where
  "write_text_string s w = w\<lparr>wr_text := wr_text w @ s\<rparr>"

definition mark_error :: "writer \<Rightarrow> writer" where
  "mark_error w = w\<lparr>wr_is_error := True\<rparr>"

definition set_session_id :: "string \<Rightarrow> writer \<Rightarrow> writer" where
  "set_session_id s w = w\<lparr>wr_session := s\<rparr>"

definition delta_event :: "string \<Rightarrow> string \<Rightarrow> stream_event" where
  "delta_event text buf =
     \<lparr>se_exec = [], se_type = StreamDelta, se_delta = text, se_offset = int (length buf), se_status = [], se_error = []\<rparr>"

definition persisted_event :: "nat \<Rightarrow> stream_event" where
  "persisted_event off =
     \<lparr>se_exec = [], se_type = StreamPersisted, se_delta = [], se_offset = int off, se_status = [], se_error = []\<rparr>"

definition buf_write :: "string \<Rightarrow> writer \<Rightarrow> stream_event list \<times> writer" where
  "buf_write s w =
     (let buf = wr_buf w @ s in (if s = [] then [] else [delta_event s buf], w\<lparr>wr_buf := buf\<rparr>))"

definition write_string :: "string \<Rightarrow> writer \<Rightarrow> stream_event list \<times> writer" where
  "write_string s w = buf_write (to_valid s) w"

definition writer_write :: "string \<Rightarrow> writer \<Rightarrow> stream_event list \<times> writer" where
  "writer_write p w = (if valid_utf8 p then buf_write p w else write_string p w)"

text \<open>The snapshots: where the pending text starts and what it is, and for \<open>Flush\<close> the whole text.\<close>

definition pending_delta :: "writer \<Rightarrow> nat \<times> string" where
  "pending_delta w = (wr_offset w, drop (wr_offset w) (wr_buf w))"

definition flush_appended :: "nat \<Rightarrow> string \<Rightarrow> writer \<Rightarrow> stream_event list \<times> writer" where
  "flush_appended start s w = ([persisted_event (start + length s)], w\<lparr>wr_offset := start + length s\<rparr>)"

definition flush_finalized :: "string \<Rightarrow> writer \<Rightarrow> stream_event list \<times> writer" where
  "flush_finalized s w =
     ([persisted_event (length s)], w\<lparr>wr_offset := (if wr_offset w < length s then length s else wr_offset w)\<rparr>)"

subsection \<open>A window\<close>

record live_frame =
  lf_event :: string
  lf_data :: string
  lf_start :: int
  lf_offset :: int

text \<open>
  \<open>streamExecution\<close>: the cursor \<open>sent\<close>, the frames the connection took, and whether the call has
  returned. \<open>ok n\<close> tells whether the connection takes another frame after \<open>n\<close> of them; \<open>read\<close> is
  \<open>ReadOutputAfter\<close> as it answers at the moment, \<open>Inl ()\<close> being an error.
\<close>

record live_view =
  vw_sent :: int
  vw_frames :: "live_frame list"
  vw_over :: bool

type_synonym replay_read = "int \<Rightarrow> unit + exec_replay option"

definition emit :: "(nat \<Rightarrow> bool) \<Rightarrow> live_frame \<Rightarrow> live_view \<Rightarrow> bool \<times> live_view" where
  "emit ok f v = (if ok (length (vw_frames v)) then (True, v\<lparr>vw_frames := vw_frames v @ [f]\<rparr>) else (False, v))"

definition frame :: "string \<Rightarrow> string \<Rightarrow> int \<Rightarrow> int \<Rightarrow> live_frame" where
  "frame ev data start off = \<lparr>lf_event = ev, lf_data = data, lf_start = start, lf_offset = off\<rparr>"

definition chunk_size :: nat where
  "chunk_size = 32 * 1024"

definition clamp_offset :: "nat \<Rightarrow> string \<Rightarrow> nat" where
  "clamp_offset off s = (if off = 0 then 0 else if length s \<le> off then length s else back_to_rune s off)"

definition exec_terminal :: "exec_status \<Rightarrow> bool" where
  "exec_terminal st \<longleftrightarrow> st = ExecCompleted \<or> st = ExecCancelled \<or> st = ExecFailed"

text \<open>
  The loop over the chunks of a replay. It has no bound of its own: where no rune starts within a
  chunk, its end falls back to its start and the loop goes on for ever, which is the value None.
  The flag is what \<open>replay\<close> returns, that the view is over.
\<close>

partial_function (option) send_chunks ::
  "(nat \<Rightarrow> bool) \<Rightarrow> string \<Rightarrow> int \<Rightarrow> nat \<Rightarrow> live_view \<Rightarrow> (bool \<times> live_view) option" where
  "send_chunks ok out base start v =
     (if start < length out then
        let e = clamp_offset (min (start + chunk_size) (length out)) out
        in case emit ok (frame ''message'' (slice out start e) (base + int start) (base + int e)) v of
             (sent, v) \<Rightarrow>
               if \<not> sent then Some (True, v)
               else send_chunks ok out base e (v\<lparr>vw_sent := base + int e\<rparr>)
      else Some (False, v))"

declare send_chunks.simps [code]

definition replay_end :: "(nat \<Rightarrow> bool) \<Rightarrow> exec_replay \<Rightarrow> live_view \<Rightarrow> bool \<times> live_view" where
  "replay_end ok x v =
     (if er_status x = ExecCompleted \<or> er_status x = ExecCancelled then
        (True, snd (emit ok (frame ''done'' (if er_status x = ExecCompleted then ''completed'' else ''cancelled'') 0 (vw_sent v)) v))
      else if er_status x = ExecFailed then (True, snd (emit ok (frame ''error'' (er_error x) 0 (vw_sent v)) v))
      else (False, v))"

definition replay_tail :: "(nat \<Rightarrow> bool) \<Rightarrow> exec_replay \<Rightarrow> live_view \<Rightarrow> (bool \<times> live_view) option" where
  "replay_tail ok x v =
     (if vw_sent v < er_total x then
        (case send_chunks ok (er_output x) (er_start x) 0 v of
           None \<Rightarrow> None
         | Some (over, v) \<Rightarrow> if over then Some (True, v) else Some (replay_end ok x v))
      else Some (replay_end ok x v))"

definition view_replay :: "(nat \<Rightarrow> bool) \<Rightarrow> replay_read \<Rightarrow> live_view \<Rightarrow> (bool \<times> live_view) option" where
  "view_replay ok read v =
     (case read (vw_sent v) of
        Inl _ \<Rightarrow> Some (True, snd (emit ok (frame ''retry'' ''execution replay unavailable'' 0 0) v))
      | Inr None \<Rightarrow> Some (True, snd (emit ok (frame ''error'' ''execution not found'' 0 0) v))
      | Inr (Some x) \<Rightarrow>
          if er_total x < vw_sent v \<and> exec_terminal (er_status x) then
            (case emit ok (frame ''reset'' (er_output x) 0 (er_total x)) v of
               (sent, v) \<Rightarrow> if \<not> sent then Some (True, v) else replay_tail ok x (v\<lparr>vw_sent := er_total x\<rparr>))
          else replay_tail ok x v)"

text \<open>The rest of \<open>streamExecution\<close>: its start, an event, and the end of its channel.\<close>

definition view_over :: "live_view \<Rightarrow> live_view" where
  "view_over v = v\<lparr>vw_over := True\<rparr>"

definition view_start :: "(nat \<Rightarrow> bool) \<Rightarrow> replay_read \<Rightarrow> int \<Rightarrow> live_view option" where
  "view_start ok read offset =
     map_option (\<lambda>(over, v). if over then view_over v else v)
       (view_replay ok read \<lparr>vw_sent = offset, vw_frames = [], vw_over = False\<rparr>)"

definition view_closed :: "(nat \<Rightarrow> bool) \<Rightarrow> replay_read \<Rightarrow> live_view \<Rightarrow> live_view option" where
  "view_closed ok read v =
     map_option (\<lambda>(over, v). view_over (if over then v else snd (emit ok (frame ''retry'' ''execution stream interrupted'' 0 0) v)))
       (view_replay ok read v)"

definition view_send_delta :: "(nat \<Rightarrow> bool) \<Rightarrow> stream_event \<Rightarrow> live_view \<Rightarrow> live_view" where
  "view_send_delta ok ev v =
     (let start = se_offset ev - int (length (se_delta ev)); skip = vw_sent v - start
      in if se_offset ev \<le> vw_sent v \<or> skip < 0 \<or> int (length (se_delta ev)) < skip then v
         else case emit ok (frame ''message'' (drop (nat skip) (se_delta ev)) (vw_sent v) (se_offset ev)) v of
           (sent, v) \<Rightarrow> if \<not> sent then view_over v else v\<lparr>vw_sent := se_offset ev\<rparr>)"

definition view_event :: "(nat \<Rightarrow> bool) \<Rightarrow> replay_read \<Rightarrow> stream_event \<Rightarrow> live_view \<Rightarrow> live_view option" where
  "view_event ok read ev v =
     (if se_type ev = StreamPersisted \<and> se_offset ev \<le> vw_sent v then Some v
      else if se_type ev \<noteq> StreamDelta then
        (case view_replay ok read v of
           None \<Rightarrow> None
         | Some (over, v) \<Rightarrow>
             Some (if over then view_over v
                   else if se_type ev = StreamError then
                     view_over (snd (emit ok (frame ''error'' (se_error ev) 0 (vw_sent v)) v))
                   else if se_type ev = StreamDone then
                     view_over (snd (emit ok
                       (frame ''done'' (if se_status ev = [] then ''completed'' else se_status ev) 0 (vw_sent v)) v))
                   else v))
      else if se_offset ev \<le> vw_sent v then Some v
      else
        let start = se_offset ev - int (length (se_delta ev))
        in if vw_sent v < start then
             (case view_replay ok read v of
                None \<Rightarrow> None
              | Some (over, v) \<Rightarrow>
                  Some (if over then view_over v
                        else if vw_sent v < start then
                          view_over (snd (emit ok (frame ''retry'' ''execution output gap'' 0 0) v))
                        else view_send_delta ok ev v))
           else Some (view_send_delta ok ev v))"

text \<open>
  What a window makes of a frame (\<open>web/assets/live-transport.js\<close>): text it has already is skipped, a
  gap would make it close the connection, and a reset replaces what it has.
\<close>

definition window_apply :: "live_frame \<Rightarrow> string \<Rightarrow> string option" where
  "window_apply f text =
     (if lf_event f = ''message'' then
        if lf_offset f \<le> int (length text) then Some text
        else if int (length text) < lf_start f then None
        else Some (text @ drop (nat (int (length text) - lf_start f)) (lf_data f))
      else if lf_event f = ''reset'' then Some (lf_data f)
      else Some text)"

fun window_text :: "live_frame list \<Rightarrow> string \<Rightarrow> string option" where
  "window_text [] text = Some text"
| "window_text (f # fs) text = (case window_apply f text of None \<Rightarrow> None | Some text \<Rightarrow> window_text fs text)"

subsection \<open>All of it together\<close>

text \<open>
  An execution, its writer and a window on it. \<open>lv_sent\<close> holds the events published so far; the
  window is handed any of them at any time, late, out of order or not at all, since the hub closes
  a slow subscriber and publications overlap. A flush is in one of its sections, and its calls to
  the database may fail. The window subscribes with the offset up to which it has the text, and its
  connection and its reads may fail.
\<close>

datatype flush_phase =
    NoFlush
  | Appending nat string "string option"
  | Appended nat string "string option"
  | Finalizing string
  | Finalized string

record live_system =
  lv_writer :: writer
  lv_exec :: live_exec
  lv_flush :: flush_phase
  lv_events :: "stream_event list"
  lv_base :: string
  lv_view :: "live_view option"

definition publish_events :: "stream_event list \<times> writer \<Rightarrow> live_system \<Rightarrow> live_system" where
  "publish_events r s = s\<lparr>lv_writer := snd r, lv_events := lv_events s @ fst r\<rparr>"

text \<open>What follows a flush's append, whether it succeeded or not: \<open>Flush\<close> goes on to finalize.\<close>

definition after_append :: "string option \<Rightarrow> flush_phase" where
  "after_append final = (case final of None \<Rightarrow> NoFlush | Some out \<Rightarrow> Finalizing out)"

definition flush_begin :: "bool \<Rightarrow> live_system \<Rightarrow> live_system" where
  "flush_begin final s =
     (let w = lv_writer s; (start, pending) = pending_delta w; out = (if final then Some (wr_buf w) else None)
      in if pending \<noteq> [] then s\<lparr>lv_flush := Appending start pending out\<rparr>
         else if final \<and> wr_buf w \<noteq> [] then s\<lparr>lv_flush := Finalizing (wr_buf w)\<rparr>
         else s)"

definition can_read :: "live_exec \<Rightarrow> replay_read \<Rightarrow> bool" where
  "can_read x read \<longleftrightarrow> (\<forall>off. read off = Inl () \<or> read off = Inr (Some (read_output_after x off)))"

inductive live_step :: "live_system \<Rightarrow> live_system \<Rightarrow> bool" where
  raw_write: "live_step s (publish_events (writer_write p (lv_writer s)) s)"
| text_write: "live_step s (publish_events (write_string p (lv_writer s)) s)"
| mark: "w \<in> {write_text_string p (lv_writer s), mark_error (lv_writer s), set_session_id p (lv_writer s)} \<Longrightarrow>
    live_step s (s\<lparr>lv_writer := w\<rparr>)"
| begin_flush: "lv_flush s = NoFlush \<Longrightarrow> live_step s (flush_begin final s)"
| do_append: "lv_flush s = Appending start out final \<Longrightarrow>
    live_step s (s\<lparr>lv_exec := append_output out (lv_exec s), lv_flush := Appended start out final\<rparr>)"
| fail_append: "lv_flush s = Appending start out final \<Longrightarrow> live_step s (s\<lparr>lv_flush := after_append final\<rparr>)"
| end_append: "lv_flush s = Appended start out final \<Longrightarrow>
    live_step s ((publish_events (flush_appended start out (lv_writer s)) s)\<lparr>lv_flush := after_append final\<rparr>)"
| do_finalize: "lv_flush s = Finalizing out \<Longrightarrow>
    live_step s (s\<lparr>lv_exec := finalize_output out (lv_exec s), lv_flush := Finalized out\<rparr>)"
| fail_finalize: "lv_flush s = Finalizing out \<Longrightarrow> live_step s (s\<lparr>lv_flush := NoFlush\<rparr>)"
| end_finalize: "lv_flush s = Finalized out \<Longrightarrow>
    live_step s ((publish_events (flush_finalized out (lv_writer s)) s)\<lparr>lv_flush := NoFlush\<rparr>)"
| complete: "exec_terminal st \<Longrightarrow> out = [] \<or> out = wr_buf (lv_writer s) \<Longrightarrow>
    live_step s (s\<lparr>lv_exec := complete_exec st out err (lv_exec s)\<rparr>)"
| stream_end: "se_type ev = StreamDone \<or> se_type ev = StreamError \<Longrightarrow>
    live_step s (s\<lparr>lv_events := lv_events s @ [ev]\<rparr>)"
| watch: "n \<le> length (wr_buf (lv_writer s)) \<Longrightarrow> can_read (lv_exec s) read \<Longrightarrow>
    view_start ok read (int n) = Some v \<Longrightarrow>
    live_step s (s\<lparr>lv_base := take n (wr_buf (lv_writer s)), lv_view := Some v\<rparr>)"
| deliver: "lv_view s = Some v \<Longrightarrow> \<not> vw_over v \<Longrightarrow> ev \<in> set (lv_events s) \<Longrightarrow> can_read (lv_exec s) read \<Longrightarrow>
    view_event ok read ev v = Some v' \<Longrightarrow> live_step s (s\<lparr>lv_view := Some v'\<rparr>)"
| closed: "lv_view s = Some v \<Longrightarrow> \<not> vw_over v \<Longrightarrow> can_read (lv_exec s) read \<Longrightarrow>
    view_closed ok read v = Some v' \<Longrightarrow> live_step s (s\<lparr>lv_view := Some v'\<rparr>)"

text \<open>
  An execution that has just been started, or is started again on the text it has; \<open>seeded\<close> tells
  whether the writer could load that text.
\<close>

definition live_init :: "bool \<Rightarrow> live_exec \<Rightarrow> live_system" where
  "live_init seeded x =
     \<lparr>lv_writer = new_writer (if seeded then Inr (Some x) else Inl ()), lv_exec = x, lv_flush = NoFlush, lv_events = [],
      lv_base = [], lv_view = None\<rparr>"

inductive live_reachable :: "bool \<Rightarrow> live_exec \<Rightarrow> live_system \<Rightarrow> bool" for seeded x where
  init: "live_reachable seeded x (live_init seeded x)"
| step: "live_reachable seeded x s \<Longrightarrow> live_step s s' \<Longrightarrow> live_reachable seeded x s'"

end
