(* ===== verification/DisplayLaws.thy ===== *)
theory DisplayLaws
  imports Display
begin

section \<open>Display: the scanners find what the expressions find, and nothing is lost\<close>

text \<open>
  First the positions of a text and its lines, then the two scanners of \<open>Display\<close> against a
  reference that tries every line start in turn, as the regular expressions do, and last the
  round trip from text to items and back.
\<close>

subsection \<open>Positions and lines\<close>

lemma nth_slice: "j < b - a \<Longrightarrow> b \<le> length s \<Longrightarrow> slice s a b ! j = s ! (a + j)"
  by (simp add: slice_def)

lemma length_slice: "b \<le> length s \<Longrightarrow> length (slice s a b) = b - a"
  by (simp add: slice_def)

lemma in_slice: "b \<le> length s \<Longrightarrow> x \<in> set (slice s a b) \<longleftrightarrow> (\<exists>j. a \<le> j \<and> j < b \<and> s ! j = x)"
proof
  assume b: "b \<le> length s" and "x \<in> set (slice s a b)"
  then obtain j where "j < b - a" "slice s a b ! j = x" by (auto simp: in_set_conv_nth length_slice)
  with b show "\<exists>j. a \<le> j \<and> j < b \<and> s ! j = x" by (intro exI [of _ "a + j"]) (auto simp: nth_slice)
next
  assume b: "b \<le> length s" and "\<exists>j. a \<le> j \<and> j < b \<and> s ! j = x"
  then obtain j where "a \<le> j" "j < b" "s ! j = x" by blast
  with b show "x \<in> set (slice s a b)"
    by (auto simp: in_set_conv_nth length_slice nth_slice intro!: exI [of _ "j - a"])
qed

lemma slice_append: "a \<le> b \<Longrightarrow> b \<le> c \<Longrightarrow> slice s a b @ slice s b c = slice s a c"
  using take_add [of "b - a" "c - b" "drop a s"] by (simp add: slice_def)

lemma slice_drop: "a \<le> b \<Longrightarrow> slice s a b @ drop b s = drop a s"
  unfolding slice_def by (metis append_take_drop_id drop_drop le_add_diff_inverse2)

lemma blanks_slice: "b \<le> length s \<Longrightarrow> blanks (slice s a b) \<longleftrightarrow> (\<forall>j. a \<le> j \<and> j < b \<longrightarrow> is_blank (s ! j))"
  unfolding blanks_def list_all_iff by (metis in_slice)

definition line_start :: "string \<Rightarrow> nat \<Rightarrow> bool" where
  "line_start s p \<longleftrightarrow> p = 0 \<or> s ! (p - 1) = lf"

text \<open>\<open>line_at s i p\<close>: the line position \<open>i\<close> is on starts at \<open>p\<close>.\<close>

definition line_at :: "string \<Rightarrow> nat \<Rightarrow> nat \<Rightarrow> bool" where
  "line_at s i p \<longleftrightarrow> p \<le> i \<and> line_start s p \<and> (\<forall>j. p \<le> j \<and> j < i \<longrightarrow> s ! j \<noteq> lf)"

lemma line_at_self: "line_start s p \<Longrightarrow> line_at s p p"
  by (auto simp: line_at_def dest: leD)

lemma line_at_no_later_start:
  assumes "line_at s i p" "line_start s q" "p < q"
  shows "i < q"
proof (rule ccontr)
  assume "\<not> i < q"
  with assms(3) have "p \<le> q - 1" "q - 1 < i" by auto
  with assms show False by (auto simp: line_at_def line_start_def)
qed

lemma line_at_unique: "line_at s i p \<Longrightarrow> line_at s i q \<Longrightarrow> p = q"
  using line_at_no_later_start [of s i p q] line_at_no_later_start [of s i q p]
  by (fastforce simp: line_at_def)

lemma line_at_before: "line_at s i p \<Longrightarrow> p \<le> j \<Longrightarrow> j \<le> i \<Longrightarrow> line_at s j p"
  by (auto simp: line_at_def)

lemma length_takeWhile_neq: "c \<in> set t \<Longrightarrow> length (takeWhile ((\<noteq>) c) t) < length t"
  by (induction t) auto

lemma last_index_byte_Some:
  "last_index_byte t c = Some k \<Longrightarrow> k < length t \<and> t ! k = c \<and> (\<forall>j. k < j \<and> j < length t \<longrightarrow> t ! j \<noteq> c)"
proof -
  assume k: "last_index_byte t c = Some k"
  then have c: "c \<in> set (rev t)" by (auto simp: last_index_byte_def split: if_splits)
  let ?n = "length (takeWhile ((\<noteq>) c) (rev t))"
  from c have n: "?n < length (rev t)" by (rule length_takeWhile_neq)
  then have hit: "rev t ! ?n = c" using nth_length_takeWhile [of "(\<noteq>) c" "rev t"] by simp
  have before: "rev t ! j \<noteq> c" if "j < ?n" for j
    using that nth_mem [of j "takeWhile ((\<noteq>) c) (rev t)"] set_takeWhileD takeWhile_nth by fastforce
  from k c have k: "k = length t - 1 - ?n" by (simp add: last_index_byte_def)
  with n hit have "t ! k = c" by (simp add: rev_nth)
  moreover have "t ! j \<noteq> c" if "k < j" "j < length t" for j
    using before [of "length t - 1 - j"] that k n by (simp add: rev_nth)
  ultimately show ?thesis using k n by auto
qed

lemma last_index_byte_None: "last_index_byte t c = None \<longleftrightarrow> c \<notin> set t"
  by (simp add: last_index_byte_def)

lemma index_byte_Some:
  "index_byte t c = Some k \<Longrightarrow> k < length t \<and> t ! k = c \<and> (\<forall>j < k. t ! j \<noteq> c)"
proof -
  assume k: "index_byte t c = Some k"
  then have c: "c \<in> set t" and kn: "k = length (takeWhile ((\<noteq>) c) t)"
    by (auto simp: index_byte_def split: if_splits)
  from c have "k < length t" unfolding kn by (rule length_takeWhile_neq)
  then have "t ! k = c" using nth_length_takeWhile [of "(\<noteq>) c" t] kn by simp
  moreover have "t ! j \<noteq> c" if "j < k" for j
    using that nth_mem [of j "takeWhile ((\<noteq>) c) t"] set_takeWhileD takeWhile_nth unfolding kn by fastforce
  ultimately show ?thesis using \<open>k < length t\<close> by blast
qed

lemma index_byte_None: "index_byte t c = None \<longleftrightarrow> c \<notin> set t"
  by (simp add: index_byte_def)

lemma index_of_Some:
  "index_of t p = Some k \<Longrightarrow> k \<le> length t \<and> has_prefix (drop k t) p \<and> (\<forall>j < k. \<not> has_prefix (drop j t) p)"
proof (induction t arbitrary: k)
  case Nil then show ?case by (subst (asm) index_of.simps) (auto split: if_splits)
next
  case (Cons c cs)
  show ?case
  proof (cases "has_prefix (c # cs) p")
    case True with Cons.prems show ?thesis by (subst (asm) index_of.simps) auto
  next
    case False
    with Cons.prems obtain k' where "index_of cs p = Some k'" "k = Suc k'"
      by (subst (asm) index_of.simps) auto
    with Cons.IH [of k'] False show ?thesis by (auto simp: less_Suc_eq_0_disj)
  qed
qed

lemma index_of_None: "index_of t p = None \<Longrightarrow> j \<le> length t \<Longrightarrow> \<not> has_prefix (drop j t) p"
proof (induction t arbitrary: j)
  case Nil then show ?case by (subst (asm) index_of.simps) (auto split: if_splits)
next
  case (Cons c cs)
  then have "\<not> has_prefix (c # cs) p" "index_of cs p = None"
    by (subst (asm) (2) index_of.simps, auto split: if_splits)+
  with Cons show ?case by (cases j) auto
qed

lemma move_line_start_at:
  assumes "line_at s pos p" "pos \<le> i" "i \<le> length s"
  shows "line_at s i (move_line_start s pos i p)"
proof (cases "last_index_byte (slice s pos i) lf")
  case None
  then have "\<forall>j. pos \<le> j \<and> j < i \<longrightarrow> s ! j \<noteq> lf"
    using assms(3) by (auto simp: last_index_byte_None in_slice)
  with assms None show ?thesis by (auto simp: move_line_start_def line_at_def) (metis not_le)
next
  case (Some k)
  from last_index_byte_Some [OF Some] assms(2,3)
  have k: "k < i - pos" "s ! (pos + k) = lf" "\<forall>j. k < j \<and> j < i - pos \<longrightarrow> s ! (pos + j) \<noteq> lf"
    by (auto simp: length_slice nth_slice)
  have "s ! j \<noteq> lf" if "pos + k + 1 \<le> j" "j < i" for j
  proof -
    from that k(1) have "k < j - pos \<and> j - pos < i - pos" "pos + (j - pos) = j" by linarith+
    with k(3) show ?thesis by metis
  qed
  with k Some show ?thesis by (auto simp: move_line_start_def line_at_def line_start_def)
qed

lemma has_prefix_length: "has_prefix s p \<Longrightarrow> length p \<le> length s"
  by (induction s p rule: has_prefix.induct) auto

lemma has_prefix_hd: "has_prefix s p \<Longrightarrow> p \<noteq> [] \<Longrightarrow> s \<noteq> [] \<and> hd s = hd p"
  by (cases s; cases p) auto

lemma lf_not_blank [simp]: "\<not> is_blank lf"
  by (simp add: is_blank_def lf_def)

lemma cr_not_blank [simp]: "\<not> is_blank cr" "cr \<noteq> lf" "lf \<noteq> cr"
  by (simp_all add: is_blank_def cr_def lf_def)

text \<open>Blanks from one position to another, and what \<open>skip_blanks\<close> stops at.\<close>

lemma skip_blanks_at:
  assumes "p \<le> i" "i < length s" "blanks (slice s p i)" "\<not> is_blank (s ! i)"
  shows "skip_blanks (drop p s) = drop i s"
proof -
  have "drop p s = slice s p i @ drop i s" using assms(1) by (simp add: slice_drop)
  moreover have "dropWhile is_blank (slice s p i @ drop i s) = drop i s"
    using assms(2-4) by (simp add: blanks_def list_all_iff Cons_nth_drop_Suc [symmetric] dropWhile_append)
  ultimately show ?thesis by (simp add: skip_blanks_def)
qed

lemma skip_blanks_found:
  assumes "p \<le> length s" "skip_blanks (drop p s) \<noteq> []"
  obtains i where "p \<le> i" "i < length s" "blanks (slice s p i)" "skip_blanks (drop p s) = drop i s"
    "\<not> is_blank (s ! i)"
proof -
  define n where "n = length (takeWhile is_blank (drop p s))"
  have rest: "skip_blanks (drop p s) = drop (p + n) s"
    by (simp add: skip_blanks_def n_def dropWhile_eq_drop add.commute)
  then have len: "p + n < length s" using assms(2) by simp
  have "slice s p (p + n) = takeWhile is_blank (drop p s)"
    by (simp add: slice_def n_def takeWhile_eq_take [symmetric])
  then have "blanks (slice s p (p + n))" by (auto simp: blanks_def list_all_iff dest: set_takeWhileD)
  moreover have "\<not> is_blank (s ! (p + n))"
    using nth_length_takeWhile [of is_blank "drop p s"] len by (simp add: n_def)
  ultimately show ?thesis using that [of "p + n"] rest len by simp
qed

lemma line_at_blanks:
  "line_start s p \<Longrightarrow> p \<le> i \<Longrightarrow> i \<le> length s \<Longrightarrow> blanks (slice s p i) \<Longrightarrow> line_at s i p"
  by (auto simp: line_at_def blanks_slice)

subsection \<open>The closing line\<close>

text \<open>The reference: at every line start in turn, what the expression matches from there on.\<close>

definition close_line :: "string \<Rightarrow> string \<Rightarrow> string option" where
  "close_line marker s = do { r \<leftarrow> eat marker (skip_blanks s); line_tail r }"

function first_line_match :: "(string \<Rightarrow> string option) \<Rightarrow> string \<Rightarrow> nat \<Rightarrow> (nat \<times> nat) option" where
  "first_line_match m s p =
     (if length s < p then None
      else case (if line_start s p then m (drop p s) else None) of
        Some r \<Rightarrow> Some (p, length s - length r)
      | None \<Rightarrow> first_line_match m s (p + 1))"
  by pat_completeness auto
termination by (relation "measure (\<lambda>(m, s, p). Suc (length s) - p)") auto

declare first_line_match.simps [simp del]

lemma first_line_match_None:
  "(\<And>q. p \<le> q \<Longrightarrow> q \<le> length s \<Longrightarrow> line_start s q \<Longrightarrow> m (drop q s) = None) \<Longrightarrow> first_line_match m s p = None"
proof (induction m s p rule: first_line_match.induct)
  case (1 m s p)
  show ?case
  proof (cases "length s < p")
    case False
    then have none: "(if line_start s p then m (drop p s) else None) = None" using 1(2) by simp
    have "first_line_match m s (p + 1) = None" using 1(1) [OF False none] 1(2) by simp
    with none False show ?thesis by (subst first_line_match.simps) simp
  qed (simp add: first_line_match.simps)
qed

lemma first_line_match_Some:
  "p \<le> a \<Longrightarrow> a \<le> length s \<Longrightarrow> line_start s a \<Longrightarrow> m (drop a s) = Some r \<Longrightarrow>
   (\<And>q. p \<le> q \<Longrightarrow> q < a \<Longrightarrow> line_start s q \<Longrightarrow> m (drop q s) = None) \<Longrightarrow>
   first_line_match m s p = Some (a, length s - length r)"
proof (induction m s p rule: first_line_match.induct)
  case (1 m s p)
  show ?case
  proof (cases "p = a")
    case True
    with 1 show ?thesis by (subst first_line_match.simps) simp
  next
    case False
    then have p: "\<not> length s < p" "p < a" using 1 by auto
    then have none: "(if line_start s p then m (drop p s) else None) = None" using 1(6) by simp
    have "first_line_match m s (p + 1) = Some (a, length s - length r)"
      using 1(1) [OF p(1) none] 1(3-6) p(2) by simp
    with none p show ?thesis by (subst first_line_match.simps) simp
  qed
qed

text \<open>The end of the line is looked for in the same way by both.\<close>

lemma skip_blanks_drop: "skip_blanks (drop e s) = drop (e + length (takeWhile is_blank (drop e s))) s"
  by (simp add: skip_blanks_def dropWhile_eq_drop add.commute)

lemma line_tail_close_end:
  assumes "e \<le> length s"
  shows "line_tail (drop e s) = map_option (\<lambda>b. drop b s) (close_end s e)"
proof -
  define e1 where "e1 = e + length (takeWhile is_blank (drop e s))"
  define e2 where "e2 = (if e1 < length s \<and> s ! e1 = cr then e1 + 1 else e1)"
  have e1: "e1 \<le> length s" using assms length_takeWhile_le [of is_blank "drop e s"] by (simp add: e1_def)
  then have e2: "e2 \<le> length s" by (simp add: e2_def)
  have r2: "(if drop e1 s \<noteq> [] \<and> hd (drop e1 s) = cr then tl (drop e1 s) else drop e1 s) = drop e2 s"
    by (auto simp: e2_def hd_drop_conv_nth drop_Suc tl_drop)
  show ?thesis
    unfolding line_tail_def close_end_def Let_def skip_blanks_drop e1_def [symmetric] r2 e2_def [symmetric]
    using e2 by (auto simp: hd_drop_conv_nth drop_Suc tl_drop)
qed

lemma close_end_bounds: "close_end s e = Some b \<Longrightarrow> e \<le> length s \<Longrightarrow> e \<le> b \<and> b \<le> length s"
  using length_takeWhile_le [of is_blank "drop e s"] by (auto simp: close_end_def Let_def split: if_splits)

text \<open>\<open>closes_at s marker i\<close>: the marker occurs at \<open>i\<close>, alone on its line.\<close>

definition closes_at :: "string \<Rightarrow> string \<Rightarrow> nat \<Rightarrow> nat \<Rightarrow> nat \<Rightarrow> bool" where
  "closes_at s marker i a b \<longleftrightarrow>
     i < length s \<and> has_prefix (drop i s) marker \<and> line_at s i a \<and> blanks (slice s a i) \<and>
     close_end s (i + length marker) = Some b"

lemma closes_at_line:
  assumes marker: "marker \<noteq> []" "\<not> is_blank (hd marker)"
    and c: "closes_at s marker i a b"
  shows "line_start s a" "a \<le> i" "b \<le> length s" "close_line marker (drop a s) = Some (drop b s)"
proof -
  from c have i: "i < length s" "has_prefix (drop i s) marker" "line_at s i a" "blanks (slice s a i)"
      "close_end s (i + length marker) = Some b"
    by (auto simp: closes_at_def)
  show "line_start s a" "a \<le> i" using i(3) by (auto simp: line_at_def)
  have len: "i + length marker \<le> length s" using has_prefix_length [OF i(2)] i(1) by simp
  show "b \<le> length s" using close_end_bounds [OF i(5) len] by simp
  have "\<not> is_blank (s ! i)"
    using has_prefix_hd [OF i(2) marker(1)] i(1) marker(2) by (simp add: hd_drop_conv_nth)
  from skip_blanks_at [OF \<open>a \<le> i\<close> i(1,4) this]
  show "close_line marker (drop a s) = Some (drop b s)"
    using i(2,5) line_tail_close_end [OF len] by (simp add: close_line_def eat_def add.commute)
qed

lemma close_line_found:
  assumes "marker \<noteq> []" "line_start s a" "a \<le> length s" "close_line marker (drop a s) = Some r"
  obtains i b where "closes_at s marker i a b" "r = drop b s"
proof -
  from assms(4) have pre: "has_prefix (skip_blanks (drop a s)) marker"
      and tail: "line_tail (drop (length marker) (skip_blanks (drop a s))) = Some r"
    by (auto simp: close_line_def eat_def bind_eq_Some_conv split: if_splits)
  then have "skip_blanks (drop a s) \<noteq> []" using has_prefix_hd assms(1) by blast
  then obtain i where i: "a \<le> i" "i < length s" "blanks (slice s a i)" "skip_blanks (drop a s) = drop i s"
    by (rule skip_blanks_found [OF assms(3)])
  have len: "i + length marker \<le> length s" using has_prefix_length [of "drop i s" marker] pre i by simp
  from tail obtain b where b: "close_end s (i + length marker) = Some b" "r = drop b s"
    using line_tail_close_end [OF len] i(4) by (auto simp: add.commute)
  have "line_at s i a" using line_at_blanks [OF assms(2)] i by simp
  with b i pre show ?thesis by (intro that [of i b]) (auto simp: closes_at_def)
qed

text \<open>What the scanner finds: the first occurrence of the marker alone on its line.\<close>

lemma closes_at_here:
  "line_at s i a \<Longrightarrow> closes_at s marker i a' b \<Longrightarrow> a' = a"
  using line_at_unique by (auto simp: closes_at_def)

definition first_close :: "string \<Rightarrow> string \<Rightarrow> nat \<Rightarrow> (nat \<times> nat) option \<Rightarrow> bool" where
  "first_close s marker pos res \<longleftrightarrow>
     (case res of
        None \<Rightarrow> \<forall>i a b. pos \<le> i \<longrightarrow> \<not> closes_at s marker i a b
      | Some (a, b) \<Rightarrow>
          \<exists>i. pos \<le> i \<and> closes_at s marker i a b \<and> (\<forall>j a b. pos \<le> j \<and> j < i \<longrightarrow> \<not> closes_at s marker j a b))"

lemma first_close_later:
  assumes "first_close s marker (i + 1) res" "pos \<le> i"
    and no: "\<And>j a b. pos \<le> j \<Longrightarrow> j < i + 1 \<Longrightarrow> \<not> closes_at s marker j a b"
  shows "first_close s marker pos res"
proof -
  have split: "i + 1 \<le> j" if "pos \<le> j" "closes_at s marker j a b" for j a b
    using no [OF that(1)] that(2) by (metis not_le)
  show ?thesis
  proof (cases res)
    case None
    with assms(1) split show ?thesis by (auto simp: first_close_def)
  next
    case (Some ab)
    with assms(1) obtain j where j: "i + 1 \<le> j" "closes_at s marker j (fst ab) (snd ab)"
        "\<forall>k a b. i + 1 \<le> k \<and> k < j \<longrightarrow> \<not> closes_at s marker k a b"
      by (auto simp: first_close_def split: prod.splits)
    have "pos \<le> j" using j(1) assms(2) by simp
    moreover have "\<forall>k a b. pos \<le> k \<and> k < j \<longrightarrow> \<not> closes_at s marker k a b"
      using j(3) split by blast
    ultimately show ?thesis using j(2) Some by (auto simp: first_close_def split: prod.splits)
  qed
qed

lemma find_close_from_first:
  assumes "marker \<noteq> []" "hd marker \<noteq> lf" "line_at s pos l" "pos \<le> length s"
  shows "first_close s marker pos (find_close_from s marker l pos)"
  using assms
proof (induction s marker l pos rule: find_close_from.induct)
  case (1 s marker l pos)
  then have le: "\<not> length s < pos" by simp
  show ?case
  proof (cases "index_of (drop pos s) marker")
    case None
    have "\<not> closes_at s marker i a b" if "pos \<le> i" for i a b
    proof
      assume "closes_at s marker i a b"
      then have "i < length s" "has_prefix (drop (i - pos) (drop pos s)) marker"
        using that by (auto simp: closes_at_def)
      then show False using index_of_None [OF None, of "i - pos"] diff_le_mono [of i "length s" pos] by simp
    qed
    then show ?thesis using None le by (subst find_close_from.simps) (simp add: first_close_def)
  next
    case (Some k)
    define i where "i = pos + k"
    define l' where "l' = move_line_start s pos i l"
    from index_of_Some [OF Some] le have pre: "has_prefix (drop i s) marker" "i \<le> length s" "pos \<le> i"
      by (auto simp: i_def add.commute)
    have first: "\<not> closes_at s marker j a b" if "pos \<le> j" "j < i" for j a b
    proof -
      have "j - pos < k" "drop (j - pos) (drop pos s) = drop j s" using that by (auto simp: i_def)
      then show ?thesis using index_of_Some [OF Some] by (metis closes_at_def)
    qed
    have i: "i < length s" "s ! i = hd marker"
      using has_prefix_hd [OF pre(1) 1(3)] pre(2) by (auto simp: hd_drop_conv_nth)
    have at: "line_at s i l'" using move_line_start_at [OF 1(5)] pre by (simp add: l'_def)
    have at1: "line_at s (i + 1) l'"
      using at i(2) 1(4) by (auto simp: line_at_def less_Suc_eq)
    have unfold: "find_close_from s marker l pos =
        (if \<not> blanks (slice s l' i) then find_close_from s marker l' (i + 1)
         else case close_end s (i + length marker) of
           Some e \<Rightarrow> Some (l', e) | None \<Rightarrow> find_close_from s marker l' (i + 1))"
      unfolding l'_def i_def using Some le by (subst find_close_from.simps) (simp add: Let_def)
    show ?thesis
    proof (cases "blanks (slice s l' i) \<and> close_end s (i + length marker) \<noteq> None")
      case True
      then obtain b where b: "close_end s (i + length marker) = Some b" by blast
      with at True pre i have "closes_at s marker i l' b" by (simp add: closes_at_def)
      then have "first_close s marker pos (Some (l', b))"
        using first pre(3) by (auto simp: first_close_def intro!: exI [of _ i])
      with b True show ?thesis by (simp add: unfold)
    next
      case False
      then have res: "find_close_from s marker l pos = find_close_from s marker l' (i + 1)"
        by (auto simp: unfold)
      have "first_close s marker (i + 1) (find_close_from s marker l' (i + 1))"
      proof (cases "blanks (slice s l' i)")
        case True
        with False have none: "close_end s (i + length marker) = None" by simp
        show ?thesis using 1(2) [OF le Some i_def l'_def _ none] True 1(3,4) at1 i(1) by simp
      next
        case blank: False
        show ?thesis using 1(1) [OF le Some i_def l'_def blank] 1(3,4) at1 i(1) by simp
      qed
      moreover have "\<not> closes_at s marker i a b" for a b
        using False line_at_unique [OF at] by (auto simp: closes_at_def)
      ultimately show ?thesis unfolding res
        using first_close_later [of s marker i _ pos] first pre(3) by (metis Suc_eq_plus1 less_SucE)
    qed
  qed
qed

theorem find_close_line_is_regexp:
  assumes "marker \<noteq> []" "\<not> is_blank (hd marker)" "hd marker \<noteq> lf"
  shows "find_close_line s marker = first_line_match (close_line marker) s 0"
proof -
  have "first_close s marker 0 (find_close_line s marker)"
    unfolding find_close_line_def
    by (rule find_close_from_first [OF assms(1,3)]) (auto simp: line_at_def line_start_def)
  then show ?thesis
  proof (cases "find_close_line s marker")
    case None
    then have "close_line marker (drop q s) = None" if "q \<le> length s" "line_start s q" for q
      using \<open>first_close s marker 0 _\<close> close_line_found [OF assms(1) that(2,1)]
      by (auto simp: first_close_def) (metis not_None_eq)
    then show ?thesis using None first_line_match_None [of 0 s "close_line marker"] by simp
  next
    case (Some ab)
    obtain a b where ab: "ab = (a, b)" by (cases ab)
    with Some \<open>first_close s marker 0 _\<close> obtain i where i: "closes_at s marker i a b"
        "\<And>j a b. j < i \<Longrightarrow> \<not> closes_at s marker j a b"
      by (auto simp: first_close_def)
    note line = closes_at_line [OF assms(1,2) i(1)]
    have "a \<le> length s" using line(2) i(1) by (simp add: closes_at_def)
    have none: "close_line marker (drop q s) = None" if q: "q < a" "line_start s q" for q
    proof (rule ccontr)
      assume "close_line marker (drop q s) \<noteq> None"
      then obtain r where r: "close_line marker (drop q s) = Some r" by blast
      have "q \<le> length s" using q(1) \<open>a \<le> length s\<close> by simp
      then obtain j b' where j: "closes_at s marker j q b'" using close_line_found [OF assms(1) q(2) _ r] by blast
      then have "j < a" using line_at_no_later_start [of s j q a] line(1) q(1) by (auto simp: closes_at_def)
      with i(2) j line(2) show False by (meson less_le_trans)
    qed
    have "first_line_match (close_line marker) s 0 = Some (a, length s - length (drop b s))"
      by (rule first_line_match_Some) (use \<open>a \<le> length s\<close> line none in auto)
    with Some ab line(3) show ?thesis by simp
  qed
qed

subsection \<open>Control lines\<close>

text \<open>The reference: all the matches, each looked for from where the one before ends.\<close>

function all_line_matches :: "(string \<Rightarrow> ('a \<times> string) option) \<Rightarrow> string \<Rightarrow> nat \<Rightarrow> (nat \<times> nat \<times> 'a) list" where
  "all_line_matches m s p =
     (if length s \<le> p then []
      else case (if line_start s p then m (drop p s) else None) of
        Some (c, r) \<Rightarrow> (p, length s - length r, c) # all_line_matches m s (max (p + 1) (length s - length r))
      | None \<Rightarrow> all_line_matches m s (p + 1))"
  by pat_completeness auto
termination by (relation "measure (\<lambda>(m, s, p). length s - p)") auto

declare all_line_matches.simps [simp del]

lemma all_line_matches_skip:
  "a \<le> b \<Longrightarrow> b \<le> length s \<Longrightarrow> (\<And>p. a \<le> p \<Longrightarrow> p < b \<Longrightarrow> line_start s p \<Longrightarrow> m (drop p s) = None) \<Longrightarrow>
   all_line_matches m s a = all_line_matches m s b"
proof (induction "b - a" arbitrary: a)
  case (Suc n)
  then have a: "a < b" by simp
  then have none: "(if line_start s a then m (drop a s) else None) = None" using Suc.prems(3) [of a] by simp
  have "all_line_matches m s (a + 1) = all_line_matches m s b"
    using Suc a by (intro Suc.hyps(1)) auto
  then show ?case using a Suc.prems(2) none by (subst all_line_matches.simps) simp
qed simp

text \<open>A control line is decided by its own line: what comes after the line feed does not matter.\<close>

lemma eat_more: "lf \<notin> set p \<Longrightarrow> eat p (l @ lf # t) = map_option (\<lambda>r. r @ lf # t) (eat p l)"
proof -
  have "has_prefix (l @ lf # t) p = has_prefix l p" if "lf \<notin> set p"
    using that by (induction l p rule: has_prefix.induct) (auto, (case_tac ps; simp)?)
  moreover assume "lf \<notin> set p"
  ultimately show ?thesis by (auto simp: eat_def dest: has_prefix_length)
qed

lemma eat_set: "eat p s = Some r \<Longrightarrow> set r \<subseteq> set s"
  by (auto simp: eat_def split: if_splits dest: in_set_dropD)

lemma takeWhile_more: "\<not> P lf \<Longrightarrow> takeWhile P (l @ lf # t) = takeWhile P l"
  by (induction l) auto

lemma dropWhile_more: "\<not> P lf \<Longrightarrow> dropWhile P (l @ lf # t) = dropWhile P l @ lf # t"
  by (induction l) auto

lemma drop_takeWhile_more:
  "drop (length (takeWhile P l)) (l @ lf # t) = drop (length (takeWhile P l)) l @ lf # t"
  using length_takeWhile_le [of P l] by simp

lemma literal_more [simp]:
  "eat ''[Thinking]'' (l @ lf # t) = map_option (\<lambda>r. r @ lf # t) (eat ''[Thinking]'' l)"
  "eat ''[Using tool: '' (l @ lf # t) = map_option (\<lambda>r. r @ lf # t) (eat ''[Using tool: '' l)"
  "eat '']'' (l @ lf # t) = map_option (\<lambda>r. r @ lf # t) (eat '']'' l)"
  "eat ''[Tool '' (l @ lf # t) = map_option (\<lambda>r. r @ lf # t) (eat ''[Tool '' l)"
  "eat '' '' (l @ lf # t) = map_option (\<lambda>r. r @ lf # t) (eat '' '' l)"
  "eat ''done'' (l @ lf # t) = map_option (\<lambda>r. r @ lf # t) (eat ''done'' l)"
  "eat ''error'' (l @ lf # t) = map_option (\<lambda>r. r @ lf # t) (eat ''error'' l)"
  "eat ''[Compaction '' (l @ lf # t) = map_option (\<lambda>r. r @ lf # t) (eat ''[Compaction '' l)"
  "eat ''started'' (l @ lf # t) = map_option (\<lambda>r. r @ lf # t) (eat ''started'' l)"
  "eat ''failed'' (l @ lf # t) = map_option (\<lambda>r. r @ lf # t) (eat ''failed'' l)"
  "eat '' | '' (l @ lf # t) = map_option (\<lambda>r. r @ lf # t) (eat '' | '' l)"
  by (rule eat_more, simp add: lf_def)+

lemma re_space_lf [simp]: "re_space lf"
  by (simp add: re_space_def lf_def)

lemma digit_lf [simp]: "\<not> digit lf"
  by (simp add: digit_def lf_def)

lemma take_more: "takeWhile P a @ b @ lf # t = (takeWhile P a @ b) @ lf # t"
  by simp

lemma drop_more:
  "drop (length (takeWhile P l)) (l @ lf # t) = drop (length (takeWhile P l)) l @ lf # t"
  using length_takeWhile_le [of P l] by simp

lemma using_control_more:
  "using_control (l @ lf # t) = map_option (\<lambda>(c, r). (c, r @ lf # t)) (using_control l)"
proof (cases "eat ''[Using tool: '' l")
  case (Some r)
  then show ?thesis
    by (cases "eat '']'' (drop (length (takeWhile (\<lambda>c. c \<noteq> CHR '']'' \<and> c \<noteq> cr \<and> c \<noteq> lf) r)) r)")
       (simp_all add: using_control_def Let_def takeWhile_more drop_more del: drop_append)
qed (simp add: using_control_def)

lemma tool_control_more:
  "tool_control (l @ lf # t) = map_option (\<lambda>(c, r). (c, r @ lf # t)) (tool_control l)"
proof (cases "eat ''[Tool '' l")
  case (Some r)
  note r = this
  show ?thesis
  proof (cases "eat '' '' (drop (length (takeWhile (\<lambda>c. \<not> re_space c) r)) r)")
    case (Some q)
    with r show ?thesis
      by (cases "eat ''done'' q"; cases "eat ''error'' q"; cases "eat '']'' (the (eat ''done'' q))";
          cases "eat '']'' (the (eat ''error'' q))")
         (simp_all add: tool_control_def Let_def takeWhile_more drop_more del: drop_append)
  qed (use r in \<open>simp add: tool_control_def Let_def takeWhile_more drop_more del: drop_append\<close>)
qed (simp add: tool_control_def)

lemma compaction_state_more:
  "compaction_state (l @ lf # t) = map_option (\<lambda>(c, r). (c, r @ lf # t)) (compaction_state l)"
  by (cases "eat ''started'' l"; cases "eat ''done'' l"; cases "eat ''failed'' l") (simp_all add: compaction_state_def)

lemma compaction_duration_more:
  "compaction_duration (l @ lf # t) = (case compaction_duration l of (n, r) \<Rightarrow> (n, r @ lf # t))"
  by (cases "eat '' | '' l") (simp_all add: compaction_duration_def Let_def takeWhile_more drop_more del: drop_append)

lemma compaction_control_more:
  "compaction_control (l @ lf # t) = map_option (\<lambda>(c, r). (c, r @ lf # t)) (compaction_control l)"
proof (cases "eat ''[Compaction '' l")
  case (Some r)
  note r = this
  show ?thesis
  proof (cases "compaction_state r")
    case (Some q)
    obtain st u where q: "q = (st, u)" by (cases q)
    obtain n v where d: "compaction_duration u = (n, v)" by (cases "compaction_duration u")
    from r Some q d show ?thesis
      by (cases "eat '']'' v") (simp_all add: compaction_control_def compaction_state_more compaction_duration_more)
  qed (use r in \<open>simp add: compaction_control_def compaction_state_more\<close>)
qed (simp add: compaction_control_def)

lemma control_body_more:
  "control_body (l @ lf # t) = map_option (\<lambda>(c, r). (c, r @ lf # t)) (control_body l)"
  by (cases "eat ''[Thinking]'' l"; cases "using_control l"; cases "tool_control l"; cases "compaction_control l")
     (auto simp: control_body_def using_control_more tool_control_more compaction_control_more)

text \<open>What a control leaves is a part of what it was given.\<close>

lemma compaction_duration_set: "compaction_duration s = (n, r) \<Longrightarrow> set r \<subseteq> set s"
  by (auto simp: compaction_duration_def Let_def split: option.splits if_splits dest!: eat_set in_set_dropD)

lemma compaction_state_set: "compaction_state s = Some (c, r) \<Longrightarrow> set r \<subseteq> set s"
  by (auto simp: compaction_state_def split: option.splits dest!: eat_set)

lemma control_body_set: "control_body s = Some (c, r) \<Longrightarrow> set r \<subseteq> set s"
proof -
  have u: "using_control s = Some (c, r) \<Longrightarrow> set r \<subseteq> set s" for c r
    by (auto simp: using_control_def Let_def bind_eq_Some_conv split: if_splits dest!: eat_set in_set_dropD)
  have k: "compaction_control s = Some (c, r) \<Longrightarrow> set r \<subseteq> set s" for c r
    using compaction_duration_set [OF prod.collapse [symmetric]]
    by (fastforce simp: compaction_control_def bind_eq_Some_conv case_prod_beta
        dest!: eat_set compaction_state_set)
  have t: "tool_control s = Some (c, r) \<Longrightarrow> set r \<subseteq> set s" for c r
    by (auto simp: tool_control_def Let_def bind_eq_Some_conv split: if_splits option.splits
        dest!: eat_set in_set_dropD)
  assume "control_body s = Some (c, r)"
  with u k t show ?thesis
    by (auto simp: control_body_def split: option.splits dest!: eat_set)
qed

lemma control_body_bracket: "control_body s = Some (c, r) \<Longrightarrow> s \<noteq> [] \<and> hd s = CHR ''[''"
  by (cases s) (auto simp: control_body_def using_control_def tool_control_def compaction_control_def eat_def
      bind_eq_Some_conv split: option.splits if_splits)

lemma skip_blanks_more: "skip_blanks (l @ lf # t) = skip_blanks l @ lf # t"
  by (simp add: skip_blanks_def dropWhile_more)

lemma skip_blanks_set: "set (skip_blanks s) \<subseteq> set s"
  by (auto simp: skip_blanks_def dest: set_dropWhileD)

lemma line_tail_line:
  assumes "lf \<notin> set l"
  shows "line_tail (l @ lf # t) = map_option (\<lambda>_. t) (line_tail l)"
    and "line_tail l = Some r \<Longrightarrow> r = []"
proof -
  have no: "lf \<notin> set (skip_blanks l)" using assms skip_blanks_set by blast
  show "line_tail (l @ lf # t) = map_option (\<lambda>_. t) (line_tail l)"
  proof (cases "skip_blanks l")
    case (Cons c cs)
    then show ?thesis using no by (cases cs) (auto simp: line_tail_def Let_def skip_blanks_more)
  qed (simp add: line_tail_def Let_def skip_blanks_more)
  show "line_tail l = Some r \<Longrightarrow> r = []"
  proof (cases "skip_blanks l")
    case (Cons c cs)
    then show "line_tail l = Some r \<Longrightarrow> r = []"
      using no by (cases cs) (auto simp: line_tail_def Let_def split: if_splits)
  qed (simp add: line_tail_def Let_def)
qed

lemma control_line_end:
  assumes "lf \<notin> set l"
  shows "display_control_line (l @ lf # t) = map_option (\<lambda>(c, r). (c, t)) (display_control_line l)"
    and "display_control_line l = Some (c, r) \<Longrightarrow> r = []"
proof -
  have rest: "lf \<notin> set r" if "control_body (skip_blanks l) = Some (c, r)" for c r
    using control_body_set [OF that] skip_blanks_set assms by blast
  show "display_control_line (l @ lf # t) = map_option (\<lambda>(c, r). (c, t)) (display_control_line l)"
  proof (cases "control_body (skip_blanks l)")
    case (Some cr')
    obtain c r where cr': "cr' = (c, r)" by (cases cr')
    show ?thesis
      using Some line_tail_line(1) [OF rest [OF Some [unfolded cr']], of t]
      by (cases "line_tail r") (simp_all add: cr' display_control_line_def skip_blanks_more control_body_more)
  qed (simp add: display_control_line_def skip_blanks_more control_body_more)
  show "display_control_line l = Some (c, r) \<Longrightarrow> r = []"
    using rest line_tail_line(2) by (auto simp: display_control_line_def bind_eq_Some_conv)
qed

lemma control_line_found:
  assumes "line_start s p" "p \<le> length s" "display_control_line (drop p s) \<noteq> None"
  obtains i where "line_at s i p" "i < length s" "s ! i = CHR ''[''" "blanks (slice s p i)"
proof -
  from assms(3) obtain c r where b: "control_body (skip_blanks (drop p s)) = Some (c, r)"
    by (auto simp: display_control_line_def bind_eq_Some_conv)
  note bracket = control_body_bracket [OF b]
  then obtain i where i: "p \<le> i" "i < length s" "blanks (slice s p i)" "skip_blanks (drop p s) = drop i s"
    using skip_blanks_found [OF assms(2)] by metis
  have "s ! i = CHR ''[''" using bracket i(2,4) by (simp add: hd_drop_conv_nth)
  then show ?thesis using that [of i] i line_at_blanks [OF assms(1)] by simp
qed

text \<open>The line a position is on, as the scanner cuts it out, and the match on it.\<close>

definition line_end_at :: "string \<Rightarrow> nat \<Rightarrow> nat" where
  "line_end_at s i = (case index_byte (drop i s) lf of Some j \<Rightarrow> i + j + 1 | None \<Rightarrow> length s)"

lemma line_end_at_props:
  assumes "i < length s"
  shows "i < line_end_at s i" "line_end_at s i \<le> length s"
    "\<And>q. i < q \<Longrightarrow> q < line_end_at s i \<Longrightarrow> \<not> line_start s q"
    "line_end_at s i < length s \<Longrightarrow> line_start s (line_end_at s i)"
proof -
  have "i < line_end_at s i \<and> line_end_at s i \<le> length s \<and>
     (\<forall>q. i < q \<and> q < line_end_at s i \<longrightarrow> \<not> line_start s q) \<and>
     (line_end_at s i < length s \<longrightarrow> line_start s (line_end_at s i))"
  proof (cases "index_byte (drop i s) lf")
    case None
    then have "s ! j \<noteq> lf" if "i \<le> j" "j < length s" for j
      using that nth_mem [of "j - i" "drop i s"] diff_less_mono [of j "length s" i] by (auto simp: index_byte_None)
    with None assms show ?thesis by (auto simp: line_end_at_def line_start_def)
  next
    case (Some k)
    from index_byte_Some [OF Some] have k: "i + k < length s" "s ! (i + k) = lf"
      and before: "\<And>j. j < k \<Longrightarrow> s ! (i + j) \<noteq> lf" by auto
    have "s ! j \<noteq> lf" if "i \<le> j" "j < i + k" for j
      using before [of "j - i"] that by simp
    with Some k show ?thesis by (auto simp: line_end_at_def line_start_def)
  qed
  then show "i < line_end_at s i" "line_end_at s i \<le> length s"
    "\<And>q. i < q \<Longrightarrow> q < line_end_at s i \<Longrightarrow> \<not> line_start s q"
    "line_end_at s i < length s \<Longrightarrow> line_start s (line_end_at s i)"
    by blast+
qed

lemma control_on_own_line:
  assumes "line_at s i p" "i < length s"
  shows "display_control_line (drop p s) =
      map_option (\<lambda>(c, r). (c, drop (line_end_at s i) s)) (display_control_line (slice s p (line_end_at s i)))"
    and "display_control_line (slice s p (line_end_at s i)) = Some (c, r) \<Longrightarrow> r = []"
proof -
  have p: "p \<le> i" and nolf: "\<And>j. p \<le> j \<Longrightarrow> j < i \<Longrightarrow> s ! j \<noteq> lf" using assms(1) by (auto simp: line_at_def)
  have "display_control_line (drop p s) =
      map_option (\<lambda>(c, r). (c, drop (line_end_at s i) s)) (display_control_line (slice s p (line_end_at s i))) \<and>
    (display_control_line (slice s p (line_end_at s i)) = Some (c, r) \<longrightarrow> r = [])"
  proof (cases "index_byte (drop i s) lf")
    case None
    then have e: "line_end_at s i = length s" by (simp add: line_end_at_def)
    have "lf \<notin> set (drop i s)" using None by (simp add: index_byte_None)
    moreover have "lf \<notin> set (slice s p i)" using nolf assms(2) by (auto simp: in_slice)
    ultimately have "lf \<notin> set (drop p s)" using slice_drop [OF p, of s] by (metis Un_iff set_append)
    moreover have "slice s p (length s) = drop p s" by (simp add: slice_def)
    ultimately show ?thesis using control_line_end(2) [of "drop p s"] e
      by (auto simp: option.map_ident split: option.splits) (cases "display_control_line (drop p s)"; auto)
  next
    case (Some k)
    from index_byte_Some [OF Some] have k: "i + k < length s" "s ! (i + k) = lf"
      and before: "\<And>j. j < k \<Longrightarrow> s ! (i + j) \<noteq> lf" by auto
    let ?l = "slice s p (i + k)"
    have no: "lf \<notin> set ?l"
    proof
      assume "lf \<in> set ?l"
      then obtain j where "p \<le> j" "j < i + k" "s ! j = lf" using k by (auto simp: in_slice)
      moreover from this have "j - i < k" if "\<not> j < i" using that by linarith
      ultimately show False using nolf [of j] before [of "j - i"] by (cases "j < i") auto
    qed
    have e: "line_end_at s i = i + k + 1" using Some by (simp add: line_end_at_def)
    have line: "slice s p (line_end_at s i) = ?l @ [lf]"
      using p k unfolding e by (simp add: slice_def Suc_diff_le take_Suc_conv_app_nth)
    have "drop p s = ?l @ lf # drop (line_end_at s i) s"
      using slice_drop [of p "i + k" s] p k e by (simp add: Cons_nth_drop_Suc [symmetric])
    then show ?thesis
      using control_line_end(1) [OF no] unfolding line
      by (cases "display_control_line ?l") auto
  qed
  then show "display_control_line (drop p s) =
      map_option (\<lambda>(c, r). (c, drop (line_end_at s i) s)) (display_control_line (slice s p (line_end_at s i)))"
    "display_control_line (slice s p (line_end_at s i)) = Some (c, r) \<Longrightarrow> r = []"
    by blast+
qed

subsection \<open>The control scanner\<close>

text \<open>An opening bracket with nothing but blanks before it on its line.\<close>

definition bracket_at :: "string \<Rightarrow> nat \<Rightarrow> nat \<Rightarrow> bool" where
  "bracket_at s i p \<longleftrightarrow> i < length s \<and> s ! i = CHR ''['' \<and> line_at s i p \<and> blanks (slice s p i)"

lemma no_bracket_no_control:
  assumes "\<And>i q. a \<le> q \<Longrightarrow> q < b \<Longrightarrow> \<not> bracket_at s i q" "a \<le> b" "b \<le> length s"
  shows "all_line_matches display_control_line s a = all_line_matches display_control_line s b"
proof (rule all_line_matches_skip [OF assms(2,3)])
  fix p
  assume p: "a \<le> p" "p < b" "line_start s p"
  show "display_control_line (drop p s) = None"
  proof (rule ccontr)
    assume m: "display_control_line (drop p s) \<noteq> None"
    have "p \<le> length s" using p(2) assms(3) by simp
    from control_line_found [OF p(3) this m] obtain i where "bracket_at s i p" by (metis bracket_at_def)
    with assms(1) p show False by blast
  qed
qed

lemma find_controls_from_all:
  assumes "line_at s pos l" "pos \<le> length s" "\<And>i. i < pos \<Longrightarrow> \<not> bracket_at s i l"
  shows "find_controls_from s l pos = all_line_matches display_control_line s l"
  using assms
proof (induction s l pos rule: find_controls_from.induct)
  case (1 s l pos)
  have later: "pos \<le> i" if "bracket_at s i q" "l \<le> q" for i q
  proof (cases "q = l")
    case True with that 1(5) show ?thesis by (metis not_le)
  next
    case False
    with that line_at_no_later_start [OF 1(3), of q] show ?thesis by (auto simp: bracket_at_def line_at_def)
  qed
  have l: "l \<le> pos" using 1(3) by (simp add: line_at_def)
  show ?case
  proof (cases "index_byte (drop pos s) (CHR ''['')")
    case None
    have "\<not> bracket_at s i q" if "l \<le> q" for i q
    proof
      assume b: "bracket_at s i q"
      then have "pos \<le> i" "i < length s" using later [OF b that] by (auto simp: bracket_at_def)
      then have "s ! i \<in> set (drop pos s)"
        using nth_mem [of "i - pos" "drop pos s"] diff_less_mono [of i "length s" pos] by simp
      with b None show False by (simp add: index_byte_None bracket_at_def)
    qed
    then have "all_line_matches display_control_line s l = all_line_matches display_control_line s (length s)"
      using l 1(4) by (intro no_bracket_no_control) auto
    with None show ?thesis by (simp add: find_controls_from.simps [of s l pos] all_line_matches.simps [of _ s "length s"])
  next
    case (Some k)
    define i where "i = pos + k"
    define l' where "l' = move_line_start s pos i l"
    have i: "i < length s" "s ! i = CHR ''[''" "pos \<le> i" "pos < length s"
      and between: "\<And>j. pos \<le> j \<Longrightarrow> j < i \<Longrightarrow> s ! j \<noteq> CHR ''[''"
    proof -
      note found = index_byte_Some [OF Some]
      then show "i < length s" "s ! i = CHR ''[''" "pos \<le> i" "pos < length s" by (auto simp: i_def)
      show "s ! j \<noteq> CHR ''[''" if "pos \<le> j" "j < i" for j
      proof -
        from that have "j - pos < k" "pos + (j - pos) = j" "pos \<le> length s" using found by (auto simp: i_def)
        with found show ?thesis by (metis nth_drop)
      qed
    qed
    have at: "line_at s i l'" using move_line_start_at [OF 1(3) i(3)] i(1) by (simp add: l'_def)
    have only: "j = i" if "bracket_at s j q" "l \<le> q" "j \<le> i" for j q
    proof (rule ccontr)
      assume "j \<noteq> i"
      with that(3) have "j < i" by simp
      with later [OF that(1,2)] between [of j] that(1) show False by (simp add: bracket_at_def)
    qed
    have ll': "l \<le> l'"
      using line_at_no_later_start [OF at, of l] 1(3) i(3) by (force simp: line_at_def)
    have "\<not> bracket_at s j q" if "l \<le> q" "q < l'" for j q
    proof
      assume b: "bracket_at s j q"
      then have "j < l'" using line_at_no_later_start [of s j q l'] at that(2) by (auto simp: bracket_at_def line_at_def)
      with at have "j < i" by (simp add: line_at_def)
      with only [OF b that(1)] show False by simp
    qed
    then have skip: "all_line_matches display_control_line s l = all_line_matches display_control_line s l'"
      using ll' at i(1) by (intro no_bracket_no_control) (auto simp: line_at_def)
    define e where "e = line_end_at s i"
    note ends = line_end_at_props [OF i(1), folded e_def]
    have unfold: "find_controls_from s l pos =
        (if \<not> blanks (slice s l' i) then find_controls_from s l' (i + 1)
         else case display_control_line (slice s l' e) of
           Some (c, r) \<Rightarrow> (l', l' + (length (slice s l' e) - length r), c) # find_controls_from s e e
         | None \<Rightarrow> find_controls_from s e e)"
      unfolding e_def l'_def i_def line_end_at_def using Some i(4)
      by (subst find_controls_from.simps) (simp add: Let_def)
    have e_cases: "find_controls_from s e e = all_line_matches display_control_line s e"
      if "blanks (slice s l' i)"
    proof (cases "e < length s")
      case True
      have "line_start s e" using ends(4) True by simp
      then have "line_at s e e" by (rule line_at_self)
      moreover have "\<not> bracket_at s j e" if "j < e" for j using that by (auto simp: bracket_at_def line_at_def)
      ultimately show ?thesis
        using 1(2) [OF i(4) Some i_def l'_def _ e_def [unfolded line_end_at_def]] that True by auto
    next
      case False
      with ends(2) show ?thesis
        by (subst find_controls_from.simps, subst all_line_matches.simps) simp
    qed
    show ?thesis
    proof (cases "blanks (slice s l' i)")
      case False
      have no: "\<not> bracket_at s j l'" if "j < i + 1" for j
        using only [of j l'] that ll' False by (auto simp: bracket_at_def)
      have "line_at s (i + 1) l'" using at i(2) by (auto simp: line_at_def less_Suc_eq lf_def)
      then have "find_controls_from s l' (i + 1) = all_line_matches display_control_line s l'"
        using 1(1) [OF i(4) Some i_def l'_def False] i(1) no by simp
      with False skip show ?thesis by (simp add: unfold)
    next
      case True
      let ?line = "slice s l' e"
      have l'e: "l' < e" "l' < length s" using at ends(1) i(1) by (auto simp: line_at_def)
      note own = control_on_own_line [OF at i(1), folded e_def]
      show ?thesis
      proof (cases "display_control_line ?line")
        case None
        have "\<not> line_start s q" if "l' < q" "q < e" for q
          using ends(3) [of q] line_at_no_later_start [OF at _ that(1)] that(2) by (metis not_less_iff_gr_or_eq)
        then have "all_line_matches display_control_line s l' = all_line_matches display_control_line s e"
          using own(1) None l'e(1) ends(2)
          by (intro all_line_matches_skip) (auto simp: le_less)
        with None True skip e_cases show ?thesis by (simp add: unfold)
      next
        case (Some m)
        then obtain c where m: "display_control_line ?line = Some (c, [])" using own(2) by (metis prod.collapse)
        then have full: "display_control_line (drop l' s) = Some (c, drop e s)" using own(1) by simp
        have start: "line_start s l'" using at by (simp add: line_at_def)
        have "all_line_matches display_control_line s l' =
            (l', e, c) # all_line_matches display_control_line s e"
          using full start l'e ends(2) by (subst all_line_matches.simps) (simp add: max_absorb2 Suc_leI)
        moreover have "l' + length ?line = e" using ends(2) l'e(1) by (simp add: length_slice)
        ultimately show ?thesis using m True skip e_cases by (simp add: unfold)
      qed
    qed
  qed
qed

theorem find_display_controls_is_regexp:
  "find_display_controls s = all_line_matches display_control_line s 0"
  unfolding find_display_controls_def
  by (rule find_controls_from_all) (auto simp: line_at_def line_start_def)

text \<open>What the parser needs of the matches: each is a piece of the text and not empty.\<close>

lemma control_match_bounds:
  assumes "line_start s p" "p \<le> length s" "display_control_line (drop p s) = Some (c, r)"
  obtains e where "r = drop e s" "p < e" "e \<le> length s"
proof -
  from assms obtain i where i: "line_at s i p" "i < length s" using control_line_found by blast
  have "r = drop (line_end_at s i) s"
    using control_on_own_line(1) [OF i] assms(3)
    by (cases "display_control_line (slice s p (line_end_at s i))") (simp_all add: case_prod_beta)
  moreover have "p < line_end_at s i" "line_end_at s i \<le> length s"
    using line_end_at_props(1,2) [OF i(2)] i(1) by (auto simp: line_at_def)
  ultimately show ?thesis by (rule that)
qed

lemma all_line_matches_bounds:
  "(a, b, c) \<in> set (all_line_matches display_control_line s p) \<Longrightarrow> a < b \<and> b \<le> length s"
proof (induction "display_control_line" s p rule: all_line_matches.induct)
  case (1 s p)
  show ?case
  proof (cases "length s \<le> p \<or> \<not> line_start s p \<or> display_control_line (drop p s) = None")
    case True
    then consider "length s \<le> p" | "\<not> length s \<le> p"
        "(if line_start s p then display_control_line (drop p s) else None) = None"
      by (cases "length s \<le> p") (auto split: if_splits)
    then show ?thesis
    proof cases
      case 1
      with "1.prems" show ?thesis by (simp add: all_line_matches.simps [of _ s p])
    next
      case 2
      with "1.prems" have "(a, b, c) \<in> set (all_line_matches display_control_line s (p + 1))"
        by (simp add: all_line_matches.simps [of _ s p])
      with 2 "1.hyps"(1) show ?thesis by blast
    qed
  next
    case False
    then obtain c' r where m: "display_control_line (drop p s) = Some (c', r)" and p: "\<not> length s \<le> p" "line_start s p"
      by auto
    then obtain e where e: "r = drop e s" "p < e" "e \<le> length s"
      using control_match_bounds [OF p(2) _ m] by auto
    from "1.prems" m p have "(a, b, c) = (p, length s - length r, c') \<or>
        (a, b, c) \<in> set (all_line_matches display_control_line s (max (p + 1) (length s - length r)))"
      by (subst (asm) all_line_matches.simps) simp
    then show ?thesis
    proof
      assume "(a, b, c) = (p, length s - length r, c')"
      with e show ?thesis by simp
    next
      assume "(a, b, c) \<in> set (all_line_matches display_control_line s (max (p + 1) (length s - length r)))"
      with "1.hyps"(2) [OF p(1) _ refl] m p(2) show ?thesis by auto
    qed
  qed
qed

lemma display_control_bounds: "(a, b, c) \<in> set (find_display_controls s) \<Longrightarrow> a < b \<and> b \<le> length s"
  unfolding find_display_controls_is_regexp by (rule all_line_matches_bounds)

lemma find_close_bounds:
  assumes "find_close_line s marker = Some (a, b)" "marker \<noteq> []" "hd marker \<noteq> lf"
  shows "a \<le> b \<and> b \<le> length s"
proof -
  have "first_close s marker 0 (find_close_line s marker)"
    unfolding find_close_line_def
    by (rule find_close_from_first [OF assms(2,3)]) (auto simp: line_at_def line_start_def)
  with assms(1) obtain i where c: "closes_at s marker i a b" by (auto simp: first_close_def)
  then have len: "i + length marker \<le> length s" using has_prefix_length [of "drop i s" marker] by (auto simp: closes_at_def)
  with c close_end_bounds [OF _ len, of b] show ?thesis by (auto simp: closes_at_def line_at_def)
qed

subsection \<open>Nothing is lost\<close>

lemma render_text_item [simp]: "render_item (text_item s) = s"
  by (simp add: render_item_def text_item_def empty_item_def)

lemma display_text_append: "display_text (xs @ ys) = display_text xs @ display_text ys"
  by (simp add: display_text_def)

lemma display_text_Cons: "display_text (x # xs) = render_item x @ display_text xs"
  by (simp add: display_text_def)

lemma display_text_add [simp]: "display_text (add_text s) = s"
  by (simp add: add_text_def display_text_def)

lemma close_item_renders:
  assumes "close_item output e marker item = (it, f)" "marker \<noteq> []" "hd marker \<noteq> lf" "e \<le> length output"
    and "di_prefix item = slice output start e" "start < e" "di_suffix item = []"
  shows "di_prefix it @ di_text it @ di_suffix it = slice output start f" "e \<le> f" "f \<le> length output"
    "di_type it = di_type item" "di_prefix it = di_prefix item"
proof -
  have "di_prefix it @ di_text it @ di_suffix it = slice output start f \<and> e \<le> f \<and> f \<le> length output \<and>
    di_type it = di_type item \<and> di_prefix it = di_prefix item"
  proof (cases "find_close_line (drop e output) marker")
    case None
    have "slice output e (length output) = drop e output" by (simp add: slice_def)
    with None assms slice_append [where s = "output" and a = start and b = e and c = "length output"] show ?thesis
      by (auto simp: close_item_def)
  next
    case (Some ab)
    obtain a b where ab: "ab = (a, b)" by (cases ab)
    from find_close_bounds [OF Some [unfolded ab] assms(2,3)] assms(4)
    have "a \<le> b" "e + b \<le> length output" by auto
    with Some ab assms slice_append [where s = "output" and a = e and b = "e + a" and c = "e + b"] slice_append [where s = "output" and a = start and b = e and c = "e + b"]
    show ?thesis by (auto simp: close_item_def)
  qed
  then show "di_prefix it @ di_text it @ di_suffix it = slice output start f" "e \<le> f" "f \<le> length output"
    "di_type it = di_type item" "di_prefix it = di_prefix item" by blast+
qed

lemma control_item_renders:
  assumes "control_item output (start, e, c) = (it, f)" "start < e" "e \<le> length output"
  shows "render_item it = slice output start f" "e \<le> f" "f \<le> length output"
proof -
  let ?item = "empty_item\<lparr>di_prefix := slice output start e, di_complete := True\<rparr>"
  have pre: "slice output start e \<noteq> []" using assms(2,3) by (simp add: slice_def)
  have "render_item it = slice output start f \<and> e \<le> f \<and> f \<le> length output"
  proof (cases c)
    case Thinking_Control
    with assms(1) have close: "close_item output e ''[/Thinking]'' (?item\<lparr>di_type := ''thinking''\<rparr>) = (it, f)"
      by (simp add: control_item_def)
    note closed = close_item_renders [OF close _ _ assms(3) _ assms(2), simplified lf_def empty_item_def, simplified]
    then show ?thesis using pre by (simp add: render_item_def empty_item_def)
  next
    case (Tool_Control name status)
    let ?tool = "?item\<lparr>di_type := ''tool_result'', di_name := name, di_status := status\<rparr>"
    obtain it' where close: "close_item output e ''[/Tool]'' ?tool = (it', f)" and it: "it = it'\<lparr>di_encoded := True\<rparr>"
      using assms(1) Tool_Control by (auto simp: control_item_def split: prod.splits)
    note closed = close_item_renders [OF close _ _ assms(3) _ assms(2), simplified lf_def empty_item_def, simplified]
    then show ?thesis using pre it by (simp add: render_item_def empty_item_def)
  next
    case (Using_Control g)
    with assms pre show ?thesis
      by (auto simp: control_item_def render_item_def empty_item_def split: prod.splits)
  next
    case (Compaction_Control st n)
    with assms pre show ?thesis by (auto simp: control_item_def render_item_def empty_item_def)
  qed
  then show "render_item it = slice output start f" "e \<le> f" "f \<le> length output" by blast+
qed

lemma parse_from_renders:
  assumes "\<forall>(a, b, c) \<in> set ms. a < b \<and> b \<le> length output" "cursor \<le> length output"
  shows "display_text (parse_from output protected cursor ms) = drop cursor output"
  using assms
proof (induction "output" protected cursor ms rule: parse_from.induct)
  case (2 out protected cursor m ms)
  obtain start e c where m: "m = (start, e, c)" by (cases m)
  show ?case
  proof (cases "start < cursor \<or> position_in_markdown_code protected start")
    case True
    with 2(1) 2(3,4) m show ?thesis by simp
  next
    case False
    obtain it f where item: "control_item out m = (it, f)" by (cases "control_item out m")
    from 2(3) m have se: "start < e" "e \<le> length out" by auto
    note r = control_item_renders [OF item [unfolded m] se]
    have rest: "display_text (parse_from out protected f ms) = drop f out"
      using 2(2) False item 2(3) r(3) m by simp
    have "slice out cursor start @ slice out start f @ drop f out = drop cursor out"
      using False se r(2) by (simp add: slice_drop)
    with False item m rest r(1) show ?thesis
      by (simp add: display_text_append display_text_Cons)
  qed
qed simp

lemma parse_display_renders: "display_text (parse_display s) = normalize_markers s"
proof (cases "find_display_controls (normalize_markers s) = []")
  case True
  then show ?thesis by (simp add: parse_display_def Let_def display_text_def)
next
  case False
  have "\<forall>(a, b, c) \<in> set (find_display_controls (normalize_markers s)). a < b \<and> b \<le> length (normalize_markers s)"
    using display_control_bounds by blast
  from parse_from_renders [OF this, of 0] False show ?thesis
    by (simp add: parse_display_def Let_def)
qed

text \<open>C18: Parsing the output of an agent into display items loses nothing: written out again, the
  items are the output with its markers in canonical form, byte for byte, whatever the output
  holds - unclosed sections, markers inside Markdown code, carriage returns and bytes that are not
  UTF-8 included.\<close>

theorem display_roundtrip: "display_text (parse_display s) = normalize_markers s"
  by (rule parse_display_renders)

text \<open>C19: The scanners that go through the text by hand are the regular expressions they replace:
  the search for a closing line finds the first match of its expression, tried at every line start
  in turn, and the search for control lines all the matches of \<open>displayControl\<close> from first to last,
  with the same positions and groups.\<close>

theorem scanners_are_regexps:
  "find_close_line s ''[/Thinking]'' = first_line_match (close_line ''[/Thinking]'') s 0 \<and>
   find_close_line s ''[/Tool]'' = first_line_match (close_line ''[/Tool]'') s 0 \<and>
   find_display_controls s = all_line_matches display_control_line s 0"
  using find_close_line_is_regexp [of "''[/Thinking]''" s] find_close_line_is_regexp [of "''[/Tool]''" s]
    find_display_controls_is_regexp [of s]
  by (simp add: is_blank_def lf_def)

end
