(* ===== verification/DisplayTypes.thy ===== *)
theory DisplayTypes
  imports DisplayLaws
begin

section \<open>Display: the items are well formed\<close>

text \<open>
  Which fields an item of each type carries. The readers of items (the browser, the text exports,
  the replay) select on \<open>Type\<close> and rely on these shapes; the proof follows the parser with the
  shapes the matches have.
\<close>

definition well_formed_item :: "display_item \<Rightarrow> bool" where
  "well_formed_item it \<longleftrightarrow>
     (let ty = di_type it
      in if ty = ''text'' then di_text it \<noteq> [] \<and> di_prefix it = [] \<and> di_suffix it = [] \<and> di_complete it
         else di_prefix it \<noteq> [] \<and>
           (if ty = ''thinking'' then (di_complete it \<longleftrightarrow> di_suffix it \<noteq> [])
            else if ty = ''tool_result'' then
              (di_complete it \<longleftrightarrow> di_suffix it \<noteq> []) \<and> di_encoded it \<and> di_name it \<noteq> [] \<and>
              di_status it \<in> {''done'', ''error''}
            else if ty = ''using'' then di_text it = [] \<and> di_suffix it = [] \<and> di_complete it
            else ty = ''compaction'' \<and> di_text it = [] \<and> di_suffix it = [] \<and> di_complete it \<and>
              di_state it \<in> {''started'', ''done'', ''failed''} \<and>
              0 \<le> di_duration it \<and> di_duration it < 2 ^ 63))"

text \<open>Only the last item can be incomplete, and no two pieces of text are neighbours.\<close>

fun well_formed_items :: "display_item list \<Rightarrow> bool" where
  "well_formed_items [] = True"
| "well_formed_items [it] = well_formed_item it"
| "well_formed_items (it # it' # its) =
     (well_formed_item it \<and> di_complete it \<and> \<not> (di_type it = ''text'' \<and> di_type it' = ''text'') \<and>
      well_formed_items (it' # its))"

lemma well_formed_items_Cons:
  "well_formed_items (it # its) \<longleftrightarrow>
   well_formed_item it \<and> well_formed_items its \<and>
   (its \<noteq> [] \<longrightarrow> di_complete it \<and> \<not> (di_type it = ''text'' \<and> di_type (hd its) = ''text''))"
  by (cases its) auto

lemma well_formed_add_text:
  assumes "well_formed_items its" "its \<noteq> [] \<longrightarrow> di_type (hd its) \<noteq> ''text''"
  shows "well_formed_items (add_text s @ its)"
  using assms
  by (auto simp: add_text_def well_formed_items_Cons text_item_def empty_item_def well_formed_item_def)

text \<open>The groups of a match.\<close>

fun well_formed_control :: "display_control \<Rightarrow> bool" where
  "well_formed_control Thinking_Control = True"
| "well_formed_control (Using_Control g) = (g \<noteq> [])"
| "well_formed_control (Tool_Control name status) = (name \<noteq> [] \<and> status \<in> {''done'', ''error''})"
| "well_formed_control (Compaction_Control st n) = (st \<in> {''started'', ''done'', ''failed''} \<and> list_all digit n)"

lemma compaction_state_names: "compaction_state s = Some (st, r) \<Longrightarrow> st \<in> {''started'', ''done'', ''failed''}"
  by (auto simp: compaction_state_def split: option.splits)

lemma compaction_duration_digits: "compaction_duration s = (n, r) \<Longrightarrow> list_all digit n"
  by (auto simp: compaction_duration_def Let_def list_all_iff split: option.splits if_splits dest: set_takeWhileD)

lemma control_body_ok: "control_body s = Some (c, r) \<Longrightarrow> well_formed_control c"
proof -
  have u: "using_control s = Some (c, r) \<Longrightarrow> well_formed_control c" for c r
    by (auto simp: using_control_def Let_def bind_eq_Some_conv split: if_splits)
  have t: "tool_control s = Some (c, r) \<Longrightarrow> well_formed_control c" for c r
    by (auto simp: tool_control_def Let_def bind_eq_Some_conv split: if_splits option.splits)
  have k: "compaction_control s = Some (c, r) \<Longrightarrow> well_formed_control c" for c r
    using compaction_state_names compaction_duration_digits [OF prod.collapse [symmetric]]
    by (fastforce simp: compaction_control_def bind_eq_Some_conv case_prod_beta)
  show "control_body s = Some (c, r) \<Longrightarrow> well_formed_control c"
    using u t k by (auto simp: control_body_def split: option.splits)
qed

lemma display_controls_ok:
  assumes "(a, b, c) \<in> set (find_display_controls s)"
  shows "well_formed_control c"
proof -
  have "(a, b, c) \<in> set (all_line_matches display_control_line s p) \<Longrightarrow> well_formed_control c" for p
  proof (induction "display_control_line" s p rule: all_line_matches.induct)
    case (1 s p)
    show ?case
    proof (cases "if line_start s p then display_control_line (drop p s) else None")
      case None
      with "1.prems" "1.hyps"(1) show ?thesis
        by (cases "length s \<le> p") (simp_all add: all_line_matches.simps [of display_control_line s p])
    next
      case (Some cr)
      then obtain c' r where cr: "cr = (c', r)" "display_control_line (drop p s) = Some (c', r)"
        by (cases cr) (auto split: if_splits)
      then have "well_formed_control c'"
        by (auto simp: display_control_line_def bind_eq_Some_conv dest: control_body_ok)
      with "1.prems" "1.hyps"(2) [OF _ Some] Some cr show ?thesis
        by (cases "length s \<le> p") (auto simp: all_line_matches.simps [of display_control_line s p])
    qed
  qed
  with assms show ?thesis by (simp add: find_display_controls_is_regexp)
qed

text \<open>A closing line is not empty.\<close>

lemma find_close_nonempty:
  assumes "find_close_line s marker = Some (a, b)" "marker \<noteq> []" "hd marker \<noteq> lf"
  shows "a < b"
proof -
  have "first_close s marker 0 (find_close_line s marker)"
    unfolding find_close_line_def
    by (rule find_close_from_first [OF assms(2,3)]) (auto simp: line_at_def line_start_def)
  with assms(1) obtain i where c: "closes_at s marker i a b" by (auto simp: first_close_def)
  then have len: "i + length marker \<le> length s" using has_prefix_length [of "drop i s" marker] by (auto simp: closes_at_def)
  from c close_end_bounds [OF _ len, of b] have "i + length marker \<le> b" "a \<le> i"
    by (auto simp: closes_at_def line_at_def)
  with assms(2) show ?thesis by (cases marker) auto
qed

lemma close_item_ok:
  assumes "close_item output e marker item = (it, f)" "marker \<noteq> []" "hd marker \<noteq> lf" "e \<le> length output"
    and "di_suffix item = []" "di_complete item"
  shows "di_complete it \<longleftrightarrow> di_suffix it \<noteq> []" "\<not> di_complete it \<longrightarrow> f = length output"
proof -
  have "(di_complete it \<longleftrightarrow> di_suffix it \<noteq> []) \<and> (\<not> di_complete it \<longrightarrow> f = length output)"
  proof (cases "find_close_line (drop e output) marker")
    case (Some ab)
    obtain a b where ab: "ab = (a, b)" by (cases ab)
    from find_close_nonempty [OF Some [unfolded ab] assms(2,3)] find_close_bounds [OF Some [unfolded ab] assms(2,3)]
    have "slice output (e + a) (e + b) \<noteq> []" using assms(4) by (simp add: slice_def)
    with Some ab assms show ?thesis by (auto simp: close_item_def)
  qed (use assms in \<open>auto simp: close_item_def\<close>)
  then show "di_complete it \<longleftrightarrow> di_suffix it \<noteq> []" "\<not> di_complete it \<longrightarrow> f = length output" by blast+
qed

lemma close_item_same:
  "close_item output e marker item = (it, f) \<Longrightarrow>
   di_type it = di_type item \<and> di_prefix it = di_prefix item \<and> di_name it = di_name item \<and> di_status it = di_status item"
  by (auto simp: close_item_def split: option.splits prod.splits)

lemma parse_duration_bounds: "0 \<le> parse_duration n \<and> parse_duration n < 2 ^ 63"
  by (simp add: parse_duration_def)

lemma control_item_ok:
  assumes "control_item output (start, e, c) = (it, f)" "start < e" "e \<le> length output" "well_formed_control c"
  shows "well_formed_item it \<and> di_type it \<noteq> ''text'' \<and> (\<not> di_complete it \<longrightarrow> f = length output)"
proof -
  let ?item = "empty_item\<lparr>di_prefix := slice output start e, di_complete := True\<rparr>"
  have pre: "slice output start e \<noteq> []" using assms(2,3) by (simp add: slice_def)
  show ?thesis
  proof (cases c)
    case Thinking_Control
    with assms(1) have close: "close_item output e ''[/Thinking]'' (?item\<lparr>di_type := ''thinking''\<rparr>) = (it, f)"
      by (simp add: control_item_def)
    show ?thesis
      using close_item_ok [OF close] close_item_same [OF close] pre assms(3)
      by (simp add: well_formed_item_def empty_item_def lf_def)
  next
    case (Tool_Control name status)
    let ?tool = "?item\<lparr>di_type := ''tool_result'', di_name := name, di_status := status\<rparr>"
    obtain it' where close: "close_item output e ''[/Tool]'' ?tool = (it', f)" and it: "it = it'\<lparr>di_encoded := True\<rparr>"
      using assms(1) Tool_Control by (auto simp: control_item_def split: prod.splits)
    show ?thesis
      using close_item_ok [OF close] close_item_same [OF close] pre assms(3,4) it Tool_Control
      by (simp add: well_formed_item_def empty_item_def lf_def)
  next
    case (Using_Control g)
    with assms pre show ?thesis
      by (auto simp: control_item_def well_formed_item_def empty_item_def split: prod.splits)
  next
    case (Compaction_Control st n)
    with assms pre parse_duration_bounds [of n] show ?thesis
      by (auto simp: control_item_def well_formed_item_def empty_item_def)
  qed
qed

lemma parse_from_end:
  "\<forall>(a, b, c) \<in> set ms. a < length output \<Longrightarrow> parse_from output protected (length output) ms = []"
  by (induction ms) (auto simp: add_text_def Let_def split: prod.splits)

lemma parse_from_ok:
  assumes "\<forall>(a, b, c) \<in> set ms. a < b \<and> b \<le> length output \<and> well_formed_control c"
  shows "well_formed_items (parse_from output protected cursor ms)"
  using assms
proof (induction "output" protected cursor ms rule: parse_from.induct)
  case (1 out protected cursor)
  then show ?case using well_formed_add_text [of "[]" "drop cursor out"] by simp
next
  case (2 out protected cursor m ms)
  obtain start e c where m: "m = (start, e, c)" by (cases m)
  show ?case
  proof (cases "start < cursor \<or> position_in_markdown_code protected start")
    case True
    with 2(1) 2(3) m show ?thesis by simp
  next
    case False
    obtain it f where item: "control_item out m = (it, f)" by (cases "control_item out m")
    from 2(3) m have se: "start < e" "e \<le> length out" "well_formed_control c" by auto
    note ok = control_item_ok [OF item [unfolded m] se]
    have rest: "well_formed_items (parse_from out protected f ms)"
      using 2(2) False item 2(3) m by simp
    have starts: "\<forall>(a, b, c) \<in> set ms. a < length out" using 2(3) by fastforce
    have "well_formed_items (it # parse_from out protected f ms)"
      using ok rest parse_from_end [OF starts, of protected] by (auto simp: well_formed_items_Cons)
    then have "well_formed_items (add_text (slice out cursor start) @ it # parse_from out protected f ms)"
      using ok by (intro well_formed_add_text) auto
    with False item m show ?thesis by simp
  qed
qed

lemma parse_display_ok: "well_formed_items (parse_display s)"
proof -
  have "\<forall>(a, b, c) \<in> set (find_display_controls (normalize_markers s)).
      a < b \<and> b \<le> length (normalize_markers s) \<and> well_formed_control c"
    using display_control_bounds display_controls_ok by blast
  from parse_from_ok [OF this] show ?thesis
    by (auto simp: parse_display_def Let_def text_item_def empty_item_def well_formed_item_def)
qed

text \<open>C39: The items parsed from any output are well formed: each has one of the five types and the
  fields of its type, an item says it is complete exactly when its closing line was found, only the
  last item can be incomplete, durations fit 64 bits, and no two pieces of text stand next to each
  other.\<close>

theorem parsed_items_well_formed: "well_formed_items (parse_display s)"
  by (rule parse_display_ok)

end
