(* ===== verification/TextUtf8.thy ===== *)
theory TextUtf8
  imports Transcript Utf8
begin

section \<open>The canonical form of valid text is valid\<close>

text \<open>
  \<open>NormalizeMarkers\<close> works on bytes. Every marker it looks for begins and ends at ASCII bytes, so it cuts
  valid UTF-8 only where runes start, and what it writes is valid again.
\<close>

subsection \<open>Matchers\<close>

text \<open>What a matcher leaves: a rest of the text, and a valid one of a valid text.\<close>

definition leaves :: "string \<Rightarrow> string \<Rightarrow> bool" where
  "leaves s r \<longleftrightarrow> (\<exists>p. s = p @ r) \<and> (valid_utf8 s \<longrightarrow> valid_utf8 r)"

lemma leaves_trans: "leaves s r \<Longrightarrow> leaves r t \<Longrightarrow> leaves s t"
  unfolding leaves_def by (metis append.assoc)

definition ascii_text :: "string \<Rightarrow> bool" where
  "ascii_text p \<longleftrightarrow> list_all ascii p"

lemma leaves_ascii: "ascii_text p \<Longrightarrow> leaves (p @ r) r"
  by (auto simp: leaves_def ascii_text_def valid_ascii_append)

lemma has_prefix_append: "has_prefix s p \<Longrightarrow> s = p @ drop (length p) s"
  by (induction s p rule: has_prefix.induct) auto

lemma leaves_eat: "eat p s = Some r \<Longrightarrow> ascii_text p \<Longrightarrow> leaves s r"
  using leaves_ascii [of p r] has_prefix_append [of s p] by (auto simp: eat_def split: if_splits)

lemma leaves_dropWhile:
  assumes "\<And>c. P c \<Longrightarrow> ascii c" shows "leaves s (dropWhile P s)"
proof -
  have "ascii_text (takeWhile P s)" using assms by (auto simp: ascii_text_def list_all_iff dest: set_takeWhileD)
  from leaves_ascii [OF this, of "dropWhile P s"] show ?thesis by simp
qed

lemma re_space_ascii: "re_space c \<Longrightarrow> ascii c"
  by (auto simp: re_space_def ascii_def byte_of_def)

lemma name_char_ascii: "name_char c \<Longrightarrow> ascii c"
  by (auto simp: name_char_def ascii_def byte_of_def Let_def)

lemma lower_char_ascii: "lower_char c = p \<Longrightarrow> ascii p \<Longrightarrow> ascii c"
  by (auto simp: lower_char_def ascii_def byte_of_def Let_def split: if_splits)

lemma leaves_spaces: "leaves s (skip_spaces s)"
  unfolding skip_spaces_def by (rule leaves_dropWhile) (rule re_space_ascii)

lemma valid_kelvin: "valid_utf8 kelvin_sign"
proof -
  have "rune_len kelvin_sign = Some 3" by code_simp
  then show ?thesis by (rule valid_rune) (simp add: kelvin_sign_def)
qed

lemma leaves_valid: "valid_utf8 p \<Longrightarrow> leaves (p @ r) r"
  using valid_rest by (auto simp: leaves_def)

lemma leaves_fold: "eat_fold ps s = Some r \<Longrightarrow> ascii_text ps \<Longrightarrow> leaves s r"
proof (induction ps s rule: eat_fold.induct)
  case (3 p ps c s)
  show ?case
  proof (cases "lower_char c = p")
    case True
    then have "leaves s r" "ascii c" using 3 lower_char_ascii by (auto simp: ascii_text_def)
    with leaves_ascii [of "[c]" s] leaves_trans show ?thesis by (fastforce simp: ascii_text_def)
  next
    case False
    with 3(3) have k: "p = CHR ''k''" "has_prefix (c # s) kelvin_sign" "eat_fold ps (drop 3 (c # s)) = Some r"
      by (auto split: if_splits)
    have "leaves (drop 3 (c # s)) r" using 3(2) [OF False] k 3(4) by (simp add: ascii_text_def)
    moreover have "c # s = kelvin_sign @ drop 3 (c # s)"
      using has_prefix_append [OF k(2)] by (simp add: kelvin_sign_def numeral_3_eq_3)
    ultimately show ?thesis using leaves_valid [OF valid_kelvin] leaves_trans by metis
  qed
qed (simp_all add: leaves_def)

lemma ascii_literals [simp]:
  "ascii_text ''<''" "ascii_text ''</''" "ascii_text ''>''" "ascii_text '']''" "ascii_text ''thinking''"
  "ascii_text ''</parameter>''" "ascii_text ''</invoke>''" "ascii_text ''[Using tool:''" "ascii_text quote"
  "ascii_text ''<parameter''" "ascii_text (''name='' @ quote @ ''command'' @ quote @ ''>'')"
  by code_simp+

lemma leaves_thinking: "thinking_tag opening s = Some r \<Longrightarrow> ascii_text opening \<Longrightarrow> leaves s r"
  unfolding thinking_tag_def
  by (auto simp: bind_eq_Some_conv dest!: leaves_eat leaves_fold) (metis leaves_trans leaves_spaces)

lemma leaves_invoke_end: "invoke_end s = Some r \<Longrightarrow> leaves s r"
  unfolding invoke_end_def
  by (auto simp: bind_eq_Some_conv dest!: leaves_eat) (metis leaves_trans leaves_spaces)

lemma eat_hd: "eat (c # p) s = Some r \<Longrightarrow> s \<noteq> [] \<and> hd s = c"
  by (cases s) (auto simp: eat_def split: if_splits)

lemma until_cut:
  assumes "until m s = Some (t, r)" "\<And>u r. m u = Some r \<Longrightarrow> leaves u r"
  shows "\<exists>u. s = t @ u \<and> m u = Some r"
  using assms(1)
proof (induction s arbitrary: t)
  case Nil then show ?case by (subst (asm) until.simps) (auto split: option.splits)
next
  case (Cons c s)
  show ?case
  proof (cases "m (c # s)")
    case None
    with Cons.prems obtain t' where "until m s = Some (t', r)" "t = c # t'"
      by (subst (asm) until.simps) auto
    with Cons.IH show ?thesis by auto
  next
    case (Some q)
    with Cons.prems show ?thesis by (subst (asm) until.simps) auto
  qed
qed

lemma invoke_end_start: "invoke_end s = Some r \<Longrightarrow> s \<noteq> [] \<and> rune_start (hd s)"
proof -
  assume "invoke_end s = Some r"
  then obtain q where "eat ''</parameter>'' s = Some q" by (auto simp: invoke_end_def bind_eq_Some_conv)
  from eat_hd [OF this] show ?thesis by (auto simp: ascii_def byte_of_def intro: ascii_start)
qed

lemma until_invoke:
  assumes "until invoke_end s = Some (t, r)"
  shows "leaves s r" "valid_utf8 s \<Longrightarrow> valid_utf8 t"
proof -
  from until_cut [OF assms leaves_invoke_end] obtain u where u: "s = t @ u" "invoke_end u = Some r" by blast
  have cut: "valid_utf8 t \<and> valid_utf8 u" if "valid_utf8 s" using valid_cut [of t u] that u invoke_end_start [OF u(2)] by simp
  then show "valid_utf8 s \<Longrightarrow> valid_utf8 t" by blast
  from leaves_invoke_end [OF u(2)] u(1) cut show "leaves s r" by (auto simp: leaves_def)
qed

lemma tool_invoke_parts:
  assumes "tool_invoke s = Some (name, command, r)"
  obtains a b c d f where "eat ''[Using tool:'' s = Some a" "name = takeWhile name_char (skip_spaces a)"
    "eat quote (dropWhile name_char (skip_spaces a)) = Some b" "eat '']'' b = Some c \<or> eat ''>'' b = Some c"
    "eat ''<parameter'' (skip_spaces c) = Some d"
    "eat (''name='' @ quote @ ''command'' @ quote @ ''>'') (skip_spaces d) = Some f" "until invoke_end f = Some (command, r)"
proof -
  from assms have "\<exists>a b c d f. eat ''[Using tool:'' s = Some a \<and> name = takeWhile name_char (skip_spaces a) \<and>
    eat quote (dropWhile name_char (skip_spaces a)) = Some b \<and> (eat '']'' b = Some c \<or> eat ''>'' b = Some c) \<and>
    eat ''<parameter'' (skip_spaces c) = Some d \<and>
    eat (''name='' @ quote @ ''command'' @ quote @ ''>'') (skip_spaces d) = Some f \<and> until invoke_end f = Some (command, r)"
    unfolding tool_invoke_def Let_def bind_eq_Some_conv by (fastforce split: if_splits option.splits prod.splits)
  then show ?thesis using that by blast
qed

lemma leaves_tool_invoke:
  assumes "tool_invoke s = Some (name, command, r)"
  shows "leaves s r" "ascii_text name" "valid_utf8 s \<Longrightarrow> valid_utf8 command"
proof -
  from tool_invoke_parts [OF assms] obtain a b c d f where m: "eat ''[Using tool:'' s = Some a" "name = takeWhile name_char (skip_spaces a)"
    "eat quote (dropWhile name_char (skip_spaces a)) = Some b" "eat '']'' b = Some c \<or> eat ''>'' b = Some c"
    "eat ''<parameter'' (skip_spaces c) = Some d"
    "eat (''name='' @ quote @ ''command'' @ quote @ ''>'') (skip_spaces d) = Some f" "until invoke_end f = Some (command, r)" .
  have n: "leaves (skip_spaces a) (dropWhile name_char (skip_spaces a))" by (rule leaves_dropWhile) (rule name_char_ascii)
  note l = leaves_eat [OF _ ascii_literals(1)] leaves_eat [OF m(1) ascii_literals(8)] leaves_eat [OF m(3) ascii_literals(9)]
    leaves_eat [OF m(5) ascii_literals(10)] leaves_eat [OF m(6) ascii_literals(11)]
  have c: "leaves b c" using m(4) leaves_eat ascii_literals(3,4) by blast
  have "leaves s (skip_spaces a)" using l(2) leaves_spaces leaves_trans by blast
  with n l(3) c leaves_trans have "leaves s c" by blast
  with leaves_spaces leaves_trans have "leaves s (skip_spaces c)" by blast
  with l(4) leaves_spaces leaves_trans have "leaves s (skip_spaces d)" by blast
  with l(5) leaves_trans have f: "leaves s f" by blast
  show "leaves s r" using leaves_trans [OF f until_invoke(1) [OF m(7)]] .
  show "valid_utf8 s \<Longrightarrow> valid_utf8 command" using until_invoke(2) [OF m(7)] f by (simp add: leaves_def)
  show "ascii_text name" using name_char_ascii unfolding m(2) by (auto simp: ascii_text_def list_all_iff dest: set_takeWhileD)
qed

subsection \<open>What is written\<close>

lemma is_space_ascii: "is_space c \<Longrightarrow> ascii c"
  by (auto simp: is_space_def ascii_def byte_of_def)

lemma space_runes_valid: "r \<in> set space_runes \<Longrightarrow> valid_utf8 r \<and> r \<noteq> [] \<and> rune_start (hd r)"
proof -
  have "list_all (\<lambda>r. rune_len r = Some (length r) \<and> r \<noteq> [] \<and> rune_start (hd r)) space_runes" by code_simp
  moreover assume "r \<in> set space_runes"
  ultimately show ?thesis using valid_rune [of r "length r"] by (auto simp: list_all_iff)
qed

lemma trim_left_valid: "valid_utf8 s \<Longrightarrow> valid_utf8 (trim_left n space_runes s)"
proof (induction n space_runes s rule: trim_left.induct)
  case (1 n c s)
  show ?case
  proof (cases "find (has_prefix (c # s)) space_runes")
    case None with 1 is_space_ascii show ?thesis by (auto)
  next
    case (Some r)
    then have r: "r \<in> set space_runes" "has_prefix (c # s) r" by (auto simp: find_Some_iff)
    have "valid_utf8 (drop (length r) (c # s))"
      using valid_rest [of r "drop (length r) (c # s)"] has_prefix_append [OF r(2)] space_runes_valid [OF r(1)] 1(3) by metis
    with 1 Some is_space_ascii show ?thesis by auto
  qed
qed simp_all

lemma trim_right_valid: "valid_utf8 (rev s) \<Longrightarrow> valid_utf8 (rev (trim_left n (map rev space_runes) s))"
proof (induction n "map rev space_runes" s rule: trim_left.induct)
  case (1 n c s)
  have sp: "valid_utf8 (rev s)" if "is_space c" using valid_cut [of "rev s" "[c]"] 1(3) is_space_ascii [OF that] ascii_start by simp
  show ?case
  proof (cases "find (has_prefix (c # s)) (map rev space_runes)")
    case None with 1 sp show ?thesis by auto
  next
    case (Some q)
    then obtain r where r: "r \<in> set space_runes" "q = rev r" "has_prefix (c # s) q" by (auto simp: find_Some_iff) (metis nth_mem)
    have "rev (c # s) = rev (drop (length q) (c # s)) @ r"
      using arg_cong [OF has_prefix_append [OF r(3)], of rev] r(2) by simp
    then have "valid_utf8 (rev (drop (length q) (c # s)))"
      using valid_cut [of "rev (drop (length q) (c # s))" r] space_runes_valid [OF r(1)] 1(3) by simp
    with 1 sp Some show ?thesis by auto
  qed
qed simp_all

lemma trim_text_valid: "valid_utf8 s \<Longrightarrow> valid_utf8 (trim_text s)"
  unfolding trim_text_def Let_def by (rule trim_right_valid) (simp add: trim_left_valid)

lemma sanitize_valid: "valid_utf8 s \<Longrightarrow> valid_utf8 (sanitize_marker_part s)"
  unfolding sanitize_marker_part_def
  by (auto intro!: trim_text_valid valid_map_ascii split: if_splits) (auto simp: ascii_def byte_of_def cr_def lf_def)

lemma canonical_invoke_valid:
  assumes "valid_utf8 s" shows "valid_utf8 (canonical_invoke s)"
proof (cases "tool_invoke s")
  case None with assms show ?thesis by (simp add: canonical_invoke_def)
next
  case (Some x)
  obtain name command r where x: "x = (name, command, r)" by (cases x)
  from leaves_tool_invoke [OF Some [unfolded x]] assms have v: "valid_utf8 name" "valid_utf8 command"
    by (simp_all add: ascii_text_def valid_ascii)
  have a: "valid_utf8 ([lf] @ ''[Using tool: '')" "valid_utf8 ('']'' @ [lf])" "valid_utf8 '' | ''"
    by (rule valid_ascii, code_simp)+
  have "valid_utf8 (([lf] @ ''[Using tool: '') @ sanitize_marker_part name @ ('']'' @ [lf]))"
    "valid_utf8 (([lf] @ ''[Using tool: '') @ sanitize_marker_part name @ '' | '' @ sanitize_marker_part command @ ('']'' @ [lf]))"
    by (intro valid_utf8_append a sanitize_valid v)+
  with Some x show ?thesis by (simp add: canonical_invoke_def Let_def)
qed

text \<open>A match starts and ends where valid text can be cut.\<close>

definition marker_match :: "(string \<Rightarrow> nat option) \<Rightarrow> bool" where
  "marker_match m \<longleftrightarrow> (\<forall>s n. m s = Some n \<longrightarrow> n \<le> length s \<and> s \<noteq> [] \<and> rune_start (hd s) \<and> leaves s (drop n s))"

lemma marker_matchI:
  assumes "\<And>s r. m s = Some r \<Longrightarrow> leaves s r \<and> s \<noteq> [] \<and> rune_start (hd s)"
  shows "marker_match (match_len m)"
  unfolding marker_match_def
proof (intro allI impI)
  fix s n assume "match_len m s = Some n"
  then obtain r where r: "m s = Some r" "n = length s - length r" by (auto simp: match_len_def)
  with assms obtain p where "s = p @ r" by (auto simp: leaves_def)
  with r assms [OF r(1)] show "n \<le> length s \<and> s \<noteq> [] \<and> rune_start (hd s) \<and> leaves s (drop n s)" by simp
qed

lemma thinking_match:
  assumes "ascii_text (c # p)" shows "marker_match (match_len (thinking_tag (c # p)))"
proof (rule marker_matchI)
  fix s r assume t: "thinking_tag (c # p) s = Some r"
  then obtain a where "eat (c # p) s = Some a" by (auto simp: thinking_tag_def bind_eq_Some_conv)
  from eat_hd [OF this] leaves_thinking [OF t assms] assms show "leaves s r \<and> s \<noteq> [] \<and> rune_start (hd s)"
    by (auto simp: ascii_text_def intro: ascii_start)
qed

lemma invoke_match: "marker_match (match_len (\<lambda>t. map_option (\<lambda>(n, c, r). r) (tool_invoke t)))"
proof (rule marker_matchI)
  fix s r assume "map_option (\<lambda>(n, c, r). r) (tool_invoke s) = Some r"
  then obtain name command where t: "tool_invoke s = Some (name, command, r)" by auto
  then obtain a where "eat ''[Using tool:'' s = Some a" by (rule tool_invoke_parts)
  from eat_hd [OF this] leaves_tool_invoke(1) [OF t] show "leaves s r \<and> s \<noteq> [] \<and> rune_start (hd s)"
    by (auto simp: ascii_def byte_of_def intro: ascii_start)
qed

lemma find_match_at: "find_match m s = Some (i, n) \<Longrightarrow> i \<le> length s \<and> m (drop i s) = Some n"
proof (induction s arbitrary: i)
  case Nil then show ?case by (subst (asm) find_match.simps) (auto split: option.splits)
next
  case (Cons c s)
  then show ?case by (subst (asm) (2) find_match.simps) (auto split: option.splits)
qed

lemma drop_slice: "a \<le> b \<Longrightarrow> drop a s = slice s a b @ drop b s"
  by (metis append_take_drop_id drop_drop le_add_diff_inverse2 slice_def)

lemma replace_from_valid:
  assumes "marker_match m" "\<And>t. valid_utf8 t \<Longrightarrow> valid_utf8 (repl t)" "valid_utf8 (drop previous s)" "previous \<le> search_at"
  shows "valid_utf8 (replace_from m repl s ranges previous search_at)"
  using assms
proof (induction m repl s ranges previous search_at rule: replace_from.induct)
  case (1 m repl s ranges previous search_at)
  show ?case
  proof (cases "search_at \<le> length s \<and> find_match m (drop search_at s) \<noteq> None")
    case False
    then consider "\<not> search_at \<le> length s" | "find_match m (drop search_at s) = None" by blast
    then show ?thesis by cases (use 1(5) in \<open>simp_all add: replace_from.simps [of m repl s ranges previous search_at]\<close>)
  next
    case True
    then obtain i n where f: "search_at \<le> length s" "find_match m (drop search_at s) = Some (i, n)" by auto
    define start e where "start = search_at + i" and "e = start + n"
    note unfold = replace_from.simps [of m repl s ranges previous search_at]
    from find_match_at [OF f(2)] have "m (drop start s) = Some n" by (simp add: start_def add.commute)
    with 1(3) have "drop start s \<noteq> [] \<and> rune_start (hd (drop start s)) \<and> leaves (drop start s) (drop n (drop start s))"
      unfolding marker_match_def by blast
    moreover have "drop n (drop start s) = drop e s" by (simp add: e_def add.commute)
    ultimately have r: "drop start s \<noteq> []" "rune_start (hd (drop start s))" "leaves (drop start s) (drop e s)" by auto
    have p: "previous \<le> start" "start \<le> e" using 1(6) by (simp_all add: start_def e_def)
    show ?thesis
    proof (cases "position_in_markdown_code ranges start")
      case True
      have "valid_utf8 (replace_from m repl s ranges previous (start + 1))"
        using 1(1) [OF f(1,2) refl _ _ True 1(3,4,5)] p(1) by (simp add: start_def e_def)
      with f True show ?thesis by (simp add: unfold start_def)
    next
      case False
      have cut: "valid_utf8 (slice s previous start)" "valid_utf8 (drop start s)"
        using valid_cut [of "slice s previous start" "drop start s"] 1(5) drop_slice [OF p(1), of s] r(2) by simp_all
      then have rest: "valid_utf8 (drop e s)" using r(3) by (simp add: leaves_def)
      with cut(2) drop_slice [OF p(2), of s] valid_cut_at [of "slice s start e" "drop e s"] have "valid_utf8 (slice s start e)" by simp
      from 1(4) [OF this] have "valid_utf8 (repl (slice s start e))" .
      moreover have "valid_utf8 (replace_from m repl s ranges e (if e = start then e + 1 else e))"
        using 1(2) [OF f(1,2) refl start_def e_def [unfolded start_def] _ 1(3,4) rest] False
        by (simp add: start_def e_def split: if_splits)
      ultimately have "valid_utf8 (slice s previous start @ repl (slice s start e) @
          replace_from m repl s ranges e (if e = start then e + 1 else e))"
        using cut(1) by (intro valid_utf8_append)
      with f False show ?thesis unfolding start_def e_def by (simp add: unfold Let_def split: if_splits)
    qed
  qed
qed

lemma replace_outside_valid:
  "marker_match m \<Longrightarrow> (\<And>t. valid_utf8 t \<Longrightarrow> valid_utf8 (repl t)) \<Longrightarrow> valid_utf8 s \<Longrightarrow>
   valid_utf8 (replace_outside_markdown_code s m repl)"
  by (simp add: replace_outside_markdown_code_def replace_from_valid)

theorem normalize_markers_valid: "valid_utf8 s \<Longrightarrow> valid_utf8 (normalize_markers s)"
proof -
  have "valid_utf8 ([lf] @ ''[Thinking]'' @ [lf])" "valid_utf8 ([lf] @ ''[/Thinking]'' @ [lf])"
    by (rule valid_ascii, code_simp)+
  then show "valid_utf8 s \<Longrightarrow> valid_utf8 (normalize_markers s)"
    unfolding normalize_markers_def Let_def
    by (auto intro!: replace_outside_valid thinking_match invoke_match canonical_invoke_valid simp: ascii_text_def ascii_def byte_of_def)
qed

end
