(* ===== verification/LiveLaws.thy ===== *)
theory LiveLaws
  imports LiveOutput DisplayTypes TextUtf8
begin

section \<open>Live output: a window shows what the agent wrote\<close>

text \<open>
  First the stored text: reading it from an offset yields the rest of it. Then one window: every
  frame fits the text it has, whatever the reads and the events are, as long as they tell of the
  same text. Last the whole system: the store, the events and the window always tell of the
  writer's buffer.
\<close>

subsection \<open>Reading the stored text\<close>

fun chunks_ok :: "nat \<Rightarrow> (nat \<times> string) list \<Rightarrow> bool" where
  "chunks_ok b [] = True"
| "chunks_ok b ((e, t) # cs) = (e = b + length t \<and> chunks_ok e cs)"

definition encoded_item :: "display_item \<Rightarrow> bool" where
  "encoded_item it \<longleftrightarrow> (di_type it = ''tool_result'' \<longrightarrow> di_encoded it)"

definition stored_ok :: "live_exec \<Rightarrow> bool" where
  "stored_ok x \<longleftrightarrow>
     chunks_ok 0 (lx_chunks x) \<and> list_all encoded_item (lx_items x) \<and>
     (\<forall>s. lx_digest x = Some s \<longrightarrow> lx_items x = parse_display s)"

lemma chunks_ok_total: "chunks_ok b cs \<Longrightarrow> cs \<noteq> [] \<Longrightarrow> fst (last cs) = b + length (concat (map snd cs))"
  by (induction b cs rule: chunks_ok.induct) (auto split: if_splits)

lemma chunks_ok_snoc: "chunks_ok b cs \<Longrightarrow> chunks_ok b (cs @ [(b + length (concat (map snd cs)) + length t, t)])"
  by (induction b cs rule: chunks_ok.induct) (auto simp: add.assoc)

lemma pending_bytes_length: "chunks_ok 0 (lx_chunks x) \<Longrightarrow> pending_bytes x = length (stream_output x)"
  using chunks_ok_total [of 0 "lx_chunks x"] by (auto simp: pending_bytes_def stream_output_def)

lemma display_bytes_length: "encoded_item it \<Longrightarrow> display_bytes it = length (sql_item_text it)"
  by (auto simp: display_bytes_def sql_item_text_def encoded_item_def)

lemma finalized_bytes_length:
  "list_all encoded_item (lx_items x) \<Longrightarrow> finalized_bytes x = length (finalized_output x)"
proof -
  have "list_all encoded_item its \<Longrightarrow> sum_list (map display_bytes its) = length (concat (map sql_item_text its))" for its
    by (induction its) (auto simp: display_bytes_length)
  then show "list_all encoded_item (lx_items x) \<Longrightarrow> finalized_bytes x = length (finalized_output x)"
    by (simp add: finalized_bytes_def finalized_output_def)
qed

lemma total_bytes: "stored_ok x \<Longrightarrow> finalized_bytes x + pending_bytes x = length (display_output x)"
  by (simp add: stored_ok_def pending_bytes_length finalized_bytes_length display_output_def)

lemma read_chunks:
  "chunks_ok b cs \<Longrightarrow>
   concat (map (\<lambda>(e, t). drop (k - (e - length t)) t) (filter (\<lambda>(e, t). k < e) cs)) = drop (k - b) (concat (map snd cs))"
proof (induction b cs rule: chunks_ok.induct)
  case (2 b e t cs)
  then have e: "e = b + length t" "chunks_ok e cs" by auto
  from 2(1) [OF e(2)] e(1) show ?case
    by (cases "k < e") (auto simp: drop_append)
qed simp

lemma read_stream: "chunks_ok 0 (lx_chunks x) \<Longrightarrow> read_stream_bytes_from x k = drop k (stream_output x)"
  using read_chunks [of 0 "lx_chunks x" k] by (simp add: read_stream_bytes_from_def stream_output_def)

lemma display_heads_start: "(st, it) \<in> set (display_heads b its) \<Longrightarrow> b \<le> st"
  by (induction b its rule: display_heads.induct) fastforce+

definition read_heads :: "nat \<Rightarrow> (nat \<times> display_item) list \<Rightarrow> string" where
  "read_heads k heads =
     (case find (\<lambda>(start, it). start < k \<and> k < start + display_bytes it) heads of
        None \<Rightarrow> []
      | Some (start, it) \<Rightarrow> drop (k - start) (sql_item_text it)) @
     concat (map (\<lambda>(start, it). sql_item_text it)
       (filter (\<lambda>(start, it). k \<le> start \<and> 0 < display_bytes it) heads))"

lemma read_heads_all:
  assumes "list_all encoded_item its" "k \<le> b"
  shows "read_heads k (display_heads b its) = concat (map sql_item_text its)"
  using assms
proof (induction its arbitrary: b)
  case (Cons it its)
  from Cons.IH [of "b + display_bytes it"] Cons.prems
  have ih: "read_heads k (display_heads (b + display_bytes it) its) = concat (map sql_item_text its)" by simp
  have none: "find (\<lambda>(start, it). start < k \<and> k < start + display_bytes it) (display_heads (b + display_bytes it) its) = None"
    using Cons.prems(2) by (force simp: find_None_notin dest: display_heads_start)
  show ?case
  proof (cases "display_bytes it")
    case 0
    then have "sql_item_text it = []" using Cons.prems(1) display_bytes_length [of it] by simp
    with ih none 0 Cons.prems(2) show ?thesis by (simp add: read_heads_def)
  next
    case (Suc n)
    with ih none Cons.prems(2) show ?thesis by (simp add: read_heads_def)
  qed
qed (simp add: read_heads_def)

lemma read_heads_from:
  assumes "list_all encoded_item its"
  shows "read_heads k (display_heads b its) = drop (k - b) (concat (map sql_item_text its))"
  using assms
proof (induction its arbitrary: b)
  case (Cons it its)
  let ?n = "display_bytes it"
  have n: "?n = length (sql_item_text it)" using Cons.prems display_bytes_length by simp
  have its: "list_all encoded_item its" using Cons.prems by simp
  consider "k \<le> b" | "b < k" "k < b + ?n" | "b < k" "b + ?n \<le> k" by linarith
  then show ?case
  proof cases
    case 1
    with read_heads_all [OF Cons.prems] show ?thesis by simp
  next
    case 2
    have "read_heads k (display_heads (b + ?n) its) = concat (map sql_item_text its)"
      using read_heads_all [OF its] 2 by simp
    moreover have "find (\<lambda>(start, it). start < k \<and> k < start + display_bytes it) (display_heads (b + ?n) its) = None"
      using 2(2) by (force simp: find_None_notin dest: display_heads_start)
    ultimately show ?thesis using 2 n by (simp add: read_heads_def)
  next
    case 3
    from Cons.IH [OF its, of "b + ?n"] 3 n show ?thesis by (auto simp: read_heads_def)
  qed
qed (simp add: read_heads_def)

theorem seek_reads_the_rest:
  assumes "stored_ok x"
  shows "read_display_bytes_from x k (finalized_bytes x) = drop k (display_output x)"
proof (cases "finalized_bytes x \<le> k")
  case True
  with assms show ?thesis
    by (simp add: read_display_bytes_from_def stored_ok_def read_stream finalized_bytes_length display_output_def)
next
  case False
  then have "read_display_bytes_from x k (finalized_bytes x) =
      read_heads k (display_heads 0 (lx_items x)) @ read_stream_bytes_from x 0"
    by (simp add: read_display_bytes_from_def read_heads_def Let_def)
  with assms False show ?thesis
    by (simp add: stored_ok_def read_stream read_heads_from finalized_output_def display_output_def finalized_bytes_length)
qed

lemma back_to_rune_le: "back_to_rune d n \<le> n"
  by (induction n) auto

lemma read_output_after_parts:
  assumes "stored_ok x" "0 \<le> off"
  obtains p where "er_start (read_output_after x off) = int p" "er_output (read_output_after x off) = drop p (display_output x)"
      "er_total (read_output_after x off) = int (length (display_output x))" "int p \<le> off" "off < int p + 4"
      "off \<le> int (length (display_output x))"
    | "er_output (read_output_after x off) = []" "er_total (read_output_after x off) = int (length (display_output x))"
      "lx_status x = ExecRunning" "int (length (display_output x)) < off"
    | "er_output (read_output_after x off) = display_output x"
      "er_total (read_output_after x off) = int (length (display_output x))" "int (length (display_output x)) < off"
      "lx_status x \<noteq> ExecRunning"
proof -
  let ?T = "display_output x" and ?r = "read_output_after x off"
  note total = total_bytes [OF assms(1)]
  have tot: "er_total ?r = int (length ?T)"
    by (simp add: read_output_after_def Let_def total [symmetric])
  show ?thesis
  proof (cases "int (length ?T) < off")
    case True
    then have lt: "finalized_bytes x + pending_bytes x < nat off" using total by linarith
    show ?thesis
    proof (cases "lx_status x = ExecRunning")
      case running: True
      have "er_output ?r = []" using lt running by (simp add: read_output_after_def Let_def)
      with tot running True show ?thesis using that(2) by blast
    next
      case False
      have "er_output ?r = ?T"
        using lt False seek_reads_the_rest [OF assms(1), of 0] total
        by (cases "length ?T = 0") (simp_all add: read_output_after_def Let_def)
      with tot False True show ?thesis using that(3) by blast
    qed
  next
    case False
    define n where "n = nat off"
    have n: "off = int n" "n \<le> length ?T" using assms(2) False by (auto simp: n_def)
    have nlt: "\<not> finalized_bytes x + pending_bytes x < n" using n total by simp
    show ?thesis
    proof (cases "n = length ?T")
      case True
      have "er_output ?r = drop n ?T" "er_start ?r = int n"
        using True nlt n(1) total by (simp_all add: read_output_after_def Let_def)
      with tot n show ?thesis using that(1) [of n] by simp
    next
      case neq: False
      let ?k = "n - 3" and ?b = "back_to_rune (drop (n - 3) ?T) (n - (n - 3))"
      have "er_output ?r = drop (?k + ?b) ?T" "er_start ?r = int (?k + ?b)"
        using neq nlt n(1) total seek_reads_the_rest [OF assms(1), of ?k]
        by (simp_all add: read_output_after_def Let_def add.commute)
      moreover have "?k + ?b \<le> n" using back_to_rune_le [of "drop ?k ?T" "n - ?k"] by linarith
      moreover have "n < ?k + ?b + 4" by linarith
      ultimately show ?thesis using that(1) [of "?k + ?b"] tot n by simp
    qed
  qed
qed

subsection \<open>One window\<close>

lemma window_text_append:
  "window_text (fs @ gs) t = (case window_text fs t of None \<Rightarrow> None | Some t \<Rightarrow> window_text gs t)"
  by (induction fs arbitrary: t) (auto split: option.splits)

text \<open>What the window has is the text up to the cursor.\<close>

definition shows_text :: "string \<Rightarrow> string \<Rightarrow> live_view \<Rightarrow> bool" where
  "shows_text buf base v \<longleftrightarrow>
     0 \<le> vw_sent v \<and> vw_sent v \<le> int (length buf) \<and>
     window_text (vw_frames v) base = Some (take (nat (vw_sent v)) buf)"

lemma shows_text_grows: "shows_text buf base v \<Longrightarrow> shows_text (buf @ t) base v"
  by (auto simp: shows_text_def)

lemma shows_text_over [simp]: "shows_text buf base (view_over v) = shows_text buf base v"
  by (simp add: shows_text_def view_over_def)

text \<open>Frames that carry no text change nothing, and a message that fits moves the cursor.\<close>

lemma emit_note:
  assumes "shows_text buf base v" "ev \<noteq> ''message''" "ev \<noteq> ''reset''"
  shows "shows_text buf base (snd (emit ok (frame ev d a b) v))"
  using assms by (auto simp: shows_text_def emit_def frame_def window_text_append window_apply_def)

lemma emit_cases:
  assumes "emit ok f v = (sent, v')"
  shows "(\<not> sent \<and> v' = v) \<or> (sent \<and> v' = v\<lparr>vw_frames := vw_frames v @ [f]\<rparr>)"
  using assms by (auto simp: emit_def split: if_splits)

lemma emit_message:
  assumes v: "shows_text buf base v" and emit: "emit ok (frame ''message'' d a e) v = (sent, v')"
    and a: "0 \<le> a" "a \<le> vw_sent v" "vw_sent v < e" "e \<le> int (length buf)" and d: "d = slice buf (nat a) (nat e)"
  shows "sent \<Longrightarrow> shows_text buf base (v'\<lparr>vw_sent := e\<rparr>)" "\<not> sent \<Longrightarrow> shows_text buf base v'"
proof -
  let ?n = "nat (vw_sent v)"
  have n: "nat a \<le> ?n" "?n \<le> nat e" "nat e \<le> length buf" using a by auto
  have len: "length (take ?n buf) = ?n" using n by simp
  have "take ?n buf @ drop (?n - nat a) d = take (nat e) buf"
  proof -
    have "drop (?n - nat a) d = slice buf ?n (nat e)" using n unfolding d by (simp add: slice_def drop_take)
    then show ?thesis using n by (simp add: slice_def take_add [symmetric])
  qed
  moreover have "nat (vw_sent v - a) = ?n - nat a" using a by (simp add: nat_diff_distrib)
  ultimately have "window_apply (frame ''message'' d a e) (take ?n buf) = Some (take (nat e) buf)"
    using a len by (simp add: window_apply_def frame_def)
  with v have "window_text (vw_frames v @ [frame ''message'' d a e]) base = Some (take (nat e) buf)"
    by (simp add: shows_text_def window_text_append)
  with a show "sent \<Longrightarrow> shows_text buf base (v'\<lparr>vw_sent := e\<rparr>)"
    using emit_cases [OF emit] by (auto simp: shows_text_def)
  show "\<not> sent \<Longrightarrow> shows_text buf base v'" using emit_cases [OF emit] v by auto
qed

text \<open>The end of a chunk: at least three bytes short of the chunk size at most, where runes start.\<close>

lemma back_to_rune_stops:
  assumes "n < length d" "j \<le> n" "rune_start (d ! j)"
  shows "j \<le> back_to_rune d n"
  using assms
proof (induction n)
  case (Suc n)
  then show ?case by (cases "j = Suc n") auto
qed simp

lemma clamp_offset_bounds:
  assumes "rune_spaced out" "start < length out"
  defines "e \<equiv> clamp_offset (min (start + chunk_size) (length out)) out"
  shows "start < e" "e \<le> length out" "e = length out \<or> start + 4 \<le> e"
proof -
  have "start < e \<and> e \<le> length out \<and> (e = length out \<or> start + 4 \<le> e)"
  proof (cases "start + chunk_size < length out")
    case True
    let ?n = "start + chunk_size"
    have e: "e = back_to_rune out ?n" using True by (simp add: e_def clamp_offset_def chunk_size_def)
    have "(?n - 3) + 4 \<le> length out" using True by (simp add: chunk_size_def)
    with assms(1) obtain j where j: "?n - 3 \<le> j" "j < ?n - 3 + 4" "rune_start (out ! j)"
      unfolding rune_spaced_def by blast
    then have "j \<le> ?n" by (simp add: chunk_size_def)
    from back_to_rune_stops [OF True this j(3)] back_to_rune_le [of out ?n] j(1) True
    show ?thesis unfolding e by (simp add: chunk_size_def)
  next
    case False
    then have "e = length out" using assms(2) by (simp add: e_def clamp_offset_def)
    with assms(2) show ?thesis by simp
  qed
  then show "start < e" "e \<le> length out" "e = length out \<or> start + 4 \<le> e" by blast+
qed

lemma slice_slice: "e \<le> b - a \<Longrightarrow> slice (slice s a b) i e = slice s (a + i) (a + e)"
proof -
  assume "e \<le> b - a"
  then have "min (e - i) (b - a - i) = e - i" by (simp add: diff_le_mono)
  then show ?thesis by (simp add: slice_def drop_take add.commute)
qed

lemma send_chunks_shows:
  assumes "rune_spaced out" "shows_text buf base v" "p + length out \<le> length buf" "out = slice buf p (p + length out)"
    and "start < length out \<Longrightarrow> int (p + start) \<le> vw_sent v \<and> vw_sent v < int (p + start) + 4 \<and> vw_sent v < int (p + length out)"
    and "\<not> start < length out \<Longrightarrow> vw_sent v = int (p + length out)"
  shows "\<exists>over v'. send_chunks ok out (int p) start v = Some (over, v') \<and> shows_text buf base v' \<and>
    vw_over v' = vw_over v \<and> (\<not> over \<longrightarrow> vw_sent v' = int (p + length out))"
  using assms
proof (induction "length out - start" arbitrary: start v rule: less_induct)
  case less
  show ?case
  proof (cases "start < length out")
    case False
    then have "send_chunks ok out (int p) start v = Some (False, v)" by (subst send_chunks.simps) simp
    with less.prems(2) less.prems(6) [OF False] show ?thesis by (intro exI [of _ False] exI [of _ v]) simp
  next
    case True
    define e where "e = clamp_offset (min (start + chunk_size) (length out)) out"
    note e = clamp_offset_bounds [OF less.prems(1) True, folded e_def]
    note at = less.prems(5) [OF True]
    obtain sent v1 where emit: "emit ok (frame ''message'' (slice out start e) (int p + int start) (int p + int e)) v = (sent, v1)"
      by (cases "emit ok (frame ''message'' (slice out start e) (int p + int start) (int p + int e)) v")
    have slice: "slice out start e = slice buf (nat (int p + int start)) (nat (int p + int e))"
    proof -
      have "slice (slice buf p (p + length out)) start e = slice buf (p + start) (p + e)"
        using slice_slice [of e "p + length out" p] e(2) by simp
      then show ?thesis using less.prems(4) by (simp add: nat_add_distrib)
    qed
    have bounds: "0 \<le> int p + int start" "int p + int start \<le> vw_sent v" "vw_sent v < int p + int e"
        "int p + int e \<le> int (length buf)"
      using at e less.prems(3) by auto
    note msg = emit_message [OF less.prems(2) emit bounds slice]
    have over: "vw_over v1 = vw_over v" using emit_cases [OF emit] by auto
    have unfold: "send_chunks ok out (int p) start v =
        (if \<not> sent then Some (True, v1) else send_chunks ok out (int p) e (v1\<lparr>vw_sent := int p + int e\<rparr>))"
      using True by (subst send_chunks.simps) (simp add: e_def [symmetric] Let_def emit)
    show ?thesis
    proof (cases sent)
      case False
      with msg(2) over show ?thesis by (intro exI [of _ True] exI [of _ v1]) (simp add: unfold)
    next
      case True
      have "length out - e < length out - start" using e \<open>start < length out\<close> by simp
      from less.hyps [OF this less.prems(1) msg(1) [OF True] less.prems(3,4)] e over True
      show ?thesis by (auto simp: unfold)
    qed
  qed
qed

lemma replay_end_shows:
  "shows_text buf base v \<Longrightarrow> shows_text buf base (snd (replay_end ok r v))"
  by (auto simp: replay_end_def intro: emit_note)

text \<open>A read tells of a text: it is \<open>ReadOutputAfter\<close> of rows that hold a beginning of the text.\<close>

definition reads_text :: "string \<Rightarrow> live_exec \<Rightarrow> bool" where
  "reads_text buf x \<longleftrightarrow> stored_ok x \<and> rune_spaced (display_output x) \<and> (\<exists>n \<le> length buf. display_output x = take n buf)"

lemma replay_tail_shows:
  assumes "reads_text buf x" "shows_text buf base v" "r = read_output_after x off"
    and "vw_sent v = off \<or> \<not> vw_sent v < er_total r"
  shows "\<exists>over v'. replay_tail ok r v = Some (over, v') \<and> shows_text buf base v'"
proof (cases "vw_sent v < er_total r")
  case False
  with replay_end_shows [OF assms(2), of ok r] show ?thesis
    by (cases "replay_end ok r v") (auto simp: replay_tail_def)
next
  case True
  with assms(4) have off: "off = vw_sent v" by simp
  let ?T = "display_output x"
  from assms(1) obtain n where T: "stored_ok x" "rune_spaced ?T" "n \<le> length buf" "?T = take n buf"
    by (auto simp: reads_text_def)
  have nonneg: "0 \<le> off" using assms(2) off by (simp add: shows_text_def)
  show ?thesis
  proof (rule read_output_after_parts [OF T(1) nonneg])
    fix p
    assume p: "er_start (read_output_after x off) = int p" "er_output (read_output_after x off) = drop p ?T"
      "er_total (read_output_after x off) = int (length ?T)" "int p \<le> off" "off < int p + 4" "off \<le> int (length ?T)"
    let ?out = "drop p ?T"
    have total: "off < int (length ?T)" using True p(3) off assms(3) by simp
    have len: "p + length ?out = length ?T" using p(4) total by simp
    have slice: "?out = slice buf p (p + length ?out)"
      unfolding len using T(3,4) p(4) total by (simp add: slice_def drop_take)
    have "\<exists>over v'. send_chunks ok ?out (int p) 0 v = Some (over, v') \<and> shows_text buf base v' \<and>
        vw_over v' = vw_over v \<and> (\<not> over \<longrightarrow> vw_sent v' = int (p + length ?out))"
    proof (rule send_chunks_shows [OF rune_spaced_drop [OF T(2)] assms(2) _ slice])
      show "p + length ?out \<le> length buf" unfolding len using T(3,4) by simp
      show "int (p + 0) \<le> vw_sent v \<and> vw_sent v < int (p + 0) + 4 \<and> vw_sent v < int (p + length ?out)"
        unfolding len using p(4,5) total off by simp
      show "vw_sent v = int (p + length ?out)" if "\<not> 0 < length ?out"
        using that p(4,6) total off by simp
    qed
    then obtain over v' where sc: "send_chunks ok ?out (int p) 0 v = Some (over, v')" "shows_text buf base v'" by blast
    have tail: "replay_tail ok r v = (if over then Some (True, v') else Some (replay_end ok r v'))"
      using True sc(1) p(1,2) assms(3) by (simp add: replay_tail_def)
    show ?thesis
      using sc(2) replay_end_shows [OF sc(2), of ok r] by (cases "replay_end ok r v'") (auto simp: tail)
  next
    assume "er_total (read_output_after x off) = int (length ?T)" "int (length ?T) < off"
    with True off assms(3) show ?thesis by simp
  next
    assume "er_total (read_output_after x off) = int (length ?T)" "int (length ?T) < off"
    with True off assms(3) show ?thesis by simp
  qed
qed

lemma view_replay_shows:
  assumes "reads_text buf x" "can_read x read" "shows_text buf base v"
  shows "\<exists>over v'. view_replay ok read v = Some (over, v') \<and> shows_text buf base v'"
proof -
  let ?r = "read_output_after x (vw_sent v)"
  from assms(2) consider "read (vw_sent v) = Inl ()" | "read (vw_sent v) = Inr (Some ?r)"
    unfolding can_read_def by blast
  then show ?thesis
  proof cases
    case 1
    then have "view_replay ok read v = Some (True, snd (emit ok (frame ''retry'' ''execution replay unavailable'' 0 0) v))"
      by (simp add: view_replay_def)
    with emit_note [OF assms(3), of "''retry''"] show ?thesis by fastforce
  next
    case 2
    show ?thesis
    proof (cases "er_total ?r < vw_sent v \<and> exec_terminal (er_status ?r)")
      case False
      have "view_replay ok read v = replay_tail ok ?r v" using 2 False by (auto simp: view_replay_def)
      with replay_tail_shows [OF assms(1,3) refl] show ?thesis by simp
    next
      case True
      from assms(1) obtain n where T: "stored_ok x" "n \<le> length buf" "display_output x = take n buf"
        by (auto simp: reads_text_def)
      have nonneg: "0 \<le> vw_sent v" using assms(3) by (simp add: shows_text_def)
      have status: "er_status ?r = lx_status x" by (simp add: read_output_after_def Let_def)
      have all: "er_output ?r = display_output x" "er_total ?r = int (length (display_output x))"
      proof -
        have "er_output ?r = display_output x \<and> er_total ?r = int (length (display_output x))"
          by (rule read_output_after_parts [OF T(1) nonneg])
             (use True status in \<open>auto simp: exec_terminal_def\<close>)
        then show "er_output ?r = display_output x" "er_total ?r = int (length (display_output x))" by blast+
      qed
      obtain sent v1 where emit: "emit ok (frame ''reset'' (er_output ?r) 0 (er_total ?r)) v = (sent, v1)"
        by (cases "emit ok (frame ''reset'' (er_output ?r) 0 (er_total ?r)) v")
      have unfold: "view_replay ok read v =
          (if \<not> sent then Some (True, v1) else replay_tail ok ?r (v1\<lparr>vw_sent := er_total ?r\<rparr>))"
        using 2 True emit by (simp add: view_replay_def)
      show ?thesis
      proof (cases sent)
        case False
        with emit_cases [OF emit] assms(3) show ?thesis by (intro exI [of _ True] exI [of _ v1]) (simp add: unfold)
      next
        case sent: True
        with emit_cases [OF emit] have v1: "v1 = v\<lparr>vw_frames := vw_frames v @ [frame ''reset'' (er_output ?r) 0 (er_total ?r)]\<rparr>"
          by simp
        have "shows_text buf base (v1\<lparr>vw_sent := er_total ?r\<rparr>)"
          using assms(3) all T by (simp add: v1 shows_text_def window_text_append window_apply_def frame_def)
        from replay_tail_shows [OF assms(1) this refl, of "vw_sent v"] sent show ?thesis by (simp add: unfold)
      qed
    qed
  qed
qed

text \<open>An event tells of a text when its piece is where it says.\<close>

definition tells_text :: "string \<Rightarrow> stream_event \<Rightarrow> bool" where
  "tells_text buf ev \<longleftrightarrow>
     se_type ev = StreamDelta \<longrightarrow>
     int (length (se_delta ev)) \<le> se_offset ev \<and> se_offset ev \<le> int (length buf) \<and>
     se_delta ev = slice buf (nat (se_offset ev - int (length (se_delta ev)))) (nat (se_offset ev))"

lemma tells_text_grows: "tells_text buf ev \<Longrightarrow> tells_text (buf @ t) ev"
  by (auto simp: tells_text_def slice_def)

lemma view_send_delta_shows:
  assumes "tells_text buf ev" "se_type ev = StreamDelta" "shows_text buf base v"
  shows "shows_text buf base (view_send_delta ok ev v)"
proof -
  let ?start = "se_offset ev - int (length (se_delta ev))"
  let ?skip = "vw_sent v - ?start"
  show ?thesis
  proof (cases "se_offset ev \<le> vw_sent v \<or> ?skip < 0 \<or> int (length (se_delta ev)) < ?skip")
    case True
    then show ?thesis using assms(3) by (simp add: view_send_delta_def Let_def)
  next
    case False
    let ?f = "frame ''message'' (drop (nat ?skip) (se_delta ev)) (vw_sent v) (se_offset ev)"
    obtain sent v1 where emit: "emit ok ?f v = (sent, v1)" by (cases "emit ok ?f v")
    from assms(1,2) have ev: "0 \<le> ?start" "se_offset ev \<le> int (length buf)"
        "se_delta ev = slice buf (nat ?start) (nat (se_offset ev))"
      by (auto simp: tells_text_def)
    have "drop (nat ?skip) (slice buf (nat ?start) (nat (se_offset ev))) = slice buf (nat (vw_sent v)) (nat (se_offset ev))"
    proof -
      have "nat ?skip + nat ?start = nat (vw_sent v)" using False ev(1) by (subst nat_add_distrib [symmetric]) auto
      then show ?thesis by (simp add: slice_def drop_take) (metis diff_diff_left add.commute)
    qed
    then have d: "drop (nat ?skip) (se_delta ev) = slice buf (nat (vw_sent v)) (nat (se_offset ev))"
      using ev(3) by simp
    have pos: "0 \<le> vw_sent v" "vw_sent v \<le> vw_sent v" "vw_sent v < se_offset ev"
      using assms(3) False by (auto simp: shows_text_def)
    note msg = emit_message [OF assms(3) emit pos ev(2) d]
    show ?thesis using False emit msg by (cases sent) (simp_all add: view_send_delta_def Let_def)
  qed
qed

lemma view_event_shows:
  assumes "reads_text buf x" "can_read x read" "tells_text buf ev" "shows_text buf base v"
  shows "\<exists>v'. view_event ok read ev v = Some v' \<and> shows_text buf base v'"
proof -
  obtain over v1 where r: "view_replay ok read v = Some (over, v1)" "shows_text buf base v1"
    using view_replay_shows [OF assms(1,2,4)] by blast
  have note_shows: "shows_text buf base (view_over (snd (emit ok (frame e d a b) v1)))"
    if "e \<noteq> ''message''" "e \<noteq> ''reset''" for e d a b
    using emit_note [OF r(2) that] by simp
  show ?thesis
  proof (cases "se_type ev = StreamDelta")
    case False
    with assms(4) r note_shows show ?thesis by (auto simp: view_event_def)
  next
    case True
    note delta = view_send_delta_shows [OF assms(3) True]
    from True assms(4) r note_shows delta [OF assms(4)] delta [OF r(2)] show ?thesis
      by (auto simp: view_event_def Let_def)
  qed
qed

lemma view_closed_shows:
  assumes "reads_text buf x" "can_read x read" "shows_text buf base v"
  shows "\<exists>v'. view_closed ok read v = Some v' \<and> shows_text buf base v'"
proof -
  obtain over v1 where r: "view_replay ok read v = Some (over, v1)" "shows_text buf base v1"
    using view_replay_shows [OF assms] by blast
  with emit_note [OF r(2), of "''retry''"] show ?thesis by (simp add: view_closed_def)
qed

lemma view_start_shows:
  assumes "reads_text buf x" "can_read x read" "n \<le> length buf"
  shows "\<exists>v'. view_start ok read (int n) = Some v' \<and> shows_text buf (take n buf) v'"
proof -
  have "shows_text buf (take n buf) \<lparr>vw_sent = int n, vw_frames = [], vw_over = False\<rparr>"
    using assms(3) by (simp add: shows_text_def)
  from view_replay_shows [OF assms(1,2) this] obtain over v1
    where "view_replay ok read \<lparr>vw_sent = int n, vw_frames = [], vw_over = False\<rparr> = Some (over, v1)"
      "shows_text buf (take n buf) v1" by blast
  then show ?thesis by (simp add: view_start_def)
qed

subsection \<open>The whole system\<close>

text \<open>
  A text whose beginnings are all in canonical form: no marker variant is ever rewritten in it. Text
  without an opening angle bracket is.
\<close>

definition plain_text :: "string \<Rightarrow> bool" where
  "plain_text b \<longleftrightarrow> (\<forall>n. normalize_markers (take n b) = take n b)"

lemma plain_text_prefix: "plain_text (b @ t) \<Longrightarrow> plain_text b"
  unfolding plain_text_def
proof
  fix n
  assume "\<forall>n. normalize_markers (take n (b @ t)) = take n (b @ t)"
  then have "normalize_markers (take (min n (length b)) (b @ t)) = take (min n (length b)) (b @ t)" by blast
  then show "normalize_markers (take n b) = take n b" by (simp add: min_def split: if_splits)
qed

lemma eat_hd_in: "eat (c # p) s = Some r \<Longrightarrow> c \<in> set s"
  by (cases s) (auto simp: eat_def split: if_splits)

lemma find_match_None:
  assumes "\<And>t. set t \<subseteq> set s \<Longrightarrow> m t = None"
  shows "find_match m s = None"
proof -
  have "set t \<subseteq> set s \<Longrightarrow> find_match m t = None" for t
    by (induction t) (use assms in \<open>simp_all add: find_match.simps\<close>)
  then show ?thesis by blast
qed

lemma no_bracket_no_marker:
  assumes "CHR ''<'' \<notin> set t"
  shows "thinking_tag ''<'' t = None" "thinking_tag ''</'' t = None" "tool_invoke t = None"
proof -
  show "thinking_tag ''<'' t = None" "thinking_tag ''</'' t = None"
    using assms eat_hd_in by (auto simp: thinking_tag_def bind_eq_None_conv)
  show "tool_invoke t = None"
  proof (rule ccontr)
    assume "tool_invoke t \<noteq> None"
    then have "\<exists>r1 r2 r3 r4. eat ''[Using tool:'' t = Some r1 \<and>
        eat quote (dropWhile name_char (skip_spaces r1)) = Some r2 \<and>
        (eat '']'' r2 = Some r3 \<or> eat ''>'' r2 = Some r3) \<and>
        eat ''<parameter'' (skip_spaces r3) = Some r4"
      by (auto simp: tool_invoke_def Let_def bind_eq_Some_conv split: if_splits option.splits prod.splits; blast)
    then obtain r1 r2 r3 r4 where r: "eat ''[Using tool:'' t = Some r1"
        "eat quote (dropWhile name_char (skip_spaces r1)) = Some r2"
        "eat '']'' r2 = Some r3 \<or> eat ''>'' r2 = Some r3"
        "eat ''<parameter'' (skip_spaces r3) = Some r4" by blast
    have "set r3 \<subseteq> set t"
      using r(1-3) eat_set by (fastforce simp: skip_spaces_def dest: eat_set set_dropWhileD)
    moreover have "CHR ''<'' \<in> set r3"
      using eat_hd_in [OF r(4)] by (auto simp: skip_spaces_def dest: set_dropWhileD)
    ultimately show False using assms by blast
  qed
qed

lemma plain_if_no_bracket:
  assumes "CHR ''<'' \<notin> set b"
  shows "plain_text b"
proof -
  have "normalize_markers s = s" if "CHR ''<'' \<notin> set s" for s
  proof -
    have "CHR ''<'' \<notin> set t" if "set t \<subseteq> set s" for t using that \<open>CHR ''<'' \<notin> set s\<close> by blast
    note nb = no_bracket_no_marker [OF this]
    have none: "find_match (match_len (thinking_tag ''<'')) s = None"
      "find_match (match_len (thinking_tag ''</'')) s = None"
      "find_match (match_len (\<lambda>t. map_option (\<lambda>(n, c, r). r) (tool_invoke t))) s = None"
      by (rule find_match_None, simp add: match_len_def nb)+
    then show ?thesis by (simp add: normalize_markers_def replace_outside_markdown_code_def Let_def)
  qed
  with assms show ?thesis unfolding plain_text_def by (meson in_set_takeD)
qed

text \<open>Storing a text: the rows render it in canonical form.\<close>

lemma well_formed_items_each: "well_formed_items its \<Longrightarrow> list_all well_formed_item its"
  by (induction its rule: well_formed_items.induct) auto

lemma sql_text_rendered: "well_formed_item it \<Longrightarrow> sql_item_text it = render_item it \<and> encoded_item it"
  by (auto simp: well_formed_item_def sql_item_text_def render_item_def encoded_item_def Let_def split: if_splits)

lemma parsed_rows: "concat (map sql_item_text (parse_display s)) = normalize_markers s"
    "list_all encoded_item (parse_display s)"
proof -
  have each: "\<forall>it \<in> set (parse_display s). sql_item_text it = render_item it \<and> encoded_item it"
    using well_formed_items_each [OF parse_display_ok [of s]] sql_text_rendered by (simp add: list_all_iff)
  then have "map sql_item_text (parse_display s) = map render_item (parse_display s)" by simp
  then show "concat (map sql_item_text (parse_display s)) = normalize_markers s"
    using parse_display_renders [of s] unfolding display_text_def by (simp only:)
  from each show "list_all encoded_item (parse_display s)" by (simp add: list_all_iff)
qed

lemma replace_display_output_stores:
  assumes "stored_ok x"
  shows "stored_ok (replace_display_output s x)" "display_output (replace_display_output s x) = normalize_markers s"
    "lx_status (replace_display_output s x) = lx_status x"
  using assms parsed_rows [of s]
  by (auto simp: replace_display_output_def stored_ok_def display_output_def finalized_output_def stream_output_def)

lemma append_output_stores:
  assumes "stored_ok x" "lx_status x = ExecRunning" "valid_utf8 s"
  shows "stored_ok (append_output s x)" "display_output (append_output s x) = display_output x @ s"
proof -
  have "stored_ok (append_output s x) \<and> display_output (append_output s x) = display_output x @ s"
  proof (cases "s = []")
    case False
    have "chunks_ok 0 (lx_chunks x @ [(pending_bytes x + length s, s)])"
      using chunks_ok_snoc [of 0 "lx_chunks x" s] assms(1) pending_bytes_length [of x]
      by (simp add: stored_ok_def stream_output_def)
    with False assms show ?thesis
      by (auto simp: append_output_def Let_def stored_ok_def display_output_def finalized_output_def stream_output_def)
  qed (use assms in \<open>simp add: append_output_def Let_def\<close>)
  then show "stored_ok (append_output s x)" "display_output (append_output s x) = display_output x @ s" by blast+
qed

lemma append_output_not_running: "lx_status x \<noteq> ExecRunning \<Longrightarrow> append_output s x = x"
  by (simp add: append_output_def Let_def)

lemma append_output_status [simp]: "lx_status (append_output s x) = lx_status x"
  by (simp add: append_output_def Let_def)

lemma finalize_output_not_running: "lx_status x \<noteq> ExecRunning \<Longrightarrow> finalize_output s x = x"
  by (simp add: finalize_output_def)

lemma normalize_Nil [simp]: "normalize_markers [] = []"
  by (simp add: normalize_markers_def)

lemma complete_exec_stores:
  assumes "stored_ok x" "plain_text b" "display_output x = take n b" "n \<le> length b" "out = [] \<or> out = b"
  shows "stored_ok (complete_exec st out err x)" "lx_status (complete_exec st out err x) = st"
    "\<exists>m \<le> length b. display_output (complete_exec st out err x) = take m b"
proof -
  let ?x = "x\<lparr>lx_status := st, lx_error := err\<rparr>"
  have x: "stored_ok ?x" "display_output ?x = display_output x"
    using assms(1) by (simp_all add: stored_ok_def display_output_def finalized_output_def stream_output_def)
  have norm: "normalize_markers out = out" "normalize_markers (display_output x) = display_output x"
    using assms(2,3,5) unfolding plain_text_def by (metis normalize_Nil take_all order_refl)+
  note store = replace_display_output_stores [OF x(1)]
  consider "out \<noteq> []" "complete_exec st out err x = replace_display_output out ?x"
    | "complete_exec st out err x = ?x" | "complete_exec st out err x = replace_display_output (display_output x) ?x"
    using x(2) by (cases "out = []"; cases "lx_chunks x = []") (simp_all add: complete_exec_def finalize_display_output_def norm)
  then have "stored_ok (complete_exec st out err x) \<and> lx_status (complete_exec st out err x) = st \<and>
    (\<exists>m \<le> length b. display_output (complete_exec st out err x) = take m b)"
  proof cases
    case 1
    with store [of out] norm assms(5) show ?thesis by auto
  next
    case 2
    with x assms(3,4) show ?thesis by auto
  next
    case 3
    with store [of "display_output x"] norm assms(3,4) show ?thesis by auto
  qed
  then show "stored_ok (complete_exec st out err x)" "lx_status (complete_exec st out err x) = st"
    "\<exists>m \<le> length b. display_output (complete_exec st out err x) = take m b" by blast+
qed

text \<open>
  What holds of every state. \<open>k\<close> is the writer's offset and \<open>len\<close> the length of the stored text; while
  the execution runs, the two agree but for the section between an append and its acknowledgement.
\<close>

definition piece_of :: "string \<Rightarrow> nat \<Rightarrow> string \<Rightarrow> bool" where
  "piece_of b start out \<longleftrightarrow>
     start + length out \<le> length b \<and> out = slice b start (start + length out) \<and> valid_utf8 out"

definition final_ok :: "string \<Rightarrow> string option \<Rightarrow> nat \<Rightarrow> bool" where
  "final_ok b final m \<longleftrightarrow> (\<forall>o'. final = Some o' \<longrightarrow> o' = take m b \<and> length o' = m \<and> valid_utf8 o')"

fun flush_ok :: "string \<Rightarrow> nat \<Rightarrow> bool \<Rightarrow> nat \<Rightarrow> flush_phase \<Rightarrow> bool" where
  "flush_ok b k running len NoFlush = (running \<longrightarrow> len = k)"
| "flush_ok b k running len (Appending start out final) =
     (start = k \<and> piece_of b start out \<and> final_ok b final (start + length out) \<and> (running \<longrightarrow> len = k))"
| "flush_ok b k running len (Appended start out final) =
     (start = k \<and> piece_of b start out \<and> final_ok b final (start + length out) \<and>
      (running \<longrightarrow> len = start + length out))"
| "flush_ok b k running len (Finalizing out) =
     (final_ok b (Some out) (length out) \<and> k \<le> length out \<and> (running \<longrightarrow> len = k))"
| "flush_ok b k running len (Finalized out) =
     (final_ok b (Some out) (length out) \<and> k \<le> length out \<and> (running \<longrightarrow> len = length out))"

definition exec_inv :: "string \<Rightarrow> live_exec \<Rightarrow> bool" where
  "exec_inv b x \<longleftrightarrow> stored_ok x \<and> (\<exists>n \<le> length b. display_output x = take n b)"

definition live_inv :: "live_system \<Rightarrow> bool" where
  "live_inv s \<longleftrightarrow>
     (let b = wr_buf (lv_writer s); k = wr_offset (lv_writer s); x = lv_exec s
      in valid_utf8 b \<and> k \<le> length b \<and> valid_utf8 (take k b) \<and> exec_inv b x \<and>
         flush_ok b k (lx_status x = ExecRunning) (length (display_output x)) (lv_flush s) \<and>
         (\<forall>ev \<in> set (lv_events s). tells_text b ev) \<and>
         (\<forall>v. lv_view s = Some v \<longrightarrow> shows_text b (lv_base s) v))"

lemma exec_inv_reads: "exec_inv b x \<Longrightarrow> valid_utf8 b \<Longrightarrow> reads_text b x"
  using rune_spaced_take [OF valid_utf8_spaced] by (auto simp: exec_inv_def reads_text_def)

text \<open>The buffer grows by valid text.\<close>

lemma piece_of_grows: "piece_of b start out \<Longrightarrow> piece_of (b @ t) start out"
  by (auto simp: piece_of_def slice_def)

lemma final_ok_grows: "final_ok b final m \<Longrightarrow> final_ok (b @ t) final m"
  by (fastforce simp: final_ok_def)

lemma flush_ok_grows: "flush_ok b k running len f \<Longrightarrow> flush_ok (b @ t) k running len f"
  by (cases f) (auto intro: piece_of_grows final_ok_grows)

lemma exec_inv_grows: "exec_inv b x \<Longrightarrow> exec_inv (b @ t) x"
proof -
  assume "exec_inv b x"
  then obtain n where "stored_ok x" "n \<le> length b" "display_output x = take n b" by (auto simp: exec_inv_def)
  then show ?thesis unfolding exec_inv_def by (intro conjI exI [of _ n]) simp_all
qed

lemma buf_write_inv:
  assumes "live_inv s" "valid_utf8 t"
  shows "live_inv (publish_events (buf_write t (lv_writer s)) s)"
proof -
  let ?b = "wr_buf (lv_writer s)"
  have "tells_text (?b @ t) (delta_event t (?b @ t))"
    by (simp add: tells_text_def delta_event_def slice_def)
  with assms show ?thesis
    by (auto simp: live_inv_def Let_def publish_events_def buf_write_def
        intro: valid_utf8_append exec_inv_grows flush_ok_grows tells_text_grows shows_text_grows)
qed

lemma writer_write_inv:
  assumes "live_inv s"
  shows "live_inv (publish_events (writer_write p (lv_writer s)) s)" "live_inv (publish_events (write_string p (lv_writer s)) s)"
  using buf_write_inv [OF assms] to_valid_is_valid by (simp_all add: writer_write_def write_string_def)

text \<open>The sections of a flush.\<close>

lemma valid_utf8_drop: "valid_utf8 (s @ t) \<Longrightarrow> valid_utf8 s \<Longrightarrow> valid_utf8 t"
proof (induction s rule: valid_utf8.induct)
  case (1 s)
  show ?case
  proof (cases "s = []")
    case False
    with 1(3) obtain n where n: "rune_len s = Some n" and v: "valid_utf8 (drop n s)"
      by (subst (asm) valid_utf8.simps) (auto split: option.splits)
    have "drop n (s @ t) = drop n s @ t" using rune_len_bounds [OF n] by simp
    then have "valid_utf8 (drop n s @ t)"
      using 1(2) False rune_len_append [OF n] by (subst (asm) valid_utf8.simps) simp
    from 1(1) [OF False n this v] show ?thesis .
  qed (use 1 in simp)
qed

lemma flush_begin_inv:
  assumes "live_inv s" "lv_flush s = NoFlush"
  shows "live_inv (flush_begin final s)"
proof -
  let ?b = "wr_buf (lv_writer s)" and ?k = "wr_offset (lv_writer s)"
  have inv: "valid_utf8 ?b" "?k \<le> length ?b" "valid_utf8 (take ?k ?b)"
    using assms(1) by (auto simp: live_inv_def Let_def)
  have "valid_utf8 (drop ?k ?b)" using valid_utf8_drop [of "take ?k ?b" "drop ?k ?b"] inv by simp
  with inv(2) have piece: "piece_of ?b ?k (drop ?k ?b)" by (simp add: piece_of_def slice_def)
  have final: "final_ok ?b (if final then Some ?b else None) (length ?b)" using inv(1) by (simp add: final_ok_def)
  have fl: "live_inv (s\<lparr>lv_flush := f\<rparr>)"
    if "flush_ok ?b ?k (lx_status (lv_exec s) = ExecRunning) (length (display_output (lv_exec s))) f" for f
    using assms(1) that by (simp add: live_inv_def Let_def)
  have len: "lx_status (lv_exec s) = ExecRunning \<longrightarrow> length (display_output (lv_exec s)) = ?k"
    using assms by (simp add: live_inv_def Let_def)
  consider "drop ?k ?b \<noteq> []"
      "flush_begin final s = s\<lparr>lv_flush := Appending ?k (drop ?k ?b) (if final then Some ?b else None)\<rparr>"
    | "final" "flush_begin final s = s\<lparr>lv_flush := Finalizing ?b\<rparr>" | "flush_begin final s = s"
    by (cases "drop ?k ?b = []"; cases final; cases "?b = []") (simp_all add: flush_begin_def pending_delta_def Let_def)
  then show ?thesis
  proof cases
    case 1
    have "?k + length (drop ?k ?b) = length ?b" using inv(2) by simp
    with piece final len have "flush_ok ?b ?k (lx_status (lv_exec s) = ExecRunning) (length (display_output (lv_exec s)))
        (Appending ?k (drop ?k ?b) (if final then Some ?b else None))" by (simp only: flush_ok.simps)
    with 1(2) fl show ?thesis by simp
  next
    case 2
    with final len inv(2) fl [of "Finalizing ?b"] show ?thesis by simp
  qed (use assms(1) in simp)
qed

lemma after_append_ok:
  "final_ok b final m \<Longrightarrow> k \<le> m \<Longrightarrow> (running \<longrightarrow> len = k) \<Longrightarrow> flush_ok b k running len (after_append final)"
  by (auto simp: after_append_def final_ok_def split: option.splits)

lemma fail_append_inv:
  assumes "live_inv s" "lv_flush s = Appending start out final"
  shows "live_inv (s\<lparr>lv_flush := after_append final\<rparr>)"
  using assms after_append_ok [where k = start and m = "start + length out"]
  by (auto simp: live_inv_def Let_def)

lemma do_append_inv:
  assumes "live_inv s" "lv_flush s = Appending start out final"
  shows "live_inv (s\<lparr>lv_exec := append_output out (lv_exec s), lv_flush := Appended start out final\<rparr>)"
proof -
  let ?b = "wr_buf (lv_writer s)" and ?x = "lv_exec s"
  have inv: "stored_ok ?x" "start = wr_offset (lv_writer s)" "piece_of ?b start out"
      "final_ok ?b final (start + length out)" "exec_inv ?b ?x"
      "lx_status ?x = ExecRunning \<longrightarrow> length (display_output ?x) = start"
    using assms by (auto simp: live_inv_def Let_def exec_inv_def)
  show ?thesis
  proof (cases "lx_status ?x = ExecRunning")
    case False
    with assms inv show ?thesis by (simp add: live_inv_def Let_def append_output_not_running)
  next
    case True
    have p: "start + length out \<le> length ?b" "out = slice ?b start (start + length out)" "valid_utf8 out"
      using inv(3) by (auto simp: piece_of_def)
    note store = append_output_stores [OF inv(1) True p(3)]
    from inv(5,6) True obtain n where "n \<le> length ?b" "display_output ?x = take n ?b" by (auto simp: exec_inv_def)
    then have "display_output ?x = take start ?b" using inv(6) True by (auto simp: min_def split: if_splits)
    then have out: "display_output (append_output out ?x) = take (start + length out) ?b"
      unfolding store(2) by (subst p(2)) (simp add: slice_def take_add)
    have "exec_inv ?b (append_output out ?x)"
      unfolding exec_inv_def using store(1) out p(1) by blast
    moreover have "length (display_output (append_output out ?x)) = start + length out" using out p(1) by simp
    ultimately show ?thesis using assms inv by (simp add: live_inv_def Let_def)
  qed
qed

lemma tells_persisted [simp]: "tells_text b (persisted_event n)"
  by (simp add: tells_text_def persisted_event_def)

lemma end_append_inv:
  assumes "live_inv s" "lv_flush s = Appended start out final"
  shows "live_inv ((publish_events (flush_appended start out (lv_writer s)) s)\<lparr>lv_flush := after_append final\<rparr>)"
proof -
  let ?b = "wr_buf (lv_writer s)" and ?m = "start + length out"
  have inv: "piece_of ?b start out" "final_ok ?b final ?m" "valid_utf8 (take start ?b)"
    using assms by (auto simp: live_inv_def Let_def)
  then have p: "?m \<le> length ?b" "out = slice ?b start ?m" "valid_utf8 out" by (auto simp: piece_of_def)
  have "take ?m ?b = take start ?b @ out" by (subst p(2)) (simp add: slice_def take_add)
  with valid_utf8_append [OF inv(3) p(3)] have "valid_utf8 (take ?m ?b)" by simp
  moreover have "lx_status (lv_exec s) = ExecRunning \<longrightarrow> length (display_output (lv_exec s)) = ?m"
    using assms by (simp add: live_inv_def Let_def)
  ultimately show ?thesis
    using assms p(1) after_append_ok [OF inv(2) order_refl, of "lx_status (lv_exec s) = ExecRunning"]
    by (simp add: live_inv_def Let_def publish_events_def flush_appended_def)
qed

lemma do_finalize_inv:
  assumes "live_inv s" "lv_flush s = Finalizing out" "plain_text (wr_buf (lv_writer s))"
  shows "live_inv (s\<lparr>lv_exec := finalize_output out (lv_exec s), lv_flush := Finalized out\<rparr>)"
proof -
  let ?b = "wr_buf (lv_writer s)" and ?x = "lv_exec s"
  have inv: "stored_ok ?x" "final_ok ?b (Some out) (length out)" "wr_offset (lv_writer s) \<le> length out"
    using assms by (auto simp: live_inv_def Let_def exec_inv_def)
  then have out: "out = take (length out) ?b" by (simp add: final_ok_def)
  show ?thesis
  proof (cases "lx_status ?x = ExecRunning")
    case False
    with assms inv show ?thesis by (simp add: live_inv_def Let_def finalize_output_not_running)
  next
    case True
    have norm: "normalize_markers out = out" using assms(3) out unfolding plain_text_def by metis
    have fin: "finalize_output out ?x = replace_display_output out ?x" using True by (simp add: finalize_output_def)
    note store = replace_display_output_stores [OF inv(1), of out, unfolded norm]
    have len: "length out \<le> length ?b" using out by (metis length_take min.cobounded1)
    have "exec_inv ?b (finalize_output out ?x)"
      unfolding exec_inv_def fin using store(1,2) out len by metis
    then show ?thesis using assms inv store(2,3) by (simp add: live_inv_def Let_def fin)
  qed
qed

lemma end_finalize_inv:
  assumes "live_inv s" "lv_flush s = Finalized out"
  shows "live_inv ((publish_events (flush_finalized out (lv_writer s)) s)\<lparr>lv_flush := NoFlush\<rparr>)"
proof -
  let ?b = "wr_buf (lv_writer s)" and ?k = "wr_offset (lv_writer s)"
  have inv: "final_ok ?b (Some out) (length out)" "?k \<le> length out" "valid_utf8 (take ?k ?b)"
    using assms by (auto simp: live_inv_def Let_def)
  then have out: "out = take (length out) ?b" "valid_utf8 out" by (auto simp: final_ok_def)
  have k: "(if ?k < length out then length out else ?k) = length out" using inv(2) by simp
  have "length out \<le> length ?b" "valid_utf8 (take (length out) ?b)"
    using out by (metis length_take min.cobounded1, metis)
  then show ?thesis
    using assms by (simp add: live_inv_def Let_def publish_events_def flush_finalized_def k)
qed

lemma complete_inv:
  assumes "live_inv s" "exec_terminal st" "out = [] \<or> out = wr_buf (lv_writer s)" "plain_text (wr_buf (lv_writer s))"
  shows "live_inv (s\<lparr>lv_exec := complete_exec st out err (lv_exec s)\<rparr>)"
proof -
  let ?b = "wr_buf (lv_writer s)"
  from assms(1) obtain n where x: "stored_ok (lv_exec s)" "n \<le> length ?b" "display_output (lv_exec s) = take n ?b"
    by (auto simp: live_inv_def Let_def exec_inv_def)
  note stored = complete_exec_stores [OF x(1) assms(4) x(3,2) assms(3), of st err]
  have "st \<noteq> ExecRunning" using assms(2) by (auto simp: exec_terminal_def)
  moreover have "flush_ok ?b k False len f" if "flush_ok ?b k r len' f" for k len f r len'
    using that by (cases f) auto
  ultimately show ?thesis using assms(1) stored by (auto simp: live_inv_def Let_def exec_inv_def)
qed

lemma live_step_inv:
  assumes "live_step s s'" "live_inv s" "plain_text (wr_buf (lv_writer s))"
  shows "live_inv s'"
  using assms(1)
proof cases
  case (watch n read ok v)
  let ?b = "wr_buf (lv_writer s)"
  have "reads_text ?b (lv_exec s)" using assms(2) exec_inv_reads by (simp add: live_inv_def Let_def)
  from view_start_shows [OF this watch(3,2), of ok] watch(4) have "shows_text ?b (take n ?b) v" by simp
  with assms(2) show ?thesis unfolding watch(1) by (simp add: live_inv_def Let_def)
next
  case (deliver v ev read ok v')
  let ?b = "wr_buf (lv_writer s)"
  have "reads_text ?b (lv_exec s)" "tells_text ?b ev" "shows_text ?b (lv_base s) v"
    using assms(2) exec_inv_reads deliver(2,4) by (simp_all add: live_inv_def Let_def)
  from view_event_shows [OF this(1) deliver(5) this(2,3), of ok] deliver(6) have "shows_text ?b (lv_base s) v'" by simp
  with assms(2) show ?thesis unfolding deliver(1) by (simp add: live_inv_def Let_def)
next
  case (closed v read ok v')
  let ?b = "wr_buf (lv_writer s)"
  have "reads_text ?b (lv_exec s)" "shows_text ?b (lv_base s) v"
    using assms(2) exec_inv_reads closed(2) by (simp_all add: live_inv_def Let_def)
  from view_closed_shows [OF this(1) closed(4) this(2), of ok] closed(5) have "shows_text ?b (lv_base s) v'" by simp
  with assms(2) show ?thesis unfolding closed(1) by (simp add: live_inv_def Let_def)
next
  case (stream_end ev)
  then have "tells_text (wr_buf (lv_writer s)) ev" by (auto simp: tells_text_def)
  with assms(2) show ?thesis unfolding stream_end(1) by (auto simp: live_inv_def Let_def)
next
  case (raw_write p)
  show ?thesis unfolding raw_write by (rule writer_write_inv(1) [OF assms(2)])
next
  case (text_write p)
  show ?thesis unfolding text_write by (rule writer_write_inv(2) [OF assms(2)])
next
  case (mark w p)
  then show ?thesis
    using assms(2) by (auto simp: live_inv_def Let_def write_text_string_def mark_error_def set_session_id_def)
next
  case (begin_flush final)
  show ?thesis unfolding begin_flush(1) by (rule flush_begin_inv [OF assms(2) begin_flush(2)])
next
  case (do_append start out final)
  show ?thesis unfolding do_append(1) by (rule do_append_inv [OF assms(2) do_append(2)])
next
  case (fail_append start out final)
  show ?thesis unfolding fail_append(1) by (rule fail_append_inv [OF assms(2) fail_append(2)])
next
  case (end_append start out final)
  show ?thesis unfolding end_append(1) by (rule end_append_inv [OF assms(2) end_append(2)])
next
  case (do_finalize out)
  show ?thesis unfolding do_finalize(1) by (rule do_finalize_inv [OF assms(2) do_finalize(2) assms(3)])
next
  case (fail_finalize out)
  then show ?thesis using assms(2) by (simp add: live_inv_def Let_def)
next
  case (end_finalize out)
  show ?thesis unfolding end_finalize(1) by (rule end_finalize_inv [OF assms(2) end_finalize(2)])
next
  case (complete st out err)
  show ?thesis unfolding complete(1) by (rule complete_inv [OF assms(2) complete(2,3) assms(3)])
qed

lemma live_step_buf: "live_step s s' \<Longrightarrow> \<exists>t. wr_buf (lv_writer s') = wr_buf (lv_writer s) @ t"
  by (induction rule: live_step.induct)
     (auto simp: publish_events_def writer_write_def write_string_def buf_write_def flush_begin_def pending_delta_def
        flush_appended_def flush_finalized_def write_text_string_def mark_error_def set_session_id_def Let_def)

lemma new_writer_loaded:
  "seeded \<or> display_output x = [] \<Longrightarrow> wr_buf (new_writer (if seeded then Inr (Some x) else Inl ())) = display_output x \<and>
     wr_offset (new_writer (if seeded then Inr (Some x) else Inl ())) = length (display_output x)"
  by (auto simp: new_writer_def Let_def)

lemma live_init_inv:
  assumes "stored_ok x" "valid_utf8 (display_output x)" "seeded \<or> display_output x = []"
  shows "live_inv (live_init seeded x)"
  using assms(1,2) new_writer_loaded [OF assms(3)] by (auto simp: live_inv_def live_init_def exec_inv_def Let_def)

lemma live_reachable_inv:
  assumes "live_reachable seeded x s" "stored_ok x" "valid_utf8 (display_output x)" "seeded \<or> display_output x = []"
    "plain_text (wr_buf (lv_writer s))"
  shows "live_inv s"
  using assms
proof (induction rule: live_reachable.induct)
  case init
  then show ?case by (intro live_init_inv)
next
  case (step s s')
  obtain t where "wr_buf (lv_writer s') = wr_buf (lv_writer s) @ t" using live_step_buf [OF step(2)] by blast
  with step(7) plain_text_prefix have plain: "plain_text (wr_buf (lv_writer s))" by metis
  show ?case by (rule live_step_inv [OF step(2) step(3) [OF step(4,5,6) plain] plain])
qed

text \<open>C7: Whatever is written and flushed in whatever order, whichever events reach a window and when,
  and whichever of its reads and of the writer's appends and finalizations fail, a window has exactly
  the beginning of the agent's output its cursor says: no byte twice, none left out, and no frame
  that starts beyond what it has. The writer could load the output the execution had before, or there
  was none; and the output is one no marker variant is rewritten in. \<open>failed_seed_loses_output\<close> and
  \<open>alias_repeats_tail\<close> show what happens otherwise.\<close>

theorem window_shows_output:
  assumes "live_reachable seeded x s" "stored_ok x" "valid_utf8 (display_output x)" "seeded \<or> display_output x = []"
    and "plain_text (wr_buf (lv_writer s))" "lv_view s = Some v"
  shows "window_text (vw_frames v) (lv_base s) = Some (take (nat (vw_sent v)) (wr_buf (lv_writer s))) \<and>
    0 \<le> vw_sent v \<and> vw_sent v \<le> int (length (wr_buf (lv_writer s)))"
  using live_reachable_inv [OF assms(1-5)] assms(6) by (simp add: live_inv_def Let_def shows_text_def)

subsection \<open>The code of a window always returns\<close>

text \<open>
  For that the stored text only has to be valid UTF-8, which it stays whatever is written and
  finalized, marker variants or not, and whether the writer knows the text or not.
\<close>

fun flush_valid :: "flush_phase \<Rightarrow> bool" where
  "flush_valid (Appending start out (Some final)) = valid_utf8 final"
| "flush_valid (Appended start out (Some final)) = valid_utf8 final"
| "flush_valid (Finalizing out) = valid_utf8 out"
| "flush_valid p = True"

definition texts_valid :: "live_system \<Rightarrow> bool" where
  "texts_valid s \<longleftrightarrow> stored_ok (lv_exec s) \<and> valid_utf8 (display_output (lv_exec s)) \<and> valid_utf8 (wr_buf (lv_writer s)) \<and>
     flush_valid (lv_flush s)"

lemma append_output_valid:
  assumes "stored_ok x" "valid_utf8 (display_output x)"
  shows "stored_ok (append_output s x) \<and> valid_utf8 (display_output (append_output s x))"
proof (cases "lx_status x = ExecRunning")
  case True
  define t where "t = (if valid_utf8 s then s else repair_runes s)"
  have v: "valid_utf8 t" by (simp add: t_def repair_runes_valid)
  have "append_output s x = append_output t x" using v by (auto simp: append_output_def Let_def t_def)
  with append_output_stores [OF assms(1) True v] assms(2) v show ?thesis by (simp add: valid_utf8_append)
qed (use assms in \<open>simp add: append_output_not_running\<close>)

lemma replace_output_valid:
  "stored_ok x \<Longrightarrow> valid_utf8 s \<Longrightarrow>
   stored_ok (replace_display_output s x) \<and> valid_utf8 (display_output (replace_display_output s x))"
  by (simp add: replace_display_output_stores normalize_markers_valid)

lemma complete_exec_valid:
  assumes "stored_ok x" "valid_utf8 (display_output x)" "valid_utf8 out"
  shows "stored_ok (complete_exec st out err x) \<and> valid_utf8 (display_output (complete_exec st out err x))"
proof -
  let ?x = "x\<lparr>lx_status := st, lx_error := err\<rparr>"
  have x: "stored_ok ?x" "display_output ?x = display_output x"
    using assms(1) by (simp_all add: stored_ok_def display_output_def finalized_output_def stream_output_def)
  with assms replace_output_valid [OF x(1)] show ?thesis
    by (simp add: complete_exec_def finalize_display_output_def normalize_markers_valid)
qed

lemma texts_valid_step:
  assumes "live_step s s'" "texts_valid s" shows "texts_valid s'"
  using assms
proof cases
  case (begin_flush final)
  with assms(2) show ?thesis by (auto simp: texts_valid_def flush_begin_def pending_delta_def Let_def)
next
  case (do_append start out final)
  with assms(2) append_output_valid [of "lv_exec s" out] show ?thesis by (cases final) (auto simp: texts_valid_def)
next
  case (fail_append start out final)
  with assms(2) show ?thesis by (cases final) (auto simp: texts_valid_def after_append_def)
next
  case (end_append start out final)
  with assms(2) show ?thesis
    by (cases final) (auto simp: texts_valid_def after_append_def publish_events_def flush_appended_def)
next
  case (do_finalize out)
  with assms(2) replace_output_valid [of "lv_exec s" out] show ?thesis by (auto simp: texts_valid_def finalize_output_def)
next
  case (complete st out err)
  with assms(2) complete_exec_valid [of "lv_exec s" out st err] show ?thesis by (auto simp: texts_valid_def)
qed (auto simp: texts_valid_def publish_events_def writer_write_def write_string_def buf_write_def Let_def to_valid_is_valid
     write_text_string_def mark_error_def set_session_id_def flush_finalized_def valid_utf8_append)

lemma texts_valid_reachable:
  assumes "live_reachable seeded x s" "stored_ok x" "valid_utf8 (display_output x)"
  shows "texts_valid s"
  using assms(1)
proof (induction rule: live_reachable.induct)
  case init
  show ?case using assms(2,3) by (simp add: texts_valid_def live_init_def new_writer_def Let_def)
next
  case (step s s') then show ?case using texts_valid_step by blast
qed

lemma send_chunks_ends: "rune_spaced out \<Longrightarrow> send_chunks ok out base start v \<noteq> None"
proof (induction "length out - start" arbitrary: start v rule: less_induct)
  case less
  show ?case
  proof (cases "start < length out")
    case True
    define e where "e = clamp_offset (min (start + chunk_size) (length out)) out"
    note e = clamp_offset_bounds [OF less.prems True, folded e_def]
    obtain sent v1 where emit: "emit ok (frame ''message'' (slice out start e) (base + int start) (base + int e)) v = (sent, v1)"
      by (rule prod.exhaust)
    have "send_chunks ok out base start v =
        (if \<not> sent then Some (True, v1) else send_chunks ok out base e (v1\<lparr>vw_sent := base + int e\<rparr>))"
      using True by (subst send_chunks.simps) (simp add: e_def [symmetric] Let_def emit)
    moreover have "send_chunks ok out base e w \<noteq> None" for w using less.hyps [OF _ less.prems, of e w] e True by simp
    ultimately show ?thesis by (simp del: not_None_eq)
  qed (subst send_chunks.simps, simp)
qed

lemma read_output_spaced:
  assumes "stored_ok x" "valid_utf8 (display_output x)" shows "rune_spaced (er_output (read_output_after x off))"
proof -
  note sp = valid_utf8_spaced [OF assms(2)]
  have eq: "read_output_after x off = read_output_after x (int (nat off))" by (simp add: read_output_after_def)
  have "rune_spaced []" by (simp add: rune_spaced_def)
  with sp rune_spaced_drop [OF sp] show ?thesis
    unfolding eq by (rule_tac read_output_after_parts [OF assms(1), of "int (nat off)"]) simp_all
qed

lemma view_replay_returns:
  assumes "stored_ok x" "valid_utf8 (display_output x)" "can_read x read"
  shows "view_replay ok read v \<noteq> None"
proof -
  have tail: "replay_tail ok (read_output_after x off) w \<noteq> None" for off w
    using send_chunks_ends [OF read_output_spaced [OF assms(1,2), of off],
        of ok "er_start (read_output_after x off)" 0 w]
    by (auto simp: replay_tail_def)
  let ?r = "read_output_after x (vw_sent v)"
  from assms(3) consider "read (vw_sent v) = Inl ()" | "read (vw_sent v) = Inr (Some ?r)" unfolding can_read_def by blast
  then show ?thesis
  proof cases
    case 2
    obtain sent w where e: "emit ok (frame ''reset'' (er_output ?r) 0 (er_total ?r)) v = (sent, w)" by (rule prod.exhaust)
    show ?thesis using tail [of "vw_sent v"] by (simp add: view_replay_def 2 e del: not_None_eq)
  qed (simp add: view_replay_def)
qed

text \<open>C40: The code that follows an execution for a window always returns, with a terminal frame or
  ready for the next event: from any offset, at any event and at the end of its channel, whatever
  was written, flushed and finalized before and whichever calls failed. The loop that cuts a replay
  into chunks ends since the stored text is valid UTF-8 all along, as it was at the start; nothing is
  asked of its markers, nor that the writer could load it.\<close>

theorem window_code_returns:
  assumes "live_reachable seeded x s" "stored_ok x" "valid_utf8 (display_output x)" "can_read (lv_exec s) read"
  shows "view_start ok read off \<noteq> None \<and> view_event ok read ev v \<noteq> None \<and> view_closed ok read v \<noteq> None"
proof -
  have "view_replay ok read w \<noteq> None" for w
    using texts_valid_reachable [OF assms(1-3)] view_replay_returns [OF _ _ assms(4)] by (simp add: texts_valid_def del: not_None_eq)
  then obtain over w where "view_replay ok read v = Some (over, w)" "view_replay ok read \<lparr>vw_sent = off, vw_frames = [], vw_over = False\<rparr> \<noteq> None"
    by fastforce
  then show ?thesis by (simp add: view_start_def view_event_def view_closed_def Let_def)
qed

subsection \<open>Runs\<close>

text \<open>A run with one of every kind of step that matters here, to see the theorems at work.\<close>

definition fresh_exec :: live_exec where
  "fresh_exec = \<lparr>lx_status = ExecRunning, lx_error = [], lx_items = [], lx_chunks = [], lx_digest = None\<rparr>"

definition reading :: "live_exec \<Rightarrow> replay_read" where
  "reading x off = Inr (Some (read_output_after x off))"

lemma can_reading: "can_read x (reading x)"
  by (simp add: can_read_def reading_def)

definition run_flushed :: "string \<Rightarrow> live_system \<Rightarrow> live_system" where
  "run_flushed p s =
     (let s = publish_events (write_string p (lv_writer s)) s;
          s = s\<lparr>lv_flush := Appending (wr_offset (lv_writer s)) (to_valid p) None\<rparr>;
          s = s\<lparr>lv_exec := append_output (to_valid p) (lv_exec s), lv_flush := Appended (wr_offset (lv_writer s)) (to_valid p) None\<rparr>
      in (publish_events (flush_appended (wr_offset (lv_writer s)) (to_valid p) (lv_writer s)) s)\<lparr>lv_flush := NoFlush\<rparr>)"

lemma run_flushed_reachable:
  assumes "live_reachable True x s" "lv_flush s = NoFlush" "wr_offset (lv_writer s) = length (wr_buf (lv_writer s))" "to_valid p \<noteq> []"
  shows "live_reachable True x (run_flushed p s)"
proof -
  let ?s1 = "publish_events (write_string p (lv_writer s)) s"
  have 1: "live_reachable True x ?s1" by (rule live_reachable.step [OF assms(1) live_step.text_write])
  have w: "lv_flush ?s1 = NoFlush" "wr_offset (lv_writer ?s1) = wr_offset (lv_writer s)"
      "wr_buf (lv_writer ?s1) = wr_buf (lv_writer s) @ to_valid p"
    using assms(2) by (auto simp: publish_events_def write_string_def buf_write_def Let_def)
  have "flush_begin False ?s1 = ?s1\<lparr>lv_flush := Appending (wr_offset (lv_writer ?s1)) (to_valid p) None\<rparr>"
    using w assms(3,4) by (simp add: flush_begin_def pending_delta_def)
  then have 2: "live_reachable True x (?s1\<lparr>lv_flush := Appending (wr_offset (lv_writer ?s1)) (to_valid p) None\<rparr>)"
    using live_reachable.step [OF 1 live_step.begin_flush [OF w(1), of False]] by simp
  note 3 = live_reachable.step [OF 2 live_step.do_append, simplified]
  note 4 = live_reachable.step [OF 3 live_step.end_append, simplified]
  from 4 show ?thesis by (simp add: run_flushed_def Let_def after_append_def)
qed

definition greeting :: live_system where
  "greeting = run_flushed ''Hi'' (live_init True fresh_exec)"

lemma greeting_reachable: "live_reachable True fresh_exec greeting"
  unfolding greeting_def
proof (rule run_flushed_reachable [OF live_reachable.init])
  show "lv_flush (live_init True fresh_exec) = NoFlush" by code_simp
  show "wr_offset (lv_writer (live_init True fresh_exec)) = length (wr_buf (lv_writer (live_init True fresh_exec)))" by code_simp
  show "to_valid ''Hi'' \<noteq> []" by code_simp
qed

lemma greeting_state:
  "wr_buf (lv_writer greeting) = ''Hi''" "display_output (lv_exec greeting) = ''Hi''" "lv_view greeting = None"
  by code_simp+

definition greeted :: live_view where
  "greeted = \<lparr>vw_sent = 2, vw_frames = [frame ''message'' ''Hi'' 0 2], vw_over = False\<rparr>"

lemma greeting_watched: "view_start (\<lambda>_. True) (reading (lv_exec greeting)) (int 0) = Some greeted"
proof -
  have "read_output_after (lv_exec greeting) 0 =
      \<lparr>er_output = ''Hi'', er_start = 0, er_total = 2, er_status = ExecRunning, er_error = []\<rparr>"
    by code_simp
  then show ?thesis
    by (simp add: view_start_def view_replay_def reading_def replay_tail_def send_chunks.simps emit_def frame_def
        replay_end_def clamp_offset_def chunk_size_def slice_def greeted_def exec_terminal_def)
qed

definition greeting_shown :: live_system where
  "greeting_shown = greeting\<lparr>lv_base := take 0 (wr_buf (lv_writer greeting)), lv_view := Some greeted\<rparr>"

lemma greeting_shown_reachable: "live_reachable True fresh_exec greeting_shown"
  unfolding greeting_shown_def
  by (rule live_reachable.step [OF greeting_reachable live_step.watch [OF _ can_reading greeting_watched]]) simp

lemma fresh_exec_ok: "stored_ok fresh_exec" "valid_utf8 (display_output fresh_exec)"
  by (simp_all add: stored_ok_def fresh_exec_def display_output_def finalized_output_def stream_output_def)

lemma greeting_plain: "plain_text (wr_buf (lv_writer greeting_shown))"
  by (rule plain_if_no_bracket) (simp add: greeting_shown_def greeting_state)

theorem window_shows_output_witness: "window_text (vw_frames greeted) [] = Some ''Hi''"
  using window_shows_output [OF greeting_shown_reachable fresh_exec_ok _ greeting_plain, of greeted]
  by (simp add: greeting_shown_def greeting_state greeted_def)

theorem window_code_returns_witness:
  "view_event (\<lambda>_. True) (reading (lv_exec greeting)) (persisted_event 2) greeted \<noteq> None"
  using window_code_returns [OF greeting_reachable fresh_exec_ok can_reading] by blast

text \<open>
  Why the text must have been loaded. A retry of an execution creates a writer on the output of the
  earlier attempt; when that cannot be read, the writer starts empty, although the comment says that
  later flushes append, and the final flush replaces the earlier output by what came since.
\<close>

definition earlier_exec :: live_exec where
  "earlier_exec = append_output ''Earlier. '' fresh_exec"

definition unseeded_flushing :: live_system where
  "unseeded_flushing =
     flush_begin True (publish_events (write_string ''Hi'' (new_writer (Inl ()))) (live_init False earlier_exec))"

definition unseeded_finalized :: live_system where
  "unseeded_finalized =
     (let s = unseeded_flushing\<lparr>lv_flush := Finalizing ''Hi''\<rparr>
      in s\<lparr>lv_exec := finalize_output ''Hi'' (lv_exec s), lv_flush := Finalized ''Hi''\<rparr>)"

theorem failed_seed_loses_output:
  "live_reachable False earlier_exec unseeded_finalized \<and> display_output earlier_exec = ''Earlier. '' \<and>
   display_output (lv_exec unseeded_finalized) = ''Hi''"
proof (intro conjI)
  let ?s0 = "live_init False earlier_exec"
  have w: "lv_writer ?s0 = new_writer (Inl ())" by (simp add: live_init_def)
  have 1: "live_reachable False earlier_exec (publish_events (write_string ''Hi'' (new_writer (Inl ()))) ?s0)"
    using live_reachable.step [OF live_reachable.init live_step.text_write, of False earlier_exec "''Hi''"] by (simp only: w)
  have f: "lv_flush (publish_events (write_string ''Hi'' (new_writer (Inl ()))) ?s0) = NoFlush" by code_simp
  have 2: "live_reachable False earlier_exec unseeded_flushing"
    unfolding unseeded_flushing_def by (rule live_reachable.step [OF 1 live_step.begin_flush [OF f]])
  have a: "lv_flush unseeded_flushing = Appending 0 ''Hi'' (Some ''Hi'')" by code_simp
  have 3: "live_reachable False earlier_exec (unseeded_flushing\<lparr>lv_flush := Finalizing ''Hi''\<rparr>)"
    using live_reachable.step [OF 2 live_step.fail_append [OF a]] by (simp add: after_append_def)
  show "live_reachable False earlier_exec unseeded_finalized"
    unfolding unseeded_finalized_def Let_def by (rule live_reachable.step [OF 3 live_step.do_finalize]) simp
qed code_simp+

text \<open>
  Why the output must be plain. The agent writes \<open><thinking>abc\<close>, which the window is shown as it
  comes, 13 bytes. The last flush stores it in canonical form, which is 15 bytes long. When the
  execution ends, the window reads what comes after its 13 bytes and shows the last two again.
\<close>

definition alias_output :: string where
  "alias_output = ''<thinking>abc''"

definition alias_stored :: live_exec where
  "alias_stored = complete_exec ExecCompleted [] [] (finalize_output alias_output (append_output alias_output fresh_exec))"

definition alias_view :: live_view where
  "alias_view = \<lparr>vw_sent = 13, vw_frames = [frame ''message'' alias_output 0 13], vw_over = False\<rparr>"

lemma alias_view_shows: "window_text (vw_frames alias_view) [] = Some alias_output"
  by code_simp

lemma alias_read:
  "read_output_after alias_stored 13 =
     \<lparr>er_output = ''bc'', er_start = 13, er_total = 15, er_status = ExecCompleted, er_error = []\<rparr>"
  by code_simp

theorem alias_repeats_tail:
  "\<exists>v. view_event (\<lambda>_. True) (reading alias_stored)
         \<lparr>se_exec = [], se_type = StreamDone, se_delta = [], se_offset = 0, se_status = [], se_error = []\<rparr> alias_view = Some v \<and>
       window_text (vw_frames v) [] = Some (alias_output @ ''bc'')"
  using alias_read
  by (simp add: view_event_def view_replay_def reading_def replay_tail_def send_chunks.simps emit_def frame_def
      replay_end_def clamp_offset_def chunk_size_def slice_def alias_view_def exec_terminal_def window_apply_def
      alias_output_def view_over_def)

end
