(* ===== verification/TaskClaims.thy ===== *)
theory TaskClaims
  imports TaskLaws
begin

section \<open>The claims of tasks race\<close>

text \<open>
  Three calls of the task repository start a task: \<open>ClaimTask\<close>, the worker pool's
  \<open>ClaimTaskForDispatch\<close>, and \<open>ClaimReservedTaskForDispatch\<close> for an execution that a move to the
  active lane or a schedule has queued. Each is one transaction with guards of its own. The contract
  of a claim is the locale \<open>guarded_claim\<close>; here all three are its provider, in any mixture.
\<close>

datatype claim_call = PlainClaim string | DispatchClaim string | ReservedClaim string string

fun claim_attempt :: "claim_call \<Rightarrow> task_db \<Rightarrow> bool \<times> task_db" where
  "claim_attempt (PlainClaim i) d = won (claim_task i d)"
| "claim_attempt (DispatchClaim i) d = won (and_then (claim_task_for_dispatch i d) (\<lambda>(c, b) d1. (Inr b, d1)))"
| "claim_attempt (ReservedClaim i e) d = won (and_then (claim_reserved_task_for_dispatch i e d) (\<lambda>(c, b) d1. (Inr b, d1)))"

fun claimed_task :: "claim_call \<Rightarrow> string" where
  "claimed_task (PlainClaim i) = i"
| "claimed_task (DispatchClaim i) = i"
| "claimed_task (ReservedClaim i e) = i"

fun ordinary_claim :: "claim_call \<Rightarrow> bool" where
  "ordinary_claim (ReservedClaim i e) = False"
| "ordinary_claim c = True"

subsection \<open>Claims of waiting tasks\<close>

definition is_pending :: "string \<Rightarrow> task_db \<Rightarrow> bool" where
  "is_pending i d \<longleftrightarrow> (\<exists>t \<in> set (db_tasks d). tk_id t = i \<and> tk_status t = StatusPending)"

lemma task_withdrawn_pending: "is_pending i (task_withdrawn new d) \<Longrightarrow> is_pending i d"
  by (auto simp: task_withdrawn_def is_pending_def Let_def split: if_splits)

lemma update_task_row_pending:
  assumes "is_pending i (update_task_row j f d)" "\<And>t. tk_id (f t) = tk_id t"
  shows "\<exists>t \<in> set (db_tasks d). tk_id t = i \<and> tk_status (if i = j then f t else t) = StatusPending"
proof -
  have "is_pending i (map_task j f d)"
    using assms(1) by (auto simp: update_task_row_def Let_def split: option.splits dest: task_withdrawn_pending)
  then show ?thesis using assms(2) by (fastforce simp: is_pending_def map_task_def split: if_splits)
qed

lemma get_task_pending: "get_task i d = Some t \<Longrightarrow> tk_status t = StatusPending \<Longrightarrow> is_pending i d"
  by (auto simp: get_task_def is_pending_def dest: find_Some_in)

lemma same_tables_pending: "same_tables d d' \<Longrightarrow> is_pending i d' = is_pending i d"
  by (auto simp: same_tables_def is_pending_def)

text \<open>What a plain claim and a claim for dispatch do to pending tasks.\<close>

lemma run_row_not_pending: "\<not> is_pending i (update_task_row i (run_row d0) d)"
proof
  assume "is_pending i (update_task_row i (run_row d0) d)"
  from update_task_row_pending [OF this] show False by auto
qed

lemma run_row_pending: "is_pending j (update_task_row i (run_row d0) d) \<Longrightarrow> is_pending j d"
  by (drule update_task_row_pending) (auto simp: is_pending_def split: if_splits)

lemma backlog_pending: "is_pending j (update_task_row i (\<lambda>t. t\<lparr>tk_category := c\<rparr>) d) \<Longrightarrow> is_pending j d"
  by (drule update_task_row_pending) (auto simp: is_pending_def split: if_splits)

lemma is_pending_publish [simp]: "is_pending i (publish es d) = is_pending i d"
  by (simp add: is_pending_def)

lemma is_pending_paused [simp]:
  "is_pending i (keep_paused_admission j b d) = is_pending i d" "is_pending i (drop_paused_admission j d) = is_pending i d"
  by (simp_all add: is_pending_def keep_paused_admission_def drop_paused_admission_def)

definition table_predicate :: "(task_db \<Rightarrow> bool) \<Rightarrow> bool" where
  "table_predicate A \<longleftrightarrow> (\<forall>d d'. same_tables d d' \<longrightarrow> A d' = A d) \<and> (\<forall>es d. A (publish es d) = A d)"

lemma table_predicates: "table_predicate (is_pending i)"
  by (auto simp: table_predicate_def same_tables_def is_pending_def)

lemma claim_call:
  assumes "and_then (txn body d) (\<lambda>(x, b) d1. (Inr (f x b), if b then publish (es x) d1 else d1)) = (r, d')"
    and tp: "table_predicate A" "table_predicate B"
    and body: "\<And>d1 x b d2. body d1 = (Inr (x, b), d2) \<Longrightarrow> (b \<longrightarrow> A d1 \<and> \<not> A d2) \<and> (B d2 \<longrightarrow> B d1)"
  shows "(B d' \<longrightarrow> B d) \<and> ((\<exists>e. r = Inl e) \<or> (\<exists>x b. r = Inr (f x b) \<and> (b \<longrightarrow> A d \<and> \<not> A d')))"
proof -
  obtain x d2 where t: "txn body d = (x, d2)" by (rule prod.exhaust)
  then show ?thesis
  proof (cases rule: txn_cases)
    case (failed e)
    with t assms(1) tp(2) show ?thesis by (auto simp: table_predicate_def)
  next
    case (ok y d1)
    obtain z b where y: "y = (z, b)" by (rule prod.exhaust)
    have r: "r = Inr (f z b)" and d': "d' = (if b then publish (es z) d2 else d2)"
      using assms(1) unfolding t ok(1) y by simp_all
    have "A d' = A d2" "B d' = B d2" "A d1 = A d" "B d1 = B d"
      using tp ok(2) unfolding d' by (simp_all add: table_predicate_def)
    with body [of d1 z b d2] ok y r show ?thesis by auto
  qed
qed

lemma claim_task_body_pending:
  "claim_task_body i d = (Inr (x, b), d') \<Longrightarrow>
   (b \<longrightarrow> is_pending i d \<and> \<not> is_pending i d') \<and> (is_pending j d' \<longrightarrow> is_pending j d)"
  unfolding claim_task_body_def
  by (cases "get_task i d") (auto intro: get_task_pending dest: run_row_pending simp: run_row_not_pending split: if_splits)

lemma claim_dispatch_body_pending:
  assumes "claim_dispatch_body i d = (Inr (x, b), d')"
  shows "(b \<longrightarrow> is_pending i d \<and> \<not> is_pending i d') \<and> (is_pending j d' \<longrightarrow> is_pending j d)"
proof (cases "get_task i d")
  case None with assms show ?thesis by (simp add: claim_dispatch_body_def)
next
  case t: (Some t)
  show ?thesis
  proof (cases "tk_status t \<noteq> StatusPending \<or> (tk_category t \<noteq> CategoryActive \<and> tk_category t \<noteq> CategoryScheduled)")
    case True with assms t show ?thesis by (simp add: claim_dispatch_body_def split: if_splits)
  next
    case ok: False
    then have p: "is_pending i d" using get_task_pending [OF t] by simp
    show ?thesis
    proof (cases "inactive_binding (db_automations d (tk_project_id t)) {} (ac_bindings (automation_context_of t d))")
      case None
      with assms t ok p show ?thesis
        by (auto simp: claim_dispatch_body_def Let_def run_row_not_pending dest: run_row_pending split: if_splits)
    next
      case (Some bl)
      obtain k l where "bl = (k, l)" by (cases bl)
      with assms t ok Some show ?thesis
        by (auto simp: claim_dispatch_body_def Let_def dest!: backlog_pending split: if_splits)
    qed
  qed
qed

lemma claim_task_pending:
  assumes "claim_task i d = (r, d')"
  shows "(is_pending j d' \<longrightarrow> is_pending j d) \<and>
    ((\<exists>e. r = Inl e) \<or> (\<exists>b. r = Inr b \<and> (b \<longrightarrow> is_pending i d \<and> \<not> is_pending i d')))"
  using claim_call [OF assms [unfolded claim_task_def] table_predicates table_predicates, of i j] claim_task_body_pending by blast

lemma claim_task_for_dispatch_pending:
  assumes "claim_task_for_dispatch i d = (r, d')"
  shows "(is_pending j d' \<longrightarrow> is_pending j d) \<and>
    ((\<exists>e. r = Inl e) \<or> (\<exists>c b. r = Inr (c, b) \<and> (b \<longrightarrow> is_pending i d \<and> \<not> is_pending i d')))"
  using claim_call [OF assms [unfolded claim_task_for_dispatch_def] table_predicates table_predicates, of i j] claim_dispatch_body_pending by blast

lemma ordinary_claim_pending:
  assumes "claim_attempt c d = (b, d')" "ordinary_claim c"
  shows "(is_pending j d' \<longrightarrow> is_pending j d) \<and> (b \<longrightarrow> is_pending (claimed_task c) d \<and> \<not> is_pending (claimed_task c) d')"
proof (cases c)
  case (PlainClaim i)
  obtain r d2 where "claim_task i d = (r, d2)" by (rule prod.exhaust)
  with claim_task_pending [OF this, of j] assms PlainClaim show ?thesis by (cases r) (auto simp: won_def)
next
  case (DispatchClaim i)
  obtain r d2 where "claim_task_for_dispatch i d = (r, d2)" by (rule prod.exhaust)
  with claim_task_for_dispatch_pending [OF this, of j] assms DispatchClaim show ?thesis
    by (cases r) (auto simp: won_def)
qed (use assms in simp)

text \<open>Without claims of reserved executions, no invariant is needed.\<close>

definition ordinary_attempt :: "claim_call \<Rightarrow> task_db \<Rightarrow> bool \<times> task_db" where
  "ordinary_attempt c d = (if ordinary_claim c then claim_attempt c d else (False, d))"

interpretation ordinary_claims: exclusive_claim ordinary_attempt claimed_task is_pending
proof
  fix c s s' assume "ordinary_attempt c s = (True, s')"
  then have "claim_attempt c s = (True, s')" "ordinary_claim c" by (auto simp: ordinary_attempt_def split: if_splits)
  from ordinary_claim_pending [OF this] show "is_pending (claimed_task c) s \<and> \<not> is_pending (claimed_task c) s'" by blast
next
  fix c s b s' i assume "ordinary_attempt c s = (b, s')" "is_pending i s'"
  with ordinary_claim_pending [of c s b s' i] show "is_pending i s" by (auto simp: ordinary_attempt_def split: if_splits)
qed

lemma ordinary_race: "list_all ordinary_claim cs \<Longrightarrow> race claim_attempt cs d = race ordinary_attempt cs d"
  by (induction cs arbitrary: d) (simp_all add: ordinary_attempt_def split: prod.splits)

subsection \<open>What a claim leaves of executions and admissions\<close>

text \<open>
  A claim starts or cancels queued executions and does nothing else to them; and an admission stays
  as long as the execution it names is queued.
\<close>

definition exec_moves :: "exec_row \<Rightarrow> exec_row \<Rightarrow> bool" where
  "exec_moves e e' \<longleftrightarrow> ex_id e' = ex_id e \<and> ex_task e' = ex_task e \<and> ex_followup e' = ex_followup e \<and>
     ex_dispatch e' = ex_dispatch e \<and> (ex_status e' = ex_status e \<or> ex_status e = ExecQueued \<and> ex_status e' \<noteq> ExecQueued)"

definition claim_moves :: "task_db \<Rightarrow> task_db \<Rightarrow> bool" where
  "claim_moves d d' \<longleftrightarrow> map tk_id (db_tasks d') = map tk_id (db_tasks d) \<and> list_all2 exec_moves (db_execs d) (db_execs d') \<and>
     (\<forall>a \<in> set (db_admissions d). \<forall>x \<in> set (db_execs d'). ad_exec a = Some (ex_id x) \<and> ex_status x = ExecQueued \<longrightarrow>
        a \<in> set (db_admissions d'))"

lemma exec_moves_refl: "exec_moves e e"
  by (simp add: exec_moves_def)

lemma claim_moves_same:
  "db_tasks d' = db_tasks d \<Longrightarrow> db_execs d' = db_execs d \<Longrightarrow> db_admissions d' = db_admissions d \<Longrightarrow> claim_moves d d'"
  by (simp add: claim_moves_def list.rel_refl exec_moves_refl)

lemma moves_back:
  assumes "claim_moves d d'" "x' \<in> set (db_execs d')"
  obtains x where "x \<in> set (db_execs d)" "exec_moves x x'"
  using assms unfolding claim_moves_def by (metis list_all2_conv_all_nth in_set_conv_nth)

lemma moves_forth:
  assumes "claim_moves d d'" "x \<in> set (db_execs d)"
  obtains x' where "x' \<in> set (db_execs d')" "exec_moves x x'"
  using assms unfolding claim_moves_def by (metis list_all2_conv_all_nth in_set_conv_nth)

lemma claim_moves_trans:
  assumes "claim_moves d d1" "claim_moves d1 d2" shows "claim_moves d d2"
proof -
  have "exec_moves x z" if "exec_moves x y" "exec_moves y z" for x y z
    using that by (auto simp: exec_moves_def)
  then have "list_all2 exec_moves (db_execs d) (db_execs d2)"
    using assms unfolding claim_moves_def by (blast intro: list_all2_trans)
  moreover have "a \<in> set (db_admissions d2)"
    if a: "a \<in> set (db_admissions d)" and z: "z \<in> set (db_execs d2)" "ad_exec a = Some (ex_id z)" "ex_status z = ExecQueued" for a z
  proof -
    from moves_back [OF assms(2) z(1)] obtain y where y: "y \<in> set (db_execs d1)" "exec_moves y z" .
    then have "ex_id y = ex_id z" "ex_status y = ExecQueued" using z(3) by (auto simp: exec_moves_def)
    with assms a y z show ?thesis unfolding claim_moves_def by metis
  qed
  ultimately show ?thesis using assms by (simp add: claim_moves_def)
qed

lemma claim_moves_set_execs:
  assumes f: "\<And>x. x \<in> set (db_execs d) \<Longrightarrow> P x \<Longrightarrow> exec_moves x (f x) \<and> ex_status (f x) \<noteq> ExecQueued"
    and P: "\<And>x y. x \<in> set (db_execs d) \<Longrightarrow> y \<in> set (db_execs d) \<Longrightarrow> P x \<Longrightarrow> ex_id y = ex_id x \<Longrightarrow> ex_status y = ExecQueued \<Longrightarrow> P y"
  shows "claim_moves d (set_execs P f d)"
  unfolding claim_moves_def
proof (intro conjI ballI impI)
  show "list_all2 exec_moves (db_execs d) (db_execs (set_execs P f d))"
    using f by (auto simp: set_execs_def list_all2_conv_all_nth exec_moves_refl)
next
  fix a x
  assume a: "a \<in> set (db_admissions d)" and x: "x \<in> set (db_execs (set_execs P f d))"
    and q: "ad_exec a = Some (ex_id x) \<and> ex_status x = ExecQueued"
  from x obtain y where y: "y \<in> set (db_execs d)" "x = (if P y then f y else y)" by (auto simp: set_execs_def)
  with f q have "\<not> P y" "x = y" by (auto split: if_splits)
  with a q y(1) P show "a \<in> set (db_admissions (set_execs P f d))" by (auto simp: set_execs_def)
qed simp

lemma cancel_moves: "ex_status x = ExecQueued \<Longrightarrow> exec_moves x (cancel_exec now msg x)"
  by (simp add: exec_moves_def cancel_exec_def)

lemma claim_moves_cancel: "claim_moves d (cancel_queued_exec e msg d)"
  unfolding cancel_queued_exec_def by (rule claim_moves_set_execs) (simp_all add: cancel_moves)

lemma claim_moves_withdraw: "claim_moves d (withdraw_admissions P d)"
proof -
  define gone where "gone = filter P (db_admissions d)"
  define d0 where "d0 = d\<lparr>db_admissions := filter (\<lambda>a. \<not> P a) (db_admissions d)\<rparr>"
  define Q :: "exec_row \<Rightarrow> bool" where "Q = (\<lambda>e. ex_status e = ExecQueued \<and> Some (ex_id e) \<in> ad_exec ` set gone)"
  define d1 where "d1 = set_execs Q (cancel_exec (db_now d) ''Scheduled admission withdrawn'') d0"
  have d1: "withdraw_admissions P d = d1" by (simp add: withdraw_admissions_def Let_def d1_def d0_def Q_def gone_def)
  have m: "claim_moves d0 d1" unfolding d1_def by (rule claim_moves_set_execs) (auto simp: Q_def cancel_moves)
  have "a \<in> set (db_admissions d1)"
    if a: "a \<in> set (db_admissions d)" and x: "x \<in> set (db_execs d1)" "ad_exec a = Some (ex_id x)" "ex_status x = ExecQueued" for a x
  proof -
    have "\<not> Q x" "x \<in> set (db_execs d0)"
      using x(1,3) by (auto simp: d1_def set_execs_def cancel_exec_def split: if_splits)
    with a x have "a \<in> set (db_admissions d0)" by (force simp: Q_def d0_def gone_def)
    with m x show ?thesis unfolding claim_moves_def by blast
  qed
  with m show ?thesis unfolding d1 by (simp add: claim_moves_def d0_def)
qed

lemma claim_moves_update_row:
  assumes "\<And>t. tk_id (f t) = tk_id t" shows "claim_moves d (update_task_row i f d)"
proof -
  have m: "claim_moves d (map_task i f d)"
    using assms by (simp add: claim_moves_def list.rel_refl exec_moves_refl map_task_ids)
  have w: "claim_moves x (task_withdrawn new x)" for x new
  proof (cases "withdraws new")
    case True
    define x1 where "x1 = x\<lparr>db_tasks := map (\<lambda>t. if tk_status t = StatusPending \<and> tk_id t \<noteq> tk_id new \<and>
        tk_id t \<in> ad_task ` set (filter (\<lambda>a. ad_schedule a \<in> schedules_of (tk_id new) x) (db_admissions x))
      then t\<lparr>tk_status := StatusCancelled, tk_updated_at := db_now x\<rparr> else t) (db_tasks x)\<rparr>"
    have "claim_moves x x1" by (simp add: claim_moves_def x1_def list.rel_refl exec_moves_refl comp_def if_distrib cong: if_cong)
    then show ?thesis using claim_moves_trans [OF _ claim_moves_withdraw] True
      by (simp add: task_withdrawn_def Let_def x1_def)
  qed (simp add: task_withdrawn_def claim_moves_same)
  show ?thesis using claim_moves_trans [OF m w] m by (auto simp: update_task_row_def Let_def split: option.split)
qed

lemma claim_moves_frame [simp]:
  "claim_moves d (keep_paused_admission i b d)" "claim_moves d (drop_paused_admission i d)" "claim_moves d (publish es d)"
  by (rule claim_moves_same; simp add: keep_paused_admission_def drop_paused_admission_def)+

subsection \<open>Nobody else starts a task that one claim has started\<close>

text \<open>
  A task can be claimed while it is pending, or while an ordinary queued execution waits for it and
  none runs (a move to the active lane marks the task running before its execution starts). The two
  ways stay apart: a queued execution of a pending task is one that an admission names, and a plain
  claim leaves tasks with an admission alone.
\<close>

definition claimable :: "string \<Rightarrow> task_db \<Rightarrow> bool" where
  "claimable i d \<longleftrightarrow> is_pending i d \<or> (\<not> has_running_exec i d \<and> (\<exists>x \<in> set (db_execs d). queued_ordinary i x))"

definition claims_apart :: "task_db \<Rightarrow> bool" where
  "claims_apart d \<longleftrightarrow> distinct (map tk_id (db_tasks d)) \<and> distinct (map ex_id (db_execs d)) \<and>
     (\<forall>x \<in> set (db_execs d). \<forall>i. queued_ordinary i x \<and> is_pending i d \<longrightarrow> is_calendar i (ex_id x) d)"

lemma exec_moves_queued: "exec_moves x y \<Longrightarrow> queued_ordinary i y \<Longrightarrow> queued_ordinary i x \<and> ex_id y = ex_id x"
  by (auto simp: exec_moves_def queued_ordinary_def)

lemma moves_running: "claim_moves d d' \<Longrightarrow> has_running_exec i d \<Longrightarrow> has_running_exec i d'"
  unfolding has_running_exec_def by (metis moves_forth exec_moves_def exec_status.distinct(1))

lemma moves_claimable:
  assumes m: "claim_moves d d'" and p: "is_pending i d' \<Longrightarrow> claimable i d" and c: "claimable i d'"
  shows "claimable i d"
proof (cases "is_pending i d'")
  case True with p show ?thesis by blast
next
  case False
  with c obtain y where y: "y \<in> set (db_execs d')" "queued_ordinary i y" "\<not> has_running_exec i d'"
    by (auto simp: claimable_def)
  from moves_back [OF m y(1)] obtain x where "x \<in> set (db_execs d)" "exec_moves x y" .
  with y moves_running [OF m, of i] exec_moves_queued show ?thesis unfolding claimable_def by blast
qed

lemma moves_apart:
  assumes m: "claim_moves d d'" and g: "claims_apart d"
    and p: "\<And>i y. is_pending i d' \<Longrightarrow> y \<in> set (db_execs d') \<Longrightarrow> queued_ordinary i y \<Longrightarrow> is_pending i d"
  shows "claims_apart d'"
proof -
  have "map ex_id (db_execs d') = map ex_id (db_execs d)"
    using m by (auto simp: claim_moves_def exec_moves_def list_all2_conv_all_nth intro: nth_equalityI)
  moreover have "is_calendar i (ex_id y) d'" if y: "y \<in> set (db_execs d')" "queued_ordinary i y" "is_pending i d'" for i y
  proof -
    from moves_back [OF m y(1)] obtain x where x: "x \<in> set (db_execs d)" "exec_moves x y" .
    with exec_moves_queued y(2) have q: "queued_ordinary i x" "ex_id y = ex_id x" by blast+
    with g x(1) p [OF y(3,1,2)] obtain a where a: "a \<in> set (db_admissions d)" "ad_task a = i" "ad_exec a = Some (ex_id y)"
      by (auto simp: claims_apart_def is_calendar_def)
    with m y have "a \<in> set (db_admissions d')" by (auto simp: claim_moves_def queued_ordinary_def)
    with a show ?thesis by (auto simp: is_calendar_def)
  qed
  ultimately show ?thesis using m g by (auto simp: claims_apart_def claim_moves_def)
qed

definition claim_ok :: "string \<Rightarrow> task_db \<Rightarrow> bool \<Rightarrow> task_db \<Rightarrow> bool" where
  "claim_ok i d b d' \<longleftrightarrow> claims_apart d' \<and> (\<forall>j. claimable j d' \<longrightarrow> claimable j d) \<and> (b \<longrightarrow> claimable i d \<and> \<not> claimable i d')"

lemma claim_ok_lost:
  assumes "claims_apart d" "claim_moves d d'" "\<And>j. is_pending j d' \<Longrightarrow> is_pending j d"
  shows "claim_ok i d False d'"
  using moves_apart [OF assms(2,1)] moves_claimable [OF assms(2)] assms(3) by (auto simp: claim_ok_def claimable_def)

lemma claim_ok_won:
  assumes g: "claims_apart d" and m: "claim_moves d d'" and p: "\<And>j. is_pending j d' \<Longrightarrow> is_pending j d"
    and i: "is_pending i d" "\<not> is_pending i d'" and u: "unowned i d"
  shows "claim_ok i d True d'"
proof -
  have "\<not> claimable i d'"
  proof
    assume "claimable i d'"
    with i(2) obtain y where y: "y \<in> set (db_execs d')" "queued_ordinary i y" by (auto simp: claimable_def)
    from moves_back [OF m y(1)] obtain x where x: "x \<in> set (db_execs d)" "exec_moves x y" .
    with exec_moves_queued y(2) g i(1) have "is_calendar i (ex_id x) d" unfolding claims_apart_def by blast
    with u show False by (auto simp: is_calendar_def unowned_def)
  qed
  with claim_ok_lost [OF g m p, of i] i(1) show ?thesis by (simp add: claim_ok_def claimable_def)
qed

lemma claim_moves_run [simp]: "claim_moves d (update_task_row i (run_row d0) d)"
  by (rule claim_moves_update_row) (simp add: run_row_def)

lemma claim_task_body_ok:
  assumes "claim_task_body i d = (Inr (t, b), d')" "claims_apart d" shows "claim_ok i d b d'"
proof (cases "b")
  case True
  with assms(1) have u: "unowned i d" and d': "d' = update_task_row i (run_row d) d"
    by (auto simp: claim_task_body_def split: option.splits if_splits)
  from claim_task_body_pending [OF assms(1)] True have p: "is_pending i d" "\<not> is_pending i d'"
    and q: "\<And>j. is_pending j d' \<Longrightarrow> is_pending j d" by blast+
  have "claim_moves d d'" by (simp add: d')
  from claim_ok_won [OF assms(2) this q p u] True show ?thesis by simp
next
  case False
  with assms(1) have "d' = d" by (auto simp: claim_task_body_def split: option.splits if_splits)
  with False claim_ok_lost [OF assms(2) claim_moves_same, of d] show ?thesis by simp
qed

lemma claim_dispatch_body_ok:
  assumes "claim_dispatch_body i d = (Inr (c, b), d')" "claims_apart d" shows "claim_ok i d b d'"
proof -
  from claim_dispatch_body_pending [OF assms(1)]
  have q: "\<And>j. is_pending j d' \<Longrightarrow> is_pending j d" and p: "b \<Longrightarrow> is_pending i d \<and> \<not> is_pending i d'" by blast+
  show ?thesis
  proof (cases b)
    case True
    with assms(1) have u: "unowned i d" and d': "d' = update_task_row i (run_row d) d"
      by (auto simp: claim_dispatch_body_def Let_def split: option.splits if_splits)
    have "claim_moves d d'" by (simp add: d')
    from claim_ok_won [OF assms(2) this q _ _ u] True p show ?thesis by simp
  next
    case False
    have b: "claim_moves d (update_task_row i (\<lambda>t. t\<lparr>tk_category := CategoryBacklog\<rparr>) d1)" if "claim_moves d d1" for d1
      by (rule claim_moves_trans [OF that claim_moves_update_row]) simp
    have "claim_moves d d'"
      using assms(1) False
      by (auto simp: claim_dispatch_body_def Let_def claim_moves_same intro!: b split: option.splits if_splits)
    from claim_ok_lost [OF assms(2) this q] False show ?thesis by simp
  qed
qed

text \<open>The claim of a reserved execution, on each of its ways.\<close>

lemma is_pending_execs [simp]: "is_pending i (cancel_queued_exec e m d) = is_pending i d" "is_pending i (set_execs P f d) = is_pending i d"
  by (simp_all add: is_pending_def cancel_queued_exec_def)

lemma reserved_refused_ok: "claims_apart d \<Longrightarrow> claim_ok i d False (if c then cancel_queued_exec e m d else d)"
  by (rule claim_ok_lost) (auto simp: claim_moves_cancel claim_moves_same split: if_splits)

lemma reserved_exec_claimable:
  assumes "claims_apart d" "reserved_exec i e d" "\<not> other_exec_active i e d"
  shows "claimable i d" "\<And>x. x \<in> set (db_execs d) \<Longrightarrow> queued_ordinary i x \<Longrightarrow> ex_id x = e"
proof -
  from assms(2) obtain x where x: "x \<in> set (db_execs d)" "ex_id x = e" "queued_ordinary i x" by (auto simp: reserved_exec_def)
  have "\<not> has_running_exec i d"
  proof
    assume "has_running_exec i d"
    then obtain y where y: "y \<in> set (db_execs d)" "ex_task y = i" "ex_status y = ExecRunning" by (auto simp: has_running_exec_def)
    with assms(3) have "ex_id y = ex_id x" using x(2) by (auto simp: other_exec_active_def)
    with assms(1) x(1) y(1) have "y = x" by (auto simp: claims_apart_def inj_on_def distinct_map)
    with x(3) y(3) show False by (simp add: queued_ordinary_def)
  qed
  with x show "claimable i d" by (auto simp: claimable_def)
  show "ex_id y = e" if "y \<in> set (db_execs d)" "queued_ordinary i y" for y
    using that assms(3) by (auto simp: other_exec_active_def queued_ordinary_def)
qed

lemma reserved_inactive_ok:
  assumes g: "claims_apart d" and r: "reserved_exec i e d" "\<not> other_exec_active i e d"
    and d1: "claim_moves d d1" "db_tasks d1 = db_tasks d" "db_execs d1 = db_execs d"
  shows "claim_ok i d False (if c then update_task_row i (\<lambda>t. t\<lparr>tk_status := s, tk_category := k\<rparr>) (cancel_queued_exec e m d1)
           else cancel_queued_exec e m d1)"
    (is "claim_ok i d False ?d'")
proof -
  have mc: "claim_moves d (cancel_queued_exec e m d1)" by (rule claim_moves_trans [OF d1(1) claim_moves_cancel])
  have m: "claim_moves d ?d'"
    using claim_moves_trans [OF mc claim_moves_update_row] mc by simp
  have same: "is_pending j d1 = is_pending j d" for j by (simp add: is_pending_def d1(2))
  have p: "is_pending j d" if j: "is_pending j ?d'" "j \<noteq> i" for j
  proof (cases c)
    case True
    with j have "is_pending j (update_task_row i (\<lambda>t. t\<lparr>tk_status := s, tk_category := k\<rparr>) (cancel_queued_exec e m d1))" by simp
    from update_task_row_pending [OF this] j(2) have "is_pending j (cancel_queued_exec e m d1)" by (auto simp: is_pending_def)
    then show ?thesis by (simp add: same)
  next
    case False
    with j have "is_pending j (cancel_queued_exec e m d1)" by simp
    then show ?thesis by (simp add: same)
  qed
  have none: "\<not> queued_ordinary i y" if y: "y \<in> set (db_execs ?d')" for y
  proof
    assume q: "queued_ordinary i y"
    have m2: "claim_moves (cancel_queued_exec e m d1) ?d'"
      using claim_moves_update_row [of "\<lambda>t. t\<lparr>tk_status := s, tk_category := k\<rparr>"] claim_moves_same by simp
    from moves_back [OF m2 y] obtain x where x: "x \<in> set (db_execs (cancel_queued_exec e m d1))" "exec_moves x y" .
    from exec_moves_queued [OF x(2) q] have "queued_ordinary i x" by blast
    moreover from x(1) have "x \<in> set (db_execs d) \<and> \<not> (ex_id x = e \<and> ex_status x = ExecQueued) \<or> ex_status x = ExecCancelled"
      by (auto simp: cancel_queued_exec_def set_execs_def cancel_exec_def d1(3))
    ultimately show False using reserved_exec_claimable(2) [OF g r] by (auto simp: queued_ordinary_def)
  qed
  have "claimable j d" if "claimable j ?d'" for j
    using moves_claimable [OF m _ that] p [of j] reserved_exec_claimable(1) [OF g r] by (cases "j = i") (auto simp: claimable_def)
  moreover have "claims_apart ?d'"
    using moves_apart [OF m g] p none by metis
  ultimately show ?thesis by (simp add: claim_ok_def)
qed

lemma claim_moves_start:
  assumes "distinct (map ex_id (db_execs d))"
  shows "claim_moves d (set_execs (\<lambda>x. ex_id x = e \<and> ex_task x = i \<and> ex_status x = ExecQueued) (start_exec t now) d)"
proof (rule claim_moves_set_execs)
  fix x y assume "x \<in> set (db_execs d)" "y \<in> set (db_execs d)" "ex_id x = e \<and> ex_task x = i \<and> ex_status x = ExecQueued" "ex_id y = ex_id x"
  moreover from this assms have "y = x" by (auto simp: distinct_map inj_on_def)
  ultimately show "ex_id y = e \<and> ex_task y = i \<and> ex_status y = ExecQueued" by simp
qed (auto simp: exec_moves_def start_exec_def)

lemma reserved_started_ok:
  assumes g: "claims_apart d" and r: "reserved_exec i e d" "\<not> other_exec_active i e d"
    and t: "get_task i d = Some t" "reserved_valid i e t d"
    and d1: "d1 = (if is_calendar i e d then update_task_row i (\<lambda>t. t\<lparr>tk_status := StatusRunning, tk_display_order := w t\<rparr>) d else d)"
    and x: "\<exists>x \<in> set (db_execs d1). ex_id x = e \<and> queued_ordinary i x"
  shows "claim_ok i d True (set_execs (\<lambda>x. ex_id x = e \<and> ex_task x = i \<and> ex_status x = ExecQueued) (start_exec u now) d1)"
    (is "claim_ok i d True ?d'")
proof -
  have m1: "claim_moves d d1" using claim_moves_update_row claim_moves_same by (simp add: d1)
  have "map ex_id (db_execs d1) = map ex_id (db_execs d)"
    using m1 by (auto simp: claim_moves_def exec_moves_def list_all2_conv_all_nth intro: nth_equalityI)
  then have m: "claim_moves d ?d'" using claim_moves_trans [OF m1 claim_moves_start] g by (simp add: claims_apart_def)
  have p: "is_pending j ?d' \<Longrightarrow> is_pending j d" for j
    using update_task_row_pending [of j i "\<lambda>t. t\<lparr>tk_status := StatusRunning, tk_display_order := w t\<rparr>" d]
    by (auto simp: d1 is_pending_def split: if_splits)
  have "\<not> is_pending i ?d'"
  proof (cases "is_calendar i e d")
    case True
    then show ?thesis using update_task_row_pending [of i i "\<lambda>t. t\<lparr>tk_status := StatusRunning, tk_display_order := w t\<rparr>" d]
      by (auto simp: d1)
  next
    case False
    with t have "tk_status t = StatusRunning" "t \<in> set (db_tasks d)" "tk_id t = i"
      by (auto simp: reserved_valid_def get_task_def dest: find_Some_in split: if_splits)
    with g have "\<not> is_pending i d" by (auto simp: claims_apart_def is_pending_def distinct_map dest: inj_onD)
    with False show ?thesis by (simp add: d1)
  qed
  moreover have "has_running_exec i ?d'"
  proof -
    from x obtain y where y: "y \<in> set (db_execs d1)" "ex_id y = e" "ex_task y = i" "ex_status y = ExecQueued"
      by (auto simp: queued_ordinary_def)
    then have "start_exec u now y \<in> set (db_execs ?d')" by (auto simp: set_execs_def image_iff intro!: bexI [of _ y])
    moreover have "ex_task (start_exec u now y) = i" "ex_status (start_exec u now y) = ExecRunning"
      using y(3) by (simp_all add: start_exec_def)
    ultimately show ?thesis unfolding has_running_exec_def by blast
  qed
  ultimately have "\<not> claimable i ?d'" by (simp add: claimable_def)
  moreover have "claim_ok i d False ?d'" by (rule claim_ok_lost [OF g m p])
  ultimately show ?thesis using reserved_exec_claimable(1) [OF g r] by (simp add: claim_ok_def)
qed

lemma calendar_start_keeps_execs:
  assumes "claims_apart d" "get_task i d = Some t" "tk_category t = CategoryActive \<or> tk_category t = CategoryScheduled"
  shows "db_execs (update_task_row i (\<lambda>t. t\<lparr>tk_status := StatusRunning, tk_display_order := w t\<rparr>) d) = db_execs d"
proof -
  let ?f = "\<lambda>t. t\<lparr>tk_status := StatusRunning, tk_display_order := w t\<rparr>"
  from assms(2) obtain u where "get_task i (map_task i ?f d) = Some u" "tk_status u = StatusRunning" "tk_category u = tk_category t"
    by (subst (asm) get_map_task) simp_all
  with assms(3) show ?thesis
    by (auto simp: update_task_row_def Let_def task_withdrawn_def withdraws_def is_terminal_status_def map_task_def)
qed

lemma claim_reserved_body_ok:
  assumes body: "claim_reserved_body i e d = (Inr (c, b), d')" and g: "claims_apart d"
  shows "claim_ok i d b d'"
proof (cases "get_task i d")
  case None with body show ?thesis by (simp add: claim_reserved_body_def)
next
  case t: (Some t)
  let ?bs = "inactive_binding (db_automations d (tk_project_id t)) {} (ac_bindings (automation_context_of t d))"
  consider (refused) "\<not> reserved_valid i e t d \<or> \<not> reserved_exec i e d \<or> other_exec_active i e d"
    | (inactive) a l where "reserved_valid i e t d" "reserved_exec i e d" "\<not> other_exec_active i e d" "?bs = Some (a, l)"
    | (started) "reserved_valid i e t d" "reserved_exec i e d" "\<not> other_exec_active i e d" "?bs = None"
    by (cases ?bs) auto
  then show ?thesis
  proof cases
    case refused
    with body t have "b = False" "d' = (if reserved_exec i e d then cancel_queued_exec e ''Reserved task admission was superseded'' d else d)"
      by (simp_all add: claim_reserved_body_def)
    with reserved_refused_ok [OF g] show ?thesis by simp
  next
    case inactive
    define d1 where "d1 = (if l = AutomationPaused then keep_paused_admission i a d
                           else if l = AutomationArchived then drop_paused_admission i d else d)"
    have k: "claim_moves d d1" "db_tasks d1 = db_tasks d" "db_execs d1 = db_execs d"
      by (simp_all add: d1_def claim_moves_same keep_paused_admission_def drop_paused_admission_def)
    from body t inactive have "b = False" "d' = (if tk_status t = StatusRunning
        then update_task_row i (\<lambda>t. t\<lparr>tk_status := StatusPending, tk_category := CategoryBacklog\<rparr>)
          (cancel_queued_exec e ''Automation is not active'' d1)
        else cancel_queued_exec e ''Automation is not active'' d1)"
      by (auto simp: claim_reserved_body_def Let_def d1_def split: if_splits)
    with reserved_inactive_ok [OF g inactive(2,3) k] show ?thesis by simp
  next
    case started
    let ?w = "\<lambda>t. active_tail (tk_project_id t) d"
    define d1 where "d1 = (if is_calendar i e d
      then update_task_row i (\<lambda>t. t\<lparr>tk_status := StatusRunning, tk_display_order := active_tail (tk_project_id t) d\<rparr>) d else d)"
    have "db_execs d1 = db_execs d"
      using calendar_start_keeps_execs [OF g t] started(1) by (auto simp: d1_def reserved_valid_def)
    with started(2) have x: "\<exists>x \<in> set (db_execs d1). ex_id x = e \<and> queued_ordinary i x" by (simp add: reserved_exec_def)
    have "b \<and> (\<exists>u. d' = set_execs (\<lambda>x. ex_id x = e \<and> ex_task x = i \<and> ex_status x = ExecQueued) (start_exec u (db_now d)) d1)"
      using body t started by (auto simp: claim_reserved_body_def Let_def d1_def)
    then obtain u where "b" and d': "d' = set_execs (\<lambda>x. ex_id x = e \<and> ex_task x = i \<and> ex_status x = ExecQueued) (start_exec u (db_now d)) d1"
      by blast
    show ?thesis unfolding d' using reserved_started_ok [OF g started(2,3) t started(1) _ x, where w = ?w] d1_def \<open>b\<close> by simp
  qed
qed

text \<open>Each claim is one transaction followed by its events, which touch no table.\<close>

lemma same_tables_claims:
  assumes "same_tables d d'" shows "claimable i d' = claimable i d" "claims_apart d' = claims_apart d"
  using assms unfolding same_tables_def claimable_def is_pending_def has_running_exec_def claims_apart_def is_calendar_def
  by (elim exE; simp)+

lemma publish_claims [simp]: "claimable i (publish es d) = claimable i d" "claims_apart (publish es d) = claims_apart d"
  by (simp_all add: claimable_def has_running_exec_def claims_apart_def is_calendar_def)

lemma claim_txn_ok:
  assumes "and_then (txn body d) (\<lambda>(x, b) d1. (Inr (f x b), if b then publish (es x) d1 else d1)) = (r, d')" "claims_apart d"
    and body: "\<And>d1 x b d2. body d1 = (Inr (x, b), d2) \<Longrightarrow> claims_apart d1 \<Longrightarrow> claim_ok i d1 b d2"
  shows "(\<exists>e. r = Inl e) \<and> claim_ok i d False d' \<or> (\<exists>x b. r = Inr (f x b) \<and> claim_ok i d b d')"
proof -
  obtain x d2 where t: "txn body d = (x, d2)" by (rule prod.exhaust)
  then show ?thesis
  proof (cases rule: txn_cases)
    case (failed e)
    with t assms(1,2) show ?thesis by (auto simp: claim_ok_def same_tables_claims)
  next
    case (ok y d1)
    obtain z b where y: "y = (z, b)" by (rule prod.exhaust)
    have "r = Inr (f z b)" "d' = (if b then publish (es z) d2 else d2)"
      using assms(1) unfolding t ok(1) y by simp_all
    moreover have "claim_ok i d1 b d2" using body ok assms(2) y by (simp add: same_tables_claims)
    ultimately show ?thesis using ok(2) by (auto simp: claim_ok_def same_tables_claims)
  qed
qed

lemma claim_attempt_ok:
  assumes "claim_attempt c d = (b, d')" "claims_apart d"
  shows "claim_ok (claimed_task c) d b d'"
proof (cases c)
  case (PlainClaim i)
  obtain r d2 where "claim_task i d = (r, d2)" by (rule prod.exhaust)
  with claim_txn_ok [OF this [unfolded claim_task_def] assms(2), of i] claim_task_body_ok assms(1) PlainClaim
  show ?thesis by (auto simp: won_def)
next
  case (DispatchClaim i)
  obtain r d2 where "claim_task_for_dispatch i d = (r, d2)" by (rule prod.exhaust)
  with claim_txn_ok [OF this [unfolded claim_task_for_dispatch_def] assms(2), of i] claim_dispatch_body_ok assms(1) DispatchClaim
  show ?thesis by (auto simp: won_def)
next
  case (ReservedClaim i e)
  obtain r d2 where "claim_reserved_task_for_dispatch i e d = (r, d2)" by (rule prod.exhaust)
  with claim_txn_ok [OF this [unfolded claim_reserved_task_for_dispatch_def] assms(2), of i] claim_reserved_body_ok assms(1) ReservedClaim
  show ?thesis by (auto simp: won_def)
qed

interpretation task_claims: guarded_claim claim_attempt claimed_task claimable claims_apart
  by unfold_locales (auto dest: claim_attempt_ok simp: claim_ok_def)

text \<open>
  C4: No task is dispatched twice. Of any sequence of claims, plain ones, those of the worker pool
  and those of reserved executions, on any tasks and executions and with any failures of the
  database in between, at most one claim of a task succeeds, as long as nothing but the claims
  changes the tables and, where reserved executions are claimed, the two ways of starting a task are
  apart at the start: the ids are unique, and every ordinary queued execution of a pending task is
  one that an admission of the task names.
\<close>

theorem task_claimed_once:
  assumes "claims_apart d \<or> list_all ordinary_claim cs"
  shows "length (filter (\<lambda>(w, c). w \<and> claimed_task c = i) (fst (race claim_attempt cs d))) \<le> 1"
  using assms task_claims.at_most_one ordinary_claims.one_winner ordinary_race by metis

definition reserved_db :: task_db where
  "reserved_db = sample_db\<lparr>db_tasks := [(sample_task ''a'' ''p'')\<lparr>tk_status := StatusRunning\<rparr>, sample_task ''b'' ''p''],
     db_execs := [\<lparr>ex_id = ''e'', ex_task = ''a'', ex_status = ExecQueued, ex_followup = False, ex_dispatch = None,
       ex_prompt = [], ex_agent = None, ex_new_context = False, ex_error = [], ex_history_order = 0, ex_started_at = 0,
       ex_completed_at = None\<rparr>]\<rparr>"

lemma task_claimed_once_witness:
  "length (filter (\<lambda>(w, c). w \<and> claimed_task c = ''a'') (fst (race claim_attempt
     [ReservedClaim ''a'' ''e'', DispatchClaim ''b'', PlainClaim ''a'', ReservedClaim ''a'' ''e''] reserved_db))) = 1"
    (is "?n = 1")
proof -
  have g: "claims_apart reserved_db" by (simp add: claims_apart_def reserved_db_def queued_ordinary_def is_pending_def)
  obtain d1 where "claim_attempt (ReservedClaim ''a'' ''e'') reserved_db = (True, d1)"
    by (auto simp: claim_reserved_task_for_dispatch_def claim_reserved_body_def reserved_db_def sample_db_def txn_def next_fault_def
        get_task_def reserved_valid_def is_calendar_def reserved_exec_def queued_ordinary_def other_exec_active_def
        automation_context_of_def won_def Let_def)
  then have "?n \<ge> 1" by (auto split: prod.split)
  moreover have "?n \<le> 1" using task_claimed_once [OF disjI1 [OF g]] .
  ultimately show ?thesis by simp
qed


end
