(* ===== verification/Calendar.thy ===== *)
theory Calendar
  imports Schedule TaskStore
begin

section \<open>The schedule calendar\<close>

text \<open>
  \<open>internal/persistence/sqlite/schedule_calendar.go\<close> and \<open>schedule_calendar_scope.go\<close>, with the
  statements of \<open>schedule_repo.go\<close> the scheduler uses: the exclusions and the pauses a user lays
  over the schedules of a project, with the action that takes them back, and the admission of an
  occurrence, which reserves an execution of its task. The tables are those of \<open>TaskDb\<close>, the
  schedules, and the two tables of migration 210; a task statement sees the schedules through
  \<open>tables\<close>.

  A stored time is an instant: the texts the driver writes compare as their instants do when they
  are in UTC. An interval is given in Unix seconds. \<open>Time{}\<close> as the end of an exclusion stands
  for none.
\<close>

record schedule_skip =
  sk_schedule :: string
  sk_start :: int
  sk_end :: int
  sk_restored :: bool

record skip_change =
  ch_skip :: schedule_skip
  ch_present :: bool

datatype calendar_action = CalendarAction (ca_action: string) (ca_ids: "string list")
  (ca_skips: "schedule_skip list") (ca_changes: "skip_change list") (ca_projects: "(string \<times> calendar_action) list")

record calendar_state =
  cs_paused :: bool
  cs_skips :: "schedule_skip list"

record calendar =
  cl_db :: task_db
  cl_schedules :: "schedule list"
  cl_skips :: "(string \<times> schedule_skip) list"
  cl_pauses :: "(string \<times> int) list"
  cl_projects :: "string list"

datatype calendar_error = CalendarSelection | UnknownAction | CalendarStore store_error

definition unix :: "instant \<Rightarrow> int" where
  "unix t = t div second"

text \<open>\<open>ComputeNextRun\<close> always returns, as \<open>Schedule\<close> shows, so that its outer option is never \<open>None\<close>.\<close>

definition next_run_of :: "zone \<Rightarrow> schedule \<Rightarrow> instant \<Rightarrow> instant option" where
  "next_run_of z s from = (case compute_next_run z s from of Some r \<Rightarrow> r | None \<Rightarrow> None)"

subsection \<open>Rows\<close>

definition schedule_row_of :: "schedule \<Rightarrow> schedule_row" where
  "schedule_row_of s = \<lparr>sr_id = sc_id s, sr_task = sc_task_id s, sr_enabled = sc_enabled s,
     sr_repeats = (sc_repeat_type s \<noteq> RepeatOnce), sr_has_next_run = (sc_next_run s \<noteq> None)\<rparr>"

definition tables :: "calendar \<Rightarrow> task_db" where
  "tables c = (cl_db c)\<lparr>db_schedules := map schedule_row_of (cl_schedules c)\<rparr>"

definition get_schedule :: "string \<Rightarrow> calendar \<Rightarrow> schedule option" where
  "get_schedule i c = find (\<lambda>s. sc_id s = i) (cl_schedules c)"

definition map_schedules :: "(schedule \<Rightarrow> bool) \<Rightarrow> (schedule \<Rightarrow> schedule) \<Rightarrow> calendar \<Rightarrow> calendar" where
  "map_schedules P f c = c\<lparr>cl_schedules := map (\<lambda>s. if P s then f s else s) (cl_schedules c)\<rparr>"

text \<open>A schedule joined with its task.\<close>

definition project_of_schedule :: "schedule \<Rightarrow> calendar \<Rightarrow> string option" where
  "project_of_schedule s c = map_option tk_project_id (get_task (sc_task_id s) (cl_db c))"

definition owned_schedule :: "string \<Rightarrow> string \<Rightarrow> calendar \<Rightarrow> schedule option" where
  "owned_schedule p i c =
     (case get_schedule i c of
        None \<Rightarrow> None
      | Some s \<Rightarrow> if project_of_schedule s c = Some p then Some s else None)"

definition calendar_txn :: "(calendar \<Rightarrow> (calendar_error + 'a) \<times> calendar) \<Rightarrow> calendar \<Rightarrow> (calendar_error + 'a) \<times> calendar" where
  "calendar_txn body c =
     (case next_fault (cl_db c) of
        (True, d) \<Rightarrow> (Inl (CalendarStore DbFailure), c\<lparr>cl_db := d\<rparr>)
      | (False, d) \<Rightarrow>
          (let c1 = c\<lparr>cl_db := d\<rparr>
           in case body c1 of (Inl e, _) \<Rightarrow> (Inl e, c1) | (Inr x, c2) \<Rightarrow> (Inr x, c2)))"

definition on_tables :: "(task_db \<Rightarrow> (store_error + 'a) \<times> task_db) \<Rightarrow> calendar \<Rightarrow> (calendar_error + 'a) \<times> calendar" where
  "on_tables f c =
     (case f (tables c) of
        (Inl e, d) \<Rightarrow> (Inl (CalendarStore e), c\<lparr>cl_db := d\<rparr>)
      | (Inr x, d) \<Rightarrow> (Inr x, c\<lparr>cl_db := d\<rparr>))"

definition calendar_query :: "(calendar \<Rightarrow> 'a) \<Rightarrow> calendar \<Rightarrow> (calendar_error + 'a) \<times> calendar" where
  "calendar_query f = calendar_txn (\<lambda>c. (Inr (f c), c))"

subsection \<open>Exclusions\<close>

definition covers :: "schedule_skip \<Rightarrow> int \<Rightarrow> bool" where
  "covers k t \<longleftrightarrow> sk_start k \<le> t \<and> t < sk_end k"

definition skips_of :: "string \<Rightarrow> calendar \<Rightarrow> schedule_skip list" where
  "skips_of p c = map snd (filter (\<lambda>r. fst r = p) (cl_skips c))"

definition restored_at :: "schedule_skip list \<Rightarrow> string \<Rightarrow> int \<Rightarrow> bool" where
  "restored_at ks i t \<longleftrightarrow> (\<exists>k \<in> set ks. sk_schedule k = i \<and> sk_restored k \<and> covers k t)"

definition exclusion_ends :: "schedule_skip list \<Rightarrow> string \<Rightarrow> int \<Rightarrow> int list" where
  "exclusion_ends ks i t =
     (if restored_at ks i t then []
      else map sk_end (filter (\<lambda>k. (sk_schedule k = '''' \<or> sk_schedule k = i) \<and> \<not> sk_restored k \<and> covers k t) ks))"

definition restored_starts :: "schedule_skip list \<Rightarrow> string \<Rightarrow> int \<Rightarrow> int list" where
  "restored_starts ks i t = map sk_start (filter (\<lambda>k. sk_schedule k = i \<and> sk_restored k \<and> t < sk_start k) ks)"

definition greatest :: "int list \<Rightarrow> int option" where
  "greatest ns = (case ns of [] \<Rightarrow> None | n # ms \<Rightarrow> Some (fold max ms n))"

definition least :: "int list \<Rightarrow> int option" where
  "least ns = (case ns of [] \<Rightarrow> None | n # ms \<Rightarrow> Some (fold min ms n))"

definition paused_schedule :: "schedule \<Rightarrow> string \<Rightarrow> calendar \<Rightarrow> bool" where
  "paused_schedule s p c \<longleftrightarrow> \<not> sc_enabled s \<or> p \<in> fst ` set (cl_pauses c)"

definition exclusion_until :: "schedule_skip list \<Rightarrow> string \<Rightarrow> int \<Rightarrow> instant option" where
  "exclusion_until ks i t =
     map_option (\<lambda>e. (case least (restored_starts ks i t) of Some r \<Rightarrow> if r < e then r else e | None \<Rightarrow> e) * second)
       (greatest (exclusion_ends ks i t))"

definition suppressed_schedule_occurrence :: "string \<Rightarrow> instant \<Rightarrow> calendar \<Rightarrow> bool \<times> instant" where
  "suppressed_schedule_occurrence i occurrence c =
     (case get_schedule i c of
        None \<Rightarrow> (False, zero_time)
      | Some s \<Rightarrow>
          (case project_of_schedule s c of
             None \<Rightarrow> (False, zero_time)
           | Some p \<Rightarrow>
               if paused_schedule s p c then (True, zero_time)
               else case exclusion_until (skips_of p c) i (unix occurrence) of
                      Some u \<Rightarrow> (True, u)
                    | None \<Rightarrow> (False, zero_time)))"

definition suppressed_occurrence :: "string \<Rightarrow> instant \<Rightarrow> calendar \<Rightarrow> (calendar_error + bool \<times> instant) \<times> calendar" where
  "suppressed_occurrence i occurrence = calendar_query (suppressed_schedule_occurrence i occurrence)"

subsection \<open>What the user does\<close>

text \<open>
  A row is inserted unless the table has it or its check refuses it, and deleted if the table has it;
  the answer says whether the table changed.
\<close>

definition change_schedule_skip :: "string \<Rightarrow> schedule_skip \<Rightarrow> bool \<Rightarrow> calendar \<Rightarrow> bool \<times> calendar" where
  "change_schedule_skip p k present c =
     (if present
      then if (p, k) \<in> set (cl_skips c) \<or> sk_end k \<le> sk_start k then (False, c)
           else (True, c\<lparr>cl_skips := cl_skips c @ [(p, k)]\<rparr>)
      else if (p, k) \<in> set (cl_skips c) then (True, c\<lparr>cl_skips := filter (\<lambda>r. r \<noteq> (p, k)) (cl_skips c)\<rparr>)
           else (False, c))"

text \<open>The closure \<open>change\<close>, which collects what undoes each change.\<close>

definition change :: "string \<Rightarrow> schedule_skip \<Rightarrow> bool \<Rightarrow> skip_change list \<times> calendar \<Rightarrow> skip_change list \<times> calendar" where
  "change p k present = (\<lambda>(undo, c).
     case change_schedule_skip p k present c of
       (changed, c1) \<Rightarrow> (if changed then undo @ [\<lparr>ch_skip = k, ch_present = \<not> present\<rparr>] else undo, c1))"

text \<open>A row keeps what lies before and after the selected interval.\<close>

definition cut_row :: "string \<Rightarrow> schedule_skip \<Rightarrow> schedule_skip \<Rightarrow> skip_change list \<times> calendar \<Rightarrow> skip_change list \<times> calendar" where
  "cut_row p requested k st =
     (let st1 = change p k False st;
          st2 = (if sk_start k < sk_start requested then change p (k\<lparr>sk_end := sk_start requested\<rparr>) True st1 else st1)
      in if sk_end k > sk_end requested then change p (k\<lparr>sk_start := sk_end requested\<rparr>) True st2 else st2)"

definition other_schedule :: "schedule_skip \<Rightarrow> schedule_skip \<Rightarrow> bool" where
  "other_schedule requested k \<longleftrightarrow> sk_schedule requested \<noteq> '''' \<and> sk_schedule k \<noteq> sk_schedule requested"

definition overlapping :: "string \<Rightarrow> schedule_skip \<Rightarrow> calendar \<Rightarrow> schedule_skip list" where
  "overlapping p requested c =
     filter (\<lambda>k. sk_start k < sk_end requested \<and> sk_end k > sk_start requested) (skips_of p c)"

definition apply_skip :: "bool \<Rightarrow> string \<Rightarrow> schedule_skip \<Rightarrow> skip_change list \<times> calendar \<Rightarrow> skip_change list \<times> calendar" where
  "apply_skip skipping p requested st =
     (let rows = overlapping p requested (snd st);
          restore_project_skip = (\<exists>k \<in> set rows. other_schedule requested k \<and> sk_schedule k = '''' \<and> \<not> sk_restored k);
          cut = filter (\<lambda>k. \<not> other_schedule requested k \<and> \<not> (skipping \<and> \<not> sk_restored k)) rows;
          st1 = fold (cut_row p requested) cut st
      in if skipping then change p (requested\<lparr>sk_restored := False\<rparr>) True st1
         else if restore_project_skip then change p (requested\<lparr>sk_restored := True\<rparr>) True st1
         else st1)"

definition undo_change :: "string \<Rightarrow> skip_change \<Rightarrow> skip_change list \<times> calendar \<Rightarrow> skip_change list \<times> calendar" where
  "undo_change p ch = change p (ch_skip ch) (ch_present ch)"

text \<open>
  Pausing and resuming schedules one by one; \<open>loaded\<close> are the rows as they were read at the start
  of the transaction, with the flag the loop writes back.
\<close>

fun set_enabled ::
  "zone \<Rightarrow> instant \<Rightarrow> bool \<Rightarrow> string list \<Rightarrow> (string \<rightharpoonup> schedule) \<Rightarrow> calendar \<Rightarrow> string list \<times> calendar" where
  "set_enabled z now enabled [] loaded c = ([], c)"
| "set_enabled z now enabled (i # is) loaded c =
     (case loaded i of
        None \<Rightarrow> set_enabled z now enabled is loaded c
      | Some s \<Rightarrow>
          if sc_enabled s = enabled then set_enabled z now enabled is loaded c
          else let next = (if enabled \<and> (case sc_next_run s of None \<Rightarrow> True | Some n \<Rightarrow> n \<le> now)
                           then next_run_of z s now else sc_next_run s);
                   c1 = map_schedules (\<lambda>r. sc_id r = i) (\<lambda>r. r\<lparr>sc_enabled := enabled, sc_next_run := next\<rparr>) c
               in case set_enabled z now enabled is (loaded(i \<mapsto> s\<lparr>sc_enabled := enabled\<rparr>)) c1 of
                    (changed, c2) \<Rightarrow> (i # changed, c2))"

definition overdue :: "string \<Rightarrow> instant \<Rightarrow> calendar \<Rightarrow> schedule \<Rightarrow> bool" where
  "overdue p now c s \<longleftrightarrow> project_of_schedule s c = Some p \<and> sc_enabled s \<and>
     (case sc_next_run s of None \<Rightarrow> False | Some n \<Rightarrow> n \<le> now)"

definition pause_project :: "string \<Rightarrow> instant \<Rightarrow> calendar \<Rightarrow> bool \<times> calendar" where
  "pause_project p now c =
     (if p \<in> fst ` set (cl_pauses c) then (False, c) else (True, c\<lparr>cl_pauses := cl_pauses c @ [(p, unix now)]\<rparr>))"

definition resume_project :: "zone \<Rightarrow> string \<Rightarrow> instant \<Rightarrow> calendar \<Rightarrow> bool \<times> calendar" where
  "resume_project z p now c =
     (case map_of (cl_pauses c) p of
        None \<Rightarrow> (False, c)
      | Some started \<Rightarrow>
          (let c1 = (if unix now > started
                     then snd (change_schedule_skip p \<lparr>sk_schedule = '''', sk_start = started, sk_end = unix now,
                                                        sk_restored = False\<rparr> True c)
                     else c);
               c2 = map_schedules (overdue p now c1) (\<lambda>s. s\<lparr>sc_next_run := next_run_of z s now\<rparr>) c1
           in (True, c2\<lparr>cl_pauses := filter (\<lambda>r. fst r \<noteq> p) (cl_pauses c2)\<rparr>)))"

definition selected_ids :: "calendar_action \<Rightarrow> string list" where
  "selected_ids a = ca_ids a @ filter (\<lambda>i. i \<noteq> '''') (map sk_schedule (ca_skips a)) @
     filter (\<lambda>i. i \<noteq> '''') (map (sk_schedule \<circ> ch_skip) (ca_changes a))"

definition undo_skips :: "skip_change list \<Rightarrow> calendar_action" where
  "undo_skips undo = CalendarAction ''undo_skips'' [] [] undo []"

definition no_action :: calendar_action where
  "no_action = CalendarAction '''' [] [] [] []"

definition apply_calendar_action ::
  "zone \<Rightarrow> string \<Rightarrow> calendar_action \<Rightarrow> instant \<Rightarrow> calendar \<Rightarrow> (calendar_error + calendar_action) \<times> calendar" where
  "apply_calendar_action z p a now c =
     (if p \<notin> set (cl_projects c) \<or> '''' \<in> set (ca_ids a) \<or> (\<exists>i \<in> set (selected_ids a). owned_schedule p i c = None)
      then (Inl CalendarSelection, c)
      else let loaded = (\<lambda>i. if i \<in> set (selected_ids a) then owned_schedule p i c else None)
        in if ca_action a = ''skip'' \<or> ca_action a = ''restore''
           then case fold (apply_skip (ca_action a = ''skip'') p) (ca_skips a) ([], c) of (undo, c1) \<Rightarrow> (Inr (undo_skips undo), c1)
           else if ca_action a = ''undo_skips''
           then case fold (undo_change p) (rev (ca_changes a)) ([], c) of (undo, c1) \<Rightarrow> (Inr (undo_skips undo), c1)
           else if ca_action a = ''pause'' \<or> ca_action a = ''resume''
           then case set_enabled z now (ca_action a = ''resume'') (ca_ids a) loaded c of
                  (changed, c1) \<Rightarrow> (Inr (CalendarAction (if ca_action a = ''resume'' then ''pause'' else ''resume'') changed [] [] []), c1)
           else if ca_action a = ''pause_all''
           then case pause_project p now c of
                  (changed, c1) \<Rightarrow> (Inr (CalendarAction (if changed then ''resume_all'' else '''') [] [] [] []), c1)
           else if ca_action a = ''resume_all''
           then case resume_project z p now c of
                  (changed, c1) \<Rightarrow> (Inr (CalendarAction (if changed then ''pause_all'' else '''') [] [] [] []), c1)
           else (Inl UnknownAction, c))"

subsection \<open>All projects at once\<close>

definition real_projects :: "calendar \<Rightarrow> string list" where
  "real_projects c = filter (\<lambda>p. p \<noteq> all_projects_id) (cl_projects c)"

definition schedule_owner :: "string \<Rightarrow> calendar \<Rightarrow> string option" where
  "schedule_owner i c =
     (case get_schedule i c of
        None \<Rightarrow> None
      | Some s \<Rightarrow>
          (case project_of_schedule s c of
             None \<Rightarrow> None
           | Some p \<Rightarrow> if p \<in> set (real_projects c) then Some p else None))"

definition add_to :: "string \<Rightarrow> (calendar_action \<Rightarrow> calendar_action) \<Rightarrow> (string \<times> calendar_action) list \<Rightarrow> (string \<times> calendar_action) list" where
  "add_to p f = map (\<lambda>(q, a). (q, if q = p then f a else a))"

definition with_id :: "string \<Rightarrow> calendar_action \<Rightarrow> calendar_action" where
  "with_id i a = CalendarAction (ca_action a) (ca_ids a @ [i]) (ca_skips a) (ca_changes a) (ca_projects a)"

definition with_skip :: "schedule_skip \<Rightarrow> calendar_action \<Rightarrow> calendar_action" where
  "with_skip k a = CalendarAction (ca_action a) (ca_ids a) (ca_skips a @ [k]) (ca_changes a) (ca_projects a)"

definition with_change :: "skip_change \<Rightarrow> calendar_action \<Rightarrow> calendar_action" where
  "with_change ch a = CalendarAction (ca_action a) (ca_ids a) (ca_skips a) (ca_changes a @ [ch]) (ca_projects a)"

text \<open>Each part of the selection goes to the project of its schedule, or to all of them.\<close>

fun distribute ::
  "(string \<Rightarrow> string option) \<Rightarrow> ('x \<Rightarrow> string option) \<Rightarrow> ('x \<Rightarrow> calendar_action \<Rightarrow> calendar_action) \<Rightarrow> 'x list \<Rightarrow>
   (string \<times> calendar_action) list \<Rightarrow> calendar_error + (string \<times> calendar_action) list" where
  "distribute owner target f [] parts = Inr parts"
| "distribute owner target f (x # xs) parts =
     (case target x of
        None \<Rightarrow> distribute owner target f xs (map (\<lambda>(q, a). (q, f x a)) parts)
      | Some i \<Rightarrow>
          (case owner i of
             None \<Rightarrow> Inl CalendarSelection
           | Some p \<Rightarrow> distribute owner target f xs (add_to p (f x) parts)))"

definition skip_target :: "schedule_skip \<Rightarrow> string option" where
  "skip_target k = (if sk_schedule k = '''' then None else Some (sk_schedule k))"

definition project_parts :: "calendar_action \<Rightarrow> calendar \<Rightarrow> calendar_error + (string \<times> calendar_action) list" where
  "project_parts a c =
     (if ca_action a = ''undo_projects''
      then if \<exists>(p, part) \<in> set (ca_projects a). p \<notin> set (real_projects c) \<or> ca_projects part \<noteq> []
           then Inl CalendarSelection else Inr (ca_projects a)
      else case distribute (\<lambda>i. schedule_owner i c) Some with_id (ca_ids a)
                  (map (\<lambda>p. (p, CalendarAction (ca_action a) [] [] [] [])) (real_projects c)) of
             Inl e \<Rightarrow> Inl e
           | Inr ps1 \<Rightarrow>
               (case distribute (\<lambda>i. schedule_owner i c) skip_target with_skip (ca_skips a) ps1 of
                  Inl e \<Rightarrow> Inl e
                | Inr ps2 \<Rightarrow> distribute (\<lambda>i. schedule_owner i c) (skip_target \<circ> ch_skip) with_change (ca_changes a) ps2))"

definition for_all :: "calendar_action \<Rightarrow> bool" where
  "for_all a \<longleftrightarrow> ca_action a = ''pause_all'' \<or> ca_action a = ''resume_all''"

definition selects :: "calendar_action \<Rightarrow> bool" where
  "selects a \<longleftrightarrow> for_all a \<or> ca_ids a \<noteq> [] \<or> ca_skips a \<noteq> [] \<or> ca_changes a \<noteq> []"

fun apply_parts ::
  "zone \<Rightarrow> instant \<Rightarrow> (string \<times> calendar_action) list \<Rightarrow> calendar \<Rightarrow> (calendar_error + (string \<times> calendar_action) list) \<times> calendar" where
  "apply_parts z now [] c = (Inr [], c)"
| "apply_parts z now ((p, part) # parts) c =
     (if \<not> selects part then apply_parts z now parts c
      else and_then (apply_calendar_action z p part now c) (\<lambda>undo c1.
             and_then (apply_parts z now parts c1) (\<lambda>undos c2.
               (Inr (if selects undo then (p, undo) # undos else undos), c2))))"

text \<open>The projects are gone through in the order the map of the code happens to have.\<close>

definition apply_all_projects ::
  "zone \<Rightarrow> ((string \<times> calendar_action) list \<Rightarrow> (string \<times> calendar_action) list) \<Rightarrow> calendar_action \<Rightarrow> instant \<Rightarrow>
   calendar \<Rightarrow> (calendar_error + calendar_action) \<times> calendar" where
  "apply_all_projects z map_order a now c =
     (case project_parts a c of
        Inl e \<Rightarrow> (Inl e, c)
      | Inr parts \<Rightarrow>
          and_then (apply_parts z now (map_order parts) c)
            (\<lambda>undos c1. (Inr (CalendarAction ''undo_projects'' [] [] [] undos), c1)))"

definition calendar_apply ::
  "zone \<Rightarrow> ((string \<times> calendar_action) list \<Rightarrow> (string \<times> calendar_action) list) \<Rightarrow> string \<Rightarrow> calendar_action \<Rightarrow> instant \<Rightarrow>
   calendar \<Rightarrow> (calendar_error + calendar_action) \<times> calendar" where
  "calendar_apply z map_order p a now =
     calendar_txn (if p = all_projects_id then apply_all_projects z map_order a now
                   else apply_calendar_action z p a now)"

subsection \<open>What the user sees\<close>

definition far_future :: int where
  "far_future = 253402300799"

definition schedule_rows_of :: "string \<Rightarrow> calendar \<Rightarrow> schedule list" where
  "schedule_rows_of p c = filter (\<lambda>s. project_of_schedule s c = Some p) (cl_schedules c)"

definition all_projects_state :: "calendar \<Rightarrow> calendar_state" where
  "all_projects_state c =
     \<lparr>cs_paused = (cl_pauses c \<noteq> [] \<and> (\<forall>p \<in> set (real_projects c). p \<in> fst ` set (cl_pauses c))),
      cs_skips =
        concat (map (\<lambda>(p, k). map (\<lambda>s. k\<lparr>sk_schedule := sc_id s\<rparr>)
                  (filter (\<lambda>s. sk_schedule k = '''' \<or> sk_schedule k = sc_id s) (schedule_rows_of p c))) (cl_skips c)) @
        concat (map (\<lambda>(p, started). map (\<lambda>s. \<lparr>sk_schedule = sc_id s, sk_start = started, sk_end = far_future,
                  sk_restored = False\<rparr>) (schedule_rows_of p c)) (cl_pauses c))\<rparr>"

definition calendar_state_of :: "string \<Rightarrow> calendar \<Rightarrow> (calendar_error + calendar_state) \<times> calendar" where
  "calendar_state_of p =
     calendar_query (\<lambda>c.
       if p = all_projects_id then all_projects_state c
       else \<lparr>cs_paused = (p \<in> fst ` set (cl_pauses c)), cs_skips = sort_key sk_start (skips_of p c)\<rparr>)"

subsection \<open>Admitting an occurrence\<close>

definition may_claim :: "schedule \<Rightarrow> instant \<Rightarrow> instant \<Rightarrow> calendar \<Rightarrow> schedule \<Rightarrow> bool" where
  "may_claim s n now c r \<longleftrightarrow>
     sc_id r = sc_id s \<and> sc_task_id r = sc_task_id s \<and> sc_enabled r \<and> sc_next_run r = Some n \<and> n \<le> now \<and>
     (let i = sc_task_id r; d = cl_db c
      in i \<notin> ad_task ` set (db_admissions d) \<and> \<not> has_open_exec i d \<and> db_reservations d i = None \<and>
         (\<exists>t \<in> set (db_tasks d). tk_id t = i \<and> tk_status t \<noteq> StatusRunning \<and> tk_status t \<noteq> StatusQueued \<and>
            \<not> thread_input_owns_admission i d))"

text \<open>The task becomes pending on a lane; a task of the conversation lane moves to the schedules.\<close>

definition runnable_category :: "task_category \<Rightarrow> task_category" where
  "runnable_category k = (if k \<noteq> CategoryActive then CategoryScheduled else k)"

definition claimed_order :: "task \<Rightarrow> task_db \<Rightarrow> int" where
  "claimed_order t d =
     (let k = runnable_category (tk_category t)
      in if k \<noteq> tk_category t then category_tail (tk_project_id t) k d
         else if k = CategoryActive \<and> tk_status t \<noteq> StatusPending then active_tail (tk_project_id t) d
         else tk_display_order t)"

definition reserve_occurrence :: "schedule \<Rightarrow> task \<Rightarrow> task_db \<Rightarrow> (store_error + unit) \<times> task_db" where
  "reserve_occurrence s t d =
     (if chat_only (tk_project_id t) (runnable_category (tk_category t)) then (Inl ConstraintFailure, d)
      else let d1 = update_task_row (tk_id t) (\<lambda>u. u\<lparr>tk_status := StatusPending, tk_category := runnable_category (tk_category t),
                      tk_display_order := claimed_order t d, tk_completed_at := None\<rparr>) d
           in and_then (if tk_swarm_role t \<noteq> SwarmRoleParent
                        then and_then (create_execution (lane_execution (t\<lparr>tk_starts_new_context := sc_clear_context_on_start s\<rparr>)) d1)
                               (\<lambda>e d2. (Inr (Some (ex_id e)), d2))
                        else (Inr None, d1))
                (\<lambda>e d2.
                  if sc_id s \<in> ad_schedule ` set (db_admissions d2) then (Inl ConstraintFailure, d2)
                  else (Inr (), d2\<lparr>db_admissions := db_admissions d2 @
                          [\<lparr>ad_task = tk_id t, ad_schedule = sc_id s, ad_exec = e, ad_clear = sc_clear_context_on_start s\<rparr>]\<rparr>)))"

definition claim_occurrence_body ::
  "schedule \<Rightarrow> instant \<Rightarrow> instant \<Rightarrow> instant option \<Rightarrow> calendar \<Rightarrow> (calendar_error + bool) \<times> calendar" where
  "claim_occurrence_body s n now next c =
     (if fst (suppressed_schedule_occurrence (sc_id s) n c) then (Inr False, c)
      else if \<not> (\<exists>r \<in> set (cl_schedules c). may_claim s n now c r) then (Inr False, c)
      else let c1 = map_schedules (may_claim s n now c) (\<lambda>r. r\<lparr>sc_last_run := Some now, sc_next_run := next\<rparr>) c
           in case get_task (sc_task_id s) (cl_db c) of
                None \<Rightarrow> (Inl (CalendarStore (TaskNotFound (sc_task_id s))), c)
              | Some t \<Rightarrow> and_then (on_tables (reserve_occurrence s t) c1) (\<lambda>_ c2. (Inr True, c2)))"

definition claim_calendar_occurrence ::
  "schedule \<Rightarrow> instant \<Rightarrow> instant option \<Rightarrow> calendar \<Rightarrow> (calendar_error + bool) \<times> calendar" where
  "claim_calendar_occurrence s now next c =
     (case sc_next_run s of
        None \<Rightarrow> (Inr False, c)
      | Some n \<Rightarrow> calendar_txn (claim_occurrence_body s n now next) c)"

definition admit_scheduled_occurrence ::
  "schedule \<Rightarrow> instant \<Rightarrow> instant option \<Rightarrow> calendar \<Rightarrow> (calendar_error + bool) \<times> calendar" where
  "admit_scheduled_occurrence s now next c =
     and_then (claim_calendar_occurrence s now next c) (\<lambda>claimed c1.
       if \<not> claimed then (Inr False, c1)
       else case on_tables (get_by_id (sc_task_id s)) c1 of
              (Inr (Some t), c2) \<Rightarrow> (Inr True, c2\<lparr>cl_db := publish [board_event t] (cl_db c2)\<rparr>)
            | (_, c2) \<Rightarrow> (Inr True, c2))"

definition release_calendar_occurrence ::
  "schedule \<Rightarrow> instant \<Rightarrow> instant option \<Rightarrow> calendar \<Rightarrow> (calendar_error + unit) \<times> calendar" where
  "release_calendar_occurrence s admitted_at next =
     calendar_txn (\<lambda>c.
       let unmoved = (\<lambda>r. sc_id r = sc_id s \<and> sc_task_id r = sc_task_id s \<and> sc_last_run r = Some admitted_at \<and>
                     sc_next_run r = next \<and> sc_id r \<in> ad_schedule ` set (db_admissions (cl_db c)))
       in if \<not> (\<exists>r \<in> set (cl_schedules c). unmoved r) then (Inr (), c)
          else let c1 = map_schedules unmoved (\<lambda>r. r\<lparr>sc_last_run := sc_last_run s, sc_next_run := sc_next_run s\<rparr>) c
               in (Inr (), c1\<lparr>cl_db := withdraw_admissions (\<lambda>a. ad_schedule a = sc_id s) (tables c1)\<rparr>))"

text \<open>A suppressed occurrence is passed over, to just before the end of its exclusion when that has passed.\<close>

definition advance_suppressed_occurrence ::
  "zone \<Rightarrow> schedule \<Rightarrow> instant \<Rightarrow> calendar \<Rightarrow> (calendar_error + bool) \<times> calendar" where
  "advance_suppressed_occurrence z s now c =
     (case sc_next_run s of
        None \<Rightarrow> (Inr False, c)
      | Some n \<Rightarrow>
          calendar_txn (\<lambda>c.
            case suppressed_schedule_occurrence (sc_id s) n c of
              (False, _) \<Rightarrow> (Inr False, c)
            | (True, until) \<Rightarrow>
                (let from = (if until \<noteq> zero_time \<and> until \<le> now then until - 1 else now)
                 in (Inr True, map_schedules (\<lambda>r. sc_id r = sc_id s \<and> sc_task_id r = sc_task_id s \<and> sc_enabled r \<and>
                        sc_next_run r = Some n) (\<lambda>r. r\<lparr>sc_next_run := next_run_of z s from\<rparr>) c))) c)"

text \<open>The admitted tasks, each read again, with the setting the admission carries.\<close>

fun load_admissions :: "admission list \<Rightarrow> calendar \<Rightarrow> (calendar_error + (task \<times> string) list) \<times> calendar" where
  "load_admissions [] c = (Inr [], c)"
| "load_admissions (a # as) c =
     and_then (on_tables (get_by_id (ad_task a)) c) (\<lambda>found c1.
       and_then (load_admissions as c1) (\<lambda>rest c2.
         (Inr (case found of
                 None \<Rightarrow> rest
               | Some t \<Rightarrow> (t\<lparr>tk_starts_new_context := ad_clear a\<rparr>, case ad_exec a of Some e \<Rightarrow> e | None \<Rightarrow> '''') # rest), c2)))"

definition list_calendar_admissions :: "calendar \<Rightarrow> (calendar_error + (task \<times> string) list) \<times> calendar" where
  "list_calendar_admissions c =
     and_then (calendar_query (\<lambda>c. db_admissions (cl_db c)) c) load_admissions"

end
