(* ===== verification/CalendarLaws.thy ===== *)
theory CalendarLaws
  imports Calendar TaskLaws
begin

section \<open>What holds of the calendar\<close>

text \<open>
  The exclusions of a project as a predicate on schedules and seconds: what a selection makes of
  it (\<open>skips_change_exactly_the_selection\<close>), and that the action handed back takes every change of
  a selection back (\<open>undo_restores_exclusions\<close>).
\<close>

subsection \<open>Changes to the rows\<close>

definition valid_skip :: "schedule_skip \<Rightarrow> bool" where
  "valid_skip k \<longleftrightarrow> sk_start k < sk_end k"

definition skips_ok :: "calendar \<Rightarrow> bool" where
  "skips_ok c \<longleftrightarrow> (\<forall>r \<in> set (cl_skips c). valid_skip (snd r))"

definition put_row :: "bool \<Rightarrow> string \<times> schedule_skip \<Rightarrow> (string \<times> schedule_skip) set \<Rightarrow> (string \<times> schedule_skip) set" where
  "put_row present r R = (if present then (if valid_skip (snd r) then insert r R else R) else R - {r})"

lemma change_rows: "set (cl_skips (snd (change p k present st))) = put_row present (p, k) (set (cl_skips (snd st)))"
  by (cases st) (auto simp: change_def change_schedule_skip_def put_row_def valid_skip_def not_le)

lemma change_only_skips: "\<exists>rows. snd (change p k present st) = (snd st)\<lparr>cl_skips := rows\<rparr>"
  by (cases st; cases "snd st") (auto simp: change_def change_schedule_skip_def intro: exI [of _ "cl_skips (snd st)"])

text \<open>What every change keeps, every selection and every undo keeps.\<close>

lemma cut_row_closed:
  assumes "\<And>k present st. K k \<Longrightarrow> P st \<Longrightarrow> P (change p k present st)"
    and "\<And>k n. K k \<Longrightarrow> K (k\<lparr>sk_end := n\<rparr>)" "\<And>k n. K k \<Longrightarrow> K (k\<lparr>sk_start := n\<rparr>)" "K k" "P st"
  shows "P (cut_row p req k st)"
  using assms by (simp add: cut_row_def Let_def)

lemma fold_closed: "(\<And>x st. x \<in> set xs \<Longrightarrow> P st \<Longrightarrow> P (f x st)) \<Longrightarrow> P st \<Longrightarrow> P (fold f xs st)"
  by (induction xs arbitrary: st) auto

lemma overlapping_in: "k \<in> set (overlapping p req c) \<Longrightarrow> k \<in> set (skips_of p c)"
  by (simp add: overlapping_def)

lemma skips_of_iff: "k \<in> set (skips_of p c) \<longleftrightarrow> (p, k) \<in> set (cl_skips c)"
  by (force simp: skips_of_def)

lemma apply_skip_closed:
  assumes ch: "\<And>k present st. K k \<Longrightarrow> P st \<Longrightarrow> P (change p k present st)"
    and up: "\<And>k n. K k \<Longrightarrow> K (k\<lparr>sk_end := n\<rparr>)" "\<And>k n. K k \<Longrightarrow> K (k\<lparr>sk_start := n\<rparr>)" "\<And>k b. K k \<Longrightarrow> K (k\<lparr>sk_restored := b\<rparr>)"
    and rows: "\<And>st k. P st \<Longrightarrow> (p, k) \<in> set (cl_skips (snd st)) \<Longrightarrow> K k" and "K req" "P st"
  shows "P (apply_skip skipping p req st)"
proof -
  define cut where "cut = filter (\<lambda>k. \<not> other_schedule req k \<and> \<not> (skipping \<and> \<not> sk_restored k)) (overlapping p req (snd st))"
  have "K k" if "k \<in> set cut" for k
    using that rows [OF \<open>P st\<close>] overlapping_in [of k p req "snd st"] by (auto simp: cut_def skips_of_iff)
  then have "P (fold (cut_row p req) cut st)"
    by (intro fold_closed [where P = P, OF cut_row_closed [of K P]] ch up \<open>P st\<close>) auto
  then show ?thesis
    unfolding apply_skip_def Let_def cut_def [symmetric] using ch up(3) \<open>K req\<close> by simp
qed

subsection \<open>The rows after a selection\<close>

definition pieces :: "schedule_skip \<Rightarrow> schedule_skip \<Rightarrow> schedule_skip set" where
  "pieces req k =
     (if sk_start k < sk_start req then {k\<lparr>sk_end := sk_start req\<rparr>} else {}) \<union>
     (if sk_end k > sk_end req then {k\<lparr>sk_start := sk_end req\<rparr>} else {})"

definition overlaps :: "schedule_skip \<Rightarrow> schedule_skip \<Rightarrow> bool" where
  "overlaps req k \<longleftrightarrow> sk_start k < sk_end req \<and> sk_end k > sk_start req"

lemma cut_row_rows:
  "set (cl_skips (snd (cut_row p req k st))) = (set (cl_skips (snd st)) - {(p, k)}) \<union> Pair p ` pieces req k"
  by (auto simp: cut_row_def Let_def change_rows put_row_def pieces_def valid_skip_def)

lemma pieces_apart: "k' \<in> pieces req k \<Longrightarrow> \<not> overlaps req k'"
  by (auto simp: pieces_def overlaps_def split: if_splits)

lemma cut_rows:
  assumes "\<forall>k \<in> set hit. overlaps req k"
  shows "set (cl_skips (snd (fold (cut_row p req) hit st))) =
    (set (cl_skips (snd st)) - Pair p ` set hit) \<union> Pair p ` (\<Union>k \<in> set hit. pieces req k)"
  using assms
proof (induction hit arbitrary: st)
  case (Cons k ks)
  have "pieces req k \<inter> set ks = {}" using Cons.prems pieces_apart by fastforce
  with Cons show ?case by (auto simp: cut_row_rows)
qed simp

text \<open>A second that a cut row covered stays covered outside the selected interval, and only there.\<close>

lemma pieces_cover:
  assumes "overlaps req k"
  shows "(\<exists>k' \<in> pieces req k. covers k' t) \<longleftrightarrow> covers k t \<and> \<not> covers req t"
  using assms by (auto simp: pieces_def covers_def overlaps_def)

lemma pieces_keep: "k' \<in> pieces req k \<Longrightarrow> sk_schedule k' = sk_schedule k \<and> sk_restored k' = sk_restored k"
  by (auto simp: pieces_def split: if_splits)

subsection \<open>The blackout\<close>

definition excluded :: "schedule_skip list \<Rightarrow> string \<Rightarrow> int \<Rightarrow> bool" where
  "excluded ks i t \<longleftrightarrow>
     (\<exists>k \<in> set ks. (sk_schedule k = '''' \<or> sk_schedule k = i) \<and> \<not> sk_restored k \<and> covers k t) \<and> \<not> restored_at ks i t"

lemma greatest_None: "greatest ns = None \<longleftrightarrow> ns = []"
  by (cases ns) (simp_all add: greatest_def)

lemma exclusion_until_excluded: "exclusion_until ks i t \<noteq> None \<longleftrightarrow> excluded ks i t"
  by (auto simp: exclusion_until_def exclusion_ends_def excluded_def greatest_None filter_empty_conv)

text \<open>What a selection means: inside its interval, for the schedules it names, it decides.\<close>

definition selection_of :: "bool \<Rightarrow> schedule_skip \<Rightarrow> (string \<Rightarrow> int \<Rightarrow> bool) \<Rightarrow> string \<Rightarrow> int \<Rightarrow> bool" where
  "selection_of skipping req e i t =
     (if (sk_schedule req = '''' \<or> sk_schedule req = i) \<and> covers req t then skipping else e i t)"

lemma covers_overlaps: "covers k t \<Longrightarrow> covers req t \<Longrightarrow> overlaps req k"
  by (auto simp: covers_def overlaps_def)

lemma covers_valid: "covers k t \<Longrightarrow> valid_skip k"
  by (simp add: covers_def valid_skip_def)

lemma cut_rows_cover:
  assumes "\<forall>k \<in> set hit. overlaps req k" and "Pair p ` set hit \<subseteq> set (cl_skips (snd st))"
    and Q: "\<And>k k'. sk_schedule k' = sk_schedule k \<Longrightarrow> sk_restored k' = sk_restored k \<Longrightarrow> Q k' = Q k"
  shows "(\<exists>k. (p, k) \<in> set (cl_skips (snd (fold (cut_row p req) hit st))) \<and> Q k \<and> covers k t) \<longleftrightarrow>
    (\<exists>k. (p, k) \<in> set (cl_skips (snd st)) \<and> Q k \<and> covers k t \<and> \<not> (k \<in> set hit \<and> covers req t))"
    (is "?new \<longleftrightarrow> ?old")
proof
  assume ?new
  then obtain k where k: "(p, k) \<in> set (cl_skips (snd (fold (cut_row p req) hit st)))" "Q k" "covers k t" by blast
  show ?old
  proof (cases "(p, k) \<in> set (cl_skips (snd st)) \<and> k \<notin> set hit")
    case True with k show ?thesis by blast
  next
    case False
    with k(1) obtain h where h: "h \<in> set hit" "k \<in> pieces req h" unfolding cut_rows [OF assms(1)] by auto
    with k(3) pieces_cover [of req h t] assms(1) have "covers h t" "\<not> covers req t" by blast+
    moreover have "Q h" using Q pieces_keep [OF h(2)] k(2) by metis
    ultimately show ?thesis using h(1) assms(2) by blast
  qed
next
  assume ?old
  then obtain k where k: "(p, k) \<in> set (cl_skips (snd st))" "Q k" "covers k t" "\<not> (k \<in> set hit \<and> covers req t)" by blast
  show ?new
  proof (cases "k \<in> set hit")
    case False with k show ?thesis unfolding cut_rows [OF assms(1)] by blast
  next
    case True
    with k assms(1) pieces_cover [of req k t] obtain k' where k': "k' \<in> pieces req k" "covers k' t" by blast
    then have "Q k'" using Q pieces_keep [OF k'(1)] k(2) by metis
    with k' True show ?thesis unfolding cut_rows [OF assms(1)] by blast
  qed
qed

text \<open>The rows left by the cuts: outside the interval as before, inside it those not selected.\<close>

definition selected_rows :: "bool \<Rightarrow> string \<Rightarrow> schedule_skip \<Rightarrow> calendar \<Rightarrow> schedule_skip list" where
  "selected_rows skipping p req c =
     filter (\<lambda>k. \<not> other_schedule req k \<and> \<not> (skipping \<and> \<not> sk_restored k)) (overlapping p req c)"

abbreviation after_cuts :: "bool \<Rightarrow> string \<Rightarrow> schedule_skip \<Rightarrow> skip_change list \<times> calendar \<Rightarrow> skip_change list \<times> calendar" where
  "after_cuts skipping p req st \<equiv> fold (cut_row p req) (selected_rows skipping p req (snd st)) st"

lemma after_cuts_cover:
  assumes Q: "\<And>k k'. sk_schedule k' = sk_schedule k \<Longrightarrow> sk_restored k' = sk_restored k \<Longrightarrow> Q k' = Q k"
  shows "(\<exists>k. (p, k) \<in> set (cl_skips (snd (after_cuts skipping p req st))) \<and> Q k \<and> covers k t) \<longleftrightarrow>
    (\<exists>k. (p, k) \<in> set (cl_skips (snd st)) \<and> Q k \<and> covers k t \<and>
       (covers req t \<longrightarrow> other_schedule req k \<or> (skipping \<and> \<not> sk_restored k)))"
proof -
  let ?hit = "selected_rows skipping p req (snd st)"
  have hit: "\<forall>k \<in> set ?hit. overlaps req k" "Pair p ` set ?hit \<subseteq> set (cl_skips (snd st))"
    by (auto simp: selected_rows_def overlapping_def overlaps_def skips_of_iff)
  have "k \<in> set ?hit \<longleftrightarrow> \<not> (other_schedule req k \<or> (skipping \<and> \<not> sk_restored k))"
    if "(p, k) \<in> set (cl_skips (snd st))" "covers k t" "covers req t" for k
    using that covers_overlaps [OF that(2,3)] by (auto simp: selected_rows_def overlapping_def overlaps_def skips_of_iff)
  then show ?thesis using cut_rows_cover [of ?hit req p st Q t, OF hit Q] by blast
qed

lemma apply_skip_eq:
  "apply_skip skipping p req st =
    (if skipping then change p (req\<lparr>sk_restored := False\<rparr>) True (after_cuts skipping p req st)
     else if \<exists>k. (p, k) \<in> set (cl_skips (snd st)) \<and> overlaps req k \<and> other_schedule req k \<and> sk_schedule k = '''' \<and> \<not> sk_restored k
     then change p (req\<lparr>sk_restored := True\<rparr>) True (after_cuts skipping p req st)
     else after_cuts skipping p req st)"
proof -
  have "(\<exists>k \<in> set (overlapping p req (snd st)). other_schedule req k \<and> sk_schedule k = '''' \<and> \<not> sk_restored k) \<longleftrightarrow>
    (\<exists>k. (p, k) \<in> set (cl_skips (snd st)) \<and> overlaps req k \<and> other_schedule req k \<and> sk_schedule k = '''' \<and> \<not> sk_restored k)"
    by (auto simp: overlapping_def overlaps_def skips_of_iff)
  then show ?thesis unfolding apply_skip_def Let_def selected_rows_def by (simp only:)
qed

text \<open>Whether a schedule is excluded at a second, or restored at it, by the rows of a project.\<close>

definition shut :: "string \<Rightarrow> calendar \<Rightarrow> string \<Rightarrow> int \<Rightarrow> bool" where
  "shut p c i t \<longleftrightarrow> (\<exists>k. (p, k) \<in> set (cl_skips c) \<and> ((sk_schedule k = '''' \<or> sk_schedule k = i) \<and> \<not> sk_restored k) \<and> covers k t)"

definition reopened :: "string \<Rightarrow> calendar \<Rightarrow> string \<Rightarrow> int \<Rightarrow> bool" where
  "reopened p c i t \<longleftrightarrow> (\<exists>k. (p, k) \<in> set (cl_skips c) \<and> (sk_schedule k = i \<and> sk_restored k) \<and> covers k t)"

lemma excluded_rows: "excluded (skips_of p c) i t \<longleftrightarrow> shut p c i t \<and> \<not> reopened p c i t"
  by (auto simp: excluded_def restored_at_def skips_of_iff shut_def reopened_def)

lemma change_shut:
  "shut p (snd (change p r True st)) i t \<longleftrightarrow>
     shut p (snd st) i t \<or> ((sk_schedule r = '''' \<or> sk_schedule r = i) \<and> \<not> sk_restored r \<and> covers r t)"
  "reopened p (snd (change p r True st)) i t \<longleftrightarrow>
     reopened p (snd st) i t \<or> (sk_schedule r = i \<and> sk_restored r \<and> covers r t)"
  by (auto simp: shut_def reopened_def change_rows put_row_def dest: covers_valid)

lemma apply_skip_excluded:
  assumes "i \<noteq> ''''"
  shows "excluded (skips_of p (snd (apply_skip skipping p req st))) i t \<longleftrightarrow>
    selection_of skipping req (excluded (skips_of p (snd st))) i t"
proof -
  let ?c = "snd st" and ?c1 = "snd (after_cuts skipping p req st)"
  have s: "shut p ?c1 i t \<longleftrightarrow> (\<exists>k. (p, k) \<in> set (cl_skips ?c) \<and> ((sk_schedule k = '''' \<or> sk_schedule k = i) \<and> \<not> sk_restored k) \<and>
      covers k t \<and> (covers req t \<longrightarrow> other_schedule req k \<or> (skipping \<and> \<not> sk_restored k)))"
    unfolding shut_def by (rule after_cuts_cover) simp
  have r: "reopened p ?c1 i t \<longleftrightarrow> (\<exists>k. (p, k) \<in> set (cl_skips ?c) \<and> (sk_schedule k = i \<and> sk_restored k) \<and>
      covers k t \<and> (covers req t \<longrightarrow> other_schedule req k \<or> (skipping \<and> \<not> sk_restored k)))"
    unfolding reopened_def by (rule after_cuts_cover) simp
  have cov: "covers (req\<lparr>sk_restored := b\<rparr>) t = covers req t" for b by (simp add: covers_def)
  show ?thesis
  proof (cases "covers req t")
    case False
    then have "shut p ?c1 i t = shut p ?c i t" "reopened p ?c1 i t = reopened p ?c i t"
      unfolding s r by (simp_all add: shut_def reopened_def)
    with False show ?thesis
      by (cases skipping) (simp_all add: apply_skip_eq excluded_rows change_shut cov selection_of_def)
  next
    case True
    show ?thesis
    proof (cases "sk_schedule req = '''' \<or> sk_schedule req = i")
      case False
      then have other: "other_schedule req k" if "sk_schedule k = '''' \<or> sk_schedule k = i" for k
        using that by (auto simp: other_schedule_def)
      have "shut p ?c1 i t = shut p ?c i t" "reopened p ?c1 i t = reopened p ?c i t"
        unfolding s r shut_def [of p ?c] reopened_def [of p ?c] using other by blast+
      with False show ?thesis
        by (cases skipping) (simp_all add: apply_skip_eq excluded_rows change_shut selection_of_def)
    next
      case named: True
      have none: "\<not> reopened p ?c1 i t"
        unfolding r using named True assms by (auto simp: other_schedule_def)
      show ?thesis
      proof (cases skipping)
        case True
        with none named \<open>covers req t\<close> show ?thesis
          by (simp add: apply_skip_eq excluded_rows change_shut cov selection_of_def)
      next
        case False
        have "shut p ?c1 i t \<longrightarrow> (\<exists>k. (p, k) \<in> set (cl_skips ?c) \<and> overlaps req k \<and> other_schedule req k \<and> sk_schedule k = '''' \<and> \<not> sk_restored k) \<and> sk_schedule req = i"
          unfolding s using named True False covers_overlaps [of _ t req] by (auto simp: other_schedule_def)
        with False named \<open>covers req t\<close> show ?thesis
          by (auto simp: apply_skip_eq excluded_rows change_shut cov selection_of_def)
      qed
    qed
  qed
qed

lemma selection_of_cong: "e i t = e' i t \<Longrightarrow> fold (selection_of b) reqs e i t = fold (selection_of b) reqs e' i t"
proof (induction reqs arbitrary: e e')
  case (Cons r rs)
  then have "selection_of b r e i t = selection_of b r e' i t" by (simp add: selection_of_def)
  from Cons.IH [of "selection_of b r e" "selection_of b r e'", OF this] show ?case by simp
qed simp

lemma apply_skips_excluded:
  assumes "i \<noteq> ''''"
  shows "excluded (skips_of p (snd (fold (apply_skip skipping p) reqs st))) i t \<longleftrightarrow>
    fold (selection_of skipping) reqs (excluded (skips_of p (snd st))) i t"
proof (induction reqs arbitrary: st)
  case (Cons r rs)
  have "excluded (skips_of p (snd (apply_skip skipping p r st))) i t = selection_of skipping r (excluded (skips_of p (snd st))) i t"
    by (rule apply_skip_excluded [OF assms])
  from selection_of_cong [of "excluded (skips_of p (snd (apply_skip skipping p r st)))" i t
      "selection_of skipping r (excluded (skips_of p (snd st)))" skipping rs, OF this]
  show ?case by (simp add: Cons.IH)
qed simp

text \<open>Nothing but the rows of the project changes.\<close>

definition skips_only :: "string \<Rightarrow> calendar \<Rightarrow> calendar \<Rightarrow> bool" where
  "skips_only p c c' \<longleftrightarrow> (\<exists>rows. c' = c\<lparr>cl_skips := rows\<rparr>) \<and>
     (\<forall>r \<in> set (cl_skips c') \<union> set (cl_skips c). fst r \<noteq> p \<longrightarrow> (r \<in> set (cl_skips c') \<longleftrightarrow> r \<in> set (cl_skips c)))"

lemma skips_only_refl: "skips_only p c c"
  by (auto simp: skips_only_def intro: exI [of _ "cl_skips c"])

lemma skips_only_change: "skips_only p c (snd st) \<Longrightarrow> skips_only p c (snd (change p k present st))"
  using change_only_skips [of p k present st]
  by (auto simp: skips_only_def change_rows put_row_def split: if_splits)

lemma skips_only_frame:
  assumes "skips_only p c c'"
  shows "cl_db c' = cl_db c" "cl_schedules c' = cl_schedules c" "cl_pauses c' = cl_pauses c" "cl_projects c' = cl_projects c"
  using assms by (auto simp: skips_only_def)

lemma skips_only_lookup:
  assumes "skips_only p c c'"
  shows "get_schedule i c' = get_schedule i c" "project_of_schedule s c' = project_of_schedule s c"
    "owned_schedule q i c' = owned_schedule q i c" "paused_schedule s q c' = paused_schedule s q c"
proof -
  note [simp] = skips_only_frame [OF assms]
  show g: "get_schedule i c' = get_schedule i c" for i by (simp add: get_schedule_def)
  show p: "project_of_schedule s c' = project_of_schedule s c" for s by (simp add: project_of_schedule_def)
  show "owned_schedule q i c' = owned_schedule q i c" by (simp add: owned_schedule_def g p split: option.split)
  show "paused_schedule s q c' = paused_schedule s q c" by (simp add: paused_schedule_def)
qed

lemma skips_only_others:
  assumes "skips_only p c c'" "q \<noteq> p"
  shows "excluded (skips_of q c') i t = excluded (skips_of q c) i t"
proof -
  have "(q, k) \<in> set (cl_skips c') \<longleftrightarrow> (q, k) \<in> set (cl_skips c)" for k
    using assms unfolding skips_only_def by force
  then show ?thesis by (simp add: excluded_rows shut_def reopened_def)
qed

lemma apply_skips_only: "skips_only p (snd st) (snd (fold (apply_skip skipping p) reqs st))"
  by (rule fold_closed [where P = "\<lambda>x. skips_only p (snd st) (snd x)", OF apply_skip_closed [of "\<lambda>_. True"]])
    (simp_all add: skips_only_change skips_only_refl)

lemma undo_changes_only: "skips_only p (snd st) (snd (fold (undo_change p) chs st))"
  by (rule fold_closed [where P = "\<lambda>x. skips_only p (snd st) (snd x)"])
    (simp_all add: undo_change_def skips_only_change skips_only_refl)

lemma suppressed_iff:
  assumes "get_schedule i c = Some s" "project_of_schedule s c = Some p" "\<not> paused_schedule s p c"
  shows "fst (suppressed_schedule_occurrence i occ c) \<longleftrightarrow> excluded (skips_of p c) i (unix occ)"
  using exclusion_until_excluded [of "skips_of p c" i "unix occ"] assms
  by (auto simp: suppressed_schedule_occurrence_def split: option.splits)

lemma calendar_txn_ok:
  assumes "calendar_txn body c = (Inr x, c')"
  obtains d where "next_fault (cl_db c) = (False, d)" "body (c\<lparr>cl_db := d\<rparr>) = (Inr x, c')"
  using assms by (auto simp: calendar_txn_def Let_def split: prod.splits bool.splits sum.splits)

lemma next_fault_rest: "next_fault d = (f, d') \<Longrightarrow> \<exists>fs. d' = d\<lparr>db_faults := fs\<rparr>"
  by (auto simp: next_fault_def split: list.splits intro: exI [of _ "db_faults d"])

lemma next_fault_lookup:
  assumes "next_fault (cl_db c) = (f, d)"
  shows "get_schedule i (c\<lparr>cl_db := d\<rparr>) = get_schedule i c" "project_of_schedule s (c\<lparr>cl_db := d\<rparr>) = project_of_schedule s c"
    "owned_schedule q i (c\<lparr>cl_db := d\<rparr>) = owned_schedule q i c" "paused_schedule s q (c\<lparr>cl_db := d\<rparr>) = paused_schedule s q c"
    "skips_of q (c\<lparr>cl_db := d\<rparr>) = skips_of q c"
proof -
  obtain fs where d: "d = (cl_db c)\<lparr>db_faults := fs\<rparr>" using next_fault_rest [OF assms] by blast
  show g: "get_schedule i (c\<lparr>cl_db := d\<rparr>) = get_schedule i c" for i by (simp add: get_schedule_def)
  show p: "project_of_schedule s (c\<lparr>cl_db := d\<rparr>) = project_of_schedule s c" for s
    by (simp add: project_of_schedule_def get_task_def d)
  show "owned_schedule q i (c\<lparr>cl_db := d\<rparr>) = owned_schedule q i c" by (simp add: owned_schedule_def g p split: option.split)
qed (simp_all add: paused_schedule_def skips_of_def)

definition selects_skips :: "calendar_action \<Rightarrow> bool" where
  "selects_skips a \<longleftrightarrow> ca_action a = ''skip'' \<or> ca_action a = ''restore''"

lemma apply_selection:
  assumes "calendar_apply z map_order p a now c = (Inr undo, c')" "selects_skips a" "p \<noteq> all_projects_id"
  obtains d chs where "next_fault (cl_db c) = (False, d)"
    "fold (apply_skip (ca_action a = ''skip'') p) (ca_skips a) ([], c\<lparr>cl_db := d\<rparr>) = (chs, c')" "undo = undo_skips chs"
    "p \<in> set (cl_projects c)" "\<forall>i \<in> set (selected_ids a). owned_schedule p i (c\<lparr>cl_db := d\<rparr>) \<noteq> None"
proof -
  from assms(1) obtain d where d: "next_fault (cl_db c) = (False, d)"
    "apply_calendar_action z p a now (c\<lparr>cl_db := d\<rparr>) = (Inr undo, c')"
    unfolding calendar_apply_def using assms(3) by (auto elim: calendar_txn_ok)
  with assms(2) show thesis
    by (intro that [OF d(1), of "fst (fold (apply_skip (ca_action a = ''skip'') p) (ca_skips a) ([], c\<lparr>cl_db := d\<rparr>))"])
      (auto simp: apply_calendar_action_def selects_skips_def split: prod.splits if_splits)
qed

text \<open>
  C11: After a user skips or restores a selection of intervals in the calendar of one project, the
  scheduler passes over an
  occurrence of an enabled schedule, in no paused project, exactly when the selection says so: inside an interval that
  names the schedule or the whole project, the last such interval of the selection decides, and
  everywhere else, and for the schedules of every other project, the answer is the one from
  before. Rows that reach over an end of an interval keep their parts outside it.
\<close>

theorem selection_decides_exclusions:
  assumes "calendar_apply z map_order p a now c = (Inr undo, c')" "selects_skips a" "p \<noteq> all_projects_id"
    and "get_schedule i c = Some s" "project_of_schedule s c = Some q" "\<not> paused_schedule s q c" "i \<noteq> ''''"
  shows "fst (suppressed_schedule_occurrence i occ c') \<longleftrightarrow>
    (if q = p then fold (selection_of (ca_action a = ''skip'')) (ca_skips a)
                     (\<lambda>i t. fst (suppressed_schedule_occurrence i (t * second) c)) i (unix occ)
     else fst (suppressed_schedule_occurrence i occ c))"
proof -
  obtain d chs where d: "next_fault (cl_db c) = (False, d)"
    "fold (apply_skip (ca_action a = ''skip'') p) (ca_skips a) ([], c\<lparr>cl_db := d\<rparr>) = (chs, c')"
    using apply_selection [OF assms(1-3)] by metis
  note look = next_fault_lookup [OF d(1)]
  have only: "skips_only p (c\<lparr>cl_db := d\<rparr>) c'"
    using apply_skips_only [of p "([], c\<lparr>cl_db := d\<rparr>)" "ca_action a = ''skip''" "ca_skips a"] d(2) by simp
  have now': "fst (suppressed_schedule_occurrence i occ c') \<longleftrightarrow> excluded (skips_of q c') i (unix occ)"
    using assms(4-6) by (intro suppressed_iff [of _ _ s]) (simp_all add: skips_only_lookup [OF only] look)
  have old: "fst (suppressed_schedule_occurrence i o' c) \<longleftrightarrow> excluded (skips_of q c) i (unix o')" for o'
    by (rule suppressed_iff [OF assms(4-6)])
  have u: "unix (t * second) = t" for t by (simp add: unix_def second_def)
  show ?thesis
  proof (cases "q = p")
    case True
    have "excluded (skips_of p c') i (unix occ) =
        fold (selection_of (ca_action a = ''skip'')) (ca_skips a) (excluded (skips_of p c)) i (unix occ)"
      using apply_skips_excluded [OF assms(7), of p "ca_action a = ''skip''" "ca_skips a" "([], c\<lparr>cl_db := d\<rparr>)"] d(2) look(5)
      by simp
    also have "\<dots> = fold (selection_of (ca_action a = ''skip'')) (ca_skips a)
        (\<lambda>i t. fst (suppressed_schedule_occurrence i (t * second) c)) i (unix occ)"
      using True by (intro selection_of_cong) (simp add: old u)
    finally show ?thesis using True now' by simp
  next
    case False
    then show ?thesis using now' old skips_only_others [OF only False] look(5) by simp
  qed
qed

subsection \<open>Taking a selection back\<close>

text \<open>The collected changes, replayed from the last to the first, lead back to the rows of the start.\<close>

definition replay :: "string \<Rightarrow> skip_change list \<Rightarrow> (string \<times> schedule_skip) set \<Rightarrow> (string \<times> schedule_skip) set" where
  "replay p chs R = fold (\<lambda>ch. put_row (ch_present ch) (p, ch_skip ch)) chs R"

definition names_schedule :: "string \<Rightarrow> calendar \<Rightarrow> schedule_skip \<Rightarrow> bool" where
  "names_schedule p c k \<longleftrightarrow> sk_schedule k = '''' \<or> owned_schedule p (sk_schedule k) c \<noteq> None"

definition undoes :: "string \<Rightarrow> calendar \<Rightarrow> skip_change list \<times> calendar \<Rightarrow> bool" where
  "undoes p c st \<longleftrightarrow> skips_ok (snd st) \<and> skips_only p c (snd st) \<and>
     (\<forall>r \<in> set (cl_skips (snd st)). fst r = p \<longrightarrow> names_schedule p c (snd r)) \<and>
     (\<forall>ch \<in> set (fst st). names_schedule p c (ch_skip ch)) \<and>
     replay p (rev (fst st)) (set (cl_skips (snd st))) = set (cl_skips c)"

lemma undo_changes_rows: "set (cl_skips (snd (fold (undo_change p) chs st))) = replay p chs (set (cl_skips (snd st)))"
  by (induction chs arbitrary: st) (simp_all add: replay_def undo_change_def change_rows)

lemma skips_ok_put: "skips_ok c \<Longrightarrow> skips_ok (c\<lparr>cl_skips := rows\<rparr>) \<longleftrightarrow> (\<forall>r \<in> set rows. valid_skip (snd r))"
  by (simp add: skips_ok_def)

lemma change_eq:
  "change p k present (u, c) =
    (if present \<and> (p, k) \<notin> set (cl_skips c) \<and> valid_skip k
     then (u @ [\<lparr>ch_skip = k, ch_present = False\<rparr>], c\<lparr>cl_skips := cl_skips c @ [(p, k)]\<rparr>)
     else if \<not> present \<and> (p, k) \<in> set (cl_skips c)
     then (u @ [\<lparr>ch_skip = k, ch_present = True\<rparr>], c\<lparr>cl_skips := filter (\<lambda>r. r \<noteq> (p, k)) (cl_skips c)\<rparr>)
     else (u, c))"
  by (simp add: change_def change_schedule_skip_def valid_skip_def)

lemma change_cases:
  obtains (none) "change p k present (u, c) = (u, c)"
  | (put) "present" "(p, k) \<notin> set (cl_skips c)" "valid_skip k"
      "change p k present (u, c) = (u @ [\<lparr>ch_skip = k, ch_present = False\<rparr>], c\<lparr>cl_skips := cl_skips c @ [(p, k)]\<rparr>)"
  | (drop) "\<not> present" "(p, k) \<in> set (cl_skips c)"
      "change p k present (u, c) = (u @ [\<lparr>ch_skip = k, ch_present = True\<rparr>], c\<lparr>cl_skips := filter (\<lambda>r. r \<noteq> (p, k)) (cl_skips c)\<rparr>)"
  unfolding change_eq by metis

lemma undoes_change:
  assumes "undoes p c0 st" "names_schedule p c0 k"
  shows "undoes p c0 (change p k present st)"
proof -
  obtain u c where st: "st = (u, c)" by (rule prod.exhaust)
  have only: "skips_only p c0 (snd (change p k present st))"
    using assms(1) by (intro skips_only_change) (simp add: undoes_def)
  show ?thesis
  proof (cases rule: change_cases [of p k present u c])
    case none with assms(1) st show ?thesis by simp
  next
    case put
    have "replay p (rev (u @ [\<lparr>ch_skip = k, ch_present = False\<rparr>])) (insert (p, k) (set (cl_skips c))) = set (cl_skips c0)"
      using assms(1) put(2) by (simp add: undoes_def st replay_def put_row_def)
    then show ?thesis
      using assms only put by (auto simp: undoes_def st skips_ok_def)
  next
    case drop
    have "valid_skip k" using assms(1) drop(2) by (auto simp: undoes_def st skips_ok_def)
    then have "replay p (rev (u @ [\<lparr>ch_skip = k, ch_present = True\<rparr>])) (set (cl_skips c) - {(p, k)}) = set (cl_skips c0)"
      using assms(1) drop(2) by (simp add: undoes_def st replay_def put_row_def insert_absorb)
    moreover have "set (filter (\<lambda>r. r \<noteq> (p, k)) (cl_skips c)) = set (cl_skips c) - {(p, k)}" by auto
    ultimately show ?thesis
      using assms only drop by (auto simp: undoes_def st skips_ok_def)
  qed
qed

lemma undoes_skips:
  assumes "undoes p c0 st" "\<forall>req \<in> set reqs. names_schedule p c0 req"
  shows "undoes p c0 (fold (apply_skip skipping p) reqs st)"
proof (rule fold_closed [where P = "undoes p c0"])
  fix req st1
  assume "req \<in> set reqs" "undoes p c0 st1"
  then show "undoes p c0 (apply_skip skipping p req st1)"
  proof (intro apply_skip_closed [of "names_schedule p c0" "undoes p c0"])
    show "names_schedule p c0 k" if "undoes p c0 st2" "(p, k) \<in> set (cl_skips (snd st2))" for st2 k
      using that by (auto simp: undoes_def)
    show "names_schedule p c0 req" using \<open>req \<in> set reqs\<close> assms(2) by blast
  qed (simp_all add: undoes_change names_schedule_def)
qed (rule assms(1))

lemma undoes_undo:
  assumes "undoes p c0 st" "\<forall>ch \<in> set chs. names_schedule p c0 (ch_skip ch)"
  shows "undoes p c0 (fold (undo_change p) chs st)"
  using assms by (intro fold_closed [where P = "undoes p c0"]) (auto simp: undo_change_def undoes_change)

definition changes_skips :: "calendar_action \<Rightarrow> bool" where
  "changes_skips a \<longleftrightarrow> selects_skips a \<or> ca_action a = ''undo_skips''"

lemma selected_names:
  assumes "\<forall>i \<in> set (selected_ids a). owned_schedule p i c \<noteq> None"
  shows "\<forall>k \<in> set (ca_skips a). names_schedule p c k" "\<forall>ch \<in> set (ca_changes a). names_schedule p c (ch_skip ch)"
  using assms by (auto simp: selected_ids_def names_schedule_def)

lemma undo_accepted:
  assumes "p \<in> set (cl_projects c)" "\<forall>ch \<in> set chs. names_schedule p c (ch_skip ch)"
  shows "apply_calendar_action z p (undo_skips chs) now c =
    (case fold (undo_change p) (rev chs) ([], c) of (undo, c1) \<Rightarrow> (Inr (undo_skips undo), c1))"
  using assms by (auto simp: apply_calendar_action_def undo_skips_def selected_ids_def names_schedule_def)

lemma apply_undoes:
  assumes "apply_calendar_action z p a now c = (Inr undo, c1)" "changes_skips a" "skips_ok c"
    and "\<forall>r \<in> set (cl_skips c). fst r = p \<longrightarrow> names_schedule p c (snd r)"
  obtains chs where "undo = undo_skips chs" "undoes p c (chs, c1)" "p \<in> set (cl_projects c)"
proof -
  have start: "undoes p c ([], c)" using assms(3,4) by (simp add: undoes_def skips_only_refl replay_def)
  have ok: "p \<in> set (cl_projects c)" "\<forall>i \<in> set (selected_ids a). owned_schedule p i c \<noteq> None"
    using assms(1) by (auto simp: apply_calendar_action_def split: if_splits)
  note named = selected_names [OF ok(2)]
  show thesis
  proof (cases "selects_skips a")
    case True
    obtain chs where "fold (apply_skip (ca_action a = ''skip'') p) (ca_skips a) ([], c) = (chs, c1)" "undo = undo_skips chs"
      using assms(1) True by (auto simp: apply_calendar_action_def selects_skips_def split: prod.splits if_splits)
    with undoes_skips [OF start named(1)] ok(1) show thesis by (metis that)
  next
    case False
    with assms(2) have "ca_action a = ''undo_skips''" by (simp add: changes_skips_def)
    with assms(1) obtain chs where "fold (undo_change p) (rev (ca_changes a)) ([], c) = (chs, c1)" "undo = undo_skips chs"
      by (auto simp: apply_calendar_action_def split: prod.splits if_splits)
    moreover have "\<forall>ch \<in> set (rev (ca_changes a)). names_schedule p c (ch_skip ch)" using named(2) by simp
    ultimately show thesis using undoes_undo [OF start] ok(1) by (metis that)
  qed
qed

lemma names_schedule_fault: "next_fault (cl_db c) = (f, d) \<Longrightarrow> names_schedule p (c\<lparr>cl_db := d\<rparr>) k = names_schedule p c k"
  by (simp add: names_schedule_def next_fault_lookup)

lemma names_schedule_only: "skips_only q c c' \<Longrightarrow> names_schedule p c' k = names_schedule p c k"
  by (simp add: names_schedule_def skips_only_lookup)

text \<open>
  C12: Every change of exclusions in the calendar of one project can be taken back: applying the
  action that a skip, a restore or an undo returned brings back exactly the exclusions of all
  projects from before, whatever rows the selection cut into pieces, and leaves schedules and pauses
  alone. It succeeds whenever the database answers. The rows from before are well formed and those of
  the project name schedules of the project.
\<close>

theorem undo_restores_exclusions:
  assumes "calendar_apply z map_order p a now c = (Inr undo, c1)" "changes_skips a" "p \<noteq> all_projects_id" "skips_ok c"
    and "\<forall>r \<in> set (cl_skips c). fst r = p \<longrightarrow> names_schedule p c (snd r)"
    and "\<not> fst (next_fault (cl_db c1))" "calendar_apply z' map_order' p undo now' c1 = (r, c2)"
  shows "(\<exists>redo. r = Inr (undo_skips redo)) \<and> set (cl_skips c2) = set (cl_skips c) \<and>
    cl_schedules c2 = cl_schedules c \<and> cl_pauses c2 = cl_pauses c \<and> cl_projects c2 = cl_projects c"
proof -
  obtain d where d: "next_fault (cl_db c) = (False, d)" "apply_calendar_action z p a now (c\<lparr>cl_db := d\<rparr>) = (Inr undo, c1)"
    using assms(1,3) unfolding calendar_apply_def by (auto elim: calendar_txn_ok)
  have "skips_ok (c\<lparr>cl_db := d\<rparr>)" "\<forall>r \<in> set (cl_skips (c\<lparr>cl_db := d\<rparr>)). fst r = p \<longrightarrow> names_schedule p (c\<lparr>cl_db := d\<rparr>) (snd r)"
    using assms(4,5) by (simp_all add: skips_ok_def names_schedule_fault [OF d(1)])
  then obtain chs where chs: "undo = undo_skips chs" "undoes p (c\<lparr>cl_db := d\<rparr>) (chs, c1)"
    "p \<in> set (cl_projects (c\<lparr>cl_db := d\<rparr>))"
    by (rule apply_undoes [OF d(2) assms(2)])
  then have only: "skips_only p (c\<lparr>cl_db := d\<rparr>) c1" by (simp add: undoes_def)
  obtain d1 where d1: "next_fault (cl_db c1) = (False, d1)" using assms(6) by (cases "next_fault (cl_db c1)") simp
  define st where "st = fold (undo_change p) (rev chs) ([], c1\<lparr>cl_db := d1\<rparr>)"
  have "\<forall>ch \<in> set chs. names_schedule p (c1\<lparr>cl_db := d1\<rparr>) (ch_skip ch)"
    using chs(2) by (simp add: undoes_def names_schedule_fault [OF d1] names_schedule_only [OF only])
  with chs(3) skips_only_frame(4) [OF only]
  have "apply_calendar_action z' p undo now' (c1\<lparr>cl_db := d1\<rparr>) = (Inr (undo_skips (fst st)), snd st)"
    unfolding chs(1) st_def by (subst undo_accepted) (simp_all add: split_beta)
  then have r: "r = Inr (undo_skips (fst st))" "c2 = snd st"
    using assms(7) d1 assms(3) by (auto simp: calendar_apply_def calendar_txn_def Let_def)
  have "skips_only p (c1\<lparr>cl_db := d1\<rparr>) c2"
    unfolding r(2) st_def using undo_changes_only [of p "([], c1\<lparr>cl_db := d1\<rparr>)" "rev chs"] by simp
  note frame = skips_only_frame [OF this] skips_only_frame [OF only]
  have "set (cl_skips c2) = set (cl_skips c)"
    unfolding r(2) st_def undo_changes_rows using chs(2) by (simp add: undoes_def)
  with r(1) frame show ?thesis by auto
qed

subsection \<open>An example\<close>

text \<open>A project that is excluded for its first hundred seconds; a schedule is restored for a part of them.\<close>

definition sample_schedule :: schedule where
  "sample_schedule =
     \<lparr>sc_id = ''s'', sc_task_id = ''a'', sc_run_at = 0, sc_repeat_type = RepeatSeconds, sc_repeat_interval = 5, sc_enabled = True,
      sc_clear_context_on_start = False, sc_next_run = Some (45 * second), sc_last_run = None\<rparr>"

definition sample_calendar :: calendar where
  "sample_calendar =
     \<lparr>cl_db = sample_db, cl_schedules = [sample_schedule],
      cl_skips = [(''p'', \<lparr>sk_schedule = [], sk_start = 0, sk_end = 100, sk_restored = False\<rparr>)],
      cl_pauses = [], cl_projects = [''p'']\<rparr>"

definition sample_restore :: calendar_action where
  "sample_restore = CalendarAction ''restore'' [] [\<lparr>sk_schedule = ''s'', sk_start = 40, sk_end = 60, sk_restored = False\<rparr>] [] []"

definition sample_restored :: calendar where
  "sample_restored = sample_calendar\<lparr>cl_skips := cl_skips sample_calendar @
     [(''p'', \<lparr>sk_schedule = ''s'', sk_start = 40, sk_end = 60, sk_restored = True\<rparr>)]\<rparr>"

definition sample_undo :: calendar_action where
  "sample_undo = undo_skips [\<lparr>ch_skip = \<lparr>sk_schedule = ''s'', sk_start = 40, sk_end = 60, sk_restored = True\<rparr>, ch_present = False\<rparr>]"

lemma sample_lookup:
  "get_schedule ''s'' sample_calendar = Some sample_schedule" "project_of_schedule sample_schedule sample_calendar = Some ''p''"
  "\<not> paused_schedule sample_schedule ''p'' sample_calendar" "next_fault (cl_db sample_calendar) = (False, cl_db sample_calendar)"
  by (simp_all add: get_schedule_def project_of_schedule_def get_task_def paused_schedule_def sample_calendar_def sample_schedule_def
      next_fault_def)

lemma sample_apply: "calendar_apply z id ''p'' sample_restore now sample_calendar = (Inr sample_undo, sample_restored)"
proof -
  have o: "owned_schedule ''p'' ''s'' sample_calendar = Some sample_schedule"
    by (simp add: owned_schedule_def sample_lookup)
  have "apply_calendar_action z ''p'' sample_restore now sample_calendar = (Inr sample_undo, sample_restored)"
    by (simp add: apply_calendar_action_def sample_restore_def selected_ids_def o apply_skip_eq selected_rows_def overlapping_def)
      (simp add: sample_calendar_def skips_of_def overlaps_def other_schedule_def change_eq valid_skip_def sample_undo_def sample_restored_def)
  then show ?thesis
    by (simp add: calendar_apply_def all_projects_id_def calendar_txn_def sample_lookup)
qed

lemma selection_decides_exclusions_witness:
  "fst (suppressed_schedule_occurrence ''s'' (30 * second) sample_restored) \<and>
   \<not> fst (suppressed_schedule_occurrence ''s'' (45 * second) sample_restored)"
proof -
  have sel: "selects_skips sample_restore" by (simp add: selects_skips_def sample_restore_def)
  have p: "''p'' \<noteq> all_projects_id" by (simp add: all_projects_id_def)
  have u: "unix (30 * second) = 30" "unix (45 * second) = 45" by (simp_all add: unix_def second_def)
  note sup = selection_decides_exclusions [OF sample_apply [of "fixed_zone 0" 0] sel p sample_lookup(1-3), simplified]
  have old: "fst (suppressed_schedule_occurrence ''s'' (30 * second) sample_calendar)"
    unfolding suppressed_iff [OF sample_lookup(1-3)]
    by (simp add: u excluded_def sample_calendar_def skips_of_def covers_def restored_at_def)
  show ?thesis
    using sup [of "30 * second"] sup [of "45 * second"] old
    by (simp add: u sample_restore_def selection_of_def covers_def)
qed

lemma undo_restores_exclusions_witness:
  "set (cl_skips (snd (calendar_apply (fixed_zone 0) id ''p'' sample_undo 9 sample_restored))) = set (cl_skips sample_calendar)"
proof -
  have "changes_skips sample_restore" by (simp add: changes_skips_def selects_skips_def sample_restore_def)
  moreover have "''p'' \<noteq> all_projects_id" by (simp add: all_projects_id_def)
  moreover have "skips_ok sample_calendar" by (simp add: skips_ok_def valid_skip_def sample_calendar_def)
  moreover have "\<forall>r \<in> set (cl_skips sample_calendar). fst r = ''p'' \<longrightarrow> names_schedule ''p'' sample_calendar (snd r)"
    by (simp add: names_schedule_def) (simp add: sample_calendar_def)
  moreover have "\<not> fst (next_fault (cl_db sample_restored))" by (simp add: sample_restored_def sample_lookup)
  ultimately show ?thesis
    using undo_restores_exclusions [OF sample_apply [of "fixed_zone 0" 0]] by (metis prod.collapse)
qed

end
