(* ===== verification/ScheduleStore.thy ===== *)
theory ScheduleStore
  imports Calendar
begin

section \<open>The schedule repository\<close>

text \<open>
  The writes of \<open>internal/persistence/sqlite/schedule_repo.go\<close> and the scan for due schedules, on
  the state of \<open>Calendar\<close>. A write is one statement or one transaction; what its \<open>WHERE\<close> clause
  does not match it leaves alone, and the answer says what it matched. Rounding strips the
  monotonic reading, which an instant does not have.
\<close>

datatype schedule_error = InvalidRepeatInterval | ScheduleStoreError calendar_error | ScheduleNotFound
  | NotOwnedByProject string | MoveFailed string

definition in_store :: "(calendar_error + 'a) \<times> calendar \<Rightarrow> (schedule_error + 'a) \<times> calendar" where
  "in_store r = (case r of (Inl e, c) \<Rightarrow> (Inl (ScheduleStoreError e), c) | (Inr x, c) \<Rightarrow> (Inr x, c))"

definition known_repeat :: "repeat_type \<Rightarrow> bool" where
  "known_repeat rt \<longleftrightarrow> (case rt of RepeatUnknown _ \<Rightarrow> False | _ \<Rightarrow> True)"

text \<open>An update of the rows a predicate selects, with whether it selected any.\<close>

definition update_schedules :: "(schedule \<Rightarrow> bool) \<Rightarrow> (schedule \<Rightarrow> schedule) \<Rightarrow> calendar \<Rightarrow> (calendar_error + bool) \<times> calendar" where
  "update_schedules P f =
     calendar_txn (\<lambda>c.
       if \<exists>r \<in> set (cl_schedules c). P r \<and> \<not> known_repeat (sc_repeat_type (f r)) then (Inl (CalendarStore ConstraintFailure), c)
       else (Inr (\<exists>r \<in> set (cl_schedules c). P r), map_schedules P f c))"

definition of_task :: "string \<Rightarrow> string \<Rightarrow> schedule \<Rightarrow> bool" where
  "of_task i task r \<longleftrightarrow> sc_id r = i \<and> sc_task_id r = task"

definition list_due :: "instant \<Rightarrow> calendar \<Rightarrow> (calendar_error + schedule list) \<times> calendar" where
  "list_due now =
     calendar_query (\<lambda>c. sort_key (\<lambda>s. the (sc_next_run s))
       (filter (\<lambda>s. sc_enabled s \<and> (case sc_next_run s of None \<Rightarrow> False | Some n \<Rightarrow> n \<le> now)) (cl_schedules c)))"

definition schedule_by_id :: "string \<Rightarrow> calendar \<Rightarrow> (calendar_error + schedule option) \<times> calendar" where
  "schedule_by_id i = calendar_query (get_schedule i)"

definition create_schedule :: "schedule \<Rightarrow> calendar \<Rightarrow> (schedule_error + schedule) \<times> calendar" where
  "create_schedule s c =
     (if \<not> validate_schedule_repeat_interval (sc_repeat_interval s) then (Inl InvalidRepeatInterval, c)
      else let next = (case sc_next_run s of None \<Rightarrow> sc_run_at s | Some n \<Rightarrow> n)
           in in_store (calendar_txn (\<lambda>c.
                case db_ids (cl_db c) of
                  [] \<Rightarrow> (Inl (CalendarStore DbFailure), c)
                | i # is \<Rightarrow>
                    if i \<in> sc_id ` set (cl_schedules c) \<or> get_task (sc_task_id s) (cl_db c) = None \<or> \<not> known_repeat (sc_repeat_type s)
                    then (Inl (CalendarStore ConstraintFailure), c)
                    else let s1 = s\<lparr>sc_id := i, sc_next_run := Some next\<rparr>
                         in (Inr s1, c\<lparr>cl_db := (cl_db c)\<lparr>db_ids := is\<rparr>,
                                       cl_schedules := cl_schedules c @ [s1\<lparr>sc_last_run := None\<rparr>]\<rparr>)) c))"

definition timing_row :: "schedule \<Rightarrow> schedule \<Rightarrow> schedule" where
  "timing_row s r = r\<lparr>sc_run_at := sc_run_at s, sc_repeat_type := sc_repeat_type s, sc_repeat_interval := sc_repeat_interval s,
     sc_clear_context_on_start := sc_clear_context_on_start s, sc_next_run := sc_next_run s\<rparr>"

definition update_schedule :: "schedule \<Rightarrow> calendar \<Rightarrow> (schedule_error + unit) \<times> calendar" where
  "update_schedule s c =
     (if \<not> validate_schedule_repeat_interval (sc_repeat_interval s) then (Inl InvalidRepeatInterval, c)
      else and_then (in_store (update_schedules (\<lambda>r. sc_id r = sc_id s)
                       (\<lambda>r. (timing_row s r)\<lparr>sc_enabled := sc_enabled s\<rparr>) c)) (\<lambda>_ c1. (Inr (), c1)))"

definition update_schedule_for_task :: "schedule \<Rightarrow> string \<Rightarrow> calendar \<Rightarrow> (schedule_error + unit) \<times> calendar" where
  "update_schedule_for_task s task c =
     (if \<not> validate_schedule_repeat_interval (sc_repeat_interval s) then (Inl InvalidRepeatInterval, c)
      else and_then (in_store (update_schedules (of_task (sc_id s) task) (timing_row s) c))
             (\<lambda>matched c1. if matched then (Inr (), c1) else (Inl ScheduleNotFound, c1)))"

text \<open>The batch of a calendar drag: each row is read again and handed to the mover.\<close>

fun move_schedules :: "string \<Rightarrow> (schedule \<Rightarrow> schedule option) \<Rightarrow> string list \<Rightarrow> calendar \<Rightarrow> (schedule_error + unit) \<times> calendar" where
  "move_schedules p move [] c = (Inr (), c)"
| "move_schedules p move (i # is) c =
     (case find (\<lambda>s. sc_id s = i \<and> (case project_of_schedule s c of Some q \<Rightarrow> p = all_projects_id \<or> q = p | None \<Rightarrow> False)) (cl_schedules c) of
        None \<Rightarrow> (Inl (NotOwnedByProject i), c)
      | Some s \<Rightarrow>
          (case move s of
             None \<Rightarrow> (Inl (MoveFailed i), c)
           | Some m \<Rightarrow> move_schedules p move is
               (map_schedules (\<lambda>r. sc_id r = i) (\<lambda>r. r\<lparr>sc_run_at := sc_run_at m, sc_next_run := sc_next_run m\<rparr>) c)))"

definition update_batch_for_project ::
  "string \<Rightarrow> string list \<Rightarrow> (schedule \<Rightarrow> schedule option) \<Rightarrow> calendar \<Rightarrow> (schedule_error + unit) \<times> calendar" where
  "update_batch_for_project p is move c =
     (if is = [] then (Inr (), c)
      else case next_fault (cl_db c) of
             (True, d) \<Rightarrow> (Inl (ScheduleStoreError (CalendarStore DbFailure)), c\<lparr>cl_db := d\<rparr>)
           | (False, d) \<Rightarrow>
               (let c1 = c\<lparr>cl_db := d\<rparr>
                in case move_schedules p move is c1 of (Inl e, _) \<Rightarrow> (Inl e, c1) | (Inr u, c2) \<Rightarrow> (Inr u, c2)))"

definition update_clear_context :: "string \<Rightarrow> string \<Rightarrow> bool \<Rightarrow> calendar \<Rightarrow> (calendar_error + bool) \<times> calendar" where
  "update_clear_context i task clear = update_schedules (of_task i task) (\<lambda>r. r\<lparr>sc_clear_context_on_start := clear\<rparr>)"

definition mark_ran :: "string \<Rightarrow> instant \<Rightarrow> instant option \<Rightarrow> calendar \<Rightarrow> (calendar_error + bool) \<times> calendar" where
  "mark_ran i admitted_at next =
     update_schedules (\<lambda>r. sc_id r = i \<and> sc_enabled r) (\<lambda>r. r\<lparr>sc_last_run := Some admitted_at, sc_next_run := next\<rparr>)"

definition update_next_run_if_current ::
  "string \<Rightarrow> string \<Rightarrow> instant option \<Rightarrow> instant option \<Rightarrow> calendar \<Rightarrow> (calendar_error + bool) \<times> calendar" where
  "update_next_run_if_current i task expected next =
     update_schedules (\<lambda>r. of_task i task r \<and> sc_enabled r \<and> sc_next_run r = expected) (\<lambda>r. r\<lparr>sc_next_run := next\<rparr>)"

definition toggle_enabled :: "string \<Rightarrow> bool \<Rightarrow> calendar \<Rightarrow> (calendar_error + bool) \<times> calendar" where
  "toggle_enabled i enabled = update_schedules (\<lambda>r. sc_id r = i) (\<lambda>r. r\<lparr>sc_enabled := enabled\<rparr>)"

text \<open>A schedule that does not repeat and has run cannot be enabled again.\<close>

definition enables :: "schedule \<Rightarrow> bool" where
  "enables r \<longleftrightarrow> sc_repeat_type r \<noteq> RepeatOnce \<or> sc_next_run r \<noteq> None"

definition returning :: "string \<Rightarrow> (calendar_error + bool) \<times> calendar \<Rightarrow> (calendar_error + schedule option) \<times> calendar" where
  "returning i r = and_then r (\<lambda>matched c. (Inr (if matched then get_schedule i c else None), c))"

definition set_enabled_for_task :: "string \<Rightarrow> string \<Rightarrow> bool \<Rightarrow> calendar \<Rightarrow> (calendar_error + schedule option) \<times> calendar" where
  "set_enabled_for_task i task enabled c =
     returning i (update_schedules (\<lambda>r. of_task i task r \<and> (enabled \<longrightarrow> enables r)) (\<lambda>r. r\<lparr>sc_enabled := enabled\<rparr>) c)"

definition toggle_enabled_for_task :: "string \<Rightarrow> string \<Rightarrow> calendar \<Rightarrow> (calendar_error + schedule option) \<times> calendar" where
  "toggle_enabled_for_task i task c =
     returning i (update_schedules (\<lambda>r. of_task i task r \<and> (sc_enabled r \<or> enables r)) (\<lambda>r. r\<lparr>sc_enabled := \<not> sc_enabled r\<rparr>) c)"

text \<open>
  Deleting: \<open>schedule_delete_withdraw_pending\<close> cancels what the schedule admitted and has not
  started, the foreign key removes its admission, \<open>schedule_skips_delete_schedule\<close> its exclusions.
\<close>

definition delete_schedule_row :: "string \<Rightarrow> calendar \<Rightarrow> calendar" where
  "delete_schedule_row i c =
     (let admitted = map ad_task (filter (\<lambda>a. ad_schedule a = i) (db_admissions (cl_db c)));
          waiting = map tk_id (filter (\<lambda>t. tk_status t = StatusPending \<and> tk_id t \<in> set admitted) (db_tasks (cl_db c)));
          d1 = fold (\<lambda>t. update_task_row t (\<lambda>u. u\<lparr>tk_status := StatusCancelled\<rparr>)) waiting (tables c);
          d2 = withdraw_admissions (\<lambda>a. ad_schedule a = i) d1
      in c\<lparr>cl_db := d2, cl_schedules := filter (\<lambda>s. sc_id s \<noteq> i) (cl_schedules c),
           cl_skips := filter (\<lambda>r. sk_schedule (snd r) \<noteq> i) (cl_skips c)\<rparr>)"

definition delete_schedule :: "string \<Rightarrow> calendar \<Rightarrow> (calendar_error + unit) \<times> calendar" where
  "delete_schedule i =
     calendar_txn (\<lambda>c. (Inr (), if get_schedule i c = None then c else delete_schedule_row i c))"

definition delete_orphan :: "string \<Rightarrow> string \<Rightarrow> calendar \<Rightarrow> (calendar_error + unit) \<times> calendar" where
  "delete_orphan i task =
     calendar_txn (\<lambda>c. (Inr (),
       if (\<exists>s \<in> set (cl_schedules c). of_task i task s) \<and> get_task task (cl_db c) = None then delete_schedule_row i c else c))"

end
