(* ===== verification/CalendarClaims.thy ===== *)
theory CalendarClaims
  imports CalendarLaws ScheduleStore
begin

section \<open>An occurrence runs once\<close>

text \<open>
  The schedulers of several processes work on snapshots of the schedules. Each check of a due
  schedule tries to admit its occurrence, passes it over when it is suppressed, or moves on while the
  task still runs; the contract \<open>guarded_claim\<close> then gives that no occurrence is admitted twice.
\<close>

lemma next_run_of_after: "next_run_of z s b = Some t \<Longrightarrow> b < t"
proof (cases "repeats s")
  case True
  assume t: "next_run_of z s b = Some t"
  from repeating_first [OF True, of z b] t show ?thesis by (auto simp: next_run_of_def)
next
  case False
  assume "next_run_of z s b = Some t"
  with not_repeating [OF False, of z b] show ?thesis by (simp add: next_run_of_def)
qed

lemma greatest_in: "greatest ns = Some e \<Longrightarrow> e \<in> set ns"
proof -
  have "fold max ms n \<in> insert n (set ms)" for ms :: "int list" and n
  proof (induction ms arbitrary: n)
    case (Cons m ms)
    from Cons.IH [of "max m n"] show ?case by (auto simp: max_def)
  qed simp
  then show "greatest ns = Some e \<Longrightarrow> e \<in> set ns" by (cases ns) (auto simp: greatest_def)
qed

lemma least_in: "least ns = Some e \<Longrightarrow> e \<in> set ns"
proof -
  have "fold min ms n \<in> insert n (set ms)" for ms :: "int list" and n
  proof (induction ms arbitrary: n)
    case (Cons m ms)
    from Cons.IH [of "min m n"] show ?case by (auto simp: min_def)
  qed simp
  then show "least ns = Some e \<Longrightarrow> e \<in> set ns" by (cases ns) (auto simp: least_def)
qed

text \<open>An exclusion ends a whole second after the one it is asked about, at the earliest.\<close>

lemma exclusion_until_after: "exclusion_until ks i t = Some u \<Longrightarrow> (t + 1) * second \<le> u"
proof -
  assume "exclusion_until ks i t = Some u"
  then obtain e where e: "greatest (exclusion_ends ks i t) = Some e"
    "u = (case least (restored_starts ks i t) of Some r \<Rightarrow> if r < e then r else e | None \<Rightarrow> e) * second"
    by (auto simp: exclusion_until_def)
  have "t + 1 \<le> e" using greatest_in [OF e(1)] by (auto simp: exclusion_ends_def covers_def split: if_splits)
  moreover have "t + 1 \<le> r" if "least (restored_starts ks i t) = Some r" for r
    using least_in [OF that] by (auto simp: restored_starts_def)
  ultimately have "t + 1 \<le> (case least (restored_starts ks i t) of Some r \<Rightarrow> if r < e then r else e | None \<Rightarrow> e)"
    by (auto split: option.splits)
  then show ?thesis unfolding e(2) by (rule mult_right_mono) (simp add: second_def)
qed

lemma unix_before: "n < (unix n + 1) * second"
  using int_div_bounds(2) [of second n] by (simp add: unix_def second_def algebra_simps)

lemma suppressed_until:
  assumes "suppressed_schedule_occurrence i n c = (True, u)" "u \<noteq> zero_time"
  shows "n \<le> u - 1"
proof -
  from assms obtain p where "exclusion_until (skips_of p c) i (unix n) = Some u"
    by (auto simp: suppressed_schedule_occurrence_def split: option.splits if_splits)
  from exclusion_until_after [OF this] unix_before [of n] show ?thesis by simp
qed

subsection \<open>What the checks do to the schedules\<close>

text \<open>A due schedule is one whose occurrence the listing found at or before the present.\<close>

definition due :: "instant \<Rightarrow> schedule \<Rightarrow> bool" where
  "due now s \<longleftrightarrow> (case sc_next_run s of None \<Rightarrow> False | Some n \<Rightarrow> n \<le> now)"

definition pending_occurrence :: "string \<times> instant \<Rightarrow> calendar \<Rightarrow> bool" where
  "pending_occurrence k c \<longleftrightarrow> (\<exists>r \<in> set (cl_schedules c). sc_id r = fst k \<and> (\<exists>n. sc_next_run r = Some n \<and> n \<le> snd k))"

text \<open>The next run of a schedule only goes forward.\<close>

definition later :: "schedule \<Rightarrow> schedule \<Rightarrow> bool" where
  "later r r' \<longleftrightarrow> sc_id r' = sc_id r \<and> (\<forall>t. sc_next_run r' = Some t \<longrightarrow> (\<exists>n. sc_next_run r = Some n \<and> n \<le> t))"

definition moves_on :: "calendar \<Rightarrow> calendar \<Rightarrow> bool" where
  "moves_on c c' \<longleftrightarrow> list_all2 later (cl_schedules c) (cl_schedules c')"

lemma moves_on_refl: "cl_schedules c' = cl_schedules c \<Longrightarrow> moves_on c c'"
  by (simp add: moves_on_def later_def list.rel_refl)

lemma moves_on_map:
  "(\<And>r. P r \<Longrightarrow> later r (f r)) \<Longrightarrow> cl_schedules c' = cl_schedules (map_schedules P f c) \<Longrightarrow> moves_on c c'"
  by (auto simp: moves_on_def map_schedules_def list_all2_conv_all_nth) (simp add: later_def)

lemma moves_on_pending: "moves_on c c' \<Longrightarrow> pending_occurrence k c' \<Longrightarrow> pending_occurrence k c"
proof -
  assume m: "moves_on c c'" and "pending_occurrence k c'"
  then obtain j n where j: "j < length (cl_schedules c')" "sc_id (cl_schedules c' ! j) = fst k"
    "sc_next_run (cl_schedules c' ! j) = Some n" "n \<le> snd k"
    by (auto simp: pending_occurrence_def in_set_conv_nth)
  with m have "later (cl_schedules c ! j) (cl_schedules c' ! j)" "j < length (cl_schedules c)"
    by (simp_all add: moves_on_def list_all2_conv_all_nth)
  with j show "pending_occurrence k c"
    by (fastforce simp: pending_occurrence_def later_def in_set_conv_nth)
qed

definition distinct_schedules :: "calendar \<Rightarrow> bool" where
  "distinct_schedules c \<longleftrightarrow> distinct (map sc_id (cl_schedules c))"

lemma moves_on_distinct: "moves_on c c' \<Longrightarrow> distinct_schedules c \<Longrightarrow> distinct_schedules c'"
proof -
  assume "moves_on c c'" "distinct_schedules c"
  moreover from \<open>moves_on c c'\<close> have "map sc_id (cl_schedules c') = map sc_id (cl_schedules c)"
    by (intro nth_equalityI) (simp_all add: moves_on_def list_all2_conv_all_nth later_def)
  ultimately show "distinct_schedules c'" by (simp add: distinct_schedules_def)
qed

lemma calendar_txn_schedules:
  assumes "calendar_txn body c = (r, c')"
  obtains "cl_schedules c' = cl_schedules c"
  | d x where "r = Inr x" "body (c\<lparr>cl_db := d\<rparr>) = (Inr x, c')"
proof -
  obtain f d where n: "next_fault (cl_db c) = (f, d)" by (rule prod.exhaust)
  obtain y c2 where b: "body (c\<lparr>cl_db := d\<rparr>) = (y, c2)" by (rule prod.exhaust)
  from assms n b show thesis
    by (cases f; cases y) (auto simp: calendar_txn_def Let_def intro: that)
qed

lemma on_tables_schedules: "on_tables f c = (r, c') \<Longrightarrow> cl_schedules c' = cl_schedules c"
  by (auto simp: on_tables_def split: prod.splits sum.splits)

subsection \<open>The checks\<close>

lemma claim_body_moves:
  assumes "claim_occurrence_body s n now (next_run_of z s now) c = (Inr claimed, c')"
  shows "moves_on c c' \<and> (claimed \<longrightarrow> pending_occurrence (sc_id s, n) c \<and>
    (distinct_schedules c \<longrightarrow> \<not> pending_occurrence (sc_id s, n) c') \<and>
    \<not> fst (suppressed_schedule_occurrence (sc_id s) n c))"
proof (cases "fst (suppressed_schedule_occurrence (sc_id s) n c) \<or> \<not> (\<exists>r \<in> set (cl_schedules c). may_claim s n now c r)")
  case True
  with assms have "c' = c" "\<not> claimed" by (auto simp: claim_occurrence_body_def split: if_splits)
  then show ?thesis by (simp add: moves_on_refl)
next
  case False
  let ?f = "\<lambda>r. r\<lparr>sc_last_run := Some now, sc_next_run := next_run_of z s now\<rparr>"
  let ?c1 = "map_schedules (may_claim s n now c) ?f c"
  obtain t u where "get_task (sc_task_id s) (cl_db c) = Some t" "on_tables (reserve_occurrence s t) ?c1 = (Inr u, c')"
    using assms False
    by (auto simp: claim_occurrence_body_def and_then_def split: option.splits prod.splits sum.splits)
  then have rows: "cl_schedules c' = cl_schedules ?c1" using on_tables_schedules by blast
  have fwd: "later r (?f r)" if "may_claim s n now c r" for r
    using that next_run_of_after [of z s now] by (auto simp: later_def may_claim_def)
  from False obtain r where r: "r \<in> set (cl_schedules c)" "may_claim s n now c r" by blast
  have gone: "\<not> pending_occurrence (sc_id s, n) c'" if "distinct_schedules c"
  proof
    assume "pending_occurrence (sc_id s, n) c'"
    then obtain q m where q: "q \<in> set (cl_schedules c)" "sc_id q = sc_id s"
      "sc_next_run (if may_claim s n now c q then ?f q else q) = Some m" "m \<le> n"
      unfolding pending_occurrence_def rows map_schedules_def by (auto split: if_splits)
    have "sc_id q = sc_id r" using q(2) r(2) by (simp add: may_claim_def)
    then have "q = r" using that q(1) r(1) by (auto simp: distinct_schedules_def distinct_map dest: inj_onD)
    with q r next_run_of_after [of z s now m] show False by (auto simp: may_claim_def)
  qed
  have "pending_occurrence (sc_id s, n) c"
    using r unfolding pending_occurrence_def by (auto simp: may_claim_def)
  then show ?thesis using False gone moves_on_map [OF fwd rows] by blast
qed

lemma moves_on_db: "moves_on (c\<lparr>cl_db := d\<rparr>) c' = moves_on c c'" "moves_on c (c'\<lparr>cl_db := d\<rparr>) = moves_on c c'"
  by (simp_all add: moves_on_def)

lemma pending_occurrence_db: "pending_occurrence k (c\<lparr>cl_db := d\<rparr>) = pending_occurrence k c"
  by (simp add: pending_occurrence_def)

lemma claim_moves:
  assumes "claim_calendar_occurrence s now (next_run_of z s now) c = (r, c')"
  shows "moves_on c c' \<and> (r = Inr True \<longrightarrow> (\<exists>n. sc_next_run s = Some n \<and> pending_occurrence (sc_id s, n) c \<and>
    (distinct_schedules c \<longrightarrow> \<not> pending_occurrence (sc_id s, n) c')))"
proof (cases "sc_next_run s")
  case None with assms show ?thesis by (auto simp: claim_calendar_occurrence_def moves_on_refl)
next
  case (Some n)
  with assms have t: "calendar_txn (claim_occurrence_body s n now (next_run_of z s now)) c = (r, c')"
    by (simp add: claim_calendar_occurrence_def)
  obtain f d where n: "next_fault (cl_db c) = (f, d)" by (rule prod.exhaust)
  obtain y c2 where b: "claim_occurrence_body s n now (next_run_of z s now) (c\<lparr>cl_db := d\<rparr>) = (y, c2)" by (rule prod.exhaust)
  show ?thesis
  proof (cases "\<exists>claimed. \<not> f \<and> y = Inr claimed")
    case True
    then obtain claimed where y: "\<not> f" "y = Inr claimed" by blast
    then have "r = Inr claimed" "c' = c2" using t n b by (simp_all add: calendar_txn_def Let_def)
    with claim_body_moves [OF b [unfolded y(2)]] Some show ?thesis
      by (simp add: moves_on_db pending_occurrence_db distinct_schedules_def)
  next
    case False
    then have "(\<exists>e. r = Inl e) \<and> c' = c\<lparr>cl_db := d\<rparr>" using t n b by (cases f; cases y) (auto simp: calendar_txn_def Let_def)
    then show ?thesis by (auto simp: moves_on_refl)
  qed
qed

lemma admit_moves:
  assumes "admit_scheduled_occurrence s now (next_run_of z s now) c = (r, c')"
  shows "moves_on c c' \<and> (r = Inr True \<longrightarrow> (\<exists>n. sc_next_run s = Some n \<and> pending_occurrence (sc_id s, n) c \<and>
    (distinct_schedules c \<longrightarrow> \<not> pending_occurrence (sc_id s, n) c')))"
proof -
  obtain r1 c1 where c1: "claim_calendar_occurrence s now (next_run_of z s now) c = (r1, c1)" by (rule prod.exhaust)
  have "cl_schedules c' = cl_schedules c1 \<and> (r = Inr True \<longrightarrow> r1 = Inr True)"
    using assms c1 on_tables_schedules [of "get_by_id (sc_task_id s)" c1]
    by (cases r1) (auto simp: admit_scheduled_occurrence_def split: if_splits prod.splits sum.splits option.splits)
  then have "cl_schedules c' = cl_schedules c1" "r = Inr True \<longrightarrow> r1 = Inr True" by blast+
  with claim_moves [OF c1] show ?thesis by (simp add: moves_on_def pending_occurrence_def)
qed

lemma advance_moves:
  assumes "advance_suppressed_occurrence z s now c = (r, c')" "due now s"
  shows "moves_on c c'"
proof -
  from assms(2) obtain n where n: "sc_next_run s = Some n" "n \<le> now" by (auto simp: due_def split: option.splits)
  with assms(1) have t: "calendar_txn (\<lambda>c. case suppressed_schedule_occurrence (sc_id s) n c of
      (False, _) \<Rightarrow> (Inr False, c)
    | (True, until) \<Rightarrow>
        (let from = (if until \<noteq> zero_time \<and> until \<le> now then until - 1 else now)
         in (Inr True, map_schedules (\<lambda>r. sc_id r = sc_id s \<and> sc_task_id r = sc_task_id s \<and> sc_enabled r \<and>
                sc_next_run r = Some n) (\<lambda>r. r\<lparr>sc_next_run := next_run_of z s from\<rparr>) c))) c = (r, c')"
    by (simp add: advance_suppressed_occurrence_def)
  show ?thesis
  proof (rule calendar_txn_schedules [OF t])
    assume "cl_schedules c' = cl_schedules c"
    then show ?thesis by (rule moves_on_refl)
  next
    fix d x
    assume b: "(case suppressed_schedule_occurrence (sc_id s) n (c\<lparr>cl_db := d\<rparr>) of
      (False, _) \<Rightarrow> (Inr False, c\<lparr>cl_db := d\<rparr>)
    | (True, until) \<Rightarrow>
        (let from = (if until \<noteq> zero_time \<and> until \<le> now then until - 1 else now)
         in (Inr True, map_schedules (\<lambda>r. sc_id r = sc_id s \<and> sc_task_id r = sc_task_id s \<and> sc_enabled r \<and>
                sc_next_run r = Some n) (\<lambda>r. r\<lparr>sc_next_run := next_run_of z s from\<rparr>) (c\<lparr>cl_db := d\<rparr>)))) = (Inr x, c')"
    obtain sup u where s: "suppressed_schedule_occurrence (sc_id s) n (c\<lparr>cl_db := d\<rparr>) = (sup, u)" by (rule prod.exhaust)
    show ?thesis
    proof (cases sup)
      case False with b s show ?thesis by (auto simp: moves_on_refl)
    next
      case True
      define b0 where "b0 = (if u \<noteq> zero_time \<and> u \<le> now then u - 1 else now)"
      have "n \<le> b0" using suppressed_until [of "sc_id s" n "c\<lparr>cl_db := d\<rparr>" u] s True n(2) by (simp add: b0_def)
      moreover have "c' = map_schedules (\<lambda>r. sc_id r = sc_id s \<and> sc_task_id r = sc_task_id s \<and> sc_enabled r \<and>
          sc_next_run r = Some n) (\<lambda>r. r\<lparr>sc_next_run := next_run_of z s b0\<rparr>) (c\<lparr>cl_db := d\<rparr>)"
        using b s True by (simp add: Let_def b0_def)
      ultimately have "moves_on (c\<lparr>cl_db := d\<rparr>) c'"
        by (intro moves_on_map [where f = "\<lambda>r. r\<lparr>sc_next_run := next_run_of z s b0\<rparr>"])
          (auto simp: later_def dest: next_run_of_after)
      then show ?thesis by (simp add: moves_on_db)
    qed
  qed
qed

lemma running_moves:
  assumes "update_next_run_if_current (sc_id s) (sc_task_id s) (sc_next_run s) (next_run_of z s now) c = (r, c')" "due now s"
  shows "moves_on c c'"
  using assms(1) unfolding update_next_run_if_current_def update_schedules_def
proof (rule calendar_txn_schedules)
  assume "cl_schedules c' = cl_schedules c"
  then show ?thesis by (rule moves_on_refl)
next
  fix d x
  let ?P = "\<lambda>r. of_task (sc_id s) (sc_task_id s) r \<and> sc_enabled r \<and> sc_next_run r = sc_next_run s"
  let ?f = "\<lambda>r. r\<lparr>sc_next_run := next_run_of z s now\<rparr>"
  assume "(if \<exists>r\<in>set (cl_schedules (c\<lparr>cl_db := d\<rparr>)). ?P r \<and> \<not> known_repeat (sc_repeat_type (?f r))
      then (Inl (CalendarStore ConstraintFailure), c\<lparr>cl_db := d\<rparr>)
      else (Inr (\<exists>r\<in>set (cl_schedules (c\<lparr>cl_db := d\<rparr>)). ?P r), map_schedules ?P ?f (c\<lparr>cl_db := d\<rparr>))) = (Inr x, c')"
  then have "c' = map_schedules ?P ?f (c\<lparr>cl_db := d\<rparr>)" by (auto split: if_splits)
  moreover have "later r (?f r)" if "?P r" for r
    using that assms(2) next_run_of_after [of z s now] by (auto simp: later_def due_def split: option.splits)
  ultimately have "moves_on (c\<lparr>cl_db := d\<rparr>) c'" by (intro moves_on_map [of ?P ?f]) auto
  then show ?thesis by (simp add: moves_on_db)
qed

text \<open>
  One check of the scheduler on a snapshot, of which it makes no other use than these calls; it works
  on due schedules only.
\<close>

datatype calendar_call = Admit schedule | PassOver schedule | MoveOn schedule

fun called_schedule :: "calendar_call \<Rightarrow> schedule" where
  "called_schedule (Admit s) = s"
| "called_schedule (PassOver s) = s"
| "called_schedule (MoveOn s) = s"

definition calendar_call :: "zone \<Rightarrow> calendar_call \<times> instant \<Rightarrow> calendar \<Rightarrow> bool \<times> calendar" where
  "calendar_call z k c =
     (case k of (call, now) \<Rightarrow>
        let s = called_schedule call
        in if \<not> due now s then (False, c)
           else case call of
                  Admit _ \<Rightarrow> (case admit_scheduled_occurrence s now (next_run_of z s now) c of (r, c1) \<Rightarrow> (r = Inr True, c1))
                | PassOver _ \<Rightarrow> (False, snd (advance_suppressed_occurrence z s now c))
                | MoveOn _ \<Rightarrow> (False, snd (update_next_run_if_current (sc_id s) (sc_task_id s) (sc_next_run s) (next_run_of z s now) c)))"

definition called_occurrence :: "calendar_call \<times> instant \<Rightarrow> string \<times> instant" where
  "called_occurrence k = (sc_id (called_schedule (fst k)), the (sc_next_run (called_schedule (fst k))))"

lemma calendar_call_moves:
  assumes "calendar_call z k c = (w, c')"
  shows "moves_on c c' \<and> (w \<longrightarrow> pending_occurrence (called_occurrence k) c \<and>
    (distinct_schedules c \<longrightarrow> \<not> pending_occurrence (called_occurrence k) c'))"
proof -
  obtain call now where k: "k = (call, now)" by (rule prod.exhaust)
  show ?thesis
  proof (cases "due now (called_schedule call)")
    case False with assms k show ?thesis by (simp add: calendar_call_def moves_on_refl)
  next
    case True
    show ?thesis
    proof (cases call)
      case (Admit s)
      obtain r c1 where a: "admit_scheduled_occurrence s now (next_run_of z s now) c = (r, c1)" by (rule prod.exhaust)
      with assms k Admit True have "w = (r = Inr True)" "c' = c1" by (simp_all add: calendar_call_def)
      with admit_moves [OF a] k Admit show ?thesis by (auto simp: called_occurrence_def)
    next
      case (PassOver s)
      obtain r c1 where a: "advance_suppressed_occurrence z s now c = (r, c1)" by (rule prod.exhaust)
      with assms k PassOver True advance_moves [OF a] show ?thesis by (simp add: calendar_call_def)
    next
      case (MoveOn s)
      obtain r c1 where a: "update_next_run_if_current (sc_id s) (sc_task_id s) (sc_next_run s) (next_run_of z s now) c = (r, c1)"
        by (rule prod.exhaust)
      with assms k MoveOn True running_moves [OF a] show ?thesis by (simp add: calendar_call_def)
    qed
  qed
qed

interpretation occurrences: guarded_claim "calendar_call z" called_occurrence pending_occurrence distinct_schedules for z
proof
  fix c k c' assume "distinct_schedules c" "calendar_call z k c = (True, c')"
  with calendar_call_moves [of z k c True c']
  show "pending_occurrence (called_occurrence k) c \<and> \<not> pending_occurrence (called_occurrence k) c'" by blast
next
  fix c k w c' i assume "calendar_call z k c = (w, c')" "pending_occurrence i c'"
  with calendar_call_moves [of z k c w c'] moves_on_pending show "pending_occurrence i c" by blast
next
  fix c k w c' assume "distinct_schedules c" "calendar_call z k c = (w, c')"
  with calendar_call_moves [of z k c w c'] moves_on_distinct show "distinct_schedules c'" by blast
qed

text \<open>
  C10: However many checks of due schedules run, in any order, at any times and on snapshots however
  old, an occurrence of a schedule is admitted at most once: the admissions, the advances over
  suppressed occurrences and the advances of tasks that still run never make an occurrence due
  again that one of them has consumed.
\<close>

theorem occurrence_admitted_once:
  assumes "distinct_schedules c"
  shows "length (filter (\<lambda>(won, k). won \<and> called_occurrence k = (i, n)) (fst (race (calendar_call z) ks c))) \<le> 1"
  using assms by (rule occurrences.at_most_one)

subsection \<open>What an admission reserves\<close>

lemma runnable_category_lane: "runnable_category k = CategoryActive \<or> runnable_category k = CategoryScheduled"
  by (simp add: runnable_category_def)

lemma update_to_lane:
  assumes "get_task i d = Some t" "\<And>t. tk_id (f t) = tk_id t" "\<not> withdraws (f t)"
  shows "update_task_row i f d = map_task i f d" "get_task i (map_task i f d) = Some ((f t)\<lparr>tk_updated_at := db_now d\<rparr>)"
proof -
  show m: "get_task i (map_task i f d) = Some ((f t)\<lparr>tk_updated_at := db_now d\<rparr>)"
    by (simp add: get_map_task [where f = f, OF assms(2)] assms(1))
  have "\<not> withdraws ((f t)\<lparr>tk_updated_at := db_now d\<rparr>)" using assms(3) by (simp add: withdraws_def)
  then show "update_task_row i f d = map_task i f d"
    by (simp add: update_task_row_def Let_def m task_withdrawn_def)
qed

lemma map_task_reservations [simp]: "db_reservations (map_task i f d) = db_reservations d"
  by (simp add: map_task_def)

lemma create_execution_ok:
  assumes "create_execution e d = (Inr e1, d1)"
  shows "d1 = d\<lparr>db_execs := db_execs d @ [e1], db_ids := tl (db_ids d)\<rparr> \<and> ex_id e1 \<notin> ex_id ` set (db_execs d) \<and>
    (\<exists>i n t. e1 = e\<lparr>ex_id := i, ex_history_order := n, ex_started_at := t\<rparr>)"
  using assms by (auto simp: create_execution_def Let_def split: list.splits if_splits)

text \<open>A task that is not a swarm's parent gets one queued execution, which its admission names.\<close>

lemma reserve_occurrence_ok:
  assumes "reserve_occurrence s t d = (Inr (), d')" "tk_swarm_role t \<noteq> SwarmRoleParent" "get_task (tk_id t) d = Some t"
  obtains e t' where "get_task (tk_id t) d' = Some t'" "tk_status t' = StatusPending"
    "tk_category t' = CategoryActive \<or> tk_category t' = CategoryScheduled"
    "db_execs d' = db_execs d @ [e]" "queued_ordinary (tk_id t) e" "ex_id e \<notin> ex_id ` set (db_execs d)"
    "db_admissions d' = db_admissions d @
       [\<lparr>ad_task = tk_id t, ad_schedule = sc_id s, ad_exec = Some (ex_id e), ad_clear = sc_clear_context_on_start s\<rparr>]"
    "db_reservations d' = db_reservations d" "ex_new_context e = sc_clear_context_on_start s" "ex_prompt e = tk_prompt t"
proof -
  define f :: "task \<Rightarrow> task" where "f = (\<lambda>u. u\<lparr>tk_status := StatusPending, tk_category := runnable_category (tk_category t),
      tk_display_order := claimed_order t d, tk_completed_at := None\<rparr>)"
  have f: "tk_id (f u) = tk_id u" "tk_status (f t) = StatusPending" "\<not> withdraws (f t)" for u
    using runnable_category_lane [of "tk_category t"] by (auto simp: f_def withdraws_def is_terminal_status_def)
  note up = update_to_lane [where f = f, OF assms(3) f(1,3)]
  obtain e d2 where e: "create_execution (lane_execution (t\<lparr>tk_starts_new_context := sc_clear_context_on_start s\<rparr>)) (map_task (tk_id t) f d) = (Inr e, d2)"
    "d' = d2\<lparr>db_admissions := db_admissions d2 @
       [\<lparr>ad_task = tk_id t, ad_schedule = sc_id s, ad_exec = Some (ex_id e), ad_clear = sc_clear_context_on_start s\<rparr>]\<rparr>"
    using assms(1,2) unfolding reserve_occurrence_def Let_def f_def [symmetric] up(1)
    by (auto simp: and_then_def split: if_splits prod.splits sum.splits)
  note made = create_execution_ok [OF e(1)]
  then obtain i n w where e1: "e = (lane_execution (t\<lparr>tk_starts_new_context := sc_clear_context_on_start s\<rparr>))
      \<lparr>ex_id := i, ex_history_order := n, ex_started_at := w\<rparr>" by blast
  show thesis
  proof (rule that [of "(f t)\<lparr>tk_updated_at := db_now d\<rparr>" e])
    show "get_task (tk_id t) d' = Some ((f t)\<lparr>tk_updated_at := db_now d\<rparr>)"
      using up(2) made e(2) by (simp add: get_task_def)
  qed (use made e(2) e1 f(2) runnable_category_lane [of "tk_category t"] in
        \<open>simp_all add: queued_ordinary_def lane_execution_def f_def\<close>)
qed

text \<open>The admission of a swarm's parent has no execution.\<close>

lemma reserve_occurrence_parent:
  assumes "reserve_occurrence s t d = (Inr (), d')" "tk_swarm_role t = SwarmRoleParent" "get_task (tk_id t) d = Some t"
  shows "db_execs d' = db_execs d" "db_admissions d' = db_admissions d @
     [\<lparr>ad_task = tk_id t, ad_schedule = sc_id s, ad_exec = None, ad_clear = sc_clear_context_on_start s\<rparr>]"
proof -
  define f :: "task \<Rightarrow> task" where "f = (\<lambda>u. u\<lparr>tk_status := StatusPending, tk_category := runnable_category (tk_category t),
      tk_display_order := claimed_order t d, tk_completed_at := None\<rparr>)"
  have f: "tk_id (f u) = tk_id u" "\<not> withdraws (f t)" for u
    using runnable_category_lane [of "tk_category t"] by (auto simp: f_def withdraws_def is_terminal_status_def)
  note up = update_to_lane [where f = f, OF assms(3) f]
  have "d' = (map_task (tk_id t) f d)\<lparr>db_admissions := db_admissions d @
      [\<lparr>ad_task = tk_id t, ad_schedule = sc_id s, ad_exec = None, ad_clear = sc_clear_context_on_start s\<rparr>]\<rparr>"
    using assms(1,2) unfolding reserve_occurrence_def Let_def f_def [symmetric] up(1)
    by (auto simp: and_then_def map_task_def split: if_splits prod.splits sum.splits)
  then show "db_execs d' = db_execs d" "db_admissions d' = db_admissions d @
     [\<lparr>ad_task = tk_id t, ad_schedule = sc_id s, ad_exec = None, ad_clear = sc_clear_context_on_start s\<rparr>]"
    by (simp_all add: map_task_def)
qed

text \<open>The claim of a reserved execution, where nothing stands in its way.\<close>

lemma reserved_claim_succeeds:
  assumes "get_task i d = Some t" "reserved_valid i e t d" "reserved_exec i e d" "\<not> other_exec_active i e d"
    "inactive_binding (db_automations d (tk_project_id t)) {} (ac_bindings (automation_context_of t d)) = None"
    "\<not> fst (next_fault d)"
  shows "\<exists>cl d'. claim_reserved_task_for_dispatch i e d = (Inr (cl, True), d')"
proof -
  obtain d1 where f: "next_fault d = (False, d1)" using assms(6) by (cases "next_fault d") auto
  have "same_tables d d1" using f by (rule next_fault_tables)
  then obtain fs where d1: "d1 = d\<lparr>db_faults := fs\<rparr>" by (auto simp: same_tables_def)
  have "\<exists>cl d2. claim_reserved_body i e d1 = (Inr (cl, True), d2)"
    using assms(1-5) by (simp add: d1 claim_reserved_body_def Let_def get_task_def reserved_valid_def is_calendar_def reserved_exec_def
        other_exec_active_def automation_context_of_def)
  with f show ?thesis by (auto simp: claim_reserved_task_for_dispatch_def txn_def and_then_def)
qed

lemma suppressed_fault:
  "next_fault (cl_db c) = (f, d) \<Longrightarrow>
    suppressed_schedule_occurrence i n (c\<lparr>cl_db := d\<rparr>) = suppressed_schedule_occurrence i n c"
  by (simp add: suppressed_schedule_occurrence_def next_fault_lookup split: option.split)

lemma tables_frame [simp]:
  "get_task i (tables c) = get_task i (cl_db c)" "db_execs (tables c) = db_execs (cl_db c)"
  "db_admissions (tables c) = db_admissions (cl_db c)" "db_reservations (tables c) = db_reservations (cl_db c)"
  by (simp_all add: tables_def get_task_def)

lemma map_schedules_frame [simp]: "cl_db (map_schedules P f c) = cl_db c"
  by (simp add: map_schedules_def)

lemma claim_body_reserves:
  assumes "claim_occurrence_body s n now next c = (Inr True, c')"
  obtains r t where "r \<in> set (cl_schedules c)" "may_claim s n now c r" "get_task (sc_task_id s) (cl_db c) = Some t"
    "\<not> fst (suppressed_schedule_occurrence (sc_id s) n c)"
    "reserve_occurrence s t (tables (map_schedules (may_claim s n now c) (\<lambda>r. r\<lparr>sc_last_run := Some now, sc_next_run := next\<rparr>) c)) =
       (Inr (), cl_db c')"
proof -
  have ok: "\<not> fst (suppressed_schedule_occurrence (sc_id s) n c)" "\<exists>r \<in> set (cl_schedules c). may_claim s n now c r"
    using assms by (auto simp: claim_occurrence_body_def split: if_splits)
  let ?c1 = "map_schedules (may_claim s n now c) (\<lambda>r. r\<lparr>sc_last_run := Some now, sc_next_run := next\<rparr>) c"
  obtain t where t: "get_task (sc_task_id s) (cl_db c) = Some t" "and_then (on_tables (reserve_occurrence s t) ?c1) (\<lambda>_ c2. (Inr True, c2)) = (Inr True, c')"
    using assms ok by (auto simp: claim_occurrence_body_def split: option.splits)
  then have "reserve_occurrence s t (tables ?c1) = (Inr (), cl_db c')"
    by (auto simp: on_tables_def and_then_def split: prod.splits sum.splits)
  with ok t(1) show thesis by (auto intro: that)
qed

text \<open>
  C23: An occurrence is admitted only when it is due and no exclusion, pause or switched-off schedule
  suppresses it. For a task that is not a swarm's parent the admission adds one queued execution with
  the task's prompt and the schedule's context setting, and nothing stands in the way of the worker
  that claims it: the claim succeeds unless the database fails or an automation bound to the task is
  paused or archived. A swarm's parent is admitted without an execution.
\<close>

theorem admission_is_claimable:
  assumes "claim_calendar_occurrence s now next c = (Inr True, c')" "get_task (sc_task_id s) (cl_db c) = Some t"
  shows "(\<exists>n. sc_next_run s = Some n \<and> n \<le> now \<and> \<not> fst (suppressed_schedule_occurrence (sc_id s) n c)) \<and>
    (tk_swarm_role t = SwarmRoleParent \<longrightarrow> db_execs (cl_db c') = db_execs (cl_db c) \<and>
       db_admissions (cl_db c') = db_admissions (cl_db c) @
         [\<lparr>ad_task = sc_task_id s, ad_schedule = sc_id s, ad_exec = None, ad_clear = sc_clear_context_on_start s\<rparr>]) \<and>
    (tk_swarm_role t \<noteq> SwarmRoleParent \<longrightarrow>
       (\<exists>e t'. db_execs (cl_db c') = db_execs (cl_db c) @ [e] \<and> ex_status e = ExecQueued \<and> ex_prompt e = tk_prompt t \<and>
          ex_new_context e = sc_clear_context_on_start s \<and> get_task (sc_task_id s) (cl_db c') = Some t' \<and>
          (inactive_binding (db_automations (cl_db c') (tk_project_id t')) {} (ac_bindings (automation_context_of t' (cl_db c'))) = None \<and>
           \<not> fst (next_fault (cl_db c')) \<longrightarrow>
           (\<exists>cl d. claim_reserved_task_for_dispatch (sc_task_id s) (ex_id e) (cl_db c') = (Inr (cl, True), d)))))"
proof -
  obtain n d where n: "sc_next_run s = Some n" "next_fault (cl_db c) = (False, d)"
    "claim_occurrence_body s n now next (c\<lparr>cl_db := d\<rparr>) = (Inr True, c')"
    using assms(1) by (auto simp: claim_calendar_occurrence_def split: option.splits elim: calendar_txn_ok)
  have db: "get_task i d = get_task i (cl_db c)" "db_execs d = db_execs (cl_db c)" "db_admissions d = db_admissions (cl_db c)" for i
    using next_fault_rest [OF n(2)] by (auto simp: get_task_def)
  have i: "tk_id t = sc_task_id s" using assms(2) by (auto simp: get_task_def dest: find_Some_in)
  define D where "D = tables (map_schedules (may_claim s n now (c\<lparr>cl_db := d\<rparr>))
       (\<lambda>r. r\<lparr>sc_last_run := Some now, sc_next_run := next\<rparr>) (c\<lparr>cl_db := d\<rparr>))"
  obtain r where r: "may_claim s n now (c\<lparr>cl_db := d\<rparr>) r" "\<not> fst (suppressed_schedule_occurrence (sc_id s) n c)"
    "reserve_occurrence s t D = (Inr (), cl_db c')"
    using claim_body_reserves [OF n(3)] assms(2) by (auto simp: suppressed_fault [OF n(2)] db D_def)
  from r(1) have free: "n \<le> now" "\<not> has_open_exec (sc_task_id s) d" "db_reservations d (sc_task_id s) = None"
    by (auto simp: may_claim_def Let_def)
  have at: "get_task (tk_id t) D = Some t" "db_execs D = db_execs d" "db_admissions D = db_admissions d" "db_reservations D = db_reservations d"
    using assms(2) by (simp_all add: D_def i db)
  show ?thesis
  proof (cases "tk_swarm_role t = SwarmRoleParent")
    case True
    from reserve_occurrence_parent [OF r(3) True at(1)] n(1) free(1) r(2) True show ?thesis
      by (simp add: at(2,3) db i)
  next
    case False
    obtain e t' where e0: "get_task (tk_id t) (cl_db c') = Some t'" "tk_status t' = StatusPending"
      "tk_category t' = CategoryActive \<or> tk_category t' = CategoryScheduled" "db_execs (cl_db c') = db_execs D @ [e]"
      "queued_ordinary (tk_id t) e" "ex_id e \<notin> ex_id ` set (db_execs D)"
      "db_admissions (cl_db c') = db_admissions D @
         [\<lparr>ad_task = tk_id t, ad_schedule = sc_id s, ad_exec = Some (ex_id e), ad_clear = sc_clear_context_on_start s\<rparr>]"
      "db_reservations (cl_db c') = db_reservations D" "ex_new_context e = sc_clear_context_on_start s" "ex_prompt e = tk_prompt t"
      by (rule reserve_occurrence_ok [OF r(3) False at(1)])
    note e = e0 [unfolded i at(2-4)]
    have "is_calendar (sc_task_id s) (ex_id e) (cl_db c')" using e(7) by (simp add: is_calendar_def)
    then have v: "reserved_valid (sc_task_id s) (ex_id e) t' (cl_db c')" using e(2,3) by (simp add: reserved_valid_def)
    have x: "reserved_exec (sc_task_id s) (ex_id e) (cl_db c')" using e(4,5) by (auto simp: reserved_exec_def)
    have o: "\<not> other_exec_active (sc_task_id s) (ex_id e) (cl_db c')"
      using free(2,3) e(4,6,8) by (auto simp: other_exec_active_def has_open_exec_def)
    note claim = reserved_claim_succeeds [OF e(1) v x o]
    have "ex_status e = ExecQueued" using e(5) by (simp add: queued_ordinary_def)
    with n(1) free(1) r(2) e(1,4,9,10) db(2) False claim show ?thesis by auto
  qed
qed

subsection \<open>An example\<close>

lemma sample_claimed: "fst (claim_calendar_occurrence sample_schedule (46 * second) None sample_restored) = Inr True"
proof -
  have "\<not> fst (suppressed_schedule_occurrence ''s'' (45 * second) sample_restored)"
    by (simp add: suppressed_schedule_occurrence_def get_schedule_def project_of_schedule_def get_task_def paused_schedule_def
        sample_restored_def sample_calendar_def sample_schedule_def exclusion_until_def exclusion_ends_def restored_at_def
        skips_of_def covers_def unix_def second_def greatest_def)
  then show ?thesis
    by (simp add: claim_calendar_occurrence_def calendar_txn_def next_fault_def sample_restored_def sample_calendar_def sample_schedule_def
        claim_occurrence_body_def may_claim_def second_def has_open_exec_def thread_input_owns_admission_def get_task_def
        on_tables_def tables_def map_schedules_def reserve_occurrence_def chat_only_def all_projects_id_def runnable_category_def
        update_task_row_def map_task_def task_withdrawn_def withdraws_def is_terminal_status_def claimed_order_def Let_def
        create_execution_def lane_execution_def sample_db_def)
qed

lemma occurrence_admitted_once_witness:
  "length (filter (\<lambda>(won, k). won \<and> called_occurrence k = (''s'', 45 * second))
     (fst (race (calendar_call (fixed_zone 0))
       [(Admit sample_schedule, 46 * second), (PassOver sample_schedule, 46 * second), (Admit sample_schedule, 47 * second)]
       sample_restored))) \<le> 1"
  by (rule occurrence_admitted_once) (simp add: distinct_schedules_def sample_restored_def sample_calendar_def)

lemma admission_is_claimable_witness:
  "\<exists>c' e. claim_calendar_occurrence sample_schedule (46 * second) None sample_restored = (Inr True, c') \<and>
     db_execs (cl_db c') = [e] \<and> \<not> ex_new_context e"
proof -
  obtain c' where c: "claim_calendar_occurrence sample_schedule (46 * second) None sample_restored = (Inr True, c')"
    using sample_claimed by (metis prod.collapse)
  have t: "get_task (sc_task_id sample_schedule) (cl_db sample_restored) = Some (sample_task ''a'' ''p'')"
    by (simp add: get_task_def sample_restored_def sample_calendar_def sample_schedule_def)
  have e: "db_execs (cl_db sample_restored) = []" "\<not> sc_clear_context_on_start sample_schedule"
    by (simp_all add: sample_restored_def sample_calendar_def sample_schedule_def)
  have r: "tk_swarm_role (sample_task ''a'' ''p'') \<noteq> SwarmRoleParent" by simp
  from admission_is_claimable [OF c t] r c e show ?thesis by auto
qed

end
