(* ===== verification/Scheduler.thy ===== *)
theory Scheduler
  imports ScheduleStore SwarmPlanner Drain
begin

section \<open>The scheduler\<close>

text \<open>
  \<open>internal/service/scheduler_service.go\<close>: what a tick does to the calendar, the task tables, the
  worker pool and the swarms, with the transfer of a calendar admission to a swarm's planner
  (\<open>schedule_calendar_planner.go\<close>, \<open>StartPlannerForScheduledRun\<close>). The swarm service works on the
  same tables as the calendar: \<open>on_swarm\<close> hands them over and takes them back. The occurrences of
  schedules an automation owns are claimed in its repository, the state of theory \<open>Dispatch\<close>: here they are a log. The
  ticker and the clean-up of worktrees are left out.
\<close>

record scheduler =
  sd_calendar :: calendar
  sd_swarm :: swarm_state
  sd_tracker :: "work_tracker option"
  sd_automation :: "(string \<times> instant \<times> instant option) list"

record scheduler_env =
  se_swarm :: swarm_env
  se_zone :: zone
  se_owner :: "string \<Rightarrow> unit + bool"
  se_starter :: bool

definition on_calendar :: "(calendar \<Rightarrow> ('e + 'a) \<times> calendar) \<Rightarrow> scheduler \<Rightarrow> ('e + 'a) \<times> scheduler" where
  "on_calendar f x = (case f (sd_calendar x) of (r, c) \<Rightarrow> (r, x\<lparr>sd_calendar := c\<rparr>))"

definition on_swarm :: "'a run \<Rightarrow> scheduler \<Rightarrow> (swarm_error + 'a) \<times> scheduler" where
  "on_swarm m x =
     (case m ((sd_swarm x)\<lparr>ss_db := tables (sd_calendar x)\<rparr>) of
        (r, s) \<Rightarrow> (r, x\<lparr>sd_swarm := s, sd_calendar := (sd_calendar x)\<lparr>cl_db := ss_db s\<rparr>\<rparr>))"

subsection \<open>Planners of scheduled swarms\<close>

text \<open>
  A title that is taken is tried again with a random suffix; each attempt uses up an id, so the loop
  ends with the ids.
\<close>

function create_planner :: "(nat \<Rightarrow> bool) \<Rightarrow> string \<Rightarrow> task \<Rightarrow> nat \<Rightarrow> task_db \<Rightarrow> (swarm_error + task) \<times> task_db" where
  "create_planner stop title t attempt_no d =
     (case create_task_body t d of
        (Inr t1, d1) \<Rightarrow> (Inr t1, d1)
      | (Inl e, d1) \<Rightarrow>
          if e \<noteq> ErrDuplicateTask then (Inl (StoreError e), d)
          else if stop attempt_no then (Inl ContextDone, d)
          else case db_ids d of
                 [] \<Rightarrow> (Inl (StoreError DbFailure), d)
               | n # ns \<Rightarrow> create_planner stop title (t\<lparr>tk_title := title @ dot @ n\<rparr>) (Suc attempt_no) (d\<lparr>db_ids := ns\<rparr>))"
  by pat_completeness auto
termination
  by (relation "measure (\<lambda>(stop, title, t, attempt_no, d). length (db_ids d))") auto

declare create_planner.simps [simp del]

definition live_planner_admission :: "string \<Rightarrow> task_db \<Rightarrow> (task \<times> admission) option" where
  "live_planner_admission p d =
     (case (get_task p d, find (\<lambda>a. ad_task a = p) (db_admissions d)) of
        (Some t, Some a) \<Rightarrow>
          if ad_exec a = None \<and> tk_swarm_role t = SwarmRoleParent \<and> tk_status t = StatusPending \<and>
             (tk_category t = CategoryActive \<or> tk_category t = CategoryScheduled)
          then Some (t, a) else None
      | _ \<Rightarrow> None)"

definition planner_of :: "string \<Rightarrow> task_db \<Rightarrow> task option" where
  "planner_of p d =
     (case sort_key (\<lambda>t. (tk_swarm_sequence t, tk_created_at t))
             (filter (\<lambda>t. tk_parent_task_id t = Some p \<and> tk_swarm_role t = SwarmRolePlanner) (db_tasks d)) of
        [] \<Rightarrow> None | t # _ \<Rightarrow> Some t)"

definition planner_busy :: "task \<Rightarrow> task_db \<Rightarrow> bool" where
  "planner_busy t d \<longleftrightarrow> has_open_exec (tk_id t) d \<or> db_reservations d (tk_id t) \<noteq> None \<or>
     tk_status t = StatusRunning \<or> tk_status t = StatusQueued \<or> tk_status t = StatusBlocked"

definition to_active_tail :: "task_status \<Rightarrow> task \<Rightarrow> task_db \<Rightarrow> task_db" where
  "to_active_tail st t d =
     update_task_row (tk_id t) (\<lambda>u. u\<lparr>tk_status := st, tk_category := CategoryActive, tk_completed_at := None,
       tk_display_order := active_tail (tk_project_id t) d\<rparr>) d"

definition ready_planner :: "(nat \<Rightarrow> bool) \<Rightarrow> task \<Rightarrow> task_db \<Rightarrow> (swarm_error + task option) \<times> task_db" where
  "ready_planner stop parent d =
     (case planner_of (tk_id parent) d of
        None \<Rightarrow> (let t = planner_task parent False '''' None
                  in and_then (create_planner stop (tk_title t) t 0 d) (\<lambda>t1 d1. (Inr (Some t1), d1)))
      | Some t \<Rightarrow>
          if planner_busy t d then (Inr None, d)
          else if chat_only (tk_project_id t) CategoryActive then (Inl (StoreError ConstraintFailure), d)
          else (Inr (Some (t\<lparr>tk_status := StatusPending, tk_category := CategoryActive\<rparr>)), to_active_tail StatusPending t d))"

definition transfer_admission :: "string \<Rightarrow> string \<Rightarrow> string \<Rightarrow> task_db \<Rightarrow> task_db" where
  "transfer_admission p planner e d =
     d\<lparr>db_admissions := map (\<lambda>a. if ad_task a = p \<and> ad_exec a = None then a\<lparr>ad_task := planner, ad_exec := Some e\<rparr> else a)
         (db_admissions d)\<rparr>"

definition reserve_planner_body ::
  "(nat \<Rightarrow> bool) \<Rightarrow> string \<Rightarrow> task_db \<Rightarrow> (swarm_error + (task \<times> task \<times> string) option) \<times> task_db" where
  "reserve_planner_body stop p d =
     (case live_planner_admission p d of
        None \<Rightarrow> (Inr None, d)
      | Some (parent, a) \<Rightarrow>
          and_then (ready_planner stop parent d) (\<lambda>found d1.
            case found of
              None \<Rightarrow> (Inr None, d1)
            | Some planner \<Rightarrow>
                if chat_only (tk_project_id parent) CategoryActive then (Inl (StoreError ConstraintFailure), d1)
                else (let d2 = to_active_tail StatusBlocked parent d1
                      in case create_execution (lane_execution (planner\<lparr>tk_starts_new_context := ad_clear a\<rparr>)) d2 of
                           (Inl e, d3) \<Rightarrow> (Inl (StoreError e), d3)
                         | (Inr e, d3) \<Rightarrow>
                             if tk_id planner \<in> ad_task ` set (db_admissions d3) then (Inl (StoreError ConstraintFailure), d3)
                             else (Inr (Some (parent\<lparr>tk_status := StatusBlocked, tk_category := CategoryActive\<rparr>,
                                              planner\<lparr>tk_starts_new_context := ad_clear a\<rparr>, ex_id e)),
                                   transfer_admission p (tk_id planner) (ex_id e) d3))))"

definition reserve_calendar_planner :: "swarm_env \<Rightarrow> string \<Rightarrow> (task \<times> string) option run" where
  "reserve_calendar_planner env p s =
     (case next_fault (ss_db s) of
        (True, d) \<Rightarrow> (Inl (StoreError DbFailure), s\<lparr>ss_db := d\<rparr>)
      | (False, d) \<Rightarrow>
          (case reserve_planner_body (sv_ctx_done env) p d of
             (Inl e, _) \<Rightarrow> (Inl e, s\<lparr>ss_db := d\<rparr>)
           | (Inr None, d1) \<Rightarrow> (Inr None, s\<lparr>ss_db := d1\<rparr>)
           | (Inr (Some (parent, planner, e)), d1) \<Rightarrow>
               (Inr (Some (planner, e)), s\<lparr>ss_db := publish [board_event parent, board_event planner] d1\<rparr>)))"

definition start_planner_for_scheduled_run :: "swarm_env \<Rightarrow> string \<Rightarrow> unit run" where
  "start_planner_for_scheduled_run env p =
     bind_run (reserve_calendar_planner env p) (\<lambda>found.
       case found of
         None \<Rightarrow> ret ()
       | Some (planner, e) \<Rightarrow>
           then_run (clear_cancellation p)
             (then_run (clear_cancellation (tk_id planner)) (pooled env (\<lambda>we. submit_reserved we planner e))))"

subsection \<open>Dispatch\<close>

definition dispatch_admission :: "scheduler_env \<Rightarrow> task \<times> string \<Rightarrow> scheduler \<Rightarrow> scheduler" where
  "dispatch_admission env ad x =
     (case ad of (t, e) \<Rightarrow>
        if tk_swarm_role t = SwarmRoleParent \<and> se_starter env
        then snd (on_swarm (start_planner_for_scheduled_run (se_swarm env) (tk_id t)) x)
        else if e \<noteq> '''' then snd (on_swarm (then_run (clear_cancellation (tk_id t))
                                     (pooled (se_swarm env) (\<lambda>we. submit_reserved we t e))) x)
        else x)"

definition dispatch_calendar_admissions :: "scheduler_env \<Rightarrow> scheduler \<Rightarrow> scheduler" where
  "dispatch_calendar_admissions env x =
     (case on_calendar list_calendar_admissions x of
        (Inl e, x1) \<Rightarrow> x1
      | (Inr ads, x1) \<Rightarrow> fold (dispatch_admission env) ads x1)"

subsection \<open>Due schedules\<close>

text \<open>A one-time occurrence that was dispatched already, or is no longer the one of its anchor.\<close>

definition already_dispatched :: "schedule \<Rightarrow> bool" where
  "already_dispatched s \<longleftrightarrow> sc_repeat_type s = RepeatOnce \<and>
     (case (sc_last_run s, sc_next_run s) of
        (Some l, Some n) \<Rightarrow> sc_run_at s \<noteq> n \<or> \<not> l < n
      | _ \<Rightarrow> False)"

definition check_running_task :: "scheduler_env \<Rightarrow> instant \<Rightarrow> schedule \<Rightarrow> calendar \<Rightarrow> calendar" where
  "check_running_task env now s c =
     (if sc_repeat_type s \<noteq> RepeatOnce \<and> next_run_of (se_zone env) s now \<noteq> None
      then snd (update_next_run_if_current (sc_id s) (sc_task_id s) (sc_next_run s) (next_run_of (se_zone env) s now) c)
      else c)"

definition check_due_schedule :: "scheduler_env \<Rightarrow> instant \<Rightarrow> schedule \<Rightarrow> scheduler \<Rightarrow> scheduler" where
  "check_due_schedule env now s x =
     (case on_calendar (on_tables (get_by_id (sc_task_id s))) x of
        (Inl e, x1) \<Rightarrow> x1
      | (Inr None, x1) \<Rightarrow> snd (on_calendar (delete_orphan (sc_id s) (sc_task_id s)) x1)
      | (Inr (Some t), x1) \<Rightarrow>
          (case on_calendar (advance_suppressed_occurrence (se_zone env) s now) x1 of
             (Inl e, x2) \<Rightarrow> x2
           | (Inr suppressed, x2) \<Rightarrow>
               if suppressed \<or> \<not> validate_schedule_repeat_interval (sc_repeat_interval s) then x2
               else case se_owner env (sc_id s) of
                      Inl _ \<Rightarrow> x2
                    | Inr owned \<Rightarrow>
                        if owned
                        then x2\<lparr>sd_automation := sd_automation x2 @ [(sc_id s, now, next_run_of (se_zone env) s now)]\<rparr>
                        else if tk_status t = StatusRunning
                        then x2\<lparr>sd_calendar := check_running_task env now s (sd_calendar x2)\<rparr>
                        else if already_dispatched s then x2
                        else snd (on_calendar (admit_scheduled_occurrence s now (next_run_of (se_zone env) s now)) x2)))"

definition check_due_body :: "scheduler_env \<Rightarrow> instant \<Rightarrow> scheduler \<Rightarrow> scheduler" where
  "check_due_body env now x =
     (case on_calendar (list_due now) (dispatch_calendar_admissions env x) of
        (Inl e, x1) \<Rightarrow> x1
      | (Inr due, x1) \<Rightarrow> dispatch_calendar_admissions env (fold (check_due_schedule env now) due x1))"

definition check_due_tasks :: "scheduler_env \<Rightarrow> instant \<Rightarrow> scheduler \<Rightarrow> scheduler" where
  "check_due_tasks env now x =
     (case sd_tracker x of
        None \<Rightarrow> check_due_body env now x
      | Some tr \<Rightarrow>
          (case tracker_start WorkAutomation tr of
             Inl e \<Rightarrow> x
           | Inr (ticket, tr1) \<Rightarrow>
               (check_due_body env now (x\<lparr>sd_tracker := Some tr1\<rparr>))
                 \<lparr>sd_tracker := Some (snd (ticket_finish ticket tr1))\<rparr>))"

subsection \<open>Active tasks\<close>

definition stale_queued_task_timeout :: duration where
  "stale_queued_task_timeout = 10 * minute"

definition list_stale_queued_tasks :: "instant \<Rightarrow> task_db \<Rightarrow> (store_error + task list) \<times> task_db" where
  "list_stale_queued_tasks cutoff =
     query (\<lambda>d. sort_key (\<lambda>t. (- tk_priority t, tk_display_order t, tk_created_at t))
       (filter (\<lambda>t. tk_category t = CategoryActive \<and> tk_status t = StatusQueued \<and> tk_updated_at t < cutoff \<and>
                  db_reservations d (tk_id t) = None \<and> tk_id t \<notin> ad_task ` set (db_admissions d) \<and>
                  \<not> has_running_exec (tk_id t) d \<and> tk_id t \<notin> db_thread_inputs d) (db_tasks d)))"

definition admission_task :: "task \<Rightarrow> task" where
  "admission_task t =
     blank_task\<lparr>tk_id := tk_id t, tk_project_id := tk_project_id t, tk_title := tk_title t, tk_category := tk_category t,
       tk_priority := tk_priority t, tk_status := tk_status t, tk_agent_id := tk_agent_id t,
       tk_agent_definition_id := tk_agent_definition_id t, tk_parent_task_id := tk_parent_task_id t,
       tk_swarm_role := tk_swarm_role t\<rparr>"

definition offer_task :: "scheduler_env \<Rightarrow> task \<Rightarrow> task \<Rightarrow> scheduler \<Rightarrow> scheduler" where
  "offer_task env t submitted x =
     (if tk_swarm_role t = SwarmRoleParent \<and> se_starter env
      then snd (on_swarm (start_planner (se_swarm env) None (tk_id t)) x)
      else snd (on_swarm (submit_task (se_swarm env) submitted) x))"

definition recover_stale_task :: "scheduler_env \<Rightarrow> instant \<Rightarrow> task \<Rightarrow> scheduler \<Rightarrow> scheduler" where
  "recover_stale_task env cutoff t x =
     (case on_calendar (on_tables (reclaim_stale_queued_task (tk_id t) cutoff)) x of
        (Inr True, x1) \<Rightarrow> offer_task env t (t\<lparr>tk_status := StatusPending\<rparr>) x1
      | (_, x1) \<Rightarrow> x1)"

definition check_active_tasks :: "scheduler_env \<Rightarrow> instant \<Rightarrow> scheduler \<Rightarrow> scheduler" where
  "check_active_tasks env now x =
     (case on_calendar (on_tables list_active_pending_admissions) x of
        (Inl e, x1) \<Rightarrow> x1
      | (Inr ts, x1) \<Rightarrow>
          (let x2 = fold (\<lambda>t. offer_task env t (admission_task t)) ts x1;
               cutoff = unix (now - stale_queued_task_timeout) * second
           in case on_calendar (on_tables (list_stale_queued_tasks cutoff)) x2 of
                (Inl e, x3) \<Rightarrow> x3
              | (Inr stale, x3) \<Rightarrow> fold (recover_stale_task env cutoff) stale x3))"

definition scheduler_tick :: "scheduler_env \<Rightarrow> instant \<Rightarrow> scheduler \<Rightarrow> scheduler" where
  "scheduler_tick env now x = check_active_tasks env now (check_due_tasks env now x)"

end
