(* ===== verification/CalendarInv.thy ===== *)
theory CalendarInv
  imports CalendarClaims Scheduler
begin

section \<open>Well-formed calendars\<close>

text \<open>
  The keys, checks and foreign keys of the calendar's tables as an invariant, with the one of the
  task tables, and that every operation of the calendar, of the schedule repository and of the
  reservation of planners keeps it. \<open>SchedulerLaws\<close> draws the conclusion for every reachable calendar.
\<close>

definition named :: "string set \<Rightarrow> schedule_skip \<Rightarrow> bool" where
  "named ids k \<longleftrightarrow> sk_schedule k = '''' \<or> sk_schedule k \<in> ids"

definition schedule_ids :: "calendar \<Rightarrow> string set" where
  "schedule_ids c = sc_id ` set (cl_schedules c)"

definition calendar_inv :: "calendar \<Rightarrow> bool" where
  "calendar_inv c \<longleftrightarrow> db_inv (cl_db c) \<and> distinct_schedules c \<and> distinct (map fst (cl_pauses c)) \<and> distinct (cl_skips c) \<and>
     (\<forall>r \<in> set (cl_skips c). valid_skip (snd r) \<and> named (schedule_ids c) (snd r))"

lemma calendar_invE:
  assumes "calendar_inv c"
  obtains "db_inv (cl_db c)" "distinct_schedules c" "distinct (map fst (cl_pauses c))" "distinct (cl_skips c)"
    "\<And>r. r \<in> set (cl_skips c) \<Longrightarrow> valid_skip (snd r) \<and> named (schedule_ids c) (snd r)"
  using assms unfolding calendar_inv_def by blast

lemma calendar_inv_db: "calendar_inv c \<Longrightarrow> db_inv d \<Longrightarrow> calendar_inv (c\<lparr>cl_db := d\<rparr>)"
  by (simp add: calendar_inv_def distinct_schedules_def schedule_ids_def)

lemma db_inv_tables [simp]: "db_inv (tables c) = db_inv (cl_db c)"
  by (simp add: db_inv_def tables_def)

lemma calendar_txn_inv:
  assumes "calendar_inv c" "\<And>c1 x c2. calendar_inv c1 \<Longrightarrow> body c1 = (Inr x, c2) \<Longrightarrow> calendar_inv c2"
  shows "calendar_inv (snd (calendar_txn body c))"
proof -
  obtain b d where n: "next_fault (cl_db c) = (b, d)" by (rule prod.exhaust)
  have "db_inv d" using assms(1) next_fault_inv [OF _ n] by (simp add: calendar_inv_def)
  then have c1: "calendar_inv (c\<lparr>cl_db := d\<rparr>)" by (rule calendar_inv_db [OF assms(1)])
  obtain r c2 where r: "body (c\<lparr>cl_db := d\<rparr>) = (r, c2)" by (rule prod.exhaust)
  show ?thesis
  proof (cases r)
    case (Inl e) with n r c1 show ?thesis by (cases b) (simp_all add: calendar_txn_def Let_def)
  next
    case (Inr x)
    with assms(2) [OF c1] r have "calendar_inv c2" by simp
    with n r c1 Inr show ?thesis by (cases b) (simp_all add: calendar_txn_def Let_def)
  qed
qed

lemma calendar_query_inv: "calendar_inv c \<Longrightarrow> calendar_inv (snd (calendar_query f c))"
  unfolding calendar_query_def by (rule calendar_txn_inv) auto

lemma on_tables_inv:
  assumes "calendar_inv c" "db_inv (snd (f (tables c)))"
  shows "calendar_inv (snd (on_tables f c))"
  using assms by (auto simp: on_tables_def intro!: calendar_inv_db split: prod.splits sum.splits)

lemma map_schedules_rest [simp]:
  "cl_pauses (map_schedules P f c) = cl_pauses c" "cl_skips (map_schedules P f c) = cl_skips c"
  "cl_projects (map_schedules P f c) = cl_projects c"
  by (simp_all add: map_schedules_def)

lemma map_schedules_ids:
  assumes "\<And>r. sc_id (f r) = sc_id r"
  shows "map sc_id (cl_schedules (map_schedules P f c)) = map sc_id (cl_schedules c)"
    "schedule_ids (map_schedules P f c) = schedule_ids c"
proof -
  show m: "map sc_id (cl_schedules (map_schedules P f c)) = map sc_id (cl_schedules c)"
    using assms by (simp add: map_schedules_def)
  show "schedule_ids (map_schedules P f c) = schedule_ids c"
    unfolding schedule_ids_def set_map [symmetric] m ..
qed

lemma map_schedules_inv:
  assumes "calendar_inv c" "\<And>r. sc_id (f r) = sc_id r"
  shows "calendar_inv (map_schedules P f c)"
  using assms(1) by (simp add: calendar_inv_def distinct_schedules_def map_schedules_ids [where f = f, OF assms(2)])

subsection \<open>What the user does\<close>

lemma change_inv:
  assumes "calendar_inv (snd st)" "named (schedule_ids (snd st)) k"
  shows "calendar_inv (snd (change p k present st)) \<and> schedule_ids (snd (change p k present st)) = schedule_ids (snd st)"
proof -
  obtain u c where st: "st = (u, c)" by (rule prod.exhaust)
  have i: "schedule_ids (c\<lparr>cl_skips := rows\<rparr>) = schedule_ids c" for rows by (simp add: schedule_ids_def)
  have "calendar_inv (c\<lparr>cl_skips := rows\<rparr>)"
    if "distinct rows" "\<forall>r \<in> set rows. valid_skip (snd r) \<and> named (schedule_ids c) (snd r)" for rows
    using assms(1) that st i unfolding calendar_inv_def distinct_schedules_def by simp
  note rows = this
  from assms(1) have d: "distinct (cl_skips c)" "\<forall>r \<in> set (cl_skips c). valid_skip (snd r) \<and> named (schedule_ids c) (snd r)"
    by (simp_all add: st calendar_inv_def)
  show ?thesis
  proof (cases rule: change_cases [of p k present u c])
    case none with assms(1) st show ?thesis by simp
  next
    case put
    have "calendar_inv (c\<lparr>cl_skips := cl_skips c @ [(p, k)]\<rparr>)"
      by (rule rows) (use put d assms(2) st in \<open>auto\<close>)
    with put st i show ?thesis by simp
  next
    case drop
    have "calendar_inv (c\<lparr>cl_skips := filter (\<lambda>r. r \<noteq> (p, k)) (cl_skips c)\<rparr>)"
      by (rule rows) (use d in \<open>auto\<close>)
    with drop st i show ?thesis by simp
  qed
qed

lemma named_update [simp]:
  "named ids (k\<lparr>sk_end := n\<rparr>) = named ids k" "named ids (k\<lparr>sk_start := n\<rparr>) = named ids k"
  "named ids (k\<lparr>sk_restored := b\<rparr>) = named ids k"
  by (simp_all add: named_def)

lemma selection_inv:
  assumes "calendar_inv (snd st)" "\<forall>req \<in> set reqs. named (schedule_ids (snd st)) req"
  shows "calendar_inv (snd (fold (apply_skip skipping p) reqs st))"
proof -
  let ?ids = "schedule_ids (snd st)"
  let ?P = "\<lambda>x :: skip_change list \<times> calendar. calendar_inv (snd x) \<and> schedule_ids (snd x) = ?ids"
  have "?P (fold (apply_skip skipping p) reqs st)"
  proof (rule fold_closed [where P = ?P])
    fix req x assume "req \<in> set reqs" "?P x"
    then show "?P (apply_skip skipping p req x)"
    proof (intro apply_skip_closed [of "named ?ids" ?P])
      show "?P (change p k present y)" if "named ?ids k" "?P y" for k present y
        using change_inv [of y k p present] that by simp
      show "named ?ids k" if "?P y" "(p, k) \<in> set (cl_skips (snd y))" for y k
        using that by (auto elim!: calendar_invE)
      show "named ?ids req" using \<open>req \<in> set reqs\<close> assms(2) by blast
    qed simp_all
  qed (simp add: assms(1))
  then show ?thesis by simp
qed

lemma undo_inv:
  assumes "calendar_inv (snd st)" "\<forall>ch \<in> set chs. named (schedule_ids (snd st)) (ch_skip ch)"
  shows "calendar_inv (snd (fold (undo_change p) chs st))"
proof -
  let ?P = "\<lambda>x :: skip_change list \<times> calendar. calendar_inv (snd x) \<and> schedule_ids (snd x) = schedule_ids (snd st)"
  have "?P (fold (undo_change p) chs st)"
    by (rule fold_closed [where P = ?P]) (use assms change_inv in \<open>auto simp: undo_change_def\<close>)
  then show ?thesis by simp
qed

lemma set_enabled_inv: "calendar_inv c \<Longrightarrow> calendar_inv (snd (set_enabled z now b is loaded c))"
proof (induction "is" arbitrary: loaded c)
  case (Cons i "is")
  show ?case
  proof (cases "loaded i")
    case None with Cons show ?thesis by simp
  next
    case (Some s)
    define next' where "next' = (if b \<and> (case sc_next_run s of None \<Rightarrow> True | Some n \<Rightarrow> n \<le> now)
      then next_run_of z s now else sc_next_run s)"
    have "calendar_inv (map_schedules (\<lambda>r. sc_id r = i) (\<lambda>r. r\<lparr>sc_enabled := b, sc_next_run := next'\<rparr>) c)"
      by (rule map_schedules_inv [OF Cons.prems]) simp
    from Cons.IH [OF this, of "loaded(i \<mapsto> s\<lparr>sc_enabled := b\<rparr>)"] Cons.IH [OF Cons.prems, of loaded] Some show ?thesis
      by (simp add: Let_def next'_def [symmetric] split_beta del: fun_upd_apply)
  qed
qed simp

lemma pause_project_inv: "calendar_inv c \<Longrightarrow> calendar_inv (snd (pause_project p now c))"
  by (auto simp: pause_project_def calendar_inv_def distinct_schedules_def schedule_ids_def)

lemma resume_project_inv:
  assumes "calendar_inv c"
  shows "calendar_inv (snd (resume_project z p now c))"
proof (cases "map_of (cl_pauses c) p")
  case None with assms show ?thesis by (simp add: resume_project_def)
next
  case (Some started)
  define k where "k = \<lparr>sk_schedule = [], sk_start = started, sk_end = unix now, sk_restored = False\<rparr>"
  define c1 where "c1 = (if unix now > started then snd (change_schedule_skip p k True c) else c)"
  have "snd (change_schedule_skip p k True c) = snd (change p k True ([], c))"
    by (simp add: change_def split_beta)
  then have "calendar_inv c1"
    using change_inv [of "([], c)" k p True] assms by (simp add: c1_def named_def k_def)
  define c2 where "c2 = map_schedules (overdue p now c1) (\<lambda>s. s\<lparr>sc_next_run := next_run_of z s now\<rparr>) c1"
  have "calendar_inv c2" unfolding c2_def by (rule map_schedules_inv [OF \<open>calendar_inv c1\<close>]) simp
  then have "calendar_inv (c2\<lparr>cl_pauses := filter (\<lambda>r. fst r \<noteq> p) (cl_pauses c2)\<rparr>)"
    by (simp add: calendar_inv_def distinct_schedules_def schedule_ids_def distinct_map_filter)
  moreover have "resume_project z p now c = (True, c2\<lparr>cl_pauses := filter (\<lambda>r. fst r \<noteq> p) (cl_pauses c2)\<rparr>)"
    unfolding resume_project_def Some option.case Let_def c2_def c1_def k_def ..
  ultimately show ?thesis by simp
qed

lemma owned_named: "owned_schedule p i c \<noteq> None \<Longrightarrow> i \<in> schedule_ids c"
  by (auto simp: owned_schedule_def get_schedule_def schedule_ids_def dest: find_Some_in split: option.splits)

lemma apply_calendar_action_inv:
  assumes "calendar_inv c" "apply_calendar_action z p a now c = (Inr undo, c')"
  shows "calendar_inv c'"
proof -
  let ?act = "ca_action a"
  define loaded where "loaded = (\<lambda>i. if i \<in> set (selected_ids a) then owned_schedule p i c else None)"
  have own: "\<forall>i \<in> set (selected_ids a). i \<in> schedule_ids c"
    using assms(2) owned_named [of p _ c] by (auto simp: apply_calendar_action_def split: if_splits)
  then have n: "\<forall>req \<in> set (ca_skips a). named (schedule_ids c) req" "\<forall>ch \<in> set (rev (ca_changes a)). named (schedule_ids c) (ch_skip ch)"
    by (auto simp: selected_ids_def named_def)
  have sel: "calendar_inv (snd (fold (apply_skip (?act = ''skip'') p) (ca_skips a) ([], c)))"
    by (rule selection_inv) (use assms(1) n in simp_all)
  have undo: "calendar_inv (snd (fold (undo_change p) (rev (ca_changes a)) ([], c)))"
    by (rule undo_inv) (use assms(1) n in simp_all)
  show ?thesis
    using assms(2) sel undo set_enabled_inv [OF assms(1), of z now "?act = ''resume''" "ca_ids a" loaded]
      pause_project_inv [OF assms(1), of p now] resume_project_inv [OF assms(1), of z p now]
    unfolding apply_calendar_action_def Let_def loaded_def [symmetric]
    by (simp split: if_split_asm prod.split_asm)
qed

lemma apply_parts_inv: "calendar_inv c \<Longrightarrow> apply_parts z now parts c = (Inr undos, c') \<Longrightarrow> calendar_inv c'"
proof (induction parts arbitrary: c undos)
  case (Cons x parts)
  obtain p part where x: "x = (p, part)" by (rule prod.exhaust)
  show ?case
  proof (cases "selects part")
    case False with Cons x show ?thesis by simp
  next
    case True
    then obtain undo c1 rest where a: "apply_calendar_action z p part now c = (Inr undo, c1)" "apply_parts z now parts c1 = (Inr rest, c')"
      using Cons.prems(2) x by (auto simp: and_then_def split: prod.splits sum.splits)
    from Cons.IH [OF apply_calendar_action_inv [OF Cons.prems(1) a(1)] a(2)] show ?thesis .
  qed
qed simp

lemma calendar_apply_inv: "calendar_inv c \<Longrightarrow> calendar_inv (snd (calendar_apply z map_order p a now c))"
  unfolding calendar_apply_def
  by (erule calendar_txn_inv)
    (auto simp: apply_all_projects_def and_then_def split: if_splits sum.splits prod.splits
      dest: apply_calendar_action_inv apply_parts_inv)

subsection \<open>Admissions\<close>

lemma admit_inv:
  assumes "db_inv d" "\<And>e. ad_exec a = Some e \<Longrightarrow> \<exists>x \<in> set (db_execs d). ex_id x = e \<and> ex_status x = ExecQueued"
  shows "db_inv (d\<lparr>db_admissions := db_admissions d @ [a]\<rparr>)"
proof -
  let ?d = "d\<lparr>db_admissions := db_admissions d @ [a]\<rparr>"
  have f: "db_tasks ?d = db_tasks d" "db_execs ?d = db_execs d" by simp_all
  show ?thesis
  proof (rule db_invI)
    show "distinct (map tk_id (db_tasks ?d))" "distinct (map ex_id (db_execs ?d))"
      using assms(1) unfolding f by (simp_all add: db_inv_def)
  next
    fix b e assume "b \<in> set (db_admissions ?d)" and e: "ad_exec b = Some e"
    then have "b = a \<or> b \<in> set (db_admissions d)" by auto
    with e show "\<exists>x \<in> set (db_execs ?d). ex_id x = e \<and> ex_status x = ExecQueued"
      using assms unfolding f db_inv_def by blast
  qed (rule db_inv_running [OF assms(1)], simp_all add: f)
qed

lemma reserve_occurrence_inv:
  assumes "db_inv d" "reserve_occurrence s t d = (Inr u, d')"
  shows "db_inv d'"
proof -
  define d1 where "d1 = update_task_row (tk_id t) (\<lambda>u. u\<lparr>tk_status := StatusPending, tk_category := runnable_category (tk_category t),
      tk_display_order := claimed_order t d, tk_completed_at := None\<rparr>) d"
  have d1: "db_inv d1" unfolding d1_def by (rule update_task_row_inv [OF assms(1)]) simp
  define ad where "ad = (\<lambda>e. \<lparr>ad_task = tk_id t, ad_schedule = sc_id s, ad_exec = e, ad_clear = sc_clear_context_on_start s\<rparr>)"
  define x where "x = lane_execution (t\<lparr>tk_starts_new_context := sc_clear_context_on_start s\<rparr>)"
  have nc: "\<not> chat_only (tk_project_id t) (runnable_category (tk_category t))"
    using assms(2) by (auto simp: reserve_occurrence_def)
  have r: "reserve_occurrence s t d =
    and_then (if tk_swarm_role t \<noteq> SwarmRoleParent then and_then (create_execution x d1) (\<lambda>e d2. (Inr (Some (ex_id e)), d2)) else (Inr None, d1))
      (\<lambda>e d2. if sc_id s \<in> ad_schedule ` set (db_admissions d2) then (Inl ConstraintFailure, d2)
              else (Inr (), d2\<lparr>db_admissions := db_admissions d2 @ [ad e]\<rparr>))"
    unfolding reserve_occurrence_def Let_def d1_def ad_def x_def using nc by (simp only: if_False)
  show ?thesis
  proof (cases "tk_swarm_role t = SwarmRoleParent")
    case True
    then have "d' = d1\<lparr>db_admissions := db_admissions d1 @ [ad None]\<rparr>"
      using assms(2) unfolding r by (simp split: if_splits)
    with admit_inv [OF d1, of "ad None"] show ?thesis by (simp add: ad_def)
  next
    case False
    obtain y d2 where y: "create_execution x d1 = (y, d2)" by (rule prod.exhaust)
    with assms(2) False obtain e where e: "create_execution x d1 = (Inr e, d2)" "d' = d2\<lparr>db_admissions := db_admissions d2 @ [ad (Some (ex_id e))]\<rparr>"
      unfolding r by (cases y) (simp_all split: if_splits)
    have "db_inv d2" by (rule create_execution_inv [OF d1 _ e(1)]) (simp add: lane_execution_def x_def)
    moreover have "e \<in> set (db_execs d2)" "ex_status e = ExecQueued"
      using create_execution_ok [OF e(1)] by (auto simp: lane_execution_def x_def)
    ultimately show ?thesis unfolding e(2) by (intro admit_inv) (auto simp: ad_def)
  qed
qed

lemma on_tables_ok:
  assumes "calendar_inv c" "on_tables f c = (Inr x, c')" "\<And>d d'. db_inv d \<Longrightarrow> f d = (Inr x, d') \<Longrightarrow> db_inv d'"
  shows "calendar_inv c'"
proof -
  obtain d where "f (tables c) = (Inr x, d)" "c' = c\<lparr>cl_db := d\<rparr>"
    using assms(2) by (auto simp: on_tables_def split: prod.splits sum.splits)
  moreover have "db_inv (tables c)" using assms(1) by (simp add: calendar_inv_def)
  ultimately show ?thesis using assms(3) calendar_inv_db [OF assms(1)] by blast
qed

lemma claim_body_inv:
  assumes "calendar_inv c" "claim_occurrence_body s n now next c = (Inr claimed, c')"
  shows "calendar_inv c'"
proof (cases claimed)
  case False
  then have "c' = c" using assms(2)
    by (auto simp: claim_occurrence_body_def and_then_def split: if_splits option.splits prod.splits sum.splits)
  with assms(1) show ?thesis by simp
next
  case True
  define c1 where "c1 = map_schedules (may_claim s n now c) (\<lambda>r. r\<lparr>sc_last_run := Some now, sc_next_run := next\<rparr>) c"
  have c1: "calendar_inv c1" unfolding c1_def by (rule map_schedules_inv [OF assms(1)]) simp
  have ok: "\<not> fst (suppressed_schedule_occurrence (sc_id s) n c)" "\<exists>r \<in> set (cl_schedules c). may_claim s n now c r"
    using assms(2) True by (auto simp: claim_occurrence_body_def split: if_splits)
  then obtain t where t: "and_then (on_tables (reserve_occurrence s t) c1) (\<lambda>_ c2. (Inr True, c2)) = (Inr claimed, c')"
    using assms(2) by (auto simp: claim_occurrence_body_def c1_def split: option.splits)
  then have "on_tables (reserve_occurrence s t) c1 = (Inr (), c')"
    by (auto simp: and_then_def split: prod.splits sum.splits)
  from on_tables_ok [OF c1 this] reserve_occurrence_inv show ?thesis by blast
qed

lemma claim_inv: "calendar_inv c \<Longrightarrow> calendar_inv (snd (claim_calendar_occurrence s now next c))"
  by (auto simp: claim_calendar_occurrence_def intro!: calendar_txn_inv dest: claim_body_inv split: option.splits)

lemma publish_calendar_inv: "calendar_inv c \<Longrightarrow> calendar_inv (c\<lparr>cl_db := publish es (cl_db c)\<rparr>)"
  by (rule calendar_inv_db) (simp_all add: publish_inv calendar_inv_def)

lemma get_by_id_calendar: "calendar_inv c \<Longrightarrow> calendar_inv (snd (on_tables (get_by_id i) c))"
  by (rule on_tables_inv) (simp_all add: get_by_id_inv calendar_inv_def)

lemma admit_scheduled_inv:
  assumes "calendar_inv c"
  shows "calendar_inv (snd (admit_scheduled_occurrence s now next c))"
proof -
  obtain r c1 where c: "claim_calendar_occurrence s now next c = (r, c1)" by (rule prod.exhaust)
  obtain q c2 where g: "on_tables (get_by_id (sc_task_id s)) c1 = (q, c2)" by (rule prod.exhaust)
  have c1: "calendar_inv c1" using claim_inv [OF assms, of s now "next"] c by simp
  have "calendar_inv c2" using get_by_id_calendar [OF c1, of "sc_task_id s"] g by simp
  with c1 c g show ?thesis
    by (auto simp: admit_scheduled_occurrence_def and_then_def publish_calendar_inv split: sum.split option.split)
qed

lemma tables_inv: "calendar_inv c \<Longrightarrow> db_inv (tables c)"
  by (simp add: calendar_inv_def)

lemma release_inv: "calendar_inv c \<Longrightarrow> calendar_inv (snd (release_calendar_occurrence s admitted_at next c))"
  unfolding release_calendar_occurrence_def
proof (erule calendar_txn_inv)
  fix c1 c2 :: calendar and x
  let ?unmoved = "\<lambda>r. sc_id r = sc_id s \<and> sc_task_id r = sc_task_id s \<and> sc_last_run r = Some admitted_at \<and>
      sc_next_run r = next \<and> sc_id r \<in> ad_schedule ` set (db_admissions (cl_db c1))"
  define c3 where "c3 = map_schedules ?unmoved (\<lambda>r. r\<lparr>sc_last_run := sc_last_run s, sc_next_run := sc_next_run s\<rparr>) c1"
  assume c1: "calendar_inv c1"
    and b: "(let unmoved = ?unmoved
         in if \<not> (\<exists>r \<in> set (cl_schedules c1). unmoved r) then (Inr (), c1)
            else let c1 = map_schedules unmoved (\<lambda>r. r\<lparr>sc_last_run := sc_last_run s, sc_next_run := sc_next_run s\<rparr>) c1
                 in (Inr (), c1\<lparr>cl_db := withdraw_admissions (\<lambda>a. ad_schedule a = sc_id s) (tables c1)\<rparr>)) = (Inr x, c2)"
  have c3: "calendar_inv c3" unfolding c3_def by (rule map_schedules_inv [OF c1]) simp
  have "calendar_inv (c3\<lparr>cl_db := withdraw_admissions (\<lambda>a. ad_schedule a = sc_id s) (tables c3)\<rparr>)"
    by (rule calendar_inv_db [OF c3]) (rule withdraw_admissions_inv [OF tables_inv [OF c3]])
  with b c1 show "calendar_inv c2" by (auto simp: Let_def c3_def split: if_splits)
qed

lemma advance_inv: "calendar_inv c \<Longrightarrow> calendar_inv (snd (advance_suppressed_occurrence z s now c))"
  by (auto simp: advance_suppressed_occurrence_def Let_def
      intro!: calendar_txn_inv map_schedules_inv split: option.split prod.splits bool.splits)

subsection \<open>The schedule repository\<close>

lemma update_schedules_inv:
  assumes "calendar_inv c" "\<And>r. sc_id (f r) = sc_id r"
  shows "calendar_inv (snd (update_schedules P f c))"
  unfolding update_schedules_def
  by (rule calendar_txn_inv [OF assms(1)]) (auto simp: map_schedules_inv [where f = f, OF _ assms(2)] split: if_splits)

lemma in_store_snd [simp]: "snd (in_store r) = snd r"
  by (simp add: in_store_def split: prod.split sum.split)

lemma in_store_then:
  "calendar_inv (snd r) \<Longrightarrow> (\<And>x c. calendar_inv c \<Longrightarrow> calendar_inv (snd (k x c))) \<Longrightarrow> calendar_inv (snd (and_then (in_store r) k))"
  by (cases r; cases "fst r") (auto simp: in_store_def)

lemma update_schedule_inv: "calendar_inv c \<Longrightarrow> calendar_inv (snd (update_schedule s c))"
  by (auto simp: update_schedule_def timing_row_def intro!: in_store_then update_schedules_inv)

lemma update_schedule_for_task_inv: "calendar_inv c \<Longrightarrow> calendar_inv (snd (update_schedule_for_task s task c))"
  by (auto simp: update_schedule_for_task_def timing_row_def intro!: in_store_then update_schedules_inv)

lemma returning_inv: "calendar_inv (snd r) \<Longrightarrow> calendar_inv (snd (returning i r))"
  by (cases r; cases "fst r") (auto simp: returning_def)

lemma small_schedule_updates_inv:
  assumes "calendar_inv c"
  shows "calendar_inv (snd (update_clear_context i task b c))" "calendar_inv (snd (mark_ran i admitted_at n c))"
    "calendar_inv (snd (update_next_run_if_current i task e n c))" "calendar_inv (snd (toggle_enabled i b c))"
    "calendar_inv (snd (set_enabled_for_task i task b c))" "calendar_inv (snd (toggle_enabled_for_task i task c))"
  unfolding update_clear_context_def mark_ran_def update_next_run_if_current_def toggle_enabled_def
    set_enabled_for_task_def toggle_enabled_for_task_def
  by (intro returning_inv update_schedules_inv [OF assms]; simp)+

lemma move_schedules_inv: "calendar_inv c \<Longrightarrow> move_schedules p move is c = (Inr u, c') \<Longrightarrow> calendar_inv c'"
proof (induction "is" arbitrary: c)
  case (Cons i "is")
  then obtain m :: schedule where
    "move_schedules p move is (map_schedules (\<lambda>r. sc_id r = i) (\<lambda>r. r\<lparr>sc_run_at := sc_run_at m, sc_next_run := sc_next_run m\<rparr>) c) = (Inr u, c')"
    by (auto split: option.splits)
  moreover have "calendar_inv (map_schedules (\<lambda>r. sc_id r = i) (\<lambda>r. r\<lparr>sc_run_at := sc_run_at m, sc_next_run := sc_next_run m\<rparr>) c)"
    by (rule map_schedules_inv [OF Cons.prems(1)]) simp
  ultimately show ?case by (rule Cons.IH [rotated])
qed simp

lemma update_batch_inv:
  assumes "calendar_inv c"
  shows "calendar_inv (snd (update_batch_for_project p is move c))"
proof -
  obtain b d where n: "next_fault (cl_db c) = (b, d)" by (rule prod.exhaust)
  have "db_inv d" using assms next_fault_inv [OF _ n] by (simp add: calendar_inv_def)
  then have c1: "calendar_inv (c\<lparr>cl_db := d\<rparr>)" by (rule calendar_inv_db [OF assms])
  obtain r c2 where m: "move_schedules p move is (c\<lparr>cl_db := d\<rparr>) = (r, c2)" by (rule prod.exhaust)
  show ?thesis
  proof (cases r)
    case (Inl e) with n m c1 assms show ?thesis by (cases b) (simp_all add: update_batch_for_project_def Let_def)
  next
    case (Inr u)
    with move_schedules_inv [OF c1] m have "calendar_inv c2" by simp
    with n m c1 assms Inr show ?thesis by (cases b) (simp_all add: update_batch_for_project_def Let_def)
  qed
qed

lemma named_mono: "named ids k \<Longrightarrow> ids \<subseteq> ids' \<Longrightarrow> named ids' k"
  by (auto simp: named_def)

definition add_schedule :: "schedule \<Rightarrow> string list \<Rightarrow> calendar \<Rightarrow> calendar" where
  "add_schedule q is c = c\<lparr>cl_db := (cl_db c)\<lparr>db_ids := is\<rparr>, cl_schedules := cl_schedules c @ [q]\<rparr>"

lemma add_schedule_inv:
  assumes "calendar_inv c" "sc_id q \<notin> schedule_ids c"
  shows "calendar_inv (add_schedule q is c)"
proof -
  have f: "cl_pauses (add_schedule q is c) = cl_pauses c" "cl_skips (add_schedule q is c) = cl_skips c"
    "schedule_ids (add_schedule q is c) = insert (sc_id q) (schedule_ids c)" "cl_db (add_schedule q is c) = (cl_db c)\<lparr>db_ids := is\<rparr>"
    by (simp_all add: add_schedule_def schedule_ids_def)
  have "db_inv (cl_db (add_schedule q is c))"
    using assms(1) unfolding f calendar_inv_def by (auto elim: db_inv_cong)
  moreover have "distinct_schedules (add_schedule q is c)"
    using assms by (simp add: calendar_inv_def distinct_schedules_def schedule_ids_def add_schedule_def)
  moreover have "named (schedule_ids c) k \<Longrightarrow> named (insert (sc_id q) (schedule_ids c)) k" for k by (erule named_mono) blast
  ultimately show ?thesis using assms(1) unfolding calendar_inv_def f by blast
qed

lemma create_schedule_inv: "calendar_inv c \<Longrightarrow> calendar_inv (snd (create_schedule s c))"
  by (auto simp: create_schedule_def Let_def schedule_ids_def simp flip: add_schedule_def
      intro!: calendar_txn_inv add_schedule_inv split: list.splits if_splits)

lemma delete_schedule_row_inv:
  assumes "calendar_inv c"
  shows "calendar_inv (delete_schedule_row i c)"
proof -
  have f: "db_inv d \<Longrightarrow> db_inv (fold (\<lambda>t. update_task_row t (\<lambda>u. u\<lparr>tk_status := StatusCancelled\<rparr>)) ts d)" for ts d
    by (induction ts arbitrary: d) (simp_all add: update_task_row_inv)
  have "db_inv (cl_db (delete_schedule_row i c))"
    using assms unfolding delete_schedule_row_def Let_def by (simp add: withdraw_admissions_inv f calendar_inv_def)
  moreover have "schedule_ids (delete_schedule_row i c) = schedule_ids c - {i}"
    by (auto simp: delete_schedule_row_def Let_def schedule_ids_def)
  ultimately show ?thesis
    using assms unfolding calendar_inv_def
    by (auto simp: delete_schedule_row_def Let_def distinct_schedules_def distinct_map_filter named_def)
qed

lemma delete_inv:
  "calendar_inv c \<Longrightarrow> calendar_inv (snd (delete_schedule i c))"
  "calendar_inv c \<Longrightarrow> calendar_inv (snd (delete_orphan i task c))"
  unfolding delete_schedule_def delete_orphan_def
  by (auto intro!: calendar_txn_inv delete_schedule_row_inv split: if_splits)

subsection \<open>Planners\<close>

lemma create_planner_inv: "db_inv d \<Longrightarrow> create_planner stop title t n d = (Inr x, d') \<Longrightarrow> db_inv d'"
proof (induction stop title t n d rule: create_planner.induct)
  case (1 stop title t n d)
  obtain r d1 where c: "create_task_body t d = (r, d1)" by (rule prod.exhaust)
  show ?case
  proof (cases r)
    case (Inr t1)
    with 1(3) c have "d' = d1" by (subst (asm) create_planner.simps) simp
    with create_task_body_inv [OF 1(2)] c Inr show ?thesis by simp
  next
    case (Inl e)
    with 1(3) c obtain i ns where "e = ErrDuplicateTask" "\<not> stop n" "db_ids d = i # ns"
      "create_planner stop title (t\<lparr>tk_title := title @ dot @ i\<rparr>) (Suc n) (d\<lparr>db_ids := ns\<rparr>) = (Inr x, d')"
      by (subst (asm) create_planner.simps) (auto split: if_splits list.splits)
    moreover have "db_inv (d\<lparr>db_ids := ns\<rparr>)" for ns using 1(2) by (rule db_inv_cong) simp_all
    ultimately show ?thesis using 1(1) [OF c [symmetric] Inl] by blast
  qed
qed

lemma to_active_tail_inv: "db_inv d \<Longrightarrow> db_inv (to_active_tail st t d)"
  unfolding to_active_tail_def by (rule update_task_row_inv) simp_all

lemma ready_planner_inv: "db_inv d \<Longrightarrow> ready_planner stop p d = (Inr x, d') \<Longrightarrow> db_inv d'"
  by (auto simp: ready_planner_def Let_def and_then_def to_active_tail_inv
      dest: create_planner_inv split: option.splits if_splits prod.splits sum.splits)

lemma transfer_admission_inv:
  assumes "db_inv d" "\<exists>x \<in> set (db_execs d). ex_id x = e \<and> ex_status x = ExecQueued"
  shows "db_inv (transfer_admission p q e d)"
proof -
  let ?d = "transfer_admission p q e d"
  have f: "db_tasks ?d = db_tasks d" "db_execs ?d = db_execs d" by (simp_all add: transfer_admission_def)
  show ?thesis
  proof (rule db_invI)
    show "distinct (map tk_id (db_tasks ?d))" "distinct (map ex_id (db_execs ?d))"
      using assms(1) unfolding f by (simp_all add: db_inv_def)
  next
    fix a e' assume "a \<in> set (db_admissions ?d)" "ad_exec a = Some e'"
    then have "e' = e \<or> (\<exists>b \<in> set (db_admissions d). ad_exec b = Some e')"
      by (auto simp: transfer_admission_def split: if_splits)
    then show "\<exists>x \<in> set (db_execs ?d). ex_id x = e' \<and> ex_status x = ExecQueued"
      using assms unfolding f db_inv_def by blast
  qed (rule db_inv_running [OF assms(1)], simp_all add: f)
qed

lemma reserve_planner_body_inv:
  assumes "db_inv d" "reserve_planner_body stop p d = (Inr x, d')"
  shows "db_inv d'"
proof (cases "live_planner_admission p d")
  case None with assms show ?thesis by (simp add: reserve_planner_body_def)
next
  case (Some pa)
  obtain parent a where pa: "pa = (parent, a)" by (rule prod.exhaust)
  obtain r d1 where r: "ready_planner stop parent d = (r, d1)" by (rule prod.exhaust)
  with assms(2) Some pa obtain found where found: "r = Inr found" by (cases r) (simp_all add: reserve_planner_body_def)
  have d1: "db_inv d1" using ready_planner_inv [OF assms(1)] r found by blast
  show ?thesis
  proof (cases found)
    case None with assms(2) Some pa r found d1 show ?thesis by (simp add: reserve_planner_body_def)
  next
    case planner: (Some planner)
    let ?d2 = "to_active_tail StatusBlocked parent d1"
    let ?x = "lane_execution (planner\<lparr>tk_starts_new_context := ad_clear a\<rparr>)"
    obtain y d3 where y: "create_execution ?x ?d2 = (y, d3)" by (rule prod.exhaust)
    with assms(2) Some pa r found planner obtain e where e: "create_execution ?x ?d2 = (Inr e, d3)"
      "d' = transfer_admission p (tk_id planner) (ex_id e) d3"
      by (cases y) (simp_all add: reserve_planner_body_def Let_def split: if_splits)
    have "db_inv d3" by (rule create_execution_inv [OF to_active_tail_inv [OF d1] _ e(1)]) (simp add: lane_execution_def)
    moreover have "e \<in> set (db_execs d3)" "ex_status e = ExecQueued"
      using create_execution_ok [OF e(1)] by (auto simp: lane_execution_def)
    ultimately show ?thesis unfolding e(2) by (intro transfer_admission_inv) auto
  qed
qed

lemma reserve_calendar_planner_inv:
  assumes "db_inv (ss_db s)"
  shows "db_inv (ss_db (snd (reserve_calendar_planner env p s)))"
proof -
  obtain b d where n: "next_fault (ss_db s) = (b, d)" by (rule prod.exhaust)
  have d: "db_inv d" by (rule next_fault_inv [OF assms n])
  obtain r d1 where r: "reserve_planner_body (sv_ctx_done env) p d = (r, d1)" by (rule prod.exhaust)
  have "r = Inr x \<Longrightarrow> db_inv d1" for x using reserve_planner_body_inv [OF d] r by blast
  with n r d show ?thesis
    by (cases b) (auto simp: reserve_calendar_planner_def publish_inv split: sum.split option.split)
qed

end
