(* ===== verification/SchedulerLaws.thy ===== *)
theory SchedulerLaws
  imports CalendarInv
begin

section \<open>Every reachable calendar\<close>

text \<open>
  A tick of the scheduler runs methods of the swarm service on the tables it shares with the
  calendar. Which methods keep the tables well formed is put together from their parts; with that,
  every reachable calendar is well formed.
\<close>

subsection \<open>Methods of the swarm service that keep the tables well formed\<close>

definition keeps_tables :: "'a run \<Rightarrow> bool" where
  "keeps_tables m \<longleftrightarrow> (\<forall>s. db_inv (ss_db s) \<longrightarrow> db_inv (ss_db (snd (m s))))"

named_theorems keeping \<open>methods that keep the tables well formed\<close>

lemma keeps_tablesD: "keeps_tables m \<Longrightarrow> db_inv (ss_db s) \<Longrightarrow> db_inv (ss_db (snd (m s)))"
  by (simp add: keeps_tables_def)

lemma keeps_ret [keeping]: "keeps_tables (ret x)" "keeps_tables (fail e)"
  by (simp_all add: keeps_tables_def)

lemma keeps_bind [keeping]:
  assumes "keeps_tables m" "\<And>x. keeps_tables (k x)"
  shows "keeps_tables (bind_run m k)"
  unfolding keeps_tables_def
proof (intro allI impI)
  fix s :: swarm_state assume "db_inv (ss_db s)"
  obtain r s1 where r: "m s = (r, s1)" by (rule prod.exhaust)
  with keeps_tablesD [OF assms(1) \<open>db_inv (ss_db s)\<close>] have s1: "db_inv (ss_db s1)" by simp
  show "db_inv (ss_db (snd (bind_run m k s)))"
    using r s1 keeps_tablesD [OF assms(2) s1] by (cases r) (simp_all add: bind_run_def)
qed

lemma keeps_then [keeping]: "keeps_tables m \<Longrightarrow> keeps_tables n \<Longrightarrow> keeps_tables (then_run m n)"
  unfolding then_run_def by (rule keeps_bind)

lemma keeps_stored: "(\<And>d. db_inv d \<Longrightarrow> db_inv (snd (f d))) \<Longrightarrow> keeps_tables (stored f)"
  by (auto simp: keeps_tables_def stored_def split: prod.splits sum.splits) (metis snd_conv)+

lemma keeps_pool [keeping]: "keeps_tables (pooled env f)" "keeps_tables (clear_cancellation i)" "keeps_tables (submit_task env t)"
  by (simp_all add: keeps_tables_def pooled_def clear_cancellation_def submit_task_def)

lemma keeps_status [keeping]: "keeps_tables (set_status i st)" "keeps_tables (set_category i c)" "keeps_tables (load i)"
  unfolding set_status_def set_category_def load_def
  by (rule keeps_stored; simp add: update_status_inv update_category_inv get_by_id_inv)+

lemma keeps_find [keeping]: "keeps_tables (stored (find_swarm_child_by_role p role))"
  unfolding find_swarm_child_by_role_def by (rule keeps_stored) (rule query_inv)

lemma keeps_if [keeping]: "keeps_tables m \<Longrightarrow> keeps_tables n \<Longrightarrow> keeps_tables (if b then m else n)"
  by simp

lemma keeps_option [keeping]:
  "keeps_tables m \<Longrightarrow> (\<And>x. keeps_tables (k x)) \<Longrightarrow> keeps_tables (case o' of None \<Rightarrow> m | Some x \<Rightarrow> k x)"
  by (cases o') simp_all

lemma keeps_load_or [keeping]: "keeps_tables (load_or msg i)"
  unfolding load_or_def by (intro keeping)

lemma keeps_move_parent [keeping]: "keeps_tables (move_parent t)"
  unfolding move_parent_def by (intro keeping)

lemma keeps_submit_if_runnable [keeping]: "keeps_tables (submit_if_runnable env t)"
  unfolding submit_if_runnable_def by (intro keeping)

lemma keeps_store_with_goal [keeping]: "keeps_tables (store_with_goal objective t)"
proof -
  have c: "keeps_tables (stored (create_task t))" by (rule keeps_stored) (rule create_task_inv)
  have n: "keeps_tables new_id"
    by (auto simp: keeps_tables_def new_id_def elim: db_inv_cong split: list.split)
  have g: "keeps_tables (\<lambda>s. (Inr t1, s\<lparr>ss_goals := (ss_goals s)(tk_id t1 \<mapsto> new_goal (tk_id t1) i objective (db_now (ss_db s)))\<rparr>))"
    for t1 i by (simp add: keeps_tables_def)
  show ?thesis unfolding store_with_goal_def by (intro keeping c n g)
qed

lemma keeps_create [keeping]: "keeps_tables (task_service_create env t)"
  unfolding task_service_create_def create_with_goal_def Let_def
  by (cases "normalize_title_and_prompt t") (auto intro!: keeping)

lemma keeps_child_loop: "(\<And>t. keeps_tables (save t)) \<Longrightarrow> keeps_tables (child_loop env save p child n fuel)"
  unfolding keeps_tables_def
proof (intro allI impI)
  fix s :: swarm_state
  assume save: "\<And>t. \<forall>s. db_inv (ss_db s) \<longrightarrow> db_inv (ss_db (snd (save t s)))" and "db_inv (ss_db s)"
  then show "db_inv (ss_db (snd (child_loop env save p child n fuel s)))"
  proof (induction fuel arbitrary: n s)
    case (Suc fuel)
    let ?t = "child\<lparr>tk_title := swarm_child_title (tk_title child) p (tk_swarm_sequence child) n\<rparr>"
    obtain r s1 where r: "save ?t s = (r, s1)" by (rule prod.exhaust)
    then have s1: "db_inv (ss_db s1)" using Suc.prems by (metis snd_conv)
    with r Suc.IH [OF Suc.prems(1) s1] show ?case by (cases r) simp_all
  qed simp
qed

lemma keeps_child [keeping]: "keeps_tables (create_swarm_child env p child)"
  using keeps_child_loop [where save = "task_service_create env", OF keeps_create] unfolding keeps_tables_def create_swarm_child_def by blast

lemma keeps_start_planner [keeping]: "keeps_tables (start_planner env None p)"
  unfolding start_planner_def start_planner_with_followup_def Let_def by (simp, intro keeping)

lemma keeps_scheduled_planner [keeping]: "keeps_tables (start_planner_for_scheduled_run env p)"
proof -
  have "keeps_tables (reserve_calendar_planner env p)"
    by (simp add: keeps_tables_def reserve_calendar_planner_inv)
  then show ?thesis unfolding start_planner_for_scheduled_run_def by (auto intro!: keeping split: prod.split)
qed

subsection \<open>A tick\<close>

definition good_scheduler :: "scheduler \<Rightarrow> bool" where
  "good_scheduler x \<longleftrightarrow> calendar_inv (sd_calendar x)"

lemma on_swarm_good:
  assumes "good_scheduler x" "keeps_tables m"
  shows "good_scheduler (snd (on_swarm m x))"
proof -
  have "db_inv (ss_db (snd (m ((sd_swarm x)\<lparr>ss_db := tables (sd_calendar x)\<rparr>))))"
    by (rule keeps_tablesD [OF assms(2)]) (use assms(1) in \<open>simp add: good_scheduler_def calendar_inv_def\<close>)
  with assms(1) show ?thesis
    by (auto simp: on_swarm_def good_scheduler_def calendar_inv_db split: prod.split)
qed

lemma on_calendar_good:
  assumes "good_scheduler x" "\<And>c. calendar_inv c \<Longrightarrow> calendar_inv (snd (f c))"
  shows "good_scheduler (snd (on_calendar f x))"
  using assms(1) assms(2) [of "sd_calendar x"]
  by (auto simp: on_calendar_def good_scheduler_def split: prod.split)

lemma on_calendar_after:
  "good_scheduler x \<Longrightarrow> on_calendar f x = (r, x1) \<Longrightarrow> (\<And>c. calendar_inv c \<Longrightarrow> calendar_inv (snd (f c))) \<Longrightarrow> good_scheduler x1"
  using on_calendar_good [of x f] by simp

lemma on_tables_after:
  assumes "good_scheduler x" "on_calendar (on_tables f) x = (r, x1)" "\<And>d. db_inv d \<Longrightarrow> db_inv (snd (f d))"
  shows "good_scheduler x1"
proof (rule on_calendar_after [OF assms(1,2)])
  fix c assume "calendar_inv c"
  then show "calendar_inv (snd (on_tables f c))" by (intro on_tables_inv assms(3) tables_inv)
qed

lemma load_admissions_inv: "calendar_inv c \<Longrightarrow> calendar_inv (snd (load_admissions as c))"
proof (induction "as" arbitrary: c)
  case (Cons a "as")
  obtain r c1 where r: "on_tables (get_by_id (ad_task a)) c = (r, c1)" by (rule prod.exhaust)
  have c1: "calendar_inv c1" using get_by_id_calendar [OF Cons.prems, of "ad_task a"] r by simp
  obtain q c2 where q: "load_admissions as c1 = (q, c2)" by (rule prod.exhaust)
  have "calendar_inv c2" using Cons.IH [OF c1] q by simp
  with r q c1 show ?case by (cases r; cases q) simp_all
qed simp

lemma list_calendar_admissions_inv: "calendar_inv c \<Longrightarrow> calendar_inv (snd (list_calendar_admissions c))"
proof -
  assume c: "calendar_inv c"
  obtain r c1 where r: "calendar_query (\<lambda>c. db_admissions (cl_db c)) c = (r, c1)" by (rule prod.exhaust)
  have c1: "calendar_inv c1" using calendar_query_inv [OF c, of "\<lambda>c. db_admissions (cl_db c)"] r by simp
  show ?thesis
    using r c1 load_admissions_inv [OF c1] by (cases r) (simp_all add: list_calendar_admissions_def)
qed

lemma fold_good: "good_scheduler x \<Longrightarrow> (\<And>y x. good_scheduler x \<Longrightarrow> good_scheduler (f y x)) \<Longrightarrow> good_scheduler (fold f ys x)"
  by (induction ys arbitrary: x) simp_all

lemma dispatch_admission_good: "good_scheduler x \<Longrightarrow> good_scheduler (dispatch_admission env ad x)"
  by (auto simp: dispatch_admission_def intro!: on_swarm_good keeping split: prod.split)

lemma dispatch_good:
  assumes "good_scheduler x"
  shows "good_scheduler (dispatch_calendar_admissions env x)"
proof -
  obtain r x1 where r: "on_calendar list_calendar_admissions x = (r, x1)" by (rule prod.exhaust)
  have "good_scheduler x1" by (rule on_calendar_after [OF assms r list_calendar_admissions_inv])
  with r show ?thesis
    by (cases r) (simp_all add: dispatch_calendar_admissions_def fold_good dispatch_admission_good)
qed

lemma check_running_task_inv: "calendar_inv c \<Longrightarrow> calendar_inv (check_running_task env now s c)"
  by (simp add: check_running_task_def small_schedule_updates_inv)

lemma check_due_schedule_good:
  assumes "good_scheduler x"
  shows "good_scheduler (check_due_schedule env now s x)"
proof -
  obtain r x1 where r: "on_calendar (on_tables (get_by_id (sc_task_id s))) x = (r, x1)" by (rule prod.exhaust)
  have x1: "good_scheduler x1" by (rule on_calendar_after [OF assms r get_by_id_calendar])
  obtain q x2 where q: "on_calendar (advance_suppressed_occurrence (se_zone env) s now) x1 = (q, x2)" by (rule prod.exhaust)
  have x2: "good_scheduler x2" by (rule on_calendar_after [OF x1 q advance_inv])
  have orphan: "good_scheduler (snd (on_calendar (delete_orphan (sc_id s) (sc_task_id s)) x1))"
    by (rule on_calendar_good [OF x1 delete_inv(2)])
  have admitted: "good_scheduler (snd (on_calendar (admit_scheduled_occurrence s now (next_run_of (se_zone env) s now)) x2))"
    by (rule on_calendar_good [OF x2 admit_scheduled_inv])
  have logged: "good_scheduler (x2\<lparr>sd_automation := l\<rparr>)" for l using x2 by (simp add: good_scheduler_def)
  have moved: "good_scheduler (x2\<lparr>sd_calendar := check_running_task env now s (sd_calendar x2)\<rparr>)"
    using x2 by (simp add: good_scheduler_def check_running_task_inv)
  show ?thesis
    unfolding check_due_schedule_def r q prod.case
    using x1 x2 orphan admitted logged moved by (auto split: sum.split option.split)
qed

lemma check_due_body_good:
  assumes "good_scheduler x"
  shows "good_scheduler (check_due_body env now x)"
proof -
  obtain r x1 where r: "on_calendar (list_due now) (dispatch_calendar_admissions env x) = (r, x1)" by (rule prod.exhaust)
  have "calendar_inv c \<Longrightarrow> calendar_inv (snd (list_due now c))" for c unfolding list_due_def by (rule calendar_query_inv)
  then have "good_scheduler x1" by (rule on_calendar_after [OF dispatch_good [OF assms] r])
  with r show ?thesis
    by (cases r) (simp_all add: check_due_body_def dispatch_good fold_good check_due_schedule_good)
qed

lemma good_tracker [simp]: "good_scheduler (x\<lparr>sd_tracker := t\<rparr>) = good_scheduler x"
  by (simp add: good_scheduler_def)

lemma check_due_tasks_good: "good_scheduler x \<Longrightarrow> good_scheduler (check_due_tasks env now x)"
  by (auto simp: check_due_tasks_def check_due_body_good split: option.split sum.split)

lemma offer_task_good: "good_scheduler x \<Longrightarrow> good_scheduler (offer_task env t u x)"
  by (auto simp: offer_task_def intro!: on_swarm_good keeping)

lemma recover_stale_good:
  assumes "good_scheduler x"
  shows "good_scheduler (recover_stale_task env cutoff t x)"
proof -
  obtain r x1 where r: "on_calendar (on_tables (reclaim_stale_queued_task (tk_id t) cutoff)) x = (r, x1)" by (rule prod.exhaust)
  have "good_scheduler x1" by (rule on_tables_after [OF assms r recovery_inv(2)])
  with r show ?thesis by (cases r) (auto simp: recover_stale_task_def offer_task_good split: bool.split)
qed

lemma check_active_tasks_good:
  assumes "good_scheduler x"
  shows "good_scheduler (check_active_tasks env now x)"
proof -
  obtain r x1 where r: "on_calendar (on_tables list_active_pending_admissions) x = (r, x1)" by (rule prod.exhaust)
  have "db_inv d \<Longrightarrow> db_inv (snd (list_active_pending_admissions d))" for d
    unfolding list_active_pending_admissions_def by (rule query_inv)
  then have x1: "good_scheduler x1" by (rule on_tables_after [OF assms r])
  show ?thesis
  proof (cases r)
    case (Inl e) with r x1 show ?thesis by (simp add: check_active_tasks_def)
  next
    case (Inr ts)
    define x2 where "x2 = fold (\<lambda>t. offer_task env t (admission_task t)) ts x1"
    have x2: "good_scheduler x2" unfolding x2_def by (rule fold_good [OF x1]) (rule offer_task_good)
    define cutoff where "cutoff = unix (now - stale_queued_task_timeout) * second"
    obtain q x3 where q: "on_calendar (on_tables (list_stale_queued_tasks cutoff)) x2 = (q, x3)" by (rule prod.exhaust)
    have "db_inv d \<Longrightarrow> db_inv (snd (list_stale_queued_tasks cutoff d))" for d
      unfolding list_stale_queued_tasks_def by (rule query_inv)
    then have "good_scheduler x3" by (rule on_tables_after [OF x2 q])
    with r Inr q show ?thesis
      by (cases q) (simp_all add: check_active_tasks_def x2_def cutoff_def Let_def fold_good recover_stale_good)
  qed
qed

lemma scheduler_tick_inv: "calendar_inv (sd_calendar x) \<Longrightarrow> calendar_inv (sd_calendar (scheduler_tick env now x))"
  using check_active_tasks_good [OF check_due_tasks_good] unfolding scheduler_tick_def good_scheduler_def by blast

subsection \<open>All the steps\<close>

inductive calendar_step :: "calendar \<Rightarrow> calendar \<Rightarrow> bool" where
  store: "store_step (tables c) d \<Longrightarrow> calendar_step c (c\<lparr>cl_db := d\<rparr>)"
| act: "calendar_step c (snd (calendar_apply z map_order p a now c))"
| admit: "calendar_step c (snd (admit_scheduled_occurrence s now nxt c))"
| release: "calendar_step c (snd (release_calendar_occurrence s now nxt c))"
| pass_over: "calendar_step c (snd (advance_suppressed_occurrence z s now c))"
| planner: "ss_db s = tables c \<Longrightarrow> calendar_step c (c\<lparr>cl_db := ss_db (snd (reserve_calendar_planner env p s))\<rparr>)"
| tick: "sd_calendar x = c \<Longrightarrow> calendar_step c (sd_calendar (scheduler_tick env now x))"
| create: "calendar_step c (snd (create_schedule s c))"
| update: "calendar_step c (snd (update_schedule s c))"
| update_owned: "calendar_step c (snd (update_schedule_for_task s i c))"
| move: "calendar_step c (snd (update_batch_for_project p is mv c))"
| context_setting: "calendar_step c (snd (update_clear_context i task b c))"
| ran: "calendar_step c (snd (mark_ran i now nxt c))"
| next_run: "calendar_step c (snd (update_next_run_if_current i task e nxt c))"
| toggle: "calendar_step c (snd (toggle_enabled i b c))"
| set_owned: "calendar_step c (snd (set_enabled_for_task i task b c))"
| toggle_owned: "calendar_step c (snd (toggle_enabled_for_task i task c))"
| delete: "calendar_step c (snd (delete_schedule i c))"
| orphan: "calendar_step c (snd (delete_orphan i task c))"

inductive calendar_reachable :: "calendar \<Rightarrow> bool" where
  empty: "store_reachable (cl_db c) \<Longrightarrow> cl_schedules c = [] \<Longrightarrow> cl_skips c = [] \<Longrightarrow> cl_pauses c = [] \<Longrightarrow> calendar_reachable c"
| step: "calendar_reachable c \<Longrightarrow> calendar_step c c' \<Longrightarrow> calendar_reachable c'"

lemma calendar_step_inv: "calendar_step c c' \<Longrightarrow> calendar_inv c \<Longrightarrow> calendar_inv c'"
proof (induction rule: calendar_step.induct)
  case (store c d)
  then show ?case using store_step_inv tables_inv calendar_inv_db by blast
next
  case (planner s c env p)
  then show ?case using reserve_calendar_planner_inv tables_inv calendar_inv_db by metis
next
  case (tick x c env now)
  then show ?case using scheduler_tick_inv by blast
qed (simp_all add: calendar_apply_inv admit_scheduled_inv release_inv advance_inv create_schedule_inv update_schedule_inv
      update_schedule_for_task_inv update_batch_inv small_schedule_updates_inv delete_inv)

text \<open>
  C24: Whatever the users, the ticks of schedulers, the planners and the task repository do, in any order and
  with any failures of the database, the tables of the calendar stay well formed: the keys of
  schedules, exclusions and pauses are unique, no exclusion is empty, each names an existing
  schedule or a whole project, every admission that names an execution names a queued one, and a
  task never has two running executions.
\<close>

theorem calendar_well_formed:
  assumes "calendar_reachable c"
  shows "calendar_inv c"
  using assms
proof (induction rule: calendar_reachable.induct)
  case (empty c)
  then show ?case using store_reachable_inv [of "cl_db c"] by (simp add: calendar_inv_def distinct_schedules_def)
next
  case (step c c') then show ?case using calendar_step_inv by blast
qed

definition first_task_db :: task_db where
  "first_task_db = snd (create_task (sample_task [] ''p'') (sample_db\<lparr>db_tasks := []\<rparr>))"

definition first_calendar :: calendar where
  "first_calendar = sample_calendar\<lparr>cl_db := first_task_db, cl_schedules := [], cl_skips := []\<rparr>"

lemma first_calendar_reachable: "calendar_reachable first_calendar"
proof (rule calendar_reachable.empty)
  have "store_reachable (sample_db\<lparr>db_tasks := []\<rparr>)" by (rule store_reachable.empty_tables) simp_all
  then have "store_reachable first_task_db"
    unfolding first_task_db_def by (rule store_reachable.store_step) (rule store_step.create)
  then show "store_reachable (cl_db first_calendar)" by (simp add: first_calendar_def)
qed (simp_all add: first_calendar_def sample_calendar_def)

lemma first_schedule: "cl_schedules (snd (create_schedule (sample_schedule\<lparr>sc_task_id := ''x''\<rparr>) first_calendar)) =
    [sample_schedule\<lparr>sc_id := ''y'', sc_task_id := ''x''\<rparr>]"
  by (simp add: create_schedule_def sample_schedule_def validate_schedule_repeat_interval_def max_schedule_repeat_interval_def
      in_store_def calendar_txn_def next_fault_def first_calendar_def first_task_db_def sample_calendar_def create_task_def txn_def
      create_task_body_def sample_db_def chat_only_def all_projects_id_def get_task_def known_repeat_def Let_def)

lemma calendar_well_formed_witness:
  "\<exists>c. calendar_reachable c \<and> length (cl_schedules c) = 1 \<and> calendar_inv c"
proof -
  let ?c = "snd (create_schedule (sample_schedule\<lparr>sc_task_id := ''x''\<rparr>) first_calendar)"
  have r: "calendar_reachable ?c"
    by (rule calendar_reachable.step [OF first_calendar_reachable]) (rule calendar_step.create)
  from calendar_well_formed [OF r] r first_schedule show ?thesis by (intro exI [of _ ?c]) simp
qed

end
