(* ===== verification/Goals.thy ===== *)
theory Goals
  imports Models
begin

section \<open>Task goals\<close>

text \<open>
  The goal of a task: its row is the \<open>task_goal\<close> of the data model. Here are the statements of
  \<open>internal/persistence/sqlite/task_goal_repo.go\<close> with the two of \<open>task_repo.go\<close> that write the
  same table, the service \<open>internal/service/task_goal_service.go\<close>, and the two handlers a user
  edits a goal with.

  A row changes by a single statement: \<open>goal_stmt\<close> has one constructor for each, \<open>stmt_where\<close> is
  its \<open>WHERE\<close> clause and \<open>stmt_set\<close> its \<open>SET\<close> list. \<open>gd_log\<close> lists the statements that met a row, in
  their order; no operation reads it. Which access the database refuses is a script, and so are
  the random ids. The broadcaster and the handler of achieved goals are present, as the server
  wires them; a call of the handler is an entry of \<open>gd_handled\<close>.
\<close>

datatype goal_error = ErrTaskGoalEmpty | ErrTaskGoalTooLong | ErrTaskGoalNotFound | ErrTaskGoalNotPaused
  | ErrTaskGoalStaleUpdate | GoalTaskMissing string | BlockerKeyRequired | GoalIdRequired | GoalStoreFailure | GoalConstraint

datatype goal_event_kind = TaskGoalUpdated | TaskGoalEvaluated | TaskGoalCleared | TaskGoalPaused | TaskGoalResumed

datatype goal_stmt =
    SetGoalRow string string string goal_status string
  | UpdateGoalStatus string string goal_status string bool
  | ReactivateGoal string string
  | MarkGoal string string string
  | ReportBlocked string string string string
  | ClearReport string string string
  | ClearGoalRow string string
  | DeleteGoalRow string

record goal_db =
  gd_goals :: "task_goal list"
  gd_tasks :: "string set"
  gd_now :: instant
  gd_ids :: "string list"
  gd_faults :: "bool list"
  gd_events :: "(goal_event_kind \<times> task_goal) list"
  gd_handled :: "(string \<times> string) list"
  gd_log :: "goal_stmt list"

subsection \<open>The statements\<close>

definition goal_fault :: "goal_db \<Rightarrow> bool \<times> goal_db" where
  "goal_fault d = (case gd_faults d of [] \<Rightarrow> (False, d) | f # fs \<Rightarrow> (f, d\<lparr>gd_faults := fs\<rparr>))"

definition new_goal_id :: "goal_db \<Rightarrow> string \<times> goal_db" where
  "new_goal_id d = (case gd_ids d of [] \<Rightarrow> ('''', d) | i # ids \<Rightarrow> (i, d\<lparr>gd_ids := ids\<rparr>))"

definition goal_of :: "string \<Rightarrow> goal_db \<Rightarrow> task_goal option" where
  "goal_of t d = find (\<lambda>g. tg_task_id g = t) (gd_goals d)"

definition get_by_task_id :: "string \<Rightarrow> goal_db \<Rightarrow> (goal_error + task_goal option) \<times> goal_db" where
  "get_by_task_id t d =
     (case goal_fault d of
        (True, d1) \<Rightarrow> (Inl GoalStoreFailure, d1)
      | (False, d1) \<Rightarrow> (Inr (goal_of t d1), d1))"

fun stmt_where :: "goal_stmt \<Rightarrow> task_goal \<Rightarrow> bool" where
  "stmt_where (SetGoalRow t i obj st reason) g = (tg_task_id g = t)"
| "stmt_where (UpdateGoalStatus t i st reason clear_audit) g = (tg_task_id g = t \<and> tg_goal_id g = i)"
| "stmt_where (ReactivateGoal t reason) g = (tg_task_id g = t \<and> tg_status g = GoalAchieved)"
| "stmt_where (MarkGoal t i reason) g = (tg_task_id g = t \<and> tg_goal_id g = i \<and> tg_status g = GoalActive)"
| "stmt_where (ReportBlocked t i k reason) g = (tg_task_id g = t \<and> tg_goal_id g = i \<and> tg_status g = GoalActive)"
| "stmt_where (ClearReport t k reason) g =
     (tg_task_id g = t \<and> tg_blocker_key g = k \<and> (tg_status g = GoalActive \<or> tg_status g = GoalBlocked))"
| "stmt_where (ClearGoalRow t reason) g = (tg_task_id g = t)"
| "stmt_where (DeleteGoalRow t) g = (tg_task_id g = t)"

definition clear_blocker :: "task_goal \<Rightarrow> task_goal" where
  "clear_blocker g = g\<lparr>tg_blocker_key := '''', tg_blocker_count := 0, tg_blocker_reason := '''', tg_blocker_last_seen_at := None\<rparr>"

definition next_count :: "string \<Rightarrow> task_goal \<Rightarrow> int" where
  "next_count k g = (if tg_blocker_key g = k then tg_blocker_count g + 1 else 1)"

fun stmt_set :: "instant \<Rightarrow> goal_stmt \<Rightarrow> task_goal \<Rightarrow> task_goal" where
  "stmt_set now (SetGoalRow t i obj st reason) g =
     (clear_blocker g)\<lparr>tg_goal_id := i, tg_objective := obj, tg_status := st, tg_reason := reason,
        tg_last_checked_at := None, tg_achieved_at := None, tg_updated_at := now\<rparr>"
| "stmt_set now (UpdateGoalStatus t i st reason clear_audit) g =
     (if clear_audit
      then (clear_blocker g)\<lparr>tg_status := st, tg_reason := reason, tg_last_checked_at := Some now, tg_achieved_at := None,
             tg_updated_at := now\<rparr>
      else g\<lparr>tg_status := st, tg_reason := reason, tg_last_checked_at := Some now, tg_updated_at := now\<rparr>)"
| "stmt_set now (ReactivateGoal t reason) g =
     (clear_blocker g)\<lparr>tg_status := GoalActive, tg_reason := reason, tg_last_checked_at := Some now, tg_achieved_at := None,
        tg_updated_at := now\<rparr>"
| "stmt_set now (MarkGoal t i reason) g =
     (clear_blocker g)\<lparr>tg_status := GoalAchieved, tg_reason := reason, tg_last_checked_at := Some now,
        tg_achieved_at := Some now, tg_updated_at := now\<rparr>"
| "stmt_set now (ReportBlocked t i k reason) g =
     g\<lparr>tg_blocker_key := k, tg_blocker_count := next_count k g, tg_blocker_reason := reason,
       tg_blocker_last_seen_at := Some now, tg_last_checked_at := Some now, tg_reason := reason,
       tg_status := (if next_count k g \<ge> 3 then GoalBlocked else GoalActive), tg_updated_at := now\<rparr>"
| "stmt_set now (ClearReport t k reason) g =
     (clear_blocker g)\<lparr>tg_status := GoalActive, tg_reason := reason, tg_last_checked_at := Some now, tg_achieved_at := None,
        tg_updated_at := now\<rparr>"
| "stmt_set now (ClearGoalRow t reason) g = g\<lparr>tg_status := GoalCleared, tg_reason := reason, tg_updated_at := now\<rparr>"
| "stmt_set now (DeleteGoalRow t) g = g"

definition apply_stmt :: "goal_stmt \<Rightarrow> goal_db \<Rightarrow> goal_db" where
  "apply_stmt s d =
     d\<lparr>gd_goals := map (\<lambda>g. if stmt_where s g then stmt_set (gd_now d) s g else g) (gd_goals d), gd_log := gd_log d @ [s]\<rparr>"

text \<open>\<open>updateReturning\<close>: the row after the update, or none when no row met the clause.\<close>

definition update_returning :: "goal_stmt \<Rightarrow> goal_db \<Rightarrow> (goal_error + task_goal option) \<times> goal_db" where
  "update_returning s d =
     (case goal_fault d of
        (True, d1) \<Rightarrow> (Inl GoalStoreFailure, d1)
      | (False, d1) \<Rightarrow>
          (case find (stmt_where s) (gd_goals d1) of
             None \<Rightarrow> (Inr None, d1)
           | Some g \<Rightarrow> (Inr (Some (stmt_set (gd_now d1) s g)), apply_stmt s d1)))"

text \<open>
  The goal id is unique and the task exists, or the statement is refused. A conflict on the task
  updates its row; without one the row is new.
\<close>

definition fresh_row :: "string \<Rightarrow> string \<Rightarrow> string \<Rightarrow> goal_status \<Rightarrow> string \<Rightarrow> instant \<Rightarrow> task_goal" where
  "fresh_row t i obj st reason now =
     \<lparr>tg_task_id = t, tg_goal_id = i, tg_objective = obj, tg_status = st, tg_reason = reason, tg_blocker_key = '''', tg_blocker_count = 0,
      tg_blocker_reason = '''', tg_blocker_last_seen_at = None, tg_last_checked_at = None, tg_achieved_at = None,
      tg_created_at = now, tg_updated_at = now\<rparr>"

definition id_taken :: "string \<Rightarrow> string \<Rightarrow> goal_db \<Rightarrow> bool" where
  "id_taken t i d \<longleftrightarrow> (\<exists>g \<in> set (gd_goals d). tg_task_id g \<noteq> t \<and> tg_goal_id g = i)"

definition write_goal :: "string \<Rightarrow> string \<Rightarrow> string \<Rightarrow> goal_status \<Rightarrow> string \<Rightarrow> goal_db \<Rightarrow> (goal_error + task_goal) \<times> goal_db" where
  "write_goal t i obj st reason d =
     (if id_taken t i d \<or> t \<notin> gd_tasks d then (Inl GoalConstraint, d)
      else case goal_of t d of
        Some g \<Rightarrow> (Inr (stmt_set (gd_now d) (SetGoalRow t i obj st reason) g), apply_stmt (SetGoalRow t i obj st reason) d)
      | None \<Rightarrow>
          (let g = fresh_row t i obj st reason (gd_now d)
           in (Inr g, d\<lparr>gd_goals := gd_goals d @ [g], gd_log := gd_log d @ [SetGoalRow t i obj st reason]\<rparr>)))"

definition create_or_replace :: "string \<Rightarrow> string \<Rightarrow> string \<Rightarrow> goal_status option \<Rightarrow> string \<Rightarrow> goal_db \<Rightarrow> (goal_error + task_goal) \<times> goal_db" where
  "create_or_replace t i obj st reason d =
     (if i = '''' then (Inl GoalIdRequired, d)
      else case goal_fault d of
        (True, d1) \<Rightarrow> (Inl GoalStoreFailure, d1)
      | (False, d1) \<Rightarrow> write_goal t i obj (case st of None \<Rightarrow> GoalActive | Some s \<Rightarrow> s) reason d1)"

definition clear_row :: "string \<Rightarrow> string \<Rightarrow> goal_db \<Rightarrow> (goal_error + unit) \<times> goal_db" where
  "clear_row t reason d =
     (case update_returning (ClearGoalRow t reason) d of (Inl e, d1) \<Rightarrow> (Inl e, d1) | (Inr _, d1) \<Rightarrow> (Inr (), d1))"

text \<open>A deletion, of the goal alone or with its task.\<close>

definition drop_goal :: "string \<Rightarrow> goal_db \<Rightarrow> goal_db" where
  "drop_goal t d = d\<lparr>gd_goals := filter (\<lambda>g. tg_task_id g \<noteq> t) (gd_goals d), gd_log := gd_log d @ [DeleteGoalRow t]\<rparr>"

definition delete_goal :: "string \<Rightarrow> goal_db \<Rightarrow> (goal_error + unit) \<times> goal_db" where
  "delete_goal t d =
     (case goal_fault d of (True, d1) \<Rightarrow> (Inl GoalStoreFailure, d1) | (False, d1) \<Rightarrow> (Inr (), drop_goal t d1))"

text \<open>
  The goal of a task that is created, and of a task an automation is saved with, inside the
  transaction of the caller: a saved goal with the text of the stored one leaves it alone. A refusal
  of any access rolls the whole transaction back, so one entry of the script decides for it.
\<close>

definition create_task_goal :: "string \<Rightarrow> string \<Rightarrow> string \<Rightarrow> goal_status option \<Rightarrow> string \<Rightarrow> goal_db \<Rightarrow> (goal_error + task_goal) \<times> goal_db" where
  "create_task_goal t i obj st reason d =
     (case (if i = '''' then new_goal_id d else (i, d)) of
        (j, d1) \<Rightarrow> if goal_of t d1 \<noteq> None then (Inl GoalConstraint, d1)
                   else write_goal t j obj (case st of None \<Rightarrow> GoalActive | Some s \<Rightarrow> s) reason d1)"

definition set_task_goal_row :: "string \<Rightarrow> string \<Rightarrow> string \<Rightarrow> goal_db \<Rightarrow> (goal_error + unit) \<times> goal_db" where
  "set_task_goal_row t objective reason d =
     (let obj = trim_space objective
      in if map_option tg_objective (goal_of t d) = Some obj then (Inr (), d)
         else case new_goal_id d of
           (i, d1) \<Rightarrow>
             (case (if goal_of t d1 = None then create_task_goal t i obj (Some GoalActive) reason d1
                    else write_goal t i obj GoalActive reason d1) of
                (Inl e, d2) \<Rightarrow> (Inl e, d2)
              | (Inr _, d2) \<Rightarrow> (Inr (), d2)))"

definition goal_txn :: "(goal_db \<Rightarrow> (goal_error + 'a) \<times> goal_db) \<Rightarrow> goal_db \<Rightarrow> (goal_error + 'a) \<times> goal_db" where
  "goal_txn body d =
     (case goal_fault d of
        (True, d1) \<Rightarrow> (Inl GoalStoreFailure, d1)
      | (False, d1) \<Rightarrow> (case body d1 of (Inl e, _) \<Rightarrow> (Inl e, d1) | (Inr x, d2) \<Rightarrow> (Inr x, d2)))"

subsection \<open>The service\<close>

definition publish_goal :: "goal_event_kind \<Rightarrow> task_goal \<Rightarrow> goal_db \<Rightarrow> goal_db" where
  "publish_goal k g d = d\<lparr>gd_events := gd_events d @ [(k, g)]\<rparr>"

definition reason_for_actor :: "string \<Rightarrow> string \<Rightarrow> string" where
  "reason_for_actor actor act =
     (let a = trim_space actor in if a = '''' then act else act @ '' by '' @ a)"

definition set_goal :: "string \<Rightarrow> string \<Rightarrow> string \<Rightarrow> string \<Rightarrow> goal_db \<Rightarrow> (goal_error + task_goal) \<times> goal_db" where
  "set_goal t objective actor reason d =
     (let obj = trim_space objective
      in if obj = '''' then (Inl ErrTaskGoalEmpty, d)
         else if length obj > max_task_goal_length then (Inl ErrTaskGoalTooLong, d)
         else case goal_fault d of
           (True, d1) \<Rightarrow> (Inl GoalStoreFailure, d1)
         | (False, d1) \<Rightarrow>
             if t \<notin> gd_tasks d1 then (Inl (GoalTaskMissing t), d1)
             else let r = trim_space reason;
                      r1 = (if r = '''' \<and> actor \<noteq> '''' then ''set by '' @ actor else r)
                  in case new_goal_id d1 of
                       (i, d2) \<Rightarrow>
                         (case create_or_replace t i obj (Some GoalActive) r1 d2 of
                            (Inl e, d3) \<Rightarrow> (Inl e, d3)
                          | (Inr g, d3) \<Rightarrow> (Inr g, publish_goal TaskGoalUpdated g d3)))"

definition publish_evaluated_goal :: "string \<Rightarrow> goal_db \<Rightarrow> (goal_error + task_goal option) \<times> goal_db" where
  "publish_evaluated_goal t d =
     (case get_by_task_id t d of
        (Inr (Some g), d1) \<Rightarrow>
          (Inr (Some g), if tg_status g = GoalCleared then d1 else publish_goal TaskGoalEvaluated g d1)
      | r \<Rightarrow> r)"

definition clear_goal :: "string \<Rightarrow> string \<Rightarrow> goal_db \<Rightarrow> (goal_error + unit) \<times> goal_db" where
  "clear_goal t actor d =
     (case clear_row t (reason_for_actor actor ''cleared'') d of
        (Inl e, d1) \<Rightarrow> (Inl e, d1)
      | (Inr _, d1) \<Rightarrow>
          (case get_by_task_id t d1 of
             (Inr (Some g), d2) \<Rightarrow> (Inr (), publish_goal TaskGoalCleared g d2)
           | (_, d2) \<Rightarrow> (Inr (), d2)))"

definition get_evaluable_goal :: "string \<Rightarrow> goal_db \<Rightarrow> (goal_error + task_goal option) \<times> goal_db" where
  "get_evaluable_goal t d =
     (case get_by_task_id t d of
        (Inl e, d1) \<Rightarrow> (Inl e, d1)
      | (Inr g, d1) \<Rightarrow> (Inr (if is_evaluable g then g else None), d1))"

text \<open>
  A pause and a resume read the row first and update it in a second statement, which names the goal
  id that was read: \<open>*_check\<close> decides on the row read, \<open>*_update\<close> is the rest of the call.
\<close>

definition stopped_by_user_reason :: string where
  "stopped_by_user_reason = ''stopped by user''"

definition pause_check :: "bool \<Rightarrow> task_goal option \<Rightarrow> goal_error + task_goal option" where
  "pause_check active_only go =
     (case go of
        None \<Rightarrow> Inl ErrTaskGoalNotFound
      | Some g \<Rightarrow> if active_only \<and> tg_status g \<noteq> GoalActive then Inr None else Inr (Some g))"

definition status_update ::
  "goal_event_kind \<Rightarrow> string \<Rightarrow> string \<Rightarrow> goal_status \<Rightarrow> string \<Rightarrow> bool \<Rightarrow> goal_db \<Rightarrow> (goal_error + task_goal) \<times> goal_db" where
  "status_update k t i st reason clear_audit d =
     (case update_returning (UpdateGoalStatus t i st reason clear_audit) d of
        (Inl e, d1) \<Rightarrow> (Inl e, d1)
      | (Inr None, d1) \<Rightarrow> (Inl ErrTaskGoalStaleUpdate, d1)
      | (Inr (Some g), d1) \<Rightarrow> (Inr g, publish_goal k g d1))"

definition pause_update :: "string \<Rightarrow> string \<Rightarrow> string \<Rightarrow> goal_db \<Rightarrow> (goal_error + task_goal) \<times> goal_db" where
  "pause_update t i reason = status_update TaskGoalPaused t i GoalPaused (trim_space reason) False"

definition resume_update :: "string \<Rightarrow> string \<Rightarrow> string \<Rightarrow> goal_db \<Rightarrow> (goal_error + task_goal) \<times> goal_db" where
  "resume_update t i actor = status_update TaskGoalResumed t i GoalActive (reason_for_actor actor ''resumed'') True"

definition pause_goal_with :: "string \<Rightarrow> string \<Rightarrow> bool \<Rightarrow> goal_db \<Rightarrow> (goal_error + unit) \<times> goal_db" where
  "pause_goal_with t reason active_only d =
     (case get_by_task_id t d of
        (Inl e, d1) \<Rightarrow> (Inl e, d1)
      | (Inr go, d1) \<Rightarrow>
          (case pause_check active_only go of
             Inl e \<Rightarrow> (Inl e, d1)
           | Inr None \<Rightarrow> (Inr (), d1)
           | Inr (Some g) \<Rightarrow>
               (case pause_update t (tg_goal_id g) reason d1 of (Inl e, d2) \<Rightarrow> (Inl e, d2) | (Inr _, d2) \<Rightarrow> (Inr (), d2))))"

definition pause_goal :: "string \<Rightarrow> string \<Rightarrow> goal_db \<Rightarrow> (goal_error + unit) \<times> goal_db" where
  "pause_goal t actor = pause_goal_with t (reason_for_actor actor ''paused'') False"

definition pause_active_goal_stopped_by_user :: "string \<Rightarrow> goal_db \<Rightarrow> (goal_error + unit) \<times> goal_db" where
  "pause_active_goal_stopped_by_user t = pause_goal_with t stopped_by_user_reason True"

definition resume_check :: "task_goal option \<Rightarrow> goal_error + task_goal option" where
  "resume_check go =
     (case go of
        None \<Rightarrow> Inl ErrTaskGoalNotFound
      | Some g \<Rightarrow> if tg_status g \<noteq> GoalPaused \<and> tg_status g \<noteq> GoalBlocked then Inl ErrTaskGoalNotPaused else Inr (Some g))"

definition resume_goal :: "string \<Rightarrow> string \<Rightarrow> goal_db \<Rightarrow> (goal_error + unit) \<times> goal_db" where
  "resume_goal t actor d =
     (case get_by_task_id t d of
        (Inl e, d1) \<Rightarrow> (Inl e, d1)
      | (Inr go, d1) \<Rightarrow>
          (case resume_check go of
             Inl e \<Rightarrow> (Inl e, d1)
           | Inr None \<Rightarrow> (Inr (), d1)
           | Inr (Some g) \<Rightarrow>
               (case resume_update t (tg_goal_id g) actor d1 of (Inl e, d2) \<Rightarrow> (Inl e, d2) | (Inr _, d2) \<Rightarrow> (Inr (), d2))))"

definition stopped_check :: "task_goal option \<Rightarrow> goal_error + task_goal option" where
  "stopped_check go =
     Inr (case go of
            None \<Rightarrow> None
          | Some g \<Rightarrow> if tg_status g \<noteq> GoalPaused \<or> trim_space (tg_reason g) \<noteq> stopped_by_user_reason then None else Some g)"

definition resume_goal_stopped_by_user :: "string \<Rightarrow> string \<Rightarrow> goal_db \<Rightarrow> (goal_error + task_goal option) \<times> goal_db" where
  "resume_goal_stopped_by_user t actor d =
     (case get_by_task_id t d of
        (Inl e, d1) \<Rightarrow> (Inl e, d1)
      | (Inr go, d1) \<Rightarrow>
          (case stopped_check go of
             Inl e \<Rightarrow> (Inl e, d1)
           | Inr None \<Rightarrow> (Inr None, d1)
           | Inr (Some g) \<Rightarrow>
               (case resume_update t (tg_goal_id g) actor d1 of (Inl e, d2) \<Rightarrow> (Inl e, d2) | (Inr r, d2) \<Rightarrow> (Inr (Some r), d2))))"

definition reactivate_achieved_goal :: "string \<Rightarrow> string \<Rightarrow> goal_db \<Rightarrow> (goal_error + task_goal option) \<times> goal_db" where
  "reactivate_achieved_goal t actor d =
     (case update_returning (ReactivateGoal t (reason_for_actor actor ''reactivated for follow-up'')) d of
        (Inr (Some g), d1) \<Rightarrow> (Inr (Some g), publish_goal TaskGoalUpdated g d1)
      | r \<Rightarrow> r)"

text \<open>The handler of an achieved goal runs after the row has changed.\<close>

definition mark_update :: "string \<Rightarrow> string \<Rightarrow> string \<Rightarrow> goal_db \<Rightarrow> (goal_error + task_goal) \<times> goal_db" where
  "mark_update t i reason d =
     (case update_returning (MarkGoal t i (trim_space reason)) d of
        (Inl e, d1) \<Rightarrow> (Inl e, d1)
      | (Inr None, d1) \<Rightarrow> (Inl ErrTaskGoalStaleUpdate, d1)
      | (Inr (Some g), d1) \<Rightarrow> (Inr g, publish_goal TaskGoalEvaluated g d1))"

definition handle_achieved :: "string \<Rightarrow> string \<Rightarrow> goal_db \<Rightarrow> goal_db" where
  "handle_achieved t i d = d\<lparr>gd_handled := gd_handled d @ [(t, i)]\<rparr>"

definition mark_achieved :: "string \<Rightarrow> string \<Rightarrow> string \<Rightarrow> goal_db \<Rightarrow> (goal_error + task_goal) \<times> goal_db" where
  "mark_achieved t i reason d =
     (case mark_update t i reason d of
        (Inl e, d1) \<Rightarrow> (Inl e, d1)
      | (Inr g, d1) \<Rightarrow> (Inr g, handle_achieved t (tg_goal_id g) d1))"

definition record_blocked_report :: "string \<Rightarrow> string \<Rightarrow> string \<Rightarrow> string \<Rightarrow> goal_db \<Rightarrow> (goal_error + task_goal) \<times> goal_db" where
  "record_blocked_report t i key reason d =
     (let k = trim_space key
      in if k = '''' then (Inl BlockerKeyRequired, d)
         else case update_returning (ReportBlocked t i k (trim_space reason)) d of
           (Inl e, d1) \<Rightarrow> (Inl e, d1)
         | (Inr None, d1) \<Rightarrow> (Inl ErrTaskGoalStaleUpdate, d1)
         | (Inr (Some g), d1) \<Rightarrow> (Inr g, publish_goal TaskGoalEvaluated g d1))"

definition clear_blocked_report :: "string \<Rightarrow> string \<Rightarrow> string \<Rightarrow> goal_db \<Rightarrow> (goal_error + task_goal option) \<times> goal_db" where
  "clear_blocked_report t key reason d =
     (let k = trim_space key
      in if k = '''' then (Inl BlockerKeyRequired, d)
         else case update_returning (ClearReport t k (trim_space reason)) d of
           (Inr (Some g), d1) \<Rightarrow> (Inr (Some g), publish_goal TaskGoalEvaluated g d1)
         | r \<Rightarrow> r)"

subsection \<open>The handlers\<close>

text \<open>
  \<open>SetTaskGoal\<close> keeps a goal whose text is saved unchanged. The edit form clears, sets, resumes or
  pauses the goal from its fields; a goal that cannot be loaded counts as none there. The form carries a goal field, and
  perhaps (\<open>status_field\<close>) the switch of the goal.
\<close>

definition set_task_goal :: "string \<Rightarrow> string \<Rightarrow> goal_db \<Rightarrow> (goal_error + task_goal) \<times> goal_db" where
  "set_task_goal t text d =
     (case get_by_task_id t d of
        (Inl e, d1) \<Rightarrow> (Inl e, d1)
      | (Inr prev, d1) \<Rightarrow>
          (case prev of
             Some g \<Rightarrow> if tg_status g \<noteq> GoalCleared \<and> tg_objective g = trim_space text then (Inr g, d1)
                       else set_goal t text ''user'' '''' d1
           | None \<Rightarrow> set_goal t text ''user'' '''' d1))"

definition load_task_goal :: "string \<Rightarrow> goal_db \<Rightarrow> task_goal option \<times> goal_db" where
  "load_task_goal t d = (if t = '''' then (None, d) else case get_by_task_id t d of (Inl e, d1) \<Rightarrow> (None, d1) | (Inr go, d1) \<Rightarrow> (go, d1))"

definition sync_goal_status :: "bool \<Rightarrow> string \<Rightarrow> goal_db \<Rightarrow> (goal_error + unit) \<times> goal_db" where
  "sync_goal_status active t d =
     (case load_task_goal t d of
        (None, d1) \<Rightarrow> (Inr (), d1)
      | (Some g, d1) \<Rightarrow>
          if tg_status g = GoalCleared then (Inr (), d1)
          else if active \<and> (tg_status g = GoalPaused \<or> tg_status g = GoalBlocked) then resume_goal t ''user'' d1
          else if \<not> active \<and> tg_status g = GoalActive then pause_goal t ''user'' d1
          else (Inr (), d1))"

definition update_goal_from_edit_form :: "string \<Rightarrow> string \<Rightarrow> bool option \<Rightarrow> goal_db \<Rightarrow> (goal_error + unit) \<times> goal_db" where
  "update_goal_from_edit_form t goal status_field d =
     (let text = trim_space goal
      in case load_task_goal t d of
        (go, d1) \<Rightarrow>
          if text = ''''
          then (case go of
                  Some g \<Rightarrow> if tg_status g \<noteq> GoalCleared then clear_goal t ''user'' d1 else (Inr (), d1)
                | None \<Rightarrow> (Inr (), d1))
          else case (if (case go of None \<Rightarrow> True | Some g \<Rightarrow> tg_status g = GoalCleared \<or> trim_space (tg_objective g) \<noteq> text)
                     then (case set_goal t text ''user'' '''' d1 of (Inl e, d2) \<Rightarrow> (Inl e, d2) | (Inr _, d2) \<Rightarrow> (Inr (), d2))
                     else (Inr (), d1)) of
                 (Inl e, d2) \<Rightarrow> (Inl e, d2)
               | (Inr _, d2) \<Rightarrow>
                   (case status_field of None \<Rightarrow> (Inr (), d2) | Some active \<Rightarrow> sync_goal_status active t d2))"

end
