(* ===== verification/GoalLaws.thy ===== *)
theory GoalLaws
  imports Goals
begin

section \<open>Task goals: what a status stands for\<close>

text \<open>
  The calls of users, agents and automations on the goals, in any order. A pause and a resume take
  effect in two steps, between which anything may happen, and so does the call of the handler after
  a goal was achieved; a call in progress may be lost with its process. Every status of a row is
  accounted for by the statements since the goal was set, whose last one put it there: a goal is
  blocked by three reports of one blocker in a row and by nothing else, and no report or status
  change made for an earlier goal counts for a later one.
\<close>

datatype goal_act =
    SetGoal string string string string
  | ClearGoal string string
  | PublishEvaluated string
  | EvaluateGoal string
  | ReactivateAchieved string string
  | RecordBlockedReport string string string string
  | ClearBlockedReport string string string
  | SaveTaskGoal string string string
  | CreateTaskGoal string string string string
  | DeleteGoal string

fun run_goal_act :: "goal_act \<Rightarrow> goal_db \<Rightarrow> goal_db" where
  "run_goal_act (SetGoal t obj actor reason) d = snd (set_goal t obj actor reason d)"
| "run_goal_act (ClearGoal t actor) d = snd (clear_goal t actor d)"
| "run_goal_act (PublishEvaluated t) d = snd (publish_evaluated_goal t d)"
| "run_goal_act (EvaluateGoal t) d = snd (get_evaluable_goal t d)"
| "run_goal_act (ReactivateAchieved t actor) d = snd (reactivate_achieved_goal t actor d)"
| "run_goal_act (RecordBlockedReport t i k reason) d = snd (record_blocked_report t i k reason d)"
| "run_goal_act (ClearBlockedReport t k reason) d = snd (clear_blocked_report t k reason d)"
| "run_goal_act (SaveTaskGoal t obj reason) d = snd (goal_txn (set_task_goal_row t obj reason) d)"
| "run_goal_act (CreateTaskGoal t i obj reason) d = snd (goal_txn (create_task_goal t i obj (Some GoalActive) reason) d)"
| "run_goal_act (DeleteGoal t) d = snd (delete_goal t d)"

datatype goal_call = PauseCall string string string | ResumeCall string string string | HandleCall string string

datatype goal_start = StartPause string string bool | StartResume string string | StartResumeStopped string string
  | StartAchieved string string string

definition started_call :: "(task_goal \<Rightarrow> goal_call) \<Rightarrow> goal_error + task_goal option \<Rightarrow> goal_call list" where
  "started_call f r = (case r of Inr (Some g) \<Rightarrow> [f g] | _ \<Rightarrow> [])"

definition start_read :: "string \<Rightarrow> (task_goal option \<Rightarrow> goal_error + task_goal option) \<Rightarrow> (task_goal \<Rightarrow> goal_call) \<Rightarrow> goal_db \<Rightarrow> goal_call list \<times> goal_db" where
  "start_read t check f d =
     (case get_by_task_id t d of (Inl e, d1) \<Rightarrow> ([], d1) | (Inr go, d1) \<Rightarrow> (started_call f (check go), d1))"

fun start_goal_call :: "goal_start \<Rightarrow> goal_db \<Rightarrow> goal_call list \<times> goal_db" where
  "start_goal_call (StartPause t reason ao) d = start_read t (pause_check ao) (\<lambda>g. PauseCall t (tg_goal_id g) reason) d"
| "start_goal_call (StartResume t actor) d = start_read t resume_check (\<lambda>g. ResumeCall t (tg_goal_id g) actor) d"
| "start_goal_call (StartResumeStopped t actor) d = start_read t stopped_check (\<lambda>g. ResumeCall t (tg_goal_id g) actor) d"
| "start_goal_call (StartAchieved t i reason) d =
     (case mark_update t i reason d of (Inl e, d1) \<Rightarrow> ([], d1) | (Inr g, d1) \<Rightarrow> ([HandleCall t (tg_goal_id g)], d1))"

fun finish_goal_call :: "goal_call \<Rightarrow> goal_db \<Rightarrow> goal_db" where
  "finish_goal_call (PauseCall t i reason) d = snd (pause_update t i reason d)"
| "finish_goal_call (ResumeCall t i actor) d = snd (resume_update t i actor d)"
| "finish_goal_call (HandleCall t i) d = handle_achieved t i d"

record goal_world =
  gw_db :: goal_db
  gw_calls :: "goal_call list"

definition goals_start :: "string set \<Rightarrow> goal_world" where
  "goals_start ts = \<lparr>gw_db = \<lparr>gd_goals = [], gd_tasks = ts, gd_now = 0, gd_ids = [], gd_faults = [], gd_events = [],
     gd_handled = [], gd_log = []\<rparr>, gw_calls = []\<rparr>"

inductive goal_step :: "goal_world \<Rightarrow> goal_world \<Rightarrow> bool" where
  act: "goal_step w (w\<lparr>gw_db := run_goal_act a (gw_db w)\<rparr>)"
| start: "start_goal_call s (gw_db w) = (cs, d) \<Longrightarrow> goal_step w (w\<lparr>gw_db := d, gw_calls := gw_calls w @ cs\<rparr>)"
| finish: "gw_calls w = xs @ c # ys \<Longrightarrow> goal_step w (w\<lparr>gw_db := finish_goal_call c (gw_db w), gw_calls := xs @ ys\<rparr>)"
| lost: "gw_calls w = xs @ c # ys \<Longrightarrow> goal_step w (w\<lparr>gw_calls := xs @ ys\<rparr>)"
| world: "goal_step w (w\<lparr>gw_db := (gw_db w)\<lparr>gd_now := n, gd_ids := ids, gd_faults := fs\<rparr>\<rparr>)"
| task_added: "goal_step w (w\<lparr>gw_db := (gw_db w)\<lparr>gd_tasks := insert t (gd_tasks (gw_db w))\<rparr>\<rparr>)"
| task_deleted: "goal_step w (w\<lparr>gw_db := (drop_goal t (gw_db w))\<lparr>gd_tasks := gd_tasks (gw_db w) - {t}\<rparr>\<rparr>)"

definition goals_reachable :: "goal_world \<Rightarrow> bool" where
  "goals_reachable w \<longleftrightarrow> (\<exists>ts. goal_step\<^sup>*\<^sup>* (goals_start ts) w)"

subsection \<open>The statements of a task\<close>

fun stmt_task :: "goal_stmt \<Rightarrow> string" where
  "stmt_task (SetGoalRow t i obj st reason) = t"
| "stmt_task (UpdateGoalStatus t i st reason c) = t"
| "stmt_task (ReactivateGoal t reason) = t"
| "stmt_task (MarkGoal t i reason) = t"
| "stmt_task (ReportBlocked t i k reason) = t"
| "stmt_task (ClearReport t k reason) = t"
| "stmt_task (ClearGoalRow t reason) = t"
| "stmt_task (DeleteGoalRow t) = t"

definition stmts_of :: "string \<Rightarrow> goal_stmt list \<Rightarrow> goal_stmt list" where
  "stmts_of t ss = filter (\<lambda>s. stmt_task s = t) ss"

text \<open>A statement of the goal \<open>i\<close>: it names \<open>i\<close> or no goal, and neither sets nor deletes one.\<close>

fun stmt_about :: "string \<Rightarrow> goal_stmt \<Rightarrow> bool" where
  "stmt_about i (SetGoalRow t j obj st reason) = False"
| "stmt_about i (UpdateGoalStatus t j st reason c) = (j = i)"
| "stmt_about i (MarkGoal t j reason) = (j = i)"
| "stmt_about i (ReportBlocked t j k reason) = (j = i)"
| "stmt_about i (DeleteGoalRow t) = False"
| "stmt_about i s = True"

fun is_report_of :: "string \<Rightarrow> goal_stmt \<Rightarrow> bool" where
  "is_report_of k (ReportBlocked t i key reason) = (key = k)"
| "is_report_of k s = False"

definition streak :: "string \<Rightarrow> goal_stmt list \<Rightarrow> nat" where
  "streak k ss = length (takeWhile (is_report_of k) (rev ss))"

fun is_mark_of :: "string \<times> string \<Rightarrow> goal_stmt \<Rightarrow> bool" where
  "is_mark_of p (MarkGoal t i reason) = (p = (t, i))"
| "is_mark_of p s = False"

fun activates :: "goal_stmt \<Rightarrow> bool" where
  "activates (SetGoalRow t i obj st reason) = True"
| "activates (UpdateGoalStatus t i st reason c) = (st = GoalActive)"
| "activates (ReactivateGoal t reason) = True"
| "activates s = False"

definition status_shown :: "goal_stmt list \<Rightarrow> task_goal \<Rightarrow> bool" where
  "status_shown ss g =
     (case tg_status g of
        GoalActive \<Rightarrow> \<forall>k. streak k ss < 3
      | GoalBlocked \<Rightarrow> \<exists>k. k \<noteq> '''' \<and> streak k ss = 3
      | GoalPaused \<Rightarrow> \<exists>pre r. ss = pre @ [UpdateGoalStatus (tg_task_id g) (tg_goal_id g) GoalPaused r False]
      | GoalAchieved \<Rightarrow> \<exists>pre r. ss = pre @ [MarkGoal (tg_task_id g) (tg_goal_id g) r]
      | GoalCleared \<Rightarrow> \<exists>pre r. ss = pre @ [ClearGoalRow (tg_task_id g) r]
      | GoalFailed \<Rightarrow> False)"

subsection \<open>Moves of the table\<close>

text \<open>What one statement does to the rows and the log, and that every call is a sequence of them.\<close>

fun good_stmt :: "goal_stmt \<Rightarrow> bool" where
  "good_stmt (SetGoalRow t i obj st reason) = (st = GoalActive)"
| "good_stmt (UpdateGoalStatus t i st reason c) = (st = GoalActive \<and> c \<or> st = GoalPaused \<and> \<not> c)"
| "good_stmt (ReportBlocked t i k reason) = (k \<noteq> '''')"
| "good_stmt (DeleteGoalRow t) = False"
| "good_stmt s = True"

inductive goal_move :: "goal_db \<Rightarrow> goal_db \<Rightarrow> bool" where
  still: "gd_goals d' = gd_goals d \<Longrightarrow> gd_log d' = gd_log d \<Longrightarrow> goal_move d d'"
| applied: "good_stmt s \<Longrightarrow> g \<in> set (gd_goals d) \<Longrightarrow> stmt_where s g \<Longrightarrow>
     gd_goals d' = map (\<lambda>r. if stmt_where s r then stmt_set now s r else r) (gd_goals d) \<Longrightarrow>
     gd_log d' = gd_log d @ [s] \<Longrightarrow> goal_move d d'"
| created: "t \<notin> tg_task_id ` set (gd_goals d) \<Longrightarrow> gd_goals d' = gd_goals d @ [fresh_row t i obj GoalActive reason now] \<Longrightarrow>
     gd_log d' = gd_log d @ [SetGoalRow t i obj GoalActive reason] \<Longrightarrow> goal_move d d'"
| dropped: "gd_goals d' = filter (\<lambda>g. tg_task_id g \<noteq> t) (gd_goals d) \<Longrightarrow> gd_log d' = gd_log d @ [DeleteGoalRow t] \<Longrightarrow> goal_move d d'"

abbreviation goal_moves :: "goal_db \<Rightarrow> goal_db \<Rightarrow> bool" where
  "goal_moves \<equiv> goal_move\<^sup>*\<^sup>*"

definition passes :: "goal_db \<Rightarrow> goal_db \<Rightarrow> bool" where
  "passes d d' \<longleftrightarrow> goal_moves d d' \<and> gd_handled d' = gd_handled d"

lemma passes_still: "gd_goals d' = gd_goals d \<Longrightarrow> gd_log d' = gd_log d \<Longrightarrow> gd_handled d' = gd_handled d \<Longrightarrow> passes d d'"
  by (auto simp: passes_def intro: goal_move.still)

lemma passes_trans [trans]: "passes d d1 \<Longrightarrow> passes d1 d2 \<Longrightarrow> passes d d2"
  by (auto simp: passes_def)

lemma passes_moveI: "goal_move d d' \<Longrightarrow> gd_handled d' = gd_handled d \<Longrightarrow> passes d d'"
  by (auto simp: passes_def)

lemma passes_goal_fault: "goal_fault d = (b, d1) \<Longrightarrow> passes d d1"
  by (rule passes_still) (auto simp: goal_fault_def split: list.splits)

lemma passes_new_goal_id: "new_goal_id d = (i, d1) \<Longrightarrow> passes d d1"
  by (rule passes_still) (auto simp: new_goal_id_def split: list.splits)

lemma passes_publish_goal: "passes d (publish_goal k g d)"
  by (rule passes_still) (auto simp: publish_goal_def)

lemma passes_get_by_task_id: "passes d (snd (get_by_task_id t d))"
  by (auto simp: get_by_task_id_def split: prod.split bool.split dest: passes_goal_fault)

lemma passes_apply_stmt: "good_stmt s \<Longrightarrow> find (stmt_where s) (gd_goals d) = Some g \<Longrightarrow> passes d (apply_stmt s d)"
  by (rule passes_moveI, rule goal_move.applied [of s g _ _ "gd_now d"]) (auto simp: apply_stmt_def dest: find_Some_in)

lemma passes_update_returning:
  assumes "good_stmt s" shows "passes d (snd (update_returning s d))"
proof -
  obtain b d1 where f: "goal_fault d = (b, d1)" by (cases "goal_fault d")
  then have "passes d d1" by (rule passes_goal_fault)
  moreover have "passes d1 (apply_stmt s d1)" if "find (stmt_where s) (gd_goals d1) = Some g" for g
    using assms that by (rule passes_apply_stmt)
  ultimately show ?thesis by (auto simp: update_returning_def f split: bool.split option.split intro: passes_trans)
qed

lemma where_set: "stmt_where (SetGoalRow t i obj st reason) = (\<lambda>g. tg_task_id g = t)"
  by (rule ext) simp

lemma goal_of_Some: "goal_of t d = Some g \<Longrightarrow> find (stmt_where (SetGoalRow t i obj st reason)) (gd_goals d) = Some g"
  unfolding goal_of_def where_set .

lemma passes_write_goal: "passes d (snd (write_goal t i obj GoalActive reason d))"
proof -
  have "passes d (apply_stmt (SetGoalRow t i obj GoalActive reason) d)" if "goal_of t d = Some g" for g
    by (rule passes_apply_stmt [OF _ goal_of_Some [OF that]]) simp
  moreover have "passes d (d\<lparr>gd_goals := gd_goals d @ [fresh_row t i obj GoalActive reason (gd_now d)],
      gd_log := gd_log d @ [SetGoalRow t i obj GoalActive reason]\<rparr>)" if "goal_of t d = None"
    by (rule passes_moveI, rule goal_move.created [of t _ _ i obj reason "gd_now d"])
      (use that in \<open>auto simp: goal_of_def find_None_notin\<close>)
  moreover have "passes d d" by (rule passes_still) simp_all
  ultimately show ?thesis by (auto simp: write_goal_def Let_def split: option.split)
qed

lemma passes_goal_txn:
  assumes "\<And>d. passes d (snd (body d))" shows "passes d (snd (goal_txn body d))"
proof -
  obtain b d1 where f: "goal_fault d = (b, d1)" by (cases "goal_fault d")
  obtain r d2 where r: "body d1 = (r, d2)" by (cases "body d1")
  from f have "passes d d1" by (rule passes_goal_fault)
  moreover from assms [of d1] r have "passes d1 d2" by simp
  ultimately show ?thesis by (auto simp: goal_txn_def f r split: bool.split sum.split intro: passes_trans)
qed

text \<open>The same for a result that is known, as the calls take it apart.\<close>

lemma update_returning_passes: "update_returning s d = (r, d1) \<Longrightarrow> good_stmt s \<Longrightarrow> passes d d1"
  using passes_update_returning [of s d] by simp

lemma get_passes: "get_by_task_id t d = (r, d1) \<Longrightarrow> passes d d1"
  using passes_get_by_task_id [of d t] by simp

lemma write_goal_passes: "write_goal t i obj GoalActive reason d = (r, d1) \<Longrightarrow> passes d d1"
  using passes_write_goal [of d t i obj reason] by simp

lemma passes_refl [simp]: "passes d d"
  by (rule passes_still) simp_all

lemma publish_passes: "passes d d1 \<Longrightarrow> passes d (publish_goal k g d1)"
  by (rule passes_trans [OF _ passes_publish_goal])

lemmas goal_results = update_returning_passes get_passes write_goal_passes passes_goal_fault passes_new_goal_id

lemma create_or_replace_passes: "create_or_replace t i obj (Some GoalActive) reason d = (r, d1) \<Longrightarrow> passes d d1"
  by (auto simp: create_or_replace_def split: if_splits prod.splits bool.splits intro: passes_trans dest!: goal_results)

lemma set_goal_passes: "passes d (snd (set_goal t obj actor reason d))"
  by (auto simp: set_goal_def Let_def split: prod.split bool.split sum.split
      dest!: goal_results create_or_replace_passes intro: publish_passes passes_trans)

lemma clear_goal_passes: "passes d (snd (clear_goal t actor d))"
  by (auto simp: clear_goal_def clear_row_def split: prod.split sum.split option.split
      dest!: get_passes update_returning_passes intro: publish_passes passes_trans)

lemma reads_pass:
  "passes d (snd (publish_evaluated_goal t d))" "passes d (snd (get_evaluable_goal t d))"
  by (auto simp: publish_evaluated_goal_def get_evaluable_goal_def split: prod.split sum.split option.split
      dest!: get_passes intro: publish_passes)

lemma reports_pass:
  "passes d (snd (reactivate_achieved_goal t actor d))" "passes d (snd (record_blocked_report t i k reason d))"
  "passes d (snd (clear_blocked_report t k reason d))"
  by (auto simp: reactivate_achieved_goal_def record_blocked_report_def clear_blocked_report_def Let_def
      split: prod.split sum.split option.split dest!: update_returning_passes intro: publish_passes)

lemma status_update_passes: "good_stmt (UpdateGoalStatus t i st reason c) \<Longrightarrow> passes d (snd (status_update k t i st reason c d))"
  by (auto simp: status_update_def split: prod.split sum.split option.split dest!: update_returning_passes intro: publish_passes)

lemma mark_update_passes: "passes d (snd (mark_update t i reason d))"
  by (auto simp: mark_update_def split: prod.split sum.split option.split dest!: update_returning_passes intro: publish_passes)

lemma create_task_goal_passes: "passes d (snd (create_task_goal t i obj (Some GoalActive) reason d))"
  by (auto simp: create_task_goal_def split: prod.split dest!: passes_new_goal_id intro: passes_trans passes_write_goal split: if_splits)

lemma set_task_goal_row_passes: "passes d (snd (set_task_goal_row t obj reason d))"
proof -
  obtain i d1 where i: "new_goal_id d = (i, d1)" by (cases "new_goal_id d")
  then have "passes d d1" by (rule passes_new_goal_id)
  with passes_write_goal [of d1 t i "trim_space obj" reason] create_task_goal_passes [of d1 t i "trim_space obj" reason]
  show ?thesis by (auto simp: set_task_goal_row_def Let_def i split: prod.split sum.split intro: passes_trans)
qed

lemma drop_goal_passes: "passes d (drop_goal t d)"
  by (rule passes_moveI, rule goal_move.dropped) (auto simp: drop_goal_def)

lemma delete_goal_passes: "passes d (snd (delete_goal t d))"
  by (auto simp: delete_goal_def split: prod.split bool.split dest!: passes_goal_fault intro: passes_trans drop_goal_passes)

lemma run_goal_act_passes: "passes d (run_goal_act a d)"
  by (cases a) (auto intro: set_goal_passes clear_goal_passes reads_pass reports_pass passes_goal_txn set_task_goal_row_passes
      create_task_goal_passes delete_goal_passes)

definition handlers :: "goal_call list \<Rightarrow> (string \<times> string) list" where
  "handlers cs = List.map_filter (\<lambda>c. case c of HandleCall t i \<Rightarrow> Some (t, i) | _ \<Rightarrow> None) cs"

lemma finish_moves: "goal_moves d (finish_goal_call c d)"
proof (cases c)
  case (HandleCall t i)
  have "goal_move d (handle_achieved t i d)" by (rule goal_move.still) (simp_all add: handle_achieved_def)
  with HandleCall show ?thesis by auto
qed (use status_update_passes in \<open>auto simp: pause_update_def resume_update_def passes_def\<close>)

subsection \<open>The invariant\<close>

definition report_counted :: "goal_stmt list \<Rightarrow> task_goal \<Rightarrow> bool" where
  "report_counted ss g \<longleftrightarrow> tg_status g = GoalActive \<longrightarrow>
     0 \<le> tg_blocker_count g \<and> tg_blocker_count g < 3 \<and>
     (\<forall>k. int (streak k ss) = (if k = tg_blocker_key g then tg_blocker_count g else 0))"

definition goal_accounted :: "goal_stmt list \<Rightarrow> task_goal \<Rightarrow> bool" where
  "goal_accounted log g \<longleftrightarrow>
     (\<exists>pre r post. stmts_of (tg_task_id g) log = pre @ SetGoalRow (tg_task_id g) (tg_goal_id g) (tg_objective g) GoalActive r # post \<and>
        (\<forall>s \<in> set post. stmt_about (tg_goal_id g) s) \<and> status_shown post g \<and> report_counted post g)"

fun is_mark :: "goal_stmt \<Rightarrow> bool" where
  "is_mark (MarkGoal t i reason) = True"
| "is_mark s = False"

fun marked :: "bool \<Rightarrow> goal_stmt list \<Rightarrow> bool" where
  "marked b [] = b"
| "marked b (s # ss) = marked (is_mark s \<or> b \<and> \<not> activates s) ss"

fun marks_apart :: "bool \<Rightarrow> goal_stmt list \<Rightarrow> bool" where
  "marks_apart b [] = True"
| "marks_apart b (s # ss) = (\<not> (b \<and> is_mark s) \<and> marks_apart (is_mark s \<or> b \<and> \<not> activates s) ss)"

definition goal_inv :: "goal_db \<Rightarrow> bool" where
  "goal_inv d \<longleftrightarrow> distinct (map tg_task_id (gd_goals d)) \<and> (\<forall>g \<in> set (gd_goals d). goal_accounted (gd_log d) g) \<and>
     (\<forall>t. marks_apart False (stmts_of t (gd_log d))) \<and>
     (\<forall>g \<in> set (gd_goals d). marked False (stmts_of (tg_task_id g) (gd_log d)) \<longrightarrow> tg_status g \<noteq> GoalActive \<and> tg_status g \<noteq> GoalBlocked)"

lemma marked_snoc [simp]: "marked b (ss @ [s]) \<longleftrightarrow> is_mark s \<or> marked b ss \<and> \<not> activates s"
  by (induction ss arbitrary: b) auto

lemma marks_apart_snoc [simp]: "marks_apart b (ss @ [s]) \<longleftrightarrow> marks_apart b ss \<and> \<not> (marked b ss \<and> is_mark s)"
  by (induction ss arbitrary: b) auto

lemma streak_snoc [simp]: "streak k (ss @ [s]) = (if is_report_of k s then Suc (streak k ss) else 0)"
  by (simp add: streak_def)

lemma streak_Nil [simp]: "streak k [] = 0"
  by (simp add: streak_def)

lemma stmts_of_snoc: "stmts_of t (log @ [s]) = (if stmt_task s = t then stmts_of t log @ [s] else stmts_of t log)"
  by (simp add: stmts_of_def)

lemma stmt_where_task: "stmt_where s g \<Longrightarrow> tg_task_id g = stmt_task s"
  by (cases s) auto

lemma stmt_set_task [simp]: "tg_task_id (stmt_set now s g) = tg_task_id g"
  by (cases s) (auto simp: clear_blocker_def)

lemma accounted_other: "goal_accounted log g \<Longrightarrow> stmt_task s \<noteq> tg_task_id g \<Longrightarrow> goal_accounted (log @ [s]) g"
  by (simp add: goal_accounted_def stmts_of_snoc)

lemma stmt_about_matching: "stmt_where s g \<Longrightarrow> good_stmt s \<Longrightarrow> \<not> (\<exists>t i obj st r. s = SetGoalRow t i obj st r) \<Longrightarrow> stmt_about (tg_goal_id g) s"
  by (cases s) auto

lemma stmt_set_kept: "\<not> (\<exists>t i obj st r. s = SetGoalRow t i obj st r) \<Longrightarrow>
    tg_goal_id (stmt_set now s g) = tg_goal_id g \<and> tg_objective (stmt_set now s g) = tg_objective g"
  by (cases s) (auto simp: clear_blocker_def)

lemma status_after:
  assumes "stmt_where s g" "good_stmt s" "\<not> (\<exists>t i obj st r. s = SetGoalRow t i obj st r)" "status_shown post g" "report_counted post g"
  shows "status_shown (post @ [s]) (stmt_set now s g) \<and> report_counted (post @ [s]) (stmt_set now s g)"
proof (cases s)
  case (ReportBlocked t i k r)
  with assms(1) have a: "tg_status g = GoalActive" by simp
  with assms(5) have c: "0 \<le> tg_blocker_count g" "tg_blocker_count g < 3"
    "\<And>k. int (streak k post) = (if k = tg_blocker_key g then tg_blocker_count g else 0)" by (auto simp: report_counted_def)
  have n: "int (streak q (post @ [s])) = (if q = k then next_count k g else 0)" for q
    using c(3) [of q] ReportBlocked by (auto simp: next_count_def)
  have "0 < next_count k g" "next_count k g \<le> 3" using c by (auto simp: next_count_def)
  show ?thesis
  proof (cases "next_count k g \<ge> 3")
    case True
    with \<open>next_count k g \<le> 3\<close> n [of k] have "streak k (post @ [s]) = 3" by simp
    with True ReportBlocked assms(2) show ?thesis by (auto simp: status_shown_def report_counted_def)
  next
    case False
    have "streak q (post @ [s]) < 3" for q using n [of q] False by (cases "q = k") auto
    with n False \<open>0 < next_count k g\<close> ReportBlocked show ?thesis by (auto simp: status_shown_def report_counted_def)
  qed
qed (use assms in \<open>auto simp: status_shown_def report_counted_def clear_blocker_def split: if_splits\<close>)

lemma accounted_step:
  assumes "goal_accounted log g" "good_stmt s" "stmt_where s g"
  shows "goal_accounted (log @ [s]) (stmt_set now s g)"
proof -
  from assms(1) obtain pre r post where o: "stmts_of (tg_task_id g) log = pre @ SetGoalRow (tg_task_id g) (tg_goal_id g) (tg_objective g) GoalActive r # post"
    "\<forall>s \<in> set post. stmt_about (tg_goal_id g) s" "status_shown post g" "report_counted post g" by (auto simp: goal_accounted_def)
  have l: "stmts_of (tg_task_id g) (log @ [s]) = stmts_of (tg_task_id g) log @ [s]"
    using stmt_where_task [OF assms(3)] by (simp add: stmts_of_snoc)
  show ?thesis
  proof (cases "\<exists>t i obj st r. s = SetGoalRow t i obj st r")
    case True
    with assms(2,3) obtain i obj q where s: "s = SetGoalRow (tg_task_id g) i obj GoalActive q" by auto
    show ?thesis unfolding goal_accounted_def
      by (intro exI [of _ "stmts_of (tg_task_id g) log"] exI [of _ q] exI [of _ "[]"])
        (use l in \<open>simp add: s clear_blocker_def status_shown_def report_counted_def\<close>)
  next
    case False
    from status_after [OF assms(3,2) False o(3,4)] stmt_about_matching [OF assms(3,2) False] stmt_set_kept [OF False, of now g]
    show ?thesis unfolding goal_accounted_def
      by (intro exI [of _ pre] exI [of _ r] exI [of _ "post @ [s]"]) (use o(1,2) l in auto)
  qed
qed

lemma goal_inv_row: "goal_inv d \<Longrightarrow> g \<in> set (gd_goals d) \<Longrightarrow> goal_accounted (gd_log d) g"
  by (simp add: goal_inv_def)

lemma one_row: "goal_inv d \<Longrightarrow> g \<in> set (gd_goals d) \<Longrightarrow> r \<in> set (gd_goals d) \<Longrightarrow> tg_task_id r = tg_task_id g \<Longrightarrow> r = g"
  by (auto simp: goal_inv_def distinct_map dest: inj_onD)

text \<open>A status that lets a goal be marked, or be blocked, is one a statement activated it to.\<close>

lemma unmarked_after:
  assumes "good_stmt s" "stmt_where s g" "marked False ss \<longrightarrow> tg_status g \<noteq> GoalActive \<and> tg_status g \<noteq> GoalBlocked"
  shows "marked False (ss @ [s]) \<longrightarrow> tg_status (stmt_set now s g) \<noteq> GoalActive \<and> tg_status (stmt_set now s g) \<noteq> GoalBlocked"
  using assms by (cases s) (auto simp: clear_blocker_def)

lemma mark_unmarked:
  "stmt_where s g \<Longrightarrow> is_mark s \<Longrightarrow> marked False ss \<longrightarrow> tg_status g \<noteq> GoalActive \<and> tg_status g \<noteq> GoalBlocked \<Longrightarrow> \<not> marked False ss"
  by (cases s) auto

lemma goal_inv_applied:
  assumes i: "goal_inv d" and s: "good_stmt s" and g: "g \<in> set (gd_goals d)" "stmt_where s g"
    and d': "gd_goals d' = map (\<lambda>r. if stmt_where s r then stmt_set now s r else r) (gd_goals d)" "gd_log d' = gd_log d @ [s]"
  shows "goal_inv d'"
proof -
  have t: "tg_task_id g = stmt_task s" using g(2) by (rule stmt_where_task)
  have rows: "r' \<in> set (gd_goals d) \<and> tg_task_id r' \<noteq> stmt_task s \<or> r' = stmt_set now s g" if "r' \<in> set (gd_goals d')" for r'
  proof -
    from that d'(1) obtain r where r: "r \<in> set (gd_goals d)" "r' = (if stmt_where s r then stmt_set now s r else r)" by auto
    show ?thesis
    proof (cases "tg_task_id r = stmt_task s")
      case True
      with one_row [OF i g(1) r(1)] t have "r = g" by simp
      with r(2) g(2) show ?thesis by simp
    next
      case False
      then have "\<not> stmt_where s r" using stmt_where_task by blast
      with r False show ?thesis by simp
    qed
  qed
  have "distinct (map tg_task_id (gd_goals d'))"
  proof -
    have "map tg_task_id (gd_goals d') = map tg_task_id (gd_goals d)" by (simp add: d'(1))
    with i show ?thesis by (simp add: goal_inv_def)
  qed
  moreover have "goal_accounted (gd_log d') r" if "r \<in> set (gd_goals d')" for r
    using rows [OF that] goal_inv_row [OF i] accounted_other accounted_step [OF goal_inv_row [OF i g(1)] s g(2)]
    by (auto simp: d'(2))
  moreover have m: "marked False (stmts_of (tg_task_id g) (gd_log d)) \<longrightarrow> tg_status g \<noteq> GoalActive \<and> tg_status g \<noteq> GoalBlocked"
    using i g(1) by (simp add: goal_inv_def)
  have "marks_apart False (stmts_of u (gd_log d'))" for u
    using i mark_unmarked [OF g(2) _ m] t by (auto simp: goal_inv_def d'(2) stmts_of_snoc)
  moreover have "marked False (stmts_of (tg_task_id r) (gd_log d')) \<longrightarrow> tg_status r \<noteq> GoalActive \<and> tg_status r \<noteq> GoalBlocked"
    if "r \<in> set (gd_goals d')" for r
  proof (cases "tg_task_id r = stmt_task s")
    case True
    with rows [OF that] have r: "r = stmt_set now s g" by simp
    from unmarked_after [OF s g(2) m] show ?thesis unfolding r stmt_set_task using t by (simp add: d'(2) stmts_of_snoc del: marked_snoc)
  next
    case False
    with rows [OF that] t have "r \<in> set (gd_goals d)" by auto
    with i False show ?thesis by (simp add: goal_inv_def d'(2) stmts_of_snoc)
  qed
  ultimately show ?thesis by (simp add: goal_inv_def)
qed

lemma goal_inv_created:
  assumes i: "goal_inv d" and t: "t \<notin> tg_task_id ` set (gd_goals d)"
    and d': "gd_goals d' = gd_goals d @ [fresh_row t j obj GoalActive reason now]" "gd_log d' = gd_log d @ [SetGoalRow t j obj GoalActive reason]"
  shows "goal_inv d'"
proof -
  have "goal_accounted (gd_log d') (fresh_row t j obj GoalActive reason now)" unfolding goal_accounted_def
    by (intro exI [of _ "stmts_of t (gd_log d)"] exI [of _ reason] exI [of _ "[]"])
      (simp add: d'(2) stmts_of_snoc fresh_row_def status_shown_def report_counted_def)
  moreover have "goal_accounted (gd_log d') g" if "g \<in> set (gd_goals d)" for g
  proof -
    from that t have "stmt_task (SetGoalRow t j obj GoalActive reason) \<noteq> tg_task_id g" by auto
    then show ?thesis unfolding d'(2) by (rule accounted_other [OF goal_inv_row [OF i that]])
  qed
  moreover have "stmts_of (tg_task_id g) (gd_log d') = stmts_of (tg_task_id g) (gd_log d)" if "g \<in> set (gd_goals d)" for g
    using that t by (auto simp: d'(2) stmts_of_snoc)
  moreover have "marks_apart False (stmts_of u (gd_log d'))" for u
    using i by (auto simp: d'(2) stmts_of_snoc goal_inv_def)
  moreover have "\<not> marked False (stmts_of t (gd_log d'))" by (simp add: d'(2) stmts_of_snoc)
  moreover have "distinct (map tg_task_id (gd_goals d'))" using i t by (auto simp: d'(1) goal_inv_def fresh_row_def)
  ultimately show ?thesis using i by (auto simp: goal_inv_def d'(1) fresh_row_def)
qed

lemma goal_inv_dropped:
  assumes i: "goal_inv d" and d': "gd_goals d' = filter (\<lambda>g. tg_task_id g \<noteq> t) (gd_goals d)" "gd_log d' = gd_log d @ [DeleteGoalRow t]"
  shows "goal_inv d'"
  using i accounted_other by (auto simp: goal_inv_def d' stmts_of_snoc distinct_filter_map)

lemma goal_inv_move:
  assumes "goal_move d d'" "goal_inv d" shows "goal_inv d'"
  using assms(1)
proof cases
  case still
  with assms(2) show ?thesis by (simp add: goal_inv_def)
next
  case (applied s g now)
  then show ?thesis by (rule goal_inv_applied [OF assms(2)])
next
  case (created t i obj reason now)
  then show ?thesis by (rule goal_inv_created [OF assms(2)])
next
  case (dropped t)
  then show ?thesis by (rule goal_inv_dropped [OF assms(2)])
qed

subsection \<open>Reachable states\<close>

lemma goal_inv_moves: "goal_moves d d' \<Longrightarrow> goal_inv d \<Longrightarrow> goal_inv d'"
  by (induction rule: rtranclp_induct) (auto intro: goal_inv_move)

lemma moves_log: "goal_moves d d' \<Longrightarrow> \<exists>ss. gd_log d' = gd_log d @ ss"
  by (induction rule: rtranclp_induct) (auto elim!: goal_move.cases)

definition marks_of :: "string \<times> string \<Rightarrow> goal_db \<Rightarrow> nat" where
  "marks_of p d = length (filter (is_mark_of p) (gd_log d))"

lemma moves_marks: "goal_moves d d' \<Longrightarrow> marks_of p d \<le> marks_of p d'"
  by (auto simp: marks_of_def dest!: moves_log)

lemma marked_by_update:
  assumes "mark_update t i reason d = (Inr g, d1)"
  shows "tg_goal_id g = i \<and> marks_of (t, i) d1 = Suc (marks_of (t, i) d) \<and> gd_handled d1 = gd_handled d"
  using assms
  by (auto simp: mark_update_def update_returning_def goal_fault_def publish_goal_def apply_stmt_def marks_of_def clear_blocker_def
      split: prod.splits bool.splits option.splits list.splits dest!: find_Some_in)

definition handled_ok :: "goal_world \<Rightarrow> bool" where
  "handled_ok w \<longleftrightarrow> (\<forall>p. count_list (gd_handled (gw_db w)) p + count_list (handlers (gw_calls w)) p \<le> marks_of p (gw_db w))"

lemma handlers_append [simp]: "handlers (xs @ ys) = handlers xs @ handlers ys"
  by (simp add: handlers_def List.map_filter_def)

lemma handlers_Cons: "handlers (c # cs) = (case c of HandleCall t i \<Rightarrow> [(t, i)] | _ \<Rightarrow> []) @ handlers cs"
  by (simp add: handlers_def List.map_filter_def split: goal_call.split)

lemma handlers_Nil [simp]: "handlers [] = []"
  by (simp add: handlers_def List.map_filter_def)

lemma start_read_calls:
  assumes "start_read t check f d = (cs, d1)" "\<And>g. handlers [f g] = []"
  shows "passes d d1 \<and> handlers cs = []"
  using assms by (auto simp: start_read_def started_call_def split: prod.splits sum.splits option.splits dest!: get_passes)

lemma start_passes:
  assumes "start_goal_call s d = (cs, d1)"
  shows "passes d d1 \<and> (\<forall>p. count_list (handlers cs) p + marks_of p d \<le> marks_of p d1)"
proof (cases s)
  case (StartAchieved t i reason)
  obtain r d2 where r: "mark_update t i reason d = (r, d2)" by (cases "mark_update t i reason d")
  with mark_update_passes [of d t i reason] have p: "passes d d2" by simp
  from p have m: "marks_of p d \<le> marks_of p d2" for p by (auto simp: passes_def dest: moves_marks)
  show ?thesis
  proof (cases r)
    case (Inl e)
    with assms StartAchieved r p m show ?thesis by simp
  next
    case (Inr g)
    from marked_by_update [OF r [unfolded Inr]] have g: "tg_goal_id g = i" "marks_of (t, i) d2 = Suc (marks_of (t, i) d)" by simp_all
    from assms StartAchieved r Inr g have "cs = [HandleCall t i]" "d1 = d2" by simp_all
    with p m g(2) show ?thesis by (auto simp: handlers_Cons)
  qed
qed (use assms start_read_calls in \<open>fastforce simp: handlers_Cons passes_def intro: moves_marks\<close>)+

lemma finish_handled:
  "count_list (gd_handled (finish_goal_call c d)) p = count_list (gd_handled d) p + count_list (handlers [c]) p"
proof (cases c)
  case (HandleCall t i)
  then show ?thesis by (simp add: handle_achieved_def handlers_Cons)
qed (use status_update_passes in \<open>auto simp: pause_update_def resume_update_def passes_def handlers_Cons\<close>)

lemma goals_step_ok:
  assumes "goal_step w w'" "goal_inv (gw_db w)" "handled_ok w"
  shows "goal_inv (gw_db w') \<and> handled_ok w'"
  using assms(1)
proof cases
  case (act a)
  from run_goal_act_passes [of "gw_db w" a] have p: "goal_moves (gw_db w) (run_goal_act a (gw_db w))"
    "gd_handled (run_goal_act a (gw_db w)) = gd_handled (gw_db w)" by (auto simp: passes_def)
  have "count_list (gd_handled (gw_db w)) q + count_list (handlers (gw_calls w)) q \<le> marks_of q (run_goal_act a (gw_db w))" for q
    using assms(3) [unfolded handled_ok_def, rule_format, of q] moves_marks [OF p(1), of q] by simp
  with goal_inv_moves [OF p(1) assms(2)] show ?thesis by (simp add: act handled_ok_def p(2))
next
  case (start s cs d)
  from start_passes [OF start(2)] have p: "goal_moves (gw_db w) d" "gd_handled d = gd_handled (gw_db w)"
    "\<And>p. count_list (handlers cs) p + marks_of p (gw_db w) \<le> marks_of p d" by (auto simp: passes_def)
  have "count_list (gd_handled d) q + count_list (handlers (gw_calls w @ cs)) q \<le> marks_of q d" for q
    using assms(3) [unfolded handled_ok_def, rule_format, of q] p(3) [of q] by (simp add: p(2))
  with goal_inv_moves [OF p(1) assms(2)] show ?thesis by (simp add: start(1) handled_ok_def)
next
  case (finish xs c ys)
  have "count_list (gd_handled (finish_goal_call c (gw_db w))) q + count_list (handlers (xs @ ys)) q \<le> marks_of q (finish_goal_call c (gw_db w))" for q
    using assms(3) [unfolded handled_ok_def, rule_format, of q] moves_marks [OF finish_moves, of q "gw_db w" c]
      finish_handled [of c "gw_db w" q] by (simp add: finish(2) handlers_Cons [of c ys] handlers_Cons [of c "[]"])
  with goal_inv_moves [OF finish_moves assms(2)] show ?thesis by (simp add: finish(1) handled_ok_def)
next
  case (lost xs c ys)
  have "count_list (gd_handled (gw_db w)) q + count_list (handlers (xs @ ys)) q \<le> marks_of q (gw_db w)" for q
    using assms(3) [unfolded handled_ok_def, rule_format, of q] by (simp add: lost(2) handlers_Cons [of c ys])
  with assms(2) show ?thesis by (simp add: lost(1) handled_ok_def)
next
  case (world n ids fs)
  with assms(2,3) show ?thesis by (simp add: goal_inv_def handled_ok_def marks_of_def)
next
  case (task_added t)
  with assms(2,3) show ?thesis by (simp add: goal_inv_def handled_ok_def marks_of_def)
next
  case (task_deleted t)
  from goal_inv_moves [OF _ assms(2), of "drop_goal t (gw_db w)"] drop_goal_passes [of "gw_db w" t]
  have "goal_inv (drop_goal t (gw_db w))" by (simp add: passes_def)
  with task_deleted assms(3) show ?thesis by (auto simp: goal_inv_def handled_ok_def marks_of_def drop_goal_def)
qed

lemma goals_reachable_ok: "goals_reachable w \<Longrightarrow> goal_inv (gw_db w) \<and> handled_ok w"
proof -
  assume "goals_reachable w"
  then obtain ts where "goal_step\<^sup>*\<^sup>* (goals_start ts) w" by (auto simp: goals_reachable_def)
  then show ?thesis
  proof (induction rule: rtranclp_induct)
    case base
    show ?case by (simp add: goals_start_def goal_inv_def handled_ok_def marks_of_def stmts_of_def)
  qed (use goals_step_ok in blast)
qed

lemma marks_apart_mid:
  assumes "marks_apart b (pre @ s # mid @ s' # rest)" "is_mark s" "is_mark s'"
  shows "\<exists>a \<in> set mid. activates a"
proof -
  have split: "marks_apart b (xs @ ys) = (marks_apart b xs \<and> marks_apart (marked b xs) ys)" for b xs ys
    by (induction xs arbitrary: b) auto
  have stays: "marked True xs" if "\<forall>a \<in> set xs. \<not> activates a" for xs
    using that by (induction xs) auto
  from assms have "\<not> marked True mid" by (simp add: split)
  with stays show ?thesis by blast
qed

subsection \<open>The calls of the service are runs\<close>

text \<open>
  A call whose sections nothing separates is its start followed by what it started, so every
  operation of the service and of the two handlers is a run of the step relation.
\<close>

lemma pause_in_steps:
  "snd (pause_goal_with t reason ao d) = (case start_goal_call (StartPause t reason ao) d of (cs, d1) \<Rightarrow> fold finish_goal_call cs d1)"
  by (auto simp: pause_goal_with_def start_read_def started_call_def split: prod.split sum.split option.split)

lemma resume_in_steps:
  "snd (resume_goal t actor d) = (case start_goal_call (StartResume t actor) d of (cs, d1) \<Rightarrow> fold finish_goal_call cs d1)"
  by (auto simp: resume_goal_def start_read_def started_call_def split: prod.split sum.split option.split)

lemma resume_stopped_in_steps:
  "snd (resume_goal_stopped_by_user t actor d) =
   (case start_goal_call (StartResumeStopped t actor) d of (cs, d1) \<Rightarrow> fold finish_goal_call cs d1)"
  by (auto simp: resume_goal_stopped_by_user_def start_read_def started_call_def split: prod.split sum.split option.split)

lemma mark_in_steps:
  "snd (mark_achieved t i reason d) = (case start_goal_call (StartAchieved t i reason) d of (cs, d1) \<Rightarrow> fold finish_goal_call cs d1)"
  by (auto simp: mark_achieved_def split: prod.split sum.split)

definition call_run :: "goal_db \<Rightarrow> goal_db \<Rightarrow> bool" where
  "call_run d d' \<longleftrightarrow> (\<forall>cs. goal_step\<^sup>*\<^sup>* \<lparr>gw_db = d, gw_calls = cs\<rparr> \<lparr>gw_db = d', gw_calls = cs\<rparr>)"

lemma call_run_refl [simp]: "call_run d d"
  by (simp add: call_run_def)

lemma call_run_trans [trans]: "call_run d d1 \<Longrightarrow> call_run d1 d2 \<Longrightarrow> call_run d d2"
  unfolding call_run_def by (meson rtranclp_trans)

lemma call_run_act: "call_run d (run_goal_act a d)"
  unfolding call_run_def using goal_step.act [of "\<lparr>gw_db = d, gw_calls = cs\<rparr>" a for cs] by auto

lemma fold_finish_run:
  "goal_step\<^sup>*\<^sup>* \<lparr>gw_db = d, gw_calls = xs @ cs\<rparr> \<lparr>gw_db = fold finish_goal_call cs d, gw_calls = xs\<rparr>"
proof (induction cs arbitrary: d)
  case (Cons c cs)
  have "goal_step \<lparr>gw_db = d, gw_calls = xs @ c # cs\<rparr> \<lparr>gw_db = finish_goal_call c d, gw_calls = xs @ cs\<rparr>"
    using goal_step.finish [of "\<lparr>gw_db = d, gw_calls = xs @ c # cs\<rparr>" xs c cs] by simp
  with Cons.IH [of "finish_goal_call c d"] show ?case by (simp add: converse_rtranclp_into_rtranclp)
qed simp

lemma call_run_start:
  assumes "d' = (case start_goal_call s d of (cs, d1) \<Rightarrow> fold finish_goal_call cs d1)"
  shows "call_run d d'"
  unfolding call_run_def
proof
  fix xs
  obtain cs d1 where s: "start_goal_call s d = (cs, d1)" by fastforce
  have "goal_step \<lparr>gw_db = d, gw_calls = xs\<rparr> \<lparr>gw_db = d1, gw_calls = xs @ cs\<rparr>"
    using goal_step.start [of s "\<lparr>gw_db = d, gw_calls = xs\<rparr>" cs d1] s by simp
  with fold_finish_run [of d1 xs cs] assms s
  show "goal_step\<^sup>*\<^sup>* \<lparr>gw_db = d, gw_calls = xs\<rparr> \<lparr>gw_db = d', gw_calls = xs\<rparr>"
    by (simp add: converse_rtranclp_into_rtranclp)
qed

lemma calls_run:
  "call_run d (snd (set_goal t obj actor reason d))" "call_run d (snd (clear_goal t actor d))"
  "call_run d (snd (pause_goal t actor d))" "call_run d (snd (pause_active_goal_stopped_by_user t d))"
  "call_run d (snd (resume_goal t actor d))" "call_run d (snd (resume_goal_stopped_by_user t actor d))"
  "call_run d (snd (mark_achieved t i reason d))"
  using call_run_act [of d "SetGoal t obj actor reason"] call_run_act [of d "ClearGoal t actor"]
  by (simp_all add: pause_goal_def pause_active_goal_stopped_by_user_def call_run_start [OF pause_in_steps]
      call_run_start [OF resume_in_steps] call_run_start [OF resume_stopped_in_steps] call_run_start [OF mark_in_steps])

lemma get_run: "get_by_task_id t d = (r, d1) \<Longrightarrow> call_run d d1"
  using call_run_act [of d "EvaluateGoal t"] by (auto simp: get_evaluable_goal_def split: sum.splits)

lemma load_run: "load_task_goal t d = (r, d1) \<Longrightarrow> call_run d d1"
  by (auto simp: load_task_goal_def split: if_splits prod.splits sum.splits dest: get_run)

lemma set_task_goal_run: "call_run d (snd (set_task_goal t txt d))"
  by (auto simp: set_task_goal_def split: prod.split sum.split option.split dest!: get_run intro: call_run_trans calls_run)

lemma sync_goal_status_run: "call_run d (snd (sync_goal_status active t d))"
  by (auto simp: sync_goal_status_def split: prod.split option.split dest!: load_run intro: call_run_trans calls_run)

lemma set_goal_run: "set_goal t obj actor reason d = (r, d1) \<Longrightarrow> call_run d d1"
  using calls_run(1) [of d t obj actor reason] by simp

lemma edit_form_run: "call_run d (snd (update_goal_from_edit_form t goal field d))"
proof -
  obtain go d1 where l: "load_task_goal t d = (go, d1)" by fastforce
  from load_run [OF l] have "call_run d d1" .
  moreover have "call_run d1 (snd (sync_goal_status a t d1))" for a by (rule sync_goal_status_run)
  moreover have "call_run d1 (snd (sync_goal_status a t d2))" if "set_goal t obj ''user'' '''' d1 = (r, d2)" for obj d2 a r
    by (rule call_run_trans [OF set_goal_run [OF that] sync_goal_status_run])
  moreover have "call_run d1 (snd (clear_goal t ''user'' d1))" by (rule calls_run)
  ultimately show ?thesis
    by (auto simp: update_goal_from_edit_form_def l Let_def split: prod.split sum.split option.split
        dest: set_goal_run intro: call_run_trans)
qed

subsection \<open>The properties\<close>

text \<open>
  C13: Every status of a goal is accounted for. Since the goal was set, every statement that met its
  row named this goal or none, and the last of them put the status there: it is achieved or cleared
  by the statement that says so, paused by a pause, blocked exactly by three reports of one named
  blocker in a row, and while it is active there were fewer. So an answer for an earlier goal never
  changes a later one.
\<close>

theorem goal_accounted_for:
  assumes "goals_reachable w" "g \<in> set (gd_goals (gw_db w))"
  shows "\<exists>pre r post. stmts_of (tg_task_id g) (gd_log (gw_db w)) =
           pre @ SetGoalRow (tg_task_id g) (tg_goal_id g) (tg_objective g) GoalActive r # post \<and>
         (\<forall>s \<in> set post. stmt_about (tg_goal_id g) s) \<and> status_shown post g"
  using goal_inv_row [OF conjunct1 [OF goals_reachable_ok [OF assms(1)]] assms(2)] unfolding goal_accounted_def by blast

text \<open>
  C14: The handler that merges the work of an achieved goal runs at most once for each time the goal
  was marked achieved, and between two such marks on a task some call had made a goal of it active
  again.
\<close>

theorem goal_handled_once:
  assumes "goals_reachable w"
  shows "count_list (gd_handled (gw_db w)) (t, i) \<le> length (filter (is_mark_of (t, i)) (gd_log (gw_db w))) \<and>
    (\<forall>pre i j p q mid rest. stmts_of t (gd_log (gw_db w)) = pre @ MarkGoal t i p # mid @ MarkGoal t j q # rest \<longrightarrow>
       (\<exists>a \<in> set mid. activates a))"
proof -
  from goals_reachable_ok [OF assms] have i: "goal_inv (gw_db w)" and h: "handled_ok w" by auto
  from h [unfolded handled_ok_def, rule_format, of "(t, i)"] have "count_list (gd_handled (gw_db w)) (t, i) \<le> marks_of (t, i) (gw_db w)"
    by simp
  moreover from i have m: "marks_apart False (stmts_of t (gd_log (gw_db w)))" by (simp add: goal_inv_def)
  ultimately show ?thesis using marks_apart_mid [where b = False] by (auto simp: marks_of_def)
qed

subsection \<open>Runs that show the properties can be met\<close>

lemma goals_reachable_act: "goals_reachable w \<Longrightarrow> goals_reachable (w\<lparr>gw_db := fold run_goal_act as (gw_db w)\<rparr>)"
proof (induction "as" arbitrary: w)
  case (Cons a as)
  from Cons.prems goal_step.act [of w a] have "goals_reachable (w\<lparr>gw_db := run_goal_act a (gw_db w)\<rparr>)"
    by (auto simp: goals_reachable_def intro: rtranclp.rtrancl_into_rtrancl)
  from Cons.IH [OF this] show ?case by simp
qed simp

definition goals_with_ids :: "string list \<Rightarrow> goal_world" where
  "goals_with_ids ids = (goals_start {''t''})\<lparr>gw_db := (gw_db (goals_start {''t''}))\<lparr>gd_now := 5, gd_ids := ids, gd_faults := []\<rparr>\<rparr>"

lemma goals_with_ids_reachable: "goals_reachable (goals_with_ids ids)"
  using goal_step.world [where w = "goals_start {''t''}" and n = 5 and ids = ids and fs = "[]"] unfolding goals_reachable_def goals_with_ids_def by blast

definition blocked_run :: goal_world where
  "blocked_run = (goals_with_ids [''g1'', ''g2''])\<lparr>gw_db := fold run_goal_act
     [SetGoal ''t'' ''build'' ''user'' '''', RecordBlockedReport ''t'' ''g1'' ''key'' ''no access'',
      SetGoal ''t'' ''build all'' ''user'' '''', RecordBlockedReport ''t'' ''g1'' ''key'' ''no access'',
      RecordBlockedReport ''t'' ''g2'' ''key'' ''no access'', RecordBlockedReport ''t'' ''g2'' ''key'' ''no access'',
      RecordBlockedReport ''t'' ''g2'' ''key'' ''no access''] (gw_db (goals_with_ids [''g1'', ''g2'']))\<rparr>"

lemma blocked_run_reachable: "goals_reachable blocked_run"
  unfolding blocked_run_def by (rule goals_reachable_act [OF goals_with_ids_reachable])

lemma blocked_run_row: "map tg_status (gd_goals (gw_db blocked_run)) = [GoalBlocked]" "length (gd_log (gw_db blocked_run)) = 6"
  by code_simp+

lemma goal_accounted_for_witness:
  "tg_status (hd (gd_goals (gw_db blocked_run))) = GoalBlocked \<and>
   (\<exists>pre r post. stmts_of (tg_task_id (hd (gd_goals (gw_db blocked_run)))) (gd_log (gw_db blocked_run)) =
      pre @ SetGoalRow (tg_task_id (hd (gd_goals (gw_db blocked_run)))) (tg_goal_id (hd (gd_goals (gw_db blocked_run))))
        (tg_objective (hd (gd_goals (gw_db blocked_run)))) GoalActive r # post \<and>
      (\<forall>s \<in> set post. stmt_about (tg_goal_id (hd (gd_goals (gw_db blocked_run)))) s) \<and> status_shown post (hd (gd_goals (gw_db blocked_run))))"
proof -
  from blocked_run_row(1) have "hd (gd_goals (gw_db blocked_run)) \<in> set (gd_goals (gw_db blocked_run))"
    and "tg_status (hd (gd_goals (gw_db blocked_run))) = GoalBlocked" by auto
  with goal_accounted_for [OF blocked_run_reachable, of "hd (gd_goals (gw_db blocked_run))"] show ?thesis by blast
qed

definition achieved_run :: goal_world where
  "achieved_run = (let w = (goals_with_ids [''g1''])\<lparr>gw_db := fold run_goal_act [SetGoal ''t'' ''build'' ''user'' '''']
       (gw_db (goals_with_ids [''g1'']))\<rparr>
     in case start_goal_call (StartAchieved ''t'' ''g1'' ''tests pass'') (gw_db w) of
          (cs, d) \<Rightarrow> w\<lparr>gw_db := d, gw_calls := gw_calls w @ cs\<rparr>)"

lemma achieved_run_reachable: "goals_reachable achieved_run"
proof -
  obtain cs d where s: "start_goal_call (StartAchieved ''t'' ''g1'' ''tests pass'')
    (gw_db ((goals_with_ids [''g1''])\<lparr>gw_db := fold run_goal_act [SetGoal ''t'' ''build'' ''user'' '''']
       (gw_db (goals_with_ids [''g1'']))\<rparr>)) = (cs, d)" by fastforce
  from goals_reachable_act [OF goals_with_ids_reachable, of "[SetGoal ''t'' ''build'' ''user'' '''']" "[''g1'']"] goal_step.start [OF s]
  show ?thesis unfolding achieved_run_def Let_def s prod.case goals_reachable_def by (blast intro: rtranclp.rtrancl_into_rtrancl)
qed

definition handled_run :: goal_world where
  "handled_run = achieved_run\<lparr>gw_db := finish_goal_call (HandleCall ''t'' ''g1'') (gw_db achieved_run), gw_calls := [] @ []\<rparr>"

lemma handled_run_reachable: "goals_reachable handled_run"
proof -
  have "gw_calls achieved_run = [] @ HandleCall ''t'' ''g1'' # []" by code_simp
  from goal_step.finish [OF this] achieved_run_reachable show ?thesis
    unfolding handled_run_def goals_reachable_def by (blast intro: rtranclp.rtrancl_into_rtrancl)
qed

lemma goal_handled_once_witness:
  "gd_handled (gw_db handled_run) = [(''t'', ''g1'')] \<and>
   count_list (gd_handled (gw_db handled_run)) (''t'', ''g1'') \<le> length (filter (is_mark_of (''t'', ''g1'')) (gd_log (gw_db handled_run)))"
proof -
  have "gd_handled (gw_db handled_run) = [(''t'', ''g1'')]" by code_simp
  with goal_handled_once [OF handled_run_reachable, of "''t''" "''g1''"] show ?thesis by blast
qed

text \<open>
  An automation saved with the text of a cleared goal leaves the goal cleared, while the same text
  saved by a user sets it again.
\<close>

definition cleared_db :: goal_db where
  "cleared_db = fold run_goal_act [SetGoal ''t'' ''build'' ''user'' '''', ClearGoal ''t'' ''user''] (gw_db (goals_with_ids [''g1'', ''g2'']))"

lemma saved_goal_stays_cleared:
  "map tg_status (gd_goals (run_goal_act (SaveTaskGoal ''t'' ''build'' ''set by Automation configuration'') cleared_db)) = [GoalCleared]"
  "map tg_status (gd_goals (snd (set_task_goal ''t'' ''build'' cleared_db))) = [GoalActive]"
  by code_simp+

end
