(* ===== verification/Dispatch.thy ===== *)
theory Dispatch
  imports Calendar "HOL-Library.List_Lexorder" "HOL-Library.Char_ord"
begin

section \<open>Automation runs: invocations, dispatches, reservations\<close>

text \<open>
  \<open>internal/persistence/sqlite/automation_runtime_repo.go\<close> from the claim of an occurrence to the
  completion of its dispatch, with the claim of a dispatch in \<open>task_automation_repo.go\<close> and the
  change of an automation's lifecycle in \<open>automation_lifecycle_repo.go\<close>. The tables are those of
  migrations 113 and 114 with their constraints, over the calendar and the task tables, which see
  the reservations and the live dispatches through \<open>run_tables\<close>. Left out are the projections the
  pages read (live states, work items, activity resources), the tool calls of an execution and the
  notifications of the live view.

  The key of an occurrence names its schedule and its instant, and the key of a manual run a random
  id; \<open>run_key\<close> keeps the parts of the text apart.
\<close>

datatype dispatch_status = DispatchPending | DispatchProcessing | DispatchSubmitted | DispatchCompleted | DispatchFailed

datatype invocation_status = InvocationClaimed | InvocationDispatched | InvocationRunning | InvocationCompleted
  | InvocationFailed | InvocationCancelled | InvocationSkipped

datatype activity_status = ActivityPending | ActivityRunning | ActivityWaiting | ActivityCompleted | ActivityFailed | ActivityCancelled

datatype run_key = OccurrenceKey string instant | ManualKey string

datatype run_trigger = TriggerSchedule | TriggerManual

datatype owner_state = OwnerActive | OwnerPaused | OwnerArchived

record dispatch_row =
  di_id :: string
  di_invocation :: string
  di_task :: string
  di_exec :: "string option"
  di_status :: dispatch_status
  di_attempts :: int
  di_claimed_by :: string
  di_claim_expires :: "instant option"
  di_next_attempt :: instant
  di_last_error :: string
  di_created_at :: instant
  di_updated_at :: instant

record invocation_row =
  iv_id :: string
  iv_project :: string
  iv_automation :: string
  iv_version :: string
  iv_node :: string
  iv_trigger :: run_trigger
  iv_resource :: string
  iv_key :: run_key
  iv_scheduled_for :: "instant option"
  iv_status :: invocation_status
  iv_skipped_reason :: string
  iv_started_at :: "instant option"
  iv_completed_at :: "instant option"
  iv_error :: string

text \<open>A reservation is claimed by an owner until an instant, or by nobody yet.\<close>

record reservation_row =
  rv_task :: string
  rv_dispatch :: string
  rv_project :: string
  rv_lease :: "(string \<times> instant) option"

record activity_row =
  ac_automation :: string
  ac_version :: string
  ac_node :: string
  ac_invocation :: string
  ac_key :: string
  ac_status :: activity_status
  ac_error :: string
  ac_completed_at :: "instant option"

record automation_row =
  au_project :: string
  au_id :: string
  au_state :: automation_state
  au_published :: "string option"

record version_row =
  vr_id :: string
  vr_automation :: string
  vr_project :: string
  vr_adapter :: string

record trigger_owner =
  ow_schedule :: string
  ow_project :: string
  ow_automation :: string
  ow_version :: string
  ow_node :: string
  ow_state :: owner_state

record definition_resource =
  dr_project :: string
  dr_automation :: string
  dr_version :: string
  dr_node :: string
  dr_type :: string
  dr_resource :: string

record runtime =
  rt_cal :: calendar
  rt_dispatches :: "dispatch_row list"
  rt_invocations :: "invocation_row list"
  rt_reservations :: "reservation_row list"
  rt_activities :: "activity_row list"
  rt_automations :: "automation_row list"
  rt_versions :: "version_row list"
  rt_owners :: "trigger_owner list"
  rt_resources :: "definition_resource list"

datatype run_error = RunStore store_error | ErrDispatchLease | ErrTaskBusy | ErrScheduleChanged | ErrAutomationNotActive
  | ErrNoScheduleEntries | AutomationNotFound | ClaimantRequired | TaskRequired | ExecutionTaskMismatch
  | NotTerminalStatus exec_status | RowMissing | BeforeSave | ArchivedForGood | UnsupportedLifecycle

subsection \<open>Tables and transactions\<close>

definition is_live :: "dispatch_row \<Rightarrow> bool" where
  "is_live d \<longleftrightarrow> di_status d \<in> {DispatchPending, DispatchProcessing, DispatchSubmitted}"

definition reservation_of :: "string \<Rightarrow> runtime \<Rightarrow> reservation_row option" where
  "reservation_of t r = find (\<lambda>v. rv_task v = t) (rt_reservations r)"

definition run_tables :: "runtime \<Rightarrow> task_db" where
  "run_tables r = (tables (rt_cal r))\<lparr>
     db_reservations := (\<lambda>t. map_option rv_dispatch (reservation_of t r)),
     db_live_dispatches := di_id ` set (filter (\<lambda>d. di_status d = DispatchProcessing \<or> di_status d = DispatchSubmitted) (rt_dispatches r)),
     db_automations := (\<lambda>p (a, v). map_option au_state
       (find (\<lambda>u. au_project u = p \<and> au_id u = a \<and> au_published u = Some v) (rt_automations r)))\<rparr>"

definition put_tables :: "task_db \<Rightarrow> runtime \<Rightarrow> runtime" where
  "put_tables d r = r\<lparr>rt_cal := (rt_cal r)\<lparr>cl_db := d\<rparr>\<rparr>"

definition run_now :: "runtime \<Rightarrow> instant" where
  "run_now r = db_now (cl_db (rt_cal r))"

definition run_fault :: "runtime \<Rightarrow> bool \<times> runtime" where
  "run_fault r = (case next_fault (cl_db (rt_cal r)) of (f, d) \<Rightarrow> (f, put_tables d r))"

definition run_txn :: "(runtime \<Rightarrow> (run_error + 'a) \<times> runtime) \<Rightarrow> runtime \<Rightarrow> (run_error + 'a) \<times> runtime" where
  "run_txn body r =
     (case run_fault r of
        (True, r1) \<Rightarrow> (Inl (RunStore DbFailure), r1)
      | (False, r1) \<Rightarrow> (case body r1 of (Inl e, _) \<Rightarrow> (Inl e, r1) | (Inr x, r2) \<Rightarrow> (Inr x, r2)))"

definition on_tasks :: "(task_db \<Rightarrow> (store_error + 'a) \<times> task_db) \<Rightarrow> runtime \<Rightarrow> (run_error + 'a) \<times> runtime" where
  "on_tasks f r =
     (case f (run_tables r) of
        (Inl e, d) \<Rightarrow> (Inl (RunStore e), put_tables d r)
      | (Inr x, d) \<Rightarrow> (Inr x, put_tables d r))"

definition update_tasks :: "(task_db \<Rightarrow> task_db) \<Rightarrow> runtime \<Rightarrow> runtime" where
  "update_tasks f r = put_tables (f (run_tables r)) r"

definition new_run_id :: "runtime \<Rightarrow> (run_error + string) \<times> runtime" where
  "new_run_id r =
     (case db_ids (cl_db (rt_cal r)) of
        [] \<Rightarrow> (Inl (RunStore DbFailure), r)
      | i # ids \<Rightarrow> (Inr i, put_tables ((cl_db (rt_cal r))\<lparr>db_ids := ids\<rparr>) r))"

definition get_dispatch :: "string \<Rightarrow> runtime \<Rightarrow> dispatch_row option" where
  "get_dispatch i r = find (\<lambda>d. di_id d = i) (rt_dispatches r)"

definition get_invocation :: "string \<Rightarrow> runtime \<Rightarrow> invocation_row option" where
  "get_invocation i r = find (\<lambda>v. iv_id v = i) (rt_invocations r)"

definition set_dispatches :: "(dispatch_row \<Rightarrow> bool) \<Rightarrow> (dispatch_row \<Rightarrow> dispatch_row) \<Rightarrow> runtime \<Rightarrow> runtime" where
  "set_dispatches P f r = r\<lparr>rt_dispatches := map (\<lambda>d. if P d then (f d)\<lparr>di_updated_at := run_now r\<rparr> else d) (rt_dispatches r)\<rparr>"

definition set_invocations :: "(invocation_row \<Rightarrow> bool) \<Rightarrow> (invocation_row \<Rightarrow> invocation_row) \<Rightarrow> runtime \<Rightarrow> runtime" where
  "set_invocations P f r = r\<lparr>rt_invocations := map (\<lambda>v. if P v then f v else v) (rt_invocations r)\<rparr>"

definition set_reservations :: "(reservation_row \<Rightarrow> bool) \<Rightarrow> (reservation_row \<Rightarrow> reservation_row) \<Rightarrow> runtime \<Rightarrow> runtime" where
  "set_reservations P f r = r\<lparr>rt_reservations := map (\<lambda>v. if P v then f v else v) (rt_reservations r)\<rparr>"

definition drop_reservations :: "(reservation_row \<Rightarrow> bool) \<Rightarrow> runtime \<Rightarrow> runtime" where
  "drop_reservations P r = r\<lparr>rt_reservations := filter (\<lambda>v. \<not> P v) (rt_reservations r)\<rparr>"

definition set_activities :: "(activity_row \<Rightarrow> bool) \<Rightarrow> (activity_row \<Rightarrow> activity_row) \<Rightarrow> runtime \<Rightarrow> runtime" where
  "set_activities P f r = r\<lparr>rt_activities := map (\<lambda>a. if P a then f a else a) (rt_activities r)\<rparr>"

text \<open>A dispatch that gives its claim back.\<close>

definition unclaimed :: "dispatch_status \<Rightarrow> dispatch_row \<Rightarrow> dispatch_row" where
  "unclaimed st d = d\<lparr>di_status := st, di_claimed_by := '''', di_claim_expires := None\<rparr>"

definition execute_key :: "string \<Rightarrow> string" where
  "execute_key i = ''dispatch:'' @ i @ '':execute''"

definition coalesce :: "instant option \<Rightarrow> instant \<Rightarrow> instant option" where
  "coalesce t n = (case t of None \<Rightarrow> Some n | Some m \<Rightarrow> Some m)"

definition exec_of_dispatch :: "string \<Rightarrow> runtime \<Rightarrow> exec_row option" where
  "exec_of_dispatch i r = find (\<lambda>e. ex_dispatch e = Some i) (db_execs (cl_db (rt_cal r)))"

definition find_exec :: "string \<Rightarrow> runtime \<Rightarrow> exec_row option" where
  "find_exec i r = find (\<lambda>e. ex_id e = i) (db_execs (cl_db (rt_cal r)))"

definition find_task :: "string \<Rightarrow> runtime \<Rightarrow> task option" where
  "find_task i r = get_task i (cl_db (rt_cal r))"

subsection \<open>Admitting a run of a task\<close>

record run_input =
  ri_project :: string
  ri_automation :: string
  ri_version :: string
  ri_node :: string
  ri_trigger :: run_trigger
  ri_resource :: string
  ri_key :: run_key
  ri_scheduled_for :: "instant option"
  ri_adapter :: string
  ri_task :: string
  ri_status :: task_status
  ri_category :: task_category
  ri_validate_first :: bool
  ri_now :: instant

record run_admission =
  am_invocation :: invocation_row
  am_dispatch :: "dispatch_row option"
  am_category :: task_category
  am_skipped :: string

definition normalize_run_category :: "string \<Rightarrow> task_status \<Rightarrow> task_category \<Rightarrow> run_error + task_category" where
  "normalize_run_category adapter st c =
     (if adapter = ''custom''
      then (if c \<noteq> CategoryScheduled
            then (if st = StatusFailed \<and> c = CategoryCompleted then Inr CategoryScheduled else Inl ErrScheduleChanged)
            else Inr c)
      else if c \<noteq> CategoryActive \<and> c \<noteq> CategoryScheduled then Inr CategoryScheduled
      else Inr c)"

definition insert_invocation :: "invocation_row \<Rightarrow> runtime \<Rightarrow> (run_error + invocation_row) \<times> runtime" where
  "insert_invocation v =
     (\<lambda>r. and_then (new_run_id r) (\<lambda>i r1.
        if (\<exists>u \<in> set (rt_invocations r1). iv_id u = i \<or>
              (iv_automation u = iv_automation v \<and> iv_trigger u = iv_trigger v \<and> iv_resource u = iv_resource v \<and> iv_key u = iv_key v))
        then (Inl (RunStore ConstraintFailure), r1)
        else (Inr (v\<lparr>iv_id := i\<rparr>), r1\<lparr>rt_invocations := rt_invocations r1 @ [v\<lparr>iv_id := i\<rparr>]\<rparr>)))"

definition insert_dispatch :: "string \<Rightarrow> string \<Rightarrow> runtime \<Rightarrow> (run_error + dispatch_row) \<times> runtime" where
  "insert_dispatch v t =
     (\<lambda>r. and_then (new_run_id r) (\<lambda>i r1.
        if (\<exists>u \<in> set (rt_dispatches r1). di_id u = i \<or> di_invocation u = v) then (Inl (RunStore ConstraintFailure), r1)
        else let d = \<lparr>di_id = i, di_invocation = v, di_task = t, di_exec = None, di_status = DispatchPending, di_attempts = 0,
                      di_claimed_by = '''', di_claim_expires = None, di_next_attempt = run_now r1, di_last_error = '''',
                      di_created_at = run_now r1, di_updated_at = run_now r1\<rparr>
             in (Inr d, r1\<lparr>rt_dispatches := rt_dispatches r1 @ [d]\<rparr>)))"

definition insert_reservation :: "string \<Rightarrow> string \<Rightarrow> string \<Rightarrow> runtime \<Rightarrow> (run_error + unit) \<times> runtime" where
  "insert_reservation t d p r =
     (if (\<exists>v \<in> set (rt_reservations r). rv_task v = t \<or> rv_dispatch v = d) then (Inl (RunStore ConstraintFailure), r)
      else (Inr (), r\<lparr>rt_reservations := rt_reservations r @ [\<lparr>rv_task = t, rv_dispatch = d, rv_project = p, rv_lease = None\<rparr>]\<rparr>))"

definition prepare_run_task :: "string \<Rightarrow> string \<Rightarrow> task_category \<Rightarrow> task_db \<Rightarrow> (store_error + unit) \<times> task_db" where
  "prepare_run_task i p c d =
     (case get_task i d of
        None \<Rightarrow> (Inr (), d)
      | Some t \<Rightarrow>
          if tk_project_id t \<noteq> p then (Inr (), d)
          else if chat_only p c then (Inl ConstraintFailure, d)
          else (Inr (), update_task_row i (\<lambda>u. u\<lparr>tk_status := StatusPending, tk_category := c, tk_completed_at := None\<rparr>) d))"

definition skip_reason :: "run_input \<Rightarrow> runtime \<Rightarrow> string" where
  "skip_reason i r =
     (if ri_status i = StatusRunning \<or> ri_status i = StatusQueued then ''task_running''
      else if reservation_of (ri_task i) r \<noteq> None then ''task_reserved''
      else '''')"

definition invocation_for :: "run_input \<Rightarrow> string \<Rightarrow> invocation_row" where
  "invocation_for i skipped =
     \<lparr>iv_id = '''', iv_project = ri_project i, iv_automation = ri_automation i, iv_version = ri_version i, iv_node = ri_node i,
      iv_trigger = ri_trigger i, iv_resource = ri_resource i, iv_key = ri_key i, iv_scheduled_for = ri_scheduled_for i,
      iv_status = (if skipped = '''' then InvocationClaimed else InvocationSkipped), iv_skipped_reason = skipped,
      iv_started_at = (if skipped = '''' then None else Some (ri_now i)),
      iv_completed_at = (if skipped = '''' then None else Some (ri_now i)), iv_error = ''''\<rparr>"

definition claim_task_admission :: "run_input \<Rightarrow> runtime \<Rightarrow> (run_error + run_admission) \<times> runtime" where
  "claim_task_admission i r =
     (let norm = normalize_run_category (ri_adapter i) (ri_status i) (ri_category i);
          skipped = skip_reason i r
      in case (if ri_validate_first i \<or> skipped = '''' then norm else Inr (ri_category i)) of
           Inl e \<Rightarrow> (Inl e, r)
         | Inr c \<Rightarrow>
             and_then (insert_invocation (invocation_for i skipped) r) (\<lambda>v r1.
               if skipped \<noteq> '''' then (Inr \<lparr>am_invocation = v, am_dispatch = None, am_category = c, am_skipped = skipped\<rparr>, r1)
               else and_then (insert_dispatch (iv_id v) (ri_task i) r1) (\<lambda>d r2.
                 and_then (insert_reservation (ri_task i) (di_id d) (ri_project i) r2) (\<lambda>_ r3.
                   and_then (on_tasks (prepare_run_task (ri_task i) (ri_project i) c) r3) (\<lambda>_ r4.
                     (Inr \<lparr>am_invocation = v, am_dispatch = Some d, am_category = c, am_skipped = ''''\<rparr>, r4))))))"

subsection \<open>Claiming a run\<close>

definition has_resource :: "trigger_owner \<Rightarrow> string \<Rightarrow> string \<Rightarrow> definition_resource \<Rightarrow> bool" where
  "has_resource w ty i x \<longleftrightarrow> dr_project x = ow_project w \<and> dr_automation x = ow_automation w \<and> dr_version x = ow_version w \<and>
     dr_node x = ow_node w \<and> dr_type x = ty \<and> dr_resource x = i"

text \<open>The entries of a manual run: the join of its query, in the order of the schedules.\<close>

definition manual_entries :: "string \<Rightarrow> string \<Rightarrow> string \<Rightarrow> runtime \<Rightarrow> (trigger_owner \<times> task) list" where
  "manual_entries p a v r =
     sort_key (\<lambda>(w, t). ow_schedule w)
       [(w, t). w \<leftarrow> filter (\<lambda>w. ow_project w = p \<and> ow_automation w = a \<and> ow_version w = v \<and> ow_state w = OwnerActive) (rt_owners r),
                s \<leftarrow> filter (\<lambda>s. sc_id s = ow_schedule w \<and> sc_enabled s) (cl_schedules (rt_cal r)),
                t \<leftarrow> filter (\<lambda>t. tk_id t = sc_task_id s \<and> tk_project_id t = p) (db_tasks (cl_db (rt_cal r))),
                x \<leftarrow> filter (has_resource w ''schedule'' (sc_id s)) (rt_resources r),
                y \<leftarrow> filter (has_resource w ''task'' (sc_task_id s)) (rt_resources r)]"

definition manual_input :: "string \<Rightarrow> instant \<Rightarrow> string \<Rightarrow> trigger_owner \<times> task \<Rightarrow> run_input" where
  "manual_input adapter now n e =
     (case e of (w, t) \<Rightarrow>
       \<lparr>ri_project = ow_project w, ri_automation = ow_automation w, ri_version = ow_version w, ri_node = ow_node w,
        ri_trigger = TriggerManual, ri_resource = ow_schedule w, ri_key = ManualKey n, ri_scheduled_for = None, ri_adapter = adapter,
        ri_task = tk_id t, ri_status = tk_status t, ri_category = tk_category t, ri_validate_first = False, ri_now = now\<rparr>)"

fun admit_entries :: "string \<Rightarrow> instant \<Rightarrow> (trigger_owner \<times> task) list \<Rightarrow> runtime \<Rightarrow> (run_error + run_admission list) \<times> runtime" where
  "admit_entries adapter now [] r = (Inr [], r)"
| "admit_entries adapter now (e # es) r =
     and_then (new_run_id r) (\<lambda>n r1.
       and_then (claim_task_admission (manual_input adapter now n e) r1) (\<lambda>a r2.
         and_then (admit_entries adapter now es r2) (\<lambda>as r3. (Inr (a # as), r3))))"

definition board_updates :: "(run_admission \<times> task) list \<Rightarrow> task_event list" where
  "board_updates as =
     map (\<lambda>(a, t). board_event (t\<lparr>tk_status := StatusPending, tk_category := am_category a\<rparr>))
       (filter (\<lambda>(a, t). am_dispatch a \<noteq> None) as)"

definition publish_run :: "task_event list \<Rightarrow> runtime \<Rightarrow> runtime" where
  "publish_run es r = put_tables (publish es (cl_db (rt_cal r))) r"

definition published_version :: "string \<Rightarrow> string \<Rightarrow> runtime \<Rightarrow> (automation_row \<times> version_row) option" where
  "published_version p a r =
     (case find (\<lambda>u. au_project u = p \<and> au_id u = a) (rt_automations r) of
        None \<Rightarrow> None
      | Some u \<Rightarrow>
          (case find (\<lambda>v. au_published u = Some (vr_id v) \<and> vr_automation v = a \<and> vr_project v = p) (rt_versions r) of
             None \<Rightarrow> None
           | Some v \<Rightarrow> Some (u, v)))"

definition manual_body :: "string \<Rightarrow> string \<Rightarrow> instant \<Rightarrow> runtime \<Rightarrow> (run_error + (run_admission \<times> task) list) \<times> runtime" where
  "manual_body p a now r =
     (case published_version p a r of
        None \<Rightarrow> (Inl AutomationNotFound, r)
      | Some (u, v) \<Rightarrow>
          if au_state u \<noteq> AutomationActive then (Inl ErrAutomationNotActive, r)
          else let es = manual_entries p a (vr_id v) r
               in if es = [] then (Inl ErrNoScheduleEntries, r)
                  else and_then (admit_entries (vr_adapter v) now es r) (\<lambda>as r1. (Inr (zip as (map snd es)), r1)))"

definition claim_manual_run :: "string \<Rightarrow> string \<Rightarrow> instant \<Rightarrow> runtime \<Rightarrow> (run_error + run_admission list) \<times> runtime" where
  "claim_manual_run p a now r =
     and_then (run_txn (manual_body p a now) r) (\<lambda>as r1. (Inr (map fst as), publish_run (board_updates as) r1))"

definition invocation_terminal :: "invocation_status \<Rightarrow> bool" where
  "invocation_terminal s \<longleftrightarrow> s \<in> {InvocationCompleted, InvocationFailed, InvocationCancelled, InvocationSkipped}"

definition load_occurrence :: "string \<Rightarrow> run_key \<Rightarrow> runtime \<Rightarrow> (invocation_row \<times> dispatch_row option) option" where
  "load_occurrence s k r =
     (case find (\<lambda>v. iv_trigger v = TriggerSchedule \<and> iv_resource v = s \<and> iv_key v = k) (rt_invocations r) of
        None \<Rightarrow> None
      | Some v \<Rightarrow> Some (v, find (\<lambda>d. di_invocation d = iv_id v) (rt_dispatches r)))"

definition write_schedules :: "(schedule \<Rightarrow> bool) \<Rightarrow> (schedule \<Rightarrow> schedule) \<Rightarrow> runtime \<Rightarrow> runtime" where
  "write_schedules P f r = r\<lparr>rt_cal := map_schedules P f (rt_cal r)\<rparr>"

text \<open>The owner of a schedule, active in an active automation, and the adapter of its version.\<close>

definition active_owner :: "string \<Rightarrow> runtime \<Rightarrow> (trigger_owner \<times> string) option" where
  "active_owner s r =
     (case find (\<lambda>w. ow_schedule w = s \<and> ow_state w = OwnerActive) (rt_owners r) of
        None \<Rightarrow> None
      | Some w \<Rightarrow>
          (case find (\<lambda>u. au_id u = ow_automation w \<and> au_project u = ow_project w \<and> au_state u = AutomationActive) (rt_automations r) of
             None \<Rightarrow> None
           | Some u \<Rightarrow>
               (case find (\<lambda>v. vr_id v = ow_version w \<and> vr_automation v = ow_automation w \<and> vr_project v = ow_project w) (rt_versions r) of
                  None \<Rightarrow> None
                | Some v \<Rightarrow> Some (w, vr_adapter v))))"

definition scheduled_input :: "trigger_owner \<Rightarrow> string \<Rightarrow> instant \<Rightarrow> instant \<Rightarrow> task \<Rightarrow> run_input" where
  "scheduled_input w adapter due now t =
     \<lparr>ri_project = ow_project w, ri_automation = ow_automation w, ri_version = ow_version w, ri_node = ow_node w,
      ri_trigger = TriggerSchedule, ri_resource = ow_schedule w, ri_key = OccurrenceKey (ow_schedule w) due,
      ri_scheduled_for = Some due, ri_adapter = adapter, ri_task = tk_id t, ri_status = tk_status t, ri_category = tk_category t,
      ri_validate_first = True, ri_now = now\<rparr>"

definition run_events :: "task \<Rightarrow> run_admission \<Rightarrow> task_event list" where
  "run_events t a =
     (if am_dispatch a = None then []
      else (if tk_status t \<noteq> StatusPending then [status_event t (tk_status t) StatusPending (am_category a)] else []) @
           (if tk_category t \<noteq> am_category a then [(category_event t (am_category a))\<lparr>ev_status := Some StatusPending\<rparr>] else []) @
           [board_event (t\<lparr>tk_status := StatusPending, tk_category := am_category a\<rparr>)])"

definition claim_scheduled_body ::
  "schedule \<Rightarrow> instant \<Rightarrow> instant \<Rightarrow> instant option \<Rightarrow> runtime \<Rightarrow>
   (run_error + (invocation_row \<times> dispatch_row option) \<times> task_event list) \<times> runtime" where
  "claim_scheduled_body s due now next_run r =
     (if fst (suppressed_schedule_occurrence (sc_id s) due (rt_cal r)) then (Inl ErrScheduleChanged, r)
      else case load_occurrence (sc_id s) (OccurrenceKey (sc_id s) due) r of
        Some (v, d) \<Rightarrow>
          (Inr ((v, d), []),
           if invocation_terminal (iv_status v)
           then write_schedules (\<lambda>q. sc_id q = sc_id s \<and> sc_enabled q \<and> sc_next_run q = Some due \<and> due \<le> now)
                  (\<lambda>q. q\<lparr>sc_next_run := next_run\<rparr>) r
           else r)
      | None \<Rightarrow>
          (case active_owner (sc_id s) r of
             None \<Rightarrow> (Inl ErrScheduleChanged, r)
           | Some (w, adapter) \<Rightarrow>
               (case get_schedule (sc_id s) (rt_cal r) of
                  None \<Rightarrow> (Inl RowMissing, r)
                | Some q \<Rightarrow>
                    (case find_task (sc_task_id q) r of
                       None \<Rightarrow> (Inl RowMissing, r)
                     | Some t \<Rightarrow>
                         if sc_next_run q = None then (Inl RowMissing, r)
                         else if \<not> sc_enabled q \<or> sc_next_run q \<noteq> Some due \<or> now < due \<or> tk_project_id t \<noteq> ow_project w
                         then (Inl ErrScheduleChanged, r)
                         else if adapter = ''custom'' \<and> length (filter (has_resource w ''task'' (tk_id t)) (rt_resources r)) \<noteq> 1
                         then (Inl ErrScheduleChanged, r)
                         else and_then (claim_task_admission (scheduled_input w adapter due now t) r) (\<lambda>a r1.
                           if (\<exists>u \<in> set (cl_schedules (rt_cal r1)). sc_id u = sc_id s \<and> sc_enabled u \<and> sc_next_run u = Some due)
                           then (Inr ((am_invocation a, am_dispatch a), run_events t a),
                                 write_schedules (\<lambda>u. sc_id u = sc_id s \<and> sc_enabled u \<and> sc_next_run u = Some due)
                                   (\<lambda>u. u\<lparr>sc_last_run := Some now, sc_next_run := next_run\<rparr>) r1)
                           else (Inl ErrScheduleChanged, r1))))))"

definition claim_scheduled_occurrence ::
  "schedule \<Rightarrow> instant \<Rightarrow> instant option \<Rightarrow> runtime \<Rightarrow> (run_error + invocation_row \<times> dispatch_row option) \<times> runtime" where
  "claim_scheduled_occurrence s now next_run r =
     (case sc_next_run s of
        None \<Rightarrow> (Inl ErrScheduleChanged, r)
      | Some due \<Rightarrow>
          and_then (run_txn (claim_scheduled_body s due now next_run) r)
            (\<lambda>(x, es) r1. (Inr x, publish_run es r1)))"

subsection \<open>Leases\<close>

definition lease_order :: "dispatch_row \<Rightarrow> (instant \<times> instant) \<times> string" where
  "lease_order d = ((di_next_attempt d, di_created_at d), di_id d)"

definition leasable :: "instant \<Rightarrow> dispatch_row \<Rightarrow> bool" where
  "leasable now d \<longleftrightarrow> di_next_attempt d \<le> now \<and>
     (di_status d = DispatchPending \<or>
      (di_status d = DispatchProcessing \<and> (case di_claim_expires d of None \<Rightarrow> False | Some e \<Rightarrow> e \<le> now)))"

definition lease_for :: "duration \<Rightarrow> duration" where
  "lease_for l = (if l \<le> 0 \<or> l > 10 * minute then minute else l)"

definition leased :: "string \<Rightarrow> instant \<Rightarrow> dispatch_row \<Rightarrow> dispatch_row" where
  "leased c e d = d\<lparr>di_status := DispatchProcessing, di_claimed_by := c, di_claim_expires := Some e, di_attempts := di_attempts d + 1\<rparr>"

definition lease_body :: "string \<Rightarrow> instant \<Rightarrow> instant \<Rightarrow> runtime \<Rightarrow> (run_error + dispatch_row option) \<times> runtime" where
  "lease_body c now expires r =
     (case sort_key lease_order (filter (leasable now) (rt_dispatches r)) of
        [] \<Rightarrow> (Inr None, r)
      | d # ds \<Rightarrow> (Inr (Some (leased c expires d)), set_dispatches (\<lambda>x. di_id x = di_id d) (leased c expires) r))"

definition lease_next_dispatch :: "string \<Rightarrow> instant \<Rightarrow> duration \<Rightarrow> runtime \<Rightarrow> (run_error + dispatch_row option) \<times> runtime" where
  "lease_next_dispatch claimant now lease r =
     (if trim_space claimant = '''' then (Inl ClaimantRequired, r)
      else run_txn (lease_body (trim_space claimant) now (now + lease_for lease)) r)"

definition held_by :: "string \<Rightarrow> string \<Rightarrow> dispatch_row \<Rightarrow> bool" where
  "held_by i c d \<longleftrightarrow> di_id d = i \<and> di_status d = DispatchProcessing \<and> di_claimed_by d = c"

definition renew_dispatch_lease :: "string \<Rightarrow> string \<Rightarrow> instant \<Rightarrow> runtime \<Rightarrow> (run_error + unit) \<times> runtime" where
  "renew_dispatch_lease i c expires =
     run_txn (\<lambda>r.
       if \<not> (\<exists>d \<in> set (rt_dispatches r). held_by i c d) then (Inl ErrDispatchLease, r)
       else let mine = (\<lambda>v. rv_dispatch v = i \<and> (case rv_lease v of None \<Rightarrow> False | Some (w, e) \<Rightarrow> w = c))
            in if \<not> (\<exists>v \<in> set (rt_reservations r). mine v) then (Inl ErrDispatchLease, r)
               else (Inr (), set_reservations mine (\<lambda>v. v\<lparr>rv_lease := Some (c, expires)\<rparr>)
                               (set_dispatches (held_by i c) (\<lambda>d. d\<lparr>di_claim_expires := Some expires\<rparr>) r)))"

text \<open>
  A caller names the execution its claim of the dispatch answered, so that the column of executions,
  which is unique, can hold it.
\<close>

definition mark_dispatch :: "string \<Rightarrow> string \<Rightarrow> string option \<Rightarrow> runtime \<Rightarrow> (run_error + unit) \<times> runtime" where
  "mark_dispatch i c e =
     run_txn (\<lambda>r.
       if \<not> (\<exists>d \<in> set (rt_dispatches r). held_by i c d) then (Inl ErrDispatchLease, r)
       else (Inr (), set_dispatches (held_by i c) (\<lambda>d. (unclaimed DispatchSubmitted d)\<lparr>di_exec := e\<rparr>) r))"

definition mark_dispatch_queued :: "string \<Rightarrow> string \<Rightarrow> runtime \<Rightarrow> (run_error + unit) \<times> runtime" where
  "mark_dispatch_queued i c = mark_dispatch i c None"

definition mark_dispatch_submitted :: "string \<Rightarrow> string \<Rightarrow> string \<Rightarrow> runtime \<Rightarrow> (run_error + unit) \<times> runtime" where
  "mark_dispatch_submitted i c e = mark_dispatch i c (Some e)"

subsection \<open>Claiming a dispatch\<close>

definition may_claim_dispatch :: "string \<Rightarrow> bool \<Rightarrow> instant \<Rightarrow> dispatch_row \<Rightarrow> bool" where
  "may_claim_dispatch c queued now d \<longleftrightarrow>
     (if queued then di_status d = DispatchSubmitted \<and> di_exec d = None
      else di_status d = DispatchProcessing \<and> di_claimed_by d = c \<and> (case di_claim_expires d of None \<Rightarrow> False | Some e \<Rightarrow> now < e))"

definition on_a_lane :: "task \<Rightarrow> bool" where
  "on_a_lane t \<longleftrightarrow> tk_category t = CategoryActive \<or> tk_category t = CategoryScheduled"

definition starts_new_context :: "invocation_row \<Rightarrow> runtime \<Rightarrow> bool" where
  "starts_new_context v r = (case get_schedule (iv_resource v) (rt_cal r) of None \<Rightarrow> False | Some s \<Rightarrow> sc_clear_context_on_start s)"

definition dispatch_execution :: "task \<Rightarrow> string \<Rightarrow> bool \<Rightarrow> exec_row" where
  "dispatch_execution t i fresh =
     \<lparr>ex_id = [], ex_task = tk_id t, ex_status = ExecRunning, ex_followup = False, ex_dispatch = Some i,
      ex_prompt = tk_prompt t, ex_agent = (case tk_agent_id t of Some a \<Rightarrow> if a = '''' then None else Some a | None \<Rightarrow> None),
      ex_new_context = fresh, ex_error = [], ex_history_order = 0, ex_started_at = zero_time, ex_completed_at = None\<rparr>"

text \<open>The execution of the dispatch: made now, for a task that waits on a lane, or the one there is.\<close>

definition start_dispatch_run :: "dispatch_row \<Rightarrow> invocation_row \<Rightarrow> runtime \<Rightarrow> (run_error + string) \<times> runtime" where
  "start_dispatch_run d v r =
     (case exec_of_dispatch (di_id d) r of
        None \<Rightarrow>
          (case find_task (di_task d) r of
             None \<Rightarrow> (Inl RowMissing, r)
           | Some t \<Rightarrow>
               if tk_project_id t \<noteq> iv_project v \<or> tk_status t \<noteq> StatusPending \<or> \<not> on_a_lane t then (Inl ErrTaskBusy, r)
               else and_then (on_tasks (\<lambda>b.
                      let b1 = update_task_row (tk_id t) (\<lambda>u. u\<lparr>tk_status := StatusRunning,
                                 tk_display_order := active_tail (tk_project_id t) b\<rparr>) b
                      in create_execution (dispatch_execution t (di_id d) (starts_new_context v r)) b1) r)
                    (\<lambda>e r1. (Inr (ex_id e), r1)))
      | Some e \<Rightarrow>
          if ex_task e \<noteq> di_task d then (Inl ExecutionTaskMismatch, r)
          else if ex_status e = ExecRunning
          then (case find_task (di_task d) r of
                  None \<Rightarrow> (Inl RowMissing, r)
                | Some t \<Rightarrow> if tk_status t \<noteq> StatusRunning \<or> \<not> on_a_lane t then (Inl ErrTaskBusy, r) else (Inr (ex_id e), r))
          else (Inr (ex_id e), r))"

definition node_of_run :: "dispatch_row \<Rightarrow> invocation_row \<Rightarrow> runtime \<Rightarrow> string" where
  "node_of_run d v r =
     (case find (\<lambda>x. dr_version x = iv_version v \<and> dr_type x = ''task'' \<and> dr_resource x = di_task d) (rt_resources r) of
        None \<Rightarrow> iv_node v
      | Some x \<Rightarrow> dr_node x)"

definition record_activity :: "dispatch_row \<Rightarrow> invocation_row \<Rightarrow> runtime \<Rightarrow> runtime" where
  "record_activity d v r =
     (let mine = (\<lambda>a. ac_automation a = iv_automation v \<and> ac_version a = iv_version v \<and> ac_key a = execute_key (di_id d))
      in if (\<exists>a \<in> set (rt_activities r). mine a) then set_activities mine (\<lambda>a. a\<lparr>ac_status := ActivityRunning\<rparr>) r
         else r\<lparr>rt_activities := rt_activities r @
                [\<lparr>ac_automation = iv_automation v, ac_version = iv_version v, ac_node = node_of_run d v r, ac_invocation = iv_id v,
                  ac_key = execute_key (di_id d), ac_status = ActivityRunning, ac_error = [], ac_completed_at = None\<rparr>]\<rparr>)"

definition claim_run_body ::
  "string \<Rightarrow> string \<Rightarrow> bool \<Rightarrow> instant \<Rightarrow> runtime \<Rightarrow> (run_error + string \<times> task option) \<times> runtime" where
  "claim_run_body i c queued now r =
     (case get_dispatch i r of
        None \<Rightarrow> (Inl ErrDispatchLease, r)
      | Some d \<Rightarrow>
          if \<not> may_claim_dispatch c queued now d then (Inl ErrDispatchLease, r)
          else case get_invocation (di_invocation d) r of
            None \<Rightarrow> (Inl ErrDispatchLease, r)
          | Some v \<Rightarrow>
              (case find (\<lambda>u. au_id u = iv_automation v \<and> au_project u = iv_project v) (rt_automations r) of
                 None \<Rightarrow> (Inl ErrDispatchLease, r)
               | Some u \<Rightarrow>
                   if \<not> (\<exists>w \<in> set (rt_reservations r). rv_dispatch w = i \<and> rv_task w = di_task d \<and> rv_project w = iv_project v)
                   then (Inl ErrDispatchLease, r)
                   else if queued \<and> au_state u \<noteq> AutomationActive then (Inl ErrTaskBusy, r)
                   else and_then (start_dispatch_run d v r) (\<lambda>e r1.
                     let lease = (if queued then (''worker-service'', now + 10 * minute)
                                  else (c, case di_claim_expires d of None \<Rightarrow> zero_time | Some x \<Rightarrow> x));
                         r2 = set_dispatches (\<lambda>x. di_id x = i \<and> may_claim_dispatch c queued now x) (\<lambda>x. x\<lparr>di_exec := Some e\<rparr>) r1;
                         r3 = set_reservations (\<lambda>w. rv_dispatch w = i) (\<lambda>w. w\<lparr>rv_lease := Some lease\<rparr>) r2;
                         r4 = set_invocations (\<lambda>x. iv_id x = iv_id v) (\<lambda>x. x\<lparr>iv_status := InvocationRunning,
                                iv_started_at := coalesce (iv_started_at x) (run_now r)\<rparr>) r3
                     in (Inr (e, find_task (di_task d) r4), record_activity d v r4))))"

text \<open>
  The execution is read again after the commit; a failure then is the call's answer. The task of an
  execution is there, by the foreign key between the two; when it cannot be read for the event, the
  event lacks its category.
\<close>

definition claimed_execution :: "string \<Rightarrow> runtime \<Rightarrow> (run_error + exec_row) \<times> runtime" where
  "claimed_execution e r =
     and_then (run_txn (\<lambda>r. (Inr (find_exec e r), r)) r) (\<lambda>x r1.
       case x of
         None \<Rightarrow> (Inl RowMissing, r1)
       | Some x \<Rightarrow>
           (case run_fault r1 of
              (f, r2) \<Rightarrow>
                (case find_task (ex_task x) r2 of
                   None \<Rightarrow> (Inr x, r2)
                 | Some t \<Rightarrow>
                     (Inr x, publish_run [(status_event t StatusPending StatusRunning (tk_category t))\<lparr>
                        ev_category := (if f then None else Some (tk_category t))\<rparr>] r2))))"

definition claim_automation_dispatch :: "string \<Rightarrow> string \<Rightarrow> instant \<Rightarrow> runtime \<Rightarrow> (run_error + exec_row) \<times> runtime" where
  "claim_automation_dispatch i c now r =
     and_then (run_txn (claim_run_body i c False now) r) (\<lambda>(e, t) r1. claimed_execution e r1)"

definition claim_queued_body :: "string \<Rightarrow> instant \<Rightarrow> runtime \<Rightarrow> (run_error + string \<times> task) \<times> runtime" where
  "claim_queued_body i now r =
     and_then (claim_run_body i '''' True now r) (\<lambda>(e, t) r1.
       case t of None \<Rightarrow> (Inl RowMissing, r1) | Some u \<Rightarrow> (Inr (e, u), r1))"

definition claim_queued_dispatch :: "string \<Rightarrow> instant \<Rightarrow> runtime \<Rightarrow> (run_error + exec_row \<times> task) \<times> runtime" where
  "claim_queued_dispatch i now r =
     and_then (run_txn (claim_queued_body i now) r)
       (\<lambda>(e, t) r1. and_then (claimed_execution e r1) (\<lambda>x r2.
          if tk_status t \<noteq> StatusRunning then (Inl RowMissing, r2) else (Inr (x, t), r2)))"

subsection \<open>The end of a dispatch\<close>

definition end_executions :: "(exec_row \<Rightarrow> bool) \<Rightarrow> exec_status \<Rightarrow> string \<Rightarrow> instant \<Rightarrow> runtime \<Rightarrow> runtime" where
  "end_executions P st msg now =
     update_tasks (set_execs (\<lambda>e. P e \<and> ex_status e = ExecRunning)
       (\<lambda>e. e\<lparr>ex_status := st, ex_error := msg, ex_completed_at := coalesce (ex_completed_at e) now\<rparr>))"

definition end_dispatch :: "string \<Rightarrow> dispatch_status \<Rightarrow> runtime \<Rightarrow> runtime" where
  "end_dispatch i st = set_dispatches (\<lambda>d. di_id d = i) (unclaimed st)"

definition note_error :: "string \<Rightarrow> string \<Rightarrow> runtime \<Rightarrow> runtime" where
  "note_error i msg = set_dispatches (\<lambda>d. di_id d = i) (\<lambda>d. d\<lparr>di_last_error := msg\<rparr>)"

definition release_dispatch :: "string \<Rightarrow> runtime \<Rightarrow> runtime" where
  "release_dispatch i = drop_reservations (\<lambda>v. rv_dispatch v = i)"

definition execute_activity :: "string \<Rightarrow> string \<Rightarrow> activity_row \<Rightarrow> bool" where
  "execute_activity inv_id i a \<longleftrightarrow> ac_invocation a = inv_id \<and> ac_key a = execute_key i"

text \<open>A pending queue entry that is given up before it has an execution.\<close>

definition abandon_queued_dispatch :: "string \<Rightarrow> string \<Rightarrow> runtime \<Rightarrow> (run_error + unit) \<times> runtime" where
  "abandon_queued_dispatch i message =
     run_txn (\<lambda>r.
       case find (\<lambda>d. di_id d = i \<and> di_status d = DispatchSubmitted \<and> di_exec d = None) (rt_dispatches r) of
         None \<Rightarrow> (Inr (), r)
       | Some d \<Rightarrow>
           (let msg = trim_space message;
                r1 = set_dispatches (\<lambda>x. di_id x = i) (\<lambda>x. x\<lparr>di_status := DispatchFailed, di_last_error := msg\<rparr>) r;
                r2 = set_invocations (\<lambda>v. iv_id v = di_invocation d) (\<lambda>v. v\<lparr>iv_status := InvocationCancelled, iv_error := msg,
                       iv_completed_at := coalesce (iv_completed_at v) (run_now r)\<rparr>) r1
            in (Inr (), release_dispatch i r2)))"

text \<open>\<open>CancelDispatchesForTaskReturningIDs\<close>, one dispatch after another.\<close>

definition exec_is_running :: "string \<Rightarrow> runtime \<Rightarrow> bool" where
  "exec_is_running e r = (case find_exec e r of None \<Rightarrow> False | Some x \<Rightarrow> ex_status x = ExecRunning)"

definition cancellable :: "string \<Rightarrow> runtime \<Rightarrow> dispatch_row \<Rightarrow> bool" where
  "cancellable t r d \<longleftrightarrow> di_task d = t \<and> get_invocation (di_invocation d) r \<noteq> None \<and>
     (case di_exec d of
        None \<Rightarrow> is_live d
      | Some e \<Rightarrow> (di_status d = DispatchProcessing \<or> di_status d = DispatchSubmitted) \<and> exec_is_running e r)"

definition backlog_if_lane :: "task_category \<Rightarrow> task_category" where
  "backlog_if_lane c = (if c = CategoryActive \<or> c = CategoryScheduled then CategoryBacklog else c)"

definition cancel_run_task :: "string \<Rightarrow> runtime \<Rightarrow> bool \<times> runtime" where
  "cancel_run_task t r =
     (case find_task t r of
        None \<Rightarrow> (False, r)
      | Some u \<Rightarrow>
          if tk_status u \<noteq> StatusRunning then (False, r)
          else (True, update_tasks (update_task_row t (\<lambda>u. u\<lparr>tk_status := StatusCancelled,
                        tk_category := backlog_if_lane (tk_category u)\<rparr>)) r))"

definition backlog_ended_task :: "string \<Rightarrow> runtime \<Rightarrow> bool \<times> runtime" where
  "backlog_ended_task t r =
     (case find_task t r of
        None \<Rightarrow> (False, r)
      | Some u \<Rightarrow>
          if (tk_status u = StatusCancelled \<or> tk_status u = StatusFailed) \<and> on_a_lane u
          then (True, update_tasks (update_task_row t (\<lambda>u. u\<lparr>tk_category := CategoryBacklog\<rparr>)) r)
          else (False, r))"

definition cancel_execution_of :: "string \<Rightarrow> string \<Rightarrow> dispatch_row \<Rightarrow> string \<Rightarrow> runtime \<Rightarrow> (string list \<times> bool) \<times> runtime" where
  "cancel_execution_of t msg d e r =
     (let r1 = end_executions (\<lambda>x. ex_id x = e) ExecCancelled msg (run_now r) r
      in case cancel_run_task t r1 of
           (changed, r2) \<Rightarrow>
             ((if exec_is_running e r then [e] else [], changed),
              set_activities (execute_activity (di_invocation d) (di_id d)) (\<lambda>a. a\<lparr>ac_status := ActivityCancelled, ac_error := msg,
                ac_completed_at := coalesce (ac_completed_at a) (run_now r)\<rparr>) r2))"

definition close_dispatch :: "string \<Rightarrow> dispatch_row \<Rightarrow> runtime \<Rightarrow> runtime" where
  "close_dispatch msg d r =
     release_dispatch (di_id d)
       (set_invocations (\<lambda>v. iv_id v = di_invocation d) (\<lambda>v. v\<lparr>iv_status := InvocationCancelled, iv_error := msg,
            iv_completed_at := coalesce (iv_completed_at v) (run_now r)\<rparr>)
         (end_dispatch (di_id d) DispatchFailed (note_error (di_id d) msg r)))"

definition cancel_events :: "task \<Rightarrow> bool \<Rightarrow> bool \<Rightarrow> task_event list" where
  "cancel_events u changed moved =
     (let c = (if moved then CategoryBacklog else tk_category u)
      in (if changed then [status_event u StatusRunning StatusCancelled c] else []) @
         (if moved then [(category_event u c)\<lparr>ev_status := Some StatusCancelled\<rparr>] else []))"

definition cancel_one :: "task \<Rightarrow> string \<Rightarrow> dispatch_row \<Rightarrow> runtime \<Rightarrow> (string list \<times> task_event list) \<times> runtime" where
  "cancel_one u msg d r =
     (case (case di_exec d of None \<Rightarrow> (([], False), r) | Some e \<Rightarrow> cancel_execution_of (tk_id u) msg d e r) of
        ((ids, changed), r1) \<Rightarrow>
          (case (if changed \<and> on_a_lane u then (True, r1)
                 else if on_a_lane u then backlog_ended_task (tk_id u) r1 else (False, r1)) of
             (moved, r2) \<Rightarrow> ((ids, cancel_events u changed moved), close_dispatch msg d r2)))"

fun cancel_each :: "task \<Rightarrow> string \<Rightarrow> dispatch_row list \<Rightarrow> runtime \<Rightarrow> (string list \<times> task_event list) \<times> runtime" where
  "cancel_each u msg [] r = (([], []), r)"
| "cancel_each u msg (d # ds) r =
     (case cancel_one u msg d r of
        ((ids, es), r1) \<Rightarrow> (case cancel_each u msg ds r1 of ((ids2, es2), r2) \<Rightarrow> ((ids @ ids2, es @ es2), r2)))"

definition cancel_body :: "string \<Rightarrow> string \<Rightarrow> runtime \<Rightarrow> (run_error + string list \<times> task_event list) \<times> runtime" where
  "cancel_body t msg r =
     (case find_task t r of
        None \<Rightarrow> (Inr ([], []), r)
      | Some u \<Rightarrow>
          (case cancel_each u msg (sort_key (\<lambda>d. (di_created_at d, di_id d)) (filter (cancellable t r) (rt_dispatches r))) r of
             (x, r1) \<Rightarrow> (Inr x, r1)))"

definition cancel_dispatches_for_task :: "string \<Rightarrow> string \<Rightarrow> runtime \<Rightarrow> (run_error + string list) \<times> runtime" where
  "cancel_dispatches_for_task t message r =
     (if trim_space t = '''' then (Inl TaskRequired, r)
      else and_then (run_txn (cancel_body t (trim_space message)) r) (\<lambda>(ids, es) r1. (Inr ids, publish_run es r1)))"

text \<open>A failed attempt is tried again after a delay, or ends the dispatch, its run and its task.\<close>

definition retry_delay :: "int \<Rightarrow> duration" where
  "retry_delay attempts = second * 2 ^ nat (min (attempts - 1) 6)"

definition fail_task ::
  "string \<Rightarrow> dispatch_row \<Rightarrow> task \<Rightarrow> bool \<Rightarrow> instant \<Rightarrow> runtime \<Rightarrow> (task_status \<times> task_category) option \<times> runtime" where
  "fail_task p d u cancelled now r =
     (if tk_status u \<noteq> StatusPending \<and> tk_status u \<noteq> StatusRunning then (None, r)
      else let st = (if cancelled then StatusCancelled else StatusFailed);
               completed = (\<not> cancelled \<and> tk_category u = CategoryScheduled);
               c = (if completed then CategoryCompleted else CategoryBacklog);
               held = (\<exists>v \<in> set (rt_reservations r). rv_dispatch v = di_id d \<and> rv_task v = tk_id u)
           in if \<not> held \<or> tk_project_id u \<noteq> p then (None, r)
              else (Some (st, c), update_tasks (update_task_row (tk_id u) (\<lambda>x. x\<lparr>tk_status := st, tk_category := c,
                      tk_completed_at := (if completed then Some now else None)\<rparr>)) r))"

definition fail_finally ::
  "dispatch_row \<Rightarrow> invocation_row \<Rightarrow> task \<Rightarrow> string \<Rightarrow> instant \<Rightarrow> runtime \<Rightarrow> task_event list \<times> runtime" where
  "fail_finally d v u msg now r =
     (let ex = (case di_exec d of None \<Rightarrow> None | Some e \<Rightarrow> find (\<lambda>x. ex_id x = e \<and> ex_task x = di_task d) (db_execs (cl_db (rt_cal r))));
          cancelled = (tk_status u = StatusCancelled \<or> (case ex of None \<Rightarrow> False | Some x \<Rightarrow> ex_status x = ExecCancelled));
          r1 = end_dispatch (di_id d) DispatchFailed (note_error (di_id d) msg r);
          r2 = (case di_exec d of
                  None \<Rightarrow> r1
                | Some e \<Rightarrow>
                    set_activities (\<lambda>a. execute_activity (iv_id v) (di_id d) a \<and>
                        ac_status a \<in> {ActivityPending, ActivityRunning, ActivityWaiting})
                      (\<lambda>a. a\<lparr>ac_status := (if cancelled then ActivityCancelled else ActivityFailed), ac_error := msg,
                         ac_completed_at := coalesce (ac_completed_at a) now\<rparr>)
                      (end_executions (\<lambda>x. ex_id x = e \<and> ex_task x = di_task d)
                        (if cancelled then ExecCancelled else ExecFailed) msg now r1));
          r3 = set_invocations (\<lambda>x. iv_id x = iv_id v) (\<lambda>x. x\<lparr>iv_status := (if cancelled then InvocationCancelled else InvocationFailed),
                 iv_error := msg, iv_completed_at := Some now\<rparr>) r2
      in case fail_task (iv_project v) d u cancelled now r3 of
           (out, r4) \<Rightarrow>
             (let u1 = (case out of None \<Rightarrow> u | Some (st, c) \<Rightarrow> u\<lparr>tk_status := st, tk_category := c\<rparr>)
              in (board_event u1 #
                  (case out of
                     None \<Rightarrow> []
                   | Some (st, c) \<Rightarrow> status_event u (tk_status u) st c #
                       (if c \<noteq> tk_category u then [(category_event u c)\<lparr>ev_status := Some st\<rparr>] else [])),
                  release_dispatch (di_id d) r4)))"

definition fail_body :: "string \<Rightarrow> string \<Rightarrow> string \<Rightarrow> int \<Rightarrow> instant \<Rightarrow> runtime \<Rightarrow> (run_error + task_event list) \<times> runtime" where
  "fail_body i c msg most now r =
     (case find (held_by i c) (rt_dispatches r) of
        None \<Rightarrow> (Inl ErrDispatchLease, r)
      | Some d \<Rightarrow>
          (case get_invocation (di_invocation d) r of
             None \<Rightarrow> (Inl ErrDispatchLease, r)
           | Some v \<Rightarrow>
               (case find_task (di_task d) r of
                  None \<Rightarrow> (Inl ErrDispatchLease, r)
                | Some u \<Rightarrow>
                    if tk_project_id u \<noteq> iv_project v then (Inl ErrDispatchLease, r)
                    else if di_attempts d \<ge> most
                    then (case fail_finally d v u msg now r of (es, r1) \<Rightarrow> (Inr es, r1))
                    else (Inr [], set_dispatches (\<lambda>x. di_id x = i) (\<lambda>x. (unclaimed DispatchPending x)\<lparr>di_last_error := msg,
                            di_next_attempt := now + retry_delay (di_attempts d)\<rparr>) r))))"

definition fail_dispatch :: "string \<Rightarrow> string \<Rightarrow> string \<Rightarrow> int \<Rightarrow> instant \<Rightarrow> runtime \<Rightarrow> (run_error + unit) \<times> runtime" where
  "fail_dispatch i c message max_attempts now r =
     and_then (run_txn (fail_body i c (trim_space message) (if max_attempts \<le> 0 then 5 else max_attempts) now) r)
       (\<lambda>es r1. (Inr (), publish_run es r1))"

text \<open>The completion of a dispatch, after its execution ended.\<close>

definition task_status_of_exec :: "exec_status \<Rightarrow> task_status option" where
  "task_status_of_exec st =
     (case st of ExecCompleted \<Rightarrow> Some StatusCompleted | ExecFailed \<Rightarrow> Some StatusFailed | ExecCancelled \<Rightarrow> Some StatusCancelled
      | _ \<Rightarrow> None)"

definition run_outcome :: "exec_status \<Rightarrow> dispatch_status \<times> invocation_status \<times> activity_status" where
  "run_outcome st =
     (case st of
        ExecFailed \<Rightarrow> (DispatchFailed, InvocationFailed, ActivityFailed)
      | ExecCancelled \<Rightarrow> (DispatchFailed, InvocationCancelled, ActivityCancelled)
      | _ \<Rightarrow> (DispatchCompleted, InvocationCompleted, ActivityCompleted))"

definition invocation_outcome :: "exec_status \<Rightarrow> string \<Rightarrow> runtime \<Rightarrow> invocation_status" where
  "invocation_outcome st inv_id r =
     (if st \<noteq> ExecCompleted then fst (snd (run_outcome st))
      else if (\<exists>a \<in> set (rt_activities r). ac_invocation a = inv_id \<and> ac_status a \<in> {ActivityPending, ActivityRunning, ActivityWaiting})
      then InvocationRunning
      else if (\<exists>a \<in> set (rt_activities r). ac_invocation a = inv_id \<and> ac_status a \<in> {ActivityFailed, ActivityCancelled})
      then InvocationFailed
      else InvocationCompleted)"

definition end_running_task :: "string \<Rightarrow> task_status \<Rightarrow> runtime \<Rightarrow> bool \<times> runtime" where
  "end_running_task t st r =
     (case find_task t r of
        None \<Rightarrow> (False, r)
      | Some u \<Rightarrow> if tk_status u \<noteq> StatusRunning then (False, r)
                  else (True, update_tasks (update_task_row t (\<lambda>x. x\<lparr>tk_status := st\<rparr>)) r))"

definition terminal_category :: "exec_status \<Rightarrow> task_category \<Rightarrow> task_category" where
  "terminal_category st c =
     (if c = CategoryScheduled \<and> st = ExecFailed then CategoryCompleted
      else if c = CategoryScheduled \<and> st = ExecCancelled then CategoryBacklog
      else c)"

definition move_ended_task :: "string \<Rightarrow> task_category \<Rightarrow> task_category \<Rightarrow> task_status \<Rightarrow> runtime \<Rightarrow> bool \<times> runtime" where
  "move_ended_task t old c st r =
     (if c = old then (False, r)
      else case find_task t r of
        None \<Rightarrow> (False, r)
      | Some u \<Rightarrow> if tk_category u \<noteq> old \<or> tk_status u \<noteq> st then (False, r)
                  else (True, update_tasks (update_task_row t (\<lambda>x. x\<lparr>tk_category := c,
                          tk_completed_at := (if c = CategoryCompleted then Some (run_now r) else None)\<rparr>)) r))"

definition completion_events :: "task \<Rightarrow> task_status \<Rightarrow> task_category \<Rightarrow> bool \<Rightarrow> bool \<Rightarrow> task_event list" where
  "completion_events u st c changed moved =
     (let k = (if moved then c else tk_category u)
      in (if changed then [status_event u StatusRunning st k] else []) @
         (if moved then [(category_event u k)\<lparr>ev_status := Some st\<rparr>] else []))"

definition complete_body ::
  "string \<Rightarrow> string \<Rightarrow> exec_status \<Rightarrow> task_status \<Rightarrow> string \<Rightarrow> runtime \<Rightarrow> (run_error + task_event list) \<times> runtime" where
  "complete_body i e st tst msg r =
     (case find (\<lambda>d. di_id d = i \<and> di_exec d = Some e) (rt_dispatches r) of
        None \<Rightarrow> (Inl RowMissing, r)
      | Some d \<Rightarrow>
          (case (get_invocation (di_invocation d) r, find_task (di_task d) r) of
             (Some v, Some u) \<Rightarrow>
               (let r1 = update_tasks (set_execs (\<lambda>x. ex_id x = e \<and> ex_status x = ExecRunning)
                           (\<lambda>x. x\<lparr>ex_status := st, ex_error := msg, ex_completed_at := Some (run_now r)\<rparr>)) r
                in case end_running_task (di_task d) tst r1 of
                     (changed, r2) \<Rightarrow>
                       (case move_ended_task (di_task d) (tk_category u) (terminal_category st (tk_category u)) tst r2 of
                          (moved, r3) \<Rightarrow>
                            (let r4 = end_dispatch i (fst (run_outcome st)) r3
                             in if \<not> (\<exists>a \<in> set (rt_activities r4). execute_activity (iv_id v) i a) then (Inl RowMissing, r4)
                                else let r5 = set_activities (execute_activity (iv_id v) i)
                                           (\<lambda>a. a\<lparr>ac_status := snd (snd (run_outcome st)), ac_error := msg,
                                              ac_completed_at := Some (run_now r)\<rparr>) r4;
                                         out = invocation_outcome st (iv_id v) r5;
                                         r6 = set_invocations (\<lambda>x. iv_id x = iv_id v) (\<lambda>x. x\<lparr>iv_status := out, iv_error := msg,
                                           iv_completed_at := (if out = InvocationRunning then None else Some (run_now r))\<rparr>) r5
                                     in (Inr (completion_events u tst (terminal_category st (tk_category u)) changed moved),
                                         release_dispatch i r6))))
           | _ \<Rightarrow> (Inl RowMissing, r)))"

definition complete_dispatch :: "string \<Rightarrow> string \<Rightarrow> exec_status \<Rightarrow> string \<Rightarrow> runtime \<Rightarrow> (run_error + unit) \<times> runtime" where
  "complete_dispatch i e st message r =
     (case task_status_of_exec st of
        None \<Rightarrow> (Inl (NotTerminalStatus st), r)
      | Some tst \<Rightarrow>
          and_then (run_txn (complete_body i e st tst (trim_space message)) r) (\<lambda>es r1. (Inr (), publish_run es r1)))"

subsection \<open>What the reconciler looks for\<close>

definition list_limit :: "int \<Rightarrow> nat" where
  "list_limit n = (if n \<le> 0 \<or> n > 100 then 100 else nat n)"

definition by_update :: "dispatch_row list \<Rightarrow> dispatch_row list" where
  "by_update = sort_key (\<lambda>d. (di_updated_at d, di_id d))"

definition own_exec :: "dispatch_row \<Rightarrow> runtime \<Rightarrow> exec_row option" where
  "own_exec d r =
     (case di_exec d of
        None \<Rightarrow> None
      | Some e \<Rightarrow> find (\<lambda>x. ex_id x = e \<and> ex_dispatch x = Some (di_id d)) (db_execs (cl_db (rt_cal r))))"

definition open_dispatch :: "dispatch_row \<Rightarrow> bool" where
  "open_dispatch d \<longleftrightarrow> di_status d = DispatchProcessing \<or> di_status d = DispatchSubmitted"

definition has_exec_in :: "exec_status set \<Rightarrow> dispatch_row \<Rightarrow> runtime \<Rightarrow> bool" where
  "has_exec_in S d r = (case own_exec d r of None \<Rightarrow> False | Some x \<Rightarrow> ex_status x \<in> S)"

definition abandoned :: "runtime \<Rightarrow> dispatch_row \<Rightarrow> bool" where
  "abandoned r d \<longleftrightarrow> open_dispatch d \<and>
     (case find_task (di_task d) r of
        None \<Rightarrow> False
      | Some t \<Rightarrow> (di_exec d = None \<and> (tk_status t \<noteq> StatusPending \<or> \<not> on_a_lane t)) \<or>
                  (di_exec d \<noteq> None \<and> has_exec_in {ExecRunning} d r \<and> (tk_status t \<noteq> StatusRunning \<or> \<not> on_a_lane t)))"

definition list_abandoned_queued_dispatches :: "int \<Rightarrow> runtime \<Rightarrow> dispatch_row list" where
  "list_abandoned_queued_dispatches n r = take (list_limit n) (by_update (filter (abandoned r) (rt_dispatches r)))"

definition recoverable :: "runtime \<Rightarrow> dispatch_row \<Rightarrow> bool" where
  "recoverable r d \<longleftrightarrow> di_status d = DispatchSubmitted \<and>
     (\<exists>v \<in> set (rt_reservations r). rv_dispatch v = di_id d \<and> rv_task v = di_task d) \<and>
     (case find_task (di_task d) r of
        None \<Rightarrow> False
      | Some t \<Rightarrow> (di_exec d = None \<and> tk_status t = StatusPending) \<or>
                  (di_exec d \<noteq> None \<and> has_exec_in {ExecRunning} d r \<and> tk_status t = StatusRunning))"

definition list_recoverable_prepared_dispatches :: "int \<Rightarrow> runtime \<Rightarrow> dispatch_row list" where
  "list_recoverable_prepared_dispatches n r = take (list_limit n) (by_update (filter (recoverable r) (rt_dispatches r)))"

definition unfinalized :: "runtime \<Rightarrow> dispatch_row \<Rightarrow> bool" where
  "unfinalized r d \<longleftrightarrow> open_dispatch d \<and> has_exec_in {ExecCompleted, ExecFailed, ExecCancelled} d r"

definition list_terminal_unfinalized_dispatches :: "int \<Rightarrow> runtime \<Rightarrow> dispatch_row list" where
  "list_terminal_unfinalized_dispatches n r = take (list_limit n) (by_update (filter (unfinalized r) (rt_dispatches r)))"

definition has_pending_automation_dispatch :: "string \<Rightarrow> runtime \<Rightarrow> bool" where
  "has_pending_automation_dispatch t r \<longleftrightarrow>
     (\<exists>d \<in> set (rt_dispatches r). di_task d = t \<and> di_exec d = None \<and> is_live d \<and>
        (\<exists>v \<in> set (rt_reservations r). rv_dispatch v = di_id d \<and> rv_task v = di_task d))"

subsection \<open>Pausing and archiving an automation\<close>

definition withdrawn_dispatch :: "string \<Rightarrow> string \<Rightarrow> runtime \<Rightarrow> dispatch_row \<Rightarrow> bool" where
  "withdrawn_dispatch p a r d \<longleftrightarrow> di_exec d = None \<and> is_live d \<and>
     (case get_invocation (di_invocation d) r of None \<Rightarrow> False | Some v \<Rightarrow> iv_project v = p \<and> iv_automation v = a)"

definition withdraw_dispatches :: "string \<Rightarrow> string \<Rightarrow> string \<Rightarrow> runtime \<Rightarrow> runtime" where
  "withdraw_dispatches p a msg r =
     (let gone = filter (withdrawn_dispatch p a r) (rt_dispatches r);
          r1 = set_invocations (\<lambda>v. iv_id v \<in> di_invocation ` set gone) (\<lambda>v. v\<lparr>iv_status := InvocationCancelled, iv_error := msg,
                 iv_completed_at := coalesce (iv_completed_at v) (run_now r)\<rparr>) r;
          r2 = drop_reservations (\<lambda>v. rv_dispatch v \<in> di_id ` set gone) r1
      in set_dispatches (\<lambda>d. di_id d \<in> di_id ` set gone) (\<lambda>d. (unclaimed DispatchFailed d)\<lparr>di_last_error := msg\<rparr>) r2)"

definition automation_task :: "string \<Rightarrow> string \<Rightarrow> string \<Rightarrow> runtime \<Rightarrow> task \<Rightarrow> bool" where
  "automation_task p a v r t \<longleftrightarrow> tk_project_id t = p \<and>
     ((\<exists>x \<in> set (rt_resources r). dr_project x = p \<and> dr_automation x = a \<and> dr_version x = v \<and> dr_type x = ''task'' \<and> dr_resource x = tk_id t) \<or>
      (a, v) \<in> db_created_by (cl_db (rt_cal r)) (tk_id t))"

definition demote_tasks :: "string \<Rightarrow> string \<Rightarrow> string \<Rightarrow> runtime \<Rightarrow> runtime" where
  "demote_tasks p a v r =
     fold (\<lambda>t. update_tasks (update_task_row (tk_id t) (\<lambda>u. u\<lparr>tk_category := CategoryBacklog\<rparr>)))
       (filter (\<lambda>t. on_a_lane t \<and> tk_status t = StatusPending \<and> automation_task p a v r t) (db_tasks (cl_db (rt_cal r)))) r"

definition keep_paused_tasks :: "string \<Rightarrow> string \<Rightarrow> string \<Rightarrow> task_db \<Rightarrow> task_db" where
  "keep_paused_tasks p a v d =
     fold (\<lambda>t. keep_paused_admission (tk_id t) (a, v))
       (filter (\<lambda>t. tk_project_id t = p \<and> tk_category t = CategoryActive \<and> tk_status t = StatusPending) (db_tasks d)) d"

definition drop_paused_tasks :: "string \<Rightarrow> task_db \<Rightarrow> task_db" where
  "drop_paused_tasks a d = d\<lparr>db_paused_admissions := (\<lambda>t. case db_paused_admissions d t of
     None \<Rightarrow> None | Some (b, v) \<Rightarrow> if b = a then None else Some (b, v))\<rparr>"

definition set_owner_state :: "string \<Rightarrow> string \<Rightarrow> owner_state \<Rightarrow> automation_state \<Rightarrow> runtime \<Rightarrow> runtime" where
  "set_owner_state p a os st r = r\<lparr>
     rt_owners := map (\<lambda>w. if ow_project w = p \<and> ow_automation w = a then w\<lparr>ow_state := os\<rparr> else w) (rt_owners r),
     rt_automations := map (\<lambda>u. if au_project u = p \<and> au_id u = a then u\<lparr>au_state := st\<rparr> else u) (rt_automations r)\<rparr>"

definition lifecycle_body :: "string \<Rightarrow> string \<Rightarrow> automation_state \<Rightarrow> runtime \<Rightarrow> (run_error + unit) \<times> runtime" where
  "lifecycle_body p a st r =
     (case find (\<lambda>u. au_project u = p \<and> au_id u = a) (rt_automations r) of
        None \<Rightarrow> (Inl AutomationNotFound, r)
      | Some u \<Rightarrow>
          (case au_published u of
             None \<Rightarrow> (Inl BeforeSave, r)
           | Some v \<Rightarrow>
               if au_state u = AutomationArchived \<and> st \<noteq> AutomationArchived then (Inl ArchivedForGood, r)
               else let msg = (if st = AutomationPaused then ''Automation was paused before dispatch''
                               else ''Automation was archived before dispatch'');
                        r1 = write_schedules (\<lambda>s. \<exists>w \<in> set (rt_owners r). ow_schedule w = sc_id s \<and> ow_project w = p \<and>
                               ow_automation w = a) (\<lambda>s. s\<lparr>sc_enabled := False\<rparr>) r;
                        r2 = withdraw_dispatches p a msg r1;
                        r3 = update_tasks (if st = AutomationPaused then keep_paused_tasks p a v else drop_paused_tasks a) r2
                    in (Inr (), set_owner_state p a (if st = AutomationPaused then OwnerPaused else OwnerArchived) st
                                  (demote_tasks p a v r3))))"

definition set_lifecycle :: "string \<Rightarrow> string \<Rightarrow> automation_state \<Rightarrow> runtime \<Rightarrow> (run_error + unit) \<times> runtime" where
  "set_lifecycle p a st r =
     (if st \<noteq> AutomationPaused \<and> st \<noteq> AutomationArchived then (Inl UnsupportedLifecycle, r)
      else run_txn (lifecycle_body p a st) r)"

end
