(* ===== verification/DispatchInv.thy ===== *)
theory DispatchInv
  imports Dispatch
begin

section \<open>The invariant of the automation tables\<close>

text \<open>
  A reservation and a live dispatch go together, a task has one reservation at most, and an
  execution that runs belongs to a live dispatch (\<open>rt_inv\<close>). \<open>safe\<close> says that a change keeps the
  invariant, makes no new claim and loses no execution; below are the changes the operations are
  made of. What other components do to tasks and executions is any change that keeps the executions
  of dispatches (\<open>execs_kept\<close>): it may end one that runs, and starts none again.
\<close>

abbreviation execs :: "runtime \<Rightarrow> exec_row list" where
  "execs r \<equiv> db_execs (cl_db (rt_cal r))"

definition exec_ended :: "exec_row \<Rightarrow> bool" where
  "exec_ended e \<longleftrightarrow> ex_status e \<noteq> ExecRunning \<and> ex_status e \<noteq> ExecQueued"

definition same_run :: "exec_row \<Rightarrow> exec_row \<Rightarrow> bool" where
  "same_run e e' \<longleftrightarrow> ex_id e' = ex_id e \<and> ex_dispatch e' = ex_dispatch e \<and> ex_task e' = ex_task e \<and>
     (ex_status e \<noteq> ExecQueued \<longrightarrow> ex_status e' \<noteq> ExecQueued \<and> (exec_ended e \<longrightarrow> exec_ended e'))"

definition execs_kept :: "exec_row list \<Rightarrow> exec_row list \<Rightarrow> bool" where
  "execs_kept es es' \<longleftrightarrow>
     (distinct (map ex_id es) \<longrightarrow> distinct (map ex_id es')) \<and>
     (\<forall>e' \<in> set es'. ex_dispatch e' \<noteq> None \<longrightarrow> (\<exists>e \<in> set es. same_run e e')) \<and>
     (\<forall>e \<in> set es. ex_dispatch e \<noteq> None \<longrightarrow> (\<exists>e' \<in> set es'. same_run e e'))"

definition rt_inv :: "runtime \<Rightarrow> bool" where
  "rt_inv r \<longleftrightarrow>
     distinct (map di_id (rt_dispatches r)) \<and> distinct (map di_invocation (rt_dispatches r)) \<and>
     distinct (map rv_task (rt_reservations r)) \<and> distinct (map iv_id (rt_invocations r)) \<and> distinct (map ex_id (execs r)) \<and>
     (\<forall>d \<in> set (rt_dispatches r). is_live d \<longleftrightarrow> (\<exists>v \<in> set (rt_reservations r). rv_dispatch v = di_id d)) \<and>
     (\<forall>v \<in> set (rt_reservations r). \<exists>d \<in> set (rt_dispatches r). di_id d = rv_dispatch v \<and> di_task d = rv_task v) \<and>
     (\<forall>e \<in> set (execs r). \<forall>i. ex_dispatch e = Some i \<longrightarrow> ex_status e \<noteq> ExecQueued \<and>
        (\<exists>d \<in> set (rt_dispatches r). di_id d = i \<and> di_exec d = Some (ex_id e) \<and> di_task d = ex_task e \<and> (exec_ended e \<or> is_live d))) \<and>
     (\<forall>u \<in> set (rt_invocations r). \<forall>v \<in> set (rt_invocations r). iv_trigger u = TriggerSchedule \<longrightarrow> iv_trigger v = TriggerSchedule \<longrightarrow>
        iv_resource u = iv_resource v \<longrightarrow> iv_key u = iv_key v \<longrightarrow> u = v)"

text \<open>As a rule, so that the proofs that it is kept go part by part.\<close>

lemma rt_invI:
  assumes "distinct (map di_id (rt_dispatches r))" "distinct (map di_invocation (rt_dispatches r))"
    "distinct (map rv_task (rt_reservations r))" "distinct (map iv_id (rt_invocations r))" "distinct (map ex_id (execs r))"
    "\<And>d. d \<in> set (rt_dispatches r) \<Longrightarrow> is_live d \<longleftrightarrow> (\<exists>v \<in> set (rt_reservations r). rv_dispatch v = di_id d)"
    "\<And>v. v \<in> set (rt_reservations r) \<Longrightarrow> \<exists>d \<in> set (rt_dispatches r). di_id d = rv_dispatch v \<and> di_task d = rv_task v"
    "\<And>e i. e \<in> set (execs r) \<Longrightarrow> ex_dispatch e = Some i \<Longrightarrow> ex_status e \<noteq> ExecQueued \<and>
        (\<exists>d \<in> set (rt_dispatches r). di_id d = i \<and> di_exec d = Some (ex_id e) \<and> di_task d = ex_task e \<and> (exec_ended e \<or> is_live d))"
    "\<And>u v. u \<in> set (rt_invocations r) \<Longrightarrow> v \<in> set (rt_invocations r) \<Longrightarrow> iv_trigger u = TriggerSchedule \<Longrightarrow>
        iv_trigger v = TriggerSchedule \<Longrightarrow> iv_resource u = iv_resource v \<Longrightarrow> iv_key u = iv_key v \<Longrightarrow> u = v"
  shows "rt_inv r"
  unfolding rt_inv_def by (intro conjI ballI allI impI assms) assumption+

lemma rt_inv_distinct:
  assumes "rt_inv r"
  shows "distinct (map di_id (rt_dispatches r))" "distinct (map di_invocation (rt_dispatches r))"
    "distinct (map rv_task (rt_reservations r))" "distinct (map iv_id (rt_invocations r))" "distinct (map ex_id (execs r))"
  using assms unfolding rt_inv_def by blast+

text \<open>A claim there is after a change was there before it, with the same execution.\<close>

definition claims_kept :: "runtime \<Rightarrow> runtime \<Rightarrow> bool" where
  "claims_kept r r' \<longleftrightarrow>
     (\<forall>d' \<in> set (rt_dispatches r'). di_status d' = DispatchProcessing \<longrightarrow>
        (\<exists>d \<in> set (rt_dispatches r). di_id d = di_id d' \<and> di_status d = DispatchProcessing \<and> di_claimed_by d = di_claimed_by d' \<and>
           di_exec d = di_exec d'))"

text \<open>No row of a run is lost, and what it says of its occurrence does not change.\<close>

definition same_invocation :: "invocation_row \<Rightarrow> invocation_row \<Rightarrow> bool" where
  "same_invocation v v' \<longleftrightarrow> iv_id v' = iv_id v \<and> iv_trigger v' = iv_trigger v \<and> iv_resource v' = iv_resource v \<and> iv_key v' = iv_key v"

definition rows_kept :: "runtime \<Rightarrow> runtime \<Rightarrow> bool" where
  "rows_kept r r' \<longleftrightarrow>
     (\<forall>d \<in> set (rt_dispatches r). \<exists>d' \<in> set (rt_dispatches r'). di_id d' = di_id d \<and> di_invocation d' = di_invocation d) \<and>
     (\<forall>v \<in> set (rt_invocations r). \<exists>v' \<in> set (rt_invocations r'). same_invocation v v')"

definition runs_kept :: "runtime \<Rightarrow> runtime \<Rightarrow> bool" where
  "runs_kept r r' \<longleftrightarrow> (\<forall>e \<in> set (execs r). ex_dispatch e \<noteq> None \<longrightarrow> (\<exists>e' \<in> set (execs r'). same_run e e')) \<and> rows_kept r r'"

definition safe :: "runtime \<Rightarrow> runtime \<Rightarrow> bool" where
  "safe r r' \<longleftrightarrow> (rt_inv r \<longrightarrow> rt_inv r' \<and> claims_kept r r' \<and> runs_kept r r')"

lemma same_run_refl [simp]: "same_run e e"
  by (simp add: same_run_def)

lemma same_run_trans: "same_run e1 e2 \<Longrightarrow> same_run e2 e3 \<Longrightarrow> same_run e1 e3"
  by (auto simp: same_run_def)

lemma execs_keptI:
  assumes "distinct (map ex_id es) \<Longrightarrow> distinct (map ex_id es')"
    and "\<And>e'. e' \<in> set es' \<Longrightarrow> ex_dispatch e' \<noteq> None \<Longrightarrow> \<exists>e \<in> set es. same_run e e'"
    and "\<And>e. e \<in> set es \<Longrightarrow> ex_dispatch e \<noteq> None \<Longrightarrow> \<exists>e' \<in> set es'. same_run e e'"
  shows "execs_kept es es'"
  using assms unfolding execs_kept_def by blast

lemma execs_kept_back:
  assumes "execs_kept es es'" "e' \<in> set es'" "ex_dispatch e' \<noteq> None"
  obtains e where "e \<in> set es" "same_run e e'"
  using assms unfolding execs_kept_def by blast

lemma execs_kept_on:
  assumes "execs_kept es es'" "e \<in> set es" "ex_dispatch e \<noteq> None"
  obtains e' where "e' \<in> set es'" "same_run e e'"
  using assms unfolding execs_kept_def by blast

lemma execs_kept_refl [simp]: "execs_kept es es"
  by (rule execs_keptI) (use same_run_refl in blast)+

lemma same_run_dispatch: "same_run e e' \<Longrightarrow> ex_dispatch e' = ex_dispatch e"
  by (simp add: same_run_def)

lemma execs_kept_trans:
  assumes a: "execs_kept es1 es2" and b: "execs_kept es2 es3" shows "execs_kept es1 es3"
proof (rule execs_keptI)
  show "distinct (map ex_id es1) \<Longrightarrow> distinct (map ex_id es3)" using a b by (simp add: execs_kept_def)
next
  fix e3 assume e: "e3 \<in> set es3" "ex_dispatch e3 \<noteq> None"
  with b obtain e2 where e2: "e2 \<in> set es2" "same_run e2 e3" by (rule execs_kept_back)
  with e(2) have "ex_dispatch e2 \<noteq> None" by (simp add: same_run_dispatch)
  with a e2(1) obtain e1 where "e1 \<in> set es1" "same_run e1 e2" by (rule execs_kept_back)
  with e2(2) show "\<exists>e \<in> set es1. same_run e e3" by (blast intro: same_run_trans)
next
  fix e1 assume e: "e1 \<in> set es1" "ex_dispatch e1 \<noteq> None"
  with a obtain e2 where e2: "e2 \<in> set es2" "same_run e1 e2" by (rule execs_kept_on)
  with e(2) have "ex_dispatch e2 \<noteq> None" by (simp add: same_run_dispatch)
  with b e2(1) obtain e3 where "e3 \<in> set es3" "same_run e2 e3" by (rule execs_kept_on)
  with e2(2) show "\<exists>e' \<in> set es3. same_run e1 e'" by (blast intro: same_run_trans)
qed

lemma same_invocation_refl [simp]: "same_invocation v v"
  by (simp add: same_invocation_def)

lemma runs_keptI: "execs_kept (execs r) (execs r') \<Longrightarrow> rows_kept r r' \<Longrightarrow> runs_kept r r'"
  by (simp add: execs_kept_def runs_kept_def)

lemma rows_kept_map:
  assumes "rt_dispatches r' = map f (rt_dispatches r) @ ds"
    and "\<And>d. d \<in> set (rt_dispatches r) \<Longrightarrow> di_id (f d) = di_id d \<and> di_invocation (f d) = di_invocation d"
    and "rt_invocations r' = map h (rt_invocations r) @ vs" "\<And>v. same_invocation v (h v)"
  shows "rows_kept r r'"
  using assms(2,4) unfolding rows_kept_def assms(1,3) by fastforce

lemma rows_kept_refl [simp]: "rows_kept r r"
  by (rule rows_kept_map [where f = "\<lambda>d. d" and h = "\<lambda>v. v" and ds = "[]" and vs = "[]"]) simp_all

lemma rows_kept_trans:
  assumes "rows_kept r1 r2" "rows_kept r2 r3" shows "rows_kept r1 r3"
proof -
  have "\<exists>d3 \<in> set (rt_dispatches r3). di_id d3 = di_id d \<and> di_invocation d3 = di_invocation d" if d: "d \<in> set (rt_dispatches r1)" for d
    using assms d unfolding rows_kept_def by metis
  moreover have "\<exists>v3 \<in> set (rt_invocations r3). same_invocation v v3" if v: "v \<in> set (rt_invocations r1)" for v
    using assms v unfolding rows_kept_def same_invocation_def by metis
  ultimately show ?thesis by (simp add: rows_kept_def)
qed

lemma claims_kept_same: "rt_dispatches r' = rt_dispatches r \<Longrightarrow> claims_kept r r'"
  unfolding claims_kept_def by auto

lemma safe_refl [simp]: "safe r r"
  by (simp add: safe_def claims_kept_same runs_keptI)

lemma claims_kept_trans:
  assumes "claims_kept r1 r2" "claims_kept r2 r3" shows "claims_kept r1 r3"
  unfolding claims_kept_def
proof (intro ballI impI)
  fix d3 assume "d3 \<in> set (rt_dispatches r3)" "di_status d3 = DispatchProcessing"
  with assms(2) obtain d2 where d2: "d2 \<in> set (rt_dispatches r2)" "di_id d2 = di_id d3" "di_status d2 = DispatchProcessing"
    "di_claimed_by d2 = di_claimed_by d3" "di_exec d2 = di_exec d3" unfolding claims_kept_def by blast
  with assms(1) obtain d1 where "d1 \<in> set (rt_dispatches r1)" "di_id d1 = di_id d2" "di_status d1 = DispatchProcessing"
    "di_claimed_by d1 = di_claimed_by d2" "di_exec d1 = di_exec d2" unfolding claims_kept_def by blast
  with d2 show "\<exists>d \<in> set (rt_dispatches r1). di_id d = di_id d3 \<and> di_status d = DispatchProcessing \<and>
      di_claimed_by d = di_claimed_by d3 \<and> di_exec d = di_exec d3" by auto
qed

lemma runs_kept_trans:
  assumes "runs_kept r1 r2" "runs_kept r2 r3" shows "runs_kept r1 r3"
  unfolding runs_kept_def
proof (intro conjI ballI impI)
  show "rows_kept r1 r3" using assms by (auto simp: runs_kept_def intro: rows_kept_trans)
next
  fix e1 assume e: "e1 \<in> set (execs r1)" "ex_dispatch e1 \<noteq> None"
  with assms(1) obtain e2 where e2: "e2 \<in> set (execs r2)" "same_run e1 e2" unfolding runs_kept_def by blast
  with e(2) have "ex_dispatch e2 \<noteq> None" by (simp add: same_run_dispatch)
  with assms(2) e2(1) obtain e3 where "e3 \<in> set (execs r3)" "same_run e2 e3" unfolding runs_kept_def by blast
  with e2(2) show "\<exists>e' \<in> set (execs r3). same_run e1 e'" by (blast intro: same_run_trans)
qed

lemma safe_trans: "safe r1 r2 \<Longrightarrow> safe r2 r3 \<Longrightarrow> safe r1 r3"
  by (auto simp: safe_def intro: claims_kept_trans runs_kept_trans)

subsection \<open>Changes of the executions\<close>

lemma execs_kept_map:
  assumes "\<And>e. e \<in> set es \<Longrightarrow> same_run e (f e)" shows "execs_kept es (map f es)"
proof -
  have m: "map ex_id (map f es) = map ex_id es" using assms by (auto simp: same_run_def)
  show ?thesis
  proof (rule execs_keptI)
    show "distinct (map ex_id es) \<Longrightarrow> distinct (map ex_id (map f es))" unfolding m .
  qed (use assms in \<open>auto simp del: map_map\<close>)
qed

lemma execs_kept_set_execs:
  assumes "\<And>e. e \<in> set (db_execs d) \<Longrightarrow> P e \<Longrightarrow> same_run e (f e)" shows "execs_kept (db_execs d) (db_execs (set_execs P f d))"
  using execs_kept_map [of "db_execs d" "\<lambda>e. if P e then f e else e"] assms by (auto simp: set_execs_def)

lemma execs_kept_withdraw: "execs_kept (db_execs d) (db_execs (withdraw_admissions P d))"
proof -
  have "execs_kept (db_execs (d\<lparr>db_admissions := A\<rparr>)) (db_execs (set_execs Q (cancel_exec n m) (d\<lparr>db_admissions := A\<rparr>)))" for A Q n m
    by (rule execs_kept_set_execs) (simp add: same_run_def cancel_exec_def exec_ended_def)
  then show ?thesis by (simp add: withdraw_admissions_def Let_def)
qed

lemma execs_kept_update_task_row: "execs_kept (db_execs d) (db_execs (update_task_row i f d))"
  using execs_kept_withdraw [of "x\<lparr>db_tasks := ts\<rparr>" for x ts]
  by (auto simp: update_task_row_def map_task_def task_withdrawn_def Let_def split: option.split)

lemma create_execution_row:
  "create_execution e d = (Inr e1, d1) \<Longrightarrow>
     db_execs d1 = db_execs d @ [e1] \<and> ex_id e1 \<notin> ex_id ` set (db_execs d) \<and> ex_dispatch e1 = ex_dispatch e \<and> ex_task e1 = ex_task e \<and>
     ex_status e1 = ex_status e"
  by (auto simp: create_execution_def Let_def split: list.splits if_splits)

lemma execs_kept_append:
  assumes "ex_dispatch e = None" "ex_id e \<notin> ex_id ` set es" shows "execs_kept es (es @ [e])"
proof (rule execs_keptI)
  show "distinct (map ex_id es) \<Longrightarrow> distinct (map ex_id (es @ [e]))" using assms(2) by simp
next
  fix e' assume "e' \<in> set (es @ [e])" "ex_dispatch e' \<noteq> None"
  with assms(1) have "e' \<in> set es" by auto
  then show "\<exists>x \<in> set es. same_run x e'" using same_run_refl by blast
next
  fix x assume "x \<in> set es"
  then have "x \<in> set (es @ [e])" by simp
  then show "\<exists>e' \<in> set (es @ [e]). same_run x e'" using same_run_refl by blast
qed

lemma execs_kept_create_execution:
  assumes "ex_dispatch e = None" "create_execution e d = (r, d1)" shows "execs_kept (db_execs d) (db_execs d1)"
proof (cases r)
  case (Inl err)
  with assms(2) have "d1 = d" by (auto simp: create_execution_def Let_def split: list.splits if_splits)
  then show ?thesis by simp
next
  case (Inr e1)
  with create_execution_row [of e d e1 d1] assms show ?thesis by (simp add: execs_kept_append)
qed

subsection \<open>The fields an operation leaves alone\<close>

lemma put_tables_fields [simp]:
  "rt_dispatches (put_tables d r) = rt_dispatches r" "rt_invocations (put_tables d r) = rt_invocations r"
  "rt_reservations (put_tables d r) = rt_reservations r" "rt_activities (put_tables d r) = rt_activities r"
  "execs (put_tables d r) = db_execs d" "rt_cal (put_tables d r) = (rt_cal r)\<lparr>cl_db := d\<rparr>"
  by (simp_all add: put_tables_def)

lemma execs_run_tables [simp]: "db_execs (run_tables r) = execs r"
  by (simp add: run_tables_def tables_def)

lemma update_tasks_fields [simp]:
  "rt_dispatches (update_tasks f r) = rt_dispatches r" "rt_invocations (update_tasks f r) = rt_invocations r"
  "rt_reservations (update_tasks f r) = rt_reservations r" "rt_activities (update_tasks f r) = rt_activities r"
  "execs (update_tasks f r) = db_execs (f (run_tables r))"
  by (simp_all add: update_tasks_def)

lemma set_fields [simp]:
  "rt_cal (set_dispatches P f r) = rt_cal r" "rt_invocations (set_dispatches P f r) = rt_invocations r"
  "rt_reservations (set_dispatches P f r) = rt_reservations r" "rt_activities (set_dispatches P f r) = rt_activities r"
  "rt_cal (set_invocations Q g r) = rt_cal r" "rt_dispatches (set_invocations Q g r) = rt_dispatches r"
  "rt_reservations (set_invocations Q g r) = rt_reservations r" "rt_activities (set_invocations Q g r) = rt_activities r"
  "rt_cal (set_reservations R h r) = rt_cal r" "rt_dispatches (set_reservations R h r) = rt_dispatches r"
  "rt_invocations (set_reservations R h r) = rt_invocations r" "rt_activities (set_reservations R h r) = rt_activities r"
  "rt_cal (drop_reservations R r) = rt_cal r" "rt_dispatches (drop_reservations R r) = rt_dispatches r"
  "rt_invocations (drop_reservations R r) = rt_invocations r" "rt_activities (drop_reservations R r) = rt_activities r"
  "rt_cal (set_activities A k r) = rt_cal r" "rt_dispatches (set_activities A k r) = rt_dispatches r"
  "rt_invocations (set_activities A k r) = rt_invocations r" "rt_reservations (set_activities A k r) = rt_reservations r"
  by (simp_all add: set_dispatches_def set_invocations_def set_reservations_def drop_reservations_def set_activities_def)

lemma write_schedules_fields [simp]:
  "rt_dispatches (write_schedules P f r) = rt_dispatches r" "rt_invocations (write_schedules P f r) = rt_invocations r"
  "rt_reservations (write_schedules P f r) = rt_reservations r" "rt_activities (write_schedules P f r) = rt_activities r"
  "execs (write_schedules P f r) = execs r"
  by (simp_all add: write_schedules_def map_schedules_def)

lemma next_fault_execs [simp]: "db_execs (snd (next_fault d)) = db_execs d"
  by (simp add: next_fault_def split: list.split)

lemma run_fault_fields:
  assumes "run_fault r = (f, r1)"
  shows "rt_dispatches r1 = rt_dispatches r \<and> rt_invocations r1 = rt_invocations r \<and> rt_reservations r1 = rt_reservations r \<and> execs r1 = execs r"
  using assms next_fault_execs [of "cl_db (rt_cal r)"] by (cases "next_fault (cl_db (rt_cal r))") (auto simp: run_fault_def)

text \<open>A change that leaves every table of the runs alone, and keeps the executions of dispatches.\<close>

definition quiet :: "runtime \<Rightarrow> runtime \<Rightarrow> bool" where
  "quiet r r' \<longleftrightarrow> rt_dispatches r' = rt_dispatches r \<and> rt_invocations r' = rt_invocations r \<and> rt_reservations r' = rt_reservations r \<and>
     execs_kept (execs r) (execs r')"

lemma quiet_trans: "quiet r1 r2 \<Longrightarrow> quiet r2 r3 \<Longrightarrow> quiet r1 r3"
  by (auto simp: quiet_def intro: execs_kept_trans)

lemma quiet_run_fault: "run_fault r = (f, r1) \<Longrightarrow> quiet r r1"
  by (simp add: quiet_def run_fault_fields)

lemma quiet_update_task: "quiet r (update_tasks (update_task_row i f) r)"
  using execs_kept_update_task_row [of "run_tables r" i f] by (simp add: quiet_def)

lemma quiet_publish_run: "quiet r (publish_run es r)"
  by (simp add: quiet_def publish_run_def publish_def)

lemma quiet_set_activities: "quiet r (set_activities A k r)"
  by (simp add: quiet_def)

lemma quiet_write_schedules: "quiet r (write_schedules P f r)"
  by (simp add: quiet_def)

subsection \<open>Closing dispatches\<close>

definition same_dispatch :: "dispatch_row \<Rightarrow> dispatch_row \<Rightarrow> bool" where
  "same_dispatch d d' \<longleftrightarrow> di_id d' = di_id d \<and> di_invocation d' = di_invocation d \<and> di_task d' = di_task d \<and> di_exec d' = di_exec d"

text \<open>
  What every operation but an admission and a claim comes down to: rows change in place, the
  dispatches with ids in \<open>D\<close> stop being live and lose their reservations, and their executions have
  ended.
\<close>

definition shuts :: "string set \<Rightarrow> runtime \<Rightarrow> runtime \<Rightarrow> bool" where
  "shuts D r r' \<longleftrightarrow>
     (\<exists>f. rt_dispatches r' = map f (rt_dispatches r) \<and>
        (\<forall>d \<in> set (rt_dispatches r). same_dispatch d (f d) \<and> (is_live (f d) \<longleftrightarrow> is_live d \<and> di_id d \<notin> D))) \<and>
     (\<exists>g. rt_reservations r' = map g (filter (\<lambda>v. rv_dispatch v \<notin> D) (rt_reservations r)) \<and>
        (\<forall>v. rv_task (g v) = rv_task v \<and> rv_dispatch (g v) = rv_dispatch v)) \<and>
     (\<exists>h. rt_invocations r' = map h (rt_invocations r) \<and> (\<forall>v. same_invocation v (h v))) \<and>
     execs_kept (execs r) (execs r') \<and>
     (\<forall>e \<in> set (execs r'). \<forall>i \<in> D. ex_dispatch e = Some i \<longrightarrow> exec_ended e)"

lemma rt_inv_shuts:
  assumes i: "rt_inv r" and c: "shuts D r r'"
  shows "rt_inv r'"
proof -
  from c obtain f g h where f: "rt_dispatches r' = map f (rt_dispatches r)"
      "\<And>d. d \<in> set (rt_dispatches r) \<Longrightarrow> same_dispatch d (f d) \<and> (is_live (f d) \<longleftrightarrow> is_live d \<and> di_id d \<notin> D)"
    and g: "rt_reservations r' = map g (filter (\<lambda>v. rv_dispatch v \<notin> D) (rt_reservations r))"
      "\<And>v. rv_task (g v) = rv_task v \<and> rv_dispatch (g v) = rv_dispatch v"
    and h: "rt_invocations r' = map h (rt_invocations r)" "\<And>v. same_invocation v (h v)"
    and e: "execs_kept (execs r) (execs r')" "\<And>e i. e \<in> set (execs r') \<Longrightarrow> i \<in> D \<Longrightarrow> ex_dispatch e = Some i \<Longrightarrow> exec_ended e"
    unfolding shuts_def by blast
  have fd: "di_id (f d) = di_id d" "di_invocation (f d) = di_invocation d" "di_task (f d) = di_task d" "di_exec (f d) = di_exec d"
    "is_live (f d) \<longleftrightarrow> is_live d \<and> di_id d \<notin> D" if "d \<in> set (rt_dispatches r)" for d
    using f(2) [OF that] by (auto simp: same_dispatch_def)
  have "map di_id (rt_dispatches r') = map di_id (rt_dispatches r)" "map di_invocation (rt_dispatches r') = map di_invocation (rt_dispatches r)"
    using fd by (auto simp: f(1))
  then have "distinct (map di_id (rt_dispatches r'))" "distinct (map di_invocation (rt_dispatches r'))"
    using rt_inv_distinct [OF i] by simp_all
  moreover have "distinct (map rv_task (rt_reservations r'))"
    using i distinct_filter_map [of rv_task "rt_reservations r"] g(2) by (simp add: g(1) rt_inv_def o_def)
  moreover have "distinct (map iv_id (rt_invocations r'))"
    using h(2) rt_inv_distinct(4) [OF i] by (simp add: h(1) same_invocation_def o_def)
  moreover have "distinct (map ex_id (execs r'))" using e(1) i by (simp add: execs_kept_def rt_inv_def)
  moreover have "is_live d' \<longleftrightarrow> (\<exists>v \<in> set (rt_reservations r'). rv_dispatch v = di_id d')" if "d' \<in> set (rt_dispatches r')" for d'
  proof -
    from that f(1) obtain d where d: "d \<in> set (rt_dispatches r)" "d' = f d" by auto
    with i have "is_live d \<longleftrightarrow> (\<exists>v \<in> set (rt_reservations r). rv_dispatch v = di_id d)" by (auto simp: rt_inv_def)
    with d fd [OF d(1)] g(2) show ?thesis by (auto simp: g(1))
  qed
  moreover have "\<exists>d \<in> set (rt_dispatches r'). di_id d = rv_dispatch v' \<and> di_task d = rv_task v'" if "v' \<in> set (rt_reservations r')" for v'
  proof -
    from that g obtain v where v: "v \<in> set (rt_reservations r)" "rv_dispatch v' = rv_dispatch v" "rv_task v' = rv_task v" by auto
    with i obtain d where "d \<in> set (rt_dispatches r)" "di_id d = rv_dispatch v" "di_task d = rv_task v" by (auto simp: rt_inv_def)
    with fd v show ?thesis by (auto simp: f(1))
  qed
  moreover have "ex_status e' \<noteq> ExecQueued \<and>
      (\<exists>d \<in> set (rt_dispatches r'). di_id d = j \<and> di_exec d = Some (ex_id e') \<and> di_task d = ex_task e' \<and> (exec_ended e' \<or> is_live d))"
    if e': "e' \<in> set (execs r')" "ex_dispatch e' = Some j" for e' j
  proof -
    from execs_kept_back [OF e(1) e'(1)] e'(2) obtain x where x: "x \<in> set (execs r)" "same_run x e'" by auto
    with e'(2) have j: "ex_dispatch x = Some j" by (simp add: same_run_def)
    with i x(1) obtain d where d: "d \<in> set (rt_dispatches r)" "di_id d = j" "di_exec d = Some (ex_id x)" "di_task d = ex_task x"
      "exec_ended x \<or> is_live d" "ex_status x \<noteq> ExecQueued" unfolding rt_inv_def by blast
    have "exec_ended e' \<or> is_live (f d)" using e(2) [OF e'(1) _ e'(2)] d fd [OF d(1)] x(2) by (auto simp: same_run_def)
    with d fd [OF d(1)] x(2) show ?thesis by (auto simp: f(1) same_run_def)
  qed
  moreover have "u' = v'" if uv: "u' \<in> set (rt_invocations r')" "v' \<in> set (rt_invocations r')" "iv_trigger u' = TriggerSchedule"
    "iv_trigger v' = TriggerSchedule" "iv_resource u' = iv_resource v'" "iv_key u' = iv_key v'" for u' v'
  proof -
    from uv h obtain u v where "u \<in> set (rt_invocations r)" "v \<in> set (rt_invocations r)" "u' = h u" "v' = h v" by auto
    moreover with uv(3-) h(2) [of u] h(2) [of v] i have "u = v" unfolding rt_inv_def same_invocation_def by metis
    ultimately show ?thesis by simp
  qed
  ultimately show ?thesis by (intro rt_invI)
qed

text \<open>The same, with the rows that keep a claim.\<close>

definition keeps_claim :: "dispatch_row \<Rightarrow> dispatch_row \<Rightarrow> bool" where
  "keeps_claim d d' \<longleftrightarrow> (di_status d' = DispatchProcessing \<longrightarrow> di_status d = DispatchProcessing \<and> di_claimed_by d' = di_claimed_by d)"

lemma claims_kept_map:
  assumes "rt_dispatches r' = map f (rt_dispatches r)" "\<And>d. d \<in> set (rt_dispatches r) \<Longrightarrow> same_dispatch d (f d) \<and> keeps_claim d (f d)"
  shows "claims_kept r r'"
  using assms(2) unfolding claims_kept_def assms(1) by (fastforce simp: same_dispatch_def keeps_claim_def)

lemma safeI:
  assumes "rt_inv r \<Longrightarrow> shuts D r r'" "rt_inv r \<Longrightarrow> claims_kept r r'" shows "safe r r'"
proof -
  have "runs_kept r r'" if "rt_inv r"
  proof -
    from assms(1) [OF that] have "execs_kept (execs r) (execs r')" unfolding shuts_def by blast
    moreover from assms(1) [OF that] obtain f h where f: "rt_dispatches r' = map f (rt_dispatches r)"
        "\<And>d. d \<in> set (rt_dispatches r) \<Longrightarrow> same_dispatch d (f d)"
      and h: "rt_invocations r' = map h (rt_invocations r)" "\<And>v. same_invocation v (h v)"
      unfolding shuts_def by blast
    have "rows_kept r r'"
      by (rule rows_kept_map [where f = f and h = h and ds = "[]" and vs = "[]"]) (use f h in \<open>simp_all add: same_dispatch_def\<close>)
    ultimately show ?thesis by (rule runs_keptI)
  qed
  with assms show ?thesis by (auto simp: safe_def dest: rt_inv_shuts)
qed

lemma shuts_map:
  assumes "rt_dispatches r' = map f (rt_dispatches r)"
    and "\<And>d. d \<in> set (rt_dispatches r) \<Longrightarrow> same_dispatch d (f d) \<and> (is_live (f d) \<longleftrightarrow> is_live d \<and> di_id d \<notin> D)"
    and "rt_reservations r' = map g (filter (\<lambda>v. rv_dispatch v \<notin> D) (rt_reservations r))"
    and "\<And>v. rv_task (g v) = rv_task v \<and> rv_dispatch (g v) = rv_dispatch v"
    and "rt_invocations r' = map h (rt_invocations r)" "\<And>v. same_invocation v (h v)"
    and "execs_kept (execs r) (execs r')" "\<And>e i. e \<in> set (execs r') \<Longrightarrow> i \<in> D \<Longrightarrow> ex_dispatch e = Some i \<Longrightarrow> exec_ended e"
  shows "shuts D r r'"
  unfolding shuts_def using assms by blast

lemma safe_map:
  assumes f: "rt_dispatches r' = map f (rt_dispatches r)"
    "\<And>d. d \<in> set (rt_dispatches r) \<Longrightarrow> same_dispatch d (f d) \<and> keeps_claim d (f d) \<and> (is_live (f d) \<longleftrightarrow> is_live d \<and> di_id d \<notin> D)"
    and g: "rt_reservations r' = map g (filter (\<lambda>v. rv_dispatch v \<notin> D) (rt_reservations r))"
      "\<And>v. rv_task (g v) = rv_task v \<and> rv_dispatch (g v) = rv_dispatch v"
    and h: "rt_invocations r' = map h (rt_invocations r)" "\<And>v. same_invocation v (h v)"
    and e: "execs_kept (execs r) (execs r')" "\<And>e i. rt_inv r \<Longrightarrow> e \<in> set (execs r') \<Longrightarrow> i \<in> D \<Longrightarrow> ex_dispatch e = Some i \<Longrightarrow> exec_ended e"
  shows "safe r r'"
proof (rule safeI)
  assume i: "rt_inv r"
  show "shuts D r r'" by (rule shuts_map [OF f(1) _ g h e(1)]) (use f(2) e(2) [OF i] in blast)+
  show "claims_kept r r'" by (rule claims_kept_map [OF f(1)]) (use f(2) in blast)
qed

lemma same_dispatch_refl [simp]: "same_dispatch d d" "keeps_claim d d"
  by (simp_all add: same_dispatch_def keeps_claim_def)

lemma safe_quiet:
  assumes "quiet r r'" shows "safe r r'"
  by (rule safe_map [where f = "\<lambda>d. d" and D = "{}" and g = "\<lambda>v. v" and h = "\<lambda>v. v"]) (use assms in \<open>simp_all add: quiet_def\<close>)

text \<open>Dispatches whose executions, if any, have ended.\<close>

definition ended_in :: "string set \<Rightarrow> runtime \<Rightarrow> bool" where
  "ended_in D r \<longleftrightarrow> (\<forall>e \<in> set (execs r). \<forall>i \<in> D. ex_dispatch e = Some i \<longrightarrow> exec_ended e)"

lemma rt_inv_exec:
  assumes "rt_inv r" "e \<in> set (execs r)" "ex_dispatch e = Some (di_id d)" "d \<in> set (rt_dispatches r)"
  shows "di_exec d = Some (ex_id e) \<and> di_task d = ex_task e"
proof -
  from assms(1-3) obtain d' where d': "d' \<in> set (rt_dispatches r)" "di_id d' = di_id d" "di_exec d' = Some (ex_id e)" "di_task d' = ex_task e"
    unfolding rt_inv_def by blast
  from assms(1) have "inj_on di_id (set (rt_dispatches r))" by (simp add: rt_inv_def distinct_map)
  with d' assms(4) have "d' = d" by (auto dest: inj_onD)
  with d' show ?thesis by simp
qed

lemma ended_in_none:
  assumes "rt_inv r" "\<And>i. i \<in> D \<Longrightarrow> \<exists>d \<in> set (rt_dispatches r). di_id d = i \<and> di_exec d = None"
  shows "ended_in D r"
  unfolding ended_in_def
proof (intro ballI impI)
  fix e i assume a: "e \<in> set (execs r)" "i \<in> D" "ex_dispatch e = Some i"
  from assms(2) [OF a(2)] obtain d where "d \<in> set (rt_dispatches r)" "di_id d = i" "di_exec d = None" by blast
  with rt_inv_exec [OF assms(1) a(1), of d] a(3) show "exec_ended e" by simp
qed

lemma ended_in_later:
  assumes "ended_in D r" "execs_kept (execs r) (execs r')" shows "ended_in D r'"
  unfolding ended_in_def
proof (intro ballI impI)
  fix e' i assume a: "e' \<in> set (execs r')" "i \<in> D" "ex_dispatch e' = Some i"
  with execs_kept_back [OF assms(2) a(1)] obtain e where e: "e \<in> set (execs r)" "same_run e e'" by auto
  with a(3) have "ex_dispatch e = Some i" by (simp add: same_run_def)
  with assms(1) e(1) a(2) have "exec_ended e" unfolding ended_in_def by blast
  with e(2) show "exec_ended e'" by (auto simp: same_run_def exec_ended_def)
qed

lemma execs_end_executions:
  "execs (end_executions P st msg now r) = map (\<lambda>e. if P e \<and> ex_status e = ExecRunning
     then e\<lparr>ex_status := st, ex_error := msg, ex_completed_at := coalesce (ex_completed_at e) now\<rparr> else e) (execs r)"
  by (simp add: end_executions_def set_execs_def)

lemma end_executions_fields [simp]:
  "rt_dispatches (end_executions P st msg now r) = rt_dispatches r" "rt_invocations (end_executions P st msg now r) = rt_invocations r"
  "rt_reservations (end_executions P st msg now r) = rt_reservations r"
  by (simp_all add: end_executions_def)

lemma quiet_end_executions: "st \<noteq> ExecRunning \<Longrightarrow> st \<noteq> ExecQueued \<Longrightarrow> quiet r (end_executions P st msg now r)"
  unfolding quiet_def by (auto simp: execs_end_executions same_run_def exec_ended_def intro!: execs_kept_map)

lemma ended_in_executions:
  assumes "rt_inv r" "d \<in> set (rt_dispatches r)" "di_exec d = Some e" "st \<noteq> ExecRunning" "st \<noteq> ExecQueued"
    and "\<And>x. ex_id x = e \<Longrightarrow> ex_task x = di_task d \<Longrightarrow> P x"
  shows "ended_in {di_id d} (end_executions P st msg now r)"
  unfolding ended_in_def
proof (intro ballI impI)
  fix y i assume y: "y \<in> set (execs (end_executions P st msg now r))" "i \<in> {di_id d}" "ex_dispatch y = Some i"
  then obtain x where x: "x \<in> set (execs r)" "y = (if P x \<and> ex_status x = ExecRunning
     then x\<lparr>ex_status := st, ex_error := msg, ex_completed_at := coalesce (ex_completed_at x) now\<rparr> else x)"
    unfolding execs_end_executions by auto
  with y have i: "ex_dispatch x = Some (di_id d)" by (auto split: if_splits)
  from rt_inv_exec [OF assms(1) x(1) i assms(2)] assms(3,6) have "P x" by simp
  moreover from assms(1) x(1) i have "ex_status x \<noteq> ExecQueued" unfolding rt_inv_def by blast
  ultimately show "exec_ended y" using x(2) assms(4,5) by (auto simp: exec_ended_def)
qed

lemma safe_close:
  assumes "rt_dispatches r' = map (\<lambda>d. if di_id d \<in> D then F d else d) (rt_dispatches r)"
    and F: "\<And>d. same_dispatch d (F d) \<and> \<not> is_live (F d)"
    and "rt_reservations r' = filter (\<lambda>v. rv_dispatch v \<notin> D) (rt_reservations r)"
    and "rt_invocations r' = map h (rt_invocations r)" "\<And>v. same_invocation v (h v)"
    and "execs_kept (execs r) (execs r')" and e: "rt_inv r \<Longrightarrow> ended_in D r'"
  shows "safe r r'"
proof (rule safe_map [where D = D and h = h and g = "\<lambda>v. v", OF assms(1)])
  fix d show "same_dispatch d (if di_id d \<in> D then F d else d) \<and> keeps_claim d (if di_id d \<in> D then F d else d) \<and>
      (is_live (if di_id d \<in> D then F d else d) \<longleftrightarrow> is_live d \<and> di_id d \<notin> D)"
    using F [of d] by (auto simp: keeps_claim_def is_live_def)
next
  fix e i assume "rt_inv r" "e \<in> set (execs r')" "i \<in> D" "ex_dispatch e = Some i"
  with assms(7) show "exec_ended e" unfolding ended_in_def by blast
qed (use assms in simp_all)

lemma not_live_unclaimed [simp]: "is_live (unclaimed DispatchFailed d) = False" "is_live (unclaimed DispatchCompleted d) = False"
  by (simp_all add: is_live_def unclaimed_def)

text \<open>A transaction is safe when its body is; a refused one changes nothing.\<close>

lemma safe_run_txn:
  assumes "\<And>r. safe r (snd (body r))" shows "safe r (snd (run_txn body r))"
proof -
  obtain f r1 where f: "run_fault r = (f, r1)" by (cases "run_fault r")
  obtain x r2 where b: "body r1 = (x, r2)" by (cases "body r1")
  from f have "safe r r1" by (intro safe_quiet quiet_run_fault)
  moreover from assms [of r1] b have "safe r1 r2" by simp
  ultimately show ?thesis by (auto simp: run_txn_def f b split: bool.split sum.split intro: safe_trans)
qed

lemma safe_run_txn_committed:
  assumes "\<And>r x r'. body r = (Inr x, r') \<Longrightarrow> safe r r'" shows "safe r (snd (run_txn body r))"
proof -
  obtain f r1 where f: "run_fault r = (f, r1)" by (cases "run_fault r")
  obtain x r2 where b: "body r1 = (x, r2)" by (cases "body r1")
  from f have "safe r r1" by (intro safe_quiet quiet_run_fault)
  with assms [of r1] b show ?thesis by (auto simp: run_txn_def f split: bool.split sum.split intro: safe_trans)
qed

lemma safe_publish: "safe r r1 \<Longrightarrow> safe r (publish_run es r1)"
  by (rule safe_trans [OF _ safe_quiet [OF quiet_publish_run]])

lemma safe_run_fault: "run_fault r = (f, r1) \<Longrightarrow> safe r r1"
  by (intro safe_quiet quiet_run_fault)

subsection \<open>Leases and marks\<close>

lemma set_dispatches_map:
  "rt_dispatches (set_dispatches P f r) = map (\<lambda>d. if P d then (f d)\<lparr>di_updated_at := run_now r\<rparr> else d) (rt_dispatches r)"
  by (simp add: set_dispatches_def)

lemma safe_set_dispatches:
  assumes "\<And>d. d \<in> set (rt_dispatches r) \<Longrightarrow> P d \<Longrightarrow> same_dispatch d (f d) \<and> keeps_claim d (f d) \<and> is_live (f d) = is_live d"
  shows "safe r (set_dispatches P f r)"
proof (rule safe_map [where D = "{}" and g = "\<lambda>v. v" and h = "\<lambda>v. v", OF set_dispatches_map])
  fix d assume d: "d \<in> set (rt_dispatches r)"
  show "same_dispatch d (if P d then (f d)\<lparr>di_updated_at := run_now r\<rparr> else d) \<and>
      keeps_claim d (if P d then (f d)\<lparr>di_updated_at := run_now r\<rparr> else d) \<and>
      (is_live (if P d then (f d)\<lparr>di_updated_at := run_now r\<rparr> else d) \<longleftrightarrow> is_live d \<and> di_id d \<notin> {})"
    using assms [OF d] by (auto simp: same_dispatch_def keeps_claim_def is_live_def)
qed simp_all

lemma safe_set_reservations:
  assumes "\<And>v. rv_task (f v) = rv_task v \<and> rv_dispatch (f v) = rv_dispatch v" shows "safe r (set_reservations P f r)"
  by (rule safe_map [where D = "{}" and f = "\<lambda>d. d" and g = "\<lambda>v. if P v then f v else v" and h = "\<lambda>v. v"])
    (use assms in \<open>simp_all add: set_reservations_def\<close>)

lemma safe_set_invocations:
  assumes "\<And>v. same_invocation v (f v)" shows "safe r (set_invocations P f r)"
  by (rule safe_map [where D = "{}" and f = "\<lambda>d. d" and g = "\<lambda>v. v" and h = "\<lambda>v. if P v then f v else v"])
    (use assms in \<open>simp_all add: set_invocations_def\<close>)

lemma renew_safe: "safe r (snd (renew_dispatch_lease i c t r))"
  unfolding renew_dispatch_lease_def
proof (rule safe_run_txn)
  fix r
  have "safe r (set_dispatches (held_by i c) (\<lambda>d. d\<lparr>di_claim_expires := Some t\<rparr>) r)"
    by (rule safe_set_dispatches) (simp add: same_dispatch_def keeps_claim_def is_live_def)
  moreover have "safe r1 (set_reservations Q (\<lambda>v. v\<lparr>rv_lease := Some (c, t)\<rparr>) r1)" for r1 Q
    by (rule safe_set_reservations) simp
  ultimately show "safe r (snd (if \<not> (\<exists>d \<in> set (rt_dispatches r). held_by i c d) then (Inl ErrDispatchLease, r)
       else let mine = (\<lambda>v. rv_dispatch v = i \<and> (case rv_lease v of None \<Rightarrow> False | Some (w, e) \<Rightarrow> w = c))
            in if \<not> (\<exists>v \<in> set (rt_reservations r). mine v) then (Inl ErrDispatchLease, r)
               else (Inr (), set_reservations mine (\<lambda>v. v\<lparr>rv_lease := Some (c, t)\<rparr>)
                               (set_dispatches (held_by i c) (\<lambda>d. d\<lparr>di_claim_expires := Some t\<rparr>) r))))"
    by (auto simp: Let_def intro: safe_trans)
qed

lemma mark_dispatch_safe:
  assumes "rt_inv r \<Longrightarrow> \<forall>d \<in> set (rt_dispatches r). held_by i c d \<longrightarrow> di_exec d = e"
  shows "safe r (snd (mark_dispatch i c e r))"
proof -
  obtain f r1 where f: "run_fault r = (f, r1)" by (cases "run_fault r")
  have "safe r (set_dispatches (held_by i c) (\<lambda>d. (unclaimed DispatchSubmitted d)\<lparr>di_exec := e\<rparr>) r1)"
    if inv: "rt_inv r"
  proof (rule safe_trans [OF safe_run_fault [OF f]])
    show "safe r1 (set_dispatches (held_by i c) (\<lambda>d. (unclaimed DispatchSubmitted d)\<lparr>di_exec := e\<rparr>) r1)"
    proof (rule safe_set_dispatches)
      fix d assume "d \<in> set (rt_dispatches r1)" "held_by i c d"
      with assms [OF inv] run_fault_fields [OF f]
      show "same_dispatch d ((unclaimed DispatchSubmitted d)\<lparr>di_exec := e\<rparr>) \<and> keeps_claim d ((unclaimed DispatchSubmitted d)\<lparr>di_exec := e\<rparr>) \<and>
          is_live ((unclaimed DispatchSubmitted d)\<lparr>di_exec := e\<rparr>) = is_live d"
        by (auto simp: same_dispatch_def keeps_claim_def is_live_def unclaimed_def held_by_def)
    qed
  qed
  then have "safe r (set_dispatches (held_by i c) (\<lambda>d. (unclaimed DispatchSubmitted d)\<lparr>di_exec := e\<rparr>) r1)"
    by (auto simp: safe_def)
  with safe_run_fault [OF f] show ?thesis by (auto simp: mark_dispatch_def run_txn_def f split: bool.split)
qed

end
