(* ===== verification/DispatchRuns.thy ===== *)
theory DispatchRuns
  imports DispatchInv
begin

section \<open>Runs of the automation tables\<close>

text \<open>
  Every operation of \<open>Dispatch\<close> keeps the invariant of \<open>DispatchInv\<close>. The dispatcher of
  \<open>internal/service/automation_dispatcher.go\<close>, the workers, the reconciler, the scheduler and the
  users act on the tables in any order. A dispatcher leases a dispatch and goes on with what it read
  of it: a dispatch without an execution is queued for the workers, and one that has an execution
  already is claimed and handed over.
\<close>

subsection \<open>Ends of dispatches\<close>

lemma safe_update_task: "safe r (update_tasks (update_task_row i f) r)"
  by (rule safe_quiet, rule quiet_update_task)

text \<open>The end of one dispatch, after quiet steps that ended its execution.\<close>

lemma safe_end_one:
  assumes "quiet r r1" "rt_inv r \<Longrightarrow> ended_in {i} r1"
    and "rt_dispatches r' = map (\<lambda>d. if di_id d = i then F d else d) (rt_dispatches r1)"
    and "\<And>d. same_dispatch d (F d) \<and> \<not> is_live (F d)"
    and "rt_reservations r' = filter (\<lambda>v. rv_dispatch v \<noteq> i) (rt_reservations r1)"
    and "rt_invocations r' = map h (rt_invocations r1)" "\<And>v. same_invocation v (h v)"
    and "execs_kept (execs r1) (execs r')"
  shows "safe r r'"
proof (rule safe_close [where D = "{i}" and F = F and h = h])
  show "execs_kept (execs r) (execs r')" using assms(1,8) by (auto simp: quiet_def intro: execs_kept_trans)
  show "ended_in {i} r'" if "rt_inv r" using ended_in_later [OF assms(2) [OF that] assms(8)] .
  show "rt_reservations r' = filter (\<lambda>v. rv_dispatch v \<notin> {i}) (rt_reservations r)" using assms(1,5) by (simp add: quiet_def)
qed (use assms in \<open>simp_all add: quiet_def\<close>)

lemma close_dispatch_tables:
  "rt_dispatches (close_dispatch msg d r) = map (\<lambda>x. if di_id x = di_id d
     then (unclaimed DispatchFailed x)\<lparr>di_last_error := msg, di_updated_at := run_now r\<rparr> else x) (rt_dispatches r)"
  "rt_reservations (close_dispatch msg d r) = filter (\<lambda>v. rv_dispatch v \<noteq> di_id d) (rt_reservations r)"
  "rt_invocations (close_dispatch msg d r) = map (\<lambda>v. if iv_id v = di_invocation d then v\<lparr>iv_status := InvocationCancelled,
     iv_error := msg, iv_completed_at := coalesce (iv_completed_at v) (run_now r)\<rparr> else v) (rt_invocations r)"
  "execs (close_dispatch msg d r) = execs r"
  by (auto simp: close_dispatch_def release_dispatch_def end_dispatch_def note_error_def drop_reservations_def set_invocations_def
      set_dispatches_def unclaimed_def run_now_def)

lemma close_dispatch_safe:
  assumes "quiet r r1" "rt_inv r \<Longrightarrow> ended_in {di_id d} r1"
  shows "safe r (close_dispatch msg d r1)"
  by (rule safe_end_one [OF assms close_dispatch_tables(1) _ close_dispatch_tables(2,3)])
    (simp_all add: same_dispatch_def is_live_def unclaimed_def same_invocation_def close_dispatch_tables)

lemma quiet_cancel_run_task: "cancel_run_task t r = (b, r1) \<Longrightarrow> quiet r r1"
  using quiet_update_task by (auto simp: cancel_run_task_def quiet_def split: option.splits if_splits)

lemma quiet_backlog_ended_task: "backlog_ended_task t r = (b, r1) \<Longrightarrow> quiet r r1"
  using quiet_update_task by (auto simp: backlog_ended_task_def quiet_def split: option.splits if_splits)

lemma quiet_refl [simp]: "quiet r r"
  by (simp add: quiet_def)

lemma cancel_execution_of_ended:
  assumes "cancel_execution_of t msg d e r = (x, r1)" "di_exec d = Some e" "d \<in> set (rt_dispatches r)"
  shows "quiet r r1 \<and> (rt_inv r \<longrightarrow> ended_in {di_id d} r1)"
proof -
  define r2 where "r2 = end_executions (\<lambda>x. ex_id x = e) ExecCancelled msg (run_now r) r"
  obtain b r3 where b: "cancel_run_task t r2 = (b, r3)" by (cases "cancel_run_task t r2")
  have q: "quiet r r2" unfolding r2_def by (rule quiet_end_executions) simp_all
  from quiet_cancel_run_task [OF b] have q2: "quiet r2 r3" .
  from assms(1) b have r1: "quiet r3 r1" unfolding cancel_execution_of_def Let_def r2_def [symmetric] by (auto simp: quiet_set_activities)
  have "ended_in {di_id d} r2" if "rt_inv r" unfolding r2_def
    by (rule ended_in_executions [OF that assms(3,2)]) simp_all
  with q q2 r1 show ?thesis by (auto simp: quiet_def intro: execs_kept_trans ended_in_later)
qed

lemma cancel_one_safe:
  assumes "cancel_one u msg d r = (x, r')" "d \<in> set (rt_dispatches r)"
  shows "safe r r'"
proof -
  obtain ids changed r1 where r1: "(case di_exec d of None \<Rightarrow> (([], False), r) | Some e \<Rightarrow> cancel_execution_of (tk_id u) msg d e r) = ((ids, changed), r1)"
    by (metis surj_pair)
  obtain moved r2 where r2: "(if changed \<and> on_a_lane u then (True, r1) else if on_a_lane u then backlog_ended_task (tk_id u) r1 else (False, r1)) = (moved, r2)"
    by (metis surj_pair)
  have a: "quiet r r1 \<and> (rt_inv r \<longrightarrow> ended_in {di_id d} r1)"
  proof (cases "di_exec d")
    case None
    with r1 assms(2) show ?thesis using ended_in_none [of r "{di_id d}"] by auto
  next
    case (Some e)
    with r1 cancel_execution_of_ended [OF _ Some assms(2)] show ?thesis by auto
  qed
  from r2 have b: "quiet r1 r2" by (auto split: if_splits dest: quiet_backlog_ended_task)
  from assms(1) have r': "r' = close_dispatch msg d r2" unfolding cancel_one_def r1 prod.case r2 by simp
  show ?thesis unfolding r' using a b
    by (intro close_dispatch_safe) (auto simp: quiet_def intro: execs_kept_trans ended_in_later)
qed

text \<open>A cancelled dispatch keeps its row, so that the next one is found where it was.\<close>

lemma cancel_one_rows:
  assumes "cancel_one u msg d r = (x, r')" "d \<in> set (rt_dispatches r)" "z \<in> set (rt_dispatches r)" "di_id z \<noteq> di_id d"
  shows "z \<in> set (rt_dispatches r')"
proof -
  obtain ids changed r1 where r1: "(case di_exec d of None \<Rightarrow> (([], False), r) | Some e \<Rightarrow> cancel_execution_of (tk_id u) msg d e r) = ((ids, changed), r1)"
    by (metis surj_pair)
  obtain moved r2 where r2: "(if changed \<and> on_a_lane u then (True, r1) else if on_a_lane u then backlog_ended_task (tk_id u) r1 else (False, r1)) = (moved, r2)"
    by (metis surj_pair)
  have a: "rt_dispatches r1 = rt_dispatches r"
  proof (cases "di_exec d")
    case None
    with r1 show ?thesis by auto
  next
    case (Some e)
    with r1 cancel_execution_of_ended [OF _ Some assms(2)] show ?thesis by (auto simp: quiet_def)
  qed
  from r2 have b: "rt_dispatches r2 = rt_dispatches r1" by (auto split: if_splits dest!: quiet_backlog_ended_task simp: quiet_def)
  from assms(1) have r': "r' = close_dispatch msg d r2" unfolding cancel_one_def r1 prod.case r2 by simp
  show ?thesis unfolding r' close_dispatch_tables a b using assms(3,4) by force
qed

lemma cancel_each_safe:
  "distinct (map di_id ds) \<Longrightarrow> set ds \<subseteq> set (rt_dispatches r) \<Longrightarrow> safe r (snd (cancel_each u msg ds r))"
proof (induction ds arbitrary: r)
  case (Cons d ds)
  obtain x r1 where c: "cancel_one u msg d r = (x, r1)" by (cases "cancel_one u msg d r")
  obtain y r2 where e: "cancel_each u msg ds r1 = (y, r2)" by (cases "cancel_each u msg ds r1")
  from Cons.prems have d: "d \<in> set (rt_dispatches r)" by simp
  have "set ds \<subseteq> set (rt_dispatches r1)"
  proof
    fix z assume z: "z \<in> set ds"
    from Cons.prems have n: "di_id d \<notin> di_id ` set ds" by simp
    from z have "di_id z \<in> di_id ` set ds" by (rule imageI)
    with n have "di_id z \<noteq> di_id d" by metis
    moreover from z Cons.prems(2) have "z \<in> set (rt_dispatches r)" by auto
    ultimately show "z \<in> set (rt_dispatches r1)" using cancel_one_rows [OF c d] by blast
  qed
  with Cons.IH [of r1] Cons.prems e have "safe r1 r2" by simp
  with cancel_one_safe [OF c d] have "safe r r2" by (rule safe_trans)
  then show ?case by (cases x, cases y) (simp add: c e)
qed simp

lemma cancel_body_safe: "safe r (snd (cancel_body t msg r))"
proof (cases "rt_inv r")
  case True
  define ds where "ds = sort_key (\<lambda>d. (di_created_at d, di_id d)) (filter (cancellable t r) (rt_dispatches r))"
  from True have "distinct (map di_id (filter (cancellable t r) (rt_dispatches r)))" by (simp add: rt_inv_def distinct_filter_map)
  then have "distinct (map di_id ds)" by (auto simp: distinct_map ds_def)
  then have "safe r (snd (cancel_each u msg ds r))" for u by (rule cancel_each_safe) (auto simp: ds_def)
  then show ?thesis by (auto simp: cancel_body_def ds_def [symmetric] split: option.split prod.split) (metis snd_conv)
next
  case False
  then show ?thesis by (simp add: safe_def)
qed

lemma safe_and_then:
  assumes "safe r (snd m)" "\<And>x r1. m = (Inr x, r1) \<Longrightarrow> safe r1 (snd (k x r1))" shows "safe r (snd (and_then m k))"
  using assms by (cases m) (auto simp: and_then_def split: sum.split intro: safe_trans)

lemma safe_published: "safe r r1 \<Longrightarrow> safe r (snd (x, publish_run es r1))"
  by (simp add: safe_publish)

lemma cancel_dispatches_safe: "safe r (snd (cancel_dispatches_for_task t msg r))"
  unfolding cancel_dispatches_for_task_def
  by (auto intro!: safe_and_then safe_run_txn cancel_body_safe safe_publish split: prod.split)

lemma end_dispatch_tables:
  "rt_dispatches (release_dispatch i r) = rt_dispatches r" "rt_reservations (release_dispatch i r) = filter (\<lambda>v. rv_dispatch v \<noteq> i) (rt_reservations r)"
  "rt_invocations (release_dispatch i r) = rt_invocations r" "rt_cal (release_dispatch i r) = rt_cal r"
  "rt_dispatches (end_dispatch i st r) = map (\<lambda>d. if di_id d = i then (unclaimed st d)\<lparr>di_updated_at := run_now r\<rparr> else d) (rt_dispatches r)"
  "rt_reservations (end_dispatch i st r) = rt_reservations r" "rt_invocations (end_dispatch i st r) = rt_invocations r"
  "rt_cal (end_dispatch i st r) = rt_cal r" "rt_activities (end_dispatch i st r) = rt_activities r"
  "rt_dispatches (note_error i msg r) = map (\<lambda>d. if di_id d = i then d\<lparr>di_last_error := msg, di_updated_at := run_now r\<rparr> else d) (rt_dispatches r)"
  "rt_reservations (note_error i msg r) = rt_reservations r" "rt_invocations (note_error i msg r) = rt_invocations r"
  "rt_cal (note_error i msg r) = rt_cal r"
  by (auto simp: release_dispatch_def end_dispatch_def note_error_def drop_reservations_def set_dispatches_def)

lemma abandon_safe: "safe r (snd (abandon_queued_dispatch i msg r))"
  unfolding abandon_queued_dispatch_def
proof (rule safe_run_txn)
  fix r
  define r1 where "r1 = (\<lambda>(d :: dispatch_row) m. release_dispatch i (set_invocations (\<lambda>v. iv_id v = di_invocation d) (\<lambda>v. v\<lparr>iv_status := InvocationCancelled,
     iv_error := m, iv_completed_at := coalesce (iv_completed_at v) (run_now r)\<rparr>)
       (set_dispatches (\<lambda>x. di_id x = i) (\<lambda>x. x\<lparr>di_status := DispatchFailed, di_last_error := m\<rparr>) r)))"
  have "safe r (r1 d m)" if "find (\<lambda>d. di_id d = i \<and> di_status d = DispatchSubmitted \<and> di_exec d = None) (rt_dispatches r) = Some d" for d m
  proof (rule safe_end_one [where F = "\<lambda>x. x\<lparr>di_status := DispatchFailed, di_last_error := m, di_updated_at := run_now r\<rparr>", OF quiet_refl])
    show "ended_in {i} r" if "rt_inv r"
      by (rule ended_in_none [OF that]) (use \<open>find _ _ = Some d\<close> in \<open>auto dest: find_Some_in\<close>)
    show "rt_dispatches (r1 d m) = map (\<lambda>x. if di_id x = i then x\<lparr>di_status := DispatchFailed, di_last_error := m, di_updated_at := run_now r\<rparr> else x) (rt_dispatches r)"
      by (simp add: r1_def end_dispatch_tables set_dispatches_map)
    show "rt_reservations (r1 d m) = filter (\<lambda>v. rv_dispatch v \<noteq> i) (rt_reservations r)"
      by (simp add: r1_def end_dispatch_tables)
    show "rt_invocations (r1 d m) = map (\<lambda>v. if iv_id v = di_invocation d then v\<lparr>iv_status := InvocationCancelled,
        iv_error := m, iv_completed_at := coalesce (iv_completed_at v) (run_now r)\<rparr> else v) (rt_invocations r)"
      by (simp add: r1_def end_dispatch_tables set_invocations_def set_dispatches_def)
    show "execs_kept (execs r) (execs (r1 d m))" by (simp add: r1_def end_dispatch_tables)
  qed (simp_all add: same_dispatch_def is_live_def same_invocation_def)
  then show "safe r (snd (case find (\<lambda>d. di_id d = i \<and> di_status d = DispatchSubmitted \<and> di_exec d = None) (rt_dispatches r) of
         None \<Rightarrow> (Inr (), r)
       | Some d \<Rightarrow>
           (let msg = trim_space msg;
                r1 = set_dispatches (\<lambda>x. di_id x = i) (\<lambda>x. x\<lparr>di_status := DispatchFailed, di_last_error := msg\<rparr>) r;
                r2 = set_invocations (\<lambda>v. iv_id v = di_invocation d) (\<lambda>v. v\<lparr>iv_status := InvocationCancelled, iv_error := msg,
                       iv_completed_at := coalesce (iv_completed_at v) (run_now r)\<rparr>) r1
            in (Inr (), release_dispatch i r2))))"
    by (auto simp: r1_def Let_def split: option.split)
qed

text \<open>A failed attempt.\<close>

lemma quiet_fail_task: "fail_task p d u c now r = (x, r1) \<Longrightarrow> quiet r r1"
  using quiet_update_task by (auto simp: fail_task_def Let_def quiet_def split: if_splits)

lemma fail_finally_safe:
  assumes d: "d \<in> set (rt_dispatches r)" shows "safe r (snd (fail_finally d v u msg now r))"
proof -
  define ex where "ex = (case di_exec d of None \<Rightarrow> None | Some e \<Rightarrow> find (\<lambda>x. ex_id x = e \<and> ex_task x = di_task d) (execs r))"
  define cancelled where "cancelled = (tk_status u = StatusCancelled \<or> (case ex of None \<Rightarrow> False | Some x \<Rightarrow> ex_status x = ExecCancelled))"
  define q where "q = (case di_exec d of None \<Rightarrow> r | Some e \<Rightarrow> end_executions (\<lambda>x. ex_id x = e \<and> ex_task x = di_task d)
     (if cancelled then ExecCancelled else ExecFailed) msg now r)"
  define r1 where "r1 = end_dispatch (di_id d) DispatchFailed (note_error (di_id d) msg r)"
  define r2 where "r2 = (case di_exec d of
                  None \<Rightarrow> r1
                | Some e \<Rightarrow>
                    set_activities (\<lambda>a. execute_activity (iv_id v) (di_id d) a \<and>
                        ac_status a \<in> {ActivityPending, ActivityRunning, ActivityWaiting})
                      (\<lambda>a. a\<lparr>ac_status := (if cancelled then ActivityCancelled else ActivityFailed), ac_error := msg,
                         ac_completed_at := coalesce (ac_completed_at a) now\<rparr>)
                      (end_executions (\<lambda>x. ex_id x = e \<and> ex_task x = di_task d)
                        (if cancelled then ExecCancelled else ExecFailed) msg now r1))"
  define h where "h = (\<lambda>x :: invocation_row. if iv_id x = iv_id v then x\<lparr>iv_status := (if cancelled then InvocationCancelled else InvocationFailed),
                 iv_error := msg, iv_completed_at := Some now\<rparr> else x)"
  define r3 where "r3 = set_invocations (\<lambda>x. iv_id x = iv_id v) (\<lambda>x. x\<lparr>iv_status := (if cancelled then InvocationCancelled else InvocationFailed),
                 iv_error := msg, iv_completed_at := Some now\<rparr>) r2"
  obtain out r4 where o: "fail_task (iv_project v) d u cancelled now r3 = (out, r4)" by (cases "fail_task (iv_project v) d u cancelled now r3")
  have s: "snd (fail_finally d v u msg now r) = release_dispatch (di_id d) r4"
    unfolding fail_finally_def Let_def ex_def [symmetric] cancelled_def [symmetric] r1_def [symmetric] r2_def [symmetric] r3_def [symmetric] o by simp
  from quiet_fail_task [OF o] have q4: "quiet r3 r4" .
  have q: "quiet r q \<and> (rt_inv r \<longrightarrow> ended_in {di_id d} q)"
  proof (cases "di_exec d")
    case None
    with d ended_in_none [of r "{di_id d}"] show ?thesis by (auto simp: q_def)
  next
    case (Some e)
    with ended_in_executions [OF _ d Some] show ?thesis by (auto simp: q_def intro: quiet_end_executions)
  qed
  have t3: "rt_dispatches r3 = map (\<lambda>x. if di_id x = di_id d then (unclaimed DispatchFailed x)\<lparr>di_last_error := msg, di_updated_at := run_now r\<rparr> else x) (rt_dispatches r)"
    "rt_reservations r3 = rt_reservations r" "rt_invocations r3 = map h (rt_invocations r)"
    "execs r3 = execs q"
    by (auto simp: r3_def r2_def r1_def h_def q_def end_dispatch_tables set_invocations_def unclaimed_def run_now_def
        execs_end_executions split: option.split)
  show ?thesis unfolding s
  proof (rule safe_end_one [where F = "\<lambda>x. (unclaimed DispatchFailed x)\<lparr>di_last_error := msg, di_updated_at := run_now r\<rparr>" and h = h, of r q])
    show "execs_kept (execs q) (execs (release_dispatch (di_id d) r4))" using q4 t3(4) by (simp add: quiet_def end_dispatch_tables)
  qed (use q q4 t3 in \<open>auto simp: quiet_def end_dispatch_tables same_dispatch_def is_live_def unclaimed_def h_def same_invocation_def\<close>)
qed

lemma retry_safe: "safe r (set_dispatches (\<lambda>x. di_id x = i) (\<lambda>x. (unclaimed DispatchPending x)\<lparr>di_last_error := m, di_next_attempt := t\<rparr>) r)"
  if "rt_inv r \<Longrightarrow> \<forall>d \<in> set (rt_dispatches r). di_id d = i \<longrightarrow> is_live d"
proof (cases "rt_inv r")
  case True
  show ?thesis by (rule safe_set_dispatches)
    (use that [OF True] in \<open>auto simp: same_dispatch_def keeps_claim_def is_live_def unclaimed_def\<close>)
next
  case False
  then show ?thesis by (simp add: safe_def)
qed

lemma rt_inv_id:
  "rt_inv r \<Longrightarrow> d \<in> set (rt_dispatches r) \<Longrightarrow> x \<in> set (rt_dispatches r) \<Longrightarrow> di_id x = di_id d \<Longrightarrow> x = d"
  by (auto simp: rt_inv_def distinct_map dest: inj_onD)

lemma held_live: "held_by i c d \<Longrightarrow> is_live d \<and> di_id d = i"
  by (simp add: held_by_def is_live_def)

lemma fail_body_safe: "safe r (snd (fail_body i c msg most now r))"
proof (cases "find (held_by i c) (rt_dispatches r)")
  case None
  then show ?thesis by (simp add: fail_body_def)
next
  case (Some d)
  then have d: "d \<in> set (rt_dispatches r)" "is_live d" "di_id d = i" using held_live by (auto dest!: find_Some_in)
  have "safe r (set_dispatches (\<lambda>x. di_id x = i) (\<lambda>x. (unclaimed DispatchPending x)\<lparr>di_last_error := m, di_next_attempt := t\<rparr>) r)" for m t
    by (rule retry_safe) (use d rt_inv_id in metis)
  with fail_finally_safe [OF d(1)] show ?thesis
    by (auto simp: fail_body_def Some split: option.split prod.split) (metis snd_conv)
qed

lemma fail_dispatch_safe: "safe r (snd (fail_dispatch i c msg most now r))"
  unfolding fail_dispatch_def by (auto intro!: safe_and_then safe_run_txn fail_body_safe safe_publish)

subsection \<open>The completion\<close>

lemma execs_set_execs [simp]:
  "db_execs (set_execs P f d) = map (\<lambda>e. if P e then f e else e) (db_execs d)"
  by (simp add: set_execs_def)

lemma completed_exec:
  fixes r :: runtime and e :: string
  assumes f: "\<And>x. ex_id (f x) = ex_id x \<and> ex_dispatch (f x) = ex_dispatch x \<and> ex_task (f x) = ex_task x \<and> exec_ended (f x)"
  defines "r1 \<equiv> update_tasks (set_execs (\<lambda>x. ex_id x = e \<and> ex_status x = ExecRunning) f) r"
  shows "quiet r r1 \<and> (rt_inv r \<longrightarrow> d \<in> set (rt_dispatches r) \<longrightarrow> di_exec d = Some e \<longrightarrow> ended_in {di_id d} r1)"
proof (intro conjI impI)
  have "execs_kept (execs r) (map (\<lambda>x. if ex_id x = e \<and> ex_status x = ExecRunning then f x else x) (execs r))"
    by (rule execs_kept_map) (use f in \<open>auto simp: same_run_def exec_ended_def\<close>)
  then show "quiet r r1" unfolding quiet_def r1_def by simp
next
  assume i: "rt_inv r" "d \<in> set (rt_dispatches r)" "di_exec d = Some e"
  show "ended_in {di_id d} r1" unfolding ended_in_def
  proof (intro ballI impI)
    fix y j assume y: "y \<in> set (execs r1)" "j \<in> {di_id d}" "ex_dispatch y = Some j"
    then obtain x where x: "x \<in> set (execs r)" "y = (if ex_id x = e \<and> ex_status x = ExecRunning then f x else x)"
      unfolding r1_def by auto
    with y f have dx: "ex_dispatch x = Some (di_id d)" by (auto split: if_splits)
    from rt_inv_exec [OF i(1) x(1) dx i(2)] i(3) have "ex_id x = e" by simp
    moreover from i(1) x(1) dx have "ex_status x \<noteq> ExecQueued" unfolding rt_inv_def by blast
    ultimately show "exec_ended y" using x(2) f [of x] by (auto simp: exec_ended_def split: if_splits)
  qed
qed

lemma quiet_end_running_task: "end_running_task t st r = (b, r1) \<Longrightarrow> quiet r r1"
  using quiet_update_task by (auto simp: end_running_task_def quiet_def split: option.splits if_splits)

lemma quiet_move_ended_task: "move_ended_task t old c st r = (b, r1) \<Longrightarrow> quiet r r1"
  using quiet_update_task by (auto simp: move_ended_task_def quiet_def split: option.splits if_splits)

lemma run_outcome_over: "\<not> is_live (d\<lparr>di_status := fst (run_outcome st), di_claimed_by := c, di_claim_expires := x\<rparr>)"
  by (cases st) (simp_all add: run_outcome_def is_live_def)

lemma complete_body_safe:
  assumes b: "complete_body i e st tst msg r = (Inr es, r')" and st: "task_status_of_exec st = Some tst"
  shows "safe r r'"
proof -
  from b obtain d where d: "find (\<lambda>d. di_id d = i \<and> di_exec d = Some e) (rt_dispatches r) = Some d"
    by (auto simp: complete_body_def split: option.splits)
  then have mem: "d \<in> set (rt_dispatches r)" "di_id d = i" "di_exec d = Some e" by (auto dest: find_Some_in)
  from b d obtain v u where v: "get_invocation (di_invocation d) r = Some v" "find_task (di_task d) r = Some u"
    by (auto simp: complete_body_def split: option.splits)
  define r1 where "r1 = update_tasks (set_execs (\<lambda>x. ex_id x = e \<and> ex_status x = ExecRunning)
    (\<lambda>x. x\<lparr>ex_status := st, ex_error := msg, ex_completed_at := Some (run_now r)\<rparr>)) r"
  obtain changed r2 where r2: "end_running_task (di_task d) tst r1 = (changed, r2)" by (metis surj_pair)
  obtain moved r3 where r3: "move_ended_task (di_task d) (tk_category u) (terminal_category st (tk_category u)) tst r2 = (moved, r3)"
    by (metis surj_pair)
  define r4 where "r4 = end_dispatch i (fst (run_outcome st)) r3"
  define r5 where "r5 = set_activities (execute_activity (iv_id v) i)
    (\<lambda>a. a\<lparr>ac_status := snd (snd (run_outcome st)), ac_error := msg, ac_completed_at := Some (run_now r)\<rparr>) r4"
  define h where "h = (\<lambda>x :: invocation_row. if iv_id x = iv_id v then x\<lparr>iv_status := invocation_outcome st (iv_id v) r5, iv_error := msg,
    iv_completed_at := (if invocation_outcome st (iv_id v) r5 = InvocationRunning then None else Some (run_now r))\<rparr> else x)"
  from b d v have r': "r' = release_dispatch i (set_invocations (\<lambda>x. iv_id x = iv_id v) (\<lambda>x. x\<lparr>iv_status := invocation_outcome st (iv_id v) r5,
      iv_error := msg, iv_completed_at := (if invocation_outcome st (iv_id v) r5 = InvocationRunning then None else Some (run_now r))\<rparr>) r5)"
    by (simp add: complete_body_def r1_def [symmetric] r2 r3 r4_def [symmetric] Let_def r5_def [symmetric] split: if_splits)
  have st': "st \<noteq> ExecRunning" "st \<noteq> ExecQueued" using st by (auto simp: task_status_of_exec_def split: exec_status.splits)
  have q: "quiet r r1" "rt_inv r \<longrightarrow> ended_in {i} r1"
    using completed_exec [where f = "\<lambda>x. x\<lparr>ex_status := st, ex_error := msg, ex_completed_at := Some (run_now r)\<rparr>" and e = e and r = r and d = d] mem st'
    by (auto simp: r1_def exec_ended_def)
  have q3: "quiet r1 r3" using quiet_trans [OF quiet_end_running_task [OF r2] quiet_move_ended_task [OF r3]] .
  show ?thesis
  proof (rule safe_end_one [where F = "\<lambda>x. (unclaimed (fst (run_outcome st)) x)\<lparr>di_updated_at := run_now r3\<rparr>" and h = h and i = i])
    show "quiet r r3" using q(1) q3 by (rule quiet_trans)
    show "rt_inv r \<Longrightarrow> ended_in {i} r3" using q(2) q3 by (auto simp: quiet_def intro: ended_in_later)
  qed (auto simp: r' r4_def r5_def h_def end_dispatch_tables set_invocations_def same_dispatch_def same_invocation_def unclaimed_def
      set_activities_def run_outcome_def is_live_def split: exec_status.split)
qed

lemma complete_safe: "safe r (snd (complete_dispatch i e st m r))"
proof (cases "task_status_of_exec st")
  case (Some tst)
  show ?thesis unfolding complete_dispatch_def Some option.case
    by (intro safe_and_then safe_run_txn_committed safe_published) (use complete_body_safe [OF _ Some] in auto)
qed (simp add: complete_dispatch_def)

subsection \<open>The end of an automation\<close>

lemma demote_quiet: "quiet r (demote_tasks p a v r)"
proof -
  have "quiet r (fold (\<lambda>t. update_tasks (update_task_row (tk_id t) f)) ts r)" for f ts
    by (induction ts arbitrary: r) (auto intro: quiet_trans quiet_update_task)
  then show ?thesis unfolding demote_tasks_def .
qed

lemma execs_paused [simp]: "db_execs (keep_paused_tasks p a v d) = db_execs d" "db_execs (drop_paused_tasks a d) = db_execs d"
proof -
  have "db_execs (fold (\<lambda>t. keep_paused_admission (tk_id t) (a, v)) ts d) = db_execs d" for ts
    by (induction ts arbitrary: d) (simp_all add: keep_paused_admission_def)
  then show "db_execs (keep_paused_tasks p a v d) = db_execs d" by (simp add: keep_paused_tasks_def)
qed (simp add: drop_paused_tasks_def)

lemma withdraw_safe: "safe r (withdraw_dispatches p a msg r)"
proof -
  define gone where "gone = filter (withdrawn_dispatch p a r) (rt_dispatches r)"
  show ?thesis
  proof (rule safe_close [where D = "di_id ` set gone" and F = "\<lambda>d. (unclaimed DispatchFailed d)\<lparr>di_last_error := msg, di_updated_at := run_now r\<rparr>"
        and h = "\<lambda>v. if iv_id v \<in> di_invocation ` set gone then v\<lparr>iv_status := InvocationCancelled, iv_error := msg,
                 iv_completed_at := coalesce (iv_completed_at v) (run_now r)\<rparr> else v"])
    show "rt_inv r \<Longrightarrow> ended_in (di_id ` set gone) (withdraw_dispatches p a msg r)"
      by (rule ended_in_later [OF ended_in_none [of r "di_id ` set gone"]])
        (auto simp: gone_def withdrawn_dispatch_def withdraw_dispatches_def Let_def)
  qed (auto simp: withdraw_dispatches_def Let_def gone_def [symmetric] set_dispatches_def set_invocations_def drop_reservations_def
      same_dispatch_def is_live_def unclaimed_def same_invocation_def run_now_def)
qed

lemma quiet_owner_state: "quiet r (set_owner_state p a os st r)"
  by (simp add: quiet_def set_owner_state_def)

lemma lifecycle_body_safe: "safe r (snd (lifecycle_body p a st r))"
proof -
  have "safe r (set_owner_state p a os st (demote_tasks p a v (update_tasks f (withdraw_dispatches p a msg (write_schedules P g r)))))"
    if "\<And>d. db_execs (f d) = db_execs d" for os v f msg P g
  proof -
    have "safe r (withdraw_dispatches p a msg (write_schedules P g r))"
      by (rule safe_trans [OF safe_quiet [OF quiet_write_schedules] withdraw_safe])
    moreover have "quiet q (update_tasks f q)" for q using that by (simp add: quiet_def)
    ultimately show ?thesis by (meson safe_trans safe_quiet demote_quiet quiet_owner_state)
  qed
  then show ?thesis by (auto simp: lifecycle_body_def Let_def split: option.split)
qed

lemma set_lifecycle_safe: "safe r (snd (set_lifecycle p a st r))"
  by (auto simp: set_lifecycle_def intro: safe_run_txn lifecycle_body_safe)

subsection \<open>Leases\<close>

text \<open>What a lease or a claim of \<open>c\<close> may change: nobody else's claims.\<close>

definition claims_but :: "string \<Rightarrow> runtime \<Rightarrow> runtime \<Rightarrow> bool" where
  "claims_but c r r' \<longleftrightarrow>
     (\<forall>d' \<in> set (rt_dispatches r'). di_status d' = DispatchProcessing \<longrightarrow> di_claimed_by d' \<noteq> c \<longrightarrow>
        (\<exists>d \<in> set (rt_dispatches r). di_id d = di_id d' \<and> di_status d = DispatchProcessing \<and> di_claimed_by d = di_claimed_by d' \<and>
           di_exec d = di_exec d'))"

definition safe_but :: "string \<Rightarrow> runtime \<Rightarrow> runtime \<Rightarrow> bool" where
  "safe_but c r r' \<longleftrightarrow> (rt_inv r \<longrightarrow> rt_inv r' \<and> claims_but c r r' \<and> runs_kept r r')"

lemma safe_butI: "safe r r' \<Longrightarrow> safe_but c r r'"
  by (auto simp: safe_def safe_but_def claims_kept_def claims_but_def)

lemma claims_but_trans:
  assumes "claims_but c r1 r2" "claims_but c r2 r3" shows "claims_but c r1 r3"
  unfolding claims_but_def
proof (intro ballI impI)
  fix d3 assume "d3 \<in> set (rt_dispatches r3)" "di_status d3 = DispatchProcessing" "di_claimed_by d3 \<noteq> c"
  with assms(2) obtain d2 where d2: "d2 \<in> set (rt_dispatches r2)" "di_id d2 = di_id d3" "di_status d2 = DispatchProcessing"
    "di_claimed_by d2 = di_claimed_by d3" "di_exec d2 = di_exec d3" "di_claimed_by d2 \<noteq> c" unfolding claims_but_def by metis
  with assms(1) obtain d1 where "d1 \<in> set (rt_dispatches r1)" "di_id d1 = di_id d2" "di_status d1 = DispatchProcessing"
    "di_claimed_by d1 = di_claimed_by d2" "di_exec d1 = di_exec d2" unfolding claims_but_def by blast
  with d2 show "\<exists>d \<in> set (rt_dispatches r1). di_id d = di_id d3 \<and> di_status d = DispatchProcessing \<and>
      di_claimed_by d = di_claimed_by d3 \<and> di_exec d = di_exec d3" by auto
qed

lemma safe_but_trans: "safe_but c r1 r2 \<Longrightarrow> safe_but c r2 r3 \<Longrightarrow> safe_but c r1 r3"
  by (auto simp: safe_but_def intro: claims_but_trans runs_kept_trans)

lemma safe_but_run_txn:
  assumes "\<And>r x r'. body r = (Inr x, r') \<Longrightarrow> safe_but c r r'" shows "safe_but c r (snd (run_txn body r))"
proof -
  obtain f r1 where f: "run_fault r = (f, r1)" by (cases "run_fault r")
  obtain x r2 where b: "body r1 = (x, r2)" by (cases "body r1")
  from f have "safe_but c r r1" by (intro safe_butI safe_run_fault)
  with assms [of r1] b show ?thesis by (auto simp: run_txn_def f split: bool.split sum.split intro: safe_but_trans)
qed

lemma run_txn_committed:
  assumes "run_txn body r = (Inr x, r')" obtains r1 where "quiet r r1" "body r1 = (Inr x, r')"
  using assms by (auto simp: run_txn_def split: prod.splits bool.splits sum.splits dest: quiet_run_fault)

text \<open>The rows the claimant \<open>c\<close> has of the dispatch \<open>i\<close> name the execution \<open>e\<close>.\<close>

definition holds_with :: "string \<Rightarrow> string \<Rightarrow> string option \<Rightarrow> runtime \<Rightarrow> bool" where
  "holds_with i c e r \<longleftrightarrow> (\<forall>d \<in> set (rt_dispatches r). held_by i c d \<longrightarrow> di_exec d = e)"

lemma holds_with_kept: "holds_with i c e r \<Longrightarrow> claims_kept r r' \<Longrightarrow> holds_with i c e r'"
  unfolding holds_with_def claims_kept_def held_by_def by metis

lemma holds_with_but: "holds_with i c e r \<Longrightarrow> claims_but b r r' \<Longrightarrow> c \<noteq> b \<Longrightarrow> holds_with i c e r'"
  unfolding holds_with_def claims_but_def held_by_def by metis

lemma lease_body_safe:
  assumes "lease_body c now ex r = (Inr x, r')"
  shows "safe_but c r r' \<and> (rt_inv r \<longrightarrow> (\<forall>d. x = Some d \<longrightarrow> holds_with (di_id d) c (di_exec d) r'))"
proof (cases "sort_key lease_order (filter (leasable now) (rt_dispatches r))")
  case Nil
  with assms show ?thesis by (auto simp: lease_body_def intro: safe_butI)
next
  case (Cons d ds)
  then have "d \<in> set (sort_key lease_order (filter (leasable now) (rt_dispatches r)))" by simp
  then have d: "d \<in> set (rt_dispatches r)" "is_live d" by (auto simp: leasable_def is_live_def)
  from assms Cons have x: "x = Some (leased c ex d)" and r': "r' = set_dispatches (\<lambda>x. di_id x = di_id d) (leased c ex) r"
    by (auto simp: lease_body_def)
  have "safe_but c r r'" unfolding safe_but_def
  proof (intro impI conjI)
    assume i: "rt_inv r"
    have "shuts {} r r'"
      by (rule shuts_map [where g = "\<lambda>v. v" and h = "\<lambda>v. v"], unfold r', rule set_dispatches_map)
        (use d rt_inv_id [OF i d(1)] in \<open>auto simp: same_dispatch_def leased_def is_live_def\<close>)
    with i show "rt_inv r'" by (rule rt_inv_shuts)
    show "claims_but c r r'" by (auto simp: claims_but_def r' set_dispatches_map leased_def)
    show "runs_kept r r'"
      by (rule runs_keptI, simp add: r')
        (rule rows_kept_map [where h = "\<lambda>v. v" and ds = "[]" and vs = "[]"], unfold r', subst set_dispatches_map, rule append_Nil2 [symmetric],
          auto simp: leased_def)
  qed
  moreover have "holds_with (di_id d) c (di_exec d) r'" if "rt_inv r"
    unfolding holds_with_def
  proof (intro ballI impI)
    fix y assume "y \<in> set (rt_dispatches r')" "held_by (di_id d) c y"
    then obtain z where z: "z \<in> set (rt_dispatches r)" "di_id z = di_id d" "di_exec y = di_exec z"
      by (auto simp: r' set_dispatches_map held_by_def leased_def split: if_splits)
    with rt_inv_id [OF that d(1) z(1)] show "di_exec y = di_exec d" by simp
  qed
  ultimately show ?thesis by (simp add: x) (simp add: leased_def)
qed

lemma lease_safe:
  assumes "lease_next_dispatch c now l r = (x, r')"
  shows "safe_but (trim_space c) r r'" "rt_inv r \<Longrightarrow> x = Inr (Some d) \<Longrightarrow> holds_with (di_id d) (trim_space c) (di_exec d) r'"
proof -
  have "safe_but (trim_space c) r (snd (lease_next_dispatch c now l r))"
  proof (cases "trim_space c = ''''")
    case False
    have "safe_but (trim_space c) r (snd (run_txn (lease_body (trim_space c) now (now + lease_for l)) r))"
      by (rule safe_but_run_txn) (use lease_body_safe in blast)
    with False show ?thesis by (simp add: lease_next_dispatch_def)
  qed (simp add: lease_next_dispatch_def safe_butI)
  with assms show "safe_but (trim_space c) r r'" by simp
next
  assume i: "rt_inv r" and x: "x = Inr (Some d)"
  with assms have "run_txn (lease_body (trim_space c) now (now + lease_for l)) r = (Inr (Some d), r')"
    by (simp add: lease_next_dispatch_def split: if_splits)
  then obtain r1 where r1: "quiet r r1" "lease_body (trim_space c) now (now + lease_for l) r1 = (Inr (Some d), r')"
    by (rule run_txn_committed)
  from i safe_quiet [OF r1(1)] have "rt_inv r1" by (simp add: safe_def)
  with lease_body_safe [OF r1(2)] show "holds_with (di_id d) (trim_space c) (di_exec d) r'" by blast
qed

subsection \<open>Admissions\<close>

text \<open>What an admission leaves of the other occurrences: the one it is for is free.\<close>

definition occurrence_free :: "run_trigger \<Rightarrow> string \<Rightarrow> run_key \<Rightarrow> runtime \<Rightarrow> bool" where
  "occurrence_free tr s k r \<longleftrightarrow>
     (tr = TriggerSchedule \<longrightarrow> (\<forall>v \<in> set (rt_invocations r). iv_trigger v = TriggerSchedule \<longrightarrow> iv_resource v = s \<longrightarrow> iv_key v \<noteq> k))"

lemma rt_inv_skipped:
  assumes "rt_inv r" "iv_id v \<notin> iv_id ` set (rt_invocations r)" "occurrence_free (iv_trigger v) (iv_resource v) (iv_key v) r"
    and "rt_dispatches r' = rt_dispatches r" "rt_reservations r' = rt_reservations r" "execs r' = execs r"
    and "rt_invocations r' = rt_invocations r @ [v]"
  shows "rt_inv r'"
  using assms unfolding rt_inv_def occurrence_free_def assms(4-7) by (auto simp: eq_commute)

lemma rt_inv_admitted:
  assumes i: "rt_inv r" and v: "iv_id v \<notin> iv_id ` set (rt_invocations r)" "occurrence_free (iv_trigger v) (iv_resource v) (iv_key v) r"
    and d: "di_id d \<notin> di_id ` set (rt_dispatches r)" "di_invocation d \<notin> di_invocation ` set (rt_dispatches r)" "di_status d = DispatchPending"
    and w: "rv_task w \<notin> rv_task ` set (rt_reservations r)" "rv_dispatch w = di_id d" "rv_task w = di_task d"
    and f: "rt_dispatches r' = rt_dispatches r @ [d]" "rt_reservations r' = rt_reservations r @ [w]"
      "rt_invocations r' = rt_invocations r @ [v]" "execs r' = execs r"
  shows "rt_inv r'"
proof -
  have new: "rv_dispatch u \<noteq> di_id d" if "u \<in> set (rt_reservations r)" for u
    using i that d(1) unfolding rt_inv_def by (metis image_eqI)
  have live: "is_live d" using d(3) by (simp add: is_live_def)
  have a: "\<forall>x \<in> set (rt_dispatches r'). is_live x \<longleftrightarrow> (\<exists>u \<in> set (rt_reservations r'). rv_dispatch u = di_id x)"
  proof
    fix x assume "x \<in> set (rt_dispatches r')"
    then consider "x = d" | "x \<in> set (rt_dispatches r)" by (auto simp: f)
    then show "is_live x \<longleftrightarrow> (\<exists>u \<in> set (rt_reservations r'). rv_dispatch u = di_id x)"
    proof cases
      case 2
      with d(1) have "di_id x \<noteq> di_id d" by (metis image_eqI)
      with 2 i w(2) show ?thesis by (auto simp: f rt_inv_def)
    qed (simp add: live f w(2))
  qed
  have b: "\<forall>u \<in> set (rt_reservations r'). \<exists>x \<in> set (rt_dispatches r'). di_id x = rv_dispatch u \<and> di_task x = rv_task u"
    using i w(2,3) by (auto simp: f rt_inv_def)
  have c: "\<forall>e \<in> set (execs r'). \<forall>j. ex_dispatch e = Some j \<longrightarrow> ex_status e \<noteq> ExecQueued \<and>
      (\<exists>x \<in> set (rt_dispatches r'). di_id x = j \<and> di_exec x = Some (ex_id e) \<and> di_task x = ex_task e \<and> (exec_ended e \<or> is_live x))"
    using i unfolding f rt_inv_def by auto
  have "\<forall>x \<in> set (rt_invocations r'). \<forall>y \<in> set (rt_invocations r'). iv_trigger x = TriggerSchedule \<longrightarrow> iv_trigger y = TriggerSchedule \<longrightarrow>
        iv_resource x = iv_resource y \<longrightarrow> iv_key x = iv_key y \<longrightarrow> x = y"
    using i v(2) unfolding f rt_inv_def occurrence_free_def by (auto simp: eq_commute)
  with a b c i v(1) d(1,2) w(1) show ?thesis unfolding rt_inv_def by (auto simp: f)
qed

lemma new_run_id_fields:
  "new_run_id r = (x, r1) \<Longrightarrow> rt_dispatches r1 = rt_dispatches r \<and> rt_invocations r1 = rt_invocations r \<and>
     rt_reservations r1 = rt_reservations r \<and> execs r1 = execs r"
  by (auto simp: new_run_id_def split: list.splits)

lemma insert_invocation_row:
  assumes "insert_invocation v r = (Inr u, r1)"
  shows "rt_dispatches r1 = rt_dispatches r \<and> rt_reservations r1 = rt_reservations r \<and> execs r1 = execs r \<and>
    rt_invocations r1 = rt_invocations r @ [u] \<and> iv_id u \<notin> iv_id ` set (rt_invocations r) \<and> iv_trigger u = iv_trigger v \<and>
    iv_resource u = iv_resource v \<and> iv_key u = iv_key v \<and> iv_status u = iv_status v"
  using assms by (auto simp: insert_invocation_def and_then_def split: prod.splits sum.splits if_splits dest!: new_run_id_fields)

lemma insert_dispatch_row:
  assumes "insert_dispatch v t r = (Inr d, r1)"
  shows "rt_dispatches r1 = rt_dispatches r @ [d] \<and> rt_reservations r1 = rt_reservations r \<and> execs r1 = execs r \<and>
    rt_invocations r1 = rt_invocations r \<and> di_id d \<notin> di_id ` set (rt_dispatches r) \<and> di_invocation d \<notin> di_invocation ` set (rt_dispatches r) \<and>
    di_status d = DispatchPending \<and> di_task d = t \<and> di_invocation d = v \<and> di_exec d = None"
  using assms by (auto simp: insert_dispatch_def and_then_def Let_def split: prod.splits sum.splits if_splits dest!: new_run_id_fields)

lemma insert_reservation_row:
  assumes "insert_reservation t d p r = (x, r1)" "x = Inr ()"
  shows "rt_dispatches r1 = rt_dispatches r \<and> rt_invocations r1 = rt_invocations r \<and> execs r1 = execs r \<and>
    t \<notin> rv_task ` set (rt_reservations r) \<and> (\<exists>w. rt_reservations r1 = rt_reservations r @ [w] \<and> rv_task w = t \<and> rv_dispatch w = d)"
  using assms by (auto simp: insert_reservation_def split: if_splits)

lemma prepare_quiet:
  assumes "on_tasks (prepare_run_task i p c) r = (x, r1)" shows "quiet r r1"
  using assms execs_kept_update_task_row [of "run_tables r" i]
  by (auto simp: on_tasks_def prepare_run_task_def quiet_def split: option.splits if_splits)

lemma and_then_Inr:
  assumes "and_then m k = (Inr y, r')" obtains x r1 where "m = (Inr x, r1)" "k x r1 = (Inr y, r')"
  using assms by (auto simp: and_then_def split: prod.splits sum.splits)

lemma admission_safe:
  assumes a: "claim_task_admission i r = (Inr am, r')" and f: "occurrence_free (ri_trigger i) (ri_resource i) (ri_key i) r"
  shows "safe r r'"
  unfolding safe_def
proof
  assume inv: "rt_inv r"
  define skipped where "skipped = skip_reason i r"
  from a obtain c where a1: "and_then (insert_invocation (invocation_for i skipped) r) (\<lambda>v r1.
               if skipped \<noteq> '''' then (Inr \<lparr>am_invocation = v, am_dispatch = None, am_category = c, am_skipped = skipped\<rparr>, r1)
               else and_then (insert_dispatch (iv_id v) (ri_task i) r1) (\<lambda>d r2.
                 and_then (insert_reservation (ri_task i) (di_id d) (ri_project i) r2) (\<lambda>_ r3.
                   and_then (on_tasks (prepare_run_task (ri_task i) (ri_project i) c) r3) (\<lambda>_ r4.
                     (Inr \<lparr>am_invocation = v, am_dispatch = Some d, am_category = c, am_skipped = ''''\<rparr>, r4))))) = (Inr am, r')"
    unfolding claim_task_admission_def Let_def skipped_def [symmetric] by (auto split: sum.splits)
  then obtain v r1 where v: "insert_invocation (invocation_for i skipped) r = (Inr v, r1)"
    and k: "(if skipped \<noteq> '''' then (Inr \<lparr>am_invocation = v, am_dispatch = None, am_category = c, am_skipped = skipped\<rparr>, r1)
               else and_then (insert_dispatch (iv_id v) (ri_task i) r1) (\<lambda>d r2.
                 and_then (insert_reservation (ri_task i) (di_id d) (ri_project i) r2) (\<lambda>_ r3.
                   and_then (on_tasks (prepare_run_task (ri_task i) (ri_project i) c) r3) (\<lambda>_ r4.
                     (Inr \<lparr>am_invocation = v, am_dispatch = Some d, am_category = c, am_skipped = ''''\<rparr>, r4))))) = (Inr am, r')"
    by (rule and_then_Inr)
  note iv = insert_invocation_row [OF v]
  have free: "occurrence_free (iv_trigger v) (iv_resource v) (iv_key v) r" using f iv by (simp add: invocation_for_def)
  show "rt_inv r' \<and> claims_kept r r' \<and> runs_kept r r'"
  proof (cases "skipped = ''''")
    case False
    with k have "r' = r1" by simp
    moreover have "rows_kept r r1"
      by (rule rows_kept_map [where f = "\<lambda>d. d" and h = "\<lambda>v. v" and ds = "[]" and vs = "[v]"]) (use iv in simp_all)
    ultimately show ?thesis using iv rt_inv_skipped [OF inv _ free, of r1] by (auto intro: claims_kept_same runs_keptI)
  next
    case True
    with k obtain d r2 where d: "insert_dispatch (iv_id v) (ri_task i) r1 = (Inr d, r2)"
      and k2: "and_then (insert_reservation (ri_task i) (di_id d) (ri_project i) r2) (\<lambda>_ r3.
                   and_then (on_tasks (prepare_run_task (ri_task i) (ri_project i) c) r3) (\<lambda>_ r4.
                     (Inr \<lparr>am_invocation = v, am_dispatch = Some d, am_category = c, am_skipped = ''''\<rparr>, r4))) = (Inr am, r')"
      by (auto elim: and_then_Inr)
    from k2 obtain y r3 where w: "insert_reservation (ri_task i) (di_id d) (ri_project i) r2 = (Inr y, r3)"
      and k3: "and_then (on_tasks (prepare_run_task (ri_task i) (ri_project i) c) r3) (\<lambda>_ r4.
                     (Inr \<lparr>am_invocation = v, am_dispatch = Some d, am_category = c, am_skipped = ''''\<rparr>, r4)) = (Inr am, r')"
      by (rule and_then_Inr)
    from k3 obtain z r4 where p: "on_tasks (prepare_run_task (ri_task i) (ri_project i) c) r3 = (Inr z, r4)" "r4 = r'"
      by (auto elim: and_then_Inr)
    note di = insert_dispatch_row [OF d]
    from insert_reservation_row [OF w] obtain u where u: "rt_reservations r3 = rt_reservations r2 @ [u]" "rv_task u = ri_task i" "rv_dispatch u = di_id d"
      "ri_task i \<notin> rv_task ` set (rt_reservations r2)" "rt_dispatches r3 = rt_dispatches r2" "rt_invocations r3 = rt_invocations r2" "execs r3 = execs r2"
      by auto
    have "rt_inv r3"
      by (rule rt_inv_admitted [OF inv _ free, where d = d and w = u]) (use iv di u in metis)+
    moreover have s: "safe r3 r'" using safe_quiet [OF prepare_quiet [OF p(1)]] p(2) by simp
    moreover have "claims_kept r r3" using iv di u by (auto simp: claims_kept_def)
    moreover have "rows_kept r r3"
      by (rule rows_kept_map [where f = "\<lambda>d. d" and h = "\<lambda>v. v" and ds = "[d]" and vs = "[v]"]) (use iv di u in simp_all)
    then have "runs_kept r r3" by (rule runs_keptI [rotated]) (use iv di u in simp)
    ultimately show ?thesis by (auto simp: safe_def intro: claims_kept_trans runs_kept_trans)
  qed
qed

lemma admit_entries_safe:
  "admit_entries adapter now es r = (Inr as, r') \<Longrightarrow> safe r r'"
proof (induction es arbitrary: r as)
  case (Cons e es)
  then obtain n r1 where n: "new_run_id r = (Inr n, r1)" and k: "and_then (claim_task_admission (manual_input adapter now n e) r1) (\<lambda>a r2.
         and_then (admit_entries adapter now es r2) (\<lambda>as r3. (Inr (a # as), r3))) = (Inr as, r')" by (auto elim: and_then_Inr)
  from k obtain a r2 where a: "claim_task_admission (manual_input adapter now n e) r1 = (Inr a, r2)"
    and k2: "and_then (admit_entries adapter now es r2) (\<lambda>as r3. (Inr (a # as), r3)) = (Inr as, r')" by (rule and_then_Inr)
  from k2 obtain bs where "admit_entries adapter now es r2 = (Inr bs, r')" by (auto elim: and_then_Inr)
  with Cons.IH have "safe r2 r'" by blast
  moreover have "safe r1 r2" by (rule admission_safe [OF a]) (simp add: occurrence_free_def manual_input_def split: prod.split)
  moreover have "safe r r1" by (rule safe_quiet) (use new_run_id_fields [OF n] in \<open>simp add: quiet_def\<close>)
  ultimately show ?case by (blast intro: safe_trans)
qed (simp add: safe_refl)

lemma manual_safe: "safe r (snd (claim_manual_run p a now r))"
proof -
  have "safe r r'" if "manual_body p a now r = (Inr x, r')" for r x r'
    using that by (auto simp: manual_body_def Let_def split: option.splits if_splits elim!: and_then_Inr intro: admit_entries_safe)
  then show ?thesis unfolding claim_manual_run_def by (intro safe_and_then safe_run_txn_committed safe_published safe_refl)
qed

lemma scheduled_body_safe:
  assumes b: "claim_scheduled_body s due now nxt r = (Inr x, r')" shows "safe r r'"
proof (cases "load_occurrence (sc_id s) (OccurrenceKey (sc_id s) due) r")
  case (Some y)
  with b show ?thesis by (auto simp: claim_scheduled_body_def split: if_splits prod.splits intro!: safe_quiet quiet_write_schedules)
next
  case None
  with b obtain w adapter q t where o: "active_owner (sc_id s) r = Some (w, adapter)" and q: "get_schedule (sc_id s) (rt_cal r) = Some q"
    "find_task (sc_task_id q) r = Some t"
    by (auto simp: claim_scheduled_body_def split: if_splits option.splits)
  with b None obtain am r1 where a: "claim_task_admission (scheduled_input w adapter due now t) r = (Inr am, r1)"
    and r': "r' = write_schedules (\<lambda>u. sc_id u = sc_id s \<and> sc_enabled u \<and> sc_next_run u = Some due)
        (\<lambda>u. u\<lparr>sc_last_run := Some now, sc_next_run := nxt\<rparr>) r1"
    by (auto simp: claim_scheduled_body_def split: if_splits elim!: and_then_Inr)
  from o have "ow_schedule w = sc_id s" by (auto simp: active_owner_def split: option.splits dest!: find_Some_in)
  with None have "occurrence_free TriggerSchedule (ow_schedule w) (OccurrenceKey (ow_schedule w) due) r"
    by (auto simp: load_occurrence_def occurrence_free_def find_None_iff split: option.splits)
  with admission_safe [OF a] have "safe r r1" by (simp add: scheduled_input_def)
  with safe_quiet [OF quiet_write_schedules] show ?thesis unfolding r' by (rule safe_trans [rotated])
qed

lemma scheduled_safe: "safe r (snd (claim_scheduled_occurrence s now nxt r))"
proof (cases "sc_next_run s")
  case (Some due)
  show ?thesis unfolding claim_scheduled_occurrence_def Some option.case
    by (intro safe_and_then safe_run_txn_committed) (auto intro: scheduled_body_safe safe_publish split: prod.split)
qed (simp add: claim_scheduled_occurrence_def)


subsection \<open>Claims\<close>

text \<open>A new execution of a live dispatch that has none.\<close>

lemma rt_inv_started:
  assumes i: "rt_inv r" and none: "\<And>e. e \<in> set (execs r) \<Longrightarrow> ex_dispatch e \<noteq> Some i"
    and d: "d \<in> set (rt_dispatches r)" "di_id d = i" "is_live d"
    and es: "execs_kept (execs r) es" "ex_id x \<notin> ex_id ` set es" "ex_dispatch x = Some i" "ex_task x = di_task d" "ex_status x = ExecRunning"
    and r': "execs r' = es @ [x]" "rt_dispatches r' = map f (rt_dispatches r)"
      "\<And>y. y \<in> set (rt_dispatches r) \<Longrightarrow> di_id (f y) = di_id y \<and> di_invocation (f y) = di_invocation y \<and> di_task (f y) = di_task y \<and>
         is_live (f y) = is_live y \<and> di_exec (f y) = (if di_id y = i then Some (ex_id x) else di_exec y)"
      "rt_reservations r' = map g (rt_reservations r)" "\<And>v. rv_task (g v) = rv_task v \<and> rv_dispatch (g v) = rv_dispatch v"
      "rt_invocations r' = map h (rt_invocations r)" "\<And>v. same_invocation v (h v)"
  shows "rt_inv r'"
proof -
  have m: "map di_id (rt_dispatches r') = map di_id (rt_dispatches r)" "map di_invocation (rt_dispatches r') = map di_invocation (rt_dispatches r)"
    "map rv_task (rt_reservations r') = map rv_task (rt_reservations r)" "map iv_id (rt_invocations r') = map iv_id (rt_invocations r)"
    using r'(3,5,7) by (auto simp: r'(2,4,6) same_invocation_def)
  have "distinct (map ex_id (execs r'))" using i es(1,2) by (simp add: r'(1) rt_inv_def execs_kept_def)
  moreover have "is_live y' \<longleftrightarrow> (\<exists>v \<in> set (rt_reservations r'). rv_dispatch v = di_id y')" if "y' \<in> set (rt_dispatches r')" for y'
  proof -
    from that obtain y where y: "y \<in> set (rt_dispatches r)" "y' = f y" by (auto simp: r'(2))
    with i have "is_live y \<longleftrightarrow> (\<exists>v \<in> set (rt_reservations r). rv_dispatch v = di_id y)" by (simp add: rt_inv_def)
    with y r'(3) [OF y(1)] r'(5) show ?thesis by (simp add: r'(4))
  qed
  moreover have "\<exists>y \<in> set (rt_dispatches r'). di_id y = rv_dispatch v' \<and> di_task y = rv_task v'" if "v' \<in> set (rt_reservations r')" for v'
  proof -
    from that obtain v where v: "v \<in> set (rt_reservations r)" "v' = g v" by (auto simp: r'(4))
    with i obtain y where "y \<in> set (rt_dispatches r)" "di_id y = rv_dispatch v" "di_task y = rv_task v" unfolding rt_inv_def by blast
    with v r'(3) [of y] r'(5) show ?thesis by (auto simp: r'(2))
  qed
  moreover have "ex_status e' \<noteq> ExecQueued \<and> (\<exists>y \<in> set (rt_dispatches r'). di_id y = j \<and> di_exec y = Some (ex_id e') \<and> di_task y = ex_task e' \<and>
      (exec_ended e' \<or> is_live y))" if e: "e' \<in> set (execs r')" "ex_dispatch e' = Some j" for e' j
  proof (cases "e' = x")
    case True
    with e(2) es(3) have "j = i" by simp
    with True d r'(3) [OF d(1)] es(4,5) show ?thesis by (auto simp: r'(2))
  next
    case False
    with e r'(1) have "e' \<in> set es" by auto
    with execs_kept_back [OF es(1)] e(2) obtain z where z: "z \<in> set (execs r)" "same_run z e'" by auto
    with e(2) have zj: "ex_dispatch z = Some j" by (simp add: same_run_def)
    with none [OF z(1)] have j: "j \<noteq> i" by auto
    from i z(1) zj obtain y where y: "y \<in> set (rt_dispatches r)" "di_id y = j" "di_exec y = Some (ex_id z)" "di_task y = ex_task z"
      "exec_ended z \<or> is_live y" "ex_status z \<noteq> ExecQueued" unfolding rt_inv_def by blast
    with j z(2) r'(3) [OF y(1)] have "di_id (f y) = j \<and> di_exec (f y) = Some (ex_id e') \<and> di_task (f y) = ex_task e' \<and>
      (exec_ended e' \<or> is_live (f y)) \<and> ex_status e' \<noteq> ExecQueued" by (auto simp: same_run_def)
    with y(1) show ?thesis by (auto simp: r'(2))
  qed
  moreover have "u' = v'" if uv: "u' \<in> set (rt_invocations r')" "v' \<in> set (rt_invocations r')" "iv_trigger u' = TriggerSchedule"
    "iv_trigger v' = TriggerSchedule" "iv_resource u' = iv_resource v'" "iv_key u' = iv_key v'" for u' v'
  proof -
    from uv obtain u v where w: "u \<in> set (rt_invocations r)" "v \<in> set (rt_invocations r)" "u' = h u" "v' = h v" by (auto simp: r'(6))
    with uv(3-) r'(7) [of u] r'(7) [of v] i have "u = v" unfolding rt_inv_def same_invocation_def by metis
    with w show ?thesis by simp
  qed
  ultimately show ?thesis using rt_inv_distinct(1-4) [OF i] unfolding m [symmetric] by (intro rt_invI)
qed

lemma find_None_all: "find P xs = None \<Longrightarrow> x \<in> set xs \<Longrightarrow> \<not> P x"
  by (auto simp: find_None_iff)

lemma start_run_cases:
  assumes "start_dispatch_run d v r = (Inr e, r1)"
  obtains (old) x where "r1 = r" "x \<in> set (execs r)" "ex_dispatch x = Some (di_id d)" "ex_id x = e"
  | (new) es x where "\<And>y. y \<in> set (execs r) \<Longrightarrow> ex_dispatch y \<noteq> Some (di_id d)" "execs_kept (execs r) es" "ex_id x \<notin> ex_id ` set es"
      "ex_dispatch x = Some (di_id d)" "ex_task x = di_task d" "ex_status x = ExecRunning" "ex_id x = e"
      "execs r1 = es @ [x]" "rt_dispatches r1 = rt_dispatches r" "rt_invocations r1 = rt_invocations r" "rt_reservations r1 = rt_reservations r"
proof (cases "exec_of_dispatch (di_id d) r")
  case (Some x)
  with assms have "r1 = r" "ex_id x = e" by (auto simp: start_dispatch_run_def split: if_splits option.splits)
  moreover from Some have "x \<in> set (execs r)" "ex_dispatch x = Some (di_id d)" by (auto simp: exec_of_dispatch_def dest: find_Some_in)
  ultimately show thesis using old by blast
next
  case None
  then have none: "\<And>y. y \<in> set (execs r) \<Longrightarrow> ex_dispatch y \<noteq> Some (di_id d)" by (auto simp: exec_of_dispatch_def dest: find_None_all)
  from None assms obtain t where t: "find_task (di_task d) r = Some t" by (auto simp: start_dispatch_run_def split: option.splits)
  then have ti: "tk_id t = di_task d" by (auto simp: find_task_def get_task_def dest: find_Some_in)
  define b1 where "b1 = update_task_row (tk_id t) (\<lambda>u. u\<lparr>tk_status := StatusRunning,
      tk_display_order := active_tail (tk_project_id t) (run_tables r)\<rparr>) (run_tables r)"
  from None t assms obtain x where x: "on_tasks (\<lambda>b. create_execution (dispatch_execution t (di_id d) (starts_new_context v r))
      (update_task_row (tk_id t) (\<lambda>u. u\<lparr>tk_status := StatusRunning, tk_display_order := active_tail (tk_project_id t) b\<rparr>) b)) r = (Inr x, r1)"
    "ex_id x = e" by (auto simp: start_dispatch_run_def Let_def split: if_splits elim!: and_then_Inr)
  then obtain b2 where c: "create_execution (dispatch_execution t (di_id d) (starts_new_context v r)) b1 = (Inr x, b2)" and r1: "r1 = put_tables b2 r"
    by (auto simp: on_tasks_def b1_def split: prod.splits sum.splits)
  from create_execution_row [OF c] r1 x(2) ti
  show thesis using execs_kept_update_task_row [of "run_tables r" "tk_id t"] none
    by (intro new [of "db_execs b1" x]) (auto simp: b1_def dispatch_execution_def)
qed

lemma record_activity_fields [simp]:
  "rt_dispatches (record_activity d v r) = rt_dispatches r" "rt_invocations (record_activity d v r) = rt_invocations r"
  "rt_reservations (record_activity d v r) = rt_reservations r" "execs (record_activity d v r) = execs r"
  by (simp_all add: record_activity_def Let_def)

lemma claim_run_safe:
  assumes b: "claim_run_body i c queued now r = (Inr (e, t), r')"
  shows "if queued then safe r r' else safe_but c r r' \<and> (rt_inv r \<longrightarrow> holds_with i c (Some e) r')"
proof (cases "rt_inv r")
  case inv: True
  from b obtain d v where d: "get_dispatch i r = Some d" "may_claim_dispatch c queued now d"
    and v: "get_invocation (di_invocation d) r = Some v"
    by (auto simp: claim_run_body_def split: option.splits if_splits)
  then have mem: "d \<in> set (rt_dispatches r)" "di_id d = i" "is_live d"
    by (auto simp: get_dispatch_def may_claim_dispatch_def is_live_def split: if_splits dest: find_Some_in)
  define P where "P = (\<lambda>x. di_id x = i \<and> may_claim_dispatch c queued now x)"
  from b d v obtain r1 lease where s: "start_dispatch_run d v r = (Inr e, r1)"
    and r': "r' = record_activity d v (set_invocations (\<lambda>x. iv_id x = iv_id v) (\<lambda>x. x\<lparr>iv_status := InvocationRunning,
                                iv_started_at := coalesce (iv_started_at x) (run_now r)\<rparr>)
                    (set_reservations (\<lambda>w. rv_dispatch w = i) (\<lambda>w. w\<lparr>rv_lease := Some lease\<rparr>)
                       (set_dispatches P (\<lambda>x. x\<lparr>di_exec := Some e\<rparr>) r1)))"
    by (auto simp: claim_run_body_def Let_def P_def split: option.splits if_splits elim!: and_then_Inr)
  have only: "y = d" if "y \<in> set (rt_dispatches r)" "di_id y = i" for y using rt_inv_id [OF inv mem(1) that(1)] that(2) mem(2) by simp
  have Pd: "P y \<longleftrightarrow> di_id y = i" if "y \<in> set (rt_dispatches r)" for y using only [OF that] d(2) mem(2) by (auto simp: P_def)
  have same: "rt_dispatches r1 = rt_dispatches r" "rt_reservations r1 = rt_reservations r" "rt_invocations r1 = rt_invocations r"
    using s by (cases rule: start_run_cases; simp)+
  define F where "F = (\<lambda>x :: dispatch_row. if P x then x\<lparr>di_exec := Some e, di_updated_at := run_now r1\<rparr> else x)"
  define G where "G = (\<lambda>w :: reservation_row. if rv_dispatch w = i then w\<lparr>rv_lease := Some lease\<rparr> else w)"
  define H where "H = (\<lambda>x :: invocation_row. if iv_id x = iv_id v then x\<lparr>iv_status := InvocationRunning, iv_started_at := coalesce (iv_started_at x) (run_now r)\<rparr> else x)"
  have f: "rt_dispatches r' = map F (rt_dispatches r)" "rt_reservations r' = map G (rt_reservations r)" "rt_invocations r' = map H (rt_invocations r)"
    "execs r' = execs r1"
    by (simp_all add: r' set_dispatches_map set_reservations_def set_invocations_def same F_def G_def H_def)
  have gh: "rv_task (G w) = rv_task w \<and> rv_dispatch (G w) = rv_dispatch w" "same_invocation x (H x)" for w x
    by (simp_all add: G_def H_def same_invocation_def)
  have hold: "holds_with i c (Some e) r'" unfolding holds_with_def
  proof (intro ballI impI)
    fix y' assume y': "y' \<in> set (rt_dispatches r')" "held_by i c y'"
    then obtain y where y: "y \<in> set (rt_dispatches r)" "y' = F y" by (auto simp: f(1))
    from y(2) y'(2) have "di_id y = i" by (simp add: F_def held_by_def split: if_splits)
    with Pd [OF y(1)] y(2) show "di_exec y' = Some e" by (simp add: F_def)
  qed
  from s have "rt_inv r' \<and> runs_kept r r' \<and> (claims_kept r r' \<or> di_exec d \<noteq> Some e)"
  proof (cases rule: start_run_cases)
    case (old x)
    from rt_inv_exec [OF inv old(2) _ mem(1)] old(3,4) have de: "di_exec d = Some e" by simp
    have "safe r r'"
    proof (rule safe_map [OF f(1), where D = "{}" and g = G and h = H])
      fix y assume y: "y \<in> set (rt_dispatches r)"
      have "di_exec y = Some e" if "P y" using only [OF y] Pd [OF y] that de by simp
      then show "same_dispatch y (F y) \<and> keeps_claim y (F y) \<and> (is_live (F y) \<longleftrightarrow> is_live y \<and> di_id y \<notin> {})"
        by (simp add: F_def same_dispatch_def keeps_claim_def is_live_def)
    qed (use f gh old(1) in simp_all)
    with inv show ?thesis by (simp add: safe_def)
  next
    case (new es x)
    have "rt_inv r'"
      by (rule rt_inv_started [where i = i and d = d and es = es and x = x and f = F and g = G and h = H and r = r])
        (use inv new mem f gh Pd in \<open>auto simp: F_def is_live_def\<close>)
    moreover have "rows_kept r r'"
      by (rule rows_kept_map [where f = F and h = H and ds = "[]" and vs = "[]"]) (use f gh in \<open>simp_all add: F_def\<close>)
    then have "runs_kept r r'" unfolding runs_kept_def f(4) new(8)
      using new(2) by (auto elim: execs_kept_on)
    moreover have "claims_kept r r' \<or> di_exec d \<noteq> Some e"
    proof (cases "di_exec d = Some e")
      case True
      have "claims_kept r r'"
      proof (rule claims_kept_map [OF f(1)])
        fix y assume y: "y \<in> set (rt_dispatches r)"
        have "di_exec y = Some e" if "P y" using only [OF y] Pd [OF y] that True by simp
        then show "same_dispatch y (F y) \<and> keeps_claim y (F y)" by (simp add: F_def same_dispatch_def keeps_claim_def)
      qed
      then show ?thesis ..
    qed simp
    ultimately show ?thesis by blast
  qed
  moreover have "claims_kept r r'" if queued
    unfolding claims_kept_def
  proof (intro ballI impI)
    fix y' assume y': "y' \<in> set (rt_dispatches r')" "di_status y' = DispatchProcessing"
    then obtain y where y: "y \<in> set (rt_dispatches r)" "y' = F y" by (auto simp: f(1))
    have "\<not> P y"
    proof
      assume p: "P y"
      with that have "di_status y = DispatchSubmitted" by (simp add: P_def may_claim_dispatch_def)
      with p y(2) y'(2) show False by (simp add: F_def)
    qed
    with y y'(2) show "\<exists>d \<in> set (rt_dispatches r). di_id d = di_id y' \<and> di_status d = DispatchProcessing \<and>
        di_claimed_by d = di_claimed_by y' \<and> di_exec d = di_exec y'" by (auto simp: F_def)
  qed
  moreover have "claims_but c r r'" if "\<not> queued"
    unfolding claims_but_def
  proof (intro ballI impI)
    fix y' assume y': "y' \<in> set (rt_dispatches r')" "di_status y' = DispatchProcessing" "di_claimed_by y' \<noteq> c"
    then obtain y where y: "y \<in> set (rt_dispatches r)" "y' = F y" by (auto simp: f(1))
    have "\<not> P y"
    proof
      assume p: "P y"
      with that have "di_claimed_by y = c" by (simp add: P_def may_claim_dispatch_def)
      with p y(2) y'(3) show False by (simp add: F_def)
    qed
    with y y'(2) show "\<exists>d \<in> set (rt_dispatches r). di_id d = di_id y' \<and> di_status d = DispatchProcessing \<and>
        di_claimed_by d = di_claimed_by y' \<and> di_exec d = di_exec y'" by (auto simp: F_def)
  qed
  ultimately show ?thesis using hold by (auto simp: safe_def safe_but_def)
next
  case False
  then show ?thesis by (simp add: safe_def safe_but_def)
qed

lemma claimed_execution_safe: "safe r (snd (claimed_execution e r))"
  unfolding claimed_execution_def
  by (intro safe_and_then safe_run_txn) (auto split: option.split prod.split intro!: safe_publish dest: safe_run_fault)

lemma claim_queued_safe: "safe r (snd (claim_queued_dispatch i now r))"
proof -
  have "safe r r'" if q: "claim_queued_body i now r = (Inr x, r')" for r x r'
  proof -
    from q obtain y r1 where y: "claim_run_body i '''' True now r = (Inr y, r1)"
      "(\<lambda>(e, t) r1. case t of None \<Rightarrow> (Inl RowMissing, r1) | Some u \<Rightarrow> (Inr (e, u), r1)) y r1 = (Inr x, r')"
      unfolding claim_queued_body_def by (rule and_then_Inr)
    obtain e t where et: "y = (e, t)" by fastforce
    with y(2) have "r' = r1" by (auto split: option.splits)
    with claim_run_safe [of i "''''" True now r e t r1] y(1) et show ?thesis by simp
  qed
  moreover have "safe r2 (snd (if tk_status u \<noteq> StatusRunning then (Inl RowMissing, r2) else (Inr (x, u), r2)))" for r2 u x by simp
  ultimately show ?thesis unfolding claim_queued_dispatch_def
    by (intro safe_and_then safe_run_txn_committed) (auto split: prod.split intro!: safe_and_then claimed_execution_safe)
qed

lemma claim_dispatch_safe:
  assumes "claim_automation_dispatch i c now r = (x, r')"
  shows "safe_but c r r'" "rt_inv r \<Longrightarrow> x = Inr ex \<Longrightarrow> holds_with i c (Some (ex_id ex)) r'"
proof -
  have body: "safe_but c r r' \<and> (rt_inv r \<longrightarrow> holds_with i c (Some (fst y)) r')" if "claim_run_body i c False now r = (Inr y, r')" for r y r'
    using claim_run_safe [of i c False now r "fst y" "snd y" r'] that by simp
  obtain m r1 where m: "run_txn (claim_run_body i c False now) r = (m, r1)" by fastforce
  have s: "safe_but c r (snd (run_txn (claim_run_body i c False now) r))" by (rule safe_but_run_txn) (use body in blast)
  show "safe_but c r r'"
  proof (cases m)
    case (Inl z)
    with m s assms show ?thesis by (simp add: claim_automation_dispatch_def and_then_def)
  next
    case (Inr y)
    with m assms have "claimed_execution (fst y) r1 = (x, r')" by (cases y) (simp add: claim_automation_dispatch_def and_then_def)
    with claimed_execution_safe [of r1 "fst y"] have "safe r1 r'" by simp
    with s m show ?thesis by (auto intro: safe_but_trans safe_butI)
  qed
  assume inv: "rt_inv r" and x: "x = Inr ex"
  from assms x obtain y r1 where y: "run_txn (claim_run_body i c False now) r = (Inr y, r1)" "claimed_execution (fst y) r1 = (Inr ex, r')"
    by (auto simp: claim_automation_dispatch_def elim!: and_then_Inr)
  from y(1) obtain r0 where r0: "quiet r r0" "claim_run_body i c False now r0 = (Inr y, r1)" by (rule run_txn_committed)
  from inv safe_quiet [OF r0(1)] have "rt_inv r0" by (simp add: safe_def)
  with body [OF r0(2)] have h: "holds_with i c (Some (fst y)) r1" "rt_inv r1" by (auto simp: safe_but_def)
  from claimed_execution_safe [of r1 "fst y"] y(2) h(2) have "claims_kept r1 r'" by (simp add: safe_def)
  moreover have "ex_id ex = fst y"
    using y(2) by (auto simp: claimed_execution_def run_txn_def find_exec_def split: prod.splits option.splits bool.splits
        elim!: and_then_Inr dest!: find_Some_in)
  ultimately show "holds_with i c (Some (ex_id ex)) r'" using holds_with_kept [OF h(1)] by simp
qed

end
