(* ===== verification/DispatchLaws.thy ===== *)
theory DispatchLaws
  imports DispatchRuns TaskLaws
begin

subsection \<open>What the rest of the program does to executions\<close>





















subsection \<open>Everything together\<close>


























subsection \<open>The properties\<close>










subsection \<open>A run\<close>


















end
