(* ===== verification/Spec2Isabelle.thy ===== *)
theory Spec2Isabelle
  imports UpdateClaims ClientLaws Schedule Retry WorkerExec ActiveLane BoardOrder SwarmLaws StreamLaws LiveLaws TaskClaims SchedulerLaws GoalLaws DispatchLaws
begin

text \<open>
  A verification library for OpenVibely (\<open>src/\<close>), a Go server that runs coding agents on tasks.

  \<^bold>\<open>The program.\<close> Tasks lie on a board and in the tables of an SQLite database
  (\<open>internal/models\<close>, \<open>internal/persistence/sqlite\<close>). A schedule makes a task due again and again;
  a worker pool (\<open>internal/service/worker_service.go\<close>) takes tasks from its queue within its limits,
  claims each in the database and runs an agent on it; a swarm (\<open>swarm_service.go\<close>) is a parent task
  whose planner, workers, reviewer and merger are tasks of their own. An agent calls a model over
  HTTP, with retries (\<open>internal/httpretry\<close>), and its output goes through a writer
  (\<open>internal/llm/stream\<close>) into the database and through a hub (\<open>internal/events\<close>) to the windows that
  watch it (\<open>internal/handler/live_websocket.go\<close>). An update (\<open>internal/update\<close>) first drains the
  pool. The components meet in the tables, in the pool and in the hub: a claim moves a row and
  takes a slot, the end of a child moves its parent, a drain closes the gate the pool asks.

  \<^bold>\<open>Conventions.\<close> A struct is a record, an enumeration a datatype, a string a list of bytes, a
  duration and an instant a number of nanoseconds. An operation is a function from the state and
  what it is given to its result or error and the state after it. What the code gets from outside -
  the clock, the random generator, which system calls and which transactions fail, what the model
  or the network answers - is an argument or a script in the state, and the theorems quantify over
  it. Operations that run under one lock or in one transaction are one step; what happens between
  two locked sections is interleaved by a step relation, and a property of the whole is an
  invariant of its reachable states. Contracts between components are locales, interpreted on the
  definitions of the model. Errors are values, and a loop whose end is not evident is a partial
  function whose return is a theorem.

  \<^bold>\<open>Shared theories.\<close> \<open>Prelude\<close>: Go's strings, times and lists, generic lemmas. \<open>Utf8\<close>: package
  \<open>unicode/utf8\<close> and what keeps a text valid. \<open>Runs\<close>: runs of a component by what is asked of it, and the locale of
  simulations. \<open>Models\<close>: tasks, swarm and chain configurations, worker limits and goals
  (\<open>internal/models/task.go\<close>, \<open>task_goal.go\<close>, \<open>worker_limit.go\<close>).

  \<^bold>\<open>Update drain\<close> (\<open>internal/update/drain.go\<close>). \<open>DurableFile\<close>: the replacement of a state file by a
  temporary one, with every system call able to fail; the contract is the locale \<open>durable_slot\<close>.
  \<open>Drain\<close>: the work tracker and the drain manager, the persisted state, the wiring of
  \<open>internal/server/server.go\<close>, and the step relation of all of it. Proved: the gate, the channel
  and the state agree; a drain that is ready has no work and admits none; an owned drain ends by its
  owner or a cancel only; a restart resumes it; it becomes ready once work has stopped.

  \<^bold>\<open>Update client\<close> (\<open>internal/update/client.go\<close>). \<open>UpdateClient\<close>: the check of the service, the
  verification of a signed release, the state file with the highest version, the validation before an
  installation. \<open>ClientLaws\<close>: histories of checks. Proved: no rollback below a version once accepted, and
  only releases a key of the client has signed. Package \<open>semver\<close> enters by its documented order
  (\<open>semver_laws\<close>).

  \<^bold>\<open>Update coordinator\<close> (\<open>coordinator.go\<close>). \<open>Coordinator\<close>: its fields and file, every locked section as a
  function on drain and coordinator, the goroutines as jobs (\<open>job_run\<close>), \<open>SetPersistence\<close> by its parts
  and \<open>StartRecovery\<close>. \<open>UpdateRuns\<close>: jobs, users and the rest of the program interleaved
  (\<open>update_step\<close>), and processes that end anywhere and start again on the files (\<open>life\<close>).
  \<open>UpdateLaws\<close>: what each section does to the drain (\<open>shifts\<close>, \<open>moves\<close>). \<open>UpdateSafety\<close>: the invariant of a
  process, of its files and of start-up. \<open>UpdateClaims\<close>: the properties. Proved: a replacement runs only
  under its own drain, Ready, without executions and without a second one; a restart leaves an operation
  in step with the drain and no drain without somebody to end it.

  \<^bold>\<open>Schedules\<close> (\<open>internal/models/schedule.go\<close>). \<open>Schedule\<close>: the calendar, zones and all of
  \<open>ComputeNextRun\<close>. Proved: the run computed is the first occurrence after the given instant, also
  over a gap of the clock, and the loops end for every zone whose offsets stay below a day.

  \<^bold>\<open>Retries\<close> (\<open>internal/httpretry/http.go\<close>, \<open>request.go\<close>). \<open>Retry\<close>: the classification of errors, the
  backoff and the three loops. Proved: a request that must not be replayed is sent once, no loop
  exceeds its budget, delays stay in their bounds.

  \<^bold>\<open>Worker pool\<close> (\<open>worker_service.go\<close>). \<open>WorkerPool\<close>: queue, slots, the scan that launches, limits,
  cancellation. \<open>WorkerExec\<close>: the goroutine of a running task by its phases, its deferred function by the
  sections it locks, interleaved with all else. Proved: a scan keeps, launches or drops each entry of the queue exactly once and stays within the
  limits; the counts always equal the slots held; an ended execution cannot take away the cancel
  function of the next.

  \<^bold>\<open>Task repository\<close> (\<open>internal/persistence/sqlite/task_repo.go\<close>, \<open>swarm_stop_revision.go\<close>,
  \<open>sqlite_write.go\<close>). \<open>TaskDb\<close>: tables, constraints, triggers, transactions. \<open>TaskStore\<close>: the
  statements. \<open>TaskLaws\<close>: invariant of the tables, claims as the locales \<open>guarded_claim\<close>
  and \<open>exclusive_claim\<close>. \<open>TaskClaims\<close>: races of the three ways to claim, plain, by the worker pool and
  of a reserved execution, as an interpretation of them.
  \<open>ActiveLane\<close>: moves to the active lane and the stop revision. \<open>BoardOrder\<close>: the sorts of the board
  against the library's sort. Proved: one task is claimed once; an error changes nothing; a move
  keeps its order; no write takes back a stop.

  \<^bold>\<open>Swarms\<close> (\<open>swarm_service.go\<close>, \<open>task_service.go\<close>). \<open>SwarmPlan\<close>: the planner's answer and branch
  names. \<open>SwarmPrompts\<close>: the texts of the prompts. \<open>SwarmState\<close>: tables, pool and results together,
  and the task service. \<open>SwarmService\<close>: the stages of children, the parent's status, the stop.
  \<open>SwarmPlanner\<close>: creation, plans, follow-ups, reruns. \<open>SwarmChildren\<close>: the search for a free title
  ends. \<open>SwarmLaws\<close>: a stop reaches every child, a stopped swarm is left alone, a parent is
  complete exactly when its work is. The fuel of the search for a title is \<open>child_fuel\<close>, two more
  than there are tasks: each title tried is new, and only a stored task can refuse one.

  \<^bold>\<open>Task goals\<close> (\<open>task_goal_service.go\<close>, \<open>task_goal_repo.go\<close>). \<open>Goals\<close>: the statements on the
  rows, the service with its events, the goals a task or an automation is saved with
  (\<open>task_repo.go\<close>), and the handlers of \<open>task_goal_handler.go\<close> and \<open>task_handler.go\<close>. \<open>GoalLaws\<close>: calls of
  users, agents and automations interleaved, those of several sections cut between them, and every
  operation of the service as such a run. Proved: the status of a goal is accounted for by the
  statements since the goal was set; the merge of an achieved goal runs once for each time it was
  marked.

  \<^bold>\<open>Schedule calendar and scheduler.\<close> \<open>Calendar\<close> (\<open>schedule_calendar.go\<close>,
  \<open>schedule_calendar_scope.go\<close>): the exclusions and pauses a user lays over the schedules of a
  project or of all, with the action that undoes each, and the admission of an occurrence, which
  advances its schedule and queues an execution. \<open>ScheduleStore\<close> (\<open>schedule_repo.go\<close>): the writes of
  schedules and the scan for due ones. \<open>Scheduler\<close> (\<open>scheduler_service.go\<close>,
  \<open>schedule_calendar_planner.go\<close>, \<open>StartPlannerForScheduledRun\<close>): a tick over the calendar, the tables,
  the pool and the swarms. \<open>CalendarLaws\<close>: the stored intervals against their meaning as a set of
  instants; the last selection decides, and every change of exclusions is undone exactly.
  \<open>CalendarClaims\<close>: an occurrence is admitted once, by the locale \<open>guarded_claim\<close> the claims of tasks
  use too, and what is admitted can be claimed by a worker. \<open>CalendarInv\<close>, \<open>SchedulerLaws\<close>: every
  operation keeps the tables well formed, over all reachable states of users, ticks and repository.

  \<^bold>\<open>Automation runs\<close> (\<open>automation_runtime_repo.go\<close>, \<open>task_automation_repo.go\<close>,
  \<open>automation_lifecycle_repo.go\<close>). An automation owns schedules; the claim of an occurrence makes an
  invocation, a dispatch and a reservation of its task. \<open>Dispatch\<close>: the claims of occurrences and of
  manual runs, leases, the claim of a dispatch by a worker, its retries, cancellation, failure and
  completion, the pause and the archive of an automation, over the tables of the calendar and the tasks.
  \<open>DispatchInv\<close>, \<open>DispatchRuns\<close>: the invariant of these tables, and that every operation keeps it,
  the claims others hold and the executions there are. \<open>DispatchLaws\<close>: the dispatchers of any number of
  processes (\<open>automation_dispatcher.go\<close>), cut between their calls and interleaved with all other
  operations and the rest of the program. Proved: a task has one live dispatch, its reservation's, and
  one execution that runs for it; an occurrence is run at most once, ever.

  \<^bold>\<open>Live output.\<close> \<open>StreamHub\<close> (\<open>internal/events/execution_stream_hub.go\<close>): the hub by the sections of
  its calls, interleaved at will. \<open>StreamLaws\<close>: it refines a stream with its viewers, loses no event
  without closing the channel, and never panics. \<open>Transcript\<close> (\<open>internal/llm/transcript/markers.go\<close>)
  and \<open>Display\<close> (\<open>internal/transcript/display.go\<close>, \<open>internal/llm/tooloutput\<close>): Markdown code ranges,
  canonical markers, and the items a transcript is shown as. \<open>DisplayLaws\<close>, \<open>DisplayTypes\<close>: the
  scanners equal the regular expressions they stand for, items written out are the canonical text
  byte for byte, and they are well formed. \<open>LiveOutput\<close> (\<open>internal/llm/stream/writer.go\<close>,
  \<open>display_items.go\<close>, \<open>execution_replay.go\<close> of the repository, \<open>live_websocket.go\<close>): writer, rows,
  reads from an offset and a window, in one step relation. \<open>LiveLaws\<close>: a window has exactly the
  beginning of the output its cursor says, in every interleaving, as long as the writer could load
  what was stored before it and no marker variant is rewritten; and without these two conditions its
  code returns. \<open>TextUtf8\<close>: canonical markers keep a text valid UTF-8, which ends the loop over chunks.

  \<^bold>\<open>What modelling showed.\<close> \<open>DurableFile.replace_windows_can_lose\<close>: on Windows a failed replacement can
  lose the old state file. \<open>Retry.deadline_exceeded_is_retryable\<close>: an expired deadline counts as
  transient, against the comment. \<open>WorkerExec.reserved_then_queued_twice\<close>: a reserved task can have
  two queue entries. \<open>LiveLaws.alias_repeats_tail\<close>: where the output holds a marker variant, the
  stored text is not as long as the streamed one, and a window shows its end twice.
  \<open>LiveLaws.failed_seed_loses_output\<close>: where the writer cannot load the earlier output of an execution it
  starts empty, and its last flush replaces that output. \<open>UpdateClaims.cancel_crosses_replacement\<close>: a cancellation that crosses the hand-over releases the drain
  under a running installer; the properties of the coordinator hold of histories without one. An update
  accepted on a docker build with an agent is never staged and so always fails. \<open>GoalLaws.saved_goal_stays_cleared\<close>:
  an automation saved with the text of a cleared goal leaves the goal cleared.

  \<^bold>\<open>Not modelled.\<close> The handlers, templates and assets of the user interface and the channels to chat
  services are conversions between requests and calls of the services. The adapters of model
  providers, OAuth, GitHub and worktrees drive other programs whose behaviour is not in the
  sources; nor is that of what the installers replace, start and watch: to the coordinator an installer is
  its interfaces and the results of its calls. Of the updater, downloads, hosted updates and the helper
  processes are left out. Of the automations, their compiler and the saving of definitions, resumption and
  deletion, the hand-over of one node's work to the next, GitHub deduplication and the projections
  the pages read are not here, nor are the prompts and answers by which a model evaluates a goal.
  Of the repository, the searches, analytics, deletion with its manifest and the rows of
  conversations beyond display items are left out; of the pool, the lifecycle hooks; of the
  schedules, the listings for pages; of the scheduler, its ticker, the clean-up of worktrees and its part in
  the claims of automations, which are operations of \<open>Dispatch\<close>; of the live output, the socket's tickets,
  origin check and limits. SQLite, encoding/json, SHA-256 and the
  zone database are taken by their documented behaviour. Where strings are trimmed or lowered, the
  functions of \<open>Prelude\<close> are those of package \<open>strings\<close> on ASCII text, and those of \<open>Transcript\<close> on all
  UTF-8 text.
\<close>

end
